(* ===== verification/Prelude.thy ===== *)
theory Prelude
  imports Main "HOL-Library.AList" "HOL-Library.Sublist" "HOL-Library.Multiset"
begin

text \<open>
  What the component theories share: the JavaScript string, array, \<open>Map\<close> and \<open>Set\<close>
  operations the TypeScript sources use, with their laws, and the contract of a component
  that is driven by events.

  A \<^typ>\<open>string\<close> is a list of characters in the range 0 to 255, so white space and case
  conversion are those of the Latin-1 range of JavaScript. A \<open>Map\<close> iterates in insertion
  order and \<open>set\<close> keeps the position of an existing key: it is an association list, and
  \<open>AList.update\<close> is its \<open>set\<close>, \<open>AList.delete\<close> its \<open>delete\<close>, \<open>map_of\<close> its
  \<open>get\<close>. A \<open>Set\<close> is the list of its members in insertion order. \<open>undefined\<close> and
  \<open>null\<close> are \<open>None\<close>.
\<close>

section \<open>Collections of rules\<close>

named_theorems js_array \<open>laws of the JavaScript array operations\<close>
named_theorems js_collection \<open>laws of the JavaScript Map and Set operations\<close>

section \<open>Strings\<close>

definition js_space :: "char \<Rightarrow> bool" where
  "js_space c \<longleftrightarrow>
     c \<in> set [CHR '' '', CHR 0x09, CHR 0x0A, CHR 0x0B, CHR 0x0C, CHR 0x0D, CHR 0xA0]"

text \<open>\<open>s.trim()\<close>\<close>

definition js_trim :: "string \<Rightarrow> string" where
  "js_trim s = rev (dropWhile js_space (rev (dropWhile js_space s)))"

definition trimmed :: "string \<Rightarrow> bool" where
  "trimmed s \<longleftrightarrow> s = [] \<or> (\<not> js_space (hd s) \<and> \<not> js_space (last s))"

lemma js_trim_Nil [simp]: "js_trim [] = []"
  by (simp add: js_trim_def)

lemma js_trim_id: "trimmed s \<Longrightarrow> js_trim s = s"
proof (cases s)
  case (Cons a t)
  assume "trimmed s"
  with Cons have h: "\<not> js_space a" and l: "\<not> js_space (last s)"
    by (auto simp: trimmed_def)
  from h Cons have "dropWhile js_space s = s" by simp
  moreover from l Cons have "dropWhile js_space (rev s) = rev s"
    by (cases "rev s") (auto simp: hd_rev [symmetric] simp del: hd_rev)
  ultimately show ?thesis by (simp add: js_trim_def)
qed simp

lemma last_dropWhile: "dropWhile P xs \<noteq> [] \<Longrightarrow> last (dropWhile P xs) = last xs"
  by (metis last_appendR takeWhile_dropWhile_id)

lemma trimmed_js_trim [simp]: "trimmed (js_trim s)"
proof (cases "js_trim s")
  case Nil
  then show ?thesis by (simp add: trimmed_def)
next
  case (Cons a t)
  let ?d = "dropWhile js_space s"
  let ?e = "dropWhile js_space (rev ?d)"
  from Cons have ne: "?e \<noteq> []" by (auto simp: js_trim_def)
  then have "\<not> js_space (hd ?e)" by (rule hd_dropWhile)
  then have l: "\<not> js_space (last (js_trim s))"
    by (simp add: js_trim_def last_rev)
  from ne have dne: "?d \<noteq> []" by (metis dropWhile.simps(1) rev.simps(1))
  then have hd_d: "\<not> js_space (hd ?d)" by (rule hd_dropWhile)
  have "hd (js_trim s) = last ?e"
    using ne by (simp add: js_trim_def hd_rev)
  also have "\<dots> = hd ?d"
    using ne dne by (simp add: last_dropWhile last_rev)
  finally show ?thesis using l hd_d by (simp add: trimmed_def)
qed

lemma js_trim_idem [simp]: "js_trim (js_trim s) = js_trim s"
  by (simp add: js_trim_id)

lemma trimmed_iff: "trimmed s \<longleftrightarrow> js_trim s = s"
  by (metis js_trim_id trimmed_js_trim)

lemma trimmed_append:
  "trimmed s \<Longrightarrow> trimmed t \<Longrightarrow> s \<noteq> [] \<Longrightarrow> t \<noteq> [] \<Longrightarrow> trimmed (s @ u @ t)"
  by (auto simp: trimmed_def)

text \<open>\<open>s.toLowerCase()\<close> on the Latin-1 range\<close>

definition js_lower_char :: "char \<Rightarrow> char" where
  "js_lower_char c =
     (let n = (of_char c :: nat)
      in if (65 \<le> n \<and> n \<le> 90) \<or> (192 \<le> n \<and> n \<le> 222 \<and> n \<noteq> 215) then char_of (n + 32) else c)"

definition js_lower :: "string \<Rightarrow> string" where
  "js_lower s = List.map js_lower_char s"

text \<open>\<open>s.startsWith(p)\<close> and \<open>s.slice(n)\<close> for a non-negative \<open>n\<close> are \<^const>\<open>prefix\<close>
  and \<^const>\<open>drop\<close>. \<open>s.split(c)\<close> for a one-character separator:\<close>

fun js_split :: "char \<Rightarrow> string \<Rightarrow> string list" where
  "js_split c [] = [[]]"
| "js_split c (x # xs) =
     (if x = c then [] # js_split c xs
      else (case js_split c xs of [] \<Rightarrow> [[x]] | y # ys \<Rightarrow> (x # y) # ys))"

lemma js_split_not_Nil [simp]: "js_split c s \<noteq> []"
  by (cases s) (auto split: list.splits)

lemma js_split_single: "c \<notin> set s \<Longrightarrow> js_split c s = [s]"
  by (induction s) auto

lemma js_split_no_sep: "p \<in> set (js_split c s) \<Longrightarrow> c \<notin> set p"
  by (induction s arbitrary: p) (auto split: if_splits list.splits)

lemma js_split_append: "c \<notin> set s \<Longrightarrow> js_split c (s @ c # t) = s # js_split c t"
  by (induction s) auto

text \<open>\<open>parts.join(c)\<close> for a one-character separator\<close>

fun js_join :: "char \<Rightarrow> string list \<Rightarrow> string" where
  "js_join c [] = []"
| "js_join c [p] = p"
| "js_join c (p # ps) = p @ c # js_join c ps"

lemma js_split_join:
  "ps \<noteq> [] \<Longrightarrow> (\<And>p. p \<in> set ps \<Longrightarrow> c \<notin> set p) \<Longrightarrow> js_split c (js_join c ps) = ps"
  by (induction c ps rule: js_join.induct) (auto simp: js_split_single js_split_append)

text \<open>\<open>String(n)\<close> for a natural number\<close>

definition digit_char :: "nat \<Rightarrow> char" where
  "digit_char d = char_of (48 + d mod 10)"

fun nat_str :: "nat \<Rightarrow> string" where
  "nat_str n = (if n < 10 then [digit_char n] else nat_str (n div 10) @ [digit_char (n mod 10)])"

declare nat_str.simps [simp del]

lemma append_sep_inject:
  "c \<notin> set x \<Longrightarrow> c \<notin> set y \<Longrightarrow> x @ c # u = y @ c # v \<longleftrightarrow> x = y \<and> u = v"
proof (induction x arbitrary: y)
  case Nil
  then show ?case by (cases y) auto
next
  case (Cons a x)
  then show ?case by (cases y) auto
qed

section \<open>Arrays\<close>

text \<open>\<open>xs.indexOf(x)\<close>: the first index, or \<open>-1\<close>\<close>

fun index_of :: "'a list \<Rightarrow> 'a \<Rightarrow> int" where
  "index_of [] x = -1"
| "index_of (y # ys) x =
     (if y = x then 0 else let i = index_of ys x in if i < 0 then -1 else i + 1)"

lemma index_of_ge: "-1 \<le> index_of xs x"
  by (induction xs) (auto simp: Let_def)

lemma index_of_less: "index_of xs x < int (length xs)"
  by (induction xs) (auto simp: Let_def)

lemma index_of_neg_iff [js_array]: "index_of xs x < 0 \<longleftrightarrow> x \<notin> set xs"
  by (induction xs) (auto simp: Let_def)

lemma index_of_eq_m1_iff [js_array]: "index_of xs x = -1 \<longleftrightarrow> x \<notin> set xs"
  using index_of_neg_iff [of xs x] index_of_ge [of xs x] by linarith

lemma index_of_nonneg_iff [js_array]: "0 \<le> index_of xs x \<longleftrightarrow> x \<in> set xs"
  using index_of_neg_iff [of xs x] by linarith

lemma index_of_nth: "x \<in> set xs \<Longrightarrow> xs ! nat (index_of xs x) = x"
proof (induction xs)
  case (Cons y ys)
  show ?case
  proof (cases "y = x")
    case False
    with Cons.prems have "x \<in> set ys" by simp
    moreover from this have "0 \<le> index_of ys x" by (simp add: index_of_nonneg_iff)
    ultimately show ?thesis
      using False Cons.IH by (simp add: nat_add_distrib)
  qed simp
qed simp

lemma index_of_append_hit: "c \<notin> set s \<Longrightarrow> index_of (s @ c # t) c = int (length s)"
  by (induction s) auto

lemma take_index_of_notin: "x \<notin> set (take (nat (index_of xs x)) xs)"
proof (induction xs)
  case (Cons y ys)
  show ?case
  proof (cases "y = x \<or> index_of ys x < 0")
    case False
    with Cons show ?thesis by (auto simp: Let_def nat_add_distrib)
  qed (auto simp: Let_def)
qed simp

lemma split_at_index_of:
  assumes "x \<in> set xs"
  shows "xs = take (nat (index_of xs x)) xs @ x # drop (nat (index_of xs x) + 1) xs"
proof -
  let ?i = "nat (index_of xs x)"
  have "?i < length xs"
    using assms index_of_less [of xs x] index_of_nonneg_iff [of xs x] by simp
  then have "xs = take ?i xs @ xs ! ?i # drop (Suc ?i) xs" by (rule id_take_nth_drop)
  with assms show ?thesis by (simp add: index_of_nth)
qed

text \<open>\<open>xs[i]\<close>, \<open>undefined\<close> out of range\<close>

definition js_at :: "'a list \<Rightarrow> int \<Rightarrow> 'a option" where
  "js_at xs i = (if 0 \<le> i \<and> i < int (length xs) then Some (xs ! nat i) else None)"

lemma js_at_in_set: "js_at xs i = Some x \<Longrightarrow> x \<in> set xs"
  by (auto simp: js_at_def split: if_splits)

text \<open>\<open>xs.splice(i, 0, x)\<close> and \<open>xs.splice(i, 1)\<close>: a negative start counts from the end,
  a start beyond the end is the end\<close>

definition splice_start :: "int \<Rightarrow> nat \<Rightarrow> nat" where
  "splice_start i n =
     (if i < 0 then nat (max 0 (int n + i)) else min (nat i) n)"

definition splice_insert :: "'a list \<Rightarrow> int \<Rightarrow> 'a \<Rightarrow> 'a list" where
  "splice_insert xs i x =
     (let k = splice_start i (length xs) in take k xs @ x # drop k xs)"

definition splice_remove :: "'a list \<Rightarrow> int \<Rightarrow> 'a list" where
  "splice_remove xs i =
     (let k = splice_start i (length xs) in take k xs @ drop (Suc k) xs)"

lemma mset_take_drop: "mset (take k xs) + mset (drop k xs) = mset xs"
  by (metis append_take_drop_id mset_append)

lemma mset_splice_insert [js_array]: "mset (splice_insert xs i x) = add_mset x (mset xs)"
  by (simp add: splice_insert_def Let_def mset_take_drop)

lemma set_splice_insert [simp, js_array]: "set (splice_insert xs i x) = insert x (set xs)"
  by (metis mset_splice_insert set_mset_add_mset_insert set_mset_mset)

lemma length_splice_insert [simp, js_array]: "length (splice_insert xs i x) = Suc (length xs)"
  by (simp add: splice_insert_def Let_def)

lemma distinct_splice_insert [simp, js_array]:
  "distinct (splice_insert xs i x) \<longleftrightarrow> x \<notin> set xs \<and> distinct xs"
proof -
  have "mset (splice_insert xs i x) = mset (x # xs)"
    by (simp add: mset_splice_insert)
  then have "distinct (splice_insert xs i x) = distinct (x # xs)"
    by (rule mset_eq_imp_distinct_iff)
  then show ?thesis by simp
qed

lemma splice_insert_not_Nil [simp]: "splice_insert xs i x \<noteq> []"
  by (simp add: splice_insert_def Let_def)

lemma filter_splice_insert:
  "\<not> P x \<Longrightarrow> List.filter P (splice_insert xs i x) = List.filter P xs"
  by (simp add: splice_insert_def Let_def)
    (simp flip: filter_append)

lemma splice_remove_index_of:
  assumes "x \<in> set xs"
  shows "splice_remove xs (index_of xs x) = remove1 x xs"
proof -
  let ?i = "nat (index_of xs x)"
  have r: "0 \<le> index_of xs x" "index_of xs x < int (length xs)"
    using assms index_of_less [of xs x] by (auto simp: index_of_nonneg_iff)
  then have k: "splice_start (index_of xs x) (length xs) = ?i"
    by (simp add: splice_start_def)
  have "remove1 x xs = remove1 x (take ?i xs @ x # drop (?i + 1) xs)"
    using split_at_index_of [OF assms] by simp
  also have "\<dots> = take ?i xs @ drop (Suc ?i) xs"
    by (simp add: remove1_append take_index_of_notin)
  finally show ?thesis by (simp add: splice_remove_def k Let_def)
qed

text \<open>\<open>Array.from(new Set(xs))\<close>: the first occurrence of every element, in order\<close>

definition jset_add :: "'a \<Rightarrow> 'a list \<Rightarrow> 'a list" where
  "jset_add x xs = (if x \<in> set xs then xs else xs @ [x])"

definition js_unique :: "'a list \<Rightarrow> 'a list" where
  "js_unique xs = fold jset_add xs []"

lemma set_jset_add [simp, js_collection]: "set (jset_add x xs) = insert x (set xs)"
  by (auto simp: jset_add_def)

lemma distinct_jset_add [simp, js_collection]: "distinct (jset_add x xs) = distinct xs"
  by (auto simp: jset_add_def)

lemma set_fold_jset_add [js_collection]: "set (fold jset_add xs ys) = set ys \<union> set xs"
  by (induction xs arbitrary: ys) auto

lemma distinct_fold_jset_add [js_collection]: "distinct ys \<Longrightarrow> distinct (fold jset_add xs ys)"
  by (induction xs arbitrary: ys) auto

lemma set_js_unique [simp, js_collection]: "set (js_unique xs) = set xs"
  by (simp add: js_unique_def set_fold_jset_add)

lemma distinct_js_unique [simp, js_collection]: "distinct (js_unique xs)"
  by (simp add: js_unique_def distinct_fold_jset_add)

lemma fold_jset_add_distinct:
  "distinct xs \<Longrightarrow> set xs \<inter> set ys = {} \<Longrightarrow> fold jset_add xs ys = ys @ xs"
  by (induction xs arbitrary: ys) (auto simp: jset_add_def)

lemma js_unique_id: "distinct xs \<Longrightarrow> js_unique xs = xs"
  by (simp add: js_unique_def fold_jset_add_distinct)

section \<open>Maps\<close>

type_synonym ('k, 'v) jmap = "('k \<times> 'v) list"

abbreviation jm_get :: "('k, 'v) jmap \<Rightarrow> 'k \<Rightarrow> 'v option" where
  "jm_get \<equiv> map_of"

abbreviation jm_set :: "'k \<Rightarrow> 'v \<Rightarrow> ('k, 'v) jmap \<Rightarrow> ('k, 'v) jmap" where
  "jm_set \<equiv> AList.update"

abbreviation jm_delete :: "'k \<Rightarrow> ('k, 'v) jmap \<Rightarrow> ('k, 'v) jmap" where
  "jm_delete \<equiv> AList.delete"

abbreviation jm_has :: "('k, 'v) jmap \<Rightarrow> 'k \<Rightarrow> bool" where
  "jm_has m k \<equiv> map_of m k \<noteq> None"

abbreviation jm_keys :: "('k, 'v) jmap \<Rightarrow> 'k list" where
  "jm_keys m \<equiv> List.map fst m"

abbreviation jm_ok :: "('k, 'v) jmap \<Rightarrow> bool" where
  "jm_ok m \<equiv> distinct (List.map fst m)"

lemma jm_get_set [simp, js_collection]:
  "jm_get (jm_set k v m) k' = (if k' = k then Some v else jm_get m k')"
  by (simp add: update_conv')

lemma jm_get_delete [simp, js_collection]:
  "jm_get (jm_delete k m) k' = (if k' = k then None else jm_get m k')"
  by (simp add: delete_conv')

lemma jm_keys_set: "set (jm_keys (jm_set k v m)) = insert k (set (jm_keys m))"
  using dom_update [of k v m] by (simp add: dom_map_of_conv_image_fst)

lemma jm_ok_set [simp, js_collection]: "jm_ok m \<Longrightarrow> jm_ok (jm_set k v m)"
  by (rule distinct_update)

lemma jm_ok_delete [simp, js_collection]: "jm_ok m \<Longrightarrow> jm_ok (jm_delete k m)"
  by (rule distinct_delete)

lemma jm_all_set [intro, js_collection]:
  "list_all P m \<Longrightarrow> P (k, v) \<Longrightarrow> list_all P (jm_set k v m)"
  by (induction m) auto

lemma jm_all_delete [intro, js_collection]: "list_all P m \<Longrightarrow> list_all P (jm_delete k m)"
  by (auto simp: AList.delete_eq list_all_iff)

lemma jm_get_filter [js_collection]:
  "jm_ok m \<Longrightarrow> jm_get (List.filter (\<lambda>(k, v). P v) m) k =
     (case jm_get m k of None \<Rightarrow> None | Some v \<Rightarrow> if P v then Some v else None)"
proof (induction m)
  case (Cons p m)
  then show ?case
    by (cases p) (auto split: option.splits simp: map_of_eq_None_iff)
qed simp

lemma jm_get_in: "jm_get m k = Some v \<Longrightarrow> (k, v) \<in> set m"
  by (rule map_of_SomeD)

lemma jm_keys_get: "k \<in> set (jm_keys m) \<longleftrightarrow> jm_has m k"
  by (simp add: map_of_eq_None_iff)

section \<open>Components driven by events\<close>

text \<open>
  A component with a state and a total step function keeps an invariant that each step keeps;
  the lemmas lift that to every run and to every prefix of a run.
\<close>

locale event_machine =
  fixes step :: "'s \<Rightarrow> 'e \<Rightarrow> 's"
    and inv :: "'s \<Rightarrow> bool"
  assumes step_inv: "inv s \<Longrightarrow> inv (step s e)"
begin

lemma run_inv: "inv s \<Longrightarrow> inv (foldl step s es)"
  by (induction es arbitrary: s) (auto intro: step_inv)

lemma prefix_inv: "inv s \<Longrightarrow> prefix es fs \<Longrightarrow> inv (foldl step s es)"
  by (rule run_inv)

end

text \<open>
  A component that also has a predicate which, once true, stays true: an absorbing phase.
\<close>

locale absorbing_machine = event_machine step inv
  for step :: "'s \<Rightarrow> 'e \<Rightarrow> 's" and inv :: "'s \<Rightarrow> bool" +
  fixes final :: "'s \<Rightarrow> bool"
  assumes step_final: "inv s \<Longrightarrow> final s \<Longrightarrow> final (step s e)"
begin

lemma run_final: "inv s \<Longrightarrow> final s \<Longrightarrow> final (foldl step s es)"
  by (induction es arbitrary: s) (auto intro: step_inv step_final)

end

section \<open>Stores of values that know their key\<close>

text \<open>
  A store in which every value carries its own key: reading back what was put, reading another
  key, and the two consequences its clients use: rewriting the value of one key changes nothing
  else, and a component that a rewrite leaves alone is left alone for every key.
\<close>

locale keyed_store =
  fixes get :: "'s \<Rightarrow> 'k \<Rightarrow> 'v"
    and put :: "'s \<Rightarrow> 'v \<Rightarrow> 's"
    and idof :: "'v \<Rightarrow> 'k"
    and ok :: "'k \<Rightarrow> bool"
    and inv :: "'s \<Rightarrow> bool"
  assumes get_put: "ok (idof v) \<Longrightarrow> ok k \<Longrightarrow> get (put s v) k = (if k = idof v then v else get s k)"
    and inv_put: "inv s \<Longrightarrow> ok (idof v) \<Longrightarrow> inv (put s v)"
    and id_get: "inv s \<Longrightarrow> ok k \<Longrightarrow> idof (get s k) = k"
begin

lemma get_modify:
  "idof (f (get s k)) = k \<Longrightarrow> ok k \<Longrightarrow> ok k' \<Longrightarrow>
   get (put s (f (get s k))) k' = (if k' = k then f (get s k) else get s k')"
  by (simp add: get_put)

lemma component_frame:
  "inv s \<Longrightarrow> ok (idof v) \<Longrightarrow> ok k \<Longrightarrow> c v = c (get s (idof v)) \<Longrightarrow> c (get (put s v) k) = c (get s k)"
  by (simp add: get_put)

lemma component_fold:
  assumes "\<And>x s. x \<in> set xs \<Longrightarrow> inv s \<Longrightarrow> inv (f x s) \<and> (\<forall>k. ok k \<longrightarrow> c (get (f x s) k) = c (get s k))"
  shows "inv s \<Longrightarrow> inv (fold f xs s) \<and> (\<forall>k. ok k \<longrightarrow> c (get (fold f xs s) k) = c (get s k))"
  using assms by (induction xs arbitrary: s) simp_all

end

end
