(* ===== verification/ClusterScope.thy ===== *)
theory ClusterScope
  imports Prelude
begin

text \<open>
  \<open>frontend/src/core/refresh/clusterScope.ts\<close>: the encoding of a refresh scope as
  \<open>clusterId|scope\<close>, its decoding, the \<open>clusters=a,b\<close> list form, and the object scope
  \<open>namespace:group/version:kind:name\<close>. The lemmas give what the two directions promise each
  other; the locale \<open>scope_codec\<close> is the contract the stream and store theories rely on.
\<close>

section \<open>Splitting and building\<close>

definition CLUSTER_SCOPE_DELIMITER :: char where
  "CLUSTER_SCOPE_DELIMITER = CHR ''|''"

definition CLUSTER_SCOPE_LIST_PREFIX :: string where
  "CLUSTER_SCOPE_LIST_PREFIX = ''clusters=''"

record split_scope =
  sp_clusterId :: string
  sp_scope :: string

definition splitClusterScope :: "string \<Rightarrow> split_scope" where
  "splitClusterScope value =
     (let t = js_trim value
      in if t = [] then \<lparr>sp_clusterId = [], sp_scope = []\<rparr>
         else let delimiterIndex = index_of t CLUSTER_SCOPE_DELIMITER
              in if delimiterIndex \<le> 0 then \<lparr>sp_clusterId = [], sp_scope = t\<rparr>
                 else \<lparr>sp_clusterId = js_trim (take (nat delimiterIndex) t),
                       sp_scope = js_trim (drop (nat delimiterIndex + 1) t)\<rparr>)"

definition or_empty :: "string option \<Rightarrow> string" where
  "or_empty s = (case s of None \<Rightarrow> [] | Some v \<Rightarrow> v)"

definition buildClusterScope :: "string option \<Rightarrow> string option \<Rightarrow> string" where
  "buildClusterScope clusterId scope =
     (let raw = js_trim (or_empty scope)
      in if sp_clusterId (splitClusterScope raw) \<noteq> [] then raw
         else let id = js_trim (or_empty clusterId)
              in if raw = [] then (if id \<noteq> [] then id @ [CLUSTER_SCOPE_DELIMITER] else [])
                 else if id = [] then raw
                 else id @ [CLUSTER_SCOPE_DELIMITER] @ raw)"

definition stripClusterScope :: "string option \<Rightarrow> string" where
  "stripClusterScope scope =
     (case scope of None \<Rightarrow> [] | Some s \<Rightarrow> if s = [] then [] else sp_scope (splitClusterScope s))"

section \<open>Parsing\<close>

record parsed_scope =
  ps_clusterId :: string
  ps_scope :: string
  ps_isMultiCluster :: bool

definition parseClusterScope :: "string option \<Rightarrow> parsed_scope" where
  "parseClusterScope value =
     (let t = js_trim (or_empty value)
      in if t = [] then \<lparr>ps_clusterId = [], ps_scope = [], ps_isMultiCluster = False\<rparr>
         else let sp = splitClusterScope t; clusterId = sp_clusterId sp; scope = sp_scope sp
         in if clusterId = [] then \<lparr>ps_clusterId = [], ps_scope = scope, ps_isMultiCluster = False\<rparr>
         else if \<not> prefix CLUSTER_SCOPE_LIST_PREFIX clusterId
           then \<lparr>ps_clusterId = clusterId, ps_scope = scope, ps_isMultiCluster = False\<rparr>
         else let rawList = drop (length CLUSTER_SCOPE_LIST_PREFIX) clusterId;
                  ids = List.filter (\<lambda>i. i \<noteq> []) (List.map js_trim (js_split CHR '','' rawList))
         in case ids of
              [i] \<Rightarrow> \<lparr>ps_clusterId = i, ps_scope = scope, ps_isMultiCluster = False\<rparr>
            | _ \<Rightarrow> \<lparr>ps_clusterId = [], ps_scope = scope, ps_isMultiCluster = True\<rparr>)"

fun normalizeClusterIds_loop :: "string list \<Rightarrow> string option list \<Rightarrow> string list" where
  "normalizeClusterIds_loop cleaned [] = cleaned"
| "normalizeClusterIds_loop cleaned (i # rest) =
     (let t = js_trim (or_empty i)
      in if t = [] \<or> t \<in> set cleaned then normalizeClusterIds_loop cleaned rest
         else normalizeClusterIds_loop (cleaned @ [t]) rest)"

definition normalizeClusterIds :: "string option list \<Rightarrow> string list" where
  "normalizeClusterIds clusterIds = normalizeClusterIds_loop [] clusterIds"

definition parseClusterIdList :: "string \<Rightarrow> string list" where
  "parseClusterIdList value =
     (let t = js_trim value
      in if t = [] then []
         else let rawList =
                (if prefix CLUSTER_SCOPE_LIST_PREFIX t
                 then drop (length CLUSTER_SCOPE_LIST_PREFIX) t else t)
              in normalizeClusterIds (List.map Some (js_split CHR '','' rawList)))"

record parsed_scope_list =
  pl_clusterIds :: "string list"
  pl_scope :: string
  pl_isMultiCluster :: bool

definition parseClusterScopeList :: "string option \<Rightarrow> parsed_scope_list" where
  "parseClusterScopeList value =
     (let t = js_trim (or_empty value)
      in if t = [] then \<lparr>pl_clusterIds = [], pl_scope = [], pl_isMultiCluster = False\<rparr>
         else let sp = splitClusterScope t; clusterId = sp_clusterId sp; scope = sp_scope sp
         in if clusterId = []
            then \<lparr>pl_clusterIds = [], pl_scope = scope, pl_isMultiCluster = False\<rparr>
            else let ids = parseClusterIdList clusterId
                 in \<lparr>pl_clusterIds = ids, pl_scope = scope, pl_isMultiCluster = \<not> length ids \<le> 1\<rparr>)"

section \<open>Object scopes\<close>

record object_scope_args =
  oa_namespace :: string
  oa_group :: "string option"
  oa_version :: "string option"
  oa_kind :: string
  oa_name :: string

datatype scope_error = ScopeError string

definition or_unknown :: "string \<Rightarrow> string" where
  "or_unknown s = (if s = [] then ''unknown'' else s)"

definition buildObjectScope :: "object_scope_args \<Rightarrow> scope_error + string" where
  "buildObjectScope args =
     (let ns = js_trim (oa_namespace args); version = js_trim (or_empty (oa_version args));
          kind = js_trim (oa_kind args); name = js_trim (oa_name args)
      in if version = []
         then Inl (ScopeError (''Object scope for '' @ or_unknown kind @ ''/'' @ or_unknown name
                @ '' is missing version''))
         else case oa_group args of
             None \<Rightarrow> Inl (ScopeError (''Object scope for '' @ or_unknown kind @ ''/''
                       @ or_unknown name @ '' is missing group''))
           | Some g \<Rightarrow> Inr (ns @ '':'' @ js_trim g @ ''/'' @ version @ '':'' @ kind @ '':'' @ name))"

section \<open>What a codec of scopes promises\<close>

text \<open>
  A client only needs that building a scope from a good identifier and a good tail can be
  undone. Everything it concludes about keys follows from that one law.
\<close>

locale scope_codec =
  fixes build :: "string \<Rightarrow> string \<Rightarrow> string"
    and split :: "string \<Rightarrow> string \<times> string"
    and ok_id :: "string \<Rightarrow> bool"
    and ok_tail :: "string \<Rightarrow> bool"
  assumes split_build: "ok_id i \<Longrightarrow> ok_tail s \<Longrightarrow> split (build i s) = (i, s)"
begin

lemma build_inject:
  assumes "ok_id i" "ok_tail s" "ok_id j" "ok_tail t" "build i s = build j t"
  shows "i = j \<and> s = t"
  using split_build [OF assms(1,2)] split_build [OF assms(3,4)] assms(5) by (metis prod.inject)

lemma build_image_inj:
  "ok_id i \<Longrightarrow> \<forall>s \<in> A. ok_tail s \<Longrightarrow> inj_on (build i) A"
  by (auto intro!: inj_onI dest: build_inject)

end

section \<open>Lemmas\<close>

lemma or_empty_simps [simp]: "or_empty None = []" "or_empty (Some s) = s"
  by (simp_all add: or_empty_def)

lemma delimiter_not_space [simp]: "\<not> js_space CLUSTER_SCOPE_DELIMITER"
  by (simp add: js_space_def CLUSTER_SCOPE_DELIMITER_def)

text \<open>A scope tail that does not itself carry a cluster prefix.\<close>

definition plain_tail :: "string \<Rightarrow> bool" where
  "plain_tail s \<longleftrightarrow> trimmed s \<and> index_of s CLUSTER_SCOPE_DELIMITER \<le> 0"

text \<open>A single cluster identifier: no delimiter, not empty, not the list form.\<close>

definition plain_cluster_id :: "string \<Rightarrow> bool" where
  "plain_cluster_id i \<longleftrightarrow>
     i \<noteq> [] \<and> trimmed i \<and> CLUSTER_SCOPE_DELIMITER \<notin> set i
     \<and> \<not> prefix CLUSTER_SCOPE_LIST_PREFIX i"

lemma trimmed_Nil [simp]: "trimmed []"
  by (simp add: trimmed_def)

lemma split_plain_tail:
  "plain_tail s \<Longrightarrow> splitClusterScope s = \<lparr>sp_clusterId = [], sp_scope = s\<rparr>"
  by (auto simp: splitClusterScope_def plain_tail_def Let_def js_trim_id)

lemma split_prefixed:
  assumes "i \<noteq> []" "trimmed i" "CLUSTER_SCOPE_DELIMITER \<notin> set i" "trimmed s"
  shows "splitClusterScope (i @ CLUSTER_SCOPE_DELIMITER # s)
    = \<lparr>sp_clusterId = i, sp_scope = s\<rparr>"
proof -
  have "trimmed (i @ CLUSTER_SCOPE_DELIMITER # s)"
    using assms by (auto simp: trimmed_def)
  then show ?thesis
    using assms
    by (simp add: splitClusterScope_def Let_def js_trim_id index_of_append_hit)
qed

lemma build_prefixed:
  assumes "i \<noteq> []" "trimmed i" "plain_tail s"
  shows "buildClusterScope (Some i) (Some s) = i @ CLUSTER_SCOPE_DELIMITER # s"
  using assms split_plain_tail [OF assms(3)]
  by (auto simp: buildClusterScope_def Let_def plain_tail_def js_trim_id)

lemma split_buildClusterScope:
  assumes "plain_cluster_id i" "plain_tail s"
  shows "splitClusterScope (buildClusterScope (Some i) (Some s))
    = \<lparr>sp_clusterId = i, sp_scope = s\<rparr>"
  using assms
  by (simp add: build_prefixed plain_cluster_id_def split_prefixed plain_tail_def)

interpretation cluster_codec: scope_codec
  "\<lambda>i s. buildClusterScope (Some i) (Some s)"
  "\<lambda>v. (sp_clusterId (splitClusterScope v), sp_scope (splitClusterScope v))"
  plain_cluster_id plain_tail
  by unfold_locales (simp add: split_buildClusterScope)

lemma trimmed_prefixed:
  "i \<noteq> [] \<Longrightarrow> trimmed i \<Longrightarrow> trimmed s \<Longrightarrow> trimmed (i @ CLUSTER_SCOPE_DELIMITER # s)"
  by (auto simp: trimmed_def)

lemma trimmed_buildClusterScope:
  "plain_cluster_id i \<Longrightarrow> plain_tail s \<Longrightarrow> trimmed (buildClusterScope (Some i) (Some s))"
  by (simp add: build_prefixed plain_cluster_id_def plain_tail_def trimmed_prefixed)

lemma buildClusterScope_not_Nil:
  "plain_cluster_id i \<Longrightarrow> plain_tail s \<Longrightarrow> buildClusterScope (Some i) (Some s) \<noteq> []"
  by (simp add: build_prefixed plain_cluster_id_def)

lemma normalizeClusterIds_loop_inv:
  "distinct cleaned \<Longrightarrow> (\<forall>c \<in> set cleaned. c \<noteq> [] \<and> trimmed c) \<Longrightarrow>
   distinct (normalizeClusterIds_loop cleaned ids)
   \<and> (\<forall>c \<in> set (normalizeClusterIds_loop cleaned ids). c \<noteq> [] \<and> trimmed c)"
proof (induction cleaned ids rule: normalizeClusterIds_loop.induct)
  case (2 cleaned i rest)
  let ?t = "js_trim (or_empty i)"
  show ?case
  proof (cases "?t = [] \<or> ?t \<in> set cleaned")
    case True
    from "2.IH"(1) [OF refl this "2.prems"] True show ?thesis
      by (simp add: Let_def del: split_paired_All)
  next
    case False
    then have "distinct (cleaned @ [?t])" "\<forall>c \<in> set (cleaned @ [?t]). c \<noteq> [] \<and> trimmed c"
      using "2.prems" by auto
    from "2.IH"(2) [OF refl False this] False show ?thesis
      by (simp add: Let_def)
  qed
qed simp

lemma normalizeClusterIds_loop_set:
  "set (normalizeClusterIds_loop cleaned ids)
   = set cleaned \<union> ((js_trim \<circ> or_empty) ` set ids - {[]})"
  by (induction cleaned ids rule: normalizeClusterIds_loop.induct) (auto simp: Let_def)

lemma normalizeClusterIds_single:
  "i \<noteq> [] \<Longrightarrow> trimmed i \<Longrightarrow> normalizeClusterIds [Some i] = [i]"
  by (simp add: normalizeClusterIds_def Let_def js_trim_id)

definition plain_object :: "object_scope_args \<Rightarrow> bool" where
  "plain_object a \<longleftrightarrow>
     CHR '':'' \<notin> set (js_trim (oa_namespace a))
     \<and> CHR '':'' \<notin> set (js_trim (or_empty (oa_group a)))
     \<and> CHR ''/'' \<notin> set (js_trim (or_empty (oa_group a)))
     \<and> CHR '':'' \<notin> set (js_trim (or_empty (oa_version a)))
     \<and> CHR '':'' \<notin> set (js_trim (oa_kind a))"

definition trim_object :: "object_scope_args \<Rightarrow> string list" where
  "trim_object a =
     [js_trim (oa_namespace a), js_trim (or_empty (oa_group a)), js_trim (or_empty (oa_version a)),
      js_trim (oa_kind a), js_trim (oa_name a)]"

lemma buildObjectScope_Inr:
  "buildObjectScope a = Inr s \<longleftrightarrow>
     js_trim (or_empty (oa_version a)) \<noteq> [] \<and> oa_group a \<noteq> None
     \<and> s = js_trim (oa_namespace a) @ CHR '':'' # js_trim (or_empty (oa_group a)) @ CHR ''/''
         # js_trim (or_empty (oa_version a)) @ CHR '':'' # js_trim (oa_kind a) @ CHR '':''
         # js_trim (oa_name a)"
  by (cases "oa_group a") (auto simp: buildObjectScope_def Let_def)

lemma parseClusterIdList_ok:
  "distinct (parseClusterIdList v) \<and> list_all (\<lambda>i. i \<noteq> [] \<and> trimmed i) (parseClusterIdList v)"
  using normalizeClusterIds_loop_inv [of "[]"]
  by (simp add: parseClusterIdList_def Let_def normalizeClusterIds_def list_all_iff)

section \<open>Properties\<close>

text \<open>
  C30. Round trip of the scope encoding: for a single cluster identifier and a scope tail that
  carries no cluster prefix of its own, \<open>parseClusterScope\<close> recovers exactly what
  \<open>buildClusterScope\<close> encoded, as one cluster and not as a list.
\<close>

theorem parse_build_roundtrip:
  assumes "plain_cluster_id i" "plain_tail s"
  shows "parseClusterScope (Some (buildClusterScope (Some i) (Some s)))
    = \<lparr>ps_clusterId = i, ps_scope = s, ps_isMultiCluster = False\<rparr>"
  using assms split_buildClusterScope [OF assms]
  by (simp add: parseClusterScope_def Let_def js_trim_id trimmed_buildClusterScope
      buildClusterScope_not_Nil plain_cluster_id_def)

theorem parse_build_roundtrip_witness:
  "parseClusterScope (Some (buildClusterScope (Some ''kc:prod'') (Some ''namespace:default'')))
    = \<lparr>ps_clusterId = ''kc:prod'', ps_scope = ''namespace:default'', ps_isMultiCluster = False\<rparr>"
  by (rule parse_build_roundtrip)
    (simp_all add: plain_cluster_id_def plain_tail_def trimmed_def js_space_def
      CLUSTER_SCOPE_DELIMITER_def CLUSTER_SCOPE_LIST_PREFIX_def)

text \<open>
  C31. Object scopes identify objects: two argument records whose namespace, version and kind
  carry no \<open>:\<close> and whose group carries neither \<open>:\<close> nor \<open>/\<close> (names may carry both, as
  RBAC names do) get the same scope only if they agree on all five trimmed fields.
\<close>

theorem object_scope_identifies:
  assumes "plain_object a" "plain_object b"
    and "buildObjectScope a = Inr s" "buildObjectScope b = Inr s"
  shows "trim_object a = trim_object b"
  using assms
  by (simp add: buildObjectScope_Inr plain_object_def trim_object_def append_sep_inject)

theorem object_scope_identifies_witness:
  "trim_object \<lparr>oa_namespace = ''__cluster__'', oa_group = Some ''rbac'', oa_version = Some '' v1'',
      oa_kind = ''ClusterRole'', oa_name = ''system:node''\<rparr>
   = trim_object \<lparr>oa_namespace = ''__cluster__ '', oa_group = Some ''rbac'', oa_version = Some ''v1'',
      oa_kind = ''ClusterRole'', oa_name = ''system:node''\<rparr>"
  by (rule object_scope_identifies
      [where s = "''__cluster__:rbac/v1:ClusterRole:system:node''"])
    (simp_all add: plain_object_def buildObjectScope_def js_trim_def js_space_def)

text \<open>
  The list parser normalises whatever it is given: the identifiers are distinct, trimmed and
  not blank, and the multi-cluster flag is set exactly when more than one is left.
\<close>

theorem parse_list_normal:
  "distinct (pl_clusterIds (parseClusterScopeList v))
   \<and> list_all (\<lambda>i. i \<noteq> [] \<and> trimmed i) (pl_clusterIds (parseClusterScopeList v))
   \<and> pl_isMultiCluster (parseClusterScopeList v)
       = (1 < length (pl_clusterIds (parseClusterScopeList v)))"
  using parseClusterIdList_ok by (auto simp: parseClusterScopeList_def Let_def)

end
