(* ===== verification/RefresherRuntime.thy ===== *)
theory RefresherRuntime
  imports Prelude
begin

text \<open>
  \<open>frontend/src/core/refresh/refresherRuntimeState.ts\<close>: the three independent dimensions of a
  refresher (what the user wants, its timers, its current execution) and the transition function
  over its nine events. Timers, abort controllers and promises are opaque handles of the host:
  numbers.
\<close>

section \<open>State and events\<close>

type_synonym timer = nat

datatype invocation = Automatic | Foreground | Manual

record refresher_execution =
  ex_id :: nat
  ex_controller :: nat
  ex_promise :: nat
  ex_invocation :: invocation

datatype refresher_intent = IntentDisabled | IntentPaused | IntentEnabled

datatype refresher_timing =
    TimingIdle "timer option"
  | TimingCooldown timer "timer option"

datatype execution_state = ExecIdle | ExecRunning refresher_execution

record runtime_state =
  rt_intent :: refresher_intent
  rt_timing :: refresher_timing
  rt_execution :: execution_state

datatype runtime_event =
    EvEnabled
  | EvDisabled
  | EvPaused
  | EvIdle "timer option"
  | EvIntervalReplaced timer
  | EvRefreshStarted refresher_execution
  | EvRefreshFinished nat
  | EvCooldownStarted timer
  | EvCooldownFinished timer

definition initialRefresherRuntimeState :: "bool \<Rightarrow> runtime_state" where
  "initialRefresherRuntimeState enabled =
     \<lparr>rt_intent = (if enabled then IntentEnabled else IntentDisabled),
      rt_timing = TimingIdle None, rt_execution = ExecIdle\<rparr>"

section \<open>Transitions\<close>

fun intervalTimerFor :: "refresher_timing \<Rightarrow> timer option" where
  "intervalTimerFor (TimingIdle t) = t"
| "intervalTimerFor (TimingCooldown c t) = t"

definition enableRefresher :: "runtime_state \<Rightarrow> runtime_state" where
  "enableRefresher s =
     (if rt_intent s \<noteq> IntentEnabled then s\<lparr>rt_intent := IntentEnabled\<rparr> else s)"

definition disableRefresher :: "runtime_state \<Rightarrow> runtime_state" where
  "disableRefresher s =
     (if rt_intent s = IntentDisabled then s else s\<lparr>rt_intent := IntentDisabled\<rparr>)"

definition pauseRefresher :: "runtime_state \<Rightarrow> runtime_state" where
  "pauseRefresher s =
     (if rt_intent s = IntentDisabled \<or> rt_intent s = IntentPaused then s
      else s\<lparr>rt_intent := IntentPaused\<rparr>)"

definition idleRefresher :: "runtime_state \<Rightarrow> timer option \<Rightarrow> runtime_state" where
  "idleRefresher s t = s\<lparr>rt_timing := TimingIdle t\<rparr>"

definition replaceInterval :: "runtime_state \<Rightarrow> timer \<Rightarrow> runtime_state" where
  "replaceInterval s t =
     s\<lparr>rt_timing := (case rt_timing s of
          TimingIdle _ \<Rightarrow> TimingIdle (Some t)
        | TimingCooldown c _ \<Rightarrow> TimingCooldown c (Some t))\<rparr>"

definition startRefresh :: "runtime_state \<Rightarrow> refresher_execution \<Rightarrow> runtime_state" where
  "startRefresh s e = s\<lparr>rt_execution := ExecRunning e\<rparr>"

definition finishRefresh :: "runtime_state \<Rightarrow> nat \<Rightarrow> runtime_state" where
  "finishRefresh s executionId =
     (case rt_execution s of
        ExecIdle \<Rightarrow> s
      | ExecRunning e \<Rightarrow> if ex_id e \<noteq> executionId then s else s\<lparr>rt_execution := ExecIdle\<rparr>)"

definition startCooldown :: "runtime_state \<Rightarrow> timer \<Rightarrow> runtime_state" where
  "startCooldown s c = s\<lparr>rt_timing := TimingCooldown c (intervalTimerFor (rt_timing s))\<rparr>"

definition finishCooldown :: "runtime_state \<Rightarrow> timer \<Rightarrow> runtime_state" where
  "finishCooldown s c =
     (case rt_timing s of
        TimingIdle _ \<Rightarrow> s
      | TimingCooldown c' t \<Rightarrow> if c' \<noteq> c then s else s\<lparr>rt_timing := TimingIdle t\<rparr>)"

fun transitionRefresherRuntimeState :: "runtime_state \<Rightarrow> runtime_event \<Rightarrow> runtime_state" where
  "transitionRefresherRuntimeState s EvEnabled = enableRefresher s"
| "transitionRefresherRuntimeState s EvDisabled = disableRefresher s"
| "transitionRefresherRuntimeState s EvPaused = pauseRefresher s"
| "transitionRefresherRuntimeState s (EvIdle t) = idleRefresher s t"
| "transitionRefresherRuntimeState s (EvIntervalReplaced t) = replaceInterval s t"
| "transitionRefresherRuntimeState s (EvRefreshStarted e) = startRefresh s e"
| "transitionRefresherRuntimeState s (EvRefreshFinished i) = finishRefresh s i"
| "transitionRefresherRuntimeState s (EvCooldownStarted c) = startCooldown s c"
| "transitionRefresherRuntimeState s (EvCooldownFinished c) = finishCooldown s c"

section \<open>Queries\<close>

definition isRefresherEnabled :: "runtime_state \<Rightarrow> bool" where
  "isRefresherEnabled s = (rt_intent s \<noteq> IntentDisabled)"

definition refresherIntervalTimer :: "runtime_state \<Rightarrow> timer option" where
  "refresherIntervalTimer s = intervalTimerFor (rt_timing s)"

definition refresherCooldownTimer :: "runtime_state \<Rightarrow> timer option" where
  "refresherCooldownTimer s =
     (case rt_timing s of TimingIdle _ \<Rightarrow> None | TimingCooldown c _ \<Rightarrow> Some c)"

section \<open>Lemmas\<close>

declare transitionRefresherRuntimeState.simps [simp del]

lemmas runtime_transition_defs = transitionRefresherRuntimeState.simps
  enableRefresher_def disableRefresher_def pauseRefresher_def idleRefresher_def
  replaceInterval_def startRefresh_def finishRefresh_def startCooldown_def finishCooldown_def

lemma transition_intent [simp]:
  "rt_intent (transitionRefresherRuntimeState s e) =
     (case e of EvEnabled \<Rightarrow> IntentEnabled
      | EvDisabled \<Rightarrow> IntentDisabled
      | EvPaused \<Rightarrow> if rt_intent s = IntentDisabled then IntentDisabled else IntentPaused
      | _ \<Rightarrow> rt_intent s)"
  by (cases e)
    (auto simp: runtime_transition_defs split: execution_state.splits refresher_timing.splits)

lemma transition_interval [simp]:
  "refresherIntervalTimer (transitionRefresherRuntimeState s e) =
     (case e of EvIdle t \<Rightarrow> t | EvIntervalReplaced t \<Rightarrow> Some t | _ \<Rightarrow> refresherIntervalTimer s)"
  by (cases e)
    (auto simp: runtime_transition_defs refresherIntervalTimer_def
      split: execution_state.splits refresher_timing.splits)

lemma transition_cooldown [simp]:
  "refresherCooldownTimer (transitionRefresherRuntimeState s e) =
     (case e of EvIdle t \<Rightarrow> None
      | EvCooldownStarted c \<Rightarrow> Some c
      | EvCooldownFinished c \<Rightarrow> (if refresherCooldownTimer s = Some c then None
                                else refresherCooldownTimer s)
      | _ \<Rightarrow> refresherCooldownTimer s)"
  by (cases e)
    (auto simp: runtime_transition_defs refresherCooldownTimer_def
      split: execution_state.splits refresher_timing.splits)

lemma transition_execution [simp]:
  "rt_execution (transitionRefresherRuntimeState s e) =
     (case e of EvRefreshStarted x \<Rightarrow> ExecRunning x
      | EvRefreshFinished i \<Rightarrow>
          (case rt_execution s of ExecIdle \<Rightarrow> ExecIdle
           | ExecRunning x \<Rightarrow> if ex_id x = i then ExecIdle else ExecRunning x)
      | _ \<Rightarrow> rt_execution s)"
  by (cases e)
    (auto simp: runtime_transition_defs split: execution_state.splits refresher_timing.splits)

section \<open>Properties\<close>

text \<open>
  The three dimensions do not interfere, and each is written by its own events only: the
  user's intent by the intent events, the interval timer by \<open>idle\<close> and \<open>interval-replaced\<close>, the
  execution by \<open>refresh-started\<close> and by a \<open>refresh-finished\<close> of its own id; starting or ending a
  cooldown keeps the interval timer.
\<close>

theorem runtime_dimensions:
  "rt_intent (transitionRefresherRuntimeState s e) =
     (case e of EvEnabled \<Rightarrow> IntentEnabled | EvDisabled \<Rightarrow> IntentDisabled
      | EvPaused \<Rightarrow> if rt_intent s = IntentDisabled then IntentDisabled else IntentPaused
      | _ \<Rightarrow> rt_intent s)
   \<and> refresherIntervalTimer (transitionRefresherRuntimeState s e) =
     (case e of EvIdle t \<Rightarrow> t | EvIntervalReplaced t \<Rightarrow> Some t | _ \<Rightarrow> refresherIntervalTimer s)
   \<and> rt_execution (transitionRefresherRuntimeState s e) =
     (case e of EvRefreshStarted x \<Rightarrow> ExecRunning x
      | EvRefreshFinished i \<Rightarrow>
          (case rt_execution s of ExecIdle \<Rightarrow> ExecIdle
           | ExecRunning x \<Rightarrow> if ex_id x = i then ExecIdle else ExecRunning x)
      | _ \<Rightarrow> rt_execution s)"
  by simp

end
