(* ===== verification/RefreshManager.thy ===== *)
theory RefreshManager
  imports Complex_Main RefresherRuntime
begin

text \<open>
  \<open>frontend/src/core/refresh/RefreshManager.ts\<close>: the registry of refreshers, their interval and
  cooldown timers, the executions in flight and the foreground targets of a context change.

  A refresher instance is a mutable object that timer callbacks and pending promises keep a
  reference to, so instances live in a heap (\<open>rm_heap\<close>) and the name table holds addresses; the
  subscriber sets are shared by reference with the closures that \<open>subscribe\<close> returns and live in a
  heap of their own (\<open>rm_sets\<close>). What the host does later is an event: a timer fires, the promise
  of an execution settles, a suspended \<open>refreshSingle\<close> resumes. Each API call and each event is
  one step; the bus events a step emits are appended to \<open>rm_log\<close>. Listeners that call the manager
  back are further steps.
\<close>

section \<open>Configuration, context, public state\<close>

record refresher =
  rf_name :: string
  rf_interval :: int
  rf_cooldown :: int
  rf_timeout :: nat
  rf_resource :: "string option"
  rf_enabled :: "bool option"

record refresh_context =
  cx_currentView :: string
  cx_activeNamespaceView :: "string option"
  cx_activeClusterView :: "string option"
  cx_selectedNamespace :: "string option"
  cx_selectedNamespaceClusterId :: "string option"
  cx_selectedClusterIds :: "string list option"
  cx_selectedClusterId :: "string option"
  cx_selectedClusterName :: "string option"
  cx_allConnectedClusterIds :: "string list option"
  cx_backgroundRefreshEnabled :: "bool option"
  cx_objectPanelOpen :: bool

text \<open>A \<open>Partial<RefreshContext>\<close>: the outer option says whether the key is present.\<close>

record context_patch =
  cp_currentView :: "string option"
  cp_activeNamespaceView :: "string option option"
  cp_activeClusterView :: "string option option"
  cp_selectedNamespace :: "string option option"
  cp_selectedNamespaceClusterId :: "string option option"
  cp_selectedClusterIds :: "string list option option"
  cp_selectedClusterId :: "string option option"
  cp_selectedClusterName :: "string option option"
  cp_allConnectedClusterIds :: "string list option option"
  cp_backgroundRefreshEnabled :: "bool option option"
  cp_objectPanelOpen :: "bool option"

definition patched :: "'a option \<Rightarrow> 'a \<Rightarrow> 'a" where
  "patched p v = (case p of None \<Rightarrow> v | Some w \<Rightarrow> w)"

definition patch_context :: "refresh_context \<Rightarrow> context_patch \<Rightarrow> refresh_context" where
  "patch_context c p =
     \<lparr>cx_currentView = patched (cp_currentView p) (cx_currentView c),
      cx_activeNamespaceView = patched (cp_activeNamespaceView p) (cx_activeNamespaceView c),
      cx_activeClusterView = patched (cp_activeClusterView p) (cx_activeClusterView c),
      cx_selectedNamespace = patched (cp_selectedNamespace p) (cx_selectedNamespace c),
      cx_selectedNamespaceClusterId =
        patched (cp_selectedNamespaceClusterId p) (cx_selectedNamespaceClusterId c),
      cx_selectedClusterIds = patched (cp_selectedClusterIds p) (cx_selectedClusterIds c),
      cx_selectedClusterId = patched (cp_selectedClusterId p) (cx_selectedClusterId c),
      cx_selectedClusterName = patched (cp_selectedClusterName p) (cx_selectedClusterName c),
      cx_allConnectedClusterIds =
        patched (cp_allConnectedClusterIds p) (cx_allConnectedClusterIds c),
      cx_backgroundRefreshEnabled =
        patched (cp_backgroundRefreshEnabled p) (cx_backgroundRefreshEnabled c),
      cx_objectPanelOpen = patched (cp_objectPanelOpen p) (cx_objectPanelOpen c)\<rparr>"

record js_error =
  err_name :: string
  err_message :: string

datatype refresher_status = StIdle | StRefreshing | StCooldown | StError | StPaused | StDisabled

record refresher_public_state =
  pub_status :: refresher_status
  pub_lastRefreshTime :: "int option"
  pub_nextRefreshTime :: "int option"
  pub_error :: "js_error option"
  pub_consecutiveErrors :: nat

record refresher_instance =
  in_config :: refresher
  in_runtime :: runtime_state
  in_lastRefreshTime :: "int option"
  in_nextRefreshTime :: "int option"
  in_error :: "js_error option"
  in_consecutiveErrors :: nat

section \<open>Foreground targets\<close>

text \<open>The view descriptors of \<open>core/navigation/viewRegistry.ts\<close>: view id and refresher.\<close>

definition NAMESPACE_VIEW_DESCRIPTORS :: "(string \<times> string option) list" where
  "NAMESPACE_VIEW_DESCRIPTORS =
     [(''workloads'', Some ''workloads''), (''browse'', None), (''map'', None),
      (''events'', Some ''events''), (''autoscaling'', Some ''autoscaling''),
      (''config'', Some ''config''), (''network'', Some ''network''), (''quotas'', Some ''quotas''),
      (''rbac'', Some ''rbac''), (''storage'', Some ''storage''), (''custom'', None),
      (''argocd'', None), (''cert-manager'', None), (''external-secrets'', None),
      (''helm'', Some ''helm''), (''prometheus'', None)]"

definition CLUSTER_VIEW_DESCRIPTORS :: "(string \<times> string option) list" where
  "CLUSTER_VIEW_DESCRIPTORS =
     [(''attention'', Some ''cluster-attention''), (''browse'', Some ''catalog''),
      (''events'', Some ''cluster-events''), (''identities'', Some ''cluster-identities''),
      (''config'', Some ''cluster-config''), (''namespaces'', None),
      (''nodes'', Some ''cluster-nodes''), (''rbac'', Some ''cluster-rbac''),
      (''storage'', Some ''cluster-storage''), (''crds'', Some ''cluster-crds''), (''custom'', None),
      (''cert-manager'', None), (''external-secrets'', None), (''karpenter'', None)]"

definition SYSTEM_clusterOverview :: string where
  "SYSTEM_clusterOverview = ''cluster-overview''"

definition namespaceViewToRefresher :: "string \<Rightarrow> string option" where
  "namespaceViewToRefresher v = Option.bind (map_of NAMESPACE_VIEW_DESCRIPTORS v) id"

definition clusterViewToRefresher :: "string \<Rightarrow> string option" where
  "clusterViewToRefresher v = Option.bind (map_of CLUSTER_VIEW_DESCRIPTORS v) id"

definition normalizeSelectionIds :: "string list option \<Rightarrow> string list" where
  "normalizeSelectionIds ids =
     List.filter (\<lambda>i. i \<noteq> []) (List.map js_trim (case ids of None \<Rightarrow> [] | Some l \<Rightarrow> l))"

definition hasSameClusterSelection :: "string list option \<Rightarrow> string list option \<Rightarrow> bool" where
  "hasSameClusterSelection left right =
     (let l = js_unique (normalizeSelectionIds left); r = js_unique (normalizeSelectionIds right)
      in length l = length r \<and> list_all (\<lambda>i. List.member r i) l)"

definition selectedClusters :: "refresh_context \<Rightarrow> string list option" where
  "selectedClusters c =
     (case cx_allConnectedClusterIds c of Some l \<Rightarrow> Some l | None \<Rightarrow> cx_selectedClusterIds c)"

definition namespaceScopeChanged :: "refresh_context \<Rightarrow> refresh_context \<Rightarrow> bool" where
  "namespaceScopeChanged p c \<longleftrightarrow>
     cx_selectedNamespace p \<noteq> cx_selectedNamespace c
     \<or> cx_selectedNamespaceClusterId p \<noteq> cx_selectedNamespaceClusterId c"

definition clusterSelectionChanged :: "refresh_context \<Rightarrow> refresh_context \<Rightarrow> bool" where
  "clusterSelectionChanged p c \<longleftrightarrow>
     \<not> hasSameClusterSelection (selectedClusters p) (selectedClusters c)"

definition selectedClusterChanged :: "refresh_context \<Rightarrow> refresh_context \<Rightarrow> bool" where
  "selectedClusterChanged p c \<longleftrightarrow> cx_selectedClusterId p \<noteq> cx_selectedClusterId c"

definition activeNamespaceRefresher :: "refresh_context \<Rightarrow> string option" where
  "activeNamespaceRefresher c = Option.bind (cx_activeNamespaceView c) namespaceViewToRefresher"

definition activeClusterRefresher :: "refresh_context \<Rightarrow> string option" where
  "activeClusterRefresher c = Option.bind (cx_activeClusterView c) clusterViewToRefresher"

definition namespaceForegroundChanged :: "refresh_context \<Rightarrow> refresh_context \<Rightarrow> bool" where
  "namespaceForegroundChanged p c \<longleftrightarrow>
     cx_currentView c = ''namespace'' \<and> namespaceScopeChanged p c"

definition clusterForegroundChanged :: "refresh_context \<Rightarrow> refresh_context \<Rightarrow> bool" where
  "clusterForegroundChanged p c \<longleftrightarrow>
     cx_currentView c = ''cluster''
     \<and> (cx_activeClusterView p \<noteq> cx_activeClusterView c \<or> clusterSelectionChanged p c
        \<or> selectedClusterChanged p c)"

definition opt_list :: "'a option \<Rightarrow> 'a list" where
  "opt_list x = (case x of None \<Rightarrow> [] | Some v \<Rightarrow> [v])"

definition getForegroundRefreshTargets :: "refresh_context \<Rightarrow> refresh_context \<Rightarrow> string list" where
  "getForegroundRefreshTargets p c = js_unique
     ((if namespaceForegroundChanged p c then opt_list (activeNamespaceRefresher c) else [])
      @ (if clusterForegroundChanged p c then opt_list (activeClusterRefresher c) else [])
      @ (if selectedClusterChanged p c \<and> cx_currentView c = ''overview''
         then [SYSTEM_clusterOverview] else []))"

definition getRefresherTargetsForContext :: "refresh_context \<Rightarrow> string list" where
  "getRefresherTargetsForContext c = js_unique
     ((if cx_currentView c = ''namespace''
       then opt_list (Option.bind (cx_activeNamespaceView c) namespaceViewToRefresher) else [])
      @ (if cx_currentView c = ''cluster''
         then opt_list (Option.bind (cx_activeClusterView c) clusterViewToRefresher) else [])
      @ (if cx_currentView c = ''overview'' then [SYSTEM_clusterOverview] else []))"

section \<open>The manager's state\<close>

datatype timer_task =
    IntervalTask string nat
  | CooldownTask string nat bool bool

datatype bus_event =
    StateChange string refresher_public_state
  | Registered string
  | RefreshStart string bool
  | RefreshComplete string bool bool

text \<open>An execution in flight: what the suspended \<open>refreshSingle\<close> has captured.\<close>

record pending_run =
  run_name :: string
  run_instance :: nat
  run_controller :: nat
  run_isManual :: bool
  run_callbacks :: "nat list"

text \<open>A \<open>refreshSingle\<close> suspended in \<open>supersedeRefresh\<close>: it awaits the given execution.\<close>

record superseder =
  sup_awaits :: nat
  sup_name :: string
  sup_instance :: nat
  sup_invocation :: invocation

record manager =
  rm_refreshers :: "(string, nat) jmap"
  rm_heap :: "nat \<Rightarrow> refresher_instance"
  rm_context :: refresh_context
  rm_subscribers :: "(string, nat) jmap"
  rm_sets :: "nat \<Rightarrow> nat list"
  rm_globallyPaused :: bool
  rm_executionCounter :: nat
  rm_fresh :: nat
  rm_timers :: "nat \<Rightarrow> (timer_task \<times> int) option"
  rm_aborted :: "nat set"
  rm_runs :: "(nat, pending_run) jmap"
  rm_waiting :: "superseder list"
  rm_hasWindow :: bool
  rm_log :: "bus_event list"

definition runtime_of :: "manager \<Rightarrow> nat \<Rightarrow> runtime_state" where
  "runtime_of m a = in_runtime (rm_heap m a)"

definition upd_inst :: "nat \<Rightarrow> (refresher_instance \<Rightarrow> refresher_instance) \<Rightarrow> manager \<Rightarrow> manager" where
  "upd_inst a f m = m\<lparr>rm_heap := (rm_heap m)(a := f (rm_heap m a))\<rparr>"

definition transition :: "nat \<Rightarrow> runtime_event \<Rightarrow> manager \<Rightarrow> manager" where
  "transition a e m =
     upd_inst a (\<lambda>i. i\<lparr>in_runtime := transitionRefresherRuntimeState (in_runtime i) e\<rparr>) m"

definition set_next :: "nat \<Rightarrow> int option \<Rightarrow> manager \<Rightarrow> manager" where
  "set_next a t m = upd_inst a (\<lambda>i. i\<lparr>in_nextRefreshTime := t\<rparr>) m"

definition log_event :: "bus_event \<Rightarrow> manager \<Rightarrow> manager" where
  "log_event e m = m\<lparr>rm_log := rm_log m @ [e]\<rparr>"

definition abort :: "nat \<Rightarrow> manager \<Rightarrow> manager" where
  "abort c m = m\<lparr>rm_aborted := insert c (rm_aborted m)\<rparr>"

definition clear_timer :: "timer \<Rightarrow> manager \<Rightarrow> manager" where
  "clear_timer t m = m\<lparr>rm_timers := (rm_timers m)(t := None)\<rparr>"

definition set_timer :: "timer_task \<Rightarrow> int \<Rightarrow> manager \<Rightarrow> timer \<times> manager" where
  "set_timer task delay m =
     (rm_fresh m, m\<lparr>rm_timers := (rm_timers m)(rm_fresh m \<mapsto> (task, delay)),
                    rm_fresh := Suc (rm_fresh m)\<rparr>)"

section \<open>Status and notification\<close>

definition statusFor :: "manager \<Rightarrow> refresher_instance \<Rightarrow> refresher_status" where
  "statusFor m i =
     (let rt = in_runtime i
      in case rt_execution rt of
           ExecRunning e \<Rightarrow>
             if rt_intent rt = IntentPaused \<and> ex_invocation e = Automatic then StPaused
             else if ex_invocation e = Automatic \<and> ex_controller e \<in> rm_aborted m
               then (if rt_intent rt = IntentDisabled then StDisabled else StIdle)
             else StRefreshing
         | ExecIdle \<Rightarrow>
             (case rt_timing rt of
                TimingCooldown _ _ \<Rightarrow> StCooldown
              | TimingIdle _ \<Rightarrow>
                  if rt_intent rt = IntentDisabled then StDisabled
                  else if rt_intent rt = IntentPaused then StPaused
                  else StIdle))"

definition publicState ::
  "manager \<Rightarrow> refresher_instance \<Rightarrow> refresher_status option \<Rightarrow> refresher_public_state" where
  "publicState m i status =
     \<lparr>pub_status = (case status of None \<Rightarrow> statusFor m i | Some s \<Rightarrow> s),
      pub_lastRefreshTime = in_lastRefreshTime i,
      pub_nextRefreshTime = in_nextRefreshTime i,
      pub_error = in_error i,
      pub_consecutiveErrors = in_consecutiveErrors i\<rparr>"

definition emitStateChange :: "string \<Rightarrow> refresher_status option \<Rightarrow> manager \<Rightarrow> manager" where
  "emitStateChange name status m =
     (if \<not> rm_hasWindow m then m
      else case jm_get (rm_refreshers m) name of
             None \<Rightarrow> m
           | Some a \<Rightarrow> log_event (StateChange name (publicState m (rm_heap m a) status)) m)"

definition getState :: "string \<Rightarrow> manager \<Rightarrow> refresher_public_state option" where
  "getState name m =
     map_option (\<lambda>a. publicState m (rm_heap m a) None) (jm_get (rm_refreshers m) name)"

definition getRefresherInterval :: "string \<Rightarrow> manager \<Rightarrow> int option" where
  "getRefresherInterval name m =
     map_option (\<lambda>a. rf_interval (in_config (rm_heap m a))) (jm_get (rm_refreshers m) name)"

section \<open>Timers\<close>

definition drop_timer :: "timer option \<Rightarrow> manager \<Rightarrow> manager" where
  "drop_timer t m = (case t of None \<Rightarrow> m | Some x \<Rightarrow> clear_timer x m)"

definition clearTimers :: "nat \<Rightarrow> manager \<Rightarrow> manager" where
  "clearTimers a m =
     (let m1 = drop_timer (refresherIntervalTimer (runtime_of m a)) m;
          m2 = drop_timer (refresherCooldownTimer (runtime_of m a)) m1
      in transition a (EvIdle None) m2)"

definition replaceIntervalTimer :: "string \<Rightarrow> nat \<Rightarrow> manager \<Rightarrow> timer \<times> manager" where
  "replaceIntervalTimer name a m =
     set_timer (IntervalTask name a) (rf_interval (in_config (rm_heap m a)))
       (drop_timer (refresherIntervalTimer (runtime_of m a)) m)"

definition MAX_BACKOFF_MS :: int where
  "MAX_BACKOFF_MS = 60000"

definition cooldownMs :: "int \<Rightarrow> nat \<Rightarrow> int" where
  "cooldownMs cooldown errorCount =
     (let backoffMultiplier = (if 1 < errorCount then 2 ^ (errorCount - 1) else 1)
      in min MAX_BACKOFF_MS (cooldown * backoffMultiplier))"

definition enterCooldown :: "string \<Rightarrow> nat \<Rightarrow> bool \<Rightarrow> bool \<Rightarrow> manager \<Rightarrow> manager" where
  "enterCooldown name a isManual hadError m =
     (let i = rm_heap m a;
          (t, m1) = set_timer (CooldownTask name a isManual hadError)
                      (cooldownMs (rf_cooldown (in_config i)) (in_consecutiveErrors i)) m
      in emitStateChange name None (transition a (EvCooldownStarted t) m1))"

section \<open>A single refresh\<close>

definition canStartRefresh :: "refresher_instance \<Rightarrow> invocation \<Rightarrow> bool \<Rightarrow> bool" where
  "canStartRefresh i invocation globallyPaused =
     (let rt = in_runtime i
      in if invocation \<noteq> Automatic then True
         else isRefresherEnabled rt \<and> \<not> globallyPaused \<and> rt_intent rt \<noteq> IntentPaused
              \<and> rt_execution rt = ExecIdle \<and> refresherCooldownTimer rt = None)"

text \<open>From the creation of the abort controller to the point where \<open>refreshSingle\<close> awaits the
  execution.\<close>

definition beginRefresh :: "string \<Rightarrow> nat \<Rightarrow> invocation \<Rightarrow> manager \<Rightarrow> manager" where
  "beginRefresh name a invocation m =
     (let isManual = (invocation = Manual);
          m1 = (if isManual then clearTimers a m else m);
          controller = rm_fresh m1;
          callbacks = (case jm_get (rm_subscribers m1) name of
                         None \<Rightarrow> [] | Some s \<Rightarrow> rm_sets m1 s);
          executionId = Suc (rm_executionCounter m1);
          m2 = m1\<lparr>rm_fresh := Suc controller, rm_executionCounter := executionId,
                  rm_runs := jm_set executionId
                    \<lparr>run_name = name, run_instance = a, run_controller = controller,
                     run_isManual = isManual, run_callbacks = callbacks\<rparr> (rm_runs m1)\<rparr>;
          m3 = transition a (EvRefreshStarted
                 \<lparr>ex_id = executionId, ex_controller = controller, ex_promise = executionId,
                  ex_invocation = invocation\<rparr>) m2
      in log_event (RefreshStart name isManual) (emitStateChange name None m3))"

definition refreshSingle :: "string \<Rightarrow> invocation \<Rightarrow> manager \<Rightarrow> manager" where
  "refreshSingle name invocation m =
     (case jm_get (rm_refreshers m) name of
        None \<Rightarrow> m
      | Some a \<Rightarrow>
          if \<not> canStartRefresh (rm_heap m a) invocation (rm_globallyPaused m) then m
          else (case rt_execution (runtime_of m a) of
                  ExecRunning e \<Rightarrow>
                    (abort (ex_controller e) m)
                      \<lparr>rm_waiting := rm_waiting m @
                         [\<lparr>sup_awaits = ex_promise e, sup_name = name, sup_instance = a,
                           sup_invocation = invocation\<rparr>]\<rparr>
                | ExecIdle \<Rightarrow> beginRefresh name a invocation m))"

text \<open>The superseded execution has settled: the suspended call goes on.\<close>

definition resumeSuperseder :: "nat \<Rightarrow> manager \<Rightarrow> manager" where
  "resumeSuperseder k m =
     (if k < length (rm_waiting m)
      then let w = rm_waiting m ! k
           in if jm_has (rm_runs m) (sup_awaits w) then m
              else beginRefresh (sup_name w) (sup_instance w) (sup_invocation w)
                     (m\<lparr>rm_waiting := take k (rm_waiting m) @ drop (Suc k) (rm_waiting m)\<rparr>)
      else m)"

definition refreshMany :: "string list \<Rightarrow> invocation \<Rightarrow> manager \<Rightarrow> manager" where
  "refreshMany names invocation m =
     fold (\<lambda>n. refreshSingle n invocation) (js_unique names) m"

section \<open>Callbacks and their outcome\<close>

datatype callback_outcome = Fulfilled | Rejected js_error

text \<open>How a callback ended as the race between the callback and its timeout saw it.\<close>

datatype callback_race = CallbackResolved | CallbackThrew js_error | CallbackTimedOut

definition abortError :: js_error where
  "abortError = \<lparr>err_name = ''AbortError'', err_message = ''Aborted''\<rparr>"

fun runCallbackWithTimeout :: "nat \<Rightarrow> callback_race \<Rightarrow> callback_outcome" where
  "runCallbackWithTimeout timeoutSeconds CallbackResolved = Fulfilled"
| "runCallbackWithTimeout timeoutSeconds (CallbackThrew e) = Rejected e"
| "runCallbackWithTimeout timeoutSeconds CallbackTimedOut =
     Rejected \<lparr>err_name = ''Error'',
       err_message = ''Refresh timeout after '' @ nat_str timeoutSeconds @ '' seconds''\<rparr>"

record refresh_summary =
  sm_successCount :: nat
  sm_failures :: "js_error list"

fun add_outcome :: "callback_outcome \<Rightarrow> refresh_summary \<Rightarrow> refresh_summary" where
  "add_outcome Fulfilled s = s\<lparr>sm_successCount := Suc (sm_successCount s)\<rparr>"
| "add_outcome (Rejected e) s = s\<lparr>sm_failures := sm_failures s @ [e]\<rparr>"

definition executeRefresh ::
  "nat list \<Rightarrow> callback_outcome list \<Rightarrow> bool \<Rightarrow> js_error + refresh_summary" where
  "executeRefresh callbacks results signalAborted =
     (if callbacks = [] then Inr \<lparr>sm_successCount = 0, sm_failures = []\<rparr>
      else if signalAborted then Inl abortError
      else Inr (fold add_outcome results \<lparr>sm_successCount = 0, sm_failures = []\<rparr>))"

section \<open>Completion\<close>

definition ownsExecution :: "manager \<Rightarrow> nat \<Rightarrow> nat \<Rightarrow> bool" where
  "ownsExecution m a executionId =
     (case rt_execution (runtime_of m a) of
        ExecIdle \<Rightarrow> False | ExecRunning e \<Rightarrow> ex_id e = executionId)"

definition completeRefresh ::
  "int \<Rightarrow> string \<Rightarrow> nat \<Rightarrow> nat \<Rightarrow> bool \<Rightarrow> refresh_summary \<Rightarrow> manager \<Rightarrow> js_error + manager" where
  "completeRefresh now name a executionId isManual summary m =
     (if \<not> ownsExecution m a executionId then Inr m
      else case (sm_failures summary, sm_successCount summary) of
             (e # _, 0) \<Rightarrow> Inl e
           | _ \<Rightarrow>
               let m1 = transition a (EvRefreshFinished executionId) m;
                   m2 = upd_inst a (\<lambda>i. i\<lparr>in_lastRefreshTime := Some now, in_error := None,
                          in_consecutiveErrors := 0\<rparr>) m1;
                   m3 = log_event (RefreshComplete name isManual True) m2
               in Inr (enterCooldown name a isManual False m3))"

definition completeAbortedRefresh ::
  "string \<Rightarrow> nat \<Rightarrow> nat \<Rightarrow> nat \<Rightarrow> js_error \<Rightarrow> manager \<Rightarrow> bool \<times> manager" where
  "completeAbortedRefresh name a executionId controller err m =
     (if \<not> (controller \<in> rm_aborted m \<or> err_name err = ''AbortError'') then (False, m)
      else (True,
        if ownsExecution m a executionId
        then emitStateChange name None (transition a (EvRefreshFinished executionId) m)
        else m))"

definition completeFailedRefresh ::
  "string \<Rightarrow> nat \<Rightarrow> nat \<Rightarrow> bool \<Rightarrow> js_error \<Rightarrow> manager \<Rightarrow> manager" where
  "completeFailedRefresh name a executionId isManual err m =
     (case rt_execution (runtime_of m a) of
        ExecIdle \<Rightarrow> m
      | ExecRunning e \<Rightarrow>
          if ex_id e \<noteq> executionId then m
          else let m1 = transition a (EvRefreshFinished executionId) (abort (ex_controller e) m);
                   m2 = upd_inst a (\<lambda>i. i\<lparr>in_error := Some err,
                          in_consecutiveErrors := Suc (in_consecutiveErrors i)\<rparr>) m1;
                   m3 = emitStateChange name (Some StError) m2;
                   m4 = log_event (RefreshComplete name isManual False) m3
               in enterCooldown name a isManual True m4)"

definition failRefresh :: "nat \<Rightarrow> pending_run \<Rightarrow> js_error \<Rightarrow> manager \<Rightarrow> manager" where
  "failRefresh executionId r err m =
     (case completeAbortedRefresh (run_name r) (run_instance r) executionId
             (run_controller r) err m of
        (True, m1) \<Rightarrow> m1
      | (False, m1) \<Rightarrow>
          completeFailedRefresh (run_name r) (run_instance r) executionId (run_isManual r) err m1)"

text \<open>The promise of an execution settles with the outcomes of its callbacks: the rest of
  \<open>refreshSingle\<close> after the \<open>await\<close>, with its \<open>try\<close> and \<open>catch\<close>.\<close>

definition settleExecution ::
  "int \<Rightarrow> nat \<Rightarrow> callback_outcome list \<Rightarrow> manager \<Rightarrow> manager" where
  "settleExecution now executionId results m =
     (case jm_get (rm_runs m) executionId of
        None \<Rightarrow> m
      | Some r \<Rightarrow>
          let m0 = m\<lparr>rm_runs := jm_delete executionId (rm_runs m)\<rparr>
          in (case executeRefresh (run_callbacks r) results (run_controller r \<in> rm_aborted m) of
               Inl err \<Rightarrow> failRefresh executionId r err m0
             | Inr summary \<Rightarrow>
                 (case completeRefresh now (run_name r) (run_instance r) executionId
                         (run_isManual r) summary m0 of
                    Inr m1 \<Rightarrow> m1
                  | Inl err \<Rightarrow> failRefresh executionId r err m0)))"

section \<open>Starting, pausing, resuming\<close>

definition startRefresher :: "int \<Rightarrow> string \<Rightarrow> manager \<Rightarrow> manager" where
  "startRefresher now name m =
     (case jm_get (rm_refreshers m) name of
        None \<Rightarrow> m
      | Some a \<Rightarrow>
          if \<not> isRefresherEnabled (runtime_of m a)
          then emitStateChange name None (set_next a None m)
          else if rm_globallyPaused m
          then emitStateChange name None (transition a EvPaused m)
          else let hasCompletedInitialRun = (in_lastRefreshTime (rm_heap m a) \<noteq> None);
                   (t, m1) = replaceIntervalTimer name a m;
                   m2 = set_next a (Some (now + rf_interval (in_config (rm_heap m1 a)))) m1;
                   m3 = transition a (EvIdle (Some t)) m2;
                   m4 = emitStateChange name None m3
               in if \<not> hasCompletedInitialRun \<and> rt_execution (runtime_of m4 a) = ExecIdle
                  then refreshSingle name Automatic m4 else m4)"

definition pauseInstance :: "string \<Rightarrow> nat \<Rightarrow> manager \<Rightarrow> manager" where
  "pauseInstance name a m =
     (let m1 = (case rt_execution (runtime_of m a) of
                  ExecRunning e \<Rightarrow>
                    if ex_invocation e = Automatic then abort (ex_controller e) m else m
                | ExecIdle \<Rightarrow> m)
      in emitStateChange name None
           (set_next a None (transition a EvPaused (clearTimers a m1))))"

definition resumeInstance :: "int \<Rightarrow> string \<Rightarrow> nat \<Rightarrow> manager \<Rightarrow> manager" where
  "resumeInstance now name a m =
     (if \<not> isRefresherEnabled (runtime_of m a) then emitStateChange name None m
      else startRefresher now name (transition a EvEnabled m))"

definition abortRefresher :: "string \<Rightarrow> manager \<Rightarrow> manager" where
  "abortRefresher name m =
     (case jm_get (rm_refreshers m) name of
        None \<Rightarrow> m
      | Some a \<Rightarrow>
          emitStateChange name None
            (case rt_execution (runtime_of m a) of
               ExecIdle \<Rightarrow> m
             | ExecRunning e \<Rightarrow>
                 transition a (EvRefreshFinished (ex_id e)) (abort (ex_controller e) m)))"

section \<open>The public operations\<close>

definition unregister :: "string \<Rightarrow> manager \<Rightarrow> manager" where
  "unregister name m =
     (case jm_get (rm_refreshers m) name of
        None \<Rightarrow> m
      | Some a \<Rightarrow>
          let m1 = clearTimers a m
          in m1\<lparr>rm_refreshers := jm_delete name (rm_refreshers m1),
                rm_subscribers := jm_delete name (rm_subscribers m1)\<rparr>)"

definition register :: "int \<Rightarrow> refresher \<Rightarrow> manager \<Rightarrow> manager" where
  "register now r m =
     (let name = rf_name r;
          previous = jm_get (rm_refreshers m) name;
          preserved =
            (if previous = None then []
             else case jm_get (rm_subscribers m) name of None \<Rightarrow> [] | Some s \<Rightarrow> rm_sets m s);
          m1 = unregister name m;
          m2 = (if preserved \<noteq> []
                then m1\<lparr>rm_sets := (rm_sets m1)(rm_fresh m1 := preserved),
                        rm_subscribers := jm_set name (rm_fresh m1) (rm_subscribers m1),
                        rm_fresh := Suc (rm_fresh m1)\<rparr>
                else m1);
          isEnabled =
            (case rf_enabled r of
               Some b \<Rightarrow> b
             | None \<Rightarrow> (case previous of
                          None \<Rightarrow> True | Some a \<Rightarrow> isRefresherEnabled (runtime_of m1 a)));
          a = rm_fresh m2;
          m3 = m2\<lparr>rm_heap := (rm_heap m2)(a :=
                     \<lparr>in_config = r, in_runtime = initialRefresherRuntimeState isEnabled,
                      in_lastRefreshTime = None, in_nextRefreshTime = None, in_error = None,
                      in_consecutiveErrors = 0\<rparr>),
                  rm_fresh := Suc a,
                  rm_refreshers := jm_set name a (rm_refreshers m2)\<rparr>;
          m4 = (if isEnabled then startRefresher now name m3 else emitStateChange name None m3)
      in log_event (Registered name) m4)"

definition enable :: "int \<Rightarrow> string \<Rightarrow> manager \<Rightarrow> manager" where
  "enable now name m =
     (case jm_get (rm_refreshers m) name of
        None \<Rightarrow> m
      | Some a \<Rightarrow>
          if isRefresherEnabled (runtime_of m a)
          then if rm_globallyPaused m
               then emitStateChange name None (transition a EvPaused m)
               else let m1 = (if rt_intent (runtime_of m a) = IntentPaused
                              then transition a EvEnabled m else m)
                    in if refresherIntervalTimer (runtime_of m1 a) = None
                       then startRefresher now name m1 else m1
          else let m1 = transition a EvEnabled m
               in if rm_globallyPaused m
                  then emitStateChange name None (transition a EvPaused m1)
                  else startRefresher now name m1)"

definition disable :: "string \<Rightarrow> manager \<Rightarrow> manager" where
  "disable name m =
     (case jm_get (rm_refreshers m) name of
        None \<Rightarrow> m
      | Some a \<Rightarrow>
          let rt = runtime_of m a
          in if rt_intent rt = IntentDisabled \<and> refresherCooldownTimer rt = None
                \<and> rt_execution rt = ExecIdle
             then m
             else let m1 = (case rt_execution rt of
                              ExecRunning e \<Rightarrow>
                                transition a (EvRefreshFinished (ex_id e))
                                  (abort (ex_controller e) m)
                            | ExecIdle \<Rightarrow> m)
                  in emitStateChange name None
                       (set_next a None (transition a EvDisabled (clearTimers a m1))))"

text \<open>\<open>subscribe\<close> returns the closure \<open>unsubscribe name s callback\<close>, which keeps the set's
  address.\<close>

definition subscribe :: "string \<Rightarrow> nat \<Rightarrow> manager \<Rightarrow> nat \<times> manager" where
  "subscribe name callback m =
     (case jm_get (rm_subscribers m) name of
        Some s \<Rightarrow> (s, m\<lparr>rm_sets := (rm_sets m)(s := jset_add callback (rm_sets m s))\<rparr>)
      | None \<Rightarrow>
          let s = rm_fresh m
          in (s, m\<lparr>rm_sets := (rm_sets m)(s := [callback]),
                   rm_subscribers := jm_set name s (rm_subscribers m), rm_fresh := Suc s\<rparr>))"

definition unsubscribe :: "string \<Rightarrow> nat \<Rightarrow> nat \<Rightarrow> manager \<Rightarrow> manager" where
  "unsubscribe name s callback m =
     (let rest = removeAll callback (rm_sets m s);
          m1 = m\<lparr>rm_sets := (rm_sets m)(s := rest)\<rparr>
      in if rest = [] then m1\<lparr>rm_subscribers := jm_delete name (rm_subscribers m1)\<rparr> else m1)"

definition updateContext :: "context_patch \<Rightarrow> manager \<Rightarrow> manager" where
  "updateContext p m =
     (let previous = rm_context m;
          current = patch_context previous p;
          m1 = m\<lparr>rm_context := current\<rparr>;
          targets = getForegroundRefreshTargets previous current
      in if targets = [] then m1
         else let m2 = (if namespaceScopeChanged previous current then fold abortRefresher targets m1
                        else if cx_currentView previous \<noteq> cx_currentView current
                        then fold abortRefresher (List.filter (prefix ''namespace-'') targets) m1
                        else m1)
              in refreshMany targets Foreground m2)"

text \<open>\<open>updateInterval\<close> takes any JavaScript number; \<open>None\<close> stands for \<open>NaN\<close> and the
  infinities, \<open>floor\<close> for \<open>Math.floor\<close>.\<close>

definition updateInterval :: "int \<Rightarrow> string \<Rightarrow> rat option \<Rightarrow> manager \<Rightarrow> manager" where
  "updateInterval now name interval m =
     (case jm_get (rm_refreshers m) name of
        None \<Rightarrow> m
      | Some a \<Rightarrow>
          (case interval of
             None \<Rightarrow> m
           | Some r \<Rightarrow>
               if r \<le> 0 then m
               else if rf_interval (in_config (rm_heap m a)) = floor r then m
               else let m1 = upd_inst a
                          (\<lambda>i. i\<lparr>in_config := (in_config i)\<lparr>rf_interval := floor r\<rparr>\<rparr>) m
                    in if \<not> isRefresherEnabled (runtime_of m1 a) \<or> rm_globallyPaused m1
                          \<or> rt_intent (runtime_of m1 a) = IntentPaused
                       then m1
                       else let (t, m2) = replaceIntervalTimer name a m1;
                                m3 = transition a (EvIntervalReplaced t) m2
                            in if statusFor m3 (rm_heap m3 a) = StIdle
                               then emitStateChange name None
                                      (set_next a (Some (now + rf_interval
                                         (in_config (rm_heap m3 a)))) m3)
                               else m3))"

definition triggerManualRefresh :: "string \<Rightarrow> manager \<Rightarrow> manager" where
  "triggerManualRefresh name m = refreshSingle name Manual m"

definition triggerManualRefreshForContext :: "refresh_context option \<Rightarrow> manager \<Rightarrow> manager" where
  "triggerManualRefreshForContext c m =
     (let targets = getRefresherTargetsForContext (case c of None \<Rightarrow> rm_context m | Some x \<Rightarrow> x)
      in if targets = [] then m else refreshMany targets Manual m)"

definition cancelInstance :: "string \<times> nat \<Rightarrow> manager \<Rightarrow> manager" where
  "cancelInstance na m =
     (let a = snd na;
          m1 = (case rt_execution (runtime_of m a) of
                  ExecRunning e \<Rightarrow> abort (ex_controller e) m | ExecIdle \<Rightarrow> m);
          m2 = clearTimers a m1;
          m3 = (if isRefresherEnabled (runtime_of m2 a)
                then let mi = transition a (EvIdle None) m2
                     in (case rt_execution (runtime_of mi a) of
                           ExecRunning e \<Rightarrow> transition a (EvRefreshFinished (ex_id e)) mi
                         | ExecIdle \<Rightarrow> mi)
                else transition a EvDisabled m2)
      in emitStateChange (fst na) None (set_next a None m3))"

definition cancelAllRefreshes :: "manager \<Rightarrow> manager" where
  "cancelAllRefreshes m = fold cancelInstance (rm_refreshers m) m"

definition pause :: "string option \<Rightarrow> manager \<Rightarrow> manager" where
  "pause name m =
     (case name of
        Some n \<Rightarrow> (case jm_get (rm_refreshers m) n of None \<Rightarrow> m | Some a \<Rightarrow> pauseInstance n a m)
      | None \<Rightarrow>
          fold (\<lambda>na. pauseInstance (fst na) (snd na)) (rm_refreshers m)
            (m\<lparr>rm_globallyPaused := True\<rparr>))"

definition resumeEach :: "int \<Rightarrow> string \<times> nat \<Rightarrow> manager \<Rightarrow> manager" where
  "resumeEach now na m =
     (let a = snd na; rt = runtime_of m a
      in if isRefresherEnabled rt \<and> rt_intent rt = IntentPaused
         then resumeInstance now (fst na) a m
         else if isRefresherEnabled rt \<and> statusFor m (rm_heap m a) = StIdle
                 \<and> refresherIntervalTimer rt = None
         then startRefresher now (fst na) m
         else m)"

definition resume :: "int \<Rightarrow> string option \<Rightarrow> manager \<Rightarrow> manager" where
  "resume now name m =
     (case name of
        Some n \<Rightarrow>
          (case jm_get (rm_refreshers m) n of
             None \<Rightarrow> m
           | Some a \<Rightarrow>
               if isRefresherEnabled (runtime_of m a) \<and> rt_intent (runtime_of m a) = IntentPaused
               then resumeInstance now n a m else m)
      | None \<Rightarrow> fold (resumeEach now) (rm_refreshers m) (m\<lparr>rm_globallyPaused := False\<rparr>))"

section \<open>Timer callbacks\<close>

definition intervalFired :: "string \<Rightarrow> nat \<Rightarrow> manager \<Rightarrow> manager" where
  "intervalFired name a m =
     (if statusFor m (rm_heap m a) = StIdle then refreshSingle name Automatic m else m)"

definition cooldownFired ::
  "int \<Rightarrow> timer \<Rightarrow> string \<Rightarrow> nat \<Rightarrow> bool \<Rightarrow> bool \<Rightarrow> manager \<Rightarrow> manager" where
  "cooldownFired now t name a isManual hadError m =
     (let m1 = transition a (EvCooldownFinished t) m
      in if runtime_of m1 a = runtime_of m a then m1
         else if isManual then startRefresher now name (emitStateChange name None m1)
         else let m2 = emitStateChange name None
                         (set_next a (Some (now + rf_interval (in_config (rm_heap m1 a)))) m1)
              in if hadError then refreshSingle name Automatic m2 else m2)"

text \<open>An interval timer stays armed, a cooldown timer fires once.\<close>

definition timerFired :: "int \<Rightarrow> timer \<Rightarrow> manager \<Rightarrow> manager" where
  "timerFired now t m =
     (case rm_timers m t of
        None \<Rightarrow> m
      | Some (IntervalTask name a, _) \<Rightarrow> intervalFired name a m
      | Some (CooldownTask name a isManual hadError, _) \<Rightarrow>
          cooldownFired now t name a isManual hadError (clear_timer t m))"

section \<open>Steps\<close>

datatype manager_event =
    Register refresher
  | Unregister string
  | Enable string
  | Disable string
  | Subscribe string nat
  | Unsubscribe string nat nat
  | UpdateContext context_patch
  | UpdateInterval string "rat option"
  | TriggerManual string
  | TriggerManualMany "string list"
  | TriggerForegroundMany "string list"
  | TriggerManualForContext "refresh_context option"
  | CancelAll
  | Pause "string option"
  | Resume "string option"
  | TimerFired timer
  | ExecutionSettled nat "callback_outcome list"
  | SupersederResumed nat

fun manager_step :: "manager \<Rightarrow> int \<times> manager_event \<Rightarrow> manager" where
  "manager_step m (now, Register r) = register now r m"
| "manager_step m (now, Unregister n) = unregister n m"
| "manager_step m (now, Enable n) = enable now n m"
| "manager_step m (now, Disable n) = disable n m"
| "manager_step m (now, Subscribe n c) = snd (subscribe n c m)"
| "manager_step m (now, Unsubscribe n s c) = unsubscribe n s c m"
| "manager_step m (now, UpdateContext p) = updateContext p m"
| "manager_step m (now, UpdateInterval n i) = updateInterval now n i m"
| "manager_step m (now, TriggerManual n) = triggerManualRefresh n m"
| "manager_step m (now, TriggerManualMany ns) = refreshMany ns Manual m"
| "manager_step m (now, TriggerForegroundMany ns) = refreshMany ns Foreground m"
| "manager_step m (now, TriggerManualForContext c) = triggerManualRefreshForContext c m"
| "manager_step m (now, CancelAll) = cancelAllRefreshes m"
| "manager_step m (now, Pause n) = pause n m"
| "manager_step m (now, Resume n) = resume now n m"
| "manager_step m (now, TimerFired t) = timerFired now t m"
| "manager_step m (now, ExecutionSettled i rs) = settleExecution now i rs m"
| "manager_step m (now, SupersederResumed k) = resumeSuperseder k m"

definition initialContext :: refresh_context where
  "initialContext =
     \<lparr>cx_currentView = ''namespace'', cx_activeNamespaceView = None, cx_activeClusterView = None,
      cx_selectedNamespace = None, cx_selectedNamespaceClusterId = None,
      cx_selectedClusterIds = None, cx_selectedClusterId = None, cx_selectedClusterName = None,
      cx_allConnectedClusterIds = None, cx_backgroundRefreshEnabled = None,
      cx_objectPanelOpen = False\<rparr>"

text \<open>Unallocated addresses hold an idle instance; nothing refers to them.\<close>

definition blankInstance :: refresher_instance where
  "blankInstance =
     \<lparr>in_config = \<lparr>rf_name = [], rf_interval = 0, rf_cooldown = 0, rf_timeout = 0,
        rf_resource = None, rf_enabled = None\<rparr>,
      in_runtime = initialRefresherRuntimeState False, in_lastRefreshTime = None,
      in_nextRefreshTime = None, in_error = None, in_consecutiveErrors = 0\<rparr>"

definition initialManager :: "bool \<Rightarrow> manager" where
  "initialManager hasWindow =
     \<lparr>rm_refreshers = [], rm_heap = (\<lambda>_. blankInstance), rm_context = initialContext,
      rm_subscribers = [], rm_sets = (\<lambda>_. []), rm_globallyPaused = False,
      rm_executionCounter = 0, rm_fresh = 0, rm_timers = (\<lambda>_. None), rm_aborted = {},
      rm_runs = [], rm_waiting = [], rm_hasWindow = hasWindow, rm_log = []\<rparr>"

end
