(* ===== verification/RefreshManagerInv.thy ===== *)
theory RefreshManagerInv
  imports RefreshManager
begin

text \<open>
  What the refresh manager keeps true. The central invariant is about polling: the armed interval
  timers are exactly the ones the instances remember, each belongs to a registered refresher that
  is enabled and not paused, and none survives a global pause. From it: a refresher is polled by
  at most one timer, whatever the order of calls, timer callbacks and settling promises.
\<close>

section \<open>Projections\<close>

abbreviation iv :: "manager \<Rightarrow> nat \<Rightarrow> timer option" where
  "iv m a \<equiv> refresherIntervalTimer (runtime_of m a)"

abbreviation cd :: "manager \<Rightarrow> nat \<Rightarrow> timer option" where
  "cd m a \<equiv> refresherCooldownTimer (runtime_of m a)"

lemma runtime_of_upd [simp]:
  "runtime_of (upd_inst a f m) b = (if b = a then in_runtime (f (rm_heap m a)) else runtime_of m b)"
  by (simp add: runtime_of_def upd_inst_def)

lemma runtime_of_transition [simp]:
  "runtime_of (transition a e m) b =
     (if b = a then transitionRefresherRuntimeState (runtime_of m a) e else runtime_of m b)"
  by (simp add: transition_def) (simp add: runtime_of_def)

lemma runtime_of_set_next [simp]: "runtime_of (set_next a t m) = runtime_of m"
  by (auto simp: set_next_def fun_eq_iff) (simp add: runtime_of_def)

lemma runtime_of_simps [simp]:
  "runtime_of (log_event e m) = runtime_of m"
  "runtime_of (abort c m) = runtime_of m"
  "runtime_of (clear_timer t m) = runtime_of m"
  "runtime_of (m\<lparr>rm_fresh := x1\<rparr>) = runtime_of m"
  "runtime_of (m\<lparr>rm_runs := x2\<rparr>) = runtime_of m"
  "runtime_of (m\<lparr>rm_waiting := x3\<rparr>) = runtime_of m"
  "runtime_of (m\<lparr>rm_context := x4\<rparr>) = runtime_of m"
  "runtime_of (m\<lparr>rm_sets := x5\<rparr>) = runtime_of m"
  "runtime_of (m\<lparr>rm_subscribers := x6\<rparr>) = runtime_of m"
  "runtime_of (m\<lparr>rm_refreshers := x7\<rparr>) = runtime_of m"
  "runtime_of (m\<lparr>rm_globallyPaused := x8\<rparr>) = runtime_of m"
  "runtime_of (m\<lparr>rm_executionCounter := x9\<rparr>) = runtime_of m"
  "runtime_of (m\<lparr>rm_timers := x10\<rparr>) = runtime_of m"
  by (simp_all add: runtime_of_def log_event_def abort_def clear_timer_def fun_eq_iff)

lemma runtime_of_emit [simp]: "runtime_of (emitStateChange n s m) = runtime_of m"
  by (simp add: emitStateChange_def split: option.splits)

lemma table_simps [simp]:
  "rm_timers (upd_inst a f m) = rm_timers m" "rm_fresh (upd_inst a f m) = rm_fresh m"
  "rm_refreshers (upd_inst a f m) = rm_refreshers m"
  "rm_globallyPaused (upd_inst a f m) = rm_globallyPaused m"
  "rm_timers (transition a e m) = rm_timers m" "rm_fresh (transition a e m) = rm_fresh m"
  "rm_refreshers (transition a e m) = rm_refreshers m"
  "rm_globallyPaused (transition a e m) = rm_globallyPaused m"
  "rm_timers (set_next a t m) = rm_timers m" "rm_fresh (set_next a t m) = rm_fresh m"
  "rm_refreshers (set_next a t m) = rm_refreshers m"
  "rm_globallyPaused (set_next a t m) = rm_globallyPaused m"
  "rm_timers (log_event b m) = rm_timers m" "rm_fresh (log_event b m) = rm_fresh m"
  "rm_refreshers (log_event b m) = rm_refreshers m"
  "rm_globallyPaused (log_event b m) = rm_globallyPaused m"
  "rm_timers (abort c m) = rm_timers m" "rm_fresh (abort c m) = rm_fresh m"
  "rm_refreshers (abort c m) = rm_refreshers m"
  "rm_globallyPaused (abort c m) = rm_globallyPaused m"
  "rm_timers (clear_timer tt m) = (rm_timers m)(tt := None)"
  "rm_fresh (clear_timer tt m) = rm_fresh m"
  "rm_refreshers (clear_timer tt m) = rm_refreshers m"
  "rm_globallyPaused (clear_timer tt m) = rm_globallyPaused m"
  by (simp_all add: upd_inst_def transition_def set_next_def log_event_def abort_def
      clear_timer_def)

lemma table_emit [simp]:
  "rm_timers (emitStateChange n s m) = rm_timers m"
  "rm_fresh (emitStateChange n s m) = rm_fresh m"
  "rm_refreshers (emitStateChange n s m) = rm_refreshers m"
  "rm_globallyPaused (emitStateChange n s m) = rm_globallyPaused m"
  by (simp_all add: emitStateChange_def split: option.splits)

section \<open>The polling invariant\<close>

definition armed_for :: "manager \<Rightarrow> timer \<Rightarrow> string \<Rightarrow> nat \<Rightarrow> bool" where
  "armed_for m t n a \<longleftrightarrow> map_option fst (rm_timers m t) = Some (IntervalTask n a)"

text \<open>\<open>P\<close> holds the addresses that a global pause has not reached yet.\<close>

definition polling_inv :: "nat set \<Rightarrow> manager \<Rightarrow> bool" where
  "polling_inv P m \<longleftrightarrow>
     jm_ok (rm_refreshers m)
     \<and> (\<forall>a t. iv m a = Some t \<longleftrightarrow> (\<exists>n. armed_for m t n a))
     \<and> (\<forall>t n a. armed_for m t n a \<longrightarrow> jm_get (rm_refreshers m) n = Some a)
     \<and> (\<forall>a. iv m a \<noteq> None \<longrightarrow>
          isRefresherEnabled (runtime_of m a) \<and> (rm_globallyPaused m \<longrightarrow> a \<in> P))
     \<and> (\<forall>t. rm_timers m t \<noteq> None \<longrightarrow> t < rm_fresh m)
     \<and> (\<forall>n a. jm_get (rm_refreshers m) n = Some a \<longrightarrow> a < rm_fresh m)
     \<and> (\<forall>a c. cd m a = Some c \<longrightarrow> c < rm_fresh m \<and> (\<forall>n b. \<not> armed_for m c n b))"

abbreviation manager_inv :: "manager \<Rightarrow> bool" where
  "manager_inv \<equiv> polling_inv {}"

lemma polling_invD:
  assumes "polling_inv P m"
  shows "jm_ok (rm_refreshers m)"
    and "iv m a = Some t \<longleftrightarrow> (\<exists>n. armed_for m t n a)"
    and "armed_for m t n a \<Longrightarrow> jm_get (rm_refreshers m) n = Some a"
    and "iv m a \<noteq> None \<Longrightarrow> isRefresherEnabled (runtime_of m a)"
    and "iv m a \<noteq> None \<Longrightarrow> rm_globallyPaused m \<Longrightarrow> a \<in> P"
    and "rm_timers m u \<noteq> None \<Longrightarrow> u < rm_fresh m"
    and "jm_get (rm_refreshers m) n = Some a \<Longrightarrow> a < rm_fresh m"
    and "cd m a = Some c \<Longrightarrow> c < rm_fresh m"
    and "cd m a = Some c \<Longrightarrow> \<not> armed_for m c n b"
  using assms unfolding polling_inv_def by blast+

text \<open>Frame rule: a step that keeps the tables and can only forget timers of the runtimes.\<close>

lemma polling_inv_frame:
  assumes "polling_inv P m"
    and "rm_refreshers m' = rm_refreshers m" "rm_timers m' = rm_timers m"
    and "rm_fresh m \<le> rm_fresh m'" "rm_globallyPaused m' = rm_globallyPaused m"
    and "\<And>a. iv m' a = iv m a"
    and "\<And>a. cd m' a = None \<or> cd m' a = cd m a"
    and "\<And>a. iv m a \<noteq> None \<Longrightarrow> isRefresherEnabled (runtime_of m' a)"
  shows "polling_inv P m'"
proof -
  note D = polling_invD [OF assms(1)]
  have arm: "armed_for m' = armed_for m"
    using assms(3) by (simp add: armed_for_def fun_eq_iff)
  have cd': "cd m' a = Some c \<Longrightarrow> cd m a = Some c" for a c
    using assms(7) [of a] by auto
  show ?thesis
    unfolding polling_inv_def arm assms(2,3,5,6)
  proof (intro conjI allI impI)
    show "jm_ok (rm_refreshers m)" by (rule D(1))
    show "iv m a = Some t \<longleftrightarrow> (\<exists>n. armed_for m t n a)" for a t by (rule D(2))
    show "armed_for m t n a \<Longrightarrow> jm_get (rm_refreshers m) n = Some a" for t n a by (rule D(3))
    show "iv m a \<noteq> None \<Longrightarrow> isRefresherEnabled (runtime_of m' a)" for a by (rule assms(8))
    show "iv m a \<noteq> None \<Longrightarrow> rm_globallyPaused m \<Longrightarrow> a \<in> P" for a by (rule D(5))
    show "rm_timers m t \<noteq> None \<Longrightarrow> t < rm_fresh m'" for t using D(6) [of t] assms(4) by linarith
    show "jm_get (rm_refreshers m) n = Some a \<Longrightarrow> a < rm_fresh m'" for n a
      using D(7) [of n a] assms(4) by linarith
    show "cd m' a = Some c \<Longrightarrow> c < rm_fresh m'" for a c
      using D(8) [OF cd'] assms(4) by (meson order_less_le_trans)
    show "cd m' a = Some c \<Longrightarrow> \<not> armed_for m c n b" for a c n b
      using D(9) [OF cd'] .
  qed
qed

lemma polling_inv_simps [simp]:
  "polling_inv P m \<Longrightarrow> polling_inv P (log_event e m)"
  "polling_inv P m \<Longrightarrow> polling_inv P (abort c m)"
  "polling_inv P m \<Longrightarrow> polling_inv P (emitStateChange n s m)"
  "polling_inv P m \<Longrightarrow> polling_inv P (set_next a t m)"
  "polling_inv P m \<Longrightarrow> polling_inv P (m\<lparr>rm_runs := x2\<rparr>)"
  "polling_inv P m \<Longrightarrow> polling_inv P (m\<lparr>rm_waiting := x3\<rparr>)"
  "polling_inv P m \<Longrightarrow> polling_inv P (m\<lparr>rm_context := x4\<rparr>)"
  "polling_inv P m \<Longrightarrow> polling_inv P (m\<lparr>rm_sets := x5\<rparr>)"
  "polling_inv P m \<Longrightarrow> polling_inv P (m\<lparr>rm_subscribers := x6\<rparr>)"
  by (rule polling_inv_frame, assumption; simp add: polling_invD(4))+

lemma polling_inv_transition:
  assumes "polling_inv P m"
    and "e = EvEnabled \<or> e = EvPaused \<or> (\<exists>x. e = EvRefreshStarted x) \<or> (\<exists>i. e = EvRefreshFinished i)
      \<or> (\<exists>c. e = EvCooldownFinished c)
      \<or> (iv m a = None \<and> e \<in> {EvDisabled, EvIdle None})"
  shows "polling_inv P (transition a e m)"
  using assms
  by (intro polling_inv_frame [OF assms(1)])
    (auto simp: polling_invD(4) isRefresherEnabled_def dest: polling_invD(4))

lemma polling_inv_upd:
  assumes "polling_inv P m" "in_runtime (f (rm_heap m a)) = in_runtime (rm_heap m a)"
  shows "polling_inv P (upd_inst a f m)"
proof -
  have "runtime_of (upd_inst a f m) = runtime_of m"
    using assms(2) by (simp add: runtime_of_def fun_eq_iff upd_inst_def)
  with assms(1) show ?thesis
    by (intro polling_inv_frame [OF assms(1)]) (simp_all add: polling_invD(4))
qed

section \<open>Timers\<close>

lemma armed_for_simps [simp]:
  "armed_for (clear_timer u m) t n a \<longleftrightarrow> t \<noteq> u \<and> armed_for m t n a"
  "armed_for (transition b e m) = armed_for m"
  by (auto simp: armed_for_def fun_eq_iff)

lemma drop_timer_tables [simp]:
  "rm_refreshers (drop_timer t m) = rm_refreshers m"
  "rm_fresh (drop_timer t m) = rm_fresh m"
  "rm_globallyPaused (drop_timer t m) = rm_globallyPaused m"
  "runtime_of (drop_timer t m) = runtime_of m"
  "armed_for (drop_timer t m) u n a \<longleftrightarrow> t \<noteq> Some u \<and> armed_for m u n a"
  "rm_heap (drop_timer t m) = rm_heap m"
  "rm_timers (drop_timer t m) u = (if t = Some u then None else rm_timers m u)"
  by (auto simp: drop_timer_def clear_timer_def armed_for_def split: option.splits if_splits)

lemma iv_unique:
  assumes "polling_inv P m" "iv m a = Some t" "iv m b = Some t"
  shows "a = b"
proof -
  note D = polling_invD [OF assms(1)]
  from assms(2,3) obtain n k where "armed_for m t n a" "armed_for m t k b"
    by (auto simp: D(2))
  then show ?thesis by (metis armed_for_def option.inject timer_task.inject(1))
qed

lemma polling_inv_clearTimers:
  assumes "polling_inv P m"
  shows "polling_inv P (clearTimers a m)"
proof -
  note D = polling_invD [OF assms]
  let ?m' = "clearTimers a m"
  have iv': "iv ?m' b = (if b = a then None else iv m b)" for b
    by (simp add: clearTimers_def Let_def)
  have cd': "cd ?m' b = (if b = a then None else cd m b)" for b
    by (simp add: clearTimers_def Let_def)
  have arm: "armed_for ?m' t n b \<longleftrightarrow> armed_for m t n b \<and> b \<noteq> a" for t n b
  proof -
    have "armed_for ?m' t n b \<longleftrightarrow> armed_for m t n b \<and> iv m a \<noteq> Some t \<and> cd m a \<noteq> Some t"
      by (auto simp: clearTimers_def Let_def)
    moreover have "armed_for m t n b \<Longrightarrow> iv m b = Some t"
      using D(2) by blast
    moreover have "armed_for m t n b \<Longrightarrow> cd m a \<noteq> Some t"
      using D(9) by blast
    ultimately show ?thesis
      using iv_unique [OF assms] by blast
  qed
  have int: "isRefresherEnabled (runtime_of ?m' b) = isRefresherEnabled (runtime_of m b)" for b
    by (simp add: clearTimers_def Let_def isRefresherEnabled_def)
  have tab: "rm_refreshers ?m' = rm_refreshers m" "rm_fresh ?m' = rm_fresh m"
    "rm_globallyPaused ?m' = rm_globallyPaused m"
    "rm_timers ?m' t \<noteq> None \<Longrightarrow> rm_timers m t \<noteq> None" for t
    by (simp_all add: clearTimers_def Let_def split: if_splits)
  show ?thesis
    unfolding polling_inv_def iv' cd' arm int tab
  proof (intro conjI allI impI)
    show "jm_ok (rm_refreshers m)" by (rule D(1))
    show "(if b = a then None else iv m b) = Some t \<longleftrightarrow> (\<exists>n. armed_for m t n b \<and> b \<noteq> a)" for b t
      using D(2) [of b t] by auto
    show "armed_for m t n b \<and> b \<noteq> a \<Longrightarrow> jm_get (rm_refreshers m) n = Some b" for t n b
      using D(3) by blast
    show "(if b = a then None else iv m b) \<noteq> None \<Longrightarrow> isRefresherEnabled (runtime_of m b)"
      for b using D(4) [of b] by (auto split: if_splits)
    show "(if b = a then None else iv m b) \<noteq> None \<Longrightarrow> rm_globallyPaused m \<Longrightarrow> b \<in> P"
      for b using D(5) [of b] by (auto split: if_splits)
    show "rm_timers ?m' t \<noteq> None \<Longrightarrow> t < rm_fresh m" for t
      using tab(4) D(6) by blast
    show "jm_get (rm_refreshers m) n = Some b \<Longrightarrow> b < rm_fresh m" for n b by (rule D(7))
    show "(if b = a then None else cd m b) = Some c \<Longrightarrow> c < rm_fresh m" for b c
      using D(8) [of b c] by (auto split: if_splits)
    show "(if b = a then None else cd m b) = Some c \<Longrightarrow> \<not> (armed_for m c n k \<and> k \<noteq> a)" for b c n k
      using D(9) [of b c] by (auto split: if_splits)
  qed
qed

lemma iv_clearTimers [simp]: "iv (clearTimers a m) b = (if b = a then None else iv m b)"
  by (simp add: clearTimers_def Let_def)

lemma clearTimers_simps [simp]:
  "rm_refreshers (clearTimers a m) = rm_refreshers m"
  "rm_fresh (clearTimers a m) = rm_fresh m"
  "rm_globallyPaused (clearTimers a m) = rm_globallyPaused m"
  "rt_intent (runtime_of (clearTimers a m) b) = rt_intent (runtime_of m b)"
  "rt_execution (runtime_of (clearTimers a m) b) = rt_execution (runtime_of m b)"
  by (simp_all add: clearTimers_def Let_def)

text \<open>Arming a fresh interval timer for a registered, enabled, not paused refresher, with the
  runtime event that records it.\<close>

lemma polling_inv_arm:
  assumes inv: "polling_inv P m"
    and reg: "jm_get (rm_refreshers m) name = Some a"
    and ena: "isRefresherEnabled (runtime_of m a)" "\<not> rm_globallyPaused m"
    and rep: "replaceIntervalTimer name a m = (t, m1)"
    and m2: "rm_refreshers m2 = rm_refreshers m1" "rm_timers m2 = rm_timers m1"
      "rm_fresh m2 = rm_fresh m1" "rm_globallyPaused m2 = rm_globallyPaused m1"
      "runtime_of m2 = runtime_of m1"
    and ev: "e = EvIdle (Some t) \<or> e = EvIntervalReplaced t"
  shows "polling_inv P (transition a e m2)"
proof -
  note D = polling_invD [OF inv]
  let ?m' = "transition a e m2"
  from rep have t: "t = rm_fresh m"
    and m1: "rm_refreshers m1 = rm_refreshers m" "rm_fresh m1 = Suc (rm_fresh m)"
      "rm_globallyPaused m1 = rm_globallyPaused m" "runtime_of m1 = runtime_of m"
    and tm: "rm_timers m1 u = (if u = t then Some (IntervalTask name a,
          rf_interval (in_config (rm_heap m a)))
        else if iv m a = Some u then None else rm_timers m u)" for u
    by (auto simp: replaceIntervalTimer_def set_timer_def)
  have notarm: "\<not> armed_for m t n b" for n b
    using D(6) [of t] by (auto simp: armed_for_def t)
  have iv': "iv ?m' b = (if b = a then Some t else iv m b)" for b
    using ev by (auto simp: m2 m1)
  have cd': "cd ?m' b = Some c \<Longrightarrow> cd m b = Some c" for b c
    using ev by (auto simp: m2 m1 split: if_splits)
  have arm: "armed_for ?m' u n b \<longleftrightarrow>
      (if u = t then n = name \<and> b = a else iv m a \<noteq> Some u \<and> armed_for m u n b)" for u n b
    by (auto simp: armed_for_def m2 tm)
  have int: "isRefresherEnabled (runtime_of ?m' b) = isRefresherEnabled (runtime_of m b)" for b
    using ev by (auto simp: m2 m1 isRefresherEnabled_def)
  have tab: "rm_refreshers ?m' = rm_refreshers m" "rm_fresh ?m' = Suc (rm_fresh m)"
    "rm_globallyPaused ?m' = rm_globallyPaused m"
    by (simp_all add: m2 m1)
  have le: "u < rm_fresh m" if "iv m b = Some u" for b u
  proof -
    from that obtain n where "armed_for m u n b" by (auto simp: D(2))
    then show ?thesis using D(6) [of u] by (auto simp: armed_for_def)
  qed
  show ?thesis
    unfolding polling_inv_def iv' arm int tab
  proof (intro conjI allI impI)
    show "jm_ok (rm_refreshers m)" by (rule D(1))
    show "(if b = a then Some t else iv m b) = Some u \<longleftrightarrow>
      (\<exists>n. if u = t then n = name \<and> b = a else iv m a \<noteq> Some u \<and> armed_for m u n b)" for b u
    proof (cases "b = a")
      case True
      then show ?thesis using D(2) [of a u] by auto
    next
      case False
      then have "iv m b \<noteq> Some t" using le [of b t] by (auto simp: t)
      moreover have "iv m b = Some u \<Longrightarrow> iv m a \<noteq> Some u"
        using iv_unique [OF inv, of a u b] False by auto
      ultimately show ?thesis using False D(2) [of b u] by auto
    qed
    show "(if u = t then n = name \<and> b = a else iv m a \<noteq> Some u \<and> armed_for m u n b) \<Longrightarrow>
      jm_get (rm_refreshers m) n = Some b" for u n b
      using reg D(3) [of u n b] by (auto split: if_splits)
    show "(if b = a then Some t else iv m b) \<noteq> None \<Longrightarrow>
      isRefresherEnabled (runtime_of m b)" for b
      using ena(1) D(4) [of b] by (auto split: if_splits)
    show "(if b = a then Some t else iv m b) \<noteq> None \<Longrightarrow> rm_globallyPaused m \<Longrightarrow> b \<in> P" for b
      using ena(2) by simp
    show "rm_timers ?m' u \<noteq> None \<Longrightarrow> u < Suc (rm_fresh m)" for u
      using D(6) [of u] by (auto simp: m2 tm t split: if_splits)
    show "jm_get (rm_refreshers m) n = Some b \<Longrightarrow> b < Suc (rm_fresh m)" for n b
      using D(7) [of n b] by simp
    show "cd ?m' b = Some c \<Longrightarrow> c < Suc (rm_fresh m)" for b c
      using D(8) [OF cd'] by (meson less_Suc_eq)
    show "cd ?m' b = Some c \<Longrightarrow>
      \<not> (if c = t then n = name \<and> k = a else iv m a \<noteq> Some c \<and> armed_for m c n k)" for b c n k
      using D(8) [OF cd', of b c] D(9) [OF cd', of b c n k] by (auto simp: t)
  qed
qed

section \<open>Every operation keeps the invariant\<close>

text \<open>What no internal operation writes: the name table and the pause flag.\<close>

definition same_table :: "manager \<Rightarrow> manager \<Rightarrow> bool" where
  "same_table m m' \<longleftrightarrow>
     rm_refreshers m' = rm_refreshers m \<and> rm_globallyPaused m' = rm_globallyPaused m"

lemma same_tableI [intro]:
  "rm_refreshers m' = rm_refreshers m \<Longrightarrow> rm_globallyPaused m' = rm_globallyPaused m \<Longrightarrow>
   same_table m m'"
  by (simp add: same_table_def)

lemma same_table_trans [trans]: "same_table m m' \<Longrightarrow> same_table m' m'' \<Longrightarrow> same_table m m''"
  by (simp add: same_table_def)

lemma same_table_refl [simp]: "same_table m m"
  by (simp add: same_table_def)

lemma beginRefresh_tables [simp]:
  "rm_refreshers (beginRefresh n a i m) = rm_refreshers m"
  "rm_globallyPaused (beginRefresh n a i m) = rm_globallyPaused m"
  "rt_intent (runtime_of (beginRefresh n a i m) b) = rt_intent (runtime_of m b)"
  by (simp_all add: beginRefresh_def Let_def)

lemma polling_inv_allocate:
  "polling_inv P m \<Longrightarrow> rm_fresh m \<le> k \<Longrightarrow>
   polling_inv P (m\<lparr>rm_fresh := k, rm_executionCounter := x, rm_runs := r\<rparr>)"
  by (rule polling_inv_frame, assumption) (simp_all add: polling_invD(4))

lemma polling_inv_beginRefresh:
  assumes "polling_inv P m"
  shows "polling_inv P (beginRefresh n a i m)"
proof -
  have "polling_inv P (if i = Manual then clearTimers a m else m)"
    using assms by (simp add: polling_inv_clearTimers)
  then show ?thesis
    unfolding beginRefresh_def Let_def
    by (intro polling_inv_simps(1,3) polling_inv_transition polling_inv_allocate) auto
qed

lemma refreshSingle_tables [simp]:
  "rm_refreshers (refreshSingle n i m) = rm_refreshers m"
  "rm_globallyPaused (refreshSingle n i m) = rm_globallyPaused m"
  "rt_intent (runtime_of (refreshSingle n i m) b) = rt_intent (runtime_of m b)"
  by (simp_all add: refreshSingle_def split: option.splits execution_state.splits)

lemma polling_inv_refreshSingle:
  "polling_inv P m \<Longrightarrow> polling_inv P (refreshSingle n i m)"
  by (auto simp: refreshSingle_def polling_inv_beginRefresh
      split: option.splits execution_state.splits)

lemma polling_inv_fold:
  "(\<And>x m. x \<in> set xs \<Longrightarrow> polling_inv P m \<Longrightarrow> polling_inv P (f x m)) \<Longrightarrow> polling_inv P m \<Longrightarrow>
   polling_inv P (fold f xs m)"
  by (induction xs arbitrary: m) auto

lemma polling_inv_refreshMany:
  "polling_inv P m \<Longrightarrow> polling_inv P (refreshMany ns i m)"
  unfolding refreshMany_def by (rule polling_inv_fold) (rule polling_inv_refreshSingle)

lemma polling_inv_enterCooldown:
  assumes inv: "polling_inv P m"
  shows "polling_inv P (enterCooldown n a man err m)"
proof -
  note D = polling_invD [OF inv]
  let ?t = "rm_fresh m"
  let ?d = "cooldownMs (rf_cooldown (in_config (rm_heap m a))) (in_consecutiveErrors (rm_heap m a))"
  let ?m1 = "m\<lparr>rm_timers := (rm_timers m)(?t \<mapsto> (CooldownTask n a man err, ?d)), rm_fresh := Suc ?t\<rparr>"
  let ?m' = "transition a (EvCooldownStarted ?t) ?m1"
  have rt: "runtime_of ?m1 = runtime_of m"
    by simp
  have old: "\<not> armed_for m ?t k b" for k b
    using D(6) [of ?t] by (auto simp: armed_for_def)
  have arm: "armed_for ?m' u k b \<longleftrightarrow> armed_for m u k b" for u k b
    using old [of k b] by (auto simp: armed_for_def)
  have iv': "iv ?m' b = iv m b" for b
    by (simp add: rt)
  have cd': "cd ?m' b = (if b = a then Some ?t else cd m b)" for b
    by (simp add: rt)
  have int: "isRefresherEnabled (runtime_of ?m' b) = isRefresherEnabled (runtime_of m b)" for b
    by (simp add: rt isRefresherEnabled_def)
  have "polling_inv P ?m'"
    unfolding polling_inv_def iv' cd' arm int
  proof (intro conjI allI impI)
    show "jm_ok (rm_refreshers ?m')" using D(1) by simp
    show "iv m b = Some u \<longleftrightarrow> (\<exists>k. armed_for m u k b)" for b u by (rule D(2))
    show "armed_for m u k b \<Longrightarrow> jm_get (rm_refreshers ?m') k = Some b" for u k b
      using D(3) by simp
    show "iv m b \<noteq> None \<Longrightarrow> isRefresherEnabled (runtime_of m b)" for b by (rule D(4))
    show "iv m b \<noteq> None \<Longrightarrow> rm_globallyPaused ?m' \<Longrightarrow> b \<in> P" for b using D(5) by simp
    show "rm_timers ?m' u \<noteq> None \<Longrightarrow> u < rm_fresh ?m'" for u
      using D(6) [of u] by (auto split: if_splits)
    show "jm_get (rm_refreshers ?m') k = Some b \<Longrightarrow> b < rm_fresh ?m'" for k b
      using D(7) [of k b] by simp
    show "(if b = a then Some ?t else cd m b) = Some c \<Longrightarrow> c < rm_fresh ?m'" for b c
      using D(8) [of b c] by (auto split: if_splits)
    show "(if b = a then Some ?t else cd m b) = Some c \<Longrightarrow> \<not> armed_for m c k x" for b c k x
      using D(9) [of b c] old by (auto split: if_splits)
  qed
  then show ?thesis
    by (simp add: enterCooldown_def set_timer_def Let_def)
qed

lemma polling_inv_startRefresher:
  assumes inv: "polling_inv P m"
  shows "polling_inv P (startRefresher now n m)"
proof (cases "jm_get (rm_refreshers m) n")
  case None
  with inv show ?thesis by (simp add: startRefresher_def)
next
  case (Some a)
  consider (off) "\<not> isRefresherEnabled (runtime_of m a) \<or> rm_globallyPaused m"
    | (run) "isRefresherEnabled (runtime_of m a)" "\<not> rm_globallyPaused m"
    by blast
  then show ?thesis
  proof cases
    case off
    with Some inv show ?thesis by (simp add: startRefresher_def polling_inv_transition)
  next
    case run
    obtain t m1 where rep: "replaceIntervalTimer n a m = (t, m1)" by (rule prod.exhaust)
    let ?m2 = "set_next a (Some (now + rf_interval (in_config (rm_heap m1 a)))) m1"
    have "polling_inv P (transition a (EvIdle (Some t)) ?m2)"
      by (rule polling_inv_arm [OF inv Some run rep]) simp_all
    with Some run rep show ?thesis
      by (simp add: startRefresher_def Let_def polling_inv_refreshSingle)
  qed
qed

lemma startRefresher_tables [simp]:
  "rm_refreshers (startRefresher now n m) = rm_refreshers m"
  "rm_globallyPaused (startRefresher now n m) = rm_globallyPaused m"
  by (simp_all add: startRefresher_def replaceIntervalTimer_def set_timer_def Let_def
      split: option.splits)

lemma polling_inv_pauseInstance:
  assumes "polling_inv P m"
  shows "polling_inv (P - {a}) (pauseInstance n a m)"
    and "rm_refreshers (pauseInstance n a m) = rm_refreshers m"
proof -
  define m1 where "m1 = (case rt_execution (runtime_of m a) of
      ExecRunning e \<Rightarrow> if ex_invocation e = Automatic then abort (ex_controller e) m else m
    | ExecIdle \<Rightarrow> m)"
  have 1: "polling_inv P m1"
    using assms by (simp add: m1_def split: execution_state.splits)
  let ?m' = "transition a EvPaused (clearTimers a m1)"
  have 2: "polling_inv P ?m'"
    by (intro polling_inv_transition polling_inv_clearTimers 1) simp
  have "iv ?m' a = None" by simp
  with 2 have "polling_inv (P - {a}) ?m'"
    unfolding polling_inv_def by blast
  then show "polling_inv (P - {a}) (pauseInstance n a m)"
    by (simp add: pauseInstance_def Let_def flip: m1_def)
  show "rm_refreshers (pauseInstance n a m) = rm_refreshers m"
    by (simp add: pauseInstance_def Let_def split: execution_state.splits)
qed

lemma polling_inv_mono: "polling_inv P m \<Longrightarrow> P \<subseteq> Q \<Longrightarrow> polling_inv Q m"
  unfolding polling_inv_def by blast

lemma polling_inv_pauseAll:
  "polling_inv (P \<union> snd ` set L) m \<Longrightarrow>
   polling_inv P (fold (\<lambda>na. pauseInstance (fst na) (snd na)) L m)"
proof (induction L arbitrary: m)
  case (Cons na L)
  have "polling_inv ((P \<union> snd ` set (na # L)) - {snd na}) (pauseInstance (fst na) (snd na) m)"
    by (rule polling_inv_pauseInstance(1)) (rule Cons.prems)
  then have "polling_inv (P \<union> snd ` set L) (pauseInstance (fst na) (snd na) m)"
    by (rule polling_inv_mono) auto
  then show ?case by (simp add: Cons.IH)
qed simp

lemma manager_inv_pause:
  assumes "manager_inv m"
  shows "manager_inv (pause name m)"
proof (cases name)
  case None
  note D = polling_invD [OF assms]
  have reg: "a \<in> snd ` set (rm_refreshers m)" if "iv m a \<noteq> None" for a
  proof -
    from that obtain t n where "armed_for m t n a" using D(2) by auto
    then have "jm_get (rm_refreshers m) n = Some a" by (rule D(3))
    then show ?thesis by (force dest: jm_get_in)
  qed
  have "polling_inv ({} \<union> snd ` set (rm_refreshers m)) (m\<lparr>rm_globallyPaused := True\<rparr>)"
    using assms reg unfolding polling_inv_def by (simp add: armed_for_def)
  with None show ?thesis by (simp add: pause_def polling_inv_pauseAll)
next
  case (Some n)
  with assms show ?thesis
    using polling_inv_pauseInstance(1) [of "{}" m]
    by (simp add: pause_def split: option.splits)
qed

lemma polling_inv_resumeInstance:
  "polling_inv P m \<Longrightarrow> polling_inv P (resumeInstance now n a m)"
  by (simp add: resumeInstance_def polling_inv_startRefresher polling_inv_transition)

lemma manager_inv_resume:
  assumes "manager_inv m"
  shows "manager_inv (resume now name m)"
proof (cases name)
  case None
  have "manager_inv (m\<lparr>rm_globallyPaused := False\<rparr>)"
    using assms unfolding polling_inv_def by (simp add: armed_for_def)
  then have "manager_inv (fold (resumeEach now) (rm_refreshers m) (m\<lparr>rm_globallyPaused := False\<rparr>))"
    by (intro polling_inv_fold)
      (simp_all add: resumeEach_def Let_def polling_inv_resumeInstance polling_inv_startRefresher)
  with None show ?thesis by (simp add: resume_def)
next
  case (Some n)
  with assms show ?thesis
    by (simp add: resume_def polling_inv_resumeInstance split: option.splits)
qed

lemma polling_inv_abortRefresher:
  "polling_inv P m \<Longrightarrow> polling_inv P (abortRefresher n m)"
  by (simp add: abortRefresher_def polling_inv_transition split: option.splits execution_state.splits)

lemma manager_inv_unregister:
  assumes "manager_inv m"
  shows "manager_inv (unregister name m)"
proof (cases "jm_get (rm_refreshers m) name")
  case None
  with assms show ?thesis by (simp add: unregister_def)
next
  case (Some a)
  let ?m1 = "clearTimers a m"
  have inv1: "manager_inv ?m1" using assms by (rule polling_inv_clearTimers)
  note D = polling_invD [OF inv1]
  have keep: "n \<noteq> name" if "armed_for ?m1 t n b" for t n b
  proof
    assume "n = name"
    with D(3) [OF that] Some have "b = a" by simp
    moreover from that have "iv ?m1 b = Some t" using D(2) by blast
    ultimately show False by simp
  qed
  have "manager_inv (?m1\<lparr>rm_refreshers := jm_delete name (rm_refreshers ?m1),
      rm_subscribers := jm_delete name (rm_subscribers ?m1)\<rparr>)" (is "manager_inv ?m'")
  proof -
    have arm: "armed_for ?m' = armed_for ?m1" by (simp add: armed_for_def fun_eq_iff)
    show ?thesis
      using inv1 keep unfolding polling_inv_def arm by (simp del: iv_clearTimers clearTimers_simps)
  qed
  with Some show ?thesis by (simp add: unregister_def Let_def)
qed

lemma polling_inv_allocate_instance:
  assumes "polling_inv P m" and "iv m' a = None" "cd m' a = None"
    and "\<And>b. b \<noteq> a \<Longrightarrow> runtime_of m' b = runtime_of m b"
    and "a = rm_fresh m" "rm_fresh m' = Suc a" "rm_timers m' = rm_timers m"
    and "rm_globallyPaused m' = rm_globallyPaused m"
    and "jm_get (rm_refreshers m) n = None"
    and "rm_refreshers m' = jm_set n a (rm_refreshers m)"
  shows "polling_inv P m'"
proof -
  note D = polling_invD [OF assms(1)]
  have arm: "armed_for m' = armed_for m"
    by (simp add: armed_for_def fun_eq_iff assms(7))
  have na: "\<not> armed_for m t k a" for t k
    using D(3) D(7) assms(5) by (metis less_irrefl)
  have nn: "\<not> armed_for m t n b" for t b
    using D(3) assms(9) by (metis option.distinct(1))
  have "iv m a = None"
    using na D(2) [of a] by (metis not_Some_eq)
  then have iv': "iv m' b = iv m b" for b
    using assms(2,4) by (cases "b = a") simp_all
  show ?thesis
    unfolding polling_inv_def arm iv' assms(7,8)
  proof (intro conjI allI impI)
    show "jm_ok (rm_refreshers m')" using D(1) by (simp add: assms(10))
    show "iv m b = Some t \<longleftrightarrow> (\<exists>k. armed_for m t k b)" for b t by (rule D(2))
    show "armed_for m t k b \<Longrightarrow> jm_get (rm_refreshers m') k = Some b" for t k b
      using D(3) [of t k b] nn by (auto simp: assms(10))
    show "iv m b \<noteq> None \<Longrightarrow> isRefresherEnabled (runtime_of m' b)" for b
      using D(4) [of b] assms(4) iv' [of a] assms(2) by (cases "b = a") auto
    show "iv m b \<noteq> None \<Longrightarrow> rm_globallyPaused m \<Longrightarrow> b \<in> P" for b by (rule D(5))
    show "rm_timers m t \<noteq> None \<Longrightarrow> t < rm_fresh m'" for t
      using D(6) [of t] assms(5,6) by simp
    show "jm_get (rm_refreshers m') k = Some b \<Longrightarrow> b < rm_fresh m'" for k b
      using D(7) [of k b] assms(5,6) by (auto simp: assms(10) split: if_splits)
    show "cd m' b = Some c \<Longrightarrow> c < rm_fresh m'" for b c
      using D(8) [of b c] assms(3,4,5,6) by (cases "b = a") auto
    show "cd m' b = Some c \<Longrightarrow> \<not> armed_for m c k x" for b c k x
      using D(9) [of b c] assms(3,4) by (cases "b = a") auto
  qed
qed

lemma unregister_forgets [simp]: "jm_get (rm_refreshers (unregister n m)) n = None"
  by (simp add: unregister_def Let_def split: option.splits)

lemma manager_inv_register:
  assumes "manager_inv m"
  shows "manager_inv (register now r m)"
proof -
  let ?n = "rf_name r"
  let ?m1 = "unregister ?n m"
  define p where "p = (if jm_get (rm_refreshers m) ?n = None then []
    else case jm_get (rm_subscribers m) ?n of None \<Rightarrow> [] | Some s \<Rightarrow> rm_sets m s)"
  define e where "e = (case rf_enabled r of Some b \<Rightarrow> b | None \<Rightarrow>
    (case jm_get (rm_refreshers m) ?n of None \<Rightarrow> True
     | Some a \<Rightarrow> isRefresherEnabled (runtime_of ?m1 a)))"
  define m2 where "m2 = (if p \<noteq> []
    then ?m1\<lparr>rm_sets := (rm_sets ?m1)(rm_fresh ?m1 := p),
           rm_subscribers := jm_set ?n (rm_fresh ?m1) (rm_subscribers ?m1),
           rm_fresh := Suc (rm_fresh ?m1)\<rparr> else ?m1)"
  define i where "i = \<lparr>in_config = r, in_runtime = initialRefresherRuntimeState e,
      in_lastRefreshTime = None, in_nextRefreshTime = None, in_error = None,
      in_consecutiveErrors = 0\<rparr>"
  let ?a = "rm_fresh m2"
  let ?m3 = "m2\<lparr>rm_heap := (rm_heap m2)(?a := i), rm_fresh := Suc ?a,
      rm_refreshers := jm_set ?n ?a (rm_refreshers m2)\<rparr>"
  have 1: "manager_inv ?m1" using assms by (rule manager_inv_unregister)
  have 2: "manager_inv m2"
  proof (cases "p = []")
    case True
    with 1 show ?thesis by (simp add: m2_def)
  next
    case False
    with 1 show ?thesis
      unfolding m2_def
      by (auto intro!: polling_inv_frame [OF 1] simp: polling_invD(4))
  qed
  have "jm_get (rm_refreshers m2) ?n = None" by (simp add: m2_def)
  then have "manager_inv ?m3"
    by (intro polling_inv_allocate_instance [OF 2, of _ ?a ?n])
      (auto simp: runtime_of_def i_def initialRefresherRuntimeState_def refresherIntervalTimer_def
        refresherCooldownTimer_def)
  then have "manager_inv (log_event (Registered ?n)
      (if e then startRefresher now ?n ?m3 else emitStateChange ?n None ?m3))"
    by (simp add: polling_inv_startRefresher)
  then show ?thesis
    by (simp only: register_def Let_def p_def [symmetric] e_def [symmetric] m2_def [symmetric]
        i_def [symmetric])
qed

lemma manager_inv_enable:
  assumes "manager_inv m"
  shows "manager_inv (enable now name m)"
  using assms
  by (auto simp: enable_def Let_def polling_inv_startRefresher polling_inv_transition
      split: option.splits)

lemma manager_inv_disable:
  assumes "manager_inv m"
  shows "manager_inv (disable name m)"
proof -
  have "manager_inv (transition a EvDisabled (clearTimers a m1))" if "manager_inv m1" for a m1
    by (rule polling_inv_transition) (simp_all add: polling_inv_clearTimers that)
  then show ?thesis
    using assms
    by (auto simp: disable_def Let_def polling_inv_transition
        split: option.splits execution_state.splits)
qed

lemma manager_inv_updateContext:
  assumes "manager_inv m"
  shows "manager_inv (updateContext p m)"
  using assms
  by (auto simp: updateContext_def Let_def
      intro!: polling_inv_refreshMany polling_inv_fold polling_inv_abortRefresher)

lemma manager_inv_updateInterval:
  assumes "manager_inv m"
  shows "manager_inv (updateInterval now name v m)"
proof (cases "jm_get (rm_refreshers m) name")
  case None
  with assms show ?thesis by (simp add: updateInterval_def)
next
  case (Some a)
  show ?thesis
  proof (cases v)
    case None
    with assms Some show ?thesis by (simp add: updateInterval_def)
  next
    case (Some r)
    let ?m1 = "upd_inst a (\<lambda>i. i\<lparr>in_config := (in_config i)\<lparr>rf_interval := floor r\<rparr>\<rparr>) m"
    have 1: "manager_inv ?m1" using assms by (rule polling_inv_upd) simp
    have reg: "jm_get (rm_refreshers ?m1) name = Some a"
      using \<open>jm_get (rm_refreshers m) name = Some a\<close> by simp
    obtain t m2 where rep: "replaceIntervalTimer name a ?m1 = (t, m2)" by (rule prod.exhaust)
    have 2: "manager_inv (transition a (EvIntervalReplaced t) m2)"
      if "isRefresherEnabled (runtime_of ?m1 a)" "\<not> rm_globallyPaused ?m1"
      by (rule polling_inv_arm [OF 1 reg that rep]) simp_all
    from assms 1 2 reg rep Some show ?thesis
      by (auto simp: updateInterval_def Let_def)
  qed
qed

lemma polling_inv_cancelInstance:
  assumes "polling_inv P m"
  shows "polling_inv P (cancelInstance na m)"
proof -
  let ?a = "snd na"
  define m1 where "m1 = (case rt_execution (runtime_of m ?a) of
      ExecRunning e \<Rightarrow> abort (ex_controller e) m | ExecIdle \<Rightarrow> m)"
  have 1: "polling_inv P m1"
    using assms by (simp add: m1_def split: execution_state.splits)
  define m2 where "m2 = clearTimers ?a m1"
  have 2: "polling_inv P m2" using 1 by (simp add: m2_def polling_inv_clearTimers)
  have none: "iv m2 ?a = None" by (simp add: m2_def)
  have 3: "polling_inv P (transition ?a (EvIdle None) m2)"
    and 4: "polling_inv P (transition ?a EvDisabled m2)"
    using none by (auto intro!: polling_inv_transition [OF 2])
  from 3 4 show ?thesis
    unfolding cancelInstance_def Let_def m1_def [symmetric] m2_def [symmetric]
    by (auto simp del: runtime_of_transition intro!: polling_inv_simps(3,4) polling_inv_transition
        split: execution_state.splits)
qed

lemma manager_inv_cancelAll: "manager_inv m \<Longrightarrow> manager_inv (cancelAllRefreshes m)"
  unfolding cancelAllRefreshes_def by (rule polling_inv_fold) (rule polling_inv_cancelInstance)

lemma polling_inv_fire_cooldown:
  assumes "polling_inv P m" "rm_timers m t = Some (CooldownTask n a man err, d)"
  shows "polling_inv P (clear_timer t m)"
proof -
  note D = polling_invD [OF assms(1)]
  have arm: "armed_for (clear_timer t m) = armed_for m"
    using assms(2) by (auto simp: fun_eq_iff armed_for_def)
  show ?thesis
    using assms(1) unfolding polling_inv_def arm by simp
qed

lemma polling_inv_cooldownFired:
  "polling_inv P m \<Longrightarrow> polling_inv P (cooldownFired now t n a man err m)"
  by (auto simp: cooldownFired_def Let_def polling_inv_transition
      intro!: polling_inv_startRefresher polling_inv_refreshSingle)

lemma manager_inv_timerFired:
  assumes "manager_inv m"
  shows "manager_inv (timerFired now t m)"
proof (cases "rm_timers m t")
  case None
  with assms show ?thesis by (simp add: timerFired_def)
next
  case (Some kd)
  then obtain k d where kd: "rm_timers m t = Some (k, d)" by (cases kd) auto
  show ?thesis
  proof (cases k)
    case (IntervalTask n a)
    with kd assms show ?thesis
      by (simp add: timerFired_def intervalFired_def polling_inv_refreshSingle)
  next
    case (CooldownTask n a man err)
    with kd polling_inv_fire_cooldown [OF assms, of t n a man err d] show ?thesis
      by (simp add: timerFired_def polling_inv_cooldownFired)
  qed
qed

lemma polling_inv_completeRefresh:
  assumes "polling_inv P m" "completeRefresh now n a i man sm m = Inr m'"
  shows "polling_inv P m'"
proof -
  have 1: "polling_inv P (enterCooldown n a man False (log_event e
      (upd_inst a (\<lambda>i. i\<lparr>in_lastRefreshTime := Some now, in_error := None,
        in_consecutiveErrors := 0\<rparr>) (transition a (EvRefreshFinished i) m))))" for e
    by (intro polling_inv_enterCooldown polling_inv_simps(1) polling_inv_upd
        polling_inv_transition assms(1)) simp_all
  with assms show ?thesis
    by (auto simp: completeRefresh_def Let_def split: if_splits list.splits nat.splits)
qed

lemma polling_inv_failRefresh:
  assumes "polling_inv P m"
  shows "polling_inv P (failRefresh i r err m)"
proof -
  have 1: "polling_inv P (enterCooldown n a man True (log_event b (emitStateChange k st
      (upd_inst a (\<lambda>i. i\<lparr>in_error := Some err,
        in_consecutiveErrors := Suc (in_consecutiveErrors i)\<rparr>)
        (transition a (EvRefreshFinished j) (abort c m))))))" for n a man b k st j c
    by (intro polling_inv_enterCooldown polling_inv_simps(1,2,3) polling_inv_upd
        polling_inv_transition assms(1)) simp_all
  with assms show ?thesis
    by (auto simp: failRefresh_def completeAbortedRefresh_def completeFailedRefresh_def Let_def
        polling_inv_transition split: execution_state.splits)
qed

lemma manager_inv_settleExecution:
  assumes "manager_inv m"
  shows "manager_inv (settleExecution now i rs m)"
proof (cases "jm_get (rm_runs m) i")
  case None
  with assms show ?thesis by (simp add: settleExecution_def)
next
  case (Some r)
  let ?m0 = "m\<lparr>rm_runs := jm_delete i (rm_runs m)\<rparr>"
  have "manager_inv ?m0" using assms by simp
  with Some show ?thesis
    by (auto simp: settleExecution_def Let_def
        intro: polling_inv_failRefresh polling_inv_completeRefresh split: sum.splits)
qed

lemma manager_inv_subscribe:
  assumes "manager_inv m"
  shows "manager_inv (snd (subscribe n c m))"
proof -
  have "manager_inv (m\<lparr>rm_sets := x, rm_subscribers := y, rm_fresh := Suc (rm_fresh m)\<rparr>)" for x y
    by (rule polling_inv_frame [OF assms]) (simp_all add: polling_invD(4) [OF assms])
  then show ?thesis
    using assms by (simp add: subscribe_def Let_def split: option.splits)
qed

lemma manager_inv_step:
  assumes "manager_inv m"
  shows "manager_inv (manager_step m e)"
proof (cases "(m, e)" rule: manager_step.cases)
  case (18 m now k)
  with assms show ?thesis
    by (simp add: resumeSuperseder_def Let_def polling_inv_beginRefresh)
qed (use assms in \<open>simp_all add: manager_inv_register manager_inv_unregister manager_inv_enable
    manager_inv_disable manager_inv_updateContext manager_inv_updateInterval
    triggerManualRefresh_def polling_inv_refreshSingle polling_inv_refreshMany
    triggerManualRefreshForContext_def Let_def manager_inv_cancelAll manager_inv_pause
    manager_inv_resume manager_inv_timerFired manager_inv_settleExecution
    manager_inv_subscribe unsubscribe_def\<close>)

interpretation manager: event_machine manager_step manager_inv
  by unfold_locales (rule manager_inv_step)

section \<open>What the invariant gives\<close>

lemma manager_inv_initial: "manager_inv (initialManager w)"
  by (simp add: polling_inv_def initialManager_def runtime_of_def blankInstance_def
      initialRefresherRuntimeState_def refresherIntervalTimer_def refresherCooldownTimer_def
      armed_for_def)

lemma manager_inv_run: "manager_inv (foldl manager_step (initialManager w) es)"
  by (rule manager.run_inv) (rule manager_inv_initial)

lemma armed_forI: "rm_timers m t = Some (IntervalTask n a, d) \<Longrightarrow> armed_for m t n a"
  by (simp add: armed_for_def)

lemma interval_unique:
  assumes "manager_inv m" "armed_for m t n a" "armed_for m u n b"
  shows "t = u \<and> a = b"
proof -
  note D = polling_invD [OF assms(1)]
  have "a = b" using D(3) [OF assms(2)] D(3) [OF assms(3)] by simp
  moreover have "iv m a = Some t" "iv m b = Some u"
    using assms(2,3) D(2) by blast+
  ultimately show ?thesis by simp
qed

lemma interval_live:
  assumes "manager_inv m" "armed_for m t n a"
  shows "jm_get (rm_refreshers m) n = Some a" "isRefresherEnabled (runtime_of m a)"
    "\<not> rm_globallyPaused m"
proof -
  note D = polling_invD [OF assms(1)]
  show "jm_get (rm_refreshers m) n = Some a" using assms(2) by (rule D(3))
  have "iv m a = Some t" using D(2) assms(2) by blast
  then show "isRefresherEnabled (runtime_of m a)" "\<not> rm_globallyPaused m"
    using D(4) [of a] D(5) [of a] by auto
qed

text \<open>What evaluates a concrete run: the definitions of the steps.\<close>

lemmas manager_eval =
  initialManager_def blankInstance_def initialContext_def initialRefresherRuntimeState_def
  register_def unregister_def enable_def disable_def subscribe_def unsubscribe_def
  triggerManualRefresh_def refreshSingle_def beginRefresh_def canStartRefresh_def
  resumeSuperseder_def startRefresher_def replaceIntervalTimer_def set_timer_def drop_timer_def
  clear_timer_def clearTimers_def transition_def upd_inst_def set_next_def log_event_def abort_def
  emitStateChange_def runtime_of_def runtime_transition_defs isRefresherEnabled_def
  refresherIntervalTimer_def refresherCooldownTimer_def settleExecution_def executeRefresh_def
  completeRefresh_def failRefresh_def completeAbortedRefresh_def completeFailedRefresh_def
  ownsExecution_def enterCooldown_def cooldownMs_def MAX_BACKOFF_MS_def jset_add_def
  timerFired_def intervalFired_def cooldownFired_def pause_def pauseInstance_def abortError_def

definition example_refresher :: refresher where
  "example_refresher =
     \<lparr>rf_name = ''pods'', rf_interval = 5000, rf_cooldown = 1000, rf_timeout = 30,
      rf_resource = None, rf_enabled = None\<rparr>"

lemma cooldownMs_mono:
  assumes "0 \<le> c" "n \<le> k"
  shows "cooldownMs c n \<le> cooldownMs c k"
proof (cases "1 < n")
  case True
  then have "(2::int) ^ (n - 1) \<le> 2 ^ (k - 1)"
    using assms(2) by (intro power_increasing) auto
  then have "c * 2 ^ (n - 1) \<le> c * 2 ^ (k - 1)"
    using assms(1) by (rule mult_left_mono)
  with True assms(2) show ?thesis by (simp add: cooldownMs_def Let_def)
next
  case False
  have "c * 1 \<le> c * 2 ^ (k - 1)"
    using assms(1) by (intro mult_left_mono) auto
  with False assms show ?thesis by (auto simp: cooldownMs_def Let_def)
qed

lemma opt_list_in [simp]: "x \<in> set (opt_list y) \<longleftrightarrow> y = Some x"
  by (auto simp: opt_list_def split: option.splits)

lemma clusterViewToRefresher_in:
  "clusterViewToRefresher v = Some r \<Longrightarrow> (v, Some r) \<in> set CLUSTER_VIEW_DESCRIPTORS"
  unfolding clusterViewToRefresher_def
  by (cases "map_of CLUSTER_VIEW_DESCRIPTORS v") (auto dest: map_of_SomeD)

lemma cluster_refreshers_not_namespace:
  "(v, Some r) \<in> set CLUSTER_VIEW_DESCRIPTORS \<Longrightarrow> \<not> prefix ''namespace-'' r"
  unfolding CLUSTER_VIEW_DESCRIPTORS_def by auto

section \<open>Properties\<close>

text \<open>
  C4. No double polling. In every state that any sequence of API calls, timer callbacks and
  settling promises reaches, at most one interval timer is armed for a refresher name; it belongs
  to the instance that is registered now, that instance is enabled, and the manager is not
  globally paused.
\<close>

theorem polling_timer_unique:
  assumes "m = foldl manager_step (initialManager w) es"
    and "rm_timers m t = Some (IntervalTask n a, d)" "rm_timers m u = Some (IntervalTask n b, d')"
  shows "t = u \<and> a = b \<and> jm_get (rm_refreshers m) n = Some a
    \<and> isRefresherEnabled (runtime_of m a) \<and> \<not> rm_globallyPaused m"
proof -
  have inv: "manager_inv m" by (simp add: assms(1) manager_inv_run)
  note arm = armed_forI [OF assms(2)] armed_forI [OF assms(3)]
  show ?thesis
    using interval_unique [OF inv arm] interval_live [OF inv arm(1)] by simp
qed

theorem polling_timer_unique_witness:
  "(1::nat) = 1 \<and> (0::nat) = 0
    \<and> jm_get (rm_refreshers (foldl manager_step (initialManager True)
        [(0, Register example_refresher)])) ''pods'' = Some 0
    \<and> isRefresherEnabled (runtime_of (foldl manager_step (initialManager True)
        [(0, Register example_refresher)]) 0)
    \<and> \<not> rm_globallyPaused (foldl manager_step (initialManager True)
        [(0, Register example_refresher)])"
  by (rule polling_timer_unique [OF refl, where d = 5000 and d' = 5000])
    (simp_all add: manager_eval example_refresher_def Let_def)

text \<open>
  Disabling quiesces a refresher: afterwards its intent is disabled, it has no interval and no
  cooldown timer and no execution, no interval timer is armed under its name, and the controller of
  an execution that was running is aborted, so that its late completion is recognised.
\<close>

theorem disable_quiesces:
  assumes "manager_inv m" "jm_get (rm_refreshers m) n = Some a"
  shows "rt_intent (runtime_of (disable n m) a) = IntentDisabled
    \<and> refresherIntervalTimer (runtime_of (disable n m) a) = None
    \<and> refresherCooldownTimer (runtime_of (disable n m) a) = None
    \<and> rt_execution (runtime_of (disable n m) a) = ExecIdle
    \<and> (\<nexists>t b. armed_for (disable n m) t n b)
    \<and> (\<forall>e. rt_execution (runtime_of m a) = ExecRunning e \<longrightarrow>
         ex_controller e \<in> rm_aborted (disable n m))"
proof -
  let ?m' = "disable n m"
  have inv: "manager_inv ?m'" using assms(1) by (rule manager_inv_disable)
  have dis: "rt_intent (runtime_of ?m' a) = IntentDisabled"
    using assms(2) by (simp add: disable_def Let_def split: execution_state.splits)
  then have "iv ?m' a = None"
    using polling_invD(4) [OF inv, of a] by (cases "iv ?m' a") (auto simp: isRefresherEnabled_def)
  moreover have "cd ?m' a = None" "rt_execution (runtime_of ?m' a) = ExecIdle"
    using assms(2)
    by (auto simp: disable_def Let_def clearTimers_def split: execution_state.splits)
  moreover have "\<nexists>t b. armed_for ?m' t n b"
  proof
    assume "\<exists>t b. armed_for ?m' t n b"
    then obtain t b where arm: "armed_for ?m' t n b" by blast
    have "rm_refreshers ?m' = rm_refreshers m"
      by (simp add: disable_def Let_def split: option.splits execution_state.splits)
    with interval_live [OF inv arm] assms(2) have "b = a" "isRefresherEnabled (runtime_of ?m' a)"
      by auto
    with dis show False by (simp add: isRefresherEnabled_def)
  qed
  moreover have "ex_controller e \<in> rm_aborted ?m'"
    if "rt_execution (runtime_of m a) = ExecRunning e" for e
    using that assms(2)
    by (simp add: disable_def Let_def emitStateChange_def set_next_def upd_inst_def
        transition_def clearTimers_def drop_timer_def clear_timer_def abort_def log_event_def
        split: option.splits)
  ultimately show ?thesis using dis by blast
qed

text \<open>
  C22. A superseded execution cannot write: when the promise of an execution settles after its
  instance has moved on to another execution (or to none), the only effect is that the execution
  is no longer pending; no error, no cooldown, no event.
\<close>

theorem stale_completion_ignored:
  assumes "jm_get (rm_runs m) i = Some r" "\<not> ownsExecution m (run_instance r) i"
  shows "settleExecution now i results m = m\<lparr>rm_runs := jm_delete i (rm_runs m)\<rparr>"
  using assms
  by (auto simp: settleExecution_def executeRefresh_def completeRefresh_def failRefresh_def
      completeAbortedRefresh_def completeFailedRefresh_def ownsExecution_def Let_def
      split: execution_state.splits)

theorem stale_completion_ignored_witness:
  "settleExecution 7 1 [] (foldl manager_step (initialManager True)
      [(0, Register example_refresher), (1, Disable ''pods'')])
   = (foldl manager_step (initialManager True)
      [(0, Register example_refresher), (1, Disable ''pods'')])\<lparr>rm_runs := []\<rparr>"
  by (subst stale_completion_ignored [where r = "\<lparr>run_name = ''pods'', run_instance = 0,
        run_controller = 2, run_isManual = False, run_callbacks = []\<rparr>"])
    (simp_all add: manager_eval example_refresher_def Let_def AList.delete_eq)

text \<open>
  An automatic refresh changes nothing unless the refresher is registered, enabled, not paused
  (itself or globally), not running and not in its cooldown; only manual and foreground refreshes
  get past these guards.
\<close>

theorem automatic_refresh_guarded:
  assumes "refreshSingle n Automatic m \<noteq> m"
  shows "\<exists>a. jm_get (rm_refreshers m) n = Some a
    \<and> rt_intent (runtime_of m a) = IntentEnabled \<and> \<not> rm_globallyPaused m
    \<and> rt_execution (runtime_of m a) = ExecIdle \<and> refresherCooldownTimer (runtime_of m a) = None"
proof -
  from assms obtain a where a: "jm_get (rm_refreshers m) n = Some a"
    and "canStartRefresh (rm_heap m a) Automatic (rm_globallyPaused m)"
    by (auto simp: refreshSingle_def split: option.splits if_splits)
  then show ?thesis
    by (cases "rt_intent (runtime_of m a)")
      (auto simp: canStartRefresh_def isRefresherEnabled_def runtime_of_def Let_def)
qed

text \<open>
  C29. The error backoff: the cooldown is the configured one doubled for every consecutive error
  after the first, never below the configured one (or the cap, when that is smaller), never above
  sixty seconds, and never shorter for more errors.
\<close>

theorem backoff_bounds:
  assumes "0 \<le> cooldown" "n \<le> k"
  shows "min 60000 cooldown \<le> cooldownMs cooldown n \<and> cooldownMs cooldown n \<le> 60000
    \<and> cooldownMs cooldown n \<le> cooldownMs cooldown k
    \<and> cooldownMs cooldown (Suc n) = min 60000 (cooldown * 2 ^ n)"
proof -
  have "min 60000 cooldown \<le> cooldownMs cooldown n"
    using cooldownMs_mono [of cooldown 0 n] assms(1)
    by (simp add: cooldownMs_def MAX_BACKOFF_MS_def)
  moreover have "cooldownMs cooldown n \<le> 60000"
    by (simp add: cooldownMs_def Let_def MAX_BACKOFF_MS_def)
  moreover have "cooldownMs cooldown (Suc n) = min 60000 (cooldown * 2 ^ n)"
    by (simp add: cooldownMs_def MAX_BACKOFF_MS_def)
  ultimately show ?thesis using cooldownMs_mono [OF assms] by simp
qed

theorem backoff_bounds_witness:
  "cooldownMs 1000 (Suc 3) = 8000 \<and> cooldownMs 1000 3 \<le> cooldownMs 1000 9"
  using backoff_bounds [of 1000 3 9] by simp

text \<open>
  Switching the view never aborts anything by itself: the branch of \<open>updateContext\<close> that aborts
  the foreground targets whose name starts with \<open>namespace-\<close> is never entered with such a target,
  because without a namespace change the only targets are cluster refreshers and the overview.
\<close>

theorem view_switch_aborts_nothing:
  assumes "\<not> namespaceScopeChanged previous current"
  shows "List.filter (prefix ''namespace-'') (getForegroundRefreshTargets previous current) = []"
  using assms
  by (auto simp: filter_empty_conv getForegroundRefreshTargets_def namespaceForegroundChanged_def
      SYSTEM_clusterOverview_def activeClusterRefresher_def bind_eq_Some_conv
      dest!: clusterViewToRefresher_in dest: cluster_refreshers_not_namespace
      split: if_splits option.splits)

text \<open>Starting a refresher touches neither the entries nor the sets of subscribers.\<close>

definition same_subscribers :: "manager \<Rightarrow> manager \<Rightarrow> bool" where
  "same_subscribers m m' \<longleftrightarrow> rm_subscribers m' = rm_subscribers m \<and> rm_sets m' = rm_sets m"

lemma subscribers_basic:
  "same_subscribers m (transition a e m)" "same_subscribers m (set_next a t m)" "same_subscribers m (log_event ev m)"
  "same_subscribers m (drop_timer x m)" "same_subscribers m (emitStateChange n st m)" "same_subscribers m (abort c m)"
  "same_subscribers m (snd (replaceIntervalTimer n a m))" "same_subscribers m (clearTimers a m)"
  by (auto simp: same_subscribers_def transition_def set_next_def upd_inst_def log_event_def emitStateChange_def abort_def
    replaceIntervalTimer_def set_timer_def clearTimers_def clear_timer_def drop_timer_def Let_def split: option.split)

lemma subscribers_refresh: "same_subscribers m (refreshSingle n Automatic m)"
  by (auto simp: refreshSingle_def beginRefresh_def same_subscribers_def transition_def upd_inst_def log_event_def
    emitStateChange_def abort_def Let_def split: option.split execution_state.split)

lemma subscribers_start: "same_subscribers m (startRefresher now n m)"
proof (cases "jm_get (rm_refreshers m) n")
  case None
  then show ?thesis by (simp add: startRefresher_def same_subscribers_def)
next
  case (Some a)
  obtain t m1 where r: "replaceIntervalTimer n a m = (t, m1)" by fastforce
  have m1: "rm_subscribers m1 = rm_subscribers m" "rm_sets m1 = rm_sets m"
    using subscribers_basic(7) [of m n a] by (simp_all add: r same_subscribers_def)
  show ?thesis
    by (simp add: startRefresher_def Some r m1 Let_def same_subscribers_def subscribers_basic [unfolded same_subscribers_def]
      subscribers_refresh [unfolded same_subscribers_def])
qed

lemma fresh_clear: "rm_fresh (clearTimers a m) = rm_fresh m"
  by (auto simp: clearTimers_def drop_timer_def clear_timer_def transition_def upd_inst_def Let_def split: option.split)

lemma register_subscribers:
  assumes "rf_name r = n" "jm_get (rm_refreshers m) n = Some a" "jm_get (rm_subscribers m) n = Some s" "rm_sets m s \<noteq> []"
  shows "jm_get (rm_subscribers (register now r m)) n = Some (rm_fresh m)"
    and "rm_sets (register now r m) = (rm_sets m)(rm_fresh m := rm_sets m s)"
proof -
  have c: "rm_subscribers (clearTimers a m) = rm_subscribers m" "rm_sets (clearTimers a m) = rm_sets m"
    using subscribers_basic(8) [of m a] by (simp_all add: same_subscribers_def)
  have st: "rm_subscribers (startRefresher now n x) = rm_subscribers x" "rm_sets (startRefresher now n x) = rm_sets x" for x
    using subscribers_start [of x now n] by (simp_all add: same_subscribers_def)
  have em: "rm_subscribers (emitStateChange n None x) = rm_subscribers x" "rm_sets (emitStateChange n None x) = rm_sets x" for x
    using subscribers_basic(5) [of x n None] by (simp_all add: same_subscribers_def)
  have lg: "rm_subscribers (log_event ev x) = rm_subscribers x" "rm_sets (log_event ev x) = rm_sets x" for ev x
    by (simp_all add: log_event_def)
  show "jm_get (rm_subscribers (register now r m)) n = Some (rm_fresh m)"
    and "rm_sets (register now r m) = (rm_sets m)(rm_fresh m := rm_sets m s)"
    using assms by (simp_all add: register_def unregister_def Let_def c st em lg fresh_clear)
qed

text \<open>
  C32. An unsubscribe closure that outlived a re-registration removes other subscribers. A refresher
  has one subscriber and is registered again, which copies its subscribers into a new set; another
  callback subscribes; then the first one unsubscribes with the closure it was given. This deletes
  the entry of the refresher, so that neither callback is called any more, though the second one
  never unsubscribed and is still in the new set.
\<close>

theorem stale_unsubscribe_drops_subscribers:
  assumes "rf_name r = n" "jm_get (rm_refreshers m) n = Some a"
    and "jm_get (rm_subscribers m) n = Some s" "rm_sets m s = [c]" "s < rm_fresh m"
    and "subscribe n c' (register now r m) = (s', m')"
  shows "jm_get (rm_subscribers m') n = Some s' \<and> set (rm_sets m' s') = {c, c'}
    \<and> jm_get (rm_subscribers (unsubscribe n s c m')) n = None
    \<and> c' \<in> set (rm_sets (unsubscribe n s c m') s')"
proof -
  have ne: "rm_sets m s \<noteq> []" using assms(4) by simp
  note R = register_subscribers [OF assms(1-3) ne, of now]
  have "s' = rm_fresh m" "m' = (register now r m)\<lparr>rm_sets := (rm_sets (register now r m))(rm_fresh m :=
      jset_add c' (rm_sets (register now r m) (rm_fresh m)))\<rparr>"
    using assms(6) R(1) by (auto simp: subscribe_def)
  then show ?thesis using R assms(4,5) by (auto simp: unsubscribe_def Let_def)
qed

theorem stale_unsubscribe_drops_subscribers_witness:
  "let m = foldl manager_step (initialManager False) [(0, Register example_refresher), (1, Subscribe ''pods'' 7)];
       m' = snd (subscribe ''pods'' 8 (register 2 example_refresher m))
   in jm_get (rm_subscribers (unsubscribe ''pods'' 3 7 m')) ''pods'' = None"
proof -
  let ?m = "foldl manager_step (initialManager False) [(0, Register example_refresher), (1, Subscribe ''pods'' 7)]"
  have 1: "rf_name example_refresher = ''pods''" "jm_get (rm_refreshers ?m) ''pods'' = Some 0"
    "jm_get (rm_subscribers ?m) ''pods'' = Some 3" "rm_sets ?m 3 = [7]" "(3 :: nat) < rm_fresh ?m"
    by code_simp+
  obtain s' m' where s: "subscribe ''pods'' 8 (register 2 example_refresher ?m) = (s', m')" by fastforce
  from stale_unsubscribe_drops_subscribers [OF 1 s] s show ?thesis by (simp add: Let_def del: foldl.simps)
qed

end
