(* ===== verification/ScopedStates.thy ===== *)
theory ScopedStates
  imports Prelude
begin

text \<open>
  The first half of \<open>frontend/src/core/refresh/refreshRuntime.ts\<close>: the six independent state
  machines a scope of a refresh domain consists of (activation with its leases, fetch, readiness,
  permission, authentication, stream) and their transition functions. Promises, abort
  controllers and cleanup closures are opaque handles of the host: numbers. The transitions
  return their argument where nothing changes; the callers compare by reference to skip the
  store, which for these functions is the same as comparing by value.
\<close>

section \<open>Fetch\<close>

record in_flight =
  if_controller :: nat
  if_isManual :: bool
  if_streamSignal :: "bool option"
  if_coalesce :: "bool option"
  if_requestId :: nat
  if_cleanup :: "nat option"
  if_completion :: "nat option"
  if_contextVersion :: nat
  if_domain :: string
  if_scope :: "string option"

datatype fetch_state =
    FetchIdle
  | Fetching in_flight bool

datatype fetch_event =
    FetchStarted in_flight
  | StreamSignalReceived
  | FetchSettled nat
  | FetchCancelled nat

fun transitionScopedFetchState :: "fetch_state \<Rightarrow> fetch_event \<Rightarrow> fetch_state" where
  "transitionScopedFetchState s (FetchStarted r) = Fetching r False"
| "transitionScopedFetchState s StreamSignalReceived =
     (case s of FetchIdle \<Rightarrow> s | Fetching r t \<Rightarrow> if t then s else Fetching r True)"
| "transitionScopedFetchState s (FetchSettled i) =
     (case s of FetchIdle \<Rightarrow> s | Fetching r t \<Rightarrow> if if_requestId r \<noteq> i then s else FetchIdle)"
| "transitionScopedFetchState s (FetchCancelled i) =
     (case s of FetchIdle \<Rightarrow> s | Fetching r t \<Rightarrow> if if_requestId r \<noteq> i then s else FetchIdle)"

section \<open>Activation and leases\<close>

datatype demand = DemandQuery | DemandSnapshot

text \<open>The counters are JavaScript numbers that the code only decrements when they are not
  zero: natural numbers.\<close>

record demand_counts =
  dc_query :: nat
  dc_snapshot :: nat

datatype activation_state =
    ActUntracked
  | ActDisabled
  | ActEnabled demand_counts
  | ActSuperseded demand_counts

datatype activation_event =
    AeEnabled
  | AeDisabled
  | AeSuperseded
  | AeLeaseAcquired demand
  | AeLeaseReleased demand

definition NO_SCOPED_DEMAND :: demand_counts where
  "NO_SCOPED_DEMAND = \<lparr>dc_query = 0, dc_snapshot = 0\<rparr>"

definition totalDemand :: "demand_counts \<Rightarrow> nat" where
  "totalDemand d = dc_query d + dc_snapshot d"

fun demandsFor :: "activation_state \<Rightarrow> demand_counts" where
  "demandsFor (ActEnabled d) = d"
| "demandsFor (ActSuperseded d) = d"
| "demandsFor _ = NO_SCOPED_DEMAND"

fun demand_of :: "demand_counts \<Rightarrow> demand \<Rightarrow> nat" where
  "demand_of d DemandQuery = dc_query d"
| "demand_of d DemandSnapshot = dc_snapshot d"

fun with_demand :: "demand_counts \<Rightarrow> demand \<Rightarrow> nat \<Rightarrow> demand_counts" where
  "with_demand d DemandQuery n = d\<lparr>dc_query := n\<rparr>"
| "with_demand d DemandSnapshot n = d\<lparr>dc_snapshot := n\<rparr>"

fun enableScope :: "activation_state \<Rightarrow> activation_state" where
  "enableScope (ActEnabled d) = ActEnabled d"
| "enableScope s = ActEnabled (demandsFor s)"

fun disableScope :: "activation_state \<Rightarrow> activation_state" where
  "disableScope ActDisabled = ActDisabled"
| "disableScope (ActEnabled d) = (if totalDemand d > 0 then ActEnabled d else ActDisabled)"
| "disableScope s = ActDisabled"

fun supersedeScope :: "activation_state \<Rightarrow> activation_state" where
  "supersedeScope (ActEnabled d) = (if totalDemand d > 0 then ActSuperseded d else ActDisabled)"
| "supersedeScope s = s"

definition acquireScopeLease :: "activation_state \<Rightarrow> demand \<Rightarrow> activation_state" where
  "acquireScopeLease s k =
     (let d = demandsFor s; d' = with_demand d k (demand_of d k + 1)
      in case s of ActSuperseded _ \<Rightarrow> ActSuperseded d' | _ \<Rightarrow> ActEnabled d')"

definition releaseScopeLease :: "activation_state \<Rightarrow> demand \<Rightarrow> activation_state" where
  "releaseScopeLease s k =
     (case s of
        ActEnabled d \<Rightarrow>
          if demand_of d k = 0 then s else ActEnabled (with_demand d k (demand_of d k - 1))
      | ActSuperseded d \<Rightarrow>
          if demand_of d k = 0 then s
          else let d' = with_demand d k (demand_of d k - 1)
               in if totalDemand d' = 0 then ActDisabled else ActSuperseded d'
      | _ \<Rightarrow> s)"

fun transitionScopedActivationState ::
  "activation_state \<Rightarrow> activation_event \<Rightarrow> activation_state" where
  "transitionScopedActivationState s AeEnabled = enableScope s"
| "transitionScopedActivationState s AeDisabled = disableScope s"
| "transitionScopedActivationState s AeSuperseded = supersedeScope s"
| "transitionScopedActivationState s (AeLeaseAcquired k) = acquireScopeLease s k"
| "transitionScopedActivationState s (AeLeaseReleased k) = releaseScopeLease s k"

section \<open>Readiness\<close>

record readiness_request =
  rr_coalesce :: "bool option"
  rr_domain :: string
  rr_scope :: string
  rr_isManual :: bool
  rr_streamSignal :: bool
  rr_queryReconcile :: bool

datatype readiness_state = Ready | Waiting readiness_request

datatype readiness_event = RequestDeferred readiness_request | ClusterReady

text \<open>A flag that is absent or false is falsy.\<close>

abbreviation truthy :: "bool option \<Rightarrow> bool" where
  "truthy b \<equiv> b = Some True"

fun transitionScopedReadinessState :: "readiness_state \<Rightarrow> readiness_event \<Rightarrow> readiness_state" where
  "transitionScopedReadinessState Ready (RequestDeferred e) = Waiting e"
| "transitionScopedReadinessState (Waiting r) (RequestDeferred e) =
     Waiting (r\<lparr>rr_coalesce := (if truthy (rr_coalesce r) \<or> truthy (rr_coalesce e)
                                then Some True else rr_coalesce r),
                rr_isManual := (rr_isManual r \<or> rr_isManual e),
                rr_streamSignal := (rr_streamSignal r \<or> rr_streamSignal e),
                rr_queryReconcile := (rr_queryReconcile r \<or> rr_queryReconcile e)\<rparr>)"
| "transitionScopedReadinessState s ClusterReady = Ready"

section \<open>Permission and authentication\<close>

datatype permission_state = PermUnknown | PermAllowed | PermDenied

datatype permission_event = PeAllowed | PeDenied | PeEpochReset

fun transitionScopedPermissionState ::
  "permission_state \<Rightarrow> permission_event \<Rightarrow> permission_state" where
  "transitionScopedPermissionState s PeAllowed = PermAllowed"
| "transitionScopedPermissionState s PeDenied = PermDenied"
| "transitionScopedPermissionState s PeEpochReset = PermUnknown"

datatype auth_state = AuthAvailable | AuthFailed

datatype auth_event = AuthFailedEvent | AuthRecoveredEvent

fun transitionClusterAuthState :: "auth_state \<Rightarrow> auth_event \<Rightarrow> auth_state" where
  "transitionClusterAuthState s AuthFailedEvent = AuthFailed"
| "transitionClusterAuthState s AuthRecoveredEvent = AuthAvailable"

section \<open>Streams\<close>

datatype health_status = Healthy | Degraded | Unhealthy

datatype connection_status = Connected | Disconnected

record health_payload =
  hp_domain :: string
  hp_scope :: string
  hp_status :: health_status
  hp_reason :: string
  hp_connectionStatus :: connection_status
  hp_lastMessageAt :: "nat option"
  hp_lastDeliveryAt :: "nat option"

datatype stream_policy = PolicyAllowed | PolicyBlocked

datatype stream_init = InitIdle | InitScheduled nat

text \<open>\<open>ConnStarting task cancellationRequested\<close> and
  \<open>ConnActive cleanup cancellationRequested\<close>\<close>

datatype stream_conn =
    ConnInactive
  | ConnStarting nat bool
  | ConnActive nat bool

datatype stream_health = HealthUnknown | HealthKnown health_payload

record stream_state =
  st_policy :: stream_policy
  st_init :: stream_init
  st_conn :: stream_conn
  st_health :: stream_health

datatype stream_event =
    SeBlocked
  | SeBlockCleared
  | SeInitScheduled nat
  | SeInitCleared "nat option"
  | SeStartBegan nat
  | SeStartCancelled
  | SeCancellationCleared
  | SeStartFinished nat nat
  | SeStartFailed nat
  | SeCleanupRemoved
  | SeHealthReceived health_payload
  | SeHealthCleared
  | SeAsyncCleared
  | SeAllCleared bool
  | SeTransientReset

definition inactiveStreamState :: stream_state where
  "inactiveStreamState =
     \<lparr>st_policy = PolicyAllowed, st_init = InitIdle, st_conn = ConnInactive,
      st_health = HealthUnknown\<rparr>"

definition blockStream :: "stream_state \<Rightarrow> stream_state" where
  "blockStream s =
     (if st_policy s = PolicyBlocked \<and> st_init s = InitIdle then s
      else s\<lparr>st_policy := PolicyBlocked, st_init := InitIdle\<rparr>)"

definition clearStreamBlock :: "stream_state \<Rightarrow> stream_state" where
  "clearStreamBlock s = (if st_policy s = PolicyAllowed then s else s\<lparr>st_policy := PolicyAllowed\<rparr>)"

definition scheduleStreamInitialization :: "stream_state \<Rightarrow> nat \<Rightarrow> stream_state" where
  "scheduleStreamInitialization s t = s\<lparr>st_init := InitScheduled t\<rparr>"

definition clearStreamInitialization :: "stream_state \<Rightarrow> nat option \<Rightarrow> stream_state" where
  "clearStreamInitialization s t =
     (case st_init s of
        InitIdle \<Rightarrow> s
      | InitScheduled t' \<Rightarrow> if t \<noteq> None \<and> Some t' \<noteq> t then s else s\<lparr>st_init := InitIdle\<rparr>)"

definition beginStreamStart :: "stream_state \<Rightarrow> nat \<Rightarrow> stream_state" where
  "beginStreamStart s t =
     (if st_policy s = PolicyBlocked then s else s\<lparr>st_conn := ConnStarting t False\<rparr>)"

definition requestStreamCancellation :: "stream_state \<Rightarrow> stream_state" where
  "requestStreamCancellation s =
     (case st_conn s of
        ConnInactive \<Rightarrow> s
      | ConnStarting t c \<Rightarrow> if c then s else s\<lparr>st_conn := ConnStarting t True\<rparr>
      | ConnActive f c \<Rightarrow> if c then s else s\<lparr>st_conn := ConnActive f True\<rparr>)"

definition clearStreamCancellation :: "stream_state \<Rightarrow> stream_state" where
  "clearStreamCancellation s =
     (case st_conn s of
        ConnInactive \<Rightarrow> s
      | ConnStarting t c \<Rightarrow> if \<not> c then s else s\<lparr>st_conn := ConnStarting t False\<rparr>
      | ConnActive f c \<Rightarrow> if \<not> c then s else s\<lparr>st_conn := ConnActive f False\<rparr>)"

definition finishStreamStart :: "stream_state \<Rightarrow> nat \<Rightarrow> nat \<Rightarrow> stream_state" where
  "finishStreamStart s t f =
     (case st_conn s of
        ConnStarting t' c \<Rightarrow> if t' \<noteq> t \<or> c then s else s\<lparr>st_conn := ConnActive f False\<rparr>
      | _ \<Rightarrow> s)"

definition failStreamStart :: "stream_state \<Rightarrow> nat \<Rightarrow> stream_state" where
  "failStreamStart s t =
     (case st_conn s of
        ConnStarting t' c \<Rightarrow> if t' \<noteq> t then s else s\<lparr>st_conn := ConnInactive\<rparr>
      | _ \<Rightarrow> s)"

definition removeStreamCleanup :: "stream_state \<Rightarrow> stream_state" where
  "removeStreamCleanup s =
     (case st_conn s of ConnActive _ _ \<Rightarrow> s\<lparr>st_conn := ConnInactive\<rparr> | _ \<Rightarrow> s)"

definition receiveStreamHealth :: "stream_state \<Rightarrow> health_payload \<Rightarrow> stream_state" where
  "receiveStreamHealth s p = s\<lparr>st_health := HealthKnown p\<rparr>"

definition clearStreamHealthState :: "stream_state \<Rightarrow> stream_state" where
  "clearStreamHealthState s =
     (if st_health s = HealthUnknown then s else s\<lparr>st_health := HealthUnknown\<rparr>)"

definition clearAsyncStreamState :: "stream_state \<Rightarrow> stream_state" where
  "clearAsyncStreamState s =
     s\<lparr>st_init := InitIdle,
       st_conn := (case st_conn s of
            ConnStarting _ _ \<Rightarrow> ConnInactive
          | ConnActive f _ \<Rightarrow> ConnActive f False
          | c \<Rightarrow> c)\<rparr>"

definition clearAllStreamState :: "stream_state \<Rightarrow> bool \<Rightarrow> stream_state" where
  "clearAllStreamState s reset =
     s\<lparr>st_init := (if reset then InitIdle else st_init s), st_conn := ConnInactive\<rparr>"

definition resetTransientStreamState :: "stream_state \<Rightarrow> stream_state" where
  "resetTransientStreamState s =
     \<lparr>st_policy = PolicyAllowed, st_init = InitIdle,
      st_conn = (case st_conn s of ConnActive f _ \<Rightarrow> ConnActive f False | _ \<Rightarrow> ConnInactive),
      st_health = HealthUnknown\<rparr>"

fun transitionScopedStreamState :: "stream_state \<Rightarrow> stream_event \<Rightarrow> stream_state" where
  "transitionScopedStreamState s SeBlocked = blockStream s"
| "transitionScopedStreamState s SeBlockCleared = clearStreamBlock s"
| "transitionScopedStreamState s (SeInitScheduled t) = scheduleStreamInitialization s t"
| "transitionScopedStreamState s (SeInitCleared t) = clearStreamInitialization s t"
| "transitionScopedStreamState s (SeStartBegan t) = beginStreamStart s t"
| "transitionScopedStreamState s SeStartCancelled = requestStreamCancellation s"
| "transitionScopedStreamState s SeCancellationCleared = clearStreamCancellation s"
| "transitionScopedStreamState s (SeStartFinished t f) = finishStreamStart s t f"
| "transitionScopedStreamState s (SeStartFailed t) = failStreamStart s t"
| "transitionScopedStreamState s SeCleanupRemoved = removeStreamCleanup s"
| "transitionScopedStreamState s (SeHealthReceived p) = receiveStreamHealth s p"
| "transitionScopedStreamState s SeHealthCleared = clearStreamHealthState s"
| "transitionScopedStreamState s SeAsyncCleared = clearAsyncStreamState s"
| "transitionScopedStreamState s (SeAllCleared reset) = clearAllStreamState s reset"
| "transitionScopedStreamState s SeTransientReset = resetTransientStreamState s"

section \<open>Lemmas\<close>

lemma totalDemand_zero_iff: "totalDemand d = 0 \<longleftrightarrow> d = NO_SCOPED_DEMAND"
  by (cases d) (simp add: totalDemand_def NO_SCOPED_DEMAND_def)

lemma totalDemand_demand_of: "totalDemand d = demand_of d DemandQuery + demand_of d DemandSnapshot"
  by (simp add: totalDemand_def)

lemma demand_of_with [simp]:
  "demand_of (with_demand d k n) k' = (if k' = k then n else demand_of d k')"
  by (cases k; cases k') simp_all

lemma demand_of_none [simp]: "demand_of NO_SCOPED_DEMAND k = 0"
  by (cases k) (simp_all add: NO_SCOPED_DEMAND_def)

lemma demand_pos_total: "0 < demand_of d k \<Longrightarrow> 0 < totalDemand d"
  by (cases k) (simp_all add: totalDemand_def)

lemma demand_zero_of_total: "totalDemand d = 0 \<Longrightarrow> demand_of d k = 0"
  by (cases k) (simp_all add: totalDemand_def)

abbreviation leases :: "activation_state \<Rightarrow> demand \<Rightarrow> nat" where
  "leases s k \<equiv> demand_of (demandsFor s) k"

abbreviation leased :: "activation_state \<Rightarrow> bool" where
  "leased s \<equiv> 0 < totalDemand (demandsFor s)"

lemma leases_enable [simp]: "demandsFor (enableScope s) = demandsFor s"
  by (cases s) simp_all

lemma leases_supersede [simp]: "demandsFor (supersedeScope s) = demandsFor s"
  by (cases s) (simp_all add: totalDemand_zero_iff)

lemma leases_disable: "\<not> leased s \<Longrightarrow> demandsFor (disableScope s) = demandsFor s"
  by (cases s) (simp_all add: totalDemand_zero_iff)

lemma leases_acquire [simp]:
  "leases (acquireScopeLease s k) k' = (if k' = k then Suc (leases s k) else leases s k')"
  by (cases s) (simp_all add: acquireScopeLease_def Let_def)

lemma leases_release [simp]:
  "leases (releaseScopeLease s k) k' = (if k' = k then leases s k - 1 else leases s k')"
proof (cases s)
  case (ActSuperseded d)
  let ?d = "with_demand d k (demand_of d k - 1)"
  show ?thesis
  proof (cases "totalDemand ?d = 0")
    case True
    then have "demand_of ?d k' = 0" by (rule demand_zero_of_total)
    with True ActSuperseded show ?thesis
      by (auto simp: releaseScopeLease_def Let_def split: if_splits)
  next
    case False
    with ActSuperseded show ?thesis by (auto simp: releaseScopeLease_def Let_def)
  qed
qed (auto simp: releaseScopeLease_def)

lemma enabled_acquire [simp]:
  "(\<exists>d. acquireScopeLease s k = ActEnabled d) \<longleftrightarrow> (\<forall>d. s \<noteq> ActSuperseded d)"
  by (cases s) (simp_all add: acquireScopeLease_def Let_def)

declare transitionScopedActivationState.simps [simp del]
  transitionScopedStreamState.simps [simp del]

lemmas activation_transition_defs = transitionScopedActivationState.simps
  acquireScopeLease_def releaseScopeLease_def

lemmas stream_transition_defs = transitionScopedStreamState.simps
  blockStream_def clearStreamBlock_def scheduleStreamInitialization_def
  clearStreamInitialization_def beginStreamStart_def requestStreamCancellation_def
  clearStreamCancellation_def finishStreamStart_def failStreamStart_def removeStreamCleanup_def
  receiveStreamHealth_def clearStreamHealthState_def clearAsyncStreamState_def
  clearAllStreamState_def resetTransientStreamState_def

text \<open>Each part of the stream state, after any event\<close>

lemma stream_policy_transition [simp]:
  "st_policy (transitionScopedStreamState s e) =
     (case e of SeBlocked \<Rightarrow> PolicyBlocked | SeBlockCleared \<Rightarrow> PolicyAllowed
      | SeTransientReset \<Rightarrow> PolicyAllowed | _ \<Rightarrow> st_policy s)"
  by (cases e; cases "st_conn s"; cases "st_init s"; cases "st_policy s")
    (auto simp: stream_transition_defs)

lemma stream_init_transition [simp]:
  "st_init (transitionScopedStreamState s e) =
     (case e of SeBlocked \<Rightarrow> InitIdle
      | SeInitScheduled t \<Rightarrow> InitScheduled t
      | SeInitCleared None \<Rightarrow> InitIdle
      | SeInitCleared (Some t) \<Rightarrow> (if st_init s = InitScheduled t then InitIdle else st_init s)
      | SeAsyncCleared \<Rightarrow> InitIdle
      | SeAllCleared r \<Rightarrow> (if r then InitIdle else st_init s)
      | SeTransientReset \<Rightarrow> InitIdle
      | _ \<Rightarrow> st_init s)"
  by (cases e; cases "st_conn s"; cases "st_init s"; cases "st_policy s")
    (auto simp: stream_transition_defs split: option.splits)

lemma stream_health_transition [simp]:
  "st_health (transitionScopedStreamState s e) =
     (case e of SeHealthReceived p \<Rightarrow> HealthKnown p | SeHealthCleared \<Rightarrow> HealthUnknown
      | SeTransientReset \<Rightarrow> HealthUnknown | _ \<Rightarrow> st_health s)"
  by (cases e; cases "st_conn s"; cases "st_init s"; cases "st_policy s")
    (auto simp: stream_transition_defs)

lemma stream_conn_transition:
  "st_conn (transitionScopedStreamState s e) =
     (case e of
        SeStartBegan t \<Rightarrow> (if st_policy s = PolicyBlocked then st_conn s else ConnStarting t False)
      | SeStartCancelled \<Rightarrow>
          (case st_conn s of ConnInactive \<Rightarrow> ConnInactive | ConnStarting t c \<Rightarrow> ConnStarting t True
           | ConnActive f c \<Rightarrow> ConnActive f True)
      | SeCancellationCleared \<Rightarrow>
          (case st_conn s of ConnInactive \<Rightarrow> ConnInactive | ConnStarting t c \<Rightarrow> ConnStarting t False
           | ConnActive f c \<Rightarrow> ConnActive f False)
      | SeStartFinished t f \<Rightarrow>
          (if st_conn s = ConnStarting t False then ConnActive f False else st_conn s)
      | SeStartFailed t \<Rightarrow>
          (case st_conn s of ConnStarting t' c \<Rightarrow> if t' = t then ConnInactive else st_conn s
           | c \<Rightarrow> c)
      | SeCleanupRemoved \<Rightarrow> (case st_conn s of ConnActive f c \<Rightarrow> ConnInactive | c \<Rightarrow> c)
      | SeAsyncCleared \<Rightarrow>
          (case st_conn s of ConnStarting t c \<Rightarrow> ConnInactive | ConnActive f c \<Rightarrow> ConnActive f False
           | c \<Rightarrow> c)
      | SeAllCleared r \<Rightarrow> ConnInactive
      | SeTransientReset \<Rightarrow> (case st_conn s of ConnActive f c \<Rightarrow> ConnActive f False | _ \<Rightarrow> ConnInactive)
      | _ \<Rightarrow> st_conn s)"
  by (cases e; cases "st_conn s"; cases "st_init s"; cases "st_policy s")
    (auto simp: stream_transition_defs)

section \<open>Properties\<close>

lemma readiness_merge_run:
  "foldl transitionScopedReadinessState (Waiting r) (List.map RequestDeferred rs) =
     Waiting (r\<lparr>rr_coalesce := (if list_ex (\<lambda>x. truthy (rr_coalesce x)) (r # rs)
                                then Some True else rr_coalesce r),
       rr_isManual := list_ex rr_isManual (r # rs),
       rr_streamSignal := list_ex rr_streamSignal (r # rs),
       rr_queryReconcile := list_ex rr_queryReconcile (r # rs)\<rparr>)"
  by (induction rs arbitrary: r) auto

text \<open>
  A request deferred while its cluster is not ready is never weakened: after any number of
  deferrals of the same scope, the request that is replayed is manual, signal-triggered or a
  query reconciliation exactly if one of the deferred requests was, and it coalesces exactly if
  one of them did.
\<close>

theorem deferred_requests_merged:
  "foldl transitionScopedReadinessState Ready (List.map RequestDeferred (r # rs)) =
     Waiting (r\<lparr>rr_coalesce := (if list_ex (\<lambda>x. truthy (rr_coalesce x)) (r # rs)
                                then Some True else rr_coalesce r),
       rr_isManual := list_ex rr_isManual (r # rs),
       rr_streamSignal := list_ex rr_streamSignal (r # rs),
       rr_queryReconcile := list_ex rr_queryReconcile (r # rs)\<rparr>)"
  by (simp add: readiness_merge_run)

end
