(* ===== verification/RefreshRuntime.thy ===== *)
theory RefreshRuntime
  imports ScopedStates
begin

text \<open>
  The second half of \<open>frontend/src/core/refresh/refreshRuntime.ts\<close>: the class
  \<open>ClusterRefreshRuntime\<close>. One runtime per cluster holds a \<open>Map\<close> from in-flight keys to the
  composed state of a scope; an absent entry stands for the default state, and
  \<open>storeScopeState\<close> removes an entry that has become the default. Each method is a function of
  the runtime; a method that returns a value returns it beside the new runtime, one that aborts
  or calls a cleanup returns these calls as a list of effects. \<open>Date.now()\<close> is an argument.
\<close>

section \<open>State\<close>

datatype reconciliation_state = ReconClean | ReconPending nat nat

record scoped_state =
  ss_domain :: string
  ss_scope :: "string option"
  ss_reconciliation :: reconciliation_state
  ss_activation :: activation_state
  ss_fetch :: fetch_state
  ss_readiness :: readiness_state
  ss_permission :: permission_state
  ss_stream :: stream_state

record cluster_runtime =
  cr_clusterId :: string
  cr_scopedStates :: "(string, scoped_state) jmap"
  cr_authState :: auth_state

datatype effect = AbortController nat | CallCleanup nat

definition makeInFlightKey :: "string \<Rightarrow> string option \<Rightarrow> string" where
  "makeInFlightKey domain scope =
     domain @ ''::'' @ (case scope of None \<Rightarrow> ''*'' | Some s \<Rightarrow> s)"

definition MULTI_ACTIVE_SCOPE_DOMAINS :: "string list" where
  "MULTI_ACTIVE_SCOPE_DOMAINS =
     [''catalog'', ''catalog-diff'', ''cluster-attention'', ''cluster-identities'',
      ''cluster-config'', ''cluster-crds'', ''cluster-events'', ''cluster-rbac'',
      ''cluster-storage'', ''container-logs'', ''namespace-autoscaling'', ''namespace-config'',
      ''namespace-events'', ''namespace-helm'', ''namespace-network'', ''namespace-quotas'',
      ''namespace-rbac'', ''namespace-storage'', ''namespace-workloads'', ''nodes'',
      ''object-details'', ''object-events'', ''object-helm-manifest'', ''object-helm-values'',
      ''object-maintenance'', ''object-map'', ''object-yaml'', ''pods'']"

definition newClusterRefreshRuntime :: "string \<Rightarrow> cluster_runtime" where
  "newClusterRefreshRuntime clusterId =
     \<lparr>cr_clusterId = clusterId, cr_scopedStates = [], cr_authState = AuthAvailable\<rparr>"

definition default_scope_state :: "string \<Rightarrow> string option \<Rightarrow> scoped_state" where
  "default_scope_state domain scope =
     \<lparr>ss_domain = domain, ss_scope = scope, ss_reconciliation = ReconClean,
      ss_activation = ActUntracked, ss_fetch = FetchIdle, ss_readiness = Ready,
      ss_permission = PermUnknown, ss_stream = inactiveStreamState\<rparr>"

definition getScopeState :: "cluster_runtime \<Rightarrow> string \<Rightarrow> string option \<Rightarrow> scoped_state" where
  "getScopeState rt domain scope =
     (case jm_get (cr_scopedStates rt) (makeInFlightKey domain scope) of
        Some st \<Rightarrow> st
      | None \<Rightarrow> default_scope_state domain scope)"

definition is_default_state :: "scoped_state \<Rightarrow> bool" where
  "is_default_state st \<longleftrightarrow>
     ss_reconciliation st = ReconClean \<and>
     ss_activation st = ActUntracked \<and>
     ss_fetch st = FetchIdle \<and>
     ss_readiness st = Ready \<and>
     ss_permission st = PermUnknown \<and>
     st_policy (ss_stream st) = PolicyAllowed \<and>
     st_init (ss_stream st) = InitIdle \<and>
     st_conn (ss_stream st) = ConnInactive \<and>
     st_health (ss_stream st) = HealthUnknown"

definition storeScopeState :: "cluster_runtime \<Rightarrow> scoped_state \<Rightarrow> cluster_runtime" where
  "storeScopeState rt st =
     (let key = makeInFlightKey (ss_domain st) (ss_scope st) in
      if is_default_state st
      then rt\<lparr>cr_scopedStates := jm_delete key (cr_scopedStates rt)\<rparr>
      else rt\<lparr>cr_scopedStates := jm_set key st (cr_scopedStates rt)\<rparr>)"

abbreviation scope_states :: "cluster_runtime \<Rightarrow> scoped_state list" where
  "scope_states rt \<equiv> List.map snd (cr_scopedStates rt)"

section \<open>Activation\<close>

definition applyActivationEvent ::
  "cluster_runtime \<Rightarrow> string \<Rightarrow> string \<Rightarrow> activation_event \<Rightarrow>
   cluster_runtime \<times> activation_state \<times> activation_state" where
  "applyActivationEvent rt domain scope event =
     (let state = getScopeState rt domain (Some scope);
          next = transitionScopedActivationState (ss_activation state) event
      in (if next \<noteq> ss_activation state
          then storeScopeState rt (state\<lparr>ss_activation := next\<rparr>) else rt,
          ss_activation state, next))"

definition deleteDomain :: "cluster_runtime \<Rightarrow> string \<Rightarrow> cluster_runtime" where
  "deleteDomain rt domain =
     rt\<lparr>cr_scopedStates :=
          List.filter (\<lambda>(key, state). ss_domain state \<noteq> domain) (cr_scopedStates rt)\<rparr>"

definition getKnownScopes :: "cluster_runtime \<Rightarrow> string \<Rightarrow> string list" where
  "getKnownScopes rt domain =
     List.map (\<lambda>st. the (ss_scope st))
       (List.filter (\<lambda>st. ss_domain st = domain \<and> ss_scope st \<noteq> None \<and>
                      ss_activation st \<noteq> ActUntracked) (scope_states rt))"

fun isEnabledState :: "activation_state \<Rightarrow> bool" where
  "isEnabledState (ActEnabled _) = True"
| "isEnabledState _ = False"

definition getEnabledScopes :: "cluster_runtime \<Rightarrow> string \<Rightarrow> string list" where
  "getEnabledScopes rt domain =
     List.map (\<lambda>st. the (ss_scope st))
       (List.filter (\<lambda>st. ss_domain st = domain \<and> ss_scope st \<noteq> None \<and>
                      isEnabledState (ss_activation st)) (scope_states rt))"

definition hasEnabledScopedSources :: "cluster_runtime \<Rightarrow> string \<Rightarrow> bool" where
  "hasEnabledScopedSources rt domain =
     list_ex (\<lambda>st. ss_domain st = domain \<and> isEnabledState (ss_activation st)) (scope_states rt)"

definition isScopedDomainEnabled :: "cluster_runtime \<Rightarrow> string \<Rightarrow> string \<Rightarrow> bool" where
  "isScopedDomainEnabled rt domain scope =
     (let status = ss_activation (getScopeState rt domain (Some scope))
      in status = ActUntracked \<or> isEnabledState status)"

record scope_state_change =
  sc_previous :: "bool option"
  sc_changed :: bool

definition setScopedDomainEnabled ::
  "cluster_runtime \<Rightarrow> string \<Rightarrow> string \<Rightarrow> bool \<Rightarrow> cluster_runtime \<times> scope_state_change" where
  "setScopedDomainEnabled rt domain scope enabled =
     (case applyActivationEvent rt domain scope (if enabled then AeEnabled else AeDisabled) of
        (rt', previous, next) \<Rightarrow>
          let previousEnabled =
                (if previous = ActUntracked then None else Some (isEnabledState previous));
              nextEnabled = isEnabledState next
          in (rt', \<lparr>sc_previous = previousEnabled,
                    sc_changed = (previousEnabled \<noteq> Some nextEnabled)\<rparr>))"

definition enabledElsewhere :: "string \<Rightarrow> string \<Rightarrow> scoped_state \<Rightarrow> bool" where
  "enabledElsewhere domain activeScope st \<longleftrightarrow>
     ss_domain st = domain \<and> ss_scope st \<noteq> None \<and> ss_scope st \<noteq> Some activeScope \<and>
     isEnabledState (ss_activation st)"

definition disableOtherEnabledScopes ::
  "cluster_runtime \<Rightarrow> string \<Rightarrow> string \<Rightarrow> cluster_runtime \<times> string list" where
  "disableOtherEnabledScopes rt domain activeScope =
     (let staleScopes = List.map (\<lambda>st. the (ss_scope st))
            (List.filter (enabledElsewhere domain activeScope) (scope_states rt))
      in (fold (\<lambda>scope rt. fst (applyActivationEvent rt domain scope AeSuperseded)) staleScopes rt,
          staleScopes))"

definition applyScopedDomainEnabled ::
  "cluster_runtime \<Rightarrow> string \<Rightarrow> string \<Rightarrow> bool \<Rightarrow>
   cluster_runtime \<times> scope_state_change \<times> string list" where
  "applyScopedDomainEnabled rt domain scope enabled =
     (let (rt1, staleScopes) =
            (if enabled \<and> domain \<notin> set MULTI_ACTIVE_SCOPE_DOMAINS
             then disableOtherEnabledScopes rt domain scope else (rt, []));
          (rt2, change) = setScopedDomainEnabled rt1 domain scope enabled
      in (rt2, change, staleScopes))"

definition getScopedLeaseCount ::
  "cluster_runtime \<Rightarrow> string \<Rightarrow> string \<Rightarrow> demand option \<Rightarrow> nat" where
  "getScopedLeaseCount rt domain scope k =
     (let counts = demandsFor (ss_activation (getScopeState rt domain (Some scope)))
      in case k of Some k \<Rightarrow> demand_of counts k | None \<Rightarrow> dc_query counts + dc_snapshot counts)"

definition hasScopedLease :: "cluster_runtime \<Rightarrow> string \<Rightarrow> string \<Rightarrow> bool" where
  "hasScopedLease rt domain scope = (getScopedLeaseCount rt domain scope None > 0)"

definition hasScopedDemand :: "cluster_runtime \<Rightarrow> string \<Rightarrow> string \<Rightarrow> demand \<Rightarrow> bool" where
  "hasScopedDemand rt domain scope k = (getScopedLeaseCount rt domain scope (Some k) > 0)"

record lease_acquired =
  la_count :: nat
  la_firstLease :: bool
  la_activationChanged :: bool

definition acquireScopedLease ::
  "cluster_runtime \<Rightarrow> string \<Rightarrow> string \<Rightarrow> demand \<Rightarrow> cluster_runtime \<times> lease_acquired" where
  "acquireScopedLease rt domain scope k =
     (let previously = ss_activation (getScopeState rt domain (Some scope));
          previousTotal = totalDemand (demandsFor previously);
          (rt', previous, next) = applyActivationEvent rt domain scope (AeLeaseAcquired k);
          nextTotal = totalDemand (demandsFor next)
      in (rt', \<lparr>la_count = nextTotal, la_firstLease = (previousTotal = 0),
               la_activationChanged = (\<not> isEnabledState previously \<and> isEnabledState next)\<rparr>))"

record lease_released =
  lr_count :: nat
  lr_lastLease :: bool
  lr_hadLease :: bool

definition releaseScopedLease ::
  "cluster_runtime \<Rightarrow> string \<Rightarrow> string \<Rightarrow> demand \<Rightarrow> cluster_runtime \<times> lease_released" where
  "releaseScopedLease rt domain scope k =
     (let previously = ss_activation (getScopeState rt domain (Some scope));
          counts = demandsFor previously
      in if demand_of counts k = 0
         then (rt, \<lparr>lr_count = 0, lr_lastLease = False, lr_hadLease = False\<rparr>)
         else let previousTotal = totalDemand counts;
                  (rt', previous, next) = applyActivationEvent rt domain scope (AeLeaseReleased k);
                  nextTotal = totalDemand (demandsFor next)
              in if nextTotal = 0
                 then (rt', \<lparr>lr_count = 0, lr_lastLease = (previousTotal = 1), lr_hadLease = True\<rparr>)
                 else (rt', \<lparr>lr_count = nextTotal, lr_lastLease = False, lr_hadLease = True\<rparr>))"

text \<open>\<open>forEachScopedDomain\<close>: the pairs its callback is called with, in order\<close>

definition forEachScopedDomain :: "cluster_runtime \<Rightarrow> (string \<times> string) list" where
  "forEachScopedDomain rt =
     List.map (\<lambda>st. (ss_domain st, the (ss_scope st)))
       (List.filter (\<lambda>st. ss_scope st \<noteq> None \<and> ss_activation st \<noteq> ActUntracked) (scope_states rt))"

section \<open>Readiness\<close>

definition deferUntilClusterReady :: "cluster_runtime \<Rightarrow> readiness_request \<Rightarrow> cluster_runtime" where
  "deferUntilClusterReady rt request =
     (let state = getScopeState rt (rr_domain request) (Some (rr_scope request));
          readiness = transitionScopedReadinessState (ss_readiness state) (RequestDeferred request)
      in storeScopeState rt (state\<lparr>ss_readiness := readiness\<rparr>))"

fun waitingRequest :: "scoped_state \<Rightarrow> readiness_request list" where
  "waitingRequest st = (case ss_readiness st of Waiting r \<Rightarrow> [r] | Ready \<Rightarrow> [])"

definition takeDeferredOne ::
  "scoped_state \<Rightarrow> cluster_runtime \<times> readiness_request list \<Rightarrow>
   cluster_runtime \<times> readiness_request list" where
  "takeDeferredOne state acc =
     (case acc of (rt, requests) \<Rightarrow>
        (case ss_readiness state of
           Ready \<Rightarrow> (rt, requests)
         | Waiting r \<Rightarrow>
             (storeScopeState rt
                (state\<lparr>ss_readiness := transitionScopedReadinessState (ss_readiness state) ClusterReady\<rparr>),
              requests @ [r])))"

definition takeDeferredReadinessRequests ::
  "cluster_runtime \<Rightarrow> cluster_runtime \<times> readiness_request list" where
  "takeDeferredReadinessRequests rt = fold takeDeferredOne (scope_states rt) (rt, [])"

definition getDeferredReadinessRequests :: "cluster_runtime \<Rightarrow> readiness_request list" where
  "getDeferredReadinessRequests rt = concat (List.map waitingRequest (scope_states rt))"

section \<open>Reconciliation\<close>

definition needsReconciliation :: "cluster_runtime \<Rightarrow> string \<Rightarrow> string \<Rightarrow> bool" where
  "needsReconciliation rt domain scope =
     (case ss_reconciliation (getScopeState rt domain (Some scope)) of
        ReconPending _ _ \<Rightarrow> True | ReconClean \<Rightarrow> False)"

definition canRetryReconciliation :: "cluster_runtime \<Rightarrow> string \<Rightarrow> string \<Rightarrow> nat \<Rightarrow> bool" where
  "canRetryReconciliation rt domain scope now =
     (case ss_reconciliation (getScopeState rt domain (Some scope)) of
        ReconClean \<Rightarrow> True | ReconPending _ retryAt \<Rightarrow> retryAt \<le> now)"

definition reconciliation_failures :: "reconciliation_state \<Rightarrow> nat" where
  "reconciliation_failures r = (case r of ReconPending failures _ \<Rightarrow> failures + 1 | ReconClean \<Rightarrow> 1)"

text \<open>\<open>failures - 2\<close> is only evaluated for \<open>failures > 1\<close>\<close>

definition reconciliation_delay :: "nat \<Rightarrow> nat" where
  "reconciliation_delay failures =
     (if failures = 1 then 0 else min 60000 (1000 * 2 ^ min (failures - 2) 6))"

definition markReconciliationFailed ::
  "cluster_runtime \<Rightarrow> string \<Rightarrow> string \<Rightarrow> nat \<Rightarrow> cluster_runtime" where
  "markReconciliationFailed rt domain scope now =
     (let state = getScopeState rt domain (Some scope);
          failures = reconciliation_failures (ss_reconciliation state);
          delay = reconciliation_delay failures
      in storeScopeState rt (state\<lparr>ss_reconciliation := ReconPending failures (now + delay)\<rparr>))"

definition markReconciled :: "cluster_runtime \<Rightarrow> string \<Rightarrow> string \<Rightarrow> cluster_runtime" where
  "markReconciled rt domain scope =
     (let state = getScopeState rt domain (Some scope)
      in storeScopeState rt (state\<lparr>ss_reconciliation := ReconClean\<rparr>))"

section \<open>Permission and authentication\<close>

definition isPermissionDenied :: "cluster_runtime \<Rightarrow> string \<Rightarrow> string \<Rightarrow> bool" where
  "isPermissionDenied rt domain scope =
     (ss_permission (getScopeState rt domain (Some scope)) = PermDenied)"

definition applyPermissionEvent ::
  "cluster_runtime \<Rightarrow> string \<Rightarrow> string \<Rightarrow> permission_event \<Rightarrow> cluster_runtime" where
  "applyPermissionEvent rt domain scope event =
     (let state = getScopeState rt domain (Some scope);
          permission = transitionScopedPermissionState (ss_permission state) event
      in if permission \<noteq> ss_permission state
         then storeScopeState rt (state\<lparr>ss_permission := permission\<rparr>) else rt)"

definition markPermissionDenied :: "cluster_runtime \<Rightarrow> string \<Rightarrow> string \<Rightarrow> cluster_runtime" where
  "markPermissionDenied rt domain scope = applyPermissionEvent rt domain scope PeDenied"

definition markPermissionAllowed :: "cluster_runtime \<Rightarrow> string \<Rightarrow> string \<Rightarrow> cluster_runtime" where
  "markPermissionAllowed rt domain scope = applyPermissionEvent rt domain scope PeAllowed"

definition resetPermissionOne ::
  "scoped_state \<Rightarrow> cluster_runtime \<times> (string \<times> string) list \<Rightarrow>
   cluster_runtime \<times> (string \<times> string) list" where
  "resetPermissionOne state acc =
     (case acc of (rt, reset) \<Rightarrow>
        (case ss_scope state of
           None \<Rightarrow> (rt, reset)
         | Some scope \<Rightarrow>
             if ss_permission state = PermUnknown then (rt, reset)
             else (storeScopeState rt
                     (state\<lparr>ss_permission :=
                        transitionScopedPermissionState (ss_permission state) PeEpochReset\<rparr>),
                   reset @ [(ss_domain state, scope)])))"

definition resetPermissionEpoch ::
  "cluster_runtime \<Rightarrow> cluster_runtime \<times> (string \<times> string) list" where
  "resetPermissionEpoch rt = fold resetPermissionOne (scope_states rt) (rt, [])"

definition isAuthAvailable :: "cluster_runtime \<Rightarrow> bool" where
  "isAuthAvailable rt = (cr_authState rt = AuthAvailable)"

definition applyAuthEvent :: "cluster_runtime \<Rightarrow> auth_event \<Rightarrow> cluster_runtime \<times> bool" where
  "applyAuthEvent rt event =
     (let next = transitionClusterAuthState (cr_authState rt) event
      in if next = cr_authState rt then (rt, False) else (rt\<lparr>cr_authState := next\<rparr>, True))"

definition markAuthFailed :: "cluster_runtime \<Rightarrow> cluster_runtime \<times> bool" where
  "markAuthFailed rt = applyAuthEvent rt AuthFailedEvent"

definition markAuthRecovered :: "cluster_runtime \<Rightarrow> cluster_runtime \<times> bool" where
  "markAuthRecovered rt = applyAuthEvent rt AuthRecoveredEvent"

section \<open>Requests in flight\<close>

definition getFetchState :: "cluster_runtime \<Rightarrow> string \<Rightarrow> string option \<Rightarrow> fetch_state" where
  "getFetchState rt domain scope = ss_fetch (getScopeState rt domain scope)"

definition applyFetchEvent ::
  "cluster_runtime \<Rightarrow> string \<Rightarrow> string option \<Rightarrow> fetch_event \<Rightarrow> cluster_runtime \<times> fetch_state" where
  "applyFetchEvent rt domain scope event =
     (let state = getScopeState rt domain scope;
          next = transitionScopedFetchState (ss_fetch state) event
      in (if next \<noteq> ss_fetch state
          then storeScopeState rt (state\<lparr>ss_fetch := next\<rparr>) else rt, next))"

text \<open>A tracked request: the request and its trailing-signal flag\<close>

type_synonym tracked = "in_flight \<times> bool"

definition trackedRequest :: "fetch_state \<Rightarrow> tracked option" where
  "trackedRequest s = (case s of FetchIdle \<Rightarrow> None | Fetching r t \<Rightarrow> Some (r, t))"

definition getInFlight :: "cluster_runtime \<Rightarrow> string \<Rightarrow> string option \<Rightarrow> tracked option" where
  "getInFlight rt domain scope = trackedRequest (getFetchState rt domain scope)"

definition setInFlight :: "cluster_runtime \<Rightarrow> in_flight \<Rightarrow> cluster_runtime \<times> string" where
  "setInFlight rt request =
     (fst (applyFetchEvent rt (if_domain request) (if_scope request) (FetchStarted request)),
      makeInFlightKey (if_domain request) (if_scope request))"

definition latchTrailingStreamSignal ::
  "cluster_runtime \<Rightarrow> string \<Rightarrow> string option \<Rightarrow> cluster_runtime" where
  "latchTrailingStreamSignal rt domain scope =
     fst (applyFetchEvent rt domain scope StreamSignalReceived)"

definition settleInFlight ::
  "cluster_runtime \<Rightarrow> string \<Rightarrow> string option \<Rightarrow> nat \<Rightarrow> cluster_runtime \<times> tracked option" where
  "settleInFlight rt domain scope requestId =
     (let previous = getFetchState rt domain scope;
          tracked = trackedRequest previous;
          (rt', next) = applyFetchEvent rt domain scope (FetchSettled requestId)
      in (rt', if next = previous then None else tracked))"

definition teardownInFlight ::
  "cluster_runtime \<Rightarrow> string \<Rightarrow> nat \<Rightarrow> cluster_runtime \<times> tracked option \<times> effect list" where
  "teardownInFlight rt key requestId =
     (case jm_get (cr_scopedStates rt) key of
        None \<Rightarrow> (rt, None, [])
      | Some state \<Rightarrow>
          let previous = ss_fetch state;
              tracked = trackedRequest previous;
              (rt', next) = applyFetchEvent rt (ss_domain state) (ss_scope state) (FetchCancelled requestId)
          in case tracked of
               None \<Rightarrow> (rt', None, [])
             | Some (r, t) \<Rightarrow>
                 if next = previous then (rt', None, [])
                 else (rt', Some (r, t),
                       AbortController (if_controller r) #
                         (case if_cleanup r of None \<Rightarrow> [] | Some c \<Rightarrow> [CallCleanup c])))"

text \<open>\<open>forEachInFlight\<close>: the requests and keys its callback is called with, in order\<close>

definition forEachInFlight :: "cluster_runtime \<Rightarrow> (tracked \<times> string) list" where
  "forEachInFlight rt =
     concat (List.map (\<lambda>(key, st). case trackedRequest (ss_fetch st) of
                          None \<Rightarrow> [] | Some r \<Rightarrow> [(r, key)]) (cr_scopedStates rt))"

section \<open>Streaming\<close>

definition applyStreamEvent ::
  "cluster_runtime \<Rightarrow> string \<Rightarrow> string \<Rightarrow> stream_event \<Rightarrow> cluster_runtime" where
  "applyStreamEvent rt domain scope event =
     (let state = getScopeState rt domain (Some scope);
          stream = transitionScopedStreamState (ss_stream state) event
      in if stream \<noteq> ss_stream state
         then storeScopeState rt (state\<lparr>ss_stream := stream\<rparr>) else rt)"

text \<open>\<open>forEachStreamState\<close> applied to an event, as all its callers do\<close>

definition applyStreamEventToAll :: "cluster_runtime \<Rightarrow> stream_event \<Rightarrow> cluster_runtime" where
  "applyStreamEventToAll rt event =
     fold (\<lambda>state rt. case ss_scope state of
             None \<Rightarrow> rt | Some scope \<Rightarrow> applyStreamEvent rt (ss_domain state) scope event)
       (scope_states rt) rt"

abbreviation stream_of :: "cluster_runtime \<Rightarrow> string \<Rightarrow> string \<Rightarrow> stream_state" where
  "stream_of rt domain scope \<equiv> ss_stream (getScopeState rt domain (Some scope))"

definition isStreamingBlocked :: "cluster_runtime \<Rightarrow> string \<Rightarrow> string \<Rightarrow> bool" where
  "isStreamingBlocked rt domain scope = (st_policy (stream_of rt domain scope) = PolicyBlocked)"

definition blockStreaming :: "cluster_runtime \<Rightarrow> string \<Rightarrow> string \<Rightarrow> cluster_runtime \<times> bool" where
  "blockStreaming rt domain scope =
     (let state = getScopeState rt domain (Some scope) in
      if st_policy (ss_stream state) = PolicyBlocked then (rt, False)
      else (storeScopeState rt
              (state\<lparr>ss_stream := transitionScopedStreamState (ss_stream state) SeBlocked\<rparr>), True))"

definition clearBlockedStreaming :: "cluster_runtime \<Rightarrow> cluster_runtime" where
  "clearBlockedStreaming rt = applyStreamEventToAll rt SeBlockCleared"

fun connActive :: "stream_conn \<Rightarrow> bool" where
  "connActive (ConnActive _ _) = True" | "connActive _ = False"

fun connStarting :: "stream_conn \<Rightarrow> bool" where
  "connStarting (ConnStarting _ _) = True" | "connStarting _ = False"

fun connCancelled :: "stream_conn \<Rightarrow> bool" where
  "connCancelled ConnInactive = False"
| "connCancelled (ConnStarting _ c) = c"
| "connCancelled (ConnActive _ c) = c"

definition isStreamingActive :: "cluster_runtime \<Rightarrow> string \<Rightarrow> string \<Rightarrow> bool" where
  "isStreamingActive rt domain scope = connActive (st_conn (stream_of rt domain scope))"

definition hasPendingStreaming :: "cluster_runtime \<Rightarrow> string \<Rightarrow> string \<Rightarrow> bool" where
  "hasPendingStreaming rt domain scope = connStarting (st_conn (stream_of rt domain scope))"

definition isStreamingStartingOrActive :: "cluster_runtime \<Rightarrow> string \<Rightarrow> string \<Rightarrow> bool" where
  "isStreamingStartingOrActive rt domain scope =
     (st_conn (stream_of rt domain scope) \<noteq> ConnInactive)"

definition getStreamingScopes :: "cluster_runtime \<Rightarrow> (string \<times> string) list" where
  "getStreamingScopes rt =
     concat (List.map (\<lambda>st. case ss_scope st of
          Some scope \<Rightarrow> if st_conn (ss_stream st) = ConnInactive then [] else [(ss_domain st, scope)]
        | None \<Rightarrow> []) (scope_states rt))"

definition hasStreamingReady :: "cluster_runtime \<Rightarrow> string \<Rightarrow> string \<Rightarrow> bool" where
  "hasStreamingReady rt domain scope = (st_init (stream_of rt domain scope) \<noteq> InitIdle)"

definition hasStreamingBookkeeping :: "cluster_runtime \<Rightarrow> string \<Rightarrow> string \<Rightarrow> bool" where
  "hasStreamingBookkeeping rt domain scope =
     (st_conn (stream_of rt domain scope) \<noteq> ConnInactive \<or>
      st_init (stream_of rt domain scope) \<noteq> InitIdle)"

definition setStreamingReady :: "cluster_runtime \<Rightarrow> string \<Rightarrow> string \<Rightarrow> nat \<Rightarrow> cluster_runtime" where
  "setStreamingReady rt domain scope task = applyStreamEvent rt domain scope (SeInitScheduled task)"

definition clearStreamingReady ::
  "cluster_runtime \<Rightarrow> string \<Rightarrow> string \<Rightarrow> nat option \<Rightarrow> cluster_runtime" where
  "clearStreamingReady rt domain scope task = applyStreamEvent rt domain scope (SeInitCleared task)"

definition beginStreamingStart :: "cluster_runtime \<Rightarrow> string \<Rightarrow> string \<Rightarrow> nat \<Rightarrow> cluster_runtime" where
  "beginStreamingStart rt domain scope task = applyStreamEvent rt domain scope (SeStartBegan task)"

definition finishStreamingStart ::
  "cluster_runtime \<Rightarrow> string \<Rightarrow> string \<Rightarrow> nat \<Rightarrow> nat \<Rightarrow> cluster_runtime \<times> bool" where
  "finishStreamingStart rt domain scope task cleanup =
     (let previous = stream_of rt domain scope;
          next = transitionScopedStreamState previous (SeStartFinished task cleanup)
      in (applyStreamEvent rt domain scope (SeStartFinished task cleanup), next \<noteq> previous))"

definition failStreamingStart :: "cluster_runtime \<Rightarrow> string \<Rightarrow> string \<Rightarrow> nat \<Rightarrow> cluster_runtime" where
  "failStreamingStart rt domain scope task = applyStreamEvent rt domain scope (SeStartFailed task)"

definition cancelStreamingStart ::
  "cluster_runtime \<Rightarrow> string \<Rightarrow> string \<Rightarrow> cluster_runtime \<times> nat option" where
  "cancelStreamingStart rt domain scope =
     (let pending = (case st_conn (stream_of rt domain scope) of
                       ConnStarting task _ \<Rightarrow> Some task | _ \<Rightarrow> None);
          rt1 = applyStreamEvent rt domain scope SeStartCancelled;
          rt2 = clearStreamingReady rt1 domain scope None
      in (rt2, pending))"

definition isStreamingCancelled :: "cluster_runtime \<Rightarrow> string \<Rightarrow> string \<Rightarrow> bool" where
  "isStreamingCancelled rt domain scope = connCancelled (st_conn (stream_of rt domain scope))"

definition clearStreamingCancelled :: "cluster_runtime \<Rightarrow> string \<Rightarrow> string \<Rightarrow> cluster_runtime" where
  "clearStreamingCancelled rt domain scope = applyStreamEvent rt domain scope SeCancellationCleared"

definition getStreamingCleanup :: "cluster_runtime \<Rightarrow> string \<Rightarrow> string \<Rightarrow> nat option" where
  "getStreamingCleanup rt domain scope =
     (case st_conn (stream_of rt domain scope) of ConnActive cleanup _ \<Rightarrow> Some cleanup | _ \<Rightarrow> None)"

definition deleteStreamingCleanup :: "cluster_runtime \<Rightarrow> string \<Rightarrow> string \<Rightarrow> cluster_runtime" where
  "deleteStreamingCleanup rt domain scope = applyStreamEvent rt domain scope SeCleanupRemoved"

definition clearStreamHealth :: "cluster_runtime \<Rightarrow> string \<Rightarrow> string \<Rightarrow> cluster_runtime" where
  "clearStreamHealth rt domain scope = applyStreamEvent rt domain scope SeHealthCleared"

definition setStreamHealth ::
  "cluster_runtime \<Rightarrow> string \<Rightarrow> string \<Rightarrow> health_payload \<Rightarrow> cluster_runtime \<times> health_payload option" where
  "setStreamHealth rt domain scope payload =
     (applyStreamEvent rt domain scope (SeHealthReceived payload),
      case st_health (stream_of rt domain scope) of HealthKnown p \<Rightarrow> Some p | HealthUnknown \<Rightarrow> None)"

definition getStreamHealth :: "cluster_runtime \<Rightarrow> string \<Rightarrow> string \<Rightarrow> health_payload option" where
  "getStreamHealth rt domain scope =
     (case st_health (stream_of rt domain scope) of HealthKnown p \<Rightarrow> Some p | HealthUnknown \<Rightarrow> None)"

definition clearAllStreamHealth :: "cluster_runtime \<Rightarrow> cluster_runtime" where
  "clearAllStreamHealth rt = applyStreamEventToAll rt SeHealthCleared"

definition clearAsyncStreamingBookkeeping :: "cluster_runtime \<Rightarrow> cluster_runtime" where
  "clearAsyncStreamingBookkeeping rt = applyStreamEventToAll rt SeAsyncCleared"

definition clearAllStreaming :: "cluster_runtime \<Rightarrow> bool \<Rightarrow> cluster_runtime" where
  "clearAllStreaming rt reset = applyStreamEventToAll rt (SeAllCleared reset)"

definition resetTransientState :: "cluster_runtime \<Rightarrow> cluster_runtime" where
  "resetTransientState rt = applyStreamEventToAll rt SeTransientReset"

definition resetAllState :: "cluster_runtime \<Rightarrow> cluster_runtime" where
  "resetAllState rt = rt\<lparr>cr_scopedStates := [], cr_authState := AuthAvailable\<rparr>"

section \<open>The streaming fetch decision\<close>

datatype fetch_mode = ModeSnapshot | ModeSkip

record fetch_decision =
  fd_mode :: fetch_mode
  fd_fallback :: bool

record fetch_decision_input =
  di_domain :: string
  di_scope :: string
  di_shouldStream :: bool
  di_isManual :: bool
  di_streamSignal :: bool
  di_streamingHealthy :: bool
  di_hasData :: bool

definition resolveStreamingFetchMode :: "fetch_decision_input \<Rightarrow> fetch_decision" where
  "resolveStreamingFetchMode i =
     (if di_isManual i \<or> \<not> di_shouldStream i then \<lparr>fd_mode = ModeSnapshot, fd_fallback = False\<rparr>
      else if \<not> di_hasData i then \<lparr>fd_mode = ModeSnapshot, fd_fallback = False\<rparr>
      else if di_streamSignal i then \<lparr>fd_mode = ModeSnapshot, fd_fallback = False\<rparr>
      else if di_streamingHealthy i then \<lparr>fd_mode = ModeSkip, fd_fallback = False\<rparr>
      else \<lparr>fd_mode = ModeSnapshot, fd_fallback = True\<rparr>)"

end
