(* ===== verification/RefreshRuntimeInv.thy ===== *)
theory RefreshRuntimeInv
  imports RefreshRuntime
begin

text \<open>
  The laws of \<open>ClusterRefreshRuntime\<close>: the map of scope states behaves as a total function from
  scopes to states that stores only what differs from the default; every method is an operation
  on that function, and the properties of leases, fetches, readiness and reconciliation follow.
\<close>

section \<open>Keys\<close>

text \<open>The domains are the literals of the TypeScript type \<open>RefreshDomain\<close>, none of which holds
  a colon; the scope \<open>'*'\<close>, trimmed or not, would share its key with the absent scope.\<close>

definition scope_ok :: "string \<Rightarrow> string option \<Rightarrow> bool" where
  "scope_ok domain scope \<longleftrightarrow> CHR '':'' \<notin> set domain \<and> map_option js_trim scope \<noteq> Some ''*''"

lemma scope_ok_not_star: "scope_ok d s \<Longrightarrow> s \<noteq> Some ''*''"
  by (auto simp: scope_ok_def js_trim_def js_space_def)

lemma scope_ok_trim: "scope_ok d (Some s) \<Longrightarrow> scope_ok d (Some (js_trim s))"
  by (simp add: scope_ok_def)

lemma key_inject:
  assumes "scope_ok d s" "scope_ok d' s'"
  shows "makeInFlightKey d s = makeInFlightKey d' s' \<longleftrightarrow> d = d' \<and> s = s'"
proof -
  have "makeInFlightKey d s = makeInFlightKey d' s' \<longleftrightarrow>
        d = d' \<and> (case s of None \<Rightarrow> ''*'' | Some x \<Rightarrow> x) = (case s' of None \<Rightarrow> ''*'' | Some x \<Rightarrow> x)"
    using assms by (simp add: makeInFlightKey_def scope_ok_def append_sep_inject)
  then show ?thesis using assms scope_ok_not_star by (auto split: option.splits)
qed

section \<open>The map as a total function\<close>

abbreviation state_ok :: "scoped_state \<Rightarrow> bool" where
  "state_ok st \<equiv> scope_ok (ss_domain st) (ss_scope st)"

lemma default_state_eq:
  "is_default_state st \<Longrightarrow> st = default_scope_state (ss_domain st) (ss_scope st)"
  by (cases st; cases "ss_stream st")
    (simp add: is_default_state_def default_scope_state_def inactiveStreamState_def)

lemma get_store:
  assumes "state_ok st" "scope_ok d s"
  shows "getScopeState (storeScopeState rt st) d s =
           (if d = ss_domain st \<and> s = ss_scope st then st else getScopeState rt d s)"
proof (cases "d = ss_domain st \<and> s = ss_scope st")
  case True
  then show ?thesis
    using default_state_eq [of st]
    by (auto simp: getScopeState_def storeScopeState_def Let_def)
next
  case False
  with assms have "makeInFlightKey d s \<noteq> makeInFlightKey (ss_domain st) (ss_scope st)"
    by (simp add: key_inject)
  with False show ?thesis
    by (auto simp: getScopeState_def storeScopeState_def Let_def)
qed

text \<open>What the code keeps whatever it is asked: one entry per key, under its own key, and none
  that is the default. \<open>ids_ok\<close> says that the scopes it was asked for have keys of their own.\<close>

definition runtime_ok :: "cluster_runtime \<Rightarrow> bool" where
  "runtime_ok rt \<longleftrightarrow> jm_ok (cr_scopedStates rt) \<and>
     list_all (\<lambda>(k, st). k = makeInFlightKey (ss_domain st) (ss_scope st) \<and> \<not> is_default_state st)
       (cr_scopedStates rt)"

definition ids_ok :: "cluster_runtime \<Rightarrow> bool" where
  "ids_ok rt = list_all (\<lambda>(k, st). state_ok st) (cr_scopedStates rt)"

lemma new_ok [simp]: "runtime_ok (newClusterRefreshRuntime c)" "ids_ok (newClusterRefreshRuntime c)"
  by (simp_all add: runtime_ok_def ids_ok_def newClusterRefreshRuntime_def)

lemma runtime_ok_store [intro]: "runtime_ok rt \<Longrightarrow> runtime_ok (storeScopeState rt st)"
  by (auto simp: runtime_ok_def storeScopeState_def Let_def intro!: jm_all_set jm_all_delete)

lemma ids_ok_store [intro]: "ids_ok rt \<Longrightarrow> state_ok st \<Longrightarrow> ids_ok (storeScopeState rt st)"
  by (auto simp: ids_ok_def storeScopeState_def Let_def intro!: jm_all_set jm_all_delete)

lemma default_scope_fields [simp]:
  "ss_domain (default_scope_state d s) = d" "ss_scope (default_scope_state d s) = s"
  "ss_reconciliation (default_scope_state d s) = ReconClean"
  "ss_activation (default_scope_state d s) = ActUntracked"
  "ss_fetch (default_scope_state d s) = FetchIdle"
  "ss_readiness (default_scope_state d s) = Ready"
  "ss_permission (default_scope_state d s) = PermUnknown"
  "ss_stream (default_scope_state d s) = inactiveStreamState"
  by (simp_all add: default_scope_state_def)

text \<open>A state found for a scope carries the identity of the scope.\<close>

lemma get_identity [simp]:
  assumes "runtime_ok rt" "ids_ok rt" "scope_ok d s"
  shows "ss_domain (getScopeState rt d s) = d" "ss_scope (getScopeState rt d s) = s"
proof -
  have "ss_domain (getScopeState rt d s) = d \<and> ss_scope (getScopeState rt d s) = s"
  proof (cases "jm_get (cr_scopedStates rt) (makeInFlightKey d s)")
    case None
    then show ?thesis by (simp add: getScopeState_def)
  next
    case (Some st)
    then have "(makeInFlightKey d s, st) \<in> set (cr_scopedStates rt)" by (rule jm_get_in)
    with assms have "makeInFlightKey d s = makeInFlightKey (ss_domain st) (ss_scope st)" "state_ok st"
      by (auto simp: runtime_ok_def ids_ok_def list_all_iff)
    with assms Some show ?thesis by (simp add: key_inject getScopeState_def)
  qed
  then show "ss_domain (getScopeState rt d s) = d" "ss_scope (getScopeState rt d s) = s" by simp_all
qed

text \<open>The states stored, and the states of scopes, are the same.\<close>

lemma stored_state:
  assumes "runtime_ok rt" "st \<in> set (scope_states rt)"
  shows "getScopeState rt (ss_domain st) (ss_scope st) = st" "\<not> is_default_state st"
proof -
  from assms(2) obtain k where k: "(k, st) \<in> set (cr_scopedStates rt)" by auto
  with assms(1) have "k = makeInFlightKey (ss_domain st) (ss_scope st)" "\<not> is_default_state st"
    by (auto simp: runtime_ok_def list_all_iff)
  moreover from this k assms(1) have "jm_get (cr_scopedStates rt) k = Some st"
    by (simp add: runtime_ok_def)
  ultimately show "getScopeState rt (ss_domain st) (ss_scope st) = st" "\<not> is_default_state st"
    by (simp_all add: getScopeState_def)
qed

lemma unstored_state:
  assumes "\<not> is_default_state (getScopeState rt d s)"
  shows "getScopeState rt d s \<in> set (scope_states rt)"
proof (cases "jm_get (cr_scopedStates rt) (makeInFlightKey d s)")
  case None
  with assms show ?thesis
    by (simp add: getScopeState_def is_default_state_def inactiveStreamState_def)
next
  case (Some st)
  then have "(makeInFlightKey d s, st) \<in> set (cr_scopedStates rt)" by (rule jm_get_in)
  with Some show ?thesis by (force simp: getScopeState_def)
qed

lemma stored_ids_distinct:
  assumes "runtime_ok rt"
  shows "distinct (List.map (\<lambda>st. makeInFlightKey (ss_domain st) (ss_scope st)) (scope_states rt))"
proof -
  have "List.map (\<lambda>st. makeInFlightKey (ss_domain st) (ss_scope st)) (scope_states rt)
        = jm_keys (cr_scopedStates rt)"
    using assms by (auto simp: runtime_ok_def list_all_iff)
  moreover have "jm_ok (cr_scopedStates rt)" using assms by (simp add: runtime_ok_def)
  ultimately show ?thesis by metis
qed

section \<open>A method that rewrites the states it visits\<close>

text \<open>Several methods walk over a copy of the stored states and store a new version of some.\<close>

definition store_each ::
  "(scoped_state \<Rightarrow> bool) \<Rightarrow> (scoped_state \<Rightarrow> scoped_state) \<Rightarrow> scoped_state list \<Rightarrow>
   cluster_runtime \<Rightarrow> cluster_runtime" where
  "store_each p g sts rt = fold (\<lambda>st rt. if p st then storeScopeState rt (g st) else rt) sts rt"

lemma store_each_ok:
  "runtime_ok rt \<Longrightarrow> runtime_ok (store_each p g sts rt)"
  unfolding store_each_def by (induction sts arbitrary: rt) auto

lemma store_each_ids:
  "ids_ok rt \<Longrightarrow> list_all (\<lambda>st. state_ok (g st)) sts \<Longrightarrow> ids_ok (store_each p g sts rt)"
  unfolding store_each_def by (induction sts arbitrary: rt) auto

lemma store_each_get:
  assumes "distinct (List.map (\<lambda>st. makeInFlightKey (ss_domain st) (ss_scope st)) sts)"
    and "\<And>st. ss_domain (g st) = ss_domain st \<and> ss_scope (g st) = ss_scope st"
    and "\<forall>st\<in>set sts. state_ok st" "scope_ok d s"
  shows "getScopeState (store_each p g sts rt) d s =
    (case List.find (\<lambda>st. ss_domain st = d \<and> ss_scope st = s \<and> p st) sts of
       Some st \<Rightarrow> g st | None \<Rightarrow> getScopeState rt d s)"
  using assms(1,3)
proof (induction sts arbitrary: rt)
  case Nil
  then show ?case by (simp add: store_each_def)
next
  case (Cons st sts)
  let ?rt = "if p st then storeScopeState rt (g st) else rt"
  have rec: "getScopeState (store_each p g (st # sts) rt) d s =
      (case List.find (\<lambda>st. ss_domain st = d \<and> ss_scope st = s \<and> p st) sts of
         Some st \<Rightarrow> g st | None \<Rightarrow> getScopeState ?rt d s)"
    using Cons by (simp add: store_each_def)
  show ?case
  proof (cases "ss_domain st = d \<and> ss_scope st = s")
    case True
    with Cons.prems(1) have "List.find (\<lambda>st. ss_domain st = d \<and> ss_scope st = s \<and> p st) sts = None"
      by (auto simp: find_None_iff image_iff)
    with True rec Cons.prems(2) assms(2,4) show ?thesis by (auto simp: get_store)
  next
    case False
    with rec Cons.prems(2) assms(2,4) show ?thesis by (auto simp: get_store split: option.splits)
  qed
qed

section \<open>The laws as an interface\<close>

abbreviation sound :: "cluster_runtime \<Rightarrow> bool" where
  "sound rt \<equiv> runtime_ok rt \<and> ids_ok rt"

interpretation scopes: keyed_store
  "\<lambda>rt k. getScopeState rt (fst k) (snd k)" storeScopeState
  "\<lambda>st. (ss_domain st, ss_scope st)" "\<lambda>k. scope_ok (fst k) (snd k)" sound
  by unfold_locales (auto simp: get_store)

text \<open>\<open>keeps c rt rt'\<close>: going from \<open>rt\<close> to \<open>rt'\<close> the component \<open>c\<close> of every scope is kept.\<close>

definition keeps :: "(scoped_state \<Rightarrow> 'a) \<Rightarrow> cluster_runtime \<Rightarrow> cluster_runtime \<Rightarrow> bool" where
  "keeps c rt rt' \<longleftrightarrow> (sound rt \<longrightarrow> sound rt' \<and>
     (\<forall>d s. scope_ok d s \<longrightarrow> c (getScopeState rt' d s) = c (getScopeState rt d s)))"

named_theorems keeps_rules \<open>which methods keep which components\<close>

lemma keeps_refl [simp, keeps_rules]: "keeps c rt rt"
  by (simp add: keeps_def)

lemma keeps_trans: "keeps c rt rt' \<Longrightarrow> keeps c rt' rt'' \<Longrightarrow> keeps c rt rt''"
  by (simp add: keeps_def)

lemma keeps_store:
  assumes "sound rt \<Longrightarrow> scope_ok (ss_domain st) (ss_scope st)"
    and "sound rt \<Longrightarrow> c st = c (getScopeState rt (ss_domain st) (ss_scope st))"
  shows "keeps c rt (storeScopeState rt st)"
  unfolding keeps_def using assms scopes.inv_put [of rt st]
    scopes.component_frame [of rt st "(d, s)" c for d s] by auto

lemma keeps_fold:
  assumes "\<And>x rt. x \<in> set xs \<Longrightarrow> keeps c rt (f x rt)"
  shows "keeps c rt (fold f xs rt)"
proof -
  have "sound rt \<Longrightarrow> sound (fold f xs rt) \<and>
    (\<forall>k. scope_ok (fst k) (snd k) \<longrightarrow>
       c (getScopeState (fold f xs rt) (fst k) (snd k)) = c (getScopeState rt (fst k) (snd k)))"
    by (rule scopes.component_fold) (use assms in \<open>auto simp: keeps_def\<close>)
  then show ?thesis by (simp add: keeps_def)
qed

lemma keeps_activation [keeps_rules]:
  assumes "\<And>st a. c (st\<lparr>ss_activation := a\<rparr>) = c st" "scope_ok d (Some s)"
  shows "keeps c rt (fst (applyActivationEvent rt d s e))"
  using assms by (auto simp: applyActivationEvent_def Let_def intro!: keeps_store)

lemma keeps_fetch [keeps_rules]:
  assumes "\<And>st a. c (st\<lparr>ss_fetch := a\<rparr>) = c st" "scope_ok d s"
  shows "keeps c rt (fst (applyFetchEvent rt d s e))"
  using assms by (auto simp: applyFetchEvent_def Let_def intro!: keeps_store)

lemma keeps_permission [keeps_rules]:
  assumes "\<And>st a. c (st\<lparr>ss_permission := a\<rparr>) = c st" "scope_ok d (Some s)"
  shows "keeps c rt (applyPermissionEvent rt d s e)"
  using assms by (auto simp: applyPermissionEvent_def Let_def intro!: keeps_store)

lemma keeps_stream [keeps_rules]:
  assumes "\<And>st a. c (st\<lparr>ss_stream := a\<rparr>) = c st" "scope_ok d (Some s)"
  shows "keeps c rt (applyStreamEvent rt d s e)"
  using assms by (auto simp: applyStreamEvent_def Let_def intro!: keeps_store)

lemma keeps_stream_block [keeps_rules]:
  assumes "\<And>st a. c (st\<lparr>ss_stream := a\<rparr>) = c st" "scope_ok d (Some s)"
  shows "keeps c rt (fst (blockStreaming rt d s))"
  using assms by (auto simp: blockStreaming_def Let_def intro!: keeps_store)

lemma keeps_readiness [keeps_rules]:
  assumes "\<And>st a. c (st\<lparr>ss_readiness := a\<rparr>) = c st" "scope_ok (rr_domain r) (Some (rr_scope r))"
  shows "keeps c rt (deferUntilClusterReady rt r)"
  using assms by (auto simp: deferUntilClusterReady_def Let_def intro!: keeps_store)

lemma keeps_reconciliation [keeps_rules]:
  assumes "\<And>st a. c (st\<lparr>ss_reconciliation := a\<rparr>) = c st" "scope_ok d (Some s)"
  shows "keeps c rt (markReconciliationFailed rt d s now)" "keeps c rt (markReconciled rt d s)"
  using assms by (auto simp: markReconciliationFailed_def markReconciled_def Let_def
      intro!: keeps_store)

text \<open>What a method does to the component of the scope it is called for\<close>

lemma activation_get:
  "sound rt \<Longrightarrow> scope_ok d (Some s) \<Longrightarrow> scope_ok d' s' \<Longrightarrow>
   ss_activation (getScopeState (fst (applyActivationEvent rt d s e)) d' s') =
     (if d' = d \<and> s' = Some s
      then transitionScopedActivationState (ss_activation (getScopeState rt d s')) e
      else ss_activation (getScopeState rt d' s'))"
  by (auto simp: applyActivationEvent_def Let_def get_store)

lemma fetch_get:
  "sound rt \<Longrightarrow> scope_ok d s \<Longrightarrow> scope_ok d' s' \<Longrightarrow>
   ss_fetch (getScopeState (fst (applyFetchEvent rt d s e)) d' s') =
     (if d' = d \<and> s' = s then transitionScopedFetchState (ss_fetch (getScopeState rt d s)) e
      else ss_fetch (getScopeState rt d' s'))"
  by (auto simp: applyFetchEvent_def Let_def get_store)

lemma stream_get:
  "sound rt \<Longrightarrow> scope_ok d (Some s) \<Longrightarrow> scope_ok d' s' \<Longrightarrow>
   ss_stream (getScopeState (applyStreamEvent rt d s e) d' s') =
     (if d' = d \<and> s' = Some s
      then transitionScopedStreamState (ss_stream (getScopeState rt d s')) e
      else ss_stream (getScopeState rt d' s'))"
  by (auto simp: applyStreamEvent_def Let_def get_store)

lemma sound_activation [intro]:
  "sound rt \<Longrightarrow> scope_ok d (Some s) \<Longrightarrow> sound (fst (applyActivationEvent rt d s e))"
  using keeps_activation [of "\<lambda>_. ()" d s rt e] by (simp add: keeps_def)

lemma sound_fetch [intro]:
  "sound rt \<Longrightarrow> scope_ok d s \<Longrightarrow> sound (fst (applyFetchEvent rt d s e))"
  using keeps_fetch [of "\<lambda>_. ()" d s rt e] by (simp add: keeps_def)

lemma ids_fetch [intro]:
  "runtime_ok rt \<Longrightarrow> ids_ok rt \<Longrightarrow> scope_ok d s \<Longrightarrow> ids_ok (fst (applyFetchEvent rt d s e))"
  using sound_fetch by blast

lemma sound_stream [intro]:
  "sound rt \<Longrightarrow> scope_ok d (Some s) \<Longrightarrow> sound (applyStreamEvent rt d s e)"
  using keeps_stream [of "\<lambda>_. ()" d s rt e] by (simp add: keeps_def)

section \<open>All methods as operations\<close>

datatype runtime_op =
    OpSetEnabled string string bool
  | OpApplyEnabled string string bool
  | OpAcquire string string demand
  | OpRelease string string demand
  | OpDeleteDomain string
  | OpDefer readiness_request
  | OpTakeDeferred
  | OpReconciliationFailed string string nat
  | OpReconciled string string
  | OpPermission string string permission_event
  | OpPermissionReset
  | OpAuth auth_event
  | OpSetInFlight in_flight
  | OpLatch string "string option"
  | OpSettle string "string option" nat
  | OpTeardown string nat
  | OpBlock string string
  | OpStream string string stream_event
  | OpStreamAll stream_event
  | OpResetAll

fun runtime_step :: "cluster_runtime \<Rightarrow> runtime_op \<Rightarrow> cluster_runtime" where
  "runtime_step rt (OpSetEnabled d s b) = fst (setScopedDomainEnabled rt d s b)"
| "runtime_step rt (OpApplyEnabled d s b) = fst (applyScopedDomainEnabled rt d s b)"
| "runtime_step rt (OpAcquire d s k) = fst (acquireScopedLease rt d s k)"
| "runtime_step rt (OpRelease d s k) = fst (releaseScopedLease rt d s k)"
| "runtime_step rt (OpDeleteDomain d) = deleteDomain rt d"
| "runtime_step rt (OpDefer r) = deferUntilClusterReady rt r"
| "runtime_step rt OpTakeDeferred = fst (takeDeferredReadinessRequests rt)"
| "runtime_step rt (OpReconciliationFailed d s now) = markReconciliationFailed rt d s now"
| "runtime_step rt (OpReconciled d s) = markReconciled rt d s"
| "runtime_step rt (OpPermission d s e) = applyPermissionEvent rt d s e"
| "runtime_step rt OpPermissionReset = fst (resetPermissionEpoch rt)"
| "runtime_step rt (OpAuth e) = fst (applyAuthEvent rt e)"
| "runtime_step rt (OpSetInFlight r) = fst (setInFlight rt r)"
| "runtime_step rt (OpLatch d s) = latchTrailingStreamSignal rt d s"
| "runtime_step rt (OpSettle d s i) = fst (settleInFlight rt d s i)"
| "runtime_step rt (OpTeardown key i) = fst (teardownInFlight rt key i)"
| "runtime_step rt (OpBlock d s) = fst (blockStreaming rt d s)"
| "runtime_step rt (OpStream d s e) = applyStreamEvent rt d s e"
| "runtime_step rt (OpStreamAll e) = applyStreamEventToAll rt e"
| "runtime_step rt OpResetAll = resetAllState rt"

lemma apply_ok [intro]:
  "runtime_ok rt \<Longrightarrow> runtime_ok (fst (applyActivationEvent rt d s ae))"
  "runtime_ok rt \<Longrightarrow> runtime_ok (fst (applyFetchEvent rt d s' fe))"
  "runtime_ok rt \<Longrightarrow> runtime_ok (applyPermissionEvent rt d s pe)"
  "runtime_ok rt \<Longrightarrow> runtime_ok (applyStreamEvent rt d s se)"
  "runtime_ok rt \<Longrightarrow> runtime_ok (fst (applyAuthEvent rt aue))"
  by (auto simp: applyActivationEvent_def applyFetchEvent_def applyPermissionEvent_def
      applyStreamEvent_def applyAuthEvent_def Let_def)
    (simp add: runtime_ok_def)

lemma fold_ok:
  "(\<And>x rt. runtime_ok rt \<Longrightarrow> runtime_ok (f x rt)) \<Longrightarrow> runtime_ok rt \<Longrightarrow> runtime_ok (fold f xs rt)"
  by (induction xs arbitrary: rt) auto

lemma stream_all_ok [intro]: "runtime_ok rt \<Longrightarrow> runtime_ok (applyStreamEventToAll rt e)"
  unfolding applyStreamEventToAll_def by (rule fold_ok) (auto split: option.splits)

lemma deleteDomain_ok [intro]: "runtime_ok rt \<Longrightarrow> runtime_ok (deleteDomain rt d)"
  by (auto simp: runtime_ok_def deleteDomain_def list_all_iff intro: distinct_map_filter)

lemma disableOther_ok [intro]: "runtime_ok rt \<Longrightarrow> runtime_ok (fst (disableOtherEnabledScopes rt d s))"
  unfolding disableOtherEnabledScopes_def Let_def fst_conv by (rule fold_ok) auto

lemma setEnabled_ok [intro]: "runtime_ok rt \<Longrightarrow> runtime_ok (fst (setScopedDomainEnabled rt d s b))"
  using apply_ok(1) [of rt d s]
  by (auto simp: setScopedDomainEnabled_def Let_def split: prod.splits) (metis fst_conv)+

lemma applyEnabled_ok [intro]:
  "runtime_ok rt \<Longrightarrow> runtime_ok (fst (applyScopedDomainEnabled rt d s b))"
  using disableOther_ok [of rt d s] setEnabled_ok [of "fst (disableOtherEnabledScopes rt d s)" d s b]
    setEnabled_ok [of rt d s b]
  by (auto simp: applyScopedDomainEnabled_def Let_def split: prod.splits)

lemma acquire_fst: "fst (acquireScopedLease rt d s k) = fst (applyActivationEvent rt d s (AeLeaseAcquired k))"
  by (simp add: acquireScopedLease_def Let_def split: prod.splits)

lemma release_fst:
  "fst (releaseScopedLease rt d s k) = fst (applyActivationEvent rt d s (AeLeaseReleased k))"
proof (cases "demand_of (demandsFor (ss_activation (getScopeState rt d (Some s)))) k = 0")
  case True
  then show ?thesis
    by (cases "ss_activation (getScopeState rt d (Some s))")
      (simp_all add: releaseScopedLease_def Let_def applyActivationEvent_def
        activation_transition_defs)
next
  case False
  then show ?thesis by (simp add: releaseScopedLease_def Let_def split: prod.splits)
qed

lemma take_deferred_fold:
  "fold takeDeferredOne sts (rt, acc) =
     (store_each (\<lambda>st. ss_readiness st \<noteq> Ready) (\<lambda>st. st\<lparr>ss_readiness := Ready\<rparr>) sts rt,
      acc @ concat (List.map waitingRequest sts))"
proof (induction sts arbitrary: rt acc)
  case Nil
  then show ?case by (simp add: store_each_def)
next
  case (Cons st sts)
  then show ?case
    by (cases "ss_readiness st") (simp_all add: store_each_def takeDeferredOne_def)
qed

lemma reset_permission_fold:
  "fst (fold resetPermissionOne sts (rt, acc)) =
     store_each (\<lambda>st. ss_scope st \<noteq> None \<and> ss_permission st \<noteq> PermUnknown)
       (\<lambda>st. st\<lparr>ss_permission := PermUnknown\<rparr>) sts rt"
proof (induction sts arbitrary: rt acc)
  case Nil
  then show ?case by (simp add: store_each_def)
next
  case (Cons st sts)
  then show ?case
    by (cases "ss_scope st"; cases "ss_permission st = PermUnknown")
      (simp_all add: store_each_def resetPermissionOne_def)
qed

lemma settle_fst: "fst (settleInFlight rt d s i) = fst (applyFetchEvent rt d s (FetchSettled i))"
  by (simp add: settleInFlight_def Let_def split: prod.splits)

lemma teardown_fst:
  "fst (teardownInFlight rt key i) =
     (case jm_get (cr_scopedStates rt) key of
        None \<Rightarrow> rt
      | Some st \<Rightarrow> fst (applyFetchEvent rt (ss_domain st) (ss_scope st) (FetchCancelled i)))"
  by (auto simp: teardownInFlight_def Let_def split: option.splits prod.splits)

lemma runtime_step_ok: "runtime_ok rt \<Longrightarrow> runtime_ok (runtime_step rt op)"
proof (cases op)
  case OpResetAll
  then show ?thesis by (simp add: resetAllState_def runtime_ok_def)
qed (auto simp: acquire_fst release_fst takeDeferredReadinessRequests_def take_deferred_fold
    resetPermissionEpoch_def reset_permission_fold settle_fst teardown_fst setInFlight_def
    latchTrailingStreamSignal_def deferUntilClusterReady_def markReconciliationFailed_def
    markReconciled_def blockStreaming_def Let_def intro!: store_each_ok split: option.splits)

interpretation runtime: event_machine runtime_step runtime_ok
  by unfold_locales (rule runtime_step_ok)

section \<open>The fetch of a scope under every operation\<close>

fun op_ok :: "runtime_op \<Rightarrow> bool" where
  "op_ok (OpSetEnabled d s b) = scope_ok d (Some s)"
| "op_ok (OpApplyEnabled d s b) = scope_ok d (Some s)"
| "op_ok (OpAcquire d s k) = scope_ok d (Some s)"
| "op_ok (OpRelease d s k) = scope_ok d (Some s)"
| "op_ok (OpDefer r) = scope_ok (rr_domain r) (Some (rr_scope r))"
| "op_ok (OpReconciliationFailed d s now) = scope_ok d (Some s)"
| "op_ok (OpReconciled d s) = scope_ok d (Some s)"
| "op_ok (OpPermission d s e) = scope_ok d (Some s)"
| "op_ok (OpSetInFlight r) = scope_ok (if_domain r) (if_scope r)"
| "op_ok (OpLatch d s) = scope_ok d s"
| "op_ok (OpSettle d s i) = scope_ok d s"
| "op_ok (OpBlock d s) = scope_ok d (Some s)"
| "op_ok (OpStream d s e) = scope_ok d (Some s)"
| "op_ok _ = True"

lemma stored_scope_ok: "ids_ok rt \<Longrightarrow> st \<in> set (scope_states rt) \<Longrightarrow> state_ok st"
  by (auto simp: ids_ok_def list_all_iff)

lemma keeps_store_each:
  assumes "\<And>st. ss_domain (g st) = ss_domain st \<and> ss_scope (g st) = ss_scope st \<and> c (g st) = c st"
  shows "keeps c rt (store_each p g (scope_states rt) rt)"
  unfolding keeps_def
proof (intro impI conjI allI)
  assume snd: "sound rt"
  then have ok: "\<forall>st\<in>set (scope_states rt). state_ok st" using stored_scope_ok by blast
  from snd show "runtime_ok (store_each p g (scope_states rt) rt)" by (simp add: store_each_ok)
  from snd ok show "ids_ok (store_each p g (scope_states rt) rt)"
    by (simp add: store_each_ids list_all_iff assms)
  fix d s
  assume d: "scope_ok d s"
  let ?find = "List.find (\<lambda>st. ss_domain st = d \<and> ss_scope st = s \<and> p st) (scope_states rt)"
  have get: "getScopeState (store_each p g (scope_states rt) rt) d s =
      (case ?find of Some st \<Rightarrow> g st | None \<Rightarrow> getScopeState rt d s)"
    by (rule store_each_get) (use snd ok d assms stored_ids_distinct [of rt] in \<open>auto simp: comp_def\<close>)
  show "c (getScopeState (store_each p g (scope_states rt) rt) d s) = c (getScopeState rt d s)"
  proof (cases ?find)
    case (Some st)
    then have "st \<in> set (scope_states rt)" "ss_domain st = d" "ss_scope st = s"
      by (auto simp: find_Some_iff)
    with snd Some get assms show ?thesis using stored_state(1) [of rt st] by simp
  qed (simp add: get)
qed

lemma keeps_stream_all [keeps_rules]:
  assumes "\<And>st a. c (st\<lparr>ss_stream := a\<rparr>) = c st"
  shows "keeps c rt (applyStreamEventToAll rt e)"
proof (cases "sound rt")
  case True
  then have ok: "st \<in> set (scope_states rt) \<Longrightarrow> state_ok st" for st using stored_scope_ok by blast
  show ?thesis
    unfolding applyStreamEventToAll_def
  proof (rule keeps_fold)
    fix st rt'
    assume "st \<in> set (scope_states rt)"
    then show "keeps c rt' (case ss_scope st of None \<Rightarrow> rt'
                 | Some scope \<Rightarrow> applyStreamEvent rt' (ss_domain st) scope e)"
      using ok [of st] assms by (cases "ss_scope st") (auto intro: keeps_stream)
  qed
qed (auto simp: keeps_def)

lemma keeps_disable_other [keeps_rules]:
  assumes "\<And>st a. c (st\<lparr>ss_activation := a\<rparr>) = c st"
  shows "keeps c rt (fst (disableOtherEnabledScopes rt d s))"
proof (cases "sound rt")
  case True
  have ok: "scope_ok d (Some (the (ss_scope st)))"
    if "st \<in> set (List.filter (enabledElsewhere d s) (scope_states rt))" for st
    using that True stored_scope_ok [of rt st] by (auto simp: enabledElsewhere_def)
  show ?thesis
    unfolding disableOtherEnabledScopes_def Let_def fst_conv
    by (rule keeps_fold) (use ok assms in \<open>auto intro!: keeps_activation\<close>)
qed (auto simp: keeps_def)

lemma set_enabled_fst:
  "fst (setScopedDomainEnabled rt d s b) =
     fst (applyActivationEvent rt d s (if b then AeEnabled else AeDisabled))"
  by (simp add: setScopedDomainEnabled_def Let_def split: prod.splits)

lemma apply_enabled_fst:
  "fst (applyScopedDomainEnabled rt d s b) =
     fst (setScopedDomainEnabled
            (if b \<and> d \<notin> set MULTI_ACTIVE_SCOPE_DOMAINS then fst (disableOtherEnabledScopes rt d s)
             else rt) d s b)"
  by (simp add: applyScopedDomainEnabled_def Let_def split: prod.splits)

lemma keeps_apply_enabled [keeps_rules]:
  assumes "\<And>st a. c (st\<lparr>ss_activation := a\<rparr>) = c st" "scope_ok d (Some s)"
  shows "keeps c rt (fst (applyScopedDomainEnabled rt d s b))"
  unfolding apply_enabled_fst set_enabled_fst
  using keeps_trans [OF keeps_disable_other keeps_activation, of c] assms
  by (auto intro: keeps_activation)

lemma get_delete_domain:
  assumes "sound rt" "scope_ok d s"
  shows "getScopeState (deleteDomain rt d') d s =
           (if d' = d then default_scope_state d s else getScopeState rt d s)"
proof -
  let ?m = "cr_scopedStates rt"
  have "jm_ok ?m" using assms by (simp add: runtime_ok_def)
  note * = jm_get_filter [OF this, of "\<lambda>st. ss_domain st \<noteq> d'"]
  have "ss_domain (getScopeState rt d s) = d" using assms by simp
  then show ?thesis
    by (auto simp: getScopeState_def deleteDomain_def * split: option.splits)
qed

lemma sound_delete_domain: "sound rt \<Longrightarrow> sound (deleteDomain rt d)"
  by (auto simp: deleteDomain_ok) (auto simp: ids_ok_def deleteDomain_def list_all_iff)

lemma get_reset_all: "getScopeState (resetAllState rt) d s = default_scope_state d s"
  by (simp add: getScopeState_def resetAllState_def)

lemma sound_reset_all: "sound (resetAllState rt)"
  by (simp add: runtime_ok_def ids_ok_def resetAllState_def)

lemma keeps_auth [keeps_rules]: "keeps c rt (fst (applyAuthEvent rt e))"
  by (auto simp: keeps_def applyAuthEvent_def Let_def runtime_ok_def ids_ok_def getScopeState_def)

lemma keeps_soundD: "keeps c rt rt' \<Longrightarrow> sound rt \<Longrightarrow> sound rt'"
  and keeps_getD: "keeps c rt rt' \<Longrightarrow> sound rt \<Longrightarrow> scope_ok d s \<Longrightarrow>
        c (getScopeState rt' d s) = c (getScopeState rt d s)"
  by (auto simp: keeps_def)

fun fetch_effect :: "runtime_op \<Rightarrow> string \<Rightarrow> string option \<Rightarrow> fetch_state \<Rightarrow> fetch_state" where
  "fetch_effect (OpSetInFlight r) d s f = (if if_domain r = d \<and> if_scope r = s then Fetching r False else f)"
| "fetch_effect (OpLatch d' s') d s f =
     (if d' = d \<and> s' = s then transitionScopedFetchState f StreamSignalReceived else f)"
| "fetch_effect (OpSettle d' s' i) d s f =
     (if d' = d \<and> s' = s then transitionScopedFetchState f (FetchSettled i) else f)"
| "fetch_effect (OpTeardown key i) d s f =
     (if key = makeInFlightKey d s then transitionScopedFetchState f (FetchCancelled i) else f)"
| "fetch_effect (OpDeleteDomain d') d s f = (if d' = d then FetchIdle else f)"
| "fetch_effect OpResetAll d s f = FetchIdle"
| "fetch_effect _ d s f = f"

lemma teardown_frame:
  assumes "sound rt" "scope_ok d s"
  shows "sound (runtime_step rt (OpTeardown key i))"
    and "ss_fetch (getScopeState (runtime_step rt (OpTeardown key i)) d s)
           = fetch_effect (OpTeardown key i) d s (ss_fetch (getScopeState rt d s))"
proof -
  have "sound (runtime_step rt (OpTeardown key i)) \<and>
    ss_fetch (getScopeState (runtime_step rt (OpTeardown key i)) d s)
      = fetch_effect (OpTeardown key i) d s (ss_fetch (getScopeState rt d s))"
  proof (cases "jm_get (cr_scopedStates rt) key")
    case None
    then show ?thesis
      using assms by (auto simp: teardown_fst getScopeState_def)
  next
    case (Some st)
    then have "(key, st) \<in> set (cr_scopedStates rt)" by (rule jm_get_in)
    with assms have k: "key = makeInFlightKey (ss_domain st) (ss_scope st)" and st: "state_ok st"
      by (auto simp: runtime_ok_def ids_ok_def list_all_iff)
    from Some k have "getScopeState rt (ss_domain st) (ss_scope st) = st"
      by (simp add: getScopeState_def)
    with Some k st assms show ?thesis
      by (auto simp: teardown_fst fetch_get sound_fetch key_inject
          dest: sound_fetch [of rt "ss_domain st" "ss_scope st" "FetchCancelled i"])
  qed
  then show "sound (runtime_step rt (OpTeardown key i))"
    "ss_fetch (getScopeState (runtime_step rt (OpTeardown key i)) d s)
       = fetch_effect (OpTeardown key i) d s (ss_fetch (getScopeState rt d s))" by simp_all
qed

lemma keeps_fetch_ops:
  assumes "op_ok op"
  shows "case op of OpDeleteDomain _ \<Rightarrow> True | OpSetInFlight _ \<Rightarrow> True | OpLatch _ _ \<Rightarrow> True
    | OpSettle _ _ _ \<Rightarrow> True | OpTeardown _ _ \<Rightarrow> True | OpResetAll \<Rightarrow> True
    | _ \<Rightarrow> keeps ss_fetch rt (runtime_step rt op)"
  using assms
  by (cases op)
    (auto simp: set_enabled_fst acquire_fst release_fst takeDeferredReadinessRequests_def
      take_deferred_fold resetPermissionEpoch_def reset_permission_fold
      intro!: keeps_rules keeps_store_each)

lemma runtime_step_fetch:
  assumes "sound rt" "op_ok op" "scope_ok d s"
  shows "sound (runtime_step rt op) \<and>
    ss_fetch (getScopeState (runtime_step rt op) d s)
      = fetch_effect op d s (ss_fetch (getScopeState rt d s))"
proof (cases op)
  case (OpTeardown key i)
  then show ?thesis using teardown_frame [OF assms(1,3)] by simp
next
  case (OpDeleteDomain d')
  then show ?thesis using assms sound_delete_domain by (simp add: get_delete_domain)
next
  case OpResetAll
  then show ?thesis by (simp add: get_reset_all sound_reset_all)
qed (use assms keeps_fetch_ops [OF assms(2), of rt] in
     \<open>auto simp: setInFlight_def latchTrailingStreamSignal_def settle_fst fetch_get
        dest: keeps_soundD keeps_getD [where c = ss_fetch]\<close>)

section \<open>Properties\<close>

text \<open>
  The map of scope states never grows stale: whatever methods are called on a new runtime,
  every entry is stored once, under the key of its own domain and scope, and no entry equals the
  default state, so a scope that has become quiescent in every respect leaves nothing behind.
\<close>

theorem runtime_store_minimal:
  "jm_ok (cr_scopedStates (foldl runtime_step (newClusterRefreshRuntime c) ops)) \<and>
   list_all (\<lambda>(k, st). k = makeInFlightKey (ss_domain st) (ss_scope st) \<and> \<not> is_default_state st)
     (cr_scopedStates (foldl runtime_step (newClusterRefreshRuntime c) ops))"
  using runtime.run_inv [OF new_ok(1), of c ops] by (simp add: runtime_ok_def)

lemma run_sound: "sound rt \<Longrightarrow> list_all op_ok ops \<Longrightarrow> sound (foldl runtime_step rt ops)"
proof (induction ops arbitrary: rt)
  case (Cons op ops)
  have "sound (runtime_step rt op)"
    using runtime_step_fetch [of rt op "[]" None] Cons.prems by (simp add: scope_ok_def)
  with Cons show ?case by simp
qed simp

text \<open>The operations that end or replace the fetch \<open>i\<close> of a scope\<close>

fun ends_fetch :: "string \<Rightarrow> string option \<Rightarrow> nat \<Rightarrow> runtime_op \<Rightarrow> bool" where
  "ends_fetch d s i (OpSetInFlight r) = (if_domain r = d \<and> if_scope r = s)"
| "ends_fetch d s i (OpSettle d' s' j) = (d' = d \<and> s' = s \<and> j = i)"
| "ends_fetch d s i (OpTeardown key j) = (key = makeInFlightKey d s \<and> j = i)"
| "ends_fetch d s i (OpDeleteDomain d') = (d' = d)"
| "ends_fetch d s i OpResetAll = True"
| "ends_fetch d s i _ = False"

lemma fetch_run:
  assumes "sound rt" "scope_ok d s"
    and "ss_fetch (getScopeState rt d s) = Fetching r t"
    and "list_all op_ok ops" "\<not> list_ex (ends_fetch d s (if_requestId r)) ops"
  shows "ss_fetch (getScopeState (foldl runtime_step rt ops) d s)
           = Fetching r (t \<or> OpLatch d s \<in> set ops)"
  using assms
proof (induction ops arbitrary: rt t)
  case (Cons op ops)
  let ?rt = "runtime_step rt op"
  have step: "sound ?rt" "ss_fetch (getScopeState ?rt d s) = fetch_effect op d s (Fetching r t)"
    using runtime_step_fetch [of rt op d s] Cons.prems by simp_all
  have "fetch_effect op d s (Fetching r t) = Fetching r (t \<or> op = OpLatch d s)"
    using Cons.prems(5) by (cases op) auto
  with step Cons.IH [of ?rt "t \<or> op = OpLatch d s"] Cons.prems show ?case by auto
qed simp

text \<open>
  C21. No change signal is lost while a fetch runs, and none is invented. Between the start of a
  request and its end, whatever else happens to this and to other scopes (leases, permissions,
  streams, deferrals, the settling of older requests), settling the request hands back exactly
  this request, with the trailing flag set exactly if a stream signal arrived meanwhile; and the
  settling is not repeatable.
\<close>

theorem trailing_signal_not_lost:
  assumes "sound rt" "scope_ok (if_domain r) (if_scope r)" "list_all op_ok ops"
    and "\<not> list_ex (ends_fetch (if_domain r) (if_scope r) (if_requestId r)) ops"
  shows "snd (settleInFlight (foldl runtime_step (fst (setInFlight rt r)) ops)
                (if_domain r) (if_scope r) (if_requestId r))
           = Some (r, OpLatch (if_domain r) (if_scope r) \<in> set ops) \<and>
         getInFlight (fst (settleInFlight (foldl runtime_step (fst (setInFlight rt r)) ops)
                (if_domain r) (if_scope r) (if_requestId r))) (if_domain r) (if_scope r) = None"
proof -
  let ?d = "if_domain r" and ?s = "if_scope r"
  let ?start = "fst (setInFlight rt r)"
  let ?rt = "foldl runtime_step ?start ops"
  have s0: "sound ?start" and f0: "ss_fetch (getScopeState ?start ?d ?s) = Fetching r False"
    using runtime_step_fetch [of rt "OpSetInFlight r" ?d ?s] assms(1,2) by simp_all
  have f: "ss_fetch (getScopeState ?rt ?d ?s) = Fetching r (OpLatch ?d ?s \<in> set ops)"
    using fetch_run [OF s0 assms(2) f0 assms(3,4)] by simp
  have snd: "sound ?rt" by (rule run_sound [OF s0 assms(3)])
  from f
  show ?thesis
    using fetch_get [OF snd assms(2) assms(2), of "FetchSettled (if_requestId r)"]
    by (auto simp: settleInFlight_def getInFlight_def getFetchState_def trackedRequest_def Let_def
        applyFetchEvent_def)
qed

text \<open>A doorbell and the late settling of an older request while request 7 runs\<close>

lemma trailing_signal_not_lost_witness:
  "let r = \<lparr>if_controller = 1, if_isManual = False, if_streamSignal = None, if_coalesce = None,
            if_requestId = 7, if_cleanup = None, if_completion = Some 3, if_contextVersion = 0,
            if_domain = ''pods'', if_scope = Some ''c1|default''\<rparr> in
   snd (settleInFlight (foldl runtime_step
          (fst (setInFlight (newClusterRefreshRuntime ''c1'') r))
          [OpLatch ''pods'' (Some ''c1|default''), OpSettle ''pods'' (Some ''c1|default'') 6])
        ''pods'' (Some ''c1|default'') 7) = Some (r, True)"
  unfolding Let_def
  using trailing_signal_not_lost [of "newClusterRefreshRuntime ''c1''"
      "\<lparr>if_controller = 1, if_isManual = False, if_streamSignal = None, if_coalesce = None,
        if_requestId = 7, if_cleanup = None, if_completion = Some 3, if_contextVersion = 0,
        if_domain = ''pods'', if_scope = Some ''c1|default''\<rparr>"
      "[OpLatch ''pods'' (Some ''c1|default''), OpSettle ''pods'' (Some ''c1|default'') 6]"]
  by (simp add: scope_ok_def js_trim_def js_space_def)

lemma enabled_scope_iff:
  assumes "sound rt" "scope_ok d (Some s)"
  shows "s \<in> set (getEnabledScopes rt d) \<longleftrightarrow>
           isEnabledState (ss_activation (getScopeState rt d (Some s)))"
proof
  assume "s \<in> set (getEnabledScopes rt d)"
  then obtain st where st: "st \<in> set (scope_states rt)" "ss_domain st = d" "ss_scope st = Some s"
    "isEnabledState (ss_activation st)"
    unfolding getEnabledScopes_def set_map [of "\<lambda>st. the (ss_scope st)"] set_filter by force
  with assms stored_state(1) [of rt st] show "isEnabledState (ss_activation (getScopeState rt d (Some s)))"
    by simp
next
  assume e: "isEnabledState (ss_activation (getScopeState rt d (Some s)))"
  then have "\<not> is_default_state (getScopeState rt d (Some s))"
    by (auto simp: is_default_state_def)
  then have "getScopeState rt d (Some s) \<in> set (scope_states rt)" by (rule unstored_state)
  with e assms show "s \<in> set (getEnabledScopes rt d)"
    unfolding getEnabledScopes_def set_map [of "\<lambda>st. the (ss_scope st)"] set_filter
    by (intro image_eqI [where x = "getScopeState rt d (Some s)"]) auto
qed

lemma enabled_scope_ok: "sound rt \<Longrightarrow> s \<in> set (getEnabledScopes rt d) \<Longrightarrow> scope_ok d (Some s)"
  using stored_scope_ok [of rt] by (fastforce simp: getEnabledScopes_def)

lemma map_filter_split:
  "(\<And>x. P x \<longleftrightarrow> R x \<and> Q (f x)) \<Longrightarrow>
   List.map f (List.filter P xs) = List.filter Q (List.map f (List.filter R xs))"
  by (induction xs) auto

lemma enabledElsewhere_scopes:
  "List.map (\<lambda>st. the (ss_scope st)) (List.filter (enabledElsewhere d s) (scope_states rt))
     = List.filter (\<lambda>x. x \<noteq> s) (getEnabledScopes rt d)"
  unfolding getEnabledScopes_def enabledElsewhere_def by (rule map_filter_split) auto

lemma enabled_distinct: "sound rt \<Longrightarrow> distinct (getEnabledScopes rt d)"
proof -
  assume s: "sound rt"
  let ?sts = "List.filter (\<lambda>st. ss_domain st = d \<and> ss_scope st \<noteq> None \<and>
                isEnabledState (ss_activation st)) (scope_states rt)"
  have "distinct (List.map (\<lambda>st. makeInFlightKey (ss_domain st) (ss_scope st)) ?sts)"
    using s stored_ids_distinct [of rt] by (blast intro: distinct_map_filter)
  then have "distinct (List.map (\<lambda>x. makeInFlightKey d (Some x)) (List.map (\<lambda>st. the (ss_scope st)) ?sts))"
    by (auto simp: distinct_map inj_on_def)
  then show ?thesis unfolding getEnabledScopes_def by (simp only: distinct_map)
qed

lemma supersede_fold:
  assumes "sound rt" "distinct ss" "\<forall>s\<in>set ss. scope_ok d (Some s)" "scope_ok d' s'"
  shows "sound (fold (\<lambda>s rt. fst (applyActivationEvent rt d s AeSuperseded)) ss rt) \<and>
    ss_activation (getScopeState
      (fold (\<lambda>s rt. fst (applyActivationEvent rt d s AeSuperseded)) ss rt) d' s')
     = (if d' = d \<and> s' \<in> Some ` set ss
        then supersedeScope (ss_activation (getScopeState rt d' s'))
        else ss_activation (getScopeState rt d' s'))"
  using assms(1-3)
proof (induction ss arbitrary: rt)
  case (Cons s ss)
  let ?rt = "fst (applyActivationEvent rt d s AeSuperseded)"
  have "sound ?rt" using sound_activation [of rt d s] Cons.prems by simp
  with Cons.IH [of ?rt] Cons.prems assms(4) show ?case
    by (auto simp: activation_get transitionScopedActivationState.simps split: if_splits)
qed auto

lemma supersede_not_enabled [simp]: "\<not> isEnabledState (supersedeScope s)"
  by (cases s) auto

lemma apply_enabled_activation:
  assumes "sound rt" "scope_ok d (Some s)" "scope_ok d' s'"
    and "d \<notin> set MULTI_ACTIVE_SCOPE_DOMAINS"
  shows "ss_activation (getScopeState (fst (applyScopedDomainEnabled rt d s True)) d' s') =
    (if d' = d \<and> s' = Some s then enableScope (ss_activation (getScopeState rt d s'))
     else if d' = d \<and> s' \<in> Some ` set (getEnabledScopes rt d)
     then supersedeScope (ss_activation (getScopeState rt d s'))
     else ss_activation (getScopeState rt d' s'))"
proof -
  let ?ss = "List.filter (\<lambda>x. x \<noteq> s) (getEnabledScopes rt d)"
  have "distinct ?ss" "\<forall>s\<in>set ?ss. scope_ok d (Some s)"
    using assms(1) enabled_distinct enabled_scope_ok by auto
  note f = supersede_fold [OF assms(1) this]
  have "scope_ok d (Some s)" by fact
  with f [OF assms(3)] f [OF assms(2)] assms show ?thesis
    by (auto simp: apply_enabled_fst set_enabled_fst disableOtherEnabledScopes_def Let_def
        enabledElsewhere_scopes activation_get transitionScopedActivationState.simps)
qed

lemma apply_enabled_scopes:
  assumes "sound rt" "scope_ok d (Some s)" "d \<notin> set MULTI_ACTIVE_SCOPE_DOMAINS"
  shows "snd (snd (applyScopedDomainEnabled rt d s True))
           = List.filter (\<lambda>x. x \<noteq> s) (getEnabledScopes rt d)"
  using assms by (simp add: applyScopedDomainEnabled_def disableOtherEnabledScopes_def
      enabledElsewhere_scopes Let_def split: prod.splits)

lemma isEnabled_enableScope [simp]: "isEnabledState (enableScope s)"
  by (cases s) auto

text \<open>
  A domain that keeps one scope per cluster has exactly one enabled scope after a scope of it
  is enabled; the scopes reported as stale are exactly those that were enabled before; every
  lease of every scope survives, so a superseded consumer can still release what it holds; and
  no scope of another domain changes.
\<close>

theorem single_active_scope:
  assumes "sound rt" "scope_ok d (Some s)" "d \<notin> set MULTI_ACTIVE_SCOPE_DOMAINS"
  shows "set (getEnabledScopes (fst (applyScopedDomainEnabled rt d s True)) d) = {s} \<and>
    set (snd (snd (applyScopedDomainEnabled rt d s True))) = set (getEnabledScopes rt d) - {s} \<and>
    (\<forall>d' s'. scope_ok d' s' \<longrightarrow>
      demandsFor (ss_activation (getScopeState (fst (applyScopedDomainEnabled rt d s True)) d' s'))
        = demandsFor (ss_activation (getScopeState rt d' s'))) \<and>
    (\<forall>d' s'. scope_ok d' s' \<longrightarrow> d' \<noteq> d \<longrightarrow>
      ss_activation (getScopeState (fst (applyScopedDomainEnabled rt d s True)) d' s')
        = ss_activation (getScopeState rt d' s'))"
proof (intro conjI allI impI)
  let ?rt = "fst (applyScopedDomainEnabled rt d s True)"
  note act = apply_enabled_activation [OF assms(1,2) _ assms(3)]
  have snd: "sound ?rt"
    using keeps_apply_enabled [of "\<lambda>_. ()" d s rt True] assms by (simp add: keeps_def)
  have "x \<in> set (getEnabledScopes ?rt d) \<longleftrightarrow> x = s" for x
  proof (cases "scope_ok d (Some x)")
    case True
    then show ?thesis
      using enabled_scope_iff [OF snd True] enabled_scope_iff [OF assms(1) True] act [OF True]
      by auto
  next
    case False
    then show ?thesis using assms(2) enabled_scope_ok [OF snd] by auto
  qed
  then show "set (getEnabledScopes ?rt d) = {s}" by blast
  show "set (snd (snd (applyScopedDomainEnabled rt d s True))) = set (getEnabledScopes rt d) - {s}"
    using apply_enabled_scopes [OF assms] by auto
  show "demandsFor (ss_activation (getScopeState ?rt d' s'))
      = demandsFor (ss_activation (getScopeState rt d' s'))" if "scope_ok d' s'" for d' s'
    using act [OF that] by auto
  show "ss_activation (getScopeState ?rt d' s') = ss_activation (getScopeState rt d' s')"
    if "scope_ok d' s'" "d' \<noteq> d" for d' s'
    using act [OF that(1)] that(2) by auto
qed

text \<open>The namespace table of another namespace is opened while the first one is leased\<close>

lemma take_deferred_get:
  assumes "sound rt" "scope_ok d s"
  shows "getScopeState (fst (takeDeferredReadinessRequests rt)) d s
           = (getScopeState rt d s)\<lparr>ss_readiness := Ready\<rparr>"
proof -
  let ?p = "\<lambda>st. ss_domain st = d \<and> ss_scope st = s \<and> ss_readiness st \<noteq> Ready"
  have get: "getScopeState (fst (takeDeferredReadinessRequests rt)) d s =
      (case List.find ?p (scope_states rt) of
         Some st \<Rightarrow> st\<lparr>ss_readiness := Ready\<rparr> | None \<Rightarrow> getScopeState rt d s)"
    unfolding takeDeferredReadinessRequests_def take_deferred_fold fst_conv
    by (rule store_each_get)
      (use assms stored_ids_distinct [of rt] stored_scope_ok [of rt] in \<open>auto simp: comp_def\<close>)
  show ?thesis
  proof (cases "List.find ?p (scope_states rt)")
    case None
    have "ss_readiness (getScopeState rt d s) = Ready"
    proof (rule ccontr)
      assume n: "\<not> ?thesis"
      then have "getScopeState rt d s \<in> set (scope_states rt)"
        by (intro unstored_state) (auto simp: is_default_state_def)
      with None n assms show False
        unfolding find_None_iff by (metis get_identity)
    qed
    with None get show ?thesis by simp
  next
    case (Some st)
    then have "st \<in> set (scope_states rt)" "ss_domain st = d" "ss_scope st = s"
      by (auto simp: find_Some_iff)
    with assms stored_state(1) [of rt st] Some get show ?thesis by simp
  qed
qed

lemma take_deferred_sound: "sound rt \<Longrightarrow> sound (fst (takeDeferredReadinessRequests rt))"
  using runtime_step_fetch [of rt OpTakeDeferred "[]" None] by (simp add: scope_ok_def)

lemma no_deferred_iff:
  "getDeferredReadinessRequests rt = [] \<longleftrightarrow> (\<forall>st\<in>set (scope_states rt). ss_readiness st = Ready)"
proof -
  have "waitingRequest st = [] \<longleftrightarrow> ss_readiness st = Ready" for st
    by (cases "ss_readiness st") auto
  then show ?thesis by (simp add: getDeferredReadinessRequests_def del: waitingRequest.simps)
qed

text \<open>
  When a cluster becomes ready, every deferred request is handed out once: taking them
  returns exactly the requests that were waiting, in order, none is waiting afterwards, a second
  take returns nothing, and nothing but the readiness of the scopes changes.
\<close>

theorem deferred_taken_once:
  assumes "sound rt"
  shows "snd (takeDeferredReadinessRequests rt) = getDeferredReadinessRequests rt \<and>
    getDeferredReadinessRequests (fst (takeDeferredReadinessRequests rt)) = [] \<and>
    snd (takeDeferredReadinessRequests (fst (takeDeferredReadinessRequests rt))) = [] \<and>
    (\<forall>d s. scope_ok d s \<longrightarrow> getScopeState (fst (takeDeferredReadinessRequests rt)) d s
       = (getScopeState rt d s)\<lparr>ss_readiness := Ready\<rparr>)"
proof (intro conjI allI impI)
  let ?rt = "fst (takeDeferredReadinessRequests rt)"
  have take: "snd (takeDeferredReadinessRequests r) = getDeferredReadinessRequests r" for r
    by (simp add: takeDeferredReadinessRequests_def take_deferred_fold getDeferredReadinessRequests_def)
  show "snd (takeDeferredReadinessRequests rt) = getDeferredReadinessRequests rt" by (rule take)
  have snd: "sound ?rt" by (rule take_deferred_sound [OF assms])
  have "ss_readiness st = Ready" if "st \<in> set (scope_states ?rt)" for st
    using stored_state(1) [of ?rt st] stored_scope_ok [of ?rt st] snd that
      take_deferred_get [OF assms, of "ss_domain st" "ss_scope st"]
    by (metis scoped_state.select_convs(6) scoped_state.surjective scoped_state.update_convs(6))
  then show none: "getDeferredReadinessRequests ?rt = []" by (simp add: no_deferred_iff)
  show "snd (takeDeferredReadinessRequests ?rt) = []" by (simp add: take none)
  show "getScopeState ?rt d s = (getScopeState rt d s)\<lparr>ss_readiness := Ready\<rparr>" if "scope_ok d s" for d s
    by (rule take_deferred_get [OF assms that])
qed

lemma reconciliation_failed_get:
  assumes "sound rt" "scope_ok d (Some s)"
  shows "sound (markReconciliationFailed rt d s now)"
    and "ss_reconciliation (getScopeState (markReconciliationFailed rt d s now) d (Some s)) =
      (let n = reconciliation_failures (ss_reconciliation (getScopeState rt d (Some s)))
       in ReconPending n (now + reconciliation_delay n))"
  using assms keeps_reconciliation(1) [of "\<lambda>_. ()" d s rt now]
  by (auto simp: markReconciliationFailed_def Let_def get_store keeps_def)

abbreviation fail_at :: "string \<Rightarrow> string \<Rightarrow> cluster_runtime \<Rightarrow> nat \<Rightarrow> cluster_runtime" where
  "fail_at d s rt now \<equiv> markReconciliationFailed rt d s now"

lemma failures_run:
  assumes "sound rt" "scope_ok d (Some s)"
    and "ss_reconciliation (getScopeState rt d (Some s)) = ReconPending n t"
  shows "\<exists>u. ss_reconciliation (getScopeState (foldl (fail_at d s) rt nows) d (Some s))
           = ReconPending (n + length nows) u \<and>
         (nows \<noteq> [] \<longrightarrow> u = last nows + reconciliation_delay (n + length nows))"
  using assms
proof (induction nows arbitrary: rt n t)
  case (Cons now nows)
  let ?rt = "fail_at d s rt now"
  have s: "sound ?rt"
    and g: "ss_reconciliation (getScopeState ?rt d (Some s))
              = ReconPending (n + 1) (now + reconciliation_delay (n + 1))"
    using reconciliation_failed_get [OF Cons.prems(1,2), of now] Cons.prems(3)
    by (simp_all add: reconciliation_failures_def Let_def)
  from Cons.IH [OF s Cons.prems(2) g] g show ?case by (cases nows) auto
qed simp

lemma reconciliation_delay_le: "reconciliation_delay n \<le> 60000"
  by (simp add: reconciliation_delay_def)

lemma reconciliation_delay_mono:
  assumes "0 < m" "m \<le> n"
  shows "reconciliation_delay m \<le> reconciliation_delay n"
proof (cases "m = 1")
  case False
  with assms have "n \<noteq> 1" by simp
  moreover have "(2::nat) ^ min (m - 2) 6 \<le> 2 ^ min (n - 2) 6"
    using assms by (intro power_increasing min.mono) auto
  then have "min 60000 (1000 * 2 ^ min (m - 2) 6) \<le> min 60000 (1000 * (2::nat) ^ min (n - 2) 6)"
    by (intro min.mono) auto
  ultimately show ?thesis using False by (simp add: reconciliation_delay_def)
qed (simp add: reconciliation_delay_def)

text \<open>
  The backoff of a scope whose reconciliation keeps failing: after a series of failures the
  scope needs reconciliation and may retry from the last failure on after a delay that is zero
  for the first failure, never shrinks as failures add up and never exceeds a minute; a success
  clears all of it.
\<close>

theorem reconciliation_backoff:
  assumes "sound rt" "scope_ok d (Some s)" "\<not> needsReconciliation rt d s" "nows \<noteq> []"
  shows "needsReconciliation (foldl (fail_at d s) rt nows) d s \<and>
    (\<forall>t. canRetryReconciliation (foldl (fail_at d s) rt nows) d s t \<longleftrightarrow>
            last nows + reconciliation_delay (length nows) \<le> t) \<and>
    reconciliation_delay 1 = 0 \<and>
    reconciliation_delay (length nows) \<le> reconciliation_delay (Suc (length nows)) \<and>
    reconciliation_delay (length nows) \<le> 60000 \<and>
    \<not> needsReconciliation (markReconciled (foldl (fail_at d s) rt nows) d s) d s"
proof (intro conjI allI)
  let ?rt = "foldl (fail_at d s) rt nows"
  obtain now nows' where nows: "nows = now # nows'" using assms(4) by (cases nows) auto
  let ?f = "fail_at d s rt now"
  have clean: "ss_reconciliation (getScopeState rt d (Some s)) = ReconClean"
    using assms(3) by (auto simp: needsReconciliation_def split: reconciliation_state.splits)
  have f: "sound ?f" "ss_reconciliation (getScopeState ?f d (Some s)) = ReconPending 1 now"
    using reconciliation_failed_get [OF assms(1,2), of now] clean
    by (simp_all add: reconciliation_failures_def reconciliation_delay_def Let_def)
  have pend: "ss_reconciliation (getScopeState ?rt d (Some s))
      = ReconPending (length nows) (last nows + reconciliation_delay (length nows))"
  proof (cases "nows' = []")
    case True
    with f(2) nows show ?thesis by (simp add: reconciliation_delay_def)
  next
    case False
    with failures_run [OF f(1) assms(2) f(2), of nows'] nows show ?thesis by auto
  qed
  show "needsReconciliation ?rt d s" using pend by (simp add: needsReconciliation_def)
  show "canRetryReconciliation ?rt d s t \<longleftrightarrow> last nows + reconciliation_delay (length nows) \<le> t" for t
    using pend by (simp add: canRetryReconciliation_def)
  show "reconciliation_delay 1 = 0" by (simp add: reconciliation_delay_def)
  show "reconciliation_delay (length nows) \<le> reconciliation_delay (Suc (length nows))"
    using nows by (intro reconciliation_delay_mono) auto
  show "reconciliation_delay (length nows) \<le> 60000" by (rule reconciliation_delay_le)
  have "sound ?rt"
    using run_sound [OF assms(1), of "List.map (OpReconciliationFailed d s) nows"] assms(2)
    by (simp add: list_all_iff foldl_map)
  then show "\<not> needsReconciliation (markReconciled ?rt d s) d s"
    using assms(2) by (auto simp: needsReconciliation_def markReconciled_def Let_def get_store)
qed

end
