(* ===== verification/MetricsDemand.thy ===== *)
theory MetricsDemand
  imports RefreshRuntime "HOL-Library.List_Lexorder" "HOL-Library.Char_ord"
begin

text \<open>
  \<open>frontend/src/core/refresh/metricsDemandState.ts\<close> and its driver in
  \<open>frontend/src/core/refresh/orchestrator.ts\<close> (\<open>metricsDemandClusterIds\<close>,
  \<open>updateMetricsDemand\<close>, \<open>clearMetricsDemandRetry\<close>): the backend is told for which clusters
  metrics are wanted, one request at a time, with a doubling retry delay. The requests in flight
  and the armed timers are part of the state; a settling promise or a firing timer is a step.
  The list of metric domains comes from a generated contract and is a parameter.
\<close>

section \<open>The state machine\<close>

datatype demand_state =
    MdIdle (appliedKey: string) (retryDelayMs: nat)
  | MdRequesting (appliedKey: string) string (retryDelayMs: nat)
  | MdWaiting (appliedKey: string) string nat (retryDelayMs: nat)

text \<open>\<open>MdRequesting appliedKey requestKey retryDelayMs\<close>,
  \<open>MdWaiting appliedKey retryKey retryTimer retryDelayMs\<close>\<close>

datatype demand_event =
    MeRequestStarted string
  | MeRequestSucceeded string "nat option"
  | MeRequestAbandoned string "nat option"
  | MeRetryScheduled string nat nat
  | MeRetryFired string
  | MeRetryCancelled

definition initialMetricsDemandState :: "nat \<Rightarrow> demand_state" where
  "initialMetricsDemandState initialDelayMs = MdIdle [] initialDelayMs"

definition initial_delay :: "nat option \<Rightarrow> nat" where
  "initial_delay d = (case d of Some n \<Rightarrow> n | None \<Rightarrow> 1000)"

fun transitionMetricsDemandState :: "demand_state \<Rightarrow> demand_event \<Rightarrow> demand_state" where
  "transitionMetricsDemandState s (MeRequestStarted key) =
     (case s of MdIdle a d \<Rightarrow> MdRequesting a key d | _ \<Rightarrow> s)"
| "transitionMetricsDemandState s (MeRequestSucceeded key delay) =
     (case s of MdRequesting a k d \<Rightarrow> if k \<noteq> key then s else MdIdle key (initial_delay delay) | _ \<Rightarrow> s)"
| "transitionMetricsDemandState s (MeRequestAbandoned key delay) =
     (case s of MdRequesting a k d \<Rightarrow> if k \<noteq> key then s else MdIdle a (initial_delay delay) | _ \<Rightarrow> s)"
| "transitionMetricsDemandState s (MeRetryScheduled key timer maxDelay) =
     (case s of MdRequesting a k d \<Rightarrow> if k \<noteq> key then s else MdWaiting a key timer (min (d * 2) maxDelay)
      | _ \<Rightarrow> s)"
| "transitionMetricsDemandState s (MeRetryFired key) =
     (case s of MdWaiting a k t d \<Rightarrow> if k \<noteq> key then s else MdIdle a d | _ \<Rightarrow> s)"
| "transitionMetricsDemandState s MeRetryCancelled =
     (case s of MdWaiting a k t d \<Rightarrow> MdIdle a d | _ \<Rightarrow> s)"

section \<open>The driver\<close>

definition METRICS_DEMAND_RETRY_INITIAL_MS :: nat where
  "METRICS_DEMAND_RETRY_INITIAL_MS = 1000"

definition METRICS_DEMAND_RETRY_MAX_MS :: nat where
  "METRICS_DEMAND_RETRY_MAX_MS = 30000"

text \<open>\<open>dr_requests\<close>: the keys of the requests whose promise has not settled;
  \<open>dr_timers\<close>: the armed timers with the key their callback closes over and their delay;
  \<open>dr_sent\<close>: the arguments of the calls of \<open>setMetricsActive\<close>, latest first.\<close>

record demand_driver =
  dr_runtimes :: "(string, cluster_runtime) jmap"
  dr_state :: demand_state
  dr_requests :: "string list"
  dr_timers :: "(nat, string \<times> nat) jmap"
  dr_nextTimer :: nat
  dr_sent :: "string list list"

definition initialDriver :: demand_driver where
  "initialDriver =
     \<lparr>dr_runtimes = [], dr_state = initialMetricsDemandState METRICS_DEMAND_RETRY_INITIAL_MS,
      dr_requests = [], dr_timers = [], dr_nextTimer = 0, dr_sent = []\<rparr>"

text \<open>\<open>compareUtf16Strings\<close> orders by code units, as the lexicographic order of strings does.\<close>

definition metricsDemandClusterIds :: "string list \<Rightarrow> (string, cluster_runtime) jmap \<Rightarrow> string list" where
  "metricsDemandClusterIds domains runtimes =
     sort (List.map fst
       (List.filter (\<lambda>(clusterId, rt). list_ex (hasEnabledScopedSources rt) domains) runtimes))"

definition demandKey :: "string list \<Rightarrow> (string, cluster_runtime) jmap \<Rightarrow> string" where
  "demandKey domains runtimes = js_join (CHR 0x00) (metricsDemandClusterIds domains runtimes)"

definition clearMetricsDemandRetry :: "demand_driver \<Rightarrow> demand_driver" where
  "clearMetricsDemandRetry d =
     (case dr_state d of
        MdWaiting _ _ timer _ \<Rightarrow>
          d\<lparr>dr_timers := jm_delete timer (dr_timers d),
            dr_state := transitionMetricsDemandState (dr_state d) MeRetryCancelled\<rparr>
      | _ \<Rightarrow> d)"

definition sendMetricsDemand :: "string list \<Rightarrow> demand_driver \<Rightarrow> demand_driver" where
  "sendMetricsDemand domains d =
     (let ids = metricsDemandClusterIds domains (dr_runtimes d);
          key = demandKey domains (dr_runtimes d)
      in d\<lparr>dr_state := transitionMetricsDemandState (dr_state d) (MeRequestStarted key),
           dr_requests := dr_requests d @ [key], dr_sent := ids # dr_sent d\<rparr>)"

definition updateMetricsDemand :: "string list \<Rightarrow> demand_driver \<Rightarrow> demand_driver" where
  "updateMetricsDemand domains d =
     (let key = demandKey domains (dr_runtimes d) in
      if key = appliedKey (dr_state d) then clearMetricsDemandRetry d
      else case dr_state d of
             MdRequesting _ _ _ \<Rightarrow> d
           | MdWaiting _ retryKey _ _ \<Rightarrow>
               if retryKey = key then d else sendMetricsDemand domains (clearMetricsDemandRetry d)
           | MdIdle _ _ \<Rightarrow> sendMetricsDemand domains d)"

text \<open>The continuations of the promise of \<open>setMetricsActive\<close> and the callback of the timer\<close>

definition requestSucceeded :: "string list \<Rightarrow> string \<Rightarrow> demand_driver \<Rightarrow> demand_driver" where
  "requestSucceeded domains key d =
     updateMetricsDemand domains
       (d\<lparr>dr_state := transitionMetricsDemandState (dr_state d)
            (MeRequestSucceeded key (Some METRICS_DEMAND_RETRY_INITIAL_MS))\<rparr>)"

definition requestFailed :: "string list \<Rightarrow> string \<Rightarrow> demand_driver \<Rightarrow> demand_driver" where
  "requestFailed domains key d =
     (if demandKey domains (dr_runtimes d) \<noteq> key
      then updateMetricsDemand domains
             (d\<lparr>dr_state := transitionMetricsDemandState (dr_state d)
                  (MeRequestAbandoned key (Some METRICS_DEMAND_RETRY_INITIAL_MS))\<rparr>)
      else let timer = dr_nextTimer d in
           d\<lparr>dr_timers := jm_set timer (key, retryDelayMs (dr_state d)) (dr_timers d),
             dr_nextTimer := timer + 1,
             dr_state := transitionMetricsDemandState (dr_state d)
               (MeRetryScheduled key timer METRICS_DEMAND_RETRY_MAX_MS)\<rparr>)"

definition retryFired :: "string list \<Rightarrow> string \<Rightarrow> demand_driver \<Rightarrow> demand_driver" where
  "retryFired domains key d =
     updateMetricsDemand domains
       (d\<lparr>dr_state := transitionMetricsDemandState (dr_state d) (MeRetryFired key)\<rparr>)"

text \<open>The steps: the activations of the runtimes change and the demand is updated (the methods of
  the orchestrator that enable, disable, supersede or prune scopes call \<open>updateMetricsDemand\<close>
  last), the oldest request settles, a timer fires.\<close>

datatype demand_step =
    DsRuntimes "(string, cluster_runtime) jmap"
  | DsSucceeded
  | DsFailed
  | DsTimer nat

fun driver_step :: "string list \<Rightarrow> demand_driver \<Rightarrow> demand_step \<Rightarrow> demand_driver" where
  "driver_step domains d (DsRuntimes rts) = updateMetricsDemand domains (d\<lparr>dr_runtimes := rts\<rparr>)"
| "driver_step domains d DsSucceeded =
     (case dr_requests d of [] \<Rightarrow> d
      | key # rest \<Rightarrow> requestSucceeded domains key (d\<lparr>dr_requests := rest\<rparr>))"
| "driver_step domains d DsFailed =
     (case dr_requests d of [] \<Rightarrow> d
      | key # rest \<Rightarrow> requestFailed domains key (d\<lparr>dr_requests := rest\<rparr>))"
| "driver_step domains d (DsTimer t) =
     (case jm_get (dr_timers d) t of None \<Rightarrow> d
      | Some (key, delay) \<Rightarrow>
          retryFired domains key (d\<lparr>dr_timers := jm_delete t (dr_timers d)\<rparr>))"

section \<open>The invariant\<close>

definition driver_inv :: "string list \<Rightarrow> demand_driver \<Rightarrow> bool" where
  "driver_inv domains d \<longleftrightarrow>
     METRICS_DEMAND_RETRY_INITIAL_MS \<le> retryDelayMs (dr_state d) \<and>
     retryDelayMs (dr_state d) \<le> METRICS_DEMAND_RETRY_MAX_MS \<and>
     (case dr_state d of
        MdIdle a _ \<Rightarrow>
          dr_requests d = [] \<and> dr_timers d = [] \<and> a = demandKey domains (dr_runtimes d)
      | MdRequesting a key _ \<Rightarrow> dr_requests d = [key] \<and> dr_timers d = [] \<and> a \<noteq> key
      | MdWaiting a key t _ \<Rightarrow>
          dr_requests d = [] \<and> (\<exists>delay. dr_timers d = [(t, key, delay)] \<and>
            METRICS_DEMAND_RETRY_INITIAL_MS \<le> delay \<and> delay \<le> METRICS_DEMAND_RETRY_MAX_MS) \<and>
          key = demandKey domains (dr_runtimes d) \<and> a \<noteq> key)"

lemmas driver_defs = driver_inv_def updateMetricsDemand_def clearMetricsDemandRetry_def
  sendMetricsDemand_def requestSucceeded_def requestFailed_def retryFired_def Let_def
  initial_delay_def METRICS_DEMAND_RETRY_INITIAL_MS_def METRICS_DEMAND_RETRY_MAX_MS_def

lemma initial_driver_inv: "driver_inv domains initialDriver"
  by (simp add: driver_defs initialDriver_def initialMetricsDemandState_def demandKey_def
      metricsDemandClusterIds_def)

text \<open>\<open>updateMetricsDemand\<close> establishes the invariant from any state in which requests and
  timers agree with the machine, whatever the demand has become.\<close>

definition consistent :: "demand_driver \<Rightarrow> bool" where
  "consistent d \<longleftrightarrow>
     METRICS_DEMAND_RETRY_INITIAL_MS \<le> retryDelayMs (dr_state d) \<and>
     retryDelayMs (dr_state d) \<le> METRICS_DEMAND_RETRY_MAX_MS \<and>
     (case dr_state d of
        MdIdle a _ \<Rightarrow> dr_requests d = [] \<and> dr_timers d = []
      | MdRequesting a key _ \<Rightarrow> dr_requests d = [key] \<and> dr_timers d = [] \<and> a \<noteq> key
      | MdWaiting a key t _ \<Rightarrow> dr_requests d = [] \<and> (\<exists>delay. dr_timers d = [(t, key, delay)] \<and>
            METRICS_DEMAND_RETRY_INITIAL_MS \<le> delay \<and> delay \<le> METRICS_DEMAND_RETRY_MAX_MS))"

lemma update_inv: "consistent d \<Longrightarrow> driver_inv domains (updateMetricsDemand domains d)"
  by (cases "dr_state d") (auto simp: consistent_def driver_defs)

lemma inv_consistent: "driver_inv domains d \<Longrightarrow> consistent d"
  by (cases "dr_state d") (auto simp: consistent_def driver_inv_def)

lemma driver_step_inv: "driver_inv domains d \<Longrightarrow> driver_inv domains (driver_step domains d e)"
proof (cases e)
  case (DsRuntimes rts)
  assume "driver_inv domains d"
  then have "consistent (d\<lparr>dr_runtimes := rts\<rparr>)"
    using inv_consistent [of domains d] by (simp add: consistent_def split: demand_state.splits)
  with DsRuntimes show ?thesis by (simp add: update_inv)
next
  case DsSucceeded
  assume i: "driver_inv domains d"
  show ?thesis
  proof (cases "dr_state d")
    case (MdRequesting a key dl)
    with i have "dr_requests d = [key]" by (simp add: driver_inv_def)
    with i MdRequesting DsSucceeded show ?thesis
      by (auto simp: driver_defs)
  qed (use i DsSucceeded in \<open>auto simp: driver_inv_def\<close>)
next
  case DsFailed
  assume i: "driver_inv domains d"
  show ?thesis
  proof (cases "dr_state d")
    case (MdRequesting a key dl)
    with i have r: "dr_requests d = [key]" by (simp add: driver_inv_def)
    show ?thesis
    proof (cases "demandKey domains (dr_runtimes d) = key")
      case True
      with r i MdRequesting DsFailed show ?thesis by (simp add: driver_defs)
    next
      case False
      with r i MdRequesting DsFailed show ?thesis
        by (auto simp: driver_defs)
    qed
  qed (use i DsFailed in \<open>auto simp: driver_inv_def\<close>)
next
  case (DsTimer t)
  assume i: "driver_inv domains d"
  show ?thesis
  proof (cases "dr_state d")
    case (MdWaiting a key t' dl)
    with i DsTimer show ?thesis
      by (auto simp: driver_defs AList.delete_eq)
  qed (use i DsTimer in \<open>auto simp: driver_inv_def\<close>)
qed

interpretation metrics: event_machine "driver_step domains" "driver_inv domains" for domains
  by unfold_locales (rule driver_step_inv)

section \<open>Properties\<close>

text \<open>The key the backend acknowledged last, from the answers it gave: that of the last request that
  succeeded, and at first that of no cluster at all\<close>

fun acknowledge :: "demand_driver \<Rightarrow> demand_step \<Rightarrow> string \<Rightarrow> string" where
  "acknowledge d DsSucceeded acked = (case dr_requests d of [] \<Rightarrow> acked | key # _ \<Rightarrow> key)"
| "acknowledge d _ acked = acked"

fun demand_run :: "string list \<Rightarrow> demand_driver \<times> string \<Rightarrow> demand_step list \<Rightarrow> demand_driver \<times> string" where
  "demand_run domains (d, acked) [] = (d, acked)"
| "demand_run domains (d, acked) (e # es) = demand_run domains (driver_step domains d e, acknowledge d e acked) es"

text \<open>The demand the machine works for, or has established\<close>

fun targetKey :: "demand_state \<Rightarrow> string" where
  "targetKey (MdIdle a _) = a"
| "targetKey (MdRequesting _ key _) = key"
| "targetKey (MdWaiting _ key _ _) = key"

definition sent_is :: "demand_driver \<Rightarrow> string \<Rightarrow> bool" where
  "sent_is d key \<longleftrightarrow> dr_sent d \<noteq> [] \<and> js_join (CHR 0x00) (hd (dr_sent d)) = key"

definition acked_inv :: "string list \<Rightarrow> demand_driver \<Rightarrow> string \<Rightarrow> bool" where
  "acked_inv domains d acked \<longleftrightarrow> driver_inv domains d \<and> appliedKey (dr_state d) = acked \<and>
     (\<forall>a key dl. dr_state d = MdRequesting a key dl \<longrightarrow> sent_is d key)"

lemma update_applied: "appliedKey (dr_state (updateMetricsDemand domains d)) = appliedKey (dr_state d)"
  by (cases "dr_state d") (auto simp: driver_defs)

lemma update_sent:
  assumes "dr_state (updateMetricsDemand domains d) = MdRequesting a key dl" and "\<And>a k dl. dr_state d \<noteq> MdRequesting a k dl"
  shows "sent_is (updateMetricsDemand domains d) key"
  using assms by (cases "dr_state d") (auto simp: driver_defs sent_is_def demandKey_def split: if_splits)

lemma acked_step:
  assumes "acked_inv domains d acked"
  shows "acked_inv domains (driver_step domains d e) (acknowledge d e acked)"
proof -
  have i: "driver_inv domains d" and a: "appliedKey (dr_state d) = acked"
    and s: "\<And>a key dl. dr_state d = MdRequesting a key dl \<Longrightarrow> sent_is d key"
    using assms by (simp_all add: acked_inv_def)
  have inv: "driver_inv domains (driver_step domains d e)" by (rule driver_step_inv [OF i])
  have "appliedKey (dr_state (driver_step domains d e)) = acknowledge d e acked
    \<and> (\<forall>a key dl. dr_state (driver_step domains d e) = MdRequesting a key dl \<longrightarrow>
        sent_is (driver_step domains d e) key)"
  proof (cases "dr_state d")
    case (MdIdle a' dl)
    with i have q: "dr_requests d = []" "dr_timers d = []" by (simp_all add: driver_inv_def)
    show ?thesis
      using a MdIdle q by (cases e) (auto simp: update_applied intro: update_sent)
  next
    case (MdRequesting a' key dl)
    with i have q: "dr_requests d = [key]" "dr_timers d = []" by (simp_all add: driver_inv_def)
    from s [OF MdRequesting] have sent: "sent_is d key" .
    show ?thesis
    proof (cases e)
      case (DsRuntimes rts)
      with a MdRequesting sent show ?thesis by (auto simp: driver_defs sent_is_def split: if_splits)
    next
      case DsSucceeded
      with q MdRequesting show ?thesis
        by (auto simp: requestSucceeded_def update_applied intro: update_sent)
    next
      case DsFailed
      with q a MdRequesting show ?thesis
        by (auto simp: requestFailed_def Let_def update_applied intro: update_sent)
    next
      case (DsTimer t)
      with q a MdRequesting sent show ?thesis by simp
    qed
  next
    case (MdWaiting a' key t dl)
    with i obtain delay where q: "dr_requests d = []" "dr_timers d = [(t, key, delay)]" by (auto simp: driver_inv_def)
    show ?thesis
      using a MdWaiting q
      by (cases e) (auto simp: retryFired_def update_applied intro: update_sent)
  qed
  with inv show ?thesis by (simp add: acked_inv_def)
qed

lemma acked_run: "acked_inv domains d acked \<Longrightarrow> demand_run domains (d, acked) es = (d', acked') \<Longrightarrow> acked_inv domains d' acked'"
  by (induction es arbitrary: d acked) (auto dest: acked_step)

lemma settled_target:
  assumes "driver_inv domains d" and "dr_state d = MdRequesting a key dl" and "e = DsSucceeded \<or> e = DsFailed"
  shows "targetKey (dr_state (driver_step domains d e)) = demandKey domains (dr_runtimes d)"
  using assms by (auto simp: driver_defs)

text \<open>
  C10. No metrics demand is lost and none is duplicated, whatever the sequence of demand changes,
  answers and fired timers. If the machine is idle, what the backend acknowledged last is what is
  demanded now. If it is requesting, exactly one request is in flight, with the clusters it was last
  sent, and they are not those acknowledged; as soon as it settles, either way, the machine has
  established, requests, or waits to retry what is then demanded. If it is waiting, no request is in
  flight and exactly one retry timer is armed, for what is demanded now and is not acknowledged,
  with a delay between one and thirty seconds.
\<close>

theorem metrics_demand_not_lost:
  "case demand_run domains (initialDriver, []) es of (d, acked) \<Rightarrow>
   case dr_state d of
     MdIdle _ _ \<Rightarrow> acked = demandKey domains (dr_runtimes d) \<and> dr_requests d = [] \<and> dr_timers d = []
   | MdRequesting _ key _ \<Rightarrow> dr_requests d = [key] \<and> dr_timers d = [] \<and> acked \<noteq> key \<and>
       js_join (CHR 0x00) (hd (dr_sent d)) = key \<and>
       targetKey (dr_state (driver_step domains d DsSucceeded)) = demandKey domains (dr_runtimes d) \<and>
       targetKey (dr_state (driver_step domains d DsFailed)) = demandKey domains (dr_runtimes d)
   | MdWaiting _ key t _ \<Rightarrow> key = demandKey domains (dr_runtimes d) \<and> acked \<noteq> key \<and> dr_requests d = [] \<and>
       (\<exists>delay. dr_timers d = [(t, key, delay)] \<and> 1000 \<le> delay \<and> delay \<le> 30000)"
proof -
  obtain d acked where r: "demand_run domains (initialDriver, []) es = (d, acked)" by fastforce
  have "acked_inv domains initialDriver []"
    by (simp add: acked_inv_def initial_driver_inv) (simp add: initialDriver_def initialMetricsDemandState_def)
  from acked_run [OF this r] have i: "acked_inv domains d acked" .
  then have inv: "driver_inv domains d" by (simp add: acked_inv_def)
  show ?thesis
    using i settled_target [OF inv]
    by (cases "dr_state d") (auto simp: r acked_inv_def sent_is_def driver_inv_def METRICS_DEMAND_RETRY_INITIAL_MS_def
      METRICS_DEMAND_RETRY_MAX_MS_def simp del: driver_step.simps)
qed

text \<open>The steps the host takes when nothing but the pending work happens: the armed timer fires
  and requests succeed.\<close>

definition pending_step :: "demand_driver \<Rightarrow> demand_step" where
  "pending_step d = (case dr_timers d of [] \<Rightarrow> DsSucceeded | (t, _) # _ \<Rightarrow> DsTimer t)"

fun settle_steps :: "nat \<Rightarrow> string list \<Rightarrow> demand_driver \<Rightarrow> demand_driver" where
  "settle_steps 0 domains d = d"
| "settle_steps (Suc n) domains d = settle_steps n domains (driver_step domains d (pending_step d))"

lemma idle_settled:
  "driver_inv domains d \<Longrightarrow> dr_state d = MdIdle a dl \<Longrightarrow> driver_step domains d (pending_step d) = d"
  by (simp add: driver_inv_def pending_step_def)

lemma requesting_settles:
  assumes "driver_inv domains d" "dr_state d = MdRequesting a key dl"
  shows "\<exists>dl'. dr_state (driver_step domains d (pending_step d)) =
    (if key = demandKey domains (dr_runtimes d) then MdIdle key dl'
     else MdRequesting key (demandKey domains (dr_runtimes d)) dl')"
    and "dr_runtimes (driver_step domains d (pending_step d)) = dr_runtimes d"
  using assms by (auto simp: driver_defs pending_step_def)

lemma waiting_settles:
  assumes "driver_inv domains d" "dr_state d = MdWaiting a key t dl"
  shows "\<exists>dl'. dr_state (driver_step domains d (pending_step d))
           = MdRequesting a (demandKey domains (dr_runtimes d)) dl'"
    and "dr_runtimes (driver_step domains d (pending_step d)) = dr_runtimes d"
  using assms by (auto simp: driver_defs pending_step_def AList.delete_eq)

lemma requesting_current_settles:
  assumes "driver_inv domains d" "dr_state d = MdRequesting a (demandKey domains (dr_runtimes d)) dl"
  shows "\<exists>dl'. dr_state (driver_step domains d (pending_step d))
           = MdIdle (demandKey domains (dr_runtimes d)) dl'"
  using requesting_settles [OF assms] by auto

text \<open>
  The demand reaches the backend. From every reachable state, if the demand no longer
  changes, letting the armed timer fire and the requests succeed brings the machine within two
  such steps to the idle state in which the acknowledged key is the demanded one, and it stays
  there.
\<close>

theorem metrics_demand_converges:
  "let d = foldl (driver_step domains) initialDriver es in
   \<exists>dl. dr_state (settle_steps 2 domains d) = MdIdle (demandKey domains (dr_runtimes d)) dl \<and>
        settle_steps 3 domains d = settle_steps 2 domains d"
proof -
  let ?d = "foldl (driver_step domains) initialDriver es"
  let ?s = "\<lambda>d. driver_step domains d (pending_step d)"
  have inv: "driver_inv domains ?d" by (rule metrics.run_inv [OF initial_driver_inv])
  have inv1: "driver_inv domains (?s ?d)" by (rule driver_step_inv [OF inv])
  have inv2: "driver_inv domains (?s (?s ?d))" by (rule driver_step_inv [OF inv1])
  have "\<exists>dl. dr_state (?s (?s ?d)) = MdIdle (demandKey domains (dr_runtimes ?d)) dl"
  proof (cases "dr_state ?d")
    case (MdIdle a dl)
    then show ?thesis using idle_settled [OF inv MdIdle] inv by (simp add: driver_inv_def)
  next
    case (MdRequesting a key dl)
    note r = requesting_settles [OF inv MdRequesting]
    show ?thesis
    proof (cases "key = demandKey domains (dr_runtimes ?d)")
      case True
      with r obtain dl' where i: "dr_state (?s ?d) = MdIdle key dl'" by auto
      with idle_settled [OF inv1 i] True show ?thesis by simp
    next
      case False
      with r obtain dl' where
        "dr_state (?s ?d) = MdRequesting key (demandKey domains (dr_runtimes (?s ?d))) dl'" by auto
      from requesting_current_settles [OF inv1 this] r(2) show ?thesis by simp
    qed
  next
    case (MdWaiting a key t dl)
    note w = waiting_settles [OF inv MdWaiting]
    then obtain dl' where
      "dr_state (?s ?d) = MdRequesting a (demandKey domains (dr_runtimes (?s ?d))) dl'" by auto
    from requesting_current_settles [OF inv1 this] w(2) show ?thesis by simp
  qed
  then obtain dl where i: "dr_state (?s (?s ?d)) = MdIdle (demandKey domains (dr_runtimes ?d)) dl" ..
  have "?s (?s (?s ?d)) = ?s (?s ?d)" by (rule idle_settled [OF inv2 i])
  with i show ?thesis by (simp add: Let_def numeral_2_eq_2 numeral_3_eq_3)
qed

end
