(* ===== verification/StreamProtocol.thy ===== *)
theory StreamProtocol
  imports ScopedStates
begin

text \<open>
  \<open>frontend/src/core/refresh/streaming/resourceStreamProtocol.ts\<close>, from
  \<open>ResourceStreamProtocolPhase\<close> on: the protocol of one stream subscription as a transition
  function that returns the next state and a list of effects, and the health it reports. Times,
  timers and sequence numbers are natural numbers; an optional property is an option, and a
  property that is spread only when it is truthy goes through \<open>nonempty\<close>.
\<close>

section \<open>Messages\<close>

datatype source_clock = ClockObject | ClockMetric | ClockEvent | ClockCatalog | ClockAttention

type_synonym source_versions = "(source_clock, string) jmap"

record changed_message =
  cm_source :: "source_clock option"
  cm_version :: "string option"
  cm_sequence :: "nat option"
  cm_resourceVersion :: "nat option"

datatype reset_reason = ReasonReset | ReasonComplete

fun reset_reason_text :: "reset_reason \<Rightarrow> string" where
  "reset_reason_text ReasonReset = ''reset''"
| "reset_reason_text ReasonComplete = ''complete''"

text \<open>\<open>MsgReset reason source version\<close> and \<open>MsgError reason permissionDenied\<close>\<close>

datatype stream_message =
    MsgAcknowledged
  | MsgHeartbeat
  | MsgChanged changed_message
  | MsgReset reset_reason "source_clock option" "string option"
  | MsgError string bool

section \<open>State\<close>

record confirmed_health =
  ch_epoch :: nat
  ch_delivered :: bool

text \<open>\<open>Connecting errorReason\<close>, \<open>AwaitingAck expectsReset errorReason preservedHealth\<close>,
  \<open>Synchronized epoch delivered expectsReset\<close>, \<open>Resyncing reason errorReason preservedHealth\<close>,
  \<open>PermissionBlocked reason at\<close>\<close>

datatype phase =
    Connecting "string option"
  | AwaitingAck bool "string option" "confirmed_health option"
  | Synchronized nat bool bool
  | Resyncing string "string option" "confirmed_health option"
  | PermissionBlocked string nat
  | Stopping

record pending_changes =
  pc_count :: nat
  pc_sourceVersions :: source_versions
  pc_latest :: "string option"

datatype coalescing =
    CoIdle
  | CoWaiting pending_changes
  | CoScheduled nat pending_changes

record protocol_state =
  pr_phase :: phase
  pr_lastSequence :: "nat option"
  pr_resourceVersion :: "nat option"
  pr_lastMessageAt :: "nat option"
  pr_lastDeliveryAt :: "nat option"
  pr_coalescing :: coalescing
  pr_lastResyncAt :: nat

text \<open>\<open>EfRequestResync reason force errorReason\<close>\<close>

datatype protocol_effect =
    EfScheduleFlush
  | EfCancelFlush nat
  | EfAdvanceSource source_versions "string option"
  | EfAdvanceLegacyReset
  | EfRequestResync string bool "string option"
  | EfPermissionDenied string
  | EfMarkResyncing string
  | EfMarkResyncComplete
  | EfSendSubscribe

record message_event =
  me_message :: stream_message
  me_now :: nat
  me_connectionEpoch :: nat
  me_hasRetainedData :: bool
  me_completeResync :: bool
  me_maxPendingChanges :: nat

record resync_event =
  re_reason :: string
  re_now :: nat
  re_force :: bool
  re_cooldownMs :: nat
  re_errorReason :: "string option"

datatype protocol_event =
    PeSubscribeSent bool
  | PeConnectionOpened nat
  | PeConnectionLost string
  | PeMessageReceived message_event
  | PeFlushTimerAttached nat
  | PeFlushFired nat
  | PeResyncRequested resync_event
  | PeResyncCompleted
  | PeStopping

type_synonym protocol_transition = "protocol_state \<times> protocol_effect list"

definition initialResourceStreamProtocolState :: protocol_state where
  "initialResourceStreamProtocolState =
     \<lparr>pr_phase = Connecting None, pr_lastSequence = None, pr_resourceVersion = None,
      pr_lastMessageAt = None, pr_lastDeliveryAt = None, pr_coalescing = CoIdle,
      pr_lastResyncAt = 0\<rparr>"

section \<open>Helpers\<close>

text \<open>A string that is spread only when it is truthy\<close>

fun nonempty :: "string option \<Rightarrow> string option" where
  "nonempty (Some (c # cs)) = Some (c # cs)"
| "nonempty _ = None"

fun phaseError :: "phase \<Rightarrow> string option" where
  "phaseError (Connecting e) = e"
| "phaseError (AwaitingAck _ e _) = e"
| "phaseError (Resyncing _ e _) = e"
| "phaseError _ = None"

fun confirmedHealth :: "phase \<Rightarrow> confirmed_health option" where
  "confirmedHealth (Synchronized e d _) = Some \<lparr>ch_epoch = e, ch_delivered = d\<rparr>"
| "confirmedHealth (Resyncing _ _ h) = h"
| "confirmedHealth (AwaitingAck _ _ h) = h"
| "confirmedHealth _ = None"

definition preservesConfirmedHealth :: "string \<Rightarrow> bool" where
  "preservesConfirmedHealth reason \<longleftrightarrow> reason = ''initial'' \<or> reason = ''manual refresh''"

fun expectsReset :: "phase \<Rightarrow> bool" where
  "expectsReset (AwaitingAck r _ _) = r"
| "expectsReset (Synchronized _ _ r) = r"
| "expectsReset _ = False"

text \<open>\<open>confirmedHealth(phase)?.delivered ?? false\<close>\<close>

definition deliveredBefore :: "phase \<Rightarrow> bool" where
  "deliveredBefore p = (case confirmedHealth p of Some h \<Rightarrow> ch_delivered h | None \<Rightarrow> False)"

definition synchronizedPhase :: "phase \<Rightarrow> nat \<Rightarrow> bool \<Rightarrow> phase" where
  "synchronizedPhase p epoch delivered = Synchronized epoch delivered (expectsReset p)"

definition sourceEffect :: "source_clock option \<Rightarrow> string option \<Rightarrow> protocol_effect option" where
  "sourceEffect source version =
     (case (source, nonempty version) of
        (Some s, Some v) \<Rightarrow> Some (EfAdvanceSource [(s, v)] (Some v))
      | _ \<Rightarrow> None)"

fun pendingChanges :: "coalescing \<Rightarrow> pending_changes" where
  "pendingChanges CoIdle = \<lparr>pc_count = 0, pc_sourceVersions = [], pc_latest = None\<rparr>"
| "pendingChanges (CoWaiting p) = p\<lparr>pc_latest := nonempty (pc_latest p)\<rparr>"
| "pendingChanges (CoScheduled _ p) = p\<lparr>pc_latest := nonempty (pc_latest p)\<rparr>"

definition appendChange :: "coalescing \<Rightarrow> changed_message \<Rightarrow> pending_changes" where
  "appendChange co m =
     (let pending = pendingChanges co;
          sourceVersions =
            (case (cm_source m, nonempty (cm_version m)) of
               (Some s, Some v) \<Rightarrow> jm_set s v (pc_sourceVersions pending)
             | _ \<Rightarrow> pc_sourceVersions pending)
      in \<lparr>pc_count = pc_count pending + 1,
          pc_sourceVersions = sourceVersions,
          pc_latest = (case nonempty (cm_version m) of
                         Some v \<Rightarrow> Some v
                       | None \<Rightarrow> nonempty (pc_latest pending))\<rparr>)"

fun cancelFlushEffect :: "coalescing \<Rightarrow> protocol_effect list" where
  "cancelFlushEffect (CoScheduled t _) = [EfCancelFlush t]"
| "cancelFlushEffect _ = []"

definition advancePendingEffect :: "coalescing \<Rightarrow> bool \<Rightarrow> protocol_effect list" where
  "advancePendingEffect co includeEmpty =
     (if \<not> includeEmpty \<and> (co = CoIdle \<or> pc_count (pendingChanges co) = 0) then []
      else let p = pendingChanges co
           in [EfAdvanceSource (pc_sourceVersions p) (nonempty (pc_latest p))])"

fun with_pending :: "coalescing \<Rightarrow> pending_changes \<Rightarrow> coalescing" where
  "with_pending CoIdle p = CoWaiting p"
| "with_pending (CoWaiting q) p =
     CoWaiting (p\<lparr>pc_latest := (case pc_latest p of Some v \<Rightarrow> Some v | None \<Rightarrow> pc_latest q)\<rparr>)"
| "with_pending (CoScheduled t q) p =
     CoScheduled t (p\<lparr>pc_latest := (case pc_latest p of Some v \<Rightarrow> Some v | None \<Rightarrow> pc_latest q)\<rparr>)"

section \<open>Transitions\<close>

fun ignoresChanges :: "phase \<Rightarrow> bool" where
  "ignoresChanges (Resyncing _ _ _) = True"
| "ignoresChanges (PermissionBlocked _ _) = True"
| "ignoresChanges Stopping = True"
| "ignoresChanges _ = False"

definition receiveChanged ::
  "protocol_state \<Rightarrow> message_event \<Rightarrow> changed_message \<Rightarrow> protocol_transition" where
  "receiveChanged s e m =
     (if ignoresChanges (pr_phase s) then (s\<lparr>pr_lastMessageAt := Some (me_now e)\<rparr>, [])
      else if (case (cm_sequence m, pr_lastSequence s) of
                 (Some q, Some l) \<Rightarrow> q \<le> l | _ \<Rightarrow> False)
      then (s\<lparr>pr_lastMessageAt := Some (me_now e)\<rparr>, [])
      else
        let lastSequence = (case cm_sequence m of Some q \<Rightarrow> Some q | None \<Rightarrow> pr_lastSequence s);
            resourceVersion =
              (case cm_resourceVersion m of
                 Some v \<Rightarrow> (case pr_resourceVersion s of
                              None \<Rightarrow> Some v
                            | Some w \<Rightarrow> if v > w then Some v else Some w)
               | None \<Rightarrow> pr_resourceVersion s);
            nextBase = s\<lparr>pr_phase := synchronizedPhase (pr_phase s) (me_connectionEpoch e) True,
                         pr_lastSequence := lastSequence,
                         pr_resourceVersion := resourceVersion,
                         pr_lastMessageAt := Some (me_now e),
                         pr_lastDeliveryAt := Some (me_now e)\<rparr>;
            pending = appendChange (pr_coalescing s) m
        in if me_completeResync e
           then (nextBase, [EfRequestResync ''complete-only update'' False None])
           else if pc_count pending > me_maxPendingChanges e
           then (nextBase\<lparr>pr_coalescing := CoIdle\<rparr>,
                 cancelFlushEffect (pr_coalescing s) @
                   [EfRequestResync ''update backlog overflow'' True None])
           else if pr_coalescing s = CoIdle
           then (nextBase\<lparr>pr_coalescing := CoWaiting pending\<rparr>, [EfScheduleFlush])
           else (nextBase\<lparr>pr_coalescing := with_pending (pr_coalescing s) pending\<rparr>, []))"

definition receiveReset ::
  "protocol_state \<Rightarrow> message_event \<Rightarrow> reset_reason \<Rightarrow> source_clock option \<Rightarrow> string option \<Rightarrow>
   protocol_transition" where
  "receiveReset s e reason source version =
     (let effects = (case sourceEffect source version of
                       Some f \<Rightarrow> [f] | None \<Rightarrow> [EfAdvanceLegacyReset]);
          initialReset = (reason = ReasonReset \<and> expectsReset (pr_phase s));
          next = s\<lparr>pr_phase := (if initialReset
                     then Synchronized (me_connectionEpoch e) (deliveredBefore (pr_phase s)) False
                     else pr_phase s),
                   pr_lastMessageAt := Some (me_now e)\<rparr>
      in if initialReset then (next, if me_hasRetainedData e then effects else [])
         else (next, effects @ [EfRequestResync (reset_reason_text reason) False None]))"

definition receiveMessage :: "protocol_state \<Rightarrow> message_event \<Rightarrow> protocol_transition" where
  "receiveMessage s e =
     (let withActivity = s\<lparr>pr_lastMessageAt := Some (me_now e)\<rparr> in
      case pr_phase s of
        Stopping \<Rightarrow> (s, [])
      | PermissionBlocked _ _ \<Rightarrow> (withActivity, [])
      | _ \<Rightarrow>
          (case me_message e of
             MsgChanged m \<Rightarrow> receiveChanged s e m
           | MsgReset reason source version \<Rightarrow> receiveReset s e reason source version
           | MsgHeartbeat \<Rightarrow> (withActivity, [])
           | MsgAcknowledged \<Rightarrow>
               (withActivity\<lparr>pr_phase := Synchronized (me_connectionEpoch e)
                    (deliveredBefore (pr_phase s)) (expectsReset (pr_phase s))\<rparr>, [])
           | MsgError reason permissionDenied \<Rightarrow>
               if permissionDenied
               then (withActivity\<lparr>pr_phase := PermissionBlocked reason (me_now e)\<rparr>,
                     [EfPermissionDenied reason])
               else (withActivity, [EfRequestResync reason True (Some reason)])))"

definition subscribeSent :: "protocol_state \<Rightarrow> bool \<Rightarrow> protocol_transition" where
  "subscribeSent s expects =
     (case pr_phase s of
        PermissionBlocked _ _ \<Rightarrow> (s, [])
      | Stopping \<Rightarrow> (s, [])
      | p \<Rightarrow> (s\<lparr>pr_phase := AwaitingAck expects (nonempty (phaseError p)) (confirmedHealth p)\<rparr>, []))"

definition connectionOpened :: "protocol_state \<Rightarrow> protocol_transition" where
  "connectionOpened s =
     (case pr_phase s of
        PermissionBlocked _ _ \<Rightarrow> (s, [])
      | Stopping \<Rightarrow> (s, [])
      | p \<Rightarrow>
          if pr_lastSequence s \<noteq> None
          then (s\<lparr>pr_phase := AwaitingAck False (nonempty (phaseError p)) None\<rparr>,
                [EfMarkResyncComplete, EfSendSubscribe])
          else (s, [EfRequestResync ''reconnect'' True (nonempty (phaseError p))]))"

definition connectionLost :: "protocol_state \<Rightarrow> string \<Rightarrow> protocol_transition" where
  "connectionLost s reason =
     (case pr_phase s of
        PermissionBlocked _ _ \<Rightarrow> (s, [])
      | Stopping \<Rightarrow> (s, [])
      | p \<Rightarrow>
          (s\<lparr>pr_phase := Connecting (nonempty (phaseError p))\<rparr>,
           EfMarkResyncing reason #
             (if pr_lastSequence s = None then [EfRequestResync reason False None] else [])))"

definition attachFlushTimer :: "protocol_state \<Rightarrow> nat \<Rightarrow> protocol_transition" where
  "attachFlushTimer s timer =
     (case pr_coalescing s of
        CoWaiting p \<Rightarrow> (s\<lparr>pr_coalescing := CoScheduled timer p\<rparr>, [])
      | _ \<Rightarrow> (s, []))"

definition flushPendingChanges :: "protocol_state \<Rightarrow> nat \<Rightarrow> protocol_transition" where
  "flushPendingChanges s timer =
     (case pr_coalescing s of
        CoScheduled t p \<Rightarrow>
          if t \<noteq> timer then (s, [])
          else (s\<lparr>pr_coalescing := CoIdle\<rparr>, advancePendingEffect (pr_coalescing s) False)
      | _ \<Rightarrow> (s, []))"

definition requestResync :: "protocol_state \<Rightarrow> resync_event \<Rightarrow> protocol_transition" where
  "requestResync s e =
     (if ignoresChanges (pr_phase s) \<or>
         (\<not> re_force e \<and> pr_lastResyncAt s > 0 \<and>
          int (re_now e) - int (pr_lastResyncAt s) < int (re_cooldownMs e))
      then (s, [])
      else
        (s\<lparr>pr_phase := Resyncing (re_reason e) (nonempty (re_errorReason e))
             (if preservesConfirmedHealth (re_reason e) then confirmedHealth (pr_phase s) else None),
           pr_lastSequence := None,
           pr_coalescing := CoIdle,
           pr_lastResyncAt := re_now e\<rparr>,
         cancelFlushEffect (pr_coalescing s) @
         advancePendingEffect (pr_coalescing s) True @
         (if re_reason e = ''initial'' then [] else [EfMarkResyncing (re_reason e)])))"

definition completeResync :: "protocol_state \<Rightarrow> protocol_transition" where
  "completeResync s =
     (case pr_phase s of
        Resyncing reason err preserved \<Rightarrow>
          (s\<lparr>pr_phase := AwaitingAck True (nonempty err) preserved\<rparr>,
           [EfMarkResyncComplete, EfSendSubscribe])
      | _ \<Rightarrow> (s, []))"

definition stopProtocol :: "protocol_state \<Rightarrow> protocol_transition" where
  "stopProtocol s =
     (s\<lparr>pr_phase := Stopping, pr_coalescing := CoIdle\<rparr>, cancelFlushEffect (pr_coalescing s))"

fun transitionResourceStreamProtocol :: "protocol_state \<Rightarrow> protocol_event \<Rightarrow> protocol_transition" where
  "transitionResourceStreamProtocol s (PeSubscribeSent r) = subscribeSent s r"
| "transitionResourceStreamProtocol s (PeConnectionOpened epoch) = connectionOpened s"
| "transitionResourceStreamProtocol s (PeConnectionLost reason) = connectionLost s reason"
| "transitionResourceStreamProtocol s (PeMessageReceived e) = receiveMessage s e"
| "transitionResourceStreamProtocol s (PeFlushTimerAttached t) = attachFlushTimer s t"
| "transitionResourceStreamProtocol s (PeFlushFired t) = flushPendingChanges s t"
| "transitionResourceStreamProtocol s (PeResyncRequested e) = requestResync s e"
| "transitionResourceStreamProtocol s PeResyncCompleted = completeResync s"
| "transitionResourceStreamProtocol s PeStopping = stopProtocol s"

section \<open>Health\<close>

definition pendingProtocolHealth ::
  "string option \<Rightarrow> confirmed_health option \<Rightarrow> string \<Rightarrow> health_status \<times> string" where
  "pendingProtocolHealth errorReason preserved waitingReason =
     (case preserved of
        Some h \<Rightarrow> (Healthy, if ch_delivered h then ''delivering'' else ''synchronized'')
      | None \<Rightarrow>
          (case nonempty errorReason of
             Some r \<Rightarrow> (Unhealthy, r)
           | None \<Rightarrow> (Degraded, waitingReason)))"

definition computeResourceStreamProtocolHealth ::
  "protocol_state \<Rightarrow> connection_status \<Rightarrow> string \<Rightarrow> health_status \<times> string" where
  "computeResourceStreamProtocolHealth s status connectionError =
     (if status \<noteq> Connected
      then (Unhealthy, if connectionError = [] then ''stream disconnected'' else connectionError)
      else case pr_phase s of
             PermissionBlocked reason _ \<Rightarrow> (Unhealthy, reason)
           | Resyncing _ e h \<Rightarrow> pendingProtocolHealth e h ''resyncing''
           | AwaitingAck _ e h \<Rightarrow> pendingProtocolHealth e h ''awaiting updates''
           | Connecting e \<Rightarrow> pendingProtocolHealth e None ''awaiting updates''
           | Synchronized _ delivered _ \<Rightarrow>
               (Healthy, if delivered then ''delivering'' else ''synchronized'')
           | Stopping \<Rightarrow> (Unhealthy, ''inactive''))"

end
