(* ===== verification/StreamProtocolInv.thy ===== *)
theory StreamProtocolInv
  imports StreamProtocol
begin

text \<open>
  The host of the protocol (\<open>applyProtocolEvent\<close>, \<open>runProtocolEffect\<close>, \<open>resyncSubscription\<close>,
  \<open>subscribe\<close> and \<open>unsubscribe\<close> of
  \<open>frontend/src/core/refresh/streaming/resourceStreamManager.ts\<close>, for one subscription) and the
  properties of both together. Running an effect may apply another event, so the host recurses;
  the recursion is bounded by fuel, and \<open>effects_terminate\<close> shows that three levels always
  suffice. What the host does to the outside is a log.
\<close>

section \<open>The host\<close>

datatype host_action =
    HaAdvance source_versions "string option"
  | HaLegacyReset
  | HaPermissionDenied string
  | HaMarkResyncing
  | HaMarkResyncComplete
  | HaRequest "nat option" "nat option"
  | HaCancel
  | HaRecordResync string

text \<open>\<open>sh_timers\<close>: the armed flush timers; \<open>sh_pendingUnsubscribe\<close>: whether a debounced
  unsubscribe of the subscription is pending\<close>

record stream_host =
  sh_protocol :: protocol_state
  sh_timers :: "nat list"
  sh_nextTimer :: nat
  sh_pendingUnsubscribe :: bool
  sh_log :: "host_action list"

definition MAX_UPDATE_QUEUE :: nat where
  "MAX_UPDATE_QUEUE = 1000"

definition RESYNC_COOLDOWN_MS :: nat where
  "RESYNC_COOLDOWN_MS = 1000"

definition initialHost :: stream_host where
  "initialHost = \<lparr>sh_protocol = initialResourceStreamProtocolState, sh_timers = [],
     sh_nextTimer = 0, sh_pendingUnsubscribe = False, sh_log = []\<rparr>"

abbreviation log_action :: "host_action \<Rightarrow> stream_host \<Rightarrow> stream_host" where
  "log_action a h \<equiv> h\<lparr>sh_log := sh_log h @ [a]\<rparr>"

type_synonym applier = "stream_host \<Rightarrow> protocol_event \<Rightarrow> stream_host option"

text \<open>\<open>buildRequestMessage\<close> sends the sequence only when it is truthy, and so does it with the
  resource version; both are positive when present.\<close>

definition sendRequest :: "stream_host \<Rightarrow> stream_host" where
  "sendRequest h =
     log_action (HaRequest (pr_lastSequence (sh_protocol h)) (pr_resourceVersion (sh_protocol h))) h"

definition subscribeHost :: "applier \<Rightarrow> stream_host \<Rightarrow> stream_host option" where
  "subscribeHost app h =
     (if sh_pendingUnsubscribe h then Some h
      else app (sendRequest h) (PeSubscribeSent (pr_lastSequence (sh_protocol h) = None)))"

definition shouldTrackResync :: "string \<Rightarrow> bool" where
  "shouldTrackResync reason \<longleftrightarrow> reason \<noteq> ''initial'' \<and> reason \<noteq> ''manual refresh''"

definition recordResync :: "string \<Rightarrow> stream_host \<Rightarrow> stream_host" where
  "recordResync reason h =
     (if shouldTrackResync reason then log_action (HaRecordResync reason) h else h)"

fun isResyncing :: "phase \<Rightarrow> bool" where
  "isResyncing (Resyncing _ _ _) = True"
| "isResyncing _ = False"

definition resyncSubscription ::
  "applier \<Rightarrow> nat \<Rightarrow> string \<Rightarrow> bool \<Rightarrow> string option \<Rightarrow> stream_host \<Rightarrow> stream_host option" where
  "resyncSubscription app now reason force errorReason h =
     (if sh_pendingUnsubscribe h then Some h
      else
        let event = PeResyncRequested \<lparr>re_reason = reason, re_now = now, re_force = force,
                      re_cooldownMs = RESYNC_COOLDOWN_MS, re_errorReason = nonempty errorReason\<rparr>;
            started = fst (transitionResourceStreamProtocol (sh_protocol h) event)
        in case app h event of
             None \<Rightarrow> None
           | Some h1 \<Rightarrow>
               if started = sh_protocol h \<or> \<not> isResyncing (pr_phase started) then Some h1
               else app (recordResync reason h1) PeResyncCompleted)"

definition runProtocolEffect ::
  "applier \<Rightarrow> nat \<Rightarrow> protocol_effect \<Rightarrow> stream_host \<Rightarrow> stream_host option" where
  "runProtocolEffect app now effect h =
     (case effect of
        EfScheduleFlush \<Rightarrow>
          let timer = sh_nextTimer h
          in app (h\<lparr>sh_timers := sh_timers h @ [timer], sh_nextTimer := timer + 1\<rparr>)
               (PeFlushTimerAttached timer)
      | EfCancelFlush timer \<Rightarrow> Some (h\<lparr>sh_timers := removeAll timer (sh_timers h)\<rparr>)
      | EfAdvanceSource versions latest \<Rightarrow> Some (log_action (HaAdvance versions latest) h)
      | EfAdvanceLegacyReset \<Rightarrow> Some (log_action HaLegacyReset h)
      | EfRequestResync reason force errorReason \<Rightarrow>
          resyncSubscription app now reason force errorReason h
      | EfPermissionDenied reason \<Rightarrow> Some (log_action (HaPermissionDenied reason) h)
      | EfMarkResyncing reason \<Rightarrow> Some (log_action HaMarkResyncing h)
      | EfMarkResyncComplete \<Rightarrow> Some (log_action HaMarkResyncComplete h)
      | EfSendSubscribe \<Rightarrow> subscribeHost app h)"

fun runEffects ::
  "applier \<Rightarrow> nat \<Rightarrow> protocol_effect list \<Rightarrow> stream_host \<Rightarrow> stream_host option" where
  "runEffects app now [] h = Some h"
| "runEffects app now (f # fs) h =
     (case runProtocolEffect app now f h of None \<Rightarrow> None | Some h' \<Rightarrow> runEffects app now fs h')"

primrec applyProtocolEvent :: "nat \<Rightarrow> nat \<Rightarrow> applier" where
  "applyProtocolEvent 0 now = (\<lambda>h e. None)"
| "applyProtocolEvent (Suc n) now =
     (\<lambda>h e. let r = transitionResourceStreamProtocol (sh_protocol h) e
            in runEffects (applyProtocolEvent n now) now (snd r) (h\<lparr>sh_protocol := fst r\<rparr>))"

text \<open>Three levels, as \<open>effects_terminate\<close> shows\<close>

definition applyEvent :: "nat \<Rightarrow> stream_host \<Rightarrow> protocol_event \<Rightarrow> stream_host" where
  "applyEvent now h e = (case applyProtocolEvent 3 now h e of Some h' \<Rightarrow> h' | None \<Rightarrow> h)"

definition resyncHost ::
  "nat \<Rightarrow> string \<Rightarrow> bool \<Rightarrow> string option \<Rightarrow> stream_host \<Rightarrow> stream_host" where
  "resyncHost now reason force err h =
     (case resyncSubscription (applyProtocolEvent 3 now) now reason force err h of
        Some h' \<Rightarrow> h' | None \<Rightarrow> h)"

definition unsubscribeHost :: "nat \<Rightarrow> stream_host \<Rightarrow> stream_host" where
  "unsubscribeHost now h =
     log_action HaCancel (applyEvent now (h\<lparr>sh_pendingUnsubscribe := False\<rparr>) PeStopping)"

text \<open>What happens to a subscription: a message, the connection opens or is lost, a flush timer
  fires, a caller asks for a resync (\<open>start\<close>, \<open>refreshOnce\<close>, visibility), a debounced
  unsubscribe is scheduled, cancelled, or carried out.\<close>

datatype host_event =
    HeMessage nat stream_message nat bool bool
  | HeConnectionOpened nat nat
  | HeConnectionLost nat string
  | HeTimer nat nat
  | HeResync nat string bool
  | HeScheduleUnsubscribe
  | HeCancelUnsubscribe
  | HeUnsubscribe nat

fun host_step :: "stream_host \<Rightarrow> host_event \<Rightarrow> stream_host" where
  "host_step h (HeMessage now m epoch retained completeOnly) =
     applyEvent now h (PeMessageReceived
       \<lparr>me_message = m, me_now = now, me_connectionEpoch = epoch, me_hasRetainedData = retained,
        me_completeResync = completeOnly, me_maxPendingChanges = MAX_UPDATE_QUEUE\<rparr>)"
| "host_step h (HeConnectionOpened now epoch) = applyEvent now h (PeConnectionOpened epoch)"
| "host_step h (HeConnectionLost now reason) = applyEvent now h (PeConnectionLost reason)"
| "host_step h (HeTimer now t) =
     (if t \<in> set (sh_timers h)
      then applyEvent now (h\<lparr>sh_timers := removeAll t (sh_timers h)\<rparr>) (PeFlushFired t) else h)"
| "host_step h (HeResync now reason force) = resyncHost now reason force None h"
| "host_step h HeScheduleUnsubscribe = h\<lparr>sh_pendingUnsubscribe := True\<rparr>"
| "host_step h HeCancelUnsubscribe = h\<lparr>sh_pendingUnsubscribe := False\<rparr>"
| "host_step h (HeUnsubscribe now) = unsubscribeHost now h"

section \<open>Effects terminate\<close>

text \<open>
  Effects have levels: most apply no event (0), \<open>send-subscribe\<close> and \<open>schedule-flush\<close> apply
  one whose transition has no further effect (1), \<open>request-resync\<close> applies one that ends in
  \<open>send-subscribe\<close> (2). An event of level \<open>n\<close> only has effects below \<open>n\<close>, and an effect of
  level \<open>n\<close> only applies events up to \<open>n\<close>.
\<close>

fun effect_level :: "protocol_effect \<Rightarrow> nat" where
  "effect_level EfScheduleFlush = 1"
| "effect_level EfSendSubscribe = 1"
| "effect_level (EfRequestResync _ _ _) = 2"
| "effect_level _ = 0"

fun event_level :: "protocol_event \<Rightarrow> nat" where
  "event_level (PeSubscribeSent _) = 1"
| "event_level (PeFlushTimerAttached _) = 1"
| "event_level (PeResyncRequested _) = 1"
| "event_level PeResyncCompleted = 2"
| "event_level _ = 3"

lemma event_level_range: "0 < event_level e" "event_level e \<le> 3"
  by (cases e; simp)+

lemma effect_level_le: "effect_level f \<le> 2"
  by (cases f) simp_all

lemma cancel_level: "f \<in> set (cancelFlushEffect c) \<Longrightarrow> effect_level f = 0"
  by (cases c) auto

lemma event_effects:
  "f \<in> set (snd (transitionResourceStreamProtocol s e)) \<Longrightarrow> effect_level f < event_level e"
  using effect_level_le [of f]
  by (cases e)
    (auto simp: subscribeSent_def attachFlushTimer_def requestResync_def completeResync_def
      advancePendingEffect_def Let_def dest: cancel_level
      split: phase.splits coalescing.splits if_splits)

lemma runProtocolEffect_total:
  assumes ap: "\<And>h e. event_level e \<le> effect_level f \<Longrightarrow> \<exists>h'. \<forall>k. ap k h e = Some h'"
  shows "\<exists>h'. \<forall>k. runProtocolEffect (ap k) now f h = Some h'"
proof (cases f)
  case EfScheduleFlush
  with ap [of "PeFlushTimerAttached (sh_nextTimer h)"] show ?thesis
    by (simp add: runProtocolEffect_def Let_def)
next
  case EfSendSubscribe
  with ap [of "PeSubscribeSent (pr_lastSequence (sh_protocol h) = None)" "sendRequest h"]
  show ?thesis by (auto simp: runProtocolEffect_def subscribeHost_def)
next
  case (EfRequestResync reason force err)
  let ?e = "PeResyncRequested \<lparr>re_reason = reason, re_now = now, re_force = force,
              re_cooldownMs = RESYNC_COOLDOWN_MS, re_errorReason = nonempty err\<rparr>"
  from ap [of ?e h] EfRequestResync obtain h1 where h1: "\<And>k. ap k h ?e = Some h1" by auto
  from ap [of PeResyncCompleted "recordResync reason h1"] EfRequestResync
  obtain h2 where "\<And>k. ap k (recordResync reason h1) PeResyncCompleted = Some h2" by auto
  with h1 EfRequestResync have "runProtocolEffect (ap k) now f h =
      Some (if sh_pendingUnsubscribe h then h
            else let started = fst (transitionResourceStreamProtocol (sh_protocol h) ?e)
                 in if started = sh_protocol h \<or> \<not> isResyncing (pr_phase started) then h1 else h2)" for k
    by (simp add: runProtocolEffect_def resyncSubscription_def Let_def)
  then show ?thesis by blast
qed (simp_all add: runProtocolEffect_def)

lemma runEffects_total:
  assumes ap: "\<And>h e. event_level e \<le> n \<Longrightarrow> \<exists>h'. \<forall>k. ap k h e = Some h'"
    and "\<forall>f\<in>set fs. effect_level f \<le> n"
  shows "\<exists>h'. \<forall>k. runEffects (ap k) now fs h = Some h'"
  using assms(2)
proof (induction fs arbitrary: h)
  case (Cons f fs)
  have "\<exists>h'. \<forall>k. runProtocolEffect (ap k) now f h = Some h'"
    using Cons.prems by (intro runProtocolEffect_total ap) auto
  then obtain h1 where "\<And>k. runProtocolEffect (ap k) now f h = Some h1" by blast
  with Cons show ?case by simp
qed simp

lemma apply_total:
  "event_level e \<le> n \<Longrightarrow> \<exists>h'. \<forall>k. applyProtocolEvent (n + k) now h e = Some h'"
proof (induction n arbitrary: h e)
  case 0
  then show ?case using event_level_range(1) [of e] by simp
next
  case (Suc n)
  have "\<forall>f\<in>set (snd (transitionResourceStreamProtocol (sh_protocol h) e)). effect_level f \<le> n"
    using event_effects [of _ "sh_protocol h" e] Suc.prems by fastforce
  from runEffects_total [OF Suc.IH this] show ?case by (simp add: Let_def)
qed

text \<open>
  C34. Handling an event terminates, however its effects apply further events: three nested levels
  are enough for every event in every state, and a larger bound gives the same result.
\<close>

theorem effects_terminate:
  "\<exists>h'. applyProtocolEvent 3 now h e = Some h' \<and>
        (\<forall>k. applyProtocolEvent (3 + k) now h e = Some h')"
  using apply_total [of e 3 now h] event_level_range(2) [of e] by (metis add_0_right)

section \<open>The invariant of the flush timer\<close>

text \<open>Between two steps of the host the coalescing state and the armed timers agree: idle with no
  timer, or scheduled with exactly its own timer and between one and \<open>MAX_UPDATE_QUEUE\<close> changes.\<close>

definition host_inv :: "stream_host \<Rightarrow> bool" where
  "host_inv h =
     (case pr_coalescing (sh_protocol h) of
        CoIdle \<Rightarrow> sh_timers h = []
      | CoWaiting _ \<Rightarrow> False
      | CoScheduled t p \<Rightarrow> sh_timers h = [t] \<and> 0 < pc_count p \<and> pc_count p \<le> MAX_UPDATE_QUEUE)"

lemma initial_host_inv: "host_inv initialHost"
  by (simp add: host_inv_def initialHost_def initialResourceStreamProtocolState_def)

lemma host_inv_unsubscribe [simp]: "host_inv (h\<lparr>sh_pendingUnsubscribe := b\<rparr>) = host_inv h"
  by (simp add: host_inv_def split: coalescing.splits)

fun plain_effect :: "protocol_effect \<Rightarrow> bool" where
  "plain_effect EfScheduleFlush = False"
| "plain_effect (EfCancelFlush _) = False"
| "plain_effect _ = True"

fun event_ok :: "protocol_event \<Rightarrow> bool" where
  "event_ok (PeMessageReceived e) = (me_maxPendingChanges e \<le> MAX_UPDATE_QUEUE)"
| "event_ok (PeFlushFired _) = False"
| "event_ok _ = True"

lemma host_inv_log [simp]: "host_inv (h\<lparr>sh_log := l\<rparr>) = host_inv h"
  by (simp add: host_inv_def split: coalescing.splits)

lemma plain_effects_inv:
  assumes app: "\<And>h e h'. event_ok e \<Longrightarrow> host_inv h \<Longrightarrow> app h e = Some h' \<Longrightarrow> host_inv h'"
  shows "list_all plain_effect fs \<Longrightarrow> host_inv h \<Longrightarrow> runEffects app now fs h = Some h' \<Longrightarrow> host_inv h'"
proof (induction fs arbitrary: h)
  case (Cons f fs)
  from Cons.prems(3) obtain h1 where h1: "runProtocolEffect app now f h = Some h1"
    and rest: "runEffects app now fs h1 = Some h'"
    by (auto split: option.splits)
  have "host_inv h1"
  proof (cases f)
    case EfSendSubscribe
    with h1 Cons.prems(2) show ?thesis
      by (auto simp: runProtocolEffect_def subscribeHost_def sendRequest_def split: if_splits
          dest!: app [rotated 2])
  next
    case (EfRequestResync reason force err)
    with h1 Cons.prems(2) show ?thesis
      by (auto simp: runProtocolEffect_def resyncSubscription_def Let_def recordResync_def
          split: if_splits option.splits dest!: app [rotated 2])
  qed (use h1 Cons.prems(1,2) in \<open>auto simp: runProtocolEffect_def\<close>)
  with Cons rest show ?case by simp
qed simp

lemma cancel_run:
  "runEffects app now (cancelFlushEffect c @ fs) h =
     runEffects app now fs (h\<lparr>sh_timers :=
       (case c of CoScheduled t _ \<Rightarrow> removeAll t (sh_timers h) | _ \<Rightarrow> sh_timers h)\<rparr>)"
  by (cases c) (simp_all add: runProtocolEffect_def)

lemma source_plain: "sourceEffect a b = Some f \<Longrightarrow> plain_effect f"
  by (auto simp: sourceEffect_def split: option.splits)

lemma advance_plain [simp]: "list_all plain_effect (advancePendingEffect c b)"
  by (simp add: advancePendingEffect_def Let_def)

text \<open>Transitions that leave the coalescing alone only have plain effects.\<close>

lemma transition_plain:
  assumes "case e of PeMessageReceived m \<Rightarrow> (\<forall>c. me_message m \<noteq> MsgChanged c)
    | PeSubscribeSent _ \<Rightarrow> True | PeConnectionOpened _ \<Rightarrow> True | PeConnectionLost _ \<Rightarrow> True
    | PeResyncCompleted \<Rightarrow> True | _ \<Rightarrow> False"
  shows "pr_coalescing (fst (transitionResourceStreamProtocol s e)) = pr_coalescing s"
    and "list_all plain_effect (snd (transitionResourceStreamProtocol s e))"
  using assms
  by (auto simp: subscribeSent_def connectionOpened_def connectionLost_def completeResync_def
      receiveMessage_def receiveReset_def Let_def source_plain
      split: protocol_event.splits phase.splits stream_message.splits option.splits)

lemma appendChange_count [simp]: "pc_count (appendChange c m) = pc_count (pendingChanges c) + 1"
  by (simp add: appendChange_def Let_def)

lemma pendingChanges_count [simp]:
  "pc_count (pendingChanges (CoScheduled t p)) = pc_count p" "pc_count (pendingChanges CoIdle) = 0"
  by simp_all

text \<open>The schedule effect, with the timer it attaches\<close>

lemma schedule_run:
  assumes "applyProtocolEvent (Suc n) now h0 (PeMessageReceived e) = Some h'"
    and "snd (receiveMessage (sh_protocol h0) e) = [EfScheduleFlush]"
    and "pr_coalescing (fst (receiveMessage (sh_protocol h0) e)) = CoWaiting p"
  shows "h' = h0\<lparr>sh_protocol := (fst (receiveMessage (sh_protocol h0) e))
            \<lparr>pr_coalescing := CoScheduled (sh_nextTimer h0) p\<rparr>,
          sh_timers := sh_timers h0 @ [sh_nextTimer h0], sh_nextTimer := sh_nextTimer h0 + 1\<rparr>"
  using assms by (cases n) (auto simp: Let_def runProtocolEffect_def attachFlushTimer_def split: option.splits)

lemma changed_cases:
  assumes "me_message m = MsgChanged c"
  obtains
    (keep) "pr_coalescing (fst (receiveMessage s m)) = pr_coalescing s"
      "list_all plain_effect (snd (receiveMessage s m))"
  | (overflow) "pr_coalescing (fst (receiveMessage s m)) = CoIdle"
      "snd (receiveMessage s m) =
         cancelFlushEffect (pr_coalescing s) @ [EfRequestResync ''update backlog overflow'' True None]"
  | (first) "pr_coalescing s = CoIdle"
      "pr_coalescing (fst (receiveMessage s m)) = CoWaiting (appendChange (pr_coalescing s) c)"
      "snd (receiveMessage s m) = [EfScheduleFlush]"
      "pc_count (appendChange (pr_coalescing s) c) \<le> me_maxPendingChanges m"
  | (append) "pr_coalescing s \<noteq> CoIdle"
      "pr_coalescing (fst (receiveMessage s m))
         = with_pending (pr_coalescing s) (appendChange (pr_coalescing s) c)"
      "snd (receiveMessage s m) = []"
      "pc_count (appendChange (pr_coalescing s) c) \<le> me_maxPendingChanges m"
proof (cases "(case pr_phase s of Stopping \<Rightarrow> True | PermissionBlocked _ _ \<Rightarrow> True | _ \<Rightarrow> False)")
  case True
  then show thesis using assms by (intro keep) (auto simp: receiveMessage_def Let_def split: phase.splits)
next
  case False
  then have r: "receiveMessage s m = receiveChanged s m c"
    using assms by (auto simp: receiveMessage_def Let_def split: phase.splits)
  show thesis
  proof (cases "ignoresChanges (pr_phase s) \<or> (case (cm_sequence c, pr_lastSequence s) of
                 (Some q, Some l) \<Rightarrow> q \<le> l | _ \<Rightarrow> False) \<or> me_completeResync m")
    case True
    with r show thesis by (intro keep) (auto simp: receiveChanged_def Let_def)
  next
    case accepted: False
    show thesis
    proof (cases "pc_count (appendChange (pr_coalescing s) c) > me_maxPendingChanges m")
      case True
      with accepted r show thesis
        by (intro overflow) (auto simp del: appendChange_count simp: receiveChanged_def Let_def)
    next
      case fits: False
      show thesis
      proof (cases "pr_coalescing s = CoIdle")
        case True
        with fits accepted r show thesis
          by (intro first) (auto simp del: appendChange_count simp: receiveChanged_def Let_def)
      next
        case False
        with fits accepted r show thesis
          by (intro append) (auto simp del: appendChange_count simp: receiveChanged_def Let_def)
      qed
    qed
  qed
qed

lemma apply_inv:
  "event_ok e \<Longrightarrow> host_inv h \<Longrightarrow> applyProtocolEvent n now h e = Some h' \<Longrightarrow> host_inv h'"
proof (induction n arbitrary: h e h')
  case (Suc n)
  have plain: "host_inv h'" if "list_all plain_effect fs" "host_inv h"
    "runEffects (applyProtocolEvent n now) now fs h = Some h'" for fs h h'
    by (rule plain_effects_inv [OF _ that]) (use Suc.IH in blast)
  let ?r = "transitionResourceStreamProtocol (sh_protocol h) e"
  have run: "runEffects (applyProtocolEvent n now) now (snd ?r) (h\<lparr>sh_protocol := fst ?r\<rparr>) = Some h'"
    using Suc.prems(3) by (simp add: Let_def)
  have unchanged: ?case if "pr_coalescing (fst ?r) = pr_coalescing (sh_protocol h)"
    "list_all plain_effect (snd ?r)"
    by (rule plain [OF that(2) _ run]) (use that(1) Suc.prems(2) in \<open>simp add: host_inv_def split: coalescing.splits\<close>)
  have cancelled: ?case if fs: "snd ?r = cancelFlushEffect (pr_coalescing (sh_protocol h)) @ fs"
    and pl: "list_all plain_effect fs" and idle: "pr_coalescing (fst ?r) = CoIdle" for fs
    using run [unfolded fs cancel_run]
    by (rule plain [OF pl, rotated])
      (use idle Suc.prems(2) in \<open>auto simp: host_inv_def split: coalescing.splits\<close>)
  show ?case
  proof (cases e)
    case (PeMessageReceived m)
    show ?thesis
    proof (cases "\<exists>c. me_message m = MsgChanged c")
      case False
      then show ?thesis
        using transition_plain [of e "sh_protocol h"] PeMessageReceived unchanged by simp
    next
      case True
      then obtain c where c: "me_message m = MsgChanged c" ..
      have le: "me_maxPendingChanges m \<le> MAX_UPDATE_QUEUE"
        using Suc.prems(1) PeMessageReceived by simp
      let ?s = "sh_protocol h"
      from c show ?thesis
      proof (cases rule: changed_cases [of m c ?s])
        case keep
        then show ?thesis using PeMessageReceived unchanged by simp
      next
        case overflow
        with PeMessageReceived show ?thesis by (intro cancelled) auto
      next
        case first
        with Suc.prems(2,3) PeMessageReceived le schedule_run [of n now h m h']
        show ?thesis by (auto simp: host_inv_def)
      next
        case append
        with run PeMessageReceived Suc.prems(2) le show ?thesis
          by (cases "pr_coalescing ?s") (auto simp: host_inv_def)
      qed
    qed
  next
    case (PeFlushTimerAttached t)
    with Suc.prems(2) show ?thesis
      by (intro unchanged) (auto simp: attachFlushTimer_def host_inv_def split: coalescing.splits)
  next
    case (PeResyncRequested r)
    show ?thesis
    proof (cases "snd ?r = []")
      case True
      with PeResyncRequested show ?thesis
        by (intro unchanged)
          (auto simp: requestResync_def advancePendingEffect_def Let_def split: if_splits)
    next
      case False
      with PeResyncRequested obtain fs where fs: "snd ?r = cancelFlushEffect (pr_coalescing (sh_protocol h)) @ fs"
        and pl: "list_all plain_effect fs" and idle: "pr_coalescing (fst ?r) = CoIdle"
        by (auto simp: requestResync_def split: if_splits)
      show ?thesis by (rule cancelled [OF fs pl idle])
    qed
  next
    case PeStopping
    then show ?thesis by (intro cancelled [of "[]"]) (auto simp: stopProtocol_def)
  qed (use unchanged transition_plain [of e "sh_protocol h"] Suc.prems(1) in auto)
qed simp

lemma apply_host_inv: "event_ok e \<Longrightarrow> host_inv h \<Longrightarrow> host_inv (applyEvent now h e)"
  using effects_terminate [of now h e] apply_inv [of e h 3 now]
  by (auto simp: applyEvent_def split: option.splits)

lemma flush_apply:
  assumes "pr_coalescing (sh_protocol h) = CoScheduled t p" "0 < pc_count p"
  shows "applyEvent now h (PeFlushFired t) =
    h\<lparr>sh_protocol := (sh_protocol h)\<lparr>pr_coalescing := CoIdle\<rparr>,
      sh_log := sh_log h @ [HaAdvance (pc_sourceVersions p) (nonempty (pc_latest p))]\<rparr>"
proof -
  have "nonempty (nonempty x) = nonempty x" for x by (cases x rule: nonempty.cases) simp_all
  with assms show ?thesis
    by (simp add: applyEvent_def numeral_3_eq_3 flushPendingChanges_def advancePendingEffect_def
        runProtocolEffect_def Let_def)
qed

lemma resync_host_inv: "host_inv h \<Longrightarrow> host_inv (resyncHost now reason force err h)"
proof (cases "resyncSubscription (applyProtocolEvent 3 now) now reason force err h")
  case (Some h')
  assume "host_inv h"
  moreover have "runEffects (applyProtocolEvent 3 now) now [EfRequestResync reason force err] h = Some h'"
    using Some by (simp add: runProtocolEffect_def)
  ultimately have "host_inv h'"
    by (intro plain_effects_inv [of "applyProtocolEvent 3 now" "[EfRequestResync reason force err]" h now h'])
      (auto intro: apply_inv)
  with Some show ?thesis by (simp add: resyncHost_def)
qed (simp add: resyncHost_def)

lemma host_step_inv: "host_inv h \<Longrightarrow> host_inv (host_step h e)"
proof (cases e)
  case (HeTimer now t)
  assume i: "host_inv h"
  show ?thesis
  proof (cases "t \<in> set (sh_timers h)")
    case True
    with i obtain p where p: "pr_coalescing (sh_protocol h) = CoScheduled t p" "sh_timers h = [t]"
      "0 < pc_count p"
      by (auto simp: host_inv_def split: coalescing.splits)
    with HeTimer flush_apply [of "h\<lparr>sh_timers := []\<rparr>" t p now] show ?thesis
      by (simp add: host_inv_def)
  qed (use i HeTimer in simp)
next
  case (HeUnsubscribe now)
  assume "host_inv h"
  with HeUnsubscribe show ?thesis by (simp add: unsubscribeHost_def apply_host_inv)
qed (auto intro: apply_host_inv resync_host_inv)

text \<open>A stopped protocol answers every event with no change and no effect.\<close>

lemma stopped_transition:
  assumes "pr_phase s = Stopping" "pr_coalescing s = CoIdle"
  shows "transitionResourceStreamProtocol s e = (s, [])"
proof (cases e)
  case (PeMessageReceived m)
  with assms show ?thesis by (simp add: receiveMessage_def)
qed (use assms in \<open>simp_all add: subscribeSent_def connectionOpened_def connectionLost_def
    attachFlushTimer_def flushPendingChanges_def requestResync_def completeResync_def stopProtocol_def\<close>)

definition stopped :: "host_action list \<Rightarrow> stream_host \<Rightarrow> bool" where
  "stopped l h \<longleftrightarrow> pr_phase (sh_protocol h) = Stopping \<and> pr_coalescing (sh_protocol h) = CoIdle \<and>
     List.filter (\<lambda>a. a \<noteq> HaCancel) (sh_log h) = l"

lemma stopped_apply: "stopped l h \<Longrightarrow> applyEvent now h e = h"
  by (simp add: applyEvent_def numeral_3_eq_3 stopped_transition stopped_def Let_def)

lemma stopped_resync: "stopped l h \<Longrightarrow> resyncHost now reason force err h = h"
  by (simp add: resyncHost_def resyncSubscription_def numeral_3_eq_3 stopped_transition stopped_def Let_def)

lemma stopped_step: "host_inv h \<Longrightarrow> stopped l h \<Longrightarrow> stopped l (host_step h e)"
proof (cases e)
  case (HeTimer now t)
  assume "host_inv h" "stopped l h"
  then have "sh_timers h = []" by (auto simp: host_inv_def stopped_def)
  with HeTimer \<open>stopped l h\<close> show ?thesis by simp
next
  case (HeUnsubscribe now)
  assume s: "stopped l h"
  then have "stopped l (h\<lparr>sh_pendingUnsubscribe := False\<rparr>)" by (simp add: stopped_def)
  with s HeUnsubscribe stopped_apply [of l "h\<lparr>sh_pendingUnsubscribe := False\<rparr>"] show ?thesis
    by (simp add: unsubscribeHost_def stopped_def)
qed (auto simp: stopped_apply stopped_resync, auto simp: stopped_def)

interpretation stream_host: absorbing_machine host_step host_inv "stopped l" for l
  by unfold_locales (auto intro: host_step_inv stopped_step)

section \<open>Properties\<close>

text \<open>
  C23. The flush timer is never lost and never leaked: after any sequence of messages, connection
  changes, timer firings, resyncs and (un)subscriptions, either no change is pending and no flush
  timer is armed, or exactly one timer is armed, the one the protocol waits for, with at least
  one and at most \<open>MAX_UPDATE_QUEUE\<close> pending changes.
\<close>

theorem flush_timer_exact:
  "let h = foldl host_step initialHost es in
   case pr_coalescing (sh_protocol h) of
     CoIdle \<Rightarrow> sh_timers h = []
   | CoWaiting _ \<Rightarrow> False
   | CoScheduled t p \<Rightarrow> sh_timers h = [t] \<and> 0 < pc_count p \<and> pc_count p \<le> 1000"
  using stream_host.run_inv [OF initial_host_inv, of es]
  by (simp add: host_inv_def Let_def MAX_UPDATE_QUEUE_def split: coalescing.splits)

lemma unsubscribe_stops:
  "host_inv h \<Longrightarrow>
   stopped (List.filter (\<lambda>a. a \<noteq> HaCancel) (sh_log h)) (host_step h (HeUnsubscribe now))"
  by (auto simp: unsubscribeHost_def applyEvent_def numeral_3_eq_3 stopProtocol_def stopped_def Let_def
      runProtocolEffect_def host_inv_def split: coalescing.splits)

text \<open>
  A stopped subscription is silent for good: whatever messages, reconnects, timers or resync
  requests arrive after the unsubscribe, the protocol stays stopped, no timer is armed, nothing
  is advanced, subscribed, resynchronised or reported any more, and it is never reported healthy.
\<close>

theorem stopped_is_silent:
  "let h = foldl host_step initialHost es;
       h' = foldl host_step (host_step h (HeUnsubscribe now)) fs in
   pr_phase (sh_protocol h') = Stopping \<and> sh_timers h' = [] \<and>
   List.filter (\<lambda>a. a \<noteq> HaCancel) (sh_log h') = List.filter (\<lambda>a. a \<noteq> HaCancel) (sh_log h) \<and>
   fst (computeResourceStreamProtocolHealth (sh_protocol h') st err) \<noteq> Healthy"
proof -
  let ?h = "foldl host_step initialHost es"
  let ?h1 = "host_step ?h (HeUnsubscribe now)"
  have i: "host_inv ?h" by (rule stream_host.run_inv [OF initial_host_inv])
  have i1: "host_inv ?h1" by (rule host_step_inv [OF i])
  have "host_inv (foldl host_step ?h1 fs)" by (rule stream_host.run_inv [OF i1])
  moreover have "stopped (List.filter (\<lambda>a. a \<noteq> HaCancel) (sh_log ?h)) (foldl host_step ?h1 fs)"
    by (rule stream_host.run_final [OF i1 unsubscribe_stops [OF i]])
  ultimately show ?thesis
    by (auto simp: Let_def stopped_def host_inv_def computeResourceStreamProtocolHealth_def)
qed

text \<open>A message by which the server confirms the stream\<close>

fun confirming :: "protocol_event \<Rightarrow> bool" where
  "confirming (PeMessageReceived e) =
     (case me_message e of MsgAcknowledged \<Rightarrow> True | MsgChanged _ \<Rightarrow> True | MsgReset _ _ _ \<Rightarrow> True
      | _ \<Rightarrow> False)"
| "confirming _ = False"

abbreviation protocol_run :: "protocol_state \<Rightarrow> protocol_event list \<Rightarrow> protocol_state" where
  "protocol_run \<equiv> foldl (\<lambda>s e. fst (transitionResourceStreamProtocol s e))"

lemma unconfirmed_step:
  "\<not> confirming e \<Longrightarrow> confirmedHealth (pr_phase s) = None \<Longrightarrow>
   confirmedHealth (pr_phase (fst (transitionResourceStreamProtocol s e))) = None"
  by (cases e)
    (auto simp: subscribeSent_def connectionOpened_def connectionLost_def receiveMessage_def
      attachFlushTimer_def flushPendingChanges_def requestResync_def completeResync_def stopProtocol_def
      Let_def split: phase.splits stream_message.splits coalescing.splits)

lemma unconfirmed_run:
  "list_all (\<lambda>e. \<not> confirming e) es \<Longrightarrow> confirmedHealth (pr_phase s) = None \<Longrightarrow>
   confirmedHealth (pr_phase (protocol_run s es)) = None"
  by (induction es arbitrary: s) (auto simp: unconfirmed_step)

lemma healthy_confirmed:
  "fst (computeResourceStreamProtocolHealth s st err) = Healthy \<Longrightarrow> confirmedHealth (pr_phase s) \<noteq> None"
  by (cases "pr_phase s")
    (auto simp: computeResourceStreamProtocolHealth_def pendingProtocolHealth_def
      split: if_splits option.splits)

lemma lost_unconfirmed:
  "confirmedHealth (pr_phase (fst (transitionResourceStreamProtocol s (PeConnectionLost reason)))) = None"
  by (auto simp: connectionLost_def split: phase.splits)

text \<open>
  C33. Health is never reported on credit of a former connection: once a connection is lost, the
  subscription is not healthy, whatever reconnects, subscriptions, resyncs (initial and manual ones
  included), heartbeats and timers follow, until the server has sent an acknowledgement, a change
  or a reset. Polling, which a healthy stream suppresses, therefore continues.
\<close>

theorem no_health_without_confirmation:
  assumes "list_all (\<lambda>e. \<not> confirming e) es"
  shows "fst (computeResourceStreamProtocolHealth
    (protocol_run s (PeConnectionLost reason # es)) st err) \<noteq> Healthy"
  using healthy_confirmed unconfirmed_run [OF assms lost_unconfirmed, of s reason] by fastforce

lemma no_health_without_confirmation_witness:
  "fst (computeResourceStreamProtocolHealth
     (protocol_run (initialResourceStreamProtocolState\<lparr>pr_phase := Synchronized 1 True False,
                      pr_lastSequence := Some 41\<rparr>)
        [PeConnectionLost ''closed'', PeConnectionOpened 2, PeSubscribeSent False])
     Connected []) \<noteq> Healthy"
  using no_health_without_confirmation [of "[PeConnectionOpened 2, PeSubscribeSent False]"
      "initialResourceStreamProtocolState\<lparr>pr_phase := Synchronized 1 True False,
                      pr_lastSequence := Some 41\<rparr>" "''closed''" Connected "[]"]
  by simp

lemma sequence_kept:
  assumes "\<forall>r. e \<noteq> PeResyncRequested r" "pr_lastSequence s = Some q"
  shows "\<exists>q'\<ge>q. pr_lastSequence (fst (transitionResourceStreamProtocol s e)) = Some q'"
  using assms
  by (cases e)
    (auto simp: subscribeSent_def connectionOpened_def connectionLost_def receiveMessage_def
      receiveChanged_def receiveReset_def attachFlushTimer_def flushPendingChanges_def
      completeResync_def stopProtocol_def Let_def
      split: phase.splits stream_message.splits coalescing.splits option.splits)

lemma sequence_run:
  "list_all (\<lambda>e. \<forall>r. e \<noteq> PeResyncRequested r) es \<Longrightarrow> pr_lastSequence s = Some q \<Longrightarrow>
   \<exists>q'\<ge>q. pr_lastSequence (protocol_run s es) = Some q'"
proof (induction es arbitrary: s q)
  case (Cons e es)
  then obtain q1 where "q1 \<ge> q" "pr_lastSequence (fst (transitionResourceStreamProtocol s e)) = Some q1"
    using sequence_kept [of e s q] by auto
  with Cons.IH [of "fst (transitionResourceStreamProtocol s e)" q1] Cons.prems show ?case
    by (auto intro: order_trans)
qed simp

lemma changed_sequence:
  assumes "\<not> ignoresChanges (pr_phase s)" "me_message m = MsgChanged c" "cm_sequence c = Some q"
  shows "\<exists>q'\<ge>q. pr_lastSequence (fst (receiveMessage s m)) = Some q'"
  using assms
  by (cases "pr_phase s"; cases "pr_lastSequence s")
    (auto simp: receiveMessage_def receiveChanged_def Let_def)

lemma duplicate_transition:
  assumes "me_message m = MsgChanged c" "cm_sequence c = Some q" "pr_lastSequence s = Some l" "q \<le> l"
  shows "\<exists>t. receiveMessage s m = (s\<lparr>pr_lastMessageAt := t\<rparr>, [])"
  using assms
  by (cases "pr_phase s")
    (auto simp: receiveMessage_def receiveChanged_def Let_def intro: exI [of _ "pr_lastMessageAt s"])

text \<open>
  Sequence numbers only move forward, and a duplicate is ignored: after a change with a
  sequence number has been received in a live phase, and as long as no resync starts, a later
  change with the same or a smaller number has no effect and changes nothing but the time of the
  last message.
\<close>

theorem duplicate_ignored:
  assumes "\<not> ignoresChanges (pr_phase s)" "me_message m = MsgChanged c" "cm_sequence c = Some q"
    and "list_all (\<lambda>e. \<forall>r. e \<noteq> PeResyncRequested r) es"
    and "me_message m' = MsgChanged c'" "cm_sequence c' = Some q'" "q' \<le> q"
  shows "\<exists>t. transitionResourceStreamProtocol (protocol_run s (PeMessageReceived m # es))
                (PeMessageReceived m')
           = ((protocol_run s (PeMessageReceived m # es))\<lparr>pr_lastMessageAt := t\<rparr>, [])"
proof -
  obtain q1 where "q1 \<ge> q" "pr_lastSequence (fst (receiveMessage s m)) = Some q1"
    using changed_sequence [OF assms(1-3)] by blast
  then obtain q2 where "q2 \<ge> q" "pr_lastSequence (protocol_run s (PeMessageReceived m # es)) = Some q2"
    using sequence_run [OF assms(4), of "fst (receiveMessage s m)" q1] by auto
  with duplicate_transition [OF assms(5,6)] assms(7) show ?thesis by auto
qed

definition sample_change :: "nat \<Rightarrow> changed_message" where
  "sample_change q = \<lparr>cm_source = Some ClockObject, cm_version = Some ''v'', cm_sequence = Some q,
     cm_resourceVersion = None\<rparr>"

definition sample_message :: "nat \<Rightarrow> message_event" where
  "sample_message q = \<lparr>me_message = MsgChanged (sample_change q), me_now = 100, me_connectionEpoch = 1,
     me_hasRetainedData = True, me_completeResync = False, me_maxPendingChanges = 1000\<rparr>"

section \<open>Coalescing\<close>

text \<open>What a change would advance if it were applied alone\<close>

definition single_versions :: "changed_message \<Rightarrow> source_versions" where
  "single_versions m =
     (case (cm_source m, nonempty (cm_version m)) of (Some s, Some v) \<Rightarrow> [(s, v)] | _ \<Rightarrow> [])"

definition single_latest :: "string option \<Rightarrow> changed_message \<Rightarrow> string option" where
  "single_latest l m = (case nonempty (cm_version m) of Some v \<Rightarrow> Some v | None \<Rightarrow> l)"

lemma nonempty_idem [simp]: "nonempty (nonempty x) = nonempty x"
  by (cases x rule: nonempty.cases) simp_all

lemma single_latest_nonempty: "nonempty l = l \<Longrightarrow> nonempty (single_latest l m) = single_latest l m"
  by (cases "cm_version m" rule: nonempty.cases) (auto simp: single_latest_def)

lemma append_versions:
  "map_of (pc_sourceVersions (appendChange c m))
     = map_of (pc_sourceVersions (pendingChanges c)) ++ map_of (single_versions m)"
  by (auto simp: appendChange_def single_versions_def Let_def update_conv' split: option.splits)

lemma append_latest:
  "pc_latest (appendChange c m) = single_latest (nonempty (pc_latest (pendingChanges c))) m"
  by (auto simp: appendChange_def single_latest_def Let_def split: option.splits)

text \<open>A change a live host accepts into its queue\<close>

abbreviation change_event :: "nat \<Rightarrow> nat \<Rightarrow> changed_message \<Rightarrow> host_event" where
  "change_event now epoch m \<equiv> HeMessage now (MsgChanged m) epoch True False"

definition queue_is ::
  "stream_host \<Rightarrow> nat \<Rightarrow> nat \<Rightarrow> (source_clock \<rightharpoonup> string) \<Rightarrow> string option \<Rightarrow> host_action list \<Rightarrow> bool" where
  "queue_is h t n vs l lg \<longleftrightarrow>
     (\<exists>p. pr_coalescing (sh_protocol h) = CoScheduled t p \<and> pc_count p = n \<and>
          map_of (pc_sourceVersions p) = vs \<and> pc_latest p = l \<and> nonempty l = l) \<and>
     sh_timers h = [t] \<and> \<not> ignoresChanges (pr_phase (sh_protocol h)) \<and> sh_log h = lg"

text \<open>The number of the last change that was accepted\<close>

abbreviation last_number :: "stream_host \<Rightarrow> nat option" where
  "last_number h \<equiv> pr_lastSequence (sh_protocol h)"

text \<open>Of numbered changes only those count whose number exceeds all before; the others repeat what was
  delivered already. Changes without a number always count.\<close>

fun repeats :: "nat option \<Rightarrow> changed_message \<Rightarrow> bool" where
  "repeats (Some l) m = (case cm_sequence m of Some q \<Rightarrow> q \<le> l | None \<Rightarrow> False)"
| "repeats None m = False"

definition later :: "nat option \<Rightarrow> changed_message \<Rightarrow> nat option" where
  "later l m = (case cm_sequence m of Some q \<Rightarrow> Some q | None \<Rightarrow> l)"

fun new_changes :: "nat option \<Rightarrow> changed_message list \<Rightarrow> changed_message list" where
  "new_changes l [] = []"
| "new_changes l (m # ms) = (if repeats l m then new_changes l ms else m # new_changes (later l m) ms)"

lemma repeats_iff: "repeats l m \<longleftrightarrow> (case (cm_sequence m, l) of (Some q, Some l) \<Rightarrow> q \<le> l | _ \<Rightarrow> False)"
  by (cases l; cases "cm_sequence m") simp_all

lemma receive_live:
  "\<not> ignoresChanges (pr_phase s) \<Longrightarrow> me_message e = MsgChanged m \<Longrightarrow>
   receiveMessage s e = receiveChanged s e m"
  by (cases "pr_phase s") (auto simp: receiveMessage_def Let_def)

lemma change_repeats:
  assumes "repeats (last_number h) m" "\<not> ignoresChanges (pr_phase (sh_protocol h))"
  shows "host_step h (change_event now epoch m) = h\<lparr>sh_protocol := (sh_protocol h)\<lparr>pr_lastMessageAt := Some now\<rparr>\<rparr>"
  using assms
  by (simp add: applyEvent_def numeral_3_eq_3 receive_live receiveChanged_def Let_def repeats_iff split: option.splits)

lemma queue_first:
  assumes "pr_coalescing (sh_protocol h) = CoIdle" "\<not> ignoresChanges (pr_phase (sh_protocol h))"
    and "\<not> repeats (last_number h) m" "sh_timers h = []"
  shows "queue_is (host_step h (change_event now epoch m)) (sh_nextTimer h) 1
           (map_of (single_versions m)) (single_latest None m) (sh_log h)"
    and "last_number (host_step h (change_event now epoch m)) = later (last_number h) m"
proof -
  have "pc_latest (appendChange CoIdle m) = single_latest None m"
    "map_of (pc_sourceVersions (appendChange CoIdle m)) = map_of (single_versions m)"
    by (simp_all add: append_latest append_versions)
  then show "queue_is (host_step h (change_event now epoch m)) (sh_nextTimer h) 1
           (map_of (single_versions m)) (single_latest None m) (sh_log h)"
    and "last_number (host_step h (change_event now epoch m)) = later (last_number h) m"
    using assms single_latest_nonempty [of None m]
    by (simp_all add: applyEvent_def numeral_3_eq_3 receive_live receiveChanged_def Let_def repeats_iff later_def
        runProtocolEffect_def attachFlushTimer_def queue_is_def synchronizedPhase_def MAX_UPDATE_QUEUE_def
        split del: option.split)
qed

lemma queue_next:
  assumes "queue_is h t n vs l lg" "n < MAX_UPDATE_QUEUE" "\<not> repeats (last_number h) m"
  shows "queue_is (host_step h (change_event now epoch m)) t (Suc n)
           (vs ++ map_of (single_versions m)) (single_latest l m) lg"
    and "last_number (host_step h (change_event now epoch m)) = later (last_number h) m"
proof -
  obtain p where p: "pr_coalescing (sh_protocol h) = CoScheduled t p" "pc_count p = n"
    "map_of (pc_sourceVersions p) = vs" "pc_latest p = l" "nonempty l = l"
    using assms(1) by (auto simp: queue_is_def)
  let ?q = "appendChange (CoScheduled t p) m"
  have q: "pc_latest ?q = single_latest l m" "pc_count ?q = Suc n"
    "map_of (pc_sourceVersions ?q) = vs ++ map_of (single_versions m)"
    using p by (simp_all add: append_latest append_versions)
  have "(case single_latest l m of None \<Rightarrow> pc_latest p | Some v \<Rightarrow> Some v) = single_latest l m"
    using p(4) by (auto simp: single_latest_def split: option.splits)
  with p q assms single_latest_nonempty [of l m]
  show "queue_is (host_step h (change_event now epoch m)) t (Suc n)
           (vs ++ map_of (single_versions m)) (single_latest l m) lg"
    and "last_number (host_step h (change_event now epoch m)) = later (last_number h) m"
    by (simp_all add: applyEvent_def numeral_3_eq_3 receive_live receiveChanged_def Let_def repeats_iff later_def
        queue_is_def synchronizedPhase_def)
qed

lemma queue_run:
  "queue_is h t n vs l lg \<Longrightarrow> n + length (new_changes (last_number h) ms) \<le> MAX_UPDATE_QUEUE \<Longrightarrow>
   queue_is (foldl host_step h (List.map (change_event now epoch) ms)) t (n + length (new_changes (last_number h) ms))
     (foldl (\<lambda>vs m. vs ++ map_of (single_versions m)) vs (new_changes (last_number h) ms))
     (foldl single_latest l (new_changes (last_number h) ms)) lg"
proof (induction ms arbitrary: h n vs l)
  case (Cons m ms)
  let ?h = "host_step h (change_event now epoch m)"
  show ?case
  proof (cases "repeats (last_number h) m")
    case True
    have "\<not> ignoresChanges (pr_phase (sh_protocol h))" using Cons.prems(1) by (simp add: queue_is_def)
    note h = change_repeats [OF True this, of now epoch]
    have "queue_is ?h t n vs l lg" using Cons.prems(1) unfolding h by (simp add: queue_is_def)
    moreover have "last_number ?h = last_number h" unfolding h by simp
    ultimately show ?thesis using Cons.IH [of ?h n vs l] Cons.prems(2) True by (simp del: host_step.simps)
  next
    case False
    have "n < MAX_UPDATE_QUEUE" using Cons.prems(2) False by simp
    note q = queue_next [OF Cons.prems(1) this False, of now epoch]
    from Cons.IH [OF q(1)] Cons.prems(2) False show ?thesis by (simp add: q(2) del: host_step.simps)
  qed
qed simp

lemma idle_run:
  assumes "pr_coalescing (sh_protocol h) = CoIdle" "\<not> ignoresChanges (pr_phase (sh_protocol h))" "sh_timers h = []"
    and "new_changes (last_number h) ms = c # cs" "length (c # cs) \<le> MAX_UPDATE_QUEUE"
  shows "queue_is (foldl host_step h (List.map (change_event now epoch) ms)) (sh_nextTimer h) (length (c # cs))
     (foldl (\<lambda>vs m. vs ++ map_of (single_versions m)) (map_of (single_versions c)) cs)
     (foldl single_latest None (c # cs)) (sh_log h)"
  using assms
proof (induction ms arbitrary: h)
  case (Cons m ms)
  let ?h = "host_step h (change_event now epoch m)"
  show ?case
  proof (cases "repeats (last_number h) m")
    case True
    note h = change_repeats [OF True Cons.prems(2), of now epoch]
    have "queue_is (foldl host_step ?h (List.map (change_event now epoch) ms)) (sh_nextTimer ?h) (length (c # cs))
       (foldl (\<lambda>vs m. vs ++ map_of (single_versions m)) (map_of (single_versions c)) cs)
       (foldl single_latest None (c # cs)) (sh_log ?h)"
      by (rule Cons.IH) (use Cons.prems True in \<open>simp_all add: h del: host_step.simps\<close>)
    then show ?thesis by (simp add: h del: host_step.simps)
  next
    case False
    with Cons.prems(4) have "m # new_changes (later (last_number h) m) ms = c # cs"
      by (simp only: new_changes.simps if_not_P [OF False] if_False)
    then have c: "c = m" "cs = new_changes (later (last_number h) m) ms" by blast+
    note q = queue_first [OF Cons.prems(1,2) False Cons.prems(3), of now epoch]
    have "1 + length (new_changes (last_number ?h) ms) \<le> MAX_UPDATE_QUEUE" using Cons.prems(5) by (simp only: q(2) c) simp
    from queue_run [OF q(1) this, of now epoch] show ?thesis by (simp add: q(2) c del: host_step.simps)
  qed
qed simp

lemma versions_compose:
  "foldl (\<lambda>vs m. vs ++ map_of (single_versions m)) (prev ++ vs) ms
     = prev ++ foldl (\<lambda>vs m. vs ++ map_of (single_versions m)) vs ms"
  by (induction ms arbitrary: vs) (simp_all flip: map_add_assoc)

text \<open>
  C11. Coalescing loses nothing and repeats nothing: a live subscription with nothing pending
  receives any changes, numbered or not, of which up to \<open>MAX_UPDATE_QUEUE\<close> and at least one are
  new. It does nothing but arm one timer; when the timer fires, it advances its sources exactly once,
  and for every source this leaves the version that advancing once per new change, in order, would
  have left; the latest version is that of the last new change that carries one. A change is new
  unless it carries a number that does not exceed the last accepted one.
\<close>

theorem coalesced_flush_exact:
  assumes "host_inv h" "pr_coalescing (sh_protocol h) = CoIdle"
    and "\<not> ignoresChanges (pr_phase (sh_protocol h))"
    and "cs = new_changes (pr_lastSequence (sh_protocol h)) ms" "cs \<noteq> []" "length cs \<le> 1000"
  shows "\<exists>vs l.
    sh_log (foldl host_step h (List.map (change_event now epoch) ms)) = sh_log h \<and>
    sh_timers (foldl host_step h (List.map (change_event now epoch) ms)) = [sh_nextTimer h] \<and>
    sh_log (host_step (foldl host_step h (List.map (change_event now epoch) ms))
              (HeTimer now' (sh_nextTimer h))) = sh_log h @ [HaAdvance vs l] \<and>
    (\<forall>prev. prev ++ map_of vs = foldl (\<lambda>vs m. vs ++ map_of (single_versions m)) prev cs) \<and>
    l = foldl single_latest None cs"
proof -
  obtain m cs' where cs: "cs = m # cs'" using assms(5) by (cases cs) auto
  let ?h = "foldl host_step h (List.map (change_event now epoch) ms)"
  let ?l = "foldl single_latest None cs"
  have "sh_timers h = []" using assms(1,2) by (simp add: host_inv_def)
  moreover have "new_changes (last_number h) ms = m # cs'" using assms(4) cs by simp
  moreover have "length (m # cs') \<le> MAX_UPDATE_QUEUE" using assms(6) cs by (simp add: MAX_UPDATE_QUEUE_def)
  ultimately obtain p where p: "pr_coalescing (sh_protocol ?h) = CoScheduled (sh_nextTimer h) p"
    "pc_count p = length cs" "pc_latest p = ?l" "nonempty ?l = ?l" "sh_timers ?h = [sh_nextTimer h]" "sh_log ?h = sh_log h"
    "map_of (pc_sourceVersions p) = foldl (\<lambda>vs m. vs ++ map_of (single_versions m)) (map_of (single_versions m)) cs'"
    using idle_run [OF assms(2,3), of ms m cs' now epoch] unfolding cs [symmetric] by (auto simp: queue_is_def)
  have "sh_log (host_step ?h (HeTimer now' (sh_nextTimer h)))
      = sh_log h @ [HaAdvance (pc_sourceVersions p) ?l]"
    using p flush_apply [of "?h\<lparr>sh_timers := []\<rparr>" "sh_nextTimer h" p now'] assms(5) by simp
  moreover have "prev ++ map_of (pc_sourceVersions p)
      = foldl (\<lambda>vs m. vs ++ map_of (single_versions m)) prev cs" for prev
    using p(7) versions_compose [of prev Map.empty cs] cs by simp
  ultimately show ?thesis using p(5,6) by blast
qed

text \<open>Two numbered changes, the first of which is delivered again in between\<close>

lemma coalesced_flush_exact_witness:
  "\<exists>vs. sh_log (host_step (foldl host_step initialHost (List.map (change_event 5 1)
        [sample_change 1, sample_change 1, (sample_change 2)\<lparr>cm_version := Some ''w''\<rparr>]))
      (HeTimer 155 0)) = [HaAdvance vs (Some ''w'')]"
proof -
  let ?ms = "[sample_change 1, sample_change 1, (sample_change 2)\<lparr>cm_version := Some ''w''\<rparr>]"
  let ?cs = "[sample_change 1, (sample_change 2)\<lparr>cm_version := Some ''w''\<rparr>]"
  have start: "sh_nextTimer initialHost = 0" "sh_log initialHost = []" "foldl single_latest None ?cs = Some ''w''"
    by (simp_all add: initialHost_def single_latest_def)
  have cs: "?cs = new_changes (pr_lastSequence (sh_protocol initialHost)) ?ms"
    by (simp add: initialHost_def initialResourceStreamProtocolState_def later_def sample_change_def)
  have idle: "pr_coalescing (sh_protocol initialHost) = CoIdle" "\<not> ignoresChanges (pr_phase (sh_protocol initialHost))"
    by (simp_all add: initialHost_def initialResourceStreamProtocolState_def)
  from coalesced_flush_exact [OF initial_host_inv idle cs, of 5 1 155] show ?thesis unfolding start by auto
qed

end
