(* ===== verification/StreamLifecycle.thy ===== *)
theory StreamLifecycle
  imports RefreshRuntimeInv ClusterScope
begin

text \<open>
  The streaming half of \<open>frontend/src/core/refresh/orchestrator.ts\<close>: which runtime a scope
  belongs to, enabling and disabling scopes, leases, starting and stopping streams, the
  continuations of the start promises, and the handlers that stop many streams at once.

  The runtimes live in a heap, because continuations keep the runtime they started with while
  the map \<open>clusterRuntimes\<close> may already hold another one; address 0 is the coordinator runtime.
  A start promise is a task number with the list of continuations attached to it: first the
  start's own, then one for each stop that found the start pending. When a promise settles its
  continuations run in this order, one after the other. The cleanup function a start delivers is
  identified with the number of its task (tasks count from 1); 0 is \<open>noopStreamingCleanup\<close>.
  The snapshots being fetched are kept likewise, by the number of the request.
  Calls that leave this component are logged. Scopes are those \<open>normalizeDomainScope\<close> returns,
  an empty one standing for its failure, on which the methods throw before they do anything.
\<close>

section \<open>State\<close>

text \<open>\<open>ps_stops\<close>: the runtimes whose stop is waiting for the start to settle\<close>

record pending_start =
  ps_domain :: string
  ps_scopeOf :: string
  ps_runtime :: nat
  ps_stops :: "nat list"

record scheduled_start =
  sd_domain :: string
  sd_scope :: string
  sd_runtime :: nat

text \<open>\<open>DomainFetchOptions\<close>, and the request a fetch has in flight: \<open>ScopedFetchExecution\<close> with the
  options it was begun with. The promise of the snapshot, the request and its abort controller carry
  the same number.\<close>

record fetch_options =
  fo_isManual :: bool
  fo_streamSignal :: "bool option"
  fo_coalesce :: "bool option"
  fo_queryReconcile :: bool
  fo_allowDisabledRetainedScope :: bool
  fo_signal :: "nat option"

record pending_fetch =
  pf_domain :: string
  pf_scope :: string
  pf_runtime :: nat
  pf_contextVersion :: nat
  pf_options :: fetch_options

datatype orch_call =
    OcStreamStart string string nat
  | OcCleanup nat
  | OcStreamStop string string bool
  | OcResetScoped string string
  | OcScopedLoading string string
  | OcScopedError string string
  | OcInitialSnapshot string string
  | OcRefresher string bool
  | OcMetricsDemand
  | OcResetRemoved "string list"
  | OcClusterPruned string
  | OcEffect effect
  | OcRefreshOnce string string
  | OcFetchScoped readiness_request
  | OcPerformFetch string string
  | OcPermissionReset string string
  | OcClearError string string
  | OcResetDenied string
  | OcResetDomain string
  | OcStreamAcknowledged string string
  | OcSuppressErrors nat

record orch =
  so_heap :: "nat \<Rightarrow> cluster_runtime"
  so_clusterRuntimes :: "(string, nat) jmap"
  so_nextRuntime :: nat
  so_starts :: "(nat, pending_start) jmap"
  so_scheduled :: "(nat, scheduled_start) jmap"
  so_nextTask :: nat
  so_contextVersion :: nat
  so_requestCounter :: nat
  so_fetches :: "(nat, pending_fetch) jmap"
  so_calls :: "orch_call list"

text \<open>What the methods read from the rest of the application: the registrations of the domains,
  whether a cluster's backend serves, whether a scope has data, whether auto-refresh is on, whether
  the current view shows a scope's resource stream, which cluster is selected.\<close>

record stream_env =
  en_domains :: "string list"
  en_streaming :: "string \<Rightarrow> bool"
  en_refreshOnce :: "string \<Rightarrow> bool"
  en_namespaceDomain :: "string \<Rightarrow> bool"
  en_resourceStream :: "string \<Rightarrow> bool"
  en_snapshotless :: "string \<Rightarrow> bool"
  en_allowRefresher :: "string \<Rightarrow> bool"
  en_clusterReady :: "string \<Rightarrow> bool"
  en_hasData :: "string \<Rightarrow> string \<Rightarrow> bool"
  en_autoRefresh :: bool
  en_viewActive :: "string \<Rightarrow> string \<Rightarrow> bool"
  en_selectedClusterId :: "string option"

definition initialOrch :: orch where
  "initialOrch =
     \<lparr>so_heap = (\<lambda>_. newClusterRefreshRuntime ''__coordinator__''), so_clusterRuntimes = [],
      so_nextRuntime = 1, so_starts = [], so_scheduled = [], so_nextTask = 1, so_contextVersion = 0,
      so_requestCounter = 0, so_fetches = [], so_calls = []\<rparr>"

definition call :: "orch_call \<Rightarrow> orch \<Rightarrow> orch" where
  "call c o1 = o1\<lparr>so_calls := so_calls o1 @ [c]\<rparr>"

definition setRuntime :: "nat \<Rightarrow> cluster_runtime \<Rightarrow> orch \<Rightarrow> orch" where
  "setRuntime a rt o1 = o1\<lparr>so_heap := (so_heap o1)(a := rt)\<rparr>"

section \<open>Runtimes\<close>

definition getClusterRuntime :: "string \<Rightarrow> orch \<Rightarrow> orch \<times> nat" where
  "getClusterRuntime clusterId o1 =
     (let normalized = js_trim clusterId in
      case jm_get (so_clusterRuntimes o1) normalized of
        Some a \<Rightarrow> (o1, a)
      | None \<Rightarrow>
          let a = so_nextRuntime o1 in
          (setRuntime a (newClusterRefreshRuntime normalized)
             (o1\<lparr>so_clusterRuntimes := jm_set normalized a (so_clusterRuntimes o1),
                so_nextRuntime := a + 1\<rparr>), a))"

text \<open>\<open>None\<close>: the method throws, because the scope names several clusters\<close>

definition getRuntimeForScope :: "string \<Rightarrow> orch \<Rightarrow> (orch \<times> nat) option" where
  "getRuntimeForScope scope o1 =
     (if scope = [] then Some (o1, 0)
      else let parsed = parseClusterScopeList (Some scope) in
           if pl_isMultiCluster parsed then None
           else case pl_clusterIds parsed of
                  [clusterId] \<Rightarrow> Some (getClusterRuntime clusterId o1)
                | _ \<Rightarrow> Some (o1, 0))"

definition isRuntimeCurrent :: "nat \<Rightarrow> orch \<Rightarrow> bool" where
  "isRuntimeCurrent a o1 \<longleftrightarrow>
     a = 0 \<or> jm_get (so_clusterRuntimes o1) (cr_clusterId (so_heap o1 a)) = Some a"

definition getAllRuntimes :: "orch \<Rightarrow> nat list" where
  "getAllRuntimes o1 = 0 # List.map snd (so_clusterRuntimes o1)"

definition withRuntime :: "string \<Rightarrow> (nat \<Rightarrow> orch \<Rightarrow> orch) \<Rightarrow> orch \<Rightarrow> orch" where
  "withRuntime scope f o1 =
     (case getRuntimeForScope scope o1 of None \<Rightarrow> o1 | Some (o2, a) \<Rightarrow> f a o2)"

definition isScopeClusterServiceable :: "stream_env \<Rightarrow> string \<Rightarrow> orch \<Rightarrow> bool" where
  "isScopeClusterServiceable env scope o1 =
     list_all (\<lambda>clusterId.
         (case jm_get (so_clusterRuntimes o1) clusterId of
            Some a \<Rightarrow> isAuthAvailable (so_heap o1 a) | None \<Rightarrow> True) \<and> en_clusterReady env clusterId)
       (pl_clusterIds (parseClusterScopeList (Some scope)))"

definition hasEnabledSources :: "string \<Rightarrow> orch \<Rightarrow> bool" where
  "hasEnabledSources domain o1 =
     list_ex (\<lambda>a. hasEnabledScopedSources (so_heap o1 a) domain) (getAllRuntimes o1)"

text \<open>Asking for the runtime of a scope would create it; a new runtime blocks nothing.\<close>

definition isStreamingBlockedOrch :: "stream_env \<Rightarrow> string \<Rightarrow> string \<Rightarrow> orch \<Rightarrow> bool" where
  "isStreamingBlockedOrch env domain scope o1 =
     (en_resourceStream env domain \<and> scope \<noteq> [] \<and>
      (case getRuntimeForScope scope o1 of
         Some (o2, a) \<Rightarrow> isStreamingBlocked (so_heap o2 a) domain scope | None \<Rightarrow> False))"

definition shouldStreamScope :: "stream_env \<Rightarrow> string \<Rightarrow> string \<Rightarrow> orch \<Rightarrow> bool" where
  "shouldStreamScope env domain scope o1 =
     (let t = js_trim scope in
      if t = [] then False
      else if \<not> en_autoRefresh env then False
      else if CHR ''?'' \<in> set t then False
      else if \<not> isScopeClusterServiceable env t o1 then False
      else if \<not> en_resourceStream env domain then True
      else if \<not> en_viewActive env domain t then False
      else let parsed = parseClusterScopeList (Some t) in
           if pl_clusterIds parsed = [] then False
           else if pl_isMultiCluster parsed then False
           else \<not> isStreamingBlockedOrch env domain t o1)"

section \<open>Starting a stream\<close>

definition runStreamingCleanup :: "nat option \<Rightarrow> orch \<Rightarrow> orch" where
  "runStreamingCleanup cleanup o1 =
     (case cleanup of None \<Rightarrow> o1 | Some c \<Rightarrow> call (OcCleanup c) o1)"

definition reconcileInitialStreamingSnapshot :: "stream_env \<Rightarrow> string \<Rightarrow> string \<Rightarrow> orch \<Rightarrow> orch" where
  "reconcileInitialStreamingSnapshot env domain scope o1 =
     withRuntime scope (\<lambda>a o2.
       let rt = so_heap o2 a;
           leaseAllowsSnapshot =
             (\<not> hasScopedLease rt domain scope \<or> hasScopedDemand rt domain scope DemandSnapshot)
       in if \<not> leaseAllowsSnapshot \<or> en_snapshotless env domain \<or> en_hasData env domain scope then o2
          else call (OcInitialSnapshot domain scope) o2) o1"

definition startStreamingScope :: "stream_env \<Rightarrow> string \<Rightarrow> string \<Rightarrow> orch \<Rightarrow> orch" where
  "startStreamingScope env domain scope o1 =
     (if \<not> isScopeClusterServiceable env scope o1 then o1
      else withRuntime scope (\<lambda>a o2.
        if \<not> isScopedDomainEnabled (so_heap o2 a) domain scope then o2
        else if isStreamingStartingOrActive (so_heap o2 a) domain scope then o2
        else let task = so_nextTask o2 in
             (setRuntime a (beginStreamingStart (so_heap o2 a) domain scope task)
                (call (OcStreamStart domain scope task) o2))
             \<lparr>so_nextTask := task + 1,
              so_starts := jm_set task \<lparr>ps_domain = domain, ps_scopeOf = scope, ps_runtime = a,
                                    ps_stops = []\<rparr> (so_starts o2)\<rparr>) o1)"

definition completeStreamingStart ::
  "stream_env \<Rightarrow> string \<Rightarrow> string \<Rightarrow> nat \<Rightarrow> nat \<Rightarrow> nat option \<Rightarrow> orch \<Rightarrow> orch" where
  "completeStreamingStart env domain scope a task cleanup o1 =
     (if \<not> isRuntimeCurrent a o1 then runStreamingCleanup cleanup o1
      else withRuntime scope (\<lambda>b o2.
        let enabledNow = isScopedDomainEnabled (so_heap o2 b) domain scope in
        if \<not> enabledNow \<or> isStreamingCancelled (so_heap o2 a) domain scope
        then
          let rt1 = failStreamingStart (so_heap o2 a) domain scope task;
              rt2 = clearStreamingCancelled rt1 domain scope;
              o3 = runStreamingCleanup cleanup (setRuntime a rt2 o2)
          in if enabledNow then startStreamingScope env domain scope o3 else o3
        else
          let (rt1, finished) = finishStreamingStart (so_heap o2 a) domain scope task
                (case cleanup of Some c \<Rightarrow> c | None \<Rightarrow> 0);
              o3 = setRuntime a rt1 o2
          in if \<not> finished then runStreamingCleanup cleanup o3
             else reconcileInitialStreamingSnapshot env domain scope o3) o1)"

text \<open>\<open>failStreamingStart\<close> of the orchestrator\<close>

definition startRejected :: "string \<Rightarrow> string \<Rightarrow> nat \<Rightarrow> nat \<Rightarrow> orch \<Rightarrow> orch" where
  "startRejected domain scope a task o1 =
     (let o2 = setRuntime a (failStreamingStart (so_heap o1 a) domain scope task) o1
      in if \<not> isRuntimeCurrent a o2 then o2 else call (OcScopedError domain scope) o2)"

section \<open>Stopping a stream\<close>

text \<open>The continuation a stop attaches to a pending start, for both outcomes\<close>

definition stopResolved :: "string \<Rightarrow> string \<Rightarrow> nat \<Rightarrow> nat option \<Rightarrow> nat \<Rightarrow> orch \<Rightarrow> orch" where
  "stopResolved domain scope task cleanup a o1 =
     (if \<not> isStreamingCancelled (so_heap o1 a) domain scope then o1
      else let rt1 = failStreamingStart (so_heap o1 a) domain scope task;
               rt2 = clearStreamingCancelled rt1 domain scope
           in runStreamingCleanup cleanup (setRuntime a rt2 o1))"

definition stopRejected :: "string \<Rightarrow> string \<Rightarrow> nat \<Rightarrow> nat \<Rightarrow> orch \<Rightarrow> orch" where
  "stopRejected domain scope task a o1 =
     (let rt1 = failStreamingStart (so_heap o1 a) domain scope task
      in setRuntime a (clearStreamingCancelled rt1 domain scope) o1)"

definition attachStop :: "nat \<Rightarrow> nat \<Rightarrow> orch \<Rightarrow> orch" where
  "attachStop task a o1 =
     (case jm_get (so_starts o1) task of
        None \<Rightarrow> o1
      | Some p \<Rightarrow> o1\<lparr>so_starts := jm_set task (p\<lparr>ps_stops := ps_stops p @ [a]\<rparr>) (so_starts o1)\<rparr>)"

definition cancelPendingStart :: "string \<Rightarrow> string \<Rightarrow> nat \<Rightarrow> orch \<Rightarrow> orch" where
  "cancelPendingStart domain scope a o1 =
     (let (rt1, pending) = cancelStreamingStart (so_heap o1 a) domain scope;
          o2 = setRuntime a rt1 o1
      in case pending of Some task \<Rightarrow> attachStop task a o2 | None \<Rightarrow> o2)"

definition runActiveCleanup :: "string \<Rightarrow> string \<Rightarrow> nat \<Rightarrow> orch \<Rightarrow> orch" where
  "runActiveCleanup domain scope a o1 =
     (case getStreamingCleanup (so_heap o1 a) domain scope of
        Some c \<Rightarrow>
          let o2 = runStreamingCleanup (Some c) o1
          in setRuntime a (deleteStreamingCleanup (so_heap o2 a) domain scope) o2
      | None \<Rightarrow> o1)"

definition stopStreamingScope :: "string \<Rightarrow> string \<Rightarrow> bool \<Rightarrow> orch \<Rightarrow> orch" where
  "stopStreamingScope domain scope reset o1 =
     withRuntime scope (\<lambda>a o2.
       let o3 = runActiveCleanup domain scope a (cancelPendingStart domain scope a o2);
           o4 = setRuntime a (clearStreamHealth (so_heap o3 a) domain scope) o3;
           o5 = call (OcStreamStop domain scope reset) o4
       in if reset then call (OcResetScoped domain scope) o5 else o5) o1"

definition stopRuntimeStreaming :: "stream_env \<Rightarrow> nat \<Rightarrow> bool \<Rightarrow> orch \<Rightarrow> orch" where
  "stopRuntimeStreaming env a reset o1 =
     (let o2 = fold (\<lambda>(domain, scope) o'.
                  if scope = [] \<or> scope = ''*'' then o'
                  else if \<not> en_streaming env domain then o'
                  else stopStreamingScope domain scope reset o')
                (getStreamingScopes (so_heap o1 a)) o1
      in if reset then setRuntime a (clearAllStreaming (so_heap o2 a) reset) o2 else o2)"

definition stopAllStreaming :: "stream_env \<Rightarrow> bool \<Rightarrow> orch \<Rightarrow> orch" where
  "stopAllStreaming env reset o1 =
     fold (\<lambda>a. stopRuntimeStreaming env a reset) (getAllRuntimes o1) o1"

section \<open>In-flight requests\<close>

definition teardownRequest :: "nat \<Rightarrow> string \<Rightarrow> nat \<Rightarrow> orch \<Rightarrow> orch" where
  "teardownRequest a key requestId o1 =
     (let (rt, tracked, effects) = teardownInFlight (so_heap o1 a) key requestId
      in fold (\<lambda>e. call (OcEffect e)) effects (setRuntime a rt o1))"

definition cancelInFlightForScopedDomain :: "string \<Rightarrow> string \<Rightarrow> orch \<Rightarrow> orch" where
  "cancelInFlightForScopedDomain domain scope o1 =
     withRuntime scope (\<lambda>a o2.
       case getInFlight (so_heap o2 a) domain (Some scope) of
         None \<Rightarrow> o2
       | Some (r, t) \<Rightarrow> teardownRequest a (makeInFlightKey domain (Some scope)) (if_requestId r) o2) o1"

definition teardownAll :: "nat \<Rightarrow> orch \<Rightarrow> orch" where
  "teardownAll a o1 =
     fold (\<lambda>((r, t), key). teardownRequest a key (if_requestId r)) (forEachInFlight (so_heap o1 a)) o1"

text \<open>\<open>controller.signal.aborted\<close>\<close>

definition aborted :: "orch \<Rightarrow> nat \<Rightarrow> bool" where
  "aborted o1 i \<longleftrightarrow> OcEffect (AbortController i) \<in> set (so_calls o1)"

text \<open>What \<open>beginFetch\<close> does to the runtime: a request with a new number is in flight, and its
  snapshot is being fetched.\<close>

definition beginRequest :: "string \<Rightarrow> string \<Rightarrow> fetch_options \<Rightarrow> nat \<Rightarrow> orch \<Rightarrow> orch" where
  "beginRequest domain scope options a o1 =
     (let requestId = so_requestCounter o1 + 1;
          request = \<lparr>if_controller = requestId, if_isManual = fo_isManual options,
            if_streamSignal = fo_streamSignal options, if_coalesce = fo_coalesce options,
            if_requestId = requestId, if_cleanup = map_option (\<lambda>_. requestId) (fo_signal options),
            if_completion = Some requestId, if_contextVersion = so_contextVersion o1,
            if_domain = domain, if_scope = Some scope\<rparr>
      in (setRuntime a (fst (setInFlight (so_heap o1 a) request)) o1)
         \<lparr>so_requestCounter := requestId,
          so_fetches := jm_set requestId
            \<lparr>pf_domain = domain, pf_scope = scope, pf_runtime = a,
             pf_contextVersion = so_contextVersion o1, pf_options = options\<rparr> (so_fetches o1)\<rparr>)"

text \<open>What \<open>finishFetch\<close> does to the runtime; the second component is the request it settled.\<close>

definition settleRequest :: "nat \<Rightarrow> orch \<Rightarrow> orch \<times> tracked option" where
  "settleRequest requestId o1 =
     (case jm_get (so_fetches o1) requestId of
        None \<Rightarrow> (o1, None)
      | Some p \<Rightarrow>
          let a = pf_runtime p;
              (rt, tracked) = settleInFlight (so_heap o1 a) (pf_domain p) (Some (pf_scope p)) requestId;
              o2 = (setRuntime a rt o1)\<lparr>so_fetches := jm_delete requestId (so_fetches o1)\<rparr>
          in (case tracked of
                None \<Rightarrow> o2
              | Some (r, t) \<Rightarrow>
                  (case if_cleanup r of None \<Rightarrow> o2 | Some c \<Rightarrow> call (OcEffect (CallCleanup c)) o2),
              tracked))"

section \<open>Enabling and disabling scopes\<close>

definition scheduleStreamingStart :: "string \<Rightarrow> string \<Rightarrow> orch \<Rightarrow> orch" where
  "scheduleStreamingStart domain scope o1 =
     (let scope = js_trim scope in
      if scope = [] then o1
      else withRuntime scope (\<lambda>a o2.
        if hasStreamingReady (so_heap o2 a) domain scope then o2
        else let task = so_nextTask o2;
                 o3 = call (OcScopedLoading domain scope) o2
             in (setRuntime a (setStreamingReady (so_heap o3 a) domain scope task) o3)
                \<lparr>so_nextTask := task + 1,
                 so_scheduled := jm_set task \<lparr>sd_domain = domain, sd_scope = scope, sd_runtime = a\<rparr>
                   (so_scheduled o3)\<rparr>) o1)"

text \<open>The microtask of a scheduled start\<close>

definition runScheduledStart :: "stream_env \<Rightarrow> nat \<Rightarrow> orch \<Rightarrow> orch" where
  "runScheduledStart env task o1 =
     (case jm_get (so_scheduled o1) task of
        None \<Rightarrow> o1
      | Some sd \<Rightarrow>
          let o2 = o1\<lparr>so_scheduled := jm_delete task (so_scheduled o1)\<rparr>;
              domain = sd_domain sd; scope = sd_scope sd; a = sd_runtime sd;
              o3 = (if \<not> isRuntimeCurrent a o2 then o2
                    else withRuntime scope (\<lambda>b o'.
                      if \<not> isScopedDomainEnabled (so_heap o' b) domain scope then o'
                      else startStreamingScope env domain scope o') o2)
          in setRuntime a (clearStreamingReady (so_heap o3 a) domain scope (Some task)) o3)"

definition clearStaleScopes :: "stream_env \<Rightarrow> string \<Rightarrow> string list \<Rightarrow> orch \<Rightarrow> orch" where
  "clearStaleScopes env domain staleScopes o1 =
     fold (\<lambda>staleScope o'.
       let o2 = cancelInFlightForScopedDomain domain staleScope o' in
       if en_streaming env domain
       then stopStreamingScope domain staleScope True
              (withRuntime staleScope (\<lambda>a o3.
                 setRuntime a (clearStreamingReady (so_heap o3 a) domain staleScope None) o3) o2)
       else call (OcResetScoped domain staleScope) o2) staleScopes o1"

definition reconcileRefresherActivity :: "stream_env \<Rightarrow> string \<Rightarrow> bool \<Rightarrow> bool \<Rightarrow> orch \<Rightarrow> orch" where
  "reconcileRefresherActivity env domain wasActive isActive o1 =
     (if \<not> en_allowRefresher env domain \<or> wasActive = isActive then o1
      else call (OcRefresher domain isActive) o1)"

definition reconcileStreamingScopeEnabled ::
  "stream_env \<Rightarrow> string \<Rightarrow> string \<Rightarrow> bool \<Rightarrow> bool \<Rightarrow> nat \<Rightarrow> orch \<Rightarrow> orch" where
  "reconcileStreamingScopeEnabled env domain scope enabled preserveState a o1 =
     (let clearReady = (\<lambda>o'. setRuntime a (clearStreamingReady (so_heap o' a) domain scope None) o') in
      if enabled \<and> shouldStreamScope env domain scope o1
      then let o2 = clearReady o1;
               o3 = (if preserveState then o2 else call (OcResetScoped domain scope) o2)
           in scheduleStreamingStart domain scope o3
      else if \<not> enabled
      then cancelInFlightForScopedDomain domain scope
             (stopStreamingScope domain scope (\<not> preserveState) (clearReady o1))
      else if hasStreamingBookkeeping (so_heap o1 a) domain scope
      then stopStreamingScope domain scope False (clearReady o1)
      else o1)"

definition reconcileScopedDomainStateChange ::
  "stream_env \<Rightarrow> string \<Rightarrow> string \<Rightarrow> bool \<Rightarrow> bool \<Rightarrow> nat \<Rightarrow> bool \<Rightarrow> bool \<Rightarrow> string list \<Rightarrow> orch \<Rightarrow> orch"
  where
  "reconcileScopedDomainStateChange env domain scope enabled preserveState a wasActive changed
     staleScopes o1 =
     (let o2 = clearStaleScopes env domain staleScopes o1 in
      if \<not> changed then call OcMetricsDemand o2
      else
        let o3 = reconcileRefresherActivity env domain wasActive (hasEnabledSources domain o2) o2 in
        if en_streaming env domain
        then call OcMetricsDemand
               (reconcileStreamingScopeEnabled env domain scope enabled preserveState a o3)
        else if \<not> enabled
        then let o4 = cancelInFlightForScopedDomain domain scope o3;
                 o5 = (if preserveState then o4 else call (OcResetScoped domain scope) o4)
             in call OcMetricsDemand o5
        else call OcMetricsDemand o3)"

definition setScopedDomainEnabledOrch ::
  "stream_env \<Rightarrow> string \<Rightarrow> string \<Rightarrow> bool \<Rightarrow> bool \<Rightarrow> orch \<Rightarrow> orch" where
  "setScopedDomainEnabledOrch env domain scope enabled preserveState o1 =
     (if scope = [] then o1
      else withRuntime scope (\<lambda>a o2.
        if \<not> enabled \<and> hasScopedLease (so_heap o2 a) domain scope then call OcMetricsDemand o2
        else
          let wasActive = hasEnabledSources domain o2;
              (rt, change, staleScopes) = applyScopedDomainEnabled (so_heap o2 a) domain scope enabled
          in reconcileScopedDomainStateChange env domain scope enabled preserveState a wasActive
               (sc_changed change) staleScopes (setRuntime a rt o2)) o1)"

definition acquireScopedDomainLease ::
  "stream_env \<Rightarrow> string \<Rightarrow> string \<Rightarrow> demand \<Rightarrow> bool \<Rightarrow> orch \<Rightarrow> orch" where
  "acquireScopedDomainLease env domain scope k preserveState o1 =
     (if scope = [] then o1
      else withRuntime scope (\<lambda>a o2.
        let hadSnapshotDemand = hasScopedDemand (so_heap o2 a) domain scope DemandSnapshot;
            wasActive = hasEnabledSources domain o2;
            (rt, lease) = acquireScopedLease (so_heap o2 a) domain scope k;
            o3 = setRuntime a rt o2
        in if la_firstLease lease
           then let (rt', change, staleScopes) = applyScopedDomainEnabled (so_heap o3 a) domain scope True
                in reconcileScopedDomainStateChange env domain scope True preserveState a wasActive
                     (la_activationChanged lease) staleScopes (setRuntime a rt' o3)
           else if k = DemandSnapshot \<and> \<not> hadSnapshotDemand \<and> en_streaming env domain
           then reconcileInitialStreamingSnapshot env domain scope o3
           else o3) o1)"

definition releaseScopedDomainLease ::
  "stream_env \<Rightarrow> string \<Rightarrow> string \<Rightarrow> demand \<Rightarrow> bool \<Rightarrow> orch \<Rightarrow> orch" where
  "releaseScopedDomainLease env domain scope k preserveState o1 =
     (if scope = [] then o1
      else withRuntime scope (\<lambda>a o2.
        let (rt, lease) = releaseScopedLease (so_heap o2 a) domain scope k;
            o3 = setRuntime a rt o2
        in if lr_lastLease lease
           then setScopedDomainEnabledOrch env domain scope False preserveState o3
           else o3) o1)"

section \<open>Handlers\<close>

definition startStreamingDomain :: "stream_env \<Rightarrow> string \<Rightarrow> string \<Rightarrow> orch \<Rightarrow> orch" where
  "startStreamingDomain env domain scope o1 =
     (if \<not> en_streaming env domain \<or> scope = [] then o1 else startStreamingScope env domain scope o1)"

definition stopStreamingDomain :: "stream_env \<Rightarrow> string \<Rightarrow> string \<Rightarrow> bool \<Rightarrow> orch \<Rightarrow> orch" where
  "stopStreamingDomain env domain scope reset o1 =
     (if \<not> en_streaming env domain \<or> scope = [] then o1 else stopStreamingScope domain scope reset o1)"

definition blockStreamingScope :: "stream_env \<Rightarrow> string \<Rightarrow> string \<Rightarrow> orch \<Rightarrow> orch" where
  "blockStreamingScope env domain scope o1 =
     withRuntime scope (\<lambda>a o2.
       let (rt, blocked) = blockStreaming (so_heap o2 a) domain scope in
       if \<not> blocked then o2
       else let o3 = setRuntime a rt o2
            in if en_streaming env domain then stopStreamingScope domain scope False o3 else o3) o1"

definition handleClusterAuthFailed :: "stream_env \<Rightarrow> string \<Rightarrow> orch \<Rightarrow> orch" where
  "handleClusterAuthFailed env clusterId o1 =
     (let clusterId = js_trim clusterId in
      if clusterId = [] then o1
      else
        let (o2, a) = getClusterRuntime clusterId o1;
            (rt, failed) = markAuthFailed (so_heap o2 a)
        in if \<not> failed then o2
           else let o3 = stopRuntimeStreaming env a False (setRuntime a rt o2);
                    o4 = teardownAll a o3
                in setRuntime a (clearAsyncStreamingBookkeeping (so_heap o4 a)) o4)"

definition pruneRuntime :: "stream_env \<Rightarrow> string \<Rightarrow> nat \<Rightarrow> orch \<Rightarrow> orch" where
  "pruneRuntime env clusterId a o1 =
     (let o2 = teardownAll a (stopRuntimeStreaming env a True o1);
          o3 = setRuntime a (resetAllState (so_heap o2 a)) o2
      in call (OcClusterPruned clusterId)
           (o3\<lparr>so_clusterRuntimes := jm_delete clusterId (so_clusterRuntimes o3)\<rparr>))"

definition pruneRemovedClusterRuntimes :: "stream_env \<Rightarrow> string list \<Rightarrow> orch \<Rightarrow> orch" where
  "pruneRemovedClusterRuntimes env connectedClusterIds o1 =
     (let connected = List.filter (\<lambda>c. c \<noteq> []) (List.map js_trim connectedClusterIds) in
      call OcMetricsDemand
        (fold (\<lambda>(clusterId, a) o'. if clusterId \<in> set connected then o' else pruneRuntime env clusterId a o')
           (so_clusterRuntimes o1) (call (OcResetRemoved connected) o1)))"

text \<open>\<open>handleStreamingScopeChanges\<close>: one scope, and all registered domains for the given
  runtimes\<close>

definition reconcileStreamingScope :: "stream_env \<Rightarrow> string \<Rightarrow> string \<Rightarrow> orch \<Rightarrow> orch" where
  "reconcileStreamingScope env domain scope o1 =
     withRuntime scope (\<lambda>a o2.
       let shouldStream = shouldStreamScope env domain scope o2;
           alreadyStreaming = isStreamingStartingOrActive (so_heap o2 a) domain scope
       in if shouldStream \<and> \<not> alreadyStreaming then scheduleStreamingStart domain scope o2
          else if \<not> shouldStream \<and> alreadyStreaming
          then stopStreamingScope domain scope False
                 (setRuntime a (clearStreamingReady (so_heap o2 a) domain scope None) o2)
          else o2) o1"

definition handleStreamingScopeChanges :: "stream_env \<Rightarrow> nat list \<Rightarrow> orch \<Rightarrow> orch" where
  "handleStreamingScopeChanges env runtimes o1 =
     fold (\<lambda>domain o2. if \<not> en_streaming env domain then o2
             else fold (\<lambda>a o3. fold (reconcileStreamingScope env domain)
                                 (getEnabledScopes (so_heap o3 a) domain) o3)
                    runtimes o2) (en_domains env) o1"

text \<open>A start promise settles: its continuations run in the order they were attached.\<close>

datatype start_outcome = Resolved bool | Rejected

definition settleStart :: "stream_env \<Rightarrow> nat \<Rightarrow> start_outcome \<Rightarrow> orch \<Rightarrow> orch" where
  "settleStart env task outcome o1 =
     (case jm_get (so_starts o1) task of
        None \<Rightarrow> o1
      | Some p \<Rightarrow>
          let o2 = o1\<lparr>so_starts := jm_delete task (so_starts o1)\<rparr>;
              domain = ps_domain p; scope = ps_scopeOf p
          in case outcome of
               Resolved hasCleanup \<Rightarrow>
                 let cleanup = (if hasCleanup then Some task else None)
                 in fold (stopResolved domain scope task cleanup) (ps_stops p)
                      (completeStreamingStart env domain scope (ps_runtime p) task cleanup o2)
             | Rejected \<Rightarrow>
                 fold (stopRejected domain scope task) (ps_stops p)
                   (startRejected domain scope (ps_runtime p) task o2))"

end
