(* ===== verification/StreamLifecycleInv.thy ===== *)
theory StreamLifecycleInv
  imports StreamLifecycle
begin

text \<open>
  No stream is leaked and none is torn down twice: every cleanup function that a start delivers
  is either held by exactly one active connection, of a scope that the orchestrator can still
  reach, or has been called exactly once.
\<close>

section \<open>Connections of a runtime\<close>

abbreviation conn_of :: "cluster_runtime \<Rightarrow> string \<Rightarrow> string \<Rightarrow> stream_conn" where
  "conn_of rt d s \<equiv> st_conn (ss_stream (getScopeState rt d (Some s)))"

abbreviation sok :: "string \<Rightarrow> string \<Rightarrow> bool" where
  "sok d s \<equiv> scope_ok d (Some s)"

text \<open>A change of a connection that neither starts nor ends an active one: the cancellation flag
  changes, or a pending start is forgotten.\<close>

fun tame :: "stream_conn \<Rightarrow> stream_conn \<Rightarrow> bool" where
  "tame ConnInactive c = (c = ConnInactive)"
| "tame (ConnStarting t b) c = (c = ConnInactive \<or> (\<exists>b'. c = ConnStarting t b'))"
| "tame (ConnActive f b) c = (\<exists>b'. c = ConnActive f b')"

lemma tame_refl [simp]: "tame c c"
  by (cases c) auto

lemma tame_trans: "tame a b \<Longrightarrow> tame b c \<Longrightarrow> tame a c"
  by (cases a; cases b) auto

text \<open>The requests a runtime keeps are for scopes with keys of their own.\<close>

definition request_ok :: "scoped_state \<Rightarrow> bool" where
  "request_ok st \<longleftrightarrow>
     (case ss_fetch st of FetchIdle \<Rightarrow> True | Fetching r t \<Rightarrow> scope_ok (if_domain r) (if_scope r)) \<and>
     (case ss_readiness st of Ready \<Rightarrow> True | Waiting r \<Rightarrow> sok (rr_domain r) (rr_scope r))"

definition requests_ok :: "cluster_runtime \<Rightarrow> bool" where
  "requests_ok rt \<longleftrightarrow> (\<forall>d s. scope_ok d s \<longrightarrow> request_ok (getScopeState rt d s))"

abbreviation requests :: "scoped_state \<Rightarrow> fetch_state \<times> readiness_state" where
  "requests st \<equiv> (ss_fetch st, ss_readiness st)"

abbreviation kept :: "scoped_state \<Rightarrow> stream_state \<times> fetch_state \<times> readiness_state" where
  "kept st \<equiv> (ss_stream st, requests st)"

lemma requests_keeps: "sound rt \<Longrightarrow> keeps requests rt rt' \<Longrightarrow> requests_ok rt \<Longrightarrow> requests_ok rt'"
  by (auto simp: requests_ok_def request_ok_def keeps_def)

definition calm_runtime :: "cluster_runtime \<Rightarrow> cluster_runtime \<Rightarrow> bool" where
  "calm_runtime rt rt' \<longleftrightarrow> (sound rt \<longrightarrow> sound rt' \<and> cr_clusterId rt' = cr_clusterId rt \<and>
     (requests_ok rt \<longrightarrow> requests_ok rt') \<and>
     (\<forall>d s. sok d s \<longrightarrow> tame (conn_of rt d s) (conn_of rt' d s)))"

text \<open>The request a scope has in flight, whether or not a signal is latched onto it\<close>

fun request_of :: "fetch_state \<Rightarrow> in_flight option" where
  "request_of FetchIdle = None"
| "request_of (Fetching r t) = Some r"

abbreviation fetch_of :: "cluster_runtime \<Rightarrow> string \<Rightarrow> string option \<Rightarrow> in_flight option" where
  "fetch_of rt d s \<equiv> request_of (ss_fetch (getScopeState rt d s))"

text \<open>A change that also leaves the requests in flight alone\<close>

definition tame_runtime :: "cluster_runtime \<Rightarrow> cluster_runtime \<Rightarrow> bool" where
  "tame_runtime rt rt' \<longleftrightarrow> calm_runtime rt rt' \<and> keeps (\<lambda>st. request_of (ss_fetch st)) rt rt'"

lemma calm_runtime_trans: "calm_runtime a b \<Longrightarrow> calm_runtime b c \<Longrightarrow> calm_runtime a c"
  unfolding calm_runtime_def by (auto; meson tame_trans)

lemma tame_runtime_refl [simp]: "tame_runtime rt rt"
  by (simp add: tame_runtime_def calm_runtime_def)

lemma tame_runtime_trans: "tame_runtime a b \<Longrightarrow> tame_runtime b c \<Longrightarrow> tame_runtime a c"
  unfolding tame_runtime_def by (blast intro: calm_runtime_trans keeps_trans)

lemma tame_calm: "tame_runtime rt rt' \<Longrightarrow> calm_runtime rt rt'"
  by (simp add: tame_runtime_def)

lemma clusterId_store [simp]: "cr_clusterId (storeScopeState rt st) = cr_clusterId rt"
  by (simp add: storeScopeState_def Let_def)

lemma clusterId_apply [simp]:
  "cr_clusterId (fst (applyActivationEvent rt d s ae)) = cr_clusterId rt"
  "cr_clusterId (fst (applyFetchEvent rt d s' fe)) = cr_clusterId rt"
  "cr_clusterId (applyPermissionEvent rt d s pe) = cr_clusterId rt"
  "cr_clusterId (applyStreamEvent rt d s se) = cr_clusterId rt"
  "cr_clusterId (fst (applyAuthEvent rt aue)) = cr_clusterId rt"
  by (simp_all add: applyActivationEvent_def applyFetchEvent_def applyPermissionEvent_def
      applyStreamEvent_def applyAuthEvent_def Let_def)

lemma clusterId_fold:
  "(\<And>x rt. cr_clusterId (f x rt) = cr_clusterId rt) \<Longrightarrow> cr_clusterId (fold f xs rt) = cr_clusterId rt"
  by (induction xs arbitrary: rt) auto

lemma clusterId_all [simp]: "cr_clusterId (applyStreamEventToAll rt e) = cr_clusterId rt"
  unfolding applyStreamEventToAll_def by (rule clusterId_fold) (simp split: option.splits)

lemma clusterId_enabled [simp]:
  "cr_clusterId (fst (applyScopedDomainEnabled rt d s b)) = cr_clusterId rt"
proof -
  have "cr_clusterId (fst (disableOtherEnabledScopes rt d s)) = cr_clusterId rt"
    unfolding disableOtherEnabledScopes_def Let_def fst_conv by (rule clusterId_fold) simp
  then show ?thesis by (simp add: apply_enabled_fst set_enabled_fst)
qed

lemma tame_keeps: "keeps kept rt rt' \<Longrightarrow> cr_clusterId rt' = cr_clusterId rt \<Longrightarrow> tame_runtime rt rt'"
  by (simp add: tame_runtime_def calm_runtime_def keeps_def requests_ok_def request_ok_def)

lemma conn_stream:
  assumes "sound rt" "sok d s" "sok d' s'"
  shows "conn_of (applyStreamEvent rt d s e) d' s' =
    (if d' = d \<and> s' = s then st_conn (transitionScopedStreamState (ss_stream (getScopeState rt d (Some s))) e)
     else conn_of rt d' s')"
  using assms by (simp add: stream_get)

lemma tame_stream:
  assumes "sok d s" "\<And>st. tame (st_conn st) (st_conn (transitionScopedStreamState st e))"
  shows "tame_runtime rt (applyStreamEvent rt d s e)"
proof -
  have "calm_runtime rt (applyStreamEvent rt d s e)"
    unfolding calm_runtime_def
    using assms requests_keeps [OF _ keeps_stream [of requests d s rt e]]
    by (auto simp: conn_stream sound_stream dest: sound_stream)
  then show ?thesis using assms(1) by (simp add: tame_runtime_def keeps_stream)
qed

text \<open>The stream events that are tame\<close>

fun tame_event :: "stream_event \<Rightarrow> bool" where
  "tame_event (SeStartBegan _) = False"
| "tame_event (SeStartFinished _ _) = False"
| "tame_event SeCleanupRemoved = False"
| "tame_event (SeAllCleared _) = False"
| "tame_event _ = True"

lemma tame_transition:
  "tame_event e \<Longrightarrow> tame (st_conn st) (st_conn (transitionScopedStreamState st e))"
  by (cases e; cases "st_conn st") (auto simp: stream_conn_transition)

lemma tame_apply: "sok d s \<Longrightarrow> tame_event e \<Longrightarrow> tame_runtime rt (applyStreamEvent rt d s e)"
  by (rule tame_stream) (auto intro: tame_transition)

text \<open>An event applied to all scopes relates each connection as the event does.\<close>

lemma stream_all_rel:
  assumes refl: "\<And>c. R c c" and trans: "\<And>a b c. R a b \<Longrightarrow> R b c \<Longrightarrow> R a c"
    and step: "\<And>st. R (st_conn st) (st_conn (transitionScopedStreamState st e))"
    and "sound rt" "sok d s"
  shows "R (conn_of rt d s) (conn_of (applyStreamEventToAll rt e) d s)"
proof -
  let ?f = "\<lambda>state rt. case ss_scope state of
             None \<Rightarrow> rt | Some scope \<Rightarrow> applyStreamEvent rt (ss_domain state) scope e"
  have "sound (fold ?f sts rt') \<and> R (conn_of rt' d s) (conn_of (fold ?f sts rt') d s)"
    if "sound rt'" "\<forall>st\<in>set sts. state_ok st" for sts rt'
    using that
  proof (induction sts arbitrary: rt')
    case (Cons st sts)
    show ?case
    proof (cases "ss_scope st")
      case None
      with Cons show ?thesis by simp
    next
      case (Some x)
      let ?rt = "applyStreamEvent rt' (ss_domain st) x e"
      have ok: "sok (ss_domain st) x" using Some Cons.prems(2) by simp
      have "sound ?rt" using Cons.prems(1) ok by (rule sound_stream)
      moreover have "R (conn_of rt' d s) (conn_of ?rt d s)"
        using conn_stream [OF Cons.prems(1) ok assms(5)] refl step by simp
      ultimately show ?thesis using Cons.IH [of ?rt] Cons.prems Some trans by fastforce
    qed
  qed (simp add: refl)
  then show ?thesis
    using assms(4) stored_scope_ok [of rt] unfolding applyStreamEventToAll_def by blast
qed

lemma sound_stream_all: "sound rt \<Longrightarrow> sound (applyStreamEventToAll rt e)"
  using keeps_stream_all [of "\<lambda>_. ()" rt e] by (simp add: keeps_def)

lemma tame_stream_all: "tame_event e \<Longrightarrow> tame_runtime rt (applyStreamEventToAll rt e)"
  unfolding tame_runtime_def calm_runtime_def
  using stream_all_rel [of tame e rt] tame_trans tame_transition sound_stream_all
    requests_keeps [OF _ keeps_stream_all [of requests rt e]]
    keeps_stream_all [of "\<lambda>st. request_of (ss_fetch st)" rt e] by auto

lemma tame_block: "sok d s \<Longrightarrow> tame_runtime rt (fst (blockStreaming rt d s))"
  unfolding tame_runtime_def calm_runtime_def
proof (intro impI conjI allI)
  assume ok: "sok d s"
  then show "keeps (\<lambda>st. request_of (ss_fetch st)) rt (fst (blockStreaming rt d s))"
    by (simp add: keeps_stream_block)
  assume "sound rt"
  with ok have s: "sok d s" "sound rt" by auto
  then show "runtime_ok (fst (blockStreaming rt d s))" "ids_ok (fst (blockStreaming rt d s))"
    using keeps_stream_block [of "\<lambda>_. ()" d s rt] by (auto simp: keeps_def)
  show "cr_clusterId (fst (blockStreaming rt d s)) = cr_clusterId rt"
    by (simp add: blockStreaming_def Let_def)
  show "requests_ok rt \<Longrightarrow> requests_ok (fst (blockStreaming rt d s))"
    using s requests_keeps [OF _ keeps_stream_block [of requests d s rt]] by auto
  show "tame (conn_of rt d' s') (conn_of (fst (blockStreaming rt d s)) d' s')" if "sok d' s'" for d' s'
    using s that tame_transition [of SeBlocked] by (auto simp: blockStreaming_def Let_def get_store)
qed

lemma calm_fetch:
  assumes "scope_ok d s" "\<And>r. e = FetchStarted r \<Longrightarrow> scope_ok (if_domain r) (if_scope r)"
  shows "calm_runtime rt (fst (applyFetchEvent rt d s e))"
  unfolding calm_runtime_def
proof (intro impI conjI)
  assume sn: "sound rt"
  then show "runtime_ok (fst (applyFetchEvent rt d s e))"
    "ids_ok (fst (applyFetchEvent rt d s e))"
    using assms(1) sound_fetch by blast+
  show "\<forall>d' s'. sok d' s' \<longrightarrow> tame (conn_of rt d' s') (conn_of (fst (applyFetchEvent rt d s e)) d' s')"
    using sn assms keeps_fetch [of ss_stream d s rt e] by (simp add: keeps_def)
  have "request_ok (getScopeState (fst (applyFetchEvent rt d s e)) d' s')"
    if "request_ok (getScopeState rt d' s')" "scope_ok d' s'" for d' s'
  proof -
    have "ss_readiness (getScopeState (fst (applyFetchEvent rt d s e)) d' s')
        = ss_readiness (getScopeState rt d' s')"
      using sn assms that(2) keeps_fetch [of ss_readiness d s rt e] by (simp add: keeps_def)
    with that sn assms show ?thesis
      by (cases e) (auto simp: request_ok_def fetch_get split: fetch_state.splits if_splits)
  qed
  then show "requests_ok rt \<Longrightarrow> requests_ok (fst (applyFetchEvent rt d s e))"
    by (simp add: requests_ok_def)
qed simp

lemma no_request_iff: "getInFlight rt d s = None \<longleftrightarrow> fetch_of rt d s = None"
  by (simp add: getInFlight_def trackedRequest_def getFetchState_def split: fetch_state.split)

lemma tame_latch:
  assumes "scope_ok d s"
  shows "tame_runtime rt (latchTrailingStreamSignal rt d s)"
proof -
  have "keeps (\<lambda>st. request_of (ss_fetch st)) rt (latchTrailingStreamSignal rt d s)"
    using assms by (auto simp: latchTrailingStreamSignal_def keeps_def sound_fetch fetch_get
        split: fetch_state.splits if_splits)
  with assms calm_fetch [of d s StreamSignalReceived rt] show ?thesis
    by (simp add: tame_runtime_def latchTrailingStreamSignal_def)
qed

lemma calm_teardown: "calm_runtime rt (fst (teardownInFlight rt key i))"
proof (cases "sound rt \<and> jm_get (cr_scopedStates rt) key \<noteq> None")
  case True
  then obtain st where st: "jm_get (cr_scopedStates rt) key = Some st" by auto
  then have "(key, st) \<in> set (cr_scopedStates rt)" by (rule jm_get_in)
  with True have "state_ok st" by (auto simp: ids_ok_def list_all_iff)
  with st show ?thesis using calm_fetch [of _ _ "FetchCancelled i"] by (simp add: teardown_fst)
next
  case False
  then show ?thesis by (auto simp: teardown_fst calm_runtime_def split: option.splits)
qed

section \<open>Routing\<close>

text \<open>The runtime a scope belongs to: none, the coordinator or that of one cluster\<close>

definition scope_cluster :: "string \<Rightarrow> string option option" where
  "scope_cluster scope =
     (if scope = [] then Some None
      else let parsed = parseClusterScopeList (Some scope) in
           if pl_isMultiCluster parsed then None
           else case pl_clusterIds parsed of [c] \<Rightarrow> Some (Some (js_trim c)) | _ \<Rightarrow> Some None)"

lemma getClusterRuntime_trim [simp]: "getClusterRuntime (js_trim c) o1 = getClusterRuntime c o1"
  by (simp add: getClusterRuntime_def)

lemma route_eq:
  "getRuntimeForScope scope o1 =
     (case scope_cluster scope of None \<Rightarrow> None | Some None \<Rightarrow> Some (o1, 0)
      | Some (Some c) \<Rightarrow> Some (getClusterRuntime c o1))"
  by (simp add: getRuntimeForScope_def scope_cluster_def Let_def split: list.splits)

lemma scope_cluster_trimmed: "scope_cluster s = Some (Some c) \<Longrightarrow> js_trim c = c"
  by (auto simp: scope_cluster_def Let_def split: if_splits list.splits)

definition map_ok :: "orch \<Rightarrow> bool" where
  "map_ok o1 \<longleftrightarrow> jm_ok (so_clusterRuntimes o1) \<and> 0 < so_nextRuntime o1 \<and>
     (\<forall>k a. jm_get (so_clusterRuntimes o1) k = Some a \<longrightarrow>
        0 < a \<and> a < so_nextRuntime o1 \<and> cr_clusterId (so_heap o1 a) = k)"

definition belongs :: "orch \<Rightarrow> string \<Rightarrow> nat \<Rightarrow> bool" where
  "belongs o1 scope a \<longleftrightarrow> (case scope_cluster scope of None \<Rightarrow> False | Some None \<Rightarrow> a = 0
     | Some (Some c) \<Rightarrow> 0 < a \<and> a < so_nextRuntime o1 \<and> cr_clusterId (so_heap o1 a) = c)"

lemma route_current:
  "belongs o1 s a \<Longrightarrow> isRuntimeCurrent a o1 \<Longrightarrow> getRuntimeForScope s o1 = Some (o1, a)"
  by (auto simp: belongs_def isRuntimeCurrent_def route_eq getClusterRuntime_def Let_def
      dest: scope_cluster_trimmed split: option.splits)

section \<open>The invariant\<close>

text \<open>\<open>pend E o1 t\<close>: the start of task \<open>t\<close> is not settled, or it is the one whose
  continuations are running (\<open>E\<close>).\<close>

definition pend :: "(nat \<times> pending_start) option \<Rightarrow> orch \<Rightarrow> nat \<Rightarrow> pending_start option" where
  "pend E o1 t =
     (if \<exists>p. E = Some (t, p) then map_option snd E else jm_get (so_starts o1) t)"

abbreviation slot :: "orch \<Rightarrow> nat \<Rightarrow> string \<Rightarrow> string \<Rightarrow> stream_conn" where
  "slot o1 a d s \<equiv> conn_of (so_heap o1 a) d s"

definition cleaned :: "orch \<Rightarrow> nat \<Rightarrow> nat" where
  "cleaned o1 t = count_list (so_calls o1) (OcCleanup t)"

definition held :: "orch \<Rightarrow> nat \<Rightarrow> bool" where
  "held o1 t \<longleftrightarrow> (\<exists>a d s b. sok d s \<and> slot o1 a d s = ConnActive t b)"

definition slots_ok :: "stream_env \<Rightarrow> (nat \<times> pending_start) option \<Rightarrow> orch \<Rightarrow> bool" where
  "slots_ok env E o1 \<longleftrightarrow> (\<forall>a d s. sok d s \<longrightarrow> slot o1 a d s \<noteq> ConnInactive \<longrightarrow>
     en_streaming env d \<and> s \<noteq> [] \<and> belongs o1 s a \<and> isRuntimeCurrent a o1 \<and>
     (\<forall>t b. slot o1 a d s = ConnStarting t b \<longrightarrow>
        (\<exists>p. pend E o1 t = Some p \<and> ps_domain p = d \<and> ps_scopeOf p = s \<and> ps_runtime p = a)))"

definition unique_ok :: "orch \<Rightarrow> bool" where
  "unique_ok o1 \<longleftrightarrow> (\<forall>a d s b a' d' s' b' f. sok d s \<longrightarrow> sok d' s' \<longrightarrow> f \<noteq> 0 \<longrightarrow>
     slot o1 a d s = ConnActive f b \<longrightarrow> slot o1 a' d' s' = ConnActive f b' \<longrightarrow>
     a' = a \<and> d' = d \<and> s' = s)"

definition pending_ok :: "stream_env \<Rightarrow> (nat \<times> pending_start) option \<Rightarrow> orch \<Rightarrow> bool" where
  "pending_ok env E o1 \<longleftrightarrow> 0 < so_nextTask o1 \<and>
     (\<forall>t p. E = Some (t, p) \<longrightarrow> jm_get (so_starts o1) t = None) \<and> (\<forall>t p. pend E o1 t = Some p \<longrightarrow>
     0 < t \<and> t < so_nextTask o1 \<and> sok (ps_domain p) (ps_scopeOf p) \<and> en_streaming env (ps_domain p) \<and>
     ps_scopeOf p \<noteq> [] \<and> belongs o1 (ps_scopeOf p) (ps_runtime p) \<and> set (ps_stops p) \<subseteq> {ps_runtime p})"

definition scheduled_ok :: "stream_env \<Rightarrow> orch \<Rightarrow> bool" where
  "scheduled_ok env o1 \<longleftrightarrow> (\<forall>t sd. jm_get (so_scheduled o1) t = Some sd \<longrightarrow>
     sok (sd_domain sd) (sd_scope sd) \<and> en_streaming env (sd_domain sd) \<and> sd_scope sd \<noteq> [])"

text \<open>\<open>D\<close>: the tasks whose start has delivered a cleanup function\<close>

definition account_ok :: "nat set \<Rightarrow> orch \<Rightarrow> bool" where
  "account_ok D o1 \<longleftrightarrow>
     (\<forall>t\<in>D. 0 < t \<and> t < so_nextTask o1 \<and> jm_get (so_starts o1) t = None) \<and>
     (\<forall>t>0. if t \<in> D then cleaned o1 t = (if held o1 t then 0 else 1)
            else cleaned o1 t = 0 \<and> \<not> held o1 t)"

text \<open>Every request in flight is that of a pending fetch, of the runtime that its scope still has;
  every pending fetch has its request in flight or is aborted.\<close>

definition tracked_ok :: "orch \<Rightarrow> nat \<Rightarrow> string \<Rightarrow> string option \<Rightarrow> in_flight \<Rightarrow> bool" where
  "tracked_ok o1 a d s r \<longleftrightarrow> if_controller r = if_requestId r \<and> if_domain r = d \<and> if_scope r = s \<and>
     isRuntimeCurrent a o1 \<and> (\<exists>p. jm_get (so_fetches o1) (if_requestId r) = Some p \<and>
       pf_domain p = d \<and> s = Some (pf_scope p) \<and> pf_runtime p = a \<and>
       pf_contextVersion p = if_contextVersion r)"

definition fetch_ok :: "orch \<Rightarrow> nat \<Rightarrow> pending_fetch \<Rightarrow> bool" where
  "fetch_ok o1 i p \<longleftrightarrow> 0 < i \<and> i \<le> so_requestCounter o1 \<and> sok (pf_domain p) (pf_scope p) \<and>
     belongs o1 (pf_scope p) (pf_runtime p) \<and> (aborted o1 i \<or>
     (\<exists>r. fetch_of (so_heap o1 (pf_runtime p)) (pf_domain p) (Some (pf_scope p)) = Some r \<and>
       if_requestId r = i))"

definition flights_ok :: "orch \<Rightarrow> bool" where
  "flights_ok o1 \<longleftrightarrow>
     (\<forall>a d s r. scope_ok d s \<longrightarrow> fetch_of (so_heap o1 a) d s = Some r \<longrightarrow> tracked_ok o1 a d s r) \<and>
     (\<forall>i p. jm_get (so_fetches o1) i = Some p \<longrightarrow> fetch_ok o1 i p) \<and>
     (\<forall>i. aborted o1 i \<longrightarrow> i \<le> so_requestCounter o1) \<and> jm_ok (so_fetches o1)"

lemma flights_tracked:
  "flights_ok o1 \<Longrightarrow> scope_ok d s \<Longrightarrow> fetch_of (so_heap o1 a) d s = Some r \<Longrightarrow> tracked_ok o1 a d s r"
  by (simp add: flights_ok_def)

lemma flights_fetch: "flights_ok o1 \<Longrightarrow> jm_get (so_fetches o1) i = Some p \<Longrightarrow> fetch_ok o1 i p"
  by (simp add: flights_ok_def)

lemma tracked_place:
  "tracked_ok o1 a d s r \<Longrightarrow> jm_get (so_fetches o1) (if_requestId r) = Some p \<Longrightarrow>
   a = pf_runtime p \<and> d = pf_domain p \<and> s = Some (pf_scope p) \<and> if_contextVersion r = pf_contextVersion p"
  by (auto simp: tracked_ok_def)

lemma flights_same:
  assumes "flights_ok o1"
    and "\<And>a d s. scope_ok d s \<Longrightarrow> fetch_of (so_heap o2 a) d s = fetch_of (so_heap o1 a) d s"
    and "\<And>s a. belongs o1 s a \<Longrightarrow> belongs o2 s a"
    and "\<And>a. isRuntimeCurrent a o1 \<Longrightarrow> isRuntimeCurrent a o2"
    and "so_fetches o2 = so_fetches o1" "so_requestCounter o2 = so_requestCounter o1"
      "aborted o2 = aborted o1"
  shows "flights_ok o2"
proof -
  have "tracked_ok o2 a d s r" if "scope_ok d s" "fetch_of (so_heap o2 a) d s = Some r" for a d s r
  proof -
    have "tracked_ok o1 a d s r" using assms(1) that by (simp add: assms(2) flights_ok_def)
    then show ?thesis using assms(4) [of a] by (simp add: assms(5) tracked_ok_def)
  qed
  moreover have "fetch_ok o2 i p" if "jm_get (so_fetches o2) i = Some p" for i p
  proof -
    have "fetch_ok o1 i p" using assms(1) that by (simp add: assms(5) flights_ok_def)
    then show ?thesis using assms(3) [of "pf_scope p" "pf_runtime p"]
      by (auto simp: fetch_ok_def assms(2,6,7))
  qed
  ultimately show ?thesis using assms(1) by (simp add: flights_ok_def assms(5-7))
qed

definition orch_inv ::
  "stream_env \<Rightarrow> (nat \<times> pending_start) option \<Rightarrow> nat set \<Rightarrow> orch \<Rightarrow> bool" where
  "orch_inv env E D o1 \<longleftrightarrow> (\<forall>a. sound (so_heap o1 a)) \<and> (\<forall>a. requests_ok (so_heap o1 a)) \<and> map_ok o1 \<and> slots_ok env E o1 \<and>
     unique_ok o1 \<and> pending_ok env E o1 \<and> account_ok D o1 \<and> scheduled_ok env o1 \<and> flights_ok o1"

text \<open>Steps that keep the invariant and all entries of \<open>clusterRuntimes\<close>, that open no stream,
  begin and end no fetch and undo no abort\<close>

definition grow :: "orch \<Rightarrow> orch \<Rightarrow> bool" where
  "grow o1 o2 \<longleftrightarrow> (\<forall>k a. jm_get (so_clusterRuntimes o1) k = Some a \<longrightarrow>
     jm_get (so_clusterRuntimes o2) k = Some a)"

text \<open>The scopes for which an error was logged\<close>

definition errors :: "orch \<Rightarrow> (string \<times> string) set" where
  "errors o1 = {(d, s). OcScopedError d s \<in> set (so_calls o1)}"

definition steady :: "orch \<Rightarrow> orch \<Rightarrow> bool" where
  "steady o1 o2 \<longleftrightarrow> so_fetches o2 = so_fetches o1 \<and> so_requestCounter o2 = so_requestCounter o1 \<and>
     so_contextVersion o1 \<le> so_contextVersion o2 \<and> (\<forall>i. aborted o1 i \<longrightarrow> aborted o2 i) \<and>
     (\<forall>(d, s)\<in>errors o2 - errors o1. sok d s)"

lemma steady_refl [simp]: "steady o1 o1"
  by (simp add: steady_def)

lemma steady_trans: "steady o1 o2 \<Longrightarrow> steady o2 o3 \<Longrightarrow> steady o1 o3"
  unfolding steady_def by (fastforce elim: order_trans)

definition fewer :: "orch \<Rightarrow> orch \<Rightarrow> bool" where
  "fewer o1 o2 \<longleftrightarrow> steady o1 o2 \<and> (\<forall>a d s. scope_ok d s \<longrightarrow>
     fetch_of (so_heap o2 a) d s = fetch_of (so_heap o1 a) d s \<or> fetch_of (so_heap o2 a) d s = None)"

definition no_new :: "orch \<Rightarrow> orch \<Rightarrow> bool" where
  "no_new o1 o2 \<longleftrightarrow> (\<forall>a d s f b. sok d s \<longrightarrow> slot o2 a d s = ConnActive f b \<longrightarrow>
     (\<exists>b'. slot o1 a d s = ConnActive f b')) \<and> fewer o1 o2"

lemma fewer_trans: "fewer o1 o2 \<Longrightarrow> fewer o2 o3 \<Longrightarrow> fewer o1 o3"
  unfolding fewer_def by (metis steady_trans)

lemma fewer_refl [simp]: "fewer o1 o1"
  by (simp add: fewer_def)

definition quiet ::
  "stream_env \<Rightarrow> (nat \<times> pending_start) option \<Rightarrow> nat set \<Rightarrow> orch \<Rightarrow> orch \<Rightarrow> bool" where
  "quiet env E D o1 o2 \<longleftrightarrow>
     (orch_inv env E D o1 \<longrightarrow> orch_inv env E D o2 \<and> grow o1 o2 \<and> no_new o1 o2)"

lemma no_new_trans: "no_new o1 o2 \<Longrightarrow> no_new o2 o3 \<Longrightarrow> no_new o1 o3"
  unfolding no_new_def by (meson fewer_trans)

lemma quiet_refl [simp]: "quiet env E D o1 o1"
  by (simp add: quiet_def grow_def no_new_def)

lemma quiet_trans: "quiet env E D o1 o2 \<Longrightarrow> quiet env E D o2 o3 \<Longrightarrow> quiet env E D o1 o3"
  by (auto simp: quiet_def grow_def intro: no_new_trans)

lemma quiet_inv: "quiet env E D o1 o2 \<Longrightarrow> orch_inv env E D o1 \<Longrightarrow> orch_inv env E D o2"
  by (simp add: quiet_def)

lemma quiet_steady: "quiet env E D o1 o2 \<Longrightarrow> orch_inv env E D o1 \<Longrightarrow> steady o1 o2"
  by (simp add: quiet_def no_new_def fewer_def)

lemma quiet_invI: "(orch_inv env E D o1 \<Longrightarrow> quiet env E D o1 o2) \<Longrightarrow> quiet env E D o1 o2"
  by (auto simp: quiet_def)

lemma quiet_fold:
  "(\<And>x o2. x \<in> set xs \<Longrightarrow> quiet env E D o2 (f x o2)) \<Longrightarrow> quiet env E D o1 (fold f xs o1)"
  by (induction xs arbitrary: o1) (auto intro: quiet_trans)

text \<open>Steps whose connections change tamely\<close>

lemma tame_active: "tame c c' \<Longrightarrow> (\<exists>b. c' = ConnActive f b) \<longleftrightarrow> (\<exists>b. c = ConnActive f b)"
  by (cases c) auto

lemma inv_calm:
  assumes "\<And>a. calm_runtime (so_heap o1 a) (so_heap o2 a)"
    and "so_clusterRuntimes o2 = so_clusterRuntimes o1" "so_nextRuntime o2 = so_nextRuntime o1"
    and "so_nextTask o1 \<le> so_nextTask o2"
    and "\<And>t. jm_get (so_starts o2) t = None \<longleftrightarrow> jm_get (so_starts o1) t = None"
    and "\<And>t p. jm_get (so_starts o1) t = Some p \<Longrightarrow> \<exists>q. jm_get (so_starts o2) t = Some q \<and>
           ps_domain q = ps_domain p \<and> ps_scopeOf q = ps_scopeOf p \<and> ps_runtime q = ps_runtime p \<and>
           (set (ps_stops p) \<subseteq> {ps_runtime p} \<longrightarrow> set (ps_stops q) \<subseteq> {ps_runtime p})"
    and "\<And>t. cleaned o2 t = cleaned o1 t"
    and "scheduled_ok env o1 \<Longrightarrow> scheduled_ok env o2"
    and "orch_inv env E D o1 \<Longrightarrow> flights_ok o2"
    and I: "orch_inv env E D o1"
  shows "orch_inv env E D o2 \<and> grow o1 o2 \<and> (fewer o1 o2 \<longrightarrow> no_new o1 o2)"
proof -
  from I have s1: "sound (so_heap o1 a)" for a by (simp add: orch_inv_def)
  have s2: "sound (so_heap o2 a)" and cid: "cr_clusterId (so_heap o2 a) = cr_clusterId (so_heap o1 a)"
    and tame: "sok d s \<Longrightarrow> tame (slot o1 a d s) (slot o2 a d s)"
    and rq: "requests_ok (so_heap o2 a)" for a d s
    using assms(1) [of a] s1 [of a] I by (auto simp: calm_runtime_def orch_inv_def)
  have act: "(\<exists>b. slot o2 a d s = ConnActive f b) \<longleftrightarrow> (\<exists>b. slot o1 a d s = ConnActive f b)"
    if "sok d s" for a d s f
    by (rule tame_active [OF tame [OF that]])
  have held: "held o2 t = held o1 t" for t
    unfolding held_def using act by blast
  have belongs: "belongs o2 s a = belongs o1 s a" for s a
    by (simp add: belongs_def cid assms(3) split: option.split)
  have cur: "isRuntimeCurrent a o2 = isRuntimeCurrent a o1" for a
    by (simp add: isRuntimeCurrent_def cid assms(2))
  have pend: "\<exists>q. pend E o2 t = Some q \<and> ps_domain q = ps_domain p \<and> ps_scopeOf q = ps_scopeOf p
      \<and> ps_runtime q = ps_runtime p"
    if "pend E o1 t = Some p" for t p
    using that assms(6) [of t p] by (auto simp: pend_def split: if_splits)
  have pend2: "\<exists>p. pend E o1 t = Some p \<and> ps_domain q = ps_domain p \<and> ps_scopeOf q = ps_scopeOf p \<and>
      ps_runtime q = ps_runtime p \<and>
      (set (ps_stops p) \<subseteq> {ps_runtime p} \<longrightarrow> set (ps_stops q) \<subseteq> {ps_runtime p})"
    if "pend E o2 t = Some q" for t q
    using that assms(5,6) [of t]
    by (cases "jm_get (so_starts o1) t") (auto simp: pend_def split: if_splits)
  have "map_ok o2" using I by (simp add: orch_inv_def map_ok_def cid assms(2,3))
  moreover have "slots_ok env E o2"
    unfolding slots_ok_def
  proof (intro allI impI)
    fix a d s
    assume ok: "sok d s" "slot o2 a d s \<noteq> ConnInactive"
    then have ne: "slot o1 a d s \<noteq> ConnInactive" using tame [of d s a] by auto
    then have *: "en_streaming env d \<and> s \<noteq> [] \<and> belongs o1 s a \<and> isRuntimeCurrent a o1 \<and>
       (\<forall>t b. slot o1 a d s = ConnStarting t b \<longrightarrow>
        (\<exists>p. pend E o1 t = Some p \<and> ps_domain p = d \<and> ps_scopeOf p = s \<and> ps_runtime p = a))"
      using I ok by (auto simp: orch_inv_def slots_ok_def)
    moreover have "\<exists>p. pend E o2 t = Some p \<and> ps_domain p = d \<and> ps_scopeOf p = s \<and> ps_runtime p = a"
      if st: "slot o2 a d s = ConnStarting t b" for t b
    proof -
      obtain b' where "slot o1 a d s = ConnStarting t b'"
        using tame [OF ok(1), of a] st by (cases "slot o1 a d s") auto
      with * obtain p where "pend E o1 t = Some p" "ps_domain p = d" "ps_scopeOf p = s" "ps_runtime p = a"
        by blast
      with pend [of t p] show ?thesis by auto
    qed
    ultimately show "en_streaming env d \<and> s \<noteq> [] \<and> belongs o2 s a \<and> isRuntimeCurrent a o2 \<and>
       (\<forall>t b. slot o2 a d s = ConnStarting t b \<longrightarrow>
        (\<exists>p. pend E o2 t = Some p \<and> ps_domain p = d \<and> ps_scopeOf p = s \<and> ps_runtime p = a))"
      by (simp add: belongs cur)
  qed
  moreover have "unique_ok o2"
    unfolding unique_ok_def
  proof (intro allI impI)
    fix a d s b a' d' s' b' f
    assume h: "sok d s" "sok d' s'" "f \<noteq> (0::nat)" "slot o2 a d s = ConnActive f b"
      "slot o2 a' d' s' = ConnActive f b'"
    then obtain c c' where "slot o1 a d s = ConnActive f c" "slot o1 a' d' s' = ConnActive f c'"
      using act by meson
    with h I show "a' = a \<and> d' = d \<and> s' = s" unfolding orch_inv_def unique_ok_def by blast
  qed
  moreover have "pending_ok env E o2"
    unfolding pending_ok_def
  proof (intro conjI allI impI)
    fix t q
    assume "pend E o2 t = Some q"
    from pend2 [OF this] obtain p where p: "pend E o1 t = Some p" "ps_domain q = ps_domain p"
      "ps_scopeOf q = ps_scopeOf p" "ps_runtime q = ps_runtime p"
      "set (ps_stops p) \<subseteq> {ps_runtime p} \<longrightarrow> set (ps_stops q) \<subseteq> {ps_runtime p}" by blast
    with I assms(4) show "0 < t" "t < so_nextTask o2" "sok (ps_domain q) (ps_scopeOf q)"
      "en_streaming env (ps_domain q)" "ps_scopeOf q \<noteq> []" "belongs o2 (ps_scopeOf q) (ps_runtime q)"
      "set (ps_stops q) \<subseteq> {ps_runtime q}"
      by (auto simp: orch_inv_def pending_ok_def belongs dest!: spec [of _ t])
  qed (use I assms(4,5) in \<open>simp_all add: orch_inv_def pending_ok_def\<close>)
  moreover have "account_ok D o2"
    using I assms(4,5,7) by (fastforce simp: orch_inv_def account_ok_def held)
  moreover have "fewer o1 o2 \<longrightarrow> no_new o1 o2" unfolding no_new_def using act by meson
  ultimately show "orch_inv env E D o2 \<and> grow o1 o2 \<and> (fewer o1 o2 \<longrightarrow> no_new o1 o2)"
    using I s2 rq assms(2,8) assms(9) [OF I] by (simp add: orch_inv_def grow_def)
qed

lemma quiet_calm:
  assumes "\<And>a. calm_runtime (so_heap o1 a) (so_heap o2 a)"
    and "so_clusterRuntimes o2 = so_clusterRuntimes o1" "so_nextRuntime o2 = so_nextRuntime o1"
    and "so_nextTask o1 \<le> so_nextTask o2"
    and "\<And>t. jm_get (so_starts o2) t = None \<longleftrightarrow> jm_get (so_starts o1) t = None"
    and "\<And>t p. jm_get (so_starts o1) t = Some p \<Longrightarrow> \<exists>q. jm_get (so_starts o2) t = Some q \<and>
           ps_domain q = ps_domain p \<and> ps_scopeOf q = ps_scopeOf p \<and> ps_runtime q = ps_runtime p \<and>
           (set (ps_stops p) \<subseteq> {ps_runtime p} \<longrightarrow> set (ps_stops q) \<subseteq> {ps_runtime p})"
    and "\<And>t. cleaned o2 t = cleaned o1 t"
    and "scheduled_ok env o1 \<Longrightarrow> scheduled_ok env o2"
    and fl: "orch_inv env E D o1 \<Longrightarrow> flights_ok o2 \<and> fewer o1 o2"
  shows "quiet env E D o1 o2"
  unfolding quiet_def
proof
  assume I: "orch_inv env E D o1"
  show "orch_inv env E D o2 \<and> grow o1 o2 \<and> no_new o1 o2"
    using inv_calm [OF assms(1-8) conjunct1 [OF fl] I] fl [OF I] by blast
qed

lemma quiet_tame:
  assumes tame: "\<And>a. tame_runtime (so_heap o1 a) (so_heap o2 a)"
    and map: "so_clusterRuntimes o2 = so_clusterRuntimes o1" "so_nextRuntime o2 = so_nextRuntime o1"
    and "so_nextTask o1 \<le> so_nextTask o2"
    and "\<And>t. jm_get (so_starts o2) t = None \<longleftrightarrow> jm_get (so_starts o1) t = None"
    and "\<And>t p. jm_get (so_starts o1) t = Some p \<Longrightarrow> \<exists>q. jm_get (so_starts o2) t = Some q \<and>
           ps_domain q = ps_domain p \<and> ps_scopeOf q = ps_scopeOf p \<and> ps_runtime q = ps_runtime p \<and>
           (set (ps_stops p) \<subseteq> {ps_runtime p} \<longrightarrow> set (ps_stops q) \<subseteq> {ps_runtime p})"
    and "\<And>t. cleaned o2 t = cleaned o1 t"
    and "scheduled_ok env o1 \<Longrightarrow> scheduled_ok env o2"
    and fetches: "so_fetches o2 = so_fetches o1" "so_requestCounter o2 = so_requestCounter o1"
      "\<And>i. aborted o2 i = aborted o1 i" "\<forall>(d, s)\<in>errors o2 - errors o1. sok d s" "so_contextVersion o1 \<le> so_contextVersion o2"
  shows "quiet env E D o1 o2"
proof (rule quiet_calm [OF tame_calm [OF tame] assms(2-8)])
  assume I: "orch_inv env E D o1"
  then have sn: "sound (so_heap o1 a)" for a by (simp add: orch_inv_def)
  then have cid: "cr_clusterId (so_heap o2 a) = cr_clusterId (so_heap o1 a)" for a
    using tame [of a] by (simp add: tame_runtime_def calm_runtime_def)
  have same: "fetch_of (so_heap o2 a) d s = fetch_of (so_heap o1 a) d s" if "scope_ok d s" for a d s
    using tame [of a] sn [of a] that by (simp add: tame_runtime_def keeps_def)
  then have "fewer o1 o2" by (simp add: fewer_def steady_def fetches)
  moreover have "flights_ok o2"
  proof (rule flights_same [of o1])
    show "flights_ok o1" using I by (simp add: orch_inv_def)
    show "fetch_of (so_heap o2 a) d s = fetch_of (so_heap o1 a) d s" if "scope_ok d s" for a d s
      using that by (rule same)
    show "belongs o1 s a \<Longrightarrow> belongs o2 s a" for s a
      by (simp add: belongs_def cid map split: option.splits)
    show "isRuntimeCurrent a o1 \<Longrightarrow> isRuntimeCurrent a o2" for a
      by (simp add: isRuntimeCurrent_def cid map)
  qed (simp_all add: fetches fun_eq_iff)
  ultimately show "flights_ok o2 \<and> fewer o1 o2" by simp
qed

lemma slotD:
  "orch_inv env E D o1 \<Longrightarrow> sok d s \<Longrightarrow> slot o1 a d s \<noteq> ConnInactive \<Longrightarrow>
     en_streaming env d \<and> s \<noteq> [] \<and> belongs o1 s a \<and> isRuntimeCurrent a o1 \<and>
     (\<forall>t b. slot o1 a d s = ConnStarting t b \<longrightarrow>
        (\<exists>p. pend E o1 t = Some p \<and> ps_domain p = d \<and> ps_scopeOf p = s \<and> ps_runtime p = a))"
  by (simp add: orch_inv_def slots_ok_def)

section \<open>Quiet steps\<close>

lemma call_simps [simp]:
  "so_heap (call c o1) = so_heap o1" "so_clusterRuntimes (call c o1) = so_clusterRuntimes o1"
  "so_nextRuntime (call c o1) = so_nextRuntime o1" "so_starts (call c o1) = so_starts o1"
  "so_scheduled (call c o1) = so_scheduled o1" "so_nextTask (call c o1) = so_nextTask o1"
  "so_calls (call c o1) = so_calls o1 @ [c]"
  "cleaned (call c o1) t = cleaned o1 t + (if c = OcCleanup t then 1 else 0)"
  "so_fetches (call c o1) = so_fetches o1" "so_requestCounter (call c o1) = so_requestCounter o1"
  "so_contextVersion (call c o1) = so_contextVersion o1"
  "aborted (call c o1) i = (aborted o1 i \<or> c = OcEffect (AbortController i))"
  "errors (call c o1) = errors o1 \<union> {(d, s). c = OcScopedError d s}"
  by (auto simp: call_def cleaned_def aborted_def errors_def)

lemma setRuntime_simps [simp]:
  "so_heap (setRuntime a rt o1) = (so_heap o1)(a := rt)"
  "so_clusterRuntimes (setRuntime a rt o1) = so_clusterRuntimes o1"
  "so_nextRuntime (setRuntime a rt o1) = so_nextRuntime o1"
  "so_starts (setRuntime a rt o1) = so_starts o1"
  "so_scheduled (setRuntime a rt o1) = so_scheduled o1"
  "so_nextTask (setRuntime a rt o1) = so_nextTask o1"
  "so_calls (setRuntime a rt o1) = so_calls o1"
  "cleaned (setRuntime a rt o1) = cleaned o1"
  "scheduled_ok env (setRuntime a rt o1) = scheduled_ok env o1"
  "so_fetches (setRuntime a rt o1) = so_fetches o1"
  "so_requestCounter (setRuntime a rt o1) = so_requestCounter o1"
  "so_contextVersion (setRuntime a rt o1) = so_contextVersion o1"
  "aborted (setRuntime a rt o1) = aborted o1" "errors (setRuntime a rt o1) = errors o1"
  by (auto simp: setRuntime_def cleaned_def scheduled_ok_def aborted_def errors_def)

lemma aborted_update [simp]:
  "aborted (so_nextTask_update f o1) = aborted o1" "aborted (so_starts_update g o1) = aborted o1"
  "aborted (so_scheduled_update h o1) = aborted o1" "aborted (so_clusterRuntimes_update k o1) = aborted o1"
  "aborted (so_contextVersion_update f o1) = aborted o1" "aborted (so_fetches_update l o1) = aborted o1"
  "aborted (so_requestCounter_update f o1) = aborted o1"
  by (simp_all add: aborted_def fun_eq_iff)

lemma errors_update [simp]:
  "errors (so_nextTask_update f o1) = errors o1" "errors (so_starts_update g o1) = errors o1"
  "errors (so_scheduled_update h o1) = errors o1" "errors (so_clusterRuntimes_update k o1) = errors o1"
  "errors (so_contextVersion_update f o1) = errors o1" "errors (so_fetches_update l o1) = errors o1"
  "errors (so_requestCounter_update f o1) = errors o1"
  by (simp_all add: errors_def)

lemma scheduled_same: "so_scheduled o2 = so_scheduled o1 \<Longrightarrow> scheduled_ok env o2 = scheduled_ok env o1"
  by (simp add: scheduled_ok_def)

lemma quiet_set: "tame_runtime (so_heap o1 a) rt \<Longrightarrow> quiet env E D o1 (setRuntime a rt o1)"
  by (rule quiet_tame) auto

lemma quiet_call:
  "(\<And>t. c \<noteq> OcCleanup t \<and> c \<noteq> OcEffect (AbortController t)) \<Longrightarrow>
   (\<And>d s. c = OcScopedError d s \<Longrightarrow> sok d s) \<Longrightarrow> quiet env E D o1 (call c o1)"
  by (rule quiet_tame) (auto simp: scheduled_ok_def)

lemma quiet_schedule:
  "sok d s \<Longrightarrow> en_streaming env d \<Longrightarrow> s \<noteq> [] \<Longrightarrow> so_nextTask o1 \<le> t' \<Longrightarrow> quiet env E D o1
     (o1\<lparr>so_nextTask := t', so_scheduled := jm_set t \<lparr>sd_domain = d, sd_scope = s, sd_runtime = a\<rparr>
        (so_scheduled o1)\<rparr>)"
  by (rule quiet_tame) (auto simp: cleaned_def scheduled_ok_def aborted_def)

lemma quiet_unschedule: "quiet env E D o1 (o1\<lparr>so_scheduled := jm_delete t (so_scheduled o1)\<rparr>)"
  by (rule quiet_tame) (auto simp: cleaned_def scheduled_ok_def aborted_def)

lemma quiet_attach:
  assumes "\<And>p. jm_get (so_starts o1) task = Some p \<Longrightarrow> ps_runtime p = a"
  shows "quiet env E D o1 (attachStop task a o1)"
proof (cases "jm_get (so_starts o1) task")
  case (Some p)
  with assms show ?thesis
    by (intro quiet_tame) (auto simp: attachStop_def cleaned_def scheduled_ok_def aborted_def)
qed (simp add: attachStop_def)

lemma fresh_runtime [simp]: "conn_of (newClusterRefreshRuntime c) d s = ConnInactive"
  "ss_fetch (getScopeState (newClusterRefreshRuntime c) d s') = FetchIdle"
  "cr_clusterId (newClusterRefreshRuntime c) = c"
  by (simp_all add: getScopeState_def newClusterRefreshRuntime_def inactiveStreamState_def)

text \<open>A runtime is created: its address was not in use.\<close>

lemma inv_current_less: "map_ok o1 \<Longrightarrow> isRuntimeCurrent a o1 \<Longrightarrow> a < so_nextRuntime o1"
  by (auto simp: map_ok_def isRuntimeCurrent_def)

lemma quiet_new_runtime:
  assumes new: "jm_get (so_clusterRuntimes o1) c = None"
    and heap: "so_heap o2 = (so_heap o1)(so_nextRuntime o1 := newClusterRefreshRuntime c)"
    and rts: "so_clusterRuntimes o2 = jm_set c (so_nextRuntime o1) (so_clusterRuntimes o1)"
    and nxt: "so_nextRuntime o2 = Suc (so_nextRuntime o1)"
    and rest: "so_starts o2 = so_starts o1" "so_nextTask o2 = so_nextTask o1"
      "so_calls o2 = so_calls o1" "so_scheduled o2 = so_scheduled o1"
      "so_fetches o2 = so_fetches o1" "so_requestCounter o2 = so_requestCounter o1"
      "so_contextVersion o2 = so_contextVersion o1"
  shows "quiet env E D o1 o2"
  unfolding quiet_def
proof
  let ?n = "so_nextRuntime o1"
  assume I: "orch_inv env E D o1"
  then have m: "map_ok o1" by (simp add: orch_inv_def)
  have old: "slot o1 ?n d s = ConnInactive" if "sok d s" for d s
    using slotD [OF I that, of ?n] inv_current_less [OF m, of ?n] by auto
  have slot: "slot o2 a d s = slot o1 a d s" if "sok d s" for a d s
    using old [OF that] by (simp add: heap)
  have held: "held o2 t = held o1 t" for t
    unfolding held_def by (metis slot)
  have bel: "belongs o1 s a \<Longrightarrow> belongs o2 s a" for s a
    using m by (auto simp: belongs_def heap nxt split: option.splits)
  have cur: "isRuntimeCurrent a o2" if "isRuntimeCurrent a o1" for a
    using inv_current_less [OF m that] new that by (auto simp: isRuntimeCurrent_def heap rts)
  have pend: "pend E o2 = pend E o1" by (auto simp: pend_def rest)
  have cleaned: "cleaned o2 = cleaned o1" by (auto simp: cleaned_def rest)
  have "map_ok o2" using m by (fastforce simp: map_ok_def less_Suc_eq heap rts nxt)
  moreover have "slots_ok env E o2"
    using I bel cur unfolding orch_inv_def slots_ok_def pend by (simp add: slot)
  moreover have "unique_ok o2"
    using I unfolding orch_inv_def unique_ok_def by (simp add: slot)
  moreover have "pending_ok env E o2"
    using I bel unfolding orch_inv_def pending_ok_def pend by (simp add: rest)
  moreover have "account_ok D o2"
    using I held cleaned by (simp add: orch_inv_def account_ok_def rest)
  moreover have same: "fetch_of (so_heap o2 a) d s = fetch_of (so_heap o1 a) d s" if "scope_ok d s" for a d s
  proof (cases "a = ?n \<and> fetch_of (so_heap o1 ?n) d s \<noteq> None")
    case True
    moreover have "flights_ok o1" using I by (simp add: orch_inv_def)
    ultimately have "isRuntimeCurrent ?n o1" using that by (auto simp: flights_ok_def tracked_ok_def)
    then show ?thesis using inv_current_less [OF m] by blast
  qed (auto simp: heap)
  then have "no_new o1 o2" unfolding no_new_def by (simp add: slot fewer_def steady_def rest aborted_def errors_def)
  moreover have "sound (so_heap o2 a)" for a using I by (simp add: orch_inv_def heap)
  moreover have "requests_ok (so_heap o2 a)" for a
    using I by (simp add: orch_inv_def heap requests_ok_def request_ok_def newClusterRefreshRuntime_def
        getScopeState_def)
  moreover have "grow o1 o2" using new by (auto simp: grow_def rts)
  moreover have "flights_ok o2"
  proof (rule flights_same [of o1])
    show "flights_ok o1" using I by (simp add: orch_inv_def)
  qed (simp_all add: same bel cur rest aborted_def fun_eq_iff)
  ultimately show "orch_inv env E D o2 \<and> grow o1 o2 \<and> no_new o1 o2"
    using I scheduled_same [OF rest(4)] by (simp add: orch_inv_def)
qed

lemma quiet_getClusterRuntime:
  "quiet env E D o1 (fst (getClusterRuntime c o1))"
  by (auto simp: getClusterRuntime_def Let_def split: option.splits
      intro!: quiet_new_runtime [where c = "js_trim c"])

lemma getClusterRuntime_belongs:
  assumes "map_ok o1" "getClusterRuntime c o1 = (o2, a)" "js_trim c = c"
  shows "0 < a \<and> a < so_nextRuntime o2 \<and> cr_clusterId (so_heap o2 a) = c \<and> isRuntimeCurrent a o2"
  using assms by (auto simp: getClusterRuntime_def Let_def isRuntimeCurrent_def map_ok_def
      split: option.splits)

lemma route_inv:
  assumes I: "orch_inv env E D o1" and r: "getRuntimeForScope s o1 = Some (o2, a)"
  shows "quiet env E D o1 o2" "orch_inv env E D o2" "belongs o2 s a" "isRuntimeCurrent a o2"
proof -
  have "quiet env E D o1 o2 \<and> orch_inv env E D o2 \<and> belongs o2 s a \<and> isRuntimeCurrent a o2"
  proof (cases "scope_cluster s")
    case None
    with r show ?thesis by (simp add: route_eq)
  next
    case (Some x)
    show ?thesis
    proof (cases x)
      case None
      with r Some I show ?thesis by (simp add: route_eq belongs_def isRuntimeCurrent_def)
    next
      case x: (Some c)
      with r Some have g: "getClusterRuntime c o1 = (o2, a)" by (simp add: route_eq)
      then have q: "quiet env E D o1 o2" using quiet_getClusterRuntime [of env E D o1 c] by simp
      with I have "orch_inv env E D o2" by (simp add: quiet_def)
      moreover have "belongs o2 s a" "isRuntimeCurrent a o2"
        using getClusterRuntime_belongs [OF _ g] I Some x scope_cluster_trimmed [of s c]
        by (auto simp: belongs_def orch_inv_def)
      ultimately show ?thesis using q by simp
    qed
  qed
  then show "quiet env E D o1 o2" "orch_inv env E D o2" "belongs o2 s a" "isRuntimeCurrent a o2" by simp_all
qed

text \<open>A method that finds the runtime of its scope and goes on with it\<close>

lemma quiet_route:
  assumes "\<And>o2 a. orch_inv env E D o2 \<Longrightarrow> belongs o2 scope a \<Longrightarrow> isRuntimeCurrent a o2 \<Longrightarrow>
             quiet env E D o2 (f a o2)"
  shows "quiet env E D o1 (withRuntime scope f o1)"
proof (rule quiet_invI)
  assume I: "orch_inv env E D o1"
  show ?thesis
  proof (cases "getRuntimeForScope scope o1")
    case (Some x)
    then obtain o2 a where x: "getRuntimeForScope scope o1 = Some (o2, a)" by (cases x) auto
    note r = route_inv [OF I x]
    show ?thesis
      using quiet_trans [OF r(1) assms [OF r(2-4)]] by (simp add: withRuntime_def x)
  qed (simp add: withRuntime_def)
qed

lemma inv_route:
  assumes "orch_inv env E D o1"
    and "\<And>o2 a. orch_inv env E D o2 \<Longrightarrow> belongs o2 s a \<Longrightarrow> isRuntimeCurrent a o2 \<Longrightarrow> orch_inv env E D (f a o2)"
  shows "orch_inv env E D (withRuntime s f o1)"
  using assms route_inv [OF assms(1), of s] by (auto simp: withRuntime_def split: option.splits)

text \<open>One connection of one runtime changes, and nothing else in the heap.\<close>

lemma slot_stream:
  assumes "sound (so_heap o1 a)" "sok d s" "sok d' s'"
  shows "slot (setRuntime a (applyStreamEvent (so_heap o1 a) d s e) o1) a' d' s' =
    (if a' = a \<and> d' = d \<and> s' = s
     then st_conn (transitionScopedStreamState (ss_stream (getScopeState (so_heap o1 a) d (Some s))) e)
     else slot o1 a' d' s')"
  using assms by (auto simp: conn_stream)

text \<open>A changed slot in a state that is otherwise like the old one: the parts of the invariant
  that do not depend on which connection it is\<close>

lemma slot_change:
  assumes I: "orch_inv env E D o1" and ok: "sok d s"
    and heap: "so_heap o2 = (so_heap o1)(a := applyStreamEvent (so_heap o1 a) d s e)"
    and map: "so_clusterRuntimes o2 = so_clusterRuntimes o1" "so_nextRuntime o2 = so_nextRuntime o1"
    and fl: "so_fetches o2 = so_fetches o1" "so_requestCounter o2 = so_requestCounter o1"
      "aborted o2 = aborted o1" "errors o2 = errors o1" "so_contextVersion o2 = so_contextVersion o1"
  shows "sok d' s' \<Longrightarrow> slot o2 a' d' s' =
      (if a' = a \<and> d' = d \<and> s' = s
       then st_conn (transitionScopedStreamState (ss_stream (getScopeState (so_heap o1 a) d (Some s))) e)
       else slot o1 a' d' s')"
    and "sound (so_heap o2 x) \<and> requests_ok (so_heap o2 x)" "map_ok o2" "belongs o2 = belongs o1"
    and "isRuntimeCurrent x o2 = isRuntimeCurrent x o1" "grow o1 o2" "flights_ok o2" "fewer o1 o2"
proof -
  have snd: "sound (so_heap o1 a)" for a using I by (simp add: orch_inv_def)
  then show "sok d' s' \<Longrightarrow> slot o2 a' d' s' =
      (if a' = a \<and> d' = d \<and> s' = s
       then st_conn (transitionScopedStreamState (ss_stream (getScopeState (so_heap o1 a) d (Some s))) e)
       else slot o1 a' d' s')"
    using ok by (auto simp: heap conn_stream)
  have "requests_ok (so_heap o1 x)" for x using I by (simp add: orch_inv_def)
  with requests_keeps [OF snd keeps_stream [of requests d s _ e]] ok
  show "sound (so_heap o2 x) \<and> requests_ok (so_heap o2 x)"
    using snd sound_stream [of "so_heap o1 a" d s e] by (simp add: heap)
  have cid: "cr_clusterId (so_heap o2 x) = cr_clusterId (so_heap o1 x)" for x by (simp add: heap)
  show "map_ok o2" using I by (simp add: orch_inv_def map_ok_def map cid)
  show bel: "belongs o2 = belongs o1"
    by (intro ext) (simp add: belongs_def map cid split: option.split)
  show cur: "isRuntimeCurrent x o2 = isRuntimeCurrent x o1" for x
    by (simp add: isRuntimeCurrent_def map cid)
  show "grow o1 o2" by (simp add: grow_def map)
  have same: "fetch_of (so_heap o2 a) d s = fetch_of (so_heap o1 a) d s" if "scope_ok d s" for a d s
    using keeps_getD [OF keeps_stream [of ss_fetch] snd that] ok by (simp add: heap)
  then show "fewer o1 o2" by (simp add: fewer_def steady_def fl)
  show "flights_ok o2"
    by (rule flights_same [of o1]) (use I in \<open>simp_all add: same bel cur fl orch_inv_def\<close>)
qed

lemma quiet_begin:
  assumes "sok d s" "en_streaming env d" "s \<noteq> []" "belongs o1 s a" "isRuntimeCurrent a o1"
    and inactive: "slot o1 a d s = ConnInactive"
    and heap: "so_heap o2 = (so_heap o1)(a := beginStreamingStart (so_heap o1 a) d s (so_nextTask o1))"
    and map: "so_clusterRuntimes o2 = so_clusterRuntimes o1" "so_nextRuntime o2 = so_nextRuntime o1"
    and nt: "so_nextTask o2 = so_nextTask o1 + 1"
    and st: "so_starts o2 = jm_set (so_nextTask o1)
       \<lparr>ps_domain = d, ps_scopeOf = s, ps_runtime = a, ps_stops = []\<rparr> (so_starts o1)"
    and cl: "cleaned o2 = cleaned o1" and sd: "so_scheduled o2 = so_scheduled o1"
    and fl: "so_fetches o2 = so_fetches o1" "so_requestCounter o2 = so_requestCounter o1"
      "aborted o2 = aborted o1" "errors o2 = errors o1" "so_contextVersion o2 = so_contextVersion o1"
  shows "quiet env E D o1 o2"
  unfolding quiet_def
proof
  let ?t = "so_nextTask o1"
  assume I: "orch_inv env E D o1"
  note ch = slot_change [OF I assms(1) heap [unfolded beginStreamingStart_def] map fl]
  have new: "slot o2 a d s = ConnInactive \<or> slot o2 a d s = ConnStarting ?t False"
    using ch(1) [of d s a] assms(1) inactive by (simp add: stream_conn_transition)
  have old: "slot o2 a' d' s' = slot o1 a' d' s'" if "sok d' s'" "(a', d', s') \<noteq> (a, d, s)" for a' d' s'
    using ch(1) [OF that(1), of a'] that(2) by auto
  have act: "slot o2 a' d' s' = ConnActive f b \<longleftrightarrow> slot o1 a' d' s' = ConnActive f b"
    if "sok d' s'" for a' d' s' f b
    using new old [OF that, of a'] inactive by (cases "(a', d', s') = (a, d, s)") auto
  have held: "held o2 t = held o1 t" for t unfolding held_def using act by blast
  have noE: "E \<noteq> Some (?t, p)" for p
  proof
    assume "E = Some (?t, p)"
    then have "pend E o1 ?t = Some p" by (simp add: pend_def)
    with I show False by (auto simp: orch_inv_def pending_ok_def)
  qed
  have pend: "pend E o2 t = (if t = ?t then Some \<lparr>ps_domain = d, ps_scopeOf = s, ps_runtime = a, ps_stops = []\<rparr>
     else pend E o1 t)" for t
    using noE by (auto simp: pend_def st)
  have none: "pend E o1 ?t = None"
    using I by (cases "pend E o1 ?t") (auto simp: orch_inv_def pending_ok_def)
  have "slots_ok env E o2"
    unfolding slots_ok_def
  proof (intro allI impI)
    fix a' d' s'
    assume h: "sok d' s'" "slot o2 a' d' s' \<noteq> ConnInactive"
    show "en_streaming env d' \<and> s' \<noteq> [] \<and> belongs o2 s' a' \<and> isRuntimeCurrent a' o2 \<and>
      (\<forall>t b. slot o2 a' d' s' = ConnStarting t b \<longrightarrow>
        (\<exists>p. pend E o2 t = Some p \<and> ps_domain p = d' \<and> ps_scopeOf p = s' \<and> ps_runtime p = a'))"
    proof (cases "(a', d', s') = (a, d, s)")
      case True
      with new h assms(2-5) ch(4,5) show ?thesis by (auto simp: pend)
    next
      case False
      note o = old [OF h(1) False]
      with h have "slot o1 a' d' s' \<noteq> ConnInactive" by simp
      with I h(1) have "en_streaming env d' \<and> s' \<noteq> [] \<and> belongs o1 s' a' \<and> isRuntimeCurrent a' o1 \<and>
        (\<forall>t b. slot o1 a' d' s' = ConnStarting t b \<longrightarrow>
          (\<exists>p. pend E o1 t = Some p \<and> ps_domain p = d' \<and> ps_scopeOf p = s' \<and> ps_runtime p = a'))"
        by (simp add: orch_inv_def slots_ok_def)
      with none show ?thesis by (auto simp: o ch(4,5) pend)
    qed
  qed
  moreover have "unique_ok o2"
    using I unfolding orch_inv_def unique_ok_def by (simp add: act)
  moreover have "pending_ok env E o2"
    using I assms(1-4) unfolding orch_inv_def pending_ok_def pend nt ch(4)
    by (auto split: if_splits simp: less_Suc_eq st noE)
  moreover have "account_ok D o2"
    using I by (fastforce simp: orch_inv_def account_ok_def held cl nt st)
  moreover have "no_new o1 o2" unfolding no_new_def using ch(8) by (simp add: act)
  ultimately show "orch_inv env E D o2 \<and> grow o1 o2 \<and> no_new o1 o2"
    using I ch(2,3,6,7) scheduled_same [OF sd] by (simp add: orch_inv_def)
qed

text \<open>The change of one slot that leads away from \<open>ConnStarting\<close> of any new task: slots and
  pending starts stay in order.\<close>

lemma slot_change_ok:
  assumes I: "orch_inv env E D o1" and ok: "sok d s"
    and heap: "so_heap o2 = (so_heap o1)(a := applyStreamEvent (so_heap o1 a) d s e)"
    and map: "so_clusterRuntimes o2 = so_clusterRuntimes o1" "so_nextRuntime o2 = so_nextRuntime o1"
    and rest: "so_starts o2 = so_starts o1" "so_nextTask o2 = so_nextTask o1"
    and fl: "so_fetches o2 = so_fetches o1" "so_requestCounter o2 = so_requestCounter o1"
      "aborted o2 = aborted o1" "errors o2 = errors o1" "so_contextVersion o2 = so_contextVersion o1"
    and was: "slot o1 a d s \<noteq> ConnInactive" and now: "\<And>t b. slot o2 a d s \<noteq> ConnStarting t b"
  shows "slots_ok env E o2" "pending_ok env E o2"
proof -
  note ch = slot_change [OF I ok heap map fl]
  have pend: "pend E o2 = pend E o1" by (auto simp: pend_def rest)
  show "pending_ok env E o2"
    using I by (simp add: orch_inv_def pending_ok_def pend rest ch(4))
  show "slots_ok env E o2"
    unfolding slots_ok_def pend ch(4) ch(5)
  proof (intro allI impI)
    fix a' d' s'
    assume h: "sok d' s'" "slot o2 a' d' s' \<noteq> ConnInactive"
    have c: "slot o2 a' d' s' = slot o1 a' d' s' \<or> (a' = a \<and> d' = d \<and> s' = s)"
      using ch(1) [OF h(1), of a'] by auto
    then have ne: "slot o1 a' d' s' \<noteq> ConnInactive" using h(2) was by auto
    with I h(1) have "en_streaming env d' \<and> s' \<noteq> [] \<and> belongs o1 s' a' \<and> isRuntimeCurrent a' o1 \<and>
        (\<forall>t b. slot o1 a' d' s' = ConnStarting t b \<longrightarrow>
          (\<exists>p. pend E o1 t = Some p \<and> ps_domain p = d' \<and> ps_scopeOf p = s' \<and> ps_runtime p = a'))"
      by (simp add: orch_inv_def slots_ok_def)
    with c now show "en_streaming env d' \<and> s' \<noteq> [] \<and> belongs o1 s' a' \<and> isRuntimeCurrent a' o1 \<and>
        (\<forall>t b. slot o2 a' d' s' = ConnStarting t b \<longrightarrow>
          (\<exists>p. pend E o1 t = Some p \<and> ps_domain p = d' \<and> ps_scopeOf p = s' \<and> ps_runtime p = a'))"
      by auto
  qed
qed

text \<open>An active stream is stopped: its cleanup is called and its connection forgotten.\<close>

lemma quiet_remove:
  assumes ok: "sok d s" and active: "slot o1 a d s = ConnActive c b0"
    and heap: "so_heap o2 = (so_heap o1)(a := deleteStreamingCleanup (so_heap o1 a) d s)"
    and map: "so_clusterRuntimes o2 = so_clusterRuntimes o1" "so_nextRuntime o2 = so_nextRuntime o1"
    and rest: "so_starts o2 = so_starts o1" "so_nextTask o2 = so_nextTask o1"
    and cl: "\<And>t. cleaned o2 t = cleaned o1 t + (if t = c then 1 else 0)"
    and sd: "so_scheduled o2 = so_scheduled o1"
    and fl: "so_fetches o2 = so_fetches o1" "so_requestCounter o2 = so_requestCounter o1"
      "aborted o2 = aborted o1" "errors o2 = errors o1" "so_contextVersion o2 = so_contextVersion o1"
  shows "quiet env E D o1 o2"
  unfolding quiet_def
proof
  assume I: "orch_inv env E D o1"
  note ch = slot_change [OF I ok heap [unfolded deleteStreamingCleanup_def] map fl]
  have new: "slot o2 a d s = ConnInactive"
    using ch(1) [OF ok, of a] active by (simp add: stream_conn_transition)
  have old: "slot o2 a' d' s' = slot o1 a' d' s'" if "sok d' s'" "(a', d', s') \<noteq> (a, d, s)" for a' d' s'
    using ch(1) [OF that(1), of a'] that(2) by auto
  have act: "slot o2 a' d' s' = ConnActive f b \<longleftrightarrow>
      slot o1 a' d' s' = ConnActive f b \<and> (a', d', s') \<noteq> (a, d, s)"
    if "sok d' s'" for a' d' s' f b
    using new old [OF that, of a'] by (cases "(a', d', s') = (a, d, s)") auto
  note ok2 = slot_change_ok [OF I ok heap [unfolded deleteStreamingCleanup_def] map rest fl]
  have u: "unique_ok o1" using I by (simp add: orch_inv_def)
  have notheld: "\<not> held o2 c" if "c \<noteq> 0"
    using u ok active that unfolding held_def unique_ok_def by (metis act)
  have heldc: "held o1 c" using ok active by (auto simp: held_def)
  have held: "held o2 t = held o1 t" if "t \<noteq> c" for t
    unfolding held_def
  proof (intro iffI; elim exE conjE)
    fix a' d' s' b
    assume "sok d' s'" "slot o2 a' d' s' = ConnActive t b"
    with act show "\<exists>a d s b. sok d s \<and> slot o1 a d s = ConnActive t b" by blast
  next
    fix a' d' s' b
    assume h: "sok d' s'" "slot o1 a' d' s' = ConnActive t b"
    with that active have "(a', d', s') \<noteq> (a, d, s)" by auto
    with h act show "\<exists>a d s b. sok d s \<and> slot o2 a d s = ConnActive t b" by blast
  qed
  have "unique_ok o2"
    unfolding unique_ok_def
  proof (intro allI impI)
    fix a1 d1 s1 b1 a2 d2 s2 b2 g
    assume h: "sok d1 s1" "sok d2 s2" "g \<noteq> (0::nat)" "slot o2 a1 d1 s1 = ConnActive g b1"
      "slot o2 a2 d2 s2 = ConnActive g b2"
    then have "slot o1 a1 d1 s1 = ConnActive g b1" "slot o1 a2 d2 s2 = ConnActive g b2"
      by (simp_all add: act)
    with u h(1-3) show "a2 = a1 \<and> d2 = d1 \<and> s2 = s1" unfolding unique_ok_def by blast
  qed
  moreover have "account_ok D o2"
  proof -
    have "if t \<in> D then cleaned o2 t = (if held o2 t then 0 else 1) else cleaned o2 t = 0 \<and> \<not> held o2 t"
      if "0 < t" for t
      using I heldc held [of t] notheld that
      by (cases "t = c") (auto simp: orch_inv_def account_ok_def cl split: if_splits)
    with I show ?thesis by (simp add: orch_inv_def account_ok_def rest)
  qed
  moreover have "no_new o1 o2" unfolding no_new_def using ch(8) by (simp add: act)
  ultimately show "orch_inv env E D o2 \<and> grow o1 o2 \<and> no_new o1 o2"
    using I ch(2,3,6,7) ok2 active new scheduled_same [OF sd] by (simp add: orch_inv_def)
qed

section \<open>Deliveries\<close>

text \<open>A started stream delivers its cleanup: it is kept, when the connection becomes active, or
  called at once.\<close>

lemma deliver_finish:
  assumes I: "orch_inv env E D o1" and ok: "sok d s"
    and starting: "slot o1 a d s = ConnStarting t b0" and new: "slot o2 a d s = ConnActive f False"
    and f: "f = 0 \<or> (f = t \<and> t \<notin> D \<and> 0 < t \<and> t < so_nextTask o1 \<and> jm_get (so_starts o1) t = None)"
    and heap: "so_heap o2 = (so_heap o1)(a := applyStreamEvent (so_heap o1 a) d s e)"
    and map: "so_clusterRuntimes o2 = so_clusterRuntimes o1" "so_nextRuntime o2 = so_nextRuntime o1"
    and rest: "so_starts o2 = so_starts o1" "so_nextTask o2 = so_nextTask o1"
    and cl: "cleaned o2 = cleaned o1" and sd: "so_scheduled o2 = so_scheduled o1"
    and fl: "so_fetches o2 = so_fetches o1" "so_requestCounter o2 = so_requestCounter o1"
      "aborted o2 = aborted o1" "errors o2 = errors o1" "so_contextVersion o2 = so_contextVersion o1"
  shows "orch_inv env E (if f = 0 then D else insert t D) o2"
proof -
  note ch = slot_change [OF I ok heap map fl]
  have old: "slot o2 a' d' s' = slot o1 a' d' s'" if "sok d' s'" "(a', d', s') \<noteq> (a, d, s)" for a' d' s'
    using ch(1) [OF that(1), of a'] that(2) by auto
  have act: "slot o2 a' d' s' = ConnActive g b \<longleftrightarrow>
      (if (a', d', s') = (a, d, s) then g = f \<and> b = False else slot o1 a' d' s' = ConnActive g b)"
    if "sok d' s'" for a' d' s' g b
    using new old [OF that, of a'] by (cases "(a', d', s') = (a, d, s)") auto
  note ok2 = slot_change_ok [OF I ok heap map rest fl]
  have nh: "\<not> held o1 f" if "f \<noteq> 0" using I f that by (auto simp: orch_inv_def account_ok_def)
  have held: "held o2 g = (held o1 g \<or> g = f)" for g
  proof
    assume "held o2 g"
    then obtain a' d' s' b where h: "sok d' s'" "slot o2 a' d' s' = ConnActive g b"
      unfolding held_def by blast
    then show "held o1 g \<or> g = f"
      using act [OF h(1), of a' g b] by (auto simp: held_def split: if_splits)
  next
    assume "held o1 g \<or> g = f"
    then show "held o2 g"
    proof
      assume "held o1 g"
      then obtain a' d' s' b where h: "sok d' s'" "slot o1 a' d' s' = ConnActive g b"
        unfolding held_def by blast
      with starting have "(a', d', s') \<noteq> (a, d, s)" by auto
      with act [OF h(1), of a' g b] h show "held o2 g" unfolding held_def by auto
    next
      assume "g = f"
      with new ok show "held o2 g" unfolding held_def by blast
    qed
  qed
  have "unique_ok o2"
    unfolding unique_ok_def
  proof (intro allI impI)
    fix a1 d1 s1 b1 a2 d2 s2 b2 g
    assume h: "sok d1 s1" "sok d2 s2" "g \<noteq> (0::nat)" "slot o2 a1 d1 s1 = ConnActive g b1"
      "slot o2 a2 d2 s2 = ConnActive g b2"
    show "a2 = a1 \<and> d2 = d1 \<and> s2 = s1"
    proof (cases "g = f")
      case True
      with h nh have "(a1, d1, s1) = (a, d, s) \<and> (a2, d2, s2) = (a, d, s)"
        using act [OF h(1)] act [OF h(2)] by (auto simp: held_def split: if_splits)
      then show ?thesis by simp
    next
      case False
      with h act [OF h(1)] act [OF h(2)] have "slot o1 a1 d1 s1 = ConnActive g b1"
        "slot o1 a2 d2 s2 = ConnActive g b2" by (auto split: if_splits)
      with I h(1-3) show ?thesis unfolding orch_inv_def unique_ok_def by blast
    qed
  qed
  moreover have "account_ok (if f = 0 then D else insert t D) o2"
    using I f by (auto simp: orch_inv_def account_ok_def cl rest held)
  ultimately show ?thesis
    using I ch(2,3,7) ok2 starting new scheduled_same [OF sd] by (simp add: orch_inv_def)
qed

lemma deliver_cleanup:
  assumes I: "orch_inv env E D o1"
    and t: "t \<notin> D" "0 < t" "t < so_nextTask o1" "jm_get (so_starts o1) t = None"
  shows "orch_inv env E (insert t D) (runStreamingCleanup (Some t) o1)"
proof -
  let ?o = "runStreamingCleanup (Some t) o1"
  have eq: "so_heap ?o = so_heap o1" "so_clusterRuntimes ?o = so_clusterRuntimes o1"
    "so_nextRuntime ?o = so_nextRuntime o1" "so_starts ?o = so_starts o1"
    "so_nextTask ?o = so_nextTask o1" "so_scheduled ?o = so_scheduled o1"
    by (simp_all add: runStreamingCleanup_def)
  have "held ?o = held o1" by (simp add: held_def eq fun_eq_iff)
  moreover have "belongs ?o = belongs o1" 
    by (intro ext) (simp add: belongs_def eq split: option.split)
  moreover have "pend E ?o = pend E o1" by (simp add: pend_def eq fun_eq_iff)
  moreover have "isRuntimeCurrent a ?o = isRuntimeCurrent a o1" for a
    by (simp add: isRuntimeCurrent_def eq)
  moreover have "cleaned ?o g = cleaned o1 g + (if g = t then 1 else 0)" for g
    by (simp add: runStreamingCleanup_def)
  moreover have "flights_ok ?o"
    by (rule flights_same [of o1])
      (use I in \<open>auto simp: orch_inv_def eq belongs_def isRuntimeCurrent_def runStreamingCleanup_def fun_eq_iff
        split: option.splits\<close>)
  ultimately show ?thesis
    using I t by (auto simp: orch_inv_def map_ok_def slots_ok_def unique_ok_def pending_ok_def
        account_ok_def scheduled_ok_def eq)
qed

section \<open>The operations that are quiet\<close>

named_theorems quiet_ops \<open>the operations that keep the invariant\<close>

lemma quiet_then: "quiet env E D o1 o2 \<Longrightarrow> (\<And>o3. quiet env E D o3 (f o3)) \<Longrightarrow> quiet env E D o1 (f o2)"
  by (rule quiet_trans)

lemma quiet_snapshot [quiet_ops]: "quiet env E D o1 (reconcileInitialStreamingSnapshot env d s o1)"
  unfolding reconcileInitialStreamingSnapshot_def Let_def
  by (rule quiet_route) (auto intro!: quiet_call)

lemma quiet_start [quiet_ops]:
  assumes "sok d s" "en_streaming env d" "s \<noteq> []"
  shows "quiet env E D o1 (startStreamingScope env d s o1)"
  unfolding startStreamingScope_def
proof (split if_split, intro conjI impI quiet_refl, rule quiet_route)
  fix o2 a
  assume h: "belongs o2 s a" "isRuntimeCurrent a o2"
  show "quiet env E D o2
     (if \<not> isScopedDomainEnabled (so_heap o2 a) d s then o2
      else if isStreamingStartingOrActive (so_heap o2 a) d s then o2
      else let task = so_nextTask o2 in
             (setRuntime a (beginStreamingStart (so_heap o2 a) d s task)
                (call (OcStreamStart d s task) o2))
             \<lparr>so_nextTask := task + 1,
              so_starts := jm_set task \<lparr>ps_domain = d, ps_scopeOf = s, ps_runtime = a, ps_stops = []\<rparr>
                (so_starts o2)\<rparr>)" (is "quiet _ _ _ _ ?o")
  proof (cases "isScopedDomainEnabled (so_heap o2 a) d s \<and> \<not> isStreamingStartingOrActive (so_heap o2 a) d s")
    case True
    then have "slot o2 a d s = ConnInactive" by (simp add: isStreamingStartingOrActive_def)
    with True h show ?thesis
      by (intro quiet_begin [OF assms h]) (auto simp: Let_def cleaned_def fun_eq_iff)
  qed auto
qed

lemma quiet_cancelPending:
  assumes "sok d s"
  shows "quiet env E D o1 (cancelPendingStart d s a o1)"
proof (rule quiet_invI)
  assume I: "orch_inv env E D o1"
  let ?rt = "fst (cancelStreamingStart (so_heap o1 a) d s)"
  have t: "tame_runtime (so_heap o1 a) ?rt"
    using assms tame_runtime_trans [OF tame_apply tame_apply]
    by (simp add: cancelStreamingStart_def clearStreamingReady_def Let_def)
  have q: "quiet env E D o1 (setRuntime a ?rt o1)" by (rule quiet_set [OF t])
  show ?thesis
  proof (cases "slot o1 a d s")
    case (ConnStarting task b)
    have "ps_runtime p = a" if "jm_get (so_starts o1) task = Some p" for p
    proof -
      have "\<exists>p. pend E o1 task = Some p \<and> ps_runtime p = a"
        using slotD [OF I assms, of a] ConnStarting by auto
      with I that show ?thesis by (auto simp: pend_def orch_inv_def pending_ok_def split: if_splits)
    qed
    then have "quiet env E D (setRuntime a ?rt o1) (attachStop task a (setRuntime a ?rt o1))"
      by (intro quiet_attach) simp
    with q ConnStarting show ?thesis
      by (auto simp: cancelPendingStart_def cancelStreamingStart_def Let_def intro: quiet_trans)
  qed (use q in \<open>simp_all add: cancelPendingStart_def cancelStreamingStart_def Let_def\<close>)
qed

lemma cleanup_frame [simp]:
  "so_heap (runStreamingCleanup c o1) = so_heap o1"
  "so_clusterRuntimes (runStreamingCleanup c o1) = so_clusterRuntimes o1"
  "so_nextRuntime (runStreamingCleanup c o1) = so_nextRuntime o1"
  "so_starts (runStreamingCleanup c o1) = so_starts o1"
  "so_nextTask (runStreamingCleanup c o1) = so_nextTask o1"
  "so_scheduled (runStreamingCleanup c o1) = so_scheduled o1"
  "so_fetches (runStreamingCleanup c o1) = so_fetches o1"
  "so_requestCounter (runStreamingCleanup c o1) = so_requestCounter o1"
  "so_contextVersion (runStreamingCleanup c o1) = so_contextVersion o1"
  "aborted (runStreamingCleanup c o1) = aborted o1" "errors (runStreamingCleanup c o1) = errors o1"
  "cleaned (runStreamingCleanup c o1) t = cleaned o1 t + (if c = Some t then 1 else 0)"
  by (auto simp: runStreamingCleanup_def fun_eq_iff split: option.splits)

lemma quiet_runActive:
  assumes "sok d s"
  shows "quiet env E D o1 (runActiveCleanup d s a o1)"
proof (cases "slot o1 a d s")
  case (ConnActive c b)
  then show ?thesis
    by (intro quiet_remove [OF assms ConnActive])
      (auto simp: runActiveCleanup_def getStreamingCleanup_def Let_def)
qed (simp_all add: runActiveCleanup_def getStreamingCleanup_def)

lemma quiet_stop [quiet_ops]:
  assumes "sok d s"
  shows "quiet env E D o1 (stopStreamingScope d s reset o1)"
  unfolding stopStreamingScope_def Let_def
proof (rule quiet_route)
  fix o2 a
  let ?o3 = "runActiveCleanup d s a (cancelPendingStart d s a o2)"
  let ?o4 = "setRuntime a (clearStreamHealth (so_heap ?o3 a) d s) ?o3"
  have "quiet env E D o2 ?o4"
    unfolding clearStreamHealth_def
    by (intro quiet_trans [OF quiet_cancelPending quiet_trans [OF quiet_runActive quiet_set]]
        tame_apply assms) simp
  then have "quiet env E D o2 (call (OcStreamStop d s reset) ?o4)"
    by (rule quiet_then) (rule quiet_call; simp)
  moreover from this have "quiet env E D o2 (call (OcResetScoped d s) (call (OcStreamStop d s reset) ?o4))"
    by (rule quiet_then) (rule quiet_call; simp)
  ultimately show "quiet env E D o2 (if reset then call (OcResetScoped d s) (call (OcStreamStop d s reset) ?o4)
     else call (OcStreamStop d s reset) ?o4)" by (cases reset) simp_all
qed

text \<open>A stopped scope has no active stream.\<close>

lemma stop_inactive:
  assumes I: "orch_inv env E D o1" and ok: "sok d s"
  shows "slot (stopStreamingScope d s reset o1) a d s \<noteq> ConnActive f b"
proof (cases "slot o1 a d s = ConnInactive")
  case True
  then show ?thesis
    using quiet_stop [OF ok, of env E D o1 reset] I ok by (fastforce simp: quiet_def no_new_def)
next
  case False
  with I ok have "belongs o1 s a" "isRuntimeCurrent a o1"
    by (auto simp: orch_inv_def slots_ok_def)
  then have route: "withRuntime s g o1 = g a o1" for g
    by (simp add: withRuntime_def route_current)
  let ?o2 = "cancelPendingStart d s a o1"
  let ?o3 = "runActiveCleanup d s a ?o2"
  have I2: "orch_inv env E D ?o2" using quiet_cancelPending [OF ok, of env E D o1 a] I by (simp add: quiet_def)
  then have I3: "orch_inv env E D ?o3" using quiet_runActive [OF ok, of env E D ?o2 a] by (simp add: quiet_def)
  have "slot ?o3 a d s \<noteq> ConnActive g b'" for g b'
    using I2 ok
    by (cases "slot ?o2 a d s")
      (auto simp: runActiveCleanup_def getStreamingCleanup_def Let_def deleteStreamingCleanup_def
        conn_stream orch_inv_def stream_conn_transition)
  then show ?thesis
    using I3 ok
    by (auto simp: stopStreamingScope_def route Let_def clearStreamHealth_def conn_stream orch_inv_def
        stream_conn_transition)
qed

section \<open>Stopping a runtime\<close>

lemma streaming_scopes:
  assumes "sound rt"
  shows "(d, s) \<in> set (getStreamingScopes rt) \<longleftrightarrow> sok d s \<and> conn_of rt d s \<noteq> ConnInactive"
proof
  assume "(d, s) \<in> set (getStreamingScopes rt)"
  then obtain st where "st \<in> set (scope_states rt)" "ss_scope st = Some s" "ss_domain st = d"
    "st_conn (ss_stream st) \<noteq> ConnInactive"
    by (fastforce simp: getStreamingScopes_def split: option.splits if_splits)
  with stored_state [of rt st] stored_scope_ok [of rt st] assms
  show "sok d s \<and> conn_of rt d s \<noteq> ConnInactive" by auto
next
  assume a: "sok d s \<and> conn_of rt d s \<noteq> ConnInactive"
  let ?st = "getScopeState rt d (Some s)"
  have "?st \<in> set (scope_states rt)"
    using a by (intro unstored_state) (auto simp: is_default_state_def)
  moreover have "ss_scope ?st = Some s" "ss_domain ?st = d" using a assms by simp_all
  ultimately show "(d, s) \<in> set (getStreamingScopes rt)"
    using a unfolding getStreamingScopes_def set_concat set_map by force
qed

lemma stop_each:
  assumes "orch_inv env E D o1" "\<forall>(d, s)\<in>set xs. sok d s"
  shows "quiet env E D o1 (fold (\<lambda>(d, s). stopStreamingScope d s reset) xs o1) \<and>
    (\<forall>(d, s)\<in>set xs. \<forall>f b. slot (fold (\<lambda>(d, s). stopStreamingScope d s reset) xs o1) a d s \<noteq> ConnActive f b)"
  using assms
proof (induction xs arbitrary: o1)
  case (Cons x xs)
  obtain d s where x: "x = (d, s)" by fastforce
  let ?o2 = "stopStreamingScope d s reset o1"
  let ?o3 = "fold (\<lambda>(d, s). stopStreamingScope d s reset) xs ?o2"
  have ok: "sok d s" using Cons.prems(2) x by simp
  have q: "quiet env E D o1 ?o2" using ok by (rule quiet_stop)
  with Cons.prems have I2: "orch_inv env E D ?o2" by (simp add: quiet_def)
  have IH: "quiet env E D ?o2 ?o3"
    "\<forall>(d, s)\<in>set xs. \<forall>f b. slot ?o3 a d s \<noteq> ConnActive f b"
    using Cons.IH [OF I2] Cons.prems(2) by auto
  have "slot ?o3 a d s \<noteq> ConnActive f b" for f b
    using IH(1) I2 ok stop_inactive [OF Cons.prems(1) ok, of reset a]
    by (fastforce simp: quiet_def no_new_def)
  with IH q x show ?case by (auto intro: quiet_trans)
qed simp

lemma clear_all_tame:
  assumes "sound rt" "\<And>d s f b. sok d s \<Longrightarrow> conn_of rt d s \<noteq> ConnActive f b"
  shows "tame_runtime rt (clearAllStreaming rt reset)"
proof -
  have "tame (conn_of rt d s) (conn_of (applyStreamEventToAll rt (SeAllCleared reset)) d s)"
    if "sok d s" for d s
  proof -
    have "conn_of (applyStreamEventToAll rt (SeAllCleared reset)) d s = conn_of rt d s \<or>
          conn_of (applyStreamEventToAll rt (SeAllCleared reset)) d s = ConnInactive"
      by (rule stream_all_rel [of "\<lambda>c c'. c' = c \<or> c' = ConnInactive", OF _ _ _ assms(1) that])
        (auto simp: stream_conn_transition)
    with assms(2) [OF that] show ?thesis by (cases "conn_of rt d s") auto
  qed
  with sound_stream_all [OF assms(1)] requests_keeps [OF assms(1) keeps_stream_all [of requests]]
  show ?thesis by (simp add: tame_runtime_def calm_runtime_def clearAllStreaming_def keeps_stream_all)
qed

text \<open>After a runtime is stopped none of its streams is active.\<close>

lemma quiet_stop_runtime:
  "quiet env E D o1 (stopRuntimeStreaming env a reset o1)" (is ?quiet)
  and stop_runtime_inactive: "orch_inv env E D o1 \<Longrightarrow> sok d s \<Longrightarrow>
    slot (stopRuntimeStreaming env a reset o1) a d s \<noteq> ConnActive f b"
proof -
  have *: "quiet env E D o1 (stopRuntimeStreaming env a reset o1) \<and>
    (\<forall>d s f b. sok d s \<longrightarrow> slot (stopRuntimeStreaming env a reset o1) a d s \<noteq> ConnActive f b)"
    if I: "orch_inv env E D o1"
  proof -
    have sn: "sound (so_heap o1 a)" using I by (simp add: orch_inv_def)
    let ?xs = "getStreamingScopes (so_heap o1 a)"
    let ?o2 = "fold (\<lambda>(d, s). stopStreamingScope d s reset) ?xs o1"
    have xs: "(d, s) \<in> set ?xs \<Longrightarrow> sok d s \<and> s \<noteq> [] \<and> s \<noteq> ''*'' \<and> en_streaming env d" for d s
      using streaming_scopes [OF sn, of d s] slotD [OF I, of d s a] scope_ok_not_star by blast
    have eq: "fold (\<lambda>(domain, scope) o'.
                  if scope = [] \<or> scope = ''*'' then o'
                  else if \<not> en_streaming env domain then o'
                  else stopStreamingScope domain scope reset o') ?xs o1 = ?o2"
      by (rule fold_cong) (use xs in auto)
    have each: "quiet env E D o1 ?o2" "\<forall>(d, s)\<in>set ?xs. \<forall>f b. slot ?o2 a d s \<noteq> ConnActive f b"
      using stop_each [OF I, of ?xs reset a] xs by blast+
    have none: "slot ?o2 a d s \<noteq> ConnActive f b" if "sok d s" for d s f b
    proof (cases "slot o1 a d s = ConnInactive")
      case True
      with each(1) I that show ?thesis by (fastforce simp: quiet_def no_new_def)
    next
      case False
      with that streaming_scopes [OF sn] each(2) show ?thesis by blast
    qed
    let ?o3 = "setRuntime a (clearAllStreaming (so_heap ?o2 a) reset) ?o2"
    have I2: "orch_inv env E D ?o2" using each(1) I by (simp add: quiet_def)
    have q: "quiet env E D ?o2 ?o3"
      by (rule quiet_set, rule clear_all_tame) (use I2 none in \<open>auto simp: orch_inv_def\<close>)
    have none3: "slot ?o3 a d s \<noteq> ConnActive f b" if "sok d s" for d s f b
    proof -
      have "no_new ?o2 ?o3" using q I2 by (simp add: quiet_def)
      with none [OF that] that show ?thesis unfolding no_new_def by blast
    qed
    have q3: "quiet env E D o1 ?o3" using each(1) q by (rule quiet_trans)
    have stop: "stopRuntimeStreaming env a reset o1 = (if reset then ?o3 else ?o2)"
      by (simp only: stopRuntimeStreaming_def eq Let_def)
    show ?thesis
      unfolding stop using each(1) q3 none none3 by (simp only: split: if_split) blast
  qed
  then show ?quiet by (auto intro: quiet_invI)
  show "orch_inv env E D o1 \<Longrightarrow> sok d s \<Longrightarrow>
    slot (stopRuntimeStreaming env a reset o1) a d s \<noteq> ConnActive f b" using * by blast
qed

section \<open>Enabling, leases and handlers\<close>

lemma quiet_event [quiet_ops]:
  "sok d s \<Longrightarrow> tame_event e \<Longrightarrow>
   quiet env E D o1 (setRuntime a (applyStreamEvent (so_heap o1 a) d s e) o1)"
  by (rule quiet_set) (rule tame_apply)

lemma quiet_clearReady [quiet_ops]:
  "sok d s \<Longrightarrow> quiet env E D o1 (setRuntime a (clearStreamingReady (so_heap o1 a) d s t) o1)"
  by (simp add: clearStreamingReady_def quiet_event)

text \<open>Tearing a request down does nothing, or frees its scope and aborts its controller.\<close>

lemma teardown_cases:
  assumes "sound (so_heap o1 a)"
  shows "(teardownRequest a key i o1 = o1 \<and> (\<forall>d s. key = makeInFlightKey d s \<longrightarrow>
         map_option if_requestId (fetch_of (so_heap o1 a) d s) \<noteq> Some i)) \<or>
    (\<exists>d s r t es. scope_ok d s \<and> key = makeInFlightKey d s \<and>
       ss_fetch (getScopeState (so_heap o1 a) d s) = Fetching r t \<and> if_requestId r = i \<and>
       teardownRequest a key i o1 = fold (\<lambda>e. call (OcEffect e))
         (AbortController (if_controller r) # List.map CallCleanup es)
         (setRuntime a (fst (applyFetchEvent (so_heap o1 a) d s (FetchCancelled i))) o1))"
proof (cases "jm_get (cr_scopedStates (so_heap o1 a)) key")
  case None
  then show ?thesis
    by (auto simp: teardownRequest_def teardownInFlight_def setRuntime_def getScopeState_def default_scope_state_def)
next
  case (Some st)
  have at: "getScopeState (so_heap o1 a) d s = st" if "key = makeInFlightKey d s" for d s
    using Some that by (simp add: getScopeState_def)
  from jm_get_in [OF Some] have st: "st \<in> set (scope_states (so_heap o1 a))"
    "key = makeInFlightKey (ss_domain st) (ss_scope st)"
    using assms by (force, auto simp: runtime_ok_def list_all_iff)
  then have ok: "state_ok st" and get: "getScopeState (so_heap o1 a) (ss_domain st) (ss_scope st) = st"
    using assms stored_scope_ok stored_state by blast+
  show ?thesis
  proof (cases "ss_fetch st")
    case FetchIdle
    with Some get at show ?thesis
      by (auto simp: teardownRequest_def teardownInFlight_def trackedRequest_def applyFetchEvent_def
          setRuntime_def)
  next
    case f: (Fetching r t)
    show ?thesis
    proof (cases "if_requestId r = i")
      case True
      have "List.map CallCleanup (case if_cleanup r of None \<Rightarrow> [] | Some c \<Rightarrow> [c]) =
          (case if_cleanup r of None \<Rightarrow> [] | Some c \<Rightarrow> [CallCleanup c])" by (simp split: option.split)
      moreover from True f Some get have "teardownRequest a key i o1 = fold (\<lambda>e. call (OcEffect e))
         (AbortController (if_controller r) # (case if_cleanup r of None \<Rightarrow> [] | Some c \<Rightarrow> [CallCleanup c]))
         (setRuntime a (fst (applyFetchEvent (so_heap o1 a) (ss_domain st) (ss_scope st) (FetchCancelled i))) o1)"
        by (simp add: teardownRequest_def teardownInFlight_def trackedRequest_def applyFetchEvent_def Let_def)
      ultimately show ?thesis using True f ok get st(2) by metis
    next
      case False
      with f Some get at show ?thesis
        by (auto simp: teardownRequest_def teardownInFlight_def trackedRequest_def applyFetchEvent_def
            setRuntime_def)
    qed
  qed
qed

lemma effect_calls [simp]:
  "so_heap (fold (\<lambda>e. call (OcEffect e)) es o1) = so_heap o1"
  "so_clusterRuntimes (fold (\<lambda>e. call (OcEffect e)) es o1) = so_clusterRuntimes o1"
  "so_nextRuntime (fold (\<lambda>e. call (OcEffect e)) es o1) = so_nextRuntime o1"
  "so_starts (fold (\<lambda>e. call (OcEffect e)) es o1) = so_starts o1"
  "so_scheduled (fold (\<lambda>e. call (OcEffect e)) es o1) = so_scheduled o1"
  "so_nextTask (fold (\<lambda>e. call (OcEffect e)) es o1) = so_nextTask o1"
  "so_fetches (fold (\<lambda>e. call (OcEffect e)) es o1) = so_fetches o1"
  "so_requestCounter (fold (\<lambda>e. call (OcEffect e)) es o1) = so_requestCounter o1"
  "so_contextVersion (fold (\<lambda>e. call (OcEffect e)) es o1) = so_contextVersion o1"
  "cleaned (fold (\<lambda>e. call (OcEffect e)) es o1) t = cleaned o1 t"
  "aborted (fold (\<lambda>e. call (OcEffect e)) es o1) i \<longleftrightarrow> aborted o1 i \<or> AbortController i \<in> set es"
  "errors (fold (\<lambda>e. call (OcEffect e)) es o1) = errors o1"
  by (induction es arbitrary: o1) auto

lemma quiet_teardownRequest: "quiet env E D o1 (teardownRequest a key i o1)"
  and teardown_fetch: "orch_inv env E D o1 \<Longrightarrow> scope_ok d' s' \<Longrightarrow>
    fetch_of (so_heap (teardownRequest a key i o1) a') d' s' =
      (if a' = a \<and> key = makeInFlightKey d' s' \<and>
          map_option if_requestId (fetch_of (so_heap o1 a) d' s') = Some i
       then None else fetch_of (so_heap o1 a') d' s')"
proof -
  let ?o2 = "teardownRequest a key i o1"
  have *: "quiet env E D o1 ?o2 \<and> (\<forall>a' d' s'. scope_ok d' s' \<longrightarrow> fetch_of (so_heap ?o2 a') d' s' =
      (if a' = a \<and> key = makeInFlightKey d' s' \<and>
          map_option if_requestId (fetch_of (so_heap o1 a) d' s') = Some i
       then None else fetch_of (so_heap o1 a') d' s'))" if I: "orch_inv env E D o1"
  proof -
    have sn: "sound (so_heap o1 x)" for x using I by (simp add: orch_inv_def)
    have fl: "flights_ok o1" using I by (simp add: orch_inv_def)
    consider (none) "?o2 = o1"
      "\<And>d' s'. scope_ok d' s' \<Longrightarrow> key = makeInFlightKey d' s' \<Longrightarrow>
         map_option if_requestId (fetch_of (so_heap o1 a) d' s') \<noteq> Some i"
      | (freed) d s r t es where "scope_ok d s" "key = makeInFlightKey d s"
       "ss_fetch (getScopeState (so_heap o1 a) d s) = Fetching r t" "if_requestId r = i"
       "?o2 = fold (\<lambda>e. call (OcEffect e))
         (AbortController (if_controller r) # List.map CallCleanup es)
         (setRuntime a (fst (applyFetchEvent (so_heap o1 a) d s (FetchCancelled i))) o1)"
      using teardown_cases [OF sn, of a key i] by blast
    then show ?thesis
    proof cases
      case none
      then show ?thesis by auto
    next
      case freed
      have "tracked_ok o1 a d s r" using fl freed(1,3) by (simp add: flights_ok_def)
      then have c: "if_controller r = i" "i \<le> so_requestCounter o1" "isRuntimeCurrent a o1"
        using fl freed(4) by (auto simp: tracked_ok_def flights_ok_def fetch_ok_def)
      have get: "fetch_of (so_heap ?o2 a') d' s' =
          (if a' = a \<and> d' = d \<and> s' = s then None else fetch_of (so_heap o1 a') d' s')"
        if "scope_ok d' s'" for a' d' s'
        using fetch_get [OF sn freed(1) that, of a "FetchCancelled i"] freed(3,4)
        by (auto simp: freed(5))
      have calm: "calm_runtime (so_heap o1 x) (so_heap ?o2 x)" for x
        using calm_fetch [OF freed(1), of "FetchCancelled i" "so_heap o1 a"]
        by (auto simp: freed(5) calm_runtime_def)
      have cid: "cr_clusterId (so_heap ?o2 x) = cr_clusterId (so_heap o1 x)" for x by (simp add: freed(5))
      have ab: "aborted ?o2 j \<longleftrightarrow> aborted o1 j \<or> j = i" for j using c(1) by (auto simp: freed(5))
      have bel: "belongs ?o2 = belongs o1"
        by (intro ext) (simp add: belongs_def cid freed(5) split: option.split)
      have cur: "isRuntimeCurrent x ?o2 = isRuntimeCurrent x o1" for x
        by (simp add: isRuntimeCurrent_def cid) (simp add: freed(5))
      have fe: "so_fetches ?o2 = so_fetches o1" "so_requestCounter ?o2 = so_requestCounter o1"
        by (simp_all add: freed(5))
      have "flights_ok ?o2"
        unfolding flights_ok_def
      proof (intro conjI allI impI)
        fix a' d' s' r'
        assume h: "scope_ok d' s'" "fetch_of (so_heap ?o2 a') d' s' = Some r'"
        then have "fetch_of (so_heap o1 a') d' s' = Some r'" by (simp add: get split: if_splits)
        with fl h(1) have "tracked_ok o1 a' d' s' r'" by (simp add: flights_ok_def)
        then show "tracked_ok ?o2 a' d' s' r'" by (simp add: tracked_ok_def cur fe)
      next
        fix j p
        assume "jm_get (so_fetches ?o2) j = Some p"
        with fl have p: "fetch_ok o1 j p" by (simp add: flights_ok_def fe)
        then show "fetch_ok ?o2 j p"
          using freed(3,4) by (auto simp: fetch_ok_def get ab bel fe split: if_splits)
      next
        show "aborted ?o2 j \<Longrightarrow> j \<le> so_requestCounter ?o2" for j
          using fl c(2) by (auto simp: ab fe flights_ok_def)
        show "jm_ok (so_fetches ?o2)" using fl by (simp add: fe flights_ok_def)
      qed
      moreover have "fewer o1 ?o2" by (simp add: fewer_def get steady_def fe ab) (simp add: freed(5))
      ultimately have "quiet env E D o1 ?o2"
        by (intro quiet_calm calm) (auto simp: freed(5) scheduled_ok_def)
      moreover have "key = makeInFlightKey d' s' \<longleftrightarrow> d' = d \<and> s' = s" if "scope_ok d' s'" for d' s'
        using key_inject [OF freed(1) that] freed(2) by auto
      ultimately show ?thesis using get freed(3,4) by auto
    qed
  qed
  then show "quiet env E D o1 ?o2" by (auto intro: quiet_invI)
  show "orch_inv env E D o1 \<Longrightarrow> scope_ok d' s' \<Longrightarrow> fetch_of (so_heap ?o2 a') d' s' =
      (if a' = a \<and> key = makeInFlightKey d' s' \<and>
          map_option if_requestId (fetch_of (so_heap o1 a) d' s') = Some i
       then None else fetch_of (so_heap o1 a') d' s')" using * by blast
qed

lemma quiet_cancelInFlight [quiet_ops]: "quiet env E D o1 (cancelInFlightForScopedDomain d s o1)"
  unfolding cancelInFlightForScopedDomain_def
  by (rule quiet_route) (auto split: option.splits intro: quiet_teardownRequest)

lemma quiet_teardownAll [quiet_ops]: "quiet env E D o1 (teardownAll a o1)"
  unfolding teardownAll_def by (rule quiet_fold) (auto intro: quiet_teardownRequest)

lemma quiet_free:
  "quiet env E D o1 o2 \<Longrightarrow> orch_inv env E D o1 \<Longrightarrow> scope_ok d s \<Longrightarrow>
   fetch_of (so_heap o1 a) d s = None \<Longrightarrow> fetch_of (so_heap o2 a) d s = None"
  by (auto simp: quiet_def no_new_def fewer_def) (metis option.distinct(1))

lemma in_flight_listed:
  assumes "fetch_of rt d s = Some r"
  shows "\<exists>t. ((r, t), makeInFlightKey d s) \<in> set (forEachInFlight rt)"
proof -
  from assms obtain t st where st: "jm_get (cr_scopedStates rt) (makeInFlightKey d s) = Some st"
    "ss_fetch st = Fetching r t"
    by (cases "jm_get (cr_scopedStates rt) (makeInFlightKey d s)"; cases "ss_fetch (getScopeState rt d s)")
      (auto simp: getScopeState_def default_scope_state_def)
  then have "((r, t), makeInFlightKey d s) \<in> set (forEachInFlight rt)"
    by (force simp: forEachInFlight_def trackedRequest_def dest: jm_get_in)
  then show ?thesis by blast
qed

text \<open>After all its requests are torn down, a runtime has none.\<close>

lemma teardownAll_free:
  assumes I: "orch_inv env E D o1" and ok: "scope_ok d s"
  shows "fetch_of (so_heap (teardownAll a o1) a) d s = None"
proof -
  let ?f = "\<lambda>((r, t), key). teardownRequest a key (if_requestId r)"
  have "fetch_of (so_heap (fold ?f xs o2) a) d s = None"
    if "orch_inv env E D o2" "\<And>r. fetch_of (so_heap o2 a) d s = Some r \<Longrightarrow>
      \<exists>t. ((r, t :: bool), makeInFlightKey d s) \<in> set xs" for xs o2
    using that
  proof (induction xs arbitrary: o2)
    case Nil
    then show ?case by (cases "fetch_of (so_heap o2 a) d s") auto
  next
    case (Cons x xs)
    obtain r' t' key where x: "x = ((r', t'), key)" by (metis prod_cases3 surj_pair)
    let ?o3 = "teardownRequest a key (if_requestId r') o2"
    have "orch_inv env E D ?o3" by (rule quiet_inv [OF quiet_teardownRequest Cons.prems(1)])
    moreover have "\<exists>t. ((r, t), makeInFlightKey d s) \<in> set xs"
      if "fetch_of (so_heap ?o3 a) d s = Some r" for r
      using that Cons.prems(2) [of r] teardown_fetch [OF Cons.prems(1) ok, of a key "if_requestId r'" a]
      by (auto simp: x split: if_splits)
    ultimately have "fetch_of (so_heap (fold ?f xs ?o3) a) d s = None" by (rule Cons.IH)
    then show ?case by (simp add: x)
  qed
  from this [OF I in_flight_listed] show ?thesis unfolding teardownAll_def by blast
qed

section \<open>Requests of fetches\<close>

text \<open>A request begins where none is in flight, in the runtime its scope has.\<close>

lemma inv_beginRequest:
  assumes I: "orch_inv env E D o1" and ok: "sok d s" and b: "belongs o1 s a" "isRuntimeCurrent a o1"
    and free: "fetch_of (so_heap o1 a) d (Some s) = None"
  shows "orch_inv env E D (beginRequest d s options a o1)" (is "orch_inv _ _ _ ?o2")
    and "grow o1 (beginRequest d s options a o1)"
proof -
  let ?i = "Suc (so_requestCounter o1)"
  let ?p = "\<lparr>pf_domain = d, pf_scope = s, pf_runtime = a, pf_contextVersion = so_contextVersion o1,
    pf_options = options\<rparr>"
  have sn: "sound (so_heap o1 x)" for x using I by (simp add: orch_inv_def)
  have fl: "flights_ok o1" using I by (simp add: orch_inv_def)
  obtain r where r: "so_heap ?o2 = (so_heap o1)(a := fst (applyFetchEvent (so_heap o1 a) d (Some s) (FetchStarted r)))"
    "if_requestId r = ?i" "if_controller r = ?i" "if_domain r = d" "if_scope r = Some s"
    "if_contextVersion r = so_contextVersion o1"
    by (simp add: beginRequest_def Let_def setInFlight_def)
  have eq: "so_clusterRuntimes ?o2 = so_clusterRuntimes o1" "so_nextRuntime ?o2 = so_nextRuntime o1"
    "so_nextTask ?o2 = so_nextTask o1" "so_starts ?o2 = so_starts o1" "so_scheduled ?o2 = so_scheduled o1"
    "so_calls ?o2 = so_calls o1" "so_requestCounter ?o2 = ?i"
    "so_fetches ?o2 = jm_set ?i ?p (so_fetches o1)"
    by (simp_all add: beginRequest_def Let_def)
  have get: "fetch_of (so_heap ?o2 a') d' s' =
      (if a' = a \<and> d' = d \<and> s' = Some s then Some r else fetch_of (so_heap o1 a') d' s')"
    if "scope_ok d' s'" for a' d' s'
    using fetch_get [OF sn ok that, of a "FetchStarted r"] by (auto simp: r(1))
  have calm: "calm_runtime (so_heap o1 x) (so_heap ?o2 x)" for x
    using calm_fetch [OF ok, of "FetchStarted r" "so_heap o1 a"] ok r(4,5)
    by (auto simp: r(1) calm_runtime_def)
  have cid: "cr_clusterId (so_heap ?o2 x) = cr_clusterId (so_heap o1 x)" for x by (simp add: r(1))
  have bel: "belongs ?o2 = belongs o1"
    by (intro ext) (simp add: belongs_def cid eq split: option.split)
  have cur: "isRuntimeCurrent x ?o2 = isRuntimeCurrent x o1" for x
    by (simp add: isRuntimeCurrent_def cid eq)
  have ab: "aborted ?o2 = aborted o1" by (simp add: aborted_def fun_eq_iff eq)
  have new: "jm_get (so_fetches o1) ?i = None"
  proof (rule ccontr)
    assume "jm_get (so_fetches o1) ?i \<noteq> None"
    then obtain p where "jm_get (so_fetches o1) ?i = Some p" by blast
    with fl have "fetch_ok o1 ?i p" by (simp add: flights_ok_def)
    then show False by (simp add: fetch_ok_def)
  qed
  have old: "jm_get (so_fetches ?o2) i = Some p \<longleftrightarrow> (if i = ?i then p = ?p else jm_get (so_fetches o1) i = Some p)"
    for i p by (auto simp: eq)
  have "flights_ok ?o2"
    unfolding flights_ok_def
  proof (intro conjI allI impI)
    fix a' d' s' r'
    assume h: "scope_ok d' s'" "fetch_of (so_heap ?o2 a') d' s' = Some r'"
    show "tracked_ok ?o2 a' d' s' r'"
    proof (cases "a' = a \<and> d' = d \<and> s' = Some s")
      case True
      with h get have "r' = r" by simp
      with True r b show ?thesis by (simp add: tracked_ok_def cur old)
    next
      case False
      with h get have "fetch_of (so_heap o1 a') d' s' = Some r'" by simp
      with fl h(1) have t: "tracked_ok o1 a' d' s' r'" by (simp add: flights_ok_def)
      with new have "if_requestId r' \<noteq> ?i" by (auto simp: tracked_ok_def)
      with t show ?thesis by (simp add: tracked_ok_def cur old)
    qed
  next
    fix i p
    assume "jm_get (so_fetches ?o2) i = Some p"
    then consider "i = ?i" "p = ?p" | "i \<noteq> ?i" "jm_get (so_fetches o1) i = Some p"
      by (auto simp: old split: if_splits)
    then show "fetch_ok ?o2 i p"
    proof cases
      case 1
      with ok b r(2) get [OF ok, of a] show ?thesis by (simp add: fetch_ok_def eq bel)
    next
      case 2
      with fl have f: "fetch_ok o1 i p" by (simp add: flights_ok_def)
      moreover have "\<not> (pf_runtime p = a \<and> pf_domain p = d \<and> pf_scope p = s) \<or> aborted o1 i"
        using f free by (auto simp: fetch_ok_def)
      ultimately show ?thesis by (auto simp: fetch_ok_def eq bel ab get)
    qed
  next
    show "aborted ?o2 i \<Longrightarrow> i \<le> so_requestCounter ?o2" for i
      using fl by (simp add: ab eq flights_ok_def le_SucI)
    show "jm_ok (so_fetches ?o2)" using fl by (simp add: eq flights_ok_def)
  qed
  with inv_calm [OF calm _ _ _ _ _ _ _ _ I] have "orch_inv env E D ?o2 \<and> grow o1 ?o2"
    by (auto simp: eq cleaned_def scheduled_ok_def)
  then show "orch_inv env E D ?o2" "grow o1 ?o2" by simp_all
qed

lemma settleRequest_cases:
  assumes "jm_get (so_fetches o1) i = Some p"
  shows "so_heap (fst (settleRequest i o1)) = (so_heap o1)(pf_runtime p :=
      fst (applyFetchEvent (so_heap o1 (pf_runtime p)) (pf_domain p) (Some (pf_scope p)) (FetchSettled i)))"
    and "so_clusterRuntimes (fst (settleRequest i o1)) = so_clusterRuntimes o1"
      "so_nextRuntime (fst (settleRequest i o1)) = so_nextRuntime o1"
      "so_nextTask (fst (settleRequest i o1)) = so_nextTask o1"
      "so_starts (fst (settleRequest i o1)) = so_starts o1"
      "so_scheduled (fst (settleRequest i o1)) = so_scheduled o1"
      "so_fetches (fst (settleRequest i o1)) = jm_delete i (so_fetches o1)"
      "so_requestCounter (fst (settleRequest i o1)) = so_requestCounter o1"
      "so_contextVersion (fst (settleRequest i o1)) = so_contextVersion o1"
      "cleaned (fst (settleRequest i o1)) = cleaned o1" "aborted (fst (settleRequest i o1)) = aborted o1"
    and "snd (settleRequest i o1) =
      (case getInFlight (so_heap o1 (pf_runtime p)) (pf_domain p) (Some (pf_scope p)) of
         Some (r, t) \<Rightarrow> if if_requestId r = i then Some (r, t) else None | None \<Rightarrow> None)"
proof -
  let ?rt = "so_heap o1 (pf_runtime p)" and ?d = "pf_domain p" and ?s = "Some (pf_scope p)"
  obtain rt tr where st: "settleInFlight ?rt ?d ?s i = (rt, tr)" by fastforce
  have rt: "rt = fst (applyFetchEvent ?rt ?d ?s (FetchSettled i))" using settle_fst [of ?rt ?d ?s i] st by simp
  have tr: "tr = (case getInFlight ?rt ?d ?s of
      Some (r, t) \<Rightarrow> if if_requestId r = i then Some (r, t) else None | None \<Rightarrow> None)"
    using st by (cases "getFetchState ?rt ?d ?s")
      (auto simp: settleInFlight_def getInFlight_def trackedRequest_def applyFetchEvent_def getFetchState_def
        Let_def split: if_splits)
  have "cleaned (o'\<lparr>so_fetches := x\<rparr>) = cleaned o'" for o' :: orch and x by (simp add: cleaned_def fun_eq_iff)
  with rt tr assms show "so_heap (fst (settleRequest i o1)) = (so_heap o1)(pf_runtime p :=
      fst (applyFetchEvent (so_heap o1 (pf_runtime p)) (pf_domain p) (Some (pf_scope p)) (FetchSettled i)))"
    "so_clusterRuntimes (fst (settleRequest i o1)) = so_clusterRuntimes o1"
    "so_nextRuntime (fst (settleRequest i o1)) = so_nextRuntime o1"
    "so_nextTask (fst (settleRequest i o1)) = so_nextTask o1"
    "so_starts (fst (settleRequest i o1)) = so_starts o1"
    "so_scheduled (fst (settleRequest i o1)) = so_scheduled o1"
    "so_fetches (fst (settleRequest i o1)) = jm_delete i (so_fetches o1)"
    "so_requestCounter (fst (settleRequest i o1)) = so_requestCounter o1"
    "so_contextVersion (fst (settleRequest i o1)) = so_contextVersion o1"
    "cleaned (fst (settleRequest i o1)) = cleaned o1" "aborted (fst (settleRequest i o1)) = aborted o1"
    "snd (settleRequest i o1) =
      (case getInFlight (so_heap o1 (pf_runtime p)) (pf_domain p) (Some (pf_scope p)) of
         Some (r, t) \<Rightarrow> if if_requestId r = i then Some (r, t) else None | None \<Rightarrow> None)"
    by (simp_all add: settleRequest_def st Let_def fun_eq_iff split: option.split prod.split)
qed

text \<open>Settling a request frees the scope it is tracked for, if there is one.\<close>

lemma settle_fetch:
  assumes I: "orch_inv env E D o1" and p: "jm_get (so_fetches o1) i = Some p" and ok: "scope_ok d s"
  shows "fetch_of (so_heap (fst (settleRequest i o1)) a) d s =
      (if map_option if_requestId (fetch_of (so_heap o1 a) d s) = Some i then None
       else fetch_of (so_heap o1 a) d s)"
proof -
  let ?a = "pf_runtime p" and ?d = "pf_domain p" and ?s = "Some (pf_scope p)"
  have sn: "sound (so_heap o1 x)" for x using I by (simp add: orch_inv_def)
  have fl: "flights_ok o1" using I by (simp add: orch_inv_def)
  then have "fetch_ok o1 i p" using p by (simp add: flights_ok_def)
  then have okp: "scope_ok ?d ?s" by (simp add: fetch_ok_def)
  have "a = ?a \<and> d = ?d \<and> s = ?s" if "fetch_of (so_heap o1 a) d s = Some r" "if_requestId r = i" for r
    using tracked_place [OF flights_tracked [OF fl ok that(1)], of p] p that(2) by simp
  moreover have "fetch_of (so_heap (fst (settleRequest i o1)) a) d s =
      (if a = ?a \<and> d = ?d \<and> s = ?s \<and> map_option if_requestId (fetch_of (so_heap o1 a) d s) = Some i then None
       else fetch_of (so_heap o1 a) d s)"
    using fetch_get [OF sn okp ok, of ?a "FetchSettled i"]
    by (cases "ss_fetch (getScopeState (so_heap o1 ?a) ?d ?s)") (auto simp: settleRequest_cases [OF p])
  ultimately show ?thesis by (cases "fetch_of (so_heap o1 a) d s") auto
qed

lemma inv_settleRequest:
  assumes I: "orch_inv env E D o1"
  shows "orch_inv env E D (fst (settleRequest i o1)) \<and> grow o1 (fst (settleRequest i o1))"
    (is "orch_inv _ _ _ ?o2 \<and> _")
proof (cases "jm_get (so_fetches o1) i")
  case None
  with I show ?thesis by (simp add: settleRequest_def grow_def)
next
  case (Some p)
  note eq = settleRequest_cases [OF Some]
  from I have fl: "flights_ok o1" by (simp add: orch_inv_def)
  then have "fetch_ok o1 i p" using Some by (simp add: flights_ok_def)
  then have okp: "sok (pf_domain p) (pf_scope p)" by (simp add: fetch_ok_def)
  note get = settle_fetch [OF I Some]
  have cid: "cr_clusterId (so_heap ?o2 x) = cr_clusterId (so_heap o1 x)" for x by (simp add: eq)
  have bel: "belongs ?o2 = belongs o1"
    by (intro ext) (simp add: belongs_def cid eq split: option.split)
  have cur: "isRuntimeCurrent x ?o2 = isRuntimeCurrent x o1" for x
    by (simp add: isRuntimeCurrent_def cid) (simp add: eq)
  have calm: "calm_runtime (so_heap o1 a) (so_heap ?o2 a)" for a
    using calm_fetch [OF okp, of "FetchSettled i" "so_heap o1 (pf_runtime p)"]
    by (auto simp: eq calm_runtime_def)
  have "flights_ok ?o2"
    unfolding flights_ok_def
  proof (intro conjI allI impI)
    fix a d s r
    assume h: "scope_ok d s" "fetch_of (so_heap ?o2 a) d s = Some r"
    then have "fetch_of (so_heap o1 a) d s = Some r" "if_requestId r \<noteq> i"
      by (auto simp: get split: if_splits)
    moreover from this fl h(1) have "tracked_ok o1 a d s r" by (simp add: flights_ok_def)
    ultimately show "tracked_ok ?o2 a d s r" by (simp add: tracked_ok_def cur) (simp add: eq)
  next
    fix j q
    assume "jm_get (so_fetches ?o2) j = Some q"
    then have j: "j \<noteq> i" "jm_get (so_fetches o1) j = Some q" by (simp_all add: eq split: if_splits)
    with fl have "fetch_ok o1 j q" by (simp add: flights_ok_def)
    with j(1) get [of "pf_domain q" "Some (pf_scope q)" "pf_runtime q"] show "fetch_ok ?o2 j q"
      by (auto simp: fetch_ok_def bel eq(8,11))
  next
    show "aborted ?o2 j \<Longrightarrow> j \<le> so_requestCounter ?o2" for j
      using fl by (simp add: eq flights_ok_def)
    show "jm_ok (so_fetches ?o2)" using fl by (simp add: eq flights_ok_def)
  qed
  from inv_calm [OF calm eq(2,3) _ _ _ _ _ this I] show ?thesis by (simp add: eq scheduled_ok_def)
qed

lemma quiet_scheduleStart [quiet_ops]:
  assumes "sok d s" "en_streaming env d"
  shows "quiet env E D o1 (scheduleStreamingStart d s o1)"
proof (cases "js_trim s = []")
  case False
  have ok: "sok d (js_trim s)" using assms(1) by (rule scope_ok_trim)
  have step: "quiet env E D o2
      ((setRuntime a (setStreamingReady (so_heap (call (OcScopedLoading d (js_trim s)) o2) a) d (js_trim s) (so_nextTask o2))
          (call (OcScopedLoading d (js_trim s)) o2))
        \<lparr>so_nextTask := so_nextTask o2 + 1,
         so_scheduled := jm_set (so_nextTask o2)
           \<lparr>sd_domain = d, sd_scope = js_trim s, sd_runtime = a\<rparr>
           (so_scheduled (call (OcScopedLoading d (js_trim s)) o2))\<rparr>)" for o2 a
  proof -
    let ?o3 = "call (OcScopedLoading d (js_trim s)) o2"
    let ?o4 = "setRuntime a (setStreamingReady (so_heap ?o3 a) d (js_trim s) (so_nextTask o2)) ?o3"
    have "quiet env E D o2 ?o4"
      unfolding setStreamingReady_def by (rule quiet_trans [OF quiet_call quiet_event]) (simp_all add: ok)
    moreover have "quiet env E D ?o4 (?o4\<lparr>so_nextTask := so_nextTask o2 + 1,
       so_scheduled := jm_set (so_nextTask o2) \<lparr>sd_domain = d, sd_scope = js_trim s, sd_runtime = a\<rparr>
         (so_scheduled ?o4)\<rparr>)"
      by (rule quiet_schedule [OF ok assms(2) False]) simp
    ultimately show ?thesis by (simp add: quiet_trans)
  qed
  show ?thesis
    unfolding scheduleStreamingStart_def Let_def using False step
    by (auto intro!: quiet_route)
qed (simp add: scheduleStreamingStart_def)

lemma quiet_runScheduled [quiet_ops]: "quiet env E D o1 (runScheduledStart env task o1)"
proof (rule quiet_invI)
  assume I: "orch_inv env E D o1"
  show ?thesis
  proof (cases "jm_get (so_scheduled o1) task")
    case (Some sd)
    let ?d = "sd_domain sd" and ?s = "sd_scope sd" and ?a = "sd_runtime sd"
    have ok: "sok ?d ?s" "en_streaming env ?d" "?s \<noteq> []"
      using I Some by (auto simp: orch_inv_def scheduled_ok_def)
    let ?o2 = "o1\<lparr>so_scheduled := jm_delete task (so_scheduled o1)\<rparr>"
    let ?o3 = "if \<not> isRuntimeCurrent ?a ?o2 then ?o2
         else withRuntime ?s (\<lambda>b o'.
           if \<not> isScopedDomainEnabled (so_heap o' b) ?d ?s then o' else startStreamingScope env ?d ?s o') ?o2"
    have "quiet env E D ?o2 ?o3" using ok by (auto intro!: quiet_route quiet_start)
    with quiet_unschedule have "quiet env E D o1 ?o3" by (rule quiet_trans)
    then have "quiet env E D o1 (setRuntime ?a (clearStreamingReady (so_heap ?o3 ?a) ?d ?s (Some task)) ?o3)"
      by (rule quiet_trans) (rule quiet_clearReady [OF ok(1)])
    then show ?thesis using Some by (simp add: runScheduledStart_def Let_def)
  qed (simp add: runScheduledStart_def)
qed

lemma quiet_clearStale [quiet_ops]:
  assumes "\<And>s. s \<in> set stale \<Longrightarrow> sok d s"
  shows "quiet env E D o1 (clearStaleScopes env d stale o1)"
  unfolding clearStaleScopes_def Let_def
proof (rule quiet_fold, split if_split, intro conjI impI)
  fix s o2
  assume "s \<in> set stale"
  then have ok: "sok d s" by (rule assms)
  show "quiet env E D o2 (stopStreamingScope d s True
     (withRuntime s (\<lambda>a o3. setRuntime a (clearStreamingReady (so_heap o3 a) d s None) o3)
       (cancelInFlightForScopedDomain d s o2)))"
    by (intro quiet_trans [OF quiet_cancelInFlight quiet_trans [OF quiet_route quiet_stop]]
        quiet_clearReady ok)
  show "quiet env E D o2 (call (OcResetScoped d s) (cancelInFlightForScopedDomain d s o2))"
    by (rule quiet_trans [OF quiet_cancelInFlight quiet_call]) simp_all
qed

lemma quiet_activity [quiet_ops]: "quiet env E D o1 (reconcileRefresherActivity env d was now o1)"
  by (auto simp: reconcileRefresherActivity_def intro: quiet_call)

lemma quiet_scopeEnabled [quiet_ops]:
  assumes "sok d s" "en_streaming env d"
  shows "quiet env E D o1 (reconcileStreamingScopeEnabled env d s enabled preserve a o1)"
  unfolding reconcileStreamingScopeEnabled_def Let_def
  by (auto intro!: quiet_trans [OF quiet_clearReady quiet_scheduleStart]
      quiet_trans [OF quiet_trans [OF quiet_clearReady quiet_call] quiet_scheduleStart]
      quiet_trans [OF quiet_trans [OF quiet_clearReady quiet_stop] quiet_cancelInFlight]
      quiet_trans [OF quiet_clearReady quiet_stop] assms)

lemma quiet_demand: "quiet env E D o1 o2 \<Longrightarrow> quiet env E D o1 (call OcMetricsDemand o2)"
  by (erule quiet_trans) (rule quiet_call; simp)

lemma quiet_stateChange:
  assumes "sok d s" "\<And>x. x \<in> set stale \<Longrightarrow> sok d x"
  shows "quiet env E D o1 (reconcileScopedDomainStateChange env d s enabled preserve a was changed stale o1)"
proof -
  let ?o2 = "clearStaleScopes env d stale o1"
  let ?o3 = "reconcileRefresherActivity env d was (hasEnabledSources d ?o2) ?o2"
  let ?o4 = "cancelInFlightForScopedDomain d s ?o3"
  have q2: "quiet env E D o1 ?o2" using assms(2) by (rule quiet_clearStale)
  then have q3: "quiet env E D o1 ?o3" by (rule quiet_trans) (rule quiet_activity)
  then have q4: "quiet env E D o1 ?o4" by (rule quiet_trans) (rule quiet_cancelInFlight)
  then have q5: "quiet env E D o1 (call (OcResetScoped d s) ?o4)" by (rule quiet_trans) (rule quiet_call; simp)
  have q6: "quiet env E D o1 (reconcileStreamingScopeEnabled env d s enabled preserve a ?o3)"
    if "en_streaming env d"
    using q3 by (rule quiet_trans) (rule quiet_scopeEnabled [OF assms(1) that])
  show ?thesis
    using q2 q3 q4 q5 q6 by (simp add: reconcileScopedDomainStateChange_def Let_def quiet_demand)
qed

lemma stale_ok:
  assumes "sound rt" "x \<in> set (snd (snd (applyScopedDomainEnabled rt d s b)))"
  shows "sok d x"
proof -
  from assms(2) have "x \<in> set (snd (disableOtherEnabledScopes rt d s))"
    by (auto simp: applyScopedDomainEnabled_def Let_def split: prod.splits if_splits)
  then obtain st where "st \<in> set (scope_states rt)" "enabledElsewhere d s st" "x = the (ss_scope st)"
    by (auto simp: disableOtherEnabledScopes_def Let_def)
  with assms(1) stored_scope_ok [of rt st] show ?thesis by (auto simp: enabledElsewhere_def)
qed

lemma quiet_setEnabled [quiet_ops]:
  assumes "sok d s"
  shows "quiet env E D o1 (setScopedDomainEnabledOrch env d s enabled preserve o1)"
  unfolding setScopedDomainEnabledOrch_def
proof (split if_split, intro conjI impI quiet_refl, rule quiet_route)
  fix o2 a
  assume I: "orch_inv env E D o2"
  obtain rt change stale where ap: "applyScopedDomainEnabled (so_heap o2 a) d s enabled = (rt, change, stale)"
    by (metis prod_cases3)
  have "sound (so_heap o2 a)" using I by (simp add: orch_inv_def)
  then have st: "x \<in> set stale \<Longrightarrow> sok d x" for x using stale_ok [of "so_heap o2 a" x d s enabled] ap by simp
  have "keeps kept (so_heap o2 a) rt"
    using keeps_apply_enabled [of kept d s "so_heap o2 a" enabled] assms ap by simp
  moreover have "cr_clusterId rt = cr_clusterId (so_heap o2 a)"
    using clusterId_enabled [of "so_heap o2 a" d s enabled] ap by simp
  ultimately have "quiet env E D o2 (setRuntime a rt o2)" by (intro quiet_set tame_keeps)
  then have q: "quiet env E D o2 (reconcileScopedDomainStateChange env d s enabled preserve a
      (hasEnabledSources d o2) (sc_changed change) stale (setRuntime a rt o2))"
    by (rule quiet_trans) (rule quiet_stateChange [OF assms st])
  show "quiet env E D o2
     (if \<not> enabled \<and> hasScopedLease (so_heap o2 a) d s then call OcMetricsDemand o2
      else let wasActive = hasEnabledSources d o2;
               (rt, change, staleScopes) = applyScopedDomainEnabled (so_heap o2 a) d s enabled
           in reconcileScopedDomainStateChange env d s enabled preserve a wasActive
                (sc_changed change) staleScopes (setRuntime a rt o2))"
    using q by (simp add: ap quiet_demand)
qed

lemma quiet_activation:
  "sok d s \<Longrightarrow> quiet env E D o1 (setRuntime a (fst (applyActivationEvent (so_heap o1 a) d s e)) o1)"
  by (rule quiet_set, rule tame_keeps) (simp_all add: keeps_activation)

lemma quiet_acquire [quiet_ops]:
  assumes "sok d s"
  shows "quiet env E D o1 (acquireScopedDomainLease env d s k preserve o1)"
  unfolding acquireScopedDomainLease_def
proof (split if_split, intro conjI impI quiet_refl, rule quiet_route)
  fix o2 a
  assume I: "orch_inv env E D o2"
  obtain rt lease where aq: "acquireScopedLease (so_heap o2 a) d s k = (rt, lease)" by fastforce
  let ?o3 = "setRuntime a rt o2"
  have rt: "rt = fst (applyActivationEvent (so_heap o2 a) d s (AeLeaseAcquired k))"
    using acquire_fst [of "so_heap o2 a" d s k] aq by simp
  then have q3: "quiet env E D o2 ?o3" using quiet_activation [OF assms] by simp
  with I have I3: "orch_inv env E D ?o3" by (simp add: quiet_def)
  obtain rt' change stale where ap: "applyScopedDomainEnabled rt d s True = (rt', change, stale)"
    by (metis prod_cases3)
  have "sound (so_heap ?o3 a)" using I3 by (simp only: orch_inv_def)
  then have "sound rt" by simp
  then have st: "x \<in> set stale \<Longrightarrow> sok d x" for x using stale_ok [of rt x d s True] ap by simp
  have "keeps kept rt rt'" using keeps_apply_enabled [of kept d s rt True] assms ap by simp
  moreover have "cr_clusterId rt' = cr_clusterId rt" using clusterId_enabled [of rt d s True] ap by simp
  ultimately have "quiet env E D ?o3 (setRuntime a rt' ?o3)" by (intro quiet_set tame_keeps) simp_all
  with q3 have "quiet env E D o2 (setRuntime a rt' ?o3)" by (rule quiet_trans)
  then have q: "quiet env E D o2 (reconcileScopedDomainStateChange env d s True preserve a w c stale
      (setRuntime a rt' ?o3))" for w c
    by (rule quiet_trans) (rule quiet_stateChange [OF assms st])
  have "quiet env E D o2 (reconcileInitialStreamingSnapshot env d s ?o3)"
    using q3 by (rule quiet_trans) (rule quiet_snapshot)
  with q q3 show "quiet env E D o2
     (let hadSnapshotDemand = hasScopedDemand (so_heap o2 a) d s DemandSnapshot;
          wasActive = hasEnabledSources d o2;
          (rt, lease) = acquireScopedLease (so_heap o2 a) d s k;
          o3 = setRuntime a rt o2
      in if la_firstLease lease
         then let (rt', change, staleScopes) = applyScopedDomainEnabled (so_heap o3 a) d s True
              in reconcileScopedDomainStateChange env d s True preserve a wasActive
                   (la_activationChanged lease) staleScopes (setRuntime a rt' o3)
         else if k = DemandSnapshot \<and> \<not> hadSnapshotDemand \<and> en_streaming env d
         then reconcileInitialStreamingSnapshot env d s o3 else o3)"
    by (simp add: aq ap Let_def)
qed

lemma quiet_release [quiet_ops]:
  assumes "sok d s"
  shows "quiet env E D o1 (releaseScopedDomainLease env d s k preserve o1)"
  unfolding releaseScopedDomainLease_def
proof (split if_split, intro conjI impI quiet_refl, rule quiet_route)
  fix o2 :: orch and a
  obtain rt lease where rl: "releaseScopedLease (so_heap o2 a) d s k = (rt, lease)" by fastforce
  have "rt = so_heap o2 a \<or> rt = fst (applyActivationEvent (so_heap o2 a) d s (AeLeaseReleased k))"
    using release_fst [of "so_heap o2 a" d s k] rl by (auto split: if_splits)
  then have q3: "quiet env E D o2 (setRuntime a rt o2)"
    using quiet_activation [OF assms] quiet_set [of o2 a "so_heap o2 a"] by auto
  have "quiet env E D o2 (setScopedDomainEnabledOrch env d s False preserve (setRuntime a rt o2))"
    using q3 by (rule quiet_trans) (rule quiet_setEnabled [OF assms])
  with q3 show "quiet env E D o2
     (let (rt, lease) = releaseScopedLease (so_heap o2 a) d s k; o3 = setRuntime a rt o2
      in if lr_lastLease lease then setScopedDomainEnabledOrch env d s False preserve o3 else o3)"
    by (simp add: rl Let_def)
qed

lemma quiet_startDomain [quiet_ops]: "sok d s \<Longrightarrow> quiet env E D o1 (startStreamingDomain env d s o1)"
  by (simp add: startStreamingDomain_def quiet_start)

lemma quiet_stopDomain [quiet_ops]:
  "sok d s \<Longrightarrow> quiet env E D o1 (stopStreamingDomain env d s reset o1)"
  by (simp add: stopStreamingDomain_def quiet_stop)

lemma quiet_block [quiet_ops]:
  assumes "sok d s"
  shows "quiet env E D o1 (blockStreamingScope env d s o1)"
  unfolding blockStreamingScope_def
proof (rule quiet_route)
  fix o2 :: orch and a
  obtain rt blocked where b: "blockStreaming (so_heap o2 a) d s = (rt, blocked)" by fastforce
  then have q: "quiet env E D o2 (setRuntime a rt o2)"
    using tame_block [OF assms, of "so_heap o2 a"] by (intro quiet_set) simp
  then have "quiet env E D o2 (stopStreamingScope d s False (setRuntime a rt o2))"
    by (rule quiet_trans) (rule quiet_stop [OF assms])
  with q show "quiet env E D o2
     (let (rt, blocked) = blockStreaming (so_heap o2 a) d s in
      if \<not> blocked then o2
      else let o3 = setRuntime a rt o2
           in if en_streaming env d then stopStreamingScope d s False o3 else o3)"
    by (simp add: b Let_def)
qed

lemma tame_auth: "tame_runtime rt (fst (applyAuthEvent rt e))"
  by (rule tame_keeps) (simp_all add: keeps_auth)

lemma quiet_authFailed [quiet_ops]: "quiet env E D o1 (handleClusterAuthFailed env c o1)"
proof (cases "js_trim c = []")
  case False
  obtain o2 a where g: "getClusterRuntime c o1 = (o2, a)" by fastforce
  obtain rt failed where m: "markAuthFailed (so_heap o2 a) = (rt, failed)" by fastforce
  let ?o3 = "stopRuntimeStreaming env a False (setRuntime a rt o2)"
  let ?o4 = "teardownAll a ?o3"
  let ?o5 = "setRuntime a (clearAsyncStreamingBookkeeping (so_heap ?o4 a)) ?o4"
  have q2: "quiet env E D o1 o2" using quiet_getClusterRuntime [of env E D o1 c] g by simp
  moreover have "quiet env E D o2 (setRuntime a rt o2)"
    using tame_auth [of "so_heap o2 a" AuthFailedEvent] m by (intro quiet_set) (simp add: markAuthFailed_def)
  ultimately have "quiet env E D o1 (setRuntime a rt o2)" by (rule quiet_trans)
  then have "quiet env E D o1 ?o3" by (rule quiet_trans) (rule quiet_stop_runtime)
  then have "quiet env E D o1 ?o4" by (rule quiet_trans) (rule quiet_teardownAll)
  then have "quiet env E D o1 ?o5"
    by (rule quiet_trans) (auto simp: clearAsyncStreamingBookkeeping_def intro!: quiet_set tame_stream_all)
  with q2 False show ?thesis by (simp add: handleClusterAuthFailed_def Let_def g m)
qed (simp add: handleClusterAuthFailed_def)

lemma quiet_stopAll [quiet_ops]: "quiet env E D o1 (stopAllStreaming env reset o1)"
  unfolding stopAllStreaming_def by (rule quiet_fold) (rule quiet_stop_runtime)

lemma quiet_reconcileScope:
  assumes "sok d s" "en_streaming env d"
  shows "quiet env E D o1 (reconcileStreamingScope env d s o1)"
  unfolding reconcileStreamingScope_def Let_def
proof (rule quiet_route)
  fix o2 a
  have "quiet env E D o2 (stopStreamingScope d s False
     (setRuntime a (clearStreamingReady (so_heap o2 a) d s None) o2))"
    by (rule quiet_trans [OF quiet_clearReady quiet_stop]) (rule assms)+
  then show "quiet env E D o2
     (if shouldStreamScope env d s o2 \<and> \<not> isStreamingStartingOrActive (so_heap o2 a) d s
      then scheduleStreamingStart d s o2
      else if \<not> shouldStreamScope env d s o2 \<and> isStreamingStartingOrActive (so_heap o2 a) d s
      then stopStreamingScope d s False (setRuntime a (clearStreamingReady (so_heap o2 a) d s None) o2)
      else o2)"
    by (simp add: quiet_scheduleStart assms)
qed

lemma quiet_scopeChanges [quiet_ops]: "quiet env E D o1 (handleStreamingScopeChanges env rts o1)"
  unfolding handleStreamingScopeChanges_def
proof (rule quiet_fold, split if_split, intro conjI impI quiet_refl, rule quiet_fold, rule quiet_invI)
  fix d a and o3 :: orch
  assume "orch_inv env E D o3" and str: "\<not> \<not> en_streaming env d"
  then have "sound (so_heap o3 a)" by (simp add: orch_inv_def)
  then show "quiet env E D o3
    (fold (reconcileStreamingScope env d) (getEnabledScopes (so_heap o3 a) d) o3)"
    using str enabled_scope_ok by (auto intro!: quiet_fold quiet_reconcileScope)
qed

section \<open>Removed clusters\<close>

text \<open>Removing a runtime that has no connection left\<close>

lemma forget_runtime:
  assumes I: "orch_inv env E D o1" and k: "jm_get (so_clusterRuntimes o1) k = Some a"
    and gone: "\<And>d s. sok d s \<Longrightarrow> slot o1 a d s = ConnInactive"
    and free: "\<And>d s. scope_ok d s \<Longrightarrow> fetch_of (so_heap o1 a) d s = None"
  shows "orch_inv env E D (o1\<lparr>so_clusterRuntimes := jm_delete k (so_clusterRuntimes o1)\<rparr>)"
    (is "orch_inv _ _ _ ?o2")
proof -
  have held: "held ?o2 = held o1" by (simp add: held_def fun_eq_iff)
  have bel: "belongs ?o2 = belongs o1" by (intro ext) (simp add: belongs_def split: option.split)
  have pend: "pend E ?o2 = pend E o1" by (simp add: pend_def fun_eq_iff)
  have cl: "cleaned ?o2 = cleaned o1" by (simp add: cleaned_def fun_eq_iff)
  have cur: "isRuntimeCurrent a' ?o2" if "isRuntimeCurrent a' o1" "a' \<noteq> a" for a'
    using that k by (auto simp: isRuntimeCurrent_def)
  have "slots_ok env E ?o2"
    unfolding slots_ok_def bel pend
  proof (intro allI impI)
    fix a' d s
    assume h: "sok d s" "slot ?o2 a' d s \<noteq> ConnInactive"
    then have ne: "slot o1 a' d s \<noteq> ConnInactive" by simp
    with gone [OF h(1)] have "a' \<noteq> a" by auto
    with slotD [OF I h(1) ne] cur show "en_streaming env d \<and> s \<noteq> [] \<and> belongs o1 s a' \<and>
      isRuntimeCurrent a' ?o2 \<and> (\<forall>t b. slot ?o2 a' d s = ConnStarting t b \<longrightarrow>
        (\<exists>p. pend E o1 t = Some p \<and> ps_domain p = d \<and> ps_scopeOf p = s \<and> ps_runtime p = a'))"
      by simp
  qed
  moreover have "flights_ok ?o2"
    unfolding flights_ok_def
  proof (intro conjI allI impI)
    fix a' d s r
    assume h: "scope_ok d s" "fetch_of (so_heap ?o2 a') d s = Some r"
    then have "a' \<noteq> a" using free [OF h(1)] by auto
    moreover have "tracked_ok o1 a' d s r" using I h by (simp add: orch_inv_def flights_ok_def)
    ultimately show "tracked_ok ?o2 a' d s r" using cur by (auto simp: tracked_ok_def)
  next
    fix i p
    assume "jm_get (so_fetches ?o2) i = Some p"
    with I have "fetch_ok o1 i p" by (simp add: orch_inv_def flights_ok_def)
    then show "fetch_ok ?o2 i p" by (simp add: fetch_ok_def bel)
  qed (use I in \<open>simp_all add: orch_inv_def flights_ok_def\<close>)
  ultimately show ?thesis
    using I by (simp add: orch_inv_def map_ok_def scheduled_ok_def unique_ok_def pending_ok_def
        pend bel account_ok_def held cl)
qed

lemma steady_calls [simp]:
  "(\<And>i. c \<noteq> OcEffect (AbortController i)) \<Longrightarrow> (\<And>d s. c \<noteq> OcScopedError d s) \<Longrightarrow>
     steady o1 (call c o2) = steady o1 o2"
  "steady o1 (so_clusterRuntimes_update f o2) = steady o1 o2"
  "steady o1 (so_starts_update g o2) = steady o1 o2" "steady (so_starts_update g o1) o2 = steady o1 o2"
  "steady o1 (setRuntime a rt o2) = steady o1 o2" "steady o1 (runStreamingCleanup cl o2) = steady o1 o2"
  by (simp_all add: steady_def)

lemma prune_runtime:
  assumes I: "orch_inv env E D o1" and k: "jm_get (so_clusterRuntimes o1) k = Some a"
  shows "orch_inv env E D (pruneRuntime env k a o1)" "steady o1 (pruneRuntime env k a o1)"
    and "k' \<noteq> k \<Longrightarrow> jm_get (so_clusterRuntimes o1) k' = Some a' \<Longrightarrow>
      jm_get (so_clusterRuntimes (pruneRuntime env k a o1)) k' = Some a'"
proof -
  let ?o2 = "teardownAll a (stopRuntimeStreaming env a True o1)"
  let ?o3 = "setRuntime a (resetAllState (so_heap ?o2 a)) ?o2"
  have q1: "quiet env E D o1 (stopRuntimeStreaming env a True o1)" by (rule quiet_stop_runtime)
  with I have I1: "orch_inv env E D (stopRuntimeStreaming env a True o1)" by (simp add: quiet_def)
  have t: "quiet env E D (stopRuntimeStreaming env a True o1) ?o2" by (rule quiet_teardownAll)
  have q2: "quiet env E D o1 ?o2" using q1 t by (rule quiet_trans)
  with I have I2: "orch_inv env E D ?o2" by (simp add: quiet_def)
  have "slot ?o2 a d s \<noteq> ConnActive f b" if "sok d s" for d s f b
    using t I1 that stop_runtime_inactive [OF I that, of a True] unfolding quiet_def no_new_def by blast
  then have "tame (slot ?o2 a d s) ConnInactive" if "sok d s" for d s
    using that by (cases "slot ?o2 a d s") auto
  moreover have free: "fetch_of (so_heap ?o2 a) d s = None" if "scope_ok d s" for d s
    using teardownAll_free [OF I1 that] .
  ultimately have "tame_runtime (so_heap ?o2 a) (resetAllState (so_heap ?o2 a))"
    by (simp add: tame_runtime_def calm_runtime_def keeps_def get_reset_all sound_reset_all
        inactiveStreamState_def requests_ok_def request_ok_def)
      (simp add: resetAllState_def)
  then have q3: "quiet env E D ?o2 ?o3" by (rule quiet_set)
  then have I3: "orch_inv env E D ?o3" using I2 by (simp add: quiet_def)
  have g3: "grow o1 ?o3" using quiet_trans [OF q2 q3] I by (simp add: quiet_def)
  then have k3: "jm_get (so_clusterRuntimes ?o3) k = Some a" using k by (simp add: grow_def)
  have gone: "slot ?o3 a d s = ConnInactive" "fetch_of (so_heap ?o3 a) d s' = None" for d s s'
    by (simp_all add: get_reset_all inactiveStreamState_def)
  have eq: "pruneRuntime env k a o1 =
      call (OcClusterPruned k) (?o3\<lparr>so_clusterRuntimes := jm_delete k (so_clusterRuntimes ?o3)\<rparr>)"
    by (simp only: pruneRuntime_def Let_def)
  show "orch_inv env E D (pruneRuntime env k a o1)"
    unfolding eq using quiet_call [of "OcClusterPruned k" env E D] forget_runtime [OF I3 k3 gone]
    by (simp add: quiet_def)
  show "steady o1 (pruneRuntime env k a o1)"
    unfolding eq using quiet_steady [OF quiet_trans [OF q2 q3] I] by simp
  show "k' \<noteq> k \<Longrightarrow> jm_get (so_clusterRuntimes o1) k' = Some a' \<Longrightarrow>
      jm_get (so_clusterRuntimes (pruneRuntime env k a o1)) k' = Some a'"
    unfolding eq using g3 by (simp add: grow_def)
qed

lemma prune_fold:
  assumes "orch_inv env E D o1" "distinct (List.map fst xs)"
    and "\<forall>(k, a)\<in>set xs. jm_get (so_clusterRuntimes o1) k = Some a"
  shows "orch_inv env E D
    (fold (\<lambda>(k, a) o'. if k \<in> C then o' else pruneRuntime env k a o') xs o1) \<and>
   steady o1 (fold (\<lambda>(k, a) o'. if k \<in> C then o' else pruneRuntime env k a o') xs o1)"
  using assms
proof (induction xs arbitrary: o1)
  case (Cons x xs)
  obtain k a where x: "x = (k, a)" by fastforce
  show ?case
  proof (cases "k \<in> C")
    case True
    with Cons x show ?thesis by simp
  next
    case False
    have k: "jm_get (so_clusterRuntimes o1) k = Some a" using Cons.prems(3) x by simp
    have "\<forall>(k', a')\<in>set xs. jm_get (so_clusterRuntimes (pruneRuntime env k a o1)) k' = Some a'"
    proof
      fix y
      assume y: "y \<in> set xs"
      obtain k' a' where "y = (k', a')" by fastforce
      with y Cons.prems(2,3) x have "k' \<noteq> k" "jm_get (so_clusterRuntimes o1) k' = Some a'"
        by (force, auto)
      with prune_runtime(3) [OF Cons.prems(1) k] \<open>y = (k', a')\<close>
      show "case y of (k', a') \<Rightarrow> jm_get (so_clusterRuntimes (pruneRuntime env k a o1)) k' = Some a'"
        by simp
    qed
    with Cons.IH [OF prune_runtime(1) [OF Cons.prems(1) k]] Cons.prems(2) x False
      prune_runtime(2) [OF Cons.prems(1) k] show ?thesis by (auto intro: steady_trans)
  qed
qed simp

lemma inv_prune:
  assumes "orch_inv env E D o1"
  shows "orch_inv env E D (pruneRemovedClusterRuntimes env ids o1)"
    and "steady o1 (pruneRemovedClusterRuntimes env ids o1)"
proof -
  let ?c = "List.filter (\<lambda>c. c \<noteq> []) (List.map js_trim ids)"
  let ?o1 = "call (OcResetRemoved ?c) o1"
  have I1: "orch_inv env E D ?o1" using assms quiet_call [of "OcResetRemoved ?c" env E D o1] by (simp add: quiet_def)
  have m: "jm_ok (so_clusterRuntimes o1)" using assms by (simp add: orch_inv_def map_ok_def)
  then have "\<forall>(k, a)\<in>set (so_clusterRuntimes o1). jm_get (so_clusterRuntimes ?o1) k = Some a" by auto
  let ?o2 = "fold (\<lambda>(k, a) o'. if k \<in> set ?c then o' else pruneRuntime env k a o')
    (so_clusterRuntimes o1) ?o1"
  have 2: "orch_inv env E D ?o2" "steady o1 ?o2"
    using prune_fold [OF I1 m \<open>\<forall>(k, a)\<in>_. _\<close>, of "set ?c"] steady_trans [of o1 ?o1] by simp_all
  then show "orch_inv env E D (pruneRemovedClusterRuntimes env ids o1)"
    "steady o1 (pruneRemovedClusterRuntimes env ids o1)"
    unfolding pruneRemovedClusterRuntimes_def Let_def
    using quiet_call [of OcMetricsDemand env E D] by (auto simp: quiet_def)
qed

section \<open>Settled starts\<close>

lemma settle_begins:
  assumes I: "orch_inv env None D o1" and p: "jm_get (so_starts o1) t = Some p"
  shows "orch_inv env (Some (t, p)) D (o1\<lparr>so_starts := jm_delete t (so_starts o1)\<rparr>)" (is "orch_inv _ ?E _ ?o2")
    and "t \<notin> D" "0 < t"
proof -
  have pend: "pend ?E ?o2 = pend None o1" using p by (auto simp: pend_def fun_eq_iff)
  have held: "held ?o2 = held o1" by (simp add: held_def fun_eq_iff)
  have bel: "belongs ?o2 = belongs o1" by (intro ext) (simp add: belongs_def split: option.split)
  have cl: "cleaned ?o2 = cleaned o1" by (simp add: cleaned_def fun_eq_iff)
  have cur: "isRuntimeCurrent a ?o2 = isRuntimeCurrent a o1" for a by (simp add: isRuntimeCurrent_def)
  show "t \<notin> D" using I p by (auto simp: orch_inv_def account_ok_def)
  show "0 < t" using I p by (auto simp: orch_inv_def pending_ok_def pend_def)
  have "flights_ok ?o2"
    by (rule flights_same [of o1]) (use I bel cur in \<open>simp_all add: orch_inv_def\<close>)
  then show "orch_inv env ?E D ?o2"
    using I unfolding orch_inv_def map_ok_def slots_ok_def unique_ok_def pending_ok_def account_ok_def
      scheduled_ok_def pend held bel cl cur by simp
qed

lemma settle_ends:
  assumes I: "orch_inv env (Some (t, p)) D o1"
    and "\<And>b. slot o1 (ps_runtime p) (ps_domain p) (ps_scopeOf p) \<noteq> ConnStarting t b"
  shows "orch_inv env None D o1"
proof -
  have E: "pend (Some (t, p)) o1 t = Some p" by (simp add: pend_def)
  have pend: "pend None o1 t' = pend (Some (t, p)) o1 t'" if "t' \<noteq> t" for t'
    using that by (simp add: pend_def)
  have none: "pend None o1 t = None" using I by (auto simp: pend_def orch_inv_def pending_ok_def)
  have "slots_ok env None o1"
    unfolding slots_ok_def
  proof (intro allI impI)
    fix a d s
    assume h: "sok d s" "slot o1 a d s \<noteq> ConnInactive"
    note sl = slotD [OF I h]
    have "t' \<noteq> t" if "slot o1 a d s = ConnStarting t' b" for t' b
      using sl that E assms(2) [of b] by auto
    with sl show "en_streaming env d \<and> s \<noteq> [] \<and> belongs o1 s a \<and> isRuntimeCurrent a o1 \<and>
      (\<forall>t b. slot o1 a d s = ConnStarting t b \<longrightarrow>
        (\<exists>p. pend None o1 t = Some p \<and> ps_domain p = d \<and> ps_scopeOf p = s \<and> ps_runtime p = a))"
      by (simp add: pend)
  qed
  moreover have "pending_ok env None o1"
    unfolding pending_ok_def
  proof (intro conjI allI impI)
    show "0 < so_nextTask o1" using I by (simp add: orch_inv_def pending_ok_def)
    fix t' q
    assume q: "pend None o1 t' = Some q"
    with none have "t' \<noteq> t" by auto
    with q pend have "pend (Some (t, p)) o1 t' = Some q" by simp
    with I show "0 < t'" "t' < so_nextTask o1" "sok (ps_domain q) (ps_scopeOf q)"
      "en_streaming env (ps_domain q)" "ps_scopeOf q \<noteq> []" "belongs o1 (ps_scopeOf q) (ps_runtime q)"
      "set (ps_stops q) \<subseteq> {ps_runtime q}"
      by (simp_all add: orch_inv_def pending_ok_def)
  qed simp
  ultimately show ?thesis using I by (simp add: orch_inv_def)
qed

lemma deliver:
  assumes "orch_inv env (Some (t, p)) D o1" "t \<notin> D" "0 < t" "c = Some t \<or> c = None"
  shows "orch_inv env (Some (t, p)) (if c = None then D else insert t D) (runStreamingCleanup c o1)"
proof (cases c)
  case None
  with assms(1) show ?thesis by (simp add: runStreamingCleanup_def)
next
  case (Some x)
  have "pend (Some (t, p)) o1 t = Some p" by (simp add: pend_def)
  with assms(1) have "t < so_nextTask o1" "jm_get (so_starts o1) t = None"
    by (auto simp: orch_inv_def pending_ok_def)
  with Some assms deliver_cleanup show ?thesis by auto
qed

text \<open>Starting a scope whose runtime is current leaves its connection or begins a new start.\<close>

lemma start_slot:
  assumes "belongs o1 s a" "isRuntimeCurrent a o1" "sound (so_heap o1 a)" "sok d s"
  shows "slot (startStreamingScope env d s o1) a d s = slot o1 a d s \<or>
         slot (startStreamingScope env d s o1) a d s = ConnStarting (so_nextTask o1) False"
  using assms
  by (auto simp: startStreamingScope_def withRuntime_def route_current Let_def beginStreamingStart_def
      conn_stream stream_conn_transition)

lemma snapshot_slot:
  assumes "belongs o1 s a" "isRuntimeCurrent a o1"
  shows "so_heap (reconcileInitialStreamingSnapshot env d s o1) = so_heap o1"
  using assms by (auto simp: reconcileInitialStreamingSnapshot_def withRuntime_def route_current Let_def)

text \<open>The continuation of the start: the delivered cleanup is kept or called, the connection no
  longer waits for this start, and no stop is left to do.\<close>

lemma complete_start:
  assumes I: "orch_inv env (Some (t, p)) D o1" and t: "t \<notin> D" "0 < t" and c: "c = Some t \<or> c = None"
    and d: "d = ps_domain p" and s: "s = ps_scopeOf p" and a: "a = ps_runtime p"
  shows "orch_inv env (Some (t, p)) (if c = None then D else insert t D) (completeStreamingStart env d s a t c o1) \<and>
    (\<forall>b. slot (completeStreamingStart env d s a t c o1) a d s \<noteq> ConnStarting t b) \<and>
    steady o1 (completeStreamingStart env d s a t c o1) \<and>
    \<not> isStreamingCancelled (so_heap (completeStreamingStart env d s a t c o1) a) d s"
    (is "?P (completeStreamingStart env d s a t c o1)")
proof -
  have E: "pend (Some (t, p)) o1 t = Some p" by (simp add: pend_def)
  with I have p: "sok d s" "en_streaming env d" "s \<noteq> []" "belongs o1 s a" "t < so_nextTask o1"
    "jm_get (so_starts o1) t = None"
    by (auto simp: orch_inv_def pending_ok_def d s a)
  have sn: "sound (so_heap o1 x)" for x using I by (simp add: orch_inv_def)
  let ?D = "if c = None then D else insert t D"
  show ?thesis
  proof (cases "isRuntimeCurrent a o1")
    case False
    then have "slot o1 a d s = ConnInactive" using slotD [OF I p(1), of a] by blast
    with False deliver [OF I t c] show ?thesis
      by (simp add: completeStreamingStart_def isStreamingCancelled_def)
  next
    case cur: True
    have route: "withRuntime s f o1 = f a o1" for f
      by (simp add: withRuntime_def route_current [OF p(4) cur])
    let ?en = "isScopedDomainEnabled (so_heap o1 a) d s"
    let ?can = "isStreamingCancelled (so_heap o1 a) d s"
    show ?thesis
    proof (cases "\<not> ?en \<or> ?can")
      case True
      let ?rt1 = "failStreamingStart (so_heap o1 a) d s t"
      let ?rt2 = "clearStreamingCancelled ?rt1 d s"
      let ?o2 = "setRuntime a ?rt2 o1"
      let ?o3 = "runStreamingCleanup c ?o2"
      have sn1: "sound ?rt1" using sn p(1) by (simp add: failStreamingStart_def sound_stream)
      have "tame_runtime (so_heap o1 a) ?rt2"
        unfolding failStreamingStart_def clearStreamingCancelled_def
        by (intro tame_runtime_trans [OF tame_apply tame_apply] p(1)) simp_all
      then have q2: "quiet env (Some (t, p)) D o1 ?o2" by (rule quiet_set)
      then have I2: "orch_inv env (Some (t, p)) D ?o2" using I by (simp add: quiet_def)
      have I3: "orch_inv env (Some (t, p)) ?D ?o3" using deliver [OF I2 t c] .
      have slot2: "slot ?o2 a d s \<noteq> ConnStarting t b" "\<not> connCancelled (slot ?o2 a d s)" for b
        using p(1) sn sn1
        by (cases "slot o1 a d s"; simp add: failStreamingStart_def clearStreamingCancelled_def
            conn_stream stream_conn_transition sound_stream)+
      have b3: "belongs ?o3 s a"
        using p(4) by (simp add: belongs_def failStreamingStart_def clearStreamingCancelled_def split: option.splits)
      have c3: "isRuntimeCurrent a ?o3"
        using cur by (simp add: isRuntimeCurrent_def failStreamingStart_def clearStreamingCancelled_def)
      have eq: "completeStreamingStart env d s a t c o1 =
          (if ?en then startStreamingScope env d s ?o3 else ?o3)"
        using True cur by (simp add: completeStreamingStart_def route Let_def)
      have "?P ?o3" using I3 slot2 by (simp add: isStreamingCancelled_def)
      moreover have "?P (startStreamingScope env d s ?o3)"
      proof -
        have "quiet env (Some (t, p)) ?D ?o3 (startStreamingScope env d s ?o3)"
          using p(1-3) by (rule quiet_start)
        with I3 have "orch_inv env (Some (t, p)) ?D (startStreamingScope env d s ?o3)"
          and "steady ?o3 (startStreamingScope env d s ?o3)"
          by (blast dest: quiet_inv quiet_steady)+
        moreover have "sound (so_heap ?o3 a)" using I3 by (simp only: orch_inv_def)
        moreover have "slot (startStreamingScope env d s ?o3) a d s = slot ?o2 a d s \<or>
            slot (startStreamingScope env d s ?o3) a d s = ConnStarting (so_nextTask o1) False"
          using start_slot [OF b3 c3 calculation(3) p(1), of env] by simp
        moreover have "steady o1 (startStreamingScope env d s ?o3)"
          using steady_trans [OF _ calculation(2), of o1] by simp
        ultimately show ?thesis
          unfolding isStreamingCancelled_def using slot2 p(5) by (elim disjE) simp_all
      qed
      ultimately show ?thesis unfolding eq by simp
    next
      case False
      let ?c = "case c of Some x \<Rightarrow> x | None \<Rightarrow> 0"
      let ?st = "ss_stream (getScopeState (so_heap o1 a) d (Some s))"
      let ?st' = "transitionScopedStreamState ?st (SeStartFinished t ?c)"
      let ?o2 = "setRuntime a (applyStreamEvent (so_heap o1 a) d s (SeStartFinished t ?c)) o1"
      have eq: "completeStreamingStart env d s a t c o1 =
        (if ?st' = ?st then runStreamingCleanup c ?o2 else reconcileInitialStreamingSnapshot env d s ?o2)"
        using False cur by (simp add: completeStreamingStart_def route Let_def finishStreamingStart_def)
      show ?thesis
      proof (cases "slot o1 a d s = ConnStarting t False")
        case st: True
        then have ne: "?st' \<noteq> ?st"
          by (auto dest!: arg_cong [where f = st_conn] simp: stream_conn_transition)
        have new: "slot ?o2 a d s = ConnActive ?c False"
          using st p(1) sn by (simp add: conn_stream stream_conn_transition)
        have "orch_inv env (Some (t, p)) (if ?c = 0 then D else insert t D) ?o2"
          by (rule deliver_finish [OF I p(1) st new]) (use t p c in \<open>auto simp: fun_eq_iff\<close>)
        moreover have "(if ?c = 0 then D else insert t D) = ?D" using c t by auto
        ultimately have I2: "orch_inv env (Some (t, p)) ?D ?o2" by simp
        have b2: "belongs ?o2 s a" using p(4) by (simp add: belongs_def split: option.splits)
        have c2: "isRuntimeCurrent a ?o2" using cur by (simp add: isRuntimeCurrent_def)
        have "orch_inv env (Some (t, p)) ?D (reconcileInitialStreamingSnapshot env d s ?o2)"
          and st: "steady ?o2 (reconcileInitialStreamingSnapshot env d s ?o2)"
          using quiet_inv [OF quiet_snapshot I2] quiet_steady [OF quiet_snapshot I2] by blast+
        moreover have "steady o1 (reconcileInitialStreamingSnapshot env d s ?o2)"
          by (rule steady_trans [OF _ st]) simp
        ultimately show ?thesis
          unfolding eq using new ne snapshot_slot [OF b2 c2] by (simp add: isStreamingCancelled_def)
      next
        case st: False
        have "?st' = ?st"
          using st by (intro stream_state.equality) (simp_all add: stream_conn_transition)
        then have "?o2 = o1"
          by (simp add: applyStreamEvent_def Let_def setRuntime_def)
        with \<open>?st' = ?st\<close> have eq2: "completeStreamingStart env d s a t c o1 = runStreamingCleanup c o1"
          unfolding eq by simp
        from False st have "slot o1 a d s \<noteq> ConnStarting t b" for b
          by (cases b) (auto simp: isStreamingCancelled_def)
        with deliver [OF I t c] False show ?thesis
          unfolding eq2 by (simp add: isStreamingCancelled_def)
      qed
    qed
  qed
qed

lemma no_stop_left:
  assumes "set xs \<subseteq> {a}" "\<not> isStreamingCancelled (so_heap o1 a) d s"
  shows "fold (stopResolved d s t c) xs o1 = o1"
  using assms by (induction xs) (auto simp: stopResolved_def)

lemma rejected_stops:
  assumes "set xs \<subseteq> {a}" "sok d s" "orch_inv env E D o1" "\<And>b. slot o1 a d s \<noteq> ConnStarting t b"
  shows "orch_inv env E D (fold (stopRejected d s t) xs o1) \<and> steady o1 (fold (stopRejected d s t) xs o1) \<and>
    (\<forall>b. slot (fold (stopRejected d s t) xs o1) a d s \<noteq> ConnStarting t b)"
  using assms
proof (induction xs arbitrary: o1)
  case (Cons x xs)
  let ?rt1 = "failStreamingStart (so_heap o1 a) d s t"
  let ?o2 = "stopRejected d s t a o1"
  have sn: "sound (so_heap o1 a)" using Cons.prems(3) by (simp only: orch_inv_def)
  have eq: "?o2 = setRuntime a (clearStreamingCancelled ?rt1 d s) o1" by (simp add: stopRejected_def Let_def)
  have "tame_runtime (so_heap o1 a) (clearStreamingCancelled ?rt1 d s)"
    unfolding failStreamingStart_def clearStreamingCancelled_def
    by (intro tame_runtime_trans [OF tame_apply tame_apply] Cons.prems(2)) simp_all
  then have q: "quiet env E D o1 ?o2" unfolding eq by (rule quiet_set)
  then have I2: "orch_inv env E D ?o2" using Cons.prems(3) by (simp add: quiet_def)
  have "slot ?o2 a d s \<noteq> ConnStarting t b" for b
    using Cons.prems(2,4) sn
    by (cases "slot o1 a d s") (auto simp: eq failStreamingStart_def clearStreamingCancelled_def
        conn_stream stream_conn_transition sound_stream)
  with Cons.IH [OF _ Cons.prems(2) I2] Cons.prems(1) steady_trans [OF quiet_steady [OF q Cons.prems(3)]]
  show ?case by simp
qed simp

lemma inv_settle:
  assumes I: "orch_inv env None D o1" and p: "jm_get (so_starts o1) t = Some p"
  shows "orch_inv env None (if outcome = Resolved True then insert t D else D) (settleStart env t outcome o1) \<and>
    steady o1 (settleStart env t outcome o1)"
proof -
  let ?o2 = "o1\<lparr>so_starts := jm_delete t (so_starts o1)\<rparr>"
  let ?d = "ps_domain p" and ?s = "ps_scopeOf p" and ?a = "ps_runtime p"
  note b = settle_begins [OF I p]
  have "pend (Some (t, p)) ?o2 t = Some p" by (simp add: pend_def)
  with b(1) have ok: "sok ?d ?s" "set (ps_stops p) \<subseteq> {?a}" by (auto simp: orch_inv_def pending_ok_def)
  show ?thesis
  proof (cases outcome)
    case (Resolved hasCleanup)
    let ?c = "if hasCleanup then Some t else None"
    let ?o3 = "completeStreamingStart env ?d ?s ?a t ?c ?o2"
    have "?c = Some t \<or> ?c = None" by simp
    note c = complete_start [OF b this refl refl refl]
    have "settleStart env t outcome o1 = fold (stopResolved ?d ?s t ?c) (ps_stops p) ?o3"
      using p Resolved by (simp only: settleStart_def option.case start_outcome.case Let_def)
    also have "\<dots> = ?o3" using c by (intro no_stop_left [OF ok(2)]) blast
    finally show ?thesis using settle_ends [of env t p _ ?o3] c Resolved by (cases hasCleanup) simp_all
  next
    case Rejected
    let ?o3 = "startRejected ?d ?s ?a t ?o2"
    let ?rt = "failStreamingStart (so_heap ?o2 ?a) ?d ?s t"
    have "tame_runtime (so_heap ?o2 ?a) ?rt"
      unfolding failStreamingStart_def by (rule tame_apply [OF ok(1)]) simp
    then have q1: "quiet env (Some (t, p)) D ?o2 (setRuntime ?a ?rt ?o2)" by (rule quiet_set)
    moreover have "quiet env (Some (t, p)) D (setRuntime ?a ?rt ?o2) (call (OcScopedError ?d ?s) (setRuntime ?a ?rt ?o2))"
      by (rule quiet_call) (simp_all add: ok(1))
    ultimately have "quiet env (Some (t, p)) D ?o2 ?o3"
      unfolding startRejected_def Let_def by (auto intro: quiet_trans split: if_split)
    with b(1) have I3: "orch_inv env (Some (t, p)) D ?o3" and st3: "steady ?o2 ?o3"
      by (blast dest: quiet_inv quiet_steady)+
    have sn: "sound (so_heap o1 ?a)" using I by (simp only: orch_inv_def)
    have "slot ?o3 ?a ?d ?s \<noteq> ConnStarting t b" for b
      using sn ok(1) by (cases "slot o1 ?a ?d ?s")
        (auto simp: startRejected_def Let_def failStreamingStart_def conn_stream stream_conn_transition)
    note r = rejected_stops [OF ok(2,1) I3 this]
    have "settleStart env t outcome o1 = fold (stopRejected ?d ?s t) (ps_stops p) ?o3"
      using p Rejected by (simp only: settleStart_def option.case start_outcome.case Let_def)
    then show ?thesis using settle_ends [of env t p D] r Rejected steady_trans [OF st3] by simp
  qed
qed

end
