(* ===== verification/StreamHandlers.thy ===== *)
theory StreamHandlers
  imports StreamLifecycleInv
begin

text \<open>
  The rest of the streaming half of \<open>frontend/src/core/refresh/orchestrator.ts\<close>: the handlers
  of the application's events (readiness and activation of a cluster, recovered authentication,
  changed permissions, reset views, changed kubeconfig, drift, denial and health of a stream),
  the operations on whole domains, and \<open>normalizeRefreshDomainScope\<close> of
  \<open>scopeNormalization.ts\<close>, each with the lemma that it keeps the invariant.
\<close>

section \<open>Scopes\<close>

text \<open>\<open>normalizeRefreshDomainScope\<close>; the empty string stands for \<open>undefined\<close>, \<open>None\<close>
  for an exception\<close>

definition normalizeRefreshDomainScope ::
  "(string \<Rightarrow> bool) \<Rightarrow> string \<Rightarrow> string option \<Rightarrow> string option \<Rightarrow> bool \<Rightarrow> string option" where
  "normalizeRefreshDomainScope isResourceStreamDomain domain value selectedClusterId allowEmpty =
     (let t = js_trim (or_empty value) in
      if t = [] \<and> \<not> allowEmpty then Some []
      else let resourceStream = isResourceStreamDomain domain;
               parsed = parseClusterScopeList (Some t)
           in if pl_isMultiCluster parsed then None
              else let clusterId = (case pl_clusterIds parsed of i # _ \<Rightarrow> Some i | [] \<Rightarrow> selectedClusterId);
                       scope = (if pl_clusterIds parsed \<noteq> [] then pl_scope parsed
                                else if pl_scope parsed \<noteq> [] then pl_scope parsed else t);
                       tail = (if resourceStream \<and> js_lower scope = ''cluster'' then [] else scope)
                   in Some (buildClusterScope clusterId (Some tail)))"

definition normalizeNamespaceScope :: "string option \<Rightarrow> string option \<Rightarrow> string option" where
  "normalizeNamespaceScope value clusterId =
     (let t = js_trim (or_empty value) in
      if t = [] then None
      else let namespaceScope = (if prefix ''namespace:'' t then t else ''namespace:'' @ t);
               built = buildClusterScope clusterId (Some namespaceScope)
           in if built = [] then None else Some built)"

definition normalizeDomainScope :: "stream_env \<Rightarrow> string \<Rightarrow> string \<Rightarrow> string option" where
  "normalizeDomainScope env domain value =
     normalizeRefreshDomainScope (en_resourceStream env) domain (Some value) (en_selectedClusterId env) False"

text \<open>The methods that take a scope from outside throw or return when it does not normalise.\<close>

definition withScope :: "stream_env \<Rightarrow> string \<Rightarrow> string \<Rightarrow> (string \<Rightarrow> orch \<Rightarrow> orch) \<Rightarrow> orch \<Rightarrow> orch" where
  "withScope env domain value f o1 =
     (case normalizeDomainScope env domain value of
        None \<Rightarrow> o1 | Some scope \<Rightarrow> if scope = [] then o1 else f scope o1)"

section \<open>Whole domains\<close>

definition getKnownScopesAll :: "string \<Rightarrow> orch \<Rightarrow> string list" where
  "getKnownScopesAll domain o1 =
     js_unique (concat (List.map (\<lambda>a. getKnownScopes (so_heap o1 a) domain) (getAllRuntimes o1)))"

definition setDomainEnabled :: "stream_env \<Rightarrow> string \<Rightarrow> bool \<Rightarrow> orch \<Rightarrow> orch" where
  "setDomainEnabled env domain enabled o1 =
     call OcMetricsDemand
       (fold (\<lambda>scope. withScope env domain scope
                (\<lambda>s. setScopedDomainEnabledOrch env domain s enabled False))
          (getKnownScopesAll domain o1) o1)"

definition deleteDomainFromAllRuntimes :: "string \<Rightarrow> orch \<Rightarrow> orch" where
  "deleteDomainFromAllRuntimes domain o1 =
     fold (\<lambda>a o2. setRuntime a (deleteDomain (so_heap o2 a) domain) o2) (getAllRuntimes o1) o1"

definition abortAllInFlight :: "orch \<Rightarrow> orch" where
  "abortAllInFlight o1 = fold teardownAll (getAllRuntimes o1) o1"

definition clearAllBlockedStreaming :: "orch \<Rightarrow> orch" where
  "clearAllBlockedStreaming o1 =
     fold (\<lambda>a o2. setRuntime a (clearBlockedStreaming (so_heap o2 a)) o2) (getAllRuntimes o1) o1"

definition clearAllHealth :: "orch \<Rightarrow> orch" where
  "clearAllHealth o1 =
     fold (\<lambda>a o2. setRuntime a (clearAllStreamHealth (so_heap o2 a)) o2) (getAllRuntimes o1) o1"

definition resetRuntimePermissionEpoch :: "nat \<Rightarrow> orch \<Rightarrow> orch" where
  "resetRuntimePermissionEpoch a o1 =
     (let (rt, reset) = resetPermissionEpoch (so_heap o1 a)
      in fold (\<lambda>(domain, scope). call (OcPermissionReset domain scope)) reset (setRuntime a rt o1))"

definition incrementContextVersion :: "orch \<Rightarrow> orch" where
  "incrementContextVersion o1 = o1\<lparr>so_contextVersion := so_contextVersion o1 + 1\<rparr>"

definition disableNamespaceDomains :: "stream_env \<Rightarrow> orch \<Rightarrow> orch" where
  "disableNamespaceDomains env o1 =
     fold (\<lambda>domain o2.
       if \<not> en_namespaceDomain env domain then o2
       else call (OcResetDomain domain)
              (if hasEnabledSources domain o2 then setDomainEnabled env domain False o2
               else call (OcRefresher domain False) o2)) (en_domains env) o1"

text \<open>\<open>updateContext\<close>: the connected clusters when the update names them, and whether the
  namespace view was and is shown\<close>

definition updateContextOrch ::
  "stream_env \<Rightarrow> string list option \<Rightarrow> bool \<Rightarrow> bool \<Rightarrow> orch \<Rightarrow> orch" where
  "updateContextOrch env connected wasNamespaceActive isNamespaceActive o1 =
     (let o2 = (case connected of Some ids \<Rightarrow> pruneRemovedClusterRuntimes env ids o1 | None \<Rightarrow> o1);
          o3 = (if wasNamespaceActive \<and> \<not> isNamespaceActive then disableNamespaceDomains env o2 else o2)
      in handleStreamingScopeChanges env (getAllRuntimes o3) o3)"

section \<open>Restarting\<close>

definition restartStreamingDomain :: "stream_env \<Rightarrow> string \<Rightarrow> string \<Rightarrow> orch \<Rightarrow> orch" where
  "restartStreamingDomain env domain scope o1 =
     (if \<not> en_streaming env domain \<or> scope = [] then o1
      else startStreamingScope env domain scope (stopStreamingScope domain scope False o1))"

definition refreshStreamingDomainOnce :: "stream_env \<Rightarrow> string \<Rightarrow> string \<Rightarrow> orch \<Rightarrow> orch" where
  "refreshStreamingDomainOnce env domain scope o1 =
     (if \<not> en_streaming env domain \<or> scope = [] then o1
      else if en_refreshOnce env domain then call (OcRefreshOnce domain scope) o1
      else restartStreamingDomain env domain scope o1)"

section \<open>Readiness\<close>

definition recordPendingClusterReadiness ::
  "string \<Rightarrow> string \<Rightarrow> readiness_request \<Rightarrow> orch \<Rightarrow> orch" where
  "recordPendingClusterReadiness domain scope options o1 =
     fold (\<lambda>clusterId o2.
       let (o3, a) = getClusterRuntime clusterId o2
       in setRuntime a (deferUntilClusterReady (so_heap o3 a)
            \<lparr>rr_coalesce = (if rr_coalesce options = Some True then Some True else None),
             rr_domain = domain, rr_scope = scope, rr_isManual = rr_isManual options,
             rr_streamSignal = rr_streamSignal options, rr_queryReconcile = rr_queryReconcile options\<rparr>) o3)
       (pl_clusterIds (parseClusterScopeList (Some scope))) o1"

definition handleForegroundActivationStarted :: "stream_env \<Rightarrow> string \<Rightarrow> orch \<Rightarrow> orch" where
  "handleForegroundActivationStarted env clusterId o1 =
     (case jm_get (so_clusterRuntimes o1) clusterId of
        None \<Rightarrow> o1
      | Some a \<Rightarrow>
          let o2 = stopRuntimeStreaming env a False o1 in
          fold (\<lambda>((r, trailing), key) o3.
            let o4 = (case if_scope r of
                        None \<Rightarrow> o3
                      | Some scope \<Rightarrow>
                          if scope = [] then o3
                          else withRuntime scope (\<lambda>b o'.
                            if isScopedDomainEnabled (so_heap o' b) (if_domain r) scope
                            then recordPendingClusterReadiness (if_domain r) scope
                                   \<lparr>rr_coalesce = if_coalesce r, rr_domain = if_domain r, rr_scope = scope,
                                    rr_isManual = if_isManual r,
                                    rr_streamSignal = (if_streamSignal r = Some True \<or> trailing),
                                    rr_queryReconcile = False\<rparr> o'
                            else o') o3)
            in teardownRequest a key (if_requestId r) o4) (forEachInFlight (so_heap o2 a)) o2)"

definition replayRequest :: "stream_env \<Rightarrow> readiness_request \<Rightarrow> orch \<Rightarrow> orch" where
  "replayRequest env request o1 =
     (let domain = rr_domain request; scope = rr_scope request in
      if domain \<notin> set (en_domains env) then o1
      else withRuntime scope (\<lambda>b o2.
        if \<not> isScopedDomainEnabled (so_heap o2 b) domain scope then o2
        else if \<not> isScopeClusterServiceable env scope o2
        then recordPendingClusterReadiness domain scope request o2
        else call (OcFetchScoped request) o2) o1)"

definition handleClusterBecameServiceable :: "stream_env \<Rightarrow> string \<Rightarrow> orch \<Rightarrow> orch" where
  "handleClusterBecameServiceable env clusterId o1 =
     (let (o2, pending) =
            (case jm_get (so_clusterRuntimes o1) clusterId of
               None \<Rightarrow> (o1, [])
             | Some a \<Rightarrow> let (rt, requests) = takeDeferredReadinessRequests (so_heap o1 a)
                         in (setRuntime a rt o1, requests));
          o3 = fold (replayRequest env) pending o2
      in handleStreamingScopeChanges env (getAllRuntimes o3) o3)"

section \<open>Events of the application\<close>

definition handleResourceStreamPermissionDenied :: "stream_env \<Rightarrow> string \<Rightarrow> string \<Rightarrow> orch \<Rightarrow> orch" where
  "handleResourceStreamPermissionDenied env domain scope o1 =
     (let scope = js_trim scope in
      if scope = [] then o1
      else withRuntime scope (\<lambda>a o2.
        if \<not> snd (blockStreaming (so_heap o2 a) domain scope) then o2
        else call (OcPerformFetch domain scope) (blockStreamingScope env domain scope o2)) o1)"

definition handleResourceStreamDrift :: "stream_env \<Rightarrow> string \<Rightarrow> string \<Rightarrow> orch \<Rightarrow> orch" where
  "handleResourceStreamDrift env domain scope o1 =
     (let scope = js_trim scope in
      if scope = [] then o1 else blockStreamingScope env domain scope o1)"

definition handleResourceStreamHealth :: "string \<Rightarrow> string \<Rightarrow> health_payload \<Rightarrow> orch \<Rightarrow> orch" where
  "handleResourceStreamHealth domain scope payload o1 =
     (let scope = js_trim scope in
      if scope = [] then o1
      else withRuntime scope (\<lambda>a o2.
        let (rt, previous) = setStreamHealth (so_heap o2 a) domain scope payload;
            o3 = setRuntime a rt o2
        in if hp_status payload = Healthy \<and>
              (case previous of Some p \<Rightarrow> hp_status p \<noteq> Healthy | None \<Rightarrow> True)
           then call (OcStreamAcknowledged domain scope) o3 else o3) o1)"

definition clearErrors :: "nat \<Rightarrow> orch \<Rightarrow> orch" where
  "clearErrors a o1 =
     fold (\<lambda>(domain, scope). call (OcClearError domain scope)) (forEachScopedDomain (so_heap o1 a)) o1"

definition handleClusterAuthRecovered :: "stream_env \<Rightarrow> string \<Rightarrow> orch \<Rightarrow> orch" where
  "handleClusterAuthRecovered env clusterId o1 =
     (let clusterId = js_trim clusterId in
      if clusterId = [] then o1
      else case jm_get (so_clusterRuntimes o1) clusterId of
             None \<Rightarrow> o1
           | Some a \<Rightarrow>
               let (rt, recovered) = markAuthRecovered (so_heap o1 a) in
               if \<not> recovered then o1
               else let o2 = setRuntime a (clearAllStreamHealth (clearBlockedStreaming rt)) o1;
                        o3 = clearErrors a (resetRuntimePermissionEpoch a o2)
                    in handleStreamingScopeChanges env (getAllRuntimes o3) o3)"

definition handleClusterScopeChanged :: "stream_env \<Rightarrow> nat \<Rightarrow> string \<Rightarrow> orch \<Rightarrow> orch" where
  "handleClusterScopeChanged env now clusterId o1 =
     (let clusterId = js_trim clusterId in
      if clusterId = [] then o1
      else let o2 = call (OcResetDenied clusterId) o1 in
        case jm_get (so_clusterRuntimes o1) clusterId of
          None \<Rightarrow> o2
        | Some a \<Rightarrow>
            let o3 = teardownAll a (stopRuntimeStreaming env a False o2);
                rt = clearAllStreamHealth (clearBlockedStreaming (clearAsyncStreamingBookkeeping (so_heap o3 a)));
                o4 = resetRuntimePermissionEpoch a (setRuntime a rt o3);
                o5 = fold (\<lambda>(domain, scope) o'.
                       setRuntime a (markReconciliationFailed (so_heap o' a) domain scope now)
                         (call (OcClearError domain scope) o')) (forEachScopedDomain (so_heap o4 a)) o4
            in handleStreamingScopeChanges env [a] o5)"

definition handleResetViews :: "stream_env \<Rightarrow> orch \<Rightarrow> orch" where
  "handleResetViews env o1 =
     (let o2 = stopAllStreaming env True (incrementContextVersion o1);
          o3 = clearAllHealth (clearAllBlockedStreaming (abortAllInFlight o2))
      in fold (\<lambda>domain. call (OcResetDomain domain)) (en_domains env) o3)"

definition markAllAuthRecovered :: "orch \<Rightarrow> orch" where
  "markAllAuthRecovered o1 =
     fold (\<lambda>a o2. setRuntime a (fst (markAuthRecovered (so_heap o2 a))) o2) (getAllRuntimes o1) o1"

definition handleKubeconfigChanging :: "stream_env \<Rightarrow> orch \<Rightarrow> orch" where
  "handleKubeconfigChanging env o1 =
     (let o2 = stopAllStreaming env True (incrementContextVersion (markAllAuthRecovered o1));
          o3 = clearAllHealth (clearAllBlockedStreaming (abortAllInFlight o2))
      in fold (\<lambda>domain o4.
           deleteDomainFromAllRuntimes domain
             (call (OcResetDomain domain) (setDomainEnabled env domain False o4))) (en_domains env) o3)"

definition handleKubeconfigChanged :: "orch \<Rightarrow> orch" where
  "handleKubeconfigChanged o1 =
     clearAllHealth (clearAllBlockedStreaming (call (OcSuppressErrors 6000) (incrementContextVersion o1)))"

definition handleKubeconfigSelectionChanged :: "orch \<Rightarrow> orch" where
  "handleKubeconfigSelectionChanged o1 =
     clearAllHealth (clearAllBlockedStreaming (call (OcSuppressErrors 6000) (incrementContextVersion o1)))"

definition handleAutoRefreshChanged :: "stream_env \<Rightarrow> orch \<Rightarrow> orch" where
  "handleAutoRefreshChanged env o1 = handleStreamingScopeChanges env (getAllRuntimes o1) o1"

section \<open>Scopes that normalise\<close>

text \<open>With a selected cluster every scope normalises to one that has a key of its own.\<close>

definition normalizes :: "stream_env \<Rightarrow> bool" where
  "normalizes env \<longleftrightarrow> (\<forall>d s s'. sok d s \<longrightarrow> normalizeDomainScope env d s = Some s' \<longrightarrow> s' \<noteq> [] \<longrightarrow> sok d s')"

lemma with_cluster_not_star:
  assumes "js_trim i \<noteq> []"
  shows "js_trim (buildClusterScope (Some i) s) \<noteq> ''*''"
proof -
  let ?raw = "js_trim (or_empty s)" and ?i = "js_trim i"
  have d: "CLUSTER_SCOPE_DELIMITER \<in> set (buildClusterScope (Some i) s)"
  proof (cases "sp_clusterId (splitClusterScope ?raw) = []")
    case False
    then have "\<not> index_of ?raw CLUSTER_SCOPE_DELIMITER \<le> 0"
      by (auto simp: splitClusterScope_def Let_def split: if_splits)
    then have "CLUSTER_SCOPE_DELIMITER \<in> set ?raw" by (simp add: index_of_nonneg_iff [symmetric])
    with False show ?thesis by (simp add: buildClusterScope_def Let_def)
  qed (use assms in \<open>simp add: buildClusterScope_def Let_def\<close>)
  have t: "trimmed (buildClusterScope (Some i) s)"
    using assms trimmed_prefixed [of ?i ?raw] trimmed_prefixed [of ?i "[]"]
    by (simp add: buildClusterScope_def Let_def)
  show ?thesis
  proof
    assume "js_trim (buildClusterScope (Some i) s) = ''*''"
    with t have "buildClusterScope (Some i) s = ''*''" by (simp add: js_trim_id)
    with d show False by (simp add: CLUSTER_SCOPE_DELIMITER_def)
  qed
qed

lemma selected_normalizes:
  assumes "en_selectedClusterId env = Some c" "js_trim c \<noteq> []"
  shows "normalizes env"
  unfolding normalizes_def
proof (intro allI impI)
  fix d s s'
  assume ok: "sok d s" and n: "normalizeDomainScope env d s = Some s'" "s' \<noteq> []"
  let ?ids = "pl_clusterIds (parseClusterScopeList (Some (js_trim s)))"
  have "list_all (\<lambda>i. i \<noteq> [] \<and> trimmed i) ?ids"
    using parseClusterIdList_ok by (simp add: parseClusterScopeList_def Let_def)
  then have "\<exists>i t. s' = buildClusterScope (Some i) t \<and> js_trim i \<noteq> []"
    using n assms by (auto simp: normalizeDomainScope_def normalizeRefreshDomainScope_def Let_def js_trim_id
        split: if_splits list.splits)
  with ok with_cluster_not_star show "sok d s'" by (auto simp: scope_ok_def)
qed

section \<open>The handlers keep the invariant\<close>

lemma tame_fold_set:
  assumes "\<And>rt. tame_runtime rt (f rt)"
  shows "quiet env E D o1 (fold (\<lambda>a o2. setRuntime a (f (so_heap o2 a)) o2) xs o1)"
  by (rule quiet_fold) (rule quiet_set, rule assms)

lemma quiet_calls:
  "(\<And>x t. g x \<noteq> OcCleanup t \<and> g x \<noteq> OcEffect (AbortController t)) \<Longrightarrow> (\<And>x d s. g x \<noteq> OcScopedError d s) \<Longrightarrow>
     quiet env E D o1 (fold (\<lambda>x. call (g x)) xs o1)"
  by (rule quiet_fold) (rule quiet_call; simp)

lemma tame_clearBlocked: "tame_runtime rt (clearBlockedStreaming rt)"
  and tame_clearHealth: "tame_runtime rt (clearAllStreamHealth rt)"
  and tame_clearAsync: "tame_runtime rt (clearAsyncStreamingBookkeeping rt)"
  by (simp_all add: clearBlockedStreaming_def clearAllStreamHealth_def clearAsyncStreamingBookkeeping_def
      tame_stream_all)

lemma tame_permission_epoch: "tame_runtime rt (fst (resetPermissionEpoch rt))"
proof -
  have "keeps kept rt (fst (resetPermissionEpoch rt))"
    by (auto simp: resetPermissionEpoch_def reset_permission_fold intro!: keeps_store_each)
  moreover have "cr_clusterId (store_each P g sts rt) = cr_clusterId rt" for P g sts
    unfolding store_each_def by (rule clusterId_fold) simp
  ultimately show ?thesis
    by (intro tame_keeps) (simp_all add: resetPermissionEpoch_def reset_permission_fold)
qed

lemma clusterId_reconciliation [simp]:
  "cr_clusterId (markReconciliationFailed rt d s now) = cr_clusterId rt"
  "cr_clusterId (markReconciled rt d s) = cr_clusterId rt"
  "cr_clusterId (deferUntilClusterReady rt r) = cr_clusterId rt"
  by (simp_all add: markReconciliationFailed_def markReconciled_def deferUntilClusterReady_def Let_def)

lemma tame_reconciliation:
  "sok d s \<Longrightarrow> tame_runtime rt (markReconciliationFailed rt d s now)"
  "sok d s \<Longrightarrow> tame_runtime rt (markReconciled rt d s)"
  by (simp_all add: tame_keeps keeps_reconciliation)

lemma quiet_blocked [quiet_ops]: "quiet env E D o1 (clearAllBlockedStreaming o1)"
  and quiet_health [quiet_ops]: "quiet env E D o1 (clearAllHealth o1)"
  unfolding clearAllBlockedStreaming_def clearAllHealth_def
  by (rule tame_fold_set, rule tame_clearBlocked tame_clearHealth)+

lemma quiet_abortAll [quiet_ops]: "quiet env E D o1 (abortAllInFlight o1)"
  unfolding abortAllInFlight_def by (rule quiet_fold) (rule quiet_teardownAll)

lemma quiet_permissionEpoch: "quiet env E D o1 (resetRuntimePermissionEpoch a o1)"
proof -
  obtain rt reset where r: "resetPermissionEpoch (so_heap o1 a) = (rt, reset)" by fastforce
  have "quiet env E D o1 (setRuntime a rt o1)"
    using tame_permission_epoch [of "so_heap o1 a"] r by (intro quiet_set) simp
  then show ?thesis
    unfolding resetRuntimePermissionEpoch_def r Let_def prod.case
    by (rule quiet_trans) (rule quiet_fold, auto intro: quiet_call)
qed

lemma quiet_version [quiet_ops]: "quiet env E D o1 (incrementContextVersion o1)"
  by (rule quiet_tame) (auto simp: incrementContextVersion_def cleaned_def scheduled_ok_def)

lemma quiet_withScope:
  assumes "normalizes env" "sok d v" "\<And>s o2. sok d s \<Longrightarrow> quiet env E D o2 (f s o2)"
  shows "quiet env E D o1 (withScope env d v f o1)"
  using assms by (auto simp: withScope_def normalizes_def split: option.splits)

lemma known_scope_ok: "sound rt \<Longrightarrow> s \<in> set (getKnownScopes rt d) \<Longrightarrow> sok d s"
  using stored_scope_ok [of rt] by (fastforce simp: getKnownScopes_def)

lemma quiet_setDomainEnabled [quiet_ops]:
  assumes "normalizes env"
  shows "quiet env E D o1 (setDomainEnabled env d enabled o1)"
proof (rule quiet_invI)
  assume I: "orch_inv env E D o1"
  then have ok: "s \<in> set (getKnownScopesAll d o1) \<Longrightarrow> sok d s" for s
    by (auto simp: getKnownScopesAll_def orch_inv_def dest: known_scope_ok [rotated])
  show ?thesis
    unfolding setDomainEnabled_def
    by (rule quiet_demand, rule quiet_fold, rule quiet_withScope [OF assms ok quiet_setEnabled])
qed

lemma quiet_restart [quiet_ops]: "sok d s \<Longrightarrow> quiet env E D o1 (restartStreamingDomain env d s o1)"
  by (auto simp: restartStreamingDomain_def intro!: quiet_trans [OF quiet_stop quiet_start])

lemma quiet_refreshOnce [quiet_ops]: "sok d s \<Longrightarrow> quiet env E D o1 (refreshStreamingDomainOnce env d s o1)"
  by (auto simp: refreshStreamingDomainOnce_def quiet_restart intro!: quiet_call)

lemma quiet_namespaceDomains [quiet_ops]:
  "normalizes env \<Longrightarrow> quiet env E D o1 (disableNamespaceDomains env o1)"
  unfolding disableNamespaceDomains_def
  by (rule quiet_fold) (auto intro!: quiet_trans [OF quiet_setDomainEnabled quiet_call]
      quiet_trans [OF quiet_call quiet_call])

text \<open>Deferred requests\<close>

lemma defer_get:
  "sound rt \<Longrightarrow> sok (rr_domain r) (rr_scope r) \<Longrightarrow> scope_ok d s \<Longrightarrow>
   ss_readiness (getScopeState (deferUntilClusterReady rt r) d s) =
     (if d = rr_domain r \<and> s = Some (rr_scope r)
      then transitionScopedReadinessState (ss_readiness (getScopeState rt d s)) (RequestDeferred r)
      else ss_readiness (getScopeState rt d s))"
  by (auto simp: deferUntilClusterReady_def Let_def get_store)

lemma deferred_scope:
  "(case w of Ready \<Rightarrow> True | Waiting q \<Rightarrow> sok (rr_domain q) (rr_scope q)) \<Longrightarrow> sok (rr_domain r) (rr_scope r) \<Longrightarrow>
   (case transitionScopedReadinessState w (RequestDeferred r) of
      Ready \<Rightarrow> True | Waiting q \<Rightarrow> sok (rr_domain q) (rr_scope q))"
  by (cases w) auto

lemma tame_defer:
  assumes "sok (rr_domain r) (rr_scope r)"
  shows "tame_runtime rt (deferUntilClusterReady rt r)"
  unfolding tame_runtime_def calm_runtime_def
proof (intro impI conjI)
  note k = keeps_readiness [OF _ assms, of _ rt]
  show "keeps (\<lambda>st. request_of (ss_fetch st)) rt (deferUntilClusterReady rt r)" by (rule k) simp
  assume sn: "sound rt"
  show "runtime_ok (deferUntilClusterReady rt r)" "ids_ok (deferUntilClusterReady rt r)"
    using sn k [of "\<lambda>_. ()"] by (simp_all add: keeps_def)
  show "\<forall>d s. sok d s \<longrightarrow> tame (conn_of rt d s) (conn_of (deferUntilClusterReady rt r) d s)"
    using sn k [of ss_stream] by (simp add: keeps_def)
  show "requests_ok (deferUntilClusterReady rt r)" if rq: "requests_ok rt"
    unfolding requests_ok_def
  proof (intro allI impI)
    fix d s
    assume ok: "scope_ok d s"
    have "ss_fetch (getScopeState (deferUntilClusterReady rt r) d s) = ss_fetch (getScopeState rt d s)"
      using sn ok k [of ss_fetch] by (simp add: keeps_def)
    moreover have "request_ok (getScopeState rt d s)" using rq ok by (simp add: requests_ok_def)
    ultimately show "request_ok (getScopeState (deferUntilClusterReady rt r) d s)"
      using sn ok assms deferred_scope [OF _ assms, of "ss_readiness (getScopeState rt d s)"]
      by (auto simp: request_ok_def defer_get)
  qed
qed simp

lemma quiet_recordPending [quiet_ops]:
  assumes "sok d s"
  shows "quiet env E D o1 (recordPendingClusterReadiness d s options o1)"
  unfolding recordPendingClusterReadiness_def
proof (rule quiet_fold)
  fix c and o2 :: orch
  let ?r = "\<lparr>rr_coalesce = (if rr_coalesce options = Some True then Some True else None),
    rr_domain = d, rr_scope = s, rr_isManual = rr_isManual options,
    rr_streamSignal = rr_streamSignal options, rr_queryReconcile = rr_queryReconcile options\<rparr>"
  obtain o3 a where g: "getClusterRuntime c o2 = (o3, a)" by fastforce
  have "quiet env E D o2 o3" using quiet_getClusterRuntime [of env E D o2 c] g by simp
  moreover have "quiet env E D o3 (setRuntime a (deferUntilClusterReady (so_heap o3 a) ?r) o3)"
    by (rule quiet_set, rule tame_defer) (simp add: assms)
  ultimately have "quiet env E D o2 (setRuntime a (deferUntilClusterReady (so_heap o3 a) ?r) o3)"
    by (rule quiet_trans)
  then show "quiet env E D o2 (let (o3, a) = getClusterRuntime c o2
     in setRuntime a (deferUntilClusterReady (so_heap o3 a) ?r) o3)" by (simp add: g)
qed

lemma tracked_state:
  "x \<in> set (forEachInFlight rt) \<Longrightarrow>
   \<exists>st. st \<in> set (scope_states rt) \<and> ss_fetch st = Fetching (fst (fst x)) (snd (fst x))"
proof -
  assume "x \<in> set (forEachInFlight rt)"
  then obtain key st where m: "(key, st) \<in> set (cr_scopedStates rt)"
    and x: "x \<in> set (case trackedRequest (ss_fetch st) of None \<Rightarrow> [] | Some r \<Rightarrow> [(r, key)])"
    unfolding forEachInFlight_def by (auto simp del: trackedRequest_def)
  from m have "st \<in> set (scope_states rt)" by force
  moreover from x have "ss_fetch st = Fetching (fst (fst x)) (snd (fst x))"
    by (cases "ss_fetch st") (auto simp: trackedRequest_def)
  ultimately show ?thesis by blast
qed

lemma tracked_scope_ok:
  assumes "sound rt" "requests_ok rt" "((r, t), key) \<in> set (forEachInFlight rt)"
  shows "scope_ok (if_domain r) (if_scope r)"
proof -
  from tracked_state [OF assms(3)]
  obtain st where st: "st \<in> set (scope_states rt)" "ss_fetch st = Fetching r t" by auto
  have "state_ok st" using assms(1) st(1) stored_scope_ok by blast
  then have "request_ok (getScopeState rt (ss_domain st) (ss_scope st))"
    using assms(2) by (simp add: requests_ok_def)
  then show ?thesis using stored_state(1) [of rt st] assms(1) st by (simp add: request_ok_def)
qed

lemma quiet_foreground [quiet_ops]: "quiet env E D o1 (handleForegroundActivationStarted env c o1)"
proof (cases "jm_get (so_clusterRuntimes o1) c")
  case (Some a)
  let ?o2 = "stopRuntimeStreaming env a False o1"
  let ?f = "\<lambda>((r, trailing), key) o3.
            let o4 = (case if_scope r of
                        None \<Rightarrow> o3
                      | Some scope \<Rightarrow>
                          if scope = [] then o3
                          else withRuntime scope (\<lambda>b o'.
                            if isScopedDomainEnabled (so_heap o' b) (if_domain r) scope
                            then recordPendingClusterReadiness (if_domain r) scope
                                   \<lparr>rr_coalesce = if_coalesce r, rr_domain = if_domain r, rr_scope = scope,
                                    rr_isManual = if_isManual r,
                                    rr_streamSignal = (if_streamSignal r = Some True \<or> trailing),
                                    rr_queryReconcile = False\<rparr> o'
                            else o') o3)
            in teardownRequest a key (if_requestId r) o4"
  have q: "quiet env E D o1 ?o2" by (rule quiet_stop_runtime)
  have "quiet env E D ?o2 (fold ?f (forEachInFlight (so_heap ?o2 a)) ?o2)"
  proof (rule quiet_invI)
    assume I: "orch_inv env E D ?o2"
    have "quiet env E D o3 (?f x o3)" if "x \<in> set (forEachInFlight (so_heap ?o2 a))" for x and o3 :: orch
    proof -
      obtain r t key where x: "x = ((r, t), key)" by (metis surj_pair)
      have ok: "scope_ok (if_domain r) (if_scope r)"
      proof (rule tracked_scope_ok)
        show "sound (so_heap ?o2 a)" "requests_ok (so_heap ?o2 a)" using I by (simp_all only: orch_inv_def)
        show "((r, t), key) \<in> set (forEachInFlight (so_heap ?o2 a))" using that x by simp
      qed
      show ?thesis
        unfolding x prod.case Let_def
        by (rule quiet_trans [OF _ quiet_teardownRequest])
          (use ok in \<open>auto split: option.split if_split intro!: quiet_route quiet_recordPending\<close>)
    qed
    then show "quiet env E D ?o2 (fold ?f (forEachInFlight (so_heap ?o2 a)) ?o2)" by (rule quiet_fold)
  qed
  with q show ?thesis
    unfolding handleForegroundActivationStarted_def Some option.case Let_def by (rule quiet_trans)
qed (simp add: handleForegroundActivationStarted_def)


lemma tame_take:
  "tame_runtime rt (fst (takeDeferredReadinessRequests rt))"
proof -
  have "keeps (\<lambda>st. (ss_stream st, ss_fetch st)) rt (fst (takeDeferredReadinessRequests rt))"
    by (simp add: keeps_def take_deferred_get take_deferred_sound)
  moreover have "cr_clusterId (store_each P g sts rt) = cr_clusterId rt" for P g sts
    unfolding store_each_def by (rule clusterId_fold) simp
  then have "cr_clusterId (fst (takeDeferredReadinessRequests rt)) = cr_clusterId rt"
    by (simp add: takeDeferredReadinessRequests_def take_deferred_fold)
  ultimately show ?thesis
    by (auto simp: tame_runtime_def calm_runtime_def keeps_def requests_ok_def request_ok_def take_deferred_get)
qed

lemma taken_scope_ok:
  assumes "sound rt" "requests_ok rt" "r \<in> set (snd (takeDeferredReadinessRequests rt))"
  shows "sok (rr_domain r) (rr_scope r)"
proof -
  from assms(3) obtain st where st: "st \<in> set (scope_states rt)" "ss_readiness st = Waiting r"
    by (force simp: takeDeferredReadinessRequests_def take_deferred_fold split: readiness_state.splits)
  have "state_ok st" using assms(1) st(1) stored_scope_ok by blast
  then have "request_ok (getScopeState rt (ss_domain st) (ss_scope st))"
    using assms(2) by (simp add: requests_ok_def)
  then show ?thesis using stored_state(1) [of rt st] assms(1) st by (simp add: request_ok_def)
qed

lemma quiet_replay: "sok (rr_domain r) (rr_scope r) \<Longrightarrow> quiet env E D o1 (replayRequest env r o1)"
  unfolding replayRequest_def Let_def
  by (auto intro!: quiet_route quiet_recordPending quiet_call)

lemma quiet_serviceable [quiet_ops]: "quiet env E D o1 (handleClusterBecameServiceable env c o1)"
proof (cases "jm_get (so_clusterRuntimes o1) c")
  case None
  then show ?thesis by (simp add: handleClusterBecameServiceable_def quiet_scopeChanges)
next
  case (Some a)
  let ?t = "takeDeferredReadinessRequests (so_heap o1 a)"
  let ?o2 = "setRuntime a (fst ?t) o1"
  let ?o3 = "fold (replayRequest env) (snd ?t) ?o2"
  have "quiet env E D o1 ?o3"
  proof (rule quiet_invI)
    assume I: "orch_inv env E D o1"
    have "quiet env E D o2 (replayRequest env r o2)" if "r \<in> set (snd ?t)" for r and o2 :: orch
      using I that by (intro quiet_replay taken_scope_ok [of "so_heap o1 a"]) (simp_all add: orch_inv_def)
    then have "quiet env E D ?o2 ?o3" by (rule quiet_fold)
    with quiet_set [OF tame_take] show "quiet env E D o1 ?o3" by (rule quiet_trans)
  qed
  then have "quiet env E D o1 (handleStreamingScopeChanges env (getAllRuntimes ?o3) ?o3)"
    by (rule quiet_trans) (rule quiet_scopeChanges)
  then show ?thesis by (simp add: handleClusterBecameServiceable_def Some Let_def split_beta)
qed

text \<open>Events of the resource stream\<close>

lemma quiet_denied [quiet_ops]:
  "sok d (js_trim s) \<Longrightarrow> quiet env E D o1 (handleResourceStreamPermissionDenied env d s o1)"
  unfolding handleResourceStreamPermissionDenied_def Let_def
  by (auto intro!: quiet_route quiet_trans [OF quiet_block quiet_call])

lemma quiet_drift [quiet_ops]:
  "sok d (js_trim s) \<Longrightarrow> quiet env E D o1 (handleResourceStreamDrift env d s o1)"
  by (simp add: handleResourceStreamDrift_def Let_def quiet_block)

lemma tame_health:
  "sok d s \<Longrightarrow> tame_runtime rt (fst (setStreamHealth rt d s p))"
  by (simp add: setStreamHealth_def tame_apply)

lemma quiet_streamHealth [quiet_ops]:
  assumes "sok d (js_trim s)"
  shows "quiet env E D o1 (handleResourceStreamHealth d s p o1)"
  unfolding handleResourceStreamHealth_def Let_def
proof (split if_split, intro conjI impI quiet_refl, rule quiet_route)
  fix o2 :: orch and a
  obtain rt previous where h: "setStreamHealth (so_heap o2 a) d (js_trim s) p = (rt, previous)" by fastforce
  have "quiet env E D o2 (setRuntime a rt o2)"
    using tame_health [OF assms, of "so_heap o2 a" p] h by (intro quiet_set) simp
  then show "quiet env E D o2
    (case setStreamHealth (so_heap o2 a) d (js_trim s) p of (rt, previous) \<Rightarrow>
       if hp_status p = Healthy \<and> (case previous of Some p \<Rightarrow> hp_status p \<noteq> Healthy | None \<Rightarrow> True)
       then call (OcStreamAcknowledged d (js_trim s)) (setRuntime a rt o2) else setRuntime a rt o2)"
    by (auto simp: h intro: quiet_trans quiet_call)
qed

text \<open>Events of a cluster\<close>

lemma scoped_domains_ok: "sound rt \<Longrightarrow> (d, s) \<in> set (forEachScopedDomain rt) \<Longrightarrow> sok d s"
  using stored_scope_ok [of rt] by (fastforce simp: forEachScopedDomain_def)

lemma quiet_clearErrors: "quiet env E D o1 (clearErrors a o1)"
  unfolding clearErrors_def by (rule quiet_fold) (auto intro: quiet_call)

lemma quiet_authRecovered [quiet_ops]: "quiet env E D o1 (handleClusterAuthRecovered env c o1)"
proof (cases "js_trim c = [] \<or> jm_get (so_clusterRuntimes o1) (js_trim c) = None")
  case False
  then obtain a where a: "jm_get (so_clusterRuntimes o1) (js_trim c) = Some a" and c: "js_trim c \<noteq> []" by auto
  obtain rt recovered where m: "markAuthRecovered (so_heap o1 a) = (rt, recovered)" by fastforce
  let ?o2 = "setRuntime a (clearAllStreamHealth (clearBlockedStreaming rt)) o1"
  let ?o3 = "clearErrors a (resetRuntimePermissionEpoch a ?o2)"
  have "tame_runtime (so_heap o1 a) rt"
    using tame_auth [of "so_heap o1 a" AuthRecoveredEvent] m by (simp add: markAuthRecovered_def)
  then have "quiet env E D o1 ?o2"
    by (intro quiet_set) (metis tame_runtime_trans tame_clearBlocked tame_clearHealth)
  then have "quiet env E D o1 ?o3"
    by (rule quiet_trans [OF quiet_trans]) (rule quiet_permissionEpoch quiet_clearErrors)+
  then have "quiet env E D o1 (handleStreamingScopeChanges env (getAllRuntimes ?o3) ?o3)"
    by (rule quiet_trans) (rule quiet_scopeChanges)
  then show ?thesis by (simp add: handleClusterAuthRecovered_def a c m Let_def)
qed (auto simp: handleClusterAuthRecovered_def Let_def)

lemma quiet_scopeChanged [quiet_ops]: "quiet env E D o1 (handleClusterScopeChanged env now c o1)"
proof (cases "js_trim c = [] \<or> jm_get (so_clusterRuntimes o1) (js_trim c) = None")
  case True
  then show ?thesis by (auto simp: handleClusterScopeChanged_def Let_def intro: quiet_call)
next
  case False
  then obtain a where a: "jm_get (so_clusterRuntimes o1) (js_trim c) = Some a" and c: "js_trim c \<noteq> []" by auto
  let ?o2 = "call (OcResetDenied (js_trim c)) o1"
  let ?o3 = "teardownAll a (stopRuntimeStreaming env a False ?o2)"
  let ?rt = "clearAllStreamHealth (clearBlockedStreaming (clearAsyncStreamingBookkeeping (so_heap ?o3 a)))"
  let ?o4 = "resetRuntimePermissionEpoch a (setRuntime a ?rt ?o3)"
  let ?f = "\<lambda>(domain, scope) o'. setRuntime a (markReconciliationFailed (so_heap o' a) domain scope now)
              (call (OcClearError domain scope) o')"
  let ?o5 = "fold ?f (forEachScopedDomain (so_heap ?o4 a)) ?o4"
  have "quiet env E D o1 ?o2" by (rule quiet_call) simp_all
  then have q3: "quiet env E D o1 ?o3"
    by (rule quiet_trans [OF quiet_trans]) (rule quiet_stop_runtime quiet_teardownAll)+
  have "quiet env E D ?o3 (setRuntime a ?rt ?o3)"
    by (rule quiet_set) (metis tame_runtime_trans tame_clearBlocked tame_clearHealth tame_clearAsync)
  with q3 have "quiet env E D o1 (setRuntime a ?rt ?o3)" by (rule quiet_trans)
  then have q4: "quiet env E D o1 ?o4" by (rule quiet_trans) (rule quiet_permissionEpoch)
  have "quiet env E D ?o4 ?o5"
  proof (rule quiet_invI)
    assume I: "orch_inv env E D ?o4"
    have "quiet env E D o' (?f x o')" if x: "x \<in> set (forEachScopedDomain (so_heap ?o4 a))" for x and o' :: orch
    proof -
      obtain d s where ds: "x = (d, s)" by fastforce
      have ok: "sok d s" using I x ds by (auto simp: orch_inv_def intro: scoped_domains_ok)
      have "quiet env E D o' (call (OcClearError d s) o')" by (rule quiet_call) simp_all
      then show ?thesis
        unfolding ds prod.case
        by (rule quiet_trans)
          (use quiet_set [of "call (OcClearError d s) o'" a] tame_reconciliation(1) [OF ok] in
            \<open>simp add: call_def\<close>)
    qed
    then show "quiet env E D ?o4 ?o5" by (rule quiet_fold)
  qed
  with q4 have "quiet env E D o1 ?o5" by (rule quiet_trans)
  then have "quiet env E D o1 (handleStreamingScopeChanges env [a] ?o5)"
    by (rule quiet_trans) (rule quiet_scopeChanges)
  then show ?thesis unfolding handleClusterScopeChanged_def Let_def using a c by simp
qed

text \<open>Resetting everything\<close>

lemma quiet_resetViews [quiet_ops]: "quiet env E D o1 (handleResetViews env o1)"
proof -
  have "quiet env E D o1 (stopAllStreaming env True (incrementContextVersion o1))"
    by (rule quiet_trans) (rule quiet_version quiet_stopAll)+
  then have "quiet env E D o1 (clearAllHealth (clearAllBlockedStreaming (abortAllInFlight
      (stopAllStreaming env True (incrementContextVersion o1)))))"
    by (rule quiet_trans [OF quiet_trans [OF quiet_trans]]) (rule quiet_abortAll quiet_blocked quiet_health)+
  then show ?thesis
    unfolding handleResetViews_def Let_def by (rule quiet_trans) (rule quiet_calls; simp)
qed

lemma quiet_kubeconfigChanged [quiet_ops]: "quiet env E D o1 (handleKubeconfigChanged o1)"
proof -
  have "quiet env E D o1 (call (OcSuppressErrors 6000) (incrementContextVersion o1))"
    by (rule quiet_trans [OF quiet_version quiet_call]) simp_all
  then show ?thesis
    unfolding handleKubeconfigChanged_def
    by (rule quiet_trans [OF quiet_trans]) (rule quiet_blocked quiet_health)+
qed

lemma quiet_kubeconfigSelection [quiet_ops]: "quiet env E D o1 (handleKubeconfigSelectionChanged o1)"
  using quiet_kubeconfigChanged by (simp add: handleKubeconfigSelectionChanged_def handleKubeconfigChanged_def)

lemma quiet_autoRefresh [quiet_ops]: "quiet env E D o1 (handleAutoRefreshChanged env o1)"
  unfolding handleAutoRefreshChanged_def by (rule quiet_scopeChanges)

text \<open>No stream is active, and no request is in flight.\<close>

definition inactive :: "orch \<Rightarrow> bool" where
  "inactive o1 \<longleftrightarrow> (\<forall>a d s f b. sok d s \<longrightarrow> slot o1 a d s \<noteq> ConnActive f b)"

definition idle :: "orch \<Rightarrow> bool" where
  "idle o1 \<longleftrightarrow> inactive o1 \<and> (\<forall>a d s. scope_ok d s \<longrightarrow> fetch_of (so_heap o1 a) d s = None)"

lemma quiet_inactive: "quiet env E D o1 o2 \<Longrightarrow> orch_inv env E D o1 \<Longrightarrow> inactive o1 \<Longrightarrow> inactive o2"
  unfolding quiet_def no_new_def inactive_def by meson

lemma quiet_idle: "quiet env E D o1 o2 \<Longrightarrow> orch_inv env E D o1 \<Longrightarrow> idle o1 \<Longrightarrow> idle o2"
  by (simp add: idle_def quiet_inactive quiet_free)

lemma current_listed: "isRuntimeCurrent a o1 \<Longrightarrow> a \<in> set (getAllRuntimes o1)"
  by (auto simp: isRuntimeCurrent_def getAllRuntimes_def dest!: jm_get_in intro: rev_image_eqI)

lemma abortAll_idle:
  assumes I: "orch_inv env E D o1" and "inactive o1"
  shows "idle (abortAllInFlight o1)"
proof -
  have free: "fetch_of (so_heap (fold teardownAll xs o2) a) d s = None"
    if "orch_inv env E D o2" "scope_ok d s" "a \<in> set xs \<or> fetch_of (so_heap o2 a) d s = None"
    for xs o2 a d s
    using that
  proof (induction xs arbitrary: o2)
    case (Cons x xs)
    have q: "quiet env E D o2 (teardownAll x o2)" by (rule quiet_teardownAll)
    have "a \<in> set xs \<or> fetch_of (so_heap (teardownAll x o2) a) d s = None"
      using Cons.prems(3) teardownAll_free [OF Cons.prems(1,2), of x] quiet_free [OF q Cons.prems(1,2), of a]
      by auto
    with Cons.IH [OF quiet_inv [OF q Cons.prems(1)] Cons.prems(2)] show ?case by simp
  qed simp
  have "fetch_of (so_heap (abortAllInFlight o1) a) d s = None" if ok: "scope_ok d s" for a d s
  proof -
    have "a \<in> set (getAllRuntimes o1)" if "fetch_of (so_heap o1 a) d s = Some r" for r
    proof -
      have "tracked_ok o1 a d s r" using I ok that by (simp add: orch_inv_def flights_ok_def)
      then show ?thesis by (intro current_listed) (simp add: tracked_ok_def)
    qed
    then show ?thesis
      unfolding abortAllInFlight_def using free [OF I ok] by (cases "fetch_of (so_heap o1 a) d s") auto
  qed
  with quiet_inactive [OF quiet_abortAll I assms(2)] show ?thesis by (simp add: idle_def)
qed

lemma quiet_then_idle:
  "quiet env E D o1 o2 \<Longrightarrow> (idle o2 \<Longrightarrow> quiet env E D o2 o3) \<Longrightarrow> idle o1 \<Longrightarrow> quiet env E D o1 o3"
  by (rule quiet_invI) (metis quiet_idle quiet_trans)

lemma quiet_fold_idle:
  assumes "\<And>x o2. x \<in> set xs \<Longrightarrow> idle o2 \<Longrightarrow> quiet env E D o2 (f x o2)"
  shows "idle o1 \<Longrightarrow> quiet env E D o1 (fold f xs o1)"
  using assms
proof (induction xs arbitrary: o1)
  case (Cons x xs)
  have rest: "quiet env E D (f x o1) (fold f xs (f x o1))" if "idle (f x o1)"
    using that by (rule Cons.IH) (simp add: Cons.prems(2))
  have "quiet env E D o1 (f x o1)" by (simp add: Cons.prems)
  then have "quiet env E D o1 (fold f xs (f x o1))"
    by (rule quiet_then_idle) (rule rest, assumption, rule Cons.prems(1))
  then show ?case by simp
qed simp

lemma stopAll_inactive:
  assumes I: "orch_inv env E D o1"
  shows "inactive (stopAllStreaming env reset o1)"
proof -
  let ?stop = "\<lambda>a. stopRuntimeStreaming env a reset"
  have stopped: "slot (fold ?stop xs o2) a d s \<noteq> ConnActive f b"
    if "orch_inv env E D o2" "sok d s" "a \<in> set xs \<or> (\<forall>f b. slot o2 a d s \<noteq> ConnActive f b)"
    for xs o2 a d s f b
    using that
  proof (induction xs arbitrary: o2)
    case (Cons x xs)
    have q: "quiet env E D o2 (?stop x o2)" by (rule quiet_stop_runtime)
    with Cons.prems(1) have "orch_inv env E D (?stop x o2)" by (simp add: quiet_def)
    moreover have "a \<in> set xs \<or> (\<forall>f b. slot (?stop x o2) a d s \<noteq> ConnActive f b)"
    proof (cases "a = x")
      case True
      then show ?thesis using stop_runtime_inactive [OF Cons.prems(1,2)] by blast
    next
      case False
      then show ?thesis using q Cons.prems unfolding quiet_def no_new_def by auto blast
    qed
    ultimately show ?case using Cons.IH [of "?stop x o2"] Cons.prems(2) by simp
  qed simp
  show ?thesis
    unfolding inactive_def stopAllStreaming_def
  proof (intro allI impI)
    fix a d s f b
    assume ok: "sok d s"
    have "a \<in> set (getAllRuntimes o1)" if "slot o1 a d s = ConnActive f' b'" for f' b'
    proof -
      have "isRuntimeCurrent a o1" using slotD [OF I ok, of a] that by simp
      then show ?thesis by (rule current_listed)
    qed
    then show "slot (fold ?stop (getAllRuntimes o1) o1) a d s \<noteq> ConnActive f b"
      using stopped [OF I ok] by blast
  qed
qed

lemma quiet_deleteDomain:
  assumes i: "idle o1"
  shows "quiet env E D o1 (deleteDomainFromAllRuntimes d o1)"
  unfolding deleteDomainFromAllRuntimes_def
proof (rule quiet_fold_idle [OF _ i])
  fix a and o2 :: orch
  assume i: "idle o2"
  then have "tame (slot o2 a e s) ConnInactive" if "sok e s" for e s
    using that by (cases "slot o2 a e s") (auto simp: idle_def inactive_def)
  with i have "tame_runtime (so_heap o2 a) (deleteDomain (so_heap o2 a) d)"
    by (auto simp: tame_runtime_def calm_runtime_def keeps_def idle_def get_delete_domain sound_delete_domain requests_ok_def request_ok_def
        inactiveStreamState_def) (auto simp: deleteDomain_def)
  then show "quiet env E D o2 (setRuntime a (deleteDomain (so_heap o2 a) d) o2)" by (rule quiet_set)
qed

lemma quiet_kubeconfigChanging [quiet_ops]:
  assumes n: "normalizes env"
  shows "quiet env E D o1 (handleKubeconfigChanging env o1)"
proof (rule quiet_invI)
  assume I: "orch_inv env E D o1"
  let ?m = "incrementContextVersion (markAllAuthRecovered o1)"
  let ?o2 = "stopAllStreaming env True ?m"
  let ?o3 = "clearAllHealth (clearAllBlockedStreaming (abortAllInFlight ?o2))"
  let ?f = "\<lambda>d o4. deleteDomainFromAllRuntimes d (call (OcResetDomain d) (setDomainEnabled env d False o4))"
  have "tame_runtime rt (fst (markAuthRecovered rt))" for rt
    unfolding markAuthRecovered_def by (rule tame_auth)
  then have "quiet env E D o1 (markAllAuthRecovered o1)"
    unfolding markAllAuthRecovered_def by (rule tame_fold_set)
  then have qm: "quiet env E D o1 ?m" by (rule quiet_trans) (rule quiet_version)
  have Im: "orch_inv env E D ?m" using qm I by (simp add: quiet_def)
  have i2: "idle (abortAllInFlight ?o2)"
    by (rule abortAll_idle [OF quiet_inv [OF quiet_stopAll Im] stopAll_inactive [OF Im]])
  have q2: "quiet env E D o1 ?o2" using qm by (rule quiet_trans) (rule quiet_stopAll)
  then have I2: "orch_inv env E D ?o2" using I by (simp add: quiet_def)
  have q3: "quiet env E D (abortAllInFlight ?o2) ?o3"
    by (rule quiet_trans) (rule quiet_blocked quiet_health)+
  then have i3: "idle ?o3" using quiet_inv [OF quiet_abortAll I2] i2 by (rule quiet_idle)
  have "quiet env E D o4 (?f d o4)" if i4: "idle o4" for d o4
  proof -
    have "quiet env E D o4 (call (OcResetDomain d) (setDomainEnabled env d False o4))"
      by (rule quiet_trans [OF quiet_setDomainEnabled [OF n] quiet_call]) simp_all
    then show ?thesis by (rule quiet_then_idle [OF _ quiet_deleteDomain i4])
  qed
  then have "quiet env E D ?o3 (fold ?f (en_domains env) ?o3)" by (intro quiet_fold_idle i3)
  with quiet_trans [OF q2 quiet_abortAll] q3 show "quiet env E D o1 (handleKubeconfigChanging env o1)"
    unfolding handleKubeconfigChanging_def Let_def by (blast intro: quiet_trans)
qed

lemma inv_updateContext:
  assumes I: "orch_inv env E D o1" and n: "normalizes env"
  shows "orch_inv env E D (updateContextOrch env connected was is o1) \<and>
    steady o1 (updateContextOrch env connected was is o1)"
proof -
  let ?o2 = "case connected of Some ids \<Rightarrow> pruneRemovedClusterRuntimes env ids o1 | None \<Rightarrow> o1"
  let ?o3 = "if was \<and> \<not> is then disableNamespaceDomains env ?o2 else ?o2"
  have I2: "orch_inv env E D ?o2" and st: "steady o1 ?o2" using I by (simp_all add: inv_prune split: option.split)
  have "quiet env E D ?o2 ?o3" by (simp add: quiet_namespaceDomains n)
  then have "quiet env E D ?o2 (handleStreamingScopeChanges env (getAllRuntimes ?o3) ?o3)"
    by (rule quiet_trans) (rule quiet_scopeChanges)
  with I2 st show ?thesis
    unfolding updateContextOrch_def Let_def by (blast intro: quiet_inv steady_trans dest: quiet_steady)
qed

end
