(* ===== verification/StreamLifecycleRuns.thy ===== *)
theory StreamLifecycleRuns
  imports StreamHandlers
begin

text \<open>
  Runs of the streaming half of the orchestrator: every event keeps the invariant, so no stream
  is leaked and none is torn down twice. A start whose cancellation stands when it settles is torn
  down. Two concrete runs show where the code falls short: a start cancelled by a change of the
  context is restarted although the context still forbids it, and an older start of the same slot
  lifts the cancellation of a newer one, which then becomes active.
\<close>

section \<open>Runs\<close>

text \<open>What a fetch does to the state of a scope beside its request\<close>

fun fetch_op :: "runtime_op \<Rightarrow> bool" where
  "fetch_op (OpLatch d s) = scope_ok d s"
| "fetch_op (OpDefer r) = sok (rr_domain r) (rr_scope r)"
| "fetch_op (OpPermission d s e) = sok d s"
| "fetch_op (OpReconciliationFailed d s now) = sok d s"
| "fetch_op (OpReconciled d s) = sok d s"
| "fetch_op _ = False"

lemma tame_fetch_op: "fetch_op op \<Longrightarrow> tame_runtime rt (runtime_step rt op)"
proof (cases op)
  case (OpPermission d s e)
  then show "fetch_op op \<Longrightarrow> tame_runtime rt (runtime_step rt op)" by (simp add: tame_keeps keeps_permission)
next
  case (OpLatch d s)
  then show "fetch_op op \<Longrightarrow> tame_runtime rt (runtime_step rt op)" by (simp add: tame_latch)
qed (auto intro!: tame_defer tame_reconciliation)

lemma quiet_fetch_op [quiet_ops]:
  "fetch_op op \<Longrightarrow> quiet env E D o1 (setRuntime a (runtime_step (so_heap o1 a) op) o1)"
  by (rule quiet_set) (rule tame_fetch_op)

text \<open>What can happen to the streaming half of the orchestrator. Each event comes with the
  environment at its time; only the registrations of the domains are fixed.\<close>

datatype orch_event =
    EvEnable string string bool bool
  | EvAcquire string string demand bool
  | EvRelease string string demand bool
  | EvStartDomain string string
  | EvStopDomain string string bool
  | EvStopAll bool
  | EvBlock string string
  | EvAuthFailed string
  | EvPrune "string list"
  | EvUpdateContext "string list option" bool bool
  | EvAutoRefreshChanged
  | EvSetDomainEnabled string bool
  | EvRestart string string
  | EvRefreshOnce string string
  | EvServiceable string
  | EvForeground string
  | EvDenied string string
  | EvDrift string string
  | EvHealth string string health_payload
  | EvAuthRecovered string
  | EvScopeChanged nat string
  | EvResetViews
  | EvKubeconfigChanging
  | EvKubeconfigChanged
  | EvKubeconfigSelection
  | EvBeginRequest string string fetch_options
  | EvSettleRequest nat
  | EvCancelRequest string string
  | EvRuntime nat runtime_op
  | EvScheduled nat
  | EvSettle nat start_outcome

fun orch_step :: "stream_env \<Rightarrow> orch_event \<Rightarrow> orch \<Rightarrow> orch" where
  "orch_step env (EvEnable d s enabled preserve) o1 = setScopedDomainEnabledOrch env d s enabled preserve o1"
| "orch_step env (EvAcquire d s k preserve) o1 = acquireScopedDomainLease env d s k preserve o1"
| "orch_step env (EvRelease d s k preserve) o1 = releaseScopedDomainLease env d s k preserve o1"
| "orch_step env (EvStartDomain d s) o1 = startStreamingDomain env d s o1"
| "orch_step env (EvStopDomain d s reset) o1 = stopStreamingDomain env d s reset o1"
| "orch_step env (EvStopAll reset) o1 = stopAllStreaming env reset o1"
| "orch_step env (EvBlock d s) o1 = blockStreamingScope env d s o1"
| "orch_step env (EvAuthFailed c) o1 = handleClusterAuthFailed env c o1"
| "orch_step env (EvPrune ids) o1 = pruneRemovedClusterRuntimes env ids o1"
| "orch_step env (EvUpdateContext ids wasNamespace isNamespace) o1 =
     updateContextOrch env ids wasNamespace isNamespace o1"
| "orch_step env EvAutoRefreshChanged o1 = handleAutoRefreshChanged env o1"
| "orch_step env (EvSetDomainEnabled d b) o1 = setDomainEnabled env d b o1"
| "orch_step env (EvRestart d s) o1 = restartStreamingDomain env d s o1"
| "orch_step env (EvRefreshOnce d s) o1 = refreshStreamingDomainOnce env d s o1"
| "orch_step env (EvServiceable c) o1 = handleClusterBecameServiceable env c o1"
| "orch_step env (EvForeground c) o1 = handleForegroundActivationStarted env c o1"
| "orch_step env (EvDenied d s) o1 = handleResourceStreamPermissionDenied env d s o1"
| "orch_step env (EvDrift d s) o1 = handleResourceStreamDrift env d s o1"
| "orch_step env (EvHealth d s p) o1 = handleResourceStreamHealth d s p o1"
| "orch_step env (EvAuthRecovered c) o1 = handleClusterAuthRecovered env c o1"
| "orch_step env (EvScopeChanged now c) o1 = handleClusterScopeChanged env now c o1"
| "orch_step env EvResetViews o1 = handleResetViews env o1"
| "orch_step env EvKubeconfigChanging o1 = handleKubeconfigChanging env o1"
| "orch_step env EvKubeconfigChanged o1 = handleKubeconfigChanged o1"
| "orch_step env EvKubeconfigSelection o1 = handleKubeconfigSelectionChanged o1"
| "orch_step env (EvBeginRequest d s options) o1 = withRuntime s (\<lambda>a o2.
     if getInFlight (so_heap o2 a) d (Some s) = None then beginRequest d s options a o2 else o2) o1"
| "orch_step env (EvSettleRequest i) o1 = fst (settleRequest i o1)"
| "orch_step env (EvCancelRequest d s) o1 = cancelInFlightForScopedDomain d s o1"
| "orch_step env (EvRuntime a op) o1 = setRuntime a (runtime_step (so_heap o1 a) op) o1"
| "orch_step env (EvScheduled t) o1 = runScheduledStart env t o1"
| "orch_step env (EvSettle t outcome) o1 = settleStart env t outcome o1"

text \<open>Scopes come normalised; the handlers that normalise stored scopes again need a selected
  cluster (\<open>selected_normalizes\<close>).\<close>

fun event_ok :: "stream_env \<Rightarrow> orch_event \<Rightarrow> bool" where
  "event_ok env (EvEnable d s _ _) = sok d s"
| "event_ok env (EvAcquire d s _ _) = sok d s"
| "event_ok env (EvRelease d s _ _) = sok d s"
| "event_ok env (EvStartDomain d s) = sok d s"
| "event_ok env (EvStopDomain d s _) = sok d s"
| "event_ok env (EvBlock d s) = sok d s"
| "event_ok env (EvUpdateContext _ _ _) = normalizes env"
| "event_ok env (EvSetDomainEnabled _ _) = normalizes env"
| "event_ok env (EvRestart d s) = sok d s"
| "event_ok env (EvRefreshOnce d s) = sok d s"
| "event_ok env (EvDenied d s) = sok d (js_trim s)"
| "event_ok env (EvDrift d s) = sok d (js_trim s)"
| "event_ok env (EvHealth d s _) = sok d (js_trim s)"
| "event_ok env EvKubeconfigChanging = normalizes env"
| "event_ok env (EvBeginRequest d s _) = sok d s"
| "event_ok env (EvRuntime _ op) = fetch_op op"
| "event_ok env _ = True"

text \<open>The starts that have delivered a cleanup function, after an event\<close>

definition delivered :: "orch_event \<Rightarrow> orch \<Rightarrow> nat set \<Rightarrow> nat set" where
  "delivered ev o1 D =
     (case ev of EvSettle t (Resolved True) \<Rightarrow> if jm_get (so_starts o1) t = None then D else insert t D
      | _ \<Rightarrow> D)"

inductive orch_reach :: "(string \<Rightarrow> bool) \<Rightarrow> orch \<Rightarrow> nat set \<Rightarrow> bool" for streaming where
  reach_init: "orch_reach streaming initialOrch {}"
| reach_step: "orch_reach streaming o1 D \<Longrightarrow> en_streaming env = streaming \<Longrightarrow> event_ok env ev \<Longrightarrow>
     orch_reach streaming (orch_step env ev o1) (delivered ev o1 D)"

fun orch_run :: "(stream_env \<times> orch_event) list \<Rightarrow> orch \<Rightarrow> nat set \<Rightarrow> orch \<times> nat set" where
  "orch_run [] o1 D = (o1, D)"
| "orch_run ((env, ev) # evs) o1 D = orch_run evs (orch_step env ev o1) (delivered ev o1 D)"

lemma reach_run:
  "orch_reach streaming o1 D \<Longrightarrow> list_all (\<lambda>(env, ev). en_streaming env = streaming \<and> event_ok env ev) evs \<Longrightarrow>
   orch_reach streaming (fst (orch_run evs o1 D)) (snd (orch_run evs o1 D))"
  by (induction evs o1 D rule: orch_run.induct) (auto intro: reach_step)

lemma requests_new: "requests_ok (newClusterRefreshRuntime c)"
  by (simp add: requests_ok_def request_ok_def getScopeState_def newClusterRefreshRuntime_def)

lemma inv_initial: "orch_inv env None {} initialOrch"
  by (simp add: orch_inv_def requests_new initialOrch_def map_ok_def slots_ok_def unique_ok_def pending_ok_def
      account_ok_def scheduled_ok_def pend_def cleaned_def held_def flights_ok_def aborted_def)

lemma inv_env: "en_streaming env = en_streaming env' \<Longrightarrow> orch_inv env E D o1 = orch_inv env' E D o1"
  by (simp add: orch_inv_def slots_ok_def pending_ok_def scheduled_ok_def)

lemma inv_step:
  assumes I: "orch_inv env None D o1" and ok: "event_ok env ev"
  shows "orch_inv env None (delivered ev o1 D) (orch_step env ev o1)"
proof -
  have quiet: "orch_inv env None D o2" if "quiet env None D o1 o2" for o2
    using that I by (simp add: quiet_def)
  show ?thesis
  proof (cases ev)
    case (EvSettle t outcome)
    show ?thesis
    proof (cases "jm_get (so_starts o1) t")
      case None
      with I EvSettle show ?thesis
        by (auto simp: delivered_def settleStart_def split: start_outcome.split bool.split)
    next
      case (Some p)
      with inv_settle [OF I Some, of outcome] EvSettle show ?thesis
        by (cases outcome) (auto simp: delivered_def split: bool.splits)
    qed
  next
    case (EvPrune ids)
    with inv_prune [OF I] show ?thesis by (simp add: delivered_def)
  next
    case (EvSettleRequest i)
    with inv_settleRequest [OF I, of i] show ?thesis by (simp add: delivered_def)
  next
    case (EvBeginRequest d s options)
    have "orch_inv env None D (orch_step env (EvBeginRequest d s options) o1)"
      unfolding orch_step.simps
    proof (rule inv_route [OF I])
      fix o2 a
      assume h: "orch_inv env None D o2" "belongs o2 s a" "isRuntimeCurrent a o2"
      show "orch_inv env None D
        (if getInFlight (so_heap o2 a) d (Some s) = None then beginRequest d s options a o2 else o2)"
        using h ok EvBeginRequest by (simp add: no_request_iff inv_beginRequest)
    qed
    with EvBeginRequest show ?thesis by (simp add: delivered_def)
  next
    case (EvUpdateContext ids wasNamespace isNamespace)
    with inv_updateContext [OF I] ok show ?thesis by (simp add: delivered_def)
  qed (use ok in \<open>auto simp: delivered_def intro!: quiet quiet_ops\<close>)
qed

text \<open>The events of the streaming half itself begin and end no fetch.\<close>

fun streaming_event :: "orch_event \<Rightarrow> bool" where
  "streaming_event (EvBeginRequest _ _ _) = False"
| "streaming_event (EvSettleRequest _) = False"
| "streaming_event _ = True"

lemma step_steady:
  assumes I: "orch_inv env None D o1" and ok: "event_ok env ev" "streaming_event ev"
  shows "steady o1 (orch_step env ev o1)"
proof -
  have quiet: "steady o1 o2" if "quiet env None D o1 o2" for o2 using quiet_steady [OF that I] .
  show ?thesis
  proof (cases ev)
    case (EvSettle t outcome)
    then show ?thesis
      using inv_settle [OF I, of t _ outcome] by (cases "jm_get (so_starts o1) t") (auto simp: settleStart_def)
  next
    case (EvPrune ids)
    with inv_prune [OF I] show ?thesis by simp
  next
    case (EvUpdateContext ids wasNamespace isNamespace)
    with inv_updateContext [OF I] ok show ?thesis by simp
  qed (use ok in \<open>auto intro!: quiet quiet_ops\<close>)
qed

lemma inv_reach: "orch_reach streaming o1 D \<Longrightarrow> en_streaming env = streaming \<Longrightarrow> orch_inv env None D o1"
proof (induction rule: orch_reach.induct)
  case reach_init
  show ?case by (rule inv_initial)
next
  case (reach_step o1 D env' ev)
  then have "orch_inv env' None D o1" using inv_env [of env' env] by simp
  then have "orch_inv env' None (delivered ev o1 D) (orch_step env' ev o1)"
    using reach_step.hyps(3) by (rule inv_step)
  then show ?case using inv_env [of env' env] reach_step by simp
qed

section \<open>Holders\<close>

text \<open>The connections that hold the cleanup function of a task\<close>

definition holders :: "orch \<Rightarrow> nat \<Rightarrow> (nat \<times> string \<times> string) set" where
  "holders o1 t = {(a, d, s). sok d s \<and> (\<exists>b. slot o1 a d s = ConnActive t b)}"

lemma holders_empty: "holders o1 t = {} \<longleftrightarrow> \<not> held o1 t"
  by (auto simp: holders_def held_def)

lemma holders_single:
  assumes I: "orch_inv env E D o1" and "held o1 t" "t \<noteq> 0"
  shows "\<exists>a d s. holders o1 t = {(a, d, s)} \<and> isRuntimeCurrent a o1"
proof -
  from assms(2) obtain a d s b where h: "sok d s" "slot o1 a d s = ConnActive t b" by (auto simp: held_def)
  then have "isRuntimeCurrent a o1" using slotD [OF I h(1), of a] by simp
  moreover have "x = (a, d, s)" if x: "x \<in> holders o1 t" for x
  proof -
    obtain a' d' s' where "x = (a', d', s')" by (metis prod_cases3)
    with x obtain b' where "x = (a', d', s')" "sok d' s'" "slot o1 a' d' s' = ConnActive t b'"
      by (auto simp: holders_def)
    with I h assms(3) show ?thesis unfolding orch_inv_def unique_ok_def by blast
  qed
  moreover have "(a, d, s) \<in> holders o1 t" using h by (auto simp: holders_def)
  ultimately have "holders o1 t = {(a, d, s)} \<and> isRuntimeCurrent a o1" by blast
  then show ?thesis by blast
qed

definition example_env :: "bool \<Rightarrow> stream_env" where
  "example_env stream = \<lparr>en_domains = [''pods''], en_streaming = (\<lambda>d. d = ''pods''),
     en_refreshOnce = (\<lambda>_. False), en_namespaceDomain = (\<lambda>_. True), en_resourceStream = (\<lambda>_. True),
     en_snapshotless = (\<lambda>_. False), en_allowRefresher = (\<lambda>_. True), en_clusterReady = (\<lambda>_. True), en_hasData = (\<lambda>_ _. False),
     en_autoRefresh = stream, en_viewActive = (\<lambda>_ _. True), en_selectedClusterId = Some ''c1''\<rparr>"

text \<open>A scope is enabled and its stream starts, the context forbids streaming before the start
  settles, and the start delivers its cleanup.\<close>

definition example_events :: "(stream_env \<times> orch_event) list" where
  "example_events =
     [(example_env True, EvEnable ''pods'' ''c1|default'' True True),
      (example_env True, EvScheduled 1),
      (example_env False, EvAutoRefreshChanged),
      (example_env False, EvSettle 2 (Resolved True))]"

section \<open>A concrete run\<close>

definition exampleRuntime :: "stream_init \<Rightarrow> stream_conn \<Rightarrow> cluster_runtime" where
  "exampleRuntime init conn = \<lparr>cr_clusterId = ''c1'', cr_scopedStates = [(''pods::c1|default'',
     \<lparr>ss_domain = ''pods'', ss_scope = Some ''c1|default'', ss_reconciliation = ReconClean,
      ss_activation = ActEnabled \<lparr>dc_query = 0, dc_snapshot = 0\<rparr>, ss_fetch = FetchIdle,
      ss_readiness = Ready, ss_permission = PermUnknown,
      ss_stream = \<lparr>st_policy = PolicyAllowed, st_init = init, st_conn = conn,
        st_health = HealthUnknown\<rparr>\<rparr>)],
     cr_authState = AuthAvailable\<rparr>"

definition exampleOrchV ::
  "nat \<Rightarrow> cluster_runtime \<Rightarrow> (nat, pending_start) jmap \<Rightarrow> (nat, scheduled_start) jmap \<Rightarrow> nat \<Rightarrow>
   orch_call list \<Rightarrow> orch" where
  "exampleOrchV v rt starts sched n calls =
     \<lparr>so_heap = (\<lambda>_. newClusterRefreshRuntime ''__coordinator__'')(1 := rt),
      so_clusterRuntimes = [(''c1'', 1)], so_nextRuntime = 2, so_starts = starts,
      so_scheduled = sched, so_nextTask = n, so_contextVersion = v, so_requestCounter = 0,
      so_fetches = [], so_calls = calls\<rparr>"

abbreviation exampleOrch ::
  "cluster_runtime \<Rightarrow> (nat, pending_start) jmap \<Rightarrow> (nat, scheduled_start) jmap \<Rightarrow> nat \<Rightarrow>
   orch_call list \<Rightarrow> orch" where
  "exampleOrch \<equiv> exampleOrchV 0"

lemma example_scope:
  "parseClusterScopeList (Some ''c1|default'') =
     \<lparr>pl_clusterIds = [''c1''], pl_scope = ''default'', pl_isMultiCluster = False\<rparr>"
  "js_trim ''c1|default'' = ''c1|default''" "js_trim ''c1'' = ''c1''"
  "makeInFlightKey ''pods'' (Some ''c1|default'') = ''pods::c1|default''"
  "''pods'' \<in> set MULTI_ACTIVE_SCOPE_DOMAINS"
  by code_simp+

lemma example_route:
  "getRuntimeForScope ''c1|default'' initialOrch =
     Some (exampleOrch (newClusterRefreshRuntime ''c1'') [] [] 1 [], 1)"
  "getRuntimeForScope ''c1|default'' (exampleOrchV v rt st sc n calls) =
     Some (exampleOrchV v rt st sc n calls, 1)"
  by (simp_all add: getRuntimeForScope_def example_scope getClusterRuntime_def initialOrch_def
      setRuntime_def exampleOrchV_def Let_def)

lemma example_updates:
  "setRuntime 1 rt' (exampleOrchV v rt st sc n calls) = exampleOrchV v rt' st sc n calls"
  "call c (exampleOrchV v rt st sc n calls) = exampleOrchV v rt st sc n (calls @ [c])"
  "(exampleOrchV v rt st sc n calls)\<lparr>so_nextTask := n', so_scheduled := sc'\<rparr> = exampleOrchV v rt st sc' n' calls"
  "(exampleOrchV v rt st sc n calls)\<lparr>so_nextTask := n', so_starts := st'\<rparr> = exampleOrchV v rt st' sc n' calls"
  "(exampleOrchV v rt st sc n calls)\<lparr>so_starts := st'\<rparr> = exampleOrchV v rt st' sc n calls"
  "(exampleOrchV v rt st sc n calls)\<lparr>so_contextVersion := v'\<rparr> = exampleOrchV v' rt st sc n calls"
  "so_contextVersion (exampleOrchV v rt st sc n calls) = v"
  "(exampleOrchV v rt st sc n calls)\<lparr>so_scheduled := sc'\<rparr> = exampleOrchV v rt st sc' n calls"
  by (simp_all add: setRuntime_def exampleOrchV_def call_def)

lemma example_fields:
  "so_heap (exampleOrchV v rt st sc n calls) 1 = rt" "so_heap (exampleOrchV v rt st sc n calls) (Suc 0) = rt"
  "so_heap (exampleOrchV v rt st sc n calls) 0 = newClusterRefreshRuntime ''__coordinator__''"
  "so_nextTask (exampleOrchV v rt st sc n calls) = n" "so_starts (exampleOrchV v rt st sc n calls) = st"
  "so_scheduled (exampleOrchV v rt st sc n calls) = sc"
  "so_clusterRuntimes (exampleOrchV v rt st sc n calls) = [(''c1'', 1)]"
  "so_calls (exampleOrchV v rt st sc n calls) = calls"
  by (simp_all add: exampleOrchV_def)

lemma example_get:
  "getScopeState (newClusterRefreshRuntime k) d s = default_scope_state d s"
  "getScopeState (exampleRuntime i c) ''pods'' (Some ''c1|default'') =
     \<lparr>ss_domain = ''pods'', ss_scope = Some ''c1|default'', ss_reconciliation = ReconClean,
      ss_activation = ActEnabled \<lparr>dc_query = 0, dc_snapshot = 0\<rparr>, ss_fetch = FetchIdle,
      ss_readiness = Ready, ss_permission = PermUnknown,
      ss_stream = \<lparr>st_policy = PolicyAllowed, st_init = i, st_conn = c, st_health = HealthUnknown\<rparr>\<rparr>"
  by (simp_all add: getScopeState_def newClusterRefreshRuntime_def exampleRuntime_def example_scope)

lemma example_runtime:
  "cr_clusterId (exampleRuntime i c) = ''c1''" "isAuthAvailable (exampleRuntime i c)"
  "getEnabledScopes (exampleRuntime i c) ''pods'' = [''c1|default'']"
  "getEnabledScopes (newClusterRefreshRuntime x) ''pods'' = []"
  "hasEnabledScopedSources (exampleRuntime i c) ''pods''"
  "\<not> hasEnabledScopedSources (newClusterRefreshRuntime x) ''pods''"
  "setScopedDomainEnabled (newClusterRefreshRuntime ''c1'') ''pods'' ''c1|default'' True =
     (exampleRuntime InitIdle ConnInactive, \<lparr>sc_previous = None, sc_changed = True\<rparr>)"
  by (simp_all add: setScopedDomainEnabled_def exampleRuntime_def isAuthAvailable_def getEnabledScopes_def hasEnabledScopedSources_def
      newClusterRefreshRuntime_def applyActivationEvent_def getScopeState_def default_scope_state_def
      storeScopeState_def is_default_state_def activation_transition_defs example_scope Let_def
      inactiveStreamState_def NO_SCOPED_DEMAND_def)

lemma example_event:
  assumes "case e of SeBlocked \<Rightarrow> False | SeHealthReceived _ \<Rightarrow> False | _ \<Rightarrow> True"
  shows "applyStreamEvent (exampleRuntime i c) ''pods'' ''c1|default'' e =
    (let st = transitionScopedStreamState
       \<lparr>st_policy = PolicyAllowed, st_init = i, st_conn = c, st_health = HealthUnknown\<rparr> e
     in exampleRuntime (st_init st) (st_conn st))"
proof -
  let ?s = "\<lparr>st_policy = PolicyAllowed, st_init = i, st_conn = c, st_health = HealthUnknown\<rparr>"
  have "st_policy (transitionScopedStreamState ?s e) = PolicyAllowed"
    "st_health (transitionScopedStreamState ?s e) = HealthUnknown"
    using assms by (cases e; simp)+
  then have eq: "transitionScopedStreamState ?s e =
      \<lparr>st_policy = PolicyAllowed, st_init = st_init (transitionScopedStreamState ?s e),
       st_conn = st_conn (transitionScopedStreamState ?s e), st_health = HealthUnknown\<rparr>"
    by (intro stream_state.equality) (simp_all del: stream_init_transition)
  show ?thesis
    unfolding applyStreamEvent_def example_get Let_def
    by (subst (1 2) eq, simp del: stream_init_transition)
      (auto simp: storeScopeState_def is_default_state_def exampleRuntime_def example_scope Let_def
        simp del: stream_init_transition intro: eq)
qed

lemma example_should:
  "shouldStreamScope (example_env b) ''pods'' ''c1|default'' (exampleOrchV v (exampleRuntime i c) st sc n calls) = b"
  by (simp add: shouldStreamScope_def isScopeClusterServiceable_def isStreamingBlockedOrch_def isStreamingBlocked_def
      example_env_def example_scope example_route [unfolded One_nat_def] example_fields [unfolded One_nat_def]
      example_get example_runtime Let_def)

lemmas example_defs = example_should [unfolded example_env_def] example_scope example_route [unfolded One_nat_def]
  example_updates [unfolded One_nat_def] example_fields [unfolded One_nat_def] example_get
  example_runtime example_event stream_conn_transition example_env_def withRuntime_def Let_def


lemma example_enable:
  "orch_step (example_env True) (EvEnable ''pods'' ''c1|default'' True True) initialOrch =
     exampleOrch (exampleRuntime (InitScheduled 1) ConnInactive) []
       [(1, \<lparr>sd_domain = ''pods'', sd_scope = ''c1|default'', sd_runtime = 1\<rparr>)] 2
       [OcRefresher ''pods'' True, OcScopedLoading ''pods'' ''c1|default'', OcMetricsDemand]"
  by (simp add: setScopedDomainEnabledOrch_def applyScopedDomainEnabled_def
      reconcileScopedDomainStateChange_def clearStaleScopes_def hasEnabledSources_def getAllRuntimes_def
      reconcileRefresherActivity_def reconcileStreamingScopeEnabled_def clearStreamingReady_def
      scheduleStreamingStart_def hasStreamingReady_def setStreamingReady_def example_defs numeral_2_eq_2)

lemma example_scheduled:
  "orch_step (example_env True) (EvScheduled 1)
     (exampleOrch (exampleRuntime (InitScheduled 1) ConnInactive) []
       [(1, \<lparr>sd_domain = ''pods'', sd_scope = ''c1|default'', sd_runtime = 1\<rparr>)] 2 calls) =
   exampleOrch (exampleRuntime InitIdle (ConnStarting 2 False))
     [(2, \<lparr>ps_domain = ''pods'', ps_scopeOf = ''c1|default'', ps_runtime = 1, ps_stops = []\<rparr>)] [] 3
     (calls @ [OcStreamStart ''pods'' ''c1|default'' 2])"
  by (simp add: runScheduledStart_def isRuntimeCurrent_def startStreamingScope_def
      isScopedDomainEnabled_def isStreamingStartingOrActive_def isScopeClusterServiceable_def
      beginStreamingStart_def clearStreamingReady_def example_defs)

lemma example_context:
  "orch_step (example_env False) (EvAutoRefreshChanged)
     (exampleOrch (exampleRuntime InitIdle (ConnStarting 2 False))
       [(2, \<lparr>ps_domain = ''pods'', ps_scopeOf = ''c1|default'', ps_runtime = 1, ps_stops = []\<rparr>)] [] 3 calls) =
   exampleOrch (exampleRuntime InitIdle (ConnStarting 2 True))
     [(2, \<lparr>ps_domain = ''pods'', ps_scopeOf = ''c1|default'', ps_runtime = 1, ps_stops = [1]\<rparr>)] [] 3
     (calls @ [OcStreamStop ''pods'' ''c1|default'' False])"
  by (simp add: handleAutoRefreshChanged_def handleStreamingScopeChanges_def getAllRuntimes_def reconcileStreamingScope_def
      isStreamingStartingOrActive_def stopStreamingScope_def cancelPendingStart_def
      cancelStreamingStart_def attachStop_def runActiveCleanup_def getStreamingCleanup_def
      clearStreamHealth_def clearStreamingReady_def example_defs)

lemma example_settle:
  "orch_step (example_env False) (EvSettle 2 (Resolved True))
     (exampleOrch (exampleRuntime InitIdle (ConnStarting 2 True))
       [(2, \<lparr>ps_domain = ''pods'', ps_scopeOf = ''c1|default'', ps_runtime = 1, ps_stops = [1]\<rparr>)] [] 3 calls) =
   exampleOrch (exampleRuntime InitIdle (ConnStarting 3 False))
     [(3, \<lparr>ps_domain = ''pods'', ps_scopeOf = ''c1|default'', ps_runtime = 1, ps_stops = []\<rparr>)] [] 4
     (calls @ [OcCleanup 2, OcStreamStart ''pods'' ''c1|default'' 3])"
  by (simp add: settleStart_def completeStreamingStart_def isRuntimeCurrent_def isScopedDomainEnabled_def
      isStreamingCancelled_def failStreamingStart_def clearStreamingCancelled_def runStreamingCleanup_def
      startStreamingScope_def isStreamingStartingOrActive_def isScopeClusterServiceable_def
      beginStreamingStart_def stopResolved_def example_defs)

abbreviation example_before :: orch where
  "example_before \<equiv> exampleOrch (exampleRuntime InitIdle (ConnStarting 2 True))
     [(2, \<lparr>ps_domain = ''pods'', ps_scopeOf = ''c1|default'', ps_runtime = 1, ps_stops = [1]\<rparr>)] [] 3
     [OcRefresher ''pods'' True, OcScopedLoading ''pods'' ''c1|default'', OcMetricsDemand,
      OcStreamStart ''pods'' ''c1|default'' 2, OcStreamStop ''pods'' ''c1|default'' False]"

lemma example_run:
  "orch_run (take 3 example_events) initialOrch {} = (example_before, {})"
  "orch_run example_events initialOrch {} =
     (orch_step (example_env False) (EvSettle 2 (Resolved True)) example_before, {2})"
  unfolding example_events_def
  by (simp_all add: example_enable [unfolded One_nat_def] example_scheduled [unfolded One_nat_def]
      example_context [unfolded One_nat_def] delivered_def example_fields del: orch_step.simps)

lemma example_ok: "list_all (\<lambda>(env, ev). en_streaming env = (\<lambda>d. d = ''pods'') \<and> event_ok env ev) example_events"
  by (simp add: example_events_def example_env_def scope_ok_def example_scope)

lemma example_reach:
  "orch_reach (\<lambda>d. d = ''pods'') example_before {}"
  "orch_reach (\<lambda>d. d = ''pods'') (orch_step (example_env False) (EvSettle 2 (Resolved True)) example_before) {2}"
proof -
  have "list_all (\<lambda>(env, ev). en_streaming env = (\<lambda>d. d = ''pods'') \<and> event_ok env ev) (take 3 example_events)"
    using example_ok by (auto simp: list_all_iff dest: in_set_takeD)
  from reach_run [OF reach_init this] show "orch_reach (\<lambda>d. d = ''pods'') example_before {}"
    by (simp add: example_run)
  from reach_run [OF reach_init example_ok]
  show "orch_reach (\<lambda>d. d = ''pods'') (orch_step (example_env False) (EvSettle 2 (Resolved True)) example_before) {2}"
    by (simp add: example_run)
qed

text \<open>A run in which an older start revives a cancelled one: a scope is enabled and its stream
  starts, the view is reset before the start settles, the stream is started again, the context
  forbids streaming, and the two starts settle in their order.\<close>

lemma example_all:
  "applyStreamEventToAll (exampleRuntime i c) e = applyStreamEvent (exampleRuntime i c) ''pods'' ''c1|default'' e"
  "applyStreamEventToAll (newClusterRefreshRuntime k) e = newClusterRefreshRuntime k"
  "getStreamingScopes (newClusterRefreshRuntime k) = []"
  "getStreamingScopes (exampleRuntime i c) = (if c = ConnInactive then [] else [(''pods'', ''c1|default'')])"
  "forEachInFlight (exampleRuntime i c) = []" "forEachInFlight (newClusterRefreshRuntime k) = []"
  by (simp_all add: applyStreamEventToAll_def exampleRuntime_def newClusterRefreshRuntime_def
      getStreamingScopes_def forEachInFlight_def trackedRequest_def)

lemmas example_all_defs = example_all example_all [unfolded exampleRuntime_def] example_defs

lemma example_coordinator: "setRuntime 0 (newClusterRefreshRuntime ''__coordinator__'') (exampleOrchV v rt st sc n calls) =
    exampleOrchV v rt st sc n calls"
  by (auto simp: setRuntime_def exampleOrchV_def)

lemma example_reset:
  "orch_step (example_env True) EvResetViews
     (exampleOrch (exampleRuntime InitIdle (ConnStarting 2 False))
       [(2, \<lparr>ps_domain = ''pods'', ps_scopeOf = ''c1|default'', ps_runtime = 1, ps_stops = []\<rparr>)] [] 3 calls) =
   exampleOrchV 1 (exampleRuntime InitIdle ConnInactive)
     [(2, \<lparr>ps_domain = ''pods'', ps_scopeOf = ''c1|default'', ps_runtime = 1, ps_stops = [1]\<rparr>)] [] 3
     (calls @ [OcStreamStop ''pods'' ''c1|default'' True, OcResetScoped ''pods'' ''c1|default'',
        OcResetDomain ''pods''])"
  by (simp add: handleResetViews_def incrementContextVersion_def stopAllStreaming_def getAllRuntimes_def
      stopRuntimeStreaming_def abortAllInFlight_def teardownAll_def clearAllBlockedStreaming_def
      clearBlockedStreaming_def clearAllHealth_def clearAllStreamHealth_def clearAllStreaming_def
      stopStreamingScope_def cancelPendingStart_def cancelStreamingStart_def attachStop_def
      runActiveCleanup_def getStreamingCleanup_def clearStreamHealth_def clearStreamingReady_def
      example_coordinator example_all example_defs)

lemma example_restart:
  "orch_step (example_env True) (EvRestart ''pods'' ''c1|default'')
     (exampleOrchV 1 (exampleRuntime InitIdle ConnInactive) [(2, p)] [] 3 calls) =
   exampleOrchV 1 (exampleRuntime InitIdle (ConnStarting 3 False))
     [(2, p), (3, \<lparr>ps_domain = ''pods'', ps_scopeOf = ''c1|default'', ps_runtime = 1, ps_stops = []\<rparr>)] [] 4
     (calls @ [OcStreamStop ''pods'' ''c1|default'' False, OcStreamStart ''pods'' ''c1|default'' 3])"
  by (simp add: restartStreamingDomain_def stopStreamingScope_def cancelPendingStart_def
      cancelStreamingStart_def runActiveCleanup_def getStreamingCleanup_def clearStreamHealth_def
      clearStreamingReady_def startStreamingScope_def isScopedDomainEnabled_def isScopeClusterServiceable_def
      isStreamingStartingOrActive_def beginStreamingStart_def example_defs)

lemma example_cancel:
  "orch_step (example_env False) EvAutoRefreshChanged
     (exampleOrchV 1 (exampleRuntime InitIdle (ConnStarting 3 False))
       [(2, p), (3, \<lparr>ps_domain = ''pods'', ps_scopeOf = ''c1|default'', ps_runtime = 1, ps_stops = []\<rparr>)] [] 4 calls) =
   exampleOrchV 1 (exampleRuntime InitIdle (ConnStarting 3 True))
     [(2, p), (3, \<lparr>ps_domain = ''pods'', ps_scopeOf = ''c1|default'', ps_runtime = 1, ps_stops = [1]\<rparr>)] [] 4
     (calls @ [OcStreamStop ''pods'' ''c1|default'' False])"
  by (simp add: handleAutoRefreshChanged_def handleStreamingScopeChanges_def getAllRuntimes_def reconcileStreamingScope_def
      isStreamingStartingOrActive_def stopStreamingScope_def cancelPendingStart_def
      cancelStreamingStart_def attachStop_def runActiveCleanup_def getStreamingCleanup_def
      clearStreamHealth_def clearStreamingReady_def example_defs)

definition revived_events :: "(stream_env \<times> orch_event) list" where
  "revived_events =
     [(example_env True, EvEnable ''pods'' ''c1|default'' True True),
      (example_env True, EvScheduled 1),
      (example_env True, EvResetViews),
      (example_env True, EvRestart ''pods'' ''c1|default''),
      (example_env False, EvAutoRefreshChanged)]"

abbreviation revived_before :: orch where
  "revived_before \<equiv> exampleOrchV 1 (exampleRuntime InitIdle (ConnStarting 3 True))
     [(2, \<lparr>ps_domain = ''pods'', ps_scopeOf = ''c1|default'', ps_runtime = 1, ps_stops = [1]\<rparr>),
      (3, \<lparr>ps_domain = ''pods'', ps_scopeOf = ''c1|default'', ps_runtime = 1, ps_stops = [1]\<rparr>)] [] 4
     [OcRefresher ''pods'' True, OcScopedLoading ''pods'' ''c1|default'', OcMetricsDemand,
      OcStreamStart ''pods'' ''c1|default'' 2, OcStreamStop ''pods'' ''c1|default'' True,
      OcResetScoped ''pods'' ''c1|default'', OcResetDomain ''pods'',
      OcStreamStop ''pods'' ''c1|default'' False, OcStreamStart ''pods'' ''c1|default'' 3,
      OcStreamStop ''pods'' ''c1|default'' False]"

lemma revived_reach: "orch_reach (\<lambda>d. d = ''pods'') revived_before {}"
proof -
  have "orch_run revived_events initialOrch {} = (revived_before, {})"
    unfolding revived_events_def
    by (simp add: example_enable [unfolded One_nat_def] example_scheduled [unfolded One_nat_def]
        example_reset [unfolded One_nat_def] example_restart [unfolded One_nat_def]
        example_cancel [unfolded One_nat_def] delivered_def example_fields del: orch_step.simps)
  moreover have "list_all (\<lambda>(env, ev). en_streaming env = (\<lambda>d. d = ''pods'') \<and> event_ok env ev) revived_events"
    by (simp add: revived_events_def example_env_def scope_ok_def example_scope)
  ultimately show ?thesis using reach_run [OF reach_init, where evs = revived_events] by simp
qed

section \<open>Cancelled starts\<close>

text \<open>The continuation of a start that was cancelled while it was pending\<close>

definition torn_down :: "string \<Rightarrow> string \<Rightarrow> nat \<Rightarrow> nat \<Rightarrow> nat option \<Rightarrow> orch \<Rightarrow> orch" where
  "torn_down d s a t c o1 = runStreamingCleanup c (setRuntime a
     (clearStreamingCancelled (failStreamingStart (so_heap o1 a) d s t) d s)
     (o1\<lparr>so_starts := jm_delete t (so_starts o1)\<rparr>))"

lemma settle_cancelled:
  assumes I: "orch_inv env None D o1" and ok: "sok d s" and st: "slot o1 a d s = ConnStarting t True"
  shows "settleStart env t (Resolved b) o1 =
    (let o2 = torn_down d s a t (if b then Some t else None) o1
     in if isScopedDomainEnabled (so_heap o1 a) d s then startStreamingScope env d s o2 else o2)"
    (is "_ = ?r")
proof -
  note sl = slotD [OF I ok, of a, unfolded st, simplified]
  then obtain p where p: "jm_get (so_starts o1) t = Some p" "ps_domain p = d" "ps_scopeOf p = s" "ps_runtime p = a"
    by (auto simp: pend_def)
  let ?o0 = "o1\<lparr>so_starts := jm_delete t (so_starts o1)\<rparr>"
  let ?c = "if b then Some t else None"
  note I0 = settle_begins [OF I p(1)]
  have "belongs ?o0 s a" "isRuntimeCurrent a ?o0"
    using sl by (auto simp: belongs_def isRuntimeCurrent_def split: option.splits)
  then have "completeStreamingStart env d s a t ?c ?o0 = ?r"
    using st by (simp add: completeStreamingStart_def withRuntime_def route_current torn_down_def
        isStreamingCancelled_def Let_def)
  moreover have "set (ps_stops p) \<subseteq> {a}"
    using I p(1) unfolding p(4) [symmetric] orch_inv_def pending_ok_def pend_def by auto
  moreover have "\<not> isStreamingCancelled (so_heap (completeStreamingStart env d s a t ?c ?o0) a) d s"
    using complete_start [OF I0, of ?c d s a] p by auto
  ultimately show ?thesis
    using p no_stop_left [of "ps_stops p" a "completeStreamingStart env d s a t ?c ?o0"]
    by (simp add: settleStart_def Let_def)
qed

lemma torn_down_slot:
  assumes "sound (so_heap o1 a)" "sok d s" "slot o1 a d s = ConnStarting t b"
  shows "slot (torn_down d s a t c o1) a d s = ConnInactive"
    and "isScopedDomainEnabled (so_heap (torn_down d s a t c o1) a) d s = isScopedDomainEnabled (so_heap o1 a) d s"
proof -
  let ?rt = "failStreamingStart (so_heap o1 a) d s t"
  have sn: "sound ?rt" using assms(1,2) by (simp add: failStreamingStart_def sound_stream)
  then show "slot (torn_down d s a t c o1) a d s = ConnInactive"
    using assms by (simp add: torn_down_def failStreamingStart_def clearStreamingCancelled_def conn_stream
        stream_conn_transition)
  have "keeps ss_activation (so_heap o1 a) ?rt" "keeps ss_activation ?rt (clearStreamingCancelled ?rt d s)"
    using assms(2) by (simp_all add: failStreamingStart_def clearStreamingCancelled_def keeps_stream)
  then show "isScopedDomainEnabled (so_heap (torn_down d s a t c o1) a) d s = isScopedDomainEnabled (so_heap o1 a) d s"
    using assms(1,2) sn by (simp add: torn_down_def isScopedDomainEnabled_def keeps_def)
qed

lemma authState_stream [simp]: "cr_authState (applyStreamEvent rt d s e) = cr_authState rt"
  by (simp add: applyStreamEvent_def storeScopeState_def Let_def)

lemma torn_down_serviceable:
  "isScopeClusterServiceable env s' (torn_down d s a t c o1) = isScopeClusterServiceable env s' o1"
  by (auto simp: isScopeClusterServiceable_def torn_down_def isAuthAvailable_def failStreamingStart_def
      clearStreamingCancelled_def list_all_iff split: option.splits)

section \<open>Properties\<close>

text \<open>
  C1. No stream is leaked and none is torn down twice. Whatever sequence of enabling, leasing,
  starting, stopping, blocking, authentication failures, cluster removals, context changes and
  settling starts happens, with whatever changes of the environment, each cleanup function that
  a start delivered either has been called exactly once and is held nowhere, or has not been
  called and is held by exactly one active connection, of a runtime the orchestrator still
  reaches; and no cleanup is called or held that was never delivered.
\<close>

theorem streams_never_leak:
  "orch_reach streaming o1 D \<Longrightarrow>
   (\<forall>t\<in>D. (cleaned o1 t = 1 \<and> holders o1 t = {}) \<or>
      (cleaned o1 t = 0 \<and> (\<exists>a d s. holders o1 t = {(a, d, s)} \<and> isRuntimeCurrent a o1))) \<and>
   (\<forall>t>0. t \<notin> D \<longrightarrow> cleaned o1 t = 0 \<and> holders o1 t = {})"
proof -
  assume r: "orch_reach streaming o1 D"
  obtain env :: stream_env where "en_streaming env = streaming"
    by (metis stream_env.select_convs(2))
  with inv_reach [OF r] have I: "orch_inv env None D o1" by blast
  then have a: "account_ok D o1" by (simp add: orch_inv_def)
  have "(cleaned o1 t = 1 \<and> holders o1 t = {}) \<or>
      (cleaned o1 t = 0 \<and> (\<exists>a d s. holders o1 t = {(a, d, s)} \<and> isRuntimeCurrent a o1))"
    if t: "t \<in> D" for t
  proof (cases "held o1 t")
    case True
    from a t have "0 < t" by (simp add: account_ok_def)
    with a t True holders_single [OF I True] show ?thesis by (auto simp: account_ok_def)
  next
    case False
    with a t show ?thesis by (auto simp: account_ok_def holders_empty)
  qed
  with a show ?thesis by (auto simp: account_ok_def holders_empty)
qed

text \<open>The run in which a cancelled start delivers its cleanup\<close>

lemma streams_never_leak_witness:
  "cleaned (orch_step (example_env False) (EvSettle 2 (Resolved True)) example_before) 2 = 1 \<and>
   holders (orch_step (example_env False) (EvSettle 2 (Resolved True)) example_before) 2 = {}"
proof -
  have "cleaned (orch_step (example_env False) (EvSettle 2 (Resolved True)) example_before) 2 = 1"
    using example_settle by (simp add: cleaned_def example_fields del: orch_step.simps)
  with streams_never_leak [OF example_reach(2)] show ?thesis by auto
qed

text \<open>
  A stop takes effect on a start whose cancellation still stands when it settles: the cleanup it
  delivers is called, exactly once, and the stream does not become active.
\<close>

theorem cancelled_start_torn_down:
  "orch_reach streaming o1 D \<Longrightarrow> en_streaming env = streaming \<Longrightarrow> sok d s \<Longrightarrow>
   slot o1 a d s = ConnStarting t True \<Longrightarrow>
   cleaned (settleStart env t (Resolved True) o1) t = 1 \<and> holders (settleStart env t (Resolved True) o1) t = {}"
proof -
  assume r: "orch_reach streaming o1 D" "en_streaming env = streaming" and ok: "sok d s"
    and st: "slot o1 a d s = ConnStarting t True"
  note I = inv_reach [OF r]
  note sl = slotD [OF I ok, of a, unfolded st, simplified]
  then obtain p where p: "jm_get (so_starts o1) t = Some p" "ps_domain p = d" "ps_scopeOf p = s" "ps_runtime p = a"
    by (auto simp: pend_def)
  let ?o0 = "o1\<lparr>so_starts := jm_delete t (so_starts o1)\<rparr>"
  let ?rt = "clearStreamingCancelled (failStreamingStart (so_heap ?o0 a) d s t) d s"
  let ?o2 = "torn_down d s a t (Some t) o1"
  note I0 = settle_begins [OF I p(1)]
  have "tame_runtime (so_heap ?o0 a) ?rt"
    unfolding failStreamingStart_def clearStreamingCancelled_def
    by (intro tame_runtime_trans [OF tame_apply tame_apply] ok) simp_all
  then have "quiet env (Some (t, p)) D ?o0 (setRuntime a ?rt ?o0)" by (rule quiet_set)
  with I0(1) have I1: "orch_inv env (Some (t, p)) D (setRuntime a ?rt ?o0)" by (simp add: quiet_def)
  have I2: "orch_inv env (Some (t, p)) (insert t D) ?o2"
    using deliver [OF I1 I0(2,3), of "Some t"] by (simp add: torn_down_def)
  have "cleaned o1 t = 0" using I I0(2,3) by (auto simp: orch_inv_def account_ok_def)
  then have "cleaned ?o2 t = 1" by (simp add: torn_down_def cleaned_def runStreamingCleanup_def call_def)
  with I2 I0(3) have nh: "\<not> held ?o2 t" by (auto simp: orch_inv_def account_ok_def split: if_splits)
  let ?o3 = "settleStart env t (Resolved True) o1"
  have "quiet env (Some (t, p)) (insert t D) ?o2 (startStreamingScope env d s ?o2)"
    using ok sl by (intro quiet_start) simp_all
  with I2 have "no_new ?o2 ?o3"
    unfolding settle_cancelled [OF I ok st] by (simp add: quiet_def no_new_def Let_def)
  with nh have "\<not> held ?o3 t" unfolding held_def no_new_def by blast
  moreover have "account_ok (insert t D) ?o3"
    using inv_settle [OF I p(1), of "Resolved True"] by (simp add: orch_inv_def)
  ultimately show ?thesis using I0(3) by (auto simp: account_ok_def holders_empty)
qed

lemma example_slot: "slot example_before 1 ''pods'' ''c1|default'' = ConnStarting 2 True"
  by (simp add: example_fields example_get)

lemma example_sok: "sok ''pods'' ''c1|default''"
  by (simp add: scope_ok_def example_scope)

lemma cancelled_start_torn_down_witness:
  "cleaned (settleStart (example_env False) 2 (Resolved True) example_before) 2 = 1"
  using cancelled_start_torn_down [OF example_reach(1) _ example_sok example_slot, of "example_env False"]
  by (simp add: example_env_def)

text \<open>A start whose cancellation does not stand becomes active when it delivers its cleanup.\<close>

lemma settle_running:
  assumes I: "orch_inv env None D o1" and ok: "sok d s" and st: "slot o1 a d s = ConnStarting t False"
    and en: "isScopedDomainEnabled (so_heap o1 a) d s"
  shows "slot (settleStart env t (Resolved True) o1) a d s = ConnActive t False"
proof -
  note sl = slotD [OF I ok, of a, unfolded st, simplified]
  then obtain p where p: "jm_get (so_starts o1) t = Some p" "ps_domain p = d" "ps_scopeOf p = s" "ps_runtime p = a"
    by (auto simp: pend_def)
  let ?o0 = "o1\<lparr>so_starts := jm_delete t (so_starts o1)\<rparr>"
  have sn: "sound (so_heap o1 a)" using I by (simp only: orch_inv_def)
  note I0 = settle_begins [OF I p(1)]
  have cur: "belongs ?o0 s a" "isRuntimeCurrent a ?o0"
    using sl by (auto simp: belongs_def isRuntimeCurrent_def split: option.splits)
  let ?rt = "fst (finishStreamingStart (so_heap o1 a) d s t t)"
  have conn: "conn_of ?rt d s = ConnActive t False"
    using sn ok st by (simp add: finishStreamingStart_def conn_stream stream_conn_transition Let_def)
  have fin: "snd (finishStreamingStart (so_heap o1 a) d s t t)"
  proof -
    have "st_conn (transitionScopedStreamState (stream_of (so_heap o1 a) d s) (SeStartFinished t t)) = ConnActive t False"
      using st by (simp add: stream_conn_transition)
    then have "transitionScopedStreamState (stream_of (so_heap o1 a) d s) (SeStartFinished t t) \<noteq> stream_of (so_heap o1 a) d s"
      using st by (intro notI) simp
    then show ?thesis by (simp add: finishStreamingStart_def Let_def)
  qed
  then obtain rt where eq: "finishStreamingStart (so_heap o1 a) d s t t = (rt, True)" by (metis prod.collapse)
  note conn = conn [unfolded eq fst_conv]
  have same: "cr_clusterId rt = cr_clusterId (so_heap o1 a)"
    using arg_cong [OF eq, of fst] by (auto simp: finishStreamingStart_def Let_def)
  let ?c = "completeStreamingStart env d s a t (Some t) ?o0"
  have "belongs (setRuntime a rt ?o0) s a" "isRuntimeCurrent a (setRuntime a rt ?o0)"
    using cur same by (auto simp: belongs_def isRuntimeCurrent_def split: option.splits)
  then have "slot ?c a d s = ConnActive t False"
    using cur st en conn
    by (simp add: completeStreamingStart_def withRuntime_def route_current isStreamingCancelled_def
        eq reconcileInitialStreamingSnapshot_def Let_def)
  moreover have "fold (stopResolved d s t (Some t)) (ps_stops p) ?c = ?c"
  proof (rule no_stop_left)
    show "set (ps_stops p) \<subseteq> {a}"
      using I p(1) unfolding p(4) [symmetric] orch_inv_def pending_ok_def pend_def by auto
    show "\<not> isStreamingCancelled (so_heap ?c a) d s"
      using complete_start [OF I0, of "Some t" d s a] p by auto
  qed
  ultimately show ?thesis using p by (simp add: settleStart_def Let_def)
qed

text \<open>
  C7. Where the code falls short: a start that was cancelled can become active. The flag belongs to the
  slot, not to the start, and an older start of the same slot that is still pending (the slot was
  cleared when the views were reset or the scope of the cluster changed, and was started again) clears
  it when it settles. The cancelled start, when it settles after it, becomes active and its cleanup is
  not called.
\<close>

theorem older_start_revives_cancelled:
  assumes r: "orch_reach streaming o1 D" and e: "en_streaming env = streaming" "en_streaming env' = streaming"
    and ok: "sok d s" and st: "slot o1 a d s = ConnStarting t True"
    and p: "jm_get (so_starts o1) t' = Some p" "ps_domain p = d" "ps_scopeOf p = s" "ps_runtime p = a" "t' \<noteq> t"
    and en: "isScopedDomainEnabled (so_heap o1 a) d s"
    and o2_def: "o2 = settleStart env t' (Resolved b) o1"
    and o3_def: "o3 = settleStart env' t (Resolved True) o2"
  shows "slot o2 a d s = ConnStarting t False \<and> slot o3 a d s = ConnActive t False \<and> cleaned o3 t = 0"
proof -
  have r2: "orch_reach streaming o2 (delivered (EvSettle t' (Resolved b)) o1 D)"
    using reach_step [OF r e(1), of "EvSettle t' (Resolved b)"] by (simp add: o2_def)
  have r3: "orch_reach streaming o3 (delivered (EvSettle t (Resolved True)) o2 (delivered (EvSettle t' (Resolved b)) o1 D))"
    using reach_step [OF r2 e(2), of "EvSettle t (Resolved True)"] by (simp add: o3_def)
  note I = inv_reach [OF r e(1)]
  have sn: "sound (so_heap o1 a)" using I by (simp only: orch_inv_def)
  note sl = slotD [OF I ok, of a, unfolded st, simplified]
  let ?o0 = "o1\<lparr>so_starts := jm_delete t' (so_starts o1)\<rparr>"
  let ?c = "if b then Some t' else None"
  let ?rt = "clearStreamingCancelled (failStreamingStart (so_heap o1 a) d s t') d s"
  let ?o1 = "runStreamingCleanup ?c (setRuntime a ?rt ?o0)"
  have sn2: "sound (failStreamingStart (so_heap o1 a) d s t')" using sn ok by (simp add: failStreamingStart_def sound_stream)
  have conn: "conn_of ?rt d s = ConnStarting t False"
    using sn sn2 ok st p(5) by (simp add: clearStreamingCancelled_def failStreamingStart_def conn_stream stream_conn_transition)
  have act: "isScopedDomainEnabled ?rt d s"
  proof -
    have "keeps ss_activation (so_heap o1 a) (failStreamingStart (so_heap o1 a) d s t')"
      "keeps ss_activation (failStreamingStart (so_heap o1 a) d s t') ?rt"
      using ok by (simp_all add: failStreamingStart_def clearStreamingCancelled_def keeps_stream)
    then show ?thesis using sn sn2 ok en by (simp add: isScopedDomainEnabled_def keeps_def)
  qed
  have cur: "belongs ?o0 s a" "isRuntimeCurrent a ?o0" "belongs ?o1 s a" "isRuntimeCurrent a ?o1"
    using sl by (auto simp: belongs_def isRuntimeCurrent_def failStreamingStart_def clearStreamingCancelled_def
        runStreamingCleanup_def split: option.splits)
  have heap: "so_heap ?o1 a = ?rt" by (simp add: runStreamingCleanup_def)
  have "startStreamingScope env d s ?o1 = ?o1"
    using conn by (simp add: startStreamingScope_def withRuntime_def route_current [OF cur(3,4)] heap isStreamingStartingOrActive_def)
  then have c: "completeStreamingStart env d s a t' ?c ?o0 = ?o1"
    using st en by (simp add: completeStreamingStart_def cur(2) withRuntime_def route_current [OF cur(1,2)]
        isStreamingCancelled_def Let_def)
  have "set (ps_stops p) \<subseteq> {a}"
    using I p(1) unfolding p(4) [symmetric] orch_inv_def pending_ok_def pend_def by auto
  moreover have "\<not> isStreamingCancelled (so_heap ?o1 a) d s" using conn by (simp add: heap isStreamingCancelled_def)
  ultimately have o2: "o2 = ?o1"
    using p no_stop_left [of "ps_stops p" a ?o1] by (simp add: o2_def settleStart_def c Let_def)
  then have s2: "slot o2 a d s = ConnStarting t False" "isScopedDomainEnabled (so_heap o2 a) d s"
    using conn act heap by simp_all
  have s3: "slot o3 a d s = ConnActive t False"
    unfolding o3_def by (rule settle_running [OF inv_reach [OF r2 e(2)] ok s2])
  then have h: "held o3 t" using ok by (auto simp: held_def)
  have "0 < t" using sl I by (auto simp: orch_inv_def pending_ok_def pend_def)
  with inv_reach [OF r3 e(2)] have
    "if t \<in> delivered (EvSettle t (Resolved True)) o2 (delivered (EvSettle t' (Resolved b)) o1 D)
     then cleaned o3 t = (if held o3 t then 0 else 1) else cleaned o3 t = 0 \<and> \<not> held o3 t"
    unfolding orch_inv_def account_ok_def by blast
  with h have "cleaned o3 t = 0" by (simp split: if_splits)
  with s2 s3 show ?thesis by blast
qed

lemma older_start_revives_cancelled_witness:
  "cleaned (settleStart (example_env False) 3 (Resolved True)
     (settleStart (example_env False) 2 (Resolved True) revived_before)) 3 = 0"
proof -
  have st: "slot revived_before 1 ''pods'' ''c1|default'' = ConnStarting 3 True"
    by (simp add: example_fields example_get)
  have p: "jm_get (so_starts revived_before) 2 =
      Some \<lparr>ps_domain = ''pods'', ps_scopeOf = ''c1|default'', ps_runtime = 1, ps_stops = [1]\<rparr>"
    by (simp add: example_fields)
  have en: "isScopedDomainEnabled (so_heap revived_before 1) ''pods'' ''c1|default''"
    by (simp add: isScopedDomainEnabled_def example_fields example_get)
  show ?thesis
    using older_start_revives_cancelled [OF revived_reach _ _ example_sok st p _ _ _ _ en,
        of "example_env False" "example_env False" _ True] by (simp add: example_env_def)
qed

text \<open>
  C35. What the code does with a start that was stopped because the context no longer lets the
  scope stream (auto-refresh was switched off, or another view was opened): when the start
  settles, the stream is started again although the context still forbids it, because the restart
  after a cancelled start only asks whether the scope is enabled and its cluster serves.
\<close>

theorem restart_ignores_context:
  "orch_reach streaming o1 D \<Longrightarrow> en_streaming env = streaming \<Longrightarrow> sok d s \<Longrightarrow>
   slot o1 a d s = ConnStarting t True \<Longrightarrow> isScopedDomainEnabled (so_heap o1 a) d s \<Longrightarrow>
   isScopeClusterServiceable env s o1 \<Longrightarrow> \<not> shouldStreamScope env d s o1 \<Longrightarrow>
   OcStreamStart d s (so_nextTask o1) \<in> set (so_calls (settleStart env t (Resolved b) o1))"
proof -
  assume r: "orch_reach streaming o1 D" "en_streaming env = streaming" and ok: "sok d s"
    and st: "slot o1 a d s = ConnStarting t True" and en: "isScopedDomainEnabled (so_heap o1 a) d s"
    and sv: "isScopeClusterServiceable env s o1"
  note I = inv_reach [OF r]
  have sn: "sound (so_heap o1 a)" using I by (simp only: orch_inv_def)
  let ?o2 = "torn_down d s a t (if b then Some t else None) o1"
  note td = torn_down_slot [OF sn ok st, of "if b then Some t else None"]
  have "belongs ?o2 s a" "isRuntimeCurrent a ?o2"
    using slotD [OF I ok, of a, unfolded st, simplified]
    by (auto simp: torn_down_def belongs_def isRuntimeCurrent_def failStreamingStart_def
        clearStreamingCancelled_def split: option.splits)
  moreover have "so_nextTask ?o2 = so_nextTask o1" by (simp add: torn_down_def)
  ultimately show ?thesis
    unfolding settle_cancelled [OF I ok st] using en sv td
    by (simp add: startStreamingScope_def withRuntime_def route_current torn_down_serviceable
        isStreamingStartingOrActive_def Let_def)
qed

lemma restart_ignores_context_witness:
  "OcStreamStart ''pods'' ''c1|default'' 3 \<in>
     set (so_calls (settleStart (example_env False) 2 (Resolved True) example_before))"
proof -
  have "isScopedDomainEnabled (so_heap example_before 1) ''pods'' ''c1|default''"
    by (simp add: isScopedDomainEnabled_def example_fields example_get)
  moreover have "isScopeClusterServiceable (example_env False) ''c1|default'' example_before"
    by (simp add: isScopeClusterServiceable_def example_scope example_fields example_runtime example_env_def)
  ultimately show ?thesis
    using restart_ignores_context [OF example_reach(1) _ example_sok example_slot, of "example_env False" True]
      example_should [of False]
    by (simp add: example_env_def example_fields)
qed

end
