(* ===== verification/SnapshotStore.thy ===== *)
theory SnapshotStore
  imports ClusterScope RefreshRuntime
begin

text \<open>
  Where fetched snapshots go: \<open>frontend/src/core/refresh/store.ts\<close> (the published state with its
  two cached views), \<open>snapshotMerge.ts\<close> (reuse of unchanged row objects) and
  \<open>refreshErrorNotifier.ts\<close> (each failure is shown once), and from \<open>orchestrator.ts\<close> the sweep over
  the store for removed clusters. Payloads and their statistics are JSON values of a type parameter;
  subscribers are called after every publication and see the published state only.
\<close>

section \<open>State\<close>

datatype domain_status = DsIdle | DsLoading | DsInitialising | DsUpdating | DsReady | DsError

text \<open>\<open>DomainSnapshotState\<close>. Optional fields are options; \<open>sn_error = Some None\<close> is \<open>null\<close>.\<close>

record 'v snap =
  sn_status :: domain_status
  sn_data :: "'v option"
  sn_stats :: "'v option"
  sn_version :: "nat option"
  sn_sourceVersion :: "string option"
  sn_sourceVersions :: "(string \<times> string) list option"
  sn_signalVersions :: "(string \<times> string) list option"
  sn_permissionDenied :: "bool option"
  sn_checksum :: "string option"
  sn_etag :: "string option"
  sn_streamRevision :: "nat option"
  sn_streamAcknowledgedVersion :: "nat option"
  sn_queryReconcileVersion :: "nat option"
  sn_lastUpdated :: "nat option"
  sn_lastManualRefresh :: "nat option"
  sn_lastAutoRefresh :: "nat option"
  sn_error :: "string option option"
  sn_isManual :: "bool option"
  sn_droppedAutoRefreshes :: nat
  sn_scope :: "string option"

definition EMPTY_SCOPED_STATE :: "'v snap" where
  "EMPTY_SCOPED_STATE = \<lparr>sn_status = DsIdle, sn_data = None, sn_stats = None, sn_version = None,
     sn_sourceVersion = None, sn_sourceVersions = None, sn_signalVersions = None,
     sn_permissionDenied = None, sn_checksum = None, sn_etag = None, sn_streamRevision = None,
     sn_streamAcknowledgedVersion = None, sn_queryReconcileVersion = None, sn_lastUpdated = None,
     sn_lastManualRefresh = None, sn_lastAutoRefresh = None, sn_error = Some None,
     sn_isManual = None, sn_droppedAutoRefreshes = 0, sn_scope = None\<rparr>"

record 'v refresh_store =
  scopedDomains :: "(string, (string, 'v snap) jmap) jmap"
  scopedDomainEntries :: "(string, (string \<times> 'v snap) list) jmap"
  pendingRequests :: int

definition EMPTY_REFRESH_STATE :: "'v refresh_store" where
  "EMPTY_REFRESH_STATE = \<lparr>scopedDomains = [], scopedDomainEntries = [], pendingRequests = 0\<rparr>"

section \<open>Reading\<close>

definition getScopedDomainState :: "'v refresh_store \<Rightarrow> string \<Rightarrow> string \<Rightarrow> 'v snap" where
  "getScopedDomainState st domain scope =
     (case jm_get (scopedDomains st) domain of
        None \<Rightarrow> EMPTY_SCOPED_STATE
      | Some domainMap \<Rightarrow>
          (case jm_get domainMap scope of Some s \<Rightarrow> s | None \<Rightarrow> EMPTY_SCOPED_STATE))"

definition getScopedDomainStates :: "'v refresh_store \<Rightarrow> string \<Rightarrow> (string, 'v snap) jmap" where
  "getScopedDomainStates st domain =
     (case jm_get (scopedDomains st) domain of None \<Rightarrow> [] | Some m \<Rightarrow> m)"

definition getScopedDomainEntries :: "'v refresh_store \<Rightarrow> string \<Rightarrow> (string \<times> 'v snap) list" where
  "getScopedDomainEntries st domain =
     (case jm_get (scopedDomainEntries st) domain of None \<Rightarrow> [] | Some es \<Rightarrow> es)"

section \<open>Writing\<close>

text \<open>\<open>Object.entries\<close> of a map lists it in insertion order.\<close>

definition publishScopedDomainStates ::
  "string \<Rightarrow> (string, 'v snap) jmap \<Rightarrow> 'v refresh_store \<Rightarrow> 'v refresh_store" where
  "publishScopedDomainStates domain nextMap st =
     (let entries = nextMap in
      if entries = []
      then st\<lparr>scopedDomains := jm_delete domain (scopedDomains st),
              scopedDomainEntries := jm_delete domain (scopedDomainEntries st)\<rparr>
      else st\<lparr>scopedDomains := jm_set domain nextMap (scopedDomains st),
              scopedDomainEntries := jm_set domain entries (scopedDomainEntries st)\<rparr>)"

text \<open>The updater gives \<open>None\<close> when it returns the very object it was given.\<close>

definition setScopedDomainState ::
  "string \<Rightarrow> string \<Rightarrow> ('v snap \<Rightarrow> 'v snap option) \<Rightarrow> 'v refresh_store \<Rightarrow> 'v refresh_store" where
  "setScopedDomainState domain scope updater st =
     (let currentMap = jm_get (scopedDomains st) domain;
          previousState = getScopedDomainState st domain scope
      in case updater previousState of
           None \<Rightarrow> st
         | Some nextState \<Rightarrow>
             publishScopedDomainStates domain
               (jm_set scope nextState (case currentMap of None \<Rightarrow> [] | Some m \<Rightarrow> m)) st)"

definition resetScopedDomainState :: "string \<Rightarrow> string \<Rightarrow> 'v refresh_store \<Rightarrow> 'v refresh_store" where
  "resetScopedDomainState domain scope st =
     (case jm_get (scopedDomains st) domain of
        None \<Rightarrow> st
      | Some m \<Rightarrow>
          if \<not> jm_has m scope then st
          else publishScopedDomainStates domain (jm_delete scope m) st)"

definition resetAllScopedDomainStates :: "string \<Rightarrow> 'v refresh_store \<Rightarrow> 'v refresh_store" where
  "resetAllScopedDomainStates domain st =
     (if \<not> jm_has (scopedDomains st) domain then st else publishScopedDomainStates domain [] st)"

text \<open>The scopes a sweep over the store collects before it resets them\<close>

definition swept ::
  "(string \<Rightarrow> string \<Rightarrow> 'v snap \<Rightarrow> bool) \<Rightarrow> (string, (string, 'v snap) jmap) jmap \<Rightarrow> (string \<times> string) list"
  where
  "swept P m = concat (List.map (\<lambda>(domain, scopes).
     List.map (\<lambda>(scope, s). (domain, scope)) (List.filter (\<lambda>(scope, s). P domain scope s) scopes)) m)"

definition resetEach :: "(string \<times> string) list \<Rightarrow> 'v refresh_store \<Rightarrow> 'v refresh_store" where
  "resetEach xs st = fold (\<lambda>(domain, scope). resetScopedDomainState domain scope) xs st"

definition resetPermissionDeniedScopedDomainStates :: "string \<Rightarrow> 'v refresh_store \<Rightarrow> 'v refresh_store" where
  "resetPermissionDeniedScopedDomainStates clusterId st =
     (if js_trim clusterId = [] then st
      else resetEach (swept (\<lambda>domain scope s. sn_permissionDenied s = Some True \<and>
                        ps_clusterId (parseClusterScope (Some scope)) = clusterId) (scopedDomains st)) st)"

definition markPendingRequest :: "int \<Rightarrow> 'v refresh_store \<Rightarrow> 'v refresh_store" where
  "markPendingRequest delta st = st\<lparr>pendingRequests := max 0 (pendingRequests st + delta)\<rparr>"

text \<open>The orchestrator's sweep reads the entries view and resets while it goes; the view it
  iterates is the one it took first.\<close>

definition resetScopedStatesForRemovedClusters :: "string list \<Rightarrow> 'v refresh_store \<Rightarrow> 'v refresh_store" where
  "resetScopedStatesForRemovedClusters connected st =
     resetEach (swept (\<lambda>domain scope s.
       let clusterIds = pl_clusterIds (parseClusterScopeList (Some scope))
       in clusterIds \<noteq> [] \<and> list_all (\<lambda>c. c \<notin> set connected) clusterIds) (scopedDomainEntries st)) st"

section \<open>Reusing rows\<close>

text \<open>A row object has an identity besides its fields; \<open>===\<close> compares identities.\<close>

record 'v row =
  row_object :: nat
  row_fields :: "(string, 'v) jmap"

definition shallowEqualRecord :: "'v row \<Rightarrow> 'v row \<Rightarrow> bool" where
  "shallowEqualRecord left right =
     (if row_object left = row_object right then True
      else if length (jm_keys (row_fields left)) \<noteq> length (jm_keys (row_fields right)) then False
      else list_all (\<lambda>key. jm_get (row_fields left) key = jm_get (row_fields right) key)
             (jm_keys (row_fields left)))"

text \<open>\<open>None\<close>: the incoming list itself is returned. An empty key stands for no key.\<close>

definition mergeListByKey ::
  "'v row list \<Rightarrow> 'v row list \<Rightarrow> ('v row \<Rightarrow> string) \<Rightarrow> 'v row list option" where
  "mergeListByKey incoming previous keyFor =
     (if incoming = [] \<or> previous = [] then None
      else
        let previousByKey = fold (\<lambda>item m. if keyFor item \<noteq> [] then jm_set (keyFor item) item m else m)
                              previous [];
            reuse = (\<lambda>item. if keyFor item = [] then None
                      else case jm_get previousByKey (keyFor item) of
                             Some cached \<Rightarrow> if shallowEqualRecord cached item then Some cached else None
                           | None \<Rightarrow> None);
            merged = List.map (\<lambda>item. case reuse item of Some cached \<Rightarrow> cached | None \<Rightarrow> item) incoming
        in if list_ex (\<lambda>item. reuse item \<noteq> None) incoming then Some merged else None)"

record ('p, 'v) merge_descriptor =
  md_rows :: "'p \<Rightarrow> 'v row list"
  md_withRows :: "'p \<Rightarrow> 'v row list \<Rightarrow> 'p"
  md_key :: "'v row \<Rightarrow> 'p \<Rightarrow> string"

definition mergePollingPayloadWithDescriptor ::
  "'p \<Rightarrow> 'p option \<Rightarrow> ('p, 'v) merge_descriptor \<Rightarrow> 'p" where
  "mergePollingPayloadWithDescriptor payload previous descriptor =
     (case previous of
        None \<Rightarrow> payload
      | Some p \<Rightarrow>
          if md_rows descriptor p = [] then payload
          else case mergeListByKey (md_rows descriptor payload) (md_rows descriptor p)
                      (\<lambda>row. md_key descriptor row payload) of
                 None \<Rightarrow> payload
               | Some merged \<Rightarrow> md_withRows descriptor payload merged)"

text \<open>The table of descriptors, by domain, is a parameter: it projects the generated payload types.\<close>

definition mergePollingListPayload ::
  "(string \<Rightarrow> ('p, 'v) merge_descriptor option) \<Rightarrow> string \<Rightarrow> 'p \<Rightarrow> string option \<Rightarrow>
   'p refresh_store \<Rightarrow> 'p" where
  "mergePollingListPayload descriptors domain payload scope st =
     (case descriptors domain of
        None \<Rightarrow> payload
      | Some descriptor \<Rightarrow>
          mergePollingPayloadWithDescriptor payload
            (case scope of
               None \<Rightarrow> None
             | Some s \<Rightarrow> if s = [] then None else sn_data (getScopedDomainState st domain s))
            descriptor)"

section \<open>Notifying errors\<close>

text \<open>\<open>s.includes(t)\<close>\<close>

definition js_includes :: "string \<Rightarrow> string \<Rightarrow> bool" where
  "js_includes s t = list_ex (prefix t) (suffixes s)"

record error_notifier =
  lastNotifiedErrors :: "(string, string) jmap"
  suppressNetworkErrorsUntil :: nat

definition initialNotifier :: error_notifier where
  "initialNotifier = \<lparr>lastNotifiedErrors = [], suppressNetworkErrorsUntil = 0\<rparr>"

definition getErrorNotificationKey :: "string \<Rightarrow> string option \<Rightarrow> string" where
  "getErrorNotificationKey domain scope =
     makeInFlightKey domain (Some (case scope of None \<Rightarrow> ''__global__'' | Some s \<Rightarrow> s))"

definition shouldSuppressNetworkError :: "nat \<Rightarrow> string \<Rightarrow> error_notifier \<Rightarrow> bool" where
  "shouldSuppressNetworkError now message en =
     (if now > suppressNetworkErrorsUntil en then False
      else let normalized = js_lower message in
           js_includes normalized ''load failed'' \<or> js_includes normalized ''failed to fetch'' \<or>
           js_includes normalized ''could not connect to the server'' \<or>
           js_includes normalized ''snapshot request failed'')"

definition suppressNetworkErrors :: "nat \<Rightarrow> nat \<Rightarrow> error_notifier \<Rightarrow> error_notifier" where
  "suppressNetworkErrors now durationMs en =
     en\<lparr>suppressNetworkErrorsUntil := max (suppressNetworkErrorsUntil en) (now + durationMs)\<rparr>"

text \<open>The second component: whether the error is handed to the error handler\<close>

definition notifyError ::
  "nat \<Rightarrow> string \<Rightarrow> string option \<Rightarrow> string \<Rightarrow> error_notifier \<Rightarrow> error_notifier \<times> bool" where
  "notifyError now domain scope message en =
     (if shouldSuppressNetworkError now message en then (en, False)
      else
        let key = getErrorNotificationKey domain scope in
        if jm_get (lastNotifiedErrors en) key = Some message then (en, False)
        else
          let normalizedMessage = js_lower message;
              noted = en\<lparr>lastNotifiedErrors := jm_set key message (lastNotifiedErrors en)\<rparr>
          in if domain = ''object-details'' \<and>
                (js_includes normalizedMessage ''not found'' \<or> js_includes normalizedMessage ''could not find'')
             then (noted, False)
             else if js_includes normalizedMessage ''catalog hydration incomplete'' then (noted, False)
             else (noted, True))"

definition clearError :: "string \<Rightarrow> string option \<Rightarrow> error_notifier \<Rightarrow> error_notifier" where
  "clearError domain scope en =
     en\<lparr>lastNotifiedErrors := jm_delete (getErrorNotificationKey domain scope) (lastNotifiedErrors en)\<rparr>"

definition clearAllErrors :: "error_notifier \<Rightarrow> error_notifier" where
  "clearAllErrors en = en\<lparr>lastNotifiedErrors := []\<rparr>"

end
