(* ===== verification/FetchLifecycle.thy ===== *)
theory FetchLifecycle
  imports StreamHandlers SnapshotStore
begin

text \<open>
  The fetching half of \<open>frontend/src/core/refresh/orchestrator.ts\<close>: whether a scope may be fetched,
  who owns its request slot, what a snapshot, a failure or an abort does when it arrives, and the
  refetch that follows a request onto which a stream signal was latched. The state \<open>fetch_world\<close> joins
  the streaming half (\<open>orch\<close>), the published store and the error notifier.

  \<open>fetchSnapshot\<close> is the environment: a fetch is pending from \<open>beginRequest\<close> until \<open>settleFetch\<close> runs
  the rest of \<open>executeFetch\<close> with its outcome. A method that awaits before it goes on is split
  there; what follows is a resumption. Callers that only wait for a request to complete have no
  further effect and are not kept. A throw ends a method: the world is then left as it was.
\<close>

section \<open>State\<close>

text \<open>The options of \<open>fetchScopedDomain\<close>, whose \<open>isManual\<close> may be undefined\<close>

record scoped_fetch =
  sf_isManual :: "bool option"
  sf_streamSignal :: "bool option"
  sf_coalesce :: "bool option"
  sf_queryReconcile :: bool
  sf_signal :: "nat option"

record resumption =
  rs_runtime :: nat
  rs_domain :: string
  rs_scope :: string
  rs_options :: scoped_fetch

record 'p fetch_world =
  fw_orch :: orch
  fw_store :: "'p refresh_store"
  fw_notifier :: error_notifier
  fw_resumptions :: "(nat, resumption) jmap"
  fw_nextResumption :: nat
  fw_abortedSignals :: "nat list"
  fw_handledErrors :: "(string \<times> string option \<times> string) list"

text \<open>What the methods read from elsewhere: that of the streaming half, the clock, the table of
  stream domains and the resource stream manager, and the merge descriptors.\<close>

record ('p, 'v) fetch_env =
  fe_stream :: stream_env
  fe_now :: nat
  fe_pollingContinues :: "string \<Rightarrow> bool"
  fe_doorbell :: "string \<Rightarrow> bool"
  fe_streamHealthy :: "string \<Rightarrow> string \<Rightarrow> bool"
  fe_descriptors :: "string \<Rightarrow> ('p, 'v) merge_descriptor option"

record 'p snapshot =
  sp_payload :: 'p
  sp_stats :: "'p option"
  sp_version :: "nat option"
  sp_sourceVersion :: "string option"
  sp_sourceVersions :: "(string \<times> string) list option"
  sp_checksum :: "string option"

text \<open>How \<open>fetchSnapshot\<close> settles: with a snapshot, an etag and a flag, or with an error and whether
  it is a typed denial\<close>

datatype 'p fetch_outcome = Fetched "'p snapshot option" "string option" bool | FetchFailed string bool

abbreviation runtimeAt :: "'p fetch_world \<Rightarrow> nat \<Rightarrow> cluster_runtime" where
  "runtimeAt w a \<equiv> so_heap (fw_orch w) a"

definition onOrch :: "(orch \<Rightarrow> orch) \<Rightarrow> 'p fetch_world \<Rightarrow> 'p fetch_world" where
  "onOrch f w = w\<lparr>fw_orch := f (fw_orch w)\<rparr>"

definition onRuntime :: "nat \<Rightarrow> (cluster_runtime \<Rightarrow> cluster_runtime) \<Rightarrow> 'p fetch_world \<Rightarrow> 'p fetch_world" where
  "onRuntime a f = onOrch (\<lambda>o1. setRuntime a (f (so_heap o1 a)) o1)"

definition onStore :: "('p refresh_store \<Rightarrow> 'p refresh_store) \<Rightarrow> 'p fetch_world \<Rightarrow> 'p fetch_world" where
  "onStore f w = w\<lparr>fw_store := f (fw_store w)\<rparr>"

definition onNotifier :: "(error_notifier \<Rightarrow> error_notifier) \<Rightarrow> 'p fetch_world \<Rightarrow> 'p fetch_world" where
  "onNotifier f w = w\<lparr>fw_notifier := f (fw_notifier w)\<rparr>"

definition routeScope :: "string \<Rightarrow> 'p fetch_world \<Rightarrow> ('p fetch_world \<times> nat) option" where
  "routeScope scope w = map_option (\<lambda>(o2, a). (w\<lparr>fw_orch := o2\<rparr>, a)) (getRuntimeForScope scope (fw_orch w))"

section \<open>Errors\<close>

definition readinessRequest :: "string \<Rightarrow> string \<Rightarrow> fetch_options \<Rightarrow> readiness_request" where
  "readinessRequest domain scope options =
     \<lparr>rr_coalesce = fo_coalesce options, rr_domain = domain, rr_scope = scope,
      rr_isManual = fo_isManual options, rr_streamSignal = (fo_streamSignal options = Some True),
      rr_queryReconcile = fo_queryReconcile options\<rparr>"

definition plainRequest :: "string \<Rightarrow> string \<Rightarrow> readiness_request" where
  "plainRequest domain scope =
     \<lparr>rr_coalesce = None, rr_domain = domain, rr_scope = scope, rr_isManual = False,
      rr_streamSignal = False, rr_queryReconcile = False\<rparr>"

definition notifyRefreshError ::
  "nat \<Rightarrow> string \<Rightarrow> string option \<Rightarrow> string \<Rightarrow> 'p fetch_world \<Rightarrow> 'p fetch_world" where
  "notifyRefreshError now domain scope message w =
     (if js_includes message ''no active clusters available''
      then (case scope of
              None \<Rightarrow> w
            | Some s \<Rightarrow> if s = [] then w
                else onOrch (recordPendingClusterReadiness domain s (plainRequest domain s)) w)
      else let (notifier, handled) = notifyError now domain scope message (fw_notifier w)
           in w\<lparr>fw_notifier := notifier,
                fw_handledErrors := fw_handledErrors w @ (if handled then [(domain, scope, message)] else [])\<rparr>)"

definition clearRefreshError :: "string \<Rightarrow> string option \<Rightarrow> 'p fetch_world \<Rightarrow> 'p fetch_world" where
  "clearRefreshError domain scope = onNotifier (clearError domain scope)"

section \<open>Beginning a fetch\<close>

definition signalAborted :: "fetch_options \<Rightarrow> 'p fetch_world \<Rightarrow> bool" where
  "signalAborted options w = (case fo_signal options of None \<Rightarrow> False | Some s \<Rightarrow> s \<in> set (fw_abortedSignals w))"

definition canFetchScope ::
  "('p, 'v) fetch_env \<Rightarrow> string \<Rightarrow> string \<Rightarrow> fetch_options \<Rightarrow> 'p fetch_world \<Rightarrow> 'p fetch_world \<times> bool" where
  "canFetchScope fe domain scope options w =
     (let (w1, mayRetry) =
            (if fo_isManual options then (w, True)
             else case routeScope scope w of
                    None \<Rightarrow> (w, False)
                  | Some (w', a) \<Rightarrow> (w', canRetryReconciliation (runtimeAt w' a) domain scope (fe_now fe)))
      in if \<not> mayRetry then (w1, False)
         else if signalAborted options w1 then (w1, False)
         else if \<not> isScopeClusterServiceable (fe_stream fe) scope (fw_orch w1)
         then (if fo_allowDisabledRetainedScope options then w1
               else onOrch (recordPendingClusterReadiness domain scope (readinessRequest domain scope options)) w1,
               False)
         else if fo_allowDisabledRetainedScope options then (w1, True)
         else case routeScope scope w1 of
                None \<Rightarrow> (w1, False)
              | Some (w2, a) \<Rightarrow>
                  if isScopedDomainEnabled (runtimeAt w2 a) domain scope then (w2, True)
                  else (onStore (resetScopedDomainState domain scope) w2, False))"

definition claimFetchSlot ::
  "string \<Rightarrow> string \<Rightarrow> fetch_options \<Rightarrow> nat \<Rightarrow> 'p fetch_world \<Rightarrow> 'p fetch_world \<times> bool" where
  "claimFetchSlot domain scope options a w =
     (case getInFlight (runtimeAt w a) domain (Some scope) of
        None \<Rightarrow> (w, True)
      | Some (r, t) \<Rightarrow>
          if fo_isManual options \<and> fo_coalesce options \<noteq> Some True
          then (onOrch (teardownRequest a (makeInFlightKey domain (Some scope)) (if_requestId r)) w, True)
          else (if fo_streamSignal options = Some True \<or> fo_coalesce options = Some True
                then onRuntime a (\<lambda>rt. latchTrailingStreamSignal rt domain (Some scope)) w else w, False))"

text \<open>The state of a scope while its snapshot is fetched\<close>

definition loadingState :: "'p snap \<Rightarrow> bool \<Rightarrow> string \<Rightarrow> 'p snap \<Rightarrow> 'p snap" where
  "loadingState previousState isManual scope previous = previous\<lparr>
     sn_status := (if sn_data previousState \<noteq> None then DsUpdating else DsLoading),
     sn_error := Some None, sn_isManual := Some isManual, sn_scope := Some scope\<rparr>"

text \<open>The second component is whether there is an execution to run.\<close>

definition beginFetch ::
  "string \<Rightarrow> string \<Rightarrow> fetch_options \<Rightarrow> nat \<Rightarrow> 'p snap \<Rightarrow> 'p fetch_world \<Rightarrow> 'p fetch_world \<times> bool" where
  "beginFetch domain scope options a previousState w =
     (let w1 = onStore (setScopedDomainState domain scope (\<lambda>previous. Some
                 (loadingState previousState (fo_isManual options) scope previous))) w
      in if signalAborted options w1 then (w1, False)
         else (onStore (markPendingRequest 1) (onOrch (beginRequest domain scope options a) w1), True))"

definition performFetch ::
  "('p, 'v) fetch_env \<Rightarrow> string \<Rightarrow> string \<Rightarrow> fetch_options \<Rightarrow> 'p fetch_world \<Rightarrow> 'p fetch_world" where
  "performFetch fe domain value options w =
     (case normalizeDomainScope (fe_stream fe) domain value of
        None \<Rightarrow> w
      | Some scope \<Rightarrow>
          if scope = [] then w
          else let (w1, can) = canFetchScope fe domain scope options w in
               if \<not> can then w1
               else case routeScope scope w1 of
                      None \<Rightarrow> w1
                    | Some (w2, a) \<Rightarrow>
                        let (w3, claimed) = claimFetchSlot domain scope options a w2 in
                        if \<not> claimed then w3
                        else if \<not> fo_isManual options \<and> isPermissionDenied (runtimeAt w3 a) domain scope
                        then w3
                        else fst (beginFetch domain scope options a
                               (getScopedDomainState (fw_store w3) domain scope) w3))"

section \<open>What an answer does\<close>

definition fetchCanCommit :: "nat \<Rightarrow> pending_fetch \<Rightarrow> 'p fetch_world \<Rightarrow> bool" where
  "fetchCanCommit i p w =
     (\<not> aborted (fw_orch w) i \<and> pf_contextVersion p = so_contextVersion (fw_orch w))"

text \<open>\<open>a ?? b\<close>\<close>

abbreviation (input) nullish :: "'a option \<Rightarrow> 'a option \<Rightarrow> 'a option" where
  "nullish a b \<equiv> (case a of None \<Rightarrow> b | Some x \<Rightarrow> Some x)"

definition committed :: "nat \<Rightarrow> 'p snapshot \<Rightarrow> 'p \<Rightarrow> string option \<Rightarrow> bool \<Rightarrow> string \<Rightarrow> 'p snap \<Rightarrow> 'p snap" where
  "committed now snapshot payload etag isManual scope prev = prev\<lparr>
     sn_status := DsReady, sn_data := Some payload, sn_stats := sp_stats snapshot,
     sn_version := sp_version snapshot,
     sn_sourceVersion := nullish (nullish (sp_sourceVersion snapshot) etag) (sn_sourceVersion prev),
     sn_sourceVersions := nullish (sp_sourceVersions snapshot) (sn_sourceVersions prev),
     sn_checksum := sp_checksum snapshot,
     sn_etag := nullish (nullish (nullish etag (sp_sourceVersion snapshot)) (sp_checksum snapshot)) (sn_etag prev),
     sn_lastUpdated := Some now,
     sn_lastManualRefresh := (if isManual then Some now else sn_lastManualRefresh prev),
     sn_lastAutoRefresh := (if \<not> isManual then Some now else sn_lastAutoRefresh prev),
     sn_error := Some None, sn_permissionDenied := Some False, sn_isManual := Some isManual,
     sn_scope := Some scope\<rparr>"

text \<open>The request tracked for the scope belongs to an earlier context.\<close>

definition trackedForeign :: "string \<Rightarrow> string \<Rightarrow> nat \<Rightarrow> 'p fetch_world \<Rightarrow> bool" where
  "trackedForeign domain scope a w =
     (case getInFlight (runtimeAt w a) domain (Some scope) of
        Some (r, t) \<Rightarrow> if_contextVersion r \<noteq> so_contextVersion (fw_orch w) | None \<Rightarrow> False)"

definition applySnapshot ::
  "('p, 'v) fetch_env \<Rightarrow> string \<Rightarrow> 'p snapshot \<Rightarrow> string option \<Rightarrow> bool \<Rightarrow> string \<Rightarrow> bool \<Rightarrow>
   'p fetch_world \<Rightarrow> 'p fetch_world" where
  "applySnapshot fe domain snapshot etag isManual scope allowDisabledRetainedScope w =
     (case routeScope scope w of
        None \<Rightarrow> w
      | Some (w1, a) \<Rightarrow>
          if trackedForeign domain scope a w1 then w1
          else
            let payload = mergePollingListPayload (fe_descriptors fe) domain (sp_payload snapshot)
                            (Some scope) (fw_store w1)
            in if scope = [] then w1
               else if \<not> allowDisabledRetainedScope \<and> \<not> isScopedDomainEnabled (runtimeAt w1 a) domain scope
               then w1
               else clearRefreshError domain (Some scope)
                 (onStore (setScopedDomainState domain scope (\<lambda>prev. Some
                      (committed (fe_now fe) snapshot payload etag isManual scope prev)))
                   (onRuntime a (\<lambda>rt. markPermissionAllowed rt domain scope) w1)))"

text \<open>An answer without a snapshot\<close>

definition unchangedState :: "nat \<Rightarrow> bool \<Rightarrow> 'p snap \<Rightarrow> 'p snap" where
  "unchangedState now isManual previous = previous\<lparr>
     sn_status := (if sn_data previous \<noteq> None then DsReady else DsIdle), sn_isManual := Some isManual,
     sn_lastAutoRefresh := (if isManual then sn_lastAutoRefresh previous else Some now)\<rparr>"

definition applyNotModified ::
  "nat \<Rightarrow> pending_fetch \<Rightarrow> 'p fetch_world \<Rightarrow> 'p fetch_world" where
  "applyNotModified now p w =
     (let domain = pf_domain p; scope = pf_scope p; options = pf_options p in
      case (if fo_allowDisabledRetainedScope options then Some w
            else case routeScope scope w of
                   None \<Rightarrow> None
                 | Some (w1, a) \<Rightarrow>
                     if isScopedDomainEnabled (runtimeAt w1 a) domain scope then Some w1 else None) of
        None \<Rightarrow> w
      | Some w1 \<Rightarrow>
          clearRefreshError domain (Some scope)
            (onStore (setScopedDomainState domain scope (\<lambda>previous. Some
                 (unchangedState now (fo_isManual options) previous)))
              (onRuntime (pf_runtime p) (\<lambda>rt. markPermissionAllowed rt domain scope) w1)))"

definition applyFetchResult ::
  "('p, 'v) fetch_env \<Rightarrow> pending_fetch \<Rightarrow> 'p snapshot option \<Rightarrow> string option \<Rightarrow> bool \<Rightarrow>
   'p fetch_world \<Rightarrow> 'p fetch_world" where
  "applyFetchResult fe p snapshot etag notModified w =
     (let w1 = onRuntime (pf_runtime p) (\<lambda>rt. markReconciled rt (pf_domain p) (pf_scope p)) w in
      case (if notModified then None else snapshot) of
        None \<Rightarrow> applyNotModified (fe_now fe) p w1
      | Some snap \<Rightarrow>
          applySnapshot fe (pf_domain p) snap etag (fo_isManual (pf_options p)) (pf_scope p)
            (fo_allowDisabledRetainedScope (pf_options p)) w1)"

text \<open>The states after a denial, after a network error that is to be expected, and after any
  other error\<close>

definition deniedState :: "string \<Rightarrow> bool \<Rightarrow> 'p snap \<Rightarrow> 'p snap" where
  "deniedState message isManual previous = previous\<lparr>
     sn_status := DsError, sn_error := Some (Some message), sn_permissionDenied := Some True,
     sn_isManual := Some isManual\<rparr>"

definition suppressedState :: "bool \<Rightarrow> 'p snap \<Rightarrow> 'p snap" where
  "suppressedState isManual previous = previous\<lparr>
     sn_status := (if sn_data previous \<noteq> None then DsReady else sn_status previous),
     sn_error := Some None, sn_isManual := Some isManual\<rparr>"

definition failedState :: "string \<Rightarrow> bool \<Rightarrow> 'p snap \<Rightarrow> 'p snap" where
  "failedState message isManual previous = previous\<lparr>
     sn_status := DsError, sn_error := Some (Some message), sn_isManual := Some isManual\<rparr>"

definition handleFetchFailure ::
  "nat \<Rightarrow> nat \<Rightarrow> pending_fetch \<Rightarrow> string \<Rightarrow> bool \<Rightarrow> 'p fetch_world \<Rightarrow> 'p fetch_world" where
  "handleFetchFailure now i p message denied w =
     (let domain = pf_domain p; scope = pf_scope p; a = pf_runtime p;
          isManual = fo_isManual (pf_options p)
      in if \<not> fetchCanCommit i p w then w
         else if denied
         then notifyRefreshError now domain (Some scope) message
                (onStore (setScopedDomainState domain scope (\<lambda>previous. Some
                     (deniedState message isManual previous)))
                  (onRuntime a (\<lambda>rt. markReconciled (markPermissionDenied rt domain scope) domain scope) w))
         else
           let w1 = onRuntime a (\<lambda>rt. markReconciliationFailed rt domain scope now) w in
           if shouldSuppressNetworkError now message (fw_notifier w1)
           then onStore (setScopedDomainState domain scope (\<lambda>previous. Some (suppressedState isManual previous))) w1
           else notifyRefreshError now domain (Some scope) message
                  (onStore (setScopedDomainState domain scope (\<lambda>previous. Some
                     (failedState message isManual previous))) w1))"

text \<open>The options of the refetch that follows a latched signal\<close>

definition trailingOptions :: fetch_options where
  "trailingOptions = \<lparr>fo_isManual = False, fo_streamSignal = Some True, fo_coalesce = None,
     fo_queryReconcile = False, fo_allowDisabledRetainedScope = False, fo_signal = None\<rparr>"

definition finishFetch ::
  "('p, 'v) fetch_env \<Rightarrow> nat \<Rightarrow> pending_fetch \<Rightarrow> 'p fetch_world \<Rightarrow> 'p fetch_world" where
  "finishFetch fe i p w =
     (let (o2, tracked) = settleRequest i (fw_orch w);
          w1 = w\<lparr>fw_orch := o2\<rparr>;
          w2 = (case tracked of
                  Some (r, True) \<Rightarrow>
                    if pf_contextVersion p = so_contextVersion o2
                    then performFetch fe (pf_domain p) (pf_scope p) trailingOptions w1 else w1
                | _ \<Rightarrow> w1)
      in onStore (markPendingRequest (- 1)) w2)"

definition settleFetch ::
  "('p, 'v) fetch_env \<Rightarrow> nat \<Rightarrow> 'p fetch_outcome \<Rightarrow> 'p fetch_world \<Rightarrow> 'p fetch_world" where
  "settleFetch fe i outcome w =
     (case jm_get (so_fetches (fw_orch w)) i of
        None \<Rightarrow> w
      | Some p \<Rightarrow>
          finishFetch fe i p
            (case outcome of
               Fetched snapshot etag notModified \<Rightarrow>
                 if fetchCanCommit i p w then applyFetchResult fe p snapshot etag notModified w else w
             | FetchFailed message denied \<Rightarrow> handleFetchFailure (fe_now fe) i p message denied w))"

text \<open>The caller's signal aborts: the listeners \<open>forwardAbortSignal\<close> left abort their controllers.\<close>

definition abortSignal :: "nat \<Rightarrow> 'p fetch_world \<Rightarrow> 'p fetch_world" where
  "abortSignal s w =
     (if s \<in> set (fw_abortedSignals w) then w
      else let o1 = fw_orch w;
               listening = List.filter (\<lambda>(i, p). fo_signal (pf_options p) = Some s \<and>
                             OcEffect (CallCleanup i) \<notin> set (so_calls o1)) (so_fetches o1)
           in w\<lparr>fw_abortedSignals := s # fw_abortedSignals w,
                fw_orch := fold (\<lambda>e. call (OcEffect e)) (List.map (\<lambda>(i, p). AbortController i) listening) o1\<rparr>)"

section \<open>Fetching a scope\<close>

definition isStreamingHealthy :: "('p, 'v) fetch_env \<Rightarrow> string \<Rightarrow> string \<Rightarrow> bool" where
  "isStreamingHealthy fe domain scope =
     (if scope = [] then False
      else if fe_pollingContinues fe domain then False
      else if fe_doorbell fe domain then fe_streamHealthy fe domain scope
      else False)"

text \<open>What the streaming half sees of the store\<close>

definition streamEnv :: "('p, 'v) fetch_env \<Rightarrow> 'p fetch_world \<Rightarrow> stream_env" where
  "streamEnv fe w = (fe_stream fe)
     \<lparr>en_hasData := (\<lambda>domain scope. sn_data (getScopedDomainState (fw_store w) domain scope) \<noteq> None)\<rparr>"

definition reconcileQueryOnlyDemand ::
  "('p, 'v) fetch_env \<Rightarrow> string \<Rightarrow> string \<Rightarrow> scoped_fetch \<Rightarrow> nat \<Rightarrow> 'p fetch_world \<Rightarrow> 'p fetch_world \<times> bool"
  where
  "reconcileQueryOnlyDemand fe domain scope options a w =
     (let hasQueryOnlyDemand =
            (hasScopedDemand (runtimeAt w a) domain scope DemandQuery \<and>
             \<not> hasScopedDemand (runtimeAt w a) domain scope DemandSnapshot)
      in if \<not> sf_queryReconcile options \<or> \<not> hasQueryOnlyDemand then (w, False)
         else
           let expected = (en_streaming (fe_stream fe) domain \<and>
                 shouldStreamScope (fe_stream fe) domain scope (fw_orch w));
               w1 = (if expected then onOrch (startStreamingScope (streamEnv fe w) domain scope) w else w);
               healthy = (expected \<and> isStreamingHealthy fe domain scope)
           in if sf_isManual options \<noteq> Some True \<and> healthy then (w1, True)
              else (onStore (setScopedDomainState domain scope (\<lambda>previous. Some (previous\<lparr>
                      sn_queryReconcileVersion := Some ((case sn_queryReconcileVersion previous of
                        None \<Rightarrow> 0 | Some v \<Rightarrow> v) + 1),
                      sn_scope := Some scope\<rparr>))) w1, True))"

definition reconcileStreamingFetch ::
  "('p, 'v) fetch_env \<Rightarrow> string \<Rightarrow> string \<Rightarrow> scoped_fetch \<Rightarrow> nat \<Rightarrow> 'p fetch_world \<Rightarrow> 'p fetch_world \<times> bool"
  where
  "reconcileStreamingFetch fe domain scope options a w =
     (let env = streamEnv fe w in
      if \<not> en_streaming env domain then (w, False)
      else
        let shouldStream = shouldStreamScope env domain scope (fw_orch w);
            isManual = (sf_isManual options = Some True)
        in if shouldStream \<and> isManual \<and> sf_coalesce options \<noteq> Some True \<and> en_resourceStream env domain \<and>
              isStreamingActive (runtimeAt w a) domain scope
           then (onOrch (refreshStreamingDomainOnce env domain scope) w, True)
           else
             let w1 = (if shouldStream \<and> \<not> isManual then onOrch (startStreamingScope env domain scope) w else w);
                 decision = resolveStreamingFetchMode
                   \<lparr>di_domain = domain, di_scope = scope, di_shouldStream = shouldStream,
                    di_isManual = isManual,
                    di_streamSignal = (sf_streamSignal options = Some True \<or>
                      needsReconciliation (runtimeAt w1 a) domain scope),
                    di_streamingHealthy = isStreamingHealthy fe domain scope,
                    di_hasData = (sn_data (getScopedDomainState (fw_store w1) domain scope) \<noteq> None)\<rparr>
             in (w1, fd_mode decision = ModeSkip))"

definition scopedReadiness :: "string \<Rightarrow> string \<Rightarrow> scoped_fetch \<Rightarrow> readiness_request" where
  "scopedReadiness domain scope options =
     \<lparr>rr_coalesce = (if sf_coalesce options = Some True then Some True else None), rr_domain = domain,
      rr_scope = scope, rr_isManual = (sf_isManual options = Some True),
      rr_streamSignal = (sf_streamSignal options = Some True), rr_queryReconcile = sf_queryReconcile options\<rparr>"

text \<open>\<open>fetchScopedDomain\<close> until it awaits, and after\<close>

definition fetchScopedDomain ::
  "('p, 'v) fetch_env \<Rightarrow> string \<Rightarrow> string \<Rightarrow> scoped_fetch \<Rightarrow> 'p fetch_world \<Rightarrow> 'p fetch_world" where
  "fetchScopedDomain fe domain value options w =
     (if domain \<notin> set (en_domains (fe_stream fe)) then w
      else case normalizeDomainScope (fe_stream fe) domain value of
        None \<Rightarrow> w
      | Some scope \<Rightarrow>
          if scope = [] then w
          else if en_resourceStream (fe_stream fe) domain \<and>
                  pl_isMultiCluster (parseClusterScopeList (Some scope)) then w
          else if \<not> isScopeClusterServiceable (fe_stream fe) scope (fw_orch w)
          then onOrch (recordPendingClusterReadiness domain scope (scopedReadiness domain scope options)) w
          else case routeScope scope w of
            None \<Rightarrow> w
          | Some (w1, a) \<Rightarrow>
              let (w2, reconciled) = reconcileQueryOnlyDemand fe domain scope options a w1 in
              if reconciled then w2
              else let (w3, skip) = reconcileStreamingFetch fe domain scope options a w2 in
                   if skip then w3
                   else w3\<lparr>fw_nextResumption := fw_nextResumption w3 + 1,
                           fw_resumptions := jm_set (fw_nextResumption w3)
                             \<lparr>rs_runtime = a, rs_domain = domain, rs_scope = scope, rs_options = options\<rparr>
                             (fw_resumptions w3)\<rparr>)"

definition resumedOptions :: "scoped_fetch \<Rightarrow> fetch_options" where
  "resumedOptions options =
     \<lparr>fo_isManual = (sf_isManual options \<noteq> Some False), fo_streamSignal = Some (sf_streamSignal options = Some True),
      fo_coalesce = (if sf_coalesce options = Some True then Some True else None),
      fo_queryReconcile = False, fo_allowDisabledRetainedScope = False, fo_signal = sf_signal options\<rparr>"

definition resumeFetch ::
  "('p, 'v) fetch_env \<Rightarrow> nat \<Rightarrow> 'p fetch_world \<Rightarrow> 'p fetch_world" where
  "resumeFetch fe k w =
     (case jm_get (fw_resumptions w) k of
        None \<Rightarrow> w
      | Some rs \<Rightarrow>
          let w1 = w\<lparr>fw_resumptions := jm_delete k (fw_resumptions w)\<rparr> in
          if \<not> isRuntimeCurrent (rs_runtime rs) (fw_orch w1) then w1
          else performFetch fe (rs_domain rs) (rs_scope rs) (resumedOptions (rs_options rs)) w1)"

definition refreshEnabledScopes ::
  "('p, 'v) fetch_env \<Rightarrow> string \<Rightarrow> scoped_fetch \<Rightarrow> 'p fetch_world \<Rightarrow> 'p fetch_world" where
  "refreshEnabledScopes fe domain options w =
     fold (\<lambda>scope. fetchScopedDomain fe domain scope options)
       (concat (List.map (\<lambda>a. getEnabledScopes (runtimeAt w a) domain) (getAllRuntimes (fw_orch w)))) w"

definition fetchDomainForCluster ::
  "('p, 'v) fetch_env \<Rightarrow> string \<Rightarrow> string \<Rightarrow> string option \<Rightarrow> 'p fetch_world \<Rightarrow> 'p fetch_world" where
  "fetchDomainForCluster fe domain clusterId scope w =
     (if domain \<notin> set (en_domains (fe_stream fe)) then w
      else performFetch fe domain (buildClusterScope (Some clusterId) (Some (case scope of None \<Rightarrow> [] | Some s \<Rightarrow> s)))
             \<lparr>fo_isManual = False, fo_streamSignal = None, fo_coalesce = None, fo_queryReconcile = False,
              fo_allowDisabledRetainedScope = True, fo_signal = None\<rparr>
             (onOrch (\<lambda>o1. fst (getClusterRuntime clusterId o1)) w))"

definition resetScopedDomain ::
  "('p, 'v) fetch_env \<Rightarrow> string \<Rightarrow> string \<Rightarrow> 'p fetch_world \<Rightarrow> 'p fetch_world" where
  "resetScopedDomain fe domain value w =
     (case normalizeDomainScope (fe_stream fe) domain value of
        None \<Rightarrow> w
      | Some scope \<Rightarrow> if scope = [] then w else onStore (resetScopedDomainState domain scope) w)"

definition resetDomain :: "string \<Rightarrow> 'p fetch_world \<Rightarrow> 'p fetch_world" where
  "resetDomain domain = onStore (resetAllScopedDomainStates domain)"

section \<open>The calls of the streaming half\<close>

text \<open>The methods of the streaming half log their calls of the store and the notifier; here each
  takes effect. \<open>message\<close> is that of the error with which a start was rejected. Fetches they begin
  are steps of their own.\<close>

fun runCall :: "nat \<Rightarrow> string \<Rightarrow> orch_call \<Rightarrow> 'p fetch_world \<Rightarrow> 'p fetch_world" where
  "runCall now message (OcResetScoped domain scope) w = onStore (resetScopedDomainState domain scope) w"
| "runCall now message (OcScopedLoading domain scope) w =
     onStore (setScopedDomainState domain scope (\<lambda>previous. Some (previous\<lparr>
       sn_status := (if sn_data previous \<noteq> None then DsUpdating else DsInitialising),
       sn_error := Some None, sn_scope := Some scope\<rparr>))) w"
| "runCall now message (OcScopedError domain scope) w =
     notifyRefreshError now domain (if js_trim scope = [] then None else Some (js_trim scope)) message
       (onStore (setScopedDomainState domain scope (\<lambda>previous. Some (previous\<lparr>
          sn_status := DsError, sn_error := Some (Some message), sn_scope := Some scope\<rparr>))) w)"
| "runCall now message (OcResetRemoved connected) w = onStore (resetScopedStatesForRemovedClusters connected) w"
| "runCall now message (OcPermissionReset domain scope) w =
     onStore (setScopedDomainState domain scope (\<lambda>previous. Some (previous\<lparr>sn_permissionDenied := Some False\<rparr>))) w"
| "runCall now message (OcResetDenied clusterId) w = onStore (resetPermissionDeniedScopedDomainStates clusterId) w"
| "runCall now message (OcResetDomain domain) w = resetDomain domain w"
| "runCall now message (OcStreamAcknowledged domain scope) w =
     onStore (setScopedDomainState domain scope (\<lambda>state. Some (state\<lparr>
       sn_streamAcknowledgedVersion := Some ((case sn_streamAcknowledgedVersion state of
         None \<Rightarrow> 0 | Some v \<Rightarrow> v) + 1)\<rparr>))) w"
| "runCall now message (OcClearError domain scope) w = clearRefreshError domain (Some scope) w"
| "runCall now message (OcSuppressErrors ms) w = onNotifier (suppressNetworkErrors now ms) w"
| "runCall now message _ w = w"

text \<open>A method of the streaming half, with the effects of its calls\<close>

definition runStreaming :: "nat \<Rightarrow> string \<Rightarrow> (orch \<Rightarrow> orch) \<Rightarrow> 'p fetch_world \<Rightarrow> 'p fetch_world" where
  "runStreaming now message f w =
     (let o2 = f (fw_orch w)
      in fold (runCall now message) (drop (length (so_calls (fw_orch w))) (so_calls o2)) (w\<lparr>fw_orch := o2\<rparr>))"

definition initialWorld :: "'p fetch_world" where
  "initialWorld = \<lparr>fw_orch = initialOrch, fw_store = EMPTY_REFRESH_STATE, fw_notifier = initialNotifier,
     fw_resumptions = [], fw_nextResumption = 0, fw_abortedSignals = [], fw_handledErrors = []\<rparr>"

end
