(* ===== verification/SnapshotStoreInv.thy ===== *)
theory SnapshotStoreInv
  imports SnapshotStore RefreshRuntimeInv
begin

text \<open>
  The snapshot store implements a function from domains and scopes to states, through two cached
  views that always agree. Reusing rows changes the identity of rows, never their contents.
\<close>

section \<open>The two views agree\<close>

definition store_ok :: "'v refresh_store \<Rightarrow> bool" where
  "store_ok st \<longleftrightarrow> jm_ok (scopedDomains st) \<and> scopedDomainEntries st = scopedDomains st \<and>
     list_all (\<lambda>(d, m). m \<noteq> [] \<and> jm_ok m) (scopedDomains st) \<and> 0 \<le> pendingRequests st"

lemma store_map_ok: "store_ok st \<Longrightarrow> jm_get (scopedDomains st) d = Some m \<Longrightarrow> m \<noteq> [] \<and> jm_ok m"
  by (drule jm_get_in) (auto simp: store_ok_def list_all_iff)

lemma publish_ok:
  "store_ok st \<Longrightarrow> jm_ok m \<Longrightarrow> store_ok (publishScopedDomainStates d m st)"
  by (auto simp: publishScopedDomainStates_def Let_def store_ok_def)

lemma publish_get:
  "getScopedDomainState (publishScopedDomainStates d m st) d' s =
     (if d' = d then (case jm_get m s of Some v \<Rightarrow> v | None \<Rightarrow> EMPTY_SCOPED_STATE)
      else getScopedDomainState st d' s)"
  by (simp add: publishScopedDomainStates_def getScopedDomainState_def)

lemma set_ok: "store_ok st \<Longrightarrow> store_ok (setScopedDomainState d s f st)"
  using store_map_ok [of st d]
  by (auto simp: setScopedDomainState_def Let_def intro!: publish_ok split: option.split)

lemma set_get:
  "getScopedDomainState (setScopedDomainState d s f st) d' s' =
     (if d' = d \<and> s' = s then (case f (getScopedDomainState st d s) of
          None \<Rightarrow> getScopedDomainState st d s | Some v \<Rightarrow> v)
      else getScopedDomainState st d' s')"
  by (auto simp: setScopedDomainState_def publish_get Let_def split: option.split)
    (auto simp: getScopedDomainState_def)

lemma reset_ok: "store_ok st \<Longrightarrow> store_ok (resetScopedDomainState d s st)"
  using store_map_ok [of st d]
  by (auto simp: resetScopedDomainState_def intro!: publish_ok split: option.split)

lemma reset_get:
  "getScopedDomainState (resetScopedDomainState d s st) d' s' =
     (if d' = d \<and> s' = s then EMPTY_SCOPED_STATE else getScopedDomainState st d' s')"
  by (auto simp: resetScopedDomainState_def publish_get split: option.split)
    (auto simp: getScopedDomainState_def)

lemma reset_each_ok: "store_ok st \<Longrightarrow> store_ok (resetEach xs st)"
  unfolding resetEach_def by (induction xs arbitrary: st) (auto simp: reset_ok)

lemma reset_each_get:
  "getScopedDomainState (resetEach xs st) d s =
     (if (d, s) \<in> set xs then EMPTY_SCOPED_STATE else getScopedDomainState st d s)"
  unfolding resetEach_def
proof (induction xs arbitrary: st)
  case (Cons x xs)
  obtain a b where "x = (a, b)" by fastforce
  with Cons.IH [of "resetScopedDomainState a b st"] show ?case by (auto simp: reset_get split: if_splits)
qed simp

text \<open>A sweep finds exactly the stored scopes that satisfy the predicate.\<close>

lemma swept_iff:
  assumes "store_ok st"
  shows "(d, s) \<in> set (swept P (scopedDomains st)) \<longleftrightarrow>
    (\<exists>m v. jm_get (scopedDomains st) d = Some m \<and> jm_get m s = Some v \<and> P d s v)"
proof -
  have "(d, s) \<in> set (swept P (scopedDomains st)) \<longleftrightarrow>
      (\<exists>m v. (d, m) \<in> set (scopedDomains st) \<and> (s, v) \<in> set m \<and> P d s v)"
    by (force simp: swept_def)
  also have "\<dots> \<longleftrightarrow> (\<exists>m v. jm_get (scopedDomains st) d = Some m \<and> jm_get m s = Some v \<and> P d s v)"
    using assms by (auto simp: store_ok_def list_all_iff) (fastforce dest: jm_get_in)+
  finally show ?thesis .
qed

section \<open>Refinement of a function\<close>

datatype 'v store_op =
    StoreSet string string "'v snap \<Rightarrow> 'v snap option"
  | StoreReset string string
  | StoreResetAll string
  | StoreResetDenied string
  | StoreSweepRemoved "string list"
  | StorePending int

fun store_step :: "'v refresh_store \<Rightarrow> 'v store_op \<Rightarrow> 'v refresh_store" where
  "store_step st (StoreSet d s f) = setScopedDomainState d s f st"
| "store_step st (StoreReset d s) = resetScopedDomainState d s st"
| "store_step st (StoreResetAll d) = resetAllScopedDomainStates d st"
| "store_step st (StoreResetDenied c) = resetPermissionDeniedScopedDomainStates c st"
| "store_step st (StoreSweepRemoved connected) = resetScopedStatesForRemovedClusters connected st"
| "store_step st (StorePending delta) = markPendingRequest delta st"

text \<open>The specification: what each operation does to the function\<close>

type_synonym 'v snapshots = "string \<Rightarrow> string \<Rightarrow> 'v snap"

definition orphaned :: "string list \<Rightarrow> string \<Rightarrow> bool" where
  "orphaned connected scope \<longleftrightarrow> pl_clusterIds (parseClusterScopeList (Some scope)) \<noteq> [] \<and>
     set (pl_clusterIds (parseClusterScopeList (Some scope))) \<inter> set connected = {}"

fun spec_step :: "'v snapshots \<Rightarrow> 'v store_op \<Rightarrow> 'v snapshots" where
  "spec_step f (StoreSet d s u) =
     f(d := (f d)(s := case u (f d s) of None \<Rightarrow> f d s | Some v \<Rightarrow> v))"
| "spec_step f (StoreReset d s) = f(d := (f d)(s := EMPTY_SCOPED_STATE))"
| "spec_step f (StoreResetAll d) = f(d := (\<lambda>s. EMPTY_SCOPED_STATE))"
| "spec_step f (StoreResetDenied c) =
     (\<lambda>d s. if js_trim c \<noteq> [] \<and> sn_permissionDenied (f d s) = Some True \<and>
              ps_clusterId (parseClusterScope (Some s)) = c then EMPTY_SCOPED_STATE else f d s)"
| "spec_step f (StoreSweepRemoved connected) =
     (\<lambda>d s. if orphaned connected s then EMPTY_SCOPED_STATE else f d s)"
| "spec_step f (StorePending delta) = f"

lemma store_step_ok: "store_ok st \<Longrightarrow> store_ok (store_step st op)"
proof (cases op)
  case (StoreResetAll d)
  then show "store_ok st \<Longrightarrow> store_ok (store_step st op)"
    by (auto simp: resetAllScopedDomainStates_def intro!: publish_ok)
next
  case (StorePending delta)
  then show "store_ok st \<Longrightarrow> store_ok (store_step st op)"
    by (simp add: markPendingRequest_def store_ok_def)
qed (auto simp: set_ok reset_ok resetPermissionDeniedScopedDomainStates_def
    resetScopedStatesForRemovedClusters_def reset_each_ok)

lemma store_step_get:
  assumes "store_ok st"
  shows "getScopedDomainState (store_step st op) = spec_step (getScopedDomainState st) op"
proof (intro ext)
  fix d s
  have eq: "scopedDomainEntries st = scopedDomains st" using assms by (simp add: store_ok_def)
  have P: "list_all (\<lambda>c. c \<notin> set cs) xs \<longleftrightarrow> set xs \<inter> set cs = {}" for xs cs :: "string list"
    by (auto simp: list_all_iff)
  show "getScopedDomainState (store_step st op) d s = spec_step (getScopedDomainState st) op d s"
  proof (cases op)
    case (StoreResetAll d')
    then show ?thesis
      by (auto simp: resetAllScopedDomainStates_def publish_get) (simp add: getScopedDomainState_def)
  next
    case (StoreResetDenied c)
    then show ?thesis
      by (auto simp: resetPermissionDeniedScopedDomainStates_def reset_each_get swept_iff [OF assms])
        (auto simp: getScopedDomainState_def EMPTY_SCOPED_STATE_def split: option.splits)
  next
    case (StoreSweepRemoved connected)
    then show ?thesis
      by (auto simp: resetScopedStatesForRemovedClusters_def eq reset_each_get swept_iff [OF assms] Let_def
          orphaned_def P) (auto simp: getScopedDomainState_def split: option.splits)
  next
    case (StorePending delta)
    then show ?thesis by (simp add: markPendingRequest_def getScopedDomainState_def)
  qed (simp_all add: set_get reset_get)
qed

interpretation snapshot_store: event_machine store_step store_ok
  by unfold_locales (rule store_step_ok)

lemma initial_store_ok: "store_ok EMPTY_REFRESH_STATE"
  by (simp add: store_ok_def EMPTY_REFRESH_STATE_def)

lemma store_run_get:
  "store_ok st \<Longrightarrow>
   getScopedDomainState (foldl store_step st ops) = foldl spec_step (getScopedDomainState st) ops"
  by (induction ops arbitrary: st) (simp_all add: store_step_get store_step_ok)

text \<open>
  C6. The snapshot store implements a total function from domains and scopes to states. Whatever
  sequence of writes, resets and sweeps is applied to the empty store, reading it gives what the same
  operations make of the function that is empty everywhere; in particular a sweep for removed
  clusters or denied permissions resets exactly the scopes it is meant for, and every other scope
  keeps its state. The view by entries shows exactly the scopes of the view by key.
\<close>

theorem store_refines_function:
  "getScopedDomainState (foldl store_step EMPTY_REFRESH_STATE ops) =
     foldl spec_step (\<lambda>d s. EMPTY_SCOPED_STATE) ops \<and>
   getScopedDomainEntries (foldl store_step EMPTY_REFRESH_STATE ops) d =
     getScopedDomainStates (foldl store_step EMPTY_REFRESH_STATE ops) d"
proof
  have "getScopedDomainState (EMPTY_REFRESH_STATE :: 'a refresh_store) = (\<lambda>d s. EMPTY_SCOPED_STATE)"
    by (simp add: getScopedDomainState_def EMPTY_REFRESH_STATE_def fun_eq_iff)
  with store_run_get [OF initial_store_ok, of ops]
  show "getScopedDomainState (foldl store_step EMPTY_REFRESH_STATE ops) =
      foldl spec_step (\<lambda>d s. EMPTY_SCOPED_STATE) ops" by simp
  have "store_ok (foldl store_step EMPTY_REFRESH_STATE ops)"
    by (rule snapshot_store.run_inv [OF initial_store_ok])
  then show "getScopedDomainEntries (foldl store_step EMPTY_REFRESH_STATE ops) d =
      getScopedDomainStates (foldl store_step EMPTY_REFRESH_STATE ops) d"
    by (simp add: getScopedDomainEntries_def getScopedDomainStates_def store_ok_def)
qed

section \<open>Reused rows\<close>

text \<open>Objects with the same identity are the same object.\<close>

definition objects_ok :: "'v row list \<Rightarrow> bool" where
  "objects_ok rs \<longleftrightarrow> (\<forall>a\<in>set rs. jm_ok (row_fields a) \<and>
     (\<forall>b\<in>set rs. row_object a = row_object b \<longrightarrow> a = b))"

lemma shallow_equal_fields:
  assumes "objects_ok rs" "a \<in> set rs" "b \<in> set rs" "shallowEqualRecord a b"
  shows "jm_get (row_fields a) = jm_get (row_fields b)"
proof (cases "row_object a = row_object b")
  case True
  with assms show ?thesis by (auto simp: objects_ok_def)
next
  case False
  let ?a = "row_fields a" and ?b = "row_fields b"
  have ok: "jm_ok ?a" "jm_ok ?b" using assms(1-3) by (auto simp: objects_ok_def)
  have len: "length ?a = length ?b" and eq: "\<And>k. k \<in> set (jm_keys ?a) \<Longrightarrow> jm_get ?a k = jm_get ?b k"
    using assms(4) False by (auto simp: shallowEqualRecord_def list_all_iff split: if_splits)
  have "set (jm_keys ?a) \<subseteq> set (jm_keys ?b)"
  proof
    fix k
    assume k: "k \<in> set (jm_keys ?a)"
    then show "k \<in> set (jm_keys ?b)" using eq [OF k] unfolding jm_keys_get by simp
  qed
  moreover have "card (set (jm_keys ?a)) = card (set (jm_keys ?b))"
    using distinct_card [of "jm_keys ?a"] distinct_card [of "jm_keys ?b"] ok len by simp
  ultimately have keys: "set (jm_keys ?a) = set (jm_keys ?b)" by (simp add: card_subset_eq)
  show ?thesis
  proof
    fix k
    show "jm_get ?a k = jm_get ?b k"
    proof (cases "k \<in> set (jm_keys ?a)")
      case False
      then have "jm_get ?a k = None" "jm_get ?b k = None" using keys by (simp_all add: map_of_eq_None_iff)
      then show ?thesis by simp
    qed (rule eq)
  qed
qed

lemma previous_by_key:
  "jm_get (fold (\<lambda>item m. if key item \<noteq> [] then jm_set (key item) item m else m) previous m0) k = Some c \<Longrightarrow>
   jm_get m0 k = Some c \<or> (c \<in> set previous \<and> key c = k)"
proof (induction previous arbitrary: m0)
  case (Cons x xs)
  from Cons.IH [OF Cons.prems [unfolded fold.simps comp_def]] show ?case by (auto split: if_splits)
qed simp

text \<open>
  Reusing rows is invisible in the data. When a polled list is merged with the rows shown
  before, the result has the same length, every row has exactly the fields of the incoming row in its
  place, and it is either that row or a row that was shown before under the same key; when nothing
  can be reused the incoming list itself is kept.
\<close>

theorem merge_keeps_contents:
  assumes "objects_ok (previous @ incoming)"
  shows "case mergeListByKey incoming previous key of
      None \<Rightarrow> True
    | Some merged \<Rightarrow> list_all2 (\<lambda>m i. jm_get (row_fields m) = jm_get (row_fields i) \<and>
        (m = i \<or> m \<in> set previous \<and> key m = key i)) merged incoming"
proof -
  define byKey where
    "byKey = fold (\<lambda>item m. if key item \<noteq> [] then jm_set (key item) item m else m) previous []"
  let ?reuse = "\<lambda>item. if key item = [] then None
    else case jm_get byKey (key item) of
      Some cached \<Rightarrow> if shallowEqualRecord cached item then Some cached else None | None \<Rightarrow> None"
  have reuse: "jm_get (row_fields c) = jm_get (row_fields i) \<and> c \<in> set previous \<and> key c = key i"
    if "i \<in> set incoming" "?reuse i = Some c" for i c
  proof -
    from that(2) have c: "jm_get byKey (key i) = Some c" "shallowEqualRecord c i"
      by (auto split: if_splits option.splits)
    have "c \<in> set previous \<and> key c = key i"
      using previous_by_key [OF c(1) [unfolded byKey_def]] by simp
    moreover from this have "jm_get (row_fields c) = jm_get (row_fields i)"
      using shallow_equal_fields [OF assms _ _ c(2)] that(1) by simp
    ultimately show ?thesis by simp
  qed
  have "list_all2 (\<lambda>m i. jm_get (row_fields m) = jm_get (row_fields i) \<and>
      (m = i \<or> m \<in> set previous \<and> key m = key i))
    (List.map (\<lambda>i. case ?reuse i of Some c \<Rightarrow> c | None \<Rightarrow> i) incoming) incoming"
    unfolding list_all2_map1
  proof (rule list_all2_same [THEN iffD2], rule ballI)
    fix i
    assume i: "i \<in> set incoming"
    show "jm_get (row_fields (case ?reuse i of Some c \<Rightarrow> c | None \<Rightarrow> i)) = jm_get (row_fields i) \<and>
      ((case ?reuse i of Some c \<Rightarrow> c | None \<Rightarrow> i) = i \<or>
       (case ?reuse i of Some c \<Rightarrow> c | None \<Rightarrow> i) \<in> set previous \<and>
       key (case ?reuse i of Some c \<Rightarrow> c | None \<Rightarrow> i) = key i)"
    proof (cases "?reuse i")
      case (Some c)
      show ?thesis using reuse [OF i Some] unfolding Some option.case by blast
    qed (simp only: option.case simp_thms)
  qed
  then show ?thesis by (simp add: mergeListByKey_def byKey_def [symmetric] Let_def)
qed

end
