(* ===== verification/FetchLifecycleInv.thy ===== *)
theory FetchLifecycleInv
  imports StreamLifecycleRuns FetchLifecycle SnapshotStoreInv
begin

text \<open>
  Runs of the whole orchestrator: fetches, streams and the published store together. Every
  request in flight has its fetch pending, no scope has two fetches that may still commit, the
  published number of requests is exact, and an answer that lost its request changes nothing.
\<close>

section \<open>Steps that begin and end no fetch\<close>

lemma jm_set_length: "jm_get m k = None \<Longrightarrow> length (jm_set k v m) = Suc (length m)"
  by (induction m) auto

lemma jm_delete_length:
  "jm_ok m \<Longrightarrow> jm_get m k = Some v \<Longrightarrow> length m = Suc (length (jm_delete k m))"
proof (induction m)
  case (Cons x m)
  show ?case
  proof (cases "fst x = k")
    case True
    with Cons.prems(1) show ?thesis by (cases x) (simp add: delete_idem)
  qed (use Cons in \<open>cases x; auto\<close>)
qed simp

lemma store_keeps_pending [simp]:
  "pendingRequests (publishScopedDomainStates d m st) = pendingRequests st"
  "pendingRequests (setScopedDomainState d s f st) = pendingRequests st"
  "pendingRequests (resetScopedDomainState d s st) = pendingRequests st"
  "pendingRequests (resetAllScopedDomainStates d st) = pendingRequests st"
  "pendingRequests (resetEach xs st) = pendingRequests st"
  "pendingRequests (resetPermissionDeniedScopedDomainStates c st) = pendingRequests st"
  "pendingRequests (resetScopedStatesForRemovedClusters cs st) = pendingRequests st"
proof -
  show p: "pendingRequests (publishScopedDomainStates d m st) = pendingRequests st" for d m st
    by (simp add: publishScopedDomainStates_def Let_def)
  show "pendingRequests (setScopedDomainState d s f st) = pendingRequests st"
    by (simp add: setScopedDomainState_def Let_def p split: option.split)
  show r: "pendingRequests (resetScopedDomainState d s st) = pendingRequests st" for d s st
    by (simp add: resetScopedDomainState_def p split: option.split)
  show "pendingRequests (resetAllScopedDomainStates d st) = pendingRequests st"
    by (simp add: resetAllScopedDomainStates_def p)
  show e: "pendingRequests (resetEach xs st) = pendingRequests st" for xs st
    unfolding resetEach_def by (induction xs arbitrary: st) (auto simp: r)
  show "pendingRequests (resetPermissionDeniedScopedDomainStates c st) = pendingRequests st"
    "pendingRequests (resetScopedStatesForRemovedClusters cs st) = pendingRequests st"
    by (simp_all add: resetPermissionDeniedScopedDomainStates_def resetScopedStatesForRemovedClusters_def e)
qed

lemma store_ops_ok:
  "store_ok st \<Longrightarrow> store_ok (resetAllScopedDomainStates d st)"
  "store_ok st \<Longrightarrow> store_ok (resetPermissionDeniedScopedDomainStates c st)"
  "store_ok st \<Longrightarrow> store_ok (resetScopedStatesForRemovedClusters cs st)"
  using store_step_ok [of st "StoreResetAll d"] store_step_ok [of st "StoreResetDenied c"]
    store_step_ok [of st "StoreSweepRemoved cs"] by simp_all

lemma on_simps [simp]:
  "fw_orch (onOrch f w) = f (fw_orch w)" "fw_store (onOrch f w) = fw_store w"
  "fw_orch (onStore g w) = fw_orch w" "fw_store (onStore g w) = g (fw_store w)"
  "fw_orch (onNotifier h w) = fw_orch w" "fw_store (onNotifier h w) = fw_store w"
  "fw_resumptions (onOrch f w) = fw_resumptions w" "fw_resumptions (onStore g w) = fw_resumptions w"
  "fw_resumptions (onNotifier h w) = fw_resumptions w"
  "fw_notifier (onOrch f w) = fw_notifier w" "fw_notifier (onStore g w) = fw_notifier w"
  "fw_notifier (onNotifier h w) = h (fw_notifier w)"
  "fw_abortedSignals (onOrch f w) = fw_abortedSignals w" "fw_abortedSignals (onStore g w) = fw_abortedSignals w"
  "fw_handledErrors (onOrch f w) = fw_handledErrors w" "fw_handledErrors (onStore g w) = fw_handledErrors w"
  "fw_orch (onRuntime a k w) = setRuntime a (k (so_heap (fw_orch w) a)) (fw_orch w)"
  "fw_store (onRuntime a k w) = fw_store w" "fw_resumptions (onRuntime a k w) = fw_resumptions w"
  "fw_notifier (onRuntime a k w) = fw_notifier w" "fw_abortedSignals (onRuntime a k w) = fw_abortedSignals w"
  "fw_handledErrors (onRuntime a k w) = fw_handledErrors w"
  by (simp_all add: onOrch_def onStore_def onNotifier_def onRuntime_def)

definition resumptions_ok :: "'p fetch_world \<Rightarrow> bool" where
  "resumptions_ok w \<longleftrightarrow> (\<forall>k rs. jm_get (fw_resumptions w) k = Some rs \<longrightarrow> sok (rs_domain rs) (rs_scope rs))"

text \<open>\<open>n\<close> requests have left their slot and are not yet taken off the published number.\<close>

definition world_inv :: "stream_env \<Rightarrow> nat set \<Rightarrow> nat \<Rightarrow> 'p fetch_world \<Rightarrow> bool" where
  "world_inv env D n w \<longleftrightarrow> orch_inv env None D (fw_orch w) \<and> store_ok (fw_store w) \<and>
     pendingRequests (fw_store w) = int (length (so_fetches (fw_orch w)) + n) \<and> resumptions_ok w \<and>
     (\<forall>(d, s)\<in>errors (fw_orch w). sok d s)"

definition smooth :: "stream_env \<Rightarrow> nat set \<Rightarrow> nat \<Rightarrow> 'p fetch_world \<Rightarrow> 'p fetch_world \<Rightarrow> bool" where
  "smooth env D n w w' \<longleftrightarrow> (world_inv env D n w \<longrightarrow> world_inv env D n w' \<and> steady (fw_orch w) (fw_orch w'))"

lemma smooth_refl [simp]: "smooth env D n w w"
  by (simp add: smooth_def)

lemma smooth_trans: "smooth env D n w1 w2 \<Longrightarrow> smooth env D n w2 w3 \<Longrightarrow> smooth env D n w1 w3"
  by (auto simp: smooth_def intro: steady_trans)

lemma smoothD: "smooth env D n w w' \<Longrightarrow> world_inv env D n w \<Longrightarrow> world_inv env D n w'"
  by (simp add: smooth_def)

lemma smooth_invI: "(world_inv env D n w1 \<Longrightarrow> smooth env D n w1 w2) \<Longrightarrow> smooth env D n w1 w2"
  by (auto simp: smooth_def)

lemma smooth_fold:
  "(\<And>x w. x \<in> set xs \<Longrightarrow> smooth env D n w (f x w)) \<Longrightarrow> smooth env D n w1 (fold f xs w1)"
  by (induction xs arbitrary: w1) (auto intro: smooth_trans)

lemma quiet_env: "en_streaming env = en_streaming env' \<Longrightarrow> quiet env E D o1 o2 = quiet env' E D o1 o2"
  unfolding quiet_def using inv_env [of env env' E D] by simp

named_theorems smooth_rules \<open>steps that keep the invariant and begin and end no fetch\<close>

lemma steady_errors: "steady o1 o2 \<Longrightarrow> \<forall>(d, s)\<in>errors o1. sok d s \<Longrightarrow> \<forall>(d, s)\<in>errors o2. sok d s"
  by (auto simp: steady_def)

lemma smooth_world:
  assumes "quiet env None D (fw_orch w1) (fw_orch w2)"
    and "store_ok (fw_store w1) \<Longrightarrow> store_ok (fw_store w2)"
    and "pendingRequests (fw_store w2) = pendingRequests (fw_store w1)"
    and "resumptions_ok w1 \<Longrightarrow> resumptions_ok w2"
  shows "smooth env D n w1 w2"
  unfolding smooth_def
proof
  assume w: "world_inv env D n w1"
  then have I: "orch_inv env None D (fw_orch w1)" by (simp add: world_inv_def)
  have st: "steady (fw_orch w1) (fw_orch w2)" by (rule quiet_steady [OF assms(1) I])
  then have "so_fetches (fw_orch w2) = so_fetches (fw_orch w1)" by (simp add: steady_def)
  moreover have "orch_inv env None D (fw_orch w2)" by (rule quiet_inv [OF assms(1) I])
  ultimately show "world_inv env D n w2 \<and> steady (fw_orch w1) (fw_orch w2)"
    using w st steady_errors [OF st] assms(2,4) unfolding world_inv_def assms(3) by simp
qed

lemma smooth_orch [smooth_rules]:
  "quiet env None D (fw_orch w) (f (fw_orch w)) \<Longrightarrow> smooth env D n w (onOrch f w)"
  by (rule smooth_world) (auto simp: resumptions_ok_def)

lemma smooth_set_orch: "quiet env None D (fw_orch w) o2 \<Longrightarrow> smooth env D n w (w\<lparr>fw_orch := o2\<rparr>)"
  by (rule smooth_world) (auto simp: resumptions_ok_def)

lemma smooth_runtime [smooth_rules]:
  "tame_runtime (so_heap (fw_orch w) a) (f (so_heap (fw_orch w) a)) \<Longrightarrow> smooth env D n w (onRuntime a f w)"
  unfolding onRuntime_def by (rule smooth_orch) (rule quiet_set)

lemma smooth_store [smooth_rules]:
  "(store_ok (fw_store w) \<Longrightarrow> store_ok (f (fw_store w))) \<Longrightarrow>
   pendingRequests (f (fw_store w)) = pendingRequests (fw_store w) \<Longrightarrow> smooth env D n w (onStore f w)"
  by (rule smooth_world) (auto simp: resumptions_ok_def)

lemma smooth_notifier [smooth_rules]: "smooth env D n w (onNotifier f w)"
  by (rule smooth_world) (auto simp: resumptions_ok_def)

lemma smooth_set [smooth_rules]: "smooth env D n w (onStore (setScopedDomainState d s f) w)"
  by (rule smooth_store) (simp_all add: set_ok)

lemma smooth_reset [smooth_rules]: "smooth env D n w (onStore (resetScopedDomainState d s) w)"
  by (rule smooth_store) (simp_all add: reset_ok)

lemma smooth_clear [smooth_rules]: "smooth env D n w (clearRefreshError d s w)"
  unfolding clearRefreshError_def by (rule smooth_notifier)

lemma route_smooth:
  assumes w: "world_inv env D n w" and r: "routeScope s w = Some (w2, a)"
  shows "smooth env D n w w2" "world_inv env D n w2" "belongs (fw_orch w2) s a" "isRuntimeCurrent a (fw_orch w2)"
    "fw_store w2 = fw_store w" "fw_notifier w2 = fw_notifier w" "fw_handledErrors w2 = fw_handledErrors w"
proof -
  obtain o2 where o: "getRuntimeForScope s (fw_orch w) = Some (o2, a)" "w2 = w\<lparr>fw_orch := o2\<rparr>"
    using r by (auto simp: routeScope_def)
  have I: "orch_inv env None D (fw_orch w)" using w by (simp add: world_inv_def)
  note ri = route_inv [OF I o(1)]
  show sm: "smooth env D n w w2" unfolding o(2) by (rule smooth_set_orch [OF ri(1)])
  with w show "world_inv env D n w2" by (simp add: smooth_def)
  show "belongs (fw_orch w2) s a" "isRuntimeCurrent a (fw_orch w2)" using ri(3,4) o(2) by simp_all
  show "fw_store w2 = fw_store w" "fw_notifier w2 = fw_notifier w" "fw_handledErrors w2 = fw_handledErrors w"
    using o(2) by simp_all
qed

lemma smooth_notify [smooth_rules]:
  assumes "\<And>x. s = Some x \<Longrightarrow> sok d x"
  shows "smooth env D n w (notifyRefreshError now d s message w)"
proof (cases "js_includes message ''no active clusters available''")
  case True
  then show ?thesis
    using assms by (auto simp: notifyRefreshError_def split: option.split
        intro!: smooth_orch quiet_recordPending)
next
  case False
  obtain k h where k: "notifyError now d s message (fw_notifier w) = (k, h)" by fastforce
  have "smooth env D n w (w\<lparr>fw_notifier := k, fw_handledErrors := e\<rparr>)" for e
    by (rule smooth_world) (auto simp: resumptions_ok_def)
  with False show ?thesis by (simp add: notifyRefreshError_def k)
qed


section \<open>The operations\<close>

text \<open>The environment of the fetches and that of the invariant register the same streams.\<close>

definition fetch_setting :: "('p, 'v) fetch_env \<Rightarrow> stream_env \<Rightarrow> bool" where
  "fetch_setting fe env \<longleftrightarrow> en_streaming (fe_stream fe) = en_streaming env \<and> normalizes (fe_stream fe)"

lemma smooth_canFetch:
  assumes "sok d s"
  shows "smooth env D n w (fst (canFetchScope fe d s options w))"
proof (rule smooth_invI)
  assume w: "world_inv env D n w"
  define r where "r = (if fo_isManual options then (w, True)
     else case routeScope s w of None \<Rightarrow> (w, False)
     | Some (w', a) \<Rightarrow> (w', canRetryReconciliation (runtimeAt w' a) d s (fe_now fe)))"
  obtain w1 retry where r1: "r = (w1, retry)" by fastforce
  have s1: "smooth env D n w w1"
    using r1 route_smooth(1) [OF w] by (auto simp: r_def split: if_splits option.splits prod.splits)
  then have i1: "world_inv env D n w1" using w by (simp add: smooth_def)
  have rec: "smooth env D n w1 (onOrch (recordPendingClusterReadiness d s req) w1)" for req
    by (rule smooth_orch) (rule quiet_recordPending [OF assms])
  have enabled: "smooth env D n w1 (fst (case routeScope s w1 of None \<Rightarrow> (w1, False)
      | Some (w2, a) \<Rightarrow> if isScopedDomainEnabled (runtimeAt w2 a) d s then (w2, True)
          else (onStore (resetScopedDomainState d s) w2, False)))"
    using route_smooth(1) [OF i1] smooth_trans [OF route_smooth(1) [OF i1] smooth_reset] by (auto split: option.split)
  have "fst (canFetchScope fe d s options w) =
      (if \<not> retry \<or> signalAborted options w1 then w1
       else if \<not> isScopeClusterServiceable (fe_stream fe) s (fw_orch w1)
       then (if fo_allowDisabledRetainedScope options then w1
             else onOrch (recordPendingClusterReadiness d s (readinessRequest d s options)) w1)
       else if fo_allowDisabledRetainedScope options then w1
       else fst (case routeScope s w1 of None \<Rightarrow> (w1, False)
         | Some (w2, a) \<Rightarrow> if isScopedDomainEnabled (runtimeAt w2 a) d s then (w2, True)
             else (onStore (resetScopedDomainState d s) w2, False)))"
    unfolding canFetchScope_def r_def [symmetric] r1 by simp
  then show "smooth env D n w (fst (canFetchScope fe d s options w))"
    using s1 smooth_trans [OF s1 rec] smooth_trans [OF s1 enabled] by presburger
qed

lemma teardown_place:
  assumes "sound (so_heap o1 a)"
  shows "belongs (teardownRequest a key i o1) = belongs o1"
    and "isRuntimeCurrent x (teardownRequest a key i o1) = isRuntimeCurrent x o1"
proof -
  have "cr_clusterId (so_heap (teardownRequest a key i o1) x) = cr_clusterId (so_heap o1 x) \<and>
    so_clusterRuntimes (teardownRequest a key i o1) = so_clusterRuntimes o1 \<and>
    so_nextRuntime (teardownRequest a key i o1) = so_nextRuntime o1" for x
    using teardown_cases [OF assms, of key i] by auto
  then show "belongs (teardownRequest a key i o1) = belongs o1"
    "isRuntimeCurrent x (teardownRequest a key i o1) = isRuntimeCurrent x o1"
    by (auto simp: belongs_def isRuntimeCurrent_def fun_eq_iff split: option.split)
qed

lemma claim_slot:
  assumes w: "world_inv env D n w" and ok: "sok d s" and b: "belongs (fw_orch w) s a" "isRuntimeCurrent a (fw_orch w)"
    and c: "claimFetchSlot d s options a w = (w', claimed)"
  shows "smooth env D n w w'" "fw_store w' = fw_store w"
    and "claimed \<Longrightarrow> belongs (fw_orch w') s a \<and> isRuntimeCurrent a (fw_orch w') \<and>
      fetch_of (runtimeAt w' a) d (Some s) = None"
proof -
  have I: "orch_inv env None D (fw_orch w)" and sn: "sound (runtimeAt w a)"
    using w by (simp_all add: world_inv_def orch_inv_def)
  have "smooth env D n w w' \<and> fw_store w' = fw_store w \<and> (claimed \<longrightarrow> belongs (fw_orch w') s a \<and>
    isRuntimeCurrent a (fw_orch w') \<and> fetch_of (runtimeAt w' a) d (Some s) = None)"
  proof (cases "getInFlight (runtimeAt w a) d (Some s)")
    case None
    with c b no_request_iff show ?thesis by (auto simp: claimFetchSlot_def)
  next
    case (Some x)
    obtain r t where x: "x = (r, t)" by fastforce
    have f: "fetch_of (runtimeAt w a) d (Some s) = Some r"
      using Some x by (auto simp: getInFlight_def trackedRequest_def getFetchState_def split: fetch_state.splits)
    show ?thesis
    proof (cases "fo_isManual options \<and> fo_coalesce options \<noteq> Some True")
      case True
      with c Some x have w': "w' = onOrch (teardownRequest a (makeInFlightKey d (Some s)) (if_requestId r)) w"
        by (auto simp: claimFetchSlot_def)
      have "smooth env D n w w'" unfolding w' by (rule smooth_orch) (rule quiet_teardownRequest)
      then show ?thesis using b f teardown_fetch [OF I ok] teardown_place [OF sn] by (simp add: w')
    next
      case False
      with c Some x have "\<not> claimed" "w' = w \<or> w' = onRuntime a (\<lambda>rt. latchTrailingStreamSignal rt d (Some s)) w"
        by (auto simp: claimFetchSlot_def split: if_splits)
      moreover have "smooth env D n w (onRuntime a (\<lambda>rt. latchTrailingStreamSignal rt d (Some s)) w)"
        by (rule smooth_runtime) (rule tame_latch [OF ok])
      ultimately show ?thesis by auto
    qed
  qed
  then show "smooth env D n w w'" "fw_store w' = fw_store w" "claimed \<Longrightarrow> belongs (fw_orch w') s a \<and>
    isRuntimeCurrent a (fw_orch w') \<and> fetch_of (runtimeAt w' a) d (Some s) = None" by simp_all
qed

lemma begin_inv:
  assumes w: "world_inv env D n w" and ok: "sok d s" and b: "belongs (fw_orch w) s a" "isRuntimeCurrent a (fw_orch w)"
    and free: "fetch_of (runtimeAt w a) d (Some s) = None"
  shows "world_inv env D n (fst (beginFetch d s options a previousState w))"
proof -
  define w1 where "w1 = onStore (setScopedDomainState d s (\<lambda>previous. Some
    (loadingState previousState (fo_isManual options) s previous))) w"
  have i1: "world_inv env D n w1" using w smooth_set unfolding w1_def smooth_def by blast
  have o1: "fw_orch w1 = fw_orch w" by (simp add: w1_def)
  have I: "orch_inv env None D (fw_orch w)" using w by (simp add: world_inv_def)
  have fresh: "jm_get (so_fetches (fw_orch w)) (Suc (so_requestCounter (fw_orch w))) = None"
    using flights_fetch [of "fw_orch w" "Suc (so_requestCounter (fw_orch w))"] I
    by (cases "jm_get (so_fetches (fw_orch w)) (Suc (so_requestCounter (fw_orch w)))")
      (auto simp: orch_inv_def fetch_ok_def)
  have "world_inv env D n (onStore (markPendingRequest 1) (onOrch (beginRequest d s options a) w1))"
    using i1 inv_beginRequest(1) [OF I ok b free] fresh
    by (simp add: world_inv_def o1 resumptions_ok_def beginRequest_def Let_def jm_set_length
        markPendingRequest_def store_ok_def)
  with i1 show ?thesis by (simp add: beginFetch_def Let_def w1_def [symmetric])
qed

lemma perform_inv:
  assumes w: "world_inv env D n w" and ok: "sok d v" and st: "fetch_setting fe env"
  shows "world_inv env D n (performFetch fe d v options w)"
proof (cases "normalizeDomainScope (fe_stream fe) d v")
  case None
  with w show ?thesis by (simp add: performFetch_def)
next
  case (Some s)
  show ?thesis
  proof (cases "s = []")
    case True
    with w Some show ?thesis by (simp add: performFetch_def)
  next
    case False
    with st ok Some have oks: "sok d s" by (auto simp: fetch_setting_def normalizes_def)
    obtain w1 can where c: "canFetchScope fe d s options w = (w1, can)" by fastforce
    have i1: "world_inv env D n w1"
      using smooth_canFetch [OF oks, of env D n w fe options] w c by (simp add: smooth_def)
    show ?thesis
    proof (cases "routeScope s w1")
      case None
      with Some False c i1 show ?thesis by (simp add: performFetch_def)
    next
      case r: (Some x)
      obtain w2 a where x: "x = (w2, a)" by fastforce
      note ro = route_smooth [OF i1 r [unfolded x]]
      obtain w3 claimed where cl: "claimFetchSlot d s options a w2 = (w3, claimed)" by fastforce
      note cs = claim_slot [OF ro(2) oks ro(3,4) cl]
      have i3: "world_inv env D n w3" using cs(1) ro(2) by (simp add: smooth_def)
      show ?thesis
        using Some False c r x cl i1 i3 begin_inv [OF i3 oks] cs(3)
        by (simp add: performFetch_def)
    qed
  qed
qed

lemma tame_permission:
  "sok d s \<Longrightarrow> tame_runtime rt (markPermissionDenied rt d s)"
  "sok d s \<Longrightarrow> tame_runtime rt (markPermissionAllowed rt d s)"
  by (simp_all add: markPermissionDenied_def markPermissionAllowed_def tame_keeps keeps_permission)

lemma smooth_commit:
  assumes "sok d s"
  shows "smooth env D n w (clearRefreshError d (Some s) (onStore (setScopedDomainState d s f)
    (onRuntime a (\<lambda>rt. markPermissionAllowed rt d s) w)))"
  by (rule smooth_trans [OF smooth_trans [OF smooth_runtime smooth_set] smooth_clear])
    (rule tame_permission(2) [OF assms])

lemma smooth_snapshot:
  assumes ok: "sok d s"
  shows "smooth env D n w (applySnapshot fe d snap etag isManual s allow w)"
proof (rule smooth_invI)
  assume w: "world_inv env D n w"
  show ?thesis
  proof (cases "routeScope s w")
    case (Some x)
    obtain w1 a where x: "x = (w1, a)" by fastforce
    note r = route_smooth(1) [OF w Some [unfolded x]]
    show ?thesis
      using r Some x smooth_trans [OF r smooth_commit [OF ok]] by (simp add: applySnapshot_def Let_def)
  qed (simp add: applySnapshot_def)
qed

lemma smooth_unmodified:
  assumes ok: "sok (pf_domain p) (pf_scope p)"
  shows "smooth env D n w (applyNotModified now p w)"
proof (rule smooth_invI)
  assume w: "world_inv env D n w"
  have enabled: "smooth env D n w w1"
    if "routeScope (pf_scope p) w = Some (w1, a)" for w1 a
    using route_smooth(1) [OF w that] .
  show ?thesis
    by (auto simp: applyNotModified_def Let_def split: option.split
        intro!: smooth_commit [OF ok] smooth_trans [OF enabled smooth_commit [OF ok]])
qed

lemma smooth_result:
  assumes ok: "sok (pf_domain p) (pf_scope p)"
  shows "smooth env D n w (applyFetchResult fe p snap etag notModified w)"
proof -
  have r: "smooth env D n w (onRuntime (pf_runtime p) (\<lambda>rt. markReconciled rt (pf_domain p) (pf_scope p)) w)"
    by (rule smooth_runtime) (rule tame_reconciliation [OF ok])
  show ?thesis
    by (auto simp: applyFetchResult_def Let_def split: option.split
        intro!: smooth_trans [OF r smooth_snapshot [OF ok]] smooth_trans [OF r smooth_unmodified [OF ok]])
qed

lemma smooth_failure:
  assumes ok: "sok (pf_domain p) (pf_scope p)"
  shows "smooth env D n w (handleFetchFailure now i p message denied w)"
proof -
  let ?d = "pf_domain p" and ?s = "pf_scope p"
  have notify: "smooth env D n w1 (notifyRefreshError now ?d (Some ?s) message (onStore (setScopedDomainState ?d ?s f) w1))"
    for f w1
    by (rule smooth_trans [OF smooth_set smooth_notify]) (use ok in simp)
  have deny: "smooth env D n w (onRuntime (pf_runtime p) (\<lambda>rt. markReconciled (markPermissionDenied rt ?d ?s) ?d ?s) w)"
    by (rule smooth_runtime) (rule tame_runtime_trans [OF tame_permission(1) [OF ok] tame_reconciliation(2) [OF ok]])
  have retry: "smooth env D n w (onRuntime (pf_runtime p) (\<lambda>rt. markReconciliationFailed rt ?d ?s now) w)"
    by (rule smooth_runtime) (rule tame_reconciliation [OF ok])
  show ?thesis
    using smooth_trans [OF deny notify] smooth_trans [OF retry notify] smooth_trans [OF retry smooth_set]
    by (simp add: handleFetchFailure_def Let_def)
qed

text \<open>The end of a fetch takes it off the list and off the published number.\<close>

lemma settle_errors: "errors (fst (settleRequest i o1)) = errors o1"
  by (auto simp: settleRequest_def Let_def split: option.split prod.split)

lemma finish_inv:
  assumes w: "world_inv env D 0 w" and p: "jm_get (so_fetches (fw_orch w)) i = Some p" and st: "fetch_setting fe env"
  shows "world_inv env D 0 (finishFetch fe i p w)"
proof -
  obtain o2 tracked where o2: "settleRequest i (fw_orch w) = (o2, tracked)" by fastforce
  have I: "orch_inv env None D (fw_orch w)" using w by (simp add: world_inv_def)
  then have fl: "flights_ok (fw_orch w)" by (simp add: orch_inv_def)
  have ok: "sok (pf_domain p) (pf_scope p)" using flights_fetch [OF fl p] by (simp add: fetch_ok_def)
  have "length (so_fetches (fw_orch w)) = Suc (length (so_fetches o2))"
    using jm_delete_length [OF _ p] settleRequest_cases(7) [OF p] fl o2 by (simp add: flights_ok_def)
  then have i1: "world_inv env D 1 (w\<lparr>fw_orch := o2\<rparr>)"
    using w inv_settleRequest [OF I, of i] settle_errors [of i "fw_orch w"]
    by (simp add: world_inv_def o2 resumptions_ok_def)
  have drop: "world_inv env D 0 (onStore (markPendingRequest (- 1)) w2)" if "world_inv env D 1 w2" for w2 :: "'a fetch_world"
    using that by (simp add: world_inv_def markPendingRequest_def store_ok_def resumptions_ok_def)
  show ?thesis
    using drop [OF i1] drop [OF perform_inv [OF i1 ok st]] unfolding finishFetch_def o2
    by (simp add: Let_def split: option.split prod.split bool.split)
qed

lemma settle_inv:
  assumes w: "world_inv env D 0 w" and st: "fetch_setting fe env"
  shows "world_inv env D 0 (settleFetch fe i outcome w)"
proof (cases "jm_get (so_fetches (fw_orch w)) i")
  case (Some p)
  have "flights_ok (fw_orch w)" using w by (simp add: world_inv_def orch_inv_def)
  then have ok: "sok (pf_domain p) (pf_scope p)" using Some by (auto dest: flights_fetch simp: fetch_ok_def)
  define w1 where "w1 = (case outcome of
      Fetched snapshot etag notModified \<Rightarrow>
        if fetchCanCommit i p w then applyFetchResult fe p snapshot etag notModified w else w
    | FetchFailed message denied \<Rightarrow> handleFetchFailure (fe_now fe) i p message denied w)"
  have "smooth env D 0 w w1"
    using smooth_result [OF ok] smooth_failure [OF ok] by (auto simp: w1_def split: fetch_outcome.split)
  then have "world_inv env D 0 w1" "jm_get (so_fetches (fw_orch w1)) i = Some p"
    using w Some by (auto simp: smooth_def steady_def)
  then have "world_inv env D 0 (finishFetch fe i p w1)" using st by (rule finish_inv)
  then show ?thesis by (simp add: settleFetch_def Some w1_def)
qed (simp add: settleFetch_def w)

section \<open>Aborts\<close>

lemma quiet_abort:
  assumes "i \<le> so_requestCounter o1"
  shows "quiet env E D o1 (call (OcEffect (AbortController i)) o1)"
proof (rule quiet_calm)
  assume "orch_inv env E D o1"
  then have fl: "flights_ok o1" by (simp add: orch_inv_def)
  have "flights_ok (call (OcEffect (AbortController i)) o1)" (is "flights_ok ?o2")
    unfolding flights_ok_def
  proof (intro conjI allI impI)
    show "tracked_ok ?o2 a d s r"
      if "scope_ok d s" "fetch_of (so_heap ?o2 a) d s = Some r" for a d s r
      using flights_tracked [OF fl that(1), of a r] that(2) by (simp add: tracked_ok_def isRuntimeCurrent_def)
    show "fetch_ok ?o2 j p" if "jm_get (so_fetches ?o2) j = Some p" for j p
      using flights_fetch [OF fl, of j p] that by (auto simp: fetch_ok_def belongs_def split: option.splits)
    show "j \<le> so_requestCounter ?o2" if "aborted ?o2 j" for j
      using that assms fl by (auto simp: flights_ok_def)
    show "jm_ok (so_fetches ?o2)" using fl by (simp add: flights_ok_def)
  qed
  then show "flights_ok (call (OcEffect (AbortController i)) o1) \<and>
    fewer o1 (call (OcEffect (AbortController i)) o1)"
    by (simp add: fewer_def steady_def)
qed (auto simp: scheduled_ok_def calm_runtime_def)

lemma quiet_aborts:
  "\<forall>x\<in>set xs. fst x \<le> so_requestCounter o1 \<Longrightarrow>
     quiet env E D o1 (fold (\<lambda>e. call (OcEffect e)) (List.map (\<lambda>(i, p). AbortController i) xs) o1)"
proof (induction xs arbitrary: o1)
  case (Cons x xs)
  then have "quiet env E D o1 (call (OcEffect (AbortController (fst x))) o1)" by (simp add: quiet_abort)
  moreover have "quiet env E D (call (OcEffect (AbortController (fst x))) o1)
    (fold (\<lambda>e. call (OcEffect e)) (List.map (\<lambda>(i, p). AbortController i) xs)
      (call (OcEffect (AbortController (fst x))) o1))"
    using Cons.prems by (intro Cons.IH) simp
  ultimately show ?case by (cases x) (auto intro: quiet_trans)
qed simp

lemma smooth_abort: "smooth env D n w (abortSignal s w)"
proof (rule smooth_invI)
  assume w: "world_inv env D n w"
  then have fl: "flights_ok (fw_orch w)" by (simp add: world_inv_def orch_inv_def)
  have bound: "i \<le> so_requestCounter (fw_orch w)" if "(i, p) \<in> set (so_fetches (fw_orch w))" for i p
    using fl that flights_fetch [OF fl, of i p] by (auto simp: flights_ok_def fetch_ok_def)
  show ?thesis
    unfolding abortSignal_def Let_def
  proof (split if_split, intro conjI impI smooth_refl, rule smooth_world)
    show "quiet env None D (fw_orch w) (fw_orch (w\<lparr>fw_abortedSignals := s # fw_abortedSignals w,
      fw_orch := fold (\<lambda>e. call (OcEffect e)) (List.map (\<lambda>(i, p). AbortController i)
        (List.filter (\<lambda>(i, p). fo_signal (pf_options p) = Some s \<and>
          OcEffect (CallCleanup i) \<notin> set (so_calls (fw_orch w))) (so_fetches (fw_orch w)))) (fw_orch w)\<rparr>))"
      by (simp, rule quiet_aborts) (auto dest: bound)
  qed (simp_all add: resumptions_ok_def)
qed

section \<open>Fetching a scope\<close>

lemma stream_quiet:
  assumes "fetch_setting fe env" "quiet (streamEnv fe w') E D o1 o2"
  shows "quiet env E D o1 o2"
  using assms quiet_env [of "streamEnv fe w'" env] by (simp add: fetch_setting_def streamEnv_def)

lemma streamEnv_fields [simp]:
  "en_streaming (streamEnv fe w) = en_streaming (fe_stream fe)"
  "en_resourceStream (streamEnv fe w) = en_resourceStream (fe_stream fe)"
  by (simp_all add: streamEnv_def)

lemma smooth_startStream:
  assumes "fetch_setting fe env" "sok d s" "s \<noteq> []" "en_streaming (fe_stream fe) d"
  shows "smooth env D n w (onOrch (startStreamingScope (streamEnv fe w') d s) w)"
  by (rule smooth_orch, rule stream_quiet [OF assms(1)], rule quiet_start)
    (use assms in \<open>simp_all add: streamEnv_def\<close>)

lemma smooth_query:
  assumes "fetch_setting fe env" "sok d s" "s \<noteq> []" "reconcileQueryOnlyDemand fe d s options a w = (w', b)"
  shows "smooth env D n w w'"
proof -
  have "smooth env D n w (fst (reconcileQueryOnlyDemand fe d s options a w))"
    unfolding reconcileQueryOnlyDemand_def Let_def
    by (auto intro!: smooth_set smooth_startStream [OF assms(1-3)]
        smooth_trans [OF smooth_startStream [OF assms(1-3)] smooth_set])
  with assms(4) show ?thesis by simp
qed

lemma smooth_streaming:
  assumes "fetch_setting fe env" "sok d s" "s \<noteq> []" "reconcileStreamingFetch fe d s options a w = (w', b)"
  shows "smooth env D n w w'"
proof -
  have once: "smooth env D n w (onOrch (refreshStreamingDomainOnce (streamEnv fe w) d s) w)"
    by (rule smooth_orch, rule stream_quiet [OF assms(1)], rule quiet_refreshOnce) (rule assms(2))
  have "smooth env D n w (fst (reconcileStreamingFetch fe d s options a w))"
    unfolding reconcileStreamingFetch_def Let_def
    by (auto intro!: once smooth_startStream [OF assms(1-3)])
  with assms(4) show ?thesis by simp
qed

lemma smooth_resumption:
  "sok (rs_domain rs) (rs_scope rs) \<Longrightarrow>
   smooth env D n w (w\<lparr>fw_nextResumption := k, fw_resumptions := jm_set i rs (fw_resumptions w)\<rparr>)"
  by (rule smooth_world) (auto simp: resumptions_ok_def)

lemma smooth_fetchScoped:
  assumes st: "fetch_setting fe env" and ok: "sok d v"
  shows "smooth env D n w (fetchScopedDomain fe d v options w)"
proof (rule smooth_invI)
  assume w: "world_inv env D n w"
  show ?thesis
  proof (cases "normalizeDomainScope (fe_stream fe) d v")
    case None
    then show ?thesis by (simp add: fetchScopedDomain_def)
  next
    case s: (Some s)
    have oks: "sok d s" if "s \<noteq> []" using st ok s that by (auto simp: fetch_setting_def normalizes_def)
    have rec: "smooth env D n w (onOrch (recordPendingClusterReadiness d s r) w)" if "s \<noteq> []" for r
      by (rule smooth_orch) (rule quiet_recordPending [OF oks [OF that]])
    have go: "smooth env D n w (case reconcileQueryOnlyDemand fe d s options a w1 of (w2, reconciled) \<Rightarrow>
        if reconciled then w2
        else case reconcileStreamingFetch fe d s options a w2 of (w3, skip) \<Rightarrow>
             if skip then w3
             else w3\<lparr>fw_nextResumption := fw_nextResumption w3 + 1,
                     fw_resumptions := jm_set (fw_nextResumption w3)
                       \<lparr>rs_runtime = a, rs_domain = d, rs_scope = s, rs_options = options\<rparr>
                       (fw_resumptions w3)\<rparr>)"
      if ne: "s \<noteq> []" and r: "routeScope s w = Some (w1, a)" for w1 a
    proof -
      obtain w2 b where q: "reconcileQueryOnlyDemand fe d s options a w1 = (w2, b)" by fastforce
      obtain w3 c where m: "reconcileStreamingFetch fe d s options a w2 = (w3, c)" by fastforce
      have s2: "smooth env D n w w2"
        by (rule smooth_trans [OF route_smooth(1) [OF w r] smooth_query [OF st oks [OF ne] ne q]])
      have s3: "smooth env D n w w3" by (rule smooth_trans [OF s2 smooth_streaming [OF st oks [OF ne] ne m]])
      show ?thesis
        unfolding q m prod.case using s2 s3 smooth_trans [OF s3 smooth_resumption] oks [OF ne] by simp
    qed
    show ?thesis
      unfolding fetchScopedDomain_def s Let_def by (auto intro: rec go split: option.split)
  qed
qed

lemma smooth_unresume: "smooth env D n w (w\<lparr>fw_resumptions := jm_delete k (fw_resumptions w)\<rparr>)"
  by (rule smooth_world) (auto simp: resumptions_ok_def)

lemma resume_inv:
  assumes w: "world_inv env D n w" and st: "fetch_setting fe env"
  shows "world_inv env D n (resumeFetch fe k w)"
proof (cases "jm_get (fw_resumptions w) k")
  case (Some rs)
  let ?w1 = "w\<lparr>fw_resumptions := jm_delete k (fw_resumptions w)\<rparr>"
  have "sok (rs_domain rs) (rs_scope rs)" using w Some by (simp add: world_inv_def resumptions_ok_def)
  moreover have "world_inv env D n ?w1" by (rule smoothD [OF smooth_unresume w])
  ultimately show ?thesis
    by (simp add: resumeFetch_def Some Let_def perform_inv [OF _ _ st])
qed (simp add: resumeFetch_def w)

lemma smooth_refreshScopes:
  assumes st: "fetch_setting fe env"
  shows "smooth env D n w (refreshEnabledScopes fe d options w)"
proof (rule smooth_invI)
  assume w: "world_inv env D n w"
  have "sok d s" if s: "s \<in> set (getEnabledScopes (runtimeAt w a) d)" for s a
  proof (rule known_scope_ok)
    show "sound (runtimeAt w a)" using w by (simp add: world_inv_def orch_inv_def)
    show "s \<in> set (getKnownScopes (runtimeAt w a) d)"
      using s by (fastforce simp: getEnabledScopes_def getKnownScopes_def)
  qed
  then show ?thesis
    unfolding refreshEnabledScopes_def by (intro smooth_fold smooth_fetchScoped st) auto
qed

lemma clusterFetch_inv:
  assumes w: "world_inv env D n w" and st: "fetch_setting fe env"
    and ok: "sok d (buildClusterScope (Some c) (Some (case s of None \<Rightarrow> [] | Some s \<Rightarrow> s)))"
  shows "world_inv env D n (fetchDomainForCluster fe d c s w)"
proof -
  have "smooth env D n w (onOrch (\<lambda>o1. fst (getClusterRuntime c o1)) w)"
    by (rule smooth_orch) (rule quiet_getClusterRuntime)
  then have "world_inv env D n (onOrch (\<lambda>o1. fst (getClusterRuntime c o1)) w)" using w by (simp add: smooth_def)
  with w perform_inv [OF _ ok st] show ?thesis by (simp add: fetchDomainForCluster_def)
qed

section \<open>The calls of the streaming half\<close>

lemma smooth_call:
  assumes "\<And>d s. c = OcScopedError d s \<Longrightarrow> sok d s"
  shows "smooth env D n w (runCall now message c w)"
proof (cases c)
  case (OcScopedError d s)
  have "smooth env D n w (onStore (setScopedDomainState d s f) w)" for f by (rule smooth_set)
  moreover have "sok d (js_trim s)" if "js_trim s \<noteq> []" using assms OcScopedError by (simp add: scope_ok_trim)
  ultimately show ?thesis
    using OcScopedError by (auto intro!: smooth_trans [OF smooth_set smooth_notify])
qed (auto intro!: smooth_store smooth_set smooth_reset smooth_clear smooth_notifier
    simp: store_ops_ok resetDomain_def)

section \<open>Runs\<close>

text \<open>What can happen to the orchestrator. An event of the streaming half carries the message of the
  error it may report; \<open>FePerform\<close> is a fetch that a handler began.\<close>

datatype 'p fetch_event =
    FeStreaming orch_event string
  | FeFetchScoped string string scoped_fetch
  | FeResume nat
  | FePerform string string fetch_options
  | FeFetchForCluster string string "string option"
  | FeRefreshEnabled string scoped_fetch
  | FeSettle nat "'p fetch_outcome"
  | FeAbortSignal nat
  | FeResetScoped string string
  | FeResetDomain string

fun fetch_step :: "('p, 'v) fetch_env \<Rightarrow> 'p fetch_event \<Rightarrow> 'p fetch_world \<Rightarrow> 'p fetch_world" where
  "fetch_step fe (FeStreaming ev message) w =
     runStreaming (fe_now fe) message (orch_step (streamEnv fe w) ev) w"
| "fetch_step fe (FeFetchScoped d v options) w = fetchScopedDomain fe d v options w"
| "fetch_step fe (FeResume k) w = resumeFetch fe k w"
| "fetch_step fe (FePerform d v options) w = performFetch fe d v options w"
| "fetch_step fe (FeFetchForCluster d c s) w = fetchDomainForCluster fe d c s w"
| "fetch_step fe (FeRefreshEnabled d options) w = refreshEnabledScopes fe d options w"
| "fetch_step fe (FeSettle i outcome) w = settleFetch fe i outcome w"
| "fetch_step fe (FeAbortSignal s) w = abortSignal s w"
| "fetch_step fe (FeResetScoped d v) w = resetScopedDomain fe d v w"
| "fetch_step fe (FeResetDomain d) w = resetDomain d w"

fun fetch_event_ok :: "('p, 'v) fetch_env \<Rightarrow> 'p fetch_event \<Rightarrow> 'p fetch_world \<Rightarrow> bool" where
  "fetch_event_ok fe (FeStreaming ev message) w = (event_ok (streamEnv fe w) ev \<and> streaming_event ev)"
| "fetch_event_ok fe (FeFetchScoped d v options) w = sok d v"
| "fetch_event_ok fe (FePerform d v options) w = sok d v"
| "fetch_event_ok fe (FeFetchForCluster d c s) w =
     sok d (buildClusterScope (Some c) (Some (case s of None \<Rightarrow> [] | Some x \<Rightarrow> x)))"
| "fetch_event_ok fe _ w = True"

fun fetch_delivered :: "'p fetch_event \<Rightarrow> 'p fetch_world \<Rightarrow> nat set \<Rightarrow> nat set" where
  "fetch_delivered (FeStreaming ev message) w D = delivered ev (fw_orch w) D"
| "fetch_delivered _ w D = D"

text \<open>The registered streams and the merge descriptors are fixed.\<close>

inductive world_reach ::
  "stream_env \<Rightarrow> (string \<Rightarrow> ('p, 'v) merge_descriptor option) \<Rightarrow> 'p fetch_world \<Rightarrow> nat set \<Rightarrow> bool"
  for env descriptors where
  world_init: "world_reach env descriptors initialWorld {}"
| world_step: "world_reach env descriptors w D \<Longrightarrow> fetch_setting fe env \<Longrightarrow>
     fe_descriptors fe = descriptors \<Longrightarrow> fetch_event_ok fe ev w \<Longrightarrow>
     world_reach env descriptors (fetch_step fe ev w) (fetch_delivered ev w D)"

lemma streaming_inv:
  assumes w: "world_inv env D 0 w" and st: "fetch_setting fe env"
    and ok: "event_ok (streamEnv fe w) ev" "streaming_event ev"
  shows "world_inv env (delivered ev (fw_orch w) D) 0 (runStreaming now message (orch_step (streamEnv fe w) ev) w)"
proof -
  let ?env = "streamEnv fe w" and ?o2 = "orch_step (streamEnv fe w) ev (fw_orch w)"
  let ?D = "delivered ev (fw_orch w) D"
  have same: "en_streaming ?env = en_streaming env" using st by (simp add: fetch_setting_def)
  have I: "orch_inv ?env None D (fw_orch w)" using w inv_env [OF same] by (simp add: world_inv_def)
  have I2: "orch_inv env None ?D ?o2" using inv_step [OF I ok(1)] inv_env [OF same] by simp
  have sd: "steady (fw_orch w) ?o2" by (rule step_steady [OF I ok])
  then have "so_fetches ?o2 = so_fetches (fw_orch w)" by (simp add: steady_def)
  then have inv: "world_inv env ?D 0 (w\<lparr>fw_orch := ?o2\<rparr>)"
    using w I2 steady_errors [OF sd] by (simp add: world_inv_def resumptions_ok_def)
  have "smooth env ?D 0 (w\<lparr>fw_orch := ?o2\<rparr>) (fold (runCall now message)
    (drop (length (so_calls (fw_orch w))) (so_calls ?o2)) (w\<lparr>fw_orch := ?o2\<rparr>))"
  proof (rule smooth_fold, rule smooth_call)
    fix c d s and w1 :: "'a fetch_world"
    assume "c \<in> set (drop (length (so_calls (fw_orch w))) (so_calls ?o2))" "c = OcScopedError d s"
    then have "(d, s) \<in> errors ?o2" by (auto simp: errors_def dest: in_set_dropD)
    then show "sok d s" using inv by (auto simp: world_inv_def)
  qed
  then show ?thesis using inv unfolding runStreaming_def Let_def by (rule smoothD)
qed

lemma world_step_inv:
  assumes w: "world_inv env D 0 w" and st: "fetch_setting fe env" and ok: "fetch_event_ok fe ev w"
  shows "world_inv env (fetch_delivered ev w D) 0 (fetch_step fe ev w)"
proof (cases ev)
  case (FeStreaming oev message)
  with streaming_inv [OF w st] ok show ?thesis by simp
next
  case (FeFetchScoped d v options)
  with smoothD [OF smooth_fetchScoped [OF st] w] ok show ?thesis by simp
next
  case (FeResume k)
  with resume_inv [OF w st] show ?thesis by simp
next
  case (FePerform d v options)
  with perform_inv [OF w _ st] ok show ?thesis by simp
next
  case (FeFetchForCluster d c s)
  with clusterFetch_inv [OF w st] ok show ?thesis by simp
next
  case (FeRefreshEnabled d options)
  with smoothD [OF smooth_refreshScopes [OF st] w] show ?thesis by simp
next
  case (FeSettle i outcome)
  with settle_inv [OF w st] show ?thesis by simp
next
  case (FeAbortSignal s)
  with smoothD [OF smooth_abort w] show ?thesis by simp
next
  case (FeResetScoped d v)
  with smoothD [OF smooth_reset w] w show ?thesis by (simp add: resetScopedDomain_def split: option.split)
next
  case (FeResetDomain d)
  with smoothD [OF smooth_store w] show ?thesis by (simp add: resetDomain_def store_ops_ok)
qed

lemma inv_world: "world_reach env descriptors w D \<Longrightarrow> world_inv env D 0 w"
proof (induction rule: world_reach.induct)
  case world_init
  show ?case
    using inv_initial [of env]
    by (simp add: world_inv_def initialWorld_def resumptions_ok_def store_ok_def EMPTY_REFRESH_STATE_def
        errors_def initialOrch_def)
next
  case (world_step w D fe ev)
  then show ?case by (intro world_step_inv)
qed

end
