(* ===== verification/FetchRuns.thy ===== *)
theory FetchRuns
  imports FetchLifecycleInv
begin

text \<open>
  What the runs of the orchestrator guarantee about fetches: they are all accounted for, an answer
  that lost its request changes nothing, a signal that arrived during a request is followed by
  exactly one more, and a denial ends the automatic requests. Two runs show where the code
  falls short of this.
\<close>

section \<open>A concrete setting\<close>

definition exampleFetch :: "nat \<Rightarrow> (string, string) fetch_env" where
  "exampleFetch now = \<lparr>fe_stream = example_env True, fe_now = now, fe_pollingContinues = (\<lambda>_. False),
     fe_doorbell = (\<lambda>_. True), fe_streamHealthy = (\<lambda>_ _. False), fe_descriptors = (\<lambda>_. None)\<rparr>"

definition manualOptions :: fetch_options where
  "manualOptions = \<lparr>fo_isManual = True, fo_streamSignal = None, fo_coalesce = None,
     fo_queryReconcile = False, fo_allowDisabledRetainedScope = False, fo_signal = None\<rparr>"

fun fetch_run :: "((string, string) fetch_env \<times> string fetch_event) list \<Rightarrow> string fetch_world \<Rightarrow> string fetch_world" where
  "fetch_run [] w = w"
| "fetch_run ((fe, ev) # evs) w = fetch_run evs (fetch_step fe ev w)"

text \<open>A manual request, during which a stream signal arrives\<close>

definition exampleBusy :: "string fetch_world" where
  "exampleBusy = fetch_run
     [(exampleFetch 5, FePerform ''pods'' ''c1|default'' manualOptions),
      (exampleFetch 6, FePerform ''pods'' ''c1|default'' trailingOptions)] initialWorld"

definition exampleSnapshot :: "string snapshot" where
  "exampleSnapshot = \<lparr>sp_payload = ''rows'', sp_stats = None, sp_version = Some 1, sp_sourceVersion = Some ''v1'',
     sp_sourceVersions = None, sp_checksum = None\<rparr>"

abbreviation noDescriptors :: "string \<Rightarrow> (string, string) merge_descriptor option" where
  "noDescriptors \<equiv> (\<lambda>_. None)"

text \<open>What a run left for a scope\<close>

definition report :: "string \<Rightarrow> string \<Rightarrow> nat \<Rightarrow> 'p fetch_world \<Rightarrow>
  (nat, pending_fetch) jmap \<times> nat \<times> nat \<times> int \<times> tracked option \<times> bool \<times> 'p snap" where
  "report d s a w = (so_fetches (fw_orch w), so_requestCounter (fw_orch w), so_contextVersion (fw_orch w),
     pendingRequests (fw_store w), getInFlight (runtimeAt w a) d (Some s),
     isScopedDomainEnabled (runtimeAt w a) d s, getScopedDomainState (fw_store w) d s)"

lemma example_normalizes: "normalizes (example_env b)"
  by (rule selected_normalizes [of _ "''c1''"]) (simp_all add: example_env_def js_trim_def js_space_def)

lemma example_setting: "fetch_setting (exampleFetch now) (example_env True)"
  using example_normalizes by (simp add: fetch_setting_def exampleFetch_def)

fun performs :: "string fetch_event \<Rightarrow> bool" where
  "performs (FePerform d v options) = sok d v"
| "performs (FeSettle i outcome) = True"
| "performs _ = False"

lemma perform_reach:
  "world_reach env descriptors w D \<Longrightarrow>
   list_all (\<lambda>(fe, ev). fetch_setting fe env \<and> fe_descriptors fe = descriptors \<and> performs ev) evs \<Longrightarrow>
   world_reach env descriptors (fetch_run evs w) D"
proof (induction evs arbitrary: w)
  case (Cons x evs)
  obtain fe ev where x: "x = (fe, ev)" by fastforce
  have ok: "fetch_event_ok fe ev w" and ghost: "fetch_delivered ev w D = D"
    using Cons.prems(2) by (cases ev; simp add: x)+
  have "world_reach env descriptors (fetch_step fe ev w) (fetch_delivered ev w D)"
    using Cons.prems(2) by (intro world_step [OF Cons.prems(1) _ _ ok]) (simp_all add: x)
  then have "world_reach env descriptors (fetch_run evs (fetch_step fe ev w)) D"
    unfolding ghost using Cons.prems(2) by (intro Cons.IH) simp_all
  then show ?case by (simp add: x)
qed simp

lemma pods_scope_ok: "sok ''pods'' ''c1|default''"
  by (simp add: scope_ok_def) code_simp

lemma busy_reach: "world_reach (example_env True) noDescriptors exampleBusy {}"
  unfolding exampleBusy_def
  by (rule perform_reach [OF world_init])
    (simp add: example_setting pods_scope_ok, simp add: exampleFetch_def)

section \<open>All fetches are accounted for\<close>

lemma place_unique:
  "belongs o1 s a \<Longrightarrow> belongs o1 s b \<Longrightarrow> isRuntimeCurrent a o1 \<Longrightarrow> isRuntimeCurrent b o1 \<Longrightarrow> a = b"
  by (auto simp: belongs_def isRuntimeCurrent_def split: option.splits)

lemma in_flight_fetch: "getInFlight rt d s = Some (r, t) \<Longrightarrow> fetch_of rt d s = Some r"
  by (auto simp: getInFlight_def trackedRequest_def getFetchState_def split: fetch_state.splits)

lemma live_fetch_unique:
  assumes fl: "flights_ok o1" and p: "jm_get (so_fetches o1) i = Some p" "\<not> aborted o1 i"
    and q: "jm_get (so_fetches o1) j = Some q" "\<not> aborted o1 j"
    and same: "pf_domain p = pf_domain q" "pf_scope p = pf_scope q"
  shows "i = j"
proof -
  note fi = flights_fetch [OF fl p(1)] and fj = flights_fetch [OF fl q(1)]
  obtain r where r: "fetch_of (so_heap o1 (pf_runtime p)) (pf_domain p) (Some (pf_scope p)) = Some r" "if_requestId r = i"
    using fi p(2) by (auto simp: fetch_ok_def)
  obtain r' where r': "fetch_of (so_heap o1 (pf_runtime q)) (pf_domain q) (Some (pf_scope q)) = Some r'" "if_requestId r' = j"
    using fj q(2) by (auto simp: fetch_ok_def)
  have "isRuntimeCurrent (pf_runtime p) o1" "isRuntimeCurrent (pf_runtime q) o1"
    using flights_tracked [OF fl _ r(1)] flights_tracked [OF fl _ r'(1)] fi fj
    by (simp_all add: fetch_ok_def tracked_ok_def)
  then have "pf_runtime p = pf_runtime q"
    using fi fj same by (intro place_unique [of o1 "pf_scope p"]) (simp_all add: fetch_ok_def)
  then show ?thesis using r r' same by simp
qed

text \<open>C2. In every run, whatever the interleaving of fetches, stream events, aborts and answers:
  the published number of pending requests is that of the fetches under way; a request that
  occupies the slot of a scope has its fetch under way, for that scope, in a cluster runtime that has not
  been replaced, and under the context version it was begun with; and no scope has two fetches
  that have not been aborted.\<close>

theorem fetches_accounted:
  assumes "world_reach env descriptors w D"
  shows "pendingRequests (fw_store w) = int (length (so_fetches (fw_orch w))) \<and>
    (\<forall>a d s r t. sok d s \<longrightarrow> getInFlight (runtimeAt w a) d (Some s) = Some (r, t) \<longrightarrow>
       isRuntimeCurrent a (fw_orch w) \<and>
       (\<exists>p. jm_get (so_fetches (fw_orch w)) (if_requestId r) = Some p \<and> pf_domain p = d \<and> pf_scope p = s \<and>
          pf_runtime p = a \<and> pf_contextVersion p = if_contextVersion r)) \<and>
    (\<forall>i j p q. jm_get (so_fetches (fw_orch w)) i = Some p \<longrightarrow> jm_get (so_fetches (fw_orch w)) j = Some q \<longrightarrow>
       \<not> aborted (fw_orch w) i \<longrightarrow> \<not> aborted (fw_orch w) j \<longrightarrow>
       pf_domain p = pf_domain q \<longrightarrow> pf_scope p = pf_scope q \<longrightarrow> i = j)"
proof (intro conjI allI impI)
  note w = inv_world [OF assms]
  then have fl: "flights_ok (fw_orch w)" by (simp add: world_inv_def orch_inv_def)
  show "pendingRequests (fw_store w) = int (length (so_fetches (fw_orch w)))" using w by (simp add: world_inv_def)
  fix a d s r t
  assume "sok d s" "getInFlight (runtimeAt w a) d (Some s) = Some (r, t)"
  then have "tracked_ok (fw_orch w) a d (Some s) r" by (intro flights_tracked [OF fl] in_flight_fetch)
  then show "isRuntimeCurrent a (fw_orch w)" "\<exists>p. jm_get (so_fetches (fw_orch w)) (if_requestId r) = Some p \<and>
    pf_domain p = d \<and> pf_scope p = s \<and> pf_runtime p = a \<and> pf_contextVersion p = if_contextVersion r"
    by (auto simp: tracked_ok_def)
next
  have fl: "flights_ok (fw_orch w)" using inv_world [OF assms] by (simp add: world_inv_def orch_inv_def)
  fix i j p q
  assume "jm_get (so_fetches (fw_orch w)) i = Some p" "jm_get (so_fetches (fw_orch w)) j = Some q"
    "\<not> aborted (fw_orch w) i" "\<not> aborted (fw_orch w) j" "pf_domain p = pf_domain q" "pf_scope p = pf_scope q"
  then show "i = j" by (intro live_fetch_unique [OF fl])
qed

lemma busy_report:
  "report ''pods'' ''c1|default'' 1 exampleBusy =
     ([(1, \<lparr>pf_domain = ''pods'', pf_scope = ''c1|default'', pf_runtime = 1,
        pf_contextVersion = 0, pf_options = manualOptions\<rparr>)], 1, 0, 1,
      Some (\<lparr>if_controller = 1, if_isManual = True, if_streamSignal = None, if_coalesce = None, if_requestId = 1,
        if_cleanup = None, if_completion = Some 1, if_contextVersion = 0, if_domain = ''pods'',
        if_scope = Some ''c1|default''\<rparr>, True), True,
      loadingState EMPTY_SCOPED_STATE True ''c1|default'' EMPTY_SCOPED_STATE)"
  by code_simp

lemmas busy_facts = busy_report [unfolded report_def prod.inject]

theorem fetches_accounted_witness: "pendingRequests (fw_store exampleBusy) = 1"
  using conjunct1 [OF fetches_accounted [OF busy_reach]] by (simp add: busy_facts)

section \<open>Lost requests\<close>

lemma settle_in_flight:
  assumes I: "orch_inv env E D o1" and p: "jm_get (so_fetches o1) i = Some p" and ok: "scope_ok d s"
  shows "getInFlight (so_heap (fst (settleRequest i o1)) a) d s =
    (case getInFlight (so_heap o1 a) d s of
       None \<Rightarrow> None | Some (r, t) \<Rightarrow> if if_requestId r = i then None else Some (r, t))"
proof -
  let ?a = "pf_runtime p" and ?d = "pf_domain p" and ?s = "Some (pf_scope p)"
  have sn: "sound (so_heap o1 x)" for x using I by (simp add: orch_inv_def)
  have fl: "flights_ok o1" using I by (simp add: orch_inv_def)
  have okp: "scope_ok ?d ?s" using flights_fetch [OF fl p] by (simp add: fetch_ok_def)
  have place: "a = ?a \<and> d = ?d \<and> s = ?s" if "getInFlight (so_heap o1 a) d s = Some (r, t)" "if_requestId r = i" for r t
    using tracked_place [OF flights_tracked [OF fl ok in_flight_fetch [OF that(1)]], of p] p that(2) by simp
  show ?thesis
  proof (cases "a = ?a \<and> d = ?d \<and> s = ?s")
    case True
    then show ?thesis
      using fetch_get [OF sn okp okp, of ?a "FetchSettled i"]
      by (cases "ss_fetch (getScopeState (so_heap o1 ?a) ?d ?s)")
        (simp_all add: settleRequest_cases(1) [OF p] getInFlight_def getFetchState_def trackedRequest_def)
  next
    case False
    then have "ss_fetch (getScopeState (so_heap (fst (settleRequest i o1)) a) d s) =
        ss_fetch (getScopeState (so_heap o1 a) d s)"
      using fetch_get [OF sn okp ok, of ?a "FetchSettled i"] by (auto simp: settleRequest_cases(1) [OF p])
    then have "getInFlight (so_heap (fst (settleRequest i o1)) a) d s = getInFlight (so_heap o1 a) d s"
      by (simp add: getInFlight_def getFetchState_def)
    moreover have "if_requestId r \<noteq> i" if "getInFlight (so_heap o1 a) d s = Some (r, t)" for r t
      using place [OF that] False by blast
    ultimately show ?thesis by (auto split: option.split)
  qed
qed

definition lost :: "nat \<Rightarrow> pending_fetch \<Rightarrow> 'p fetch_world \<Rightarrow> bool" where
  "lost i p w \<longleftrightarrow> pf_contextVersion p \<noteq> so_contextVersion (fw_orch w) \<or>
     (case getInFlight (runtimeAt w (pf_runtime p)) (pf_domain p) (Some (pf_scope p)) of
        None \<Rightarrow> True | Some (r, t) \<Rightarrow> if_requestId r \<noteq> i)"

lemma finish_lost:
  assumes "jm_get (so_fetches (fw_orch w)) i = Some p" "lost i p w"
  shows "finishFetch fe i p w = onStore (markPendingRequest (- 1)) (w\<lparr>fw_orch := fst (settleRequest i (fw_orch w))\<rparr>)"
  using assms settleRequest_cases(9,12) [OF assms(1)]
  by (auto simp: finishFetch_def lost_def Let_def split: prod.split option.splits if_splits bool.splits)

lemma lost_answer:
  fixes fe :: "('p, 'v) fetch_env" and outcome :: "'p fetch_outcome"
  assumes inv: "world_inv env D 0 w" and p: "jm_get (so_fetches (fw_orch w)) i = Some p"
    and no: "\<not> fetchCanCommit i p w" "lost i p w"
  defines "w' \<equiv> settleFetch fe i outcome w"
  shows "fw_store w' = (fw_store w)\<lparr>pendingRequests := pendingRequests (fw_store w) - 1\<rparr> \<and>
    fw_notifier w' = fw_notifier w \<and> fw_handledErrors w' = fw_handledErrors w \<and>
    fw_resumptions w' = fw_resumptions w \<and>
    so_fetches (fw_orch w') = jm_delete i (so_fetches (fw_orch w)) \<and>
    (\<forall>a d s. scope_ok d s \<longrightarrow> getInFlight (runtimeAt w' a) d s =
      (case getInFlight (runtimeAt w a) d s of
         None \<Rightarrow> None | Some (r, t) \<Rightarrow> if if_requestId r = i then None else Some (r, t)))"
proof -
  have I: "orch_inv env None D (fw_orch w)" using inv by (simp add: world_inv_def)
  have "w' = finishFetch fe i p w"
    using no(1) by (simp add: w'_def settleFetch_def p handleFetchFailure_def split: fetch_outcome.split)
  then have w': "w' = onStore (markPendingRequest (- 1)) (w\<lparr>fw_orch := fst (settleRequest i (fw_orch w))\<rparr>)"
    by (simp add: finish_lost [OF p no(2)])
  have "0 < length (so_fetches (fw_orch w))" using p by (cases "so_fetches (fw_orch w)") auto
  then have "0 < pendingRequests (fw_store w)" using inv by (simp add: world_inv_def)
  then show ?thesis
    using settle_in_flight [OF I p] settleRequest_cases(7) [OF p] by (simp add: w' markPendingRequest_def)
qed

text \<open>C8. An answer that can no longer be committed (the request was aborted, or the context has changed)
  and whose request no longer occupies its slot (or belongs to an earlier context) has no effect,
  whatever it says: it leaves every published state, the error notifier and all other requests as
  they are, begins no fetch, and only takes itself off the list and off the published number.\<close>

theorem superseded_answer_ignored:
  fixes fe :: "('p, 'v) fetch_env" and outcome :: "'p fetch_outcome"
  assumes "world_reach env descriptors w D" and p: "jm_get (so_fetches (fw_orch w)) i = Some p"
    and "\<not> fetchCanCommit i p w" and "lost i p w"
  defines "w' \<equiv> settleFetch fe i outcome w"
  shows "fw_store w' = (fw_store w)\<lparr>pendingRequests := pendingRequests (fw_store w) - 1\<rparr> \<and>
    fw_notifier w' = fw_notifier w \<and> fw_handledErrors w' = fw_handledErrors w \<and>
    fw_resumptions w' = fw_resumptions w \<and>
    so_fetches (fw_orch w') = jm_delete i (so_fetches (fw_orch w)) \<and>
    (\<forall>a d s. scope_ok d s \<longrightarrow> getInFlight (runtimeAt w' a) d s =
      (case getInFlight (runtimeAt w a) d s of
         None \<Rightarrow> None | Some (r, t) \<Rightarrow> if if_requestId r = i then None else Some (r, t)))"
  unfolding w'_def by (rule lost_answer [OF inv_world [OF assms(1)] assms(2-4)])

text \<open>A request is superseded by a second one made by hand; then the first is answered.\<close>

definition exampleSuperseded :: "string fetch_world" where
  "exampleSuperseded = fetch_run
     [(exampleFetch 5, FePerform ''pods'' ''c1|default'' manualOptions),
      (exampleFetch 6, FePerform ''pods'' ''c1|default'' manualOptions)] initialWorld"

lemma superseded_reach: "world_reach (example_env True) noDescriptors exampleSuperseded {}"
  unfolding exampleSuperseded_def
  by (rule perform_reach [OF world_init])
    (simp add: example_setting pods_scope_ok, simp add: exampleFetch_def)

lemma superseded_report:
  "map_of (so_fetches (fw_orch exampleSuperseded)) 1 = Some \<lparr>pf_domain = ''pods'', pf_scope = ''c1|default'',
     pf_runtime = 1, pf_contextVersion = 0, pf_options = manualOptions\<rparr> \<and>
   pendingRequests (fw_store exampleSuperseded) = 2 \<and> aborted (fw_orch exampleSuperseded) 1 \<and>
   lost 1 \<lparr>pf_domain = ''pods'', pf_scope = ''c1|default'',
     pf_runtime = 1, pf_contextVersion = 0, pf_options = manualOptions\<rparr> exampleSuperseded"
  by code_simp

theorem superseded_answer_ignored_witness:
  "pendingRequests (fw_store (settleFetch (exampleFetch 8) 1 (Fetched (Some exampleSnapshot) None False)
     exampleSuperseded)) = 1"
proof -
  let ?p = "\<lparr>pf_domain = ''pods'', pf_scope = ''c1|default'', pf_runtime = 1,
     pf_contextVersion = 0, pf_options = manualOptions\<rparr>"
  have p: "jm_get (so_fetches (fw_orch exampleSuperseded)) 1 = Some ?p" and l: "lost 1 ?p exampleSuperseded"
    using superseded_report by simp_all
  have "\<not> fetchCanCommit 1 ?p exampleSuperseded" using superseded_report by (simp add: fetchCanCommit_def)
  from superseded_answer_ignored [OF superseded_reach p this l, of "exampleFetch 8"
    "Fetched (Some exampleSnapshot) None False"] superseded_report show ?thesis by simp
qed

section \<open>Trailing requests\<close>

text \<open>The runtime of a scope that was answered\<close>

definition answered :: "string \<Rightarrow> string \<Rightarrow> cluster_runtime \<Rightarrow> cluster_runtime" where
  "answered d s rt = markPermissionAllowed (markReconciled rt d s) d s"

lemma keeps_answered:
  assumes "sok d s" "\<And>st a. c (st\<lparr>ss_reconciliation := a\<rparr>) = c st" "\<And>st a. c (st\<lparr>ss_permission := a\<rparr>) = c st"
  shows "keeps c rt (answered d s rt)"
  unfolding answered_def markPermissionAllowed_def
  by (rule keeps_trans [OF keeps_reconciliation(2) keeps_permission]) (simp_all add: assms)

lemma answered_state:
  assumes sn: "sound rt" and ok: "sok d s"
  shows "ss_activation (getScopeState (answered d s rt) d (Some s)) = ss_activation (getScopeState rt d (Some s))"
    "ss_fetch (getScopeState (answered d s rt) d (Some s)) = ss_fetch (getScopeState rt d (Some s))"
    "ss_reconciliation (getScopeState (answered d s rt) d (Some s)) = ReconClean"
    "ss_permission (getScopeState (answered d s rt) d (Some s)) = PermAllowed"
    "sound (answered d s rt)"
proof -
  have "keeps ss_activation rt (answered d s rt)" "keeps ss_fetch rt (answered d s rt)"
    using ok by (simp_all add: keeps_answered)
  then show "ss_activation (getScopeState (answered d s rt) d (Some s)) = ss_activation (getScopeState rt d (Some s))"
    "ss_fetch (getScopeState (answered d s rt) d (Some s)) = ss_fetch (getScopeState rt d (Some s))"
    and sn2: "sound (answered d s rt)" using sn ok by (simp_all add: keeps_def)
  have "keeps c rt (markReconciled rt d s)" if "\<And>st a. c (st\<lparr>ss_reconciliation := a\<rparr>) = c st" for c :: "scoped_state \<Rightarrow> nat"
    using that ok by (rule keeps_reconciliation)
  then have sm: "sound (markReconciled rt d s)" using sn by (metis keeps_def)
  have "ss_reconciliation (getScopeState (markReconciled rt d s) d (Some s)) = ReconClean"
    using sn ok by (simp add: markReconciled_def Let_def get_store)
  then show "ss_reconciliation (getScopeState (answered d s rt) d (Some s)) = ReconClean"
    "ss_permission (getScopeState (answered d s rt) d (Some s)) = PermAllowed"
    using sm ok by (auto simp: answered_def markPermissionAllowed_def applyPermissionEvent_def Let_def get_store)
qed

lemma auth_kept:
  "isAuthAvailable (fst (applyFetchEvent rt d s' e)) = isAuthAvailable rt"
  "isAuthAvailable (markReconciled rt d s) = isAuthAvailable rt"
  "isAuthAvailable (answered d s rt) = isAuthAvailable rt"
  by (simp_all add: answered_def markPermissionAllowed_def applyFetchEvent_def markReconciled_def
      applyPermissionEvent_def isAuthAvailable_def storeScopeState_def Let_def)

lemma serviceable_same:
  "(\<And>a. isAuthAvailable (so_heap o2 a) = isAuthAvailable (so_heap o1 a)) \<Longrightarrow>
   so_clusterRuntimes o2 = so_clusterRuntimes o1 \<Longrightarrow>
   isScopeClusterServiceable env s o2 = isScopeClusterServiceable env s o1"
  by (simp add: isScopeClusterServiceable_def cong: option.case_cong)

lemma set_twice [simp]: "setRuntime a rt2 (setRuntime a rt1 o1) = setRuntime a rt2 o1"
  by (simp add: setRuntime_def)

lemma reconciled_route:
  assumes w: "world_inv env D n w" and p: "jm_get (so_fetches (fw_orch w)) i = Some p"
    and r: "getInFlight (runtimeAt w (pf_runtime p)) (pf_domain p) (Some (pf_scope p)) = Some (r, t)"
    and en: "isScopedDomainEnabled (runtimeAt w (pf_runtime p)) (pf_domain p) (pf_scope p)"
  defines "w1 \<equiv> onRuntime (pf_runtime p) (\<lambda>rt. markReconciled rt (pf_domain p) (pf_scope p)) w"
  shows "routeScope (pf_scope p) w1 = Some (w1, pf_runtime p)"
    and "isScopedDomainEnabled (runtimeAt w1 (pf_runtime p)) (pf_domain p) (pf_scope p)"
    and "getInFlight (runtimeAt w1 (pf_runtime p)) (pf_domain p) (Some (pf_scope p)) = Some (r, t)"
proof -
  let ?a = "pf_runtime p" and ?d = "pf_domain p" and ?s = "pf_scope p"
  have fl: "flights_ok (fw_orch w)" and sn: "sound (runtimeAt w ?a)" using w by (simp_all add: world_inv_def orch_inv_def)
  have ok: "sok ?d ?s" and bel: "belongs (fw_orch w) ?s ?a"
    using flights_fetch [OF fl p] by (simp_all add: fetch_ok_def)
  have cur: "isRuntimeCurrent ?a (fw_orch w)"
    using flights_tracked [OF fl ok in_flight_fetch [OF r]] by (simp add: tracked_ok_def)
  have heap: "runtimeAt w1 ?a = markReconciled (runtimeAt w ?a) ?d ?s" by (simp add: w1_def)
  have "getRuntimeForScope ?s (fw_orch w1) = Some (fw_orch w1, ?a)"
  proof (rule route_current)
    show "belongs (fw_orch w1) ?s ?a" using bel by (auto simp: w1_def belongs_def split: option.splits)
    show "isRuntimeCurrent ?a (fw_orch w1)" using cur by (auto simp: w1_def isRuntimeCurrent_def)
  qed
  then show "routeScope ?s w1 = Some (w1, ?a)" by (simp add: routeScope_def)
  have "keeps ss_activation (runtimeAt w ?a) (runtimeAt w1 ?a)" "keeps ss_fetch (runtimeAt w ?a) (runtimeAt w1 ?a)"
    unfolding heap using ok by (simp_all add: keeps_reconciliation)
  then show "isScopedDomainEnabled (runtimeAt w1 ?a) ?d ?s"
      "getInFlight (runtimeAt w1 ?a) ?d (Some ?s) = Some (r, t)"
    using en r sn ok by (simp_all add: keeps_def isScopedDomainEnabled_def getInFlight_def getFetchState_def)
qed

text \<open>What a successful answer does to the streaming half's state: only the runtime changes.\<close>

lemma answer_orch:
  assumes w: "world_inv env D n w" and p: "jm_get (so_fetches (fw_orch w)) i = Some p"
    and r: "getInFlight (runtimeAt w (pf_runtime p)) (pf_domain p) (Some (pf_scope p)) = Some (r, t)" "if_requestId r = i"
    and can: "fetchCanCommit i p w" and ne: "pf_scope p \<noteq> []"
    and en: "isScopedDomainEnabled (runtimeAt w (pf_runtime p)) (pf_domain p) (pf_scope p)"
  shows "fw_orch (applyFetchResult fe p snap etag notModified w) =
    setRuntime (pf_runtime p) (answered (pf_domain p) (pf_scope p) (runtimeAt w (pf_runtime p))) (fw_orch w)"
proof -
  let ?a = "pf_runtime p" and ?d = "pf_domain p" and ?s = "pf_scope p"
  have fl: "flights_ok (fw_orch w)" using w by (simp add: world_inv_def orch_inv_def)
  have ok: "sok ?d ?s" using flights_fetch [OF fl p] by (simp add: fetch_ok_def)
  have tr: "tracked_ok (fw_orch w) ?a ?d (Some ?s) r" by (rule flights_tracked [OF fl ok in_flight_fetch [OF r(1)]])
  define w1 where "w1 = onRuntime ?a (\<lambda>rt. markReconciled rt ?d ?s) w"
  note rr = reconciled_route [OF w p r(1) en, folded w1_def]
  have "if_contextVersion r = so_contextVersion (fw_orch w1)"
    using tr can p r(2) by (auto simp: tracked_ok_def fetchCanCommit_def w1_def)
  then have "\<not> trackedForeign ?d ?s ?a w1" by (simp add: trackedForeign_def rr(3))
  moreover have "applyFetchResult fe p snap etag notModified w = (case (if notModified then None else snap) of
      None \<Rightarrow> applyNotModified (fe_now fe) p w1
    | Some snap \<Rightarrow> applySnapshot fe ?d snap etag (fo_isManual (pf_options p)) ?s
        (fo_allowDisabledRetainedScope (pf_options p)) w1)"
    unfolding applyFetchResult_def w1_def Let_def by (rule refl)
  ultimately have "fw_orch (applyFetchResult fe p snap etag notModified w) =
      setRuntime ?a (markPermissionAllowed (runtimeAt w1 ?a) ?d ?s) (fw_orch w1)"
    using rr(1,2) ne
    by (cases "if notModified then None else snap")
      (simp_all add: applyNotModified_def applySnapshot_def clearRefreshError_def Let_def)
  then show ?thesis by (simp add: w1_def answered_def)
qed

lemma answered_clusterId [simp]: "cr_clusterId (answered d s rt) = cr_clusterId rt"
  by (simp add: answered_def markPermissionAllowed_def applyPermissionEvent_def Let_def)

lemma begin_effect:
  fixes previous :: "'p snap"
  assumes "sound (runtimeAt w a)" "sok d s" "getInFlight (runtimeAt w a) d (Some s) = None" "\<not> signalAborted options w"
    and "0 \<le> pendingRequests (fw_store w)"
  defines "w' \<equiv> fst (beginFetch d s options a previous w)" and "k \<equiv> Suc (so_requestCounter (fw_orch w))"
  shows "so_fetches (fw_orch w') = jm_set k \<lparr>pf_domain = d, pf_scope = s, pf_runtime = a,
      pf_contextVersion = so_contextVersion (fw_orch w), pf_options = options\<rparr> (so_fetches (fw_orch w))"
    and "so_requestCounter (fw_orch w') = k"
    and "pendingRequests (fw_store w') = pendingRequests (fw_store w) + 1"
    and "\<exists>r. getInFlight (runtimeAt w' a) d (Some s) = Some (r, False) \<and> if_requestId r = k"
proof -
  have idle: "ss_fetch (getScopeState (runtimeAt w a) d (Some s)) = FetchIdle"
    using assms(3) by (simp add: getInFlight_def getFetchState_def trackedRequest_def split: fetch_state.splits)
  have "\<not> signalAborted options (onStore f w)" for f
    using assms(4) by (simp add: signalAborted_def cong: option.case_cong)
  then have w': "w' = onStore (markPendingRequest 1) (onOrch (beginRequest d s options a)
      (onStore (setScopedDomainState d s (\<lambda>x. Some (loadingState previous (fo_isManual options) s x))) w))"
    by (simp add: w'_def beginFetch_def Let_def)
  show "so_fetches (fw_orch w') = jm_set k \<lparr>pf_domain = d, pf_scope = s, pf_runtime = a,
      pf_contextVersion = so_contextVersion (fw_orch w), pf_options = options\<rparr> (so_fetches (fw_orch w))"
    "so_requestCounter (fw_orch w') = k"
    "pendingRequests (fw_store w') = pendingRequests (fw_store w) + 1"
    using assms(5) by (simp_all add: w' beginRequest_def Let_def k_def markPendingRequest_def)
  show "\<exists>r. getInFlight (runtimeAt w' a) d (Some s) = Some (r, False) \<and> if_requestId r = k"
    using fetch_get [OF assms(1,2,2)] idle
    by (simp add: w' beginRequest_def Let_def k_def setInFlight_def getInFlight_def getFetchState_def trackedRequest_def)
qed

text \<open>The world after the tracked request of a scope was settled, its runtime having become \<open>rt\<close> meanwhile\<close>

lemma settle_tracked:
  assumes w: "world_inv env D n w" and p: "jm_get (so_fetches (fw_orch w)) i = Some p"
    and r: "getInFlight (runtimeAt w (pf_runtime p)) (pf_domain p) (Some (pf_scope p)) = Some (r, t)" "if_requestId r = i"
    and rt: "sound rt" "cr_clusterId rt = cr_clusterId (runtimeAt w (pf_runtime p))"
      "isAuthAvailable rt = isAuthAvailable (runtimeAt w (pf_runtime p))"
      "getFetchState rt (pf_domain p) (Some (pf_scope p)) =
       getFetchState (runtimeAt w (pf_runtime p)) (pf_domain p) (Some (pf_scope p))"
  defines "o2 \<equiv> fst (settleRequest i (setRuntime (pf_runtime p) rt (fw_orch w)))"
  shows "settleRequest i (setRuntime (pf_runtime p) rt (fw_orch w)) = (o2, Some (r, t))"
    and "so_fetches o2 = jm_delete i (so_fetches (fw_orch w))"
      "so_requestCounter o2 = so_requestCounter (fw_orch w)" "so_contextVersion o2 = so_contextVersion (fw_orch w)"
    and "getRuntimeForScope (pf_scope p) o2 = Some (o2, pf_runtime p)"
    and "isScopeClusterServiceable se (pf_scope p) o2 = isScopeClusterServiceable se (pf_scope p) (fw_orch w)"
    and "sound (so_heap o2 (pf_runtime p))" "getInFlight (so_heap o2 (pf_runtime p)) (pf_domain p) (Some (pf_scope p)) = None"
    and "canRetryReconciliation (so_heap o2 (pf_runtime p)) (pf_domain p) (pf_scope p) now =
        canRetryReconciliation rt (pf_domain p) (pf_scope p) now"
      "isScopedDomainEnabled (so_heap o2 (pf_runtime p)) (pf_domain p) (pf_scope p) =
       isScopedDomainEnabled rt (pf_domain p) (pf_scope p)"
      "isPermissionDenied (so_heap o2 (pf_runtime p)) (pf_domain p) (pf_scope p) =
       isPermissionDenied rt (pf_domain p) (pf_scope p)"
proof -
  let ?a = "pf_runtime p" and ?d = "pf_domain p" and ?s = "pf_scope p"
  let ?o1 = "setRuntime ?a rt (fw_orch w)"
  let ?rt = "fst (applyFetchEvent rt ?d (Some ?s) (FetchSettled i))"
  have fl: "flights_ok (fw_orch w)" using w by (simp add: world_inv_def orch_inv_def)
  have ok: "sok ?d ?s" and bel: "belongs (fw_orch w) ?s ?a"
    using flights_fetch [OF fl p] by (simp_all add: fetch_ok_def)
  have cur: "isRuntimeCurrent ?a (fw_orch w)"
    using flights_tracked [OF fl ok in_flight_fetch [OF r(1)]] by (simp add: tracked_ok_def)
  have p1: "jm_get (so_fetches ?o1) i = Some p" using p by simp
  obtain tracked where o2: "settleRequest i ?o1 = (o2, tracked)" by (metis o2_def prod.collapse)
  have tracked: "tracked = Some (r, t)"
    using settleRequest_cases(12) [OF p1, unfolded o2 snd_conv] r rt(4) by (simp add: getInFlight_def)
  note eq = settleRequest_cases(1-9) [OF p1, unfolded o2 fst_conv]
  have heap: "so_heap o2 = (so_heap (fw_orch w))(?a := ?rt)" by (simp add: eq)
  have keep: "sound ?rt"
      "ss_activation (getScopeState ?rt ?d (Some ?s)) = ss_activation (getScopeState rt ?d (Some ?s))"
      "ss_reconciliation (getScopeState ?rt ?d (Some ?s)) = ss_reconciliation (getScopeState rt ?d (Some ?s))"
      "ss_permission (getScopeState ?rt ?d (Some ?s)) = ss_permission (getScopeState rt ?d (Some ?s))"
    using keeps_fetch [of ss_activation ?d "Some ?s" rt "FetchSettled i"] keeps_fetch [of ss_reconciliation ?d "Some ?s" rt "FetchSettled i"]
      keeps_fetch [of ss_permission ?d "Some ?s" rt "FetchSettled i"] rt(1) ok by (simp_all add: keeps_def)
  show "settleRequest i ?o1 = (o2, Some (r, t))" by (simp add: o2 tracked)
  show "getRuntimeForScope ?s o2 = Some (o2, ?a)"
  proof (rule route_current)
    show "belongs o2 ?s ?a" using bel by (simp add: belongs_def heap eq rt(2) split: option.splits)
    show "isRuntimeCurrent ?a o2" using cur by (simp add: isRuntimeCurrent_def heap eq rt(2))
  qed
  show "isScopeClusterServiceable se ?s o2 = isScopeClusterServiceable se ?s (fw_orch w)"
    by (rule serviceable_same) (simp_all add: heap eq auth_kept rt(3))
  show "getInFlight (so_heap o2 ?a) ?d (Some ?s) = None"
    using fetch_get [OF rt(1) ok ok, of "FetchSettled i"] rt(4) r
    by (simp add: heap getInFlight_def getFetchState_def trackedRequest_def split: fetch_state.splits)
  show "so_fetches o2 = jm_delete i (so_fetches (fw_orch w))"
    "so_requestCounter o2 = so_requestCounter (fw_orch w)" "so_contextVersion o2 = so_contextVersion (fw_orch w)"
    "sound (so_heap o2 ?a)"
    "canRetryReconciliation (so_heap o2 ?a) ?d ?s now = canRetryReconciliation rt ?d ?s now"
    "isScopedDomainEnabled (so_heap o2 ?a) ?d ?s = isScopedDomainEnabled rt ?d ?s"
    "isPermissionDenied (so_heap o2 ?a) ?d ?s = isPermissionDenied rt ?d ?s"
    using keep by (simp_all add: eq heap canRetryReconciliation_def isScopedDomainEnabled_def isPermissionDenied_def)
qed

text \<open>The refetch of the world that \<open>settle_tracked\<close> describes\<close>

lemma perform_settled:
  assumes "getRuntimeForScope s o2 = Some (o2, a)" "w2 = w1\<lparr>fw_orch := o2\<rparr>"
    and "normalizeDomainScope (fe_stream fe) d s = Some s" "s \<noteq> []" "isScopeClusterServiceable (fe_stream fe) s o2"
    and "canRetryReconciliation (so_heap o2 a) d s (fe_now fe)" "isScopedDomainEnabled (so_heap o2 a) d s"
    and "getInFlight (so_heap o2 a) d (Some s) = None"
  shows "performFetch fe d s trailingOptions w2 =
    (if isPermissionDenied (so_heap o2 a) d s then w2
     else fst (beginFetch d s trailingOptions a (getScopedDomainState (fw_store w2) d s) w2))"
proof -
  have "routeScope s w2 = Some (w2, a)" using assms(1,2) by (simp add: routeScope_def)
  with assms show ?thesis
    by (simp add: performFetch_def canFetchScope_def claimFetchSlot_def trailingOptions_def signalAborted_def)
qed

text \<open>C3. A stream signal that arrives while a request is under way is neither lost nor multiplied: when the
  request succeeds (with a snapshot or with the answer that nothing has changed) and the scope is still
  enabled and its cluster serviceable, exactly one further request is begun, for the same scope, automatic
  and on behalf of the signal. It takes the place of the answered request, no signal is latched onto it
  yet, and the published number of pending requests stays the same.\<close>

theorem signal_refetches_once:
  fixes fe :: "('p, 'v) fetch_env" and snap :: "'p snapshot option" and etag :: "string option" and notModified :: bool
  assumes reach: "world_reach env descriptors w D" and p: "jm_get (so_fetches (fw_orch w)) i = Some p"
    and r: "getInFlight (runtimeAt w (pf_runtime p)) (pf_domain p) (Some (pf_scope p)) = Some (r, True)" "if_requestId r = i"
    and can: "fetchCanCommit i p w"
    and norm: "normalizeDomainScope (fe_stream fe) (pf_domain p) (pf_scope p) = Some (pf_scope p)" "pf_scope p \<noteq> []"
    and serve: "isScopeClusterServiceable (fe_stream fe) (pf_scope p) (fw_orch w)"
    and en: "isScopedDomainEnabled (runtimeAt w (pf_runtime p)) (pf_domain p) (pf_scope p)"
  defines "w' \<equiv> settleFetch fe i (Fetched snap etag notModified) w" and "k \<equiv> Suc (so_requestCounter (fw_orch w))"
  shows "so_fetches (fw_orch w') = jm_set k (p\<lparr>pf_options := trailingOptions\<rparr>) (jm_delete i (so_fetches (fw_orch w))) \<and>
    (\<exists>r'. getInFlight (runtimeAt w' (pf_runtime p)) (pf_domain p) (Some (pf_scope p)) = Some (r', False) \<and>
       if_requestId r' = k) \<and>
    so_requestCounter (fw_orch w') = k \<and> pendingRequests (fw_store w') = pendingRequests (fw_store w)"
proof -
  let ?a = "pf_runtime p" and ?d = "pf_domain p" and ?s = "pf_scope p"
  have w: "world_inv env D 0 w" by (rule inv_world [OF reach])
  have fl: "flights_ok (fw_orch w)" and sn: "sound (runtimeAt w ?a)" using w by (simp_all add: world_inv_def orch_inv_def)
  have ok: "sok ?d ?s" using flights_fetch [OF fl p] by (simp add: fetch_ok_def)
  let ?rt = "answered ?d ?s (runtimeAt w ?a)"
  define w1 where "w1 = applyFetchResult fe p snap etag notModified w"
  have "smooth env D 0 w w1" unfolding w1_def by (rule smooth_result [OF ok])
  then have i1: "world_inv env D 0 w1" using w by (rule smoothD)
  have o1: "fw_orch w1 = setRuntime ?a ?rt (fw_orch w)"
    unfolding w1_def by (rule answer_orch [OF w p r can norm(2) en])
  have pend: "pendingRequests (fw_store w1) = pendingRequests (fw_store w)" "0 \<le> pendingRequests (fw_store w)"
    using w i1 by (simp_all add: world_inv_def o1)
  note ans = answered_state [OF sn ok]
  have "getFetchState ?rt ?d (Some ?s) = getFetchState (runtimeAt w ?a) ?d (Some ?s)"
    using ans(2) by (simp add: getFetchState_def)
  note st = settle_tracked [OF w p r ans(5) answered_clusterId auth_kept(3) this, folded o1]
  define o2 where "o2 = fst (settleRequest i (fw_orch w1))"
  note st = st [folded o2_def]
  define w2 where "w2 = w1\<lparr>fw_orch := o2\<rparr>"
  have "canRetryReconciliation (so_heap o2 ?a) ?d ?s (fe_now fe)" "isScopedDomainEnabled (so_heap o2 ?a) ?d ?s"
      "\<not> isPermissionDenied (so_heap o2 ?a) ?d ?s" "isScopeClusterServiceable (fe_stream fe) ?s o2"
    using st(6,9-11) serve en ans(1,3,4)
    by (simp_all add: canRetryReconciliation_def isScopedDomainEnabled_def isPermissionDenied_def)
  then have perform: "performFetch fe ?d ?s trailingOptions w2 =
      fst (beginFetch ?d ?s trailingOptions ?a (getScopedDomainState (fw_store w2) ?d ?s) w2)"
    using perform_settled [OF st(5) w2_def norm _ _ _ st(8)] by simp
  have ctx: "pf_contextVersion p = so_contextVersion o2" using can by (simp add: fetchCanCommit_def st(4))
  then have w': "w' = onStore (markPendingRequest (- 1)) (performFetch fe ?d ?s trailingOptions w2)"
    using can by (simp add: w'_def settleFetch_def p w1_def [symmetric] finishFetch_def st(1) w2_def)
  have "sound (runtimeAt w2 ?a)" "getInFlight (runtimeAt w2 ?a) ?d (Some ?s) = None"
    "\<not> signalAborted trailingOptions w2" "0 \<le> pendingRequests (fw_store w2)"
    using st(7,8) pend by (simp_all add: w2_def signalAborted_def trailingOptions_def)
  note be = begin_effect [OF this(1) ok this(2-4), of "getScopedDomainState (fw_store w2) ?d ?s", folded perform]
  have "p\<lparr>pf_options := trailingOptions\<rparr> = \<lparr>pf_domain = ?d, pf_scope = ?s, pf_runtime = ?a,
      pf_contextVersion = so_contextVersion (fw_orch w2), pf_options = trailingOptions\<rparr>"
    using ctx by (simp add: w2_def)
  then show ?thesis
    using be pend by (simp add: w' k_def markPendingRequest_def w2_def st(2,3))
qed


lemma busy_ready:
  "normalizeDomainScope (fe_stream (exampleFetch 8)) ''pods'' ''c1|default'' = Some ''c1|default''"
  "fetchCanCommit 1 \<lparr>pf_domain = ''pods'', pf_scope = ''c1|default'', pf_runtime = 1,
     pf_contextVersion = 0, pf_options = manualOptions\<rparr> exampleBusy"
  "isScopeClusterServiceable (fe_stream (exampleFetch 8)) ''c1|default'' (fw_orch exampleBusy)"
  by code_simp+

theorem signal_refetches_once_witness:
  "so_fetches (fw_orch (settleFetch (exampleFetch 8) 1 (Fetched (Some exampleSnapshot) None False) exampleBusy)) =
     [(2, \<lparr>pf_domain = ''pods'', pf_scope = ''c1|default'', pf_runtime = 1,
     pf_contextVersion = 0, pf_options = trailingOptions\<rparr>)]"
  using signal_refetches_once [OF busy_reach, of 1 "\<lparr>pf_domain = ''pods'', pf_scope = ''c1|default'',
      pf_runtime = 1, pf_contextVersion = 0, pf_options = manualOptions\<rparr>" _ "exampleFetch 8"
      "Some exampleSnapshot" None False]
    busy_facts busy_ready by (simp add: busy_facts)

section \<open>Denials\<close>

definition refused :: "string \<Rightarrow> string \<Rightarrow> cluster_runtime \<Rightarrow> cluster_runtime" where
  "refused d s rt = markReconciled (markPermissionDenied rt d s) d s"

lemma refused_fields [simp]:
  "cr_clusterId (refused d s rt) = cr_clusterId rt" "isAuthAvailable (refused d s rt) = isAuthAvailable rt"
  by (simp_all add: refused_def markPermissionDenied_def markReconciled_def applyPermissionEvent_def
      isAuthAvailable_def storeScopeState_def Let_def)

lemma refused_state:
  assumes sn: "sound rt" and ok: "sok d s"
  shows "isScopedDomainEnabled (refused d s rt) d s = isScopedDomainEnabled rt d s"
    "getFetchState (refused d s rt) d (Some s) = getFetchState rt d (Some s)"
    "canRetryReconciliation (refused d s rt) d s now" "isPermissionDenied (refused d s rt) d s"
    "sound (refused d s rt)"
proof -
  have keep: "keeps c rt (refused d s rt)"
    if "\<And>st a. c (st\<lparr>ss_reconciliation := a\<rparr>) = c st" "\<And>st a. c (st\<lparr>ss_permission := a\<rparr>) = c st" for c :: "scoped_state \<Rightarrow> 'c"
    unfolding refused_def markPermissionDenied_def
    by (rule keeps_trans [OF keeps_permission keeps_reconciliation(2)]) (simp_all add: that ok)
  show "getFetchState (refused d s rt) d (Some s) = getFetchState rt d (Some s)" "sound (refused d s rt)"
    using keep [of ss_fetch] sn ok by (simp_all add: keeps_def getFetchState_def)
  show "isScopedDomainEnabled (refused d s rt) d s = isScopedDomainEnabled rt d s"
    using keep [of ss_activation] sn ok by (simp add: keeps_def isScopedDomainEnabled_def)
  have "keeps ss_fetch rt (markPermissionDenied rt d s)"
    unfolding markPermissionDenied_def by (rule keeps_permission) (simp_all add: ok)
  then have sm: "sound (markPermissionDenied rt d s)" using sn by (simp add: keeps_def)
  have "ss_permission (getScopeState (markPermissionDenied rt d s) d (Some s)) = PermDenied"
    using sn ok by (auto simp: markPermissionDenied_def applyPermissionEvent_def Let_def get_store)
  then show "canRetryReconciliation (refused d s rt) d s now" "isPermissionDenied (refused d s rt) d s"
    using sm ok by (simp_all add: refused_def markReconciled_def Let_def get_store canRetryReconciliation_def
        isPermissionDenied_def)
qed

lemma perform_denied:
  assumes w: "world_inv env D n w" and ok: "sok d s" and r: "routeScope s w = Some (w, a)"
    and den: "isPermissionDenied (runtimeAt w a) d s" and auto: "\<not> fo_isManual options"
    and norm: "normalizeDomainScope (fe_stream fe) d v = Some s" "s \<noteq> []"
  shows "so_fetches (fw_orch (performFetch fe d v options w)) = so_fetches (fw_orch w)"
proof -
  obtain w1 can where c: "canFetchScope fe d s options w = (w1, can)" by fastforce
  have "smooth env D n w w1" using smooth_canFetch [OF ok, of env D n w fe options] c by simp
  then have same: "so_fetches (fw_orch w1) = so_fetches (fw_orch w)" using w by (simp add: smooth_def steady_def)
  have "w1 = w" if can
    using c that r auto by (auto simp: canFetchScope_def Let_def split: if_splits)
  moreover have "so_fetches (fw_orch (fst (claimFetchSlot d s options a w))) = so_fetches (fw_orch w)"
    "snd (claimFetchSlot d s options a w) \<Longrightarrow> fst (claimFetchSlot d s options a w) = w"
    using auto by (auto simp: claimFetchSlot_def split: option.splits prod.splits)
  ultimately show ?thesis
    using same r norm c den auto by (auto simp: performFetch_def split: prod.split)
qed

lemma markPending_get: "getScopedDomainState (markPendingRequest k st) d s = getScopedDomainState st d s"
  by (simp add: getScopedDomainState_def markPendingRequest_def)

lemma denied_orch:
  fixes now :: nat
  assumes "fetchCanCommit i p w" "\<not> js_includes message ''no active clusters available''"
  defines "w1 \<equiv> handleFetchFailure now i p message True w"
  shows "fw_orch w1 = setRuntime (pf_runtime p) (refused (pf_domain p) (pf_scope p) (runtimeAt w (pf_runtime p))) (fw_orch w)"
    and "fw_store w1 = setScopedDomainState (pf_domain p) (pf_scope p)
      (\<lambda>previous. Some (deniedState message (fo_isManual (pf_options p)) previous)) (fw_store w)"
  using assms(1,2) by (simp_all add: w1_def handleFetchFailure_def notifyRefreshError_def refused_def Let_def split: prod.split)

text \<open>C9. A typed denial settles the scope: its request ends, no other is begun in its place even when a
  stream signal was latched onto it, and the published state is an error that is marked as a denial. While
  this lasts, in whatever state a run has reached, whatever happened to the scope since and whatever the
  environment then is, no automatic request begins a fetch of the scope, whatever its options.\<close>

theorem denial_is_settled:
  fixes fe :: "('p, 'v) fetch_env" and message :: string
  assumes reach: "world_reach env descriptors w D" and p: "jm_get (so_fetches (fw_orch w)) i = Some p"
    and r: "getInFlight (runtimeAt w (pf_runtime p)) (pf_domain p) (Some (pf_scope p)) = Some (r, t)" "if_requestId r = i"
    and can: "fetchCanCommit i p w"
    and norm: "normalizeDomainScope (fe_stream fe) (pf_domain p) (pf_scope p) = Some (pf_scope p)" "pf_scope p \<noteq> []"
    and serve: "isScopeClusterServiceable (fe_stream fe) (pf_scope p) (fw_orch w)"
    and en: "isScopedDomainEnabled (runtimeAt w (pf_runtime p)) (pf_domain p) (pf_scope p)"
    and setting: "fetch_setting fe env"
    and msg: "\<not> js_includes message ''no active clusters available''"
  defines "w' \<equiv> settleFetch fe i (FetchFailed message True) w"
  shows "so_fetches (fw_orch w') = jm_delete i (so_fetches (fw_orch w)) \<and>
    isPermissionDenied (runtimeAt w' (pf_runtime p)) (pf_domain p) (pf_scope p) \<and>
    getScopedDomainState (fw_store w') (pf_domain p) (pf_scope p) =
      deniedState message (fo_isManual (pf_options p)) (getScopedDomainState (fw_store w) (pf_domain p) (pf_scope p)) \<and>
    (\<forall>options. \<not> fo_isManual options \<longrightarrow>
      so_fetches (fw_orch (performFetch fe (pf_domain p) (pf_scope p) options w')) = so_fetches (fw_orch w')) \<and>
    (\<forall>w2 D2 (fe2 :: ('p, 'v) fetch_env) given options. world_reach env descriptors w2 D2 \<longrightarrow>
      routeScope (pf_scope p) w2 = Some (w2, pf_runtime p) \<longrightarrow>
      isPermissionDenied (runtimeAt w2 (pf_runtime p)) (pf_domain p) (pf_scope p) \<longrightarrow>
      normalizeDomainScope (fe_stream fe2) (pf_domain p) given = Some (pf_scope p) \<longrightarrow> \<not> fo_isManual options \<longrightarrow>
      so_fetches (fw_orch (performFetch fe2 (pf_domain p) given options w2)) = so_fetches (fw_orch w2))"
proof -
  let ?a = "pf_runtime p" and ?d = "pf_domain p" and ?s = "pf_scope p"
  have w: "world_inv env D 0 w" by (rule inv_world [OF reach])
  have fl: "flights_ok (fw_orch w)" and sn: "sound (runtimeAt w ?a)" using w by (simp_all add: world_inv_def orch_inv_def)
  have ok: "sok ?d ?s" using flights_fetch [OF fl p] by (simp add: fetch_ok_def)
  define w1 where "w1 = handleFetchFailure (fe_now fe) i p message True w"
  note w1 = denied_orch [OF can msg, of "fe_now fe", folded w1_def]
  note rf = refused_state [OF sn ok]
  define o2 where "o2 = fst (settleRequest i (fw_orch w1))"
  note st = settle_tracked [OF w p r rf(5) refused_fields rf(2), folded w1(1), folded o2_def]
  define w2 where "w2 = w1\<lparr>fw_orch := o2\<rparr>"
  have state: "canRetryReconciliation (so_heap o2 ?a) ?d ?s (fe_now fe)" "isScopedDomainEnabled (so_heap o2 ?a) ?d ?s"
      "isPermissionDenied (so_heap o2 ?a) ?d ?s" "isScopeClusterServiceable (fe_stream fe) ?s o2"
    using st(6,9-11) serve en rf(1,3,4) by simp_all
  have "performFetch fe ?d ?s trailingOptions w2 = w2"
    using perform_settled [OF st(5) w2_def norm state(4,1,2) st(8)] state(3) by simp
  then have w': "w' = onStore (markPendingRequest (- 1)) w2"
    by (simp add: w'_def settleFetch_def p w1_def [symmetric] finishFetch_def st(1) w2_def Let_def split: bool.split)
  have i2: "world_inv env D 0 w'" unfolding w'_def by (rule settle_inv [OF w setting])
  have "routeScope ?s w' = Some (w', ?a)" using st(5) by (simp add: routeScope_def w' w2_def onStore_def)
  moreover have "isPermissionDenied (runtimeAt w' ?a) ?d ?s" using state(3) by (simp add: w' w2_def)
  ultimately have "\<not> fo_isManual options \<Longrightarrow> so_fetches (fw_orch (performFetch fe ?d ?s options w')) = so_fetches (fw_orch w')"
    for options by (rule perform_denied [OF i2 ok _ _ _ norm])
  moreover have "so_fetches (fw_orch (performFetch fe2 ?d given options w2)) = so_fetches (fw_orch w2)"
    if "world_reach env descriptors w2 D2" "routeScope ?s w2 = Some (w2, ?a)" "isPermissionDenied (runtimeAt w2 ?a) ?d ?s"
      "normalizeDomainScope (fe_stream fe2) ?d given = Some ?s" "\<not> fo_isManual options"
    for w2 D2 given options and fe2 :: "('p, 'v) fetch_env"
    by (rule perform_denied [OF inv_world [OF that(1)] ok that(2,3,5,4) norm(2)])
  ultimately show ?thesis
    using state(3) st(2) w1(2) by (simp add: w' w2_def markPending_get set_get)
qed

lemma busy_granted: "\<not> js_includes ''403'' ''no active clusters available''"
  by code_simp

theorem denial_is_settled_witness:
  "so_fetches (fw_orch (settleFetch (exampleFetch 8) 1 (FetchFailed ''403'' True) exampleBusy)) = []"
  using denial_is_settled [OF busy_reach, of 1 "\<lparr>pf_domain = ''pods'', pf_scope = ''c1|default'',
      pf_runtime = 1, pf_contextVersion = 0, pf_options = manualOptions\<rparr>" _ _ "exampleFetch 8" "''403''"]
    busy_facts busy_ready example_setting busy_granted by (simp add: busy_facts)

section \<open>Where the code falls short\<close>

lemma unmodified_store:
  assumes "fo_allowDisabledRetainedScope (pf_options p) \<or> (\<exists>w1 a. routeScope (pf_scope p) w = Some (w1, a) \<and>
      fw_store w1 = fw_store w \<and> isScopedDomainEnabled (runtimeAt w1 a) (pf_domain p) (pf_scope p))"
  shows "getScopedDomainState (fw_store (applyNotModified now p w)) (pf_domain p) (pf_scope p) =
    unchangedState now (fo_isManual (pf_options p)) (getScopedDomainState (fw_store w) (pf_domain p) (pf_scope p))"
  using assms by (auto simp: applyNotModified_def Let_def clearRefreshError_def set_get)

text \<open>C37. The answer that nothing has changed clears the denial of the scope in its cluster runtime, so
  that it is fetched automatically again, but not in the published state: a view goes on seeing
  the denial next to a status that is no error.\<close>

theorem not_modified_keeps_denied:
  fixes fe :: "('p, 'v) fetch_env"
  assumes reach: "world_reach env descriptors w D" and p: "jm_get (so_fetches (fw_orch w)) i = Some p"
    and r: "getInFlight (runtimeAt w (pf_runtime p)) (pf_domain p) (Some (pf_scope p)) = Some (r, t)" "if_requestId r = i"
    and can: "fetchCanCommit i p w" and ne: "pf_scope p \<noteq> []"
    and en: "isScopedDomainEnabled (runtimeAt w (pf_runtime p)) (pf_domain p) (pf_scope p)"
    and denied: "sn_permissionDenied (getScopedDomainState (fw_store w) (pf_domain p) (pf_scope p)) = Some True"
  defines "w' \<equiv> applyFetchResult fe p None None True w"
  shows "\<not> isPermissionDenied (runtimeAt w' (pf_runtime p)) (pf_domain p) (pf_scope p) \<and>
    sn_permissionDenied (getScopedDomainState (fw_store w') (pf_domain p) (pf_scope p)) = Some True \<and>
    sn_status (getScopedDomainState (fw_store w') (pf_domain p) (pf_scope p)) \<in> {DsReady, DsIdle}"
proof -
  let ?a = "pf_runtime p" and ?d = "pf_domain p" and ?s = "pf_scope p"
  have w: "world_inv env D 0 w" by (rule inv_world [OF reach])
  have fl: "flights_ok (fw_orch w)" and sn: "sound (runtimeAt w ?a)" using w by (simp_all add: world_inv_def orch_inv_def)
  have ok: "sok ?d ?s" using flights_fetch [OF fl p] by (simp add: fetch_ok_def)
  have o1: "fw_orch w' = setRuntime ?a (answered ?d ?s (runtimeAt w ?a)) (fw_orch w)"
    unfolding w'_def by (rule answer_orch [OF w p r can ne en])
  define w1 where "w1 = onRuntime ?a (\<lambda>rt. markReconciled rt ?d ?s) w"
  have route: "routeScope ?s w1 = Some (w1, ?a)" and same: "isScopedDomainEnabled (runtimeAt w1 ?a) ?d ?s"
    using reconciled_route [OF w p r(1) en] by (simp_all add: w1_def)
  have "w' = applyNotModified (fe_now fe) p w1"
    unfolding w'_def applyFetchResult_def w1_def Let_def by simp
  then have "getScopedDomainState (fw_store w') ?d ?s =
      unchangedState (fe_now fe) (fo_isManual (pf_options p)) (getScopedDomainState (fw_store w) ?d ?s)"
    using unmodified_store [of p w1 "fe_now fe"] route same by (simp add: w1_def)
  then show ?thesis
    using denied answered_state(4) [OF sn ok] by (simp add: o1 isPermissionDenied_def unchangedState_def)
qed

text \<open>A request is denied, repeated by hand, and answered that nothing has changed.\<close>

definition exampleDenied :: "string fetch_world" where
  "exampleDenied = fetch_run
     [(exampleFetch 5, FePerform ''pods'' ''c1|default'' manualOptions),
      (exampleFetch 6, FeSettle 1 (FetchFailed ''403'' True)),
      (exampleFetch 7, FePerform ''pods'' ''c1|default'' manualOptions)] initialWorld"

lemma denied_reach: "world_reach (example_env True) noDescriptors exampleDenied {}"
  unfolding exampleDenied_def
  by (rule perform_reach [OF world_init])
    (simp add: example_setting pods_scope_ok, simp add: exampleFetch_def)

lemma denied_report:
  "report ''pods'' ''c1|default'' 1 exampleDenied =
     ([(2, \<lparr>pf_domain = ''pods'', pf_scope = ''c1|default'', pf_runtime = 1,
        pf_contextVersion = 0, pf_options = manualOptions\<rparr>)], 2, 0, 1,
      Some (\<lparr>if_controller = 2, if_isManual = True, if_streamSignal = None, if_coalesce = None, if_requestId = 2,
        if_cleanup = None, if_completion = Some 2, if_contextVersion = 0, if_domain = ''pods'',
        if_scope = Some ''c1|default''\<rparr>, False), True,
      loadingState EMPTY_SCOPED_STATE True ''c1|default'' (deniedState ''403'' True
        (loadingState EMPTY_SCOPED_STATE True ''c1|default'' EMPTY_SCOPED_STATE)))"
  by code_simp

lemmas denied_facts = denied_report [unfolded report_def prod.inject]

lemma denied_commit: "fetchCanCommit 2 \<lparr>pf_domain = ''pods'', pf_scope = ''c1|default'', pf_runtime = 1,
     pf_contextVersion = 0, pf_options = manualOptions\<rparr> exampleDenied"
  by code_simp

theorem not_modified_keeps_denied_witness:
  "sn_permissionDenied (getScopedDomainState (fw_store (applyFetchResult (exampleFetch 8)
      \<lparr>pf_domain = ''pods'', pf_scope = ''c1|default'', pf_runtime = 1, pf_contextVersion = 0,
       pf_options = manualOptions\<rparr> None None True exampleDenied)) ''pods'' ''c1|default'') = Some True"
proof -
  let ?p = "\<lparr>pf_domain = ''pods'', pf_scope = ''c1|default'', pf_runtime = 1, pf_contextVersion = 0,
       pf_options = manualOptions\<rparr>"
  obtain r t where r: "getInFlight (runtimeAt exampleDenied 1) ''pods'' (Some ''c1|default'') = Some (r, t)" "if_requestId r = 2"
    using denied_facts by auto
  have p: "jm_get (so_fetches (fw_orch exampleDenied)) 2 = Some ?p"
    and en: "isScopedDomainEnabled (runtimeAt exampleDenied 1) ''pods'' ''c1|default''"
    and den: "sn_permissionDenied (getScopedDomainState (fw_store exampleDenied) ''pods'' ''c1|default'') = Some True"
    using denied_facts by (simp_all add: loadingState_def deniedState_def)
  from not_modified_keeps_denied [OF denied_reach p _ r(2), of t "exampleFetch 8"] r(1) en den denied_commit
  show ?thesis by simp
qed

lemma fold_setRuntime [simp]:
  "so_calls (fold (\<lambda>a o2. setRuntime a (f (so_heap o2 a)) o2) xs o1) = so_calls o1"
  "so_contextVersion (fold (\<lambda>a o2. setRuntime a (f (so_heap o2 a)) o2) xs o1) = so_contextVersion o1"
  by (induction xs arbitrary: o1) simp_all

lemma selection_step:
  "so_contextVersion (handleKubeconfigSelectionChanged o1) = Suc (so_contextVersion o1)"
  "so_calls (handleKubeconfigSelectionChanged o1) = so_calls o1 @ [OcSuppressErrors 6000]"
  by (simp_all add: handleKubeconfigSelectionChanged_def clearAllHealth_def clearAllBlockedStreaming_def
      incrementContextVersion_def)

text \<open>C38. A change of the selected kubeconfigs moves the context on without aborting what is under way. The
  answer of a request of before is then discarded whatever it is, and with it the stream signal that was
  latched onto the request: no other request is begun, and the published state of the scope stays
  what it was while the request was under way, that is, loading or updating.\<close>

theorem selection_change_drops_signal:
  fixes fe :: "('p, 'v) fetch_env" and outcome :: "'p fetch_outcome" and message :: string
  assumes reach: "world_reach env descriptors w D" and p: "jm_get (so_fetches (fw_orch w)) i = Some p"
    and r: "getInFlight (runtimeAt w (pf_runtime p)) (pf_domain p) (Some (pf_scope p)) = Some (r, t)" "if_requestId r = i"
    and can: "fetchCanCommit i p w" and fe: "fetch_setting fe env" "fe_descriptors fe = descriptors"
  defines "w' \<equiv> settleFetch fe i outcome (fetch_step fe (FeStreaming EvKubeconfigSelection message) w)"
  shows "so_fetches (fw_orch w') = jm_delete i (so_fetches (fw_orch w)) \<and>
    getInFlight (runtimeAt w' (pf_runtime p)) (pf_domain p) (Some (pf_scope p)) = None \<and>
    (\<forall>d s. getScopedDomainState (fw_store w') d s = getScopedDomainState (fw_store w) d s)"
proof -
  let ?a = "pf_runtime p" and ?d = "pf_domain p" and ?s = "Some (pf_scope p)"
  define w1 where "w1 = fetch_step fe (FeStreaming EvKubeconfigSelection message) w"
  have w: "world_inv env D 0 w" by (rule inv_world [OF reach])
  then have I: "orch_inv env None D (fw_orch w)" and fl: "flights_ok (fw_orch w)" by (simp_all add: world_inv_def orch_inv_def)
  have ok: "scope_ok ?d ?s" using flights_fetch [OF fl p] by (simp add: fetch_ok_def)
  have o1: "fw_orch w1 = handleKubeconfigSelectionChanged (fw_orch w)" and st: "fw_store w1 = fw_store w"
    by (simp_all add: w1_def runStreaming_def Let_def selection_step)
  have "no_new (fw_orch w) (fw_orch w1)"
    using quiet_kubeconfigSelection [of env None D "fw_orch w"] I by (simp add: quiet_def o1)
  have w': "w' = settleFetch fe i outcome w1" by (simp only: w'_def w1_def)
  from \<open>no_new (fw_orch w) (fw_orch w1)\<close> have fewer: "fewer (fw_orch w) (fw_orch w1)" by (simp add: no_new_def)
  then have p1: "jm_get (so_fetches (fw_orch w1)) i = Some p" "so_fetches (fw_orch w1) = so_fetches (fw_orch w)"
    using p by (simp_all add: fewer_def steady_def)
  have stale: "pf_contextVersion p \<noteq> so_contextVersion (fw_orch w1)"
    using can by (simp add: fetchCanCommit_def o1 selection_step)
  have reach1: "world_reach env descriptors w1 (fetch_delivered (FeStreaming EvKubeconfigSelection message) w D)"
    unfolding w1_def by (rule world_step [OF reach fe]) simp
  have no: "\<not> fetchCanCommit i p w1" "lost i p w1" using stale by (simp_all add: fetchCanCommit_def lost_def)
  have "fw_store w' = (fw_store w1)\<lparr>pendingRequests := pendingRequests (fw_store w1) - 1\<rparr> \<and>
      so_fetches (fw_orch w') = jm_delete i (so_fetches (fw_orch w1)) \<and>
      (\<forall>a d s. scope_ok d s \<longrightarrow> getInFlight (runtimeAt w' a) d s = (case getInFlight (runtimeAt w1 a) d s of
         None \<Rightarrow> None | Some (r, t) \<Rightarrow> if if_requestId r = i then None else Some (r, t)))"
    unfolding w' using lost_answer [OF inv_world [OF reach1] p1(1) no, of fe outcome] by blast
  moreover have "if_requestId r' = i" if "getInFlight (runtimeAt w1 ?a) ?d ?s = Some (r', t')" for r' t'
  proof -
    have "fetch_of (runtimeAt w1 ?a) ?d ?s = fetch_of (runtimeAt w ?a) ?d ?s \<or> fetch_of (runtimeAt w1 ?a) ?d ?s = None"
      using fewer ok by (simp add: fewer_def)
    then show ?thesis using in_flight_fetch [OF that] in_flight_fetch [OF r(1)] r(2) by auto
  qed
  ultimately show ?thesis
    using ok by (auto simp: p1(2) st getScopedDomainState_def split: option.split)
qed

theorem selection_change_drops_signal_witness:
  "sn_status (getScopedDomainState (fw_store (settleFetch (exampleFetch 8) 1 (Fetched (Some exampleSnapshot) None False)
     (fetch_step (exampleFetch 8) (FeStreaming EvKubeconfigSelection []) exampleBusy))) ''pods'' ''c1|default'') = DsLoading"
  using selection_change_drops_signal [OF busy_reach, of 1 "\<lparr>pf_domain = ''pods'', pf_scope = ''c1|default'',
      pf_runtime = 1, pf_contextVersion = 0, pf_options = manualOptions\<rparr>" _ _ "exampleFetch 8"
      "Fetched (Some exampleSnapshot) None False" "[]"]
    busy_facts busy_ready(2) example_setting by (simp add: exampleFetch_def loadingState_def EMPTY_SCOPED_STATE_def)

end
