(* ===== verification/LineDiff.thy ===== *)
theory LineDiff
  imports Prelude
begin

text \<open>
  \<open>frontend/src/shared/components/diff/lineDiff.ts\<close> and the row merging of \<open>diffUtils.ts\<close>: the
  line diff behind the YAML and object comparisons. Myers' greedy algorithm with a budget on its
  work, the walk back through the recorded frontiers, and the pairing of removed and added lines.

  A JavaScript number that may be \<open>undefined\<close> (an array read out of range) or \<open>NaN\<close> (arithmetic
  on it) is an \<open>int option\<close>; comparisons with \<open>None\<close> are false.
\<close>

section \<open>Numbers and arrays\<close>

type_synonym js_number = "int option"

definition num_less :: "js_number \<Rightarrow> js_number \<Rightarrow> bool" where
  "num_less a b \<longleftrightarrow> (case (a, b) of (Some x, Some y) \<Rightarrow> x < y | _ \<Rightarrow> False)"

definition num_ge :: "js_number \<Rightarrow> int \<Rightarrow> bool" where
  "num_ge a n \<longleftrightarrow> (case a of Some x \<Rightarrow> n \<le> x | None \<Rightarrow> False)"

definition num_plus :: "js_number \<Rightarrow> int \<Rightarrow> js_number" where
  "num_plus a n = map_option (\<lambda>x. x + n) a"

definition num_read :: "js_number list \<Rightarrow> int \<Rightarrow> js_number" where
  "num_read xs i = (case js_at xs i of Some v \<Rightarrow> v | None \<Rightarrow> None)"

text \<open>\<open>xs[i] = v\<close>: a write behind the end extends the array; a negative index is no element\<close>

definition num_write :: "js_number list \<Rightarrow> int \<Rightarrow> js_number \<Rightarrow> js_number list" where
  "num_write xs i v =
     (if i < 0 then xs
      else if i < int (length xs) then xs[nat i := v]
      else xs @ replicate (nat i - length xs) None @ [v])"

section \<open>Lines\<close>

datatype diff_line_type = LineContext | LineAdded | LineRemoved

record diff_line =
  dl_type :: diff_line_type
  dl_value :: "string option"
  dl_leftLineNumber :: "int option"
  dl_rightLineNumber :: "int option"

datatype too_large_reason = TooLargeInput | TooLargeCompute

record line_diff_result =
  ld_lines :: "diff_line list"
  ld_tooLarge :: bool
  ld_tooLargeReason :: "too_large_reason option"
  ld_leftLineCount :: nat
  ld_rightLineCount :: nat
  ld_computeWork :: nat

record line_diff_budgets =
  maxLinesPerSide :: nat
  maxComputeWork :: nat
  maxRenderableRows :: nat

text \<open>The two replacements of line ends\<close>

fun replace_crlf :: "string \<Rightarrow> string" where
  "replace_crlf (c # d # s) =
     (if c = CHR 0x0D \<and> d = CHR 0x0A then CHR 0x0A # replace_crlf s else c # replace_crlf (d # s))"
| "replace_crlf s = s"

definition splitLines :: "string \<Rightarrow> string list" where
  "splitLines value =
     (let t = List.map (\<lambda>c. if c = CHR 0x0D then CHR 0x0A else c) (replace_crlf value)
      in if t = [] then [] else js_split CHR 0x0A t)"

definition makeTooLargeResult :: "too_large_reason \<Rightarrow> nat \<Rightarrow> nat \<Rightarrow> nat \<Rightarrow> line_diff_result" where
  "makeTooLargeResult reason leftLineCount rightLineCount computeWork =
     \<lparr>ld_lines = [], ld_tooLarge = True, ld_tooLargeReason = Some reason,
      ld_leftLineCount = leftLineCount, ld_rightLineCount = rightLineCount,
      ld_computeWork = computeWork\<rparr>"

section \<open>Budget\<close>

record work_budget =
  wb_used :: nat
  wb_max :: nat

definition consumeComputeWork :: "work_budget \<Rightarrow> bool \<times> work_budget" where
  "consumeComputeWork budget =
     (let b = budget\<lparr>wb_used := wb_used budget + 1\<rparr> in (wb_used b \<le> wb_max b, b))"

section \<open>The frontier\<close>

definition movesDown :: "js_number list \<Rightarrow> int \<Rightarrow> int \<Rightarrow> int \<Rightarrow> bool" where
  "movesDown frontier offset distance diagonal \<longleftrightarrow>
     diagonal = - distance \<or>
     (diagonal \<noteq> distance \<and>
      num_less (num_read frontier (offset + diagonal - 1)) (num_read frontier (offset + diagonal + 1)))"

definition selectMyersFrontierX :: "js_number list \<Rightarrow> int \<Rightarrow> int \<Rightarrow> int \<Rightarrow> js_number" where
  "selectMyersFrontierX frontier offset distance diagonal =
     (if movesDown frontier offset distance diagonal
      then num_read frontier (offset + diagonal + 1)
      else num_plus (num_read frontier (offset + diagonal - 1)) 1)"

definition linesMatch :: "string list \<Rightarrow> string list \<Rightarrow> int \<Rightarrow> int \<Rightarrow> bool" where
  "linesMatch left right x y \<longleftrightarrow>
     x < int (length left) \<and> y < int (length right) \<and> js_at left x = js_at right y"

text \<open>The result is \<open>None\<close> when the budget runs out.\<close>

function advance_loop ::
  "string list \<Rightarrow> string list \<Rightarrow> int \<Rightarrow> int \<Rightarrow> work_budget \<Rightarrow> (int \<times> int) option \<times> work_budget" where
  "advance_loop left right x y budget =
     (if linesMatch left right x y
      then let (ok, b) = consumeComputeWork budget
           in if \<not> ok then (None, b) else advance_loop left right (x + 1) (y + 1) b
      else (Some (x, y), budget))"
  by pat_completeness auto
termination
  by (relation "measure (\<lambda>(left, right, x, y, b). nat (int (length left) - x))")
    (auto simp: linesMatch_def)

declare advance_loop.simps [simp del]

definition advanceMatchingLines ::
  "string list \<Rightarrow> string list \<Rightarrow> js_number \<Rightarrow> js_number \<Rightarrow> work_budget \<Rightarrow>
   (js_number \<times> js_number) option \<times> work_budget" where
  "advanceMatchingLines left right startX startY budget =
     (case (startX, startY) of
        (Some x, Some y) \<Rightarrow>
          (case advance_loop left right x y budget of
             (Some (x', y'), b) \<Rightarrow> (Some (Some x', Some y'), b)
           | (None, b) \<Rightarrow> (None, b))
      | _ \<Rightarrow> (Some (startX, startY), budget))"

text \<open>\<open>None\<close>: the budget ran out; otherwise whether both ends are reached, and the new frontier\<close>

definition advanceMyersFrontier ::
  "string list \<Rightarrow> string list \<Rightarrow> js_number list \<Rightarrow> int \<Rightarrow> int \<Rightarrow> int \<Rightarrow> work_budget \<Rightarrow>
   (bool \<times> js_number list) option \<times> work_budget" where
  "advanceMyersFrontier left right frontier offset distance diagonal budget =
     (let (ok, b) = consumeComputeWork budget in
      if \<not> ok then (None, b)
      else let startX = selectMyersFrontierX frontier offset distance diagonal
           in case advanceMatchingLines left right startX (num_plus startX (- diagonal)) b of
                (None, b') \<Rightarrow> (None, b')
              | (Some (x, y), b') \<Rightarrow>
                  (Some (num_ge x (int (length left)) \<and> num_ge y (int (length right)),
                         num_write frontier (offset + diagonal) x), b'))"

datatype round_result =
    RoundExhausted
  | RoundComplete nat
  | RoundOver "js_number list" work_budget

text \<open>The inner loop over the diagonals of one distance\<close>

function myersRound ::
  "string list \<Rightarrow> string list \<Rightarrow> int \<Rightarrow> int \<Rightarrow> int \<Rightarrow> js_number list \<Rightarrow> work_budget \<Rightarrow> round_result" where
  "myersRound left right offset distance diagonal frontier budget =
     (if distance < diagonal then RoundOver frontier budget
      else case advanceMyersFrontier left right frontier offset distance diagonal budget of
             (None, b) \<Rightarrow> RoundExhausted
           | (Some (complete, frontier'), b) \<Rightarrow>
               if complete then RoundComplete (wb_used b)
               else myersRound left right offset distance (diagonal + 2) frontier' b)"
  by pat_completeness auto
termination
  by (relation "measure (\<lambda>(left, right, off, distance, diagonal, f, b). nat (distance + 1 - diagonal))")
    auto

declare myersRound.simps [simp del]

function myersRounds ::
  "string list \<Rightarrow> string list \<Rightarrow> nat \<Rightarrow> nat \<Rightarrow> js_number list \<Rightarrow> js_number list list \<Rightarrow> work_budget \<Rightarrow>
   (js_number list list \<times> nat) option" where
  "myersRounds left right max1 distance frontier trace budget =
     (if max1 < distance then Some (trace, wb_used budget)
      else let trace' = trace @ [frontier] in
           case myersRound left right (int max1) (int distance) (- int distance) frontier budget of
             RoundExhausted \<Rightarrow> None
           | RoundComplete used \<Rightarrow> Some (trace', used)
           | RoundOver frontier' b \<Rightarrow> myersRounds left right max1 (distance + 1) frontier' trace' b)"
  by pat_completeness auto
termination
  by (relation "measure (\<lambda>(left, right, max1, distance, f, t, b). max1 + 1 - distance)") auto

declare myersRounds.simps [simp del]

definition buildMyersTrace ::
  "string list \<Rightarrow> string list \<Rightarrow> nat \<Rightarrow> (js_number list list \<times> nat) option" where
  "buildMyersTrace left right maxWork =
     (let max1 = length left + length right
      in myersRounds left right max1 0 (replicate (2 * max1 + 1) (Some 0)) []
           \<lparr>wb_used = 0, wb_max = maxWork\<rparr>)"

section \<open>The way back\<close>

text \<open>The lines are pushed in reverse order.\<close>

definition contextLine :: "string list \<Rightarrow> int \<Rightarrow> int \<Rightarrow> diff_line" where
  "contextLine left x y = \<lparr>dl_type = LineContext, dl_value = js_at left (x - 1),
     dl_leftLineNumber = Some x, dl_rightLineNumber = Some y\<rparr>"

definition addedLine :: "string list \<Rightarrow> int \<Rightarrow> diff_line" where
  "addedLine right y = \<lparr>dl_type = LineAdded, dl_value = js_at right (y - 1),
     dl_leftLineNumber = None, dl_rightLineNumber = Some y\<rparr>"

definition removedLine :: "string list \<Rightarrow> int \<Rightarrow> diff_line" where
  "removedLine left x = \<lparr>dl_type = LineRemoved, dl_value = js_at left (x - 1),
     dl_leftLineNumber = Some x, dl_rightLineNumber = None\<rparr>"

function backtrackContext ::
  "string list \<Rightarrow> js_number \<Rightarrow> js_number \<Rightarrow> int \<times> int \<times> diff_line list \<Rightarrow> int \<times> int \<times> diff_line list" where
  "backtrackContext left previousX previousY (x, y, lines) =
     (if num_less previousX (Some x) \<and> num_less previousY (Some y)
      then backtrackContext left previousX previousY (x - 1, y - 1, lines @ [contextLine left x y])
      else (x, y, lines))"
  by pat_completeness auto
termination
  by (relation "measure (\<lambda>(left, p, q, x, y, ls). nat (x - the p))")
    (auto simp: num_less_def split: option.splits)

declare backtrackContext.simps [simp del]

text \<open>The body of the loop over the distances; the last pass, for distance 0, stops after the
  context lines.\<close>

definition backtrackStep ::
  "string list \<Rightarrow> string list \<Rightarrow> int \<Rightarrow> js_number list \<Rightarrow> int \<Rightarrow> int \<times> int \<times> diff_line list \<Rightarrow>
   int \<times> int \<times> diff_line list" where
  "backtrackStep left right offset frontier distance st =
     (let (x, y, lines) = st; diagonal = x - y;
          previousDiagonal = (if movesDown frontier offset distance diagonal then diagonal + 1
                              else diagonal - 1);
          previousX = num_read frontier (offset + previousDiagonal);
          previousY = num_plus previousX (- previousDiagonal);
          (x', y', lines') = backtrackContext left previousX previousY (x, y, lines)
      in if distance = 0 then (x', y', lines')
         else if Some x' = previousX then (x', y' - 1, lines' @ [addedLine right y'])
         else (x' - 1, y', lines' @ [removedLine left x']))"

text \<open>The loop, the last frontier first; \<open>n\<close> frontiers are left.\<close>

primrec backtrackLoop ::
  "string list \<Rightarrow> string list \<Rightarrow> int \<Rightarrow> js_number list list \<Rightarrow> nat \<Rightarrow> int \<times> int \<times> diff_line list \<Rightarrow>
   diff_line list" where
  "backtrackLoop left right offset trace 0 st = snd (snd st)"
| "backtrackLoop left right offset trace (Suc n) st =
     backtrackLoop left right offset trace n (backtrackStep left right offset (trace ! n) (int n) st)"

definition backtrackMyersTrace ::
  "string list \<Rightarrow> string list \<Rightarrow> js_number list list \<Rightarrow> diff_line list" where
  "backtrackMyersTrace left right trace =
     rev (backtrackLoop left right (int (length left + length right)) trace (length trace)
            (int (length left), int (length right), []))"

definition computeBudgetedLineDiff ::
  "string \<Rightarrow> string \<Rightarrow> line_diff_budgets \<Rightarrow> line_diff_result" where
  "computeBudgetedLineDiff before1 after1 budgets =
     (let left = splitLines before1; right = splitLines after1;
          leftLineCount = length left; rightLineCount = length right
      in if maxLinesPerSide budgets < max leftLineCount rightLineCount
         then makeTooLargeResult TooLargeInput leftLineCount rightLineCount 0
         else case buildMyersTrace left right (maxComputeWork budgets) of
                None \<Rightarrow> makeTooLargeResult TooLargeCompute leftLineCount rightLineCount
                          (maxComputeWork budgets)
              | Some (trace, computeWork) \<Rightarrow>
                  \<lparr>ld_lines = backtrackMyersTrace left right trace, ld_tooLarge = False,
                   ld_tooLargeReason = None, ld_leftLineCount = leftLineCount,
                   ld_rightLineCount = rightLineCount, ld_computeWork = computeWork\<rparr>)"

section \<open>Rows of the side-by-side view\<close>

record display_line = diff_line +
  leftType :: diff_line_type
  rightType :: diff_line_type

fun collectDiffChangeBlock ::
  "diff_line list \<Rightarrow> diff_line list \<times> diff_line list \<times> diff_line list" where
  "collectDiffChangeBlock [] = ([], [], [])"
| "collectDiffChangeBlock (l # ls) =
     (if dl_type l = LineContext then ([], [], l # ls)
      else let (removed, added, rest) = collectDiffChangeBlock ls
           in if dl_type l = LineRemoved then (l # removed, added, rest)
              else (removed, l # added, rest))"

definition as_display :: "diff_line \<Rightarrow> diff_line_type \<Rightarrow> diff_line_type \<Rightarrow> display_line" where
  "as_display l lt rt = \<lparr>dl_type = dl_type l, dl_value = dl_value l,
     dl_leftLineNumber = dl_leftLineNumber l, dl_rightLineNumber = dl_rightLineNumber l,
     leftType = lt, rightType = rt\<rparr>"

definition mergeDiffChangePair ::
  "diff_line option \<Rightarrow> diff_line option \<Rightarrow> display_line option" where
  "mergeDiffChangePair removed added =
     (case (removed, added) of
        (Some r, Some a) \<Rightarrow>
          Some \<lparr>dl_type = LineContext, dl_value = Some [], dl_leftLineNumber = dl_leftLineNumber r,
            dl_rightLineNumber = dl_rightLineNumber a, leftType = LineRemoved, rightType = LineAdded\<rparr>
      | (Some r, None) \<Rightarrow> Some (as_display r LineRemoved LineContext)
      | (None, Some a) \<Rightarrow> Some (as_display a LineContext LineAdded)
      | (None, None) \<Rightarrow> None)"

definition mergeDiffChangeBlock :: "diff_line list \<Rightarrow> diff_line list \<Rightarrow> display_line list" where
  "mergeDiffChangeBlock removed added =
     concat (List.map (\<lambda>i. case mergeDiffChangePair (js_at removed (int i)) (js_at added (int i)) of
                             Some row \<Rightarrow> [row] | None \<Rightarrow> [])
               [0..<max (length removed) (length added)])"

definition displayContextLine :: "diff_line \<Rightarrow> display_line" where
  "displayContextLine l = as_display l LineContext LineContext"

lemma collect_rest:
  "length (snd (snd (collectDiffChangeBlock ls))) \<le> length ls"
  by (induction ls) (auto simp: Let_def split: prod.splits)

function mergeDiffLines :: "diff_line list \<Rightarrow> display_line list" where
  "mergeDiffLines [] = []"
| "mergeDiffLines (l # ls) =
     (if dl_type l = LineContext then displayContextLine l # mergeDiffLines ls
      else let (removed, added, rest) = collectDiffChangeBlock (l # ls)
           in mergeDiffChangeBlock removed added @ mergeDiffLines rest)"
  by pat_completeness auto
termination
proof (relation "measure length")
  fix l :: diff_line and ls p removed q added rest
  assume "dl_type l \<noteq> LineContext" "p = collectDiffChangeBlock (l # ls)"
    "(removed, q) = p" "(added, rest) = q"
  then have "rest = snd (snd (collectDiffChangeBlock ls))"
    by (auto simp: Let_def split: prod.splits if_splits)
  then show "(rest, l # ls) \<in> measure length" using collect_rest [of ls] by simp
qed auto

definition countVisibleDiffRows :: "display_line list \<Rightarrow> bool \<Rightarrow> nat" where
  "countVisibleDiffRows ls showDiffOnly =
     (if \<not> showDiffOnly then length ls
      else length (List.filter (\<lambda>l. leftType l \<noteq> LineContext \<or> rightType l \<noteq> LineContext) ls))"

end
