(* ===== verification/LineDiffInv.thy ===== *)
theory LineDiffInv
  imports LineDiff
begin

text \<open>
  Correctness of the line diff. The reference is the edit distance on the grid of prefixes, with
  insertions and deletions only; \<open>furthest\<close> characterises the entries of the frontier by it, which
  gives that the greedy search stops exactly at the distance of the two texts and that the way back
  spells out a shortest edit script.
\<close>

section \<open>The edit distance of prefixes\<close>

text \<open>Positions behind the ends match nothing.\<close>

fun edit_distance :: "'a list \<Rightarrow> 'a list \<Rightarrow> nat \<Rightarrow> nat \<Rightarrow> nat" where
  "edit_distance l r 0 j = j"
| "edit_distance l r (Suc i) 0 = Suc i"
| "edit_distance l r (Suc i) (Suc j) =
     (if i < length l \<and> j < length r \<and> l ! i = r ! j then edit_distance l r i j
      else Suc (min (edit_distance l r i (Suc j)) (edit_distance l r (Suc i) j)))"

abbreviation ed :: "'a list \<Rightarrow> 'a list \<Rightarrow> nat \<Rightarrow> nat \<Rightarrow> nat" where
  "ed \<equiv> edit_distance"

lemma ed_0 [simp]: "ed l r i 0 = i"
  by (cases i) auto

lemma ed_steps:
  "ed l r (Suc i) j \<le> Suc (ed l r i j) \<and> ed l r i j \<le> Suc (ed l r (Suc i) j) \<and>
   ed l r i (Suc j) \<le> Suc (ed l r i j) \<and> ed l r i j \<le> Suc (ed l r i (Suc j))"
proof (induction "i + j" arbitrary: i j rule: less_induct)
  case less
  have "ed l r (Suc i) j \<le> Suc (ed l r i j) \<and> ed l r i j \<le> Suc (ed l r (Suc i) j)"
  proof (cases j)
    case (Suc j')
    with less [of i j'] show ?thesis by (auto simp: min_def)
  qed simp
  moreover have "ed l r i (Suc j) \<le> Suc (ed l r i j) \<and> ed l r i j \<le> Suc (ed l r i (Suc j))"
  proof (cases i)
    case (Suc i')
    with less [of i' j] show ?thesis by (auto simp: min_def)
  qed simp
  ultimately show ?case by blast
qed

lemma ed_diagonal: "ed l r i j \<le> ed l r (Suc i) (Suc j)"
  using ed_steps [of l r i j] by auto

lemma ed_diagonal_le: "ed l r i j \<le> ed l r (i + n) (j + n)"
proof (induction n)
  case (Suc n)
  then show ?case using ed_diagonal [of l r "i + n" "j + n"] by (simp del: edit_distance.simps)
qed simp

lemma ed_ge: "i \<le> j + ed l r i j" "j \<le> i + ed l r i j"
  by (induction l r i j rule: edit_distance.induct) (auto simp: min_def)

lemma ed_le: "ed l r i j \<le> i + j"
  by (induction l r i j rule: edit_distance.induct) auto

lemma ed_parity: "even (ed l r i j + i + j)"
  by (induction l r i j rule: edit_distance.induct) (auto simp: min_def)

lemma ed_beyond_left: "length l \<le> i \<Longrightarrow> ed l r (Suc i) j = Suc (ed l r i j)"
proof (induction j)
  case (Suc j)
  then show ?case using ed_steps [of l r i j] by auto
qed simp

lemma ed_beyond_right: "length r \<le> j \<Longrightarrow> ed l r i (Suc j) = Suc (ed l r i j)"
proof (induction i)
  case (Suc i)
  then show ?case using ed_steps [of l r i j] by auto
qed simp

lemma ed_beyond: "ed l r (length l + a) (length r + b) = ed l r (length l) (length r) + a + b"
proof -
  have "ed l r (length l + a) j = ed l r (length l) j + a" for j
    by (induction a) (simp_all add: ed_beyond_left)
  moreover have "ed l r i (length r + b) = ed l r i (length r) + b" for i
    by (induction b) (simp_all add: ed_beyond_right)
  ultimately show ?thesis by simp
qed

section \<open>Furthest points\<close>

text \<open>\<open>v\<close> is the largest left position on diagonal \<open>k\<close> within distance \<open>d\<close>.\<close>

definition furthest :: "'a list \<Rightarrow> 'a list \<Rightarrow> nat \<Rightarrow> int \<Rightarrow> int \<Rightarrow> bool" where
  "furthest l r d k v \<longleftrightarrow> 0 \<le> v \<and> k \<le> v \<and>
     (\<forall>x y. int x - int y = k \<longrightarrow> (ed l r x y \<le> d \<longleftrightarrow> int x \<le> v))"

lemma furthest_reached: "furthest l r d k v \<Longrightarrow> ed l r (nat v) (nat (v - k)) \<le> d"
  by (simp add: furthest_def)

lemma furthest_at: "furthest l r d k v \<Longrightarrow> int x - int y = k \<Longrightarrow> ed l r x y \<le> d \<longleftrightarrow> int x \<le> v"
  by (simp add: furthest_def)

lemma furthest_unique: "furthest l r d k v \<Longrightarrow> furthest l r d k w \<Longrightarrow> v = w"
  unfolding furthest_def by (metis dual_order.antisym diff_ge_0_iff_ge int_nat_eq order_refl diff_diff_eq2 add_diff_cancel_left')

lemma match_nth:
  "0 \<le> x \<Longrightarrow> 0 \<le> y \<Longrightarrow> linesMatch l r x y \<longleftrightarrow>
   nat x < length l \<and> nat y < length r \<and> l ! nat x = r ! nat y"
  by (auto simp: linesMatch_def js_at_def)

text \<open>A run of matching lines along a diagonal, up to where it ends\<close>

definition snake :: "string list \<Rightarrow> string list \<Rightarrow> int \<Rightarrow> int \<Rightarrow> int \<Rightarrow> bool" where
  "snake l r k s v \<longleftrightarrow> s \<le> v \<and> (\<forall>i. s \<le> i \<longrightarrow> i < v \<longrightarrow> linesMatch l r i (i - k)) \<and>
     \<not> linesMatch l r v (v - k)"

lemma snake_ed:
  assumes "0 \<le> s" "k \<le> s" "s \<le> v" "\<forall>i. s \<le> i \<longrightarrow> i < v \<longrightarrow> linesMatch l r i (i - k)"
  shows "ed l r (nat v) (nat (v - k)) = ed l r (nat s) (nat (s - k))"
  using assms(3,4)
proof (induction v rule: int_ge_induct)
  case (step i)
  have "linesMatch l r i (i - k)" using step.hyps step.prems by simp
  then have "ed l r (Suc (nat i)) (Suc (nat (i - k))) = ed l r (nat i) (nat (i - k))"
    using match_nth [of i "i - k" l r] step.hyps assms(1,2) by simp
  moreover have "nat (i + 1) = Suc (nat i)" "nat (i + 1 - k) = Suc (nat (i - k))"
    using step.hyps assms(1,2) by simp_all
  ultimately show ?case using step.IH step.prems by simp
qed simp

text \<open>The point a snake leads to is the furthest one when its start is beyond all points that one
  more edit could reach it from.\<close>

lemma furthest_snake:
  assumes s: "0 \<le> s" "k \<le> s" and reach: "ed l r (nat s) (nat (s - k)) \<le> d"
    and below: "\<And>x y. int x - int y = k - 1 \<Longrightarrow> ed l r x y < d \<Longrightarrow> int x + 1 \<le> s"
    and above: "\<And>x y. int x - int y = k + 1 \<Longrightarrow> ed l r x y < d \<Longrightarrow> int x \<le> s"
    and sn: "snake l r k s v"
  shows "furthest l r d k v"
  unfolding furthest_def
proof (intro conjI allI impI)
  from sn have v: "s \<le> v" "\<forall>i. s \<le> i \<longrightarrow> i < v \<longrightarrow> linesMatch l r i (i - k)" "\<not> linesMatch l r v (v - k)"
    by (simp_all add: snake_def)
  show "0 \<le> v" "k \<le> v" using s v(1) by simp_all
  have at_v: "ed l r (nat v) (nat (v - k)) \<le> d" using snake_ed [OF s v(1,2)] reach by simp
  fix x y
  assume xy: "int x - int y = k"
  show "ed l r x y \<le> d \<longleftrightarrow> int x \<le> v"
  proof
    assume "int x \<le> v"
    then have "nat v = x + (nat v - x)" "nat (v - k) = y + (nat v - x)" using xy by auto
    then have "ed l r x y \<le> ed l r (nat v) (nat (v - k))" using ed_diagonal_le [of l r x y "nat v - x"] by simp
    with at_v show "ed l r x y \<le> d" by simp
  next
    assume d: "ed l r x y \<le> d"
    show "int x \<le> v"
    proof (rule ccontr)
      assume "\<not> int x \<le> v"
      then have n: "x = Suc (nat v) + (x - Suc (nat v))" "y = Suc (nat (v - k)) + (x - Suc (nat v))"
        using xy \<open>0 \<le> v\<close> \<open>k \<le> v\<close> by auto
      from n d have "ed l r (Suc (nat v)) (Suc (nat (v - k))) \<le> d"
        using ed_diagonal_le [of l r "Suc (nat v)" "Suc (nat (v - k))" "x - Suc (nat v)"] by simp
      moreover have "\<not> (nat v < length l \<and> nat (v - k) < length r \<and> l ! nat v = r ! nat (v - k))"
        using v(3) match_nth [of v "v - k" l r] \<open>0 \<le> v\<close> \<open>k \<le> v\<close> by simp
      ultimately have "ed l r (nat v) (Suc (nat (v - k))) < d \<or> ed l r (Suc (nat v)) (nat (v - k)) < d"
        by (auto simp: min_def split: if_splits)
      then show False
      proof
        assume "ed l r (nat v) (Suc (nat (v - k))) < d"
        with below [of "nat v" "Suc (nat (v - k))"] v(1) \<open>0 \<le> v\<close> \<open>k \<le> v\<close> show False by simp
      next
        assume "ed l r (Suc (nat v)) (nat (v - k)) < d"
        with above [of "Suc (nat v)" "nat (v - k)"] v(1) \<open>0 \<le> v\<close> \<open>k \<le> v\<close> show False by simp
      qed
    qed
  qed
qed

lemma snake_ends: "\<exists>v. snake l r k s v"
proof (induction "nat (int (length l) - s)" arbitrary: s rule: less_induct)
  case less
  show ?case
  proof (cases "linesMatch l r s (s - k)")
    case True
    then have "s < int (length l)" by (simp add: linesMatch_def)
    with less [of "s + 1"] obtain v where v: "snake l r k (s + 1) v" by auto
    have "snake l r k s v"
      unfolding snake_def
    proof (intro conjI allI impI)
      show "s \<le> v" "\<not> linesMatch l r v (v - k)" using v by (simp_all add: snake_def)
      fix i
      assume "s \<le> i" "i < v"
      then show "linesMatch l r i (i - k)" using v True by (cases "i = s") (simp_all add: snake_def)
    qed
    then show ?thesis ..
  next
    case False
    then have "snake l r k s s" by (simp add: snake_def)
    then show ?thesis ..
  qed
qed

section \<open>One distance\<close>

text \<open>\<open>s\<close> is the point from which the search on diagonal \<open>k\<close> starts at distance \<open>d\<close>.\<close>

definition start_ok :: "'a list \<Rightarrow> 'a list \<Rightarrow> nat \<Rightarrow> int \<Rightarrow> int \<Rightarrow> bool" where
  "start_ok l r d k s \<longleftrightarrow> 0 \<le> s \<and> k \<le> s \<and> ed l r (nat s) (nat (s - k)) \<le> d \<and>
     (\<forall>x y. int x - int y = k - 1 \<longrightarrow> ed l r x y < d \<longrightarrow> int x + 1 \<le> s) \<and>
     (\<forall>x y. int x - int y = k + 1 \<longrightarrow> ed l r x y < d \<longrightarrow> int x \<le> s)"

lemma start_furthest: "start_ok l r d k s \<Longrightarrow> snake l r k s v \<Longrightarrow> furthest l r d k v"
  using furthest_snake [of s k l r d v] by (simp add: start_ok_def)

definition on_round :: "nat \<Rightarrow> int \<Rightarrow> bool" where
  "on_round d k \<longleftrightarrow> - int d \<le> k \<and> k \<le> int d \<and> even (k - int d)"

definition front :: "string list \<Rightarrow> string list \<Rightarrow> js_number list \<Rightarrow> int \<Rightarrow> nat \<Rightarrow> bool" where
  "front l r F off d \<longleftrightarrow>
     (\<forall>k. on_round d k \<longrightarrow> (\<exists>v. num_read F (off + k) = Some v \<and> furthest l r d k v))"

definition selects :: "string list \<Rightarrow> string list \<Rightarrow> js_number list \<Rightarrow> int \<Rightarrow> nat \<Rightarrow> bool" where
  "selects l r F off d \<longleftrightarrow>
     (\<forall>k. on_round d k \<longrightarrow>
        (\<exists>s. selectMyersFrontierX F off (int d) k = Some s \<and> start_ok l r d k s))"

lemma far_diagonal: "ed l r x y < d \<Longrightarrow> \<bar>int x - int y\<bar> < int d"
  using ed_ge [of x y l r] ed_ge [of y x r l] ed_ge(2) [of y x l r] by linarith

lemma start_down:
  assumes "furthest l r e (k + 1) p"
    and below: "\<And>x y. int x - int y = k - 1 \<Longrightarrow> ed l r x y \<le> e \<Longrightarrow> int x < p"
  shows "start_ok l r (Suc e) k p"
proof -
  have p: "0 \<le> p" "k + 1 \<le> p" using assms(1) by (simp_all add: furthest_def)
  then have "nat (p - k) = Suc (nat (p - (k + 1)))" by simp
  then have "ed l r (nat p) (nat (p - k)) \<le> Suc e"
    using ed_steps [of l r "nat p" "nat (p - (k + 1))"] furthest_reached [OF assms(1)] by simp
  moreover have "int x + 1 \<le> p" if "int x - int y = k - 1" "ed l r x y < Suc e" for x y
    using below [of x y] that by simp
  moreover have "int x \<le> p" if "int x - int y = k + 1" "ed l r x y < Suc e" for x y
    using assms(1) that by (simp add: furthest_def less_Suc_eq_le)
  ultimately show ?thesis using p by (auto simp: start_ok_def)
qed

lemma start_right:
  assumes "furthest l r e (k - 1) p"
    and above: "\<And>x y. int x - int y = k + 1 \<Longrightarrow> ed l r x y \<le> e \<Longrightarrow> int x \<le> p + 1"
  shows "start_ok l r (Suc e) k (p + 1)"
proof -
  have p: "0 \<le> p" "k - 1 \<le> p" using assms(1) by (simp_all add: furthest_def)
  then have "nat (p + 1) = Suc (nat p)" "nat (p + 1 - k) = nat (p - (k - 1))" by simp_all
  then have "ed l r (nat (p + 1)) (nat (p + 1 - k)) \<le> Suc e"
    using ed_steps [of l r "nat p" "nat (p - (k - 1))"] furthest_reached [OF assms(1)] by simp
  moreover have "int x + 1 \<le> p + 1" if "int x - int y = k - 1" "ed l r x y < Suc e" for x y
    using assms(1) that by (simp add: furthest_def less_Suc_eq_le)
  moreover have "int x \<le> p + 1" if "int x - int y = k + 1" "ed l r x y < Suc e" for x y
    using above [of x y] that by simp
  ultimately show ?thesis using p by (auto simp: start_ok_def)
qed

lemma front_step:
  assumes F: "front l r F off e" and k: "on_round (Suc e) k"
  shows "if movesDown F off (int (Suc e)) k
    then \<exists>p. num_read F (off + k + 1) = Some p \<and> furthest l r e (k + 1) p \<and> start_ok l r (Suc e) k p
    else \<exists>p. num_read F (off + k - 1) = Some p \<and> furthest l r e (k - 1) p \<and> start_ok l r (Suc e) k (p + 1)"
proof -
  have up: "\<exists>p. num_read F (off + k + 1) = Some p \<and> furthest l r e (k + 1) p" if "k \<noteq> int (Suc e)"
  proof -
    have "on_round e (k + 1)" using k that by (auto simp: on_round_def; presburger)
    with F show ?thesis by (force simp: front_def add.assoc)
  qed
  have down: "\<exists>p. num_read F (off + k - 1) = Some p \<and> furthest l r e (k - 1) p" if "k \<noteq> - int (Suc e)"
  proof -
    have "on_round e (k - 1)" using k that by (auto simp: on_round_def; presburger)
    with F show ?thesis by (force simp: front_def add_diff_eq)
  qed
  show ?thesis
  proof (cases "movesDown F off (int (Suc e)) k")
    case True
    then have "k \<noteq> int (Suc e)" by (auto simp: movesDown_def)
    then obtain p where p: "num_read F (off + k + 1) = Some p" "furthest l r e (k + 1) p" using up by blast
    have "int x < p" if xy: "int x - int y = k - 1" "ed l r x y \<le> e" for x y
    proof (cases "k = - int (Suc e)")
      case True
      then show ?thesis using xy far_diagonal [of l r x y "Suc e"] by simp
    next
      case False
      then obtain q where "num_read F (off + k - 1) = Some q" "furthest l r e (k - 1) q" using down by blast
      with True False p xy show ?thesis by (auto simp: movesDown_def num_less_def furthest_def)
    qed
    with p True show ?thesis using start_down [OF p(2)] by auto
  next
    case False
    then have "k \<noteq> - int (Suc e)" by (auto simp: movesDown_def)
    then obtain p where p: "num_read F (off + k - 1) = Some p" "furthest l r e (k - 1) p" using down by blast
    have "int x \<le> p + 1" if xy: "int x - int y = k + 1" "ed l r x y \<le> e" for x y
    proof (cases "k = int (Suc e)")
      case True
      then show ?thesis using xy far_diagonal [of l r x y "Suc e"] by simp
    next
      case False
      then obtain q where "num_read F (off + k + 1) = Some q" "furthest l r e (k + 1) q" using up by blast
      with \<open>\<not> movesDown F off (int (Suc e)) k\<close> False p xy show ?thesis
        by (fastforce simp: movesDown_def num_less_def furthest_def)
    qed
    with p False show ?thesis using start_right [OF p(2)] by auto
  qed
qed

lemma front_selects: "front l r F off e \<Longrightarrow> selects l r F off (Suc e)"
  unfolding selects_def
proof (intro allI impI)
  fix k
  assume "front l r F off e" "on_round (Suc e) k"
  from front_step [OF this] show "\<exists>s. selectMyersFrontierX F off (int (Suc e)) k = Some s \<and>
      start_ok l r (Suc e) k s"
    by (auto simp: selectMyersFrontierX_def num_plus_def split: if_splits)
qed

lemma start_zero: "start_ok l r 0 0 0"
  by (simp add: start_ok_def)

section \<open>The search\<close>

lemma read_write:
  "0 \<le> i \<Longrightarrow> i < int (length F) \<Longrightarrow> num_read (num_write F i v) j = (if j = i then v else num_read F j)"
  by (auto simp: num_read_def num_write_def js_at_def nth_list_update)

lemma length_write: "0 \<le> i \<Longrightarrow> i < int (length F) \<Longrightarrow> length (num_write F i v) = length F"
  by (simp add: num_write_def)

lemma consume_spec:
  "consumeComputeWork b = (wb_used b + 1 \<le> wb_max b, b\<lparr>wb_used := wb_used b + 1\<rparr>)"
  by (simp add: consumeComputeWork_def)

lemma advance_snake:
  "advance_loop l r x y b = (p, b') \<Longrightarrow>
   wb_max b' = wb_max b \<and>
   (case p of None \<Rightarrow> wb_max b < wb_used b + nat (int (length l) - x)
    | Some (x', y') \<Rightarrow> y' = x' - (x - y) \<and> snake l r (x - y) x x' \<and>
        wb_used b' = wb_used b + nat (x' - x) \<and> (wb_used b \<le> wb_max b \<longrightarrow> wb_used b' \<le> wb_max b))"
proof (induction l r x y b rule: advance_loop.induct)
  case (1 l r x y b)
  show ?case
  proof (cases "linesMatch l r x y")
    case False
    then show ?thesis using "1.prems" by (subst (asm) advance_loop.simps) (auto simp: snake_def)
  next
    case True
    then have x: "x < int (length l)" by (simp add: linesMatch_def)
    show ?thesis
    proof (cases "wb_used b + 1 \<le> wb_max b")
      case False
      with True x "1.prems" show ?thesis
        by (subst (asm) advance_loop.simps) (auto simp: consume_spec Let_def)
    next
      case ok: True
      let ?b = "b\<lparr>wb_used := wb_used b + 1\<rparr>"
      have rest: "advance_loop l r (x + 1) (y + 1) ?b = (p, b')"
        using "1.prems" True ok by (subst (asm) advance_loop.simps) (simp add: consume_spec Let_def)
      have ih: "wb_max b' = wb_max ?b \<and>
        (case p of None \<Rightarrow> wb_max ?b < wb_used ?b + nat (int (length l) - (x + 1))
         | Some (x', y') \<Rightarrow> y' = x' - (x + 1 - (y + 1)) \<and> snake l r (x + 1 - (y + 1)) (x + 1) x' \<and>
             wb_used b' = wb_used ?b + nat (x' - (x + 1)) \<and> (wb_used ?b \<le> wb_max ?b \<longrightarrow> wb_used b' \<le> wb_max ?b))"
        by (rule "1.IH") (use True ok rest in \<open>simp_all add: consume_spec\<close>)
      have longer: "snake l r (x - y) x x'" if "snake l r (x - y) (x + 1) x'" for x'
        unfolding snake_def
      proof (intro conjI allI impI)
        show "x \<le> x'" "\<not> linesMatch l r x' (x' - (x - y))" using that by (simp_all add: snake_def)
        fix i
        assume "x \<le> i" "i < x'"
        then show "linesMatch l r i (i - (x - y))"
          using that True by (cases "i = x") (simp_all add: snake_def)
      qed
      show ?thesis
      proof (cases p)
        case None
        moreover from x have "nat (int (length l) - x) = Suc (nat (int (length l) - (x + 1)))" by simp
        ultimately show ?thesis using ih by simp
      next
        case (Some xy)
        obtain x' y' where "xy = (x', y')" by fastforce
        with ih Some have sn: "snake l r (x - y) (x + 1) x'" and "p = Some (x', y')" "y' = x' - (x - y)"
          "wb_used b' = wb_used b + 1 + nat (x' - (x + 1))" "wb_max b' = wb_max b" "wb_used b' \<le> wb_max b"
          using ok by simp_all
        moreover from sn have "x + 1 \<le> x'" by (simp add: snake_def)
        ultimately show ?thesis using longer [OF sn] by simp
      qed
    qed
  qed
qed

lemma snake_length: "0 \<le> s \<Longrightarrow> snake l r k s v \<Longrightarrow> nat (v - s) \<le> length l"
proof -
  assume s: "0 \<le> s" "snake l r k s v"
  have "v \<le> int (length l)" if "s < v"
  proof -
    have "linesMatch l r (v - 1) (v - 1 - k)" using s that by (simp add: snake_def)
    then show ?thesis by (simp add: linesMatch_def)
  qed
  with s(1) show ?thesis by (cases "s < v") auto
qed

definition reached :: "string list \<Rightarrow> string list \<Rightarrow> int \<Rightarrow> int \<Rightarrow> bool" where
  "reached l r k v \<longleftrightarrow> int (length l) \<le> v \<and> int (length r) \<le> v - k"

lemma advance_spec:
  assumes sel: "selectMyersFrontierX F off (int d) k = Some s" and st: "start_ok l r d k s"
    and adv: "advanceMyersFrontier l r F off (int d) k b = (res, b')"
  shows "wb_max b' = wb_max b \<and>
    (case res of None \<Rightarrow> wb_max b < wb_used b + Suc (length l)
     | Some (c, F') \<Rightarrow> (\<exists>v. furthest l r d k v \<and> c = reached l r k v \<and> F' = num_write F (off + k) (Some v)) \<and>
         wb_used b' \<le> wb_max b \<and> wb_used b' \<le> wb_used b + Suc (length l))"
proof (cases "wb_used b + 1 \<le> wb_max b")
  case False
  with adv show ?thesis by (auto simp: advanceMyersFrontier_def consume_spec Let_def)
next
  case True
  let ?b = "b\<lparr>wb_used := wb_used b + 1\<rparr>"
  obtain p b1 where p: "advance_loop l r s (s - k) ?b = (p, b1)" by fastforce
  have s: "0 \<le> s" using st by (simp add: start_ok_def)
  note sn = advance_snake [OF p]
  show ?thesis
  proof (cases p)
    case None
    then have "res = None" "b' = b1" using adv True p sel
      by (auto simp: advanceMyersFrontier_def advanceMatchingLines_def consume_spec num_plus_def Let_def)
    with None sn s show ?thesis by (auto intro: less_le_trans)
  next
    case (Some xy)
    obtain x y where xy: "xy = (x, y)" by fastforce
    then have r: "res = Some (reached l r k x, num_write F (off + k) (Some x))" "b' = b1"
      using adv True p sel Some sn
      by (auto simp: advanceMyersFrontier_def advanceMatchingLines_def consume_spec num_plus_def
          num_ge_def reached_def Let_def)
    have snk: "snake l r k s x" using sn Some xy by simp
    then show ?thesis
      using r sn Some xy True start_furthest [OF st snk] snake_length [OF s snk] by auto
  qed
qed

text \<open>The diagonals below \<open>k\<close> are done and none of them has reached both ends.\<close>

definition done_below :: "string list \<Rightarrow> string list \<Rightarrow> js_number list \<Rightarrow> int \<Rightarrow> nat \<Rightarrow> int \<Rightarrow> bool" where
  "done_below l r F off d k \<longleftrightarrow> (\<forall>j. on_round d j \<longrightarrow> j < k \<longrightarrow>
     (\<exists>v. num_read F (off + j) = Some v \<and> furthest l r d j v \<and> \<not> reached l r j v))"

lemma selects_write:
  assumes "selects l r F off d" "on_round d k" "0 \<le> off + k" "off + k < int (length F)"
  shows "selects l r (num_write F (off + k) v) off d"
proof -
  have "selectMyersFrontierX (num_write F (off + k) v) off (int d) j = selectMyersFrontierX F off (int d) j"
    if "on_round d j" for j
  proof -
    have "even (j - int d)" "even (k - int d)" using that assms(2) by (simp_all add: on_round_def)
    then have "j - 1 \<noteq> k" "j + 1 \<noteq> k" by presburger+
    then show ?thesis
      using assms(3,4) by (simp add: selectMyersFrontierX_def movesDown_def read_write algebra_simps)
  qed
  with assms(1) show ?thesis by (simp add: selects_def)
qed

lemma round_spec:
  assumes "selects l r F off d" "even (k - int d)" "- int d \<le> k" "int d \<le> off" "int (length F) = 2 * off + 1"
    "done_below l r F off d k"
  shows "case myersRound l r off (int d) k F b of
      RoundExhausted \<Rightarrow> wb_max b < wb_used b + nat (int d + 2 - k) * Suc (length l)
    | RoundComplete used \<Rightarrow> used \<le> wb_max b \<and> (\<exists>j v. furthest l r d j v \<and> reached l r j v)
    | RoundOver F' b' \<Rightarrow> int (length F') = 2 * off + 1 \<and> done_below l r F' off d (int d + 1) \<and>
        wb_max b' = wb_max b \<and> wb_used b' \<le> wb_used b + nat (int d + 2 - k) * Suc (length l)"
  using assms
proof (induction "nat (int d + 2 - k)" arbitrary: k F b rule: less_induct)
  case less
  note prems = less.prems
  show ?case
  proof (cases "int d < k")
    case True
    then show ?thesis using prems by (subst myersRound.simps) (simp add: done_below_def on_round_def)
  next
    case False
    then have k: "on_round d k" using prems by (simp add: on_round_def)
    then obtain s where s: "selectMyersFrontierX F off (int d) k = Some s" "start_ok l r d k s"
      using prems(1) by (auto simp: selects_def)
    obtain res b1 where adv: "advanceMyersFrontier l r F off (int d) k b = (res, b1)" by fastforce
    note sp = advance_spec [OF s adv]
    have two: "nat (int d + 2 - k) = nat (int d + 2 - (k + 2)) + 2" using False by simp
    show ?thesis
    proof (cases res)
      case None
      with False adv sp two show ?thesis by (subst myersRound.simps) simp
    next
      case (Some cF)
      obtain c F' where "cF = (c, F')" by fastforce
      with sp Some obtain v where v: "furthest l r d k v" "res = Some (reached l r k v, num_write F (off + k) (Some v))"
        and b1: "wb_max b1 = wb_max b" "wb_used b1 \<le> wb_max b" "wb_used b1 \<le> wb_used b + Suc (length l)"
        by auto
      have ix: "0 \<le> off + k" "off + k < int (length F)" using k prems(4,5) by (auto simp: on_round_def)
      let ?F = "num_write F (off + k) (Some v)"
      show ?thesis
      proof (cases "reached l r k v")
        case True
        with False adv v b1 show ?thesis by (subst myersRound.simps) auto
      next
        case nr: False
        have "done_below l r ?F off d (k + 2)"
          unfolding done_below_def
        proof (intro allI impI)
          fix j
          assume j: "on_round d j" "j < k + 2"
          then have "j = k \<or> j < k" using k by (auto simp: on_round_def; presburger)
          then show "\<exists>v. num_read ?F (off + j) = Some v \<and> furthest l r d j v \<and> \<not> reached l r j v"
            using j(1) prems(6) v(1) nr ix by (auto simp: read_write done_below_def)
        qed
        moreover have "selects l r ?F off d" by (rule selects_write [OF prems(1) k ix])
        moreover have "even (k + 2 - int d)" "- int d \<le> k + 2" using prems(2,3) by simp_all
        moreover have "int (length ?F) = 2 * off + 1" using prems(5) ix by (simp add: length_write)
        ultimately have "case myersRound l r off (int d) (k + 2) ?F b1 of
            RoundExhausted \<Rightarrow> wb_max b1 < wb_used b1 + nat (int d + 2 - (k + 2)) * Suc (length l)
          | RoundComplete used \<Rightarrow> used \<le> wb_max b1 \<and> (\<exists>j v. furthest l r d j v \<and> reached l r j v)
          | RoundOver F' b' \<Rightarrow> int (length F') = 2 * off + 1 \<and> done_below l r F' off d (int d + 1) \<and>
              wb_max b' = wb_max b1 \<and> wb_used b' \<le> wb_used b1 + nat (int d + 2 - (k + 2)) * Suc (length l)"
          using less.hyps [of "k + 2" ?F b1] two prems(4) by linarith
        moreover have "myersRound l r off (int d) k F b = myersRound l r off (int d) (k + 2) ?F b1"
          using False adv v(2) nr by (subst myersRound.simps) simp
        ultimately show ?thesis using b1 unfolding two
          by (auto split: round_result.splits simp: add_mult_distrib)
      qed
    qed
  qed
qed

section \<open>All distances\<close>

abbreviation distance_of :: "string list \<Rightarrow> string list \<Rightarrow> nat" where
  "distance_of l r \<equiv> ed l r (length l) (length r)"

text \<open>The recorded frontiers: the first one is all zero, the others are those of the distance
  before.\<close>

definition trace_ok :: "string list \<Rightarrow> string list \<Rightarrow> int \<Rightarrow> js_number list list \<Rightarrow> nat \<Rightarrow> bool" where
  "trace_ok l r off tr i \<longleftrightarrow>
     (case i of 0 \<Rightarrow> tr ! 0 = replicate (nat (2 * off + 1)) (Some 0) | Suc e \<Rightarrow> front l r (tr ! i) off e)"

lemma reached_distance:
  assumes "furthest l r d k v" "reached l r k v"
  shows "distance_of l r \<le> d"
    and "d \<le> distance_of l r \<Longrightarrow> distance_of l r = d"
proof -
  have v: "0 \<le> v" "k \<le> v" using assms(1) by (simp_all add: furthest_def)
  obtain a b where "nat v = length l + a" "nat (v - k) = length r + b"
    using assms(2) v unfolding reached_def by (metis nat_le_iff le_Suc_ex nat_int nat_mono)
  then have "distance_of l r + a + b \<le> d"
    using furthest_reached [OF assms(1)] ed_beyond [of l r a b] by simp
  then show "distance_of l r \<le> d" "d \<le> distance_of l r \<Longrightarrow> distance_of l r = d" by simp_all
qed

lemma on_final: "on_round (distance_of l r) (int (length l) - int (length r))"
  using ed_ge [of "length l" "length r" l r] ed_ge(2) [of "length r" "length l" l r]
    ed_parity [of l r "length l" "length r"]
  by (auto simp: on_round_def; presburger)

lemma not_reached_before:
  assumes "done_below l r F off d (int d + 1)" "d \<le> distance_of l r"
  shows "d < distance_of l r" "front l r F off d"
proof -
  show "front l r F off d" using assms(1) by (auto simp: front_def done_below_def on_round_def)
  show "d < distance_of l r"
  proof (rule ccontr)
    assume "\<not> ?thesis"
    with assms(2) have d: "d = distance_of l r" by simp
    let ?k = "int (length l) - int (length r)"
    have "on_round d ?k" using on_final d by simp
    moreover from this have "?k < int d + 1" by (simp add: on_round_def)
    ultimately obtain v where v: "furthest l r d ?k v" "\<not> reached l r ?k v"
      using assms(1) unfolding done_below_def by blast
    have "int (length l) \<le> v" using furthest_at [OF v(1), of "length l" "length r"] d by simp
    then have "reached l r ?k v" by (simp add: reached_def)
    with v(2) show False ..
  qed
qed

lemma rounds_spec:
  assumes "selects l r F (int m) d" "d \<le> distance_of l r" "m = length l + length r"
    "int (length F) = 2 * int m + 1" "length tr = d" "\<forall>i<d. trace_ok l r (int m) tr i"
    "trace_ok l r (int m) (tr @ [F]) d"
  shows "case myersRounds l r m d F tr b of
      None \<Rightarrow> wb_max b < wb_used b + (m + 1 - d) * ((2 * m + 2) * Suc (length l))
    | Some (tr', used) \<Rightarrow> used \<le> wb_max b \<and> length tr' = Suc (distance_of l r) \<and>
        (\<forall>i\<le>distance_of l r. trace_ok l r (int m) tr' i)"
  using assms(1,2,4-)
proof (induction "m + 1 - d" arbitrary: d F tr b rule: less_induct)
  case less
  note prems = less.prems
  let ?W = "(2 * m + 2) * Suc (length l)"
  let ?tr = "tr @ [F]"
  have dm: "d \<le> m" using prems(2) ed_le [of l r "length l" "length r"] assms(3) by simp
  have all: "\<forall>i\<le>d. trace_ok l r (int m) ?tr i"
    using prems(4-) by (auto simp: trace_ok_def nth_append le_less split: nat.splits)
  have w: "nat (int d + 2 - - int d) * Suc (length l) \<le> ?W" using dm by (intro mult_right_mono) simp_all
  have rem: "m + 1 - d = Suc (m + 1 - Suc d)" using dm by simp
  have "selects l r F (int m) d" "even (- int d - int d)" "- int d \<le> - int d" "int d \<le> int m"
    "int (length F) = 2 * int m + 1" "done_below l r F (int m) d (- int d)"
    using prems dm by (simp_all add: done_below_def on_round_def)
  note sp = round_spec [OF this, of b]
  show ?case
  proof (cases "myersRound l r (int m) (int d) (- int d) F b")
    case RoundExhausted
    with dm sp w rem show ?thesis by (subst myersRounds.simps) (simp add: add_mult_distrib)
  next
    case (RoundComplete used)
    with sp reached_distance(2) prems(2) have "distance_of l r = d" "used \<le> wb_max b" by auto
    with RoundComplete dm all prems(4) show ?thesis by (subst myersRounds.simps) simp
  next
    case (RoundOver F' b')
    with sp have o: "int (length F') = 2 * int m + 1" "done_below l r F' (int m) d (int d + 1)"
      "wb_max b' = wb_max b" "wb_used b' \<le> wb_used b + nat (int d + 2 - - int d) * Suc (length l)" by simp_all
    note nr = not_reached_before [OF o(2) prems(2)]
    have "trace_ok l r (int m) (?tr @ [F']) (Suc d)" using nr(2) prems(4) by (simp add: trace_ok_def nth_append)
    then have "case myersRounds l r m (Suc d) F' ?tr b' of
        None \<Rightarrow> wb_max b' < wb_used b' + (m + 1 - Suc d) * ?W
      | Some (tr', used) \<Rightarrow> used \<le> wb_max b' \<and> length tr' = Suc (distance_of l r) \<and>
          (\<forall>i\<le>distance_of l r. trace_ok l r (int m) tr' i)"
      using less.hyps [of "Suc d" F' ?tr b'] rem front_selects [OF nr(2)] nr(1) o(1) prems(4) all by simp
    moreover have "myersRounds l r m d F tr b = myersRounds l r m (Suc d) F' ?tr b'"
      using RoundOver dm by (subst myersRounds.simps) simp
    moreover have "wb_used b' + (m + 1 - Suc d) * ?W \<le> wb_used b + (m + 1 - d) * ?W"
      using o(4) w unfolding rem mult_Suc by linarith
    ultimately show ?thesis using o(3) by (auto split: option.splits intro: less_le_trans)
  qed
qed

section \<open>Edit scripts\<close>

definition left_part :: "diff_line list \<Rightarrow> (string option \<times> int option) list" where
  "left_part ls = List.map (\<lambda>l. (dl_value l, dl_leftLineNumber l))
     (List.filter (\<lambda>l. dl_type l \<noteq> LineAdded) ls)"

definition right_part :: "diff_line list \<Rightarrow> (string option \<times> int option) list" where
  "right_part ls = List.map (\<lambda>l. (dl_value l, dl_rightLineNumber l))
     (List.filter (\<lambda>l. dl_type l \<noteq> LineRemoved) ls)"

definition changes :: "diff_line list \<Rightarrow> nat" where
  "changes ls = length (List.filter (\<lambda>l. dl_type l \<noteq> LineContext) ls)"

text \<open>The lines after position \<open>a\<close> up to position \<open>b\<close>, with their numbers\<close>

definition numbered :: "string list \<Rightarrow> int \<Rightarrow> int \<Rightarrow> (string option \<times> int option) list" where
  "numbered xs a b = List.map (\<lambda>i. (js_at xs (i - 1), Some i)) [a + 1..b]"

definition edit_script :: "string list \<Rightarrow> string list \<Rightarrow> diff_line list \<Rightarrow> bool" where
  "edit_script l r ls \<longleftrightarrow>
     left_part ls = numbered l 0 (int (length l)) \<and> right_part ls = numbered r 0 (int (length r))"

lemma parts_append [simp]:
  "left_part (xs @ ys) = left_part xs @ left_part ys"
  "right_part (xs @ ys) = right_part xs @ right_part ys"
  "changes (xs @ ys) = changes xs + changes ys"
  "left_part [] = []" "right_part [] = []" "changes [] = 0"
  by (simp_all add: left_part_def right_part_def changes_def)

lemma parts_Cons:
  "left_part (y # ys) = left_part [y] @ left_part ys"
  "right_part (y # ys) = right_part [y] @ right_part ys"
  "changes (y # ys) = changes [y] + changes ys"
  by (simp_all add: left_part_def right_part_def changes_def)

lemma parts_single [simp]:
  "left_part [addedLine r y] = []" "right_part [addedLine r y] = [(js_at r (y - 1), Some y)]"
  "changes [addedLine r y] = 1"
  "left_part [removedLine l x] = [(js_at l (x - 1), Some x)]" "right_part [removedLine l x] = []"
  "changes [removedLine l x] = 1"
  by (simp_all add: left_part_def right_part_def changes_def addedLine_def removedLine_def)

lemma numbered_same [simp]: "numbered xs a a = []"
  by (simp add: numbered_def)

lemma numbered_last: "numbered xs (a - 1) a = [(js_at xs (a - 1), Some a)]"
  by (simp add: numbered_def)

lemma numbered_append: "a \<le> b \<Longrightarrow> b \<le> c \<Longrightarrow> numbered xs a b @ numbered xs b c = numbered xs a c"
  by (cases "a = b") (simp_all add: numbered_def upto_split2 [of "a + 1" b c])

definition context_run :: "string list \<Rightarrow> int \<Rightarrow> int \<Rightarrow> int \<Rightarrow> diff_line list" where
  "context_run l k s x = List.map (\<lambda>i. contextLine l i (i - k)) [s + 1..x]"

lemma context_run_parts:
  assumes "\<forall>i. s \<le> i \<longrightarrow> i < x \<longrightarrow> linesMatch l r i (i - k)"
  shows "left_part (context_run l k s x) = numbered l s x"
    and "right_part (context_run l k s x) = numbered r (s - k) (x - k)"
    and "changes (context_run l k s x) = 0"
proof -
  have shift: "[s - k + 1..x - k] = List.map (\<lambda>i. i - k) [s + 1..x]"
  proof (induction "nat (x - s)" arbitrary: s)
    case (Suc n)
    then have "[s + 1..x] = (s + 1) # [s + 1 + 1..x]" "[s - k + 1..x - k] = (s - k + 1) # [s - k + 1 + 1..x - k]"
      by (simp_all add: upto_rec1)
    moreover have "[s + 1 - k + 1..x - k] = List.map (\<lambda>i. i - k) [s + 1 + 1..x]"
      by (rule Suc.hyps(1)) (use Suc.hyps(2) in simp)
    ultimately show ?case by (simp add: algebra_simps)
  qed simp
  have "js_at l (i - 1) = js_at r (i - k - 1)" if "i \<in> set [s + 1..x]" for i
  proof -
    have "linesMatch l r (i - 1) (i - 1 - k)" using assms that by simp
    then show ?thesis by (simp add: linesMatch_def algebra_simps)
  qed
  then show "right_part (context_run l k s x) = numbered r (s - k) (x - k)"
    unfolding right_part_def context_run_def numbered_def shift by (simp add: contextLine_def comp_def)
  show "left_part (context_run l k s x) = numbered l s x" "changes (context_run l k s x) = 0"
    by (simp_all add: left_part_def changes_def context_run_def numbered_def contextLine_def comp_def)
qed

lemma backtrack_run:
  assumes "s = max p (q + k)" "s \<le> x"
  shows "backtrackContext l (Some p) (Some q) (x, x - k, L) = (s, s - k, L @ rev (context_run l k s x))"
  using assms(2)
proof (induction "nat (x - s)" arbitrary: x L)
  case 0
  then show ?case using assms(1)
    by (subst backtrackContext.simps) (auto simp: num_less_def context_run_def)
next
  case (Suc n)
  then have "s < x" by simp
  then have "backtrackContext l (Some p) (Some q) (x, x - k, L)
      = backtrackContext l (Some p) (Some q) (x - 1, x - 1 - k, L @ [contextLine l x (x - k)])"
    using assms(1) by (subst backtrackContext.simps) (simp add: num_less_def algebra_simps)
  also have "\<dots> = (s, s - k, (L @ [contextLine l x (x - k)]) @ rev (context_run l k s (x - 1)))"
    using Suc.hyps \<open>s < x\<close> by (intro Suc.hyps(1)) simp_all
  also have "\<dots> = (s, s - k, L @ rev (context_run l k s (x - 1) @ [contextLine l x (x - k)]))" by simp
  also have "context_run l k s (x - 1) @ [contextLine l x (x - k)] = context_run l k s x"
    using \<open>s < x\<close> by (simp add: context_run_def upto_rec2)
  finally show ?case .
qed

section \<open>The way back\<close>

lemma furthest_snake_to:
  assumes "start_ok l r d k s" "furthest l r d k x"
  shows "snake l r k s x"
proof -
  obtain v where v: "snake l r k s v" using snake_ends by blast
  with furthest_unique [OF assms(2) start_furthest [OF assms(1) v]] show ?thesis by simp
qed

lemma back_step:
  assumes F: "front l r F off e" and k: "on_round (Suc e) k" and x: "furthest l r (Suc e) k x"
  shows "\<exists>p j L'. backtrackStep l r off F (int (Suc e)) (x, x - k, L) = (p, p - j, L @ rev L') \<and>
    furthest l r e j p \<and> on_round e j \<and> p \<le> x \<and> p - j \<le> x - k \<and>
    left_part L' = numbered l p x \<and> right_part L' = numbered r (p - j) (x - k) \<and> changes L' = 1"
proof (cases "movesDown F off (int (Suc e)) k")
  case True
  with front_step [OF F k] obtain p where p: "num_read F (off + (k + 1)) = Some p"
    "furthest l r e (k + 1) p" "start_ok l r (Suc e) k p" by (auto simp: add.assoc)
  note sn = furthest_snake_to [OF p(3) x]
  then have le: "p \<le> x" and m: "\<forall>i. p \<le> i \<longrightarrow> i < x \<longrightarrow> linesMatch l r i (i - k)" by (simp_all add: snake_def)
  have rn: "on_round e (k + 1)" using True k by (auto simp: on_round_def movesDown_def; presburger)
  let ?L = "addedLine r (p - k) # context_run l k p x"
  have "backtrackStep l r off F (int (Suc e)) (x, x - k, L) = (p, p - k - 1, L @ rev ?L)"
    using True p(1) backtrack_run [of p p "p - (k + 1)" k x l L] le
    by (simp add: backtrackStep_def num_plus_def Let_def)
  moreover have "left_part ?L = numbered l p x"
    "right_part ?L = numbered r (p - k - 1) (x - k)" "changes ?L = 1"
    using context_run_parts [OF m] parts_Cons [of "addedLine r (p - k)" "context_run l k p x"]
      numbered_append [of "p - k - 1" "p - k" "x - k" r] numbered_last [of r "p - k"] le by simp_all
  ultimately show ?thesis using p(2) rn le
    by (intro exI [of _ p] exI [of _ "k + 1"] exI [of _ ?L]) (simp add: diff_diff_add)
next
  case False
  with front_step [OF F k] obtain p where p: "num_read F (off + (k - 1)) = Some p"
    "furthest l r e (k - 1) p" "start_ok l r (Suc e) k (p + 1)" by (auto simp: add_diff_eq)
  note sn = furthest_snake_to [OF p(3) x]
  then have le: "p + 1 \<le> x" and m: "\<forall>i. p + 1 \<le> i \<longrightarrow> i < x \<longrightarrow> linesMatch l r i (i - k)"
    by (simp_all add: snake_def)
  have rn: "on_round e (k - 1)" using False k by (auto simp: on_round_def movesDown_def; presburger)
  let ?L = "removedLine l (p + 1) # context_run l k (p + 1) x"
  have "backtrackStep l r off F (int (Suc e)) (x, x - k, L) = (p, p + 1 - k, L @ rev ?L)"
    using False p(1) backtrack_run [of "p + 1" p "p - (k - 1)" k x l L] le
    by (simp add: backtrackStep_def num_plus_def Let_def)
  moreover have "left_part ?L = numbered l p x"
    "right_part ?L = numbered r (p + 1 - k) (x - k)" "changes ?L = 1"
    using context_run_parts [OF m] parts_Cons [of "removedLine l (p + 1)" "context_run l k (p + 1) x"]
      numbered_append [of p "p + 1" x l] numbered_last [of l "p + 1"] le by simp_all
  ultimately show ?thesis using p(2) rn le
    by (intro exI [of _ p] exI [of _ "k - 1"] exI [of _ ?L]) (simp add: algebra_simps)
qed

lemma read_zero: "0 \<le> i \<Longrightarrow> i < int n \<Longrightarrow> num_read (replicate n (Some 0)) i = Some 0"
  by (simp add: num_read_def js_at_def)

lemma trace_zero:
  assumes "trace_ok l r (int m) tr 0" "0 < m"
  shows "num_read (tr ! 0) (int m + 1) = Some 0"
  using assms read_zero [of "int m + 1" "nat (2 * int m + 1)"] by (simp add: trace_ok_def)

lemma trace_selects:
  assumes "trace_ok l r (int m) tr d" "0 < m"
  shows "selects l r (tr ! d) (int m) d"
proof (cases d)
  case 0
  with trace_zero [of l r m tr] assms show ?thesis
    by (auto simp: selects_def on_round_def selectMyersFrontierX_def movesDown_def start_zero)
next
  case (Suc e)
  with assms(1) show ?thesis by (simp add: trace_ok_def front_selects)
qed

lemma furthest_end:
  assumes "selects l r F off (distance_of l r)"
  shows "furthest l r (distance_of l r) (int (length l) - int (length r)) (int (length l))"
proof -
  let ?k = "int (length l) - int (length r)" and ?d = "distance_of l r"
  obtain s where s: "start_ok l r ?d ?k s" using assms on_final unfolding selects_def by blast
  obtain v where "snake l r ?k s v" using snake_ends by blast
  with s have v: "furthest l r ?d ?k v" by (rule start_furthest)
  have "int (length l) \<le> v" using furthest_at [OF v, of "length l" "length r"] by simp
  moreover have "\<not> int (length l + 1) \<le> v"
    using furthest_at [OF v, of "length l + 1" "length r + 1"] ed_beyond [of l r 1 1] by simp
  ultimately have "v = int (length l)" by simp
  with v show ?thesis by simp
qed

lemma back_loop:
  assumes m: "0 < m" and "\<forall>i\<le>d. trace_ok l r (int m) tr i" "on_round d k" "furthest l r d k x"
  shows "\<exists>L'. backtrackLoop l r (int m) tr (Suc d) (x, x - k, L) = L @ rev L' \<and>
    left_part L' = numbered l 0 x \<and> right_part L' = numbered r 0 (x - k) \<and> changes L' = d"
  using assms(2-)
proof (induction d arbitrary: k x L)
  case 0
  then have k: "k = 0" by (simp add: on_round_def)
  have sn: "snake l r 0 0 x" using furthest_snake_to [OF start_zero] 0 k by simp
  then have m0: "\<forall>i. 0 \<le> i \<longrightarrow> i < x \<longrightarrow> linesMatch l r i (i - 0)" and "0 \<le> x" by (simp_all add: snake_def)
  then have "backtrackStep l r (int m) (tr ! 0) 0 (x, x - 0, L) = (0, 0, L @ rev (context_run l 0 0 x))"
    using backtrack_run [of 0 0 "- 1" 0 x l L] trace_zero [OF _ m] 0(1)
    by (simp add: backtrackStep_def movesDown_def num_plus_def Let_def)
  with context_run_parts [OF m0] show ?case using k by (intro exI [of _ "context_run l 0 0 x"]) simp
next
  case (Suc d)
  from Suc.prems(1) have F: "front l r (tr ! Suc d) (int m) d" by (auto simp: trace_ok_def)
  from back_step [OF F Suc.prems(2,3), of L] obtain p j L1 where
    b: "backtrackStep l r (int m) (tr ! Suc d) (int (Suc d)) (x, x - k, L) = (p, p - j, L @ rev L1)"
    and p: "furthest l r d j p" "on_round d j" "p \<le> x" "p - j \<le> x - k"
    and L1: "left_part L1 = numbered l p x" "right_part L1 = numbered r (p - j) (x - k)" "changes L1 = 1"
    by blast
  have pos: "0 \<le> p" "0 \<le> p - j" using p(1) by (simp_all add: furthest_def)
  from Suc.IH [of j p "L @ rev L1"] Suc.prems(1) p(1,2) obtain L2 where
    L2: "backtrackLoop l r (int m) tr (Suc d) (p, p - j, L @ rev L1) = (L @ rev L1) @ rev L2"
    "left_part L2 = numbered l 0 p" "right_part L2 = numbered r 0 (p - j)" "changes L2 = d" by auto
  have "backtrackLoop l r (int m) tr (Suc (Suc d)) (x, x - k, L) = L @ rev (L2 @ L1)"
    using L2(1) unfolding backtrackLoop.simps(2) [of l r "int m" tr "Suc d"] b by simp
  moreover have "left_part (L2 @ L1) = numbered l 0 x" "right_part (L2 @ L1) = numbered r 0 (x - k)"
    using numbered_append [of 0 p x l] numbered_append [of 0 "p - j" "x - k" r] L1 L2 p pos by simp_all
  moreover have "changes (L2 @ L1) = Suc d" using L1 L2 by simp
  ultimately show ?case by blast
qed

lemma trace_spec:
  assumes "0 < length l + length r"
  shows "case buildMyersTrace l r w of
      None \<Rightarrow> w < (length l + length r + 1) * ((2 * (length l + length r) + 2) * Suc (length l))
    | Some (tr, used) \<Rightarrow> used \<le> w \<and> edit_script l r (backtrackMyersTrace l r tr) \<and>
        changes (backtrackMyersTrace l r tr) = distance_of l r"
proof -
  let ?m = "length l + length r" and ?F = "replicate (2 * (length l + length r) + 1) (Some 0 :: js_number)"
  have t0: "trace_ok l r (int ?m) ([] @ [?F]) 0"
    by (simp add: trace_ok_def nat_add_distrib nat_mult_distrib)
  have "selects l r ?F (int ?m) 0" using trace_selects [OF t0 assms] by simp
  then have sp: "case myersRounds l r ?m 0 ?F [] \<lparr>wb_used = 0, wb_max = w\<rparr> of
      None \<Rightarrow> w < (?m + 1) * ((2 * ?m + 2) * Suc (length l))
    | Some (tr', used) \<Rightarrow> used \<le> w \<and> length tr' = Suc (distance_of l r) \<and>
        (\<forall>i\<le>distance_of l r. trace_ok l r (int ?m) tr' i)"
    using rounds_spec [of l r ?F ?m 0 "[]" "\<lparr>wb_used = 0, wb_max = w\<rparr>"] t0
    by (auto simp del: replicate.simps split: option.splits)
  have "edit_script l r (backtrackMyersTrace l r tr) \<and> changes (backtrackMyersTrace l r tr) = distance_of l r"
    if tr: "length tr = Suc (distance_of l r)" "\<forall>i\<le>distance_of l r. trace_ok l r (int ?m) tr i" for tr
  proof -
    have "selects l r (tr ! distance_of l r) (int ?m) (distance_of l r)"
      using trace_selects tr(2) assms by blast
    from back_loop [OF assms tr(2) on_final furthest_end [OF this], of "[]"]
    obtain L' where "backtrackLoop l r (int ?m) tr (Suc (distance_of l r)) (int (length l), int (length r), [])
        = rev L'" "left_part L' = numbered l 0 (int (length l))"
      "right_part L' = numbered r 0 (int (length r))" "changes L' = distance_of l r" by auto
    then show ?thesis using tr(1) by (simp add: backtrackMyersTrace_def edit_script_def)
  qed
  with sp show ?thesis by (auto simp: buildMyersTrace_def Let_def split: option.splits)
qed

lemma trace_empty:
  "buildMyersTrace [] [] w = (if w = 0 then None else Some ([[Some 0]], 1))"
  "backtrackMyersTrace [] [] [[Some 0]] = []"
  by (simp_all add: buildMyersTrace_def myersRounds.simps myersRound.simps advanceMyersFrontier_def
      consume_spec selectMyersFrontierX_def movesDown_def num_read_def js_at_def num_plus_def
      advanceMatchingLines_def num_ge_def num_write_def backtrackMyersTrace_def backtrackStep_def
      backtrackContext.simps num_less_def Let_def)

text \<open>No edit script is shorter than the distance.\<close>

lemma numbered_snoc:
  "numbered xs 0 (int i) = ys @ [z] \<Longrightarrow>
   \<exists>j. i = Suc j \<and> ys = numbered xs 0 (int j) \<and> z = (js_at xs (int j), Some (int j + 1))"
proof (cases i)
  case (Suc j)
  assume "numbered xs 0 (int i) = ys @ [z]"
  moreover have "numbered xs 0 (int i) = numbered xs 0 (int j) @ [(js_at xs (int j), Some (int j + 1))]"
    using Suc numbered_append [of 0 "int j" "int j + 1" xs] numbered_last [of xs "int j + 1"]
    by (simp add: add.commute)
  ultimately show ?thesis using Suc by auto
qed simp

lemma script_distance:
  "left_part ls = numbered l 0 (int i) \<Longrightarrow> right_part ls = numbered r 0 (int j) \<Longrightarrow>
   i \<le> length l \<Longrightarrow> j \<le> length r \<Longrightarrow> ed l r i j \<le> changes ls"
proof (induction ls arbitrary: i j rule: rev_induct)
  case Nil
  then have "i = 0" "j = 0" by (auto simp: numbered_def)
  then show ?case by simp
next
  case (snoc x ls)
  show ?case
  proof (cases "dl_type x")
    case LineContext
    then have "numbered l 0 (int i) = left_part ls @ [(dl_value x, dl_leftLineNumber x)]"
      "numbered r 0 (int j) = right_part ls @ [(dl_value x, dl_rightLineNumber x)]"
      using snoc.prems(1,2) by (simp_all add: left_part_def right_part_def)
    from this [THEN numbered_snoc] obtain i' j' where ij: "i = Suc i'" "left_part ls = numbered l 0 (int i')"
      "dl_value x = js_at l (int i')" "j = Suc j'" "right_part ls = numbered r 0 (int j')"
      "dl_value x = js_at r (int j')" by auto
    then have "l ! i' = r ! j'" using snoc.prems(3,4) by (simp add: js_at_def)
    then show ?thesis using snoc.IH [OF ij(2,5)] snoc.prems(3,4) ij(1,4) by simp
  next
    case LineAdded
    then have ls: "left_part ls = numbered l 0 (int i)"
      "numbered r 0 (int j) = right_part ls @ [(dl_value x, dl_rightLineNumber x)]" "changes [x] = 1"
      using snoc.prems(1,2) by (simp_all add: left_part_def right_part_def changes_def)
    from numbered_snoc [OF ls(2)] obtain j' where j: "j = Suc j'" "right_part ls = numbered r 0 (int j')" by auto
    then show ?thesis using snoc.IH [OF ls(1) j(2)] snoc.prems(3,4) ls(3) ed_steps [of l r i j'] by simp
  next
    case LineRemoved
    then have ls: "right_part ls = numbered r 0 (int j)"
      "numbered l 0 (int i) = left_part ls @ [(dl_value x, dl_leftLineNumber x)]" "changes [x] = 1"
      using snoc.prems(1,2) by (simp_all add: left_part_def right_part_def changes_def)
    from numbered_snoc [OF ls(2)] obtain i' where i: "i = Suc i'" "left_part ls = numbered l 0 (int i')" by auto
    then show ?thesis using snoc.IH [OF i(2) ls(1)] snoc.prems(3,4) ls(3) ed_steps [of l r i' j] by simp
  qed
qed

section \<open>The result\<close>

lemma diff_cases:
  obtains (input) "maxLinesPerSide B < max (length (splitLines b)) (length (splitLines a))"
      "computeBudgetedLineDiff b a B =
         makeTooLargeResult TooLargeInput (length (splitLines b)) (length (splitLines a)) 0"
  | (compute) "buildMyersTrace (splitLines b) (splitLines a) (maxComputeWork B) = None"
      "\<not> maxLinesPerSide B < max (length (splitLines b)) (length (splitLines a))"
      "computeBudgetedLineDiff b a B = makeTooLargeResult TooLargeCompute
         (length (splitLines b)) (length (splitLines a)) (maxComputeWork B)"
  | (lines) tr used where "\<not> maxLinesPerSide B < max (length (splitLines b)) (length (splitLines a))"
      "buildMyersTrace (splitLines b) (splitLines a) (maxComputeWork B) = Some (tr, used)"
      "ld_lines (computeBudgetedLineDiff b a B) = backtrackMyersTrace (splitLines b) (splitLines a) tr"
      "\<not> ld_tooLarge (computeBudgetedLineDiff b a B)"
      "ld_computeWork (computeBudgetedLineDiff b a B) = used"
proof (cases "maxLinesPerSide B < max (length (splitLines b)) (length (splitLines a))")
  case True
  then show ?thesis by (intro input) (simp_all add: computeBudgetedLineDiff_def Let_def)
next
  case False
  show ?thesis
  proof (cases "buildMyersTrace (splitLines b) (splitLines a) (maxComputeWork B)")
    case None
    with False show ?thesis by (intro compute) (simp_all add: computeBudgetedLineDiff_def Let_def)
  next
    case (Some p)
    obtain tr used where "p = (tr, used)" by fastforce
    with False Some show ?thesis by (intro lines [of tr used]) (simp_all add: computeBudgetedLineDiff_def Let_def)
  qed
qed

lemma trace_script:
  assumes "buildMyersTrace l r w = Some (tr, used)"
  shows "used \<le> w \<and> edit_script l r (backtrackMyersTrace l r tr) \<and>
    changes (backtrackMyersTrace l r tr) = distance_of l r"
proof (cases "length l + length r = 0")
  case True
  with assms show ?thesis by (auto simp: trace_empty edit_script_def split: if_splits)
next
  case False
  with trace_spec [of l r w] assms show ?thesis by simp
qed

text \<open>
  C5. The diff is right and as short as possible. When the diff is not refused, its lines without
  the added ones are exactly the lines of the first text, numbered from one, its lines without the
  removed ones are exactly those of the second text, and no sequence of context, added and removed
  lines with these two properties has fewer changes.
\<close>

theorem diff_is_shortest_script:
  assumes "\<not> ld_tooLarge (computeBudgetedLineDiff b a B)"
  shows "edit_script (splitLines b) (splitLines a) (ld_lines (computeBudgetedLineDiff b a B)) \<and>
    (\<forall>ls. edit_script (splitLines b) (splitLines a) ls \<longrightarrow>
       changes (ld_lines (computeBudgetedLineDiff b a B)) \<le> changes ls)"
proof (cases rule: diff_cases [of B b a])
  case (lines tr used)
  from trace_script [OF lines(2)] lines(3) show ?thesis
    using script_distance [of _ "splitLines b" "length (splitLines b)" "splitLines a" "length (splitLines a)"]
    by (auto simp: edit_script_def)
qed (use assms in \<open>simp_all add: makeTooLargeResult_def\<close>)

lemma diff_is_shortest_script_witness:
  "edit_script [''a'', ''b''] [''b''] (ld_lines (computeBudgetedLineDiff [CHR ''a'', CHR 0x0A, CHR ''b''] ''b''
     \<lparr>maxLinesPerSide = 10, maxComputeWork = 100, maxRenderableRows = 10\<rparr>))"
proof -
  have "splitLines [CHR ''a'', CHR 0x0A, CHR ''b''] = [''a'', ''b'']" "splitLines ''b'' = [''b'']"
    by code_simp+
  moreover have "\<not> ld_tooLarge (computeBudgetedLineDiff [CHR ''a'', CHR 0x0A, CHR ''b''] ''b''
     \<lparr>maxLinesPerSide = 10, maxComputeWork = 100, maxRenderableRows = 10\<rparr>)" by code_simp
  ultimately show ?thesis using diff_is_shortest_script by fastforce
qed

text \<open>
  The budget is respected and suffices. A diff is refused for its input exactly when one side
  has too many lines; the work reported never exceeds the budget; and when the work allowed is at
  least cubic in the number of lines, a diff whose input is accepted is never refused.
\<close>

theorem diff_within_budget:
  "(ld_tooLargeReason (computeBudgetedLineDiff b a B) = Some TooLargeInput \<longleftrightarrow>
     maxLinesPerSide B < max (length (splitLines b)) (length (splitLines a))) \<and>
   ld_computeWork (computeBudgetedLineDiff b a B) \<le> maxComputeWork B \<and>
   (let m = length (splitLines b) + length (splitLines a)
    in 2 * (m + 1) ^ 3 \<le> maxComputeWork B \<longrightarrow>
       ld_tooLargeReason (computeBudgetedLineDiff b a B) \<noteq> Some TooLargeCompute)"
proof (cases rule: diff_cases [of B b a])
  case compute
  let ?l = "splitLines b" and ?r = "splitLines a"
  let ?m = "length ?l + length ?r"
  have "maxComputeWork B < 2 * (?m + 1) ^ 3"
  proof (cases "?m = 0")
    case True
    with compute show ?thesis by (simp add: trace_empty split: if_splits)
  next
    case False
    with trace_spec [of ?l ?r "maxComputeWork B"] compute
    have "maxComputeWork B < (?m + 1) * ((2 * ?m + 2) * Suc (length ?l))" by simp
    also have "\<dots> \<le> (?m + 1) * ((2 * ?m + 2) * (?m + 1))" by (intro mult_left_mono) simp_all
    finally show ?thesis by (simp add: power3_eq_cube algebra_simps)
  qed
  with compute show ?thesis by (simp add: makeTooLargeResult_def Let_def)
next
  case (lines tr used)
  from lines(4) have "ld_tooLargeReason (computeBudgetedLineDiff b a B) = None"
    by (auto simp: computeBudgetedLineDiff_def makeTooLargeResult_def Let_def split: option.splits if_splits)
  with lines trace_script [OF lines(2)] show ?thesis by simp
qed (simp add: makeTooLargeResult_def Let_def)

section \<open>Side by side\<close>

text \<open>Lines that carry the numbers their type calls for\<close>

definition line_ok :: "diff_line \<Rightarrow> bool" where
  "line_ok l \<longleftrightarrow> (dl_leftLineNumber l = None \<longleftrightarrow> dl_type l = LineAdded) \<and>
     (dl_rightLineNumber l = None \<longleftrightarrow> dl_type l = LineRemoved)"

definition left_column :: "display_line list \<Rightarrow> (int \<times> diff_line_type) list" where
  "left_column rows = concat (List.map (\<lambda>r. case dl_leftLineNumber r of
     None \<Rightarrow> [] | Some n \<Rightarrow> [(n, leftType r)]) rows)"

definition right_column :: "display_line list \<Rightarrow> (int \<times> diff_line_type) list" where
  "right_column rows = concat (List.map (\<lambda>r. case dl_rightLineNumber r of
     None \<Rightarrow> [] | Some n \<Rightarrow> [(n, rightType r)]) rows)"

definition left_lines :: "diff_line list \<Rightarrow> (int \<times> diff_line_type) list" where
  "left_lines ls = concat (List.map (\<lambda>l. case dl_leftLineNumber l of
     None \<Rightarrow> [] | Some n \<Rightarrow> [(n, dl_type l)]) ls)"

definition right_lines :: "diff_line list \<Rightarrow> (int \<times> diff_line_type) list" where
  "right_lines ls = concat (List.map (\<lambda>l. case dl_rightLineNumber l of
     None \<Rightarrow> [] | Some n \<Rightarrow> [(n, dl_type l)]) ls)"

lemma columns_append [simp]:
  "left_column (xs @ ys) = left_column xs @ left_column ys"
  "right_column (xs @ ys) = right_column xs @ right_column ys"
  "left_column [] = []" "right_column [] = []"
  by (simp_all add: left_column_def right_column_def)

text \<open>The rows of a block of changes as a recursion over both lists\<close>

fun zip_rows :: "diff_line list \<Rightarrow> diff_line list \<Rightarrow> display_line list" where
  "zip_rows (r # rs) (a # as) = the (mergeDiffChangePair (Some r) (Some a)) # zip_rows rs as"
| "zip_rows (r # rs) [] = the (mergeDiffChangePair (Some r) None) # zip_rows rs []"
| "zip_rows [] (a # as) = the (mergeDiffChangePair None (Some a)) # zip_rows [] as"
| "zip_rows [] [] = []"

lemma js_at_Cons: "js_at (x # xs) (int (Suc n)) = js_at xs (int n)" "js_at (x # xs) 0 = Some x"
  "js_at [] i = None"
  by (auto simp: js_at_def nat_add_distrib)

lemma pair_rows:
  "(case mergeDiffChangePair (Some r) q of Some row \<Rightarrow> [row] | None \<Rightarrow> []) = [the (mergeDiffChangePair (Some r) q)]"
  "(case mergeDiffChangePair None (Some a) of Some row \<Rightarrow> [row] | None \<Rightarrow> []) = [the (mergeDiffChangePair None (Some a))]"
  by (cases q) (simp_all add: mergeDiffChangePair_def)

lemma block_zip: "mergeDiffChangeBlock rs as = zip_rows rs as"
proof -
  have shift: "[0..<Suc n] = 0 # List.map Suc [0..<n]" for n
    by (simp add: map_Suc_upt upt_conv_Cons del: upt_Suc)
  show ?thesis
    by (induction rs as rule: zip_rows.induct)
      (simp_all add: mergeDiffChangeBlock_def shift comp_def js_at_Cons pair_rows del: upt_Suc of_nat_Suc)
qed

lemma row_columns:
  "line_ok r \<Longrightarrow> dl_type r = LineRemoved \<Longrightarrow>
   left_column (the (mergeDiffChangePair (Some r) q) # rows) = left_lines [r] @ left_column rows"
  "line_ok a \<Longrightarrow> dl_type a = LineAdded \<Longrightarrow>
   right_column (the (mergeDiffChangePair p (Some a)) # rows) = right_lines [a] @ right_column rows"
  "line_ok r \<Longrightarrow> dl_type r = LineRemoved \<Longrightarrow>
   right_column (the (mergeDiffChangePair (Some r) None) # rows) = right_column rows"
  "line_ok a \<Longrightarrow> dl_type a = LineAdded \<Longrightarrow>
   left_column (the (mergeDiffChangePair None (Some a)) # rows) = left_column rows"
proof -
  have cons: "left_column (x # rows) = (case dl_leftLineNumber x of None \<Rightarrow> [] | Some n \<Rightarrow> [(n, leftType x)]) @ left_column rows"
    "right_column (x # rows) = (case dl_rightLineNumber x of None \<Rightarrow> [] | Some n \<Rightarrow> [(n, rightType x)]) @ right_column rows"
    for x by (simp_all add: left_column_def right_column_def)
  show "line_ok r \<Longrightarrow> dl_type r = LineRemoved \<Longrightarrow>
    left_column (the (mergeDiffChangePair (Some r) q) # rows) = left_lines [r] @ left_column rows"
    by (cases q) (simp_all add: cons left_lines_def mergeDiffChangePair_def as_display_def split: option.split)
  show "line_ok a \<Longrightarrow> dl_type a = LineAdded \<Longrightarrow>
    right_column (the (mergeDiffChangePair p (Some a)) # rows) = right_lines [a] @ right_column rows"
    by (cases p) (simp_all add: cons right_lines_def mergeDiffChangePair_def as_display_def split: option.split)
  show "line_ok r \<Longrightarrow> dl_type r = LineRemoved \<Longrightarrow>
    right_column (the (mergeDiffChangePair (Some r) None) # rows) = right_column rows"
    by (simp add: cons mergeDiffChangePair_def as_display_def line_ok_def)
  show "line_ok a \<Longrightarrow> dl_type a = LineAdded \<Longrightarrow>
    left_column (the (mergeDiffChangePair None (Some a)) # rows) = left_column rows"
    by (simp add: cons mergeDiffChangePair_def as_display_def line_ok_def)
qed

lemma lines_Cons:
  "left_lines (l # ls) = left_lines [l] @ left_lines ls" "right_lines (l # ls) = right_lines [l] @ right_lines ls"
  by (simp_all add: left_lines_def right_lines_def)

abbreviation removals :: "diff_line list \<Rightarrow> bool" where
  "removals rs \<equiv> \<forall>l\<in>set rs. line_ok l \<and> dl_type l = LineRemoved"

abbreviation additions :: "diff_line list \<Rightarrow> bool" where
  "additions as \<equiv> \<forall>l\<in>set as. line_ok l \<and> dl_type l = LineAdded"

definition zip_ok :: "diff_line list \<Rightarrow> diff_line list \<Rightarrow> bool" where
  "zip_ok rs as \<longleftrightarrow>
     left_column (zip_rows rs as) = left_lines rs \<and> right_column (zip_rows rs as) = right_lines as"

lemma zip_steps:
  "line_ok r \<Longrightarrow> dl_type r = LineRemoved \<Longrightarrow> line_ok a \<Longrightarrow> dl_type a = LineAdded \<Longrightarrow>
   zip_ok rs as \<Longrightarrow> zip_ok (r # rs) (a # as)"
  "line_ok r \<Longrightarrow> dl_type r = LineRemoved \<Longrightarrow> zip_ok rs [] \<Longrightarrow> zip_ok (r # rs) []"
  "line_ok a \<Longrightarrow> dl_type a = LineAdded \<Longrightarrow> zip_ok [] as \<Longrightarrow> zip_ok [] (a # as)"
  unfolding zip_ok_def zip_rows.simps
  by (simp_all only: row_columns lines_Cons [of r rs] lines_Cons [of a as] simp_thms)

lemma zip_columns: "removals rs \<Longrightarrow> additions as \<Longrightarrow> zip_ok rs as"
proof (induction rs as rule: zip_rows.induct)
  case 4
  show ?case by (simp add: zip_ok_def left_lines_def right_lines_def)
qed (meson zip_steps list.set_intros)+

lemma zip_rows_changed: "\<forall>r\<in>set (zip_rows rs as). leftType r \<noteq> LineContext \<or> rightType r \<noteq> LineContext"
  by (induction rs as rule: zip_rows.induct) (auto simp: mergeDiffChangePair_def as_display_def)

lemma zip_rows_length: "length (zip_rows rs as) = max (length rs) (length as)"
  by (induction rs as rule: zip_rows.induct) auto

text \<open>A block of changes is a partition of its lines that keeps the order on each side.\<close>

lemma collect_block:
  assumes "\<forall>l\<in>set ls. line_ok l" "collectDiffChangeBlock ls = (rs, as, rest)"
  shows "removals rs \<and> additions as \<and> left_lines ls = left_lines rs @ left_lines rest \<and>
    right_lines ls = right_lines as @ right_lines rest \<and> (\<forall>l\<in>set rest. line_ok l) \<and>
    changes ls = length rs + length as + changes rest"
  using assms
proof (induction ls arbitrary: rs as rest)
  case Nil
  then show ?case by (simp add: left_lines_def right_lines_def)
next
  case (Cons l ls)
  show ?case
  proof (cases "dl_type l = LineContext")
    case True
    with Cons.prems have "rs = []" "as = []" "rest = l # ls" by simp_all
    with Cons.prems(1) show ?thesis by (simp add: left_lines_def right_lines_def)
  next
    case False
    obtain rs1 as1 rest1 where c: "collectDiffChangeBlock ls = (rs1, as1, rest1)" by (metis prod_cases3)
    note ih = Cons.IH [OF _ c]
    have ok: "line_ok l" "\<forall>l\<in>set ls. line_ok l" using Cons.prems(1) by simp_all
    have ch: "changes [l] = 1" using False by (simp add: changes_def)
    show ?thesis
    proof (cases "dl_type l = LineRemoved")
      case True
      moreover have "right_lines [l] = []" using ok(1) True by (simp add: line_ok_def right_lines_def)
      moreover have "rs = l # rs1" "as = as1" "rest = rest1" using Cons.prems(2) False True c by simp_all
      ultimately show ?thesis
        using ih [OF ok(2)] ok(1) ch lines_Cons [of l ls] lines_Cons [of l rs1] parts_Cons(3) [of l ls] by simp
    next
      case nr: False
      then have a: "dl_type l = LineAdded" using False by (cases "dl_type l") simp_all
      moreover have "left_lines [l] = []" using ok(1) a by (simp add: line_ok_def left_lines_def)
      moreover have "rs = rs1" "as = l # as1" "rest = rest1" using Cons.prems(2) False nr c by simp_all
      ultimately show ?thesis
        using ih [OF ok(2)] ok(1) ch lines_Cons [of l ls] lines_Cons [of l as1] parts_Cons(3) [of l ls] by simp
    qed
  qed
qed

lemma merge_columns:
  "\<forall>l\<in>set ls. line_ok l \<Longrightarrow>
   left_column (mergeDiffLines ls) = left_lines ls \<and> right_column (mergeDiffLines ls) = right_lines ls \<and>
   countVisibleDiffRows (mergeDiffLines ls) True \<le> changes ls"
proof (induction ls rule: mergeDiffLines.induct)
  case (2 l ls)
  show ?case
  proof (cases "dl_type l = LineContext")
    case True
    with 2 have "left_column (displayContextLine l # mergeDiffLines ls) = left_lines [l] @ left_lines ls"
      "right_column (displayContextLine l # mergeDiffLines ls) = right_lines [l] @ right_lines ls"
      by (simp_all add: left_column_def right_column_def left_lines_def right_lines_def
          displayContextLine_def as_display_def split: option.split)
    with True 2 show ?thesis
      using lines_Cons [of l ls]
      by (simp add: countVisibleDiffRows_def displayContextLine_def as_display_def changes_def)
  next
    case False
    obtain rs as rest where c: "collectDiffChangeBlock (l # ls) = (rs, as, rest)" by (metis prod_cases3)
    note b = collect_block [OF "2.prems" c]
    have ih: "left_column (mergeDiffLines rest) = left_lines rest \<and>
      right_column (mergeDiffLines rest) = right_lines rest \<and>
      countVisibleDiffRows (mergeDiffLines rest) True \<le> changes rest"
      by (rule "2.IH"(2)) (use False c b in simp_all)
    have m: "mergeDiffLines (l # ls) = zip_rows rs as @ mergeDiffLines rest"
      using False by (simp add: c block_zip del: collectDiffChangeBlock.simps)
    have "List.filter (\<lambda>l. leftType l \<noteq> LineContext \<or> rightType l \<noteq> LineContext) (zip_rows rs as) = zip_rows rs as"
      using zip_rows_changed by (simp add: filter_id_conv)
    then have "countVisibleDiffRows (mergeDiffLines (l # ls)) True =
        max (length rs) (length as) + countVisibleDiffRows (mergeDiffLines rest) True"
      unfolding m countVisibleDiffRows_def by (simp add: zip_rows_length)
    then have "countVisibleDiffRows (mergeDiffLines (l # ls)) True \<le> changes (l # ls)"
      using b ih by (auto simp: max_def)
    then show ?thesis using b ih zip_columns [of rs as] unfolding m zip_ok_def by simp
  qed
qed (simp add: countVisibleDiffRows_def left_lines_def right_lines_def)

text \<open>The lines of the diff carry their numbers.\<close>

lemma lines_line_ok: "line_ok (contextLine l x y)" "line_ok (addedLine r y)" "line_ok (removedLine l x)"
  by (simp_all add: line_ok_def contextLine_def addedLine_def removedLine_def)

lemma context_line_ok:
  "list_all line_ok ls \<Longrightarrow> list_all line_ok (snd (snd (backtrackContext l p q (x, y, ls))))"
proof (induction l p q "(x, y, ls)" arbitrary: x y ls rule: backtrackContext.induct)
  case (1 l p q x y ls)
  then show ?case by (subst backtrackContext.simps) (simp add: lines_line_ok)
qed

lemma step_line_ok:
  assumes "list_all line_ok (snd (snd st))"
  shows "list_all line_ok (snd (snd (backtrackStep l r off F d st)))"
proof -
  obtain x y ls where st: "st = (x, y, ls)" by (metis prod_cases3)
  show ?thesis
    using context_line_ok [of ls l _ _ x y] assms
    by (auto simp: st backtrackStep_def Let_def lines_line_ok split: prod.split) (metis snd_conv)+
qed

lemma loop_line_ok: "list_all line_ok (snd (snd st)) \<Longrightarrow> list_all line_ok (backtrackLoop l r off tr n st)"
  by (induction n arbitrary: st) (simp_all add: step_line_ok)

lemma diff_line_ok: "\<forall>x\<in>set (ld_lines (computeBudgetedLineDiff b a B)). line_ok x"
proof (cases rule: diff_cases [of B b a])
  case (lines tr used)
  then show ?thesis
    using loop_line_ok [of "(int (length (splitLines b)), int (length (splitLines a)), [])"]
    by (simp add: backtrackMyersTrace_def list_all_iff)
qed (simp_all add: makeTooLargeResult_def)

lemma part_lines:
  assumes "\<forall>x\<in>set ls. line_ok x"
  shows "List.map (\<lambda>p. Some (fst p)) (left_lines ls) = List.map snd (left_part ls)"
    "List.map (\<lambda>p. Some (fst p)) (right_lines ls) = List.map snd (right_part ls)"
  using assms
  by (induction ls) (auto simp: left_lines_def right_lines_def left_part_def right_part_def line_ok_def
      split: option.splits)

lemma numbered_numbers: "List.map snd (numbered xs 0 n) = List.map Some [1..n]"
  by (simp add: numbered_def comp_def)

text \<open>
  C36. The side-by-side view shows every line of both texts exactly once and in order. Read from
  top to bottom, the numbers in the left column of the merged rows are one up to the number of
  lines of the first text, those in the right column likewise for the second; each line keeps the
  mark the diff gave it, although removed and added lines share rows; and hiding the unchanged rows
  leaves at most one row per change.
\<close>

theorem merged_rows_show_every_line:
  assumes "\<not> ld_tooLarge (computeBudgetedLineDiff b a B)"
    and "ls = ld_lines (computeBudgetedLineDiff b a B)"
  shows "left_column (mergeDiffLines ls) = left_lines ls \<and> right_column (mergeDiffLines ls) = right_lines ls \<and>
    List.map fst (left_column (mergeDiffLines ls)) = [1..int (length (splitLines b))] \<and>
    List.map fst (right_column (mergeDiffLines ls)) = [1..int (length (splitLines a))] \<and>
    countVisibleDiffRows (mergeDiffLines ls) True \<le> changes ls"
proof -
  have ok: "\<forall>x\<in>set ls. line_ok x" using diff_line_ok assms(2) by simp
  have "edit_script (splitLines b) (splitLines a) ls"
  proof (cases rule: diff_cases [of B b a])
    case (lines tr used)
    with trace_script [OF lines(2)] assms(2) show ?thesis by simp
  qed (use assms(1) in \<open>simp_all add: makeTooLargeResult_def\<close>)
  then have "List.map Some (List.map fst (left_lines ls)) = List.map Some [1..int (length (splitLines b))]"
    "List.map Some (List.map fst (right_lines ls)) = List.map Some [1..int (length (splitLines a))]"
    using part_lines [OF ok] by (simp_all add: edit_script_def numbered_numbers comp_def)
  then have "List.map fst (left_lines ls) = [1..int (length (splitLines b))]"
    "List.map fst (right_lines ls) = [1..int (length (splitLines a))]"
    by (simp_all only: inj_map_eq_map inj_Some)
  with merge_columns [OF ok] show ?thesis by simp
qed

lemma merged_rows_show_every_line_witness:
  "left_column (mergeDiffLines (ld_lines (computeBudgetedLineDiff ''a'' ''b''
      \<lparr>maxLinesPerSide = 10, maxComputeWork = 100, maxRenderableRows = 10\<rparr>))) = [(1, LineRemoved)]"
proof -
  let ?B = "\<lparr>maxLinesPerSide = 10, maxComputeWork = 100, maxRenderableRows = 10\<rparr>"
  have "\<not> ld_tooLarge (computeBudgetedLineDiff ''a'' ''b'' ?B)" by code_simp
  note merged_rows_show_every_line [OF this refl]
  moreover have "left_lines (ld_lines (computeBudgetedLineDiff ''a'' ''b'' ?B)) = [(1, LineRemoved)]"
    by code_simp
  ultimately show ?thesis by simp
qed

end
