(* ===== verification/DockTabs.thy ===== *)
theory DockTabs
  imports Prelude
begin

text \<open>
  The tab groups of the dockable panels (\<open>ui/dockable/tabGroupState.ts\<close>,
  \<open>ui/dockable/tabGroupTypes.ts\<close>): the two docks and the floating groups, each an ordered
  list of panel ids with one of them active, and the pure functions that place, move, close
  and reorder the panels.

  A \<open>GroupKey\<close> is \<open>'right'\<close>, \<open>'bottom'\<close> or the id of a floating group, a string as in
  the source; the position a panel is added at is one of three literals, a
  \<open>dock_position\<close> here. A floating group is a \<open>tab_group\<close> with an id, so that the spread
  \<open>{ ...group, ...remaining }\<close> is the update of its two list fields. The \<open>NaN\<close> and fraction
  cases of an index do not arise: an index is an \<open>int\<close>, and negative ones count from the end
  as \<open>splice\<close> has it. The number in a floating group's id is a natural number: the ids are
  made by \<open>nextFloatingGroupId\<close> alone, one after the other, and stay far below the
  2^53 where a JavaScript number would stop counting.
\<close>

section \<open>The state\<close>

record tab_group =
  tg_tabs :: "string list"
  tg_activeTab :: "string option"

record floating_group = tab_group +
  fg_groupId :: string

record tab_groups =
  tgs_right :: tab_group
  tgs_bottom :: tab_group
  tgs_floating :: "floating_group list"

datatype dock_position = DockRight | DockBottom | DockFloating

datatype adjacent_preference = PreferLeft | PreferRight

definition emptyTabGroup :: tab_group where
  "emptyTabGroup = \<lparr>tg_tabs = [], tg_activeTab = None\<rparr>"

definition createInitialTabGroupState :: tab_groups where
  "createInitialTabGroupState =
     \<lparr>tgs_right = emptyTabGroup, tgs_bottom = emptyTabGroup, tgs_floating = []\<rparr>"

section \<open>Which group a panel is in\<close>

definition getGroupForPanel :: "tab_groups \<Rightarrow> string \<Rightarrow> string option" where
  "getGroupForPanel s panelId =
     (if panelId \<in> set (tg_tabs (tgs_right s)) then Some ''right''
      else if panelId \<in> set (tg_tabs (tgs_bottom s)) then Some ''bottom''
      else map_option fg_groupId
             (List.find (\<lambda>g. panelId \<in> set (tg_tabs g)) (tgs_floating s)))"

definition getPanelPosition :: "tab_groups \<Rightarrow> string \<Rightarrow> dock_position option" where
  "getPanelPosition s panelId =
     (case getGroupForPanel s panelId of
        None \<Rightarrow> None
      | Some key \<Rightarrow>
          Some (if key = ''right'' then DockRight
                else if key = ''bottom'' then DockBottom else DockFloating))"

definition getGroupTabs :: "tab_groups \<Rightarrow> string \<Rightarrow> (string list \<times> string option) option" where
  "getGroupTabs s groupKey =
     (if groupKey = ''right'' then Some (tg_tabs (tgs_right s), tg_activeTab (tgs_right s))
      else if groupKey = ''bottom'' then Some (tg_tabs (tgs_bottom s), tg_activeTab (tgs_bottom s))
      else map_option (\<lambda>g. (tg_tabs g, tg_activeTab g))
             (List.find (\<lambda>g. fg_groupId g = groupKey) (tgs_floating s)))"

section \<open>Ids of floating groups\<close>

definition floating_prefix :: string where
  "floating_prefix = ''floating-''"

text \<open>\<open>Number.parseInt(s, 10)\<close> of a string of decimal digits\<close>

definition is_digit :: "char \<Rightarrow> bool" where
  "is_digit c \<longleftrightarrow> 48 \<le> (of_char c :: nat) \<and> (of_char c :: nat) \<le> 57"

definition digits_value :: "string \<Rightarrow> nat" where
  "digits_value ds = foldl (\<lambda>n c. 10 * n + (of_char c - 48)) 0 ds"

text \<open>The number a group id carries, when it matches \<open>/^floating-(\d+)$/\<close>\<close>

definition floatingSuffix :: "string \<Rightarrow> nat option" where
  "floatingSuffix gid =
     (let ds = drop (length floating_prefix) gid
      in if prefix floating_prefix gid \<and> ds \<noteq> [] \<and> list_all is_digit ds
         then Some (digits_value ds) else None)"

definition maxNumericSuffix :: "floating_group list \<Rightarrow> nat" where
  "maxNumericSuffix gs =
     foldl (\<lambda>m g. case floatingSuffix (fg_groupId g) of None \<Rightarrow> m | Some n \<Rightarrow> max m n) 0 gs"

definition floatingId :: "nat \<Rightarrow> string" where
  "floatingId n = floating_prefix @ nat_str n"

text \<open>\<open>while (usedIds.has(`floating-${candidate}`)) candidate += 1\<close>, on the set of the ids in
  use. The loop ends because it can only run over as many ids as there are groups; the fuel
  is their number, and \<open>nextFloatingGroupId_fresh\<close> shows that it is never used up.\<close>

fun firstFreeCandidate :: "nat \<Rightarrow> string list \<Rightarrow> nat \<Rightarrow> nat option" where
  "firstFreeCandidate 0 used n = (if floatingId n \<in> set used then None else Some n)"
| "firstFreeCandidate (Suc fuel) used n =
     (if floatingId n \<in> set used then firstFreeCandidate fuel used (n + 1) else Some n)"

definition nextFloatingGroupId :: "tab_groups \<Rightarrow> string" where
  "nextFloatingGroupId s =
     (let used = List.map fg_groupId (tgs_floating s) in
      case firstFreeCandidate (length used) used (maxNumericSuffix (tgs_floating s) + 1) of
        Some n \<Rightarrow> floatingId n
      | None \<Rightarrow> [])"

section \<open>One group\<close>

text \<open>The docks and the floating groups share these; a floating group keeps its id, as the
  spread of the caller has it.\<close>

definition last_or_null :: "'a list \<Rightarrow> 'a option" where
  "last_or_null xs = js_at xs (int (length xs) - 1)"

definition stripPanelFromGroup :: "'a tab_group_scheme \<Rightarrow> string \<Rightarrow> 'a tab_group_scheme" where
  "stripPanelFromGroup g panelId =
     (let tabs = filter (\<lambda>i. i \<noteq> panelId) (tg_tabs g)
      in g\<lparr>tg_tabs := tabs,
           tg_activeTab :=
             (if tg_activeTab g = Some panelId
                \<or> (case tg_activeTab g of None \<Rightarrow> [] | Some a \<Rightarrow> a) \<notin> set tabs
              then last_or_null tabs else tg_activeTab g)\<rparr>)"

definition insertPanelIntoGroup ::
  "'a tab_group_scheme \<Rightarrow> string \<Rightarrow> int option \<Rightarrow> 'a tab_group_scheme" where
  "insertPanelIntoGroup g panelId insertIndex =
     g\<lparr>tg_tabs := splice_insert (tg_tabs g)
         (case insertIndex of None \<Rightarrow> int (length (tg_tabs g)) | Some i \<Rightarrow> i) panelId,
       tg_activeTab := Some panelId\<rparr>"

definition activateAdjacentTab ::
  "string list \<Rightarrow> int \<Rightarrow> string option \<Rightarrow> string \<Rightarrow> adjacent_preference \<Rightarrow> string option" where
  "activateAdjacentTab tabs removedIndex currentActiveId removedId preference =
     (if tabs = [] then None
      else if currentActiveId \<noteq> Some removedId then currentActiveId
      else let rightNeighbor = js_at tabs removedIndex;
               leftNeighbor = js_at tabs (removedIndex - 1)
           in case preference of
                PreferLeft \<Rightarrow> (case leftNeighbor of None \<Rightarrow> rightNeighbor | Some t \<Rightarrow> Some t)
              | PreferRight \<Rightarrow> (case rightNeighbor of None \<Rightarrow> leftNeighbor | Some t \<Rightarrow> Some t))"

definition removePanelWithAdjacentActivation ::
  "'a tab_group_scheme \<Rightarrow> string \<Rightarrow> adjacent_preference \<Rightarrow> 'a tab_group_scheme" where
  "removePanelWithAdjacentActivation g panelId preference =
     (let removedIndex = index_of (tg_tabs g) panelId;
          tabs = filter (\<lambda>i. i \<noteq> panelId) (tg_tabs g)
      in g\<lparr>tg_tabs := tabs,
           tg_activeTab :=
             activateAdjacentTab tabs removedIndex (tg_activeTab g) panelId preference\<rparr>)"

definition reorderTabs :: "string \<Rightarrow> int \<Rightarrow> string list \<Rightarrow> string list" where
  "reorderTabs panelId newIndex tabs =
     (let currentIndex = index_of tabs panelId
      in if currentIndex = -1 then tabs
         else splice_insert (splice_remove tabs currentIndex) newIndex panelId)"

section \<open>All groups\<close>

definition stripPanelFromAllGroups :: "tab_groups \<Rightarrow> string \<Rightarrow> tab_groups" where
  "stripPanelFromAllGroups s panelId =
     \<lparr>tgs_right = stripPanelFromGroup (tgs_right s) panelId,
      tgs_bottom = stripPanelFromGroup (tgs_bottom s) panelId,
      tgs_floating =
        filter (\<lambda>g. tg_tabs g \<noteq> [])
          (List.map (\<lambda>g. stripPanelFromGroup g panelId) (tgs_floating s))\<rparr>"

definition addPanelToGroup ::
  "tab_groups \<Rightarrow> string \<Rightarrow> dock_position \<Rightarrow> int option \<Rightarrow> tab_groups" where
  "addPanelToGroup s panelId position insertIndex =
     (let cleaned = stripPanelFromAllGroups s panelId in
      case position of
        DockRight \<Rightarrow>
          cleaned\<lparr>tgs_right := insertPanelIntoGroup (tgs_right cleaned) panelId insertIndex\<rparr>
      | DockBottom \<Rightarrow>
          cleaned\<lparr>tgs_bottom := insertPanelIntoGroup (tgs_bottom cleaned) panelId insertIndex\<rparr>
      | DockFloating \<Rightarrow>
          cleaned\<lparr>tgs_floating := tgs_floating cleaned @
            [\<lparr>tg_tabs = [panelId], tg_activeTab = Some panelId,
              fg_groupId = nextFloatingGroupId cleaned\<rparr>]\<rparr>)"

fun removeFromFloating ::
  "string \<Rightarrow> string \<Rightarrow> adjacent_preference \<Rightarrow> floating_group list \<Rightarrow> floating_group list" where
  "removeFromFloating groupKey panelId preference [] = []"
| "removeFromFloating groupKey panelId preference (g # gs) =
     (let rest = removeFromFloating groupKey panelId preference gs in
      if fg_groupId g \<noteq> groupKey then g # rest
      else let remaining = removePanelWithAdjacentActivation g panelId preference
           in if tg_tabs remaining \<noteq> [] then remaining # rest else rest)"

definition removePanelFromGroup ::
  "tab_groups \<Rightarrow> string \<Rightarrow> adjacent_preference \<Rightarrow> tab_groups" where
  "removePanelFromGroup s panelId preference =
     (case getGroupForPanel s panelId of
        None \<Rightarrow> s
      | Some groupKey \<Rightarrow>
          if groupKey = ''right'' then
            s\<lparr>tgs_right := removePanelWithAdjacentActivation (tgs_right s) panelId preference\<rparr>
          else if groupKey = ''bottom'' then
            s\<lparr>tgs_bottom := removePanelWithAdjacentActivation (tgs_bottom s) panelId preference\<rparr>
          else
            s\<lparr>tgs_floating := removeFromFloating groupKey panelId preference (tgs_floating s)\<rparr>)"

text \<open>\<open>floating.map(group => group.groupId === groupKey ? f(group) : group)\<close>\<close>

definition update_floating ::
  "string \<Rightarrow> (floating_group \<Rightarrow> floating_group) \<Rightarrow> floating_group list \<Rightarrow> floating_group list" where
  "update_floating groupKey f = List.map (\<lambda>g. if fg_groupId g = groupKey then f g else g)"

definition setActiveTab :: "tab_groups \<Rightarrow> string \<Rightarrow> string \<Rightarrow> tab_groups" where
  "setActiveTab s panelId groupKey =
     (if groupKey = ''right'' then s\<lparr>tgs_right := (tgs_right s)\<lparr>tg_activeTab := Some panelId\<rparr>\<rparr>
      else if groupKey = ''bottom'' then
        s\<lparr>tgs_bottom := (tgs_bottom s)\<lparr>tg_activeTab := Some panelId\<rparr>\<rparr>
      else s\<lparr>tgs_floating :=
          update_floating groupKey (\<lambda>g. g\<lparr>tg_activeTab := Some panelId\<rparr>) (tgs_floating s)\<rparr>)"

definition reorderTab :: "tab_groups \<Rightarrow> string \<Rightarrow> string \<Rightarrow> int \<Rightarrow> tab_groups" where
  "reorderTab s groupKey panelId newIndex =
     (if groupKey = ''right'' then
        s\<lparr>tgs_right := (tgs_right s)
            \<lparr>tg_tabs := reorderTabs panelId newIndex (tg_tabs (tgs_right s))\<rparr>\<rparr>
      else if groupKey = ''bottom'' then
        s\<lparr>tgs_bottom := (tgs_bottom s)
            \<lparr>tg_tabs := reorderTabs panelId newIndex (tg_tabs (tgs_bottom s))\<rparr>\<rparr>
      else s\<lparr>tgs_floating :=
          update_floating groupKey
            (\<lambda>g. g\<lparr>tg_tabs := reorderTabs panelId newIndex (tg_tabs g)\<rparr>) (tgs_floating s)\<rparr>)"

definition addPanelToFloatingGroup ::
  "tab_groups \<Rightarrow> string \<Rightarrow> string \<Rightarrow> int option \<Rightarrow> tab_groups" where
  "addPanelToFloatingGroup s panelId groupId insertIndex =
     (let cleaned = stripPanelFromAllGroups s panelId;
          foundTargetGroup = list_ex (\<lambda>g. fg_groupId g = groupId) (tgs_floating cleaned);
          nextState = cleaned\<lparr>tgs_floating :=
            update_floating groupId (\<lambda>g. insertPanelIntoGroup g panelId insertIndex)
              (tgs_floating cleaned)\<rparr>
      in if \<not> foundTargetGroup then addPanelToGroup cleaned panelId DockFloating None
         else nextState)"

definition movePanelToGroup ::
  "tab_groups \<Rightarrow> string \<Rightarrow> string \<Rightarrow> int option \<Rightarrow> tab_groups" where
  "movePanelToGroup s panelId target insertIndex =
     (let removed = removePanelFromGroup s panelId PreferRight in
      if target = ''right'' then addPanelToGroup removed panelId DockRight insertIndex
      else if target = ''bottom'' then addPanelToGroup removed panelId DockBottom insertIndex
      else if target = ''floating'' then addPanelToGroup removed panelId DockFloating insertIndex
      else addPanelToFloatingGroup removed panelId target insertIndex)"

end
