(* ===== verification/DockStore.thy ===== *)
theory DockStore
  imports DockTabs
begin

text \<open>
  The layout store of the dockable panels of one cluster
  (\<open>ui/dockable/panelLayoutStore.ts\<close>): which panels are open, the geometry and the stacking
  order of each group, the tab groups, and the listeners of each.

  The \<open>Map\<close>s of the closure are \<open>jmap\<close>s. A listener is a number; the listeners a
  notification calls are appended to \<open>ds_called\<close>, and what they do is not part of the model
  (they ask React to render). The unsubscribe function that \<open>subscribeKey\<close> returns keeps a
  reference to the \<open>Set\<close> it was added to, and not to the map's entry, so the sets live in a
  heap, \<open>ds_sets\<close>, addressed by their index. A \<open>Partial\<close> argument is a record of options.
  \<open>getObjectPanelLayoutDefaults()\<close>, the user's preference at the time of the call, is an
  argument. Sizes are whole pixels.

  The updater of \<open>setTabGroups\<close> may return the very state it was given, which the code tests
  by reference: that is \<open>None\<close> here, and a new state is \<open>Some\<close>.
\<close>

record box_size =
  bx_width :: int
  bx_height :: int

record panel_open_state =
  pos_isOpen :: bool
  pos_isInitialized :: bool

record group_layout =
  gl_rightSize :: box_size
  gl_bottomSize :: box_size
  gl_isMaximized :: bool
  gl_isInitialized :: bool
  gl_zIndex :: int

record layout_update =
  lu_rightSize :: "box_size option"
  lu_bottomSize :: "box_size option"
  lu_isMaximized :: "bool option"
  lu_isInitialized :: "bool option"
  lu_zIndex :: "int option"

record layout_defaults =
  ld_dockedRightWidth :: int
  ld_dockedBottomHeight :: int

record dock_store =
  ds_panels :: "(string, panel_open_state) jmap"
  ds_panelListeners :: "(string, nat) jmap"
  ds_layouts :: "(string, group_layout) jmap"
  ds_layoutListeners :: "(string, nat) jmap"
  ds_groupListeners :: "nat list"
  ds_tabGroups :: tab_groups
  ds_zIndex :: int
  ds_sets :: "nat list list"
  ds_called :: "nat list"

definition createPanelLayoutStore :: "tab_groups option \<Rightarrow> dock_store" where
  "createPanelLayoutStore initialTabGroups =
     \<lparr>ds_panels = [], ds_panelListeners = [], ds_layouts = [], ds_layoutListeners = [],
      ds_groupListeners = [],
      ds_tabGroups = (case initialTabGroups of None \<Rightarrow> createInitialTabGroupState | Some g \<Rightarrow> g),
      ds_zIndex = 1000, ds_sets = [], ds_called = []\<rparr>"

section \<open>Listeners\<close>

text \<open>\<open>subscribeKey\<close> on a heap of sets: the new map, the new heap and the set the listener
  was added to, which the returned function closes over\<close>

definition subscribeKey ::
  "(string, nat) jmap \<Rightarrow> nat list list \<Rightarrow> string \<Rightarrow> nat
   \<Rightarrow> (string, nat) jmap \<times> nat list list \<times> nat" where
  "subscribeKey listeners sets key l =
     (let (listeners', sets', entries) =
        (case jm_get listeners key of
           Some r \<Rightarrow> (listeners, sets, r)
         | None \<Rightarrow> (jm_set key (length sets) listeners, sets @ [[]], length sets))
      in (listeners', sets'[entries := jset_add l (sets' ! entries)], entries))"

definition unsubscribeKey ::
  "(string, nat) jmap \<Rightarrow> nat list list \<Rightarrow> string \<Rightarrow> nat \<Rightarrow> nat
   \<Rightarrow> (string, nat) jmap \<times> nat list list" where
  "unsubscribeKey listeners sets key entries l =
     (let sets' = sets[entries := removeAll l (sets ! entries)]
      in (if sets' ! entries = [] then jm_delete key listeners else listeners, sets'))"

definition keyListeners :: "(string, nat) jmap \<Rightarrow> nat list list \<Rightarrow> string \<Rightarrow> nat list" where
  "keyListeners listeners sets key =
     (case jm_get listeners key of None \<Rightarrow> [] | Some r \<Rightarrow> sets ! r)"

definition notifyPanel :: "string \<Rightarrow> dock_store \<Rightarrow> dock_store" where
  "notifyPanel panelId st =
     st\<lparr>ds_called := ds_called st @ keyListeners (ds_panelListeners st) (ds_sets st) panelId\<rparr>"

definition notifyLayout :: "string \<Rightarrow> dock_store \<Rightarrow> dock_store" where
  "notifyLayout key st =
     st\<lparr>ds_called := ds_called st @ keyListeners (ds_layoutListeners st) (ds_sets st) key\<rparr>"

definition notifyGroups :: "dock_store \<Rightarrow> dock_store" where
  "notifyGroups st = st\<lparr>ds_called := ds_called st @ ds_groupListeners st\<rparr>"

definition subscribePanel :: "string \<Rightarrow> nat \<Rightarrow> dock_store \<Rightarrow> dock_store \<times> nat" where
  "subscribePanel panelId l st =
     (let (m, sets, r) = subscribeKey (ds_panelListeners st) (ds_sets st) panelId l
      in (st\<lparr>ds_panelListeners := m, ds_sets := sets\<rparr>, r))"

definition unsubscribePanel :: "string \<Rightarrow> nat \<Rightarrow> nat \<Rightarrow> dock_store \<Rightarrow> dock_store" where
  "unsubscribePanel panelId r l st =
     (let (m, sets) = unsubscribeKey (ds_panelListeners st) (ds_sets st) panelId r l
      in st\<lparr>ds_panelListeners := m, ds_sets := sets\<rparr>)"

definition subscribeGroupLayout :: "string \<Rightarrow> nat \<Rightarrow> dock_store \<Rightarrow> dock_store \<times> nat" where
  "subscribeGroupLayout key l st =
     (let (m, sets, r) = subscribeKey (ds_layoutListeners st) (ds_sets st) key l
      in (st\<lparr>ds_layoutListeners := m, ds_sets := sets\<rparr>, r))"

definition unsubscribeGroupLayout :: "string \<Rightarrow> nat \<Rightarrow> nat \<Rightarrow> dock_store \<Rightarrow> dock_store" where
  "unsubscribeGroupLayout key r l st =
     (let (m, sets) = unsubscribeKey (ds_layoutListeners st) (ds_sets st) key r l
      in st\<lparr>ds_layoutListeners := m, ds_sets := sets\<rparr>)"

definition subscribeTabGroups :: "nat \<Rightarrow> dock_store \<Rightarrow> dock_store" where
  "subscribeTabGroups l st = st\<lparr>ds_groupListeners := jset_add l (ds_groupListeners st)\<rparr>"

definition unsubscribeTabGroups :: "nat \<Rightarrow> dock_store \<Rightarrow> dock_store" where
  "unsubscribeTabGroups l st = st\<lparr>ds_groupListeners := removeAll l (ds_groupListeners st)\<rparr>"

section \<open>Panels\<close>

definition getInitialState :: "string \<Rightarrow> dock_store \<Rightarrow> dock_store \<times> panel_open_state" where
  "getInitialState panelId st =
     (case jm_get (ds_panels st) panelId of
        Some p \<Rightarrow> (st, p)
      | None \<Rightarrow>
          let p = \<lparr>pos_isOpen = False, pos_isInitialized = False\<rparr>
          in (st\<lparr>ds_panels := jm_set panelId p (ds_panels st)\<rparr>, p))"

definition updateState ::
  "string \<Rightarrow> bool option \<Rightarrow> bool option \<Rightarrow> dock_store \<Rightarrow> dock_store" where
  "updateState panelId isOpen isInitialized st =
     (let (st', previous) = getInitialState panelId st;
          next = \<lparr>pos_isOpen = (case isOpen of None \<Rightarrow> pos_isOpen previous | Some b \<Rightarrow> b),
                  pos_isInitialized =
                    (case isInitialized of None \<Rightarrow> pos_isInitialized previous | Some b \<Rightarrow> b)\<rparr>
      in if previous = next then st'
         else notifyPanel panelId (st'\<lparr>ds_panels := jm_set panelId next (ds_panels st')\<rparr>))"

definition setPanelOpenById :: "string \<Rightarrow> bool \<Rightarrow> dock_store \<Rightarrow> dock_store" where
  "setPanelOpenById panelId isOpen = updateState panelId (Some isOpen) None"

section \<open>Group layouts\<close>

definition no_layout_update :: layout_update where
  "no_layout_update =
     \<lparr>lu_rightSize = None, lu_bottomSize = None, lu_isMaximized = None,
      lu_isInitialized = None, lu_zIndex = None\<rparr>"

abbreviation given :: "'a option \<Rightarrow> 'a \<Rightarrow> 'a" where
  "given opt x \<equiv> (case opt of None \<Rightarrow> x | Some y \<Rightarrow> y)"

text \<open>\<open>{ ...previous, ...updates }\<close>\<close>

definition spreadLayout :: "group_layout \<Rightarrow> layout_update \<Rightarrow> group_layout" where
  "spreadLayout previous u =
     \<lparr>gl_rightSize = given (lu_rightSize u) (gl_rightSize previous),
      gl_bottomSize = given (lu_bottomSize u) (gl_bottomSize previous),
      gl_isMaximized = given (lu_isMaximized u) (gl_isMaximized previous),
      gl_isInitialized = given (lu_isInitialized u) (gl_isInitialized previous),
      gl_zIndex = given (lu_zIndex u) (gl_zIndex previous)\<rparr>"

definition layoutsEqual :: "group_layout \<Rightarrow> group_layout \<Rightarrow> bool" where
  "layoutsEqual l r \<longleftrightarrow>
     gl_isMaximized l = gl_isMaximized r \<and>
     bx_width (gl_rightSize l) = bx_width (gl_rightSize r) \<and>
     bx_height (gl_rightSize l) = bx_height (gl_rightSize r) \<and>
     bx_width (gl_bottomSize l) = bx_width (gl_bottomSize r) \<and>
     bx_height (gl_bottomSize l) = bx_height (gl_bottomSize r) \<and>
     gl_isInitialized l = gl_isInitialized r \<and>
     gl_zIndex l = gl_zIndex r"

definition getGroupLayout ::
  "layout_defaults \<Rightarrow> string \<Rightarrow> dock_store \<Rightarrow> dock_store \<times> group_layout" where
  "getGroupLayout defaults key st =
     (case jm_get (ds_layouts st) key of
        Some l \<Rightarrow> (st, l)
      | None \<Rightarrow>
          let l = \<lparr>gl_rightSize = \<lparr>bx_width = ld_dockedRightWidth defaults, bx_height = 300\<rparr>,
                   gl_bottomSize = \<lparr>bx_width = 400, bx_height = ld_dockedBottomHeight defaults\<rparr>,
                   gl_isMaximized = False, gl_isInitialized = False, gl_zIndex = ds_zIndex st\<rparr>
          in (st\<lparr>ds_zIndex := ds_zIndex st + 1, ds_layouts := jm_set key l (ds_layouts st)\<rparr>, l))"

definition updateGroupLayout ::
  "layout_defaults \<Rightarrow> string \<Rightarrow> layout_update \<Rightarrow> dock_store \<Rightarrow> dock_store" where
  "updateGroupLayout defaults key u st =
     (let (st', previous) = getGroupLayout defaults key st;
          next = spreadLayout previous u
      in if layoutsEqual previous next then st'
         else notifyLayout key (st'\<lparr>ds_layouts := jm_set key next (ds_layouts st')\<rparr>))"

definition initializeGroupLayout ::
  "layout_defaults \<Rightarrow> string \<Rightarrow> int option \<Rightarrow> int option \<Rightarrow> dock_store \<Rightarrow> dock_store" where
  "initializeGroupLayout defaults key width height st =
     (let (st', l) = getGroupLayout defaults key st
      in if gl_isInitialized l then st'
         else updateGroupLayout defaults key
           (no_layout_update
             \<lparr>lu_rightSize := Some ((gl_rightSize l)
                \<lparr>bx_width := given width (bx_width (gl_rightSize l))\<rparr>),
              lu_bottomSize := Some ((gl_bottomSize l)
                \<lparr>bx_height := given height (bx_height (gl_bottomSize l))\<rparr>),
              lu_isInitialized := Some True\<rparr>) st')"

text \<open>\<open>++zIndex\<close> is evaluated before the layout is looked up (and perhaps made)\<close>

definition focusGroup :: "layout_defaults \<Rightarrow> string \<Rightarrow> dock_store \<Rightarrow> dock_store" where
  "focusGroup defaults key st =
     (let z = ds_zIndex st + 1
      in updateGroupLayout defaults key (no_layout_update\<lparr>lu_zIndex := Some z\<rparr>)
           (st\<lparr>ds_zIndex := z\<rparr>))"

definition focusPanelById :: "layout_defaults \<Rightarrow> string \<Rightarrow> dock_store \<Rightarrow> dock_store" where
  "focusPanelById defaults panelId st =
     (case getGroupForPanel (ds_tabGroups st) panelId of
        Some key \<Rightarrow> if key \<noteq> [] then focusGroup defaults key st else st
      | None \<Rightarrow> st)"

text \<open>The \<open>layouts.forEach\<close> loops visit the entries present when they start, each with its
  value at the time of the visit; an entry deleted before its turn is not visited. The loop
  bodies change or delete the entry they visit and no other.\<close>

definition settleLayout :: "layout_defaults \<Rightarrow> string \<Rightarrow> dock_store \<Rightarrow> dock_store" where
  "settleLayout defaults key st =
     (case jm_get (ds_layouts st) key of
        None \<Rightarrow> st
      | Some layout \<Rightarrow>
          (case getGroupTabs (ds_tabGroups st) key of
             None \<Rightarrow> st\<lparr>ds_layouts := jm_delete key (ds_layouts st)\<rparr>
           | Some (tabs, active) \<Rightarrow>
               if gl_isMaximized layout \<and> tabs = [] then
                 updateGroupLayout defaults key
                   (no_layout_update\<lparr>lu_isMaximized := Some False\<rparr>) st
               else st))"

definition setTabGroups ::
  "layout_defaults \<Rightarrow> tab_groups option \<Rightarrow> dock_store \<Rightarrow> dock_store" where
  "setTabGroups defaults updated st =
     (case updated of
        None \<Rightarrow> st
      | Some next \<Rightarrow>
          notifyGroups
            (fold (settleLayout defaults) (jm_keys (ds_layouts st)) (st\<lparr>ds_tabGroups := next\<rparr>)))"

text \<open>\<open>removePanelFromGroup\<close> returns its argument itself when the panel is in no group.\<close>

definition removedGroups ::
  "tab_groups \<Rightarrow> string \<Rightarrow> adjacent_preference \<Rightarrow> tab_groups option" where
  "removedGroups groups panelId preference =
     (if getGroupForPanel groups panelId = None then None
      else Some (removePanelFromGroup groups panelId preference))"

definition clearPanelState :: "layout_defaults \<Rightarrow> string \<Rightarrow> dock_store \<Rightarrow> dock_store" where
  "clearPanelState defaults panelId st =
     (let st' = setTabGroups defaults (removedGroups (ds_tabGroups st) panelId PreferRight) st
      in st'\<lparr>ds_panels := jm_delete panelId (ds_panels st')\<rparr>)"

definition applyLayoutDefaults :: "layout_defaults \<Rightarrow> string \<Rightarrow> dock_store \<Rightarrow> dock_store" where
  "applyLayoutDefaults defaults key st =
     (case jm_get (ds_layouts st) key of
        None \<Rightarrow> st
      | Some layout \<Rightarrow>
          let tabs = (case getGroupTabs (ds_tabGroups st) key of None \<Rightarrow> [] | Some (ts, _) \<Rightarrow> ts)
          in if tabs \<noteq> [] \<and> \<not> list_ex (prefix ''obj:'') tabs then st
             else updateGroupLayout defaults key
               (no_layout_update
                 \<lparr>lu_rightSize := Some ((gl_rightSize layout)
                    \<lparr>bx_width := ld_dockedRightWidth defaults\<rparr>),
                  lu_bottomSize := Some ((gl_bottomSize layout)
                    \<lparr>bx_height := ld_dockedBottomHeight defaults\<rparr>)\<rparr>) st)"

definition applyObjectPanelLayoutDefaults :: "layout_defaults \<Rightarrow> dock_store \<Rightarrow> dock_store" where
  "applyObjectPanelLayoutDefaults defaults st =
     fold (applyLayoutDefaults defaults) (jm_keys (ds_layouts st)) st"

end
