(* ===== verification/DockProvider.thy ===== *)
theory DockProvider
  imports DockStore
begin

text \<open>
  The provider of the dockable panels (\<open>ui/dockable/DockablePanelProvider.tsx\<close>): one layout
  store per cluster, the group the user was in last, and the operations that the tab bars,
  the drop targets and the object panels call.

  The callbacks are React closures over the store of the selected cluster. A group key of
  \<open>null\<close> is \<open>None\<close>. The answers of what is outside the provider are arguments: whether a
  panel's lifecycle guard blocks it (\<open>lifecycleGuards.firstBlocker\<close>) and what the owner of a
  native window answers. Focusing DOM elements, the registrations' titles and the rendering
  are not modelled. \<open>commitTabClose\<close> focuses the next tab in a timer; \<open>focusAfterClose\<close> is
  what the timer does. A panel whose owner registered an \<open>onClose\<close> is closed by its owner,
  through operations of its own; otherwise the provider marks it closed.

  A layout effect reconciles the focused group after every render with new tab groups; the
  transitions below that may store new groups of the active store end with it
  (\<open>reconcileFocus\<close>).
\<close>

section \<open>Where a new panel goes\<close>

definition firstGroupWithTabs :: "tab_groups \<Rightarrow> string option" where
  "firstGroupWithTabs s =
     (if tg_tabs (tgs_right s) \<noteq> [] then Some ''right''
      else if tg_tabs (tgs_bottom s) \<noteq> [] then Some ''bottom''
      else map_option fg_groupId (List.find (\<lambda>g. tg_tabs g \<noteq> []) (tgs_floating s)))"

definition isFloatingGroupKey :: "string option \<Rightarrow> bool" where
  "isFloatingGroupKey k \<longleftrightarrow> k \<noteq> None \<and> k \<noteq> Some ''right'' \<and> k \<noteq> Some ''bottom''"

definition group_has_tabs :: "tab_groups \<Rightarrow> string \<Rightarrow> bool" where
  "group_has_tabs s key =
     (case getGroupTabs s key of None \<Rightarrow> False | Some (tabs, _) \<Rightarrow> tabs \<noteq> [])"

definition position_key :: "dock_position \<Rightarrow> string" where
  "position_key p =
     (case p of DockRight \<Rightarrow> ''right'' | DockBottom \<Rightarrow> ''bottom'' | DockFloating \<Rightarrow> ''floating'')"

definition resolveFocusedFloatingGroup ::
  "tab_groups \<Rightarrow> string option \<Rightarrow> string option \<Rightarrow> string" where
  "resolveFocusedFloatingGroup s currentGroup focusedGroup =
     (if isFloatingGroupKey currentGroup then the currentGroup
      else if \<not> isFloatingGroupKey focusedGroup then ''floating''
      else if group_has_tabs s (the focusedGroup) then the focusedGroup else ''floating'')"

definition resolvePanelTargetGroup ::
  "tab_groups \<Rightarrow> string option \<Rightarrow> dock_position \<Rightarrow> string option \<Rightarrow> string option \<Rightarrow> string"
where
  "resolvePanelTargetGroup s currentGroup position preferredGroup focusedGroup =
     (case (currentGroup, preferredGroup) of
        (None, Some preferred) \<Rightarrow> preferred
      | _ \<Rightarrow>
          if position = DockFloating
          then resolveFocusedFloatingGroup s currentGroup focusedGroup
          else position_key position)"

definition panelAlreadyInTargetGroup :: "string option \<Rightarrow> string \<Rightarrow> bool" where
  "panelAlreadyInTargetGroup currentGroup targetGroup =
     (if targetGroup = ''floating'' then isFloatingGroupKey currentGroup
      else currentGroup = Some targetGroup)"

definition addPanelToResolvedGroup ::
  "tab_groups \<Rightarrow> string \<Rightarrow> string \<Rightarrow> dock_position \<Rightarrow> tab_groups" where
  "addPanelToResolvedGroup s panelId targetGroup fallbackPosition =
     (if targetGroup = ''right'' then addPanelToGroup s panelId DockRight None
      else if targetGroup = ''bottom'' then addPanelToGroup s panelId DockBottom None
      else if targetGroup = ''floating'' then addPanelToGroup s panelId DockFloating None
      else if group_has_tabs s targetGroup then addPanelToFloatingGroup s panelId targetGroup None
      else if fallbackPosition = DockRight \<or> fallbackPosition = DockBottom
      then addPanelToGroup s panelId fallbackPosition None
      else addPanelToGroup s panelId DockFloating None)"

text \<open>\<open>None\<close> is the argument itself\<close>

definition syncPanelGroupState ::
  "tab_groups \<Rightarrow> string \<Rightarrow> dock_position \<Rightarrow> string option \<Rightarrow> string option \<Rightarrow> tab_groups option"
where
  "syncPanelGroupState s panelId position preferredGroup focusedGroup =
     (let currentGroup = getGroupForPanel s panelId;
          targetGroup = resolvePanelTargetGroup s currentGroup position preferredGroup focusedGroup
      in if panelAlreadyInTargetGroup currentGroup targetGroup then None
         else Some (addPanelToResolvedGroup s panelId targetGroup position))"

section \<open>Groups of panels\<close>

text \<open>\<open>uniquePanelIds.reduce((current, panelId, panelIndex) => ...)\<close>\<close>

fun dockEach ::
  "dock_position \<Rightarrow> int option \<Rightarrow> string list \<Rightarrow> tab_groups \<Rightarrow> tab_groups" where
  "dockEach position insertIndex [] s = s"
| "dockEach position insertIndex (p # ps) s =
     dockEach position (map_option (\<lambda>i. i + 1) insertIndex) ps
       (addPanelToGroup s p position insertIndex)"

definition dockPanelGroup ::
  "string list \<Rightarrow> string \<Rightarrow> dock_position \<Rightarrow> int option \<Rightarrow> tab_groups \<Rightarrow> tab_groups" where
  "dockPanelGroup panelIds activePanelId targetPosition insertIndex previous =
     (let uniquePanelIds = js_unique panelIds;
          next = dockEach targetPosition insertIndex uniquePanelIds previous
      in if activePanelId \<in> set uniquePanelIds
         then setActiveTab next activePanelId (position_key targetPosition) else next)"

definition detachPanelGroup :: "string list \<Rightarrow> tab_groups \<Rightarrow> tab_groups option" where
  "detachPanelGroup panelIds previous =
     fold (\<lambda>panelId current.
         (case removedGroups (given current previous) panelId PreferRight of
            None \<Rightarrow> current | Some s \<Rightarrow> Some s))
       (js_unique panelIds) None"

section \<open>The provider\<close>

record dock_provider =
  dp_stores :: "(string, dock_store) jmap"
  dp_selected :: string
  dp_lastFocused :: "string option"
  dp_pendingFocus :: "(string \<times> string) option"

definition cluster_key :: "string \<Rightarrow> string" where
  "cluster_key clusterId = (if clusterId = [] then ''__default__'' else clusterId)"

definition getOrCreateStore ::
  "tab_groups option \<Rightarrow> string \<Rightarrow> dock_provider \<Rightarrow> dock_provider" where
  "getOrCreateStore initialTabGroups key p =
     (case jm_get (dp_stores p) key of
        Some _ \<Rightarrow> p
      | None \<Rightarrow>
          p\<lparr>dp_stores := jm_set key (createPanelLayoutStore initialTabGroups) (dp_stores p)\<rparr>)"

definition updateStore ::
  "string \<Rightarrow> (dock_store \<Rightarrow> dock_store) \<Rightarrow> dock_provider \<Rightarrow> dock_provider" where
  "updateStore key f p =
     (case jm_get (dp_stores p) key of
        None \<Rightarrow> p
      | Some st \<Rightarrow> p\<lparr>dp_stores := jm_set key (f st) (dp_stores p)\<rparr>)"

definition activeStore :: "dock_provider \<Rightarrow> dock_store" where
  "activeStore p =
     (case jm_get (dp_stores p) (cluster_key (dp_selected p)) of
        None \<Rightarrow> createPanelLayoutStore None | Some st \<Rightarrow> st)"

abbreviation activeGroups :: "dock_provider \<Rightarrow> tab_groups" where
  "activeGroups p \<equiv> ds_tabGroups (activeStore p)"

definition onActive :: "(dock_store \<Rightarrow> dock_store) \<Rightarrow> dock_provider \<Rightarrow> dock_provider" where
  "onActive f p = updateStore (cluster_key (dp_selected p)) f p"

definition reconcileLastFocusedGroup :: "tab_groups \<Rightarrow> dock_provider \<Rightarrow> dock_provider" where
  "reconcileLastFocusedGroup groups p =
     (case dp_lastFocused p of
        None \<Rightarrow> p
      | Some key \<Rightarrow>
          if key = [] \<or> group_has_tabs groups key then p
          else p\<lparr>dp_lastFocused := firstGroupWithTabs groups\<rparr>)"

text \<open>The layout effect that runs when the tab groups of the active store are new\<close>

definition reconcileFocus :: "dock_provider \<Rightarrow> dock_provider" where
  "reconcileFocus p = reconcileLastFocusedGroup (activeGroups p) p"

definition setActiveGroups ::
  "layout_defaults \<Rightarrow> (tab_groups \<Rightarrow> tab_groups option) \<Rightarrow> dock_provider \<Rightarrow> dock_provider" where
  "setActiveGroups defaults updater p =
     onActive (\<lambda>st. setTabGroups defaults (updater (ds_tabGroups st)) st) p"

definition setLastFocusedGroupKey :: "string option \<Rightarrow> dock_provider \<Rightarrow> dock_provider" where
  "setLastFocusedGroupKey key p = p\<lparr>dp_lastFocused := key\<rparr>"

definition getPreferredOpenGroupKey :: "dock_position \<Rightarrow> dock_provider \<Rightarrow> string" where
  "getPreferredOpenGroupKey fallbackPosition p =
     (case dp_lastFocused p of
        None \<Rightarrow> position_key fallbackPosition
      | Some key \<Rightarrow>
          if key \<noteq> [] \<and> group_has_tabs (activeGroups p) key then key
          else position_key fallbackPosition)"

definition getLastFocusedPosition :: "dock_provider \<Rightarrow> dock_position" where
  "getLastFocusedPosition p =
     (let key = getPreferredOpenGroupKey DockRight p
      in if key = ''right'' then DockRight else if key = ''bottom'' then DockBottom
         else DockFloating)"

section \<open>Its operations\<close>

definition selectCluster ::
  "tab_groups option \<Rightarrow> string \<Rightarrow> dock_provider \<Rightarrow> dock_provider" where
  "selectCluster initialTabGroups clusterId p =
     (let q = getOrCreateStore initialTabGroups (cluster_key clusterId) (p\<lparr>dp_selected := clusterId\<rparr>);
          r = (case dp_pendingFocus q of
                 None \<Rightarrow> q
               | Some (panelId, c) \<Rightarrow>
                   if dp_selected p \<noteq> clusterId \<and> c \<noteq> clusterId
                   then q\<lparr>dp_pendingFocus := None\<rparr> else q)
      in reconcileFocus r)"

text \<open>The stores of clusters that are no longer open go; the active one stays through the
  closure the provider holds, under \<open>managedClusterIds\<close> that contain it.\<close>

definition pruneStores :: "string list \<Rightarrow> dock_provider \<Rightarrow> dock_provider" where
  "pruneStores managedClusterIds p =
     p\<lparr>dp_stores :=
         filter (\<lambda>(key, st). key = ''__default__'' \<or> key \<in> set managedClusterIds) (dp_stores p)\<rparr>"

definition syncPanelGroup ::
  "layout_defaults \<Rightarrow> string \<Rightarrow> dock_position \<Rightarrow> string option \<Rightarrow> dock_provider \<Rightarrow> dock_provider"
where
  "syncPanelGroup defaults panelId position preferredGroupKey p =
     reconcileFocus
       (setActiveGroups defaults
         (\<lambda>prev. syncPanelGroupState prev panelId position preferredGroupKey (dp_lastFocused p)) p)"

definition removePanelFromGroups ::
  "layout_defaults \<Rightarrow> string \<Rightarrow> dock_provider \<Rightarrow> dock_provider" where
  "removePanelFromGroups defaults panelId p =
     reconcileFocus
       (setActiveGroups defaults (\<lambda>prev. removedGroups prev panelId PreferRight) p)"

definition switchTab :: "layout_defaults \<Rightarrow> string \<Rightarrow> string \<Rightarrow> dock_provider \<Rightarrow> dock_provider" where
  "switchTab defaults groupKey panelId p =
     reconcileFocus
       (setActiveGroups defaults (\<lambda>prev. Some (setActiveTab prev panelId groupKey)) p)"

definition commitTabClose ::
  "layout_defaults \<Rightarrow> string \<Rightarrow> adjacent_preference \<Rightarrow> bool
   \<Rightarrow> dock_provider \<Rightarrow> dock_provider \<times> string option" where
  "commitTabClose defaults panelId activationPreference hasOnClose p =
     (let groups = activeGroups p;
          (q, next) =
            (case getGroupForPanel groups panelId of
               Some key \<Rightarrow>
                 let nextGroups = removePanelFromGroup groups panelId activationPreference
                 in (reconcileLastFocusedGroup nextGroups
                       (setActiveGroups defaults (\<lambda>_. Some nextGroups) p),
                     case getGroupTabs nextGroups key of None \<Rightarrow> None | Some (_, a) \<Rightarrow> a)
             | None \<Rightarrow>
                 (reconcileLastFocusedGroup groups
                    (setActiveGroups defaults (\<lambda>prev. removedGroups prev panelId PreferRight) p),
                  None))
      in (reconcileFocus
            (if hasOnClose then q else onActive (setPanelOpenById panelId False) q), next))"

definition focusAfterClose ::
  "layout_defaults \<Rightarrow> string option \<Rightarrow> dock_provider \<Rightarrow> dock_provider" where
  "focusAfterClose defaults next p =
     (case next of None \<Rightarrow> p | Some panelId \<Rightarrow> onActive (focusPanelById defaults panelId) p)"

text \<open>\<open>closeTab\<close>: the guard's answer and the owner of a native window come first\<close>

definition closeTab ::
  "layout_defaults \<Rightarrow> bool \<Rightarrow> bool \<Rightarrow> string \<Rightarrow> adjacent_preference
   \<Rightarrow> bool \<Rightarrow> dock_provider \<Rightarrow> dock_provider \<times> string option" where
  "closeTab defaults blocked nativeOwner panelId activationPreference hasOnClose p =
     (if blocked \<or> nativeOwner then (p, None)
      else commitTabClose defaults panelId activationPreference hasOnClose p)"

definition reorderTabInGroup ::
  "layout_defaults \<Rightarrow> string \<Rightarrow> string \<Rightarrow> int \<Rightarrow> dock_provider \<Rightarrow> dock_provider" where
  "reorderTabInGroup defaults groupKey panelId newIndex p =
     reconcileFocus
       (setActiveGroups defaults (\<lambda>prev. Some (reorderTab prev groupKey panelId newIndex)) p)"

text \<open>For the target \<open>'floating'\<close> the call goes to the owner of the native windows and leaves
  the provider's state as it is.\<close>

definition movePanelBetweenGroups ::
  "layout_defaults \<Rightarrow> string \<Rightarrow> string \<Rightarrow> int option \<Rightarrow> dock_provider \<Rightarrow> dock_provider" where
  "movePanelBetweenGroups defaults panelId targetGroupKey insertIndex p =
     (if targetGroupKey = ''floating'' then p
      else
        reconcileFocus
          (setLastFocusedGroupKey (Some targetGroupKey)
            (setActiveGroups defaults
              (\<lambda>prev. Some (movePanelToGroup prev panelId targetGroupKey insertIndex)) p)))"

definition movePanel ::
  "layout_defaults \<Rightarrow> string \<Rightarrow> string \<Rightarrow> string \<Rightarrow> int \<Rightarrow> dock_provider \<Rightarrow> dock_provider" where
  "movePanel defaults panelId sourceGroupId targetGroupId insertIndex p =
     (if sourceGroupId = targetGroupId then
        let groupTabs = (case getGroupTabs (activeGroups p) targetGroupId of
                           None \<Rightarrow> [] | Some (ts, _) \<Rightarrow> ts);
            sourceIdx = index_of groupTabs panelId;
            adjustedInsert =
              (if 0 \<le> sourceIdx \<and> sourceIdx < insertIndex then insertIndex - 1 else insertIndex)
        in if sourceIdx = adjustedInsert then p
           else reorderTabInGroup defaults targetGroupId panelId adjustedInsert p
      else movePanelBetweenGroups defaults panelId targetGroupId (Some insertIndex) p)"

definition focusPanel :: "string \<Rightarrow> string \<Rightarrow> dock_provider \<Rightarrow> dock_provider" where
  "focusPanel panelId clusterId p = p\<lparr>dp_pendingFocus := Some (panelId, clusterId)\<rparr>"

text \<open>The effect that serves a focus request; it runs again when the groups have changed, and
  its timer, which ends the request, is \<open>settleFocus\<close>.\<close>

definition focusEffect :: "layout_defaults \<Rightarrow> dock_provider \<Rightarrow> dock_provider" where
  "focusEffect defaults p =
     (case dp_pendingFocus p of
        None \<Rightarrow> p
      | Some (panelId, clusterId) \<Rightarrow>
          if clusterId \<noteq> dp_selected p then p
          else (case getGroupForPanel (activeGroups p) panelId of
                  None \<Rightarrow> p
                | Some key \<Rightarrow>
                    if key = [] then p
                    else
                      let q = setLastFocusedGroupKey (Some key) p
                      in if map_option snd (getGroupTabs (activeGroups p) key)
                              \<noteq> Some (Some panelId)
                         then reconcileFocus
                                (setActiveGroups defaults
                                  (\<lambda>prev. Some (setActiveTab prev panelId key)) q)
                         else onActive (focusPanelById defaults panelId) q))"

definition settleFocus :: "dock_provider \<Rightarrow> dock_provider" where
  "settleFocus p = p\<lparr>dp_pendingFocus := None\<rparr>"

definition dockPanels ::
  "layout_defaults \<Rightarrow> tab_groups option \<Rightarrow> string \<Rightarrow> string list \<Rightarrow> string \<Rightarrow> dock_position
   \<Rightarrow> int option \<Rightarrow> dock_provider \<Rightarrow> dock_provider" where
  "dockPanels defaults initialTabGroups clusterId panelIds activePanelId position insertIndex p =
     updateStore clusterId
       (\<lambda>st. setTabGroups defaults
          (Some (dockPanelGroup panelIds activePanelId position insertIndex (ds_tabGroups st))) st)
       (getOrCreateStore initialTabGroups clusterId p)"

definition detachPanels ::
  "layout_defaults \<Rightarrow> string \<Rightarrow> string list \<Rightarrow> dock_provider \<Rightarrow> dock_provider" where
  "detachPanels defaults clusterId panelIds p =
     reconcileFocus
       (updateStore clusterId
         (\<lambda>st. setTabGroups defaults (detachPanelGroup panelIds (ds_tabGroups st)) st) p)"

definition discardPanelLayouts ::
  "layout_defaults \<Rightarrow> string \<Rightarrow> string list \<Rightarrow> dock_provider \<Rightarrow> dock_provider" where
  "discardPanelLayouts defaults clusterId panelIds p =
     reconcileFocus (updateStore clusterId (fold (clearPanelState defaults) panelIds) p)"

text \<open>\<open>moveDockedPanels\<close> names the store by \<open>selectedClusterId\<close> as it is, where the active
  store is that of \<open>selectedClusterId || '__default__'\<close>. The layout effect runs when it is the
  active store whose groups are new.\<close>

definition moveDockedPanels ::
  "layout_defaults \<Rightarrow> tab_groups option \<Rightarrow> string list \<Rightarrow> string \<Rightarrow> dock_position
   \<Rightarrow> dock_provider \<Rightarrow> dock_provider"
where
  "moveDockedPanels defaults initialTabGroups panelIds activePanelId targetPosition p =
     (let q = onActive (focusPanelById defaults activePanelId)
                (setLastFocusedGroupKey (Some (position_key targetPosition))
                  (dockPanels defaults initialTabGroups (dp_selected p) panelIds activePanelId
                    targetPosition None p))
      in if dp_selected p = cluster_key (dp_selected p) then reconcileFocus q else q)"

text \<open>The answer of \<open>onGroupMoveRequest\<close> is \<open>None\<close> when there is no such callback, and whether it
  took the request over (\<open>!== false\<close>) otherwise. The result says whether the request was
  served.\<close>

definition requestGroupMove ::
  "layout_defaults \<Rightarrow> tab_groups option \<Rightarrow> bool \<Rightarrow> bool option \<Rightarrow> bool \<Rightarrow> string \<Rightarrow> dock_position
   \<Rightarrow> dock_provider \<Rightarrow> dock_provider \<times> bool" where
  "requestGroupMove defaults initialTabGroups blocked ownerAnswer nativeWindowMode key
       targetPosition p =
     (case getGroupTabs (activeGroups p) key of
        None \<Rightarrow> (p, False)
      | Some (tabs, active) \<Rightarrow>
          if tabs = [] then (p, False)
          else if blocked then (p, True)
          else if ownerAnswer = Some True then (p, True)
          else if nativeWindowMode \<or> targetPosition = DockFloating then (p, False)
          else (moveDockedPanels defaults initialTabGroups tabs (given active (hd tabs))
                  targetPosition p, True))"

definition requestTabMove ::
  "layout_defaults \<Rightarrow> tab_groups option \<Rightarrow> bool \<Rightarrow> bool \<Rightarrow> string \<Rightarrow> dock_position
   \<Rightarrow> dock_provider \<Rightarrow> dock_provider" where
  "requestTabMove defaults initialTabGroups blocked nativeWindowMode panelId targetPosition p =
     (case getGroupForPanel (activeGroups p) panelId of
        None \<Rightarrow> p
      | Some key \<Rightarrow>
          if key = [] \<or> (\<not> nativeWindowMode \<and> key = position_key targetPosition) then p
          else if blocked then p
          else if \<not> nativeWindowMode \<and> targetPosition \<noteq> DockFloating
          then moveDockedPanels defaults initialTabGroups [panelId] panelId targetPosition p
          else p)"

definition applyLayoutDefaultsAcrossClusters ::
  "layout_defaults \<Rightarrow> dock_provider \<Rightarrow> dock_provider" where
  "applyLayoutDefaultsAcrossClusters defaults p =
     p\<lparr>dp_stores :=
         List.map (\<lambda>(key, st). (key, applyObjectPanelLayoutDefaults defaults st)) (dp_stores p)\<rparr>"

end
