(* ===== verification/DockTabsInv.thy ===== *)
theory DockTabsInv
  imports DockTabs
begin

text \<open>
  The tab groups stay well formed: every panel is in at most one group and once in it, every
  floating group has a panel and an id of its own, and a group's active tab is one of its tabs
  (none exactly when it is empty). Closing a tab activates its neighbour, and dropping one in
  a gap puts it there and leaves the order of the others.
\<close>

section \<open>Well-formed groups\<close>

definition active_ok :: "'a tab_group_scheme \<Rightarrow> bool" where
  "active_ok g \<longleftrightarrow>
     (case tg_activeTab g of None \<Rightarrow> tg_tabs g = [] | Some a \<Rightarrow> a \<in> set (tg_tabs g))"

definition all_tabs :: "tab_groups \<Rightarrow> string list" where
  "all_tabs s =
     tg_tabs (tgs_right s) @ tg_tabs (tgs_bottom s) @ concat (List.map tg_tabs (tgs_floating s))"

definition floating_ok :: "floating_group \<Rightarrow> bool" where
  "floating_ok g \<longleftrightarrow> active_ok g \<and> tg_tabs g \<noteq> [] \<and> floatingSuffix (fg_groupId g) \<noteq> None"

definition groups_ok :: "tab_groups \<Rightarrow> bool" where
  "groups_ok s \<longleftrightarrow>
     distinct (all_tabs s) \<and> active_ok (tgs_right s) \<and> active_ok (tgs_bottom s) \<and>
     list_all floating_ok (tgs_floating s) \<and> distinct (List.map fg_groupId (tgs_floating s))"

named_theorems dock_simps \<open>unfolding of the tab group operations\<close>

declare stripPanelFromGroup_def [dock_simps] insertPanelIntoGroup_def [dock_simps]
  removePanelWithAdjacentActivation_def [dock_simps] Let_def [dock_simps]

section \<open>One group\<close>

lemma filter_absent [simp]: "p \<notin> set xs \<Longrightarrow> filter (\<lambda>i. i \<noteq> p) xs = xs"
  by (induction xs) auto

lemma last_or_null_eq: "last_or_null xs = (if xs = [] then None else Some (last xs))"
  by (cases xs rule: rev_cases) (auto simp: last_or_null_def js_at_def nth_append)

lemma tabs_strip [simp]: "tg_tabs (stripPanelFromGroup g p) = filter (\<lambda>i. i \<noteq> p) (tg_tabs g)"
  by (simp add: dock_simps)

lemma active_ok_strip: "active_ok g \<Longrightarrow> active_ok (stripPanelFromGroup g p)"
  by (auto simp: active_ok_def dock_simps last_or_null_eq split: option.splits)
    (metis (mono_tags, lifting) last_in_set mem_Collect_eq set_filter)+

lemma strip_id [simp]: "p \<notin> set (tg_tabs g) \<Longrightarrow> active_ok g \<Longrightarrow> stripPanelFromGroup g p = g"
  by (cases g) (auto simp: active_ok_def dock_simps last_or_null_eq filter_id_conv
      split: option.splits)

lemma tabs_remove [simp]:
  "tg_tabs (removePanelWithAdjacentActivation g p pref) = filter (\<lambda>i. i \<noteq> p) (tg_tabs g)"
  by (simp add: dock_simps)

lemma id_strip [simp]: "fg_groupId (stripPanelFromGroup g p) = fg_groupId g"
  by (simp add: dock_simps)

lemma id_insert [simp]: "fg_groupId (insertPanelIntoGroup g p i) = fg_groupId g"
  by (simp add: dock_simps)

lemma id_remove [simp]: "fg_groupId (removePanelWithAdjacentActivation g p pref) = fg_groupId g"
  by (simp add: dock_simps)

lemma active_ok_insert [simp]: "active_ok (insertPanelIntoGroup g p i)"
  by (simp add: active_ok_def dock_simps)

lemma tabs_insert [simp]:
  "tg_tabs (insertPanelIntoGroup g p i) =
     splice_insert (tg_tabs g) (case i of None \<Rightarrow> int (length (tg_tabs g)) | Some j \<Rightarrow> j) p"
  by (simp add: dock_simps)

lemma filter_split_at:
  assumes "distinct xs" and "x \<in> set xs"
  shows "filter (\<lambda>i. i \<noteq> x) xs = take (nat (index_of xs x)) xs @ drop (nat (index_of xs x) + 1) xs"
proof -
  let ?l = "take (nat (index_of xs x)) xs" and ?r = "drop (nat (index_of xs x) + 1) xs"
  have xs: "xs = ?l @ x # ?r" by (rule split_at_index_of) fact
  with assms(1) have "distinct (?l @ x # ?r)" by simp
  then have "filter (\<lambda>i. i \<noteq> x) (?l @ x # ?r) = ?l @ ?r"
    by (subst filter_append) (auto intro!: arg_cong2 [of _ _ _ _ "(@)"] filter_True)
  with xs show ?thesis by simp
qed

lemma active_ok_remove:
  assumes "active_ok g" and "distinct (tg_tabs g)" and "p \<in> set (tg_tabs g)"
  shows "active_ok (removePanelWithAdjacentActivation g p pref)"
proof -
  let ?t = "filter (\<lambda>i. i \<noteq> p) (tg_tabs g)" and ?i = "index_of (tg_tabs g) p"
  have i: "0 \<le> ?i" "?i < int (length (tg_tabs g))"
    using assms(3) by (simp_all add: index_of_nonneg_iff index_of_less)
  have "length ?t = length (tg_tabs g) - 1"
    using i by (simp add: filter_split_at [OF assms(2,3)])
  with i have "?t \<noteq> [] \<longrightarrow> js_at ?t ?i \<noteq> None \<or> js_at ?t (?i - 1) \<noteq> None"
    by (auto simp: js_at_def simp del: filter_False)
  then obtain t where t: "?t \<noteq> [] \<Longrightarrow> activateAdjacentTab ?t ?i (Some p) p pref = Some t \<and> t \<in> set ?t"
    by (cases pref; cases "js_at ?t ?i"; cases "js_at ?t (?i - 1)")
      (auto simp: activateAdjacentTab_def simp del: set_filter dest!: js_at_in_set)
  show ?thesis
  proof (cases "tg_activeTab g = Some p \<and> ?t \<noteq> []")
    case True
    then show ?thesis
      using t by (simp add: active_ok_def removePanelWithAdjacentActivation_def Let_def)
  next
    case False
    then show ?thesis
      using assms(1)
      by (cases "?t = []"; cases "tg_activeTab g")
        (auto simp: active_ok_def removePanelWithAdjacentActivation_def activateAdjacentTab_def
          Let_def)
  qed
qed

lemma mset_reorder: "mset (reorderTabs p i ts) = mset ts"
  if "distinct ts"
proof (cases "p \<in> set ts")
  case True
  then show ?thesis
    using that by (simp add: reorderTabs_def Let_def index_of_eq_m1_iff mset_splice_insert
        splice_remove_index_of mset_filter)
qed (simp add: reorderTabs_def index_of_eq_m1_iff)

lemma set_reorder [simp]: "distinct ts \<Longrightarrow> set (reorderTabs p i ts) = set ts"
  by (metis mset_reorder mset_eq_setD)

section \<open>Ids of floating groups\<close>

lemma digit_char_of: "(of_char (digit_char d) :: nat) = 48 + d mod 10"
  by (simp add: digit_char_def)

lemma is_digit_digit [simp]: "is_digit (digit_char d)"
  by (simp add: is_digit_def digit_char_of)

lemma digits_nat_str [simp]: "list_all is_digit (nat_str n)"
  by (induction n rule: nat_str.induct) (subst nat_str.simps, simp)

lemma nat_str_not_Nil [simp]: "nat_str n \<noteq> []"
  by (subst nat_str.simps) simp

lemma digits_value_snoc: "digits_value (ds @ [c]) = 10 * digits_value ds + (of_char c - 48)"
  by (simp add: digits_value_def)

lemma digits_value_nat_str [simp]: "digits_value (nat_str n) = n"
proof (induction n rule: nat_str.induct)
  case (1 n)
  show ?case
  proof (cases "n < 10")
    case True
    then have "nat_str n = [digit_char n]" by (subst nat_str.simps) simp
    with True show ?thesis by (simp add: digits_value_def digit_char_of)
  next
    case False
    then have "nat_str n = nat_str (n div 10) @ [digit_char (n mod 10)]"
      by (subst nat_str.simps) simp
    with False 1 show ?thesis by (simp add: digits_value_snoc digit_char_of)
  qed
qed

lemma floatingSuffix_id [simp]: "floatingSuffix (floatingId n) = Some n"
  by (simp add: floatingSuffix_def floatingId_def Let_def)

lemma floatingId_inject [simp]: "floatingId m = floatingId n \<longleftrightarrow> m = n"
  by (metis floatingSuffix_id option.inject)

lemma floatingSuffix_docks [simp]:
  "floatingSuffix ''right'' = None" "floatingSuffix ''bottom'' = None"
  "floatingSuffix ''floating'' = None" "floatingSuffix [] = None"
  by (simp_all add: floatingSuffix_def floating_prefix_def)

lemma floatingId_docks [simp]:
  "floatingId n \<noteq> ''right''" "floatingId n \<noteq> ''bottom''" "floatingId n \<noteq> ''floating''"
  by (metis floatingSuffix_docks floatingSuffix_id option.distinct(1))+

abbreviation suffix_step :: "nat \<Rightarrow> floating_group \<Rightarrow> nat" where
  "suffix_step m g \<equiv>
     (case floatingSuffix (fg_groupId g) of None \<Rightarrow> m | Some n \<Rightarrow> max m n)"

lemma suffix_fold_ge: "m \<le> foldl suffix_step m gs"
proof (induction gs arbitrary: m)
  case (Cons g gs)
  have "m \<le> suffix_step m g" by (simp split: option.split)
  also have "\<dots> \<le> foldl suffix_step (suffix_step m g) gs" by (rule Cons.IH)
  finally show ?case by simp
qed simp

lemma suffix_le_fold:
  "g \<in> set gs \<Longrightarrow> floatingSuffix (fg_groupId g) = Some n \<Longrightarrow> n \<le> foldl suffix_step m gs"
proof (induction gs arbitrary: m)
  case (Cons h gs)
  show ?case
  proof (cases "h = g")
    case True
    then have "n \<le> suffix_step m h" using Cons.prems by simp
    also have "\<dots> \<le> foldl suffix_step (suffix_step m h) gs" by (rule suffix_fold_ge)
    finally show ?thesis by simp
  qed (use Cons in auto)
qed simp

lemma floatingSuffix_le_max:
  "g \<in> set gs \<Longrightarrow> floatingSuffix (fg_groupId g) = Some n \<Longrightarrow> n \<le> maxNumericSuffix gs"
  unfolding maxNumericSuffix_def by (rule suffix_le_fold)

lemma nextFloatingGroupId_fresh:
  "nextFloatingGroupId s = floatingId (maxNumericSuffix (tgs_floating s) + 1)"
  "nextFloatingGroupId s \<notin> fg_groupId ` set (tgs_floating s)"
proof -
  let ?n = "maxNumericSuffix (tgs_floating s) + 1"
  let ?used = "List.map fg_groupId (tgs_floating s)"
  have free: "floatingId ?n \<notin> fg_groupId ` set (tgs_floating s)"
  proof
    assume "floatingId ?n \<in> fg_groupId ` set (tgs_floating s)"
    then obtain g where "g \<in> set (tgs_floating s)" and "fg_groupId g = floatingId ?n" by auto
    then have "?n \<le> maxNumericSuffix (tgs_floating s)"
      by (intro floatingSuffix_le_max) auto
    then show False by simp
  qed
  then have "firstFreeCandidate k ?used ?n = Some ?n" for k
    by (cases k) auto
  then show "nextFloatingGroupId s = floatingId ?n"
    by (simp add: nextFloatingGroupId_def Let_def)
  with free show "nextFloatingGroupId s \<notin> fg_groupId ` set (tgs_floating s)" by simp
qed

section \<open>The operations keep the groups well formed\<close>

lemma concat_nonempty:
  "concat (List.map tg_tabs (filter (\<lambda>g. tg_tabs g \<noteq> []) gs)) = concat (List.map tg_tabs gs)"
  by (induction gs) auto

lemma all_tabs_strip [simp]:
  "all_tabs (stripPanelFromAllGroups s p) = filter (\<lambda>i. i \<noteq> p) (all_tabs s)"
  by (simp add: all_tabs_def stripPanelFromAllGroups_def concat_nonempty filter_concat comp_def)

lemma floating_strip:
  "tgs_floating (stripPanelFromAllGroups s p) =
     filter (\<lambda>g. tg_tabs g \<noteq> []) (List.map (\<lambda>g. stripPanelFromGroup g p) (tgs_floating s))"
  "tgs_right (stripPanelFromAllGroups s p) = stripPanelFromGroup (tgs_right s) p"
  "tgs_bottom (stripPanelFromAllGroups s p) = stripPanelFromGroup (tgs_bottom s) p"
  by (simp_all add: stripPanelFromAllGroups_def)

lemma groups_ok_strip: "groups_ok s \<Longrightarrow> groups_ok (stripPanelFromAllGroups s p)"
  unfolding groups_ok_def
  by (auto simp: floating_strip active_ok_strip list_all_iff floating_ok_def comp_def
      filter_map distinct_map_filter)

lemma floating_ok_singleton:
  "floating_ok \<lparr>tg_tabs = [p], tg_activeTab = Some p, fg_groupId = nextFloatingGroupId s\<rparr>"
  by (simp add: floating_ok_def active_ok_def nextFloatingGroupId_fresh(1) del: add_Suc_right)

lemma mset_all_tabs_add [simp]:
  "mset (all_tabs (addPanelToGroup s p pos i)) =
     add_mset p (mset (filter (\<lambda>j. j \<noteq> p) (all_tabs s)))"
proof -
  let ?c = "stripPanelFromAllGroups s p"
  have "mset (all_tabs (addPanelToGroup s p pos i)) = add_mset p (mset (all_tabs ?c))"
    by (auto simp: all_tabs_def addPanelToGroup_def Let_def mset_splice_insert
        split: dock_position.split)
  then show ?thesis by simp
qed

lemma groups_ok_add: "groups_ok s \<Longrightarrow> groups_ok (addPanelToGroup s p pos i)"
proof -
  assume ok: "groups_ok s"
  let ?c = "stripPanelFromAllGroups s p"
  have c: "groups_ok ?c" using ok by (rule groups_ok_strip)
  have "mset (all_tabs (addPanelToGroup s p pos i)) = mset (p # filter (\<lambda>j. j \<noteq> p) (all_tabs s))"
    by simp
  then have "distinct (all_tabs (addPanelToGroup s p pos i))
      \<longleftrightarrow> distinct (p # filter (\<lambda>j. j \<noteq> p) (all_tabs s))"
    by (rule mset_eq_imp_distinct_iff)
  then have "distinct (all_tabs (addPanelToGroup s p pos i))"
    using ok by (simp add: groups_ok_def)
  moreover have "active_ok (tgs_right (addPanelToGroup s p pos i))"
    and "active_ok (tgs_bottom (addPanelToGroup s p pos i))"
    using c by (cases pos; simp add: groups_ok_def addPanelToGroup_def Let_def)+
  moreover have "list_all floating_ok (tgs_floating (addPanelToGroup s p pos i))"
    using c by (cases pos; simp add: groups_ok_def addPanelToGroup_def Let_def floating_ok_singleton)
  moreover have "distinct (List.map fg_groupId (tgs_floating (addPanelToGroup s p pos i)))"
    using c nextFloatingGroupId_fresh(2) [of ?c]
    by (cases pos; simp add: groups_ok_def addPanelToGroup_def Let_def)
  ultimately show ?thesis by (simp add: groups_ok_def)
qed

lemma set_all_tabs_add [simp]:
  "set (all_tabs (addPanelToGroup s p pos i)) = insert p (set (all_tabs s))"
  by (auto simp flip: set_mset_mset)

text \<open>Which group a panel is in\<close>

lemma distinct_concatD:
  "distinct (concat (List.map f gs)) \<Longrightarrow> g \<in> set gs \<Longrightarrow> distinct (f g)"
  by (induction gs) auto

lemma distinct_concat_unique:
  "distinct (concat (List.map f gs)) \<Longrightarrow> g \<in> set gs \<Longrightarrow> h \<in> set gs \<Longrightarrow>
   x \<in> set (f g) \<Longrightarrow> x \<in> set (f h) \<Longrightarrow> g = h"
  by (induction gs) auto

lemma group_cases:
  assumes "groups_ok s"
  obtains (none) "getGroupForPanel s p = None" "p \<notin> set (all_tabs s)"
  | (right) "getGroupForPanel s p = Some ''right''" "p \<in> set (tg_tabs (tgs_right s))"
  | (bottom) "getGroupForPanel s p = Some ''bottom''" "p \<in> set (tg_tabs (tgs_bottom s))"
      "p \<notin> set (tg_tabs (tgs_right s))"
  | (floating) g where "getGroupForPanel s p = Some (fg_groupId g)" "g \<in> set (tgs_floating s)"
      "p \<in> set (tg_tabs g)" "p \<notin> set (tg_tabs (tgs_right s))" "p \<notin> set (tg_tabs (tgs_bottom s))"
      "floatingSuffix (fg_groupId g) \<noteq> None"
proof -
  consider "p \<in> set (tg_tabs (tgs_right s))"
    | "p \<notin> set (tg_tabs (tgs_right s))" "p \<in> set (tg_tabs (tgs_bottom s))"
    | "p \<notin> set (tg_tabs (tgs_right s))" "p \<notin> set (tg_tabs (tgs_bottom s))"
    by blast
  then show ?thesis
  proof cases
    case 3
    show ?thesis
    proof (cases "List.find (\<lambda>g. p \<in> set (tg_tabs g)) (tgs_floating s)")
      case None
      with 3 show ?thesis by (intro none) (auto simp: getGroupForPanel_def find_None_iff all_tabs_def)
    next
      case (Some g)
      then have "g \<in> set (tgs_floating s)" "p \<in> set (tg_tabs g)"
        by (auto simp: find_Some_iff)
      with 3 Some assms show ?thesis
        by (intro floating) (auto simp: getGroupForPanel_def groups_ok_def list_all_iff floating_ok_def)
    qed
  qed (auto simp: getGroupForPanel_def intro: right bottom)
qed

lemma groupForPanel_None_iff [simp]:
  "getGroupForPanel s p = None \<longleftrightarrow> p \<notin> set (all_tabs s)"
  by (auto simp: getGroupForPanel_def all_tabs_def find_None_iff)

text \<open>Removing from the one group that holds the panel\<close>

lemma removeFromFloating_eq:
  "removeFromFloating key p pref gs =
     filter (\<lambda>g. fg_groupId g = key \<longrightarrow> tg_tabs g \<noteq> [])
       (update_floating key (\<lambda>g. removePanelWithAdjacentActivation g p pref) gs)"
  by (induction gs) (auto simp: update_floating_def Let_def)

lemma update_floating_ids [simp]:
  "(\<And>g. fg_groupId (f g) = fg_groupId g) \<Longrightarrow>
   List.map fg_groupId (update_floating key f gs) = List.map fg_groupId gs"
  by (induction gs) (auto simp: update_floating_def)

lemma concat_removed:
  "distinct (concat (List.map tg_tabs gs)) \<Longrightarrow> g \<in> set gs \<Longrightarrow> p \<in> set (tg_tabs g) \<Longrightarrow>
   distinct (List.map fg_groupId gs) \<Longrightarrow>
   concat (List.map tg_tabs (removeFromFloating (fg_groupId g) p pref gs)) =
     filter (\<lambda>i. i \<noteq> p) (concat (List.map tg_tabs gs))"
proof (induction gs)
  case (Cons h gs)
  show ?case
  proof (cases "h = g")
    case True
    then have rest: "removeFromFloating (fg_groupId g) p pref gs = gs"
      using Cons.prems(4) by (induction gs) (auto simp: Let_def)
    have "p \<notin> set (concat (List.map tg_tabs gs))"
      using Cons.prems(1,3) True by auto
    then have "filter (\<lambda>i. i \<noteq> p) (concat (List.map tg_tabs gs)) = concat (List.map tg_tabs gs)"
      by (auto simp: filter_id_conv)
    with rest True show ?thesis by (auto simp: Let_def)
  next
    case False
    then have g: "g \<in> set gs" using Cons.prems(2) by simp
    then have "p \<notin> set (tg_tabs h)" using Cons.prems(1,3) by auto
    moreover have "fg_groupId h \<noteq> fg_groupId g" using Cons.prems(4) g by auto
    ultimately show ?thesis
      using Cons.IH g Cons.prems by (auto simp: Let_def)
  qed
qed simp

lemma all_tabs_remove [simp]:
  assumes "groups_ok s"
  shows "all_tabs (removePanelFromGroup s p pref) = filter (\<lambda>i. i \<noteq> p) (all_tabs s)"
  using assms
proof (cases rule: group_cases [of s p])
  case none
  then show ?thesis by (simp add: removePanelFromGroup_def none(1) del: groupForPanel_None_iff)
next
  case right
  have "p \<notin> set (tg_tabs (tgs_bottom s))" "p \<notin> set (concat (List.map tg_tabs (tgs_floating s)))"
    using assms right(2) by (auto simp: groups_ok_def all_tabs_def)
  with right(1) show ?thesis
    by (simp add: removePanelFromGroup_def all_tabs_def del: set_concat)
next
  case bottom
  have "p \<notin> set (concat (List.map tg_tabs (tgs_floating s)))"
    using assms bottom(2) by (auto simp: groups_ok_def all_tabs_def)
  with bottom(1,3) show ?thesis
    by (simp add: removePanelFromGroup_def all_tabs_def del: set_concat)
next
  case (floating g)
  have k: "fg_groupId g \<noteq> ''right''" "fg_groupId g \<noteq> ''bottom''"
    using floating(6) by auto
  have "concat (List.map tg_tabs (removeFromFloating (fg_groupId g) p pref (tgs_floating s))) =
      filter (\<lambda>i. i \<noteq> p) (concat (List.map tg_tabs (tgs_floating s)))"
    using assms floating(2,3) by (intro concat_removed) (auto simp: groups_ok_def all_tabs_def)
  with k floating(1,4,5) show ?thesis
    by (simp add: removePanelFromGroup_def all_tabs_def)
qed

lemma removeFromFloating_ids:
  "set (List.map fg_groupId (removeFromFloating key p pref gs)) \<subseteq> fg_groupId ` set gs"
  "distinct (List.map fg_groupId gs) \<Longrightarrow>
   distinct (List.map fg_groupId (removeFromFloating key p pref gs))"
proof -
  show sub: "set (List.map fg_groupId (removeFromFloating key p pref gs)) \<subseteq> fg_groupId ` set gs"
    for gs by (induction gs) (auto simp: Let_def)
  show "distinct (List.map fg_groupId (removeFromFloating key p pref gs))"
    if "distinct (List.map fg_groupId gs)"
    using that
  proof (induction gs)
    case (Cons h gs)
    then show ?case using sub [of gs] by (auto simp: Let_def)
  qed simp
qed

lemma removeFromFloating_ok:
  assumes "list_all floating_ok gs" and "\<And>g. g \<in> set gs \<Longrightarrow> distinct (tg_tabs g)"
    and "\<And>g. g \<in> set gs \<Longrightarrow> fg_groupId g = key \<Longrightarrow> p \<in> set (tg_tabs g)"
  shows "list_all floating_ok (removeFromFloating key p pref gs)"
  using assms
proof (induction gs)
  case (Cons h gs)
  have "list_all floating_ok (removeFromFloating key p pref gs)"
    using Cons by simp
  moreover have "fg_groupId h = key \<Longrightarrow> active_ok (removePanelWithAdjacentActivation h p pref)"
    using Cons.prems by (intro active_ok_remove) (auto simp: floating_ok_def)
  ultimately show ?case
    using Cons.prems(1)
    by (auto simp: Let_def floating_ok_def [of h]
        floating_ok_def [of "removePanelWithAdjacentActivation h p pref"])
qed simp

lemma same_id:
  "distinct (List.map fg_groupId gs) \<Longrightarrow> g \<in> set gs \<Longrightarrow> h \<in> set gs \<Longrightarrow>
   fg_groupId g = fg_groupId h \<Longrightarrow> g = h"
  by (induction gs) (auto simp: rev_image_eqI)

lemma groups_ok_remove: "groups_ok (removePanelFromGroup s p pref)" if ok: "groups_ok s"
proof -
  have dr: "distinct (tg_tabs (tgs_right s))" and db: "distinct (tg_tabs (tgs_bottom s))"
    and df: "distinct (concat (List.map tg_tabs (tgs_floating s)))"
    using ok by (auto simp: groups_ok_def all_tabs_def)
  have tabs: "distinct (all_tabs (removePanelFromGroup s p pref))"
    using ok by (simp add: groups_ok_def [of s])
  from ok show ?thesis
  proof (cases rule: group_cases [of s p])
    case none
    with ok show ?thesis
      by (simp add: removePanelFromGroup_def none(1) del: groupForPanel_None_iff)
  next
    case right
    with ok tabs dr show ?thesis
      by (auto simp: groups_ok_def removePanelFromGroup_def active_ok_remove)
  next
    case bottom
    with ok tabs db show ?thesis
      by (auto simp: groups_ok_def removePanelFromGroup_def active_ok_remove)
  next
    case (floating g)
    have k: "fg_groupId g \<noteq> ''right''" "fg_groupId g \<noteq> ''bottom''"
      using floating by auto
    have "list_all floating_ok (removeFromFloating (fg_groupId g) p pref (tgs_floating s))"
      using ok floating df same_id [of "tgs_floating s" _ g]
      by (intro removeFromFloating_ok) (auto simp: groups_ok_def intro: distinct_concatD)
    with ok tabs floating k show ?thesis
      by (auto simp: groups_ok_def removePanelFromGroup_def removeFromFloating_ids)
  qed
qed

lemma updated_floating:
  assumes "list_all floating_ok gs"
    and "\<And>g. g \<in> set gs \<Longrightarrow> fg_groupId g = key \<Longrightarrow> floating_ok g \<Longrightarrow> floating_ok (f g)"
  shows "list_all floating_ok (update_floating key f gs)"
  using assms by (auto simp: update_floating_def list_all_iff)

lemma updated_tabs:
  "(\<And>g. mset (tg_tabs (f g)) = mset (tg_tabs g)) \<Longrightarrow>
   mset (concat (List.map tg_tabs (update_floating key f gs))) =
     mset (concat (List.map tg_tabs gs))"
  by (induction gs) (auto simp: update_floating_def)

lemma groups_ok_setActive:
  assumes ok: "groups_ok s" and k: "getGroupForPanel s p = Some key"
  shows "groups_ok (setActiveTab s p key)"
  using ok
proof (cases rule: group_cases [of s p])
  case (floating g)
  with k have key: "key = fg_groupId g" and nk: "key \<noteq> ''right''" "key \<noteq> ''bottom''" by auto
  have same: "h = g" if "h \<in> set (tgs_floating s)" "fg_groupId h = key" for h
    using ok floating(2) that key same_id [of "tgs_floating s" h g] by (simp add: groups_ok_def)
  have "list_all floating_ok
      (update_floating key (\<lambda>g. g\<lparr>tg_activeTab := Some p\<rparr>) (tgs_floating s))"
  proof (rule updated_floating)
    show "list_all floating_ok (tgs_floating s)" using ok by (simp add: groups_ok_def)
    fix h assume "h \<in> set (tgs_floating s)" "fg_groupId h = key" "floating_ok h"
    moreover from this have "h = g" by (intro same)
    ultimately show "floating_ok (h\<lparr>tg_activeTab := Some p\<rparr>)"
      using floating(3) by (simp add: floating_ok_def active_ok_def)
  qed
  moreover have "List.map tg_tabs
      (update_floating key (\<lambda>g. g\<lparr>tg_activeTab := Some p\<rparr>) (tgs_floating s)) =
      List.map tg_tabs (tgs_floating s)"
    by (auto simp: update_floating_def)
  ultimately show ?thesis
    using ok nk by (simp add: groups_ok_def setActiveTab_def all_tabs_def)
qed (use ok k in \<open>auto simp: groups_ok_def setActiveTab_def all_tabs_def active_ok_def\<close>)

lemma active_ok_tabs:
  "active_ok g \<Longrightarrow> set ts = set (tg_tabs g) \<Longrightarrow> active_ok (g\<lparr>tg_tabs := ts\<rparr>)"
  by (auto simp: active_ok_def split: option.splits)

lemma groups_ok_mset:
  "groups_ok s \<Longrightarrow> mset (all_tabs t) = mset (all_tabs s) \<Longrightarrow>
   active_ok (tgs_right t) \<Longrightarrow> active_ok (tgs_bottom t) \<Longrightarrow>
   list_all floating_ok (tgs_floating t) \<Longrightarrow>
   List.map fg_groupId (tgs_floating t) = List.map fg_groupId (tgs_floating s) \<Longrightarrow> groups_ok t"
  by (simp add: groups_ok_def mset_eq_imp_distinct_iff [of "all_tabs t" "all_tabs s"])

lemma groups_ok_reorder:
  assumes ok: "groups_ok s"
  shows "groups_ok (reorderTab s key p i)"
proof -
  let ?f = "\<lambda>g :: floating_group. g\<lparr>tg_tabs := reorderTabs p i (tg_tabs g)\<rparr>"
  have dr: "distinct (tg_tabs (tgs_right s))" and db: "distinct (tg_tabs (tgs_bottom s))"
    and df: "distinct (concat (List.map tg_tabs (tgs_floating s)))"
    using ok by (auto simp: groups_ok_def all_tabs_def)
  have dg: "distinct (tg_tabs g)" if "g \<in> set (tgs_floating s)" for g
    using df that by (rule distinct_concatD)
  have tabs: "mset (concat (List.map tg_tabs (update_floating key ?f (tgs_floating s)))) =
      mset (concat (List.map tg_tabs (tgs_floating s)))"
    using dg by (induction "tgs_floating s") (auto simp: update_floating_def mset_concat mset_reorder
        comp_def intro!: arg_cong [of _ _ sum_list])
  have floats: "list_all floating_ok (update_floating key ?f (tgs_floating s))"
  proof (rule updated_floating)
    show "list_all floating_ok (tgs_floating s)" using ok by (simp add: groups_ok_def)
    fix g assume "g \<in> set (tgs_floating s)" "fg_groupId g = key" "floating_ok g"
    then show "floating_ok (?f g)"
      using dg [of g] active_ok_tabs [of g "reorderTabs p i (tg_tabs g)"]
      by (auto simp: floating_ok_def simp flip: set_empty)
  qed
  show ?thesis
  proof (rule groups_ok_mset [OF ok])
    show "mset (all_tabs (reorderTab s key p i)) = mset (all_tabs s)"
      using dr db tabs by (simp add: reorderTab_def all_tabs_def mset_reorder)
    show "active_ok (tgs_right (reorderTab s key p i))" "active_ok (tgs_bottom (reorderTab s key p i))"
      using ok dr db by (auto simp: reorderTab_def groups_ok_def intro: active_ok_tabs)
    show "list_all floating_ok (tgs_floating (reorderTab s key p i))"
      using ok floats by (simp add: reorderTab_def groups_ok_def)
    show "List.map fg_groupId (tgs_floating (reorderTab s key p i)) =
        List.map fg_groupId (tgs_floating s)"
      by (simp add: reorderTab_def)
  qed
qed

lemma groups_ok_addFloating:
  assumes ok: "groups_ok s"
  shows "groups_ok (addPanelToFloatingGroup s p key i)"
proof -
  let ?c = "stripPanelFromAllGroups s p"
  let ?f = "\<lambda>g :: floating_group. insertPanelIntoGroup g p i"
  have c: "groups_ok ?c" using ok by (rule groups_ok_strip)
  have p: "p \<notin> set (all_tabs ?c)" by simp
  show ?thesis
  proof (cases "list_ex (\<lambda>g. fg_groupId g = key) (tgs_floating ?c)")
    case False
    then show ?thesis
      using c by (simp add: addPanelToFloatingGroup_def Let_def groups_ok_add)
  next
    case True
    have ins: "mset (concat (List.map tg_tabs (update_floating key ?f gs))) =
        add_mset p (mset (concat (List.map tg_tabs gs)))"
      if "distinct (List.map fg_groupId gs)" "list_ex (\<lambda>g. fg_groupId g = key) gs" for gs
      using that
    proof (induction gs)
      case (Cons g gs)
      show ?case
      proof (cases "fg_groupId g = key")
        case True
        with Cons.prems have "update_floating key ?f gs = gs"
          by (auto simp: update_floating_def rev_image_eqI intro!: map_idI)
        with True show ?thesis by (simp add: update_floating_def mset_splice_insert)
      qed (use Cons in \<open>simp add: update_floating_def\<close>)
    qed simp
    let ?n = "?c\<lparr>tgs_floating := update_floating key ?f (tgs_floating ?c)\<rparr>"
    have "mset (all_tabs ?n) = mset (p # all_tabs ?c)"
      using c True ins [of "tgs_floating ?c"] by (simp add: all_tabs_def groups_ok_def del: set_concat)
    then have "distinct (all_tabs ?n) \<longleftrightarrow> distinct (p # all_tabs ?c)"
      by (rule mset_eq_imp_distinct_iff)
    moreover have "list_all floating_ok (update_floating key ?f (tgs_floating ?c))"
      using c by (intro updated_floating) (auto simp: groups_ok_def floating_ok_def)
    ultimately have "groups_ok ?n"
      using c p by (simp add: groups_ok_def)
    with True show ?thesis by (simp add: addPanelToFloatingGroup_def Let_def)
  qed
qed

lemma groups_ok_move: "groups_ok s \<Longrightarrow> groups_ok (movePanelToGroup s p target i)"
  by (simp add: movePanelToGroup_def Let_def groups_ok_add groups_ok_addFloating groups_ok_remove)

lemma groups_ok_initial [simp]: "groups_ok createInitialTabGroupState"
  by (simp add: groups_ok_def createInitialTabGroupState_def all_tabs_def active_ok_def
      emptyTabGroup_def)

section \<open>The tabs of each group\<close>

definition tabs_of :: "tab_groups \<Rightarrow> string \<Rightarrow> string list" where
  "tabs_of s key = (case getGroupTabs s key of None \<Rightarrow> [] | Some (ts, _) \<Rightarrow> ts)"

definition find_tabs :: "string \<Rightarrow> floating_group list \<Rightarrow> string list" where
  "find_tabs key gs =
     (case List.find (\<lambda>g. fg_groupId g = key) gs of None \<Rightarrow> [] | Some g \<Rightarrow> tg_tabs g)"

lemma tabs_of_eq:
  "tabs_of s key =
     (if key = ''right'' then tg_tabs (tgs_right s)
      else if key = ''bottom'' then tg_tabs (tgs_bottom s) else find_tabs key (tgs_floating s))"
  by (simp add: tabs_of_def getGroupTabs_def find_tabs_def split: option.split)

lemma find_tabs_simps [simp]:
  "find_tabs key [] = []"
  "find_tabs key (g # gs) = (if fg_groupId g = key then tg_tabs g else find_tabs key gs)"
  by (simp_all add: find_tabs_def)

lemma find_tabs_absent: "key \<notin> fg_groupId ` set gs \<Longrightarrow> find_tabs key gs = []"
  by (induction gs) auto

lemma find_tabs_strip:
  "distinct (List.map fg_groupId gs) \<Longrightarrow>
   find_tabs key (filter (\<lambda>g. tg_tabs g \<noteq> []) (List.map (\<lambda>g. stripPanelFromGroup g p) gs)) =
     filter (\<lambda>i. i \<noteq> p) (find_tabs key gs)"
proof (induction gs)
  case (Cons g gs)
  have "find_tabs (fg_groupId g)
      (filter (\<lambda>g. tg_tabs g \<noteq> []) (List.map (\<lambda>g. stripPanelFromGroup g p) gs)) = []"
    using Cons.prems by (intro find_tabs_absent) auto
  with Cons show ?case by (auto simp del: tabs_strip) simp_all
qed simp

lemma find_tabs_removed:
  "distinct (List.map fg_groupId gs) \<Longrightarrow>
   find_tabs key (removeFromFloating k p pref gs) =
     (if key = k then filter (\<lambda>i. i \<noteq> p) (find_tabs key gs) else find_tabs key gs)"
proof (induction gs)
  case (Cons g gs)
  have "find_tabs (fg_groupId g) (removeFromFloating k p pref gs) = []"
    using Cons.prems removeFromFloating_ids(1) [of k p pref gs]
    by (intro find_tabs_absent) auto
  with Cons show ?case by (auto simp: Let_def)
qed simp

lemma find_tabs_update_other:
  "(\<And>g. fg_groupId (f g) = fg_groupId g) \<Longrightarrow> k \<noteq> key \<Longrightarrow>
   find_tabs k (update_floating key f gs) = find_tabs k gs"
  by (induction gs) (auto simp: update_floating_def)

lemma find_tabs_update_same:
  "(\<And>g. fg_groupId (f g) = fg_groupId g) \<Longrightarrow> (\<And>g. tg_tabs (f g) = h (tg_tabs g)) \<Longrightarrow>
   key \<in> fg_groupId ` set gs \<Longrightarrow>
   find_tabs key (update_floating key f gs) = h (find_tabs key gs)"
  by (induction gs) (auto simp: update_floating_def)

lemma in_find_tabs:
  "x \<in> set (find_tabs key gs) \<Longrightarrow>
   \<exists>g \<in> set gs. fg_groupId g = key \<and> x \<in> set (tg_tabs g)"
  by (induction gs) (auto split: if_splits)

lemma tabs_of_subset: "set (tabs_of s key) \<subseteq> set (all_tabs s)"
  by (auto simp: tabs_of_eq all_tabs_def dest!: in_find_tabs)

lemma tabs_of_strip:
  "groups_ok s \<Longrightarrow>
   tabs_of (stripPanelFromAllGroups s p) key = filter (\<lambda>i. i \<noteq> p) (tabs_of s key)"
  by (simp add: tabs_of_eq floating_strip find_tabs_strip groups_ok_def)

lemma in_group_tabs:
  assumes "groups_ok s" and "p \<in> set (tabs_of s key)"
  shows "getGroupForPanel s p = Some key"
  using assms(1)
proof (cases rule: group_cases [of s p])
  case none
  then show ?thesis using assms(2) tabs_of_subset by blast
next
  case right
  then have "p \<notin> set (tg_tabs (tgs_bottom s))" "\<And>g. g \<in> set (tgs_floating s) \<Longrightarrow> p \<notin> set (tg_tabs g)"
    using assms(1) by (auto simp: groups_ok_def all_tabs_def)
  with right(1) show ?thesis
    using assms(2) by (auto simp: tabs_of_eq split: if_splits dest!: in_find_tabs)
next
  case bottom
  then have "\<And>g. g \<in> set (tgs_floating s) \<Longrightarrow> p \<notin> set (tg_tabs g)"
    using assms(1) by (auto simp: groups_ok_def all_tabs_def)
  with bottom(1,3) show ?thesis
    using assms(2) by (auto simp: tabs_of_eq split: if_splits dest!: in_find_tabs)
next
  case (floating g)
  obtain h where h: "h \<in> set (tgs_floating s)" "fg_groupId h = key" "p \<in> set (tg_tabs h)"
    using assms(2) floating(4,5) by (auto simp: tabs_of_eq split: if_splits dest!: in_find_tabs)
  have "distinct (concat (List.map tg_tabs (tgs_floating s)))"
    using assms(1) by (auto simp: groups_ok_def all_tabs_def)
  then have "g = h"
    by (rule distinct_concat_unique [OF _ floating(2) h(1) floating(3) h(3)])
  with floating(1) h(2) show ?thesis by simp
qed

lemma tabs_of_remove:
  assumes ok: "groups_ok s"
  shows "tabs_of (removePanelFromGroup s p pref) key = filter (\<lambda>i. i \<noteq> p) (tabs_of s key)"
proof -
  have ids: "distinct (List.map fg_groupId (tgs_floating s))" using ok by (simp add: groups_ok_def)
  show ?thesis
  proof (cases "getGroupForPanel s p = Some key")
    case True
    then show ?thesis
      using ids by (auto simp: removePanelFromGroup_def tabs_of_eq find_tabs_removed)
  next
    case False
    then have "p \<notin> set (tabs_of s key)" using in_group_tabs [OF ok] by blast
    then have "filter (\<lambda>i. i \<noteq> p) (tabs_of s key) = tabs_of s key" by simp
    with False ids show ?thesis
      by (auto simp: removePanelFromGroup_def tabs_of_eq find_tabs_removed split: option.split)
  qed
qed

lemma tabs_of_add_right:
  "groups_ok s \<Longrightarrow> tabs_of (addPanelToGroup s p DockRight (Some i)) key =
     (if key = ''right'' then splice_insert (filter (\<lambda>j. j \<noteq> p) (tabs_of s key)) i p
      else filter (\<lambda>j. j \<noteq> p) (tabs_of s key))"
  using tabs_of_strip [of s p key]
  by (auto simp: addPanelToGroup_def Let_def tabs_of_eq floating_strip)

lemma tabs_of_add_bottom:
  "groups_ok s \<Longrightarrow> tabs_of (addPanelToGroup s p DockBottom (Some i)) key =
     (if key = ''bottom'' then splice_insert (filter (\<lambda>j. j \<noteq> p) (tabs_of s key)) i p
      else filter (\<lambda>j. j \<noteq> p) (tabs_of s key))"
  using tabs_of_strip [of s p key]
  by (auto simp: addPanelToGroup_def Let_def tabs_of_eq floating_strip)

lemma tabs_of_addFloating:
  assumes ok: "groups_ok s" and key: "floatingSuffix target \<noteq> None"
    and some: "filter (\<lambda>j. j \<noteq> p) (tabs_of s target) \<noteq> []"
  shows "tabs_of (addPanelToFloatingGroup s p target (Some i)) key =
     (if key = target then splice_insert (filter (\<lambda>j. j \<noteq> p) (tabs_of s key)) i p
      else filter (\<lambda>j. j \<noteq> p) (tabs_of s key))"
proof -
  let ?c = "stripPanelFromAllGroups s p"
  have nk: "target \<noteq> ''right''" "target \<noteq> ''bottom''" using key by auto
  have "find_tabs target (tgs_floating ?c) \<noteq> []"
    using some nk tabs_of_strip [OF ok, of p target] by (simp add: tabs_of_eq)
  then have mem: "target \<in> fg_groupId ` set (tgs_floating ?c)"
    using find_tabs_absent by blast
  then have ex: "list_ex (\<lambda>g. fg_groupId g = target) (tgs_floating ?c)"
    by (auto simp: list_ex_iff)
  have "find_tabs key (update_floating target (\<lambda>g. insertPanelIntoGroup g p (Some i)) (tgs_floating ?c)) =
      (if key = target then splice_insert (find_tabs key (tgs_floating ?c)) i p
       else find_tabs key (tgs_floating ?c))"
    using mem find_tabs_update_same [of "\<lambda>g. insertPanelIntoGroup g p (Some i)" "\<lambda>ts. splice_insert ts i p"]
    by (auto simp: find_tabs_update_other)
  with ex nk show ?thesis
    using tabs_of_strip [OF ok, of p key]
    by (auto simp: addPanelToFloatingGroup_def Let_def tabs_of_eq)
qed

lemma tabs_of_move:
  assumes ok: "groups_ok s"
    and target: "target = ''right'' \<or> target = ''bottom'' \<or>
      floatingSuffix target \<noteq> None \<and> filter (\<lambda>j. j \<noteq> p) (tabs_of s target) \<noteq> []"
  shows "tabs_of (movePanelToGroup s p target (Some i)) key =
     (if key = target then splice_insert (filter (\<lambda>j. j \<noteq> p) (tabs_of s key)) i p
      else filter (\<lambda>j. j \<noteq> p) (tabs_of s key))"
proof -
  let ?r = "removePanelFromGroup s p PreferRight"
  have r: "groups_ok ?r" using ok by (rule groups_ok_remove)
  have t: "filter (\<lambda>j. j \<noteq> p) (tabs_of ?r k) = filter (\<lambda>j. j \<noteq> p) (tabs_of s k)" for k
    by (simp add: tabs_of_remove [OF ok])
  from target consider "target = ''right''" | "target = ''bottom''"
    | "floatingSuffix target \<noteq> None" "filter (\<lambda>j. j \<noteq> p) (tabs_of s target) \<noteq> []" by blast
  then show ?thesis
  proof cases
    case 1
    then have "movePanelToGroup s p target (Some i) = addPanelToGroup ?r p DockRight (Some i)"
      by (simp add: movePanelToGroup_def)
    with 1 show ?thesis by (simp add: tabs_of_add_right [OF r] t)
  next
    case 2
    then have "movePanelToGroup s p target (Some i) = addPanelToGroup ?r p DockBottom (Some i)"
      by (simp add: movePanelToGroup_def)
    with 2 show ?thesis by (simp add: tabs_of_add_bottom [OF r] t)
  next
    case 3
    from 3(1) have "target \<noteq> ''right''" "target \<noteq> ''bottom''" "target \<noteq> ''floating''"
      by (metis floatingSuffix_docks(1), metis floatingSuffix_docks(2), metis floatingSuffix_docks(3))
    then have "movePanelToGroup s p target (Some i) = addPanelToFloatingGroup ?r p target (Some i)"
      by (simp add: movePanelToGroup_def)
    moreover have "filter (\<lambda>j. j \<noteq> p) (tabs_of ?r target) \<noteq> []"
      unfolding t by (rule 3(2))
    ultimately show ?thesis
      using tabs_of_addFloating [OF r 3(1), of p i key] t [of key] by (simp only:) simp
  qed
qed

text \<open>Dropping a tab in the gap before the \<open>i\<close>th tab of a list, counted with the tab still in
  its old place\<close>

definition drop_in_gap :: "string list \<Rightarrow> nat \<Rightarrow> string \<Rightarrow> string list" where
  "drop_in_gap ts i p =
     filter (\<lambda>j. j \<noteq> p) (take i ts) @ p # filter (\<lambda>j. j \<noteq> p) (drop i ts)"

lemma splice_insert_gap: "i \<le> length ts \<Longrightarrow> splice_insert ts (int i) p = take i ts @ p # drop i ts"
  by (simp add: splice_insert_def splice_start_def Let_def)

lemma drop_in_gap_absent:
  "p \<notin> set ts \<Longrightarrow> i \<le> length ts \<Longrightarrow> splice_insert ts (int i) p = drop_in_gap ts i p"
  by (simp add: drop_in_gap_def splice_insert_gap)
    (metis filter_absent in_set_dropD in_set_takeD)

lemma reorder_gap:
  assumes d: "distinct ts" and p: "p \<in> set ts" and i: "i \<le> length ts"
  shows "reorderTabs p (if index_of ts p < int i then int i - 1 else int i) ts = drop_in_gap ts i p"
proof -
  let ?n = "nat (index_of ts p)"
  let ?l = "take ?n ts" and ?r = "drop (?n + 1) ts"
  have n: "index_of ts p = int ?n" "?n < length ts"
    using p index_of_nonneg_iff [of ts p] index_of_less [of ts p] by auto
  have c: "index_of ts p < int i \<longleftrightarrow> ?n < i" by (metis n(1) of_nat_less_iff)
  have ts: "ts = ?l @ p # ?r" by (rule split_at_index_of [OF p])
  have d': "distinct (?l @ p # ?r)" using d ts by simp
  have fl: "filter (\<lambda>j. j \<noteq> p) ts = ?l @ ?r" by (rule filter_split_at [OF d p])
  have ll: "length ?l = ?n" using n by simp
  have re: "reorderTabs p k ts = splice_insert (?l @ ?r) k p" for k
    using p d by (simp add: reorderTabs_def Let_def index_of_eq_m1_iff splice_remove_index_of
        distinct_remove1_removeAll removeAll_filter_not_eq fl [unfolded eq_commute [of p]] eq_commute [of p])
  show ?thesis
  proof (cases "?n < i")
    case True
    define m where "m = i - ?n - 1"
    have i_eq: "i = ?n + 1 + m" using True by (simp add: m_def)
    have "reorderTabs p (int i - 1) ts = take (?n + m) (?l @ ?r) @ p # drop (?n + m) (?l @ ?r)"
    proof -
      have "int i - 1 = int (?n + m)" using i_eq by simp
      moreover have "?n + m \<le> length (?l @ ?r)" using i n i_eq by simp
      ultimately show ?thesis using re splice_insert_gap by metis
    qed
    also have "\<dots> = ?l @ take m ?r @ p # drop m ?r" using ll by simp
    also have "\<dots> = drop_in_gap (?l @ p # ?r) i p"
    proof -
      have "take i (?l @ p # ?r) = ?l @ p # take m ?r" "drop i (?l @ p # ?r) = drop m ?r"
        using ll i_eq by simp_all
      moreover have "p \<notin> set ?l" "p \<notin> set (take m ?r)" "p \<notin> set (drop m ?r)"
        using d' in_set_takeD [of p m ?r] in_set_dropD [of p m ?r]
        by (simp_all only: distinct_append distinct.simps) auto
      ultimately show ?thesis by (simp add: drop_in_gap_def)
    qed
    finally show ?thesis using True c ts by simp
  next
    case False
    have "reorderTabs p (int i) ts = take i (?l @ ?r) @ p # drop i (?l @ ?r)"
      using re splice_insert_gap [of i "?l @ ?r" p] False n i by simp
    also have "\<dots> = take i ?l @ p # drop i ?l @ ?r" using False ll by simp
    also have "\<dots> = drop_in_gap (?l @ p # ?r) i p"
    proof -
      have "take i (?l @ p # ?r) = take i ?l" "drop i (?l @ p # ?r) = drop i ?l @ p # ?r"
        using False ll by simp_all
      moreover have "p \<notin> set (take i ?l)" "p \<notin> set (drop i ?l)" "p \<notin> set ?r"
        using d' in_set_takeD [of p i ?l] in_set_dropD [of p i ?l]
        by (simp_all only: distinct_append distinct.simps) auto
      ultimately show ?thesis by (simp add: drop_in_gap_def)
    qed
    finally show ?thesis using False c ts by simp
  qed
qed

lemma tabs_of_reorder:
  assumes "p \<in> set (tabs_of s key)"
  shows "tabs_of (reorderTab s key p i) k =
     (if k = key then reorderTabs p i (tabs_of s k) else tabs_of s k)"
proof -
  let ?f = "\<lambda>g :: floating_group. g\<lparr>tg_tabs := reorderTabs p i (tg_tabs g)\<rparr>"
  have "key \<noteq> ''right'' \<Longrightarrow> key \<noteq> ''bottom'' \<Longrightarrow> key \<in> fg_groupId ` set (tgs_floating s)"
    using assms by (auto simp: tabs_of_eq dest: in_find_tabs)
  then show ?thesis
    using find_tabs_update_same [of ?f "reorderTabs p i" key "tgs_floating s"]
    by (auto simp: reorderTab_def tabs_of_eq find_tabs_update_other)
qed

section \<open>Closing a tab\<close>

text \<open>The tab that becomes active when the active tab \<open>p\<close> of \<open>xs @ p # ys\<close> is closed\<close>

definition neighbour :: "adjacent_preference \<Rightarrow> string list \<Rightarrow> string list \<Rightarrow> string option" where
  "neighbour pref xs ys =
     (case pref of
        PreferLeft \<Rightarrow> if xs \<noteq> [] then Some (last xs) else if ys \<noteq> [] then Some (hd ys) else None
      | PreferRight \<Rightarrow> if ys \<noteq> [] then Some (hd ys) else if xs \<noteq> [] then Some (last xs) else None)"

lemma activate_neighbour:
  "p \<notin> set xs \<Longrightarrow>
   activateAdjacentTab (xs @ ys) (index_of (xs @ p # ys) p) (Some p) p pref = neighbour pref xs ys"
proof -
  assume p: "p \<notin> set xs"
  have left: "js_at (xs @ ys) (int (length xs) - 1) = (if xs = [] then None else Some (last xs))"
    by (cases xs rule: rev_cases) (auto simp: js_at_def nth_append)
  have right: "js_at (xs @ ys) (int (length xs)) = (if ys = [] then None else Some (hd ys))"
    by (cases ys) (auto simp: js_at_def nth_append)
  show ?thesis
    using left right
    by (cases pref; cases "xs = []"; cases "ys = []")
      (simp_all add: activateAdjacentTab_def index_of_append_hit [OF p] neighbour_def Let_def)
qed

definition closed_group :: "adjacent_preference \<Rightarrow> string \<Rightarrow> string list \<Rightarrow> string list
    \<Rightarrow> string option \<Rightarrow> string list \<times> string option" where
  "closed_group pref p xs ys active =
     (xs @ ys, if active = Some p then neighbour pref xs ys else active)"

lemma remove_closes:
  fixes g :: "'a tab_group_scheme" and pref :: adjacent_preference
  assumes g: "tg_tabs g = xs @ p # ys" and d: "distinct (xs @ p # ys)" and ok: "active_ok g"
  defines "h \<equiv> removePanelWithAdjacentActivation g p pref"
  shows "(tg_tabs h, tg_activeTab h) = closed_group pref p xs ys (tg_activeTab g)"
proof -
  have f: "filter (\<lambda>i. i \<noteq> p) (xs @ p # ys) = xs @ ys" using d by simp
  show ?thesis
  proof (cases "xs @ ys = []")
    case True
    then show ?thesis
      using ok g d by (cases pref; cases "tg_activeTab g")
        (auto simp: h_def removePanelWithAdjacentActivation_def activateAdjacentTab_def
          closed_group_def active_ok_def neighbour_def Let_def)
  next
    case False
    have "p \<notin> set xs" using d by simp
    from activate_neighbour [OF this, of ys pref] False show ?thesis
      using f by (auto simp: h_def removePanelWithAdjacentActivation_def closed_group_def g Let_def
          activateAdjacentTab_def)
  qed
qed

end
