(* ===== verification/DockRuns.thy ===== *)
theory DockRuns
  imports DockProvider DockTabsInv
begin

text \<open>
  The dockable panels under use: the states the provider reaches by its operations
  (\<open>dock_reach\<close>), the invariants they keep, and what the operations do to the user's tabs.

  The groups of every cluster stay well formed and the stacking order of every store is below
  its counter; the group that has the focus has tabs. A focused group is on top of all others.
  A drop puts the tab in its gap, and closing the active tab activates its neighbour.
\<close>

section \<open>The layout store\<close>

definition layers_ok :: "dock_store \<Rightarrow> bool" where
  "layers_ok st \<longleftrightarrow>
     jm_ok (ds_layouts st) \<and> list_all (\<lambda>e. gl_zIndex (snd e) \<le> ds_zIndex st) (ds_layouts st)"

definition store_ok :: "dock_store \<Rightarrow> bool" where
  "store_ok st \<longleftrightarrow> groups_ok (ds_tabGroups st) \<and> layers_ok st"

lemma layers_get: "layers_ok st \<Longrightarrow> jm_get (ds_layouts st) k = Some l \<Longrightarrow> gl_zIndex l \<le> ds_zIndex st"
  by (auto simp: layers_ok_def list_all_iff dest!: jm_get_in)

lemma notify_fields [simp]:
  "ds_tabGroups (notifyLayout k st) = ds_tabGroups st" "ds_layouts (notifyLayout k st) = ds_layouts st"
  "ds_zIndex (notifyLayout k st) = ds_zIndex st"
  "ds_tabGroups (notifyPanel k st) = ds_tabGroups st" "ds_layouts (notifyPanel k st) = ds_layouts st"
  "ds_zIndex (notifyPanel k st) = ds_zIndex st"
  "ds_tabGroups (notifyGroups st) = ds_tabGroups st" "ds_layouts (notifyGroups st) = ds_layouts st"
  "ds_zIndex (notifyGroups st) = ds_zIndex st"
  by (simp_all add: notifyLayout_def notifyPanel_def notifyGroups_def)

lemma layers_notify [simp]:
  "layers_ok (notifyLayout k st) = layers_ok st" "layers_ok (notifyGroups st) = layers_ok st"
  "layers_ok (notifyPanel k st) = layers_ok st"
  by (simp_all add: layers_ok_def)

lemma layers_set:
  "layers_ok st \<Longrightarrow> gl_zIndex l \<le> z \<Longrightarrow> ds_zIndex st \<le> z \<Longrightarrow>
   layers_ok (st\<lparr>ds_zIndex := z, ds_layouts := jm_set k l (ds_layouts st)\<rparr>)"
proof -
  assume ok: "layers_ok st" and l: "gl_zIndex l \<le> z" and z: "ds_zIndex st \<le> z"
  have "list_all (\<lambda>e. gl_zIndex (snd e) \<le> z) (ds_layouts st)"
    using ok z by (auto simp: layers_ok_def list_all_iff intro: order_trans)
  then have "list_all (\<lambda>e. gl_zIndex (snd e) \<le> z) (jm_set k l (ds_layouts st))"
    using l by (intro jm_all_set) simp_all
  with ok show ?thesis by (simp add: layers_ok_def)
qed

lemma layers_mono: "layers_ok st \<Longrightarrow> ds_zIndex st \<le> z \<Longrightarrow> layers_ok (st\<lparr>ds_zIndex := z\<rparr>)"
  by (auto simp: layers_ok_def list_all_iff intro: order_trans)

lemma getGroupLayout_props:
  assumes "getGroupLayout d key st = (st', l)" and "layers_ok st"
  shows "layers_ok st'" "jm_get (ds_layouts st') key = Some l"
    "ds_tabGroups st' = ds_tabGroups st" "ds_zIndex st \<le> ds_zIndex st'" "gl_zIndex l \<le> ds_zIndex st'"
    "\<And>k. k \<noteq> key \<Longrightarrow> jm_get (ds_layouts st') k = jm_get (ds_layouts st) k"
proof -
  have "layers_ok st' \<and> jm_get (ds_layouts st') key = Some l \<and> ds_tabGroups st' = ds_tabGroups st
      \<and> ds_zIndex st \<le> ds_zIndex st' \<and> gl_zIndex l \<le> ds_zIndex st'
      \<and> (\<forall>k. k \<noteq> key \<longrightarrow> jm_get (ds_layouts st') k = jm_get (ds_layouts st) k)"
  proof (cases "jm_get (ds_layouts st) key")
    case None
    then show ?thesis
      using assms by (auto simp: getGroupLayout_def Let_def intro!: layers_set)
  next
    case (Some l')
    then show ?thesis
      using assms layers_get [OF assms(2) Some] by (auto simp: getGroupLayout_def)
  qed
  then show "layers_ok st'" "jm_get (ds_layouts st') key = Some l"
    "ds_tabGroups st' = ds_tabGroups st" "ds_zIndex st \<le> ds_zIndex st'" "gl_zIndex l \<le> ds_zIndex st'"
    "\<And>k. k \<noteq> key \<Longrightarrow> jm_get (ds_layouts st') k = jm_get (ds_layouts st) k" by auto
qed

lemma updateGroupLayout_groups [simp]:
  "ds_tabGroups (updateGroupLayout d key u st) = ds_tabGroups st"
  by (auto simp: updateGroupLayout_def getGroupLayout_def Let_def split: option.splits)

lemma layers_update:
  assumes "layers_ok st" and "\<And>z. lu_zIndex u = Some z \<Longrightarrow> z \<le> ds_zIndex st"
  shows "layers_ok (updateGroupLayout d key u st)"
proof -
  obtain st' l where g: "getGroupLayout d key st = (st', l)" by fastforce
  note p = getGroupLayout_props [OF g assms(1)]
  have "gl_zIndex (spreadLayout l u) \<le> ds_zIndex st'"
    using p(4,5) assms(2) by (force simp: spreadLayout_def split: option.splits)
  then have "layers_ok (st'\<lparr>ds_zIndex := ds_zIndex st',
      ds_layouts := jm_set key (spreadLayout l u) (ds_layouts st')\<rparr>)"
    using p(1) by (intro layers_set) auto
  then have "layers_ok (st'\<lparr>ds_layouts := jm_set key (spreadLayout l u) (ds_layouts st')\<rparr>)"
    by simp
  with p(1) show ?thesis by (simp add: updateGroupLayout_def g Let_def)
qed

lemma layers_delete: "layers_ok st \<Longrightarrow> layers_ok (st\<lparr>ds_layouts := jm_delete k (ds_layouts st)\<rparr>)"
  by (auto simp: layers_ok_def)

lemma layers_groups [simp]: "layers_ok (st\<lparr>ds_tabGroups := g\<rparr>) = layers_ok st"
  by (simp add: layers_ok_def)

lemma layers_panels [simp]: "layers_ok (st\<lparr>ds_panels := m\<rparr>) = layers_ok st"
  by (simp add: layers_ok_def)

lemma no_update_z [simp]: "lu_zIndex no_layout_update = None"
  by (simp add: no_layout_update_def)

lemma settle_ok: "layers_ok st \<Longrightarrow> layers_ok (settleLayout d key st)"
  "ds_tabGroups (settleLayout d key st) = ds_tabGroups st"
  by (auto simp: settleLayout_def intro!: layers_delete layers_update split: option.split)

lemma settle_all:
  "layers_ok st \<Longrightarrow> layers_ok (fold (settleLayout d) ks st)"
  "ds_tabGroups (fold (settleLayout d) ks st) = ds_tabGroups st"
  by (induction ks arbitrary: st) (simp_all add: settle_ok)

lemma setTabGroups_groups [simp]:
  "ds_tabGroups (setTabGroups d g st) = given g (ds_tabGroups st)"
  by (simp add: setTabGroups_def settle_all split: option.split)

lemma store_setTabGroups:
  "store_ok st \<Longrightarrow> (\<And>g. upd = Some g \<Longrightarrow> groups_ok g) \<Longrightarrow> store_ok (setTabGroups d upd st)"
  by (auto simp: store_ok_def setTabGroups_def settle_all split: option.split)

lemma store_update:
  "store_ok st \<Longrightarrow> lu_zIndex u = None \<Longrightarrow> store_ok (updateGroupLayout d key u st)"
  by (auto simp: store_ok_def intro!: layers_update)

lemma store_initialize: "store_ok st \<Longrightarrow> store_ok (initializeGroupLayout d key w h st)"
proof -
  assume ok: "store_ok st"
  obtain st' l where g: "getGroupLayout d key st = (st', l)" by fastforce
  have "store_ok st'"
    using ok getGroupLayout_props [OF g] by (simp add: store_ok_def)
  then show ?thesis
    by (simp add: initializeGroupLayout_def g Let_def store_update)
qed

lemma initialize_groups: "ds_tabGroups (initializeGroupLayout d key w h st) = ds_tabGroups st"
  by (auto simp: initializeGroupLayout_def getGroupLayout_def Let_def split: option.split)

lemma store_focus: "store_ok st \<Longrightarrow> store_ok (focusGroup d key st)"
  unfolding focusGroup_def Let_def store_ok_def
  by (auto intro!: layers_update layers_mono)

lemma focusGroup_groups [simp]: "ds_tabGroups (focusGroup d key st) = ds_tabGroups st"
  by (simp add: focusGroup_def Let_def)

lemma store_focusPanel: "store_ok st \<Longrightarrow> store_ok (focusPanelById d p st)"
  by (auto simp: focusPanelById_def store_focus split: option.split)

lemma focusPanel_groups [simp]: "ds_tabGroups (focusPanelById d p st) = ds_tabGroups st"
  by (simp add: focusPanelById_def split: option.split)

lemma updateState_fields [simp]:
  "ds_tabGroups (updateState p b c st) = ds_tabGroups st"
  "layers_ok (updateState p b c st) = layers_ok st"
  by (auto simp: updateState_def getInitialState_def Let_def split: option.split)

lemma setPanelOpen_fields [simp]:
  "ds_tabGroups (setPanelOpenById p b st) = ds_tabGroups st"
  "store_ok (setPanelOpenById p b st) = store_ok st"
  by (simp_all add: setPanelOpenById_def store_ok_def)

lemma removedGroups_ok: "groups_ok g \<Longrightarrow> removedGroups g p pref = Some h \<Longrightarrow> groups_ok h"
  by (auto simp: removedGroups_def groups_ok_remove split: if_splits)

lemma store_clear: "store_ok st \<Longrightarrow> store_ok (clearPanelState d p st)"
proof -
  assume ok: "store_ok st"
  then have "store_ok (setTabGroups d (removedGroups (ds_tabGroups st) p PreferRight) st)"
    by (intro store_setTabGroups) (auto simp: store_ok_def intro: removedGroups_ok)
  then show ?thesis by (simp add: clearPanelState_def Let_def store_ok_def)
qed

lemma store_clear_all: "store_ok st \<Longrightarrow> store_ok (fold (clearPanelState d) ps st)"
  by (induction ps arbitrary: st) (simp_all add: store_clear)

lemma store_defaults_step: "store_ok st \<Longrightarrow> store_ok (applyLayoutDefaults d key st)"
  "ds_tabGroups (applyLayoutDefaults d key st) = ds_tabGroups st"
  by (auto simp: applyLayoutDefaults_def Let_def intro!: store_update split: option.split)

lemma store_defaults:
  "store_ok st \<Longrightarrow> store_ok (applyObjectPanelLayoutDefaults d st)"
  "ds_tabGroups (applyObjectPanelLayoutDefaults d st) = ds_tabGroups st"
proof -
  have "store_ok s \<Longrightarrow> store_ok (fold (applyLayoutDefaults d) ks s)"
    and g: "ds_tabGroups (fold (applyLayoutDefaults d) ks s) = ds_tabGroups s" for ks s
    by (induction ks arbitrary: s) (simp_all add: store_defaults_step)
  then show "store_ok st \<Longrightarrow> store_ok (applyObjectPanelLayoutDefaults d st)"
    by (simp add: applyObjectPanelLayoutDefaults_def)
  show "ds_tabGroups (applyObjectPanelLayoutDefaults d st) = ds_tabGroups st"
    by (simp add: applyObjectPanelLayoutDefaults_def g)
qed

lemma store_initial: "(\<And>g. init = Some g \<Longrightarrow> groups_ok g) \<Longrightarrow> store_ok (createPanelLayoutStore init)"
  by (auto simp: createPanelLayoutStore_def store_ok_def layers_ok_def split: option.split)

text \<open>A focused group is above all the others\<close>

lemma focus_on_top:
  assumes ok: "layers_ok st" and l: "jm_get (ds_layouts (focusGroup d key st)) k = Some l"
    and k: "k \<noteq> key"
  shows "\<exists>top. jm_get (ds_layouts (focusGroup d key st)) key = Some top \<and> gl_zIndex l < gl_zIndex top"
proof -
  let ?z = "ds_zIndex st + 1" and ?u = "no_layout_update\<lparr>lu_zIndex := Some (ds_zIndex st + 1)\<rparr>"
  let ?s = "st\<lparr>ds_zIndex := ?z\<rparr>"
  obtain st' l' where g: "getGroupLayout d key ?s = (st', l')" by fastforce
  have "layers_ok ?s" using ok by (simp add: layers_mono)
  note p = getGroupLayout_props [OF g this]
  have z: "gl_zIndex (spreadLayout l' ?u) = ?z" by (simp add: spreadLayout_def)
  have f: "focusGroup d key st =
      (if layoutsEqual l' (spreadLayout l' ?u) then st'
       else notifyLayout key (st'\<lparr>ds_layouts := jm_set key (spreadLayout l' ?u) (ds_layouts st')\<rparr>))"
    by (simp add: focusGroup_def updateGroupLayout_def g Let_def)
  have top: "\<exists>top. jm_get (ds_layouts (focusGroup d key st)) key = Some top \<and> gl_zIndex top = ?z"
    using p(2) z by (auto simp: f layoutsEqual_def)
  have "jm_get (ds_layouts st) k = Some l"
    using l k p(6) [OF k] by (auto simp: f split: if_splits)
  then have "gl_zIndex l \<le> ds_zIndex st" by (rule layers_get [OF ok])
  with top show ?thesis by auto
qed

section \<open>The provider\<close>

definition stores_ok :: "dock_provider \<Rightarrow> bool" where
  "stores_ok p \<longleftrightarrow>
     jm_ok (dp_stores p) \<and> list_all (\<lambda>e. store_ok (snd e)) (dp_stores p) \<and>
     jm_has (dp_stores p) (cluster_key (dp_selected p))"

definition focus_ok :: "dock_provider \<Rightarrow> bool" where
  "focus_ok p \<longleftrightarrow>
     (case dp_lastFocused p of None \<Rightarrow> True | Some key \<Rightarrow> group_has_tabs (activeGroups p) key)"

definition provider_ok :: "dock_provider \<Rightarrow> bool" where
  "provider_ok p \<longleftrightarrow> stores_ok p \<and> focus_ok p"

definition init_ok :: "tab_groups option \<Rightarrow> bool" where
  "init_ok i \<longleftrightarrow> (case i of None \<Rightarrow> True | Some g \<Rightarrow> groups_ok g)"

lemma stores_get: "stores_ok p \<Longrightarrow> jm_get (dp_stores p) k = Some st \<Longrightarrow> store_ok st"
  by (auto simp: stores_ok_def list_all_iff dest!: jm_get_in)

lemma store_active: "stores_ok p \<Longrightarrow> store_ok (activeStore p)"
  by (auto simp: activeStore_def stores_ok_def intro: stores_get [unfolded stores_ok_def]
      split: option.split)

lemma groups_active: "stores_ok p \<Longrightarrow> groups_ok (activeGroups p)"
  using store_active by (simp add: store_ok_def)

lemma updateStore_selected [simp]:
  "dp_selected (updateStore k f p) = dp_selected p" "dp_lastFocused (updateStore k f p) = dp_lastFocused p"
  "dp_pendingFocus (updateStore k f p) = dp_pendingFocus p"
  by (simp_all add: updateStore_def split: option.split)

lemma stores_update:
  assumes ok: "stores_ok p" and f: "\<And>st. store_ok st \<Longrightarrow> store_ok (f st)"
  shows "stores_ok (updateStore k f p)"
proof (cases "jm_get (dp_stores p) k")
  case None
  with ok show ?thesis by (simp add: updateStore_def)
next
  case (Some st)
  have "store_ok (f st)" using stores_get [OF ok Some] by (rule f)
  with ok Some show ?thesis
    by (simp add: updateStore_def stores_ok_def jm_all_set del: map_of_eq_Some_iff)
qed

lemma active_update:
  "stores_ok p \<Longrightarrow> activeStore (updateStore k f p) =
     (if k = cluster_key (dp_selected p) then f (activeStore p) else activeStore p)"
  by (auto simp: activeStore_def updateStore_def stores_ok_def simp del: map_of_eq_Some_iff
      split: option.split)

lemma stores_focus_fields [simp]:
  "stores_ok (p\<lparr>dp_lastFocused := k\<rparr>) = stores_ok p" "stores_ok (p\<lparr>dp_pendingFocus := r\<rparr>) = stores_ok p"
  "activeStore (p\<lparr>dp_lastFocused := k\<rparr>) = activeStore p"
  "activeStore (p\<lparr>dp_pendingFocus := r\<rparr>) = activeStore p"
  by (simp_all add: stores_ok_def activeStore_def)

lemma reconcile_fields [simp]:
  "stores_ok (reconcileLastFocusedGroup g p) = stores_ok p"
  "activeStore (reconcileLastFocusedGroup g p) = activeStore p"
  "dp_selected (reconcileLastFocusedGroup g p) = dp_selected p"
  "dp_stores (reconcileLastFocusedGroup g p) = dp_stores p"
  by (auto simp: reconcileLastFocusedGroup_def split: option.split)

lemma first_group_has_tabs:
  "groups_ok s \<Longrightarrow> firstGroupWithTabs s = Some key \<Longrightarrow> group_has_tabs s key"
proof -
  assume ok: "groups_ok s" and f: "firstGroupWithTabs s = Some key"
  show ?thesis
  proof (cases "tg_tabs (tgs_right s) \<noteq> [] \<or> tg_tabs (tgs_bottom s) \<noteq> []")
    case True
    with f show ?thesis
      by (auto simp: firstGroupWithTabs_def group_has_tabs_def getGroupTabs_def split: if_splits)
  next
    case False
    then obtain g where "List.find (\<lambda>g. tg_tabs g \<noteq> []) (tgs_floating s) = Some g"
      and k: "key = fg_groupId g"
      using f by (auto simp: firstGroupWithTabs_def)
    then have "g \<in> set (tgs_floating s)" by (auto simp: find_Some_iff)
    then have g: "floatingSuffix key \<noteq> None" using ok k by (auto simp: groups_ok_def list_all_iff floating_ok_def)
    have "List.find (\<lambda>h. fg_groupId h = key) (tgs_floating s) \<noteq> None"
      using \<open>g \<in> _\<close> k by (auto simp: find_None_iff)
    then obtain h where h: "List.find (\<lambda>h. fg_groupId h = key) (tgs_floating s) = Some h" by auto
    then have "h \<in> set (tgs_floating s)" by (auto simp: find_Some_iff)
    then have "tg_tabs h \<noteq> []" using ok by (auto simp: groups_ok_def list_all_iff floating_ok_def)
    with h g show ?thesis by (auto simp: group_has_tabs_def getGroupTabs_def)
  qed
qed

lemma no_empty_key: "groups_ok s \<Longrightarrow> \<not> group_has_tabs s []"
proof -
  assume ok: "groups_ok s"
  have "List.find (\<lambda>g. fg_groupId g = []) (tgs_floating s) = None"
    using ok by (auto simp: find_None_iff groups_ok_def list_all_iff floating_ok_def)
  then show ?thesis by (simp add: group_has_tabs_def getGroupTabs_def)
qed

lemma group_of_has_tabs:
  "groups_ok s \<Longrightarrow> getGroupForPanel s p = Some key \<Longrightarrow> group_has_tabs s key"
proof -
  assume ok: "groups_ok s" and k: "getGroupForPanel s p = Some key"
  from ok show ?thesis
  proof (cases rule: group_cases [of s p])
    case (floating g)
    have "List.find (\<lambda>h. fg_groupId h = key) (tgs_floating s) \<noteq> None"
      using floating k by (auto simp: find_None_iff)
    then obtain h where h: "List.find (\<lambda>h. fg_groupId h = key) (tgs_floating s) = Some h" by auto
    then have "h \<in> set (tgs_floating s)" by (auto simp: find_Some_iff)
    then have "tg_tabs h \<noteq> []" using ok by (auto simp: groups_ok_def list_all_iff floating_ok_def)
    with h floating k show ?thesis by (auto simp: group_has_tabs_def getGroupTabs_def)
  qed (use k in \<open>auto simp: group_has_tabs_def getGroupTabs_def simp del: groupForPanel_None_iff\<close>)
qed

lemma provider_reconcile:
  "stores_ok p \<Longrightarrow> dp_lastFocused p \<noteq> Some [] \<Longrightarrow> provider_ok (reconcileFocus p)"
  using first_group_has_tabs [OF groups_active]
  by (auto simp: provider_ok_def focus_ok_def reconcileFocus_def reconcileLastFocusedGroup_def
      split: option.splits)

lemma focus_not_Nil: "provider_ok p \<Longrightarrow> dp_lastFocused p \<noteq> Some []"
  using no_empty_key [OF groups_active] by (auto simp: provider_ok_def focus_ok_def)

lemma reconcile_not_Nil:
  "groups_ok g \<Longrightarrow> dp_lastFocused p \<noteq> Some [] \<Longrightarrow>
   dp_lastFocused (reconcileLastFocusedGroup g p) \<noteq> Some []"
  using first_group_has_tabs [of g] no_empty_key [of g]
  by (auto simp: reconcileLastFocusedGroup_def split: option.splits)

lemma provider_quiet:
  assumes ok: "provider_ok p" and f: "\<And>st. store_ok st \<Longrightarrow> store_ok (f st)"
    and g: "\<And>st. ds_tabGroups (f st) = ds_tabGroups st"
  shows "provider_ok (updateStore k f p)"
proof -
  have "stores_ok p" using ok by (simp add: provider_ok_def)
  then have "stores_ok (updateStore k f p)" and "activeGroups (updateStore k f p) = activeGroups p"
    using f by (simp_all add: stores_update active_update g)
  with ok show ?thesis by (cases "dp_lastFocused p") (simp_all add: provider_ok_def focus_ok_def)
qed

lemma provider_groups:
  "provider_ok p \<Longrightarrow> (\<And>st. store_ok st \<Longrightarrow> store_ok (f st)) \<Longrightarrow>
   provider_ok (reconcileFocus (updateStore k f p))"
  using focus_not_Nil [of p] by (intro provider_reconcile) (auto simp: provider_ok_def stores_update)

lemma store_setUpdated:
  "(\<And>g h. groups_ok g \<Longrightarrow> upd g = Some h \<Longrightarrow> groups_ok h) \<Longrightarrow>
   store_ok st \<Longrightarrow> store_ok (setTabGroups d (upd (ds_tabGroups st)) st)"
  by (rule store_setTabGroups) (auto simp: store_ok_def)

lemma provider_setGroups:
  "provider_ok p \<Longrightarrow> (\<And>g h. groups_ok g \<Longrightarrow> upd g = Some h \<Longrightarrow> groups_ok h) \<Longrightarrow>
   provider_ok (reconcileFocus (setActiveGroups d upd p))"
  unfolding setActiveGroups_def onActive_def
  by (erule provider_groups) (rule store_setUpdated)

section \<open>Reachable states\<close>

text \<open>
  A state is reached from the one the provider mounts with, by its operations, in any order and
  with any arguments the types allow, except that the tab bar of a group switches to its own
  tabs, focus moves to groups that are on screen, a drop target is a group with a key, the
  selected cluster's store is not pruned, and only \<open>focusGroup\<close> sets a \<open>zIndex\<close>. Docking a whole
  group or a tab from its menu needs a selected cluster (see \<open>docking_without_cluster\<close>).
\<close>

definition mountProvider :: "tab_groups option \<Rightarrow> string \<Rightarrow> dock_provider" where
  "mountProvider initialTabGroups clusterId =
     getOrCreateStore initialTabGroups (cluster_key clusterId)
       \<lparr>dp_stores = [], dp_selected = clusterId, dp_lastFocused = None, dp_pendingFocus = None\<rparr>"

inductive dock_reach :: "tab_groups option \<Rightarrow> dock_provider \<Rightarrow> bool" for i where
  mount: "dock_reach i (mountProvider i c)"
| select: "dock_reach i p \<Longrightarrow> dock_reach i (selectCluster i c p)"
| prune: "dock_reach i p \<Longrightarrow> dp_selected p = [] \<or> dp_selected p \<in> set managed \<Longrightarrow>
    dock_reach i (pruneStores managed p)"
| sync: "dock_reach i p \<Longrightarrow> dock_reach i (syncPanelGroup d panel pos preferred p)"
| leave: "dock_reach i p \<Longrightarrow> dock_reach i (removePanelFromGroups d panel p)"
| switch: "dock_reach i p \<Longrightarrow> panel \<in> set (tabs_of (activeGroups p) key) \<Longrightarrow>
    dock_reach i (switchTab d key panel p)"
| close: "dock_reach i p \<Longrightarrow> dock_reach i (fst (closeTab d blocked native panel pref own p))"
| closed: "dock_reach i p \<Longrightarrow> dock_reach i (focusAfterClose d next p)"
| drop: "dock_reach i p \<Longrightarrow> target \<noteq> [] \<Longrightarrow> dock_reach i (movePanel d panel source target n p)"
| request: "dock_reach i p \<Longrightarrow> dock_reach i (focusPanel panel c p)"
| serve: "dock_reach i p \<Longrightarrow> dock_reach i (focusEffect d p)"
| served: "dock_reach i p \<Longrightarrow> dock_reach i (settleFocus p)"
| focus: "dock_reach i p \<Longrightarrow> group_has_tabs (activeGroups p) key \<Longrightarrow>
    dock_reach i (setLastFocusedGroupKey (Some key) p)"
| dock: "dock_reach i p \<Longrightarrow> pos \<noteq> DockFloating \<Longrightarrow>
    dock_reach i (reconcileFocus (dockPanels d i c panels active pos n p))"
| detach: "dock_reach i p \<Longrightarrow> dock_reach i (detachPanels d c panels p)"
| discard: "dock_reach i p \<Longrightarrow> dock_reach i (discardPanelLayouts d c panels p)"
| moveGroup: "dock_reach i p \<Longrightarrow> dp_selected p \<noteq> [] \<Longrightarrow>
    dock_reach i (fst (requestGroupMove d i blocked answer native key pos p))"
| moveTab: "dock_reach i p \<Longrightarrow> dp_selected p \<noteq> [] \<Longrightarrow>
    dock_reach i (requestTabMove d i blocked native panel pos p)"
| defaults: "dock_reach i p \<Longrightarrow> dock_reach i (applyLayoutDefaultsAcrossClusters d p)"
| layout: "dock_reach i p \<Longrightarrow> lu_zIndex u = None \<Longrightarrow>
    dock_reach i (onActive (updateGroupLayout d key u) p)"
| initialise: "dock_reach i p \<Longrightarrow> dock_reach i (onActive (initializeGroupLayout d key w h) p)"
| raise: "dock_reach i p \<Longrightarrow> dock_reach i (onActive (focusGroup d key) p)"
| panel: "dock_reach i p \<Longrightarrow> dock_reach i (onActive (updateState panel a b) p)"

section \<open>Every operation keeps the invariants\<close>

lemma sync_ok:
  assumes "groups_ok g" and "syncPanelGroupState g panel pos preferred focused = Some h"
  shows "groups_ok h"
  using assms by (auto simp: syncPanelGroupState_def addPanelToResolvedGroup_def Let_def groups_ok_add
      groups_ok_addFloating split: if_splits)

lemma dockEach_ok: "groups_ok g \<Longrightarrow> groups_ok (dockEach pos n panels g)"
  by (induction pos n panels g rule: dockEach.induct) (simp_all add: groups_ok_add)

lemma dockEach_group:
  "pos \<noteq> DockFloating \<Longrightarrow> groups_ok g \<Longrightarrow>
   set panels \<union> D \<subseteq> set (tabs_of (dockEach pos n panels g) (position_key pos))"
  if "D \<subseteq> set (tabs_of g (position_key pos))" for D
  using that
proof (induction pos n panels g arbitrary: D rule: dockEach.induct)
  case (2 pos n p ps s)
  have "insert p D \<subseteq> set (tabs_of (addPanelToGroup s p pos n) (position_key pos))"
    using 2(2-4) by (cases pos) (auto simp: addPanelToGroup_def Let_def tabs_of_eq position_key_def
        floating_strip)
  from 2(1) [OF _ _ this] 2(2,3) show ?case by (auto simp: groups_ok_add)
qed simp

lemma tabs_of_setActive [simp]: "tabs_of (setActiveTab s p key) k = tabs_of s k"
proof -
  have "find_tabs k (update_floating key (\<lambda>g. g\<lparr>tg_activeTab := Some p\<rparr>) gs) = find_tabs k gs" for gs
    by (induction gs) (auto simp: update_floating_def)
  then show ?thesis by (simp add: setActiveTab_def tabs_of_eq)
qed

lemma dockPanelGroup_tabs:
  "pos \<noteq> DockFloating \<Longrightarrow> groups_ok g \<Longrightarrow>
   set panels \<subseteq> set (tabs_of (dockPanelGroup panels active pos n g) (position_key pos))"
  using dockEach_group [of "{}" g pos "js_unique panels" n]
  by (auto simp: dockPanelGroup_def Let_def)

lemma dockPanelGroup_ok:
  "groups_ok g \<Longrightarrow> pos \<noteq> DockFloating \<Longrightarrow> groups_ok (dockPanelGroup panels active pos n g)"
  using dockEach_group [of "{}" g pos "js_unique panels" n] dockEach_ok [of g pos n "js_unique panels"]
  by (auto simp: dockPanelGroup_def Let_def intro!: groups_ok_setActive in_group_tabs)

lemma detach_ok: "groups_ok g \<Longrightarrow> detachPanelGroup panels g = Some h \<Longrightarrow> groups_ok h"
proof -
  assume ok: "groups_ok g"
  let ?f = "\<lambda>panelId current. (case removedGroups (given current g) panelId PreferRight of
      None \<Rightarrow> current | Some s \<Rightarrow> Some s)"
  have "\<forall>s. fold ?f ps c = Some s \<longrightarrow> groups_ok s" if "\<forall>s. c = Some s \<longrightarrow> groups_ok s" for ps c
    using that
  proof (induction ps arbitrary: c)
    case (Cons p ps)
    have "groups_ok (given c g)" using ok Cons.prems by (simp split: option.split)
    then have "\<forall>s. ?f p c = Some s \<longrightarrow> groups_ok s"
      using Cons.prems removedGroups_ok [of "given c g" p PreferRight] by (auto split: option.splits)
    from Cons.IH [OF this] show ?case by simp
  qed simp
  from this [of None] show "detachPanelGroup panels g = Some h \<Longrightarrow> groups_ok h"
    by (simp add: detachPanelGroup_def)
qed

lemma created_ok:
  "provider_ok p \<Longrightarrow> init_ok i \<Longrightarrow> provider_ok (getOrCreateStore i c p)"
  "dp_lastFocused (getOrCreateStore i c p) = dp_lastFocused p"
  "dp_selected (getOrCreateStore i c p) = dp_selected p"
  by (auto simp: getOrCreateStore_def provider_ok_def stores_ok_def focus_ok_def activeStore_def
      init_ok_def intro!: jm_all_set store_initial simp del: map_of_eq_Some_iff split: option.splits)

lemma dockPanels_stores:
  assumes "provider_ok p" and "init_ok i" and "pos \<noteq> DockFloating"
  shows "stores_ok (dockPanels d i c panels active pos n p)"
    and "dp_lastFocused (dockPanels d i c panels active pos n p) = dp_lastFocused p"
    and "dp_selected (dockPanels d i c panels active pos n p) = dp_selected p"
  using created_ok(1) [of p i c] created_ok(2,3) [of i c p] assms unfolding dockPanels_def
  by (auto simp: provider_ok_def intro!: stores_update store_setTabGroups dockPanelGroup_ok)
    (simp add: store_ok_def)

lemma moveDocked_ok:
  assumes "provider_ok p" and "init_ok i" and "pos \<noteq> DockFloating" and "dp_selected p \<noteq> []"
  shows "provider_ok (moveDockedPanels d i panels active pos p)"
proof -
  let ?q = "onActive (focusPanelById d active) (setLastFocusedGroupKey (Some (position_key pos))
      (dockPanels d i (dp_selected p) panels active pos None p))"
  have "stores_ok ?q"
    using dockPanels_stores(1) [OF assms(1-3)]
    by (auto simp: onActive_def setLastFocusedGroupKey_def intro!: stores_update store_focusPanel)
  moreover have "dp_lastFocused ?q = Some (position_key pos)"
    by (simp add: onActive_def setLastFocusedGroupKey_def)
  ultimately have "provider_ok (reconcileFocus ?q)"
    by (intro provider_reconcile) (simp_all add: position_key_def split: dock_position.split)
  with assms(4) show ?thesis by (simp add: moveDockedPanels_def cluster_key_def Let_def)
qed

lemma close_ok: "provider_ok p \<Longrightarrow> provider_ok (fst (commitTabClose d panel pref own p))"
proof -
  assume ok: "provider_ok p"
  have g: "groups_ok (activeGroups p)" using ok by (simp add: provider_ok_def groups_active)
  have quiet: "provider_ok (reconcileFocus (if own then q else onActive (setPanelOpenById panel False) q))"
    if "stores_ok q" "dp_lastFocused q \<noteq> Some []" for q
    using that by (auto simp: onActive_def intro!: provider_reconcile stores_update)
  have set: "stores_ok (setActiveGroups d upd p)"
    if "\<And>g h. groups_ok g \<Longrightarrow> upd g = Some h \<Longrightarrow> groups_ok h" for upd
    using ok that unfolding setActiveGroups_def onActive_def provider_ok_def
    by (auto intro!: stores_update store_setUpdated)
  have lf: "dp_lastFocused (setActiveGroups d upd p) \<noteq> Some []" for upd
    using focus_not_Nil [OF ok] by (simp add: setActiveGroups_def onActive_def)
  let ?G = "removePanelFromGroup (activeGroups p) panel pref"
  have "stores_ok (setActiveGroups d (\<lambda>_. Some ?G) p)"
    by (rule set) (metis g groups_ok_remove option.inject)
  then show ?thesis
    using quiet set lf g reconcile_not_Nil
    by (auto simp: commitTabClose_def Let_def groups_ok_remove removedGroups_ok
        simp del: groupForPanel_None_iff split: option.split)
qed

lemma jm_get_filter_key: "P k \<Longrightarrow> jm_get (filter (\<lambda>(k, v). P k) m) k = jm_get m k"
  by (induction m) auto

lemma prune_ok:
  assumes "provider_ok p" and "dp_selected p = [] \<or> dp_selected p \<in> set managed"
  shows "provider_ok (pruneStores managed p)"
proof -
  let ?P = "\<lambda>key. key = ''__default__'' \<or> key \<in> set managed"
  have "?P (cluster_key (dp_selected p))" using assms(2) by (auto simp: cluster_key_def)
  then have get: "jm_get (filter (\<lambda>(key, st). ?P key) (dp_stores p)) (cluster_key (dp_selected p)) =
      jm_get (dp_stores p) (cluster_key (dp_selected p))"
    by (rule jm_get_filter_key)
  have "jm_ok (filter (\<lambda>(key, st). ?P key) (dp_stores p))"
    using assms(1) by (auto simp: provider_ok_def stores_ok_def distinct_map_filter)
  with get assms(1) show ?thesis
    by (auto simp: provider_ok_def stores_ok_def focus_ok_def pruneStores_def activeStore_def
        list_all_iff simp del: map_of_eq_Some_iff split: option.splits)
qed

lemma focusEffect_ok: "provider_ok p \<Longrightarrow> provider_ok (focusEffect d p)"
proof -
  assume ok: "provider_ok p"
  have g: "groups_ok (activeGroups p)" using ok by (simp add: provider_ok_def groups_active)
  have q: "provider_ok (setLastFocusedGroupKey (Some key) p)"
    if "getGroupForPanel (activeGroups p) panel = Some key" for key panel
    using ok group_of_has_tabs [OF g that]
    by (simp add: provider_ok_def focus_ok_def setLastFocusedGroupKey_def)
  have set: "provider_ok (reconcileFocus (setActiveGroups d (\<lambda>prev. Some (setActiveTab prev panel key))
      (setLastFocusedGroupKey (Some key) p)))"
    if k: "getGroupForPanel (activeGroups p) panel = Some key" for key panel
  proof -
    let ?q = "setLastFocusedGroupKey (Some key) p"
    have "setActiveGroups d (\<lambda>prev. Some (setActiveTab prev panel key)) ?q =
        setActiveGroups d (\<lambda>prev. Some (setActiveTab (activeGroups p) panel key)) ?q"
      by (simp add: setActiveGroups_def onActive_def updateStore_def activeStore_def
          setLastFocusedGroupKey_def split: option.split)
    moreover have "groups_ok (setActiveTab (activeGroups p) panel key)"
      using g k by (rule groups_ok_setActive)
    ultimately show ?thesis using q [OF k] by (auto intro!: provider_setGroups)
  qed
  have top: "provider_ok (onActive (focusPanelById d panel) (setLastFocusedGroupKey (Some key) p))"
    if "getGroupForPanel (activeGroups p) panel = Some key" for key panel
    using q [OF that] by (auto simp: onActive_def intro!: provider_quiet store_focusPanel)
  show ?thesis
    using ok set top by (auto simp: focusEffect_def Let_def simp del: groupForPanel_None_iff
        split: option.split)
qed

lemma movePanel_ok:
  "provider_ok p \<Longrightarrow> target \<noteq> [] \<Longrightarrow> provider_ok (movePanel d panel source target n p)"
proof -
  assume ok: "provider_ok p" and t: "target \<noteq> []"
  have "provider_ok (reorderTabInGroup d target panel k p)" for k
    unfolding reorderTabInGroup_def using ok by (rule provider_setGroups) (auto simp: groups_ok_reorder)
  moreover have "provider_ok (movePanelBetweenGroups d panel target k p)" for k
  proof (cases "target = ''floating''")
    case False
    let ?q = "setActiveGroups d (\<lambda>prev. Some (movePanelToGroup prev panel target k)) p"
    have "stores_ok ?q"
      using ok unfolding setActiveGroups_def onActive_def provider_ok_def
      by (auto intro!: stores_update store_setTabGroups simp: store_ok_def groups_ok_move)
    with False t show ?thesis
      by (auto simp: movePanelBetweenGroups_def setLastFocusedGroupKey_def intro!: provider_reconcile)
  qed (simp add: movePanelBetweenGroups_def ok)
  ultimately show ?thesis using ok by (simp add: movePanel_def Let_def)
qed

lemma select_ok: "provider_ok p \<Longrightarrow> init_ok i \<Longrightarrow> provider_ok (selectCluster i c p)"
proof -
  assume ok: "provider_ok p" and i: "init_ok i"
  let ?q = "getOrCreateStore i (cluster_key c) (p\<lparr>dp_selected := c\<rparr>)"
  have "stores_ok ?q"
    using ok i by (auto simp: getOrCreateStore_def provider_ok_def stores_ok_def init_ok_def
        intro!: jm_all_set store_initial simp del: map_of_eq_Some_iff split: option.splits)
  moreover have "dp_lastFocused ?q \<noteq> Some []"
    using focus_not_Nil [OF ok] by (simp add: getOrCreateStore_def split: option.split)
  ultimately show ?thesis
    by (auto simp: selectCluster_def Let_def intro!: provider_reconcile split: option.split)
qed

lemma defaults_ok: "provider_ok p \<Longrightarrow> provider_ok (applyLayoutDefaultsAcrossClusters d p)"
proof -
  assume ok: "provider_ok p"
  let ?f = "applyObjectPanelLayoutDefaults d"
  have get: "jm_get (List.map (\<lambda>(key, st). (key, ?f st)) m) k = map_option ?f (jm_get m k)"
    for m :: "(string, dock_store) jmap" and k
    by (induction m) auto
  have "jm_ok (List.map (\<lambda>(key, st). (key, ?f st)) m) = jm_ok m" for m :: "(string, dock_store) jmap"
    by (simp add: comp_def case_prod_beta)
  with get ok show ?thesis
    by (auto simp: applyLayoutDefaultsAcrossClusters_def provider_ok_def stores_ok_def focus_ok_def
        activeStore_def list_all_iff store_defaults simp del: map_of_eq_Some_iff split: option.splits)
qed

lemma mount_ok: "init_ok i \<Longrightarrow> provider_ok (mountProvider i c)"
  by (auto simp: mountProvider_def getOrCreateStore_def provider_ok_def stores_ok_def focus_ok_def
      init_ok_def intro!: store_initial split: option.splits)

lemma dock_reach_ok: "dock_reach i p \<Longrightarrow> init_ok i \<Longrightarrow> provider_ok p"
proof (induction rule: dock_reach.induct)
  case (switch p panel key d)
  then have ok: "provider_ok p" by simp
  then have "getGroupForPanel (activeGroups p) panel = Some key"
    using switch.hyps(2) by (intro in_group_tabs) (simp_all add: provider_ok_def groups_active)
  then have "groups_ok (setActiveTab (activeGroups p) panel key)"
    using ok by (intro groups_ok_setActive) (simp_all add: provider_ok_def groups_active)
  moreover have "setActiveGroups d (\<lambda>prev. Some (setActiveTab prev panel key)) p =
      setActiveGroups d (\<lambda>prev. Some (setActiveTab (activeGroups p) panel key)) p"
    by (simp add: setActiveGroups_def onActive_def updateStore_def activeStore_def split: option.split)
  ultimately show ?case using ok by (auto simp: switchTab_def intro!: provider_setGroups)
next
  case (dock p pos d c panels active n)
  then have "provider_ok p" by simp
  then show ?case
    using dockPanels_stores [of p i pos] dock focus_not_Nil [of p] by (intro provider_reconcile) auto
next
  case (close p d blocked native panel pref own)
  then show ?case by (auto simp: closeTab_def close_ok)
next
  case (closed p d n)
  then show ?case
    by (auto simp: focusAfterClose_def onActive_def intro!: provider_quiet store_focusPanel split: option.split)
next
  case (moveGroup p d blocked answer native key pos)
  then show ?case by (auto simp: requestGroupMove_def moveDocked_ok split: option.split)
next
  case (moveTab p d blocked native panel pos)
  then show ?case
    by (auto simp: requestTabMove_def moveDocked_ok simp del: groupForPanel_None_iff split: option.split)
next
  case (sync p d panel pos preferred)
  then have "provider_ok p" by simp
  then show ?case unfolding syncPanelGroup_def by (rule provider_setGroups) (rule sync_ok)
next
  case (leave p d panel)
  then have "provider_ok p" by simp
  then show ?case
    unfolding removePanelFromGroups_def by (rule provider_setGroups) (rule removedGroups_ok)
next
  case (detach p d c panels)
  then have "provider_ok p" by simp
  then show ?case
    unfolding detachPanels_def by (rule provider_groups) (rule store_setUpdated [OF detach_ok])
next
  case (discard p d c panels)
  then show ?case
    unfolding discardPanelLayouts_def by (intro provider_groups store_clear_all) simp_all
next
  case (layout p u d key)
  then show ?case unfolding onActive_def by (intro provider_quiet store_update) simp_all
next
  case (initialise p d key w h)
  then show ?case unfolding onActive_def
    by (intro provider_quiet store_initialize) (simp_all add: initialize_groups)
next
  case (raise p d key)
  then show ?case unfolding onActive_def by (intro provider_quiet store_focus) simp_all
next
  case (panel p id a b)
  then show ?case unfolding onActive_def by (intro provider_quiet) (simp_all add: store_ok_def)
next
  case (focus p key)
  then show ?case by (simp add: provider_ok_def focus_ok_def setLastFocusedGroupKey_def)
next
  case (drop p target d panel source n)
  then show ?case by (intro movePanel_ok) simp_all
next
  case (request p panel c)
  then show ?case
    by (cases "dp_lastFocused p") (simp_all add: provider_ok_def focus_ok_def focusPanel_def)
next
  case (served p)
  then show ?case
    by (cases "dp_lastFocused p") (simp_all add: provider_ok_def focus_ok_def settleFocus_def)
qed (simp_all add: mount_ok select_ok prune_ok focusEffect_ok defaults_ok)

section \<open>What a drop and a close do\<close>

lemma reorder_self: "distinct ts \<Longrightarrow> p \<in> set ts \<Longrightarrow> reorderTabs p (index_of ts p) ts = ts"
proof -
  assume d: "distinct ts" and p: "p \<in> set ts"
  let ?n = "nat (index_of ts p)"
  have n: "index_of ts p = int ?n" "?n < length ts"
    using p index_of_nonneg_iff [of ts p] index_of_less [of ts p] by auto
  have "drop_in_gap ts ?n p = reorderTabs p (index_of ts p) ts"
    using reorder_gap [OF d p, of ?n] n by simp
  moreover have "drop_in_gap ts ?n p = take ?n ts @ p # drop (?n + 1) ts"
  proof -
    have ts: "ts = take ?n ts @ p # drop (?n + 1) ts" by (rule split_at_index_of [OF p])
    then have "drop ?n ts = p # drop (?n + 1) ts"
      using n by (metis Suc_eq_plus1 Cons_nth_drop_Suc index_of_nth p)
    moreover have "p \<notin> set (take ?n ts)" by (rule take_index_of_notin)
    moreover have "p \<notin> set (drop (?n + 1) ts)"
      using d ts by (metis distinct.simps(2) distinct_append)
    ultimately show ?thesis unfolding drop_in_gap_def by simp
  qed
  ultimately show ?thesis using split_at_index_of [OF p] by simp
qed

lemma active_setGroups:
  "stores_ok p \<Longrightarrow> activeGroups (reconcileFocus (setActiveGroups d upd p)) =
     given (upd (activeGroups p)) (activeGroups p)"
  by (simp add: reconcileFocus_def setActiveGroups_def onActive_def active_update)

lemma group_key_cases:
  assumes "groups_ok s" and "getGroupTabs s key = Some (ts, a)"
  shows "key = ''right'' \<or> key = ''bottom'' \<or> floatingSuffix key \<noteq> None \<and> ts \<noteq> []"
proof (cases "key = ''right'' \<or> key = ''bottom''")
  case False
  then obtain g where "List.find (\<lambda>g. fg_groupId g = key) (tgs_floating s) = Some g" "ts = tg_tabs g"
    using assms(2) by (auto simp: getGroupTabs_def)
  then have "g \<in> set (tgs_floating s)" "fg_groupId g = key" "ts = tg_tabs g"
    by (auto simp: find_Some_iff)
  then show ?thesis using assms(1) by (auto simp: groups_ok_def list_all_iff floating_ok_def)
qed blast

lemma distinct_tabs_of: "groups_ok s \<Longrightarrow> distinct (tabs_of s key)"
proof -
  assume ok: "groups_ok s"
  have "distinct (find_tabs key gs)" if "distinct (concat (List.map tg_tabs gs))" for gs :: "floating_group list"
    using that by (induction gs) auto
  with ok show ?thesis by (auto simp: tabs_of_eq groups_ok_def all_tabs_def)
qed

lemma movePanel_gap:
  assumes ok: "stores_ok p" and src: "getGroupForPanel (activeGroups p) panel = Some source"
    and tgt: "getGroupTabs (activeGroups p) target = Some (ts, a)" and n: "n \<le> length ts"
    and mem: "target = source \<Longrightarrow> panel \<in> set ts"
  shows "tabs_of (activeGroups (movePanel d panel source target (int n) p)) key =
     (if key = target then drop_in_gap ts n panel
      else filter (\<lambda>j. j \<noteq> panel) (tabs_of (activeGroups p) key))"
proof -
  let ?s = "activeGroups p"
  have g: "groups_ok ?s" using ok by (rule groups_active)
  have ts: "tabs_of ?s target = ts" using tgt by (simp add: tabs_of_def)
  have d: "distinct ts" using distinct_tabs_of [OF g, of target] ts by simp
  have other: "filter (\<lambda>j. j \<noteq> panel) (tabs_of ?s k) = tabs_of ?s k" if "k \<noteq> source" for k
    using in_group_tabs [OF g, of panel k] src that by (intro filter_absent) auto
  show ?thesis
  proof (cases "source = target")
    case True
    let ?i = "index_of ts panel"
    let ?adj = "if ?i < int n then int n - 1 else int n"
    have p: "panel \<in> set ts" using mem True by simp
    have nn: "0 \<le> ?i" using p by (simp add: index_of_nonneg_iff)
    have gap: "reorderTabs panel ?adj ts = drop_in_gap ts n panel" by (rule reorder_gap [OF d p n])
    have mv: "movePanel d panel source target (int n) p =
        (if ?i = ?adj then p else reorderTabInGroup d target panel ?adj p)"
      using True tgt nn by (simp add: movePanel_def Let_def)
    have "tabs_of (reorderTab ?s target panel ?adj) key =
        (if key = target then reorderTabs panel ?adj (tabs_of ?s key) else tabs_of ?s key)"
      by (rule tabs_of_reorder) (simp add: ts p)
    moreover have "reorderTabs panel ?i ts = ts" using d p by (rule reorder_self)
    moreover have "activeGroups (reorderTabInGroup d target panel ?adj p) = reorderTab ?s target panel ?adj"
      using ok by (simp only: reorderTabInGroup_def active_setGroups) simp
    moreover have "key \<noteq> target \<Longrightarrow> filter (\<lambda>j. j \<noteq> panel) (tabs_of ?s key) = tabs_of ?s key"
      using other True by simp
    ultimately show ?thesis
      unfolding mv using gap ts by (cases "?i = ?adj"; cases "key = target") simp_all
  next
    case False
    then have "panel \<notin> set (tabs_of ?s target)" using in_group_tabs [OF g, of panel target] src by auto
    then have p: "panel \<notin> set ts" by (simp add: ts)
    have kc: "target = ''right'' \<or> target = ''bottom'' \<or> floatingSuffix target \<noteq> None \<and> ts \<noteq> []"
      by (rule group_key_cases [OF g tgt])
    then have nf: "target \<noteq> ''floating''" by auto
    have "tabs_of (movePanelToGroup ?s panel target (Some (int n))) key =
        (if key = target then splice_insert (filter (\<lambda>j. j \<noteq> panel) (tabs_of ?s key)) (int n) panel
         else filter (\<lambda>j. j \<noteq> panel) (tabs_of ?s key))"
      by (rule tabs_of_move [OF g]) (use kc p ts in auto)
    moreover have "splice_insert ts (int n) panel = drop_in_gap ts n panel"
      using p n by (rule drop_in_gap_absent)
    ultimately show ?thesis
      using p ts False nf ok
      by (simp add: movePanel_def movePanelBetweenGroups_def reconcileFocus_def setLastFocusedGroupKey_def
          setActiveGroups_def onActive_def active_update)
  qed
qed

lemma find_removed:
  "distinct (List.map fg_groupId gs) \<Longrightarrow>
   List.find (\<lambda>g. fg_groupId g = key) gs = Some g \<Longrightarrow>
   List.find (\<lambda>g. fg_groupId g = key) (removeFromFloating key p pref gs) =
     (if tg_tabs (removePanelWithAdjacentActivation g p pref) = [] then None
      else Some (removePanelWithAdjacentActivation g p pref))"
proof (induction gs)
  case (Cons h gs)
  have "fg_groupId h \<notin> fg_groupId ` set (removeFromFloating (fg_groupId h) p pref gs)"
    using Cons.prems(1) removeFromFloating_ids(1) [of "fg_groupId h" p pref gs] by auto
  then have "List.find (\<lambda>g. fg_groupId g = fg_groupId h)
      (removeFromFloating (fg_groupId h) p pref gs) = None"
    unfolding find_None_iff by (metis imageI)
  with Cons show ?case by (auto simp: Let_def split: if_splits)
qed simp

lemma group_after_close:
  assumes ok: "groups_ok s" and g: "getGroupTabs s key = Some (xs @ p # ys, active)"
  shows "getGroupForPanel s p = Some key"
    and "getGroupTabs (removePanelFromGroup s p pref) key =
      (if xs @ ys = [] \<and> key \<noteq> ''right'' \<and> key \<noteq> ''bottom'' then None
       else Some (closed_group pref p xs ys active))"
proof -
  have t: "tabs_of s key = xs @ p # ys" using g by (simp add: tabs_of_def)
  then show gp: "getGroupForPanel s p = Some key" by (intro in_group_tabs [OF ok]) simp
  have d: "distinct (xs @ p # ys)" using distinct_tabs_of [OF ok, of key] t by simp
  show "getGroupTabs (removePanelFromGroup s p pref) key =
      (if xs @ ys = [] \<and> key \<noteq> ''right'' \<and> key \<noteq> ''bottom'' then None
       else Some (closed_group pref p xs ys active))"
  proof (cases "key = ''right'' \<or> key = ''bottom''")
    case True
    then show ?thesis
      using g gp ok d remove_closes [of "tgs_right s" xs p ys pref] remove_closes [of "tgs_bottom s" xs p ys pref]
      by (auto simp: getGroupTabs_def removePanelFromGroup_def groups_ok_def simp del: tabs_remove)
  next
    case False
    then obtain h where h: "List.find (\<lambda>g. fg_groupId g = key) (tgs_floating s) = Some h"
      and th: "tg_tabs h = xs @ p # ys" "tg_activeTab h = active"
      using g by (auto simp: getGroupTabs_def)
    then have "h \<in> set (tgs_floating s)" by (auto simp: find_Some_iff)
    then have "active_ok h" using ok by (auto simp: groups_ok_def list_all_iff floating_ok_def)
    note c = remove_closes [OF th(1) d this, of pref]
    have "List.find (\<lambda>g. fg_groupId g = key) (removeFromFloating key p pref (tgs_floating s)) =
        (if tg_tabs (removePanelWithAdjacentActivation h p pref) = [] then None
         else Some (removePanelWithAdjacentActivation h p pref))"
      using ok h by (intro find_removed) (simp_all add: groups_ok_def)
    then show ?thesis
      using False gp c th by (auto simp: getGroupTabs_def removePanelFromGroup_def closed_group_def
          simp del: tabs_remove)
  qed
qed

section \<open>A run\<close>

text \<open>Three panels open docked on the right and one floating; the second is active and the floating
  group is raised.\<close>

definition exampleDefaults :: layout_defaults where
  "exampleDefaults = \<lparr>ld_dockedRightWidth = 600, ld_dockedBottomHeight = 300\<rparr>"

definition exampleDock :: "string \<Rightarrow> dock_provider" where
  "exampleDock c =
     (let d = exampleDefaults;
          p1 = syncPanelGroup d ''a'' DockRight None (mountProvider None c);
          p2 = syncPanelGroup d ''b'' DockRight None p1;
          p3 = syncPanelGroup d ''e'' DockRight None p2;
          p4 = syncPanelGroup d ''f'' DockFloating None p3;
          p5 = switchTab d ''right'' ''b'' p4;
          p6 = onActive (initializeGroupLayout d ''right'' None None) p5;
          p7 = onActive (focusGroup d ''floating-1'') p6
      in setLastFocusedGroupKey (Some ''floating-1'') p7)"

definition exampleGroups :: tab_groups where
  "exampleGroups =
     \<lparr>tgs_right = \<lparr>tg_tabs = [''a'', ''b'', ''e''], tg_activeTab = Some ''b''\<rparr>,
      tgs_bottom = emptyTabGroup,
      tgs_floating = [\<lparr>tg_tabs = [''f''], tg_activeTab = Some ''f'', fg_groupId = ''floating-1''\<rparr>]\<rparr>"

lemma exampleDock_report:
  "activeGroups (exampleDock ''c'') = exampleGroups \<and>
   dp_lastFocused (exampleDock ''c'') = Some ''floating-1'' \<and>
   dp_selected (exampleDock ''c'') = ''c''"
  by code_simp

lemma exampleDock_reach: "dock_reach None (exampleDock ''c'')"
proof -
  let ?d = exampleDefaults
  let ?p4 = "syncPanelGroup ?d ''f'' DockFloating None (syncPanelGroup ?d ''e'' DockRight None
    (syncPanelGroup ?d ''b'' DockRight None (syncPanelGroup ?d ''a'' DockRight None
      (mountProvider None ''c''))))"
  have "''b'' \<in> set (tabs_of (activeGroups ?p4) ''right'')" by code_simp
  then have "dock_reach None (switchTab ?d ''right'' ''b'' ?p4)"
    by (intro dock_reach.intros)
  moreover have "group_has_tabs (activeGroups (onActive (focusGroup ?d ''floating-1'')
      (onActive (initializeGroupLayout ?d ''right'' None None)
        (switchTab ?d ''right'' ''b'' ?p4)))) ''floating-1''"
    by code_simp
  ultimately show ?thesis
    unfolding exampleDock_def Let_def
    by (intro dock_reach.focus dock_reach.raise dock_reach.initialise)
qed

section \<open>The properties\<close>

text \<open>C13. The tab groups stay well formed. In every state the dockable panels reach, the groups of
  every cluster hold each panel at most once, have no empty floating group, give every floating
  group an id of its own, and have one of their tabs active exactly when they have tabs.\<close>

theorem dock_groups_wellformed:
  assumes "init_ok i" and "dock_reach i p" and "(c, st) \<in> set (dp_stores p)"
  shows "groups_ok (ds_tabGroups st)"
  using dock_reach_ok [OF assms(2,1)] assms(3)
  by (auto simp: provider_ok_def stores_ok_def list_all_iff store_ok_def)

theorem dock_groups_wellformed_witness:
  "groups_ok exampleGroups"
proof -
  have "(''c'', activeStore (exampleDock ''c'')) \<in> set (dp_stores (exampleDock ''c''))" by code_simp
  from dock_groups_wellformed [OF _ exampleDock_reach this] exampleDock_report show ?thesis
    by (simp add: init_ok_def)
qed

text \<open>The focused group exists and has a tab: in every state the dockable panels reach, the group
  that is remembered as focused last is a group of the active store with at least one tab.\<close>

theorem dock_focus_has_tabs:
  assumes "init_ok i" and "dock_reach i p" and "dp_lastFocused p = Some key"
  shows "\<exists>ts a. getGroupTabs (activeGroups p) key = Some (ts, a) \<and> ts \<noteq> []"
  using dock_reach_ok [OF assms(2,1)] assms(3)
  by (auto simp: provider_ok_def focus_ok_def group_has_tabs_def split: option.splits)

text \<open>Focusing a group raises it: its \<open>zIndex\<close> is then strictly above that of every other group
  of the cluster that has a layout.\<close>

theorem focused_group_on_top:
  assumes "init_ok i" and "dock_reach i p"
    and "jm_get (ds_layouts (focusGroup d key (activeStore p))) k = Some l" and "k \<noteq> key"
  shows "\<exists>top. jm_get (ds_layouts (focusGroup d key (activeStore p))) key = Some top
    \<and> gl_zIndex l < gl_zIndex top"
  by (rule focus_on_top [OF _ assms(3,4)])
    (use dock_reach_ok [OF assms(2,1)] store_active in \<open>auto simp: provider_ok_def store_ok_def\<close>)

text \<open>C14. A drop puts the tab where the user let it go. Dropping a tab in the gap before the \<open>n\<close>th
  tab of a group, counted as they are shown while it is dragged, puts it between the tabs that are
  on the two sides of that gap, whether it comes from the same group or another, and leaves the
  order of all other tabs of all groups as it was.\<close>

theorem drop_lands_in_gap:
  assumes "init_ok i" and "dock_reach i p"
    and "getGroupForPanel (activeGroups p) panel = Some source"
    and "getGroupTabs (activeGroups p) target = Some (ts, a)" and "n \<le> length ts"
    and "target = source \<Longrightarrow> panel \<in> set ts"
  shows "tabs_of (activeGroups (movePanel d panel source target (int n) p)) key =
     (if key = target then drop_in_gap ts n panel
      else filter (\<lambda>j. j \<noteq> panel) (tabs_of (activeGroups p) key))"
  by (rule movePanel_gap [OF _ assms(3-6)])
    (use dock_reach_ok [OF assms(2,1)] in \<open>auto simp: provider_ok_def\<close>)

theorem drop_lands_in_gap_witness:
  "tabs_of (activeGroups (movePanel exampleDefaults ''a'' ''right'' ''right'' 2 (exampleDock ''c'')))
     ''right'' = [''b'', ''a'', ''e'']"
proof -
  have g: "getGroupForPanel exampleGroups ''a'' = Some ''right''"
    "getGroupTabs exampleGroups ''right'' = Some ([''a'', ''b'', ''e''], Some ''b'')"
    by code_simp+
  have "drop_in_gap [''a'', ''b'', ''e''] 2 ''a'' = [''b'', ''a'', ''e'']" by code_simp
  with drop_lands_in_gap [of None "exampleDock ''c''" "''a''" "''right''" "''right''"
      "[''a'', ''b'', ''e'']" "Some ''b''" 2 exampleDefaults "''right''"]
    exampleDock_reach exampleDock_report g
  show ?thesis by (simp add: init_ok_def)
qed

text \<open>C39. Closing a tab that nothing blocks takes it out of its group, keeps the active tab of the
  group unless it was the closed one, and then activates the neighbour on the preferred side, or
  the other one when there is none; that tab gets the focus. Only the last tab of a floating group
  takes the group with it.\<close>

theorem close_activates_neighbour:
  fixes p :: dock_provider and d :: layout_defaults and own :: bool and pref :: adjacent_preference
  assumes "init_ok i" and "dock_reach i p"
    and g: "getGroupTabs (activeGroups p) key = Some (xs @ panel # ys, active)"
  defines "r \<equiv> closeTab d False False panel pref own p"
  shows "getGroupTabs (activeGroups (fst r)) key =
      (if xs @ ys = [] \<and> key \<noteq> ''right'' \<and> key \<noteq> ''bottom'' then None
       else Some (closed_group pref panel xs ys active))
    \<and> snd r = (if xs @ ys = [] \<and> key \<noteq> ''right'' \<and> key \<noteq> ''bottom'' then None
       else snd (closed_group pref panel xs ys active))"
proof -
  have ok: "stores_ok p" using dock_reach_ok [OF assms(2,1)] by (simp add: provider_ok_def)
  let ?s = "activeGroups p"
  note c = group_after_close [OF groups_active [OF ok] g]
  have quiet: "activeGroups (onActive (setPanelOpenById panel False) q) = activeGroups q"
    if "stores_ok q" for q
    using that by (simp add: onActive_def active_update)
  let ?q = "setActiveGroups d (\<lambda>_. Some (removePanelFromGroup ?s panel pref)) p"
  have q: "stores_ok ?q" and gq: "activeGroups ?q = removePanelFromGroup ?s panel pref"
    using ok groups_ok_remove [OF groups_active [OF ok]] unfolding setActiveGroups_def onActive_def
    by (auto simp: active_update intro!: stores_update store_setTabGroups)
  have "activeGroups (fst r) = removePanelFromGroup ?s panel pref"
    using q gq quiet by (simp add: r_def closeTab_def commitTabClose_def c(1) Let_def reconcileFocus_def)
  moreover have "snd r = (case getGroupTabs (removePanelFromGroup ?s panel pref) key of
      None \<Rightarrow> None | Some (_, a) \<Rightarrow> a)"
    by (simp add: r_def closeTab_def commitTabClose_def c(1) Let_def)
  ultimately show ?thesis by (simp add: c(2) case_prod_beta)
qed

theorem close_activates_neighbour_witness:
  "snd (closeTab exampleDefaults False False ''b'' PreferRight False (exampleDock ''c'')) = Some ''e''"
proof -
  have "getGroupTabs exampleGroups ''right'' = Some ([''a''] @ ''b'' # [''e''], Some ''b'')"
    by code_simp
  with close_activates_neighbour [of None "exampleDock ''c''" "''right''" "[''a'']" "''b''" "[''e'']"
      "Some ''b''" exampleDefaults PreferRight False]
    exampleDock_reach exampleDock_report
  show ?thesis by (simp add: init_ok_def closed_group_def neighbour_def)
qed

text \<open>C40. Docking with no cluster selected loses the tabs. \<open>moveDockedPanels\<close> names the store by
  the selected cluster's id as it is, so with none selected it does not reach the store on screen
  (that of \<open>'__default__'\<close>): the groups on screen stay as they are, and the panels are docked in a
  store that is never shown.\<close>

theorem docking_without_cluster_lost:
  assumes "init_ok i" and "dock_reach i p" and "dp_selected p = []" and "pos \<noteq> DockFloating"
  shows "activeGroups (moveDockedPanels d i panels active pos p) = activeGroups p
    \<and> (\<exists>st. jm_get (dp_stores (moveDockedPanels d i panels active pos p)) [] = Some st
         \<and> set panels \<subseteq> set (tabs_of (ds_tabGroups st) (position_key pos)))"
proof -
  have ok: "provider_ok p" by (rule dock_reach_ok [OF assms(2,1)])
  let ?d = "getOrCreateStore i [] p"
  let ?upd = "\<lambda>st. setTabGroups d (Some (dockPanelGroup panels active pos None (ds_tabGroups st))) st"
  let ?q = "dockPanels d i [] panels active pos None p"
  let ?r = "moveDockedPanels d i panels active pos p"
  have r: "?r = onActive (focusPanelById d active) (setLastFocusedGroupKey (Some (position_key pos)) ?q)"
    using assms(3) by (simp add: moveDockedPanels_def cluster_key_def Let_def)
  have d_ok: "provider_ok ?d" and sel: "dp_selected ?d = []"
    using created_ok(1) [OF ok assms(1), of "[]"] created_ok(3) [of i "[]" p] assms(3) by simp_all
  have q: "stores_ok ?q" "dp_selected ?q = []"
    using dockPanels_stores [OF ok assms(1,4), of d "[]" panels active None] assms(3) by simp_all
  have same: "activeStore ?d = activeStore p"
    using ok assms(3) by (auto simp: getOrCreateStore_def activeStore_def cluster_key_def provider_ok_def
        stores_ok_def simp del: map_of_eq_Some_iff split: option.split)
  have "activeGroups ?q = activeGroups p"
    using d_ok sel same by (simp add: dockPanels_def provider_ok_def active_update cluster_key_def)
  then have "activeGroups ?r = activeGroups p"
    using q by (simp add: r onActive_def setLastFocusedGroupKey_def active_update)
  obtain st where st: "jm_get (dp_stores ?d) [] = Some st"
    by (cases "jm_get (dp_stores p) []") (auto simp: getOrCreateStore_def)
  have gst: "groups_ok (ds_tabGroups st)"
    using stores_get [OF _ st] d_ok by (simp add: provider_ok_def store_ok_def)
  have "jm_get (dp_stores ?q) [] = Some (?upd st)"
    using st by (simp add: dockPanels_def updateStore_def)
  then have "jm_get (dp_stores ?r) [] = Some (?upd st)"
    using q by (auto simp: r onActive_def updateStore_def setLastFocusedGroupKey_def cluster_key_def
        split: option.split)
  moreover have "set panels \<subseteq> set (tabs_of (ds_tabGroups (?upd st)) (position_key pos))"
    using dockPanelGroup_tabs [OF assms(4) gst] by simp
  ultimately show ?thesis using \<open>activeGroups ?r = activeGroups p\<close> by blast
qed

theorem docking_without_cluster_lost_witness:
  "activeGroups (moveDockedPanels exampleDefaults None [''a''] ''a'' DockBottom
     (syncPanelGroup exampleDefaults ''a'' DockRight None (mountProvider None []))) =
   \<lparr>tgs_right = \<lparr>tg_tabs = [''a''], tg_activeTab = Some ''a''\<rparr>, tgs_bottom = emptyTabGroup,
    tgs_floating = []\<rparr>"
proof -
  let ?p = "syncPanelGroup exampleDefaults ''a'' DockRight None (mountProvider None [])"
  have "dock_reach None ?p" by (intro dock_reach.intros)
  moreover have "dp_selected ?p = [] \<and> activeGroups ?p =
      \<lparr>tgs_right = \<lparr>tg_tabs = [''a''], tg_activeTab = Some ''a''\<rparr>, tgs_bottom = emptyTabGroup,
       tgs_floating = []\<rparr>" by code_simp
  ultimately show ?thesis
    using docking_without_cluster_lost [of None ?p DockBottom exampleDefaults "[''a'']" "''a''"]
    by (simp add: init_ok_def)
qed

end
