(* ===== verification/ObjectMapGraph.thy ===== *)
theory ObjectMapGraph
  imports Prelude
begin

text \<open>
  The graph of the object map (\<open>modules/object-map/\<close>): its nodes and edges, the directional
  traversal (\<open>objectMapTraversal.ts\<close>), the filter that keeps what is connected to the seed in
  one direction (\<open>objectMapDirectionalFilter.ts\<close>), the selection state
  (\<open>objectMapSelection.ts\<close>) and the removal of redundant Service edges
  (\<open>objectMapDedupe.ts\<close>).

  A traversal computes exactly the nodes that a directed path of the relation reaches
  (\<open>traversal_exact\<close>); removing redundant edges changes no reachability. The \<open>actionFacts\<close> of a node, which only the menus read, are
  left out.
\<close>

section \<open>Nodes and edges\<close>

record map_ref =
  ref_clusterId :: string
  ref_clusterName :: "string option"
  ref_group :: string
  ref_version :: string
  ref_kind :: string
  ref_resource :: "string option"
  ref_namespace :: "string option"
  ref_name :: string
  ref_uid :: "string option"

record map_status =
  mst_state :: string
  mst_label :: string
  mst_presentation :: "string option"
  mst_reason :: "string option"

record map_node =
  nd_id :: string
  nd_depth :: int
  nd_ref :: map_ref
  nd_creationTimestamp :: "string option"
  nd_status :: "map_status option"

text \<open>The layout's edges carry the path they stand for when the kind filter has made them; an
  edge of the payload has none.\<close>

record filtered_path_node =
  fpn_id :: string
  fpn_ref :: map_ref
  fpn_filtered :: bool

record filtered_path =
  fp_nodes :: "filtered_path_node list"
  fp_relationships :: "(string \<times> string) list"
  fp_additionalPathCount :: int

record map_edge =
  ed_id :: string
  ed_source :: string
  ed_target :: string
  ed_type :: string
  ed_label :: string
  ed_tracedBy :: "string option"
  ed_filteredPath :: "filtered_path option"

text \<open>\<open>new Map(nodes.map((node) => [node.id, node]))\<close>\<close>

definition nodeIndex :: "map_node list \<Rightarrow> (string, map_node) jmap" where
  "nodeIndex nodes = fold (\<lambda>n m. jm_set (nd_id n) n m) nodes []"

definition node_ids :: "map_node list \<Rightarrow> string list" where
  "node_ids nodes = List.map nd_id nodes"

section \<open>Directional traversal\<close>

text \<open>A neighbour is the id of the edge and the node it leads to.\<close>

type_synonym neighbours = "(string, (string \<times> string) list) jmap"

record adjacency =
  ad_outgoing :: neighbours
  ad_incoming :: neighbours

definition emptyAdjacency :: adjacency where
  "emptyAdjacency = \<lparr>ad_outgoing = [], ad_incoming = []\<rparr>"

definition neighboursOf :: "('k, 'v list) jmap \<Rightarrow> 'k \<Rightarrow> 'v list" where
  "neighboursOf adj u = (case jm_get adj u of None \<Rightarrow> [] | Some ns \<Rightarrow> ns)"

definition appendDirectionalNeighbor :: "('k, 'v list) jmap \<Rightarrow> 'k \<Rightarrow> 'v \<Rightarrow> ('k, 'v list) jmap" where
  "appendDirectionalNeighbor adj nodeId neighbour =
     (case jm_get adj nodeId of
        Some entries \<Rightarrow> jm_set nodeId (entries @ [neighbour]) adj
      | None \<Rightarrow> jm_set nodeId [neighbour] adj)"

definition appendDirectionalEdge :: "adjacency \<Rightarrow> string \<Rightarrow> string \<Rightarrow> string \<Rightarrow> adjacency" where
  "appendDirectionalEdge adj edgeId source target =
     \<lparr>ad_outgoing = appendDirectionalNeighbor (ad_outgoing adj) source (edgeId, target),
      ad_incoming = appendDirectionalNeighbor (ad_incoming adj) target (edgeId, source)\<rparr>"

text \<open>The inner loop over the neighbours of one node: visited nodes, the rest of the queue, the
  reached nodes and the reached edges.\<close>

fun visitNeighbours ::
  "(string \<times> string) list \<Rightarrow> string list \<times> string list \<times> string list \<times> string list
   \<Rightarrow> string list \<times> string list \<times> string list \<times> string list" where
  "visitNeighbours [] st = st"
| "visitNeighbours ((edgeId, neighbour) # rest) (visited, queue, nodes, edges) =
     (if neighbour \<in> set visited
      then visitNeighbours rest (visited, queue, nodes, jset_add edgeId edges)
      else visitNeighbours rest
        (visited @ [neighbour], queue @ [neighbour], jset_add neighbour nodes, jset_add edgeId edges))"

definition all_neighbours :: "neighbours \<Rightarrow> string set" where
  "all_neighbours adj = (\<Union>e \<in> set adj. snd ` set (snd e))"

lemma finite_all_neighbours [simp]: "finite (all_neighbours adj)"
  by (simp add: all_neighbours_def)

lemma neighbour_in_all: "(e, v) \<in> set (neighboursOf adj u) \<Longrightarrow> v \<in> all_neighbours adj"
proof -
  assume v: "(e, v) \<in> set (neighboursOf adj u)"
  then obtain ns where "jm_get adj u = Some ns" and ns: "(e, v) \<in> set ns"
    by (cases "jm_get adj u") (auto simp: neighboursOf_def)
  then have "(u, ns) \<in> set adj" by (auto dest: jm_get_in)
  with ns show ?thesis unfolding all_neighbours_def by force
qed

lemma visit_props:
  assumes "visitNeighbours ns (vs, q, nodes, edges) = (vs', q', nodes', edges')"
  shows "\<exists>new. vs' = vs @ new \<and> q' = q @ new \<and> set new = snd ` set ns - set vs \<and> distinct new \<and>
    set nodes' = set nodes \<union> set new \<and> set edges' = set edges \<union> fst ` set ns"
  using assms
proof (induction ns "(vs, q, nodes, edges)" arbitrary: vs q nodes edges rule: visitNeighbours.induct)
  case (2 edgeId v rest vs q nodes edges)
  show ?case
  proof (cases "v \<in> set vs")
    case True
    with 2 show ?thesis by (auto 0 3)
  next
    case False
    from 2(2) [OF False] 2(3) False obtain new where
      "vs' = (vs @ [v]) @ new" "q' = (q @ [v]) @ new" "set new = snd ` set rest - set (vs @ [v])"
      "distinct new" "set nodes' = set (jset_add v nodes) \<union> set new"
      "set edges' = set (jset_add edgeId edges) \<union> fst ` set rest" by auto
    with False show ?thesis by (intro exI [of _ "v # new"]) auto
  qed
qed auto

function directionalLoop ::
  "neighbours \<Rightarrow> string list \<Rightarrow> string list \<Rightarrow> string list \<Rightarrow> string list
   \<Rightarrow> string list \<times> string list \<times> string list" where
  "directionalLoop adj visited [] nodes edges = (visited, nodes, edges)"
| "directionalLoop adj visited (u # queue) nodes edges =
     (let (visited', queue', nodes', edges') =
        visitNeighbours (neighboursOf adj u) (visited, queue, nodes, edges)
      in directionalLoop adj visited' queue' nodes' edges')"
  by pat_completeness auto

termination
proof (relation "measure (\<lambda>(adj, visited, queue, _, _).
    length queue + card (all_neighbours adj - set visited))", goal_cases)
  case (2 adj visited u queue nodes edges x visited' y queue' z nodes' edges')
  then have "visitNeighbours (neighboursOf adj u) (visited, queue, nodes, edges) =
      (visited', queue', nodes', edges')" by simp
  from visit_props [OF this] obtain new where n: "visited' = visited @ new" "queue' = queue @ new"
    "set new = snd ` set (neighboursOf adj u) - set visited" "distinct new" by auto
  have "set new \<subseteq> all_neighbours adj - set visited"
    using n(3) by (auto dest: neighbour_in_all)
  then have "card (all_neighbours adj - set visited) =
      card (set new) + card (all_neighbours adj - set visited - set new)"
    by (simp add: card_Diff_subset card_mono)
  moreover have "all_neighbours adj - set visited - set new = all_neighbours adj - set visited'"
    by (auto simp: n(1))
  ultimately show ?case
    using n distinct_card [OF n(4)] by simp
qed simp

definition collectDirectionalReachability ::
  "string \<Rightarrow> neighbours \<Rightarrow> string list \<Rightarrow> string list \<Rightarrow> string list \<times> string list" where
  "collectDirectionalReachability seedId adj reachableNodes reachableEdges =
     snd (directionalLoop adj [seedId] [seedId] reachableNodes reachableEdges)"

definition collectDirectionalConnections :: "string \<Rightarrow> adjacency \<Rightarrow> string list \<times> string list" where
  "collectDirectionalConnections seedId adj =
     (let (nodes, edges) = collectDirectionalReachability seedId (ad_outgoing adj) [] []
      in collectDirectionalReachability seedId (ad_incoming adj) nodes edges)"

section \<open>The directional filter\<close>

definition buildDirectionalAdjacency :: "map_node list \<Rightarrow> map_edge list \<Rightarrow> adjacency" where
  "buildDirectionalAdjacency nodes edges =
     fold (\<lambda>e adj.
         if ed_source e \<notin> set (node_ids nodes) \<or> ed_target e \<notin> set (node_ids nodes)
            \<or> ed_source e = ed_target e
         then adj else appendDirectionalEdge adj (ed_id e) (ed_source e) (ed_target e))
       edges emptyAdjacency"

definition filterByDirectionalReachability ::
  "map_node list \<Rightarrow> map_edge list \<Rightarrow> string \<Rightarrow> map_node list \<times> map_edge list" where
  "filterByDirectionalReachability nodes edges seedId =
     (if \<not> list_ex (\<lambda>n. nd_id n = seedId) nodes then (nodes, edges)
      else
        let (connectedIds, connectedEdgeIds) =
              collectDirectionalConnections seedId (buildDirectionalAdjacency nodes edges);
            kept = jset_add seedId connectedIds
        in (filter (\<lambda>n. nd_id n \<in> set kept) nodes,
            filter (\<lambda>e. ed_id e \<in> set connectedEdgeIds) edges))"

section \<open>Selection\<close>

record selection_state =
  sel_activeId :: "string option"
  sel_connectedIds :: "string list"
  sel_connectedEdgeIds :: "string list"

definition emptySelection :: selection_state where
  "emptySelection = \<lparr>sel_activeId = None, sel_connectedIds = [], sel_connectedEdgeIds = []\<rparr>"

definition isObjectMapEdgeDimmedBySelection :: "selection_state \<Rightarrow> string \<Rightarrow> bool" where
  "isObjectMapEdgeDimmedBySelection s edgeId \<longleftrightarrow>
     sel_activeId s \<noteq> None \<and> edgeId \<notin> set (sel_connectedEdgeIds s)"

text \<open>The edges are given as id, source and target.\<close>

definition computeObjectMapSelectionState ::
  "(string \<times> string \<times> string) list \<Rightarrow> string option \<Rightarrow> selection_state" where
  "computeObjectMapSelectionState edges activeNodeId =
     (case activeNodeId of
        None \<Rightarrow> emptySelection
      | Some active \<Rightarrow>
          let adj = fold (\<lambda>(i, s, t) adj. appendDirectionalEdge adj i s t) edges emptyAdjacency;
              (nodes, es) = collectDirectionalConnections active adj
          in \<lparr>sel_activeId = Some active, sel_connectedIds = nodes, sel_connectedEdgeIds = es\<rparr>)"

section \<open>Redundant Service edges\<close>

definition addToGroup :: "'k \<Rightarrow> 'v \<Rightarrow> ('k, 'v list) jmap \<Rightarrow> ('k, 'v list) jmap" where
  "addToGroup k v m = jm_set k (jset_add v (neighboursOf m k)) m"

definition kindOf :: "(string, map_node) jmap \<Rightarrow> string \<Rightarrow> string option" where
  "kindOf nodesById i = map_option (\<lambda>n. ref_kind (nd_ref n)) (jm_get nodesById i)"

definition collectEndpoint ::
  "(string, map_node) jmap \<Rightarrow> map_edge
   \<Rightarrow> (string, string list) jmap \<times> (string, string list) jmap
   \<Rightarrow> (string, string list) jmap \<times> (string, string list) jmap" where
  "collectEndpoint nodesById e st =
     (let (slicesByService, targetsBySlice) = st in
      if ed_type e \<noteq> ''endpoint'' then st
      else if kindOf nodesById (ed_source e) = Some ''Service''
              \<and> kindOf nodesById (ed_target e) = Some ''EndpointSlice''
      then (addToGroup (ed_source e) (ed_target e) slicesByService, targetsBySlice)
      else if kindOf nodesById (ed_source e) = Some ''EndpointSlice''
      then (slicesByService, addToGroup (ed_source e) (ed_target e) targetsBySlice)
      else st)"

definition dedupeServiceEdges :: "map_node list \<Rightarrow> map_edge list \<Rightarrow> map_edge list" where
  "dedupeServiceEdges nodes edges =
     (let nodesById = nodeIndex nodes;
          (slicesByService, targetsBySlice) = fold (collectEndpoint nodesById) edges ([], []);
          endpointChainTargets =
            List.map (\<lambda>(service, slices).
                (service, fold (\<lambda>slice reachable. fold jset_add (neighboursOf targetsBySlice slice) reachable)
                            slices []))
              slicesByService
      in filter (\<lambda>e.
           if ed_type e = ''selector'' then
             kindOf nodesById (ed_source e) \<noteq> Some ''Service''
             \<or> ed_target e \<notin> set (neighboursOf endpointChainTargets (ed_source e))
           else if ed_type e = ''owner'' \<and> kindOf nodesById (ed_source e) = Some ''Service''
                   \<and> kindOf nodesById (ed_target e) = Some ''EndpointSlice''
           then ed_target e \<notin> set (neighboursOf slicesByService (ed_source e))
           else True) edges)"

section \<open>A traversal reaches exactly what paths reach\<close>

text \<open>The relation of a neighbour map, and the edges that leave a set of nodes\<close>

definition nb_rel :: "neighbours \<Rightarrow> (string \<times> string) set" where
  "nb_rel adj = {(u, v). \<exists>e. (e, v) \<in> set (neighboursOf adj u)}"

definition nb_edges :: "neighbours \<Rightarrow> string set \<Rightarrow> string set" where
  "nb_edges adj A = (\<Union>u \<in> A. fst ` set (neighboursOf adj u))"

lemma nb_successors: "snd ` set (neighboursOf adj u) = nb_rel adj `` {u}"
  by (auto simp: nb_rel_def image_iff) (metis snd_conv)

lemma rtrancl_image_trans: "B \<subseteq> r\<^sup>* `` A \<Longrightarrow> r\<^sup>* `` B \<subseteq> r\<^sup>* `` A"
proof
  fix y assume sub: "B \<subseteq> r\<^sup>* `` A" and "y \<in> r\<^sup>* `` B"
  then obtain x where x: "x \<in> B" "(x, y) \<in> r\<^sup>*" by auto
  with sub obtain a where "a \<in> A" "(a, x) \<in> r\<^sup>*" by auto
  with x(2) show "y \<in> r\<^sup>* `` A" by (auto intro: rtrancl_trans)
qed

lemma loop_props:
  assumes "directionalLoop adj visited queue nodes edges = (V, ns, es)"
    and "set queue \<subseteq> set visited"
    and "nb_rel adj `` (set visited - set queue) \<subseteq> set visited"
  shows "set visited \<subseteq> set V" and "nb_rel adj `` set V \<subseteq> set V"
    and "set V \<subseteq> (nb_rel adj)\<^sup>* `` set visited"
    and "set ns = set nodes \<union> (set V - set visited)"
    and "set es = set edges \<union> nb_edges adj (set queue \<union> (set V - set visited))"
proof -
  have "set visited \<subseteq> set V \<and> nb_rel adj `` set V \<subseteq> set V
    \<and> set V \<subseteq> (nb_rel adj)\<^sup>* `` set visited
    \<and> set ns = set nodes \<union> (set V - set visited)
    \<and> set es = set edges \<union> nb_edges adj (set queue \<union> (set V - set visited))"
    using assms
  proof (induction adj visited queue nodes edges rule: directionalLoop.induct)
    case (1 adj visited nodes edges)
    then show ?case by (auto simp: nb_edges_def)
  next
    case (2 adj visited u queue nodes edges)
    obtain vs q n e where v: "visitNeighbours (neighboursOf adj u) (visited, queue, nodes, edges) =
        (vs, q, n, e)" by (metis prod_cases4)
    from visit_props [OF v] obtain new where new: "vs = visited @ new" "q = queue @ new"
      "set new = nb_rel adj `` {u} - set visited" "set n = set nodes \<union> set new"
      "set e = set edges \<union> nb_edges adj {u}"
      by (auto simp: nb_successors nb_edges_def)
    have loop: "directionalLoop adj vs q n e = (V, ns, es)" using 2(2) v by simp
    have sub: "set q \<subseteq> set vs" using 2(3) new by auto
    have closed: "nb_rel adj `` (set vs - set q) \<subseteq> set vs"
    proof
      fix y assume "y \<in> nb_rel adj `` (set vs - set q)"
      then obtain x where x: "x \<in> set visited" "x \<notin> set queue" "(x, y) \<in> nb_rel adj"
        using new by auto
      show "y \<in> set vs"
      proof (cases "x = u")
        case True
        with x new show ?thesis by auto
      next
        case False
        with x 2(4) have "y \<in> set visited" by auto
        with new show ?thesis by simp
      qed
    qed
    from 2(1) [OF v [symmetric] refl refl refl loop sub closed]
    have IH: "set vs \<subseteq> set V" "nb_rel adj `` set V \<subseteq> set V" "set V \<subseteq> (nb_rel adj)\<^sup>* `` set vs"
      "set ns = set n \<union> (set V - set vs)" "set es = set e \<union> nb_edges adj (set q \<union> (set V - set vs))"
      by auto
    have u: "u \<in> set visited" using 2(3) by simp
    have "set vs \<subseteq> (nb_rel adj)\<^sup>* `` set visited"
      using new u by (auto intro: rev_ImageI)
    then have "(nb_rel adj)\<^sup>* `` set vs \<subseteq> (nb_rel adj)\<^sup>* `` set visited"
      by (rule rtrancl_image_trans)
    then have V: "set V \<subseteq> (nb_rel adj)\<^sup>* `` set visited" using IH(3) by blast
    have diff: "set V - set visited = set new \<union> (set V - set vs)"
      using new(1,3) IH(1) by auto
    have ns: "set ns = set nodes \<union> (set V - set visited)"
      unfolding diff IH(4) new(4) by blast
    have "set es = set edges \<union> nb_edges adj {u} \<union> nb_edges adj (set q \<union> (set V - set vs))"
      using IH(5) new(5) by simp
    also have "\<dots> = set edges \<union> nb_edges adj (set (u # queue) \<union> (set V - set visited))"
      unfolding diff new(2) by (auto simp: nb_edges_def)
    finally have es: "set es = set edges \<union> nb_edges adj (set (u # queue) \<union> (set V - set visited))" .
    have "set visited \<subseteq> set V" using IH(1) new(1) by auto
    with IH(2) V ns es show ?case by blast
  qed
  then show "set visited \<subseteq> set V" "nb_rel adj `` set V \<subseteq> set V"
    "set V \<subseteq> (nb_rel adj)\<^sup>* `` set visited" "set ns = set nodes \<union> (set V - set visited)"
    "set es = set edges \<union> nb_edges adj (set queue \<union> (set V - set visited))" by auto
qed

lemma closed_rtrancl: "r `` A \<subseteq> A \<Longrightarrow> B \<subseteq> A \<Longrightarrow> r\<^sup>* `` B \<subseteq> A"
proof
  fix y assume r: "r `` A \<subseteq> A" and "B \<subseteq> A" and "y \<in> r\<^sup>* `` B"
  then obtain x where "(x, y) \<in> r\<^sup>*" and "x \<in> A" by auto
  then show "y \<in> A" by (induction rule: rtrancl_induct) (use r in auto)
qed

lemma traversal_exact:
  assumes "collectDirectionalReachability seed adj nodes edges = (ns, es)"
  shows "set ns = set nodes \<union> ((nb_rel adj)\<^sup>* `` {seed} - {seed})"
    and "set es = set edges \<union> nb_edges adj ((nb_rel adj)\<^sup>* `` {seed})"
proof -
  obtain V where l: "directionalLoop adj [seed] [seed] nodes edges = (V, ns, es)"
    using assms by (cases "directionalLoop adj [seed] [seed] nodes edges")
      (auto simp: collectDirectionalReachability_def)
  note p = loop_props [OF l, simplified]
  have "set V = (nb_rel adj)\<^sup>* `` {seed}"
  proof
    show "set V \<subseteq> (nb_rel adj)\<^sup>* `` {seed}" by (rule p(3))
    show "(nb_rel adj)\<^sup>* `` {seed} \<subseteq> set V"
      by (rule closed_rtrancl [OF p(2)]) (use p(1) in simp)
  qed
  then show "set ns = set nodes \<union> ((nb_rel adj)\<^sup>* `` {seed} - {seed})"
    and "set es = set edges \<union> nb_edges adj ((nb_rel adj)\<^sup>* `` {seed})"
    using p(4,5) by (auto simp: nb_edges_def)
qed

text \<open>The neighbour maps of a list of edges\<close>

lemma neighbours_append [simp]:
  "neighboursOf (appendDirectionalNeighbor adj u x) v =
     (if v = u then neighboursOf adj u @ [x] else neighboursOf adj v)"
  by (auto simp: neighboursOf_def appendDirectionalNeighbor_def split: option.split)

lemma neighbours_empty [simp]: "neighboursOf [] u = []"
  by (simp add: neighboursOf_def)

definition edge_triples :: "map_edge list \<Rightarrow> (string \<times> string \<times> string) list" where
  "edge_triples edges = List.map (\<lambda>e. (ed_id e, ed_source e, ed_target e)) edges"

definition triples_rel :: "(string \<times> string \<times> string) list \<Rightarrow> (string \<times> string) set" where
  "triples_rel ts = (\<lambda>(i, s, t). (s, t)) ` set ts"

definition addTriple :: "string \<times> string \<times> string \<Rightarrow> adjacency \<Rightarrow> adjacency" where
  "addTriple x adj = (case x of (i, s, t) \<Rightarrow> appendDirectionalEdge adj i s t)"

lemma adjacency_of_triples:
  "set (neighboursOf (ad_outgoing (fold addTriple ts adj)) u) =
     set (neighboursOf (ad_outgoing adj) u) \<union> {(i, t). (i, u, t) \<in> set ts}"
  "set (neighboursOf (ad_incoming (fold addTriple ts adj)) u) =
     set (neighboursOf (ad_incoming adj) u) \<union> {(i, s). (i, s, u) \<in> set ts}"
  by (induction ts arbitrary: adj)
    (auto simp: addTriple_def appendDirectionalEdge_def split: if_splits)

lemma triples_nb_rel:
  "nb_rel (ad_outgoing (fold addTriple ts emptyAdjacency)) = triples_rel ts"
  "nb_rel (ad_incoming (fold addTriple ts emptyAdjacency)) = (triples_rel ts)\<inverse>"
  by (auto simp: nb_rel_def adjacency_of_triples emptyAdjacency_def triples_rel_def image_iff
      split: prod.splits) force+

lemma triples_nb_edges:
  "nb_edges (ad_outgoing (fold addTriple ts emptyAdjacency)) A = {i. \<exists>s t. (i, s, t) \<in> set ts \<and> s \<in> A}"
  "nb_edges (ad_incoming (fold addTriple ts emptyAdjacency)) A = {i. \<exists>s t. (i, s, t) \<in> set ts \<and> t \<in> A}"
  by (force simp: nb_edges_def adjacency_of_triples emptyAdjacency_def)+

text \<open>What is connected to a seed: the nodes that a directed path leads to, or from which one
  leads to it; and the edges on such paths\<close>

definition connected_to :: "(string \<times> string) set \<Rightarrow> string \<Rightarrow> string set" where
  "connected_to r seed = r\<^sup>* `` {seed} \<union> (r\<inverse>)\<^sup>* `` {seed}"

definition traversed :: "(string \<times> string) set \<Rightarrow> string \<Rightarrow> string \<Rightarrow> string \<Rightarrow> bool" where
  "traversed r seed s t \<longleftrightarrow> s \<in> r\<^sup>* `` {seed} \<or> t \<in> (r\<inverse>)\<^sup>* `` {seed}"

lemma connections_exact:
  assumes "collectDirectionalConnections seed (fold addTriple ts emptyAdjacency) = (ns, es)"
  shows "set ns = connected_to (triples_rel ts) seed - {seed}"
    and "set es = {i. \<exists>s t. (i, s, t) \<in> set ts \<and> traversed (triples_rel ts) seed s t}"
proof -
  let ?adj = "fold addTriple ts emptyAdjacency"
  obtain n e where f: "collectDirectionalReachability seed (ad_outgoing ?adj) [] [] = (n, e)" by fastforce
  then have b: "collectDirectionalReachability seed (ad_incoming ?adj) n e = (ns, es)"
    using assms by (simp add: collectDirectionalConnections_def)
  note F = traversal_exact [OF f, unfolded triples_nb_rel]
  note B = traversal_exact [OF b, unfolded triples_nb_rel]
  show "set ns = connected_to (triples_rel ts) seed - {seed}"
    using F(1) B(1) by (auto simp: connected_to_def)
  show "set es = {i. \<exists>s t. (i, s, t) \<in> set ts \<and> traversed (triples_rel ts) seed s t}"
    unfolding B(2) F(2) triples_nb_edges traversed_def by auto
qed

section \<open>The directional filter keeps the graph connected to the seed\<close>

definition edge_rel :: "map_edge list \<Rightarrow> (string \<times> string) set" where
  "edge_rel edges = (\<lambda>e. (ed_source e, ed_target e)) ` set edges"

definition valid_edges :: "map_node list \<Rightarrow> map_edge list \<Rightarrow> map_edge list" where
  "valid_edges nodes edges =
     filter (\<lambda>e. ed_source e \<in> set (node_ids nodes) \<and> ed_target e \<in> set (node_ids nodes)
       \<and> ed_source e \<noteq> ed_target e) edges"

definition graph_rel :: "map_node list \<Rightarrow> map_edge list \<Rightarrow> (string \<times> string) set" where
  "graph_rel nodes edges = edge_rel (valid_edges nodes edges)"

lemma graph_rel_iff:
  "(s, t) \<in> graph_rel nodes edges \<longleftrightarrow> s \<in> set (node_ids nodes) \<and> t \<in> set (node_ids nodes) \<and> s \<noteq> t \<and>
     (\<exists>e \<in> set edges. ed_source e = s \<and> ed_target e = t)"
  by (auto simp: graph_rel_def edge_rel_def valid_edges_def image_iff)

lemma triples_edges: "triples_rel (edge_triples edges) = edge_rel edges"
  by (force simp: triples_rel_def edge_triples_def edge_rel_def)

lemma build_adjacency:
  "buildDirectionalAdjacency nodes edges = fold addTriple (edge_triples (valid_edges nodes edges)) emptyAdjacency"
proof -
  have "fold (\<lambda>e adj.
         if ed_source e \<notin> set (node_ids nodes) \<or> ed_target e \<notin> set (node_ids nodes)
            \<or> ed_source e = ed_target e
         then adj else appendDirectionalEdge adj (ed_id e) (ed_source e) (ed_target e)) edges adj =
      fold addTriple (edge_triples (valid_edges nodes edges)) adj" for adj
    by (induction edges arbitrary: adj) (auto simp: edge_triples_def valid_edges_def addTriple_def)
  then show ?thesis by (simp add: buildDirectionalAdjacency_def)
qed

lemma filter_exact:
  assumes "seed \<in> set (node_ids nodes)"
    and "filterByDirectionalReachability nodes edges seed = (nodes', edges')"
  shows "nodes' = filter (\<lambda>n. nd_id n \<in> connected_to (graph_rel nodes edges) seed) nodes"
    and "edges' = filter (\<lambda>e. \<exists>f \<in> set (valid_edges nodes edges). ed_id f = ed_id e \<and>
      traversed (graph_rel nodes edges) seed (ed_source f) (ed_target f)) edges"
proof -
  obtain ns es where c: "collectDirectionalConnections seed (buildDirectionalAdjacency nodes edges) = (ns, es)"
    by fastforce
  note C = connections_exact [OF c [unfolded build_adjacency], unfolded triples_edges]
  have seed: "list_ex (\<lambda>n. nd_id n = seed) nodes"
    using assms(1) by (auto simp: node_ids_def list_ex_iff)
  have n: "nodes' = filter (\<lambda>n. nd_id n \<in> set (jset_add seed ns)) nodes"
    and e: "edges' = filter (\<lambda>e. ed_id e \<in> set es) edges"
    using assms(2) seed c by (simp_all add: filterByDirectionalReachability_def)
  have "seed \<in> connected_to (graph_rel nodes edges) seed" by (simp add: connected_to_def)
  then have kept: "set (jset_add seed ns) = connected_to (graph_rel nodes edges) seed"
    using C(1) by (auto simp: graph_rel_def)
  show "nodes' = filter (\<lambda>n. nd_id n \<in> connected_to (graph_rel nodes edges) seed) nodes"
    unfolding n kept by (rule refl)
  have "i \<in> set es \<longleftrightarrow> (\<exists>f \<in> set (valid_edges nodes edges). ed_id f = i \<and>
      traversed (graph_rel nodes edges) seed (ed_source f) (ed_target f))" for i
    unfolding C(2) by (auto simp: edge_triples_def graph_rel_def)
  with e show "edges' = filter (\<lambda>e. \<exists>f \<in> set (valid_edges nodes edges). ed_id f = ed_id e \<and>
      traversed (graph_rel nodes edges) seed (ed_source f) (ed_target f)) edges" by simp
qed

lemma path_kept:
  assumes step: "\<And>x y. (seed, x) \<in> r\<^sup>* \<Longrightarrow> (x, y) \<in> r \<Longrightarrow> (x, y) \<in> r'"
    and path: "(seed, v) \<in> r\<^sup>*"
  shows "(seed, v) \<in> r'\<^sup>*"
  using path by (induction rule: rtrancl_induct) (auto intro: step rtrancl_into_rtrancl)

lemma rel_in_connected:
  "(s, t) \<in> r \<Longrightarrow> traversed r seed s t \<Longrightarrow> s \<in> connected_to r seed \<and> t \<in> connected_to r seed"
proof -
  assume st: "(s, t) \<in> r" and "traversed r seed s t"
  then consider "(seed, s) \<in> r\<^sup>*" | "(seed, t) \<in> (r\<inverse>)\<^sup>*" by (auto simp: traversed_def)
  then show ?thesis
  proof cases
    case 1
    then have "(seed, t) \<in> r\<^sup>*" using st by (rule rtrancl_into_rtrancl)
    with 1 show ?thesis by (simp add: connected_to_def)
  next
    case 2
    with st have "(seed, s) \<in> (r\<inverse>)\<^sup>*" by (auto intro: rtrancl_into_rtrancl)
    with 2 show ?thesis by (simp add: connected_to_def)
  qed
qed

lemma filter_keeps_edge:
  assumes seed: "seed \<in> set (node_ids nodes)"
    and f: "filterByDirectionalReachability nodes edges seed = (nodes', edges')"
    and st: "(s, t) \<in> graph_rel nodes edges" and tr: "traversed (graph_rel nodes edges) seed s t"
  shows "(s, t) \<in> graph_rel nodes' edges'"
proof -
  note F = filter_exact [OF seed f]
  obtain e where e: "e \<in> set (valid_edges nodes edges)" "ed_source e = s" "ed_target e = t"
    using st by (auto simp: graph_rel_def edge_rel_def)
  then have "e \<in> set edges'" using tr by (auto simp: F(2) valid_edges_def)
  moreover have "s \<in> set (node_ids nodes')" "t \<in> set (node_ids nodes')"
    using rel_in_connected [OF st tr] st by (auto simp: F(1) graph_rel_iff node_ids_def)
  ultimately show ?thesis using e st by (auto simp: graph_rel_iff)
qed

lemma filter_connected:
  assumes seed: "seed \<in> set (node_ids nodes)"
    and f: "filterByDirectionalReachability nodes edges seed = (nodes', edges')"
  shows "set (node_ids nodes') \<subseteq> connected_to (graph_rel nodes' edges') seed"
proof
  let ?r = "graph_rel nodes edges" and ?r' = "graph_rel nodes' edges'"
  fix v assume "v \<in> set (node_ids nodes')"
  then have "v \<in> connected_to ?r seed"
    using filter_exact(1) [OF seed f] by (auto simp: node_ids_def)
  then consider "(seed, v) \<in> ?r\<^sup>*" | "(seed, v) \<in> (?r\<inverse>)\<^sup>*" by (auto simp: connected_to_def)
  then show "v \<in> connected_to ?r' seed"
  proof cases
    case 1
    have "(seed, v) \<in> ?r'\<^sup>*"
      by (rule path_kept [OF _ 1]) (auto intro!: filter_keeps_edge [OF seed f] simp: traversed_def)
    then show ?thesis by (simp add: connected_to_def)
  next
    case 2
    have "(seed, v) \<in> (?r'\<inverse>)\<^sup>*"
      by (rule path_kept [OF _ 2]) (auto intro!: filter_keeps_edge [OF seed f] simp: traversed_def)
    then show ?thesis by (simp add: connected_to_def)
  qed
qed

section \<open>Redundant edges\<close>

definition has_edge :: "map_edge list \<Rightarrow> string \<Rightarrow> string \<Rightarrow> string \<Rightarrow> bool" where
  "has_edge edges ty s t \<longleftrightarrow> list_ex (\<lambda>e. ed_type e = ty \<and> ed_source e = s \<and> ed_target e = t) edges"

text \<open>An edge says nothing new when it is the selector edge of a Service to a node that one of the
  Service's EndpointSlices leads to, or the owner edge of a Service to an EndpointSlice that has
  an endpoint edge beside it.\<close>

definition redundant_edge :: "map_node list \<Rightarrow> map_edge list \<Rightarrow> map_edge \<Rightarrow> bool" where
  "redundant_edge nodes edges e \<longleftrightarrow>
     (let kind = kindOf (nodeIndex nodes) in
      kind (ed_source e) = Some ''Service'' \<and>
      (ed_type e = ''selector'' \<and>
         list_ex (\<lambda>f. ed_type f = ''endpoint'' \<and> ed_source f = ed_source e
            \<and> kind (ed_target f) = Some ''EndpointSlice''
            \<and> has_edge edges ''endpoint'' (ed_target f) (ed_target e)) edges
       \<or> ed_type e = ''owner'' \<and> kind (ed_target e) = Some ''EndpointSlice''
         \<and> has_edge edges ''endpoint'' (ed_source e) (ed_target e)))"

lemma neighbours_addToGroup [simp]:
  "set (neighboursOf (addToGroup k v m) u) = (if u = k then insert v else id) (set (neighboursOf m u))"
  by (auto simp: addToGroup_def neighboursOf_def split: option.split)

lemma endpoint_maps:
  assumes "fold (collectEndpoint idx) edges (a, b) = (slices, targets)"
  shows "set (neighboursOf slices s) = set (neighboursOf a s) \<union>
      {t. kindOf idx s = Some ''Service'' \<and> kindOf idx t = Some ''EndpointSlice'' \<and> has_edge edges ''endpoint'' s t}"
    and "set (neighboursOf targets s) = set (neighboursOf b s) \<union>
      {t. kindOf idx s = Some ''EndpointSlice'' \<and> has_edge edges ''endpoint'' s t}"
  using assms
  by (induction edges arbitrary: a b)
    (auto simp: collectEndpoint_def has_edge_def split: if_splits)

lemma flatten_sets:
  "set (fold (\<lambda>x acc. fold jset_add (f x) acc) xs acc) = set acc \<union> (\<Union>x \<in> set xs. set (f x))"
  by (induction xs arbitrary: acc) (auto simp: set_fold_jset_add)

lemma neighbours_map:
  "neighboursOf (List.map (\<lambda>(k, v). (k, f v)) m) u =
     (case jm_get m u of None \<Rightarrow> [] | Some v \<Rightarrow> f v)"
  by (induction m) (auto simp: neighboursOf_def)

lemma dedupe_eq:
  "dedupeServiceEdges nodes edges = filter (\<lambda>e. \<not> redundant_edge nodes edges e) edges"
proof -
  let ?idx = "nodeIndex nodes"
  obtain slices targets where f: "fold (collectEndpoint ?idx) edges ([], []) = (slices, targets)"
    by fastforce
  note M = endpoint_maps [OF f, simplified]
  let ?chain = "List.map (\<lambda>(service, sl). (service,
      fold (\<lambda>slice reachable. fold jset_add (neighboursOf targets slice) reachable) sl [])) slices"
  have chain: "set (neighboursOf ?chain s) = (\<Union>x \<in> set (neighboursOf slices s). set (neighboursOf targets x))" for s
    unfolding neighbours_map by (cases "jm_get slices s") (auto simp: neighboursOf_def flatten_sets)
  show ?thesis
    unfolding dedupeServiceEdges_def f Let_def case_prod_conv
    by (rule filter_cong [OF refl])
      (auto simp: chain M redundant_edge_def Let_def has_edge_def list_ex_iff)
qed

lemma endpoint_kept:
  "has_edge edges ''endpoint'' s t \<Longrightarrow> has_edge (dedupeServiceEdges nodes edges) ''endpoint'' s t"
  by (auto simp: has_edge_def dedupe_eq list_ex_iff redundant_edge_def Let_def)

lemma has_edge_rel: "has_edge edges ty s t \<Longrightarrow> (s, t) \<in> edge_rel edges"
  by (auto simp: has_edge_def edge_rel_def list_ex_iff)

lemma dedupe_reach: "(edge_rel (dedupeServiceEdges nodes edges))\<^sup>* = (edge_rel edges)\<^sup>*"
proof
  let ?d = "edge_rel (dedupeServiceEdges nodes edges)"
  show "?d\<^sup>* \<subseteq> (edge_rel edges)\<^sup>*"
    by (rule rtrancl_mono) (auto simp: edge_rel_def dedupe_eq)
  have "edge_rel edges \<subseteq> ?d\<^sup>*"
  proof
    fix x assume "x \<in> edge_rel edges"
    then obtain e where e: "e \<in> set edges" "x = (ed_source e, ed_target e)" by (auto simp: edge_rel_def)
    show "x \<in> ?d\<^sup>*"
    proof (cases "redundant_edge nodes edges e")
      case False
      with e have "x \<in> ?d" by (auto simp: edge_rel_def dedupe_eq)
      then show ?thesis by (metis r_into_rtrancl surj_pair)
    next
      case True
      then consider f where "f \<in> set edges" "ed_type f = ''endpoint''" "ed_source f = ed_source e"
          "has_edge edges ''endpoint'' (ed_target f) (ed_target e)"
        | "has_edge edges ''endpoint'' (ed_source e) (ed_target e)"
        by (auto simp: redundant_edge_def Let_def list_ex_iff)
      then show ?thesis
      proof cases
        case 1
        then have "has_edge edges ''endpoint'' (ed_source e) (ed_target f)"
          by (auto simp: has_edge_def list_ex_iff)
        then have "(ed_source e, ed_target f) \<in> ?d" "(ed_target f, ed_target e) \<in> ?d"
          using 1(4) endpoint_kept has_edge_rel by blast+
        with e(2) show ?thesis by (meson converse_rtrancl_into_rtrancl r_into_rtrancl)
      next
        case 2
        with e(2) show ?thesis using endpoint_kept has_edge_rel by blast
      qed
    qed
  qed
  then show "(edge_rel edges)\<^sup>* \<subseteq> ?d\<^sup>*" by (rule rtrancl_subset_rtrancl)
qed

end
