(* ===== verification/ObjectMapCollapse.thy ===== *)
theory ObjectMapCollapse
  imports ObjectMapGraph "HOL-Library.List_Lexorder" "HOL-Library.Char_ord"
begin

text \<open>
  The collapsing of inactive ReplicaSets (\<open>modules/object-map/objectMapCollapse.ts\<close>): of the
  ReplicaSets of a Deployment those without Pods are hidden, with what they own, unless the
  group is expanded; the current one and those above the seed stay.

  A string comparison is the lexicographic order of the code units.
\<close>

section \<open>The ReplicaSets of a Deployment\<close>

record deployment_group =
  dg_deploymentId :: string
  dg_currentRsId :: string
  dg_rsIds :: "string list"
  dg_collapsibleRsIds :: "string list"

record collapse_info =
  ci_visibleNodeIds :: "string list"
  ci_groupsByCurrentRs :: "(string, deployment_group) jmap"

type_synonym owner_map = "(string, string) jmap"
type_synonym children_map = "(string, string list) jmap"

definition buildOwnerMaps :: "map_edge list \<Rightarrow> owner_map \<times> children_map" where
  "buildOwnerMaps edges =
     fold (\<lambda>e (ownerOf, childrenOf).
         if ed_type e \<noteq> ''owner'' then (ownerOf, childrenOf)
         else (jm_set (ed_target e) (ed_source e) ownerOf,
               addToGroup (ed_source e) (ed_target e) childrenOf))
       edges ([], [])"

definition unseen_ids :: "owner_map \<Rightarrow> string option \<Rightarrow> string list \<Rightarrow> string set" where
  "unseen_ids ownerOf current visited = (set_option current \<union> snd ` set ownerOf) - set visited"

lemma unseen_decreases:
  "current \<notin> set visited \<Longrightarrow>
   card (unseen_ids ownerOf (jm_get ownerOf current) (visited @ [current]))
     < card (unseen_ids ownerOf (Some current) visited)"
  by (rule psubset_card_mono) (auto simp: unseen_ids_def dest!: jm_get_in intro: rev_image_eqI)

text \<open>The walk along the owners stops at an id that is missing, empty or seen before.\<close>

function ancestorWalk :: "owner_map \<Rightarrow> (string \<Rightarrow> bool) \<Rightarrow> string option \<Rightarrow> string list \<Rightarrow> string list \<Rightarrow> string list" where
  "ancestorWalk ownerOf isReplicaSet None visited lineage = lineage"
| "ancestorWalk ownerOf isReplicaSet (Some current) visited lineage =
     (if current = '''' \<or> current \<in> set visited then lineage
      else ancestorWalk ownerOf isReplicaSet (jm_get ownerOf current) (visited @ [current])
        (if isReplicaSet current then jset_add current lineage else lineage))"
  by pat_completeness auto

termination
  by (relation "measure (\<lambda>(ownerOf, _, current, visited, _). card (unseen_ids ownerOf current visited))")
    (simp_all add: unseen_decreases)

definition findSeedAncestorReplicaSets :: "string \<Rightarrow> owner_map \<Rightarrow> (string \<Rightarrow> bool) \<Rightarrow> string list" where
  "findSeedAncestorReplicaSets seedId ownerOf isReplicaSet =
     ancestorWalk ownerOf isReplicaSet (Some seedId) [] []"

definition podChildCount :: "children_map \<Rightarrow> (string, map_node) jmap \<Rightarrow> string \<Rightarrow> int" where
  "podChildCount childrenOf nodesById rsId =
     int (length (filter (\<lambda>c. kindOf nodesById c = Some ''Pod'') (neighboursOf childrenOf rsId)))"

definition nameOf :: "(string, map_node) jmap \<Rightarrow> string \<Rightarrow> string" where
  "nameOf nodesById i = (case jm_get nodesById i of None \<Rightarrow> '''' | Some n \<Rightarrow> ref_name (nd_ref n))"

definition chooseCurrentRs :: "children_map \<Rightarrow> (string, map_node) jmap \<Rightarrow> string list \<Rightarrow> string option" where
  "chooseCurrentRs childrenOf nodesById rsIds =
     fst (fold (\<lambda>rsId (bestId, bestCount, bestName).
         if bestCount < podChildCount childrenOf nodesById rsId
            \<or> podChildCount childrenOf nodesById rsId = bestCount \<and> bestName < nameOf nodesById rsId
         then (Some rsId, podChildCount childrenOf nodesById rsId, nameOf nodesById rsId)
         else (bestId, bestCount, bestName))
       rsIds (None, -1, ''''))"

section \<open>What is hidden\<close>

definition replicaSetIds :: "map_node list \<Rightarrow> string list" where
  "replicaSetIds nodes = js_unique (node_ids (filter (\<lambda>n. ref_kind (nd_ref n) = ''ReplicaSet'') nodes))"

definition groupByDeployment ::
  "owner_map \<Rightarrow> (string, map_node) jmap \<Rightarrow> string list \<Rightarrow> (string, string list) jmap" where
  "groupByDeployment ownerOf nodesById rsIds =
     fold (\<lambda>rsId groups.
         case jm_get ownerOf rsId of
           None \<Rightarrow> groups
         | Some owner \<Rightarrow>
             if owner = '''' \<or> kindOf nodesById owner \<noteq> Some ''Deployment'' then groups
             else jm_set owner (neighboursOf groups owner @ [rsId]) groups)
       rsIds []"

definition collapsible ::
  "children_map \<Rightarrow> (string, map_node) jmap \<Rightarrow> string list \<Rightarrow> string \<Rightarrow> string list \<Rightarrow> string list" where
  "collapsible childrenOf nodesById seedLineage currentRsId rsIds =
     filter (\<lambda>rsId. rsId \<noteq> currentRsId \<and> rsId \<notin> set seedLineage
         \<and> \<not> 0 < podChildCount childrenOf nodesById rsId) rsIds"

definition collapseGroup ::
  "children_map \<Rightarrow> (string, map_node) jmap \<Rightarrow> string list \<Rightarrow> string list \<Rightarrow> string \<times> string list
   \<Rightarrow> string list \<times> (string, deployment_group) jmap \<Rightarrow> string list \<times> (string, deployment_group) jmap"
where
  "collapseGroup childrenOf nodesById seedLineage expanded entry st =
     (let (deploymentId, rsIds) = entry; (hidden, groups) = st in
      case chooseCurrentRs childrenOf nodesById rsIds of
        None \<Rightarrow> st
      | Some currentRsId \<Rightarrow>
          if currentRsId = '''' then st
          else
            let ids = collapsible childrenOf nodesById seedLineage currentRsId rsIds in
            if ids = [] then st
            else (if deploymentId \<in> set expanded then hidden else fold jset_add ids hidden,
                  jm_set currentRsId
                    \<lparr>dg_deploymentId = deploymentId, dg_currentRsId = currentRsId, dg_rsIds = rsIds,
                     dg_collapsibleRsIds = ids\<rparr> groups))"

text \<open>The owner-chain descendants of one hidden ReplicaSet\<close>

fun hideChildren :: "string \<Rightarrow> string list \<Rightarrow> string list \<times> string list \<Rightarrow> string list \<times> string list" where
  "hideChildren seedId [] st = st"
| "hideChildren seedId (c # cs) (hidden, queue) =
     (if c = seedId \<or> c \<in> set hidden then hideChildren seedId cs (hidden, queue)
      else hideChildren seedId cs (hidden @ [c], queue @ [c]))"

lemma hide_props:
  assumes "hideChildren seed cs (hidden, q) = (hidden', q')"
  shows "\<exists>new. hidden' = hidden @ new \<and> q' = q @ new \<and> set new = set cs - {seed} - set hidden \<and> distinct new"
  using assms
proof (induction seed cs "(hidden, q)" arbitrary: hidden q rule: hideChildren.induct)
  case (2 seed c cs hidden q)
  show ?case
  proof (cases "c = seed \<or> c \<in> set hidden")
    case True
    with 2 show ?thesis by auto
  next
    case False
    from 2(2) [OF False] 2(3) False obtain new where
      "hidden' = (hidden @ [c]) @ new" "q' = (q @ [c]) @ new" "distinct new"
      "set new = set cs - {seed} - set (hidden @ [c])" by auto
    with False show ?thesis by (intro exI [of _ "c # new"]) auto
  qed
qed simp

definition all_children :: "children_map \<Rightarrow> string set" where
  "all_children childrenOf = (\<Union>e \<in> set childrenOf. set (snd e))"

lemma child_in_all: "c \<in> set (neighboursOf childrenOf u) \<Longrightarrow> c \<in> all_children childrenOf"
proof -
  assume c: "c \<in> set (neighboursOf childrenOf u)"
  then obtain cs where "jm_get childrenOf u = Some cs" "c \<in> set cs"
    by (cases "jm_get childrenOf u") (auto simp: neighboursOf_def)
  then have "(u, cs) \<in> set childrenOf" by (auto dest: jm_get_in)
  with \<open>c \<in> set cs\<close> show ?thesis unfolding all_children_def by force
qed

function hideDescendants :: "string \<Rightarrow> children_map \<Rightarrow> string list \<Rightarrow> string list \<Rightarrow> string list" where
  "hideDescendants seedId childrenOf hidden [] = hidden"
| "hideDescendants seedId childrenOf hidden (u # queue) =
     (let (hidden', queue') = hideChildren seedId (neighboursOf childrenOf u) (hidden, queue)
      in hideDescendants seedId childrenOf hidden' queue')"
  by pat_completeness auto

termination
proof (relation "measure (\<lambda>(_, childrenOf, hidden, queue). length queue + card (all_children childrenOf - set hidden))",
    goal_cases)
  case (2 seed childrenOf hidden u queue x hidden' queue')
  then have "hideChildren seed (neighboursOf childrenOf u) (hidden, queue) = (hidden', queue')" by simp
  from hide_props [OF this] obtain new where n: "hidden' = hidden @ new" "queue' = queue @ new"
    "set new = set (neighboursOf childrenOf u) - {seed} - set hidden" "distinct new" by blast
  have "set new \<subseteq> all_children childrenOf - set hidden"
    using n(3) by (auto dest: child_in_all)
  moreover have "finite (all_children childrenOf)" by (simp add: all_children_def)
  ultimately have "card (all_children childrenOf - set hidden) =
      card (set new) + card (all_children childrenOf - set hidden - set new)"
    by (simp add: card_Diff_subset card_mono)
  moreover have "all_children childrenOf - set hidden - set new = all_children childrenOf - set hidden'"
    by (auto simp: n(1))
  ultimately show ?case using n distinct_card [OF n(4)] by simp
qed simp

definition computeCollapseInfo ::
  "map_node list \<Rightarrow> map_edge list \<Rightarrow> string \<Rightarrow> string list \<Rightarrow> collapse_info" where
  "computeCollapseInfo nodes edges seedId expanded =
     (let nodesById = nodeIndex nodes;
          rsIds = replicaSetIds nodes;
          (ownerOf, childrenOf) = buildOwnerMaps edges;
          rsByDeployment = groupByDeployment ownerOf nodesById rsIds;
          seedLineage = findSeedAncestorReplicaSets seedId ownerOf (\<lambda>i. i \<in> set rsIds);
          (hiddenRsIds, groups) =
            fold (collapseGroup childrenOf nodesById seedLineage expanded) rsByDeployment ([], []);
          hiddenDescendants = fold (\<lambda>rsId hidden. hideDescendants seedId childrenOf hidden [rsId]) hiddenRsIds []
      in \<lparr>ci_visibleNodeIds =
            js_unique (filter (\<lambda>i. i \<notin> set hiddenRsIds \<and> i \<notin> set hiddenDescendants) (node_ids nodes)),
          ci_groupsByCurrentRs = groups\<rparr>)"

definition filterByCollapseInfo ::
  "map_node list \<Rightarrow> map_edge list \<Rightarrow> string list \<Rightarrow> map_node list \<times> map_edge list" where
  "filterByCollapseInfo nodes edges visible =
     (filter (\<lambda>n. nd_id n \<in> set visible) nodes,
      filter (\<lambda>e. ed_source e \<in> set visible \<and> ed_target e \<in> set visible) edges)"

section \<open>What the owner maps hold\<close>

definition owner_rel :: "map_edge list \<Rightarrow> (string \<times> string) set" where
  "owner_rel edges = {(s, t). has_edge edges ''owner'' s t}"

definition last_owner :: "map_edge list \<Rightarrow> string \<Rightarrow> string option" where
  "last_owner edges t =
     (case filter (\<lambda>e. ed_type e = ''owner'' \<and> ed_target e = t) (rev edges) of
        [] \<Rightarrow> None | e # _ \<Rightarrow> Some (ed_source e))"

lemma owner_maps:
  "buildOwnerMaps edges = (ownerOf, childrenOf) \<Longrightarrow>
   jm_get ownerOf t = last_owner edges t \<and> set (neighboursOf childrenOf s) = {t. (s, t) \<in> owner_rel edges}"
proof (induction edges arbitrary: ownerOf childrenOf rule: rev_induct)
  case Nil
  then show ?case by (simp add: buildOwnerMaps_def last_owner_def owner_rel_def has_edge_def)
next
  case (snoc e edges)
  obtain o' c' where b: "buildOwnerMaps edges = (o', c')" by fastforce
  from snoc.prems b have "(ownerOf, childrenOf) = (if ed_type e \<noteq> ''owner'' then (o', c')
      else (jm_set (ed_target e) (ed_source e) o', addToGroup (ed_source e) (ed_target e) c'))"
    by (simp add: buildOwnerMaps_def)
  moreover have "has_edge (edges @ [e]) ''owner'' s t \<longleftrightarrow> has_edge edges ''owner'' s t
      \<or> ed_type e = ''owner'' \<and> ed_source e = s \<and> ed_target e = t" for s t
    by (simp add: has_edge_def)
  ultimately show ?case
    using snoc.IH [OF b]
    by (auto simp: last_owner_def owner_rel_def split: if_splits)
qed

lemma lineage_from_seed:
  "set lineage \<subseteq> set (ancestorWalk ownerOf P current visited lineage)"
  by (induction ownerOf P current visited lineage rule: ancestorWalk.induct) auto

lemma seed_in_lineage:
  "P seed \<Longrightarrow> seed \<noteq> '''' \<Longrightarrow> seed \<in> set (findSeedAncestorReplicaSets seed ownerOf P)"
  using lineage_from_seed [of "[seed]" ownerOf P "jm_get ownerOf seed" "[seed]"]
  by (simp add: findSeedAncestorReplicaSets_def jset_add_def)

text \<open>The current ReplicaSet is one of the group and has the most Pods.\<close>

lemma choose_current_aux:
  assumes "fold (\<lambda>rsId (bestId, bestCount, bestName).
         if bestCount < f rsId \<or> f rsId = bestCount \<and> bestName < (g rsId :: string)
         then (Some rsId, f rsId, g rsId) else (bestId, bestCount, bestName))
       rsIds (b, k, n) = (b', k', n')"
  shows "(k :: int) \<le> k' \<and> (\<forall>i \<in> set rsIds. f i \<le> k') \<and>
    (b' = b \<and> k' = k \<or> (\<exists>i \<in> set rsIds. b' = Some i \<and> k' = f i))"
  using assms
proof (induction rsIds arbitrary: b k n)
  case (Cons i rsIds)
  let ?F = "\<lambda>rsId (bestId, bestCount, bestName).
         if bestCount < f rsId \<or> f rsId = bestCount \<and> bestName < (g rsId :: string)
         then (Some rsId, f rsId, g rsId) else (bestId, bestCount, bestName)"
  show ?case
  proof (cases "k < f i \<or> f i = k \<and> n < g i")
    case True
    with Cons.prems have "fold ?F rsIds (Some i, f i, g i) = (b', k', n')" by simp
    from Cons.IH [OF this] True show ?thesis by auto
  next
    case False
    with Cons.prems have "fold ?F rsIds (b, k, n) = (b', k', n')" by auto
    from Cons.IH [OF this] False show ?thesis by auto
  qed
qed simp

lemma choose_current:
  assumes "rsIds \<noteq> []"
  shows "\<exists>c \<in> set rsIds. chooseCurrentRs childrenOf nodesById rsIds = Some c \<and>
    (\<forall>i \<in> set rsIds. podChildCount childrenOf nodesById i \<le> podChildCount childrenOf nodesById c)"
proof -
  let ?r = "fold (\<lambda>rsId (bestId, bestCount, bestName).
         if bestCount < podChildCount childrenOf nodesById rsId
            \<or> podChildCount childrenOf nodesById rsId = bestCount \<and> bestName < nameOf nodesById rsId
         then (Some rsId, podChildCount childrenOf nodesById rsId, nameOf nodesById rsId)
         else (bestId, bestCount, bestName)) rsIds (None, -1, '''')"
  obtain b k n where f: "?r = (b, k, n)" by (cases ?r)
  note aux = choose_current_aux [OF f, THEN conjunct2]
  note p = aux [THEN conjunct1] aux [THEN conjunct2]
  obtain i where "i \<in> set rsIds" using assms by (cases rsIds) auto
  moreover have "0 \<le> podChildCount childrenOf nodesById i" by (simp add: podChildCount_def)
  ultimately have "k \<noteq> -1" using p(1) by fastforce
  with p(2) obtain c where c: "c \<in> set rsIds" "b = Some c" "k = podChildCount childrenOf nodesById c" by blast
  have "chooseCurrentRs childrenOf nodesById rsIds = b" unfolding chooseCurrentRs_def f by simp
  with p(1) c show ?thesis by blast
qed

section \<open>Exactly which nodes are hidden\<close>

lemma descendants_step:
  assumes "hideDescendants seed childrenOf hidden queue = V"
    and "\<forall>u \<in> set hidden - set queue. set (neighboursOf childrenOf u) - {seed} \<subseteq> set hidden"
  shows "set hidden \<subseteq> set V \<and>
    (\<forall>u \<in> set V \<union> set queue. set (neighboursOf childrenOf u) - {seed} \<subseteq> set V) \<and>
    (\<forall>P. (\<forall>c \<in> set hidden. P c) \<longrightarrow>
      (\<forall>u c. u \<in> set queue \<or> P u \<longrightarrow> c \<in> set (neighboursOf childrenOf u) \<longrightarrow> c \<noteq> seed \<longrightarrow> P c) \<longrightarrow>
      (\<forall>c \<in> set V. P c))"
  using assms
proof (induction seed childrenOf hidden queue rule: hideDescendants.induct)
  case (1 seed childrenOf hidden)
  then show ?case by auto
next
  case (2 seed childrenOf hidden u queue)
  obtain h q where h: "hideChildren seed (neighboursOf childrenOf u) (hidden, queue) = (h, q)" by fastforce
  from hide_props [OF h] obtain new where n: "h = hidden @ new" "q = queue @ new"
    "set new = set (neighboursOf childrenOf u) - {seed} - set hidden" by blast
  have V: "hideDescendants seed childrenOf h q = V" using 2(2) h by simp
  have closed: "\<forall>x \<in> set h - set q. set (neighboursOf childrenOf x) - {seed} \<subseteq> set h"
  proof
    fix x assume x: "x \<in> set h - set q"
    show "set (neighboursOf childrenOf x) - {seed} \<subseteq> set h"
    proof (cases "x = u")
      case True
      with n show ?thesis by auto
    next
      case False
      with x n 2(3) have "set (neighboursOf childrenOf x) - {seed} \<subseteq> set hidden" by auto
      with n show ?thesis by auto
    qed
  qed
  note ih = 2(1) [OF h [symmetric] refl V closed]
  have IH: "set h \<subseteq> set V" "\<forall>x \<in> set V \<union> set q. set (neighboursOf childrenOf x) - {seed} \<subseteq> set V"
    "\<And>P. (\<forall>c \<in> set h. P c) \<Longrightarrow>
      (\<forall>x c. x \<in> set q \<or> P x \<longrightarrow> c \<in> set (neighboursOf childrenOf x) \<longrightarrow> c \<noteq> seed \<longrightarrow> P c) \<Longrightarrow>
      (\<forall>c \<in> set V. P c)"
    by (rule ih [THEN conjunct1], rule ih [THEN conjunct2, THEN conjunct1],
      rule ih [THEN conjunct2, THEN conjunct2, THEN spec, THEN mp, THEN mp])
  have "set (neighboursOf childrenOf u) - {seed} \<subseteq> set h" using n by auto
  with IH(1) have u: "set (neighboursOf childrenOf u) - {seed} \<subseteq> set V" by blast
  have "set hidden \<subseteq> set V" using IH(1) n by auto
  moreover have "\<forall>x \<in> set V \<union> set (u # queue). set (neighboursOf childrenOf x) - {seed} \<subseteq> set V"
    using IH(2) u n by auto
  moreover have "\<forall>c \<in> set V. P c" if P: "\<forall>c \<in> set hidden. P c"
    "\<forall>x c. x \<in> set (u # queue) \<or> P x \<longrightarrow> c \<in> set (neighboursOf childrenOf x) \<longrightarrow> c \<noteq> seed \<longrightarrow> P c" for P
  proof (rule IH(3))
    show h': "\<forall>c \<in> set h. P c" using P n by auto
    show "\<forall>x c. x \<in> set q \<or> P x \<longrightarrow> c \<in> set (neighboursOf childrenOf x) \<longrightarrow> c \<noteq> seed \<longrightarrow> P c"
      using P h' n by auto
  qed
  ultimately show ?case by blast
qed

text \<open>The owner steps down that do not enter the seed, and the steps up along the recorded owners\<close>

definition down_rel :: "map_edge list \<Rightarrow> string \<Rightarrow> (string \<times> string) set" where
  "down_rel edges seed = {(u, c) \<in> owner_rel edges. c \<noteq> seed}"

definition up_rel :: "map_edge list \<Rightarrow> (string \<times> string) set" where
  "up_rel edges = {(x, y). last_owner edges x = Some y \<and> y \<noteq> ''''}"

lemma all_descendants:
  assumes ch: "\<And>u. set (neighboursOf childrenOf u) = {c. (u, c) \<in> owner_rel edges}"
    and "\<forall>u \<in> set hidden. down_rel edges seed `` {u} \<subseteq> set hidden"
  shows "set (fold (\<lambda>rsId hidden. hideDescendants seed childrenOf hidden [rsId]) rsIds hidden) =
    set hidden \<union> (down_rel edges seed)\<^sup>+ `` set rsIds"
  using assms(2)
proof (induction rsIds arbitrary: hidden)
  case (Cons r rsIds)
  let ?D = "down_rel edges seed"
  let ?V = "hideDescendants seed childrenOf hidden [r]"
  have nb: "set (neighboursOf childrenOf u) - {seed} = ?D `` {u}" for u
    by (auto simp: ch down_rel_def)
  have "\<forall>u \<in> set hidden - set [r]. set (neighboursOf childrenOf u) - {seed} \<subseteq> set hidden"
    using Cons.prems nb by auto
  note step = descendants_step [OF refl this]
  have sub: "set hidden \<subseteq> set ?V" by (rule step [THEN conjunct1])
  have closed: "?D `` {u} \<subseteq> set ?V" if "u \<in> set ?V \<or> u = r" for u
    using bspec [OF step [THEN conjunct2, THEN conjunct1], of u] that nb [of u] by auto
  have least: "c \<in> set ?V \<Longrightarrow> c \<in> set hidden \<union> ?D\<^sup>+ `` {r}" for c
  proof -
    have "\<forall>c \<in> set ?V. c \<in> set hidden \<union> ?D\<^sup>+ `` {r}"
    proof (rule step [THEN conjunct2, THEN conjunct2, THEN spec, THEN mp, THEN mp])
      show "\<forall>u c. u \<in> set [r] \<or> u \<in> set hidden \<union> ?D\<^sup>+ `` {r} \<longrightarrow> c \<in> set (neighboursOf childrenOf u) \<longrightarrow>
          c \<noteq> seed \<longrightarrow> c \<in> set hidden \<union> ?D\<^sup>+ `` {r}"
      proof (intro allI impI)
        fix u c assume u: "u \<in> set [r] \<or> u \<in> set hidden \<union> ?D\<^sup>+ `` {r}"
          and c: "c \<in> set (neighboursOf childrenOf u)" "c \<noteq> seed"
        then have uc: "(u, c) \<in> ?D" by (simp add: ch down_rel_def)
        from u consider "u = r" | "u \<in> set hidden" | "(r, u) \<in> ?D\<^sup>+" by auto
        then show "c \<in> set hidden \<union> ?D\<^sup>+ `` {r}"
        proof cases
          case 1
          with uc show ?thesis by auto
        next
          case 2
          with uc Cons.prems show ?thesis by auto
        next
          case 3
          from this uc have "(r, c) \<in> ?D\<^sup>+" by (rule trancl_into_trancl)
          then show ?thesis by simp
        qed
      qed
    qed simp
    then show "c \<in> set ?V \<Longrightarrow> c \<in> set hidden \<union> ?D\<^sup>+ `` {r}" by blast
  qed
  have reach: "c \<in> set ?V" if "(r, c) \<in> ?D\<^sup>+" for c
    using that
  proof (induction rule: trancl_induct)
    case (base y)
    with closed [of r] show ?case by blast
  next
    case (step y z)
    with closed [of y] show ?case by blast
  qed
  have V: "set ?V = set hidden \<union> ?D\<^sup>+ `` {r}"
    using sub least reach by auto
  have "set (fold (\<lambda>rsId hidden. hideDescendants seed childrenOf hidden [rsId]) rsIds ?V) =
      set ?V \<union> ?D\<^sup>+ `` set rsIds"
    by (rule Cons.IH) (use closed in blast)
  then show ?case unfolding V by auto
qed simp

lemma walk_exact:
  assumes "\<And>x. jm_get ownerOf x = last_owner edges x" and "seed \<noteq> ''''"
    and "set lineage = {x \<in> set visited. P x}" and "\<forall>x \<in> set visited. (seed, x) \<in> (up_rel edges)\<^sup>*"
    and "\<forall>x y. x \<in> set visited \<longrightarrow> (x, y) \<in> up_rel edges \<longrightarrow> y \<in> set visited \<or> current = Some y"
    and "\<forall>c. current = Some c \<longrightarrow> c \<noteq> '''' \<longrightarrow> (seed, c) \<in> (up_rel edges)\<^sup>*"
    and "seed \<in> set visited \<or> current = Some seed"
  shows "set (ancestorWalk ownerOf P current visited lineage) = {x. P x \<and> (seed, x) \<in> (up_rel edges)\<^sup>*}"
  using assms
proof (induction ownerOf P current visited lineage rule: ancestorWalk.induct)
  case (1 ownerOf P visited lineage)
  have "x \<in> set visited" if "(seed, x) \<in> (up_rel edges)\<^sup>*" for x
    using that
  proof (induction rule: rtrancl_induct)
    case base
    with 1(7) show ?case by simp
  next
    case (step y z)
    with 1(5) show ?case by blast
  qed
  with 1(3,4) show ?case by auto
next
  case (2 ownerOf P c visited lineage)
  let ?U = "up_rel edges"
  show ?case
  proof (cases "c = '''' \<or> c \<in> set visited")
    case True
    have "x \<in> set visited" if "(seed, x) \<in> ?U\<^sup>*" for x
      using that
    proof (induction rule: rtrancl_induct)
      case base
      with 2(3,8) True show ?case by auto
    next
      case (step y z)
      with 2(6) have "z \<in> set visited \<or> c = z" by auto
      with True step.hyps(2) show ?case by (auto simp: up_rel_def)
    qed
    with 2(4,5) True show ?thesis by auto
  next
    case False
    then have c: "(seed, c) \<in> ?U\<^sup>*" using 2(7) by auto
    have "set (ancestorWalk ownerOf P (jm_get ownerOf c) (visited @ [c])
        (if P c then jset_add c lineage else lineage)) = {x. P x \<and> (seed, x) \<in> ?U\<^sup>*}"
    proof (rule 2(1) [OF False 2(2) 2(3)])
      show "set (if P c then jset_add c lineage else lineage) = {x \<in> set (visited @ [c]). P x}"
        using 2(4) by auto
      show "\<forall>x \<in> set (visited @ [c]). (seed, x) \<in> ?U\<^sup>*" using 2(5) c by auto
      show "\<forall>x y. x \<in> set (visited @ [c]) \<longrightarrow> (x, y) \<in> ?U \<longrightarrow>
          y \<in> set (visited @ [c]) \<or> jm_get ownerOf c = Some y"
        using 2(2,6) by (auto simp: up_rel_def)
      show "\<forall>x. jm_get ownerOf c = Some x \<longrightarrow> x \<noteq> '''' \<longrightarrow> (seed, x) \<in> ?U\<^sup>*"
        using 2(2) c by (auto simp: up_rel_def intro: rtrancl_into_rtrancl)
      show "seed \<in> set (visited @ [c]) \<or> jm_get ownerOf c = Some seed" using 2(8) by auto
    qed
    with False show ?thesis by simp
  qed
qed

lemma lineage_exact:
  assumes "\<And>x. jm_get ownerOf x = last_owner edges x" and "seed \<noteq> ''''"
  shows "set (findSeedAncestorReplicaSets seed ownerOf P) = {x. P x \<and> (seed, x) \<in> (up_rel edges)\<^sup>*}"
  unfolding findSeedAncestorReplicaSets_def by (rule walk_exact) (use assms in auto)

text \<open>The ReplicaSets that a Deployment owns, and the groups\<close>

definition group_members :: "owner_map \<Rightarrow> (string, map_node) jmap \<Rightarrow> string list \<Rightarrow> string \<Rightarrow> string list" where
  "group_members ownerOf nodesById rsIds d =
     (if d = '''' \<or> kindOf nodesById d \<noteq> Some ''Deployment'' then []
      else filter (\<lambda>r. jm_get ownerOf r = Some d) rsIds)"

lemma groups_get:
  "jm_ok (groupByDeployment ownerOf nodesById rsIds) \<and>
   jm_get (groupByDeployment ownerOf nodesById rsIds) d =
     (if group_members ownerOf nodesById rsIds d = [] then None
      else Some (group_members ownerOf nodesById rsIds d))"
proof (induction rsIds arbitrary: d rule: rev_induct)
  case Nil
  show ?case by (simp add: groupByDeployment_def group_members_def)
next
  case (snoc r rsIds)
  let ?g = "groupByDeployment ownerOf nodesById rsIds"
  have step: "groupByDeployment ownerOf nodesById (rsIds @ [r]) =
      (case jm_get ownerOf r of None \<Rightarrow> ?g
       | Some owner \<Rightarrow> if owner = '''' \<or> kindOf nodesById owner \<noteq> Some ''Deployment'' then ?g
           else jm_set owner (neighboursOf ?g owner @ [r]) ?g)"
    unfolding groupByDeployment_def fold_append by simp
  have nb: "neighboursOf ?g d = group_members ownerOf nodesById rsIds d" for d
    using snoc.IH [of d] by (auto simp: neighboursOf_def)
  show ?case
    unfolding step using snoc.IH
    by (auto simp: nb group_members_def simp del: map_of_eq_Some_iff split: option.splits)
qed

definition hidden_of ::
  "children_map \<Rightarrow> (string, map_node) jmap \<Rightarrow> string list \<Rightarrow> string list \<Rightarrow> string \<times> string list \<Rightarrow> string set"
where
  "hidden_of childrenOf nodesById seedLineage expanded entry =
     (case chooseCurrentRs childrenOf nodesById (snd entry) of
        None \<Rightarrow> {}
      | Some c \<Rightarrow> if c = '''' \<or> fst entry \<in> set expanded then {}
          else set (collapsible childrenOf nodesById seedLineage c (snd entry)))"

lemma collapse_groups:
  "set (fst (fold (collapseGroup childrenOf nodesById seedLineage expanded) entries st)) =
     set (fst st) \<union> (\<Union>entry \<in> set entries. hidden_of childrenOf nodesById seedLineage expanded entry)"
proof (induction entries arbitrary: st)
  case (Cons entry entries)
  have "set (fst (collapseGroup childrenOf nodesById seedLineage expanded entry st)) =
      set (fst st) \<union> hidden_of childrenOf nodesById seedLineage expanded entry"
    by (cases entry; cases st)
      (auto simp: collapseGroup_def hidden_of_def Let_def set_fold_jset_add split: option.splits)
  with Cons.IH show ?case by auto
qed simp

text \<open>The contract of the collapse: a ReplicaSet of a Deployment is idle when it owns no Pod, is not
  the current one and is not above the seed.\<close>

definition rs_of_deployment :: "map_node list \<Rightarrow> map_edge list \<Rightarrow> string \<Rightarrow> string \<Rightarrow> bool" where
  "rs_of_deployment nodes edges r d \<longleftrightarrow>
     r \<in> set (replicaSetIds nodes) \<and> last_owner edges r = Some d \<and> d \<noteq> ''''
     \<and> kindOf (nodeIndex nodes) d = Some ''Deployment''"

definition owned_pods :: "map_node list \<Rightarrow> map_edge list \<Rightarrow> string \<Rightarrow> nat" where
  "owned_pods nodes edges r = card {c. (r, c) \<in> owner_rel edges \<and> kindOf (nodeIndex nodes) c = Some ''Pod''}"

definition current_rs :: "map_node list \<Rightarrow> map_edge list \<Rightarrow> string \<Rightarrow> string" where
  "current_rs nodes edges d =
     (case buildOwnerMaps edges of (ownerOf, childrenOf) \<Rightarrow>
        the (chooseCurrentRs childrenOf (nodeIndex nodes)
          (group_members ownerOf (nodeIndex nodes) (replicaSetIds nodes) d)))"

definition idle_rs :: "map_node list \<Rightarrow> map_edge list \<Rightarrow> string \<Rightarrow> string list \<Rightarrow> string \<Rightarrow> bool" where
  "idle_rs nodes edges seed expanded r \<longleftrightarrow>
     (\<exists>d. rs_of_deployment nodes edges r d \<and> d \<notin> set expanded \<and> r \<noteq> current_rs nodes edges d)
     \<and> owned_pods nodes edges r = 0 \<and> (seed, r) \<notin> (up_rel edges)\<^sup>*"

lemma children_distinct:
  "buildOwnerMaps edges = (ownerOf, childrenOf) \<Longrightarrow> distinct (neighboursOf childrenOf s)"
proof (induction edges arbitrary: ownerOf childrenOf rule: rev_induct)
  case Nil
  then show ?case by (simp add: buildOwnerMaps_def)
next
  case (snoc e edges)
  obtain o' c' where b: "buildOwnerMaps edges = (o', c')" by fastforce
  from snoc.prems b have "childrenOf = c' \<or> childrenOf = addToGroup (ed_source e) (ed_target e) c'"
    by (simp add: buildOwnerMaps_def split: if_splits)
  moreover have "distinct (neighboursOf (addToGroup k v m) s) \<longleftrightarrow>
      (if s = k then distinct (jset_add v (neighboursOf m k)) else distinct (neighboursOf m s))" for k v m
    by (simp add: addToGroup_def neighboursOf_def)
  ultimately show ?case using snoc.IH [OF b] by (metis distinct_jset_add)
qed

lemma pod_count:
  assumes "buildOwnerMaps edges = (ownerOf, childrenOf)"
  shows "podChildCount childrenOf (nodeIndex nodes) r = int (owned_pods nodes edges r)"
proof -
  let ?l = "filter (\<lambda>c. kindOf (nodeIndex nodes) c = Some ''Pod'') (neighboursOf childrenOf r)"
  have "distinct ?l" using children_distinct [OF assms] by simp
  moreover have "set ?l = {c. (r, c) \<in> owner_rel edges \<and> kindOf (nodeIndex nodes) c = Some ''Pod''}"
    using owner_maps [OF assms, of _ r] by auto
  ultimately show ?thesis
    unfolding podChildCount_def owned_pods_def using distinct_card [of ?l] by simp
qed

lemma members_iff:
  assumes "buildOwnerMaps edges = (ownerOf, childrenOf)"
  shows "r \<in> set (group_members ownerOf (nodeIndex nodes) (replicaSetIds nodes) d) \<longleftrightarrow>
    rs_of_deployment nodes edges r d"
  using owner_maps [OF assms, of r] by (auto simp: group_members_def rs_of_deployment_def)

lemma current_props:
  assumes "rs_of_deployment nodes edges r d"
  shows "rs_of_deployment nodes edges (current_rs nodes edges d) d"
    and "owned_pods nodes edges r \<le> owned_pods nodes edges (current_rs nodes edges d)"
proof -
  obtain ownerOf childrenOf where b: "buildOwnerMaps edges = (ownerOf, childrenOf)" by fastforce
  let ?m = "group_members ownerOf (nodeIndex nodes) (replicaSetIds nodes) d"
  from assms have r: "r \<in> set ?m" by (simp add: members_iff [OF b])
  then have "?m \<noteq> []" by auto
  from choose_current [OF this, of childrenOf "nodeIndex nodes"] obtain c where
    "c \<in> set ?m" "chooseCurrentRs childrenOf (nodeIndex nodes) ?m = Some c"
    "\<forall>i \<in> set ?m. podChildCount childrenOf (nodeIndex nodes) i \<le> podChildCount childrenOf (nodeIndex nodes) c"
    by blast
  then show "rs_of_deployment nodes edges (current_rs nodes edges d) d"
    and "owned_pods nodes edges r \<le> owned_pods nodes edges (current_rs nodes edges d)"
    using r by (auto simp: current_rs_def b members_iff [OF b] pod_count [OF b])
qed

text \<open>The badge of a current ReplicaSet, as \<open>collapseGroup\<close> builds it\<close>

definition badge_of ::
  "children_map \<Rightarrow> (string, map_node) jmap \<Rightarrow> string list \<Rightarrow> string \<times> string list \<Rightarrow> (string \<times> deployment_group) option"
where
  "badge_of childrenOf nodesById seedLineage entry =
     (case chooseCurrentRs childrenOf nodesById (snd entry) of
        None \<Rightarrow> None
      | Some c \<Rightarrow>
          let ids = collapsible childrenOf nodesById seedLineage c (snd entry) in
          if c = '''' \<or> ids = [] then None
          else Some (c, \<lparr>dg_deploymentId = fst entry, dg_currentRsId = c, dg_rsIds = snd entry,
            dg_collapsibleRsIds = ids\<rparr>))"

lemma collapse_badges:
  "snd (fold (collapseGroup childrenOf nodesById seedLineage expanded) entries st) =
     fold (\<lambda>entry m. case badge_of childrenOf nodesById seedLineage entry of None \<Rightarrow> m | Some (c, g) \<Rightarrow> jm_set c g m)
       entries (snd st)"
proof (induction entries arbitrary: st)
  case (Cons entry entries)
  have "snd (collapseGroup childrenOf nodesById seedLineage expanded entry st) =
      (case badge_of childrenOf nodesById seedLineage entry of None \<Rightarrow> snd st | Some (c, g) \<Rightarrow> jm_set c g (snd st))"
    by (cases entry; cases st) (auto simp: collapseGroup_def badge_of_def Let_def split: option.splits)
  with Cons.IH show ?case by simp
qed simp

lemma badges_sound:
  "jm_get (fold (\<lambda>entry m. case f entry of None \<Rightarrow> m | Some (c, g) \<Rightarrow> jm_set c g m) entries m) c = Some g \<Longrightarrow>
   jm_get m c = Some g \<or> (\<exists>entry \<in> set entries. f entry = Some (c, g))"
proof (induction entries arbitrary: m)
  case (Cons entry entries)
  from Cons.IH [of "case f entry of None \<Rightarrow> m | Some (c, g) \<Rightarrow> jm_set c g m"] Cons.prems show ?case
    by (cases "f entry") (auto split: if_splits)
qed simp

lemma badges_complete:
  "jm_has m c \<or> (\<exists>entry \<in> set entries. \<exists>g. f entry = Some (c, g)) \<Longrightarrow>
   jm_has (fold (\<lambda>entry m. case f entry of None \<Rightarrow> m | Some (c, g) \<Rightarrow> jm_set c g m) entries m) c"
proof (induction entries arbitrary: m)
  case (Cons entry entries)
  show ?case
    using Cons.IH [of "case f entry of None \<Rightarrow> m | Some (c, g) \<Rightarrow> jm_set c g m"] Cons.prems
    by (cases "f entry") auto
qed simp

text \<open>The ReplicaSets a Deployment can hide behind its badge\<close>

definition spare_rs :: "map_node list \<Rightarrow> map_edge list \<Rightarrow> string \<Rightarrow> string \<Rightarrow> string \<Rightarrow> bool" where
  "spare_rs nodes edges seed d r \<longleftrightarrow> rs_of_deployment nodes edges r d \<and> r \<noteq> current_rs nodes edges d
     \<and> owned_pods nodes edges r = 0 \<and> (seed, r) \<notin> (up_rel edges)\<^sup>*"

lemma badges_exact:
  assumes "computeCollapseInfo nodes edges seed expanded = info"
    and ids: "'''' \<notin> set (node_ids nodes)" and seed: "seed \<noteq> ''''"
  shows "jm_get (ci_groupsByCurrentRs info) c = Some g \<Longrightarrow>
      c = current_rs nodes edges (dg_deploymentId g) \<and> dg_currentRsId g = c
      \<and> rs_of_deployment nodes edges c (dg_deploymentId g)
      \<and> set (dg_rsIds g) = {r. rs_of_deployment nodes edges r (dg_deploymentId g)}
      \<and> set (dg_collapsibleRsIds g) = {r. spare_rs nodes edges seed (dg_deploymentId g) r}
      \<and> dg_collapsibleRsIds g \<noteq> []"
    and "spare_rs nodes edges seed d r \<Longrightarrow>
      \<exists>g. jm_get (ci_groupsByCurrentRs info) (current_rs nodes edges d) = Some g \<and> dg_deploymentId g = d"
proof -
  let ?idx = "nodeIndex nodes"
  obtain ownerOf childrenOf where b: "buildOwnerMaps edges = (ownerOf, childrenOf)" by fastforce
  note O = owner_maps [OF b]
  define line where "line = findSeedAncestorReplicaSets seed ownerOf (\<lambda>i. i \<in> set (replicaSetIds nodes))"
  have line: "set line = {r \<in> set (replicaSetIds nodes). (seed, r) \<in> (up_rel edges)\<^sup>*}"
    unfolding line_def using lineage_exact [of ownerOf edges seed] O seed by auto
  let ?groups = "groupByDeployment ownerOf ?idx (replicaSetIds nodes)"
  let ?m = "group_members ownerOf ?idx (replicaSetIds nodes)"
  have groups: "jm_ok ?groups" "\<And>d. jm_get ?groups d = (if ?m d = [] then None else Some (?m d))"
    using groups_get [of ownerOf ?idx "replicaSetIds nodes"] by blast+
  let ?f = "badge_of childrenOf ?idx line"
  have infos: "ci_groupsByCurrentRs info =
      fold (\<lambda>entry m. case ?f entry of None \<Rightarrow> m | Some (c, g) \<Rightarrow> jm_set c g m) ?groups []"
    using assms(1) collapse_badges [of childrenOf ?idx line expanded ?groups "([], [])"]
    by (auto simp: computeCollapseInfo_def b line_def Let_def split: prod.splits)
  have entry: "(d, rs) \<in> set ?groups \<longleftrightarrow> ?m d \<noteq> [] \<and> rs = ?m d" for d rs
    using map_of_eq_Some_iff [OF groups(1), of d rs] unfolding groups(2) by (simp split: if_splits) blast
  have badge: "({r. spare_rs nodes edges seed d r} = {} \<longrightarrow> ?f (d, ?m d) = None)
      \<and> ({r. spare_rs nodes edges seed d r} \<noteq> {} \<longrightarrow> ?f (d, ?m d) = Some (current_rs nodes edges d, \<lparr>dg_deploymentId = d, dg_currentRsId = current_rs nodes edges d,
        dg_rsIds = ?m d, dg_collapsibleRsIds = collapsible childrenOf ?idx line (current_rs nodes edges d) (?m d)\<rparr>))
      \<and> set (collapsible childrenOf ?idx line (current_rs nodes edges d) (?m d)) = {r. spare_rs nodes edges seed d r}
      \<and> rs_of_deployment nodes edges (current_rs nodes edges d) d"
    if ne: "?m d \<noteq> []" for d
  proof -
    obtain k where k: "k \<in> set (?m d)" "chooseCurrentRs childrenOf ?idx (?m d) = Some k"
      using choose_current [OF ne, of childrenOf ?idx] by blast
    then have cur: "current_rs nodes edges d = k" by (simp add: current_rs_def b)
    have rs: "rs_of_deployment nodes edges k d" using k(1) by (simp add: members_iff [OF b])
    then have "k \<in> set (node_ids nodes)" by (auto simp: rs_of_deployment_def replicaSetIds_def node_ids_def)
    with ids have "k \<noteq> ''''" by blast
    moreover have s: "set (collapsible childrenOf ?idx line k (?m d)) = {r. spare_rs nodes edges seed d r}"
      by (auto simp: collapsible_def spare_rs_def cur members_iff [OF b] pod_count [OF b] line rs_of_deployment_def)
    moreover have "collapsible childrenOf ?idx line k (?m d) = [] \<longleftrightarrow> {r. spare_rs nodes edges seed d r} = {}"
      unfolding s [symmetric] by simp
    ultimately show ?thesis using k(2) rs by (auto simp: badge_of_def cur Let_def)
  qed
  have ms: "set (?m d) = {r. rs_of_deployment nodes edges r d}" for d by (auto simp: members_iff [OF b])
  show "c = current_rs nodes edges (dg_deploymentId g) \<and> dg_currentRsId g = c
      \<and> rs_of_deployment nodes edges c (dg_deploymentId g)
      \<and> set (dg_rsIds g) = {r. rs_of_deployment nodes edges r (dg_deploymentId g)}
      \<and> set (dg_collapsibleRsIds g) = {r. spare_rs nodes edges seed (dg_deploymentId g) r}
      \<and> dg_collapsibleRsIds g \<noteq> []" if "jm_get (ci_groupsByCurrentRs info) c = Some g"
  proof -
    from badges_sound [OF that [unfolded infos]] obtain d where d: "?m d \<noteq> []" "?f (d, ?m d) = Some (c, g)"
      using entry by auto
    note B = badge [OF d(1)]
    have ne: "{r. spare_rs nodes edges seed d r} \<noteq> {}" using B d(2) by auto
    then have f: "?f (d, ?m d) = Some (current_rs nodes edges d, \<lparr>dg_deploymentId = d,
        dg_currentRsId = current_rs nodes edges d, dg_rsIds = ?m d,
        dg_collapsibleRsIds = collapsible childrenOf ?idx line (current_rs nodes edges d) (?m d)\<rparr>)" using B by blast
    have c: "c = current_rs nodes edges d" and g: "g = \<lparr>dg_deploymentId = d,
        dg_currentRsId = current_rs nodes edges d, dg_rsIds = ?m d,
        dg_collapsibleRsIds = collapsible childrenOf ?idx line (current_rs nodes edges d) (?m d)\<rparr>"
      using trans [OF d(2) [symmetric] f] unfolding option.inject prod.inject by blast+
    have "collapsible childrenOf ?idx line (current_rs nodes edges d) (?m d) \<noteq> []" using B ne by auto
    then show ?thesis unfolding c g using B ms by simp
  qed
  show "\<exists>g. jm_get (ci_groupsByCurrentRs info) (current_rs nodes edges d) = Some g \<and> dg_deploymentId g = d"
    if sp: "spare_rs nodes edges seed d r"
  proof -
    have "r \<in> set (?m d)" using sp by (simp add: ms spare_rs_def)
    then have ne: "?m d \<noteq> []" by auto
    note B = badge [OF ne]
    have "?f (d, ?m d) \<noteq> None" and "\<exists>g. ?f (d, ?m d) = Some (current_rs nodes edges d, g)" using B sp by auto
    then have "jm_has (ci_groupsByCurrentRs info) (current_rs nodes edges d)"
      unfolding infos using entry [of d "?m d"] ne by (intro badges_complete) blast
    then obtain g where g: "jm_get (ci_groupsByCurrentRs info) (current_rs nodes edges d) = Some g" by blast
    from badges_sound [OF g [unfolded infos]] obtain d' where d': "?m d' \<noteq> []"
      "?f (d', ?m d') = Some (current_rs nodes edges d, g)" using entry by auto
    note B' = badge [OF d'(1)]
    have "current_rs nodes edges d = current_rs nodes edges d'" "dg_deploymentId g = d'"
      using B' d'(2) by (cases "{r. spare_rs nodes edges seed d' r} = {}"; auto)+
    moreover from this have "d' = d" using B B' by (auto simp: rs_of_deployment_def)
    ultimately show ?thesis using g by blast
  qed
qed

lemma collapse_exact:
  assumes "computeCollapseInfo nodes edges seed expanded = info"
    and ids: "'''' \<notin> set (node_ids nodes)" and seed: "seed \<noteq> ''''"
  shows "set (ci_visibleNodeIds info) = {i \<in> set (node_ids nodes).
    \<not> (\<exists>r. idle_rs nodes edges seed expanded r \<and> (r, i) \<in> (down_rel edges seed)\<^sup>*)}"
proof -
  let ?idx = "nodeIndex nodes" and ?D = "down_rel edges seed"
  obtain ownerOf childrenOf where b: "buildOwnerMaps edges = (ownerOf, childrenOf)" by fastforce
  note O = owner_maps [OF b]
  define line where "line = findSeedAncestorReplicaSets seed ownerOf (\<lambda>i. i \<in> set (replicaSetIds nodes))"
  have line: "set line = {r \<in> set (replicaSetIds nodes). (seed, r) \<in> (up_rel edges)\<^sup>*}"
    unfolding line_def using lineage_exact [of ownerOf edges seed] O seed by auto
  let ?groups = "groupByDeployment ownerOf ?idx (replicaSetIds nodes)"
  let ?m = "group_members ownerOf ?idx (replicaSetIds nodes)"
  have groups: "jm_ok ?groups" "\<And>d. jm_get ?groups d = (if ?m d = [] then None else Some (?m d))"
    using groups_get [of ownerOf ?idx "replicaSetIds nodes"] by blast+
  obtain hidden infos where h: "fold (collapseGroup childrenOf ?idx line expanded) ?groups ([], []) = (hidden, infos)"
    by fastforce
  have member: "r \<in> hidden_of childrenOf ?idx line expanded (d, ?m d) \<longleftrightarrow>
      rs_of_deployment nodes edges r d \<and> d \<notin> set expanded \<and> r \<noteq> current_rs nodes edges d
      \<and> owned_pods nodes edges r = 0 \<and> (seed, r) \<notin> (up_rel edges)\<^sup>*" if ne: "?m d \<noteq> []" for r d
  proof -
    obtain c where c: "c \<in> set (?m d)" "chooseCurrentRs childrenOf ?idx (?m d) = Some c"
      using choose_current [OF ne, of childrenOf ?idx] by blast
    then have "current_rs nodes edges d = c" by (simp add: current_rs_def b)
    moreover have "c \<noteq> ''''"
    proof -
      have "c \<in> set (replicaSetIds nodes)" using c(1) by (simp add: members_iff [OF b] rs_of_deployment_def)
      then have "c \<in> set (node_ids nodes)" by (auto simp: replicaSetIds_def node_ids_def)
      with ids show ?thesis by blast
    qed
    moreover have "r \<in> set (?m d) \<Longrightarrow> r \<in> set line \<longleftrightarrow> (seed, r) \<in> (up_rel edges)\<^sup>*"
      by (simp add: line members_iff [OF b] rs_of_deployment_def)
    ultimately show ?thesis
      using c(2) by (auto simp: hidden_of_def collapsible_def members_iff [OF b] pod_count [OF b])
  qed
  have "set hidden = {r. idle_rs nodes edges seed expanded r}"
  proof -
    have "set hidden = (\<Union>entry \<in> set ?groups. hidden_of childrenOf ?idx line expanded entry)"
      using collapse_groups [of childrenOf ?idx line expanded ?groups "([], [])"] h by simp
    also have "set ?groups = {(d, ?m d) | d. ?m d \<noteq> []}"
    proof -
      have "(d, rs) \<in> set ?groups \<longleftrightarrow> ?m d \<noteq> [] \<and> rs = ?m d" for d rs
        using map_of_eq_Some_iff [OF groups(1), of d rs] unfolding groups(2) by (simp split: if_splits) blast
      then show ?thesis by (simp only: set_eq_iff split_paired_All mem_Collect_eq prod.inject) blast
    qed
    also have "(\<Union>entry \<in> {(d, ?m d) | d. ?m d \<noteq> []}. hidden_of childrenOf ?idx line expanded entry) =
        {r. \<exists>d. ?m d \<noteq> [] \<and> r \<in> hidden_of childrenOf ?idx line expanded (d, ?m d)}" by blast
    also have "\<dots> = {r. \<exists>d. ?m d \<noteq> [] \<and> (rs_of_deployment nodes edges r d \<and> d \<notin> set expanded
      \<and> r \<noteq> current_rs nodes edges d \<and> owned_pods nodes edges r = 0 \<and> (seed, r) \<notin> (up_rel edges)\<^sup>*)}"
      using member by blast
    also have "\<dots> = {r. idle_rs nodes edges seed expanded r}"
      using members_iff [OF b, of _ nodes] by (force simp: idle_rs_def)
    finally show ?thesis .
  qed
  moreover have "set (fold (\<lambda>rsId hidden. hideDescendants seed childrenOf hidden [rsId]) hidden []) = ?D\<^sup>+ `` set hidden"
    by (subst all_descendants [where edges = edges]) (use O in auto)
  moreover have "set (ci_visibleNodeIds info) = {i \<in> set (node_ids nodes). i \<notin> set hidden \<and>
      i \<notin> set (fold (\<lambda>rsId hidden. hideDescendants seed childrenOf hidden [rsId]) hidden [])}"
    using assms(1) h by (auto simp: computeCollapseInfo_def b line_def Let_def)
  ultimately show ?thesis
    by (auto simp: rtrancl_eq_or_trancl)
qed

lemma collapse_keeps:
  assumes "'''' \<notin> set (node_ids nodes)" and "seed \<in> set (node_ids nodes)"
  shows "seed \<in> set (ci_visibleNodeIds (computeCollapseInfo nodes edges seed expanded))"
proof -
  have "r = seed" if "(r, seed) \<in> (down_rel edges seed)\<^sup>*" for r
    using that by (cases rule: rtranclE) (auto simp: down_rel_def)
  then have "\<not> (\<exists>r. idle_rs nodes edges seed expanded r \<and> (r, seed) \<in> (down_rel edges seed)\<^sup>*)"
    by (auto simp: idle_rs_def)
  moreover have "seed \<noteq> ''''" using assms by auto
  ultimately show ?thesis using collapse_exact [OF refl assms(1)] assms(2) by blast
qed

end
