(* ===== verification/ObjectMapColumns.thy ===== *)
theory ObjectMapColumns
  imports ObjectMapGraph
begin

text \<open>
  The columns of the object map (\<open>modules/object-map/objectMapLayout.ts\<close>, the layering pass):
  longest-path layering by in-degrees, the fallback for cycles, the shift that puts the seed at
  column 0 and the pull of the sources to their leftmost successor.

  On an acyclic graph every edge runs strictly from left to right, and every node that has a
  predecessor has one in the column just before its own.
\<close>

section \<open>The layering pass\<close>

type_synonym column_map = "(string, int) jmap"

record column_graph =
  cg_outgoing :: "(string, string list) jmap"
  cg_inDegree :: "(string, int) jmap"

definition appendOutgoingTarget ::
  "(string, string list) jmap \<Rightarrow> string \<Rightarrow> string \<Rightarrow> (string, string list) jmap" where
  "appendOutgoingTarget outgoing sourceId targetId =
     (case jm_get outgoing sourceId of
        Some targets \<Rightarrow> jm_set sourceId (targets @ [targetId]) outgoing
      | None \<Rightarrow> jm_set sourceId [targetId] outgoing)"

definition buildNodeColumnGraph :: "map_node list \<Rightarrow> map_edge list \<Rightarrow> column_graph" where
  "buildNodeColumnGraph nodes edges =
     fold (\<lambda>e g.
         if ed_source e \<notin> set (node_ids nodes) \<or> ed_target e \<notin> set (node_ids nodes)
            \<or> ed_source e = ed_target e
         then g
         else \<lparr>cg_outgoing = appendOutgoingTarget (cg_outgoing g) (ed_source e) (ed_target e),
               cg_inDegree = jm_set (ed_target e)
                 ((case jm_get (cg_inDegree g) (ed_target e) of None \<Rightarrow> 0 | Some d \<Rightarrow> d) + 1) (cg_inDegree g)\<rparr>)
       edges
       \<lparr>cg_outgoing = [], cg_inDegree = fold (\<lambda>n m. jm_set (nd_id n) 0 m) nodes []\<rparr>"

definition seedLongestPathSources :: "(string, int) jmap \<Rightarrow> column_map \<times> string list" where
  "seedLongestPathSources inDegree =
     fold (\<lambda>(i, degree) (columns, queue).
         if degree = 0 then (jm_set i 0 columns, queue @ [i]) else (columns, queue))
       inDegree ([], [])"

definition advanceLongestPathTarget ::
  "string \<Rightarrow> int \<Rightarrow> column_map \<Rightarrow> (string, int) jmap \<Rightarrow> column_map \<times> (string, int) jmap \<times> bool" where
  "advanceLongestPathTarget targetId sourceColumn columns remaining =
     (let columns' = (case jm_get columns targetId of
            None \<Rightarrow> jm_set targetId (sourceColumn + 1) columns
          | Some current \<Rightarrow>
              if sourceColumn + 1 > current then jm_set targetId (sourceColumn + 1) columns else columns)
      in case jm_get remaining targetId of
           None \<Rightarrow> (columns', remaining, False)
         | Some prior \<Rightarrow> (columns', jm_set targetId (prior - 1) remaining, prior - 1 = 0))"

fun advanceTargets ::
  "int \<Rightarrow> string list \<Rightarrow> column_map \<times> (string, int) jmap \<times> string list
   \<Rightarrow> column_map \<times> (string, int) jmap \<times> string list" where
  "advanceTargets sourceColumn [] st = st"
| "advanceTargets sourceColumn (t # ts) (columns, remaining, queue) =
     (let (columns', remaining', drained) = advanceLongestPathTarget t sourceColumn columns remaining
      in advanceTargets sourceColumn ts (columns', remaining', if drained then queue @ [t] else queue))"

text \<open>The whole effect of the inner loop\<close>

lemma advance_target:
  assumes "advanceLongestPathTarget t c columns remaining = (columns', remaining', drained)"
  shows "jm_get columns' v = (if v = t then Some (case jm_get columns t of None \<Rightarrow> c + 1 | Some k \<Rightarrow> max k (c + 1))
      else jm_get columns v)"
    and "jm_get remaining' v = (if v = t then map_option (\<lambda>r. r - 1) (jm_get remaining t) else jm_get remaining v)"
    and "drained \<longleftrightarrow> jm_get remaining t = Some 1"
  using assms
  by (auto simp: advanceLongestPathTarget_def Let_def simp del: map_of_eq_Some_iff split: option.splits if_splits)

definition count_of :: "string list \<Rightarrow> string \<Rightarrow> int" where
  "count_of ts v = int (length (filter (\<lambda>t. t = v) ts))"

lemma count_of_simps [simp]:
  "count_of [] v = 0" "count_of (t # ts) v = (if t = v then 1 else 0) + count_of ts v"
  by (simp_all add: count_of_def)

lemma count_of_nonneg [simp]: "0 \<le> count_of ts v"
  by (simp add: count_of_def)

lemma count_of_pos: "0 < count_of ts v \<longleftrightarrow> v \<in> set ts"
  by (induction ts) (auto simp: add_pos_nonneg)

lemma advance_targets:
  assumes "advanceTargets c ts (columns, remaining, queue) = (columns', remaining', queue')"
  shows "jm_get columns' v = (if v \<in> set ts
      then Some (case jm_get columns v of None \<Rightarrow> c + 1 | Some k \<Rightarrow> max k (c + 1)) else jm_get columns v)"
    and "jm_get remaining' v = map_option (\<lambda>r. r - count_of ts v) (jm_get remaining v)"
    and "\<exists>new. queue' = queue @ new \<and> distinct new \<and>
      (\<forall>v. v \<in> set new \<longleftrightarrow> (\<exists>r. jm_get remaining v = Some r \<and> 1 \<le> r \<and> r \<le> count_of ts v))"
proof -
  have "jm_get columns' v = (if v \<in> set ts
      then Some (case jm_get columns v of None \<Rightarrow> c + 1 | Some k \<Rightarrow> max k (c + 1)) else jm_get columns v) \<and>
    jm_get remaining' v = map_option (\<lambda>r. r - count_of ts v) (jm_get remaining v)" for v
    using assms
  proof (induction ts arbitrary: columns remaining queue)
    case Nil
    then show ?case by (simp add: option.map_ident)
  next
    case (Cons t ts)
    obtain c1 r1 d where a: "advanceLongestPathTarget t c columns remaining = (c1, r1, d)" by (metis prod_cases3)
    with Cons.prems have "advanceTargets c ts (c1, r1, if d then queue @ [t] else queue) =
        (columns', remaining', queue')" by simp
    from Cons.IH [OF this] show ?case
      unfolding advance_target [OF a] by (auto simp: option.map_comp comp_def diff_diff_eq split: option.splits)
  qed
  then show "jm_get columns' v = (if v \<in> set ts
      then Some (case jm_get columns v of None \<Rightarrow> c + 1 | Some k \<Rightarrow> max k (c + 1)) else jm_get columns v)"
    and "jm_get remaining' v = map_option (\<lambda>r. r - count_of ts v) (jm_get remaining v)" by blast+
  show "\<exists>new. queue' = queue @ new \<and> distinct new \<and>
      (\<forall>v. v \<in> set new \<longleftrightarrow> (\<exists>r. jm_get remaining v = Some r \<and> 1 \<le> r \<and> r \<le> count_of ts v))"
    using assms
  proof (induction ts arbitrary: columns remaining queue)
    case (Cons t ts)
    obtain c1 r1 d where a: "advanceLongestPathTarget t c columns remaining = (c1, r1, d)" by (metis prod_cases3)
    with Cons.prems have "advanceTargets c ts (c1, r1, if d then queue @ [t] else queue) =
        (columns', remaining', queue')" by simp
    from Cons.IH [OF this] obtain new where new: "queue' = (if d then queue @ [t] else queue) @ new" "distinct new"
      "\<And>v. v \<in> set new \<longleftrightarrow> (\<exists>r. jm_get r1 v = Some r \<and> 1 \<le> r \<and> r \<le> count_of ts v)" by blast
    let ?new = "(if d then [t] else []) @ new"
    have "queue' = queue @ ?new" using new(1) by simp
    moreover have "distinct ?new"
      using new(2,3) advance_target(2,3) [OF a] by auto
    moreover have "v \<in> set ?new \<longleftrightarrow> (\<exists>r. jm_get remaining v = Some r \<and> 1 \<le> r \<and> r \<le> count_of (t # ts) v)" for v
    proof (cases "v = t")
      case True
      have "0 \<le> count_of ts t" by simp
      then show ?thesis
        using True new(3) [of t] advance_target(2) [OF a, of t] advance_target(3) [OF a]
        by (cases "jm_get remaining t") (auto simp del: count_of_nonneg)
    next
      case False
      then show ?thesis using new(3) [of v] advance_target(2) [OF a, of v] by auto
    qed
    ultimately show ?case by blast
  qed simp
qed

definition pending :: "(string, int) jmap \<Rightarrow> string set" where
  "pending remaining = {v. \<exists>r. jm_get remaining v = Some r \<and> 0 < r}"

lemma finite_pending [simp]: "finite (pending remaining)"
  by (rule finite_subset [OF _ finite_dom_map_of [of remaining]]) (auto simp: pending_def)

function drainQueue ::
  "(string, string list) jmap \<Rightarrow> column_map \<Rightarrow> (string, int) jmap \<Rightarrow> string list \<Rightarrow> column_map" where
  "drainQueue outgoing columns remaining [] = columns"
| "drainQueue outgoing columns remaining (u # queue) =
     (case jm_get columns u of
        None \<Rightarrow> drainQueue outgoing columns remaining queue
      | Some sourceColumn \<Rightarrow>
          let (columns', remaining', queue') =
            advanceTargets sourceColumn (neighboursOf outgoing u) (columns, remaining, queue)
          in drainQueue outgoing columns' remaining' queue')"
  by pat_completeness auto

termination
proof (relation "measure (\<lambda>(_, _, remaining, queue). length queue + card (pending remaining))", goal_cases)
  case (3 outgoing columns remaining u queue c x columns' y remaining' queue')
  then have a: "advanceTargets c (neighboursOf outgoing u) (columns, remaining, queue) =
      (columns', remaining', queue')" by simp
  from advance_targets(3) [OF a] obtain new where new: "queue' = queue @ new" "distinct new"
    "\<And>v. v \<in> set new \<longleftrightarrow> (\<exists>r. jm_get remaining v = Some r \<and> 1 \<le> r \<and> r \<le> count_of (neighboursOf outgoing u) v)"
    by blast
  have "set new \<subseteq> pending remaining" using new(3) by (force simp: pending_def)
  moreover have "pending remaining' \<subseteq> pending remaining - set new"
  proof
    fix v assume "v \<in> pending remaining'"
    then obtain r where r: "jm_get remaining v = Some r" "0 < r - count_of (neighboursOf outgoing u) v"
      by (auto simp: pending_def advance_targets(2) [OF a])
    then have "0 < r" using count_of_nonneg [of "neighboursOf outgoing u" v] by linarith
    with r show "v \<in> pending remaining - set new" by (auto simp: pending_def new(3))
  qed
  ultimately have "card (pending remaining') + card (set new) \<le> card (pending remaining)"
    by (metis card_Diff_subset card_mono finite_pending finite_Diff finite_set le_diff_conv2)
  with new(1) distinct_card [OF new(2)] show ?case by simp
qed simp_all

definition computeLongestPathColumns :: "column_graph \<Rightarrow> column_map" where
  "computeLongestPathColumns g =
     (let (columns, queue) = seedLongestPathSources (cg_inDegree g)
      in drainQueue (cg_outgoing g) columns (cg_inDegree g) queue)"

definition applyCycleFallbackColumns :: "map_node list \<Rightarrow> column_map \<Rightarrow> column_map" where
  "applyCycleFallbackColumns nodes columns =
     fold (\<lambda>n columns. if jm_has columns (nd_id n) then columns else jm_set (nd_id n) (nd_depth n) columns)
       nodes columns"

definition anchorColumnsAtSeed :: "string \<Rightarrow> column_map \<Rightarrow> column_map" where
  "anchorColumnsAtSeed seedId columns =
     (case jm_get columns seedId of
        None \<Rightarrow> columns
      | Some seedColumn \<Rightarrow>
          if seedColumn = 0 then columns else List.map (\<lambda>(i, value). (i, value - seedColumn)) columns)"

definition leftmostSuccessorColumn ::
  "string \<Rightarrow> (string, string list) jmap \<Rightarrow> column_map \<Rightarrow> int option" where
  "leftmostSuccessorColumn sourceId outgoing columns =
     fold (\<lambda>successor minimum.
         case jm_get columns successor of
           None \<Rightarrow> minimum
         | Some c \<Rightarrow> Some (case minimum of None \<Rightarrow> c | Some m \<Rightarrow> min m c))
       (neighboursOf outgoing sourceId) None"

definition pullSourcesTowardSuccessors :: "string \<Rightarrow> column_graph \<Rightarrow> column_map \<Rightarrow> column_map" where
  "pullSourcesTowardSuccessors seedId g columns =
     fold (\<lambda>(i, degree) columns.
         if degree \<noteq> 0 \<or> i = seedId then columns
         else case leftmostSuccessorColumn i (cg_outgoing g) columns of
                None \<Rightarrow> columns
              | Some c \<Rightarrow> jm_set i (c - 1) columns)
       (cg_inDegree g) columns"

definition computeNodeColumns :: "map_node list \<Rightarrow> map_edge list \<Rightarrow> string \<Rightarrow> column_map" where
  "computeNodeColumns nodes edges seedId =
     (let g = buildNodeColumnGraph nodes edges;
          columns = computeLongestPathColumns g;
          columns = applyCycleFallbackColumns nodes columns;
          columns = anchorColumnsAtSeed seedId columns
      in pullSourcesTowardSuccessors seedId g columns)"

section \<open>The graph that the layering sees\<close>

definition edge_pairs :: "map_node list \<Rightarrow> map_edge list \<Rightarrow> (string \<times> string) list" where
  "edge_pairs nodes edges = List.map (\<lambda>e. (ed_source e, ed_target e)) (valid_edges nodes edges)"

lemma set_edge_pairs: "set (edge_pairs nodes edges) = graph_rel nodes edges"
  by (simp add: edge_pairs_def graph_rel_def edge_rel_def)

definition targets_of :: "(string \<times> string) list \<Rightarrow> string \<Rightarrow> string list" where
  "targets_of ps u = List.map snd (filter (\<lambda>p. fst p = u) ps)"

text \<open>How many pairs enter a node from a set of nodes\<close>

definition entering :: "(string \<times> string) list \<Rightarrow> string set \<Rightarrow> string \<Rightarrow> int" where
  "entering ps A v = int (length (filter (\<lambda>(s, t). s \<in> A \<and> t = v) ps))"

lemma entering_simps [simp]:
  "entering [] A v = 0"
  "entering ((s, t) # ps) A v = (if s \<in> A \<and> t = v then 1 else 0) + entering ps A v"
  by (simp_all add: entering_def)

lemma entering_insert:
  "u \<notin> A \<Longrightarrow> entering ps (insert u A) v = entering ps A v + count_of (targets_of ps u) v"
  by (induction ps) (auto simp: targets_of_def)

lemma entering_nonneg [simp]: "0 \<le> entering ps A v"
  by (simp add: entering_def)

lemma entering_empty [simp]: "entering ps {} v = 0"
  by (simp add: entering_def)

lemma entering_mono: "A \<subseteq> B \<Longrightarrow> entering ps A v \<le> entering ps B v"
  by (induction ps) auto

lemma entering_all: "entering ps A v = entering ps UNIV v \<Longrightarrow> (s, v) \<in> set ps \<Longrightarrow> s \<in> A"
proof (induction ps)
  case (Cons p ps)
  have "entering ps A v \<le> entering ps UNIV v" by (rule entering_mono) simp
  with Cons show ?case by (cases p) (auto split: if_splits)
qed simp

lemma entering_some: "(s, v) \<in> set ps \<Longrightarrow> s \<notin> A \<Longrightarrow> entering ps A v < entering ps UNIV v"
  using entering_all [of ps A v s] entering_mono [of A UNIV ps v] by fastforce

lemma entering_none: "entering ps UNIV v = 0 \<longleftrightarrow> (\<forall>s. (s, v) \<notin> set ps)"
  by (induction ps) (auto simp: add_nonneg_eq_0_iff)

lemma entering_full: "(\<And>s. (s, v) \<in> set ps \<Longrightarrow> s \<in> A) \<Longrightarrow> entering ps A v = entering ps UNIV v"
  by (induction ps) auto

lemma appendOutgoing_neighbours [simp]:
  "neighboursOf (appendOutgoingTarget m u t) v =
     (if v = u then neighboursOf m u @ [t] else neighboursOf m v)"
  by (auto simp: neighboursOf_def appendOutgoingTarget_def split: option.split)

lemma zero_degrees:
  "jm_get (fold (\<lambda>n m. jm_set (nd_id n) 0 m) nodes m) v =
     (if v \<in> set (node_ids nodes) then Some 0 else jm_get m v)"
  by (induction nodes arbitrary: m) (auto simp: node_ids_def)

lemma zero_degrees_ok: "jm_ok m \<Longrightarrow> jm_ok (fold (\<lambda>n m. jm_set (nd_id n) (0 :: int) m) nodes m)"
  by (induction nodes arbitrary: m) auto

lemma column_graph:
  assumes "buildNodeColumnGraph nodes edges = g"
  shows "neighboursOf (cg_outgoing g) u = targets_of (edge_pairs nodes edges) u"
    and "jm_get (cg_inDegree g) v = (if v \<in> set (node_ids nodes)
      then Some (entering (edge_pairs nodes edges) UNIV v) else None)"
    and "jm_ok (cg_inDegree g)"
proof -
  have "neighboursOf (cg_outgoing g) u = targets_of (edge_pairs nodes edges) u \<and>
    jm_get (cg_inDegree g) v = (if v \<in> set (node_ids nodes)
      then Some (entering (edge_pairs nodes edges) UNIV v) else None) \<and> jm_ok (cg_inDegree g)"
    using assms
  proof (induction edges arbitrary: g u v rule: rev_induct)
    case Nil
    then show ?case
      by (auto simp: buildNodeColumnGraph_def edge_pairs_def valid_edges_def targets_of_def zero_degrees
          zero_degrees_ok)
  next
    case (snoc e edges)
    let ?g = "buildNodeColumnGraph nodes edges"
    let ?ok = "ed_source e \<in> set (node_ids nodes) \<and> ed_target e \<in> set (node_ids nodes) \<and> ed_source e \<noteq> ed_target e"
    have IH: "neighboursOf (cg_outgoing ?g) u = targets_of (edge_pairs nodes edges) u"
      "jm_get (cg_inDegree ?g) v = (if v \<in> set (node_ids nodes)
        then Some (entering (edge_pairs nodes edges) UNIV v) else None)" "jm_ok (cg_inDegree ?g)" for u v
      using snoc.IH [OF refl] by auto
    have pairs: "edge_pairs nodes (edges @ [e]) =
        edge_pairs nodes edges @ (if ?ok then [(ed_source e, ed_target e)] else [])"
      by (simp add: edge_pairs_def valid_edges_def)
    have g: "g = (if \<not> ?ok then ?g
         else \<lparr>cg_outgoing = appendOutgoingTarget (cg_outgoing ?g) (ed_source e) (ed_target e),
               cg_inDegree = jm_set (ed_target e)
                 ((case jm_get (cg_inDegree ?g) (ed_target e) of None \<Rightarrow> 0 | Some d \<Rightarrow> d) + 1) (cg_inDegree ?g)\<rparr>)"
      using snoc.prems by (auto simp: buildNodeColumnGraph_def)
    have ent: "entering (ps @ [(s, t)]) UNIV v = entering ps UNIV v + (if t = v then 1 else 0)" for ps s t
      by (simp add: entering_def)
    show ?case
    proof (cases ?ok)
      case True
      then show ?thesis
        using IH by (auto simp: g pairs ent targets_of_def)
    next
      case False
      then show ?thesis using IH by (auto simp: g pairs)
    qed
  qed
  then show "neighboursOf (cg_outgoing g) u = targets_of (edge_pairs nodes edges) u"
    and "jm_get (cg_inDegree g) v = (if v \<in> set (node_ids nodes)
      then Some (entering (edge_pairs nodes edges) UNIV v) else None)"
    and "jm_ok (cg_inDegree g)" by blast+
qed

section \<open>The drained nodes\<close>

text \<open>The invariant of the queue: the processed nodes \<open>A\<close> and the queue are the nodes without an
  unprocessed predecessor; the column of such a node is final.\<close>

definition kahn_inv ::
  "string set \<Rightarrow> (string \<times> string) list \<Rightarrow> string set \<Rightarrow> string list \<Rightarrow> column_map \<Rightarrow> (string, int) jmap \<Rightarrow> bool"
where
  "kahn_inv ids ps A queue columns remaining \<longleftrightarrow>
     distinct queue \<and> set queue \<inter> A = {}
     \<and> (\<forall>v. jm_get remaining v = (if v \<in> ids then Some (entering ps UNIV v - entering ps A v) else None))
     \<and> (\<forall>v. v \<in> A \<union> set queue \<longleftrightarrow> v \<in> ids \<and> entering ps A v = entering ps UNIV v)
     \<and> (\<forall>v \<in> A \<union> set queue. jm_has columns v)
     \<and> (\<forall>u v c. (u, v) \<in> set ps \<longrightarrow> u \<in> A \<longrightarrow> jm_get columns u = Some c \<longrightarrow>
          (\<exists>d. jm_get columns v = Some d \<and> c + 1 \<le> d))
     \<and> (\<forall>v c. jm_get columns v = Some c \<longrightarrow> v \<in> ids \<and>
          (entering ps UNIV v = 0 \<and> c = 0
           \<or> (\<exists>u \<in> A. (u, v) \<in> set ps \<and> jm_get columns u = Some (c - 1))))"

lemma kahn_step:
  assumes inv: "kahn_inv ids ps A (u # queue) columns remaining" and sub: "set ps \<subseteq> ids \<times> ids"
    and c: "jm_get columns u = Some c"
    and step: "advanceTargets c (targets_of ps u) (columns, remaining, queue) = (columns', remaining', queue')"
  shows "kahn_inv ids ps (insert u A) queue' columns' remaining'"
proof -
  note I = inv [unfolded kahn_inv_def]
  have d: "distinct (u # queue)" "set (u # queue) \<inter> A = {}"
    and rem: "\<And>v. jm_get remaining v = (if v \<in> ids then Some (entering ps UNIV v - entering ps A v) else None)"
    and ready: "\<And>v. v \<in> A \<union> set (u # queue) \<longleftrightarrow> v \<in> ids \<and> entering ps A v = entering ps UNIV v"
    and has: "\<And>v. v \<in> A \<union> set (u # queue) \<Longrightarrow> jm_has columns v"
    and step_le: "\<And>x v k. (x, v) \<in> set ps \<Longrightarrow> x \<in> A \<Longrightarrow> jm_get columns x = Some k \<Longrightarrow>
      \<exists>m. jm_get columns v = Some m \<and> k + 1 \<le> m"
    and tight: "\<And>v k. jm_get columns v = Some k \<Longrightarrow> v \<in> ids \<and> (entering ps UNIV v = 0 \<and> k = 0
      \<or> (\<exists>x \<in> A. (x, v) \<in> set ps \<and> jm_get columns x = Some (k - 1)))"
    using I by blast+
  have u: "u \<notin> A" "u \<notin> set queue" using d by auto
  let ?t = "targets_of ps u"
  have mem: "v \<in> set ?t \<longleftrightarrow> (u, v) \<in> set ps" for v by (force simp: targets_of_def)
  have ent: "entering ps (insert u A) v = entering ps A v + count_of ?t v" for v
    by (rule entering_insert [OF u(1)])
  have bound: "entering ps (insert u A) v \<le> entering ps UNIV v" for v by (rule entering_mono) simp
  have old: "v \<notin> set ?t" if "v \<in> A \<union> set (u # queue)" for v
  proof
    assume "v \<in> set ?t"
    then have "entering ps A v < entering ps UNIV v"
      using entering_some [of u v ps A] u(1) mem by blast
    with that ready show False by auto
  qed
  have cols: "jm_get columns' v = (if v \<in> set ?t
      then Some (case jm_get columns v of None \<Rightarrow> c + 1 | Some k \<Rightarrow> max k (c + 1)) else jm_get columns v)" for v
    by (rule advance_targets(1) [OF step])
  have rem': "jm_get remaining' v = (if v \<in> ids
      then Some (entering ps UNIV v - entering ps (insert u A) v) else None)" for v
    by (simp add: advance_targets(2) [OF step] rem ent diff_diff_eq)
  obtain new where new: "queue' = queue @ new" "distinct new"
    "\<And>v. v \<in> set new \<longleftrightarrow> (\<exists>r. jm_get remaining v = Some r \<and> 1 \<le> r \<and> r \<le> count_of ?t v)"
    using advance_targets(3) [OF step] by blast
  have fresh: "v \<in> set new \<longleftrightarrow> v \<in> ids \<and> entering ps A v \<noteq> entering ps UNIV v
      \<and> entering ps (insert u A) v = entering ps UNIV v" for v
  proof -
    have "v \<in> set new \<longleftrightarrow> v \<in> ids \<and> 1 \<le> entering ps UNIV v - entering ps A v
        \<and> entering ps UNIV v - entering ps A v \<le> count_of ?t v"
      by (auto simp: new(3) rem split: if_splits)
    moreover have "1 \<le> y - x \<and> y - x \<le> k \<longleftrightarrow> x \<noteq> y \<and> x + k = y" if "0 \<le> k" "x + k \<le> y" for x y k :: int
      using that by auto
    ultimately show ?thesis using bound [of v] unfolding ent by simp
  qed
  have notnew: "set new \<inter> (A \<union> set (u # queue)) = {}" using fresh ready by blast
  have ready': "v \<in> insert u A \<union> set queue' \<longleftrightarrow> v \<in> ids \<and> entering ps (insert u A) v = entering ps UNIV v" for v
  proof -
    have "v \<in> insert u A \<union> set queue' \<longleftrightarrow> v \<in> A \<union> set (u # queue) \<or> v \<in> set new" by (auto simp: new(1))
    also have "\<dots> \<longleftrightarrow> v \<in> ids \<and> entering ps (insert u A) v = entering ps UNIV v"
      using fresh [of v] ready [of v] entering_mono [OF subset_insertI [of A u], of ps v] bound [of v] by auto
    finally show ?thesis .
  qed
  have same: "jm_get columns' v = jm_get columns v" if "v \<in> A \<union> set (u # queue)" for v
    using old [OF that] by (simp add: cols)
  have has': "jm_has columns' v" if "v \<in> insert u A \<union> set queue'" for v
  proof (cases "v \<in> A \<union> set (u # queue)")
    case True
    with has same show ?thesis by simp
  next
    case False
    with that new(1) have v: "v \<in> set new" by auto
    then have "count_of ?t v \<noteq> 0" using fresh [of v] ent [of v] by auto
    then have "0 < count_of ?t v" by (simp add: order_less_le)
    then show ?thesis by (simp add: cols count_of_pos)
  qed
  have le': "\<exists>m. jm_get columns' v = Some m \<and> k + 1 \<le> m"
    if xv: "(x, v) \<in> set ps" and x: "x \<in> insert u A" and k: "jm_get columns' x = Some k" for x v k
  proof (cases "x = u")
    case True
    with k c same [of u] have "k = c" by simp
    with xv True show ?thesis by (auto simp: cols mem split: option.split)
  next
    case False
    with x have xA: "x \<in> A" by simp
    with k same have "jm_get columns x = Some k" by simp
    from step_le [OF xv xA this] obtain m where "jm_get columns v = Some m" "k + 1 \<le> m" by blast
    then show ?thesis by (auto simp: cols)
  qed
  have tight': "v \<in> ids \<and> (entering ps UNIV v = 0 \<and> k = 0
      \<or> (\<exists>x \<in> insert u A. (x, v) \<in> set ps \<and> jm_get columns' x = Some (k - 1)))"
    if k: "jm_get columns' v = Some k" for v k
  proof (cases "jm_get columns v = Some k")
    case True
    from tight [OF True] show ?thesis using same by auto
  next
    case False
    with k have "v \<in> set ?t" and kc: "k = c + 1" by (auto simp: cols max_def split: if_splits option.splits)
    then have "(u, v) \<in> set ps" by (simp add: mem)
    moreover have "jm_get columns' u = Some (k - 1)" using same [of u] c kc by simp
    ultimately show ?thesis using sub by blast
  qed
  have "distinct queue'" "set queue' \<inter> insert u A = {}"
    using new d notnew by auto
  then show ?thesis
    unfolding kahn_inv_def using rem' ready' has' le' tight' by blast
qed

lemma kahn_drain:
  assumes "kahn_inv ids ps A queue columns remaining" and "set ps \<subseteq> ids \<times> ids"
    and "\<And>u. neighboursOf outgoing u = targets_of ps u"
  shows "\<exists>B remaining'. kahn_inv ids ps B [] (drainQueue outgoing columns remaining queue) remaining'"
  using assms
proof (induction outgoing columns remaining queue arbitrary: A rule: drainQueue.induct)
  case (1 outgoing columns remaining)
  then show ?case by auto
next
  case (2 outgoing columns remaining u queue)
  from 2(3) have "jm_has columns u" by (simp add: kahn_inv_def)
  then obtain c where c: "jm_get columns u = Some c" by blast
  obtain cs r q where a: "advanceTargets c (neighboursOf outgoing u) (columns, remaining, queue) = (cs, r, q)"
    by (metis prod_cases3)
  have "kahn_inv ids ps (insert u A) q cs r"
    by (rule kahn_step [OF 2(3,4) c]) (use a 2(5) in simp)
  from 2(2) [OF c a [symmetric] refl refl this 2(4,5)] c a show ?case by simp
qed

lemma sources_start:
  "seedLongestPathSources m = (columns, queue) \<Longrightarrow>
   queue = List.map fst (filter (\<lambda>e. snd e = 0) m) \<and>
   (\<forall>v. jm_get columns v = (if v \<in> set queue then Some 0 else None))"
proof (induction m arbitrary: columns queue rule: rev_induct)
  case Nil
  then show ?case by (simp add: seedLongestPathSources_def)
next
  case (snoc e m)
  obtain c q where s: "seedLongestPathSources m = (c, q)" by fastforce
  then have "(columns, queue) = (if snd e = 0 then (jm_set (fst e) 0 c, q @ [fst e]) else (c, q))"
    using snoc.prems by (cases e) (auto simp: seedLongestPathSources_def)
  with snoc.IH [OF s] show ?case by (auto split: if_splits)
qed

lemma longest_paths:
  assumes g: "buildNodeColumnGraph nodes edges = g" and acyclic: "acyclic (graph_rel nodes edges)"
    and c: "computeLongestPathColumns g = columns"
  shows "jm_has columns v \<longleftrightarrow> v \<in> set (node_ids nodes)"
    and "(u, v) \<in> graph_rel nodes edges \<Longrightarrow> jm_get columns u = Some k \<Longrightarrow>
      \<exists>m. jm_get columns v = Some m \<and> k + 1 \<le> m"
    and "(u, v) \<in> graph_rel nodes edges \<Longrightarrow> jm_get columns v = Some m \<Longrightarrow>
      \<exists>w. (w, v) \<in> graph_rel nodes edges \<and> jm_get columns w = Some (m - 1)"
    and "jm_get columns v = Some m \<Longrightarrow> \<forall>w. (w, v) \<notin> graph_rel nodes edges \<Longrightarrow> m = 0"
proof -
  let ?ps = "edge_pairs nodes edges" and ?ids = "set (node_ids nodes)"
  obtain c0 q where s: "seedLongestPathSources (cg_inDegree g) = (c0, q)" by fastforce
  note G = column_graph [OF g]
  have q: "q = List.map fst (filter (\<lambda>e. snd e = 0) (cg_inDegree g))"
    and c0: "\<And>v. jm_get c0 v = (if v \<in> set q then Some 0 else None)"
    using sources_start [OF s] by blast+
  have sub: "set ?ps \<subseteq> ?ids \<times> ?ids" by (auto simp: set_edge_pairs graph_rel_iff)
  have mem: "v \<in> set q \<longleftrightarrow> v \<in> ?ids \<and> entering ?ps UNIV v = 0" for v
  proof -
    have "v \<in> set q \<longleftrightarrow> (v, 0) \<in> set (cg_inDegree g)" by (force simp: q)
    also have "\<dots> \<longleftrightarrow> jm_get (cg_inDegree g) v = Some 0" using G(3) by simp
    finally show ?thesis by (simp add: G(2) split: if_splits)
  qed
  have "distinct q"
  proof -
    have "distinct (List.map fst (filter (\<lambda>e. snd e = 0) m))" if "distinct (List.map fst m)"
      for m :: "(string \<times> int) list"
      using that by (induction m) auto
    with G(3) show ?thesis by (simp add: q)
  qed
  then have "kahn_inv ?ids ?ps {} q c0 (cg_inDegree g)"
    using mem by (auto simp: kahn_inv_def G(2) c0)
  from kahn_drain [OF this sub G(1)] obtain B r where
    B: "kahn_inv ?ids ?ps B [] columns r"
    using c s by (auto simp: computeLongestPathColumns_def)
  have sub_B: "B \<subseteq> ?ids" using B by (auto simp: kahn_inv_def)
  have "wf (set ?ps)" using acyclic by (simp add: set_edge_pairs [symmetric] finite_acyclic_wf)
  then have "v \<in> ?ids \<longrightarrow> v \<in> B" for v
  proof (induction v rule: wf_induct_rule)
    case (less v)
    have "entering ?ps B v = entering ?ps UNIV v"
      by (rule entering_full) (use less sub in blast)
    with B show ?case by (simp add: kahn_inv_def)
  qed
  with sub_B have BI: "B = ?ids" by blast
  show "jm_has columns v \<longleftrightarrow> v \<in> ?ids"
    using B BI by (auto simp: kahn_inv_def)
  show "\<exists>m. jm_get columns v = Some m \<and> k + 1 \<le> m"
    if "(u, v) \<in> graph_rel nodes edges" "jm_get columns u = Some k"
  proof -
    have "u \<in> B" using that(1) sub BI by (auto simp: set_edge_pairs)
    with B that show ?thesis unfolding kahn_inv_def set_edge_pairs by blast
  qed
  have tight: "entering ?ps UNIV v = 0 \<and> m = 0 \<or> (\<exists>w. (w, v) \<in> graph_rel nodes edges \<and> jm_get columns w = Some (m - 1))"
    if "jm_get columns v = Some m" for v m
    using B that unfolding kahn_inv_def set_edge_pairs by blast
  show "\<exists>w. (w, v) \<in> graph_rel nodes edges \<and> jm_get columns w = Some (m - 1)"
    if "(u, v) \<in> graph_rel nodes edges" "jm_get columns v = Some m"
    using tight [OF that(2)] that(1) entering_none [of ?ps v] by (auto simp: set_edge_pairs)
  show "m = 0" if "jm_get columns v = Some m" "\<forall>w. (w, v) \<notin> graph_rel nodes edges"
    using tight [OF that(1)] that(2) by blast
qed

lemma fallback_same:
  "(\<And>n. n \<in> set nodes \<Longrightarrow> jm_has columns (nd_id n)) \<Longrightarrow> applyCycleFallbackColumns nodes columns = columns"
  by (induction nodes) (simp_all add: applyCycleFallbackColumns_def)

lemma anchor_get:
  "jm_get (anchorColumnsAtSeed seed columns) v =
     map_option (\<lambda>k. k - (case jm_get columns seed of None \<Rightarrow> 0 | Some s \<Rightarrow> s)) (jm_get columns v)"
proof -
  have "jm_get (List.map (\<lambda>(i, value). (i, value - s)) m) v = map_option (\<lambda>k. k - s) (jm_get m v)"
    for m :: column_map and s
    by (induction m) auto
  then show ?thesis by (auto simp: anchorColumnsAtSeed_def option.map_ident split: option.split)
qed

lemma leftmost_fold:
  "fold (\<lambda>x (acc :: int option). case f x of None \<Rightarrow> acc | Some c \<Rightarrow> Some (case acc of None \<Rightarrow> c | Some m \<Rightarrow> min m c)) xs acc =
     (if set_option acc \<union> (\<Union>x \<in> set xs. set_option (f x)) = {} then None
      else Some (Min (set_option acc \<union> (\<Union>x \<in> set xs. set_option (f x)))))"
proof (induction xs arbitrary: acc)
  case Nil
  then show ?case by (cases acc) auto
next
  case (Cons x xs)
  let ?R = "\<Union>x \<in> set xs. set_option (f x)"
  have fin: "finite ?R" by (intro finite_UN_I) auto
  show ?case
  proof (cases "f x")
    case None
    with Cons show ?thesis by simp
  next
    case (Some c)
    show ?thesis
    proof (cases acc)
      case None
      with Some Cons show ?thesis by simp
    next
      case (Some m)
      have "Min (insert (min m c) ?R) = Min (insert c (insert m ?R))"
        using fin by (cases "?R = {}") (simp_all add: min.assoc min.left_commute min.commute)
      with Some \<open>f x = Some c\<close> Cons show ?thesis by simp
    qed
  qed
qed

lemma leftmost_eq:
  "leftmostSuccessorColumn u outgoing columns =
     (let S = {c. \<exists>v \<in> set (neighboursOf outgoing u). jm_get columns v = Some c}
      in if S = {} then None else Some (Min S))"
proof -
  have "(\<Union>x \<in> set xs. set_option (jm_get columns x)) = {c. \<exists>v \<in> set xs. jm_get columns v = Some c}" for xs
    by (auto simp del: map_of_eq_Some_iff simp: Option.elem_set)
  then show ?thesis by (simp add: leftmostSuccessorColumn_def leftmost_fold Let_def)
qed

text \<open>Pulling: a source that is not the seed moves next to its leftmost successor; its successors are
  no sources, so nothing they are placed by changes.\<close>

lemma pull_get:
  assumes g: "buildNodeColumnGraph nodes edges = g"
  shows "jm_get (pullSourcesTowardSuccessors seed g columns) v =
    (if v \<in> set (node_ids nodes) \<and> (\<forall>u. (u, v) \<notin> graph_rel nodes edges) \<and> v \<noteq> seed
     then (let S = {c. \<exists>w. (v, w) \<in> graph_rel nodes edges \<and> jm_get columns w = Some c}
           in if S = {} then jm_get columns v else Some (Min S - 1))
     else jm_get columns v)"
proof -
  note G = column_graph [OF g]
  let ?r = "graph_rel nodes edges"
  let ?S = "\<lambda>m v. {c. \<exists>w. (v, w) \<in> ?r \<and> jm_get m w = Some c}"
  have succ: "set (neighboursOf (cg_outgoing g) v) = {w. (v, w) \<in> ?r}" for v
    by (auto simp: G(1) targets_of_def set_edge_pairs [symmetric] image_iff) 
  have left: "leftmostSuccessorColumn v (cg_outgoing g) m = (if ?S m v = {} then None else Some (Min (?S m v)))" for v m
    by (simp add: leftmost_eq succ Let_def)
  have deg: "jm_get (cg_inDegree g) v = Some 0 \<longleftrightarrow> v \<in> set (node_ids nodes) \<and> (\<forall>u. (u, v) \<notin> ?r)" for v
    using entering_none [of "edge_pairs nodes edges" v] by (simp add: G(2) set_edge_pairs)
  have "jm_get (fold (\<lambda>(i, degree) columns.
         if degree \<noteq> 0 \<or> i = seed then columns
         else case leftmostSuccessorColumn i (cg_outgoing g) columns of
                None \<Rightarrow> columns | Some c \<Rightarrow> jm_set i (c - 1) columns) m columns) v =
      (if (v, 0) \<in> set m \<and> v \<noteq> seed then (if ?S columns v = {} then jm_get columns v else Some (Min (?S columns v) - 1))
       else jm_get columns v)"
    if "distinct (List.map fst m)" and "set m \<subseteq> set (cg_inDegree g)" for m columns v
    using that
  proof (induction m arbitrary: columns v)
    case (Cons e m)
    obtain i d where e: "e = (i, d)" by fastforce
    let ?step = "if d \<noteq> 0 \<or> i = seed then columns
        else case leftmostSuccessorColumn i (cg_outgoing g) columns of
                None \<Rightarrow> columns | Some c \<Rightarrow> jm_set i (c - 1) columns"
    have step: "jm_get ?step w = (if w = i \<and> d = 0 \<and> i \<noteq> seed \<and> ?S columns i \<noteq> {}
        then Some (Min (?S columns i) - 1) else jm_get columns w)" for w
      unfolding left by (cases "?S columns i = {}") auto
    have notsucc: "(u, i) \<notin> ?r" if "d = 0" for u
    proof -
      have "(i, 0) \<in> set (cg_inDegree g)" using Cons.prems(2) e that by auto
      then have "jm_get (cg_inDegree g) i = Some 0" using G(3) by simp
      then show ?thesis by (simp add: deg)
    qed
    have same: "?S ?step w = ?S columns w" for w
    proof (rule Collect_cong)
      fix c show "(\<exists>x. (w, x) \<in> ?r \<and> jm_get ?step x = Some c) \<longleftrightarrow> (\<exists>x. (w, x) \<in> ?r \<and> jm_get columns x = Some c)"
      proof -
        have "jm_get ?step x = jm_get columns x" if "(w, x) \<in> ?r" for x
          unfolding step using notsucc that by auto
        then show ?thesis by (metis (no_types, lifting))
      qed
    qed
    have IH: "jm_get (fold (\<lambda>(i, degree) columns.
         if degree \<noteq> 0 \<or> i = seed then columns
         else case leftmostSuccessorColumn i (cg_outgoing g) columns of
                None \<Rightarrow> columns | Some c \<Rightarrow> jm_set i (c - 1) columns) m ?step) v =
      (if (v, 0) \<in> set m \<and> v \<noteq> seed then (if ?S columns v = {} then jm_get ?step v else Some (Min (?S columns v) - 1))
       else jm_get ?step v)"
      using Cons.IH [of ?step v] Cons.prems unfolding same by simp
    have "(i, x) \<notin> set m" for x using Cons.prems(1) e by force
    then show ?case
      using IH unfolding step e by auto
  qed simp
  from this [OF G(3) subset_refl] show ?thesis
    unfolding pullSourcesTowardSuccessors_def using deg [of v] G(3) by (simp add: Let_def)
qed

lemma columns_layered:
  assumes acyclic: "acyclic (graph_rel nodes edges)" and c: "computeNodeColumns nodes edges seed = columns"
  shows "jm_has columns v \<longleftrightarrow> v \<in> set (node_ids nodes)"
    and "seed \<in> set (node_ids nodes) \<Longrightarrow> jm_get columns seed = Some 0"
    and "(u, v) \<in> graph_rel nodes edges \<Longrightarrow>
      \<exists>k m. jm_get columns u = Some k \<and> jm_get columns v = Some m \<and> k < m"
    and "(u, v) \<in> graph_rel nodes edges \<Longrightarrow>
      \<exists>w m. (w, v) \<in> graph_rel nodes edges \<and> jm_get columns v = Some m \<and> jm_get columns w = Some (m - 1)"
proof -
  let ?r = "graph_rel nodes edges" and ?ids = "set (node_ids nodes)"
  obtain g where g: "buildNodeColumnGraph nodes edges = g" by blast
  define c1 where "c1 = computeLongestPathColumns g"
  note L = longest_paths [OF g acyclic c1_def [symmetric]]
  have "applyCycleFallbackColumns nodes c1 = c1"
    by (rule fallback_same) (use L(1) in \<open>auto simp: node_ids_def\<close>)
  then have c2: "columns = pullSourcesTowardSuccessors seed g (anchorColumnsAtSeed seed c1)"
    using c by (simp add: computeNodeColumns_def g Let_def c1_def)
  define a where "a = anchorColumnsAtSeed seed c1"
  define s where "s = (case jm_get c1 seed of None \<Rightarrow> 0 | Some s \<Rightarrow> s)"
  have a: "jm_get a v = map_option (\<lambda>k. k - s) (jm_get c1 v)" for v
    unfolding a_def s_def by (rule anchor_get)
  define src where "src v \<longleftrightarrow> v \<in> ?ids \<and> (\<forall>u. (u, v) \<notin> ?r) \<and> v \<noteq> seed" for v
  let ?S = "\<lambda>v. {c. \<exists>w. (v, w) \<in> ?r \<and> jm_get a w = Some c}"
  have cols: "jm_get columns v = (if src v \<and> ?S v \<noteq> {} then Some (Min (?S v) - 1) else jm_get a v)" for v
    unfolding c2 a_def [symmetric] src_def using pull_get [OF g, of seed a v]
    by (cases "?S v = {}") (auto simp: Let_def)
  have has: "jm_has a v \<longleftrightarrow> v \<in> ?ids" for v using L(1) [of v] by (simp add: a)
  show dom: "jm_has columns v \<longleftrightarrow> v \<in> ?ids" for v
    using has [of v] by (auto simp: cols src_def)
  show "jm_get columns seed = Some 0" if "seed \<in> ?ids"
    using that L(1) [of seed] by (auto simp: cols src_def a s_def)
  have fin: "finite (?S v)" for v
  proof -
    have "finite ?r" by (simp add: graph_rel_def edge_rel_def)
    then have "finite (the ` jm_get a ` snd ` ?r)" by simp
    moreover have "?S v \<subseteq> the ` jm_get a ` snd ` ?r" by force
    ultimately show ?thesis by (rule finite_subset [rotated])
  qed
  have step: "\<exists>k m. jm_get a u = Some k \<and> jm_get a v = Some m \<and> k + 1 \<le> m" if "(u, v) \<in> ?r" for u v
  proof -
    have "u \<in> ?ids" using that by (simp add: graph_rel_iff)
    then obtain k where k: "jm_get c1 u = Some k" using L(1) by auto
    from L(2) [OF that this] obtain m where "jm_get c1 v = Some m" "k + 1 \<le> m" by blast
    with k show ?thesis by (auto simp: a)
  qed
  have target: "jm_get columns v = jm_get a v" if "(u, v) \<in> ?r" for u v
    using that by (auto simp: cols src_def)
  have pulled: "\<exists>k' m. jm_get columns u = Some k' \<and> jm_get a v = Some m \<and> k' < m \<and> (\<forall>k. jm_get a u = Some k \<longrightarrow> k \<le> k')"
    if uv: "(u, v) \<in> ?r" for u v
  proof -
    obtain k m where km: "jm_get a u = Some k" "jm_get a v = Some m" "k + 1 \<le> m" using step [OF uv] by blast
    show ?thesis
    proof (cases "src u")
      case True
      have mS: "m \<in> ?S u" using uv km(2) by blast
      have "k + 1 \<le> c" if c: "c \<in> ?S u" for c
      proof -
        from c obtain w where w: "(u, w) \<in> ?r" "jm_get a w = Some c" by blast
        with step [OF w(1)] km(1) show ?thesis by auto
      qed
      then have "k + 1 \<le> Min (?S u)" using fin mS by (metis (no_types, lifting) Min_in empty_iff)
      moreover have "Min (?S u) \<le> m" using fin mS by (rule Min_le)
      moreover have "jm_get columns u = Some (Min (?S u) - 1)" using True mS by (auto simp: cols)
      ultimately show ?thesis using km by auto
    next
      case False
      with km show ?thesis by (auto simp: cols)
    qed
  qed
  show "\<exists>k m. jm_get columns u = Some k \<and> jm_get columns v = Some m \<and> k < m" if "(u, v) \<in> ?r"
    using pulled [OF that] target [OF that] by auto
  show "\<exists>w m. (w, v) \<in> ?r \<and> jm_get columns v = Some m \<and> jm_get columns w = Some (m - 1)" if uv: "(u, v) \<in> ?r"
  proof -
    obtain m where m: "jm_get c1 v = Some m" using step [OF uv] by (auto simp: a)
    from L(3) [OF uv m] obtain w where w: "(w, v) \<in> ?r" "jm_get c1 w = Some (m - 1)" by blast
    from pulled [OF w(1)] obtain k' m' where k': "jm_get columns w = Some k'" "jm_get a v = Some m'" "k' < m'"
      "\<forall>k. jm_get a w = Some k \<longrightarrow> k \<le> k'" by blast
    have "m' = m - s" using k'(2) m by (simp add: a)
    moreover have "m - 1 - s \<le> k'" using k'(4) w(2) by (simp add: a)
    ultimately have "k' = m' - 1" using k'(3) by simp
    with w(1) k'(1,2) target [OF w(1)] show ?thesis by auto
  qed
qed

end
