(* ===== verification/ObjectMapKinds.thy ===== *)
theory ObjectMapKinds
  imports ObjectMapGraph
begin

text \<open>
  The kind filter of the object map (\<open>modules/object-map/objectMapKindFilter.ts\<close>): only the
  nodes of the selected kinds stay, and a path through hidden nodes from one of them to another
  becomes an edge that carries the path.

  \<open>localeCompare\<close> depends on the locale and is an argument. The \<open>Map\<close> of contracted paths is
  keyed by \<open>source + '\0' + target\<close> and the key is split again; the pair is the key here, which
  is the same for ids without a NUL character. The search follows simple paths only, so it ends
  on every graph.
\<close>

section \<open>The filter\<close>

definition FILTERED_PATH_EDGE_TYPE :: string where
  "FILTERED_PATH_EDGE_TYPE = ''filtered-path''"

record candidate_path =
  cp_nodes :: "string list"
  cp_edges :: "map_edge list"

record contracted_path =
  ctp_count :: int
  ctp_path :: candidate_path

type_synonym locale_compare = "string \<Rightarrow> string \<Rightarrow> int"

type_synonym contracted_paths = "(string \<times> string, contracted_path) jmap"

definition nul_char :: char where
  "nul_char = CHR 0x00"

definition comparePath :: "locale_compare \<Rightarrow> candidate_path \<Rightarrow> candidate_path \<Rightarrow> int" where
  "comparePath localeCompare a b =
     (if length (cp_edges a) \<noteq> length (cp_edges b)
      then int (length (cp_edges a)) - int (length (cp_edges b))
      else localeCompare (js_join nul_char (cp_nodes a)) (js_join nul_char (cp_nodes b)))"

record kind_filter_context =
  kc_nodeById :: "(string, map_node) jmap"
  kc_visibleNodeIds :: "string list"
  kc_outgoing :: "(string, map_edge list) jmap"

definition toFilteredPath ::
  "candidate_path \<Rightarrow> int \<Rightarrow> (string, map_node) jmap \<Rightarrow> string list \<Rightarrow> filtered_path option" where
  "toFilteredPath path paths nodeById visibleNodeIds =
     (let nodes = List.map_filter (\<lambda>i. map_option
            (\<lambda>n. \<lparr>fpn_id = i, fpn_ref = nd_ref n, fpn_filtered = i \<notin> set visibleNodeIds\<rparr>)
            (jm_get nodeById i)) (cp_nodes path)
      in if length nodes \<noteq> length (cp_nodes path) then None
         else Some \<lparr>fp_nodes = nodes,
                    fp_relationships = List.map (\<lambda>e. (ed_type e, ed_label e)) (cp_edges path),
                    fp_additionalPathCount = max 0 (paths - 1)\<rparr>)"

definition recordContractedPath ::
  "locale_compare \<Rightarrow> string \<Rightarrow> string \<Rightarrow> candidate_path \<Rightarrow> contracted_paths \<Rightarrow> contracted_paths" where
  "recordContractedPath localeCompare sourceId targetId path contracted =
     (case jm_get contracted (sourceId, targetId) of
        None \<Rightarrow> jm_set (sourceId, targetId) \<lparr>ctp_count = 1, ctp_path = path\<rparr> contracted
      | Some existing \<Rightarrow>
          jm_set (sourceId, targetId)
            \<lparr>ctp_count = ctp_count existing + 1,
             ctp_path = (if comparePath localeCompare path (ctp_path existing) < 0
                         then path else ctp_path existing)\<rparr> contracted)"

definition extendPath :: "candidate_path \<Rightarrow> map_edge \<Rightarrow> candidate_path" where
  "extendPath p e = \<lparr>cp_nodes = cp_nodes p @ [ed_target e], cp_edges = cp_edges p @ [e]\<rparr>"

text \<open>The loop over the edges that leave the end of the current path\<close>

fun followEdges ::
  "locale_compare \<Rightarrow> string \<Rightarrow> kind_filter_context \<Rightarrow> candidate_path \<Rightarrow> map_edge list
   \<Rightarrow> contracted_paths \<times> candidate_path list \<Rightarrow> contracted_paths \<times> candidate_path list" where
  "followEdges localeCompare sourceId ctx current [] st = st"
| "followEdges localeCompare sourceId ctx current (e # es) (contracted, queue) =
     (if \<not> jm_has (kc_nodeById ctx) (ed_target e) \<or> ed_target e \<in> set (cp_nodes current)
      then followEdges localeCompare sourceId ctx current es (contracted, queue)
      else if ed_target e \<in> set (kc_visibleNodeIds ctx)
      then followEdges localeCompare sourceId ctx current es
             (recordContractedPath localeCompare sourceId (ed_target e) (extendPath current e) contracted,
              queue)
      else followEdges localeCompare sourceId ctx current es
             (contracted, queue @ [extendPath current e]))"

definition pathEnd :: "candidate_path \<Rightarrow> string" where
  "pathEnd p = last (cp_nodes p)"

text \<open>The extensions of a path that are queued\<close>

definition extensions :: "kind_filter_context \<Rightarrow> candidate_path \<Rightarrow> candidate_path list" where
  "extensions ctx p =
     List.map (extendPath p)
       (filter (\<lambda>e. jm_has (kc_nodeById ctx) (ed_target e) \<and> ed_target e \<notin> set (cp_nodes p)
            \<and> ed_target e \<notin> set (kc_visibleNodeIds ctx))
          (neighboursOf (kc_outgoing ctx) (pathEnd p)))"

lemma followEdges_queue:
  "snd (followEdges lc s ctx p es (c, q)) =
     q @ List.map (extendPath p)
       (filter (\<lambda>e. jm_has (kc_nodeById ctx) (ed_target e) \<and> ed_target e \<notin> set (cp_nodes p)
            \<and> ed_target e \<notin> set (kc_visibleNodeIds ctx)) es)"
  by (induction lc s ctx p es "(c, q)" arbitrary: c q rule: followEdges.induct) auto

definition open_ids :: "kind_filter_context \<Rightarrow> candidate_path \<Rightarrow> string set" where
  "open_ids ctx p = fst ` set (kc_nodeById ctx) - set (cp_nodes p)"

lemma extension_smaller: "x \<in> set (extensions ctx p) \<Longrightarrow> card (open_ids ctx x) < card (open_ids ctx p)"
proof -
  assume "x \<in> set (extensions ctx p)"
  then obtain e where x: "x = extendPath p e" and t: "jm_has (kc_nodeById ctx) (ed_target e)"
    "ed_target e \<notin> set (cp_nodes p)"
    by (auto simp: extensions_def)
  then have "ed_target e \<in> fst ` set (kc_nodeById ctx)"
    by (metis image_set jm_keys_get)
  then show ?thesis
    unfolding open_ids_def x using t(2) by (intro psubset_card_mono) (auto simp: extendPath_def)
qed

function searchHidden ::
  "locale_compare \<Rightarrow> string \<Rightarrow> kind_filter_context \<Rightarrow> contracted_paths \<Rightarrow> candidate_path list
   \<Rightarrow> contracted_paths" where
  "searchHidden localeCompare sourceId ctx contracted [] = contracted"
| "searchHidden localeCompare sourceId ctx contracted (current # queue) =
     (let (contracted', queue') =
        followEdges localeCompare sourceId ctx current
          (neighboursOf (kc_outgoing ctx) (pathEnd current)) (contracted, queue)
      in searchHidden localeCompare sourceId ctx contracted' queue')"
  by pat_completeness auto

termination
proof (relation "inv_image (mult less_than)
    (\<lambda>(lc, s, ctx, c, q). image_mset (\<lambda>p. card (open_ids ctx p)) (mset q))", goal_cases)
  case 1
  show ?case by (simp add: wf_mult)
next
  case (2 lc s ctx c p q x c' q')
  then have q': "q' = q @ extensions ctx p"
    using followEdges_queue [of lc s ctx p "neighboursOf (kc_outgoing ctx) (pathEnd p)" c q]
    by (metis extensions_def snd_conv)
  let ?m = "\<lambda>p. card (open_ids ctx p)"
  have "(image_mset ?m (mset q) + image_mset ?m (mset (extensions ctx p)),
      image_mset ?m (mset q) + {#?m p#}) \<in> mult less_than"
    by (rule one_step_implies_mult) (auto dest: extension_smaller)
  then show ?case by (simp add: q')
qed

definition collectHiddenPaths ::
  "locale_compare \<Rightarrow> string \<Rightarrow> map_edge \<Rightarrow> kind_filter_context \<Rightarrow> contracted_paths \<Rightarrow> contracted_paths"
where
  "collectHiddenPaths localeCompare sourceId firstEdge ctx contracted =
     searchHidden localeCompare sourceId ctx contracted
       [\<lparr>cp_nodes = [sourceId, ed_target firstEdge], cp_edges = [firstEdge]\<rparr>]"

definition contextOf :: "map_node list \<Rightarrow> map_edge list \<Rightarrow> string list \<Rightarrow> kind_filter_context" where
  "contextOf nodes edges visibleNodeIds =
     \<lparr>kc_nodeById = nodeIndex nodes, kc_visibleNodeIds = visibleNodeIds,
      kc_outgoing = fold (\<lambda>e m. appendDirectionalNeighbor m (ed_source e) e) edges []\<rparr>"

definition startsHidden :: "kind_filter_context \<Rightarrow> map_edge \<Rightarrow> bool" where
  "startsHidden ctx e \<longleftrightarrow>
     ed_target e \<notin> set (kc_visibleNodeIds ctx) \<and> jm_has (kc_nodeById ctx) (ed_target e)"

definition contractAll ::
  "locale_compare \<Rightarrow> kind_filter_context \<Rightarrow> map_node list \<Rightarrow> contracted_paths" where
  "contractAll localeCompare ctx visibleNodes =
     fold (\<lambda>source contracted.
         fold (\<lambda>firstEdge contracted.
             if startsHidden ctx firstEdge
             then collectHiddenPaths localeCompare (nd_id source) firstEdge ctx contracted
             else contracted)
           (neighboursOf (kc_outgoing ctx) (nd_id source)) contracted)
       visibleNodes []"

definition contractedEdge ::
  "kind_filter_context \<Rightarrow> (string \<times> string) \<times> contracted_path \<Rightarrow> map_edge option" where
  "contractedEdge ctx entry =
     (case entry of ((source, target), c) \<Rightarrow>
        map_option (\<lambda>path. \<lparr>ed_id = FILTERED_PATH_EDGE_TYPE @ '':'' @ source @ '':'' @ target,
            ed_source = source, ed_target = target, ed_type = FILTERED_PATH_EDGE_TYPE,
            ed_label = ''filtered path'', ed_tracedBy = None, ed_filteredPath = Some path\<rparr>)
          (toFilteredPath (ctp_path c) (ctp_count c) (kc_nodeById ctx) (kc_visibleNodeIds ctx)))"

definition contractObjectMapKindFilter ::
  "locale_compare \<Rightarrow> map_node list \<Rightarrow> map_edge list \<Rightarrow> string list \<Rightarrow> map_node list \<times> map_edge list"
where
  "contractObjectMapKindFilter localeCompare nodes edges selectedKinds =
     (if selectedKinds = [] then (nodes, edges)
      else
        let visibleNodes = filter (\<lambda>n. ref_kind (nd_ref n) \<in> set selectedKinds) nodes;
            visibleNodeIds = js_unique (node_ids visibleNodes);
            ctx = contextOf nodes edges visibleNodeIds;
            visibleEdges = filter (\<lambda>e. ed_source e \<in> set visibleNodeIds
                                     \<and> ed_target e \<in> set visibleNodeIds) edges;
            contracted = contractAll localeCompare ctx visibleNodes
        in (visibleNodes, visibleEdges @ List.map_filter (contractedEdge ctx) contracted))"

section \<open>What the search finds\<close>

text \<open>One extension by a hidden node, and the visible nodes an edge from the end of a path leads to\<close>

definition ext :: "kind_filter_context \<Rightarrow> (candidate_path \<times> candidate_path) set" where
  "ext ctx = {(p, x). x \<in> set (extensions ctx p)}"

definition found :: "kind_filter_context \<Rightarrow> candidate_path \<Rightarrow> (string \<times> candidate_path) set" where
  "found ctx p = {(ed_target e, extendPath p e) | e. e \<in> set (neighboursOf (kc_outgoing ctx) (pathEnd p))
     \<and> jm_has (kc_nodeById ctx) (ed_target e) \<and> ed_target e \<notin> set (cp_nodes p)
     \<and> ed_target e \<in> set (kc_visibleNodeIds ctx)}"

text \<open>Every recorded path is one that was found; every found pair of ends is recorded.\<close>

definition sound_paths :: "(string \<Rightarrow> string \<Rightarrow> candidate_path \<Rightarrow> bool) \<Rightarrow> contracted_paths \<Rightarrow> bool" where
  "sound_paths Q m \<longleftrightarrow>
     jm_ok m \<and> (\<forall>s t c. jm_get m (s, t) = Some c \<longrightarrow> Q s t (ctp_path c))"

lemma record_keys:
  "fst ` set (recordContractedPath lc s t p m) = insert (s, t) (fst ` set m)"
  by (auto simp: recordContractedPath_def jm_keys_set [unfolded set_map] split: option.split)

lemma record_sound:
  "sound_paths Q m \<Longrightarrow> Q s t p \<Longrightarrow> sound_paths Q (recordContractedPath lc s t p m)"
  by (auto simp: recordContractedPath_def sound_paths_def simp del: map_of_eq_Some_iff split: option.splits if_splits)

lemma follow_props:
  assumes "followEdges lc s ctx p es (c, q) = (c', q')"
  shows "fst ` set c' = fst ` set c \<union> {s} \<times> {ed_target e | e. e \<in> set es
      \<and> jm_has (kc_nodeById ctx) (ed_target e) \<and> ed_target e \<notin> set (cp_nodes p)
      \<and> ed_target e \<in> set (kc_visibleNodeIds ctx)}"
    and "sound_paths Q c \<Longrightarrow> (\<And>e. e \<in> set es \<Longrightarrow> jm_has (kc_nodeById ctx) (ed_target e) \<Longrightarrow>
      ed_target e \<notin> set (cp_nodes p) \<Longrightarrow> ed_target e \<in> set (kc_visibleNodeIds ctx) \<Longrightarrow>
      Q s (ed_target e) (extendPath p e)) \<Longrightarrow> sound_paths Q c'"
proof -
  show "fst ` set c' = fst ` set c \<union> {s} \<times> {ed_target e | e. e \<in> set es
      \<and> jm_has (kc_nodeById ctx) (ed_target e) \<and> ed_target e \<notin> set (cp_nodes p)
      \<and> ed_target e \<in> set (kc_visibleNodeIds ctx)}"
    using assms
  proof (induction lc s ctx p es "(c, q)" arbitrary: c q rule: followEdges.induct)
    case (2 lc s ctx p e es c q)
    consider "\<not> jm_has (kc_nodeById ctx) (ed_target e) \<or> ed_target e \<in> set (cp_nodes p)"
      | "jm_has (kc_nodeById ctx) (ed_target e)" "ed_target e \<notin> set (cp_nodes p)"
        "ed_target e \<in> set (kc_visibleNodeIds ctx)"
      | "jm_has (kc_nodeById ctx) (ed_target e)" "ed_target e \<notin> set (cp_nodes p)"
        "ed_target e \<notin> set (kc_visibleNodeIds ctx)" by blast
    then show ?case
    proof cases
      case 1
      with 2(1) [OF 1] 2(4) show ?thesis by auto
    next
      case 2
      with "2.hyps"(2) "2.prems" show ?thesis by (auto simp: record_keys)
    next
      case 3
      with "2.hyps"(3) "2.prems" show ?thesis by auto
    qed
  qed auto
  show "sound_paths Q c'" if "sound_paths Q c" and "\<And>e. e \<in> set es \<Longrightarrow>
      jm_has (kc_nodeById ctx) (ed_target e) \<Longrightarrow>
      ed_target e \<notin> set (cp_nodes p) \<Longrightarrow> ed_target e \<in> set (kc_visibleNodeIds ctx) \<Longrightarrow>
      Q s (ed_target e) (extendPath p e)"
    using assms that
  proof (induction lc s ctx p es "(c, q)" arbitrary: c q rule: followEdges.induct)
    case (2 lc s ctx p e es c q)
    show ?case
    proof (cases "\<not> jm_has (kc_nodeById ctx) (ed_target e) \<or> ed_target e \<in> set (cp_nodes p)")
      case True
      with 2 show ?thesis by simp
    next
      case False
      then show ?thesis
        using 2 by (cases "ed_target e \<in> set (kc_visibleNodeIds ctx)") (simp_all add: record_sound)
    qed
  qed simp
qed


lemma found_follow:
  "{ed_target e | e. e \<in> set (neighboursOf (kc_outgoing ctx) (pathEnd p))
     \<and> jm_has (kc_nodeById ctx) (ed_target e) \<and> ed_target e \<notin> set (cp_nodes p)
     \<and> ed_target e \<in> set (kc_visibleNodeIds ctx)} = fst ` found ctx p"
  by (force simp: found_def)

lemma reachable_unfold:
  "(p0, p) \<in> (ext ctx)\<^sup>* \<longleftrightarrow> p = p0 \<or> (\<exists>x \<in> set (extensions ctx p0). (x, p) \<in> (ext ctx)\<^sup>*)"
  by (auto simp: ext_def elim: converse_rtranclE intro: converse_rtrancl_into_rtrancl)

lemma search_keys:
  "fst ` set (searchHidden lc s ctx c q) =
     fst ` set c \<union> {s} \<times> (\<Union>p0 \<in> set q. \<Union>p \<in> (ext ctx)\<^sup>* `` {p0}. fst ` found ctx p)"
proof (induction lc s ctx c q rule: searchHidden.induct)
  case (2 lc s ctx c p q)
  obtain c' q' where f: "followEdges lc s ctx p (neighboursOf (kc_outgoing ctx) (pathEnd p)) (c, q) = (c', q')"
    by fastforce
  then have q': "q' = q @ extensions ctx p"
    using followEdges_queue [of lc s ctx p "neighboursOf (kc_outgoing ctx) (pathEnd p)" c q]
    by (metis extensions_def snd_conv)
  let ?R = "\<lambda>p0. \<Union>x \<in> (ext ctx)\<^sup>* `` {p0}. fst ` found ctx x"
  have "(ext ctx)\<^sup>* `` {p} = insert p (\<Union>x \<in> set (extensions ctx p). (ext ctx)\<^sup>* `` {x})"
    using reachable_unfold [of p _ ctx] by auto
  then have R: "?R p = fst ` found ctx p \<union> (\<Union>x \<in> set (extensions ctx p). ?R x)"
    by (simp only: UN_insert UN_UN_flatten)
  have c': "fst ` set c' = fst ` set c \<union> {s} \<times> fst ` found ctx p"
    using follow_props(1) [OF f] by (simp only: found_follow)
  have "fst ` set (searchHidden lc s ctx c' q') = fst ` set c' \<union>
      {s} \<times> (\<Union>p0 \<in> set q'. ?R p0)"
    by (rule 2) (use f in simp_all)
  also have "(\<Union>p0 \<in> set q'. ?R p0) = (\<Union>p0 \<in> set q. ?R p0) \<union> (\<Union>x \<in> set (extensions ctx p). ?R x)"
    unfolding q' set_append by (rule UN_Un)
  finally have "fst ` set (searchHidden lc s ctx c' q') =
      fst ` set c \<union> {s} \<times> (?R p \<union> (\<Union>p0 \<in> set q. ?R p0))"
    by (simp only: c' R Sigma_Un_distrib2 Un_ac)
  then show ?case
    using f by simp
qed simp

lemma search_sound:
  assumes "sound_paths Q c"
    and "\<And>p0 p t x. p0 \<in> set q \<Longrightarrow> (p0, p) \<in> (ext ctx)\<^sup>* \<Longrightarrow> (t, x) \<in> found ctx p \<Longrightarrow> Q s t x"
  shows "sound_paths Q (searchHidden lc s ctx c q)"
  using assms
proof (induction lc s ctx c q rule: searchHidden.induct)
  case (2 lc s ctx c p q)
  obtain c' q' where f: "followEdges lc s ctx p (neighboursOf (kc_outgoing ctx) (pathEnd p)) (c, q) = (c', q')"
    by fastforce
  then have q': "q' = q @ extensions ctx p"
    using followEdges_queue [of lc s ctx p "neighboursOf (kc_outgoing ctx) (pathEnd p)" c q]
    by (metis extensions_def snd_conv)
  have c': "sound_paths Q c'"
    by (rule follow_props(2) [OF f 2(2)])
      (rule 2(3) [of p p], auto simp: found_def)
  have "sound_paths Q (searchHidden lc s ctx c' q')"
  proof (rule 2(1) [OF _ _ c'])
    fix p0 y t x assume p0: "p0 \<in> set q'" and y: "(p0, y) \<in> (ext ctx)\<^sup>*" "(t, x) \<in> found ctx y"
    show "Q s t x"
    proof (cases "p0 \<in> set q")
      case True
      with y 2(3) show ?thesis by (meson list.set_intros(2))
    next
      case False
      with p0 q' have "p0 \<in> set (extensions ctx p)" by simp
      with y have "(p, y) \<in> (ext ctx)\<^sup>*" using reachable_unfold by blast
      with y(2) 2(3) show ?thesis by (meson list.set_intros(1))
    qed
  qed (use f in simp_all)
  with f show ?case by simp
qed simp

section \<open>Which hidden nodes the search reaches\<close>

text \<open>The edges between nodes that exist, and the steps that stay among hidden nodes\<close>

definition known_rel :: "map_node list \<Rightarrow> map_edge list \<Rightarrow> (string \<times> string) set" where
  "known_rel nodes edges =
     {(s, t). (s, t) \<in> edge_rel edges \<and> s \<in> set (node_ids nodes) \<and> t \<in> set (node_ids nodes)}"

definition hidden_rel :: "map_node list \<Rightarrow> map_edge list \<Rightarrow> string set \<Rightarrow> (string \<times> string) set" where
  "hidden_rel nodes edges V = {(s, t) \<in> known_rel nodes edges. s \<notin> V \<and> t \<notin> V}"

lemma node_index_has: "jm_has (fold (\<lambda>n m. jm_set (nd_id n) n m) nodes m) i \<longleftrightarrow>
    i \<in> set (node_ids nodes) \<or> jm_has m i"
  by (induction nodes arbitrary: m) (auto simp: node_ids_def)

lemma node_index_known [simp]: "jm_has (nodeIndex nodes) i \<longleftrightarrow> i \<in> set (node_ids nodes)"
  by (simp add: nodeIndex_def node_index_has del: not_None_eq)

lemma outgoing_edges:
  "set (neighboursOf (fold (\<lambda>e m. appendDirectionalNeighbor m (ed_source e) e) edges m) u) =
     set (neighboursOf m u) \<union> {e \<in> set edges. ed_source e = u}"
  by (induction edges arbitrary: m) auto

lemma context_fields [simp]:
  "kc_nodeById (contextOf nodes edges vis) = nodeIndex nodes"
  "kc_visibleNodeIds (contextOf nodes edges vis) = vis"
  "set (neighboursOf (kc_outgoing (contextOf nodes edges vis)) u) = {e \<in> set edges. ed_source e = u}"
  by (simp_all add: contextOf_def outgoing_edges)

lemma extensions_iff:
  "x \<in> set (extensions (contextOf nodes edges vis) p) \<longleftrightarrow>
     (\<exists>e \<in> set edges. x = extendPath p e \<and> ed_source e = pathEnd p \<and> ed_target e \<in> set (node_ids nodes)
        \<and> ed_target e \<notin> set (cp_nodes p) \<and> ed_target e \<notin> set vis)"
  by (auto simp: extensions_def simp del: not_None_eq)

lemma found_iff:
  "(t, x) \<in> found (contextOf nodes edges vis) p \<longleftrightarrow>
     (\<exists>e \<in> set edges. t = ed_target e \<and> x = extendPath p e \<and> ed_source e = pathEnd p
        \<and> ed_target e \<in> set (node_ids nodes) \<and> ed_target e \<notin> set (cp_nodes p) \<and> ed_target e \<in> set vis)"
  by (auto simp: found_def simp del: not_None_eq)

lemma pathEnd_extend [simp]: "pathEnd (extendPath p e) = ed_target e"
  by (simp add: pathEnd_def extendPath_def)

lemma extend_fields [simp]:
  "cp_nodes (extendPath p e) = cp_nodes p @ [ed_target e]"
  "cp_edges (extendPath p e) = cp_edges p @ [e]"
  by (simp_all add: extendPath_def)

text \<open>A real path: it follows edges of the graph, visits no node twice and, except at its ends,
  only hidden nodes.\<close>

definition real_path ::
  "map_node list \<Rightarrow> map_edge list \<Rightarrow> string list \<Rightarrow> string \<Rightarrow> candidate_path \<Rightarrow> bool" where
  "real_path nodes edges vis s p \<longleftrightarrow>
     cp_nodes p = s # List.map ed_target (cp_edges p)
     \<and> butlast (cp_nodes p) = List.map ed_source (cp_edges p)
     \<and> set (cp_edges p) \<subseteq> set edges \<and> distinct (cp_nodes p)
     \<and> set (cp_nodes p) \<subseteq> set (node_ids nodes)
     \<and> (\<forall>x \<in> set (butlast (tl (cp_nodes p))). x \<notin> set vis)"

definition firstPath :: "string \<Rightarrow> map_edge \<Rightarrow> candidate_path" where
  "firstPath s e = \<lparr>cp_nodes = [s, ed_target e], cp_edges = [e]\<rparr>"

lemma real_extend:
  assumes "real_path nodes edges vis s p" and "pathEnd p \<notin> set vis" and "e \<in> set edges"
    and "ed_source e = pathEnd p" and "ed_target e \<in> set (node_ids nodes)" and "ed_target e \<notin> set (cp_nodes p)"
    and "cp_edges p \<noteq> []"
  shows "real_path nodes edges vis s (extendPath p e)"
proof -
  obtain es l where es: "cp_edges p = es @ [l]" using assms(7) by (metis rev_exhaust)
  with assms(1) have n: "cp_nodes p = s # List.map ed_target es @ [ed_target l]"
    by (simp add: real_path_def)
  have "butlast (tl (cp_nodes (extendPath p e))) = butlast (tl (cp_nodes p)) @ [pathEnd p]"
    by (simp add: n pathEnd_def butlast_append)
  with assms es n show ?thesis
    by (auto simp: real_path_def pathEnd_def butlast_append)
qed

lemma real_reachable:
  assumes "(firstPath s e, p) \<in> (ext (contextOf nodes edges vis))\<^sup>*"
    and "e \<in> set edges" and "ed_source e = s" and "s \<in> set (node_ids nodes)" and "s \<in> set vis"
    and "ed_target e \<in> set (node_ids nodes)" and "ed_target e \<notin> set vis"
  shows "real_path nodes edges vis s p \<and> pathEnd p \<notin> set vis \<and> cp_edges p \<noteq> []"
  using assms(1)
proof (induction rule: rtrancl_induct)
  case base
  then show ?case using assms by (auto simp: real_path_def firstPath_def pathEnd_def)
next
  case (step p x)
  then obtain f where "f \<in> set edges" "x = extendPath p f" "ed_source f = pathEnd p"
    "ed_target f \<in> set (node_ids nodes)" "ed_target f \<notin> set (cp_nodes p)" "ed_target f \<notin> set vis"
    by (auto simp: ext_def extensions_iff)
  with step.IH show ?case by (auto intro!: real_extend)
qed

lemma prefixes_reached:
  assumes "(firstPath s e, p) \<in> (ext ctx)\<^sup>*" and "y \<in> set (cp_nodes p)" and "y \<noteq> s"
  shows "\<exists>p'. (firstPath s e, p') \<in> (ext ctx)\<^sup>* \<and> pathEnd p' = y"
  using assms(1,2)
proof (induction rule: rtrancl_induct)
  case base
  with assms(3) have "pathEnd (firstPath s e) = y" by (simp add: firstPath_def pathEnd_def)
  then show ?case by blast
next
  case (step p x)
  then obtain f where x: "x = extendPath p f" by (auto simp: ext_def extensions_def)
  with step.prems consider "y \<in> set (cp_nodes p)" | "pathEnd x = y" by auto
  then show ?case
  proof cases
    case 1
    then show ?thesis by (rule step.IH)
  next
    case 2
    from step.hyps have "(firstPath s e, x) \<in> (ext ctx)\<^sup>*" by (rule rtrancl_into_rtrancl)
    with 2 show ?thesis by blast
  qed
qed

lemma hidden_reached:
  assumes "(ed_target e, y) \<in> (hidden_rel nodes edges (set vis))\<^sup>*" and s: "s \<in> set vis"
  shows "\<exists>p. (firstPath s e, p) \<in> (ext (contextOf nodes edges vis))\<^sup>* \<and> pathEnd p = y"
  using assms(1)
proof (induction rule: rtrancl_induct)
  case base
  have "pathEnd (firstPath s e) = ed_target e" by (simp add: firstPath_def pathEnd_def)
  then show ?case by blast
next
  case (step y z)
  then obtain p where p: "(firstPath s e, p) \<in> (ext (contextOf nodes edges vis))\<^sup>*" "pathEnd p = y" by blast
  from step.hyps obtain f where f: "f \<in> set edges" "ed_source f = y" "ed_target f = z"
    "z \<in> set (node_ids nodes)" "z \<notin> set vis"
    by (auto simp: hidden_rel_def known_rel_def edge_rel_def)
  show ?case
  proof (cases "z \<in> set (cp_nodes p)")
    case True
    with p(1) show ?thesis using f(5) s by (metis prefixes_reached)
  next
    case False
    then have "(p, extendPath p f) \<in> ext (contextOf nodes edges vis)"
      using f p(2) by (auto simp: ext_def extensions_iff)
    with p(1) f(3) show ?thesis by (meson pathEnd_extend rtrancl_into_rtrancl)
  qed
qed

section \<open>The contracted graph\<close>

definition hidden_link :: "map_node list \<Rightarrow> map_edge list \<Rightarrow> string set \<Rightarrow> string \<Rightarrow> string \<Rightarrow> bool" where
  "hidden_link nodes edges V s t \<longleftrightarrow>
     (\<exists>h y. (s, h) \<in> known_rel nodes edges \<and> h \<notin> V \<and> (h, y) \<in> (hidden_rel nodes edges V)\<^sup>*
        \<and> (y, t) \<in> known_rel nodes edges)"

lemma fold_keys:
  assumes "\<And>x m. x \<in> set xs \<Longrightarrow> fst ` set (f x m) = fst ` set m \<union> F x"
  shows "fst ` set (fold f xs m) = fst ` set m \<union> (\<Union>x \<in> set xs. F x)"
  using assms
proof (induction xs arbitrary: m)
  case (Cons x xs)
  have "fst ` set (fold f xs (f x m)) = fst ` set (f x m) \<union> (\<Union>x \<in> set xs. F x)"
    by (rule Cons.IH) (simp add: Cons.prems)
  with Cons.prems [of x m] show ?case by (simp add: Un_assoc)
qed simp

lemma fold_sound:
  assumes "P m" and "\<And>x m. x \<in> set xs \<Longrightarrow> P m \<Longrightarrow> P (f x m)"
  shows "P (fold f xs m)"
  using assms by (induction xs arbitrary: m) auto

lemma rtrancl_end_hidden:
  "(h, y) \<in> (hidden_rel nodes edges V)\<^sup>* \<Longrightarrow> h \<notin> V \<Longrightarrow> y \<notin> V"
  by (induction rule: rtrancl_induct) (auto simp: hidden_rel_def)

lemma found_link:
  assumes e: "e \<in> set edges" "ed_source e = s" "ed_target e \<in> set (node_ids nodes)" "ed_target e \<notin> set vis"
    and s: "s \<in> set vis" "s \<in> set (node_ids nodes)"
  shows "(\<exists>p \<in> (ext (contextOf nodes edges vis))\<^sup>* `` {firstPath s e}. t \<in> fst ` found (contextOf nodes edges vis) p)
    \<longleftrightarrow> t \<in> set vis \<and> t \<noteq> s \<and>
      (\<exists>y. (ed_target e, y) \<in> (hidden_rel nodes edges (set vis))\<^sup>* \<and> (y, t) \<in> known_rel nodes edges)"
    (is "?L \<longleftrightarrow> ?R")
proof
  assume ?L
  then obtain p f where p: "(firstPath s e, p) \<in> (ext (contextOf nodes edges vis))\<^sup>*"
    and f: "f \<in> set edges" "t = ed_target f" "ed_source f = pathEnd p" "t \<in> set (node_ids nodes)"
      "t \<notin> set (cp_nodes p)" "t \<in> set vis"
    by (auto simp: found_iff)
  have real: "real_path nodes edges vis s p" "pathEnd p \<notin> set vis" "cp_edges p \<noteq> []"
    using real_reachable [OF p e(1,2) s(2,1) e(3,4)] by auto
  have "(ed_target e, pathEnd p) \<in> (hidden_rel nodes edges (set vis))\<^sup>* \<and> pathEnd p \<notin> set vis
      \<and> pathEnd p \<in> set (node_ids nodes)"
    using p
  proof (induction rule: rtrancl_induct)
    case base
    then show ?case using e by (simp add: firstPath_def pathEnd_def)
  next
    case (step p x)
    then obtain g where "g \<in> set edges" "x = extendPath p g" "ed_source g = pathEnd p"
      "ed_target g \<in> set (node_ids nodes)" "ed_target g \<notin> set vis"
      by (auto simp: ext_def extensions_iff)
    then have "(pathEnd p, pathEnd x) \<in> hidden_rel nodes edges (set vis)"
      "pathEnd x \<notin> set vis" "pathEnd x \<in> set (node_ids nodes)"
      using step.IH by (force simp: hidden_rel_def known_rel_def edge_rel_def)+
    with step.IH show ?case by (meson rtrancl_into_rtrancl)
  qed
  moreover from this have "(pathEnd p, t) \<in> known_rel nodes edges"
    using f by (force simp: known_rel_def edge_rel_def)
  moreover have "t \<noteq> s" using f(5) real(1) by (auto simp: real_path_def)
  ultimately show ?R using f(6) by blast
next
  assume ?R
  then obtain y where t: "t \<in> set vis" "t \<noteq> s" and y: "(ed_target e, y) \<in> (hidden_rel nodes edges (set vis))\<^sup>*"
    and yt: "(y, t) \<in> known_rel nodes edges" by blast
  from hidden_reached [OF y s(1)] obtain p where
    p: "(firstPath s e, p) \<in> (ext (contextOf nodes edges vis))\<^sup>*" "pathEnd p = y" by blast
  have real: "real_path nodes edges vis s p" "pathEnd p \<notin> set vis" "cp_edges p \<noteq> []"
    using real_reachable [OF p(1) e(1,2) s(2,1) e(3,4)] by auto
  then have n: "cp_nodes p = s # butlast (tl (cp_nodes p)) @ [pathEnd p]"
    by (cases "cp_edges p" rule: rev_cases) (auto simp: real_path_def pathEnd_def butlast_append)
  have "t \<notin> set (cp_nodes p)"
    using real t by (subst n) (auto simp: real_path_def)
  moreover from yt obtain f where "f \<in> set edges" "ed_source f = y" "ed_target f = t"
    "t \<in> set (node_ids nodes)" by (auto simp: known_rel_def edge_rel_def)
  ultimately have "(t, extendPath p f) \<in> found (contextOf nodes edges vis) p"
    using p(2) t(1) by (auto simp: found_iff)
  with p(1) show ?L by force
qed

lemma union_by_source:
  "(\<And>s. G s \<subseteq> {s} \<times> UNIV) \<Longrightarrow> (\<Union>n \<in> A. G (f n)) = {(s, t). s \<in> f ` A \<and> (s, t) \<in> G s}"
  by fast

lemma contract_keys:
  assumes vis: "vis = js_unique (node_ids visible)" and sub: "set visible \<subseteq> set nodes"
  shows "fst ` set (contractAll lc (contextOf nodes edges vis) visible) =
    {(s, t). s \<in> set vis \<and> t \<in> set vis \<and> t \<noteq> s \<and> hidden_link nodes edges (set vis) s t}"
proof -
  let ?ctx = "contextOf nodes edges vis"
  let ?F = "\<lambda>s. {e \<in> set edges. ed_source e = s \<and> startsHidden ?ctx e}"
  let ?K = "\<lambda>s e. {s} \<times> (\<Union>p \<in> (ext ?ctx)\<^sup>* `` {firstPath s e}. fst ` found ?ctx p)"
  have step: "fst ` set (if startsHidden ?ctx e then collectHiddenPaths lc s e ?ctx m else m) =
      fst ` set m \<union> (if startsHidden ?ctx e then ?K s e else {})" for s e m
    by (simp add: collectHiddenPaths_def search_keys firstPath_def del: searchHidden.simps)
  have inner: "fst ` set (fold (\<lambda>e m. if startsHidden ?ctx e then collectHiddenPaths lc (nd_id n) e ?ctx m else m)
      (neighboursOf (kc_outgoing ?ctx) (nd_id n)) m) = fst ` set m \<union> (\<Union>e \<in> ?F (nd_id n). ?K (nd_id n) e)" for n m
    by (subst fold_keys [OF step]) auto
  have all: "fst ` set (contractAll lc ?ctx visible) = (\<Union>n \<in> set visible. \<Union>e \<in> ?F (nd_id n). ?K (nd_id n) e)"
    unfolding contractAll_def by (subst fold_keys [OF inner]) simp
  have ids: "set vis = nd_id ` set visible" by (simp add: vis node_ids_def)
  then have known: "set vis \<subseteq> set (node_ids nodes)" using sub by (auto simp: node_ids_def)
  have "(s, t) \<in> (\<Union>e \<in> ?F s. ?K s e) \<longleftrightarrow> t \<in> set vis \<and> t \<noteq> s \<and> hidden_link nodes edges (set vis) s t"
    if s: "s \<in> set vis" for s t
  proof -
    have "(s, t) \<in> (\<Union>e \<in> ?F s. ?K s e) \<longleftrightarrow> (\<exists>e \<in> ?F s. t \<in> set vis \<and> t \<noteq> s \<and>
        (\<exists>y. (ed_target e, y) \<in> (hidden_rel nodes edges (set vis))\<^sup>* \<and> (y, t) \<in> known_rel nodes edges))"
    proof -
      have "(s, t) \<in> (\<Union>e \<in> ?F s. ?K s e) \<longleftrightarrow> (\<exists>e \<in> ?F s. \<exists>p \<in> (ext ?ctx)\<^sup>* `` {firstPath s e}. t \<in> fst ` found ?ctx p)"
        by simp
      also have "\<dots> \<longleftrightarrow> (\<exists>e \<in> ?F s. t \<in> set vis \<and> t \<noteq> s \<and>
        (\<exists>y. (ed_target e, y) \<in> (hidden_rel nodes edges (set vis))\<^sup>* \<and> (y, t) \<in> known_rel nodes edges))"
      proof (rule bex_cong [OF refl], rule found_link)
        show "s \<in> set vis" "s \<in> set (node_ids nodes)" using s known by auto
      qed (simp_all add: startsHidden_def del: not_None_eq)
      finally show ?thesis .
    qed
    also have "\<dots> \<longleftrightarrow> t \<in> set vis \<and> t \<noteq> s \<and> hidden_link nodes edges (set vis) s t"
      using s known by (auto simp: startsHidden_def hidden_link_def known_rel_def edge_rel_def simp del: not_None_eq)
    finally show ?thesis .
  qed
  moreover have "fst ` set (contractAll lc ?ctx visible) =
      {(s, t). s \<in> set vis \<and> (s, t) \<in> (\<Union>e \<in> ?F s. ?K s e)}"
    unfolding all ids by (rule union_by_source) blast
  ultimately show ?thesis
    by (simp only: set_eq_iff split_paired_All mem_Collect_eq prod.case) (simp cong: conj_cong)
qed

lemma contract_sound:
  assumes vis: "vis = js_unique (node_ids visible)" and sub: "set visible \<subseteq> set nodes"
  shows "sound_paths (\<lambda>s t p. real_path nodes edges vis s p \<and> pathEnd p = t \<and> 2 \<le> length (cp_edges p))
    (contractAll lc (contextOf nodes edges vis) visible)"
    (is "sound_paths ?Q _")
  unfolding contractAll_def
proof (rule fold_sound [where P = "sound_paths ?Q"], simp add: sound_paths_def)
  fix n m assume n: "n \<in> set visible" and m: "sound_paths ?Q m"
  have s: "nd_id n \<in> set vis" "nd_id n \<in> set (node_ids nodes)"
    using n sub by (auto simp: vis node_ids_def)
  let ?ctx = "contextOf nodes edges vis"
  show "sound_paths ?Q (fold (\<lambda>e m. if startsHidden ?ctx e then collectHiddenPaths lc (nd_id n) e ?ctx m else m)
      (neighboursOf (kc_outgoing ?ctx) (nd_id n)) m)"
  proof (rule fold_sound [where P = "sound_paths ?Q", OF m])
    fix e m assume e: "e \<in> set (neighboursOf (kc_outgoing ?ctx) (nd_id n))" and m: "sound_paths ?Q m"
    show "sound_paths ?Q (if startsHidden ?ctx e then collectHiddenPaths lc (nd_id n) e ?ctx m else m)"
    proof (cases "startsHidden ?ctx e")
      case True
      then have h: "ed_target e \<in> set (node_ids nodes)" "ed_target e \<notin> set vis"
        by (simp_all add: startsHidden_def del: not_None_eq)
      have "sound_paths ?Q (searchHidden lc (nd_id n) ?ctx m [firstPath (nd_id n) e])"
      proof (rule search_sound [OF m])
        fix p0 p t x assume "p0 \<in> set [firstPath (nd_id n) e]" and p: "(p0, p) \<in> (ext ?ctx)\<^sup>*"
          and x: "(t, x) \<in> found ?ctx p"
        then have "(firstPath (nd_id n) e, p) \<in> (ext ?ctx)\<^sup>*" by simp
        then have real: "real_path nodes edges vis (nd_id n) p" "pathEnd p \<notin> set vis" "cp_edges p \<noteq> []"
          using real_reachable s h e by auto
        from x obtain f where f: "f \<in> set edges" "t = ed_target f" "x = extendPath p f" "ed_source f = pathEnd p"
          "ed_target f \<in> set (node_ids nodes)" "ed_target f \<notin> set (cp_nodes p)"
          by (auto simp: found_iff)
        then show "?Q (nd_id n) t x"
          using real_extend [OF real(1,2) f(1,4,5,6) real(3)] real(3)
          by (cases "cp_edges p") auto
      qed
      then show ?thesis by (simp add: True collectHiddenPaths_def firstPath_def del: searchHidden.simps)
    next
      case False
      with m show ?thesis by simp
    qed
  qed
qed

lemma filtered_path_some:
  assumes "set (cp_nodes p) \<subseteq> set (node_ids nodes)"
  shows "\<exists>path. toFilteredPath p k (nodeIndex nodes) vis = Some path \<and>
    List.map fpn_id (fp_nodes path) = cp_nodes p \<and>
    fp_relationships path = List.map (\<lambda>e. (ed_type e, ed_label e)) (cp_edges p)"
proof -
  have "List.map fpn_id (List.map_filter (\<lambda>i. map_option
      (\<lambda>n. \<lparr>fpn_id = i, fpn_ref = nd_ref n, fpn_filtered = i \<notin> set vis\<rparr>) (jm_get (nodeIndex nodes) i)) is) = is"
    if "set is \<subseteq> set (node_ids nodes)" for "is"
    using that
  proof (induction "is")
    case (Cons i "is")
    then have "jm_has (nodeIndex nodes) i" by (simp del: not_None_eq)
    then obtain n where "jm_get (nodeIndex nodes) i = Some n" by blast
    with Cons show ?case by (simp add: List.map_filter_def)
  qed (simp add: List.map_filter_def)
  from this [OF assms] show ?thesis
    unfolding toFilteredPath_def Let_def by (metis (no_types, lifting) filtered_path.select_convs(1,2) length_map)
qed

definition visible_ids :: "map_node list \<Rightarrow> string list \<Rightarrow> string list" where
  "visible_ids nodes selectedKinds =
     js_unique (node_ids (filter (\<lambda>n. ref_kind (nd_ref n) \<in> set selectedKinds) nodes))"

lemma visible_known: "set (visible_ids nodes kinds) \<subseteq> set (node_ids nodes)"
  by (auto simp: visible_ids_def node_ids_def)

lemma contracted_parts:
  assumes "contractObjectMapKindFilter lc nodes edges kinds = (nodes', edges')" and "kinds \<noteq> []"
  shows "nodes' = filter (\<lambda>n. ref_kind (nd_ref n) \<in> set kinds) nodes"
    and "edges' = filter (\<lambda>e. ed_source e \<in> set (visible_ids nodes kinds)
        \<and> ed_target e \<in> set (visible_ids nodes kinds)) edges
      @ List.map_filter (contractedEdge (contextOf nodes edges (visible_ids nodes kinds)))
          (contractAll lc (contextOf nodes edges (visible_ids nodes kinds)) nodes')"
  using assms by (auto simp: contractObjectMapKindFilter_def visible_ids_def Let_def)

lemma contracted_entry:
  assumes f: "contractObjectMapKindFilter lc nodes edges kinds = (nodes', edges')" and k: "kinds \<noteq> []"
    and c: "((s, t), c) \<in> set (contractAll lc (contextOf nodes edges (visible_ids nodes kinds)) nodes')"
  shows "real_path nodes edges (visible_ids nodes kinds) s (ctp_path c) \<and> pathEnd (ctp_path c) = t
    \<and> 2 \<le> length (cp_edges (ctp_path c))"
proof -
  have v: "visible_ids nodes kinds = js_unique (node_ids nodes')"
    using contracted_parts(1) [OF f k] by (simp add: visible_ids_def)
  have "set nodes' \<subseteq> set nodes" using contracted_parts(1) [OF f k] by auto
  from contract_sound [OF v this] c show ?thesis
    by (auto simp: sound_paths_def)
qed

lemma contracted_edge:
  assumes f: "contractObjectMapKindFilter lc nodes edges kinds = (nodes', edges')" and k: "kinds \<noteq> []"
    and c: "((s, t), c) \<in> set (contractAll lc (contextOf nodes edges (visible_ids nodes kinds)) nodes')"
  shows "\<exists>e path. contractedEdge (contextOf nodes edges (visible_ids nodes kinds)) ((s, t), c) = Some e
    \<and> ed_source e = s \<and> ed_target e = t \<and> ed_type e = FILTERED_PATH_EDGE_TYPE
    \<and> ed_filteredPath e = Some path \<and> List.map fpn_id (fp_nodes path) = cp_nodes (ctp_path c)
    \<and> fp_relationships path = List.map (\<lambda>e. (ed_type e, ed_label e)) (cp_edges (ctp_path c))"
proof -
  have "set (cp_nodes (ctp_path c)) \<subseteq> set (node_ids nodes)"
    using contracted_entry [OF f k c] unfolding real_path_def by blast
  from filtered_path_some [OF this] obtain path where
    "toFilteredPath (ctp_path c) (ctp_count c) (nodeIndex nodes) (visible_ids nodes kinds) = Some path"
    "List.map fpn_id (fp_nodes path) = cp_nodes (ctp_path c)"
    "fp_relationships path = List.map (\<lambda>e. (ed_type e, ed_label e)) (cp_edges (ctp_path c))" by blast
  then show ?thesis by (simp add: contractedEdge_def)
qed

lemma contracted_rel:
  assumes f: "contractObjectMapKindFilter lc nodes edges kinds = (nodes', edges')" and k: "kinds \<noteq> []"
  shows "edge_rel edges' = {(s, t). s \<in> set (visible_ids nodes kinds) \<and> t \<in> set (visible_ids nodes kinds)
    \<and> ((s, t) \<in> edge_rel edges \<or> t \<noteq> s \<and> hidden_link nodes edges (set (visible_ids nodes kinds)) s t)}"
proof -
  let ?vis = "visible_ids nodes kinds"
  let ?all = "contractAll lc (contextOf nodes edges ?vis) nodes'"
  let ?new = "List.map_filter (contractedEdge (contextOf nodes edges ?vis)) ?all"
  have v: "?vis = js_unique (node_ids nodes')"
    using contracted_parts(1) [OF f k] by (simp add: visible_ids_def)
  have "set nodes' \<subseteq> set nodes" using contracted_parts(1) [OF f k] by auto
  note keys = contract_keys [OF v this]
  have mem: "(s, t) \<in> edge_rel ?new \<longleftrightarrow> (s, t) \<in> fst ` set ?all" for s t
  proof
    assume "(s, t) \<in> edge_rel ?new"
    then obtain s' t' c e where "((s', t'), c) \<in> set ?all"
      "contractedEdge (contextOf nodes edges ?vis) ((s', t'), c) = Some e" "ed_source e = s" "ed_target e = t"
      by (auto simp: edge_rel_def map_filter_def)
    with contracted_edge [OF f k] show "(s, t) \<in> fst ` set ?all" by force
  next
    assume "(s, t) \<in> fst ` set ?all"
    then obtain c where c: "((s, t), c) \<in> set ?all" by force
    from contracted_edge [OF f k this] obtain e where
      e: "contractedEdge (contextOf nodes edges ?vis) ((s, t), c) = Some e" "ed_source e = s" "ed_target e = t"
      by blast
    have "e \<in> set ?new" using c e(1) by (force simp: map_filter_def)
    with e show "(s, t) \<in> edge_rel ?new" by (force simp: edge_rel_def)
  qed
  have "edge_rel edges' = edge_rel (filter (\<lambda>e. ed_source e \<in> set ?vis \<and> ed_target e \<in> set ?vis) edges)
      \<union> edge_rel ?new"
    using contracted_parts(2) [OF f k] by (simp add: edge_rel_def image_Un)
  also have "edge_rel ?new = fst ` set ?all" using mem by (auto intro: set_eqI)
  finally show ?thesis unfolding keys by (auto simp: edge_rel_def)
qed

section \<open>Reachability through the filter\<close>

lemma hidden_link_reach: "hidden_link nodes edges V s t \<Longrightarrow> (s, t) \<in> (known_rel nodes edges)\<^sup>*"
proof -
  assume "hidden_link nodes edges V s t"
  then obtain h y where "(s, h) \<in> known_rel nodes edges" "(h, y) \<in> (hidden_rel nodes edges V)\<^sup>*"
    "(y, t) \<in> known_rel nodes edges" by (auto simp: hidden_link_def)
  moreover have "(hidden_rel nodes edges V)\<^sup>* \<subseteq> (known_rel nodes edges)\<^sup>*"
    by (rule rtrancl_mono) (auto simp: hidden_rel_def)
  ultimately show ?thesis
    by (meson converse_rtrancl_into_rtrancl rtrancl_into_rtrancl subsetD)
qed

lemma walk_decomposed:
  assumes "(u, y) \<in> (known_rel nodes edges)\<^sup>*" and u: "u \<in> V"
    and F: "\<And>s t. s \<in> V \<Longrightarrow> t \<in> V \<Longrightarrow> (s, t) \<in> known_rel nodes edges \<or> t \<noteq> s \<and> hidden_link nodes edges V s t
      \<Longrightarrow> (s, t) \<in> F"
  shows "if y \<in> V then (u, y) \<in> F\<^sup>*
    else \<exists>w h. w \<in> V \<and> (u, w) \<in> F\<^sup>* \<and> (w, h) \<in> known_rel nodes edges \<and> h \<notin> V \<and>
      (h, y) \<in> (hidden_rel nodes edges V)\<^sup>*"
  using assms(1)
proof (induction rule: rtrancl_induct)
  case (step y z)
  show ?case
  proof (cases "y \<in> V")
    case True
    with step.IH have y: "(u, y) \<in> F\<^sup>*" by simp
    show ?thesis
    proof (cases "z \<in> V")
      case z: True
      with True step.hyps F have "(y, z) \<in> F" by blast
      with y z show ?thesis by (simp add: rtrancl_into_rtrancl)
    next
      case False
      with True y step.hyps show ?thesis by auto
    qed
  next
    case False
    with step.IH obtain w h where w: "w \<in> V" "(u, w) \<in> F\<^sup>*" "(w, h) \<in> known_rel nodes edges" "h \<notin> V"
      "(h, y) \<in> (hidden_rel nodes edges V)\<^sup>*" by auto
    show ?thesis
    proof (cases "z \<in> V")
      case z: True
      from w step.hyps have "hidden_link nodes edges V w z" by (auto simp: hidden_link_def)
      with w(1) z F have "z = w \<or> (w, z) \<in> F" by blast
      with w(2) z show ?thesis by (auto intro: rtrancl_into_rtrancl)
    next
      case z: False
      with False step.hyps have "(y, z) \<in> hidden_rel nodes edges V" by (simp add: hidden_rel_def)
      with w have "(h, z) \<in> (hidden_rel nodes edges V)\<^sup>*" by (meson rtrancl_into_rtrancl)
      with w z show ?thesis by auto
    qed
  qed
qed (use u in simp)

lemma filter_reach:
  assumes f: "contractObjectMapKindFilter lc nodes edges kinds = (nodes', edges')" and k: "kinds \<noteq> []"
    and u: "u \<in> set (node_ids nodes')" and v: "v \<in> set (node_ids nodes')"
  shows "(u, v) \<in> (edge_rel edges')\<^sup>* \<longleftrightarrow> (u, v) \<in> (known_rel nodes edges)\<^sup>*"
proof
  let ?V = "set (visible_ids nodes kinds)"
  have V: "?V = set (node_ids nodes')" using contracted_parts(1) [OF f k] by (simp add: visible_ids_def)
  have sub: "?V \<subseteq> set (node_ids nodes)" by (rule visible_known)
  note rel = contracted_rel [OF f k]
  assume "(u, v) \<in> (edge_rel edges')\<^sup>*"
  moreover have "edge_rel edges' \<subseteq> (known_rel nodes edges)\<^sup>*"
  proof
    fix x assume "x \<in> edge_rel edges'"
    then obtain s t where x: "x = (s, t)" "s \<in> ?V" "t \<in> ?V"
      "(s, t) \<in> edge_rel edges \<or> hidden_link nodes edges ?V s t"
      unfolding rel by auto
    then show "x \<in> (known_rel nodes edges)\<^sup>*"
      using sub hidden_link_reach by (fastforce simp: known_rel_def)
  qed
  ultimately show "(u, v) \<in> (known_rel nodes edges)\<^sup>*"
    by (meson rtrancl_subset_rtrancl subsetD)
next
  let ?V = "set (visible_ids nodes kinds)"
  have V: "?V = set (node_ids nodes')" using contracted_parts(1) [OF f k] by (simp add: visible_ids_def)
  assume uv: "(u, v) \<in> (known_rel nodes edges)\<^sup>*"
  have "(s, t) \<in> edge_rel edges'" if "s \<in> ?V" "t \<in> ?V"
    "(s, t) \<in> known_rel nodes edges \<or> t \<noteq> s \<and> hidden_link nodes edges ?V s t" for s t
    using that unfolding contracted_rel [OF f k] by (auto simp: known_rel_def)
  from walk_decomposed [OF uv _ this] u v V show "(u, v) \<in> (edge_rel edges')\<^sup>*" by auto
qed

section \<open>The path an edge stands for is a shortest one\<close>

text \<open>An entry that is at most as long as a path stays so.\<close>

definition at_most :: "contracted_paths \<Rightarrow> string \<Rightarrow> string \<Rightarrow> candidate_path \<Rightarrow> bool" where
  "at_most m s t x \<longleftrightarrow>
     (\<exists>c. jm_get m (s, t) = Some c \<and> length (cp_edges (ctp_path c)) \<le> length (cp_edges x))"

lemma record_at_most:
  "at_most (recordContractedPath lc s t p m) s t p"
  "at_most m s' t' x \<Longrightarrow> at_most (recordContractedPath lc s t p m) s' t' x"
proof -
  have shorter: "comparePath lc a b < 0 \<Longrightarrow> length (cp_edges a) \<le> length (cp_edges b)"
    "\<not> comparePath lc a b < 0 \<Longrightarrow> length (cp_edges b) \<le> length (cp_edges a)" for a b
    by (auto simp: comparePath_def split: if_splits)
  show "at_most (recordContractedPath lc s t p m) s t p"
    by (auto simp: at_most_def recordContractedPath_def shorter(2) split: option.split)
  show "at_most m s' t' x \<Longrightarrow> at_most (recordContractedPath lc s t p m) s' t' x"
    using shorter(1) [of p] by (auto simp: at_most_def recordContractedPath_def simp del: map_of_eq_Some_iff
        split: option.splits) (meson order_trans)
qed

lemma follow_at_most:
  "at_most c s' t' x \<Longrightarrow> at_most (fst (followEdges lc s ctx p es (c, q))) s' t' x"
proof (induction lc s ctx p es "(c, q)" arbitrary: c q rule: followEdges.induct)
  case (2 lc s ctx p e es c q)
  then show ?case by (simp add: record_at_most(2))
qed simp

lemma follow_found:
  "e \<in> set es \<Longrightarrow> jm_has (kc_nodeById ctx) (ed_target e) \<Longrightarrow> ed_target e \<notin> set (cp_nodes p) \<Longrightarrow>
   ed_target e \<in> set (kc_visibleNodeIds ctx) \<Longrightarrow>
   at_most (fst (followEdges lc s ctx p es (c, q))) s (ed_target e) (extendPath p e)"
proof (induction lc s ctx p es "(c, q)" arbitrary: c q rule: followEdges.induct)
  case (2 lc s ctx p f es c q)
  show ?case
  proof (cases "e = f")
    case True
    with 2 show ?thesis by (simp add: follow_at_most record_at_most(1))
  next
    case False
    with 2 show ?thesis by simp
  qed
qed simp

lemma search_keeps:
  "at_most c s' t' x \<Longrightarrow> at_most (searchHidden lc s ctx c q) s' t' x"
proof (induction lc s ctx c q rule: searchHidden.induct)
  case (2 lc s ctx c p q)
  obtain c' q' where f: "followEdges lc s ctx p (neighboursOf (kc_outgoing ctx) (pathEnd p)) (c, q) = (c', q')"
    by fastforce
  with follow_at_most [OF 2(2), of lc s ctx p "neighboursOf (kc_outgoing ctx) (pathEnd p)" q]
  have "at_most c' s' t' x" by simp
  from 2(1) [OF f [symmetric] refl this] f show ?case by simp
qed simp

lemma search_at_most:
  assumes "p0 \<in> set q" and "(p0, p) \<in> (ext ctx)\<^sup>*" and "(t, x) \<in> found ctx p"
  shows "at_most (searchHidden lc s ctx c q) s t x"
  using assms
proof (induction lc s ctx c q arbitrary: p0 rule: searchHidden.induct)
  case (2 lc s ctx c r q)
  obtain c' q' where f: "followEdges lc s ctx r (neighboursOf (kc_outgoing ctx) (pathEnd r)) (c, q) = (c', q')"
    by fastforce
  then have q': "q' = q @ extensions ctx r"
    using followEdges_queue [of lc s ctx r "neighboursOf (kc_outgoing ctx) (pathEnd r)" c q]
    by (metis extensions_def snd_conv)
  have step: "searchHidden lc s ctx c (r # q) = searchHidden lc s ctx c' q'" using f by simp
  consider "p0 \<in> set q" | "p0 = r" using "2.prems"(1) by auto
  then show ?case
  proof cases
    case 1
    then have "p0 \<in> set q'" by (simp add: q')
    from "2.IH" [OF f [symmetric] refl this "2.prems"(2,3)] show ?thesis by (simp only: step)
  next
    case 2
    with "2.prems"(2) reachable_unfold [of r p ctx]
    consider "p = r" | y where "y \<in> set (extensions ctx r)" "(y, p) \<in> (ext ctx)\<^sup>*" by auto
    then show ?thesis
    proof cases
      case 1
      from "2.prems"(3) obtain e where "t = ed_target e" "x = extendPath r e"
        "e \<in> set (neighboursOf (kc_outgoing ctx) (pathEnd r))" "jm_has (kc_nodeById ctx) (ed_target e)"
        "ed_target e \<notin> set (cp_nodes r)" "ed_target e \<in> set (kc_visibleNodeIds ctx)"
        unfolding found_def mem_Collect_eq prod.inject 1 by (elim exE conjE) (rule that, assumption+)
      then have "at_most c' s t x"
        using follow_found [of e "neighboursOf (kc_outgoing ctx) (pathEnd r)" ctx r lc s c q] f by simp
      then show ?thesis unfolding step by (rule search_keeps)
    next
      case 2
      then have "y \<in> set q'" by (simp add: q')
      from "2.IH" [OF f [symmetric] refl this 2(2) "2.prems"(3)] show ?thesis by (simp only: step)
    qed
  qed
qed simp

definition pathOf :: "string \<Rightarrow> map_edge list \<Rightarrow> candidate_path" where
  "pathOf s es = \<lparr>cp_nodes = s # List.map ed_target es, cp_edges = es\<rparr>"

lemma real_pathOf: "real_path nodes edges vis s x \<Longrightarrow> x = pathOf s (cp_edges x)"
  by (simp add: real_path_def pathOf_def)

lemma pathOf_snoc: "pathOf s (es @ [e]) = extendPath (pathOf s es) e"
  by (simp add: pathOf_def extendPath_def)

lemma real_snoc:
  assumes "real_path nodes edges vis s (pathOf s (es @ [e]))"
  shows "real_path nodes edges vis s (pathOf s es)" and "e \<in> set edges" and "ed_source e = pathEnd (pathOf s es)"
    and "ed_target e \<in> set (node_ids nodes)" and "ed_target e \<notin> set (cp_nodes (pathOf s es))"
    and "es \<noteq> [] \<Longrightarrow> pathEnd (pathOf s es) \<notin> set vis"
proof -
  note R = assms [unfolded real_path_def pathOf_def candidate_path.select_convs]
  let ?ns = "s # List.map ed_target es"
  have ns: "s # List.map ed_target (es @ [e]) = ?ns @ [ed_target e]" by simp
  have src: "?ns = List.map ed_source es @ [ed_source e]"
    using R [THEN conjunct2, THEN conjunct1] unfolding ns butlast_snoc by simp
  have d: "distinct (?ns @ [ed_target e])" and known: "set (?ns @ [ed_target e]) \<subseteq> set (node_ids nodes)"
    and es: "set (es @ [e]) \<subseteq> set edges"
    using R unfolding ns by blast+
  have inner: "\<forall>x \<in> set (List.map ed_target es). x \<notin> set vis"
    using R [THEN conjunct2, THEN conjunct2, THEN conjunct2, THEN conjunct2, THEN conjunct2] by simp
  have butl: "butlast ?ns = List.map ed_source es" unfolding src by (rule butlast_snoc)
  have "\<forall>x \<in> set (butlast (List.map ed_target es)). x \<notin> set vis"
    using inner by (auto dest!: in_set_butlastD)
  with butl d known es show "real_path nodes edges vis s (pathOf s es)"
    by (auto simp: real_path_def pathOf_def simp del: butlast.simps)
  show "ed_source e = pathEnd (pathOf s es)"
    unfolding pathEnd_def pathOf_def candidate_path.select_convs src by simp
  show "e \<in> set edges" "ed_target e \<in> set (node_ids nodes)" "ed_target e \<notin> set (cp_nodes (pathOf s es))"
    using d known es by (auto simp: pathOf_def)
  show "pathEnd (pathOf s es) \<notin> set vis" if "es \<noteq> []"
  proof -
    have "last (List.map ed_target es) \<in> set (List.map ed_target es)" using that by (intro last_in_set) simp
    with inner have "last (List.map ed_target es) \<notin> set vis" by blast
    with that show ?thesis by (simp add: pathEnd_def pathOf_def)
  qed
qed

lemma real_found:
  assumes "real_path nodes edges vis s (pathOf s (e # es))" and "pathEnd (pathOf s (e # es)) \<notin> set vis"
  shows "(firstPath s e, pathOf s (e # es)) \<in> (ext (contextOf nodes edges vis))\<^sup>*"
  using assms
proof (induction es rule: rev_induct)
  case Nil
  then show ?case by (simp add: firstPath_def pathOf_def)
next
  case (snoc f es)
  have snoc_form: "e # es @ [f] = (e # es) @ [f]" by simp
  note S = real_snoc [OF snoc.prems(1) [unfolded snoc_form]]
  have "(firstPath s e, pathOf s (e # es)) \<in> (ext (contextOf nodes edges vis))\<^sup>*"
    using snoc.IH [OF S(1)] S(6) by simp
  moreover have "(pathOf s (e # es), pathOf s ((e # es) @ [f])) \<in> ext (contextOf nodes edges vis)"
    unfolding pathOf_snoc ext_def using S snoc.prems(2) [unfolded snoc_form pathOf_snoc pathEnd_extend]
    by (auto simp: extensions_iff)
  ultimately show ?case by (simp add: rtrancl_into_rtrancl)
qed

lemma fold_reaches:
  assumes "x \<in> set xs" and "\<And>m. P (f x m)" and "\<And>y m. P m \<Longrightarrow> P (f y m)"
  shows "P (fold f xs m)"
  using assms(1)
proof (induction xs arbitrary: m)
  case (Cons y xs)
  show ?case
  proof (cases "x \<in> set xs")
    case True
    with Cons show ?thesis by simp
  next
    case False
    with Cons.prems have "y = x" by simp
    with assms(2) have "P (f y m)" by simp
    moreover have "P (fold f ys m)" if "P m" for ys m
      using that by (induction ys arbitrary: m) (simp_all add: assms(3))
    ultimately show ?thesis by simp
  qed
qed simp

lemma contract_shortest:
  assumes vis: "vis = js_unique (node_ids visible)" and sub: "set visible \<subseteq> set nodes"
    and x: "real_path nodes edges vis s x" "2 \<le> length (cp_edges x)"
    and s: "s \<in> set vis" and t: "pathEnd x \<in> set vis"
  shows "at_most (contractAll lc (contextOf nodes edges vis) visible) s (pathEnd x) x"
proof -
  let ?ctx = "contextOf nodes edges vis"
  obtain e es l where es: "cp_edges x = e # es @ [l]"
  proof -
    obtain e fs where "cp_edges x = e # fs" using x(2) by (cases "cp_edges x") auto
    moreover from this x(2) obtain es l where "fs = es @ [l]" by (cases fs rule: rev_cases) auto
    ultimately show ?thesis by (intro that) simp
  qed
  have xp: "x = pathOf s ((e # es) @ [l])" using real_pathOf [OF x(1)] es by simp
  note S = real_snoc [OF x(1) [unfolded xp]]
  have p: "(firstPath s e, pathOf s (e # es)) \<in> (ext ?ctx)\<^sup>*"
    by (rule real_found [OF S(1)]) (use S(6) in simp)
  have found: "(pathEnd x, x) \<in> found ?ctx (pathOf s (e # es))"
    using S t unfolding xp pathOf_snoc pathEnd_extend found_iff by blast
  have "real_path nodes edges vis s (pathOf s ([] @ [e]))"
  proof -
    have "real_path nodes edges vis s (pathOf s (e # es)) \<Longrightarrow> real_path nodes edges vis s (pathOf s [e])"
    proof (induction es rule: rev_induct)
      case (snoc f es)
      then show ?case using real_snoc(1) [of nodes edges vis s "e # es" f] by simp
    qed simp
    with S(1) show ?thesis by simp
  qed
  note E = real_snoc [OF this]
  have first: "e \<in> set (neighboursOf (kc_outgoing ?ctx) s)"
    using E(2,3) by (simp add: pathEnd_def pathOf_def)
  have "ed_target e \<notin> set vis"
  proof (cases es)
    case Nil
    with S(6) show ?thesis by (simp add: pathEnd_def pathOf_def)
  next
    case (Cons f fs)
    have "ed_target e \<in> set (butlast (tl (cp_nodes x)))" by (simp add: xp pathOf_def butlast_append Cons)
    with x(1) show ?thesis by (simp add: real_path_def)
  qed
  then have starts: "startsHidden ?ctx e" using E(4) by (simp add: startsHidden_def del: not_None_eq)
  obtain n where n: "n \<in> set visible" "nd_id n = s" using s by (auto simp: vis node_ids_def)
  show ?thesis
    unfolding contractAll_def
  proof (rule fold_reaches [OF n(1), where P = "\<lambda>m. at_most m s (pathEnd x) x"])
    fix m
    show "at_most (fold (\<lambda>e m. if startsHidden ?ctx e then collectHiddenPaths lc (nd_id n) e ?ctx m else m)
        (neighboursOf (kc_outgoing ?ctx) (nd_id n)) m) s (pathEnd x) x"
    proof (rule fold_reaches [OF first [folded n(2)], where P = "\<lambda>m. at_most m s (pathEnd x) x"])
      fix m
      show "at_most (if startsHidden ?ctx e then collectHiddenPaths lc (nd_id n) e ?ctx m else m) s (pathEnd x) x"
        using search_at_most [of "firstPath s e" "[firstPath s e]", OF _ p found] starts n(2)
        by (simp add: collectHiddenPaths_def firstPath_def del: searchHidden.simps)
    next
      fix f m assume "at_most m s (pathEnd x) x"
      then show "at_most (if startsHidden ?ctx f then collectHiddenPaths lc (nd_id n) f ?ctx m else m) s (pathEnd x) x"
        by (simp add: collectHiddenPaths_def search_keeps del: searchHidden.simps)
    qed
  next
    fix y m assume m: "at_most m s (pathEnd x) x"
    have "at_most (fold (\<lambda>e m. if startsHidden ?ctx e then collectHiddenPaths lc i e ?ctx m else m) fs m) s (pathEnd x) x"
      if "at_most m s (pathEnd x) x" for fs m i
      using that by (induction fs arbitrary: m) (simp_all add: collectHiddenPaths_def search_keeps del: searchHidden.simps)
    with m show "at_most (fold (\<lambda>e m. if startsHidden ?ctx e then collectHiddenPaths lc (nd_id y) e ?ctx m else m)
        (neighboursOf (kc_outgoing ?ctx) (nd_id y)) m) s (pathEnd x) x" by blast
  qed
qed

end
