(* ===== verification/ObjectMapLayout.thy ===== *)
theory ObjectMapLayout
  imports ObjectMapColumns ObjectMapKinds Complex_Main
begin

text \<open>
  The layout of the object map (\<open>modules/object-map/objectMapLayout.ts\<close>): the order within the
  columns by barycenter sweeps, the lanes of an overloaded column, the positions of the cards,
  the bounds and the routes of the edges.

  Coordinates are rational numbers; the numbers of a layout are small enough for the doubles of
  the code to hold them exactly, and quotients of indexes differ when the rationals do. A
  barycenter of \<open>Infinity\<close> is \<open>None\<close>. The path string of an edge is the tuple of the numbers in
  it. \<open>Array.sort\<close> is stable, so for a consistent comparator it is the insertion sort below.
\<close>

section \<open>Positions\<close>

definition OBJECT_MAP_NODE_WIDTH :: rat where "OBJECT_MAP_NODE_WIDTH = 220"
definition OBJECT_MAP_NODE_HEIGHT :: rat where "OBJECT_MAP_NODE_HEIGHT = 64"
definition OBJECT_MAP_COLUMN_GAP :: rat where "OBJECT_MAP_COLUMN_GAP = 100"
definition OBJECT_MAP_ROW_GAP :: rat where "OBJECT_MAP_ROW_GAP = 24"
definition OBJECT_MAP_MAX_NODES_PER_LANE :: nat where "OBJECT_MAP_MAX_NODES_PER_LANE = 24"
definition OBJECT_MAP_KIND_GROUP_GAP :: rat where "OBJECT_MAP_KIND_GROUP_GAP = 24"
definition COLUMN_STRIDE :: rat where "COLUMN_STRIDE = OBJECT_MAP_NODE_WIDTH + OBJECT_MAP_COLUMN_GAP"
definition BARYCENTER_SWEEPS :: nat where "BARYCENTER_SWEEPS = 4"

record positioned_node =
  pn_id :: string
  pn_x :: rat
  pn_y :: rat
  pn_width :: rat
  pn_height :: rat
  pn_column :: int
  pn_isSeed :: bool
  pn_ref :: map_ref
  pn_creationTimestamp :: "string option"
  pn_status :: "map_status option"

text \<open>\<open>M x y C c1 , c2 , target\<close>\<close>

record edge_curve =
  cv_from :: "rat \<times> rat"
  cv_c1 :: "rat \<times> rat"
  cv_c2 :: "rat \<times> rat"
  cv_to :: "rat \<times> rat"

record positioned_edge =
  pe_id :: string
  pe_sourceId :: string
  pe_targetId :: string
  pe_type :: string
  pe_label :: string
  pe_tracedBy :: "string option"
  pe_filteredPath :: "filtered_path option"
  pe_d :: edge_curve
  pe_midX :: rat
  pe_midY :: rat
  pe_sameColumn :: bool

record map_bounds =
  bd_minX :: rat
  bd_minY :: rat
  bd_maxX :: rat
  bd_maxY :: rat

record map_layout =
  ml_nodes :: "positioned_node list"
  ml_edges :: "positioned_edge list"
  ml_bounds :: map_bounds

definition computeObjectMapBounds :: "positioned_node list \<Rightarrow> map_bounds" where
  "computeObjectMapBounds nodes =
     (case nodes of
        [] \<Rightarrow> \<lparr>bd_minX = 0, bd_minY = 0, bd_maxX = 0, bd_maxY = 0\<rparr>
      | n # ns \<Rightarrow>
          fold (\<lambda>n b. \<lparr>bd_minX = min (bd_minX b) (pn_x n), bd_minY = min (bd_minY b) (pn_y n),
                       bd_maxX = max (bd_maxX b) (pn_x n + pn_width n),
                       bd_maxY = max (bd_maxY b) (pn_y n + pn_height n)\<rparr>) ns
            \<lparr>bd_minX = pn_x n, bd_minY = pn_y n, bd_maxX = pn_x n + pn_width n, bd_maxY = pn_y n + pn_height n\<rparr>)"

section \<open>The order within a column\<close>

fun insert_by :: "('a \<Rightarrow> 'a \<Rightarrow> rat) \<Rightarrow> 'a \<Rightarrow> 'a list \<Rightarrow> 'a list" where
  "insert_by cmp x [] = [x]"
| "insert_by cmp x (y # ys) = (if cmp x y \<le> 0 then x # y # ys else y # insert_by cmp x ys)"

definition js_sort :: "('a \<Rightarrow> 'a \<Rightarrow> rat) \<Rightarrow> 'a list \<Rightarrow> 'a list" where
  "js_sort cmp xs = foldr (insert_by cmp) xs []"

definition nodeKind :: "map_node \<Rightarrow> string" where
  "nodeKind n = ref_kind (nd_ref n)"

definition nodeNamespace :: "map_node \<Rightarrow> string" where
  "nodeNamespace n = (case ref_namespace (nd_ref n) of None \<Rightarrow> '''' | Some ns \<Rightarrow> ns)"

definition compareForColumn :: "locale_compare \<Rightarrow> map_node \<Rightarrow> map_node \<Rightarrow> rat" where
  "compareForColumn localeCompare a b =
     (if nodeKind a \<noteq> nodeKind b then of_int (localeCompare (nodeKind a) (nodeKind b))
      else if nodeNamespace a \<noteq> nodeNamespace b then of_int (localeCompare (nodeNamespace a) (nodeNamespace b))
      else of_int (localeCompare (ref_name (nd_ref a)) (ref_name (nd_ref b))))"

definition buildCrossColumnAdjacency ::
  "map_edge list \<Rightarrow> column_map \<Rightarrow> (string, string list) jmap" where
  "buildCrossColumnAdjacency edges columnOf =
     fold (\<lambda>e adj.
         case (jm_get columnOf (ed_source e), jm_get columnOf (ed_target e)) of
           (Some sc, Some tc) \<Rightarrow>
             if sc = tc then adj
             else appendDirectionalNeighbor
               (appendDirectionalNeighbor adj (ed_source e) (ed_target e)) (ed_target e) (ed_source e)
         | _ \<Rightarrow> adj)
       edges []"

type_synonym node_columns = "(int, map_node list) jmap"

record ordering_context =
  oc_columns :: node_columns
  oc_adjacency :: "(string, string list) jmap"
  oc_columnOf :: column_map

fun index_where :: "('a \<Rightarrow> bool) \<Rightarrow> 'a list \<Rightarrow> int option" where
  "index_where P [] = None"
| "index_where P (x # xs) = (if P x then Some 0 else map_option (\<lambda>i. i + 1) (index_where P xs))"

definition nodeIndexInColumn :: "ordering_context \<Rightarrow> string \<Rightarrow> int option" where
  "nodeIndexInColumn ctx nodeId =
     (case jm_get (oc_columnOf ctx) nodeId of
        None \<Rightarrow> None
      | Some column \<Rightarrow>
          (case jm_get (oc_columns ctx) column of
             None \<Rightarrow> None
           | Some nodes \<Rightarrow> index_where (\<lambda>n. nd_id n = nodeId) nodes))"

definition computeNodeBarycenter :: "ordering_context \<Rightarrow> map_node \<Rightarrow> int \<Rightarrow> rat option" where
  "computeNodeBarycenter ctx node neighbourColumn =
     (let indexes = List.map_filter (\<lambda>i. if jm_get (oc_columnOf ctx) i \<noteq> Some neighbourColumn then None
            else nodeIndexInColumn ctx i) (neighboursOf (oc_adjacency ctx) (nd_id node))
      in if indexes = [] then None
         else Some (of_int (sum_list indexes) / of_nat (length indexes)))"

definition compareNodesByBarycenter ::
  "locale_compare \<Rightarrow> ordering_context \<Rightarrow> int \<Rightarrow> map_node \<Rightarrow> map_node \<Rightarrow> rat" where
  "compareNodesByBarycenter localeCompare ctx neighbourColumn left right =
     (if nodeKind left \<noteq> nodeKind right then of_int (localeCompare (nodeKind left) (nodeKind right))
      else
        let l = computeNodeBarycenter ctx left neighbourColumn;
            r = computeNodeBarycenter ctx right neighbourColumn
        in if l = r then compareForColumn localeCompare left right
           else case (l, r) of
                  (None, _) \<Rightarrow> 1
                | (_, None) \<Rightarrow> -1
                | (Some a, Some b) \<Rightarrow> a - b)"

definition sortColumn :: "(map_node \<Rightarrow> map_node \<Rightarrow> rat) \<Rightarrow> int \<Rightarrow> node_columns \<Rightarrow> node_columns" where
  "sortColumn cmp column columns =
     (case jm_get columns column of
        None \<Rightarrow> columns
      | Some nodes \<Rightarrow> jm_set column (js_sort cmp nodes) columns)"

definition orderColumnFromNeighbor ::
  "locale_compare \<Rightarrow> int \<Rightarrow> int \<Rightarrow> ordering_context \<Rightarrow> ordering_context" where
  "orderColumnFromNeighbor localeCompare column neighbourColumn ctx =
     ctx\<lparr>oc_columns := sortColumn (compareNodesByBarycenter localeCompare ctx neighbourColumn) column
           (oc_columns ctx)\<rparr>"

fun sweepColumnsForward :: "locale_compare \<Rightarrow> int list \<Rightarrow> ordering_context \<Rightarrow> ordering_context" where
  "sweepColumnsForward localeCompare (neighbour # column # rest) ctx =
     sweepColumnsForward localeCompare (column # rest)
       (orderColumnFromNeighbor localeCompare column neighbour ctx)"
| "sweepColumnsForward localeCompare _ ctx = ctx"

text \<open>The columns from right to left\<close>

fun sweepColumnsBackward :: "locale_compare \<Rightarrow> int \<Rightarrow> int list \<Rightarrow> ordering_context \<Rightarrow> ordering_context" where
  "sweepColumnsBackward localeCompare seedColumn (neighbour # column # rest) ctx =
     sweepColumnsBackward localeCompare seedColumn (column # rest)
       (if column \<noteq> seedColumn then orderColumnFromNeighbor localeCompare column neighbour ctx else ctx)"
| "sweepColumnsBackward localeCompare seedColumn _ ctx = ctx"

definition orderColumnsByBarycenter ::
  "locale_compare \<Rightarrow> node_columns \<Rightarrow> (string, string list) jmap \<Rightarrow> column_map \<Rightarrow> int \<Rightarrow> node_columns" where
  "orderColumnsByBarycenter localeCompare columns adj columnOf seedColumn =
     (let sortedColumns = sort (jm_keys columns) in
      if length sortedColumns \<le> 1 then columns
      else
        let columns = fold (sortColumn (compareForColumn localeCompare)) sortedColumns columns;
            ctx = \<lparr>oc_columns = columns, oc_adjacency = adj, oc_columnOf = columnOf\<rparr>
        in oc_columns (fold (\<lambda>sweep ctx.
             if sweep mod 2 = 0 then sweepColumnsForward localeCompare sortedColumns ctx
             else sweepColumnsBackward localeCompare seedColumn (rev sortedColumns) ctx)
           [0..<BARYCENTER_SWEEPS] ctx))"

section \<open>Lanes\<close>

text \<open>The runs of equal kinds\<close>

fun kindGroups :: "map_node list \<Rightarrow> map_node list \<Rightarrow> map_node list list" where
  "kindGroups run [] = [run]"
| "kindGroups run (n # ns) =
     (if nodeKind (last run) = nodeKind n then kindGroups (run @ [n]) ns
      else run # kindGroups [n] ns)"

function slices :: "nat \<Rightarrow> 'a list \<Rightarrow> 'a list list" where
  "slices k xs = (if xs = [] \<or> k = 0 then [] else take k xs # slices k (drop k xs))"
  by pat_completeness auto
termination by (relation "measure (\<lambda>(k, xs). length xs)") auto

declare slices.simps [simp del]

definition pushCurrentLane :: "'a list list \<times> 'a list \<Rightarrow> 'a list list \<times> 'a list" where
  "pushCurrentLane st = (case st of (lanes, current) \<Rightarrow>
     if current = [] then (lanes, current) else (lanes @ [current], []))"

definition appendLaneGroup :: "'a list \<Rightarrow> 'a list list \<times> 'a list \<Rightarrow> 'a list list \<times> 'a list" where
  "appendLaneGroup run st =
     (if OBJECT_MAP_MAX_NODES_PER_LANE < length run then
        case pushCurrentLane st of (lanes, current) \<Rightarrow>
          (lanes @ slices OBJECT_MAP_MAX_NODES_PER_LANE run, current)
      else
        case (if snd st \<noteq> [] \<and> OBJECT_MAP_MAX_NODES_PER_LANE < length (snd st) + length run
              then pushCurrentLane st else st) of
          (lanes, current) \<Rightarrow> (lanes, current @ run))"

definition splitColumnIntoKindAwareLanes :: "map_node list \<Rightarrow> map_node list list" where
  "splitColumnIntoKindAwareLanes columnNodes =
     (if length columnNodes \<le> OBJECT_MAP_MAX_NODES_PER_LANE then [columnNodes]
      else fst (pushCurrentLane
        (fold appendLaneGroup (kindGroups [hd columnNodes] (tl columnNodes)) ([], []))))"

definition laneCount :: "(int, nat) jmap \<Rightarrow> int \<Rightarrow> nat" where
  "laneCount laneCounts column = (case jm_get laneCounts column of None \<Rightarrow> 1 | Some k \<Rightarrow> k)"

definition computeColumnStartX :: "int list \<Rightarrow> (int, nat) jmap \<Rightarrow> int \<Rightarrow> (int, rat) jmap" where
  "computeColumnStartX sortedColumns laneCounts seedColumn =
     (let (startX, rightX) =
            fold (\<lambda>column (startX, rightX).
                (jm_set column rightX startX, rightX + of_nat (laneCount laneCounts column) * COLUMN_STRIDE))
              (filter (\<lambda>c. seedColumn < c) sortedColumns)
              ([(seedColumn, 0)], of_nat (laneCount laneCounts seedColumn) * COLUMN_STRIDE)
      in fst (fold (\<lambda>column (startX, leftX).
             (jm_set column (leftX - of_nat (laneCount laneCounts column) * COLUMN_STRIDE) startX,
              leftX - of_nat (laneCount laneCounts column) * COLUMN_STRIDE))
           (rev (filter (\<lambda>c. c < seedColumn) sortedColumns)) (startX, 0)))"

definition laneGap :: "map_node \<Rightarrow> map_node \<Rightarrow> rat" where
  "laneGap previous n =
     (if nodeKind previous = nodeKind n then OBJECT_MAP_ROW_GAP
      else OBJECT_MAP_ROW_GAP + OBJECT_MAP_KIND_GROUP_GAP)"

text \<open>The height of a lane, and the rows below one that is placed\<close>

fun heightBelow :: "map_node \<Rightarrow> map_node list \<Rightarrow> rat" where
  "heightBelow previous [] = 0"
| "heightBelow previous (n # ns) = laneGap previous n + OBJECT_MAP_NODE_HEIGHT + heightBelow n ns"

definition laneHeight :: "map_node list \<Rightarrow> rat" where
  "laneHeight laneNodes =
     (case laneNodes of [] \<Rightarrow> 0 | n # ns \<Rightarrow> OBJECT_MAP_NODE_HEIGHT + heightBelow n ns)"

definition placeCard :: "string \<Rightarrow> rat \<Rightarrow> int \<Rightarrow> rat \<Rightarrow> map_node \<Rightarrow> positioned_node" where
  "placeCard seedId x column y n =
     \<lparr>pn_id = nd_id n, pn_x = x, pn_y = y, pn_width = OBJECT_MAP_NODE_WIDTH,
      pn_height = OBJECT_MAP_NODE_HEIGHT, pn_column = column, pn_isSeed = (nd_id n = seedId),
      pn_ref = nd_ref n, pn_creationTimestamp = nd_creationTimestamp n, pn_status = nd_status n\<rparr>"

fun placeBelow :: "string \<Rightarrow> rat \<Rightarrow> int \<Rightarrow> rat \<Rightarrow> map_node \<Rightarrow> map_node list \<Rightarrow> positioned_node list" where
  "placeBelow seedId x column y previous [] = []"
| "placeBelow seedId x column y previous (n # ns) =
     (let y' = y + (OBJECT_MAP_NODE_HEIGHT + laneGap previous n)
      in placeCard seedId x column y' n # placeBelow seedId x column y' n ns)"

definition positionLane :: "map_node list \<Rightarrow> rat \<Rightarrow> int \<Rightarrow> string \<Rightarrow> positioned_node list" where
  "positionLane laneNodes x column seedId =
     (case laneNodes of
        [] \<Rightarrow> []
      | n # ns \<Rightarrow>
          let y = - laneHeight laneNodes / 2
          in placeCard seedId x column y n # placeBelow seedId x column y n ns)"

section \<open>Routes\<close>

definition buildCrossColumnPath :: "rat \<Rightarrow> rat \<Rightarrow> rat \<Rightarrow> rat \<Rightarrow> edge_curve" where
  "buildCrossColumnPath sourceX sourceY targetX targetY =
     (let handle = max 40 (abs (targetX - sourceX) / 2)
      in \<lparr>cv_from = (sourceX, sourceY), cv_c1 = (sourceX + handle, sourceY),
          cv_c2 = (targetX - handle, targetY), cv_to = (targetX, targetY)\<rparr>)"

definition buildSameColumnPath :: "rat \<Rightarrow> rat \<Rightarrow> rat \<Rightarrow> rat \<Rightarrow> edge_curve" where
  "buildSameColumnPath anchorX sourceY targetY arcStretch =
     \<lparr>cv_from = (anchorX, sourceY), cv_c1 = (anchorX + arcStretch, sourceY),
      cv_c2 = (anchorX + arcStretch, targetY), cv_to = (anchorX, targetY)\<rparr>"

definition routeEdgeGeometry :: "positioned_node \<Rightarrow> positioned_node \<Rightarrow> edge_curve \<times> rat \<times> rat \<times> bool" where
  "routeEdgeGeometry source target =
     (let sourceY = pn_y source + pn_height source / 2;
          targetY = pn_y target + pn_height target / 2;
          midY = (sourceY + targetY) / 2
      in if pn_x source = pn_x target then
           let anchorX = pn_x source + pn_width source;
               arcStretch = pn_width source * (3 / 2)
           in (buildSameColumnPath anchorX sourceY targetY arcStretch, anchorX + 3 / 4 * arcStretch, midY, True)
         else
           let sourceIsLeft = pn_x source \<le> pn_x target;
               sourceX = (if sourceIsLeft then pn_x source + pn_width source else pn_x source);
               targetX = (if sourceIsLeft then pn_x target else pn_x target + pn_width target)
           in (buildCrossColumnPath sourceX sourceY targetX targetY, (sourceX + targetX) / 2, midY, False))"

definition routeObjectMapEdges :: "positioned_node list \<Rightarrow> map_edge list \<Rightarrow> positioned_edge list" where
  "routeObjectMapEdges nodes edges =
     (let positioned = fold (\<lambda>n m. jm_set (pn_id n) n m) nodes [] in
      List.map_filter (\<lambda>e.
        case (jm_get positioned (ed_source e), jm_get positioned (ed_target e)) of
          (Some source, Some target) \<Rightarrow>
            (case routeEdgeGeometry source target of (d, midX, midY, sameColumn) \<Rightarrow>
               Some \<lparr>pe_id = ed_id e, pe_sourceId = ed_source e, pe_targetId = ed_target e,
                     pe_type = ed_type e, pe_label = ed_label e, pe_tracedBy = ed_tracedBy e,
                     pe_filteredPath = ed_filteredPath e, pe_d = d, pe_midX = midX, pe_midY = midY,
                     pe_sameColumn = sameColumn\<rparr>)
        | _ \<Rightarrow> None) edges)"

section \<open>The layout\<close>

definition groupByColumn :: "column_map \<Rightarrow> map_node list \<Rightarrow> node_columns" where
  "groupByColumn columnOf nodes =
     fold (\<lambda>n columns. appendDirectionalNeighbor columns
         (case jm_get columnOf (nd_id n) of None \<Rightarrow> 0 | Some c \<Rightarrow> c) n) nodes []"

definition placeColumn :: "string \<Rightarrow> (int, rat) jmap \<Rightarrow> int \<Rightarrow> map_node list list \<Rightarrow> positioned_node list" where
  "placeColumn seedId columnStartX column lanes =
     (let columnX = (case jm_get columnStartX column of None \<Rightarrow> of_int column * COLUMN_STRIDE | Some x \<Rightarrow> x)
      in concat (List.map (\<lambda>(laneIndex, laneNodes).
           positionLane laneNodes (columnX + of_nat laneIndex * COLUMN_STRIDE) column seedId)
         (enumerate 0 lanes)))"

definition computePlacements ::
  "locale_compare \<Rightarrow> map_node list \<Rightarrow> map_edge list \<Rightarrow> string \<Rightarrow> positioned_node list" where
  "computePlacements localeCompare nodes edges seedId =
     (let columnOf = computeNodeColumns nodes edges seedId;
          seedColumn = (case jm_get columnOf seedId of None \<Rightarrow> 0 | Some c \<Rightarrow> c);
          columns = orderColumnsByBarycenter localeCompare (groupByColumn columnOf nodes)
            (buildCrossColumnAdjacency edges columnOf) columnOf seedColumn;
          sortedColumns = sort (jm_keys columns);
          columnLanes = List.map (\<lambda>c. (c, splitColumnIntoKindAwareLanes (neighboursOf columns c))) sortedColumns;
          laneCounts = List.map (\<lambda>(c, lanes). (c, length lanes)) columnLanes;
          columnStartX = computeColumnStartX sortedColumns laneCounts seedColumn
      in concat (List.map (\<lambda>(c, lanes). placeColumn seedId columnStartX c lanes) columnLanes))"

definition computeObjectMapLayout ::
  "locale_compare \<Rightarrow> map_node list \<Rightarrow> map_edge list \<Rightarrow> string \<Rightarrow> map_layout" where
  "computeObjectMapLayout localeCompare nodes edges seedId =
     (if nodes = []
      then \<lparr>ml_nodes = [], ml_edges = [], ml_bounds = \<lparr>bd_minX = 0, bd_minY = 0, bd_maxX = 0, bd_maxY = 0\<rparr>\<rparr>
      else
        let placements = computePlacements localeCompare nodes edges seedId;
            positioned = List.map snd (fold (\<lambda>n m. jm_set (pn_id n) n m) placements [])
        in \<lparr>ml_nodes = positioned, ml_edges = routeObjectMapEdges positioned edges,
            ml_bounds = computeObjectMapBounds placements\<rparr>)"

end
