(* ===== verification/ObjectMapLayoutInv.thy ===== *)
theory ObjectMapLayoutInv
  imports ObjectMapLayout "HOL-Library.Multiset"
begin

text \<open>
  What the layout of the object map guarantees: every node gets exactly one card, no two cards
  overlap, the cards lie within the bounds, a lane holds at most 24 cards, and on an acyclic
  graph every edge leaves its source to the right and enters its target from the left.
\<close>

section \<open>Sorting permutes\<close>

lemma mset_insert_by [simp]: "mset (insert_by cmp x xs) = add_mset x (mset xs)"
  by (induction xs) auto

lemma mset_js_sort [simp]: "mset (js_sort cmp xs) = mset xs"
  unfolding js_sort_def by (induction xs) auto

definition same_columns :: "node_columns \<Rightarrow> node_columns \<Rightarrow> bool" where
  "same_columns a b \<longleftrightarrow>
     jm_keys a = jm_keys b \<and> (\<forall>c. mset (neighboursOf a c) = mset (neighboursOf b c))"

lemma same_columns_refl [simp]: "same_columns a a"
  by (simp add: same_columns_def)

lemma same_columns_trans: "same_columns a b \<Longrightarrow> same_columns b c \<Longrightarrow> same_columns a c"
  by (simp add: same_columns_def)

lemma keys_set_existing: "jm_get m k = Some v \<Longrightarrow> jm_keys (jm_set k w m) = jm_keys m"
  by (induction m) auto

lemma sortColumn_same: "same_columns m (sortColumn cmp c m)"
proof (cases "jm_get m c")
  case None
  then show ?thesis by (simp add: sortColumn_def)
next
  case (Some nodes)
  then have "jm_keys (jm_set c (js_sort cmp nodes) m) = jm_keys m" by (rule keys_set_existing)
  with Some show ?thesis by (simp add: sortColumn_def same_columns_def neighboursOf_def)
qed

lemma sortAll_same: "same_columns m (fold (sortColumn cmp) cs m)"
proof (induction cs arbitrary: m)
  case (Cons c cs)
  from sortColumn_same Cons.IH show ?case unfolding fold_Cons comp_apply by (rule same_columns_trans)
qed simp

lemma order_same: "same_columns (oc_columns ctx) (oc_columns (orderColumnFromNeighbor lc c d ctx))"
  by (simp add: orderColumnFromNeighbor_def sortColumn_same)

lemma forward_same: "same_columns (oc_columns ctx) (oc_columns (sweepColumnsForward lc cs ctx))"
proof (induction lc cs ctx rule: sweepColumnsForward.induct)
  case (1 lc neighbour column rest ctx)
  from order_same 1 show ?case unfolding sweepColumnsForward.simps by (rule same_columns_trans)
qed simp_all

lemma backward_same: "same_columns (oc_columns ctx) (oc_columns (sweepColumnsBackward lc s cs ctx))"
proof (induction lc s cs ctx rule: sweepColumnsBackward.induct)
  case (1 lc s neighbour column rest ctx)
  have "same_columns (oc_columns ctx) (oc_columns
      (if column \<noteq> s then orderColumnFromNeighbor lc column neighbour ctx else ctx))"
    by (simp add: order_same)
  from this 1 show ?case unfolding sweepColumnsBackward.simps by (rule same_columns_trans)
qed simp_all

lemma ordered_same: "same_columns columns (orderColumnsByBarycenter lc columns adj columnOf seedColumn)"
proof -
  let ?cs = "sort (jm_keys columns)"
  let ?step = "\<lambda>sweep ctx. if sweep mod 2 = (0 :: nat) then sweepColumnsForward lc ?cs ctx
      else sweepColumnsBackward lc seedColumn (rev ?cs) ctx"
  have sweeps: "same_columns (oc_columns ctx) (oc_columns (fold ?step ks ctx))" for ks ctx
  proof (induction ks arbitrary: ctx)
    case (Cons k ks)
    have "same_columns (oc_columns ctx) (oc_columns (?step k ctx))"
      by (simp add: forward_same backward_same)
    from this Cons.IH show ?case unfolding fold_Cons comp_apply by (rule same_columns_trans)
  qed simp
  let ?sorted = "fold (sortColumn (compareForColumn lc)) ?cs columns"
  have "same_columns ?sorted (oc_columns (fold ?step ks
      \<lparr>oc_columns = ?sorted, oc_adjacency = adj, oc_columnOf = columnOf\<rparr>))" for ks
    using sweeps [of "\<lparr>oc_columns = ?sorted, oc_adjacency = adj, oc_columnOf = columnOf\<rparr>" ks]
    unfolding ordering_context.select_convs .
  from same_columns_trans [OF sortAll_same this] show ?thesis
    unfolding orderColumnsByBarycenter_def Let_def by simp
qed

section \<open>Columns and lanes\<close>

definition columnFor :: "column_map \<Rightarrow> map_node \<Rightarrow> int" where
  "columnFor columnOf n = (case jm_get columnOf (nd_id n) of None \<Rightarrow> 0 | Some c \<Rightarrow> c)"

lemma grouped:
  "jm_ok (groupByColumn columnOf nodes) \<and>
   neighboursOf (groupByColumn columnOf nodes) c = filter (\<lambda>n. columnFor columnOf n = c) nodes \<and>
   set (jm_keys (groupByColumn columnOf nodes)) = columnFor columnOf ` set nodes"
proof (induction nodes arbitrary: c rule: rev_induct)
  case Nil
  show ?case by (simp add: groupByColumn_def)
next
  case (snoc n nodes)
  let ?m = "groupByColumn columnOf nodes"
  have step: "groupByColumn columnOf (nodes @ [n]) = appendDirectionalNeighbor ?m (columnFor columnOf n) n"
    by (simp add: groupByColumn_def columnFor_def)
  have "jm_ok (appendDirectionalNeighbor ?m k n) \<and>
      set (jm_keys (appendDirectionalNeighbor ?m k n)) = insert k (set (jm_keys ?m))" for k
    using snoc.IH by (auto simp: appendDirectionalNeighbor_def jm_keys_set [unfolded set_map] split: option.split)
  with snoc.IH show ?case by (simp add: step)
qed

lemma concat_kindGroups: "concat (kindGroups run ns) = run @ ns"
  by (induction run ns rule: kindGroups.induct) auto

lemma kindGroups_nonempty: "run \<noteq> [] \<Longrightarrow> [] \<notin> set (kindGroups run ns)"
  by (induction run ns rule: kindGroups.induct) auto

lemma slices_props:
  "0 < k \<Longrightarrow> concat (slices k xs) = xs \<and> (\<forall>s \<in> set (slices k xs). s \<noteq> [] \<and> length s \<le> k)"
proof (induction k xs rule: slices.induct)
  case (1 k xs)
  show ?case
  proof (cases "xs = []")
    case True
    then show ?thesis by (simp add: slices.simps)
  next
    case False
    with 1 have "concat (slices k (drop k xs)) = drop k xs \<and>
        (\<forall>s \<in> set (slices k (drop k xs)). s \<noteq> [] \<and> length s \<le> k)" by simp
    with False 1(2) show ?thesis by (subst (1 2) slices.simps) auto
  qed
qed

definition lanes_ok :: "'a list list \<times> 'a list \<Rightarrow> bool" where
  "lanes_ok st \<longleftrightarrow>
     (\<forall>lane \<in> set (fst st). lane \<noteq> [] \<and> length lane \<le> OBJECT_MAP_MAX_NODES_PER_LANE)
     \<and> length (snd st) \<le> OBJECT_MAP_MAX_NODES_PER_LANE"

definition lane_nodes :: "'a list list \<times> 'a list \<Rightarrow> 'a list" where
  "lane_nodes st = concat (fst st) @ snd st"

lemma push_lane: "lanes_ok st \<Longrightarrow> lanes_ok (pushCurrentLane st)"
  "lane_nodes (pushCurrentLane st) = lane_nodes st" "snd (pushCurrentLane st) = []"
  by (auto simp: pushCurrentLane_def lanes_ok_def lane_nodes_def split: prod.splits)

lemma append_group:
  assumes "lanes_ok st"
  shows "lanes_ok (appendLaneGroup run st)" and "lane_nodes (appendLaneGroup run st) = lane_nodes st @ run"
proof -
  obtain lanes current where p: "pushCurrentLane st = (lanes, current)" by fastforce
  have c: "current = []" using push_lane(3) [of st] p by simp
  have nodes: "concat lanes = lane_nodes st" using push_lane(2) [of st] p c by (simp add: lane_nodes_def)
  have ok: "lanes_ok (lanes, [])" using push_lane(1) [OF assms] p c by simp
  have s: "concat (slices OBJECT_MAP_MAX_NODES_PER_LANE run) = run"
    "\<forall>s \<in> set (slices OBJECT_MAP_MAX_NODES_PER_LANE run). s \<noteq> [] \<and> length s \<le> OBJECT_MAP_MAX_NODES_PER_LANE"
    using slices_props [of OBJECT_MAP_MAX_NODES_PER_LANE run] by (simp_all add: OBJECT_MAP_MAX_NODES_PER_LANE_def)
  have "lanes_ok (appendLaneGroup run st) \<and> lane_nodes (appendLaneGroup run st) = lane_nodes st @ run"
  proof (cases "OBJECT_MAP_MAX_NODES_PER_LANE < length run")
    case True
    then have "appendLaneGroup run st = (lanes @ slices OBJECT_MAP_MAX_NODES_PER_LANE run, [])"
      by (simp add: appendLaneGroup_def p c)
    then show ?thesis using ok s nodes by (auto simp: lanes_ok_def lane_nodes_def)
  next
    case run: False
    show ?thesis
    proof (cases "snd st \<noteq> [] \<and> OBJECT_MAP_MAX_NODES_PER_LANE < length (snd st) + length run")
      case True
      then have "appendLaneGroup run st = (lanes, run)" using run by (simp add: appendLaneGroup_def p c)
      then show ?thesis using ok run nodes by (simp add: lanes_ok_def lane_nodes_def)
    next
      case False
      then have "appendLaneGroup run st = (fst st, snd st @ run)"
        using run by (auto simp: appendLaneGroup_def split: prod.split)
      moreover have "length (snd st) + length run \<le> OBJECT_MAP_MAX_NODES_PER_LANE" using False run by auto
      ultimately show ?thesis using assms by (simp add: lanes_ok_def lane_nodes_def)
    qed
  qed
  then show "lanes_ok (appendLaneGroup run st)" "lane_nodes (appendLaneGroup run st) = lane_nodes st @ run" by auto
qed

lemma append_groups:
  "lanes_ok st \<Longrightarrow> lanes_ok (fold appendLaneGroup runs st) \<and>
   lane_nodes (fold appendLaneGroup runs st) = lane_nodes st @ concat runs"
  by (induction runs arbitrary: st) (simp_all add: append_group)

lemma split_lanes:
  "concat (splitColumnIntoKindAwareLanes ns) = ns \<and>
   (\<forall>lane \<in> set (splitColumnIntoKindAwareLanes ns). length lane \<le> OBJECT_MAP_MAX_NODES_PER_LANE)"
proof (cases "length ns \<le> OBJECT_MAP_MAX_NODES_PER_LANE")
  case True
  then show ?thesis by (simp add: splitColumnIntoKindAwareLanes_def)
next
  case False
  then have "ns \<noteq> []" by auto
  let ?st = "fold appendLaneGroup (kindGroups [hd ns] (tl ns)) ([], [])"
  have "lanes_ok ?st \<and> lane_nodes ?st = ns"
    using append_groups [of "([], [])" "kindGroups [hd ns] (tl ns)"] \<open>ns \<noteq> []\<close>
    by (simp add: concat_kindGroups lanes_ok_def [of "([], [])"] lane_nodes_def [of "([], [])"])
  then have "lanes_ok (pushCurrentLane ?st)" "lane_nodes (pushCurrentLane ?st) = ns" "snd (pushCurrentLane ?st) = []"
    using push_lane [of ?st] by simp_all
  with False show ?thesis
    by (simp add: splitColumnIntoKindAwareLanes_def lanes_ok_def lane_nodes_def)
qed

section \<open>Where the columns start\<close>

lemma startx_right:
  assumes "fold (\<lambda>c (m, x). (jm_set c x m, x + w c)) cs (m, x) = (m', x')"
    and "distinct cs" and "\<And>c. 0 \<le> (w c :: rat)"
  shows "(\<forall>c. c \<notin> set cs \<longrightarrow> jm_get m' c = jm_get m c) \<and> x \<le> x' \<and>
    (\<forall>c \<in> set cs. \<exists>s. jm_get m' c = Some s \<and> x \<le> s \<and> s + w c \<le> x') \<and>
    sorted_wrt (\<lambda>c d. \<exists>s t. jm_get m' c = Some s \<and> jm_get m' d = Some t \<and> s + w c \<le> t) cs"
  using assms(1,2)
proof (induction cs arbitrary: m x)
  case (Cons c cs)
  have "fold (\<lambda>c (m, x). (jm_set c x m, x + w c)) cs (jm_set c x m, x + w c) = (m', x')"
    using Cons.prems by simp
  from Cons.IH [OF this] Cons.prems(2)
  have IH: "\<forall>d. d \<notin> set cs \<longrightarrow> jm_get m' d = jm_get (jm_set c x m) d" "x + w c \<le> x'"
    "\<forall>d \<in> set cs. \<exists>s. jm_get m' d = Some s \<and> x + w c \<le> s \<and> s + w d \<le> x'"
    "sorted_wrt (\<lambda>c d. \<exists>s t. jm_get m' c = Some s \<and> jm_get m' d = Some t \<and> s + w c \<le> t) cs"
    by simp_all
  have c: "jm_get m' c = Some x" using IH(1) Cons.prems(2) by simp
  have "x \<le> x + w c" using assms(3) by simp
  with IH(2) have le: "x \<le> x'" by linarith
  have "\<forall>d \<in> set (c # cs). \<exists>s. jm_get m' d = Some s \<and> x \<le> s \<and> s + w d \<le> x'"
    using c IH(2,3) \<open>x \<le> x + w c\<close> by (auto intro: order_trans)
  moreover have "\<forall>d \<in> set cs. \<exists>s t. jm_get m' c = Some s \<and> jm_get m' d = Some t \<and> s + w c \<le> t"
    using c IH(3) by auto
  moreover have "\<forall>d. d \<notin> set (c # cs) \<longrightarrow> jm_get m' d = jm_get m d" using IH(1) by simp
  ultimately show ?case using le IH(4) by simp
qed simp

lemma startx_left:
  assumes "fold (\<lambda>c (m, x). (jm_set c (x - w c) m, x - w c)) cs (m, x) = (m', x')"
    and "distinct cs" and "\<And>c. 0 \<le> (w c :: rat)"
  shows "(\<forall>c. c \<notin> set cs \<longrightarrow> jm_get m' c = jm_get m c) \<and> x' \<le> x \<and>
    (\<forall>c \<in> set cs. \<exists>s. jm_get m' c = Some s \<and> s + w c \<le> x) \<and>
    sorted_wrt (\<lambda>d c. \<exists>s t. jm_get m' c = Some s \<and> jm_get m' d = Some t \<and> s + w c \<le> t) cs"
  using assms(1,2)
proof (induction cs arbitrary: m x)
  case (Cons c cs)
  have "fold (\<lambda>c (m, x). (jm_set c (x - w c) m, x - w c)) cs (jm_set c (x - w c) m, x - w c) = (m', x')"
    using Cons.prems by simp
  from Cons.IH [OF this] Cons.prems(2)
  have IH: "\<forall>d. d \<notin> set cs \<longrightarrow> jm_get m' d = jm_get (jm_set c (x - w c) m) d" "x' \<le> x - w c"
    "\<forall>d \<in> set cs. \<exists>s. jm_get m' d = Some s \<and> s + w d \<le> x - w c"
    "sorted_wrt (\<lambda>d c. \<exists>s t. jm_get m' c = Some s \<and> jm_get m' d = Some t \<and> s + w c \<le> t) cs"
    by simp_all
  have c: "jm_get m' c = Some (x - w c)" using IH(1) Cons.prems(2) by simp
  have le: "x - w c \<le> x" using assms(3) by simp
  have "\<forall>d \<in> set (c # cs). \<exists>s. jm_get m' d = Some s \<and> s + w d \<le> x"
    using c IH(3) le by (auto intro: order_trans)
  moreover have "\<forall>d \<in> set cs. \<exists>s t. jm_get m' d = Some s \<and> jm_get m' c = Some t \<and> s + w d \<le> t"
    using c IH(3) by auto
  moreover have "\<forall>d. d \<notin> set (c # cs) \<longrightarrow> jm_get m' d = jm_get m d" using IH(1) by simp
  moreover have "x' \<le> x" using IH(2) le by linarith
  ultimately show ?case using IH(4) by simp
qed simp

definition columnWidth :: "(int, nat) jmap \<Rightarrow> int \<Rightarrow> rat" where
  "columnWidth laneCounts c = of_nat (laneCount laneCounts c) * COLUMN_STRIDE"

lemma columnWidth_nonneg [simp]: "0 \<le> columnWidth laneCounts c"
  by (simp add: columnWidth_def COLUMN_STRIDE_def OBJECT_MAP_NODE_WIDTH_def OBJECT_MAP_COLUMN_GAP_def)

lemma columns_apart:
  assumes "sorted cs" and "distinct cs" and "computeColumnStartX cs laneCounts seed = starts"
    and c: "c \<in> set cs" and d: "d \<in> set cs" and "c < d"
  shows "\<exists>s t. jm_get starts c = Some s \<and> jm_get starts d = Some t \<and> s + columnWidth laneCounts c \<le> t"
proof -
  let ?w = "columnWidth laneCounts"
  let ?R = "filter (\<lambda>c. seed < c) cs" and ?L = "rev (filter (\<lambda>c. c < seed) cs)"
  obtain m r where right: "fold (\<lambda>c (m, x). (jm_set c x m, x + ?w c)) ?R ([(seed, 0)], ?w seed) = (m, r)" by fastforce
  obtain m' l where left: "fold (\<lambda>c (m, x). (jm_set c (x - ?w c) m, x - ?w c)) ?L (m, 0) = (m', l)" by fastforce
  have starts: "starts = m'"
    using assms(3) right left by (simp add: computeColumnStartX_def columnWidth_def)
  note R = startx_right [OF right] and L = startx_left [OF left]
  have R1: "\<And>c. c \<notin> set ?R \<Longrightarrow> jm_get m c = jm_get [(seed, 0)] c"
    and R2: "\<And>c. c \<in> set ?R \<Longrightarrow> \<exists>s. jm_get m c = Some s \<and> ?w seed \<le> s"
    and R3: "sorted_wrt (\<lambda>c d. \<exists>s t. jm_get m c = Some s \<and> jm_get m d = Some t \<and> s + ?w c \<le> t) ?R"
    using R assms(2) by auto
  have L1: "\<And>c. c \<notin> set ?L \<Longrightarrow> jm_get m' c = jm_get m c"
    and L2: "\<And>c. c \<in> set ?L \<Longrightarrow> \<exists>s. jm_get m' c = Some s \<and> s + ?w c \<le> 0"
    and L3: "sorted_wrt (\<lambda>d c. \<exists>s t. jm_get m' c = Some s \<and> jm_get m' d = Some t \<and> s + ?w c \<le> t) ?L"
    using L assms(2) by auto
  have strict: "sorted_wrt (<) cs" using assms(1,2) by (simp add: strict_sorted_iff)
  have pair: "Q c d" if Q: "sorted_wrt Q (filter P cs)" and P: "P c" "P d" for Q P
  proof -
    obtain i j where "i < length (filter P cs)" "j < length (filter P cs)"
      "filter P cs ! i = c" "filter P cs ! j = d"
      using c d P by (metis in_set_conv_nth mem_Collect_eq set_filter)
    moreover have "sorted_wrt (<) (filter P cs)" using strict by (rule sorted_wrt_filter)
    ultimately have "i < j" using \<open>c < d\<close>
      by (metis linorder_neqE_nat order_less_asym sorted_wrt_nth_less order_less_irrefl)
    with Q show ?thesis
      using \<open>j < length (filter P cs)\<close> \<open>filter P cs ! i = c\<close> \<open>filter P cs ! j = d\<close> sorted_wrt_nth_less by blast
  qed
  have seed_start: "jm_get m' seed = Some 0" using L1 [of seed] R1 [of seed] by simp
  consider "seed < c" | "seed = c" | "c < seed" "seed < d" | "c < seed" "seed = d" | "d < seed"
    using \<open>c < d\<close> by linarith
  then show ?thesis
  proof cases
    case 1
    from pair [OF R3 1] \<open>c < d\<close> 1 L1 [of c] L1 [of d] show ?thesis by (simp add: starts)
  next
    case 2
    then have "d \<in> set ?R" using d \<open>c < d\<close> by simp
    from R2 [OF this] L1 [of d] 2 \<open>c < d\<close> seed_start show ?thesis by (auto simp: starts)
  next
    case 3
    then have "d \<in> set ?R" "c \<in> set ?L" using c d by simp_all
    moreover from R2 [OF this(1)] L1 [of d] 3 obtain t where "jm_get m' d = Some t" "?w seed \<le> t" by auto
    moreover from L2 [OF \<open>c \<in> set ?L\<close>] obtain s where "jm_get m' c = Some s" "s + ?w c \<le> 0" by blast
    moreover have "0 \<le> ?w seed" by simp
    ultimately show ?thesis unfolding starts by (meson order_trans)
  next
    case 4
    then have "c \<in> set ?L" using c by simp
    from L2 [OF this] 4 seed_start show ?thesis by (auto simp: starts)
  next
    case 5
    have "sorted_wrt (\<lambda>c d. \<exists>s t. jm_get m' c = Some s \<and> jm_get m' d = Some t \<and> s + ?w c \<le> t) (filter (\<lambda>c. c < seed) cs)"
      using L3 by (simp add: sorted_wrt_rev)
    from pair [OF this] 5 \<open>c < d\<close> show ?thesis by (simp add: starts)
  qed
qed

section \<open>The cards\<close>

text \<open>One card is left of another by a whole column, or above it with the gap between them.\<close>

definition card_before :: "positioned_node \<Rightarrow> positioned_node \<Rightarrow> bool" where
  "card_before a b \<longleftrightarrow>
     pn_x a + COLUMN_STRIDE \<le> pn_x b
     \<or> pn_x a = pn_x b \<and> pn_y a + OBJECT_MAP_NODE_HEIGHT + OBJECT_MAP_ROW_GAP \<le> pn_y b"

definition card_for :: "string \<Rightarrow> map_node \<Rightarrow> positioned_node \<Rightarrow> bool" where
  "card_for seedId n p \<longleftrightarrow>
     pn_id p = nd_id n \<and> pn_width p = OBJECT_MAP_NODE_WIDTH \<and> pn_height p = OBJECT_MAP_NODE_HEIGHT
     \<and> pn_isSeed p = (nd_id n = seedId) \<and> pn_ref p = nd_ref n
     \<and> pn_creationTimestamp p = nd_creationTimestamp n \<and> pn_status p = nd_status n"

lemma gap_nonneg: "OBJECT_MAP_ROW_GAP \<le> laneGap p n"
  by (simp add: laneGap_def OBJECT_MAP_KIND_GROUP_GAP_def)

lemma card_placed [simp]:
  "card_for seed n (placeCard seed x c y n)" "pn_x (placeCard seed x c y n) = x"
  "pn_y (placeCard seed x c y n) = y" "pn_column (placeCard seed x c y n) = c"
  by (simp_all add: placeCard_def card_for_def)

lemma below_props:
  "list_all2 (card_for seed) ns (placeBelow seed x c y p ns) \<and>
   (\<forall>q \<in> set (placeBelow seed x c y p ns). pn_x q = x \<and> pn_column q = c
      \<and> y + OBJECT_MAP_NODE_HEIGHT + OBJECT_MAP_ROW_GAP \<le> pn_y q) \<and>
   sorted_wrt card_before (placeBelow seed x c y p ns)"
proof (induction ns arbitrary: y p)
  case (Cons n ns)
  let ?y = "y + (OBJECT_MAP_NODE_HEIGHT + laneGap p n)"
  have y: "y + OBJECT_MAP_NODE_HEIGHT + OBJECT_MAP_ROW_GAP \<le> ?y"
    using gap_nonneg [of p n] by simp
  have up: "y + OBJECT_MAP_NODE_HEIGHT + OBJECT_MAP_ROW_GAP \<le> pn_y q"
    if "?y + OBJECT_MAP_NODE_HEIGHT + OBJECT_MAP_ROW_GAP \<le> pn_y q" for q
    using that y by (simp add: OBJECT_MAP_NODE_HEIGHT_def OBJECT_MAP_ROW_GAP_def)
  show ?case
    using Cons.IH [of ?y n] y up by (auto simp: Let_def card_before_def)
qed simp

lemma lane_props:
  "list_all2 (card_for seed) ns (positionLane ns x c seed) \<and>
   (\<forall>q \<in> set (positionLane ns x c seed). pn_x q = x \<and> pn_column q = c) \<and>
   sorted_wrt card_before (positionLane ns x c seed)"
proof (cases ns)
  case Nil
  then show ?thesis by (simp add: positionLane_def)
next
  case (Cons n rest)
  show ?thesis
    using below_props [of seed rest x c "- laneHeight ns / 2" n]
    by (auto simp: Cons positionLane_def Let_def card_before_def)
qed

lemma sorted_concat:
  "(\<And>xs. xs \<in> set xss \<Longrightarrow> sorted_wrt P xs) \<Longrightarrow>
   sorted_wrt (\<lambda>xs ys. \<forall>x \<in> set xs. \<forall>y \<in> set ys. P x y) xss \<Longrightarrow> sorted_wrt P (concat xss)"
  by (induction xss) (auto simp: sorted_wrt_append)

lemma list_all2_concat:
  "list_all2 (list_all2 P) xss yss \<Longrightarrow> list_all2 P (concat xss) (concat yss)"
  by (induction rule: list_all2_induct) (auto intro: list_all2_appendI)

lemma column_props:
  assumes "jm_get starts c = Some s"
  shows "list_all2 (card_for seed) (concat lanes) (placeColumn seed starts c lanes) \<and>
   (\<forall>q \<in> set (placeColumn seed starts c lanes). pn_column q = c \<and> s \<le> pn_x q
      \<and> pn_x q + COLUMN_STRIDE \<le> s + of_nat (length lanes) * COLUMN_STRIDE) \<and>
   sorted_wrt card_before (placeColumn seed starts c lanes)"
proof -
  let ?lane = "\<lambda>(i, ns). positionLane ns (s + of_nat i * COLUMN_STRIDE) c seed"
  have p: "placeColumn seed starts c lanes = concat (List.map ?lane (enumerate 0 lanes))"
    using assms by (simp add: placeColumn_def)
  have stride: "0 < COLUMN_STRIDE"
    by (simp add: COLUMN_STRIDE_def OBJECT_MAP_NODE_WIDTH_def OBJECT_MAP_COLUMN_GAP_def)
  have "list_all2 (list_all2 (card_for seed)) (List.map snd (enumerate k lanes)) (List.map ?lane (enumerate k lanes))" for k
    by (induction lanes arbitrary: k) (auto simp: lane_props)
  from list_all2_concat [OF this [of 0]]
  have cards: "list_all2 (card_for seed) (concat lanes) (placeColumn seed starts c lanes)"
    by (simp add: p)
  have lane: "(\<forall>q \<in> set (?lane e). pn_x q = s + of_nat (fst e) * COLUMN_STRIDE \<and> pn_column q = c)
      \<and> sorted_wrt card_before (?lane e)" for e
    using lane_props by (cases e) auto
  have range: "pn_column q = c \<and> s \<le> pn_x q \<and> pn_x q + COLUMN_STRIDE \<le> s + of_nat (length lanes) * COLUMN_STRIDE"
    if "q \<in> set (placeColumn seed starts c lanes)" for q
  proof -
    from that obtain e where e: "e \<in> set (enumerate 0 lanes)" "q \<in> set (?lane e)" by (auto simp: p)
    then have i: "fst e < length lanes" by (auto simp: in_set_enumerate_eq)
    have "of_nat (fst e) * COLUMN_STRIDE + COLUMN_STRIDE = of_nat (Suc (fst e)) * COLUMN_STRIDE"
      by (simp add: algebra_simps)
    also have "\<dots> \<le> of_nat (length lanes) * COLUMN_STRIDE"
      using i stride by (intro mult_right_mono) (simp_all add: of_nat_le_iff Suc_le_eq del: of_nat_Suc)
    finally show ?thesis using lane [of e] e(2) stride by (simp add: add.assoc)
  qed
  have "sorted_wrt card_before (concat (List.map ?lane (enumerate 0 lanes)))"
  proof (rule sorted_concat)
    show "sorted_wrt card_before xs" if "xs \<in> set (List.map ?lane (enumerate 0 lanes))" for xs
      using that lane by auto
    have "sorted_wrt (\<lambda>e f. fst e < fst f) (enumerate k lanes)" for k
      by (induction lanes arbitrary: k) (auto simp: in_set_enumerate_eq)
    then have "sorted_wrt (\<lambda>e f. \<forall>x \<in> set (?lane e). \<forall>y \<in> set (?lane f). card_before x y) (enumerate 0 lanes)"
    proof (rule sorted_wrt_mono_rel [rotated])
      fix e f :: "nat \<times> map_node list" assume "fst e < fst f"
      then have "of_nat (Suc (fst e)) * COLUMN_STRIDE \<le> of_nat (fst f) * COLUMN_STRIDE"
        using stride by (intro mult_right_mono) (simp_all del: of_nat_Suc)
      then have "of_nat (fst e) * COLUMN_STRIDE + COLUMN_STRIDE \<le> of_nat (fst f) * COLUMN_STRIDE"
        by (simp add: algebra_simps)
      then show "\<forall>x \<in> set (?lane e). \<forall>y \<in> set (?lane f). card_before x y"
        using lane [of e] lane [of f] by (auto simp: card_before_def)
    qed
    then show "sorted_wrt (\<lambda>xs ys. \<forall>x \<in> set xs. \<forall>y \<in> set ys. card_before x y) (List.map ?lane (enumerate 0 lanes))"
      by (simp add: sorted_wrt_map)
  qed
  with cards range show ?thesis by (simp add: p)
qed

lemma start_defined:
  assumes "sorted cs" and "distinct cs" and c: "c \<in> set cs"
  shows "\<exists>s. jm_get (computeColumnStartX cs laneCounts seed) c = Some s"
proof -
  let ?w = "columnWidth laneCounts"
  let ?R = "filter (\<lambda>c. seed < c) cs" and ?L = "rev (filter (\<lambda>c. c < seed) cs)"
  obtain m r where right: "fold (\<lambda>c (m, x). (jm_set c x m, x + ?w c)) ?R ([(seed, 0)], ?w seed) = (m, r)" by fastforce
  obtain m' l where left: "fold (\<lambda>c (m, x). (jm_set c (x - ?w c) m, x - ?w c)) ?L (m, 0) = (m', l)" by fastforce
  have starts: "computeColumnStartX cs laneCounts seed = m'"
    using right left by (simp add: computeColumnStartX_def columnWidth_def)
  have R: "(c' \<notin> set ?R \<longrightarrow> jm_get m c' = jm_get [(seed, 0)] c') \<and> (c' \<in> set ?R \<longrightarrow> (\<exists>s. jm_get m c' = Some s))" for c'
    using startx_right [OF right] assms(2) by auto
  have L: "(c' \<notin> set ?L \<longrightarrow> jm_get m' c' = jm_get m c') \<and> (c' \<in> set ?L \<longrightarrow> (\<exists>s. jm_get m' c' = Some s))" for c'
    using startx_left [OF left] assms(2) by auto
  consider "seed < c" | "seed = c" | "c < seed" by linarith
  then show ?thesis
  proof cases
    case 1
    with c R [of c] L [of c] show ?thesis by (auto simp: starts)
  next
    case 2
    then have "jm_get m' c = Some 0" using R [of c] L [of c] by simp
    then show ?thesis unfolding starts by blast
  next
    case 3
    with c L [of c] show ?thesis by (auto simp: starts)
  qed
qed

definition card_in_column :: "column_map \<Rightarrow> string \<Rightarrow> map_node \<Rightarrow> positioned_node \<Rightarrow> bool" where
  "card_in_column columnOf seedId n p \<longleftrightarrow> card_for seedId n p \<and> pn_column p = columnFor columnOf n"

lemma partition_columns:
  assumes "distinct cs" and "columnFor columnOf ` set nodes \<subseteq> set cs"
    and "\<And>c. mset (f c) = mset (filter (\<lambda>n. columnFor columnOf n = c) nodes)"
  shows "mset (concat (List.map f cs)) = mset nodes"
proof -
  have "mset (concat (List.map f cs)) = mset (filter (\<lambda>n. columnFor columnOf n \<in> set cs) nodes)"
    using assms(1)
  proof (induction cs)
    case (Cons c cs)
    have "mset (filter (\<lambda>n. columnFor columnOf n \<in> set (c # cs)) nodes) =
        mset (filter (\<lambda>n. columnFor columnOf n = c) nodes) + mset (filter (\<lambda>n. columnFor columnOf n \<in> set cs) nodes)"
      using Cons.prems by (induction nodes) auto
    with Cons show ?case by (simp add: assms(3))
  qed simp
  also have "filter (\<lambda>n. columnFor columnOf n \<in> set cs) nodes = nodes"
    using assms(2) by (auto intro: filter_True)
  finally show ?thesis .
qed

lemma get_pairs: "c \<in> set cs \<Longrightarrow> jm_get (List.map (\<lambda>c. (c, f c)) cs) c = Some (f c)"
  by (induction cs) auto

lemma placements:
  assumes "computePlacements lc nodes edges seed = ps"
  shows "\<exists>ns. mset ns = mset nodes \<and> list_all2 (card_in_column (computeNodeColumns nodes edges seed) seed) ns ps"
    and "sorted_wrt card_before ps"
    and "\<And>p q. p \<in> set ps \<Longrightarrow> q \<in> set ps \<Longrightarrow> pn_column p < pn_column q \<Longrightarrow> pn_x p + COLUMN_STRIDE \<le> pn_x q"
proof -
  let ?columnOf = "computeNodeColumns nodes edges seed"
  define seedColumn where "seedColumn = (case jm_get ?columnOf seed of None \<Rightarrow> 0 | Some c \<Rightarrow> c)"
  define g where "g = groupByColumn ?columnOf nodes"
  define columns where "columns = orderColumnsByBarycenter lc g (buildCrossColumnAdjacency edges ?columnOf) ?columnOf seedColumn"
  define cs where "cs = sort (jm_keys columns)"
  let ?lanes = "\<lambda>c. splitColumnIntoKindAwareLanes (neighboursOf columns c)"
  define counts where "counts = List.map (\<lambda>c. (c, length (?lanes c))) cs"
  define starts where "starts = computeColumnStartX cs counts seedColumn"
  let ?place = "\<lambda>c. placeColumn seed starts c (?lanes c)"
  have ps: "ps = concat (List.map ?place cs)"
    using assms unfolding computePlacements_def Let_def seedColumn_def [symmetric] g_def [symmetric]
      columns_def [symmetric] cs_def [symmetric]
    by (simp add: starts_def counts_def comp_def)
  note G = grouped [of ?columnOf nodes, folded g_def]
  have same: "same_columns g columns" unfolding columns_def by (rule ordered_same)
  have keys: "jm_keys columns = jm_keys g" and nodes_of: "mset (neighboursOf columns c) =
      mset (filter (\<lambda>n. columnFor ?columnOf n = c) nodes)" for c
    using same G by (simp_all add: same_columns_def)
  have cs: "sorted cs" "distinct cs" "set cs = columnFor ?columnOf ` set nodes"
    using G keys by (auto simp: cs_def)
  have width: "columnWidth counts c = of_nat (length (?lanes c)) * COLUMN_STRIDE" if "c \<in> set cs" for c
    using that by (simp add: columnWidth_def laneCount_def counts_def get_pairs)
  have col: "list_all2 (card_for seed) (neighboursOf columns c) (?place c) \<and> sorted_wrt card_before (?place c) \<and>
      (\<exists>s. jm_get starts c = Some s \<and> (\<forall>q \<in> set (?place c). pn_column q = c \<and> s \<le> pn_x q
         \<and> pn_x q + COLUMN_STRIDE \<le> s + columnWidth counts c))" if c: "c \<in> set cs" for c
  proof -
    obtain s where s: "jm_get starts c = Some s" using start_defined [OF cs(1,2) c] unfolding starts_def by blast
    show ?thesis
      using column_props [OF s, of seed "?lanes c"] split_lanes [of "neighboursOf columns c"] s width [OF c] by simp
  qed
  show apart: "pn_x p + COLUMN_STRIDE \<le> pn_x q"
    if p: "p \<in> set ps" and q: "q \<in> set ps" and lt: "pn_column p < pn_column q" for p q
  proof -
    from p q ps obtain c d where c: "c \<in> set cs" "p \<in> set (?place c)" and d: "d \<in> set cs" "q \<in> set (?place d)" by auto
    from col [OF c(1)] c(2) obtain s where s: "jm_get starts c = Some s" "pn_column p = c"
      "pn_x p + COLUMN_STRIDE \<le> s + columnWidth counts c" by blast
    from col [OF d(1)] d(2) obtain t where t: "jm_get starts d = Some t" "pn_column q = d" "t \<le> pn_x q" by blast
    have "s + columnWidth counts c \<le> t"
      using columns_apart [OF cs(1,2) starts_def [symmetric] c(1) d(1)] lt s t by auto
    with s t show ?thesis by linarith
  qed
  show "sorted_wrt card_before ps"
    unfolding ps
  proof (rule sorted_concat)
    show "sorted_wrt card_before xs" if "xs \<in> set (List.map ?place cs)" for xs
      using that col by auto
    have "sorted_wrt (<) cs" using cs(1,2) by (simp add: strict_sorted_iff)
    then have "sorted_wrt (\<lambda>c d. \<forall>x \<in> set (?place c). \<forall>y \<in> set (?place d). card_before x y) cs"
    proof (rule sorted_wrt_mono_rel [rotated])
      fix c d assume "c \<in> set cs" "d \<in> set cs" "c < d"
      then show "\<forall>x \<in> set (?place c). \<forall>y \<in> set (?place d). card_before x y"
      proof (intro ballI)
        fix x y assume x: "x \<in> set (?place c)" and y: "y \<in> set (?place d)"
        then have "x \<in> set ps" "y \<in> set ps" using \<open>c \<in> set cs\<close> \<open>d \<in> set cs\<close> by (auto simp: ps)
        moreover have "pn_column x = c" "pn_column y = d"
          using col [OF \<open>c \<in> set cs\<close>] col [OF \<open>d \<in> set cs\<close>] x y by blast+
        ultimately show "card_before x y"
          using apart \<open>c < d\<close> unfolding card_before_def by blast
      qed
    qed
    then show "sorted_wrt (\<lambda>xs ys. \<forall>x \<in> set xs. \<forall>y \<in> set ys. card_before x y) (List.map ?place cs)"
      by (simp add: sorted_wrt_map)
  qed
  have "list_all2 (list_all2 (card_in_column ?columnOf seed)) (List.map (neighboursOf columns) ds) (List.map ?place ds)"
    if "set ds \<subseteq> set cs" for ds
    using that
  proof (induction ds)
    case (Cons c ds)
    then have c: "c \<in> set cs" by simp
    have "columnFor ?columnOf n = c" if "n \<in> set (neighboursOf columns c)" for n
    proof -
      have "n \<in> set (filter (\<lambda>n. columnFor ?columnOf n = c) nodes)"
        using that nodes_of [of c] by (metis set_mset_mset)
      then show ?thesis by simp
    qed
    then have "list_all2 (card_in_column ?columnOf seed) (neighboursOf columns c) (?place c)"
      using col [OF c] by (auto simp: list_all2_iff card_in_column_def) (metis in_set_zipE)+
    with Cons show ?case by simp
  qed simp
  from list_all2_concat [OF this [OF subset_refl]]
  have "list_all2 (card_in_column ?columnOf seed) (concat (List.map (neighboursOf columns) cs)) ps" by (simp add: ps)
  moreover have "mset (concat (List.map (neighboursOf columns) cs)) = mset nodes"
    by (rule partition_columns [OF cs(2) _ nodes_of]) (simp add: cs(3))
  ultimately show "\<exists>ns. mset ns = mset nodes \<and> list_all2 (card_in_column ?columnOf seed) ns ps" by blast
qed

section \<open>The layout\<close>

lemma index_values:
  fixes ps :: "positioned_node list"
  shows "distinct (List.map pn_id ps) \<Longrightarrow> List.map snd (fold (\<lambda>n m. jm_set (pn_id n) n m) ps []) = ps"
proof -
  have "fold (\<lambda>n m. jm_set (pn_id n) n m) ps m = m @ List.map (\<lambda>p. (pn_id p, p)) ps"
    if "distinct (jm_keys m @ List.map pn_id ps)" for m and ps :: "positioned_node list"
    using that
  proof (induction ps arbitrary: m)
    case (Cons p ps)
    have "jm_set k v m = m @ [(k, v)]" if "k \<notin> set (jm_keys m)" for k and v :: positioned_node
      using that by (induction m) auto
    with Cons show ?case by simp
  qed simp
  from this [of "[]" ps] show "distinct (List.map pn_id ps) \<Longrightarrow> ?thesis" by (simp add: comp_def)
qed

lemma cards_ids: "list_all2 (card_in_column columnOf seed) ns ps \<Longrightarrow> List.map pn_id ps = node_ids ns"
  by (induction rule: list_all2_induct) (auto simp: card_in_column_def card_for_def node_ids_def)

lemma layout_nodes:
  assumes "distinct (node_ids nodes)" and "nodes \<noteq> []"
  shows "ml_nodes (computeObjectMapLayout lc nodes edges seed) = computePlacements lc nodes edges seed"
    and "\<exists>ns. mset ns = mset nodes \<and> list_all2 (card_in_column (computeNodeColumns nodes edges seed) seed) ns
      (computePlacements lc nodes edges seed)"
    and "distinct (List.map pn_id (computePlacements lc nodes edges seed))"
proof -
  let ?ps = "computePlacements lc nodes edges seed"
  from placements(1) [OF refl] show ex: "\<exists>ns. mset ns = mset nodes \<and>
      list_all2 (card_in_column (computeNodeColumns nodes edges seed) seed) ns ?ps" .
  then obtain ns where ns: "mset ns = mset nodes"
    "list_all2 (card_in_column (computeNodeColumns nodes edges seed) seed) ns ?ps" by blast
  have "mset (node_ids ns) = mset (node_ids nodes)" using ns(1) by (simp add: node_ids_def)
  with assms(1) have "distinct (node_ids ns)" by (metis mset_eq_imp_distinct_iff)
  then show d: "distinct (List.map pn_id ?ps)" using cards_ids [OF ns(2)] by simp
  show "ml_nodes (computeObjectMapLayout lc nodes edges seed) = ?ps"
    using assms(2) index_values [OF d] by (simp add: computeObjectMapLayout_def Let_def)
qed

definition inside_bounds :: "positioned_node \<Rightarrow> map_bounds \<Rightarrow> bool" where
  "inside_bounds p b \<longleftrightarrow> bd_minX b \<le> pn_x p \<and> bd_minY b \<le> pn_y p
     \<and> pn_x p + pn_width p \<le> bd_maxX b \<and> pn_y p + pn_height p \<le> bd_maxY b"

lemma bounds_contain:
  assumes "p \<in> set ps"
  shows "inside_bounds p (computeObjectMapBounds ps)"
proof -
  define step where "step = (\<lambda>(n :: positioned_node) (b :: map_bounds). \<lparr>bd_minX = min (bd_minX b) (pn_x n), bd_minY = min (bd_minY b) (pn_y n),
      bd_maxX = max (bd_maxX b) (pn_x n + pn_width n), bd_maxY = max (bd_maxY b) (pn_y n + pn_height n)\<rparr>)"
  have grow: "inside_bounds q b \<Longrightarrow> inside_bounds q (step n b)" and new: "inside_bounds n (step n b)" for q n b
    by (auto simp: step_def inside_bounds_def)
  have keep: "inside_bounds q b \<Longrightarrow> inside_bounds q (fold step ns b)" for q ns b
    by (induction ns arbitrary: b) (auto intro: grow)
  have all: "q \<in> set ns \<Longrightarrow> inside_bounds q (fold step ns b)" for q ns b
    by (induction ns arbitrary: b) (auto intro: keep new)
  obtain n ns where ps: "ps = n # ns" using assms by (cases ps) auto
  let ?b = "\<lparr>bd_minX = pn_x n, bd_minY = pn_y n, bd_maxX = pn_x n + pn_width n, bd_maxY = pn_y n + pn_height n\<rparr>"
  have b: "computeObjectMapBounds ps = fold step ns ?b"
    unfolding ps computeObjectMapBounds_def step_def list.case ..
  have "inside_bounds n ?b" by (simp add: inside_bounds_def)
  with assms show ?thesis unfolding b by (auto simp: ps intro: keep all)
qed

end
