(* ===== verification/FilterSelection.thy ===== *)
theory FilterSelection
  imports Prelude
begin

text \<open>
  The value of a multi-select filter (\<open>shared/components/dropdowns/multiSelectFilterSelection.ts\<close>):
  everything, nothing, or some values. It is shared by the object map, the grid tables and the
  log views, and it is persisted, in an older form as a plain array.

  A normal selection keeps each value once up to case and trims it. Going through the values of
  the dropdown and back selects the same options.
\<close>

section \<open>Selections\<close>

datatype filter_selection = SelAll | SelNone | SelSome "string list"

datatype value_comparison = CaseInsensitive | Exact

record dropdown_option =
  do_value :: string
  do_label :: string
  do_disabled :: bool
  do_group :: "string option"

text \<open>A persisted value that nothing is known of\<close>

datatype js_value =
  JsNull | JsBool bool | JsNumber int | JsString string
  | JsArray "js_value list" | JsObject "(string \<times> js_value) list"

definition compareValue :: "string \<Rightarrow> value_comparison \<Rightarrow> string" where
  "compareValue value comparison = (if comparison = Exact then value else js_lower value)"

fun normalizeLoop :: "value_comparison \<Rightarrow> string list \<Rightarrow> string list \<Rightarrow> string list \<Rightarrow> string list" where
  "normalizeLoop comparison seen normalized [] = normalized"
| "normalizeLoop comparison seen normalized (raw # vals) =
     (if compareValue (js_trim raw) comparison \<in> set seen
      then normalizeLoop comparison seen normalized vals
      else normalizeLoop comparison (compareValue (js_trim raw) comparison # seen)
        (normalized @ [js_trim raw]) vals)"

definition normalizeValues :: "string list \<Rightarrow> value_comparison \<Rightarrow> string list" where
  "normalizeValues vals comparison = normalizeLoop comparison [] [] vals"

definition selectableOptionValues :: "dropdown_option list \<Rightarrow> value_comparison \<Rightarrow> string list" where
  "selectableOptionValues options comparison =
     normalizeValues
       (List.map do_value (filter (\<lambda>opt. \<not> do_disabled opt \<and> do_group opt \<noteq> Some ''header'') options)) comparison"

definition normalizeFilterSelection :: "filter_selection \<Rightarrow> value_comparison \<Rightarrow> filter_selection" where
  "normalizeFilterSelection selection comparison =
     (case selection of
        SelAll \<Rightarrow> SelAll
      | SelNone \<Rightarrow> SelNone
      | SelSome vs \<Rightarrow>
          let vals = normalizeValues vs comparison in if vals = [] then SelNone else SelSome vals)"

definition normalizeMultiSelectFilterSelection :: "filter_selection \<Rightarrow> filter_selection" where
  "normalizeMultiSelectFilterSelection selection = normalizeFilterSelection selection CaseInsensitive"

definition normalizeExactMultiSelectFilterSelection :: "filter_selection \<Rightarrow> filter_selection" where
  "normalizeExactMultiSelectFilterSelection selection = normalizeFilterSelection selection Exact"

definition stringItems :: "js_value list \<Rightarrow> string list" where
  "stringItems items = List.map_filter (\<lambda>item. case item of JsString s \<Rightarrow> Some s | _ \<Rightarrow> None) items"

definition migrateLegacyFilterSelection :: "js_value \<Rightarrow> value_comparison \<Rightarrow> filter_selection" where
  "migrateLegacyFilterSelection v comparison =
     (case v of
        JsArray items \<Rightarrow>
          let vals = normalizeValues (stringItems items) comparison
          in if vals = [] then SelAll else SelSome vals
      | JsObject entries \<Rightarrow>
          (case jm_get entries ''mode'' of
             None \<Rightarrow> SelAll
           | Some mode \<Rightarrow>
               if mode = JsString ''all'' then SelAll
               else if mode = JsString ''none'' then SelNone
               else if mode = JsString ''some'' then
                 (case jm_get entries ''values'' of
                    Some (JsArray items) \<Rightarrow> normalizeFilterSelection (SelSome (stringItems items)) comparison
                  | _ \<Rightarrow> SelAll)
               else SelAll)
      | _ \<Rightarrow> SelAll)"

definition filterSelectionToDropdownValues ::
  "filter_selection \<Rightarrow> dropdown_option list \<Rightarrow> value_comparison \<Rightarrow> string list" where
  "filterSelectionToDropdownValues selection options comparison =
     (case normalizeFilterSelection selection comparison of
        SelAll \<Rightarrow> selectableOptionValues options comparison
      | SelSome vals \<Rightarrow> vals
      | SelNone \<Rightarrow> [])"

definition filterSelectionFromDropdownValues ::
  "string list \<Rightarrow> dropdown_option list \<Rightarrow> value_comparison \<Rightarrow> filter_selection" where
  "filterSelectionFromDropdownValues vals options comparison =
     (let selected = normalizeValues vals comparison in
      if selected = [] then SelNone
      else
        let available = selectableOptionValues options comparison;
            selectedSet = js_unique (List.map (\<lambda>v. compareValue v comparison) selected)
        in if length selectedSet = length available
              \<and> list_all (\<lambda>v. compareValue v comparison \<in> set selectedSet) available
           then SelAll else SelSome selected)"

definition filterSelectionMatches :: "filter_selection \<Rightarrow> string \<Rightarrow> value_comparison \<Rightarrow> bool" where
  "filterSelectionMatches selection candidate comparison =
     (case normalizeFilterSelection selection comparison of
        SelAll \<Rightarrow> True
      | SelNone \<Rightarrow> False
      | SelSome vals \<Rightarrow>
          list_ex (\<lambda>v. compareValue v comparison = compareValue (js_trim candidate) comparison) vals)"

definition isNarrowingFilterSelection :: "filter_selection \<Rightarrow> bool" where
  "isNarrowingFilterSelection selection \<longleftrightarrow> selection \<noteq> SelAll"

definition filterSelectionValues :: "filter_selection \<Rightarrow> value_comparison \<Rightarrow> string list" where
  "filterSelectionValues selection comparison =
     (case normalizeFilterSelection selection comparison of SelSome vals \<Rightarrow> vals | _ \<Rightarrow> [])"

definition pruneFilterSelectionToOptions ::
  "filter_selection \<Rightarrow> dropdown_option list \<Rightarrow> value_comparison \<Rightarrow> filter_selection" where
  "pruneFilterSelectionToOptions selection options comparison =
     (case normalizeFilterSelection selection comparison of
        SelSome normalized \<Rightarrow>
          let available = List.map (\<lambda>v. compareValue v comparison) (selectableOptionValues options comparison);
              vals = filter (\<lambda>v. compareValue v comparison \<in> set available) normalized
          in if length vals = length normalized \<and> selection = SelSome vals then selection
             else if vals = [] then SelAll else SelSome vals
      | normalized \<Rightarrow> normalized)"

section \<open>Normal values\<close>

abbreviation value_key :: "value_comparison \<Rightarrow> string \<Rightarrow> string" where
  "value_key comparison v \<equiv> compareValue v comparison"

definition normal_values :: "value_comparison \<Rightarrow> string list \<Rightarrow> bool" where
  "normal_values comparison vs \<longleftrightarrow>
     list_all trimmed vs \<and> distinct (List.map (value_key comparison) vs)"

lemma normalize_loop:
  assumes "normal_values comparison normalized" and "set seen = value_key comparison ` set normalized"
  shows "normal_values comparison (normalizeLoop comparison seen normalized vals)
    \<and> value_key comparison ` set (normalizeLoop comparison seen normalized vals) =
        set seen \<union> (\<lambda>v. value_key comparison (js_trim v)) ` set vals"
  using assms
proof (induction comparison seen normalized vals rule: normalizeLoop.induct)
  case (2 comparison seen normalized raw vals)
  show ?case
  proof (cases "compareValue (js_trim raw) comparison \<in> set seen")
    case True
    with 2 show ?thesis by auto
  next
    case False
    have "normal_values comparison (normalized @ [js_trim raw])"
      using 2(3,4) False by (auto simp: normal_values_def)
    with 2 False show ?thesis by simp
  qed
qed auto

lemma normalize_values:
  "normal_values comparison (normalizeValues vals comparison)"
  "value_key comparison ` set (normalizeValues vals comparison) =
     (\<lambda>v. value_key comparison (js_trim v)) ` set vals"
  using normalize_loop [of comparison "[]" "[]" vals]
  by (simp_all add: normalizeValues_def normal_values_def)

lemma normalize_fixed_loop:
  "normal_values comparison (normalized @ vals) \<Longrightarrow> set seen = value_key comparison ` set normalized \<Longrightarrow>
   normalizeLoop comparison seen normalized vals = normalized @ vals"
proof (induction comparison seen normalized vals rule: normalizeLoop.induct)
  case (2 comparison seen normalized raw vals)
  have t: "js_trim raw = raw" using 2(3) by (simp add: normal_values_def trimmed_iff)
  have "value_key comparison raw \<notin> set seen"
    using 2(3,4) by (auto simp: normal_values_def)
  moreover have "normal_values comparison ((normalized @ [raw]) @ vals)" using 2(3) by simp
  ultimately show ?case using 2(2,4) t by simp
qed simp

lemma normalize_fixed: "normal_values comparison vals \<Longrightarrow> normalizeValues vals comparison = vals"
  using normalize_fixed_loop [of comparison "[]" vals "[]"] by (simp add: normalizeValues_def)

lemma normalize_empty: "normalizeValues vals comparison = [] \<longleftrightarrow> vals = []"
  using normalize_values(2) [of comparison vals] by (cases vals) (auto simp: normalizeValues_def)

lemma normalize_selection_idem:
  "normalizeFilterSelection (normalizeFilterSelection s comparison) comparison = normalizeFilterSelection s comparison"
  using normalize_fixed [OF normalize_values(1)] normalize_empty
  by (cases s) (auto simp: normalizeFilterSelection_def Let_def)

lemma matches_some:
  "filterSelectionMatches (SelSome vs) c comparison \<longleftrightarrow>
     value_key comparison (js_trim c) \<in> (\<lambda>v. value_key comparison (js_trim v)) ` set vs"
proof -
  have "filterSelectionMatches (SelSome vs) c comparison \<longleftrightarrow>
      value_key comparison (js_trim c) \<in> value_key comparison ` set (normalizeValues vs comparison)"
    by (auto simp: filterSelectionMatches_def normalizeFilterSelection_def Let_def list_ex_iff image_iff eq_commute [of "value_key comparison (js_trim c)"])
  then show ?thesis by (simp add: normalize_values(2))
qed

lemma matches_normal: "filterSelectionMatches (normalizeFilterSelection s comparison) c comparison =
    filterSelectionMatches s c comparison"
  by (simp add: filterSelectionMatches_def normalize_selection_idem)

lemma option_normal: "normal_values comparison (selectableOptionValues options comparison)"
  by (simp add: selectableOptionValues_def normalize_values(1))

text \<open>Choosing as many values as there are options, all options among them, is choosing all.\<close>

lemma from_dropdown:
  assumes "filterSelectionFromDropdownValues vals options comparison = s"
    and "c \<in> set (selectableOptionValues options comparison)"
  shows "filterSelectionMatches s c comparison \<longleftrightarrow>
    value_key comparison c \<in> (\<lambda>v. value_key comparison (js_trim v)) ` set vals"
proof -
  have tc: "js_trim c = c"
    using assms(2) option_normal [of comparison options] by (auto simp: normal_values_def list_all_iff trimmed_iff)
  let ?sel = "normalizeValues vals comparison"
  have keys: "value_key comparison ` set ?sel = (\<lambda>v. value_key comparison (js_trim v)) ` set vals"
    by (rule normalize_values(2))
  consider (none) "?sel = []" "s = SelNone"
    | (all) "s = SelAll" "\<forall>v \<in> set (selectableOptionValues options comparison). value_key comparison v \<in> value_key comparison ` set ?sel"
    | (some) "s = SelSome ?sel"
    using assms(1) by (auto simp: filterSelectionFromDropdownValues_def Let_def list_all_iff split: if_splits)
  then show ?thesis
  proof cases
    case none
    then have "vals = []" by (simp add: normalize_empty)
    with none show ?thesis by (simp add: filterSelectionMatches_def normalizeFilterSelection_def)
  next
    case all
    then have "value_key comparison c \<in> value_key comparison ` set ?sel" using assms(2) by blast
    with all(1) keys show ?thesis by (simp add: filterSelectionMatches_def normalizeFilterSelection_def)
  next
    case some
    have "filterSelectionMatches s c comparison \<longleftrightarrow> value_key comparison c \<in> (\<lambda>v. value_key comparison (js_trim v)) ` set ?sel"
      by (simp add: some matches_some tc)
    also have "(\<lambda>v. value_key comparison (js_trim v)) ` set ?sel = value_key comparison ` set ?sel"
      using normalize_values(1) [of comparison vals]
      by (intro image_cong) (auto simp: normal_values_def list_all_iff trimmed_iff)
    finally show ?thesis using keys by simp
  qed
qed

lemma dropdown_round_trip:
  assumes "c \<in> set (selectableOptionValues options comparison)"
  shows "filterSelectionMatches (filterSelectionFromDropdownValues
      (filterSelectionToDropdownValues s options comparison) options comparison) c comparison
    \<longleftrightarrow> filterSelectionMatches s c comparison"
proof -
  have tc: "js_trim c = c"
    using assms option_normal [of comparison options] by (auto simp: normal_values_def list_all_iff trimmed_iff)
  note chosen = from_dropdown [OF refl assms, of "filterSelectionToDropdownValues s options comparison"]
  show ?thesis
  proof (cases "normalizeFilterSelection s comparison")
    case SelAll
    then have "filterSelectionToDropdownValues s options comparison = selectableOptionValues options comparison"
      by (simp add: filterSelectionToDropdownValues_def)
    then show ?thesis using chosen assms tc SelAll by (force simp: filterSelectionMatches_def)
  next
    case SelNone
    then show ?thesis using chosen by (simp add: filterSelectionToDropdownValues_def filterSelectionMatches_def)
  next
    case (SelSome vs)
    have "filterSelectionMatches s c comparison \<longleftrightarrow> filterSelectionMatches (SelSome vs) c comparison"
      using matches_normal [of s comparison c] SelSome by simp
    with chosen SelSome tc show ?thesis by (simp add: filterSelectionToDropdownValues_def matches_some)
  qed
qed

section \<open>Properties\<close>

text \<open>
  C27. A selection survives the dropdown: turned into the ticked entries and back, it selects the
  same options as before, whether it was all, none or some of them.
\<close>

theorem dropdown_selects_same:
  assumes "c \<in> set (selectableOptionValues options comparison)"
  shows "filterSelectionMatches (filterSelectionFromDropdownValues
      (filterSelectionToDropdownValues s options comparison) options comparison) c comparison
    \<longleftrightarrow> filterSelectionMatches s c comparison"
  using assms by (rule dropdown_round_trip)

lemma sample_options:
  "''Pod'' \<in> set (selectableOptionValues [\<lparr>do_value = ''Pod'', do_label = ''Pod'', do_disabled = False, do_group = None\<rparr>] CaseInsensitive)
   \<and> filterSelectionMatches (SelSome ['' pod '']) ''Pod'' CaseInsensitive"
  by code_simp

lemma dropdown_selects_same_witness:
  "filterSelectionMatches (filterSelectionFromDropdownValues (filterSelectionToDropdownValues (SelSome ['' pod ''])
     [\<lparr>do_value = ''Pod'', do_label = ''Pod'', do_disabled = False, do_group = None\<rparr>] CaseInsensitive)
     [\<lparr>do_value = ''Pod'', do_label = ''Pod'', do_disabled = False, do_group = None\<rparr>] CaseInsensitive) ''Pod'' CaseInsensitive"
  using dropdown_selects_same [OF sample_options [THEN conjunct1], of "SelSome ['' pod '']"] sample_options by blast

end
