(* ===== verification/KindNames.thy ===== *)
theory KindNames
  imports Prelude
begin

text \<open>
  The short and display names of the kinds (\<open>utils/kindAliasMap.ts\<close>) and the reverse map from what a
  user types to a kind. The preference for short names is an argument. A kind that is not in a table
  has no entry (names of \<open>Object.prototype\<close> are not considered).
\<close>

section \<open>Names\<close>

definition kindAliasMap :: "(string, string) jmap" where
  "kindAliasMap =
    [(''Pod'', ''pod''),
     (''Deployment'', ''deploy''),
     (''DaemonSet'', ''ds''),
     (''StatefulSet'', ''sts''),
     (''ReplicaSet'', ''rs''),
     (''Job'', ''job''),
     (''CronJob'', ''cron''),
     (''Service'', ''svc''),
     (''EndpointSlice'', ''eps''),
     (''Ingress'', ''ing''),
     (''IngressClass'', ''ingclass''),
     (''NetworkPolicy'', ''netpol''),
     (''GatewayClass'', ''gwclass''),
     (''Gateway'', ''gw''),
     (''ListenerSet'', ''ls''),
     (''HTTPRoute'', ''httproute''),
     (''GRPCRoute'', ''grpcroute''),
     (''TLSRoute'', ''tlsroute''),
     (''BackendTLSPolicy'', ''btls''),
     (''ReferenceGrant'', ''refgrant''),
     (''ConfigMap'', ''cm''),
     (''Secret'', ''sec''),
     (''PersistentVolumeClaim'', ''pvc''),
     (''PersistentVolume'', ''pv''),
     (''StorageClass'', ''sc''),
     (''ServiceAccount'', ''sa''),
     (''ClusterRole'', ''cr''),
     (''ClusterRoleBinding'', ''crb''),
     (''Role'', ''role''),
     (''RoleBinding'', ''rb''),
     (''Node'', ''node''),
     (''Namespace'', ''ns''),
     (''Event'', ''ev''),
     (''CustomResourceDefinition'', ''crd''),
     (''ResourceQuota'', ''quota''),
     (''LimitRange'', ''limit''),
     (''PodDisruptionBudget'', ''pdb''),
     (''HorizontalPodAutoscaler'', ''hpa''),
     (''ValidatingWebhookConfiguration'', ''vwc''),
     (''MutatingWebhookConfiguration'', ''mwc''),
     (''HelmRelease'', ''helm'')]"

definition displayNameOverrides :: "(string, string) jmap" where
  "displayNameOverrides =
    [(''MutatingWebhookConfiguration'', ''MutatingWebhook''),
     (''ValidatingWebhookConfiguration'', ''ValidatingWebhook'')]"

definition or_self :: "string option \<Rightarrow> string \<Rightarrow> string" where
  "or_self x kind = (case x of None \<Rightarrow> kind | Some s \<Rightarrow> if s = '''' then kind else s)"

definition getTypeAlias :: "bool \<Rightarrow> string \<Rightarrow> string option" where
  "getTypeAlias useShortNames kind = (if useShortNames then jm_get kindAliasMap kind else None)"

definition getDisplayKind :: "string \<Rightarrow> bool \<Rightarrow> string" where
  "getDisplayKind kind useShortNames =
     (if useShortNames then or_self (jm_get kindAliasMap kind) kind
      else or_self (jm_get displayNameOverrides kind) kind)"

definition kubectlAliases :: "(string, string) jmap" where
  "kubectlAliases =
    [(''po'', ''Pod''),
     (''pods'', ''Pod''),
     (''deploys'', ''Deployment''),
     (''deployments'', ''Deployment''),
     (''daemonsets'', ''DaemonSet''),
     (''statefulsets'', ''StatefulSet''),
     (''sts'', ''StatefulSet''),
     (''replicasets'', ''ReplicaSet''),
     (''jobs'', ''Job''),
     (''cronjobs'', ''CronJob''),
     (''cj'', ''CronJob''),
     (''services'', ''Service''),
     (''svcs'', ''Service''),
     (''ingresses'', ''Ingress''),
     (''ing'', ''Ingress''),
     (''networkpolicies'', ''NetworkPolicy''),
     (''np'', ''NetworkPolicy''),
     (''gatewayclasses'', ''GatewayClass''),
     (''gateways'', ''Gateway''),
     (''gtw'', ''Gateway''),
     (''httproutes'', ''HTTPRoute''),
     (''grpcroutes'', ''GRPCRoute''),
     (''tlsroutes'', ''TLSRoute''),
     (''listenersets'', ''ListenerSet''),
     (''backendtlspolicies'', ''BackendTLSPolicy''),
     (''referencegrants'', ''ReferenceGrant''),
     (''configmaps'', ''ConfigMap''),
     (''secrets'', ''Secret''),
     (''persistentvolumeclaims'', ''PersistentVolumeClaim''),
     (''pvcs'', ''PersistentVolumeClaim''),
     (''persistentvolumes'', ''PersistentVolume''),
     (''pvs'', ''PersistentVolume''),
     (''storageclasses'', ''StorageClass''),
     (''serviceaccounts'', ''ServiceAccount''),
     (''sas'', ''ServiceAccount''),
     (''clusterroles'', ''ClusterRole''),
     (''clusterrolebindings'', ''ClusterRoleBinding''),
     (''roles'', ''Role''),
     (''rolebindings'', ''RoleBinding''),
     (''nodes'', ''Node''),
     (''namespaces'', ''Namespace''),
     (''events'', ''Event''),
     (''crds'', ''CustomResourceDefinition''),
     (''resourcequotas'', ''ResourceQuota''),
     (''limitranges'', ''LimitRange''),
     (''poddisruptionbudgets'', ''PodDisruptionBudget''),
     (''pdbs'', ''PodDisruptionBudget''),
     (''horizontalpodautoscalers'', ''HorizontalPodAutoscaler''),
     (''hpas'', ''HorizontalPodAutoscaler'')]"

definition aliasToKindMap :: "(string, string) jmap" where
  "aliasToKindMap =
     fold (\<lambda>(abbreviated, kind) m. if jm_has m abbreviated then m else jm_set abbreviated kind m) kubectlAliases
       (fold (\<lambda>(kind, abbreviated) m.
           jm_set (abbreviated @ ''s'') kind (jm_set (js_lower kind @ ''s'') kind
             (jm_set (js_lower kind) kind (jm_set abbreviated kind m)))) kindAliasMap [])"

definition canonicalKinds :: "string list" where
  "canonicalKinds = List.map js_lower (js_unique (List.map snd aliasToKindMap))"

text \<open>No two kinds have the same short name, and a short name is never empty.\<close>

lemma short_names: "distinct (List.map snd kindAliasMap) \<and> [] \<notin> set (List.map snd kindAliasMap)
  \<and> jm_ok kindAliasMap"
  by code_simp

lemma short_name_injective:
  assumes "jm_has kindAliasMap a" and "jm_has kindAliasMap b" and "getDisplayKind a True = getDisplayKind b True"
  shows "a = b"
proof -
  obtain x y where x: "jm_get kindAliasMap a = Some x" and y: "jm_get kindAliasMap b = Some y"
    using assms(1,2) by auto
  then have m: "(a, x) \<in> set kindAliasMap" "(b, y) \<in> set kindAliasMap" by (auto dest: jm_get_in)
  then have "x \<noteq> []" "y \<noteq> []" using short_names by force+
  with x y assms(3) have "x = y" by (simp add: getDisplayKind_def or_self_def)
  with m short_names show ?thesis
    by (metis (no_types, lifting) distinct_map inj_onD prod.inject snd_conv)
qed

end
