(* ===== verification/ObjectMapModel.thy ===== *)
theory ObjectMapModel
  imports ObjectMapCollapse ObjectMapLayoutInv FilterSelection KindNames ClusterScope
begin

text \<open>
  The object map as the user handles it: the pipeline from the payload to the rendered graph and
  the state of the view (\<open>useObjectMapModel.ts\<close>), the gesture state (\<open>objectMapNodeGesture.ts\<close>),
  the filters, focus mode and search (\<open>objectMapVisibleState.ts\<close>) and the scope of the domain
  (\<open>objectMapScope.ts\<close>), all under \<open>modules/object-map/\<close>.

  React recomputes the memoised values of the hook when their inputs change; here they are
  functions of the state. An effect is part of the operation that triggers it: the positions a
  user has given are dropped when the rendered graph is computed anew, and a selection that is
  no longer drawn is cleared.
\<close>

section \<open>The payload and the rendered graph\<close>

record map_payload =
  mp_seed :: map_ref
  mp_nodes :: "map_node list option"
  mp_edges :: "map_edge list option"

record normalized_payload =
  np_seed :: map_ref
  np_nodes :: "map_node list"
  np_edges :: "map_edge list"

definition normalizeObjectMapPayload :: "map_payload \<Rightarrow> normalized_payload" where
  "normalizeObjectMapPayload payload =
     \<lparr>np_seed = mp_seed payload,
      np_nodes = (case mp_nodes payload of None \<Rightarrow> [] | Some ns \<Rightarrow> ns),
      np_edges = (case mp_edges payload of None \<Rightarrow> [] | Some es \<Rightarrow> es)\<rparr>"

definition filled :: "string option \<Rightarrow> bool" where
  "filled x \<longleftrightarrow> x \<noteq> None \<and> x \<noteq> Some ''''"

definition isSeedRef :: "map_ref \<Rightarrow> map_ref \<Rightarrow> bool" where
  "isSeedRef ref r \<longleftrightarrow>
     ref_clusterId r = ref_clusterId ref
     \<and> (if filled (ref_uid r) \<and> filled (ref_uid ref) then ref_uid r = ref_uid ref
        else ref_kind r = ref_kind ref \<and> ref_name r = ref_name ref
             \<and> or_empty (ref_namespace r) = or_empty (ref_namespace ref)
             \<and> ref_group r = ref_group ref \<and> ref_version r = ref_version ref)"

definition findSeedId :: "normalized_payload \<Rightarrow> string" where
  "findSeedId payload =
     (case find (\<lambda>n. isSeedRef (np_seed payload) (nd_ref n)) (np_nodes payload) of
        None \<Rightarrow> '''' | Some n \<Rightarrow> nd_id n)"

definition reachableGraph :: "normalized_payload \<Rightarrow> map_node list \<times> map_edge list" where
  "reachableGraph payload =
     filterByDirectionalReachability (np_nodes payload)
       (dedupeServiceEdges (np_nodes payload) (np_edges payload)) (findSeedId payload)"

definition collapseOf :: "normalized_payload \<Rightarrow> string list \<Rightarrow> collapse_info" where
  "collapseOf payload expanded =
     (case reachableGraph payload of (nodes, edges) \<Rightarrow>
        computeCollapseInfo nodes edges (findSeedId payload) expanded)"

definition renderedGraph :: "normalized_payload \<Rightarrow> string list \<Rightarrow> map_node list \<times> map_edge list" where
  "renderedGraph payload expanded =
     (case reachableGraph payload of (nodes, edges) \<Rightarrow>
        case filterByCollapseInfo nodes edges (ci_visibleNodeIds (collapseOf payload expanded)) of
          (nodes', edges') \<Rightarrow> filterByDirectionalReachability nodes' edges' (findSeedId payload))"

section \<open>The state of the view\<close>

record map_pointer =
  pt_pointerId :: int
  pt_button :: "int option"
  pt_clientX :: rat
  pt_clientY :: rat
  pt_layoutX :: "rat option"
  pt_layoutY :: "rat option"

record node_drag =
  dr_pointerId :: int
  dr_nodeId :: string
  dr_originClientX :: rat
  dr_originClientY :: rat
  dr_originLayoutX :: "rat option"
  dr_originLayoutY :: "rat option"
  dr_startX :: rat
  dr_startY :: rat
  dr_didDrag :: bool

record hover_edge =
  he_tooltipX :: rat
  he_tooltipY :: rat
  he_sourceLabel :: string
  he_sourceKind :: string
  he_label :: string
  he_targetLabel :: string
  he_targetKind :: string
  he_type :: string
  he_tracedBy :: "string option"
  he_filteredPath :: "filtered_path option"

record node_badge =
  bg_deploymentId :: string
  bg_hiddenCount :: nat
  bg_expanded :: bool

record map_model =
  mm_payload :: normalized_payload
  mm_expanded :: "string list"
  mm_overrides :: "(string, rat \<times> rat) jmap"
  mm_drag :: "node_drag option"
  mm_autoFit :: bool
  mm_hoverEdge :: "hover_edge option"
  mm_activeNodeId :: "string option"

definition initialModel :: "normalized_payload \<Rightarrow> map_model" where
  "initialModel payload =
     \<lparr>mm_payload = payload, mm_expanded = [], mm_overrides = [], mm_drag = None, mm_autoFit = True,
      mm_hoverEdge = None, mm_activeNodeId = None\<rparr>"

definition filteredOf :: "map_model \<Rightarrow> map_node list \<times> map_edge list" where
  "filteredOf m = renderedGraph (mm_payload m) (mm_expanded m)"

definition seedOf :: "map_model \<Rightarrow> string" where
  "seedOf m = findSeedId (mm_payload m)"

definition baseLayout :: "locale_compare \<Rightarrow> map_model \<Rightarrow> map_layout" where
  "baseLayout localeCompare m =
     computeObjectMapLayout localeCompare (fst (filteredOf m)) (snd (filteredOf m)) (seedOf m)"

definition moveCard :: "(string, rat \<times> rat) jmap \<Rightarrow> positioned_node \<Rightarrow> positioned_node" where
  "moveCard overrides p =
     (case jm_get overrides (pn_id p) of None \<Rightarrow> p | Some (x, y) \<Rightarrow> p\<lparr>pn_x := x, pn_y := y\<rparr>)"

definition modelLayout :: "locale_compare \<Rightarrow> map_model \<Rightarrow> map_layout" where
  "modelLayout localeCompare m =
     (let base = baseLayout localeCompare m in
      if mm_overrides m = [] then base
      else
        let nodes = List.map (moveCard (mm_overrides m)) (ml_nodes base)
        in \<lparr>ml_nodes = nodes, ml_edges = routeObjectMapEdges nodes (snd (filteredOf m)),
            ml_bounds = computeObjectMapBounds nodes\<rparr>)"

definition drawnIds :: "locale_compare \<Rightarrow> map_model \<Rightarrow> string list" where
  "drawnIds localeCompare m = List.map pn_id (ml_nodes (modelLayout localeCompare m))"

text \<open>The effects\<close>

definition resetLayout :: "map_model \<Rightarrow> map_model" where
  "resetLayout m = m\<lparr>mm_overrides := [], mm_drag := None\<rparr>"

definition clearLostSelection :: "locale_compare \<Rightarrow> map_model \<Rightarrow> map_model" where
  "clearLostSelection localeCompare m =
     (case mm_activeNodeId m of
        None \<Rightarrow> m
      | Some i \<Rightarrow> if i \<in> set (drawnIds localeCompare m) then m else m\<lparr>mm_activeNodeId := None\<rparr>)"

text \<open>The operations. A payload with the same node and edge arrays and the same seed does not
  change the rendered graph; \<open>fresh\<close> says that the arrays are new.\<close>

definition receivePayload :: "locale_compare \<Rightarrow> normalized_payload \<Rightarrow> bool \<Rightarrow> map_model \<Rightarrow> map_model" where
  "receivePayload localeCompare payload fresh m =
     (let m' = m\<lparr>mm_payload := payload\<rparr> in
      clearLostSelection localeCompare
        (if fresh \<or> findSeedId payload \<noteq> seedOf m then resetLayout m' else m'))"

definition toggleGroup :: "locale_compare \<Rightarrow> string \<Rightarrow> map_model \<Rightarrow> map_model" where
  "toggleGroup localeCompare deploymentId m =
     clearLostSelection localeCompare (resetLayout
       (m\<lparr>mm_expanded := (if deploymentId \<in> set (mm_expanded m)
            then filter (\<lambda>d. d \<noteq> deploymentId) (mm_expanded m) else mm_expanded m @ [deploymentId])\<rparr>))"

definition badgeForNode :: "map_model \<Rightarrow> string \<Rightarrow> node_badge option" where
  "badgeForNode m nodeId =
     map_option (\<lambda>g. \<lparr>bg_deploymentId = dg_deploymentId g,
         bg_hiddenCount = length (dg_collapsibleRsIds g),
         bg_expanded = (dg_deploymentId g \<in> set (mm_expanded m))\<rparr>)
       (jm_get (ci_groupsByCurrentRs (collapseOf (mm_payload m) (mm_expanded m))) nodeId)"

definition selectNode :: "locale_compare \<Rightarrow> string \<Rightarrow> map_model \<Rightarrow> map_model" where
  "selectNode localeCompare i m =
     clearLostSelection localeCompare
       (m\<lparr>mm_activeNodeId := (if mm_activeNodeId m = Some i then None else Some i)\<rparr>)"

definition focusNode :: "locale_compare \<Rightarrow> string \<Rightarrow> map_model \<Rightarrow> map_model" where
  "focusNode localeCompare i m =
     (if i \<notin> set (drawnIds localeCompare m) then m else m\<lparr>mm_activeNodeId := Some i\<rparr>)"

definition clearSelection :: "map_model \<Rightarrow> map_model" where
  "clearSelection m = m\<lparr>mm_activeNodeId := None\<rparr>"

definition setAutoFit :: "bool \<Rightarrow> map_model \<Rightarrow> map_model" where
  "setAutoFit b m = m\<lparr>mm_autoFit := b\<rparr>"

definition setHoverEdge :: "hover_edge option \<Rightarrow> map_model \<Rightarrow> map_model" where
  "setHoverEdge e m = m\<lparr>mm_hoverEdge := e\<rparr>"

definition clearHoverEdge :: "map_model \<Rightarrow> map_model" where
  "clearHoverEdge m = m\<lparr>mm_hoverEdge := None\<rparr>"

definition startNodeDrag :: "positioned_node \<Rightarrow> map_pointer \<Rightarrow> map_model \<Rightarrow> map_model" where
  "startNodeDrag node pointer m =
     (if pt_button pointer \<noteq> Some 0 then m
      else m\<lparr>mm_drag := Some \<lparr>dr_pointerId = pt_pointerId pointer, dr_nodeId = pn_id node,
               dr_originClientX = pt_clientX pointer, dr_originClientY = pt_clientY pointer,
               dr_originLayoutX = pt_layoutX pointer, dr_originLayoutY = pt_layoutY pointer,
               dr_startX = pn_x node, dr_startY = pn_y node, dr_didDrag = False\<rparr>\<rparr>)"

definition OBJECT_MAP_NODE_DRAG_THRESHOLD_PX :: rat where
  "OBJECT_MAP_NODE_DRAG_THRESHOLD_PX = 3"

text \<open>\<open>Math.hypot(dx, dy) >= threshold\<close>\<close>

definition beyondThreshold :: "rat \<Rightarrow> rat \<Rightarrow> bool" where
  "beyondThreshold dx dy \<longleftrightarrow>
     OBJECT_MAP_NODE_DRAG_THRESHOLD_PX * OBJECT_MAP_NODE_DRAG_THRESHOLD_PX \<le> dx * dx + dy * dy"

definition dragDelta :: "rat option \<Rightarrow> rat option \<Rightarrow> rat \<Rightarrow> rat" where
  "dragDelta origin now screen = (case (origin, now) of (Some a, Some b) \<Rightarrow> b - a | _ \<Rightarrow> screen)"

definition moveNodeDrag :: "map_pointer \<Rightarrow> map_model \<Rightarrow> map_model" where
  "moveNodeDrag pointer m =
     (case mm_drag m of
        None \<Rightarrow> m
      | Some drag \<Rightarrow>
          if dr_pointerId drag \<noteq> pt_pointerId pointer then m
          else
            let dx = pt_clientX pointer - dr_originClientX drag;
                dy = pt_clientY pointer - dr_originClientY drag;
                starts = (\<not> dr_didDrag drag \<and> beyondThreshold dx dy);
                drag' = (if starts then drag\<lparr>dr_didDrag := True\<rparr> else drag);
                m' = m\<lparr>mm_drag := Some drag', mm_autoFit := (if starts then False else mm_autoFit m)\<rparr>
            in if \<not> dr_didDrag drag' then m'
               else m'\<lparr>mm_overrides := jm_set (dr_nodeId drag)
                 (dr_startX drag + dragDelta (dr_originLayoutX drag) (pt_layoutX pointer) dx,
                  dr_startY drag + dragDelta (dr_originLayoutY drag) (pt_layoutY pointer) dy)
                 (mm_overrides m)\<rparr>)"

definition endNodeDrag :: "map_pointer \<Rightarrow> map_model \<Rightarrow> map_model" where
  "endNodeDrag pointer m =
     (case mm_drag m of
        None \<Rightarrow> m
      | Some drag \<Rightarrow> if dr_pointerId drag \<noteq> pt_pointerId pointer then m else m\<lparr>mm_drag := None\<rparr>)"

section \<open>The gesture state of the renderer\<close>

record gesture_drag =
  gd_pointerId :: int
  gd_nodeId :: string
  gd_originClientX :: rat
  gd_originClientY :: rat
  gd_didDrag :: bool

record gesture_state =
  gs_activeDrag :: "gesture_drag option"
  gs_suppressClickNodeId :: "string option"

definition createObjectMapNodeGestureState :: gesture_state where
  "createObjectMapNodeGestureState = \<lparr>gs_activeDrag = None, gs_suppressClickNodeId = None\<rparr>"

definition clearObjectMapNodeGesture :: "gesture_state \<Rightarrow> gesture_state" where
  "clearObjectMapNodeGesture s = s\<lparr>gs_activeDrag := None, gs_suppressClickNodeId := None\<rparr>"

definition beginObjectMapNodeGesture :: "int \<Rightarrow> string \<Rightarrow> rat \<Rightarrow> rat \<Rightarrow> gesture_state \<Rightarrow> gesture_state" where
  "beginObjectMapNodeGesture pointerId nodeId clientX clientY s =
     s\<lparr>gs_suppressClickNodeId := None,
       gs_activeDrag := Some \<lparr>gd_pointerId = pointerId, gd_nodeId = nodeId, gd_originClientX = clientX,
         gd_originClientY = clientY, gd_didDrag = False\<rparr>\<rparr>"

definition updateObjectMapNodeGesture :: "int \<Rightarrow> rat \<Rightarrow> rat \<Rightarrow> gesture_state \<Rightarrow> gesture_state \<times> bool" where
  "updateObjectMapNodeGesture pointerId clientX clientY s =
     (case gs_activeDrag s of
        None \<Rightarrow> (s, False)
      | Some drag \<Rightarrow>
          if gd_pointerId drag \<noteq> pointerId then (s, False)
          else (if \<not> gd_didDrag drag
                   \<and> beyondThreshold (clientX - gd_originClientX drag) (clientY - gd_originClientY drag)
                then s\<lparr>gs_activeDrag := Some (drag\<lparr>gd_didDrag := True\<rparr>)\<rparr> else s, True))"

definition objectMapActiveDragNodeId :: "gesture_state \<Rightarrow> string option" where
  "objectMapActiveDragNodeId s =
     (case gs_activeDrag s of None \<Rightarrow> None | Some drag \<Rightarrow> if gd_didDrag drag then Some (gd_nodeId drag) else None)"

definition endObjectMapNodeGesture :: "int \<Rightarrow> gesture_state \<Rightarrow> gesture_state \<times> (string \<times> bool) option" where
  "endObjectMapNodeGesture pointerId s =
     (case gs_activeDrag s of
        None \<Rightarrow> (s, None)
      | Some drag \<Rightarrow>
          if gd_pointerId drag \<noteq> pointerId then (s, None)
          else (s\<lparr>gs_activeDrag := None,
                   gs_suppressClickNodeId :=
                     (if gd_didDrag drag then Some (gd_nodeId drag) else gs_suppressClickNodeId s)\<rparr>,
                Some (gd_nodeId drag, gd_didDrag drag)))"

definition consumeObjectMapSuppressedClick :: "string \<Rightarrow> gesture_state \<Rightarrow> gesture_state \<times> bool" where
  "consumeObjectMapSuppressedClick nodeId s =
     (if \<not> filled (gs_suppressClickNodeId s) then (s, False)
      else (s\<lparr>gs_suppressClickNodeId := None\<rparr>, gs_suppressClickNodeId s = Some nodeId))"

end
