(* ===== verification/ObjectMapVisible.thy ===== *)
theory ObjectMapVisible
  imports ObjectMapModel
begin

text \<open>
  What the object map shows after its filters (\<open>modules/object-map/objectMapVisibleState.ts\<close>), the
  registry of edge kinds (\<open>objectMapEdgeStyle.ts\<close>) and the scope of the domain
  (\<open>objectMapScope.ts\<close>).
\<close>

section \<open>The filters\<close>

record edge_kind_meta =
  ek_type :: string
  ek_label :: string
  ek_family :: string

definition edgeKind :: "string \<Rightarrow> string \<Rightarrow> string \<Rightarrow> edge_kind_meta" where
  "edgeKind t l f = \<lparr>ek_type = t, ek_label = l, ek_family = f\<rparr>"

definition OBJECT_MAP_EDGE_KINDS :: "edge_kind_meta list" where
  "OBJECT_MAP_EDGE_KINDS =
     [edgeKind ''owner'' ''Ownership'' ''structural'', edgeKind ''selector'' ''Selector'' ''network'',
      edgeKind ''endpoint'' ''Endpoint'' ''network'', edgeKind ''routes'' ''Traffic Route'' ''network'',
      edgeKind ''scales'' ''Scaling'' ''workload'', edgeKind ''schedules'' ''Scheduled On'' ''workload'',
      edgeKind ''grants'' ''Grants'' ''rbac'', edgeKind ''binds'' ''Binds'' ''rbac'',
      edgeKind ''aggregates'' ''Aggregates'' ''rbac'', edgeKind ''uses'' ''Used By'' ''dependency'',
      edgeKind ''mounts'' ''Mounts'' ''storage'', edgeKind ''volume-binding'' ''Volume Binding'' ''storage'',
      edgeKind ''storage-class'' ''Storage Class'' ''storage'',
      edgeKind ''filtered-path'' ''Filtered path'' ''filter'']"

definition objectMapEdgeClass :: "string \<Rightarrow> string" where
  "objectMapEdgeClass edgeType =
     (let normalized = js_lower (js_trim edgeType);
          variant = (if normalized \<in> set (List.map ek_type OBJECT_MAP_EDGE_KINDS) then normalized else ''default'')
      in ''object-map-edge object-map-edge--'' @ variant)"

record visible_input =
  vi_layout :: map_layout
  vi_seedNodeId :: string
  vi_activeNodeId :: "string option"
  vi_focusMode :: bool
  vi_selectedKinds :: filter_selection
  vi_enabledEdgeTypes :: "string list option"
  vi_searchQuery :: string
  vi_useShortResourceNames :: bool

record visible_state =
  vs_hasSelectedKinds :: bool
  vs_realEdgeTypes :: "string list"
  vs_visibleEdgeTypes :: "string list"
  vs_legendEntries :: "edge_kind_meta list"
  vs_kindOptions :: "dropdown_option list"
  vs_visibleLayout :: map_layout
  vs_visibleSelectionState :: selection_state
  vs_normalizedSearchQuery :: string
  vs_searchMatches :: "positioned_node list"

definition toLayoutNodeInput :: "positioned_node \<Rightarrow> map_node" where
  "toLayoutNodeInput p =
     \<lparr>nd_id = pn_id p, nd_depth = abs (pn_column p), nd_ref = pn_ref p,
      nd_creationTimestamp = pn_creationTimestamp p, nd_status = pn_status p\<rparr>"

definition toLayoutEdgeInput :: "positioned_edge \<Rightarrow> map_edge" where
  "toLayoutEdgeInput e =
     \<lparr>ed_id = pe_id e, ed_source = pe_sourceId e, ed_target = pe_targetId e, ed_type = pe_type e,
      ed_label = pe_label e, ed_tracedBy = pe_tracedBy e, ed_filteredPath = pe_filteredPath e\<rparr>"

definition computeRealEdgeTypes :: "positioned_edge list \<Rightarrow> string list" where
  "computeRealEdgeTypes edges = js_unique (List.map (\<lambda>e. js_lower (js_trim (pe_type e))) edges)"

definition computeVisibleEdgeTypes :: "string list \<Rightarrow> bool \<Rightarrow> string list" where
  "computeVisibleEdgeTypes realEdgeTypes hasSelectedKinds =
     (if hasSelectedKinds then jset_add FILTERED_PATH_EDGE_TYPE realEdgeTypes else realEdgeTypes)"

definition computeKindOptions ::
  "locale_compare \<Rightarrow> positioned_node list \<Rightarrow> bool \<Rightarrow> dropdown_option list" where
  "computeKindOptions localeCompare nodes useShortResourceNames =
     List.map (\<lambda>kind. \<lparr>do_value = kind, do_label = getDisplayKind kind useShortResourceNames,
         do_disabled = False, do_group = None\<rparr>)
       (js_sort (\<lambda>a b. of_int (localeCompare a b)) (js_unique (List.map (\<lambda>p. ref_kind (pn_ref p)) nodes)))"

definition applyEdgeTypeFilter :: "map_layout \<Rightarrow> string list option \<Rightarrow> map_layout" where
  "applyEdgeTypeFilter layout enabledEdgeTypes =
     (case enabledEdgeTypes of
        None \<Rightarrow> layout
      | Some enabled \<Rightarrow> layout\<lparr>ml_edges := filter (\<lambda>e. pe_type e \<in> set enabled) (ml_edges layout)\<rparr>)"

definition applyKindFilter ::
  "locale_compare \<Rightarrow> map_layout \<Rightarrow> string list \<Rightarrow> string list option \<Rightarrow> string \<Rightarrow> map_layout" where
  "applyKindFilter localeCompare layout selectedKinds enabledEdgeTypes seedNodeId =
     (if selectedKinds = [] then layout
      else
        let (nodes, contractedEdges) = contractObjectMapKindFilter localeCompare
              (List.map toLayoutNodeInput (ml_nodes layout)) (List.map toLayoutEdgeInput (ml_edges layout))
              selectedKinds;
            edges = filter (\<lambda>e. ed_type e \<noteq> FILTERED_PATH_EDGE_TYPE
                \<or> (case enabledEdgeTypes of None \<Rightarrow> True | Some enabled \<Rightarrow> FILTERED_PATH_EDGE_TYPE \<in> set enabled))
              contractedEdges
        in computeObjectMapLayout localeCompare nodes edges
             (if list_ex (\<lambda>n. nd_id n = seedNodeId) nodes then seedNodeId
              else case nodes of [] \<Rightarrow> '''' | n # _ \<Rightarrow> nd_id n))"

definition edgeTriples :: "positioned_edge list \<Rightarrow> (string \<times> string \<times> string) list" where
  "edgeTriples edges = List.map (\<lambda>e. (pe_id e, pe_sourceId e, pe_targetId e)) edges"

definition shiftNode :: "rat \<Rightarrow> rat \<Rightarrow> positioned_node \<Rightarrow> positioned_node" where
  "shiftNode dx dy p = p\<lparr>pn_x := pn_x p + dx, pn_y := pn_y p + dy\<rparr>"

definition applyFocusMode :: "locale_compare \<Rightarrow> map_layout \<Rightarrow> bool \<Rightarrow> string option \<Rightarrow> map_layout" where
  "applyFocusMode localeCompare layout focusMode activeNodeId =
     (if \<not> focusMode \<or> \<not> filled activeNodeId then layout
      else
        let activeId = the activeNodeId in
        case find (\<lambda>p. pn_id p = activeId) (ml_nodes layout) of
          None \<Rightarrow> layout
        | Some activeNode \<Rightarrow>
            let selection = computeObjectMapSelectionState (edgeTriples (ml_edges layout)) activeNodeId;
                focusedNodes = filter (\<lambda>p. pn_id p = activeId \<or> pn_id p \<in> set (sel_connectedIds selection))
                  (ml_nodes layout);
                focusedEdges = List.map toLayoutEdgeInput
                  (filter (\<lambda>e. pe_id e \<in> set (sel_connectedEdgeIds selection)) (ml_edges layout));
                focused = computeObjectMapLayout localeCompare (List.map toLayoutNodeInput focusedNodes)
                  focusedEdges activeId
            in case find (\<lambda>p. pn_id p = activeId) (ml_nodes focused) of
                 None \<Rightarrow> focused
               | Some focusedActive \<Rightarrow>
                   let dx = pn_x activeNode - pn_x focusedActive;
                       dy = pn_y activeNode - pn_y focusedActive
                   in if dx = 0 \<and> dy = 0 then focused
                      else
                        let nodes = List.map (shiftNode dx dy) (ml_nodes focused)
                        in \<lparr>ml_nodes = nodes, ml_edges = routeObjectMapEdges nodes focusedEdges,
                            ml_bounds = computeObjectMapBounds nodes\<rparr>)"

definition searchText :: "bool \<Rightarrow> positioned_node \<Rightarrow> string" where
  "searchText useShortResourceNames p =
     js_lower (ref_kind (pn_ref p) @ '' '' @ getDisplayKind (ref_kind (pn_ref p)) useShortResourceNames
       @ '' '' @ or_empty (ref_namespace (pn_ref p)) @ '' '' @ ref_name (pn_ref p))"

definition computeSearchMatches :: "positioned_node list \<Rightarrow> string \<Rightarrow> bool \<Rightarrow> positioned_node list" where
  "computeSearchMatches nodes query useShortResourceNames =
     (if query = '''' then [] else filter (\<lambda>p. sublist query (searchText useShortResourceNames p)) nodes)"

definition deriveObjectMapVisibleState :: "locale_compare \<Rightarrow> visible_input \<Rightarrow> visible_state" where
  "deriveObjectMapVisibleState localeCompare i =
     (let layout = vi_layout i;
          hasSelectedKinds = (case vi_selectedKinds i of SelSome _ \<Rightarrow> True | _ \<Rightarrow> False);
          realEdgeTypes = computeRealEdgeTypes (ml_edges layout);
          visibleEdgeTypes = computeVisibleEdgeTypes realEdgeTypes hasSelectedKinds;
          selectedKinds = js_unique (filterSelectionValues (vi_selectedKinds i) CaseInsensitive);
          edgeFiltered = applyEdgeTypeFilter layout (vi_enabledEdgeTypes i);
          kindFiltered = (if vi_selectedKinds i = SelNone then computeObjectMapLayout localeCompare [] [] ''''
            else applyKindFilter localeCompare edgeFiltered selectedKinds (vi_enabledEdgeTypes i) (vi_seedNodeId i));
          visible = applyFocusMode localeCompare kindFiltered (vi_focusMode i) (vi_activeNodeId i);
          query = js_lower (js_trim (vi_searchQuery i))
      in \<lparr>vs_hasSelectedKinds = hasSelectedKinds, vs_realEdgeTypes = realEdgeTypes,
          vs_visibleEdgeTypes = visibleEdgeTypes,
          vs_legendEntries = filter (\<lambda>k. ek_type k \<in> set visibleEdgeTypes) OBJECT_MAP_EDGE_KINDS,
          vs_kindOptions = computeKindOptions localeCompare (ml_nodes layout) (vi_useShortResourceNames i),
          vs_visibleLayout = visible,
          vs_visibleSelectionState =
            computeObjectMapSelectionState (edgeTriples (ml_edges visible)) (vi_activeNodeId i),
          vs_normalizedSearchQuery = query,
          vs_searchMatches = computeSearchMatches (ml_nodes visible) query (vi_useShortResourceNames i)\<rparr>)"

definition pruneObjectMapEnabledEdgeTypes :: "string list option \<Rightarrow> string list \<Rightarrow> string list option" where
  "pruneObjectMapEnabledEdgeTypes enabledEdgeTypes visibleEdgeTypes =
     map_option (\<lambda>enabled. filter (\<lambda>t. t \<in> set visibleEdgeTypes) enabled) enabledEdgeTypes"

definition pruneObjectMapSelectedKinds :: "filter_selection \<Rightarrow> dropdown_option list \<Rightarrow> filter_selection" where
  "pruneObjectMapSelectedKinds selectedKinds kindOptions =
     (case selectedKinds of
        SelSome vals \<Rightarrow>
          let next = filter (\<lambda>kind. kind \<in> set (List.map do_value kindOptions)) vals
          in if length next = length vals then selectedKinds
             else if next \<noteq> [] then SelSome next else SelAll
      | _ \<Rightarrow> selectedKinds)"

section \<open>The scope of the domain\<close>

record map_seed =
  ms_clusterId :: string
  ms_group :: "string option"
  ms_version :: string
  ms_kind :: string
  ms_name :: string
  ms_namespace :: "string option"

text \<open>A number that may be NaN or infinite\<close>

datatype js_number = Finite rat | PosInf | NegInf | NaN

definition OBJECT_MAP_MAX_DEPTH :: nat where "OBJECT_MAP_MAX_DEPTH = 12"
definition OBJECT_MAP_MAX_NODES :: nat where "OBJECT_MAP_MAX_NODES = 1000"

text \<open>\<open>clamp(Math.floor(value), min, max)\<close>\<close>

definition clampFloor :: "js_number \<Rightarrow> nat \<Rightarrow> nat \<Rightarrow> nat" where
  "clampFloor v lo hi =
     (case v of
        NaN \<Rightarrow> lo
      | NegInf \<Rightarrow> min lo hi
      | PosInf \<Rightarrow> hi
      | Finite r \<Rightarrow> nat (min (max \<lfloor>r\<rfloor> (int lo)) (int hi)))"

definition formatQueryString :: "js_number option \<Rightarrow> js_number option \<Rightarrow> string" where
  "formatQueryString maxDepth maxNodes =
     (let params =
            (case maxDepth of None \<Rightarrow> []
             | Some d \<Rightarrow> [''maxDepth='' @ nat_str (clampFloor d 0 OBJECT_MAP_MAX_DEPTH)])
            @ (case maxNodes of None \<Rightarrow> []
               | Some n \<Rightarrow> [''maxNodes='' @ nat_str (clampFloor n 1 OBJECT_MAP_MAX_NODES)])
      in if params = [] then '''' else CHR ''?'' # js_join (CHR ''&'') params)"

definition CLUSTER_SCOPE_TOKEN :: string where
  "CLUSTER_SCOPE_TOKEN = ''__cluster__''"

text \<open>\<open>Inl\<close> is an exception, \<open>Inr None\<close> is \<open>null\<close>.\<close>

definition buildObjectMapScope ::
  "map_seed \<Rightarrow> js_number option \<Rightarrow> js_number option \<Rightarrow> scope_error + string option" where
  "buildObjectMapScope seed maxDepth maxNodes =
     (let clusterId = js_trim (ms_clusterId seed);
          kind = js_trim (ms_kind seed); version = js_trim (ms_version seed); name = js_trim (ms_name seed)
      in if clusterId = '''' \<or> kind = '''' \<or> version = '''' \<or> name = '''' then Inr None
         else
           let ns = js_trim (or_empty (ms_namespace seed));
               args = \<lparr>oa_namespace = (if ns = '''' then CLUSTER_SCOPE_TOKEN else ns),
                       oa_group = Some (or_empty (ms_group seed)), oa_version = Some version,
                       oa_kind = kind, oa_name = name\<rparr>
           in case buildObjectScope args of
                Inl err \<Rightarrow> Inl err
              | Inr objectScope \<Rightarrow>
                  Inr (Some (buildClusterScope (Some clusterId)
                    (Some (objectScope @ formatQueryString maxDepth maxNodes)))))"

definition buildNamespaceObjectMapScope ::
  "string option \<Rightarrow> string option \<Rightarrow> js_number option \<Rightarrow> js_number option \<Rightarrow> string option" where
  "buildNamespaceObjectMapScope clusterId namespace maxDepth maxNodes =
     (let i = js_trim (or_empty clusterId); name = js_trim (or_empty namespace)
      in if i = '''' \<or> name = '''' then None
         else Some (buildClusterScope (Some i)
           (Some (''namespace:'' @ name @ formatQueryString maxDepth maxNodes))))"

end
