(* ===== verification/ObjectMapRuns.thy ===== *)
theory ObjectMapRuns
  imports ObjectMapVisible
begin

text \<open>
  The object map under use: what the rendered graph is, what the layout and the filters keep, and
  the states the view reaches by its operations (\<open>map_reach\<close>).
\<close>

section \<open>What is drawn\<close>

lemma index_ids:
  "List.map pn_id (List.map snd (fold (\<lambda>n m. jm_set (pn_id n) n m) ps [])) =
     jm_keys (fold (\<lambda>n m. jm_set (pn_id n) n m) ps [])
   \<and> set (jm_keys (fold (\<lambda>n m. jm_set (pn_id n) n m) ps [])) = pn_id ` set (ps :: positioned_node list)"
proof -
  have set: "list_all (\<lambda>(k, p). pn_id p = k) m \<Longrightarrow>
      list_all (\<lambda>(k, p). pn_id p = k) (fold (\<lambda>n m. jm_set (pn_id n) n m) ps m)
      \<and> set (jm_keys (fold (\<lambda>n m. jm_set (pn_id n) n m) ps m)) = set (jm_keys m) \<union> pn_id ` set ps"
    for m and ps :: "positioned_node list"
  proof (induction ps arbitrary: m)
    case (Cons p ps)
    have "list_all (\<lambda>(k, p). pn_id p = k) (jm_set (pn_id p) p m)"
      by (rule jm_all_set [OF Cons.prems]) simp
    from Cons.IH [OF this] show ?case by (simp only: fold_Cons comp_apply jm_keys_set) auto
  qed simp
  have keys: "list_all (\<lambda>(k, p). pn_id p = k) m \<Longrightarrow> List.map pn_id (List.map snd m) = jm_keys m"
    for m :: "(string \<times> positioned_node) list"
    by (induction m) auto
  from set [of "[]" ps] have l: "list_all (\<lambda>(k, p). pn_id p = k) (fold (\<lambda>n m. jm_set (pn_id n) n m) ps [])"
    "set (jm_keys (fold (\<lambda>n m. jm_set (pn_id n) n m) ps [])) = pn_id ` set ps" by simp_all
  from keys [OF l(1)] l(2) show ?thesis by blast
qed

lemma layout_ids: "set (List.map pn_id (ml_nodes (computeObjectMapLayout lc nodes edges seed))) = set (node_ids nodes)"
proof (cases "nodes = []")
  case True
  then show ?thesis by (simp add: computeObjectMapLayout_def node_ids_def)
next
  case False
  let ?ps = "computePlacements lc nodes edges seed"
  obtain ns where ns: "mset ns = mset nodes"
    "list_all2 (card_in_column (computeNodeColumns nodes edges seed) seed) ns ?ps"
    using placements(1) [OF refl] by blast
  have "set (List.map pn_id (ml_nodes (computeObjectMapLayout lc nodes edges seed))) = pn_id ` set ?ps"
    using False index_ids [of ?ps] by (simp add: computeObjectMapLayout_def Let_def del: map_map)
  also have "\<dots> = set (node_ids ns)" using cards_ids [OF ns(2)] by (metis set_map)
  also have "\<dots> = set (node_ids nodes)"
    using arg_cong [OF ns(1), of set_mset] by (simp add: node_ids_def)
  finally show ?thesis .
qed

lemma moved_id [simp]: "pn_id (moveCard overrides p) = pn_id p"
  by (simp add: moveCard_def split: option.split prod.split)

lemma drawn_ids: "set (drawnIds lc m) = set (node_ids (fst (filteredOf m)))"
proof -
  have "set (drawnIds lc m) = set (List.map pn_id (ml_nodes (baseLayout lc m)))"
    by (simp add: drawnIds_def modelLayout_def Let_def image_image)
  then show ?thesis by (simp add: baseLayout_def layout_ids del: set_map)
qed

section \<open>What a layout is made of\<close>

lemma index_get:
  "jm_get (fold (\<lambda>n m. jm_set (pn_id n) n m) ps m) k = Some p \<Longrightarrow> p \<in> set ps \<and> pn_id p = k \<or> jm_get m k = Some p"
  by (induction ps arbitrary: m) (fastforce split: if_splits)+

lemma index_subset:
  "set (List.map snd (fold (\<lambda>n m. jm_set (pn_id n) n m) ps [])) \<subseteq> set (ps :: positioned_node list)"
proof
  let ?m = "fold (\<lambda>n m. jm_set (pn_id n) n m) ps []"
  have ok: "jm_ok (fold (\<lambda>n m. jm_set (pn_id n) n m) qs m)" if "jm_ok m" for qs :: "positioned_node list" and m
    using that by (induction qs arbitrary: m) auto
  fix p assume "p \<in> set (List.map snd ?m)"
  then obtain k where "(k, p) \<in> set ?m" by auto
  then have "jm_get ?m k = Some p" using ok [of "[]" ps] by simp
  from index_get [OF this] show "p \<in> set ps" by simp
qed

lemma layout_refs:
  assumes "p \<in> set (ml_nodes (computeObjectMapLayout lc nodes edges seed))"
  shows "\<exists>n \<in> set nodes. card_for seed n p"
proof -
  let ?ps = "computePlacements lc nodes edges seed"
  have "p \<in> set ?ps"
    using assms index_subset [of ?ps] by (auto simp: computeObjectMapLayout_def Let_def split: if_splits)
  moreover obtain ns where ns: "mset ns = mset nodes"
    "list_all2 (card_in_column (computeNodeColumns nodes edges seed) seed) ns ?ps"
    using placements(1) [OF refl] by blast
  ultimately obtain n where "n \<in> set ns" "card_in_column (computeNodeColumns nodes edges seed) seed n p"
    by (metis list_all2_nthD2 in_set_conv_nth list_all2_lengthD)
  then have "n \<in> set ns" "card_for seed n p" by (simp_all add: card_in_column_def)
  moreover have "set ns = set nodes" using arg_cong [OF ns(1), of set_mset] by simp
  ultimately show ?thesis by auto
qed

lemma routed_edge:
  assumes "pe \<in> set (routeObjectMapEdges ps edges)"
  shows "\<exists>e \<in> set edges. \<exists>p \<in> set ps. \<exists>q \<in> set ps. pn_id p = ed_source e \<and> pn_id q = ed_target e
    \<and> toLayoutEdgeInput pe = e
    \<and> routeEdgeGeometry p q = (pe_d pe, pe_midX pe, pe_midY pe, pe_sameColumn pe)"
proof -
  let ?m = "fold (\<lambda>n m. jm_set (pn_id n) n m) ps []"
  from assms obtain e p q where e: "e \<in> set edges" and p: "jm_get ?m (ed_source e) = Some p"
    and q: "jm_get ?m (ed_target e) = Some q"
    and pe: "(case routeEdgeGeometry p q of (d, midX, midY, sameColumn) \<Rightarrow>
        \<lparr>pe_id = ed_id e, pe_sourceId = ed_source e, pe_targetId = ed_target e,
         pe_type = ed_type e, pe_label = ed_label e, pe_tracedBy = ed_tracedBy e,
         pe_filteredPath = ed_filteredPath e, pe_d = d, pe_midX = midX, pe_midY = midY,
         pe_sameColumn = sameColumn\<rparr>) = pe"
    by (auto simp: routeObjectMapEdges_def map_filter_def Let_def split: option.splits prod.splits)
  moreover have "p \<in> set ps" "pn_id p = ed_source e" "q \<in> set ps" "pn_id q = ed_target e"
    using index_get [OF p] index_get [OF q] by simp_all
  ultimately show ?thesis
    by (intro bexI [of _ e] bexI [of _ p] bexI [of _ q])
      (auto simp: toLayoutEdgeInput_def split: prod.splits)
qed

lemma layout_edges:
  "pe \<in> set (ml_edges (computeObjectMapLayout lc nodes edges seed)) \<Longrightarrow> toLayoutEdgeInput pe \<in> set edges"
proof -
  assume "pe \<in> set (ml_edges (computeObjectMapLayout lc nodes edges seed))"
  then have "\<exists>ps. pe \<in> set (routeObjectMapEdges ps edges)"
    by (auto simp: computeObjectMapLayout_def Let_def split: if_splits)
  then obtain e where "e \<in> set edges" "toLayoutEdgeInput pe = e"
    using routed_edge by blast
  then show ?thesis by simp
qed

section \<open>Seeds\<close>

lemma find_seed: "findSeedId p \<noteq> '''' \<Longrightarrow> findSeedId p \<in> set (node_ids (np_nodes p))"
proof (cases "find (\<lambda>n. isSeedRef (np_seed p) (nd_ref n)) (np_nodes p)")
  case None
  then show "findSeedId p \<noteq> '''' \<Longrightarrow> ?thesis" by (simp add: findSeedId_def)
next
  case (Some n)
  then have "n \<in> set (np_nodes p)" by (auto simp: find_Some_iff)
  with Some show ?thesis by (simp add: findSeedId_def node_ids_def)
qed

lemma filter_subset:
  assumes "filterByDirectionalReachability nodes edges seed = (nodes', edges')"
  shows "set nodes' \<subseteq> set nodes" and "set edges' \<subseteq> set edges"
  using assms by (auto simp: filterByDirectionalReachability_def Let_def split: if_splits prod.splits)

lemma seed_connected [simp]: "seed \<in> connected_to r seed"
  by (simp add: connected_to_def)

lemma rendered:
  assumes ids: "'''' \<notin> set (node_ids (np_nodes p))" and seed: "findSeedId p \<noteq> ''''"
    and r: "reachableGraph p = (ns, es)" and g: "renderedGraph p expanded = (nodes, edges)"
  shows "findSeedId p \<in> set (node_ids nodes)"
    and "set (node_ids nodes) \<subseteq> connected_to (graph_rel nodes edges) (findSeedId p)"
    and "x \<in> set (node_ids nodes) \<Longrightarrow> \<not> idle_rs ns es (findSeedId p) expanded x"
proof -
  let ?s = "findSeedId p"
  let ?vis = "ci_visibleNodeIds (computeCollapseInfo ns es ?s expanded)"
  have s0: "?s \<in> set (node_ids (np_nodes p))" by (rule find_seed [OF seed])
  note R = r [unfolded reachableGraph_def]
  have s1: "?s \<in> set (node_ids ns)"
    using filter_exact(1) [OF s0 R] s0 by (auto simp: node_ids_def)
  have ids1: "'''' \<notin> set (node_ids ns)"
    using ids filter_subset(1) [OF R] by (auto simp: node_ids_def)
  have s2: "?s \<in> set ?vis" by (rule collapse_keeps [OF ids1 s1])
  obtain ns' es' where c: "filterByCollapseInfo ns es ?vis = (ns', es')" by fastforce
  then have ns': "ns' = filter (\<lambda>n. nd_id n \<in> set ?vis) ns" by (simp add: filterByCollapseInfo_def)
  have s3: "?s \<in> set (node_ids ns')" using s1 s2 by (auto simp: ns' node_ids_def)
  have f: "filterByDirectionalReachability ns' es' ?s = (nodes, edges)"
    using g c by (simp add: renderedGraph_def collapseOf_def r)
  show "?s \<in> set (node_ids nodes)"
    using filter_exact(1) [OF s3 f] s3 by (auto simp: node_ids_def)
  show "set (node_ids nodes) \<subseteq> connected_to (graph_rel nodes edges) ?s"
    by (rule filter_connected [OF s3 f])
  show "\<not> idle_rs ns es ?s expanded x" if "x \<in> set (node_ids nodes)"
  proof -
    have "x \<in> set ?vis" using that filter_subset(1) [OF f] by (auto simp: ns' node_ids_def)
    then show ?thesis using collapse_exact [OF refl ids1 seed, of es expanded] by blast
  qed
qed

section \<open>Focus and filters\<close>

lemma found_id: "find (\<lambda>p. pn_id p = i) ps = Some q \<Longrightarrow> q \<in> set ps \<and> pn_id q = i"
  by (auto simp: find_Some_iff)

lemma find_exists: "i \<in> set (List.map pn_id ps) \<Longrightarrow> \<exists>q. find (\<lambda>p. pn_id p = i) ps = Some q"
  by (cases "find (\<lambda>p. pn_id p = i) ps") (auto simp: find_None_iff)

lemma shift_fields [simp]:
  "pn_id (shiftNode dx dy p) = pn_id p" "pn_x (shiftNode dx dy p) = pn_x p + dx"
  "pn_y (shiftNode dx dy p) = pn_y p + dy" "pn_ref (shiftNode dx dy p) = pn_ref p"
  by (simp_all add: shiftNode_def)

lemma find_shift:
  "find (\<lambda>p. pn_id p = i) (List.map (shiftNode dx dy) ps) = map_option (shiftNode dx dy) (find (\<lambda>p. pn_id p = i) ps)"
  by (induction ps) auto

definition focusedParts ::
  "map_layout \<Rightarrow> string \<Rightarrow> positioned_node list \<times> map_edge list" where
  "focusedParts layout i =
     (let selection = computeObjectMapSelectionState (edgeTriples (ml_edges layout)) (Some i)
      in (filter (\<lambda>p. pn_id p = i \<or> pn_id p \<in> set (sel_connectedIds selection)) (ml_nodes layout),
          List.map toLayoutEdgeInput
            (filter (\<lambda>e. pe_id e \<in> set (sel_connectedEdgeIds selection)) (ml_edges layout))))"

lemma focus_cases:
  assumes "focus" and "i \<noteq> ''''" and f: "find (\<lambda>p. pn_id p = i) (ml_nodes layout) = Some a"
    and parts: "focusedParts layout i = (ns, es)"
    and g: "computeObjectMapLayout lc (List.map toLayoutNodeInput ns) es i = g"
  shows "\<exists>b dx dy. find (\<lambda>p. pn_id p = i) (ml_nodes g) = Some b \<and> dx = pn_x a - pn_x b \<and> dy = pn_y a - pn_y b
    \<and> applyFocusMode lc layout focus (Some i) =
      (if dx = 0 \<and> dy = 0 then g
       else \<lparr>ml_nodes = List.map (shiftNode dx dy) (ml_nodes g),
             ml_edges = routeObjectMapEdges (List.map (shiftNode dx dy) (ml_nodes g)) es,
             ml_bounds = computeObjectMapBounds (List.map (shiftNode dx dy) (ml_nodes g))\<rparr>)"
proof -
  have "a \<in> set ns" "pn_id a = i" using found_id [OF f] parts by (auto simp: focusedParts_def Let_def)
  then have "i \<in> set (node_ids (List.map toLayoutNodeInput ns))"
    by (force simp: node_ids_def toLayoutNodeInput_def)
  then have "i \<in> set (List.map pn_id (ml_nodes g))" unfolding g [symmetric] layout_ids .
  from find_exists [OF this] obtain b where b: "find (\<lambda>p. pn_id p = i) (ml_nodes g) = Some b" by blast
  have "applyFocusMode lc layout focus (Some i) =
      (if pn_x a - pn_x b = 0 \<and> pn_y a - pn_y b = 0 then g
       else \<lparr>ml_nodes = List.map (shiftNode (pn_x a - pn_x b) (pn_y a - pn_y b)) (ml_nodes g),
             ml_edges = routeObjectMapEdges (List.map (shiftNode (pn_x a - pn_x b) (pn_y a - pn_y b)) (ml_nodes g)) es,
             ml_bounds = computeObjectMapBounds (List.map (shiftNode (pn_x a - pn_x b) (pn_y a - pn_y b)) (ml_nodes g))\<rparr>)"
    using assms(1,2) f parts g b
    by (auto simp: applyFocusMode_def filled_def focusedParts_def Let_def)
  with b show ?thesis by blast
qed

lemma focus_edges:
  "pe \<in> set (ml_edges (applyFocusMode lc layout focus active)) \<Longrightarrow>
   \<exists>q \<in> set (ml_edges layout). toLayoutEdgeInput pe = toLayoutEdgeInput q"
  "p \<in> set (ml_nodes (applyFocusMode lc layout focus active)) \<Longrightarrow>
   \<exists>q \<in> set (ml_nodes layout). pn_id p = pn_id q \<and> pn_ref p = pn_ref q"
proof -
  let ?l = "applyFocusMode lc layout focus active"
  have "?l = layout \<or> (\<exists>i ns es g dx dy. focusedParts layout i = (ns, es) \<and>
      computeObjectMapLayout lc (List.map toLayoutNodeInput ns) es i = g \<and>
      (?l = g \<or> ?l = \<lparr>ml_nodes = List.map (shiftNode dx dy) (ml_nodes g),
             ml_edges = routeObjectMapEdges (List.map (shiftNode dx dy) (ml_nodes g)) es,
             ml_bounds = computeObjectMapBounds (List.map (shiftNode dx dy) (ml_nodes g))\<rparr>))"
  proof (cases "focus \<and> filled active")
    case False
    then show ?thesis by (auto simp: applyFocusMode_def)
  next
    case True
    then obtain i where i: "active = Some i" "i \<noteq> ''''" "focus" by (auto simp: filled_def)
    show ?thesis
    proof (cases "find (\<lambda>p. pn_id p = i) (ml_nodes layout)")
      case None
      with i show ?thesis by (simp add: applyFocusMode_def Let_def)
    next
      case (Some a)
      obtain ns es where parts: "focusedParts layout i = (ns, es)" by fastforce
      from focus_cases [OF i(3,2) Some parts refl, of lc] parts show ?thesis unfolding i(1) by metis
    qed
  qed
  then consider "?l = layout"
    | i ns es g dx dy where "focusedParts layout i = (ns, es)"
      "computeObjectMapLayout lc (List.map toLayoutNodeInput ns) es i = g"
      "?l = g \<or> ?l = \<lparr>ml_nodes = List.map (shiftNode dx dy) (ml_nodes g),
             ml_edges = routeObjectMapEdges (List.map (shiftNode dx dy) (ml_nodes g)) es,
             ml_bounds = computeObjectMapBounds (List.map (shiftNode dx dy) (ml_nodes g))\<rparr>"
    by (elim disjE exE conjE) (rule that(1), assumption, rule that(2), assumption+, rule disjI1, assumption,
      rule that(2), assumption+, rule disjI2, assumption)
  then have "(\<forall>pe \<in> set (ml_edges ?l). \<exists>q \<in> set (ml_edges layout). toLayoutEdgeInput pe = toLayoutEdgeInput q) \<and>
    (\<forall>p \<in> set (ml_nodes ?l). \<exists>q \<in> set (ml_nodes layout). pn_id p = pn_id q \<and> pn_ref p = pn_ref q)"
  proof cases
    case 1
    then show ?thesis by auto
  next
    case 2
    have es: "\<exists>q \<in> set (ml_edges layout). e = toLayoutEdgeInput q" if "e \<in> set es" for e
      using that 2(1) by (auto simp: focusedParts_def Let_def)
    have ns: "\<exists>q \<in> set (ml_nodes layout). pn_id p = pn_id q \<and> pn_ref p = pn_ref q" if p: "p \<in> set (ml_nodes g)" for p
    proof -
      from layout_refs [OF p [folded 2(2)]] obtain q where "q \<in> set ns" "card_for i (toLayoutNodeInput q) p" by auto
      with 2(1) show ?thesis by (auto simp: focusedParts_def Let_def card_for_def toLayoutNodeInput_def)
    qed
    have g_edges: "\<exists>q \<in> set (ml_edges layout). toLayoutEdgeInput pe = toLayoutEdgeInput q" if "pe \<in> set (ml_edges g)" for pe
      using layout_edges [OF that [folded 2(2)]] es by blast
    have routed: "\<exists>q \<in> set (ml_edges layout). toLayoutEdgeInput pe = toLayoutEdgeInput q"
      if "pe \<in> set (routeObjectMapEdges ps es)" for pe ps
    proof -
      from routed_edge [OF that] obtain e where "e \<in> set es" "toLayoutEdgeInput pe = e"
        by blast
      with es show ?thesis by blast
    qed
    from 2(3) show ?thesis using ns g_edges routed by auto
  qed
  then show "pe \<in> set (ml_edges ?l) \<Longrightarrow> \<exists>q \<in> set (ml_edges layout). toLayoutEdgeInput pe = toLayoutEdgeInput q"
    "p \<in> set (ml_nodes ?l) \<Longrightarrow> \<exists>q \<in> set (ml_nodes layout). pn_id p = pn_id q \<and> pn_ref p = pn_ref q" by blast+
qed

section \<open>Properties\<close>

text \<open>A small map for the witnesses: a Deployment with two ReplicaSets, one of which owns a Pod.\<close>

definition sampleRef :: "string \<Rightarrow> string \<Rightarrow> map_ref" where
  "sampleRef kind name =
     \<lparr>ref_clusterId = ''c'', ref_clusterName = None, ref_group = '''', ref_version = ''v1'', ref_kind = kind,
      ref_resource = None, ref_namespace = Some ''n'', ref_name = name, ref_uid = None\<rparr>"

definition sampleNode :: "string \<Rightarrow> string \<Rightarrow> map_node" where
  "sampleNode kind i =
     \<lparr>nd_id = i, nd_depth = 0, nd_ref = sampleRef kind i, nd_creationTimestamp = None, nd_status = None\<rparr>"

definition sampleEdge :: "string \<Rightarrow> string \<Rightarrow> string \<Rightarrow> map_edge" where
  "sampleEdge ty s t =
     \<lparr>ed_id = s @ t, ed_source = s, ed_target = t, ed_type = ty, ed_label = ty, ed_tracedBy = None,
      ed_filteredPath = None\<rparr>"

definition sampleNodes :: "map_node list" where
  "sampleNodes = [sampleNode ''Deployment'' ''d'', sampleNode ''ReplicaSet'' ''r'',
     sampleNode ''ReplicaSet'' ''s'', sampleNode ''Pod'' ''p'']"

definition sampleEdges :: "map_edge list" where
  "sampleEdges = [sampleEdge ''owner'' ''d'' ''r'', sampleEdge ''owner'' ''d'' ''s'', sampleEdge ''owner'' ''r'' ''p'']"

definition samplePayload :: normalized_payload where
  "samplePayload = \<lparr>np_seed = sampleRef ''Pod'' ''p'', np_nodes = sampleNodes, np_edges = sampleEdges\<rparr>"

definition sampleCompare :: locale_compare where
  "sampleCompare a b = (if a = b then 0 else if a < b then -1 else 1)"

text \<open>
  C17. What is drawn hangs together: when the payload holds the seed, the rendered graph (redundant
  edges removed, filtered by direction, collapsed and filtered again) holds it too, every drawn
  node is reachable from the seed, or reaches it, along drawn edges, and no idle ReplicaSet of a
  Deployment that is not expanded is drawn.
\<close>

theorem rendered_graph_connected:
  assumes "'''' \<notin> set (node_ids (np_nodes p))" and "findSeedId p \<noteq> ''''"
    and "reachableGraph p = (ns, es)" and "renderedGraph p expanded = (nodes, edges)"
  shows "findSeedId p \<in> set (node_ids nodes)
    \<and> set (node_ids nodes) \<subseteq> connected_to (graph_rel nodes edges) (findSeedId p)
    \<and> (\<forall>r \<in> set (node_ids nodes). \<not> idle_rs ns es (findSeedId p) expanded r)"
  using rendered [OF assms] by blast

lemma sample_rendered: "findSeedId samplePayload = ''p''
  \<and> node_ids (fst (renderedGraph samplePayload [])) = [''d'', ''r'', ''p''] \<and> '''' \<notin> set (node_ids (np_nodes samplePayload))"
  by code_simp

lemma rendered_graph_connected_witness:
  "{''d'', ''r'', ''p''} \<subseteq> connected_to (graph_rel (fst (renderedGraph samplePayload [])) (snd (renderedGraph samplePayload []))) ''p''"
  using rendered_graph_connected [of samplePayload "fst (reachableGraph samplePayload)" "snd (reachableGraph samplePayload)"
      "[]" "fst (renderedGraph samplePayload [])" "snd (renderedGraph samplePayload [])"] sample_rendered
  by simp

text \<open>
  C16. The collapse hides exactly what it promises: the nodes that stay are those that no idle
  ReplicaSet owns, directly or through others, and that are none themselves; the seed stays. A
  Deployment with a ReplicaSet to spare has one badge, and only such a Deployment has one: it is on
  one of its own ReplicaSets with the most Pods, lists all of its ReplicaSets, and hides exactly
  those to spare: without Pods, not the one with the badge and not above the seed.
\<close>

theorem collapse_hides_idle:
  assumes "'''' \<notin> set (node_ids nodes)" and "seed \<in> set (node_ids nodes)"
    and "computeCollapseInfo nodes edges seed expanded = info"
  shows "set (ci_visibleNodeIds info) = {i \<in> set (node_ids nodes).
      \<not> (\<exists>r. idle_rs nodes edges seed expanded r \<and> (r, i) \<in> (down_rel edges seed)\<^sup>*)}
    \<and> seed \<in> set (ci_visibleNodeIds info)
    \<and> (\<forall>c g. jm_get (ci_groupsByCurrentRs info) c = Some g \<longrightarrow>
        dg_currentRsId g = c \<and> rs_of_deployment nodes edges c (dg_deploymentId g)
        \<and> (\<forall>r. rs_of_deployment nodes edges r (dg_deploymentId g) \<longrightarrow> owned_pods nodes edges r \<le> owned_pods nodes edges c)
        \<and> set (dg_rsIds g) = {r. rs_of_deployment nodes edges r (dg_deploymentId g)}
        \<and> set (dg_collapsibleRsIds g) = {r. rs_of_deployment nodes edges r (dg_deploymentId g) \<and> r \<noteq> c
            \<and> owned_pods nodes edges r = 0 \<and> (seed, r) \<notin> (up_rel edges)\<^sup>*}
        \<and> dg_collapsibleRsIds g \<noteq> [])
    \<and> (\<forall>d r. spare_rs nodes edges seed d r \<longrightarrow>
        (\<exists>!c. \<exists>g. jm_get (ci_groupsByCurrentRs info) c = Some g \<and> dg_deploymentId g = d))"
proof -
  have ne: "seed \<noteq> ''''" using assms(1,2) by auto
  from collapse_exact [OF assms(3,1) ne]
  have a: "set (ci_visibleNodeIds info) = {i \<in> set (node_ids nodes).
      \<not> (\<exists>r. idle_rs nodes edges seed expanded r \<and> (r, i) \<in> (down_rel edges seed)\<^sup>*)}" .
  have b: "seed \<in> set (ci_visibleNodeIds info)"
    using collapse_keeps [OF assms(1,2)] assms(3) by metis
  note sound = badges_exact(1) [OF assms(3,1) ne]
  have c: "dg_currentRsId g = c \<and> rs_of_deployment nodes edges c (dg_deploymentId g)
        \<and> (\<forall>r. rs_of_deployment nodes edges r (dg_deploymentId g) \<longrightarrow> owned_pods nodes edges r \<le> owned_pods nodes edges c)
        \<and> set (dg_rsIds g) = {r. rs_of_deployment nodes edges r (dg_deploymentId g)}
        \<and> set (dg_collapsibleRsIds g) = {r. rs_of_deployment nodes edges r (dg_deploymentId g) \<and> r \<noteq> c
            \<and> owned_pods nodes edges r = 0 \<and> (seed, r) \<notin> (up_rel edges)\<^sup>*}
        \<and> dg_collapsibleRsIds g \<noteq> []" if g: "jm_get (ci_groupsByCurrentRs info) c = Some g" for c g
  proof -
    note B = sound [OF g]
    have m: "\<forall>r. rs_of_deployment nodes edges r (dg_deploymentId g) \<longrightarrow> owned_pods nodes edges r \<le> owned_pods nodes edges c"
      using B current_props(2) [of nodes edges _ "dg_deploymentId g"] by metis
    have B1: "dg_currentRsId g = c" "rs_of_deployment nodes edges c (dg_deploymentId g)"
      "set (dg_rsIds g) = {r. rs_of_deployment nodes edges r (dg_deploymentId g)}"
      "set (dg_collapsibleRsIds g) = {r. spare_rs nodes edges seed (dg_deploymentId g) r}"
      "dg_collapsibleRsIds g \<noteq> []" using B by blast+
    have e: "{r. spare_rs nodes edges seed (dg_deploymentId g) r} = {r. rs_of_deployment nodes edges r (dg_deploymentId g) \<and> r \<noteq> c
            \<and> owned_pods nodes edges r = 0 \<and> (seed, r) \<notin> (up_rel edges)\<^sup>*}"
      unfolding spare_rs_def using B by metis
    show ?thesis by (intro conjI B1(1,2,3,5) m) (simp only: B1(4) e)
  qed
  have d: "\<exists>!c. \<exists>g. jm_get (ci_groupsByCurrentRs info) c = Some g \<and> dg_deploymentId g = d"
    if sp: "spare_rs nodes edges seed d r" for d r
    using badges_exact(2) [OF assms(3,1) ne sp] sound by metis
  from a b c d show ?thesis by blast
qed

lemma sample_collapse: "ci_visibleNodeIds (computeCollapseInfo sampleNodes sampleEdges ''d'' []) = [''d'', ''r'', ''p'']
  \<and> node_ids sampleNodes = [''d'', ''r'', ''s'', ''p'']"
  by code_simp

lemma collapse_hides_idle_witness:
  "\<exists>r. idle_rs sampleNodes sampleEdges ''d'' [] r \<and> (r, ''s'') \<in> (down_rel sampleEdges ''d'')\<^sup>*"
proof -
  have i: "'''' \<notin> set (node_ids sampleNodes)" "''d'' \<in> set (node_ids sampleNodes)"
    "''s'' \<in> set (node_ids sampleNodes)" "''s'' \<notin> set [''d'', ''r'', ''p'' :: string]"
    using sample_collapse by simp_all
  from collapse_hides_idle [OF i(1,2) refl, THEN conjunct1, of sampleEdges "[]"] sample_collapse
  have "set [''d'', ''r'', ''p''] = {i \<in> set (node_ids sampleNodes).
      \<not> (\<exists>r. idle_rs sampleNodes sampleEdges ''d'' [] r \<and> (r, i) \<in> (down_rel sampleEdges ''d'')\<^sup>*)}" by simp
  with i(3,4) show ?thesis by blast
qed

text \<open>
  Removing the redundant Service edges changes nothing that can be reached: along directed
  edges the same nodes are connected as before, because an edge is only removed when a path
  through an EndpointSlice stays.
\<close>

theorem dedupe_keeps_reachability:
  "(edge_rel (dedupeServiceEdges nodes edges))\<^sup>* = (edge_rel edges)\<^sup>*
   \<and> dedupeServiceEdges nodes edges = filter (\<lambda>e. \<not> redundant_edge nodes edges e) edges"
  by (intro conjI dedupe_reach dedupe_eq)

text \<open>
  C15. Filtering by kinds keeps the connections between what stays: of the nodes of the selected
  kinds, one is reachable from another in the filtered graph exactly when it was in the full one.
\<close>

theorem kind_filter_keeps_reachability:
  assumes "contractObjectMapKindFilter lc nodes edges kinds = (nodes', edges')" and "kinds \<noteq> []"
    and "u \<in> set (node_ids nodes')" and "v \<in> set (node_ids nodes')"
  shows "(u, v) \<in> (edge_rel edges')\<^sup>* \<longleftrightarrow> (u, v) \<in> (known_rel nodes edges)\<^sup>*"
  using assms by (rule filter_reach)

lemma sample_kinds:
  "node_ids (fst (contractObjectMapKindFilter sampleCompare sampleNodes sampleEdges [''Deployment'', ''Pod'']))
    = [''d'', ''p'']"
  by code_simp

lemma kind_filter_keeps_reachability_witness:
  "(''d'', ''p'') \<in> (edge_rel (snd (contractObjectMapKindFilter sampleCompare sampleNodes sampleEdges [''Deployment'', ''Pod''])))\<^sup>*"
proof -
  have "(''d'', ''r'') \<in> known_rel sampleNodes sampleEdges" "(''r'', ''p'') \<in> known_rel sampleNodes sampleEdges"
    by (simp_all add: known_rel_def edge_rel_def sampleEdges_def sampleEdge_def node_ids_def sampleNodes_def sampleNode_def)
  then have "(''d'', ''p'') \<in> (known_rel sampleNodes sampleEdges)\<^sup>*" by (meson r_into_rtrancl rtrancl_into_rtrancl)
  then show ?thesis
    using kind_filter_keeps_reachability [of sampleCompare sampleNodes sampleEdges "[''Deployment'', ''Pod'']",
        OF prod.collapse [symmetric], of "''d''" "''p''"] sample_kinds by simp
qed

text \<open>
  C19. An edge that the kind filter adds stands for a path of the full graph that leads from its
  source to its target through hidden nodes only, visits no node twice and carries the names of
  its relationships; no such path has fewer edges.
\<close>

theorem filtered_edges_are_shortest_paths:
  assumes "contractObjectMapKindFilter lc nodes edges kinds = (nodes', edges')" and "kinds \<noteq> []"
    and "e \<in> set edges'" and "e \<notin> set edges"
  shows "\<exists>p path. real_path nodes edges (visible_ids nodes kinds) (ed_source e) p \<and> pathEnd p = ed_target e
    \<and> 2 \<le> length (cp_edges p) \<and> ed_filteredPath e = Some path
    \<and> List.map fpn_id (fp_nodes path) = cp_nodes p
    \<and> fp_relationships path = List.map (\<lambda>e. (ed_type e, ed_label e)) (cp_edges p)
    \<and> (\<forall>q. real_path nodes edges (visible_ids nodes kinds) (ed_source e) q \<and> pathEnd q = ed_target e
        \<and> 2 \<le> length (cp_edges q) \<longrightarrow> length (cp_edges p) \<le> length (cp_edges q))"
proof -
  let ?vis = "visible_ids nodes kinds" and ?ctx = "contextOf nodes edges (visible_ids nodes kinds)"
  have v: "?vis = js_unique (node_ids nodes')"
    using contracted_parts(1) [OF assms(1,2)] by (simp add: visible_ids_def)
  have sub: "set nodes' \<subseteq> set nodes" using contracted_parts(1) [OF assms(1,2)] by auto
  obtain s t c where c: "((s, t), c) \<in> set (contractAll lc ?ctx nodes')" and e: "contractedEdge ?ctx ((s, t), c) = Some e"
    using assms(3,4) contracted_parts(2) [OF assms(1,2)] by (auto simp: map_filter_def)
  from contracted_edge [OF assms(1,2) c] e obtain path where
    p: "ed_source e = s" "ed_target e = t" "ed_filteredPath e = Some path"
      "List.map fpn_id (fp_nodes path) = cp_nodes (ctp_path c)"
      "fp_relationships path = List.map (\<lambda>e. (ed_type e, ed_label e)) (cp_edges (ctp_path c))" by auto
  have st: "s \<in> set ?vis" "t \<in> set ?vis"
    using contract_keys [OF v sub, of lc edges] c by force+
  have get: "jm_get (contractAll lc ?ctx nodes') (s, t) = Some c"
    using contract_sound [OF v sub, of edges lc] c by (simp add: sound_paths_def)
  have "length (cp_edges (ctp_path c)) \<le> length (cp_edges q)"
    if "real_path nodes edges ?vis s q" "pathEnd q = t" "2 \<le> length (cp_edges q)" for q
    using contract_shortest [OF v sub that(1,3) st(1), of lc] st(2) that(2) get by (simp add: at_most_def)
  with contracted_entry [OF assms(1,2) c] p show ?thesis
    by (intro exI [of _ "ctp_path c"] exI [of _ path]) simp
qed

lemma sample_added: "List.map ed_type (snd (contractObjectMapKindFilter sampleCompare sampleNodes sampleEdges
    [''Deployment'', ''Pod''])) = [''filtered-path''] \<and> ''filtered-path'' \<notin> set (List.map ed_type sampleEdges)"
  by code_simp

lemma filtered_edges_are_shortest_paths_witness:
  "\<exists>p s. real_path sampleNodes sampleEdges (visible_ids sampleNodes [''Deployment'', ''Pod'']) s p \<and> 2 \<le> length (cp_edges p)"
proof -
  let ?f = "contractObjectMapKindFilter sampleCompare sampleNodes sampleEdges [''Deployment'', ''Pod'']"
  obtain e where e: "e \<in> set (snd ?f)" "ed_type e = ''filtered-path''" using sample_added by (cases "snd ?f") auto
  moreover have "e \<notin> set sampleEdges" using e(2) sample_added by (metis image_eqI list.set_map)
  ultimately show ?thesis
    using filtered_edges_are_shortest_paths [of sampleCompare sampleNodes sampleEdges "[''Deployment'', ''Pod'']",
        OF prod.collapse [symmetric], of e] by auto
qed

lemma columns_of_cards:
  assumes "distinct (node_ids nodes)" and "acyclic (graph_rel nodes edges)"
    and "p \<in> set (ml_nodes (computeObjectMapLayout lc nodes edges seed))"
  shows "jm_get (computeNodeColumns nodes edges seed) (pn_id p) = Some (pn_column p)"
proof -
  let ?cols = "computeNodeColumns nodes edges seed"
  have ne: "nodes \<noteq> []" using assms(3) by (auto simp: computeObjectMapLayout_def)
  note L = layout_nodes [OF assms(1) ne, where lc = lc and edges = edges and seed = seed]
  obtain ns where ns: "mset ns = mset nodes"
    "list_all2 (card_in_column ?cols seed) ns (ml_nodes (computeObjectMapLayout lc nodes edges seed))"
    using L(1,2) by auto
  then obtain n where "n \<in> set ns" and n: "card_in_column ?cols seed n p"
    using assms(3) by (metis list_all2_nthD2 in_set_conv_nth list_all2_lengthD)
  then have "nd_id n \<in> set (node_ids nodes)"
    using arg_cong [OF ns(1), of set_mset] by (simp add: node_ids_def)
  then have "jm_has ?cols (nd_id n)" by (simp add: columns_layered(1) [OF assms(2) refl] del: not_None_eq)
  then show ?thesis using n by (auto simp: card_in_column_def card_for_def columnFor_def)
qed

lemma layout_routes:
  assumes "pe \<in> set (ml_edges (computeObjectMapLayout lc nodes edges seed))"
  shows "\<exists>p q. p \<in> set (ml_nodes (computeObjectMapLayout lc nodes edges seed))
    \<and> q \<in> set (ml_nodes (computeObjectMapLayout lc nodes edges seed))
    \<and> pn_id p = pe_sourceId pe \<and> pn_id q = pe_targetId pe \<and> toLayoutEdgeInput pe \<in> set edges
    \<and> routeEdgeGeometry p q = (pe_d pe, pe_midX pe, pe_midY pe, pe_sameColumn pe)"
proof -
  have "pe \<in> set (routeObjectMapEdges (ml_nodes (computeObjectMapLayout lc nodes edges seed)) edges)"
    using assms by (auto simp: computeObjectMapLayout_def Let_def split: if_splits)
  from routed_edge [OF this] obtain e p q where h: "e \<in> set edges"
    "p \<in> set (ml_nodes (computeObjectMapLayout lc nodes edges seed))"
    "q \<in> set (ml_nodes (computeObjectMapLayout lc nodes edges seed))"
    "pn_id p = ed_source e" "pn_id q = ed_target e" "toLayoutEdgeInput pe = e"
    "routeEdgeGeometry p q = (pe_d pe, pe_midX pe, pe_midY pe, pe_sameColumn pe)" by blast
  from h(6) have "ed_source e = pe_sourceId pe" "ed_target e = pe_targetId pe"
    by (auto simp: toLayoutEdgeInput_def)
  with h show ?thesis by (intro exI [of _ p] exI [of _ q]) simp
qed

lemma stride_pos: "OBJECT_MAP_NODE_WIDTH \<le> COLUMN_STRIDE" "0 < COLUMN_STRIDE"
  by (simp_all add: COLUMN_STRIDE_def OBJECT_MAP_NODE_WIDTH_def OBJECT_MAP_COLUMN_GAP_def)

text \<open>
  C18. In an acyclic graph every edge is drawn from left to right: the card of its source stands
  at least a column's stride to the left of the card of its target, and the curve leaves the
  source on its right side and enters the target on its left.
\<close>

theorem edges_run_left_to_right:
  assumes "distinct (node_ids nodes)" and "acyclic (graph_rel nodes edges)"
    and "pe \<in> set (ml_edges (computeObjectMapLayout lc nodes edges seed))" and "pe_sourceId pe \<noteq> pe_targetId pe"
  shows "\<exists>p q. p \<in> set (ml_nodes (computeObjectMapLayout lc nodes edges seed))
    \<and> q \<in> set (ml_nodes (computeObjectMapLayout lc nodes edges seed))
    \<and> pn_id p = pe_sourceId pe \<and> pn_id q = pe_targetId pe \<and> pn_x p + COLUMN_STRIDE \<le> pn_x q
    \<and> fst (cv_from (pe_d pe)) = pn_x p + pn_width p \<and> fst (cv_to (pe_d pe)) = pn_x q \<and> \<not> pe_sameColumn pe"
proof -
  let ?cols = "computeNodeColumns nodes edges seed" and ?l = "computeObjectMapLayout lc nodes edges seed"
  from layout_routes [OF assms(3)] obtain p q where h: "p \<in> set (ml_nodes ?l)" "q \<in> set (ml_nodes ?l)"
    "pn_id p = pe_sourceId pe" "pn_id q = pe_targetId pe" "toLayoutEdgeInput pe \<in> set edges"
    "routeEdgeGeometry p q = (pe_d pe, pe_midX pe, pe_midY pe, pe_sameColumn pe)" by blast
  have ne: "nodes \<noteq> []" using h(1) by (auto simp: computeObjectMapLayout_def)
  have ids: "pn_id p \<in> set (node_ids nodes)" "pn_id q \<in> set (node_ids nodes)"
    using h(1,2) layout_ids [of lc nodes edges seed] by auto
  have "(pn_id p, pn_id q) \<in> graph_rel nodes edges"
    using h(3-5) ids assms(4) by (auto simp: graph_rel_iff toLayoutEdgeInput_def intro!: bexI [OF _ h(5)])
  from columns_layered(3) [OF assms(2) refl this, of seed] obtain k m where
    "jm_get ?cols (pn_id p) = Some k" "jm_get ?cols (pn_id q) = Some m" "k < m" by blast
  then have "pn_column p < pn_column q"
    using columns_of_cards [OF assms(1,2) h(1)] columns_of_cards [OF assms(1,2) h(2)] by simp
  moreover have "p \<in> set (computePlacements lc nodes edges seed)" "q \<in> set (computePlacements lc nodes edges seed)"
    using h(1,2) by (simp_all add: layout_nodes(1) [OF assms(1) ne])
  ultimately have x: "pn_x p + COLUMN_STRIDE \<le> pn_x q" using placements(3) [OF refl] by blast
  with stride_pos have "pn_x p \<noteq> pn_x q" "pn_x p \<le> pn_x q" by auto
  then have "fst (cv_from (pe_d pe)) = pn_x p + pn_width p \<and> fst (cv_to (pe_d pe)) = pn_x q \<and> \<not> pe_sameColumn pe"
    using h(6) by (auto simp: routeEdgeGeometry_def Let_def buildCrossColumnPath_def dest!: sym [of _ "pe_d pe"])
  with h x show ?thesis by (intro exI [of _ p] exI [of _ q]) simp
qed

lemma sample_acyclic: "acyclic (graph_rel sampleNodes sampleEdges)"
proof (rule acyclicI_order [where f = "\<lambda>i. if i = ''d'' then 2 else if i = ''p'' then 0 else (1 :: nat)"])
  fix a b assume "(a, b) \<in> graph_rel sampleNodes sampleEdges"
  then show "(if b = ''d'' then 2 else if b = ''p'' then 0 else (1 :: nat)) < (if a = ''d'' then 2 else if a = ''p'' then 0 else 1)"
    by (auto simp: graph_rel_iff sampleEdges_def sampleEdge_def)
qed

definition sampleLayout :: map_layout where
  "sampleLayout = computeObjectMapLayout sampleCompare sampleNodes sampleEdges ''d''"

lemma sample_layout: "distinct (node_ids sampleNodes)
  \<and> List.map (\<lambda>e. (pe_sourceId e, pe_targetId e)) (ml_edges sampleLayout) = [(''d'', ''r''), (''d'', ''s''), (''r'', ''p'')]"
  by code_simp

lemma edges_run_left_to_right_witness:
  "\<exists>p \<in> set (ml_nodes sampleLayout). \<exists>q \<in> set (ml_nodes sampleLayout).
     pn_id p = ''r'' \<and> pn_id q = ''p'' \<and> pn_x p + COLUMN_STRIDE \<le> pn_x q"
proof -
  have "(''r'', ''p'') \<in> (\<lambda>e. (pe_sourceId e, pe_targetId e)) ` set (ml_edges sampleLayout)"
    unfolding set_map [symmetric] using sample_layout by simp
  then obtain pe where "pe \<in> set (ml_edges sampleLayout)" "pe_sourceId pe = ''r''" "pe_targetId pe = ''p''" by auto
  then show ?thesis
    using edges_run_left_to_right [OF _ sample_acyclic, of pe sampleCompare "''d''"] sample_layout
    unfolding sampleLayout_def by auto
qed

text \<open>
  The layering of an acyclic graph is as tight as it can be: exactly the nodes have a column,
  the seed has column 0, an edge leads to a higher column, and a node with a predecessor stands
  directly to the right of one of them.
\<close>

theorem layering_compact:
  assumes "acyclic (graph_rel nodes edges)" and "computeNodeColumns nodes edges seed = columns"
  shows "(\<forall>v. jm_has columns v \<longleftrightarrow> v \<in> set (node_ids nodes))
    \<and> (seed \<in> set (node_ids nodes) \<longrightarrow> jm_get columns seed = Some 0)
    \<and> (\<forall>u v. (u, v) \<in> graph_rel nodes edges \<longrightarrow>
        (\<exists>k m. jm_get columns u = Some k \<and> jm_get columns v = Some m \<and> k < m)
        \<and> (\<exists>w m. (w, v) \<in> graph_rel nodes edges \<and> jm_get columns v = Some m \<and> jm_get columns w = Some (m - 1)))"
  using columns_layered [OF assms] by (simp del: not_None_eq)

text \<open>
  C20. A layout places every node once and no card on another: the cards have the ids of the
  nodes, two cards of one column lie a row's gap apart and two of different columns a stride, and
  the bounds enclose them all.
\<close>

theorem layout_without_overlap:
  assumes "distinct (node_ids nodes)" and "computeObjectMapLayout lc nodes edges seed = layout"
  shows "mset (List.map pn_id (ml_nodes layout)) = mset (node_ids nodes)
    \<and> sorted_wrt card_before (ml_nodes layout)
    \<and> (\<forall>p \<in> set (ml_nodes layout). inside_bounds p (ml_bounds layout)
        \<and> pn_width p = OBJECT_MAP_NODE_WIDTH \<and> pn_height p = OBJECT_MAP_NODE_HEIGHT)"
proof (cases "nodes = []")
  case True
  with assms(2) show ?thesis by (auto simp: computeObjectMapLayout_def node_ids_def)
next
  case False
  let ?ps = "computePlacements lc nodes edges seed"
  have nodes: "ml_nodes layout = ?ps" using layout_nodes(1) [OF assms(1) False] assms(2) by auto
  have bounds: "ml_bounds layout = computeObjectMapBounds ?ps"
    using False assms(2) by (auto simp: computeObjectMapLayout_def Let_def)
  have "set (List.map pn_id ?ps) = set (node_ids nodes)" using layout_ids assms(2) nodes by metis
  then have ids: "mset (List.map pn_id ?ps) = mset (node_ids nodes)"
    using layout_nodes(3) [OF assms(1) False] assms(1) set_eq_iff_mset_eq_distinct by blast
  have size: "pn_width p = OBJECT_MAP_NODE_WIDTH \<and> pn_height p = OBJECT_MAP_NODE_HEIGHT" if "p \<in> set ?ps" for p
    using layout_refs [of p lc nodes edges seed] that nodes assms(2) by (auto simp: card_for_def)
  show ?thesis
    unfolding nodes bounds using ids placements(2) [OF refl] size by (intro conjI ballI bounds_contain) auto
qed

lemma layout_without_overlap_witness: "sorted_wrt card_before (ml_nodes sampleLayout) \<and> length (ml_nodes sampleLayout) = 4"
proof -
  have d: "distinct (node_ids sampleNodes)" using sample_layout by simp
  from layout_without_overlap [OF d sampleLayout_def [symmetric]]
  have "sorted_wrt card_before (ml_nodes sampleLayout)" "length (ml_nodes sampleLayout) = length (node_ids sampleNodes)"
    by (auto dest: mset_eq_length simp del: mset_map)
  then show ?thesis using sample_collapse by simp
qed

lemma focused_ids:
  assumes "focusedParts layout i = (ns, es)"
  shows "set (List.map pn_id ns) = {j \<in> set (List.map pn_id (ml_nodes layout)).
    j \<in> connected_to (triples_rel (edgeTriples (ml_edges layout))) i}"
proof -
  let ?sel = "computeObjectMapSelectionState (edgeTriples (ml_edges layout)) (Some i)"
  obtain ids es' where c: "collectDirectionalConnections i
      (fold addTriple (edgeTriples (ml_edges layout)) emptyAdjacency) = (ids, es')" by fastforce
  have "addTriple = (\<lambda>(i, s, t) adj. appendDirectionalEdge adj i s t)"
    by (auto simp: addTriple_def fun_eq_iff)
  then have "sel_connectedIds ?sel = ids"
    using c by (simp add: computeObjectMapSelectionState_def)
  then have sel: "set (sel_connectedIds ?sel) = connected_to (triples_rel (edgeTriples (ml_edges layout))) i - {i}"
    using connections_exact(1) [OF c] by simp
  have "ns = filter (\<lambda>p. pn_id p = i \<or> pn_id p \<in> set (sel_connectedIds ?sel)) (ml_nodes layout)"
    using assms by (simp add: focusedParts_def Let_def)
  also have "\<dots> = filter (\<lambda>p. pn_id p \<in> connected_to (triples_rel (edgeTriples (ml_edges layout))) i) (ml_nodes layout)"
    unfolding sel by (rule filter_cong) auto
  finally show ?thesis by (simp only: set_map set_filter) blast
qed

text \<open>
  C25. Focus mode shows the part of the map that hangs together with the selected node, nothing
  else, and the selected card does not move on the screen when the rest is laid out anew.
\<close>

theorem focus_pins_active:
  assumes "find (\<lambda>p. pn_id p = i) (ml_nodes layout) = Some a" and "i \<noteq> ''''"
    and "applyFocusMode lc layout True (Some i) = focused"
  shows "\<exists>b. find (\<lambda>p. pn_id p = i) (ml_nodes focused) = Some b \<and> pn_x b = pn_x a \<and> pn_y b = pn_y a
    \<and> set (List.map pn_id (ml_nodes focused)) = {j \<in> set (List.map pn_id (ml_nodes layout)).
        j \<in> connected_to (triples_rel (edgeTriples (ml_edges layout))) i}"
proof -
  obtain ns es where parts: "focusedParts layout i = (ns, es)" by fastforce
  let ?g = "computeObjectMapLayout lc (List.map toLayoutNodeInput ns) es i"
  have "node_ids (List.map toLayoutNodeInput ns) = List.map pn_id ns"
    by (simp add: node_ids_def toLayoutNodeInput_def)
  then have ids: "set (List.map pn_id (ml_nodes ?g)) = {j \<in> set (List.map pn_id (ml_nodes layout)).
        j \<in> connected_to (triples_rel (edgeTriples (ml_edges layout))) i}"
    using layout_ids focused_ids [OF parts] by metis
  from focus_cases [OF _ assms(2,1) parts refl, of True lc] obtain b dx dy where
    b: "find (\<lambda>p. pn_id p = i) (ml_nodes ?g) = Some b" and d: "dx = pn_x a - pn_x b" "dy = pn_y a - pn_y b"
    and "applyFocusMode lc layout True (Some i) =
      (if dx = 0 \<and> dy = 0 then ?g
       else \<lparr>ml_nodes = List.map (shiftNode dx dy) (ml_nodes ?g),
             ml_edges = routeObjectMapEdges (List.map (shiftNode dx dy) (ml_nodes ?g)) es,
             ml_bounds = computeObjectMapBounds (List.map (shiftNode dx dy) (ml_nodes ?g))\<rparr>)" by blast
  then have nodes: "ml_nodes focused = (if dx = 0 \<and> dy = 0 then ml_nodes ?g else List.map (shiftNode dx dy) (ml_nodes ?g))"
    using assms(3) by auto
  have "set (List.map pn_id (ml_nodes focused)) = set (List.map pn_id (ml_nodes ?g))"
    by (simp add: nodes image_image)
  moreover have "find (\<lambda>p. pn_id p = i) (ml_nodes focused) = Some (if dx = 0 \<and> dy = 0 then b else shiftNode dx dy b)"
    by (simp add: nodes b find_shift)
  ultimately show ?thesis using ids d by auto
qed

lemma focus_pins_active_witness:
  "\<exists>a b. find (\<lambda>p. pn_id p = ''p'') (ml_nodes sampleLayout) = Some a
     \<and> find (\<lambda>p. pn_id p = ''p'') (ml_nodes (applyFocusMode sampleCompare sampleLayout True (Some ''p''))) = Some b
     \<and> pn_x b = pn_x a \<and> pn_y b = pn_y a"
proof -
  have "''p'' \<in> set (List.map pn_id (ml_nodes sampleLayout))"
    unfolding sampleLayout_def layout_ids using sample_collapse by simp
  from find_exists [OF this] obtain a where "find (\<lambda>p. pn_id p = ''p'') (ml_nodes sampleLayout) = Some a" by blast
  with focus_pins_active [OF this _ refl, of sampleCompare] show ?thesis by auto
qed

lemma kind_filter_edges:
  assumes "pe \<in> set (ml_edges (applyKindFilter lc layout kinds enabled seed))"
    and "\<forall>e \<in> set (ml_edges layout). \<forall>ts. enabled = Some ts \<longrightarrow> pe_type e \<in> set ts"
  shows "\<forall>ts. enabled = Some ts \<longrightarrow> pe_type pe \<in> set ts"
proof (cases "kinds = []")
  case True
  with assms show ?thesis by (auto simp: applyKindFilter_def)
next
  case False
  obtain ns es where c: "contractObjectMapKindFilter lc (List.map toLayoutNodeInput (ml_nodes layout))
      (List.map toLayoutEdgeInput (ml_edges layout)) kinds = (ns, es)" by fastforce
  note parts = contracted_parts [OF c False]
  let ?es = "filter (\<lambda>e. ed_type e \<noteq> FILTERED_PATH_EDGE_TYPE
      \<or> (case enabled of None \<Rightarrow> True | Some ts \<Rightarrow> FILTERED_PATH_EDGE_TYPE \<in> set ts)) es"
  have "toLayoutEdgeInput pe \<in> set ?es"
    by (rule layout_edges) (use assms(1) c False in \<open>simp add: applyKindFilter_def Let_def\<close>)
  then have e: "toLayoutEdgeInput pe \<in> set es" and t: "pe_type pe \<noteq> FILTERED_PATH_EDGE_TYPE
      \<or> (case enabled of None \<Rightarrow> True | Some ts \<Rightarrow> FILTERED_PATH_EDGE_TYPE \<in> set ts)"
    by (auto simp: toLayoutEdgeInput_def)
  have "toLayoutEdgeInput pe \<in> toLayoutEdgeInput ` set (ml_edges layout) \<or> pe_type pe = FILTERED_PATH_EDGE_TYPE"
    using e unfolding parts(2) by (auto simp: map_filter_def contractedEdge_def toLayoutEdgeInput_def)
  then show ?thesis
  proof
    assume "toLayoutEdgeInput pe \<in> toLayoutEdgeInput ` set (ml_edges layout)"
    then obtain e where "e \<in> set (ml_edges layout)" "pe_type e = pe_type pe" by (auto simp: toLayoutEdgeInput_def)
    with assms(2) show ?thesis by metis
  qed (use t in \<open>auto split: option.splits\<close>)
qed

lemma kind_filter_nodes:
  assumes "p \<in> set (ml_nodes (applyKindFilter lc layout kinds enabled seed))"
  shows "(kinds \<noteq> [] \<longrightarrow> ref_kind (pn_ref p) \<in> set kinds)
    \<and> (\<exists>q \<in> set (ml_nodes layout). pn_id p = pn_id q \<and> pn_ref p = pn_ref q)"
proof (cases "kinds = []")
  case True
  with assms show ?thesis by (auto simp: applyKindFilter_def)
next
  case False
  obtain ns es where c: "contractObjectMapKindFilter lc (List.map toLayoutNodeInput (ml_nodes layout))
      (List.map toLayoutEdgeInput (ml_edges layout)) kinds = (ns, es)" by fastforce
  from assms obtain es' seed' where "p \<in> set (ml_nodes (computeObjectMapLayout lc ns es' seed'))"
    using c False by (auto simp: applyKindFilter_def Let_def)
  from layout_refs [OF this] obtain n where "n \<in> set ns" "pn_id p = nd_id n" "pn_ref p = nd_ref n"
    by (auto simp: card_for_def)
  then show ?thesis by (auto simp: contracted_parts(1) [OF c False] toLayoutNodeInput_def)
qed

text \<open>
  C26. The filters hold for everything that is shown: with edge types chosen only edges of these
  types, with kinds chosen only nodes of these kinds, with no kind allowed no node at all, and
  never a node that the unfiltered map does not have.
\<close>

theorem filters_respected:
  assumes "deriveObjectMapVisibleState lc i = vs"
  shows "(\<forall>e \<in> set (ml_edges (vs_visibleLayout vs)). \<forall>ts. vi_enabledEdgeTypes i = Some ts \<longrightarrow> pe_type e \<in> set ts)
    \<and> (\<forall>p \<in> set (ml_nodes (vs_visibleLayout vs)). vi_selectedKinds i \<noteq> SelNone
        \<and> (\<forall>ks. filterSelectionValues (vi_selectedKinds i) CaseInsensitive = ks \<longrightarrow> ks \<noteq> [] \<longrightarrow> ref_kind (pn_ref p) \<in> set ks)
        \<and> (\<exists>q \<in> set (ml_nodes (vi_layout i)). pn_id p = pn_id q \<and> pn_ref p = pn_ref q))"
proof -
  let ?edge = "applyEdgeTypeFilter (vi_layout i) (vi_enabledEdgeTypes i)"
  let ?ks = "js_unique (filterSelectionValues (vi_selectedKinds i) CaseInsensitive)"
  define kf where "kf = (if vi_selectedKinds i = SelNone then computeObjectMapLayout lc [] [] ''''
    else applyKindFilter lc ?edge ?ks (vi_enabledEdgeTypes i) (vi_seedNodeId i))"
  have vs: "vs_visibleLayout vs = applyFocusMode lc kf (vi_focusMode i) (vi_activeNodeId i)"
    using assms by (auto simp: deriveObjectMapVisibleState_def Let_def kf_def)
  have base: "\<forall>e \<in> set (ml_edges ?edge). \<forall>ts. vi_enabledEdgeTypes i = Some ts \<longrightarrow> pe_type e \<in> set ts"
    "ml_nodes ?edge = ml_nodes (vi_layout i)"
    by (auto simp: applyEdgeTypeFilter_def split: option.splits)
  have e: "\<forall>ts. vi_enabledEdgeTypes i = Some ts \<longrightarrow> pe_type e \<in> set ts" if "e \<in> set (ml_edges kf)" for e
    using that kind_filter_edges [OF _ base(1)] by (auto simp: kf_def computeObjectMapLayout_def split: if_splits)
  have n: "vi_selectedKinds i \<noteq> SelNone \<and> (?ks \<noteq> [] \<longrightarrow> ref_kind (pn_ref p) \<in> set ?ks)
      \<and> (\<exists>q \<in> set (ml_nodes (vi_layout i)). pn_id p = pn_id q \<and> pn_ref p = pn_ref q)" if "p \<in> set (ml_nodes kf)" for p
    using that kind_filter_nodes [of p lc ?edge ?ks "vi_enabledEdgeTypes i" "vi_seedNodeId i"] base(2)
    by (auto simp: kf_def computeObjectMapLayout_def split: if_splits)
  have ks: "?ks = [] \<longleftrightarrow> filterSelectionValues (vi_selectedKinds i) CaseInsensitive = []"
    by (metis set_js_unique set_empty2)
  show ?thesis
  proof (intro conjI ballI allI impI)
    fix pe ts assume "pe \<in> set (ml_edges (vs_visibleLayout vs))" and ts: "vi_enabledEdgeTypes i = Some ts"
    from focus_edges(1) [OF this(1) [unfolded vs]] obtain q where "q \<in> set (ml_edges kf)" "pe_type pe = pe_type q"
      by (auto simp: toLayoutEdgeInput_def)
    with e ts show "pe_type pe \<in> set ts" by auto
  next
    fix p assume "p \<in> set (ml_nodes (vs_visibleLayout vs))"
    from focus_edges(2) [OF this [unfolded vs]] obtain q where q: "q \<in> set (ml_nodes kf)" "pn_id p = pn_id q" "pn_ref p = pn_ref q"
      by blast
    note n = n [OF q(1)]
    from n show "vi_selectedKinds i \<noteq> SelNone" by blast
    from n q(2,3) show "\<exists>q \<in> set (ml_nodes (vi_layout i)). pn_id p = pn_id q \<and> pn_ref p = pn_ref q" by auto
    fix ks assume "filterSelectionValues (vi_selectedKinds i) CaseInsensitive = ks" "ks \<noteq> []"
    with n q(3) ks show "ref_kind (pn_ref p) \<in> set ks" by auto
  qed
qed

definition sampleVisible :: visible_input where
  "sampleVisible = \<lparr>vi_layout = sampleLayout, vi_seedNodeId = ''p'', vi_activeNodeId = None, vi_focusMode = False,
     vi_selectedKinds = SelSome [''Pod''], vi_enabledEdgeTypes = Some [''owner''], vi_searchQuery = '''',
     vi_useShortResourceNames = True\<rparr>"

lemma sample_kinds_chosen: "filterSelectionValues (SelSome [''Pod'']) CaseInsensitive = [''Pod'']"
  by code_simp

lemma sample_cards: "List.map (\<lambda>p. (pn_id p, ref_kind (pn_ref p))) (ml_nodes sampleLayout) =
    [(''d'', ''Deployment''), (''r'', ''ReplicaSet''), (''s'', ''ReplicaSet''), (''p'', ''Pod'')]"
  by code_simp

lemma kind_filter_ids:
  assumes "kinds \<noteq> []"
  shows "set (List.map pn_id (ml_nodes (applyKindFilter lc layout kinds enabled seed))) =
    pn_id ` {p \<in> set (ml_nodes layout). ref_kind (pn_ref p) \<in> set kinds}"
proof -
  obtain ns es where c: "contractObjectMapKindFilter lc (List.map toLayoutNodeInput (ml_nodes layout))
      (List.map toLayoutEdgeInput (ml_edges layout)) kinds = (ns, es)" by fastforce
  have "\<exists>es' seed'. applyKindFilter lc layout kinds enabled seed = computeObjectMapLayout lc ns es' seed'"
    using c assms by (auto simp: applyKindFilter_def Let_def)
  then have "set (List.map pn_id (ml_nodes (applyKindFilter lc layout kinds enabled seed))) = set (node_ids ns)"
    by (metis layout_ids)
  also have "\<dots> = pn_id ` {p \<in> set (ml_nodes layout). ref_kind (pn_ref p) \<in> set kinds}"
    unfolding contracted_parts(1) [OF c assms] node_ids_def set_map set_filter
    by (force simp: toLayoutNodeInput_def)
  finally show ?thesis .
qed

lemma filters_respected_witness:
  "\<exists>p \<in> set (ml_nodes (vs_visibleLayout (deriveObjectMapVisibleState sampleCompare sampleVisible))).
     pn_id p = ''p'' \<and> ref_kind (pn_ref p) \<in> set [''Pod'']"
proof -
  have "js_unique [''Pod''] = [''Pod'']" by code_simp
  then have v: "vs_visibleLayout (deriveObjectMapVisibleState sampleCompare sampleVisible) =
      applyKindFilter sampleCompare (applyEdgeTypeFilter sampleLayout (Some [''owner''])) [''Pod''] (Some [''owner'']) ''p''"
    by (simp add: deriveObjectMapVisibleState_def sampleVisible_def Let_def applyFocusMode_def sample_kinds_chosen)
  have "(''p'', ''Pod'') \<in> (\<lambda>p. (pn_id p, ref_kind (pn_ref p))) ` set (ml_nodes sampleLayout)"
    unfolding set_map [symmetric] sample_cards by simp
  then have "''p'' \<in> pn_id ` {p \<in> set (ml_nodes (applyEdgeTypeFilter sampleLayout (Some [''owner'']))).
      ref_kind (pn_ref p) \<in> set [''Pod'']}"
    by (auto simp: applyEdgeTypeFilter_def)
  then have "''p'' \<in> set (List.map pn_id (ml_nodes (vs_visibleLayout (deriveObjectMapVisibleState sampleCompare sampleVisible))))"
    unfolding v by (subst kind_filter_ids) simp_all
  then obtain p where p: "p \<in> set (ml_nodes (vs_visibleLayout (deriveObjectMapVisibleState sampleCompare sampleVisible)))"
    "pn_id p = ''p''" by auto
  have "filterSelectionValues (vi_selectedKinds sampleVisible) CaseInsensitive = [''Pod'']"
    by (simp add: sampleVisible_def sample_kinds_chosen)
  with filters_respected [OF refl, of sampleCompare sampleVisible] p(1)
  have "ref_kind (pn_ref p) \<in> set [''Pod'']" by (metis list.distinct(1))
  with p show ?thesis by (intro bexI [of _ p]) simp_all
qed

lemma clamp_bounds: "lo \<le> hi \<Longrightarrow> lo \<le> clampFloor v lo hi \<and> clampFloor v lo hi \<le> hi"
  by (auto simp: clampFloor_def min_def max_def nat_le_iff le_nat_iff split: js_number.split)

definition objectPart :: "map_seed \<Rightarrow> string" where
  "objectPart seed =
     (let ns = js_trim (or_empty (ms_namespace seed)) in
      (if ns = '''' then CLUSTER_SCOPE_TOKEN else ns) @ CHR '':'' # js_trim (or_empty (ms_group seed)) @ CHR ''/''
        # js_trim (ms_version seed) @ CHR '':'' # js_trim (ms_kind seed) @ CHR '':'' # js_trim (ms_name seed))"

lemma scope_value:
  assumes "js_trim (ms_clusterId seed) \<noteq> ''''" "js_trim (ms_kind seed) \<noteq> ''''"
    "js_trim (ms_version seed) \<noteq> ''''" "js_trim (ms_name seed) \<noteq> ''''"
  shows "buildObjectMapScope seed d n = Inr (Some (buildClusterScope (Some (js_trim (ms_clusterId seed)))
    (Some (objectPart seed @ formatQueryString d n))))"
proof -
  have "js_trim CLUSTER_SCOPE_TOKEN = CLUSTER_SCOPE_TOKEN" by code_simp
  then show ?thesis
    using assms by (auto simp: buildObjectMapScope_def buildObjectScope_def objectPart_def Let_def)
qed

text \<open>
  C28. Asking for a map never raises an exception: the scope is missing exactly when one of the
  identifying fields is blank, and the limits that are sent lie within the bounds of the backend,
  whatever numbers were asked for, \<open>NaN\<close> and infinities included.
\<close>

theorem map_scope_total:
  "\<exists>r. buildObjectMapScope seed (Some d) (Some n) = Inr r
    \<and> (r = None \<longleftrightarrow> js_trim (ms_clusterId seed) = '''' \<or> js_trim (ms_kind seed) = ''''
        \<or> js_trim (ms_version seed) = '''' \<or> js_trim (ms_name seed) = '''')
    \<and> (\<forall>s. r = Some s \<longrightarrow> (\<exists>depth limit. depth \<le> 12 \<and> 1 \<le> limit \<and> limit \<le> 1000
        \<and> s = buildClusterScope (Some (js_trim (ms_clusterId seed)))
            (Some (objectPart seed @ ''?maxDepth='' @ nat_str depth @ ''&maxNodes='' @ nat_str limit))))"
proof (cases "js_trim (ms_clusterId seed) = '''' \<or> js_trim (ms_kind seed) = ''''
    \<or> js_trim (ms_version seed) = '''' \<or> js_trim (ms_name seed) = ''''")
  case True
  then show ?thesis by (intro exI [of _ None]) (auto simp: buildObjectMapScope_def Let_def)
next
  case False
  have q: "formatQueryString (Some d) (Some n) = ''?maxDepth='' @ nat_str (clampFloor d 0 12)
      @ ''&maxNodes='' @ nat_str (clampFloor n 1 1000)"
    by (simp add: formatQueryString_def OBJECT_MAP_MAX_DEPTH_def OBJECT_MAP_MAX_NODES_def)
  have "clampFloor d 0 12 \<le> 12" "1 \<le> clampFloor n 1 1000" "clampFloor n 1 1000 \<le> 1000"
    using clamp_bounds by simp_all
  with False q show ?thesis
    by (intro exI [of _ "Some (buildClusterScope (Some (js_trim (ms_clusterId seed)))
      (Some (objectPart seed @ formatQueryString (Some d) (Some n))))"]) (auto simp: scope_value)
qed

lemma sample_scope:
  "buildObjectMapScope \<lparr>ms_clusterId = ''c'', ms_group = Some ''apps'', ms_version = ''v1'', ms_kind = ''Deployment'',
      ms_name = ''web'', ms_namespace = Some ''n''\<rparr> (Some (Finite 99)) (Some NaN)
    = Inr (Some ''c|n:apps/v1:Deployment:web?maxDepth=12&maxNodes=1'')"
  by code_simp

lemma map_scope_total_witness:
  "\<exists>depth limit. depth \<le> 12 \<and> 1 \<le> limit \<and> limit \<le> 1000 \<and> ''c|n:apps/v1:Deployment:web?maxDepth=12&maxNodes=1'' =
    buildClusterScope (Some (js_trim ''c'')) (Some (objectPart \<lparr>ms_clusterId = ''c'', ms_group = Some ''apps'', ms_version = ''v1'',
      ms_kind = ''Deployment'', ms_name = ''web'', ms_namespace = Some ''n''\<rparr> @ ''?maxDepth='' @ nat_str depth @ ''&maxNodes='' @ nat_str limit))"
proof -
  let ?s = "\<lparr>ms_clusterId = ''c'', ms_group = Some ''apps'', ms_version = ''v1'',
      ms_kind = ''Deployment'', ms_name = ''web'', ms_namespace = Some ''n''\<rparr>"
  obtain r where r: "buildObjectMapScope ?s (Some (Finite 99)) (Some NaN) = Inr r"
    and v: "\<forall>s. r = Some s \<longrightarrow> (\<exists>depth limit. depth \<le> 12 \<and> 1 \<le> limit \<and> limit \<le> 1000
        \<and> s = buildClusterScope (Some (js_trim (ms_clusterId ?s)))
            (Some (objectPart ?s @ ''?maxDepth='' @ nat_str depth @ ''&maxNodes='' @ nat_str limit)))"
    using map_scope_total [of ?s "Finite 99" NaN] by blast
  from r sample_scope have "r = Some ''c|n:apps/v1:Deployment:web?maxDepth=12&maxNodes=1''" by simp
  from v [rule_format, OF this] show ?thesis unfolding map_seed.select_convs .
qed

section \<open>The states of the view\<close>

text \<open>What the view shows of the model: the filters, the search and the focus mode are state of the
  component, the rest of the input comes from the model. The cards a drag can start on are those of
  the visible layout.\<close>

definition shownState :: "locale_compare \<Rightarrow> visible_input \<Rightarrow> map_model \<Rightarrow> visible_state" where
  "shownState lc filters m = deriveObjectMapVisibleState lc (filters\<lparr>vi_layout := modelLayout lc m,
     vi_seedNodeId := seedOf m, vi_activeNodeId := mm_activeNodeId m\<rparr>)"

lemma shown_subset:
  assumes "p \<in> set (ml_nodes (vs_visibleLayout (deriveObjectMapVisibleState lc i)))"
  shows "\<exists>q \<in> set (ml_nodes (vi_layout i)). pn_id p = pn_id q"
proof -
  let ?edge = "applyEdgeTypeFilter (vi_layout i) (vi_enabledEdgeTypes i)"
  let ?ks = "js_unique (filterSelectionValues (vi_selectedKinds i) CaseInsensitive)"
  define kf where "kf = (if vi_selectedKinds i = SelNone then computeObjectMapLayout lc [] [] ''''
    else applyKindFilter lc ?edge ?ks (vi_enabledEdgeTypes i) (vi_seedNodeId i))"
  have "p \<in> set (ml_nodes (applyFocusMode lc kf (vi_focusMode i) (vi_activeNodeId i)))"
    using assms by (auto simp: deriveObjectMapVisibleState_def Let_def kf_def)
  from focus_edges(2) [OF this] obtain q where q: "q \<in> set (ml_nodes kf)" "pn_id p = pn_id q" by blast
  have "ml_nodes ?edge = ml_nodes (vi_layout i)" by (auto simp: applyEdgeTypeFilter_def split: option.splits)
  with q kind_filter_nodes [of q lc ?edge ?ks "vi_enabledEdgeTypes i" "vi_seedNodeId i"] show ?thesis
    by (auto simp: kf_def computeObjectMapLayout_def split: if_splits)
qed

lemma shown_drawn: "pn_id ` set (ml_nodes (vs_visibleLayout (shownState lc filters m))) \<subseteq> set (drawnIds lc m)"
  unfolding shownState_def drawnIds_def by (force dest: shown_subset)

inductive map_reach :: "locale_compare \<Rightarrow> map_model \<Rightarrow> bool" for lc where
  reach_init: "map_reach lc (initialModel payload)"
| reach_payload: "map_reach lc m \<Longrightarrow> fresh \<or> (np_nodes p = np_nodes (mm_payload m) \<and> np_edges p = np_edges (mm_payload m)) \<Longrightarrow>
    map_reach lc (receivePayload lc p fresh m)"
| reach_toggle: "map_reach lc m \<Longrightarrow> map_reach lc (toggleGroup lc d m)"
| reach_select: "map_reach lc m \<Longrightarrow> map_reach lc (selectNode lc i m)"
| reach_focus: "map_reach lc m \<Longrightarrow> map_reach lc (focusNode lc i m)"
| reach_clear: "map_reach lc m \<Longrightarrow> map_reach lc (clearSelection m)"
| reach_start: "map_reach lc m \<Longrightarrow> node \<in> set (ml_nodes (vs_visibleLayout (shownState lc filters m))) \<Longrightarrow>
    map_reach lc (startNodeDrag node pointer m)"
| reach_move: "map_reach lc m \<Longrightarrow> map_reach lc (moveNodeDrag pointer m)"
| reach_end: "map_reach lc m \<Longrightarrow> map_reach lc (endNodeDrag pointer m)"
| reach_reset: "map_reach lc m \<Longrightarrow> map_reach lc (resetLayout m)"
| reach_autoFit: "map_reach lc m \<Longrightarrow> map_reach lc (setAutoFit b m)"
| reach_hover: "map_reach lc m \<Longrightarrow> map_reach lc (setHoverEdge e m)"
| reach_unhover: "map_reach lc m \<Longrightarrow> map_reach lc (clearHoverEdge m)"

definition map_ok :: "map_model \<Rightarrow> bool" where
  "map_ok m \<longleftrightarrow>
     (\<forall>i. mm_activeNodeId m = Some i \<longrightarrow> i \<in> set (node_ids (fst (filteredOf m))))
     \<and> (\<forall>drag. mm_drag m = Some drag \<longrightarrow> dr_nodeId drag \<in> set (node_ids (fst (filteredOf m))))
     \<and> set (jm_keys (mm_overrides m)) \<subseteq> set (node_ids (fst (filteredOf m)))
     \<and> jm_ok (mm_overrides m)"

definition same_graph :: "map_model \<Rightarrow> map_model \<Rightarrow> bool" where
  "same_graph m m' \<longleftrightarrow> mm_payload m = mm_payload m' \<and> mm_expanded m = mm_expanded m'"

lemma same_filtered: "same_graph m m' \<Longrightarrow> filteredOf m = filteredOf m'"
  by (simp add: same_graph_def filteredOf_def)

lemma clear_lost [simp]:
  "mm_payload (clearLostSelection lc m) = mm_payload m" "mm_expanded (clearLostSelection lc m) = mm_expanded m"
  "mm_overrides (clearLostSelection lc m) = mm_overrides m" "mm_drag (clearLostSelection lc m) = mm_drag m"
  by (simp_all add: clearLostSelection_def split: option.split)

lemma clear_lost_ok:
  assumes "set (jm_keys (mm_overrides m)) \<subseteq> set (node_ids (fst (filteredOf m)))" and "jm_ok (mm_overrides m)"
    and "\<And>drag. mm_drag m = Some drag \<Longrightarrow> dr_nodeId drag \<in> set (node_ids (fst (filteredOf m)))"
  shows "map_ok (clearLostSelection lc m)"
proof -
  have f: "filteredOf (clearLostSelection lc m) = filteredOf m" by (simp add: filteredOf_def)
  have "i \<in> set (node_ids (fst (filteredOf m)))" if "mm_activeNodeId (clearLostSelection lc m) = Some i" for i
    using that by (auto simp: clearLostSelection_def drawn_ids split: option.splits if_splits)
  with assms f show ?thesis by (simp add: map_ok_def)
qed

lemma payload_same:
  assumes "np_nodes p = np_nodes q" "np_edges p = np_edges q" "findSeedId p = findSeedId q"
  shows "renderedGraph p expanded = renderedGraph q expanded"
  using assms by (simp add: renderedGraph_def collapseOf_def reachableGraph_def)

lemma move_override_ok:
  assumes "map_ok m" and "mm_drag m = Some drag"
  shows "map_ok (moveNodeDrag pointer m)"
proof -
  have f: "filteredOf (moveNodeDrag pointer m) = filteredOf m"
    by (rule same_filtered) (simp add: same_graph_def moveNodeDrag_def Let_def split: option.split)
  have n: "dr_nodeId drag \<in> set (node_ids (fst (filteredOf m)))" using assms by (simp add: map_ok_def)
  show ?thesis
    unfolding map_ok_def f using assms n
    by (auto simp: map_ok_def moveNodeDrag_def Let_def jm_keys_set [unfolded set_map])
qed

lemma map_reach_ok: "map_reach lc m \<Longrightarrow> map_ok m"
proof (induction rule: map_reach.induct)
  case (reach_init payload)
  show ?case by (simp add: map_ok_def initialModel_def)
next
  case (reach_payload m fresh p)
  let ?m = "if fresh \<or> findSeedId p \<noteq> seedOf m then resetLayout (m\<lparr>mm_payload := p\<rparr>) else m\<lparr>mm_payload := p\<rparr>"
  have "map_ok (clearLostSelection lc ?m)"
  proof (cases "fresh \<or> findSeedId p \<noteq> seedOf m")
    case True
    then show ?thesis by (intro clear_lost_ok) (auto simp: resetLayout_def)
  next
    case False
    then have "filteredOf (m\<lparr>mm_payload := p\<rparr>) = filteredOf m"
      using reach_payload.hyps(2) payload_same [of p "mm_payload m"] by (simp add: filteredOf_def seedOf_def)
    with False reach_payload.IH show ?thesis by (intro clear_lost_ok) (auto simp: map_ok_def)
  qed
  then show ?case by (simp add: receivePayload_def Let_def)
next
  case (reach_toggle m d)
  show ?case unfolding toggleGroup_def by (rule clear_lost_ok) (simp_all add: resetLayout_def)
next
  case (reach_select m i)
  show ?case
    unfolding selectNode_def
    by (rule clear_lost_ok) (use reach_select.IH in \<open>auto simp: map_ok_def filteredOf_def\<close>)
next
  case (reach_focus m i)
  then show ?case by (auto simp: focusNode_def map_ok_def drawn_ids filteredOf_def)
next
  case (reach_start m node filters pointer)
  have "pn_id node \<in> set (drawnIds lc m)"
    using reach_start.hyps(2) shown_drawn [of lc filters m] by auto
  then have "pn_id node \<in> set (node_ids (fst (filteredOf m)))" by (simp add: drawn_ids)
  with reach_start.IH show ?case by (auto simp: startNodeDrag_def map_ok_def filteredOf_def)
next
  case (reach_move m pointer)
  show ?case
  proof (cases "mm_drag m")
    case None
    with reach_move show ?thesis by (simp add: moveNodeDrag_def)
  next
    case (Some drag)
    with reach_move.IH show ?thesis by (rule move_override_ok)
  qed
qed (auto simp: map_ok_def filteredOf_def clearSelection_def endNodeDrag_def resetLayout_def setAutoFit_def
    setHoverEdge_def clearHoverEdge_def split: option.splits)

text \<open>
  C24. However the view is used, with whatever filters, search and focus mode when a card is
  grabbed, its state fits what is drawn: the selected node, the dragged card and every card with a
  position of its own are nodes of the rendered graph.
\<close>

theorem map_view_wellformed:
  assumes "map_reach lc m"
  shows "map_ok m"
  using assms by (rule map_reach_ok)

lemma map_view_wellformed_witness:
  "map_ok (selectNode sampleCompare ''d'' (toggleGroup sampleCompare ''d'' (initialModel samplePayload)))"
  by (rule map_view_wellformed [of sampleCompare]) (intro reach_select reach_toggle reach_init)

end
