(* ===== verification/Permissions.thy ===== *)
theory Permissions
  imports Prelude
begin

text \<open>
  What the permission store asks and how it names the answers (\<open>core/capabilities/\<close>): the spec
  lists (\<open>permissionSpecs.ts\<close>), the group and version of a built-in kind
  (\<open>shared/constants/builtinGroupVersions.ts\<close>), the key of a permission, the batch a query
  sends, the statuses that are published (\<open>permissionStore.ts\<close>) and the answers that are only
  transient (\<open>transientPermissionErrors.ts\<close>).

  The table of built-in kinds is generated from a contract of the backend and is an argument.
  The optional \<open>group\<close> and \<open>version\<close> of an item and their \<open>null\<close> are one \<open>None\<close>.
\<close>

section \<open>Specs\<close>

record perm_spec =
  sp_kind :: string
  sp_verb :: string
  sp_subresource :: "string option"
  sp_group :: "string option"
  sp_version :: "string option"

record spec_list =
  sl_feature :: string
  sl_specs :: "perm_spec list"

definition permSpec :: "string \<Rightarrow> string \<Rightarrow> string option \<Rightarrow> perm_spec" where
  "permSpec kind verb subresource =
     \<lparr>sp_kind = kind, sp_verb = verb, sp_subresource = subresource, sp_group = None, sp_version = None\<rparr>"

definition WORKLOAD_PERMISSIONS :: spec_list where
  "WORKLOAD_PERMISSIONS = \<lparr>sl_feature = ''namespace.workloads'', sl_specs =
    [permSpec ''Deployment'' ''list'' None, permSpec ''Deployment'' ''patch'' None,
     permSpec ''Deployment'' ''update'' None, permSpec ''Deployment'' ''delete'' None,
     permSpec ''Deployment'' ''update'' (Some ''scale''), permSpec ''StatefulSet'' ''list'' None,
     permSpec ''StatefulSet'' ''patch'' None, permSpec ''StatefulSet'' ''update'' None,
     permSpec ''StatefulSet'' ''delete'' None,
     permSpec ''StatefulSet'' ''update'' (Some ''scale''),
     permSpec ''ReplicaSet'' ''update'' (Some ''scale''), permSpec ''DaemonSet'' ''list'' None,
     permSpec ''DaemonSet'' ''patch'' None, permSpec ''DaemonSet'' ''update'' None,
     permSpec ''DaemonSet'' ''delete'' None, permSpec ''Job'' ''list'' None,
     permSpec ''Job'' ''create'' None, permSpec ''Job'' ''delete'' None,
     permSpec ''CronJob'' ''list'' None, permSpec ''CronJob'' ''patch'' None,
     permSpec ''CronJob'' ''delete'' None]\<rparr>"

definition POD_PERMISSIONS :: spec_list where
  "POD_PERMISSIONS = \<lparr>sl_feature = ''namespace.pods'', sl_specs =
    [permSpec ''Pod'' ''list'' None, permSpec ''Pod'' ''delete'' None,
     permSpec ''Pod'' ''get'' (Some ''log''), permSpec ''Pod'' ''create'' (Some ''portforward'')]\<rparr>"

definition CONFIG_PERMISSIONS :: spec_list where
  "CONFIG_PERMISSIONS = \<lparr>sl_feature = ''namespace.config'', sl_specs =
    [permSpec ''ConfigMap'' ''list'' None, permSpec ''ConfigMap'' ''delete'' None,
     permSpec ''Secret'' ''list'' None, permSpec ''Secret'' ''delete'' None]\<rparr>"

definition NETWORK_PERMISSIONS :: spec_list where
  "NETWORK_PERMISSIONS = \<lparr>sl_feature = ''namespace.network'', sl_specs =
    [permSpec ''Service'' ''list'' None, permSpec ''Service'' ''delete'' None,
     permSpec ''Ingress'' ''list'' None, permSpec ''Ingress'' ''delete'' None,
     permSpec ''NetworkPolicy'' ''list'' None, permSpec ''NetworkPolicy'' ''delete'' None,
     permSpec ''EndpointSlice'' ''list'' None, permSpec ''EndpointSlice'' ''delete'' None,
     permSpec ''Gateway'' ''list'' None, permSpec ''Gateway'' ''delete'' None,
     permSpec ''HTTPRoute'' ''list'' None, permSpec ''HTTPRoute'' ''delete'' None,
     permSpec ''GRPCRoute'' ''list'' None, permSpec ''GRPCRoute'' ''delete'' None,
     permSpec ''TLSRoute'' ''list'' None, permSpec ''TLSRoute'' ''delete'' None,
     permSpec ''ListenerSet'' ''list'' None, permSpec ''ListenerSet'' ''delete'' None,
     permSpec ''BackendTLSPolicy'' ''list'' None, permSpec ''BackendTLSPolicy'' ''delete'' None,
     permSpec ''ReferenceGrant'' ''list'' None, permSpec ''ReferenceGrant'' ''delete'' None]\<rparr>"

definition RBAC_PERMISSIONS :: spec_list where
  "RBAC_PERMISSIONS = \<lparr>sl_feature = ''namespace.rbac'', sl_specs =
    [permSpec ''Role'' ''list'' None, permSpec ''Role'' ''delete'' None,
     permSpec ''RoleBinding'' ''list'' None, permSpec ''RoleBinding'' ''delete'' None,
     permSpec ''ServiceAccount'' ''list'' None, permSpec ''ServiceAccount'' ''delete'' None]\<rparr>"

definition STORAGE_PERMISSIONS :: spec_list where
  "STORAGE_PERMISSIONS = \<lparr>sl_feature = ''namespace.storage'', sl_specs =
    [permSpec ''PersistentVolumeClaim'' ''list'' None,
     permSpec ''PersistentVolumeClaim'' ''delete'' None]\<rparr>"

definition AUTOSCALING_PERMISSIONS :: spec_list where
  "AUTOSCALING_PERMISSIONS = \<lparr>sl_feature = ''namespace.autoscaling'', sl_specs =
    [permSpec ''HorizontalPodAutoscaler'' ''list'' None,
     permSpec ''HorizontalPodAutoscaler'' ''delete'' None]\<rparr>"

definition QUOTA_PERMISSIONS :: spec_list where
  "QUOTA_PERMISSIONS = \<lparr>sl_feature = ''namespace.quotas'', sl_specs =
    [permSpec ''ResourceQuota'' ''list'' None, permSpec ''ResourceQuota'' ''delete'' None,
     permSpec ''LimitRange'' ''list'' None, permSpec ''LimitRange'' ''delete'' None,
     permSpec ''PodDisruptionBudget'' ''list'' None,
     permSpec ''PodDisruptionBudget'' ''delete'' None]\<rparr>"

definition EVENT_PERMISSIONS :: spec_list where
  "EVENT_PERMISSIONS = \<lparr>sl_feature = ''namespace.events'', sl_specs =
    [permSpec ''Event'' ''list'' None]\<rparr>"

definition ALL_NAMESPACE_PERMISSIONS :: "spec_list list" where
  "ALL_NAMESPACE_PERMISSIONS =
    [WORKLOAD_PERMISSIONS, POD_PERMISSIONS, CONFIG_PERMISSIONS, NETWORK_PERMISSIONS,
     RBAC_PERMISSIONS, STORAGE_PERMISSIONS, AUTOSCALING_PERMISSIONS, QUOTA_PERMISSIONS,
     EVENT_PERMISSIONS]"

definition CLUSTER_PERMISSIONS :: "spec_list list" where
  "CLUSTER_PERMISSIONS =
    [\<lparr>sl_feature = ''cluster.overview'', sl_specs =
       [permSpec ''Namespace'' ''list'' None, permSpec ''Namespace'' ''update'' None,
        permSpec ''Namespace'' ''create'' None, permSpec ''Namespace'' ''delete'' None]\<rparr>,
     \<lparr>sl_feature = ''cluster.nodes'', sl_specs =
       [permSpec ''Node'' ''list'' None, permSpec ''Node'' ''get'' None]\<rparr>,
     \<lparr>sl_feature = ''cluster.nodeActions'', sl_specs =
       [permSpec ''Node'' ''update'' None, permSpec ''Node'' ''delete'' None,
        permSpec ''Node'' ''get'' None, permSpec ''Node'' ''patch'' None,
        permSpec ''Pod'' ''create'' (Some ''eviction''), permSpec ''Pod'' ''delete'' None]\<rparr>,
     \<lparr>sl_feature = ''cluster.storageView'', sl_specs =
       [permSpec ''PersistentVolume'' ''list'' None,
        permSpec ''PersistentVolume'' ''update'' None]\<rparr>,
     \<lparr>sl_feature = ''cluster.storageActions'', sl_specs =
       [permSpec ''PersistentVolume'' ''delete'' None]\<rparr>,
     \<lparr>sl_feature = ''cluster.config'', sl_specs =
       [permSpec ''StorageClass'' ''list'' None, permSpec ''StorageClass'' ''update'' None,
        permSpec ''StorageClass'' ''delete'' None, permSpec ''IngressClass'' ''list'' None,
        permSpec ''IngressClass'' ''update'' None, permSpec ''IngressClass'' ''delete'' None,
        permSpec ''GatewayClass'' ''list'' None, permSpec ''GatewayClass'' ''update'' None,
        permSpec ''GatewayClass'' ''delete'' None,
        permSpec ''MutatingWebhookConfiguration'' ''list'' None,
        permSpec ''MutatingWebhookConfiguration'' ''update'' None,
        permSpec ''MutatingWebhookConfiguration'' ''delete'' None,
        permSpec ''ValidatingWebhookConfiguration'' ''list'' None,
        permSpec ''ValidatingWebhookConfiguration'' ''update'' None,
        permSpec ''ValidatingWebhookConfiguration'' ''delete'' None]\<rparr>,
     \<lparr>sl_feature = ''cluster.identities'', sl_specs =
       [permSpec ''RoleBinding'' ''list'' None, permSpec ''ClusterRoleBinding'' ''list'' None]\<rparr>,
     \<lparr>sl_feature = ''cluster.rbac'', sl_specs =
       [permSpec ''ClusterRole'' ''list'' None, permSpec ''ClusterRole'' ''update'' None,
        permSpec ''ClusterRole'' ''delete'' None, permSpec ''ClusterRoleBinding'' ''list'' None,
        permSpec ''ClusterRoleBinding'' ''update'' None,
        permSpec ''ClusterRoleBinding'' ''delete'' None]\<rparr>,
     \<lparr>sl_feature = ''cluster.crds'', sl_specs =
       [permSpec ''CustomResourceDefinition'' ''list'' None,
        permSpec ''CustomResourceDefinition'' ''update'' None,
        permSpec ''CustomResourceDefinition'' ''delete'' None]\<rparr>,
     \<lparr>sl_feature = ''cluster.events'', sl_specs =
       [permSpec ''Event'' ''list'' None]\<rparr>]"

section \<open>Group and version of a kind\<close>

type_synonym group_version = "string \<times> string"
type_synonym builtin_table = "(string, group_version) jmap"

definition builtinTable :: "(string \<times> string \<times> string) list \<Rightarrow> builtin_table" where
  "builtinTable resources = fold (\<lambda>(kind, g, v) acc. jm_set kind (g, v) acc) resources []"

definition resolveBuiltinGroupVersion :: "builtin_table \<Rightarrow> string \<Rightarrow> group_version option" where
  "resolveBuiltinGroupVersion builtins kind =
     (let k = js_trim kind in
      if kind = '''' \<or> k = '''' then None
      else case jm_get builtins k of
             Some gv \<Rightarrow> Some gv
           | None \<Rightarrow> map_option snd (find (\<lambda>(canonical, gv). js_lower canonical = js_lower k) builtins))"

definition parseApiVersion :: "string option \<Rightarrow> group_version option" where
  "parseApiVersion apiVersion =
     (case apiVersion of
        None \<Rightarrow> None
      | Some raw \<Rightarrow>
          let s = js_trim raw; slash = index_of s (CHR ''/'') in
          if raw = '''' \<or> s = '''' then None
          else if slash = -1 then Some ('''', s)
          else Some (take (nat slash) s, drop (nat slash + 1) s))"

text \<open>\<open>x ?? ''''\<close> followed by \<open>trim\<close>\<close>

definition trimmed_or_empty :: "string option \<Rightarrow> string" where
  "trimmed_or_empty x = (case x of None \<Rightarrow> '''' | Some s \<Rightarrow> js_trim s)"

definition resolvePermissionGVK ::
  "builtin_table \<Rightarrow> string \<Rightarrow> string option \<Rightarrow> string option \<Rightarrow> group_version" where
  "resolvePermissionGVK builtins kind grp version =
     (let g = trimmed_or_empty grp; ver = trimmed_or_empty version in
      if ver \<noteq> '''' then (g, ver)
      else case resolveBuiltinGroupVersion builtins kind of
             Some (bg, bv) \<Rightarrow> if bv \<noteq> '''' then (bg, bv) else (g, ver)
           | None \<Rightarrow> (g, ver))"

text \<open>\<open>x ? x.toLowerCase() : other\<close>\<close>

definition lower_or :: "string \<Rightarrow> string option \<Rightarrow> string" where
  "lower_or other x = (case x of None \<Rightarrow> other | Some s \<Rightarrow> if s = '''' then other else js_lower s)"

definition or_current :: "string option \<Rightarrow> string \<Rightarrow> string" where
  "or_current clusterId current = (case clusterId of None \<Rightarrow> current | Some c \<Rightarrow> if c = '''' then current else c)"

definition permissionKey :: "string \<Rightarrow> group_version \<Rightarrow> string \<Rightarrow> string \<Rightarrow> string \<Rightarrow> string \<Rightarrow> string" where
  "permissionKey cid gv rk v ns sub =
     js_join (CHR ''|'') [cid, fst gv @ CHR ''/'' # snd gv, rk, v, ns, sub]"

definition getPermissionKey ::
  "builtin_table \<Rightarrow> string \<Rightarrow> string \<Rightarrow> string \<Rightarrow> string option \<Rightarrow> string option \<Rightarrow> string option
   \<Rightarrow> string option \<Rightarrow> string option \<Rightarrow> string" where
  "getPermissionKey builtins current kind verb namespace subresource clusterId grp version =
     permissionKey (or_current clusterId current) (resolvePermissionGVK builtins kind grp version)
       (js_lower kind) (js_lower verb) (lower_or ''cluster'' namespace) (lower_or '''' subresource)"

section \<open>Answers\<close>

record perm_descriptor =
  pd_clusterId :: string
  pd_group :: "string option"
  pd_version :: "string option"
  pd_resourceKind :: string
  pd_verb :: string
  pd_namespace :: "string option"
  pd_subresource :: "string option"

record perm_entry =
  en_allowed :: bool
  en_source :: string
  en_reason :: "string option"
  en_descriptor :: perm_descriptor
  en_feature :: "string option"

datatype entry_status = EntryLoading | EntryReady | EntryError

record perm_status =
  ps_id :: string
  ps_allowed :: bool
  ps_isPending :: bool
  ps_reason :: "string option"
  ps_error :: "string option"
  ps_source :: "string option"
  ps_descriptor :: perm_descriptor
  ps_feature :: "string option"
  ps_entry :: entry_status

record query_item =
  qi_id :: string
  qi_clusterId :: string
  qi_group :: string
  qi_version :: "string option"
  qi_resourceKind :: string
  qi_verb :: string
  qi_namespace :: string
  qi_subresource :: string
  qi_name :: string

record batch_item =
  bi_id :: string
  bi_clusterId :: string
  bi_group :: string
  bi_version :: string
  bi_resourceKind :: string
  bi_verb :: string
  bi_namespace :: string
  bi_subresource :: string
  bi_name :: string
  bi_feature :: string

record query_result =
  qr_id :: string
  qr_clusterId :: string
  qr_group :: "string option"
  qr_version :: "string option"
  qr_resourceKind :: string
  qr_verb :: string
  qr_namespace :: string
  qr_subresource :: string
  qr_name :: string
  qr_allowed :: bool
  qr_source :: string
  qr_reason :: string
  qr_error :: string

record response_diagnostics =
  rd_key :: string
  rd_method :: string
  rd_ssrrIncomplete :: bool
  rd_ssrrRuleCount :: int
  rd_ssarFallbackCount :: int

record perm_response =
  rp_results :: "query_result list"
  rp_diagnostics :: "response_diagnostics list"

text \<open>A string that is empty is \<open>null\<close>.\<close>

definition or_null :: "string \<Rightarrow> string option" where
  "or_null s = (if s = '''' then None else Some s)"

definition makePermissionStatus :: "string \<Rightarrow> perm_entry \<Rightarrow> perm_status" where
  "makePermissionStatus key e =
     \<lparr>ps_id = key, ps_allowed = en_allowed e, ps_isPending = False, ps_reason = en_reason e,
      ps_error = (if en_source e = ''error'' then en_reason e else None), ps_source = Some (en_source e),
      ps_descriptor = en_descriptor e, ps_feature = en_feature e,
      ps_entry = (if en_source e = ''error'' then EntryError else EntryReady)\<rparr>"

definition makePendingStatus :: "string \<Rightarrow> perm_descriptor \<Rightarrow> string option \<Rightarrow> perm_status" where
  "makePendingStatus key descriptor feature =
     \<lparr>ps_id = key, ps_allowed = False, ps_isPending = True, ps_reason = None, ps_error = None,
      ps_source = None, ps_descriptor = descriptor, ps_feature = feature, ps_entry = EntryLoading\<rparr>"

section \<open>Transient answers\<close>

text \<open>\<open>/\bcluster\b.*\bnot active\b/i\<close>: \<open>before\<close> says whether the character before is one of a word.\<close>

definition word_char :: "char \<Rightarrow> bool" where
  "word_char c \<longleftrightarrow>
     (let n = of_char c :: nat in 48 \<le> n \<and> n \<le> 57 \<or> 65 \<le> n \<and> n \<le> 90 \<or> n = 95 \<or> 97 \<le> n \<and> n \<le> 122)"

definition phrase_at :: "bool \<Rightarrow> string \<Rightarrow> string \<Rightarrow> bool" where
  "phrase_at before phrase s \<longleftrightarrow>
     \<not> before \<and> take (length phrase) s = phrase
     \<and> (case drop (length phrase) s of [] \<Rightarrow> True | c # _ \<Rightarrow> \<not> word_char c)"

fun notActiveFollows :: "bool \<Rightarrow> string \<Rightarrow> bool" where
  "notActiveFollows before [] = False"
| "notActiveFollows before (c # cs) =
     (phrase_at before ''not active'' (c # cs)
      \<or> c \<noteq> CHR 0x0A \<and> c \<noteq> CHR 0x0D \<and> notActiveFollows (word_char c) cs)"

fun clusterInactiveMatch :: "bool \<Rightarrow> string \<Rightarrow> bool" where
  "clusterInactiveMatch before [] = False"
| "clusterInactiveMatch before (c # cs) =
     (phrase_at before ''cluster'' (c # cs) \<and> notActiveFollows True (drop 7 (c # cs))
      \<or> clusterInactiveMatch (word_char c) cs)"

definition isTransientClusterInactivePermissionError :: "string \<Rightarrow> bool" where
  "isTransientClusterInactivePermissionError message = clusterInactiveMatch False (js_lower message)"

definition getPermissionResultErrorMessage :: "query_result \<Rightarrow> string" where
  "getPermissionResultErrorMessage r = (if qr_error r \<noteq> '''' then qr_error r else qr_reason r)"

definition isTransientPermissionResultError :: "query_result \<Rightarrow> bool" where
  "isTransientPermissionResultError r \<longleftrightarrow>
     (qr_source r = ''error'' \<or> qr_error r \<noteq> '''')
     \<and> isTransientClusterInactivePermissionError (getPermissionResultErrorMessage r)"

section \<open>Batches\<close>

definition buildBatchItem ::
  "builtin_table \<Rightarrow> string \<Rightarrow> string option \<Rightarrow> string \<Rightarrow> string \<Rightarrow> perm_spec \<Rightarrow> batch_item" where
  "buildBatchItem builtins current namespace clusterId feature spec =
     (let (grp, version) = resolvePermissionGVK builtins (sp_kind spec) (sp_group spec) (sp_version spec)
      in \<lparr>bi_id = getPermissionKey builtins current (sp_kind spec) (sp_verb spec) namespace
            (sp_subresource spec) (Some clusterId) (Some grp) (Some version),
          bi_clusterId = clusterId, bi_group = grp, bi_version = version,
          bi_resourceKind = sp_kind spec, bi_verb = sp_verb spec,
          bi_namespace = (case namespace of None \<Rightarrow> '''' | Some ns \<Rightarrow> ns),
          bi_subresource = (case sp_subresource spec of None \<Rightarrow> '''' | Some s \<Rightarrow> s),
          bi_name = '''', bi_feature = feature\<rparr>)"

definition buildBatch ::
  "builtin_table \<Rightarrow> string \<Rightarrow> spec_list list \<Rightarrow> string option \<Rightarrow> string \<Rightarrow> batch_item list" where
  "buildBatch builtins current specLists namespace clusterId =
     concat (List.map (\<lambda>l. List.map (buildBatchItem builtins current namespace clusterId (sl_feature l))
       (sl_specs l)) specLists)"

definition toPermissionSpec :: "batch_item \<Rightarrow> perm_spec" where
  "toPermissionSpec item =
     \<lparr>sp_kind = bi_resourceKind item, sp_verb = bi_verb item, sp_subresource = or_null (bi_subresource item),
      sp_group = Some (bi_group item), sp_version = or_null (bi_version item)\<rparr>"

definition toQueryPayloadItem :: "batch_item \<Rightarrow> query_item" where
  "toQueryPayloadItem item =
     \<lparr>qi_id = bi_id item, qi_clusterId = bi_clusterId item, qi_group = bi_group item,
      qi_version = or_null (bi_version item), qi_resourceKind = bi_resourceKind item,
      qi_verb = bi_verb item, qi_namespace = bi_namespace item,
      qi_subresource = bi_subresource item, qi_name = bi_name item\<rparr>"

definition itemDescriptor :: "batch_item \<Rightarrow> perm_descriptor" where
  "itemDescriptor item =
     \<lparr>pd_clusterId = bi_clusterId item, pd_group = Some (bi_group item), pd_version = or_null (bi_version item),
      pd_resourceKind = bi_resourceKind item, pd_verb = bi_verb item,
      pd_namespace = or_null (bi_namespace item), pd_subresource = or_null (bi_subresource item)\<rparr>"

definition permissionDescriptor :: "query_result \<Rightarrow> perm_descriptor" where
  "permissionDescriptor r =
     \<lparr>pd_clusterId = qr_clusterId r, pd_group = qr_group r,
      pd_version = (case qr_version r of None \<Rightarrow> None | Some v \<Rightarrow> or_null v),
      pd_resourceKind = qr_resourceKind r, pd_verb = qr_verb r,
      pd_namespace = or_null (qr_namespace r), pd_subresource = or_null (qr_subresource r)\<rparr>"

text \<open>\<open>list.specs.map(...).join(',')\<close>, the lists joined by a bar\<close>

definition specKeySegment :: "perm_spec \<Rightarrow> string" where
  "specKeySegment spec =
     (case sp_group spec of None \<Rightarrow> '''' | Some g \<Rightarrow> g) @ CHR ''/'' #
     (case sp_version spec of None \<Rightarrow> '''' | Some v \<Rightarrow> v) @ CHR ''/'' #
     sp_kind spec @ CHR '':'' # sp_verb spec @ CHR '':'' #
     (case sp_subresource spec of None \<Rightarrow> '''' | Some s \<Rightarrow> s)"

definition getSpecListsRequestKeySegment :: "spec_list list \<Rightarrow> string" where
  "getSpecListsRequestKeySegment specLists =
     (let s = js_join (CHR ''|'') (List.map (\<lambda>l.
            sl_feature l @ CHR '':'' # js_join (CHR '','') (List.map specKeySegment (sl_specs l))) specLists)
      in if s = '''' then ''empty'' else s)"

definition buildNamespaceRequestKey :: "string \<Rightarrow> string \<Rightarrow> spec_list list \<Rightarrow> string" where
  "buildNamespaceRequestKey clusterId namespace specLists =
     clusterId @ CHR ''|'' # js_lower namespace @ ''|specs:'' @ getSpecListsRequestKeySegment specLists"

end
