(* ===== verification/PermissionStore.thy ===== *)
theory PermissionStore
  imports Permissions
begin

text \<open>
  The permission store (\<open>core/capabilities/permissionStore.ts\<close>): its module state, the queries for
  namespaces, clusters and single kinds, their answers, the diagnostics, the periodic refresh and
  the life cycle.

  A call of \<open>queryPermissions\<close> is a request with the generation of the store; its answer arrives in
  a later step (\<open>settlePermissionQuery\<close>), in any order. \<open>Date.now()\<close> is an argument. A listener is
  a number. The scheduled flag of a notification stands for its timer as well, since the code sets
  and clears both together.
\<close>

section \<open>State\<close>

record pending_item =
  pi_spec :: perm_spec
  pi_feature :: string
  pi_clusterId :: string
  pi_namespace :: "string option"

record namespace_target =
  nt_requestKey :: string
  nt_diagnosticsKey :: string
  nt_clusterId :: string
  nt_namespace :: string
  nt_specLists :: "spec_list list"
  nt_batch :: "batch_item list"
  nt_startedAt :: int

record query_interest =
  qn_clusterId :: string
  qn_namespace :: string
  qn_specLists :: "spec_list list"

record query_diagnostics =
  qd_key :: string
  qd_clusterId :: string
  qd_namespace :: "string option"
  qd_method :: string
  qd_pendingCount :: int
  qd_inFlightCount :: int
  qd_inFlightStartedAt :: "int option"
  qd_lastRunDurationMs :: "int option"
  qd_lastRunCompletedAt :: "int option"
  qd_lastError :: "string option"
  qd_lastResult :: "string option"
  qd_totalChecks :: int
  qd_consecutiveFailureCount :: int
  qd_ssrrIncomplete :: "bool option"
  qd_ssrrRuleCount :: "int option"
  qd_ssarFallbackCount :: "int option"
  qd_lastDescriptors :: "(string \<times> string \<times> string option \<times> string option) list"

text \<open>What a request asked: a chunk of the targets of one \<open>Promise.all\<close>, the permissions of a
  cluster, or those of a kind.\<close>

datatype perm_query =
    ChunkQuery nat "namespace_target list"
  | ClusterQuery string "batch_item list" int
  | KindQuery string string

record perm_request =
  rq_id :: nat
  rq_generation :: nat
  rq_query :: perm_query
  rq_payload :: "query_item list"

record perm_store =
  pm_currentClusterId :: string
  pm_generation :: nat
  pm_namespaceTimers :: "(nat \<times> int \<times> query_interest) list"
  pm_nextTimer :: nat
  pm_results :: "(string, perm_entry) jmap"
  pm_map :: "(string, perm_status) jmap"
  pm_listeners :: "nat list"
  pm_notifyScheduled :: bool
  pm_diagnostics :: "(string, query_diagnostics) jmap"
  pm_diagnosticsSnapshot :: "query_diagnostics list"
  pm_diagnosticsDirty :: bool
  pm_diagnosticsListeners :: "nat list"
  pm_diagnosticsNotifyScheduled :: bool
  pm_inFlight :: "string list"
  pm_pending :: "(string, pending_item list) jmap"
  pm_timestamps :: "(string, int) jmap"
  pm_metadata :: "(string, query_interest) jmap"
  pm_refreshTimer :: bool
  pm_subscribed :: bool
  pm_requests :: "perm_request list"
  pm_nextRequest :: nat

definition initialPermissionStore :: perm_store where
  "initialPermissionStore =
     \<lparr>pm_currentClusterId = '''', pm_generation = 0, pm_namespaceTimers = [], pm_nextTimer = 0,
      pm_results = [], pm_map = [], pm_listeners = [], pm_notifyScheduled = False, pm_diagnostics = [],
      pm_diagnosticsSnapshot = [], pm_diagnosticsDirty = True, pm_diagnosticsListeners = [],
      pm_diagnosticsNotifyScheduled = False, pm_inFlight = [], pm_pending = [], pm_timestamps = [],
      pm_metadata = [], pm_refreshTimer = False, pm_subscribed = False, pm_requests = [], pm_nextRequest = 0\<rparr>"

section \<open>The published map\<close>

definition pendingKey :: "builtin_table \<Rightarrow> string \<Rightarrow> pending_item \<Rightarrow> string" where
  "pendingKey builtins current item =
     getPermissionKey builtins current (sp_kind (pi_spec item)) (sp_verb (pi_spec item)) (pi_namespace item)
       (sp_subresource (pi_spec item)) (Some (pi_clusterId item)) (sp_group (pi_spec item)) (sp_version (pi_spec item))"

definition pendingDescriptor :: "pending_item \<Rightarrow> perm_descriptor" where
  "pendingDescriptor item =
     \<lparr>pd_clusterId = pi_clusterId item, pd_group = sp_group (pi_spec item), pd_version = sp_version (pi_spec item),
      pd_resourceKind = sp_kind (pi_spec item), pd_verb = sp_verb (pi_spec item), pd_namespace = pi_namespace item,
      pd_subresource = sp_subresource (pi_spec item)\<rparr>"

definition addPending ::
  "builtin_table \<Rightarrow> string \<Rightarrow> pending_item \<Rightarrow> (string, perm_status) jmap \<Rightarrow> (string, perm_status) jmap" where
  "addPending builtins current item m =
     (let key = pendingKey builtins current item in
      if jm_has m key then m
      else jm_set key (makePendingStatus key (pendingDescriptor item) (Some (pi_feature item))) m)"

definition rebuiltMap :: "builtin_table \<Rightarrow> perm_store \<Rightarrow> (string, perm_status) jmap" where
  "rebuiltMap builtins s =
     fold (addPending builtins (pm_currentClusterId s)) (concat (List.map snd (pm_pending s)))
       (List.map (\<lambda>(key, e). (key, makePermissionStatus key e)) (pm_results s))"

definition rebuildPermissionMap :: "builtin_table \<Rightarrow> perm_store \<Rightarrow> perm_store" where
  "rebuildPermissionMap builtins s = s\<lparr>pm_map := rebuiltMap builtins s\<rparr>"

definition schedulePermissionNotify :: "perm_store \<Rightarrow> perm_store" where
  "schedulePermissionNotify s = s\<lparr>pm_notifyScheduled := True\<rparr>"

definition notifyPermissions :: "builtin_table \<Rightarrow> perm_store \<Rightarrow> perm_store" where
  "notifyPermissions builtins s = schedulePermissionNotify (rebuildPermissionMap builtins s)"

text \<open>The listeners that are called come with the state.\<close>

definition flushPermissionListeners :: "perm_store \<Rightarrow> perm_store \<times> nat list" where
  "flushPermissionListeners s = (s\<lparr>pm_notifyScheduled := False\<rparr>, pm_listeners s)"

definition subscribeUserPermissions :: "nat \<Rightarrow> perm_store \<Rightarrow> perm_store" where
  "subscribeUserPermissions l s = s\<lparr>pm_listeners := jset_add l (pm_listeners s)\<rparr>"

definition unsubscribeUserPermissions :: "nat \<Rightarrow> perm_store \<Rightarrow> perm_store" where
  "unsubscribeUserPermissions l s = s\<lparr>pm_listeners := filter (\<lambda>x. x \<noteq> l) (pm_listeners s)\<rparr>"

definition getUserPermissionMap :: "perm_store \<Rightarrow> (string, perm_status) jmap" where
  "getUserPermissionMap s = pm_map s"

section \<open>Diagnostics\<close>

definition flushDiagnosticsListeners :: "perm_store \<Rightarrow> perm_store \<times> nat list" where
  "flushDiagnosticsListeners s = (s\<lparr>pm_diagnosticsNotifyScheduled := False\<rparr>, pm_diagnosticsListeners s)"

definition notifyDiagnostics :: "perm_store \<Rightarrow> perm_store" where
  "notifyDiagnostics s = s\<lparr>pm_diagnosticsDirty := True, pm_diagnosticsNotifyScheduled := True\<rparr>"

definition newDiagnostics :: "string \<Rightarrow> string \<Rightarrow> string option \<Rightarrow> string \<Rightarrow> query_diagnostics" where
  "newDiagnostics key clusterId namespace method =
     \<lparr>qd_key = key, qd_clusterId = clusterId, qd_namespace = namespace, qd_method = method,
      qd_pendingCount = 0, qd_inFlightCount = 0, qd_inFlightStartedAt = None, qd_lastRunDurationMs = None,
      qd_lastRunCompletedAt = None, qd_lastError = None, qd_lastResult = None, qd_totalChecks = 0,
      qd_consecutiveFailureCount = 0, qd_ssrrIncomplete = None, qd_ssrrRuleCount = None,
      qd_ssarFallbackCount = None, qd_lastDescriptors = []\<rparr>"

definition beginQueryDiagnostics ::
  "int \<Rightarrow> string \<Rightarrow> string \<Rightarrow> string option \<Rightarrow> string \<Rightarrow> perm_spec list \<Rightarrow> int \<Rightarrow> perm_store \<Rightarrow> perm_store" where
  "beginQueryDiagnostics now queryKey clusterId namespace method specs checkCount s =
     (let diag = (case jm_get (pm_diagnostics s) queryKey of
            Some d \<Rightarrow> d | None \<Rightarrow> newDiagnostics queryKey clusterId namespace method);
          diag' = diag\<lparr>qd_pendingCount := qd_pendingCount diag + checkCount,
            qd_inFlightCount := qd_inFlightCount diag + checkCount,
            qd_inFlightStartedAt := (case qd_inFlightStartedAt diag of None \<Rightarrow> Some now | Some t \<Rightarrow> Some t),
            qd_totalChecks := checkCount,
            qd_lastDescriptors := List.map (\<lambda>sp. (sp_kind sp, sp_verb sp, namespace, sp_subresource sp)) specs,
            qd_method := method\<rparr>
      in notifyDiagnostics (s\<lparr>pm_diagnostics := jm_set queryKey diag' (pm_diagnostics s)\<rparr>))"

text \<open>The optional numbers that the backend reports are those of one entry of the response.\<close>

definition completeQueryDiagnostics ::
  "int \<Rightarrow> string \<Rightarrow> bool \<Rightarrow> string option \<Rightarrow> int \<Rightarrow> response_diagnostics option \<Rightarrow> int option
   \<Rightarrow> perm_store \<Rightarrow> perm_store" where
  "completeQueryDiagnostics now queryKey success errorMessage startTime reported completedCheckCount s =
     (case jm_get (pm_diagnostics s) queryKey of
        None \<Rightarrow> s
      | Some diag \<Rightarrow>
          let completed = (case completedCheckCount of None \<Rightarrow> qd_inFlightCount diag | Some c \<Rightarrow> c);
              inFlight = max (qd_inFlightCount diag - completed) 0;
              diag' = diag\<lparr>qd_pendingCount := max (qd_pendingCount diag - completed) 0,
                qd_inFlightCount := inFlight,
                qd_inFlightStartedAt := (if inFlight = 0 then None else qd_inFlightStartedAt diag),
                qd_lastRunDurationMs := Some (now - startTime),
                qd_lastRunCompletedAt := Some now,
                qd_lastResult := Some (if success then ''success'' else ''error''),
                qd_lastError := errorMessage,
                qd_consecutiveFailureCount := (if success then 0 else qd_consecutiveFailureCount diag + 1),
                qd_ssarFallbackCount := (case reported of None \<Rightarrow> qd_ssarFallbackCount diag
                  | Some r \<Rightarrow> Some (rd_ssarFallbackCount r)),
                qd_ssrrRuleCount := (case reported of None \<Rightarrow> qd_ssrrRuleCount diag
                  | Some r \<Rightarrow> Some (rd_ssrrRuleCount r)),
                qd_ssrrIncomplete := (case reported of None \<Rightarrow> qd_ssrrIncomplete diag
                  | Some r \<Rightarrow> Some (rd_ssrrIncomplete r)),
                qd_method := (case reported of None \<Rightarrow> qd_method diag
                  | Some r \<Rightarrow> if rd_method r = '''' then qd_method diag else rd_method r)\<rparr>
          in notifyDiagnostics (s\<lparr>pm_diagnostics := jm_set queryKey diag' (pm_diagnostics s)\<rparr>))"

definition subscribeDiagnostics :: "nat \<Rightarrow> perm_store \<Rightarrow> perm_store" where
  "subscribeDiagnostics l s = s\<lparr>pm_diagnosticsListeners := jset_add l (pm_diagnosticsListeners s)\<rparr>"

definition unsubscribeDiagnostics :: "nat \<Rightarrow> perm_store \<Rightarrow> perm_store" where
  "unsubscribeDiagnostics l s = s\<lparr>pm_diagnosticsListeners := filter (\<lambda>x. x \<noteq> l) (pm_diagnosticsListeners s)\<rparr>"

definition getPermissionQueryDiagnosticsSnapshot :: "perm_store \<Rightarrow> perm_store \<times> query_diagnostics list" where
  "getPermissionQueryDiagnosticsSnapshot s =
     (let s' = (if pm_diagnosticsDirty s
            then s\<lparr>pm_diagnosticsSnapshot := List.map snd (pm_diagnostics s), pm_diagnosticsDirty := False\<rparr> else s)
      in (s', pm_diagnosticsSnapshot s'))"

section \<open>Results\<close>

definition recordPermissionResult :: "query_result \<Rightarrow> string option \<Rightarrow> perm_store \<Rightarrow> perm_store" where
  "recordPermissionResult r feature s =
     s\<lparr>pm_results := jm_set (qr_id r)
       \<lparr>en_allowed = qr_allowed r, en_source = (if qr_source r = '''' then ''error'' else qr_source r),
        en_reason = or_null (if qr_reason r \<noteq> '''' then qr_reason r else qr_error r),
        en_descriptor = permissionDescriptor r, en_feature = feature\<rparr> (pm_results s)\<rparr>"

definition applyResults :: "query_result list \<Rightarrow> batch_item list \<Rightarrow> perm_store \<Rightarrow> perm_store" where
  "applyResults results batch s =
     (let featureByKey = fold (\<lambda>i m. jm_set (bi_id i) (bi_feature i) m) batch []
      in fold (\<lambda>r. recordPermissionResult r (jm_get featureByKey (qr_id r))) results s)"

definition recordQueryError :: "string \<Rightarrow> batch_item \<Rightarrow> perm_store \<Rightarrow> perm_store" where
  "recordQueryError reason item s =
     s\<lparr>pm_results := jm_set (bi_id item)
       \<lparr>en_allowed = False, en_source = ''error'', en_reason = Some reason,
        en_descriptor = itemDescriptor item, en_feature = Some (bi_feature item)\<rparr> (pm_results s)\<rparr>"

definition PERMISSION_REFRESH_INTERVAL_MS :: int where
  "PERMISSION_REFRESH_INTERVAL_MS = 2 * 60 * 1000"

definition recordQueryTimestamp :: "int \<Rightarrow> string \<Rightarrow> perm_store \<Rightarrow> perm_store" where
  "recordQueryTimestamp now queryKey s = s\<lparr>pm_timestamps := jm_set queryKey now (pm_timestamps s)\<rparr>"

definition recordNamespaceQueryMetadata :: "namespace_target \<Rightarrow> perm_store \<Rightarrow> perm_store" where
  "recordNamespaceQueryMetadata t s =
     s\<lparr>pm_metadata := jm_set (nt_requestKey t)
       \<lparr>qn_clusterId = nt_clusterId t, qn_namespace = nt_namespace t, qn_specLists = nt_specLists t\<rparr>
       (pm_metadata s)\<rparr>"

definition isRecentQuery :: "int \<Rightarrow> perm_store \<Rightarrow> string \<Rightarrow> bool" where
  "isRecentQuery now s requestKey =
     (case jm_get (pm_timestamps s) requestKey of
        None \<Rightarrow> False
      | Some lastQuery \<Rightarrow> lastQuery \<noteq> 0 \<and> now - lastQuery < PERMISSION_REFRESH_INTERVAL_MS)"

section \<open>Requests\<close>

definition issueRequest :: "perm_query \<Rightarrow> query_item list \<Rightarrow> perm_store \<Rightarrow> perm_store" where
  "issueRequest q payload s =
     s\<lparr>pm_requests := pm_requests s @ [\<lparr>rq_id = pm_nextRequest s, rq_generation = pm_generation s,
         rq_query = q, rq_payload = payload\<rparr>],
       pm_nextRequest := pm_nextRequest s + 1\<rparr>"

definition registerPending :: "string \<Rightarrow> pending_item list \<Rightarrow> perm_store \<Rightarrow> perm_store" where
  "registerPending key items s =
     s\<lparr>pm_pending := jm_set key items (pm_pending s), pm_inFlight := jset_add key (pm_inFlight s)\<rparr>"

definition settleKey :: "string \<Rightarrow> perm_store \<Rightarrow> perm_store" where
  "settleKey key s =
     s\<lparr>pm_inFlight := filter (\<lambda>k. k \<noteq> key) (pm_inFlight s), pm_pending := jm_delete key (pm_pending s)\<rparr>"

section \<open>Queries for namespaces\<close>

definition MAX_PERMISSION_QUERY_ITEMS :: nat where
  "MAX_PERMISSION_QUERY_ITEMS = 5000"

fun splitLoop ::
  "namespace_target list list \<Rightarrow> namespace_target list \<Rightarrow> nat \<Rightarrow> namespace_target list
   \<Rightarrow> namespace_target list list" where
  "splitLoop chunks current n [] = (if current = [] then chunks else chunks @ [current])"
| "splitLoop chunks current n (t # ts) =
     (if current \<noteq> [] \<and> MAX_PERMISSION_QUERY_ITEMS < n + length (nt_batch t)
      then splitLoop (chunks @ [current]) [t] (length (nt_batch t)) ts
      else splitLoop chunks (current @ [t]) (n + length (nt_batch t)) ts)"

definition splitNamespaceTargets :: "namespace_target list \<Rightarrow> namespace_target list list" where
  "splitNamespaceTargets targets = splitLoop [] [] 0 targets"

text \<open>The second component is the set of keys seen so far.\<close>

definition buildNamespaceQueryTarget ::
  "builtin_table \<Rightarrow> int \<Rightarrow> perm_store \<Rightarrow> spec_list list \<Rightarrow> bool \<Rightarrow> string \<times> string option \<Rightarrow> string list
   \<Rightarrow> namespace_target option \<times> string list" where
  "buildNamespaceQueryTarget builtins now s specLists force target seen =
     (let namespace = js_trim (fst target);
          clusterId = js_trim (or_current (snd target) (pm_currentClusterId s)) in
      if clusterId = '''' \<or> namespace = '''' then (None, seen)
      else
        let requestKey = buildNamespaceRequestKey clusterId namespace specLists in
        if requestKey \<in> set seen \<or> requestKey \<in> set (pm_inFlight s) then (None, seen)
        else if \<not> force \<and> isRecentQuery now s requestKey then (None, jset_add requestKey seen)
        else
          let batch = buildBatch builtins (pm_currentClusterId s) specLists (Some namespace) clusterId in
          (if batch = [] then None
           else Some \<lparr>nt_requestKey = requestKey,
                      nt_diagnosticsKey = clusterId @ CHR ''|'' # js_lower namespace,
                      nt_clusterId = clusterId, nt_namespace = namespace, nt_specLists = specLists,
                      nt_batch = batch, nt_startedAt = now\<rparr>,
           jset_add requestKey seen))"

fun prepareLoop ::
  "builtin_table \<Rightarrow> int \<Rightarrow> perm_store \<Rightarrow> spec_list list \<Rightarrow> bool \<Rightarrow> string list
   \<Rightarrow> (string \<times> string option) list \<Rightarrow> namespace_target list" where
  "prepareLoop builtins now s specLists force seen [] = []"
| "prepareLoop builtins now s specLists force seen (t # ts) =
     (case buildNamespaceQueryTarget builtins now s specLists force t seen of
        (None, seen') \<Rightarrow> prepareLoop builtins now s specLists force seen' ts
      | (Some q, seen') \<Rightarrow> q # prepareLoop builtins now s specLists force seen' ts)"

definition prepareNamespaceQueryTargets ::
  "builtin_table \<Rightarrow> int \<Rightarrow> perm_store \<Rightarrow> (string \<times> string option) list \<Rightarrow> spec_list list \<Rightarrow> bool
   \<Rightarrow> namespace_target list" where
  "prepareNamespaceQueryTargets builtins now s targets specLists force =
     prepareLoop builtins now s specLists force [] targets"

definition pendingOf :: "string \<Rightarrow> string option \<Rightarrow> batch_item \<Rightarrow> pending_item" where
  "pendingOf clusterId namespace item =
     \<lparr>pi_spec = toPermissionSpec item, pi_feature = bi_feature item, pi_clusterId = clusterId,
      pi_namespace = namespace\<rparr>"

definition beginNamespaceQuery :: "int \<Rightarrow> namespace_target \<Rightarrow> perm_store \<Rightarrow> perm_store" where
  "beginNamespaceQuery now t s =
     beginQueryDiagnostics now (nt_diagnosticsKey t) (nt_clusterId t) (Some (nt_namespace t)) ''ssrr''
       (List.map toPermissionSpec (nt_batch t)) (int (length (nt_batch t)))
       (registerPending (nt_requestKey t)
         (List.map (pendingOf (nt_clusterId t) (Some (nt_namespace t))) (nt_batch t)) s)"

definition queryNamespaceChunk :: "nat \<Rightarrow> namespace_target list \<Rightarrow> perm_store \<Rightarrow> perm_store" where
  "queryNamespaceChunk together chunk s =
     issueRequest (ChunkQuery together chunk)
       (List.map toQueryPayloadItem (concat (List.map nt_batch chunk))) s"

definition queryNamespacesPermissions ::
  "builtin_table \<Rightarrow> int \<Rightarrow> (string \<times> string option) list \<Rightarrow> bool \<Rightarrow> spec_list list \<Rightarrow> perm_store \<Rightarrow> perm_store"
where
  "queryNamespacesPermissions builtins now targets force specLists s =
     (if targets = [] \<or> specLists = [] then s
      else
        let queryTargets = prepareNamespaceQueryTargets builtins now s targets specLists force in
        if queryTargets = [] then s
        else
          let s1 = notifyPermissions builtins (fold (beginNamespaceQuery now) queryTargets s)
          in fold (queryNamespaceChunk (pm_nextRequest s1)) (splitNamespaceTargets queryTargets) s1)"

definition queryNamespacePermissions ::
  "builtin_table \<Rightarrow> int \<Rightarrow> string \<Rightarrow> string option \<Rightarrow> bool \<Rightarrow> perm_store \<Rightarrow> perm_store" where
  "queryNamespacePermissions builtins now namespace clusterId force s =
     queryNamespacesPermissions builtins now [(namespace, clusterId)] force ALL_NAMESPACE_PERMISSIONS s"

section \<open>Answers for namespaces\<close>

datatype perm_outcome = Answered perm_response | Failed string

definition completeTransientNamespaceQuery ::
  "int \<Rightarrow> namespace_target \<Rightarrow> query_result \<Rightarrow> perm_store \<Rightarrow> perm_store" where
  "completeTransientNamespaceQuery now t err s =
     completeQueryDiagnostics now (nt_diagnosticsKey t) False (Some (getPermissionResultErrorMessage err))
       (nt_startedAt t) None (Some (int (length (nt_batch t)))) s"

definition completeSuccessfulQuery ::
  "int \<Rightarrow> string \<Rightarrow> int \<Rightarrow> perm_response \<Rightarrow> int option \<Rightarrow> perm_store \<Rightarrow> perm_store" where
  "completeSuccessfulQuery now queryKey startTime response completedCheckCount s =
     completeQueryDiagnostics now queryKey True None startTime
       (find (\<lambda>d. rd_key d = queryKey) (rp_diagnostics response)) completedCheckCount s"

text \<open>The targets whose answer was only transient are collected by their request keys, which are
  distinct within a chunk.\<close>

definition targetResults :: "perm_response \<Rightarrow> namespace_target \<Rightarrow> query_result list" where
  "targetResults response t =
     (let resultsById = fold (\<lambda>r m. jm_set (qr_id r) r m) (rp_results response) []
      in List.map_filter (\<lambda>item. jm_get resultsById (bi_id item)) (nt_batch t))"

definition applyTargetResponse ::
  "int \<Rightarrow> perm_response \<Rightarrow> namespace_target \<Rightarrow> perm_store \<times> string list \<Rightarrow> perm_store \<times> string list" where
  "applyTargetResponse now response t st =
     (case st of (s, transient) \<Rightarrow>
        let results = targetResults response t in
        case find isTransientPermissionResultError results of
          Some err \<Rightarrow> (completeTransientNamespaceQuery now t err s, jset_add (nt_requestKey t) transient)
        | None \<Rightarrow>
            (completeSuccessfulQuery now (nt_diagnosticsKey t) (nt_startedAt t) response
               (Some (int (length (nt_batch t)))) (applyResults results (nt_batch t) s), transient))"

definition applyNamespaceQueryResponse ::
  "int \<Rightarrow> namespace_target list \<Rightarrow> perm_response \<Rightarrow> perm_store \<Rightarrow> perm_store \<times> string list" where
  "applyNamespaceQueryResponse now chunk response s =
     fold (applyTargetResponse now response) chunk (s, [])"

definition applyNamespaceQueryFailure ::
  "int \<Rightarrow> namespace_target list \<Rightarrow> string \<Rightarrow> perm_store \<Rightarrow> perm_store" where
  "applyNamespaceQueryFailure now chunk reason s =
     fold (\<lambda>t s.
         completeQueryDiagnostics now (nt_diagnosticsKey t) False (Some reason) (nt_startedAt t) None
           (Some (int (length (nt_batch t)))) (fold (recordQueryError reason) (nt_batch t) s)) chunk s"

definition finalizeNamespaceQuery :: "int \<Rightarrow> string list \<Rightarrow> namespace_target \<Rightarrow> perm_store \<Rightarrow> perm_store" where
  "finalizeNamespaceQuery now transient t s =
     (let s1 = recordNamespaceQueryMetadata t (settleKey (nt_requestKey t) s)
      in if nt_requestKey t \<in> set transient then s1 else recordQueryTimestamp now (nt_requestKey t) s1)"

definition togetherWith :: "nat \<Rightarrow> perm_request \<Rightarrow> bool" where
  "togetherWith together r = (case rq_query r of ChunkQuery g _ \<Rightarrow> g = together | _ \<Rightarrow> False)"

text \<open>The last chunk of its \<open>Promise.all\<close> notifies.\<close>

definition settleNamespaceChunk ::
  "builtin_table \<Rightarrow> int \<Rightarrow> nat \<Rightarrow> nat \<Rightarrow> namespace_target list \<Rightarrow> perm_outcome \<Rightarrow> perm_store \<Rightarrow> perm_store" where
  "settleNamespaceChunk builtins now generation together chunk outcome s =
     (if generation \<noteq> pm_generation s then s
      else
        let (s1, transient) = (case outcome of
               Answered response \<Rightarrow> applyNamespaceQueryResponse now chunk response s
             | Failed reason \<Rightarrow> (applyNamespaceQueryFailure now chunk reason s, []));
            s2 = fold (finalizeNamespaceQuery now transient) chunk s1
        in if list_ex (togetherWith together) (pm_requests s2) then s2 else notifyPermissions builtins s2)"

section \<open>Queries for a cluster and for a kind\<close>

definition clusterQueryKey :: "string \<Rightarrow> string" where
  "clusterQueryKey clusterId = clusterId @ ''|__cluster__''"

definition queryClusterPermissions :: "builtin_table \<Rightarrow> int \<Rightarrow> string \<Rightarrow> perm_store \<Rightarrow> perm_store" where
  "queryClusterPermissions builtins now clusterId s =
     (let queryKey = clusterQueryKey clusterId;
          batch = buildBatch builtins (pm_currentClusterId s) CLUSTER_PERMISSIONS None clusterId in
      if clusterId = '''' \<or> queryKey \<in> set (pm_inFlight s) \<or> batch = [] then s
      else
        issueRequest (ClusterQuery queryKey batch now) (List.map toQueryPayloadItem batch)
          (beginQueryDiagnostics now queryKey clusterId None ''ssar'' (List.map toPermissionSpec batch)
             (int (length batch))
             (notifyPermissions builtins
               (registerPending queryKey (List.map (pendingOf clusterId None) batch) s))))"

definition settleClusterQuery ::
  "builtin_table \<Rightarrow> int \<Rightarrow> nat \<Rightarrow> string \<Rightarrow> batch_item list \<Rightarrow> int \<Rightarrow> perm_outcome \<Rightarrow> perm_store \<Rightarrow> perm_store"
where
  "settleClusterQuery builtins now generation queryKey batch startTime outcome s =
     (if generation \<noteq> pm_generation s then s
      else
        let (s1, shouldRecordTimestamp) = (case outcome of
               Answered response \<Rightarrow>
                 (case find isTransientPermissionResultError (rp_results response) of
                    Some err \<Rightarrow>
                      (completeQueryDiagnostics now queryKey False (Some (getPermissionResultErrorMessage err))
                         startTime None None s, False)
                  | None \<Rightarrow>
                      (completeSuccessfulQuery now queryKey startTime response None
                         (applyResults (rp_results response) batch s), True))
             | Failed reason \<Rightarrow>
                 (completeQueryDiagnostics now queryKey False (Some reason) startTime None None
                    (fold (recordQueryError reason) batch s), True));
            s2 = settleKey queryKey s1
        in notifyPermissions builtins
             (if shouldRecordTimestamp then recordQueryTimestamp now queryKey s2 else s2))"

definition kindQueryKey :: "string \<Rightarrow> string option \<Rightarrow> group_version \<Rightarrow> string \<Rightarrow> string" where
  "kindQueryKey cid namespace gv kind =
     cid @ CHR ''|'' # (case namespace of None \<Rightarrow> '''' | Some ns \<Rightarrow> ns) @ ''|kind:''
       @ fst gv @ CHR ''/'' # snd gv @ CHR ''/'' # js_lower kind"

definition kindPayloadItem ::
  "builtin_table \<Rightarrow> string \<Rightarrow> string \<Rightarrow> string option \<Rightarrow> string \<Rightarrow> group_version \<Rightarrow> string \<Rightarrow> query_item" where
  "kindPayloadItem builtins current kind namespace cid gv verb =
     \<lparr>qi_id = getPermissionKey builtins current kind verb namespace None (Some cid) (Some (fst gv)) (Some (snd gv)),
      qi_clusterId = cid, qi_group = fst gv, qi_version = or_null (snd gv), qi_resourceKind = kind,
      qi_verb = verb, qi_namespace = (case namespace of None \<Rightarrow> '''' | Some ns \<Rightarrow> ns),
      qi_subresource = '''', qi_name = ''''\<rparr>"

definition kindPendingItem :: "string \<Rightarrow> string option \<Rightarrow> string \<Rightarrow> group_version \<Rightarrow> string \<Rightarrow> string \<Rightarrow> pending_item" where
  "kindPendingItem kind namespace cid gv feature verb =
     \<lparr>pi_spec = \<lparr>sp_kind = kind, sp_verb = verb, sp_subresource = None, sp_group = Some (fst gv),
        sp_version = or_null (snd gv)\<rparr>,
      pi_feature = feature, pi_clusterId = cid, pi_namespace = namespace\<rparr>"

definition queryKindPermissions ::
  "builtin_table \<Rightarrow> int \<Rightarrow> string \<Rightarrow> string option \<Rightarrow> string option \<Rightarrow> string option \<Rightarrow> string option
   \<Rightarrow> perm_store \<Rightarrow> perm_store" where
  "queryKindPermissions builtins now kind namespace clusterId grp version s =
     (let cid = or_current clusterId (pm_currentClusterId s) in
      if cid = '''' \<or> kind = '''' then s
      else
        let gv = resolvePermissionGVK builtins kind grp version;
            queryKey = kindQueryKey cid namespace gv kind in
        if queryKey \<in> set (pm_inFlight s) \<or> isRecentQuery now s queryKey then s
        else
          let feature = (if or_null (case namespace of None \<Rightarrow> '''' | Some ns \<Rightarrow> ns) \<noteq> None
                         then ''namespace.custom'' else ''cluster.custom'')
          in issueRequest (KindQuery queryKey feature)
               (List.map (kindPayloadItem builtins (pm_currentClusterId s) kind namespace cid gv) [''delete'', ''patch''])
               (notifyPermissions builtins
                 (registerPending queryKey
                   (List.map (kindPendingItem kind namespace cid gv feature) [''delete'', ''patch'']) s)))"

definition settleKindQuery ::
  "builtin_table \<Rightarrow> int \<Rightarrow> nat \<Rightarrow> string \<Rightarrow> string \<Rightarrow> perm_outcome \<Rightarrow> perm_store \<Rightarrow> perm_store" where
  "settleKindQuery builtins now generation queryKey feature outcome s =
     (if generation \<noteq> pm_generation s then s
      else
        let s1 = (case outcome of
               Answered response \<Rightarrow> fold (\<lambda>r. recordPermissionResult r (Some feature)) (rp_results response) s
             | Failed _ \<Rightarrow> s)
        in notifyPermissions builtins (recordQueryTimestamp now queryKey (settleKey queryKey s1)))"

text \<open>An answer arrives.\<close>

definition settlePermissionQuery ::
  "builtin_table \<Rightarrow> int \<Rightarrow> nat \<Rightarrow> perm_outcome \<Rightarrow> perm_store \<Rightarrow> perm_store" where
  "settlePermissionQuery builtins now requestId outcome s =
     (case find (\<lambda>r. rq_id r = requestId) (pm_requests s) of
        None \<Rightarrow> s
      | Some r \<Rightarrow>
          let s' = s\<lparr>pm_requests := filter (\<lambda>r. rq_id r \<noteq> requestId) (pm_requests s)\<rparr> in
          case rq_query r of
            ChunkQuery together chunk \<Rightarrow>
              settleNamespaceChunk builtins now (rq_generation r) together chunk outcome s'
          | ClusterQuery queryKey batch startTime \<Rightarrow>
              settleClusterQuery builtins now (rq_generation r) queryKey batch startTime outcome s'
          | KindQuery queryKey feature \<Rightarrow>
              settleKindQuery builtins now (rq_generation r) queryKey feature outcome s')"

section \<open>The periodic refresh\<close>

definition STAGGER_INTERVAL_MS :: int where
  "STAGGER_INTERVAL_MS = 500"

definition refreshInterest :: "builtin_table \<Rightarrow> int \<Rightarrow> query_interest \<Rightarrow> perm_store \<Rightarrow> perm_store" where
  "refreshInterest builtins now t s =
     queryNamespacesPermissions builtins now [(qn_namespace t, Some (qn_clusterId t))] True (qn_specLists t) s"

definition armNamespaceTimer :: "int \<Rightarrow> query_interest \<Rightarrow> perm_store \<Rightarrow> perm_store" where
  "armNamespaceTimer due t s =
     s\<lparr>pm_namespaceTimers := pm_namespaceTimers s @ [(pm_nextTimer s, due, t)],
       pm_nextTimer := pm_nextTimer s + 1\<rparr>"

definition scheduleNamespaceRefreshes ::
  "builtin_table \<Rightarrow> int \<Rightarrow> query_interest list \<Rightarrow> perm_store \<Rightarrow> perm_store" where
  "scheduleNamespaceRefreshes builtins now targets s =
     fold (\<lambda>(index, t) s.
         if index = 0 then refreshInterest builtins now t s
         else armNamespaceTimer (now + int index * STAGGER_INTERVAL_MS) t s)
       (enumerate 0 targets) s"

definition namespaceTimerFired :: "builtin_table \<Rightarrow> int \<Rightarrow> nat \<Rightarrow> perm_store \<Rightarrow> perm_store" where
  "namespaceTimerFired builtins now timer s =
     (case find (\<lambda>t. fst t = timer) (pm_namespaceTimers s) of
        None \<Rightarrow> s
      | Some (_, _, t) \<Rightarrow>
          refreshInterest builtins now t
            (s\<lparr>pm_namespaceTimers := filter (\<lambda>t. fst t \<noteq> timer) (pm_namespaceTimers s)\<rparr>))"

definition expiredQuery :: "int \<Rightarrow> perm_store \<Rightarrow> string \<times> int \<Rightarrow> bool" where
  "expiredQuery now s entry \<longleftrightarrow> \<not> now - snd entry < PERMISSION_REFRESH_INTERVAL_MS"

definition expiredNamespaces :: "int \<Rightarrow> perm_store \<Rightarrow> query_interest list" where
  "expiredNamespaces now s =
     List.map_filter (\<lambda>entry. if expiredQuery now s entry then jm_get (pm_metadata s) (fst entry) else None)
       (pm_timestamps s)"

definition clusterOfKey :: "string \<Rightarrow> string option" where
  "clusterOfKey queryKey =
     (let pipeIdx = index_of queryKey (CHR ''|'') in
      if pipeIdx < 0 then None
      else if drop (nat pipeIdx + 1) queryKey = ''__cluster__'' then Some (take (nat pipeIdx) queryKey)
      else None)"

definition expiredClusters :: "int \<Rightarrow> perm_store \<Rightarrow> string list" where
  "expiredClusters now s =
     List.map_filter (\<lambda>entry. if expiredQuery now s entry \<and> \<not> jm_has (pm_metadata s) (fst entry)
         then clusterOfKey (fst entry) else None) (pm_timestamps s)"

definition refreshExpiredQueries :: "builtin_table \<Rightarrow> int \<Rightarrow> perm_store \<Rightarrow> perm_store" where
  "refreshExpiredQueries builtins now s =
     scheduleNamespaceRefreshes builtins now (expiredNamespaces now s)
       (fold (queryClusterPermissions builtins now) (expiredClusters now s) s)"

definition startRefreshTimer :: "perm_store \<Rightarrow> perm_store" where
  "startRefreshTimer s = s\<lparr>pm_refreshTimer := True\<rparr>"

definition stopRefreshTimer :: "perm_store \<Rightarrow> perm_store" where
  "stopRefreshTimer s = s\<lparr>pm_refreshTimer := False\<rparr>"

section \<open>Life cycle\<close>

definition resetPermissionStore :: "builtin_table \<Rightarrow> perm_store \<Rightarrow> perm_store" where
  "resetPermissionStore builtins s =
     notifyPermissions builtins (stopRefreshTimer
       (s\<lparr>pm_generation := pm_generation s + 1, pm_namespaceTimers := [], pm_notifyScheduled := False,
          pm_diagnosticsNotifyScheduled := False, pm_results := [], pm_pending := [], pm_inFlight := [],
          pm_timestamps := [], pm_metadata := [], pm_diagnostics := [], pm_diagnosticsDirty := True,
          pm_map := []\<rparr>))"

definition initializePermissionStore :: "builtin_table \<Rightarrow> int \<Rightarrow> string \<Rightarrow> perm_store \<Rightarrow> perm_store" where
  "initializePermissionStore builtins now clusterId s =
     (startRefreshTimer (queryClusterPermissions builtins now clusterId (s\<lparr>pm_currentClusterId := clusterId\<rparr>)))
       \<lparr>pm_subscribed := True\<rparr>"

definition setActivePermissionCluster ::
  "builtin_table \<Rightarrow> int \<Rightarrow> string option \<Rightarrow> bool \<Rightarrow> perm_store \<Rightarrow> perm_store" where
  "setActivePermissionCluster builtins now clusterId operational s =
     (let cid = trimmed_or_empty clusterId; s' = s\<lparr>pm_currentClusterId := cid\<rparr> in
      if cid = '''' then resetPermissionStore builtins s'
      else if \<not> operational then s'
      else initializePermissionStore builtins now cid s')"

text \<open>The events of the bus, once the store has subscribed to them\<close>

definition onKubeconfigChanging :: "builtin_table \<Rightarrow> perm_store \<Rightarrow> perm_store" where
  "onKubeconfigChanging builtins s = (if pm_subscribed s then resetPermissionStore builtins s else s)"

definition onKubeconfigChanged :: "builtin_table \<Rightarrow> int \<Rightarrow> perm_store \<Rightarrow> perm_store" where
  "onKubeconfigChanged builtins now s =
     (if pm_subscribed s \<and> pm_currentClusterId s \<noteq> ''''
      then queryClusterPermissions builtins now (pm_currentClusterId s) s else s)"

definition isClusterOperationalState :: "string \<Rightarrow> bool" where
  "isClusterOperationalState state \<longleftrightarrow> state = ''degraded'' \<or> state = ''ready''"

definition onClusterLifecycle :: "builtin_table \<Rightarrow> int \<Rightarrow> string \<Rightarrow> string \<Rightarrow> perm_store \<Rightarrow> perm_store" where
  "onClusterLifecycle builtins now clusterId state s =
     (if \<not> pm_subscribed s \<or> \<not> isClusterOperationalState state then s
      else
        fold (\<lambda>t. if qn_clusterId t \<noteq> clusterId then id else refreshInterest builtins now t)
          (List.map snd (pm_metadata s))
          (if clusterId = pm_currentClusterId s
           then queryClusterPermissions builtins now (pm_currentClusterId s) s else s))"

section \<open>Runs\<close>

datatype perm_event =
    PeQueryNamespaces "(string \<times> string option) list" bool "spec_list list"
  | PeQueryCluster string
  | PeQueryKind string "string option" "string option" "string option" "string option"
  | PeSetActive "string option" bool
  | PeSettle nat perm_outcome
  | PeRefreshTick
  | PeTimerFired nat
  | PeKubeconfigChanging
  | PeKubeconfigChanged
  | PeLifecycle string string
  | PeFlush
  | PeFlushDiagnostics
  | PeSnapshot
  | PeSubscribe nat
  | PeUnsubscribe nat
  | PeSubscribeDiagnostics nat
  | PeUnsubscribeDiagnostics nat

text \<open>A step is an event and the time at which it happens. The interval timer only ticks while it
  runs. \<open>kubeconfig:selection-changed\<close> has the handler of \<open>kubeconfig:changed\<close>.\<close>

fun permStep :: "builtin_table \<Rightarrow> perm_store \<Rightarrow> int \<times> perm_event \<Rightarrow> perm_store" where
  "permStep b s (now, PeQueryNamespaces targets force specLists) = queryNamespacesPermissions b now targets force specLists s"
| "permStep b s (now, PeQueryCluster clusterId) = queryClusterPermissions b now clusterId s"
| "permStep b s (now, PeQueryKind kind ns cid grp version) = queryKindPermissions b now kind ns cid grp version s"
| "permStep b s (now, PeSetActive cid operational) = setActivePermissionCluster b now cid operational s"
| "permStep b s (now, PeSettle i outcome) = settlePermissionQuery b now i outcome s"
| "permStep b s (now, PeRefreshTick) = (if pm_refreshTimer s then refreshExpiredQueries b now s else s)"
| "permStep b s (now, PeTimerFired timer) = namespaceTimerFired b now timer s"
| "permStep b s (now, PeKubeconfigChanging) = onKubeconfigChanging b s"
| "permStep b s (now, PeKubeconfigChanged) = onKubeconfigChanged b now s"
| "permStep b s (now, PeLifecycle clusterId state) = onClusterLifecycle b now clusterId state s"
| "permStep b s (now, PeFlush) = fst (flushPermissionListeners s)"
| "permStep b s (now, PeFlushDiagnostics) = fst (flushDiagnosticsListeners s)"
| "permStep b s (now, PeSnapshot) = fst (getPermissionQueryDiagnosticsSnapshot s)"
| "permStep b s (now, PeSubscribe l) = subscribeUserPermissions l s"
| "permStep b s (now, PeUnsubscribe l) = unsubscribeUserPermissions l s"
| "permStep b s (now, PeSubscribeDiagnostics l) = subscribeDiagnostics l s"
| "permStep b s (now, PeUnsubscribeDiagnostics l) = unsubscribeDiagnostics l s"

definition permRun :: "builtin_table \<Rightarrow> (int \<times> perm_event) list \<Rightarrow> perm_store" where
  "permRun b es = foldl (permStep b) initialPermissionStore es"

end
