(* ===== verification/PermissionInv.thy ===== *)
theory PermissionInv
  imports PermissionStore
begin

text \<open>
  The invariant of the permission store: the requests of the current generation account exactly for
  the keys in flight, for the pending specs and for the counts of the diagnostics, and the
  published map is up to date unless an answer for several chunks is still incomplete.
\<close>

section \<open>What is under way\<close>

definition live :: "perm_store \<Rightarrow> perm_request list" where
  "live s = filter (\<lambda>r. rq_generation r = pm_generation s) (pm_requests s)"

definition query_keys :: "perm_query \<Rightarrow> string list" where
  "query_keys q = (case q of
     ChunkQuery _ ts \<Rightarrow> List.map nt_requestKey ts | ClusterQuery k _ _ \<Rightarrow> [k] | KindQuery k _ \<Rightarrow> [k])"

definition target_load :: "namespace_target \<Rightarrow> string \<times> int" where
  "target_load t = (nt_diagnosticsKey t, int (length (nt_batch t)))"

definition query_loads :: "perm_query \<Rightarrow> (string \<times> int) list" where
  "query_loads q = (case q of
     ChunkQuery _ ts \<Rightarrow> List.map target_load ts
   | ClusterQuery k batch _ \<Rightarrow> [(k, int (length batch))]
   | KindQuery _ _ \<Rightarrow> [])"

definition live_keys :: "perm_store \<Rightarrow> string list" where
  "live_keys s = concat (List.map (\<lambda>r. query_keys (rq_query r)) (live s))"

definition live_loads :: "perm_store \<Rightarrow> (string \<times> int) list" where
  "live_loads s = concat (List.map (\<lambda>r. query_loads (rq_query r)) (live s))"

definition load_of :: "string \<Rightarrow> (string \<times> int) list \<Rightarrow> int" where
  "load_of k ls = sum_list (List.map (\<lambda>(k', n). if k' = k then n else 0) ls)"

definition is_chunk :: "perm_request \<Rightarrow> bool" where
  "is_chunk r \<longleftrightarrow> (\<exists>g ts. rq_query r = ChunkQuery g ts)"

text \<open>The counts of a diagnostics entry and the load that is under way for its key\<close>

definition diag_fits :: "query_diagnostics \<Rightarrow> int \<Rightarrow> bool" where
  "diag_fits d load \<longleftrightarrow>
     qd_pendingCount d = qd_inFlightCount d \<and> 0 \<le> qd_inFlightCount d \<and> qd_inFlightCount d \<le> load
     \<and> (qd_inFlightStartedAt d = None \<longleftrightarrow> qd_inFlightCount d = 0)"

text \<open>The parts of the invariant, with keys and loads that belong to no request at the moment\<close>

definition keys_ok :: "string list \<Rightarrow> perm_store \<Rightarrow> bool" where
  "keys_ok ks s \<longleftrightarrow>
     distinct (ks @ live_keys s) \<and> set (ks @ live_keys s) = set (pm_inFlight s)
     \<and> set (jm_keys (pm_pending s)) = set (pm_inFlight s) \<and> jm_ok (pm_pending s)
     \<and> list_all (\<lambda>(k, items). list_all (\<lambda>i. pi_clusterId i \<noteq> '''') items) (pm_pending s)"

definition loads_ok :: "(string \<times> int) list \<Rightarrow> perm_store \<Rightarrow> bool" where
  "loads_ok ls s \<longleftrightarrow>
     (\<forall>(k, n) \<in> set ls. 0 \<le> n)
     \<and> (\<forall>k d. jm_get (pm_diagnostics s) k = Some d \<longrightarrow> diag_fits d (load_of k (ls @ live_loads s)))"

definition target_ok :: "namespace_target \<Rightarrow> bool" where
  "target_ok t \<longleftrightarrow>
     nt_requestKey t = buildNamespaceRequestKey (nt_clusterId t) (nt_namespace t) (nt_specLists t)
     \<and> nt_clusterId t \<noteq> '''' \<and> trimmed (nt_clusterId t) \<and> nt_namespace t \<noteq> '''' \<and> trimmed (nt_namespace t)
     \<and> concat (List.map sl_specs (nt_specLists t)) \<noteq> [] \<and> nt_batch t \<noteq> []"

definition perm_request_ok :: "perm_store \<Rightarrow> perm_request \<Rightarrow> bool" where
  "perm_request_ok s r \<longleftrightarrow>
     rq_id r < pm_nextRequest s \<and> rq_generation r \<le> pm_generation s
     \<and> (\<forall>g ts. rq_query r = ChunkQuery g ts \<longrightarrow> g \<le> rq_id r \<and> list_all target_ok ts)
     \<and> (\<forall>k batch t. rq_query r = ClusterQuery k batch t \<longrightarrow> batch \<noteq> [])"

definition perm_requests_ok :: "perm_store \<Rightarrow> bool" where
  "perm_requests_ok s \<longleftrightarrow>
     distinct (List.map rq_id (pm_requests s)) \<and> (\<forall>r \<in> set (pm_requests s). perm_request_ok s r)
     \<and> (\<forall>r \<in> set (pm_requests s). \<forall>r' \<in> set (pm_requests s). \<forall>g ts ts'.
          rq_query r = ChunkQuery g ts \<longrightarrow> rq_query r' = ChunkQuery g ts' \<longrightarrow> rq_generation r = rq_generation r')"

definition interest_ok :: "string \<times> query_interest \<Rightarrow> bool" where
  "interest_ok e \<longleftrightarrow> (case e of (k, t) \<Rightarrow>
     k = buildNamespaceRequestKey (qn_clusterId t) (qn_namespace t) (qn_specLists t)
     \<and> qn_clusterId t \<noteq> '''' \<and> trimmed (qn_clusterId t) \<and> qn_namespace t \<noteq> '''' \<and> trimmed (qn_namespace t)
     \<and> concat (List.map sl_specs (qn_specLists t)) \<noteq> [])"

definition published_ok :: "builtin_table \<Rightarrow> perm_store \<Rightarrow> bool" where
  "published_ok b s \<longleftrightarrow> pm_map s = rebuiltMap b s \<or> (\<exists>r \<in> set (live s). is_chunk r)"

definition perm_inv :: "builtin_table \<Rightarrow> perm_store \<Rightarrow> bool" where
  "perm_inv b s \<longleftrightarrow>
     keys_ok [] s \<and> loads_ok [] s \<and> perm_requests_ok s \<and> list_all interest_ok (pm_metadata s) \<and> published_ok b s"

section \<open>What the operations leave alone\<close>

lemma record_fields [simp]:
  "pm_requests (recordPermissionResult r f s) = pm_requests s" "pm_generation (recordPermissionResult r f s) = pm_generation s"
  "pm_inFlight (recordPermissionResult r f s) = pm_inFlight s" "pm_pending (recordPermissionResult r f s) = pm_pending s"
  "pm_nextRequest (recordPermissionResult r f s) = pm_nextRequest s" "pm_diagnostics (recordPermissionResult r f s) = pm_diagnostics s"
  "pm_metadata (recordPermissionResult r f s) = pm_metadata s" "pm_timestamps (recordPermissionResult r f s) = pm_timestamps s"
  by (simp_all add: recordPermissionResult_def)

definition same_core :: "perm_store \<Rightarrow> perm_store \<Rightarrow> bool" where
  "same_core s s' \<longleftrightarrow>
     pm_requests s' = pm_requests s \<and> pm_generation s' = pm_generation s \<and> pm_inFlight s' = pm_inFlight s
     \<and> pm_pending s' = pm_pending s \<and> pm_nextRequest s' = pm_nextRequest s \<and> pm_metadata s' = pm_metadata s
     \<and> pm_currentClusterId s' = pm_currentClusterId s"

lemma same_core_refl [simp]: "same_core s s"
  by (simp add: same_core_def)

lemma same_core_trans: "same_core s t \<Longrightarrow> same_core t u \<Longrightarrow> same_core s u"
  by (simp add: same_core_def)

lemma same_core_fold: "(\<And>x s. same_core s (f x s)) \<Longrightarrow> same_core s (fold f xs s)"
  by (induction xs arbitrary: s) (auto intro: same_core_trans)

lemma core_simps [simp]:
  "same_core s (recordPermissionResult r f s)" "same_core s (recordQueryError reason i s)"
  "same_core s (notifyDiagnostics s)" "same_core s (notifyPermissions b s)" "same_core s (recordQueryTimestamp now k s)"
  "same_core s (beginQueryDiagnostics now k c ns m specs n s)"
  "same_core s (completeQueryDiagnostics now k ok e st rep cc s)"
  by (simp_all add: same_core_def recordPermissionResult_def recordQueryError_def notifyDiagnostics_def
    notifyPermissions_def schedulePermissionNotify_def rebuildPermissionMap_def recordQueryTimestamp_def
    beginQueryDiagnostics_def completeQueryDiagnostics_def Let_def split: option.split)

lemma core_more [simp]:
  "same_core s (applyResults rs batch s)" "same_core s (fold (recordQueryError reason) batch s)"
  "same_core s (completeTransientNamespaceQuery now t err s)"
  "same_core s (completeSuccessfulQuery now k st response cc s)"
  by (simp_all add: applyResults_def Let_def same_core_fold completeTransientNamespaceQuery_def completeSuccessfulQuery_def)

lemma live_same: "same_core s s' \<Longrightarrow> live s' = live s"
  by (simp add: same_core_def live_def)

lemma keys_same: "same_core s s' \<Longrightarrow> keys_ok ks s' = keys_ok ks s"
  by (simp add: keys_ok_def live_keys_def live_same) (simp add: same_core_def)

lemma requests_same: "same_core s s' \<Longrightarrow> perm_requests_ok s' = perm_requests_ok s"
  by (simp add: perm_requests_ok_def perm_request_ok_def same_core_def)

lemma loads_same: "same_core s s' \<Longrightarrow> pm_diagnostics s' = pm_diagnostics s \<Longrightarrow> loads_ok ls s' = loads_ok ls s"
  by (simp add: loads_ok_def live_loads_def live_same)

lemma rebuilt_same:
  "pm_pending s' = pm_pending s \<Longrightarrow> pm_results s' = pm_results s \<Longrightarrow> pm_currentClusterId s' = pm_currentClusterId s \<Longrightarrow>
   rebuiltMap b s' = rebuiltMap b s"
  by (simp add: rebuiltMap_def)

lemma notify_published [simp]: "published_ok b (notifyPermissions b s)"
  by (simp add: published_ok_def notifyPermissions_def schedulePermissionNotify_def rebuildPermissionMap_def rebuiltMap_def)

lemma notify_diagnostics [simp]: "pm_diagnostics (notifyPermissions b s) = pm_diagnostics s"
  by (simp add: notifyPermissions_def schedulePermissionNotify_def rebuildPermissionMap_def)

lemma load_append [simp]: "load_of k (xs @ ys) = load_of k xs + load_of k ys"
  by (simp add: load_of_def)

lemma load_simps [simp]: "load_of k [] = 0" "load_of k ((k', n) # ls) = (if k' = k then n else 0) + load_of k ls"
  by (simp_all add: load_of_def)

section \<open>Loads\<close>

lemma load_nonneg: "(\<forall>(k, n) \<in> set ls. 0 \<le> n) \<Longrightarrow> 0 \<le> load_of k ls"
  by (induction ls) auto

lemma query_loads_nonneg: "(k, n) \<in> set (query_loads q) \<Longrightarrow> 0 \<le> n"
  by (cases q) (auto simp: query_loads_def target_load_def)

lemma live_loads_nonneg: "(k, n) \<in> set (live_loads s) \<Longrightarrow> 0 \<le> n"
  by (auto simp: live_loads_def dest: query_loads_nonneg)

lemma same_live_loads: "same_core s s' \<Longrightarrow> live_loads s' = live_loads s"
  by (simp add: live_loads_def live_same)

lemma load_rest: "loads_ok ls s \<Longrightarrow> 0 \<le> load_of k (ls @ live_loads s)"
  by (rule load_nonneg) (auto simp: loads_ok_def dest: live_loads_nonneg)

lemma begin_loads:
  assumes "loads_ok ls s" and "0 < n"
  shows "loads_ok ((k, n) # ls) (beginQueryDiagnostics now k c ns m specs n s)"
proof -
  let ?s = "beginQueryDiagnostics now k c ns m specs n s"
  have l: "live_loads ?s = live_loads s" by (rule same_live_loads) simp
  have fits: "diag_fits d (load_of k' (ls @ live_loads s))" if "jm_get (pm_diagnostics s) k' = Some d" for k' d
    using assms(1) that by (simp add: loads_ok_def)
  have "diag_fits d (load_of k' (((k, n) # ls) @ live_loads s))" if d: "jm_get (pm_diagnostics ?s) k' = Some d" for k' d
  proof (cases "k' = k")
    case False
    with d have "jm_get (pm_diagnostics s) k' = Some d"
      by (simp add: beginQueryDiagnostics_def notifyDiagnostics_def Let_def)
    with fits [OF this] False show ?thesis by simp
  next
    case True
    define diag where "diag = (case jm_get (pm_diagnostics s) k of
        Some d \<Rightarrow> d | None \<Rightarrow> newDiagnostics k c ns m)"
    have "diag_fits diag (load_of k (ls @ live_loads s))"
      using fits [of k] load_rest [OF assms(1), of k]
      by (cases "jm_get (pm_diagnostics s) k") (simp_all add: diag_def diag_fits_def newDiagnostics_def)
    then show ?thesis
      using d True assms(2)
      by (cases "qd_inFlightStartedAt diag")
        (auto simp: beginQueryDiagnostics_def notifyDiagnostics_def Let_def diag_fits_def diag_def [symmetric])
  qed
  then show ?thesis using assms by (simp add: loads_ok_def l)
qed

lemma complete_loads:
  assumes "loads_ok ((k, n) # ls) s" and "cc = None \<or> cc = Some n"
  shows "loads_ok ls (completeQueryDiagnostics now k ok e st rep cc s)"
proof -
  let ?s = "completeQueryDiagnostics now k ok e st rep cc s"
  have l: "live_loads ?s = live_loads s" by (rule same_live_loads) simp
  have ls: "loads_ok ls (s\<lparr>pm_diagnostics := []\<rparr>)" using assms(1) by (simp add: loads_ok_def)
  have rest: "0 \<le> load_of k' (ls @ live_loads s)" for k'
    using load_rest [OF ls, of k'] by (simp add: live_loads_def live_def)
  have fits: "diag_fits d (load_of k' (((k, n) # ls) @ live_loads s))" if "jm_get (pm_diagnostics s) k' = Some d" for k' d
    using assms(1) that by (simp add: loads_ok_def)
  have "diag_fits d (load_of k' (ls @ live_loads s))" if d: "jm_get (pm_diagnostics ?s) k' = Some d" for k' d
  proof (cases "jm_get (pm_diagnostics s) k")
    case None
    then have "jm_get (pm_diagnostics s) k' = Some d" "k' \<noteq> k" using d by (auto simp: completeQueryDiagnostics_def)
    with fits [OF this(1)] show ?thesis by simp
  next
    case (Some diag)
    show ?thesis
    proof (cases "k' = k")
      case True
      define c where "c = (case cc of None \<Rightarrow> qd_inFlightCount diag | Some c \<Rightarrow> c)"
      have c: "c = qd_inFlightCount diag \<or> c = n" using assms(2) by (auto simp: c_def)
      have "jm_get (pm_diagnostics ?s) k = Some d" using d True by simp
      then have "qd_inFlightCount d = max (qd_inFlightCount diag - c) 0"
        "qd_pendingCount d = max (qd_pendingCount diag - c) 0"
        "qd_inFlightStartedAt d = (if qd_inFlightCount d = 0 then None else qd_inFlightStartedAt diag)"
        by (auto simp: completeQueryDiagnostics_def notifyDiagnostics_def Let_def Some c_def)
      moreover have "0 \<le> n" using assms(1) by (simp add: loads_ok_def)
      ultimately show ?thesis
        using fits [OF Some] rest [of k] True c unfolding diag_fits_def by (auto simp: max_def)
    next
      case False
      with d Some have "jm_get (pm_diagnostics s) k' = Some d"
        by (simp add: completeQueryDiagnostics_def notifyDiagnostics_def Let_def)
      with fits [OF this] False show ?thesis by simp
    qed
  qed
  then show ?thesis using assms(1) by (simp add: loads_ok_def l)
qed

section \<open>Keys\<close>

lemma live_register [simp]: "live (registerPending k items s) = live s" "live (settleKey k s) = live s"
  by (simp_all add: live_def registerPending_def settleKey_def)

lemma register_keys:
  assumes "keys_ok ks s" and "k \<notin> set (pm_inFlight s)" and "list_all (\<lambda>i. pi_clusterId i \<noteq> '''') items"
  shows "keys_ok (k # ks) (registerPending k items s)"
proof -
  have l: "live_keys (registerPending k items s) = live_keys s" by (simp add: live_keys_def)
  have "k \<notin> set (ks @ live_keys s)" using assms(1,2) by (simp only: keys_ok_def) blast
  moreover have "list_all (\<lambda>(k, items). list_all (\<lambda>i. pi_clusterId i \<noteq> '''') items) (jm_set k items (pm_pending s))"
    by (rule jm_all_set) (use assms(1,3) in \<open>simp_all add: keys_ok_def\<close>)
  moreover have "set (jm_keys (jm_set k items (pm_pending s))) = insert k (set (pm_inFlight s))"
    unfolding jm_keys_set using assms(1) by (simp add: keys_ok_def)
  ultimately show ?thesis
    using assms(1) unfolding keys_ok_def l by (auto simp: registerPending_def)
qed

lemma keys_delete: "set (jm_keys (jm_delete k m)) = set (jm_keys m) - {k}"
  by (induction m) auto

lemma settle_keys:
  assumes "keys_ok (k # ks) s"
  shows "keys_ok ks (settleKey k s)"
proof -
  have l: "live_keys (settleKey k s) = live_keys s" by (simp add: live_keys_def)
  have d: "list_all (\<lambda>(k, items). list_all (\<lambda>i. pi_clusterId i \<noteq> '''') items) (jm_delete k (pm_pending s))"
    by (rule jm_all_delete) (use assms in \<open>simp add: keys_ok_def\<close>)
  have p: "set (jm_keys (jm_delete k (pm_pending s))) = set (pm_inFlight s) - {k}"
    unfolding keys_delete using assms by (simp add: keys_ok_def)
  have "k \<notin> set (ks @ live_keys s)" "set (ks @ live_keys s) = set (pm_inFlight s) - {k}"
    using assms by (auto simp: keys_ok_def)
  with assms d p show ?thesis
    unfolding keys_ok_def l by (auto simp: settleKey_def)
qed

section \<open>Requests\<close>

lemma live_issue: "live (issueRequest q payload s) =
    live s @ [\<lparr>rq_id = pm_nextRequest s, rq_generation = pm_generation s, rq_query = q, rq_payload = payload\<rparr>]"
  by (simp add: live_def issueRequest_def)

lemma keys_moved:
  assumes "keys_ok ks s" and "mset (ks @ live_keys s) = mset (ks' @ live_keys s')"
    and "pm_inFlight s' = pm_inFlight s" and "pm_pending s' = pm_pending s"
  shows "keys_ok ks' s'"
proof -
  have "distinct (ks' @ live_keys s') = distinct (ks @ live_keys s)" "set (ks' @ live_keys s') = set (ks @ live_keys s)"
    using assms(2) by (metis mset_eq_imp_distinct_iff, metis mset_eq_setD)
  then show ?thesis using assms(1) unfolding keys_ok_def assms(3,4) by simp
qed

lemma issue_keys:
  assumes "keys_ok (query_keys q @ ks) s"
  shows "keys_ok ks (issueRequest q payload s)"
proof -
  have "live_keys (issueRequest q payload s) = live_keys s @ query_keys q"
    by (simp add: live_keys_def live_issue)
  moreover have "pm_inFlight (issueRequest q payload s) = pm_inFlight s" "pm_pending (issueRequest q payload s) = pm_pending s"
    by (simp_all add: issueRequest_def)
  ultimately show ?thesis using keys_moved [OF assms, of ks "issueRequest q payload s"] by simp
qed

lemma issue_loads:
  assumes "loads_ok (query_loads q @ ls) s"
  shows "loads_ok ls (issueRequest q payload s)"
proof -
  have "live_loads (issueRequest q payload s) = live_loads s @ query_loads q"
    by (simp add: live_loads_def live_issue)
  moreover have "pm_diagnostics (issueRequest q payload s) = pm_diagnostics s" by (simp add: issueRequest_def)
  ultimately show ?thesis using assms by (simp add: loads_ok_def algebra_simps ball_Un)
qed

definition without :: "nat \<Rightarrow> perm_store \<Rightarrow> perm_store" where
  "without i s = s\<lparr>pm_requests := filter (\<lambda>r. rq_id r \<noteq> i) (pm_requests s)\<rparr>"

lemma without_fields [simp]:
  "pm_inFlight (without i s) = pm_inFlight s" "pm_pending (without i s) = pm_pending s"
  "pm_diagnostics (without i s) = pm_diagnostics s" "pm_generation (without i s) = pm_generation s"
  "pm_nextRequest (without i s) = pm_nextRequest s" "pm_metadata (without i s) = pm_metadata s"
  "pm_requests (without i s) = filter (\<lambda>r. rq_id r \<noteq> i) (pm_requests s)"
  by (simp_all add: without_def)

lemma live_without: "live (without i s) = filter (\<lambda>r. rq_id r \<noteq> i) (live s)"
  by (simp add: live_def conj_commute)

lemma without_split:
  assumes "perm_requests_ok s" and "r \<in> set (live s)"
  shows "\<exists>xs ys. live s = xs @ r # ys \<and> live (without (rq_id r) s) = xs @ ys"
proof -
  from split_list [OF assms(2)] obtain xs ys where l: "live s = xs @ r # ys" by blast
  have "distinct (List.map rq_id (live s))"
    using assms(1) by (simp add: perm_requests_ok_def live_def distinct_map_filter)
  then have "rq_id r \<notin> rq_id ` set xs \<union> rq_id ` set ys" by (simp add: l)
  then have "filter (\<lambda>q. rq_id q \<noteq> rq_id r) xs = xs" "filter (\<lambda>q. rq_id q \<noteq> rq_id r) ys = ys"
    by (auto simp: filter_id_conv image_iff)
  with l show ?thesis by (intro exI [of _ xs] exI [of _ ys]) (simp add: live_without)
qed

lemma without_keys:
  assumes "perm_requests_ok s" and "r \<in> set (live s)" and "keys_ok ks s"
  shows "keys_ok (query_keys (rq_query r) @ ks) (without (rq_id r) s)"
proof -
  obtain xs ys where l: "live s = xs @ r # ys" "live (without (rq_id r) s) = xs @ ys"
    using without_split [OF assms(1,2)] by blast
  show ?thesis by (rule keys_moved [OF assms(3)]) (simp_all add: live_keys_def l)
qed

lemma without_loads:
  assumes "perm_requests_ok s" and "r \<in> set (live s)" and "loads_ok ls s"
  shows "loads_ok (query_loads (rq_query r) @ ls) (without (rq_id r) s)"
proof -
  obtain xs ys where l: "live s = xs @ r # ys" "live (without (rq_id r) s) = xs @ ys"
    using without_split [OF assms(1,2)] by blast
  have "\<forall>(k, n) \<in> set (query_loads (rq_query r)). 0 \<le> n" using query_loads_nonneg by blast
  then show ?thesis
    using assms(3) unfolding loads_ok_def live_loads_def l by (simp add: algebra_simps ball_Un)
qed

definition together_ok :: "perm_request list \<Rightarrow> bool" where
  "together_ok rs \<longleftrightarrow> (\<forall>r \<in> set rs. \<forall>r' \<in> set rs. \<forall>g ts ts'.
     rq_query r = ChunkQuery g ts \<longrightarrow> rq_query r' = ChunkQuery g ts' \<longrightarrow> rq_generation r = rq_generation r')"

lemma together_okD:
  "together_ok rs \<Longrightarrow> r \<in> set rs \<Longrightarrow> r' \<in> set rs \<Longrightarrow> rq_query r = ChunkQuery g ts \<Longrightarrow>
   rq_query r' = ChunkQuery g ts' \<Longrightarrow> rq_generation r = rq_generation r'"
  unfolding together_ok_def by blast

lemma together_subset: "together_ok rs \<Longrightarrow> set rs' \<subseteq> set rs \<Longrightarrow> together_ok rs'"
  unfolding together_ok_def by blast

lemma together_append:
  assumes "together_ok rs"
    and "\<And>r g ts ts'. r \<in> set rs \<Longrightarrow> rq_query x = ChunkQuery g ts \<Longrightarrow> rq_query r = ChunkQuery g ts' \<Longrightarrow>
      rq_generation r = rq_generation x"
  shows "together_ok (rs @ [x])"
  unfolding together_ok_def
proof (intro ballI allI impI)
  fix r r' g ts ts'
  assume r: "r \<in> set (rs @ [x])" "r' \<in> set (rs @ [x])"
    and q: "rq_query r = ChunkQuery g ts" "rq_query r' = ChunkQuery g ts'"
  show "rq_generation r = rq_generation r'"
  proof (cases "r = x")
    case True
    show ?thesis
    proof (cases "r' = x")
      case False
      with r have "r' \<in> set rs" by simp
      from assms(2) [OF this q(1) [unfolded True] q(2)] True show ?thesis by simp
    qed (simp add: True)
  next
    case False
    with r have old: "r \<in> set rs" by simp
    show ?thesis
    proof (cases "r' = x")
      case True
      from assms(2) [OF old q(2) [unfolded True] q(1)] True show ?thesis by simp
    next
      case False
      with r have "r' \<in> set rs" by simp
      with assms(1) old q show ?thesis unfolding together_ok_def by blast
    qed
  qed
qed

lemma perm_requests_iff: "perm_requests_ok s \<longleftrightarrow>
    distinct (List.map rq_id (pm_requests s)) \<and> list_all (perm_request_ok s) (pm_requests s) \<and> together_ok (pm_requests s)"
  by (simp add: perm_requests_ok_def together_ok_def list_all_iff)

lemma request_ok_cong:
  "pm_nextRequest s \<le> pm_nextRequest s' \<Longrightarrow> pm_generation s \<le> pm_generation s' \<Longrightarrow> perm_request_ok s r \<Longrightarrow> perm_request_ok s' r"
  by (simp add: perm_request_ok_def)

lemma without_requests: "perm_requests_ok s \<Longrightarrow> perm_requests_ok (without i s)"
proof -
  assume s: "perm_requests_ok s"
  have "list_all (perm_request_ok (without i s)) (pm_requests (without i s))"
    using s by (auto simp: perm_requests_iff list_all_iff intro: request_ok_cong)
  moreover have "together_ok (pm_requests (without i s))"
    by (rule together_subset [of "pm_requests s"]) (use s in \<open>auto simp: perm_requests_iff\<close>)
  ultimately show ?thesis using s by (simp add: perm_requests_iff distinct_map_filter)
qed

lemma issue_requests:
  assumes "perm_requests_ok s"
    and "\<And>g ts. q = ChunkQuery g ts \<Longrightarrow> g \<le> pm_nextRequest s \<and> list_all target_ok ts"
    and "\<And>k batch t. q = ClusterQuery k batch t \<Longrightarrow> batch \<noteq> []"
    and "\<And>r g ts ts'. r \<in> set (pm_requests s) \<Longrightarrow> q = ChunkQuery g ts \<Longrightarrow> rq_query r = ChunkQuery g ts' \<Longrightarrow>
      rq_generation r = pm_generation s"
  shows "perm_requests_ok (issueRequest q payload s)"
proof -
  let ?s = "issueRequest q payload s"
  let ?r = "\<lparr>rq_id = pm_nextRequest s, rq_generation = pm_generation s, rq_query = q, rq_payload = payload\<rparr>"
  have f: "pm_requests ?s = pm_requests s @ [?r]" "pm_nextRequest ?s = pm_nextRequest s + 1" "pm_generation ?s = pm_generation s"
    by (simp_all add: issueRequest_def)
  have "perm_request_ok ?s ?r" using assms(2,3) by (simp add: perm_request_ok_def f)
  moreover have "perm_request_ok ?s r" if "r \<in> set (pm_requests s)" for r
    by (rule request_ok_cong [of s]) (use assms(1) that in \<open>simp_all add: f perm_requests_iff list_all_iff\<close>)
  ultimately have "list_all (perm_request_ok ?s) (pm_requests ?s)" by (simp add: f list_all_iff)
  moreover have "pm_nextRequest s \<notin> rq_id ` set (pm_requests s)"
    using assms(1) by (fastforce simp: perm_requests_iff list_all_iff perm_request_ok_def)
  then have "distinct (List.map rq_id (pm_requests ?s))"
    using assms(1) by (simp add: f perm_requests_iff)
  moreover have "together_ok (pm_requests ?s)"
    unfolding f by (rule together_append) (use assms(1,4) in \<open>simp_all add: perm_requests_iff\<close>)
  ultimately show ?thesis by (simp add: perm_requests_iff)
qed

section \<open>Queries keep the invariant\<close>

lemma published_frame:
  assumes "published_ok b s" and "pm_map s' = pm_map s" and "pm_pending s' = pm_pending s"
    and "pm_results s' = pm_results s" and "pm_currentClusterId s' = pm_currentClusterId s"
    and "set (live s) \<subseteq> set (live s')"
  shows "published_ok b s'"
  using assms rebuilt_same [of s' s b] by (auto simp: published_ok_def)

lemma issue_frame [simp]:
  "pm_map (issueRequest q p s) = pm_map s" "pm_pending (issueRequest q p s) = pm_pending s"
  "pm_results (issueRequest q p s) = pm_results s" "pm_currentClusterId (issueRequest q p s) = pm_currentClusterId s"
  "pm_metadata (issueRequest q p s) = pm_metadata s" "pm_generation (issueRequest q p s) = pm_generation s"
  "pm_inFlight (issueRequest q p s) = pm_inFlight s"
  by (simp_all add: issueRequest_def)

lemma issue_published: "published_ok b s \<Longrightarrow> published_ok b (issueRequest q p s)"
  by (rule published_frame) (auto simp: live_issue)

lemma begin_frame [simp]:
  "pm_map (beginQueryDiagnostics now k c ns m specs n s) = pm_map s"
  "pm_results (beginQueryDiagnostics now k c ns m specs n s) = pm_results s"
  by (simp_all add: beginQueryDiagnostics_def notifyDiagnostics_def Let_def)

lemma begin_published: "published_ok b s \<Longrightarrow> published_ok b (beginQueryDiagnostics now k c ns m specs n s)"
proof -
  let ?s = "beginQueryDiagnostics now k c ns m specs n s"
  have core: "same_core s ?s" by simp
  from core have "pm_pending ?s = pm_pending s" "pm_currentClusterId ?s = pm_currentClusterId s"
    unfolding same_core_def by blast+
  moreover have "live ?s = live s" by (rule live_same [OF core])
  moreover assume "published_ok b s"
  ultimately show "published_ok b ?s" using published_frame [of b s ?s] by simp
qed

lemma split_loop:
  "concat (splitLoop chunks current n ts) = concat chunks @ current @ ts"
  by (induction chunks current n ts rule: splitLoop.induct) simp_all

lemma split_concat: "concat (splitNamespaceTargets ts) = ts"
  by (simp add: splitNamespaceTargets_def split_loop)

lemma batch_empty: "buildBatch b cur sls ns c = [] \<longleftrightarrow> concat (List.map sl_specs sls) = []"
  by (auto simp: buildBatch_def)

lemma build_target:
  assumes "buildNamespaceQueryTarget b now s sls force t seen = (Some q, seen')"
  shows "target_ok q" and "nt_requestKey q \<notin> set seen" and "nt_requestKey q \<notin> set (pm_inFlight s)"
    and "set seen' = insert (nt_requestKey q) (set seen)" and "nt_specLists q = sls"
  using assms
  by (auto simp: buildNamespaceQueryTarget_def Let_def target_ok_def batch_empty split: if_splits)

lemma build_none: "buildNamespaceQueryTarget b now s sls force t seen = (None, seen') \<Longrightarrow> set seen \<subseteq> set seen'"
  by (auto simp: buildNamespaceQueryTarget_def Let_def split: if_splits)

lemma prepare_loop:
  "list_all target_ok (prepareLoop b now s sls force seen ts)
   \<and> distinct (List.map nt_requestKey (prepareLoop b now s sls force seen ts))
   \<and> set (List.map nt_requestKey (prepareLoop b now s sls force seen ts)) \<inter> (set seen \<union> set (pm_inFlight s)) = {}"
proof (induction ts arbitrary: seen)
  case (Cons t ts)
  obtain q seen' where b: "buildNamespaceQueryTarget b now s sls force t seen = (q, seen')" by fastforce
  show ?case
  proof (cases q)
    case None
    with Cons [of seen'] build_none [OF b [unfolded None]] b show ?thesis by auto
  next
    case (Some x)
    note x = build_target [OF b [unfolded Some]]
    from Cons [of seen'] b Some x show ?thesis by auto
  qed
qed simp

lemma begin_namespace_fields [simp]:
  "pm_requests (beginNamespaceQuery now t s) = pm_requests s" "pm_generation (beginNamespaceQuery now t s) = pm_generation s"
  "pm_nextRequest (beginNamespaceQuery now t s) = pm_nextRequest s" "pm_metadata (beginNamespaceQuery now t s) = pm_metadata s"
  "pm_inFlight (beginNamespaceQuery now t s) = jset_add (nt_requestKey t) (pm_inFlight s)"
  by (simp_all add: beginNamespaceQuery_def beginQueryDiagnostics_def notifyDiagnostics_def registerPending_def Let_def)

lemma begin_all:
  assumes "keys_ok ks s" and "loads_ok ls s" and "list_all target_ok ts"
    and "distinct (List.map nt_requestKey ts)" and "set (List.map nt_requestKey ts) \<inter> set (pm_inFlight s) = {}"
  shows "keys_ok (rev (List.map nt_requestKey ts) @ ks) (fold (beginNamespaceQuery now) ts s)
    \<and> loads_ok (rev (List.map target_load ts) @ ls) (fold (beginNamespaceQuery now) ts s)
    \<and> pm_requests (fold (beginNamespaceQuery now) ts s) = pm_requests s
    \<and> pm_generation (fold (beginNamespaceQuery now) ts s) = pm_generation s
    \<and> pm_nextRequest (fold (beginNamespaceQuery now) ts s) = pm_nextRequest s
    \<and> pm_metadata (fold (beginNamespaceQuery now) ts s) = pm_metadata s"
  using assms
proof (induction ts arbitrary: ks ls s)
  case (Cons t ts)
  let ?items = "List.map (pendingOf (nt_clusterId t) (Some (nt_namespace t))) (nt_batch t)"
  let ?r = "registerPending (nt_requestKey t) ?items s"
  have items: "list_all (\<lambda>i. pi_clusterId i \<noteq> '''') ?items"
    using Cons.prems(3) by (simp add: target_ok_def pendingOf_def list_all_iff)
  have "keys_ok (nt_requestKey t # ks) ?r"
    by (rule register_keys [OF Cons.prems(1) _ items]) (use Cons.prems(5) in auto)
  then have k: "keys_ok (nt_requestKey t # ks) (beginNamespaceQuery now t s)"
    unfolding beginNamespaceQuery_def by (subst keys_same) (rule core_simps)
  have "loads_ok ls ?r"
    using Cons.prems(2) by (simp add: loads_ok_def live_loads_def registerPending_def live_def)
  moreover have "0 < int (length (nt_batch t))" using Cons.prems(3) by (simp add: target_ok_def)
  ultimately have l: "loads_ok (target_load t # ls) (beginNamespaceQuery now t s)"
    unfolding beginNamespaceQuery_def target_load_def by (rule begin_loads)
  have "set (List.map nt_requestKey ts) \<inter> set (pm_inFlight (beginNamespaceQuery now t s)) = {}"
    using Cons.prems(4,5) by auto
  from Cons.IH [OF k l _ _ this] Cons.prems(3,4) show ?case by simp
qed simp

lemma issue_chunks:
  assumes "keys_ok (List.map nt_requestKey (concat cs) @ ks) s" and "loads_ok (List.map target_load (concat cs) @ ls) s"
    and "perm_requests_ok s" and "list_all target_ok (concat cs)" and "g \<le> pm_nextRequest s"
    and "\<forall>r ts. r \<in> set (pm_requests s) \<longrightarrow> rq_query r = ChunkQuery g ts \<longrightarrow> rq_generation r = pm_generation s"
    and "published_ok b s"
  shows "keys_ok ks (fold (queryNamespaceChunk g) cs s) \<and> loads_ok ls (fold (queryNamespaceChunk g) cs s)
    \<and> perm_requests_ok (fold (queryNamespaceChunk g) cs s) \<and> published_ok b (fold (queryNamespaceChunk g) cs s)
    \<and> pm_metadata (fold (queryNamespaceChunk g) cs s) = pm_metadata s"
  using assms
proof (induction cs arbitrary: s)
  case (Cons c cs)
  let ?s = "queryNamespaceChunk g c s"
  have k: "keys_ok (List.map nt_requestKey (concat cs) @ ks) ?s"
    unfolding queryNamespaceChunk_def by (rule issue_keys) (use Cons.prems(1) in \<open>simp add: query_keys_def\<close>)
  have l: "loads_ok (List.map target_load (concat cs) @ ls) ?s"
    unfolding queryNamespaceChunk_def by (rule issue_loads) (use Cons.prems(2) in \<open>simp add: query_loads_def\<close>)
  have r: "perm_requests_ok ?s"
    unfolding queryNamespaceChunk_def
    by (rule issue_requests [OF Cons.prems(3)]) (use Cons.prems(4-6) in auto)
  have p: "published_ok b ?s" unfolding queryNamespaceChunk_def by (rule issue_published [OF Cons.prems(7)])
  have g: "g \<le> pm_nextRequest ?s" using Cons.prems(5) by (simp add: queryNamespaceChunk_def issueRequest_def)
  have q: "\<forall>r ts. r \<in> set (pm_requests ?s) \<longrightarrow> rq_query r = ChunkQuery g ts \<longrightarrow> rq_generation r = pm_generation ?s"
    using Cons.prems(6) by (auto simp: queryNamespaceChunk_def issueRequest_def)
  have m: "pm_metadata ?s = pm_metadata s" by (simp add: queryNamespaceChunk_def)
  have t: "list_all target_ok (concat cs)" using Cons.prems(4) by simp
  from Cons.IH [OF k l r t g q p] m show ?case by simp
qed simp

lemma query_namespaces_inv:
  assumes "perm_inv b s"
  shows "perm_inv b (queryNamespacesPermissions b now targets force sls s)"
proof -
  let ?ts = "prepareNamespaceQueryTargets b now s targets sls force"
  show ?thesis
  proof (cases "targets = [] \<or> sls = [] \<or> ?ts = []")
    case True
    with assms show ?thesis by (auto simp: queryNamespacesPermissions_def)
  next
    case False
    note P = prepare_loop [of b now s sls force "[]" targets]
    have ts: "list_all target_ok ?ts" "distinct (List.map nt_requestKey ?ts)"
      "set (List.map nt_requestKey ?ts) \<inter> set (pm_inFlight s) = {}"
      using P by (auto simp: prepareNamespaceQueryTargets_def)
    let ?s0 = "fold (beginNamespaceQuery now) ?ts s" and ?s1 = "notifyPermissions b (fold (beginNamespaceQuery now) ?ts s)"
    have i: "keys_ok [] s" "loads_ok [] s" "perm_requests_ok s" "list_all interest_ok (pm_metadata s)"
      using assms by (simp_all add: perm_inv_def)
    note B = begin_all [OF i(1,2) ts, of now]
    have core: "same_core ?s0 ?s1" by simp
    have "keys_ok (rev (List.map nt_requestKey ?ts) @ []) ?s1"
      using B keys_same [OF core] by blast
    then have k: "keys_ok (List.map nt_requestKey (concat (splitNamespaceTargets ?ts)) @ []) ?s1"
      by (rule keys_moved) (simp_all add: split_concat)
    have "loads_ok (rev (List.map target_load ?ts) @ []) ?s1"
      using B loads_same [OF core] by simp
    moreover have "load_of key (rev ls) = load_of key ls" for key ls
      by (simp add: load_of_def rev_map [symmetric] sum_list_rev)
    ultimately have l: "loads_ok (List.map target_load (concat (splitNamespaceTargets ?ts)) @ []) ?s1"
      by (simp add: loads_ok_def split_concat)
    have fields: "pm_requests ?s1 = pm_requests ?s0" "pm_generation ?s1 = pm_generation ?s0"
      "pm_nextRequest ?s1 = pm_nextRequest ?s0" "pm_metadata ?s1 = pm_metadata ?s0"
      using core unfolding same_core_def by blast+
    have req: "pm_requests ?s1 = pm_requests s" "pm_generation ?s1 = pm_generation s"
      "pm_nextRequest ?s1 = pm_nextRequest s" "pm_metadata ?s1 = pm_metadata s"
      unfolding fields using B by blast+
    have r: "perm_requests_ok ?s1"
      using i(3) unfolding perm_requests_ok_def perm_request_ok_def req .
    have "\<forall>r g ts. r \<in> set (pm_requests s) \<longrightarrow> rq_query r = ChunkQuery g ts \<longrightarrow> g < pm_nextRequest s"
      using i(3) by (fastforce simp: perm_requests_ok_def perm_request_ok_def)
    then have g: "\<forall>r ts. r \<in> set (pm_requests ?s1) \<longrightarrow> rq_query r = ChunkQuery (pm_nextRequest ?s1) ts \<longrightarrow>
        rq_generation r = pm_generation ?s1"
      by (auto simp: req)
    have t: "list_all target_ok (concat (splitNamespaceTargets ?ts))" using ts(1) by (simp add: split_concat)
    from issue_chunks [OF k l r t le_refl g notify_published] i(4) req(4) False show ?thesis
      by (simp add: perm_inv_def queryNamespacesPermissions_def Let_def)
  qed
qed

section \<open>Settling keeps the invariant\<close>

definition same_requests :: "perm_store \<Rightarrow> perm_store \<Rightarrow> bool" where
  "same_requests s s' \<longleftrightarrow>
     pm_requests s' = pm_requests s \<and> pm_generation s' = pm_generation s \<and> pm_nextRequest s' = pm_nextRequest s"

lemma requests_trans: "same_requests s t \<Longrightarrow> same_requests t u \<Longrightarrow> same_requests s u"
  by (simp add: same_requests_def)

lemma core_requests: "same_core s s' \<Longrightarrow> same_requests s s'"
  by (simp add: same_core_def same_requests_def)

lemma requests_keep: "same_requests s s' \<Longrightarrow> perm_requests_ok s \<Longrightarrow> perm_requests_ok s'"
proof -
  assume s: "same_requests s s'" "perm_requests_ok s"
  have "perm_request_ok s' = perm_request_ok s" by (rule ext) (use s(1) in \<open>simp add: perm_request_ok_def same_requests_def\<close>)
  with s show "perm_requests_ok s'" by (simp add: perm_requests_iff same_requests_def)
qed

lemma requests_live: "same_requests s s' \<Longrightarrow> live s' = live s"
  by (simp add: same_requests_def live_def)

lemma requests_loads: "same_requests s s' \<Longrightarrow> pm_diagnostics s' = pm_diagnostics s \<Longrightarrow> loads_ok ls s \<Longrightarrow> loads_ok ls s'"
  by (simp add: loads_ok_def live_loads_def live_def same_requests_def)

lemma settle_requests [simp]:
  "same_requests s (settleKey k s)" "same_requests s (recordQueryTimestamp now k s)"
  "same_requests s (recordNamespaceQueryMetadata t s)" "same_requests s (notifyPermissions b s)"
  "same_requests s (registerPending k items s)"
  by (simp_all add: same_requests_def settleKey_def recordQueryTimestamp_def recordNamespaceQueryMetadata_def
    notifyPermissions_def schedulePermissionNotify_def rebuildPermissionMap_def registerPending_def)

lemma diagnostics_kept [simp]:
  "pm_diagnostics (settleKey k s) = pm_diagnostics s" "pm_diagnostics (recordQueryTimestamp now k s) = pm_diagnostics s"
  "pm_diagnostics (recordNamespaceQueryMetadata t s) = pm_diagnostics s"
  "pm_diagnostics (registerPending k items s) = pm_diagnostics s"
  by (simp_all add: settleKey_def recordQueryTimestamp_def recordNamespaceQueryMetadata_def registerPending_def)

lemma diagnostics_results [simp]:
  "pm_diagnostics (applyResults rs batch s) = pm_diagnostics s"
  "pm_diagnostics (fold (recordQueryError reason) batch s) = pm_diagnostics s"
  "pm_diagnostics (fold (\<lambda>r. recordPermissionResult r f) rs s) = pm_diagnostics s"
proof -
  have r: "pm_diagnostics (fold (\<lambda>r. recordPermissionResult r (g r)) rs s) = pm_diagnostics s" for g
    by (induction rs arbitrary: s) simp_all
  show "pm_diagnostics (applyResults rs batch s) = pm_diagnostics s" by (simp add: applyResults_def r)
  show "pm_diagnostics (fold (\<lambda>r. recordPermissionResult r f) rs s) = pm_diagnostics s" by (rule r)
  show "pm_diagnostics (fold (recordQueryError reason) batch s) = pm_diagnostics s"
    by (induction batch arbitrary: s) (simp_all add: recordQueryError_def)
qed

lemma keys_keep: "same_core s s' \<Longrightarrow> keys_ok ks s \<Longrightarrow> keys_ok ks s'"
  by (simp add: keys_same)

lemma loads_keep: "same_core s s' \<Longrightarrow> pm_diagnostics s' = pm_diagnostics s \<Longrightarrow> loads_ok ls s \<Longrightarrow> loads_ok ls s'"
  by (simp add: loads_same)

lemma keys_finish:
  "keys_ok ks (notifyPermissions b s) = keys_ok ks s" "keys_ok ks (recordQueryTimestamp now k s) = keys_ok ks s"
  by (rule keys_same, simp)+

lemma keys_metadata: "keys_ok ks (recordNamespaceQueryMetadata t s) = keys_ok ks s"
  by (simp add: keys_ok_def live_keys_def live_def recordNamespaceQueryMetadata_def)

lemma loads_finish:
  "loads_ok ls s \<Longrightarrow> loads_ok ls (notifyPermissions b s)" "loads_ok ls s \<Longrightarrow> loads_ok ls (recordQueryTimestamp now k s)"
  "loads_ok ls s \<Longrightarrow> loads_ok ls (settleKey k s)" "loads_ok ls s \<Longrightarrow> loads_ok ls (recordNamespaceQueryMetadata t s)"
  "loads_ok ls s \<Longrightarrow> loads_ok ls (registerPending k items s)"
  by (rule requests_loads; simp)+

lemma requests_finish:
  "perm_requests_ok s \<Longrightarrow> perm_requests_ok (notifyPermissions b s)"
  "perm_requests_ok s \<Longrightarrow> perm_requests_ok (recordQueryTimestamp now k s)"
  "perm_requests_ok s \<Longrightarrow> perm_requests_ok (settleKey k s)"
  "perm_requests_ok s \<Longrightarrow> perm_requests_ok (recordNamespaceQueryMetadata t s)"
  "perm_requests_ok s \<Longrightarrow> perm_requests_ok (registerPending k items s)"
  by (rule requests_keep; simp)+

lemma metadata_finish [simp]:
  "pm_metadata (notifyPermissions b s) = pm_metadata s" "pm_metadata (recordQueryTimestamp now k s) = pm_metadata s"
  "pm_metadata (settleKey k s) = pm_metadata s" "pm_metadata (registerPending k items s) = pm_metadata s"
  by (simp_all add: notifyPermissions_def schedulePermissionNotify_def rebuildPermissionMap_def
    recordQueryTimestamp_def settleKey_def registerPending_def)

lemmas settle_facts = keys_finish loads_finish requests_finish metadata_finish

text \<open>A query that settles its key, with or without a timestamp, and notifies\<close>

lemma settled_inv:
  assumes "same_core s s1" and "keys_ok [k] s" and "loads_ok [] s1" and "perm_requests_ok s"
    and "list_all interest_ok (pm_metadata s)"
  shows "perm_inv b (notifyPermissions b (if stamp then recordQueryTimestamp now k (settleKey k s1) else settleKey k s1))"
proof -
  have k: "keys_ok [] (settleKey k s1)"
    by (rule settle_keys) (rule keys_keep [OF assms(1,2)])
  have r: "perm_requests_ok s1" by (rule requests_keep [OF core_requests [OF assms(1)] assms(4)])
  have m: "pm_metadata s1 = pm_metadata s" using assms(1) by (simp add: same_core_def)
  show ?thesis
    unfolding perm_inv_def using k r assms(3,5) m by (cases stamp) (simp_all add: settle_facts)
qed

lemma cluster_settled:
  assumes "keys_ok [k] s" and "loads_ok [(k, int (length batch))] s" and "perm_requests_ok s"
    and "list_all interest_ok (pm_metadata s)"
  shows "perm_inv b (settleClusterQuery b now (pm_generation s) k batch t outcome s)"
proof (cases outcome)
  case (Answered response)
  show ?thesis
  proof (cases "find isTransientPermissionResultError (rp_results response)")
    case None
    let ?s1 = "completeSuccessfulQuery now k t response None (applyResults (rp_results response) batch s)"
    have c: "same_core s ?s1" by (rule same_core_trans [of _ "applyResults (rp_results response) batch s"]) simp_all
    have "loads_ok [(k, int (length batch))] (applyResults (rp_results response) batch s)"
      by (rule loads_keep [OF _ _ assms(2)]) simp_all
    then have "loads_ok [] ?s1" unfolding completeSuccessfulQuery_def by (rule complete_loads) simp
    from settled_inv [OF c assms(1) this assms(3,4), of b True now] show ?thesis
      by (simp add: settleClusterQuery_def Answered None)
  next
    case (Some err)
    let ?s1 = "completeQueryDiagnostics now k False (Some (getPermissionResultErrorMessage err)) t None None s"
    have "loads_ok [] ?s1" by (rule complete_loads [OF assms(2)]) simp
    from settled_inv [OF core_simps(7) assms(1) this assms(3,4), of b False now] show ?thesis
      by (simp add: settleClusterQuery_def Answered Some)
  qed
next
  case (Failed reason)
  let ?s0 = "fold (recordQueryError reason) batch s"
  let ?s1 = "completeQueryDiagnostics now k False (Some reason) t None None ?s0"
  have c: "same_core s ?s1" by (rule same_core_trans [of _ ?s0]) simp_all
  have "loads_ok [(k, int (length batch))] ?s0" by (rule loads_keep [OF _ _ assms(2)]) simp_all
  then have "loads_ok [] ?s1" by (rule complete_loads) simp
  from settled_inv [OF c assms(1) this assms(3,4), of b True now] show ?thesis
    by (simp add: settleClusterQuery_def Failed)
qed

lemma kind_core [simp]: "same_core s (fold (\<lambda>r. recordPermissionResult r f) rs s)"
  by (rule same_core_fold) simp

lemma kind_settled:
  assumes "keys_ok [k] s" and "loads_ok [] s" and "perm_requests_ok s" and "list_all interest_ok (pm_metadata s)"
  shows "perm_inv b (settleKindQuery b now (pm_generation s) k f outcome s)"
proof (cases outcome)
  case (Answered response)
  let ?s1 = "fold (\<lambda>r. recordPermissionResult r (Some f)) (rp_results response) s"
  have "loads_ok [] ?s1" by (rule loads_keep [OF _ _ assms(2)]) simp_all
  from settled_inv [OF kind_core assms(1) this assms(3,4), of b True now] show ?thesis
    by (simp add: settleKindQuery_def Answered)
next
  case (Failed reason)
  from settled_inv [OF same_core_refl assms, of b True now] show ?thesis
    by (simp add: settleKindQuery_def Failed)
qed

lemma response_applied:
  assumes "loads_ok (List.map target_load chunk @ ls) s"
  shows "loads_ok ls (fst (fold (applyTargetResponse now response) chunk (s, tr)))
    \<and> same_core s (fst (fold (applyTargetResponse now response) chunk (s, tr)))"
  using assms
proof (induction chunk arbitrary: s tr)
  case (Cons t chunk)
  obtain s' tr' where st: "applyTargetResponse now response t (s, tr) = (s', tr')" by fastforce
  have l: "loads_ok ((nt_diagnosticsKey t, int (length (nt_batch t))) # List.map target_load chunk @ ls) s"
    using Cons.prems by (simp add: target_load_def [of t])
  have "loads_ok (List.map target_load chunk @ ls) s' \<and> same_core s s'"
  proof (cases "find isTransientPermissionResultError (targetResults response t)")
    case None
    let ?s0 = "applyResults (targetResults response t) (nt_batch t) s"
    have s': "s' = completeSuccessfulQuery now (nt_diagnosticsKey t) (nt_startedAt t) response
        (Some (int (length (nt_batch t)))) ?s0"
      using st None by (simp add: applyTargetResponse_def)
    have "loads_ok ((nt_diagnosticsKey t, int (length (nt_batch t))) # List.map target_load chunk @ ls) ?s0"
      by (rule loads_keep [OF _ _ l]) simp_all
    then have "loads_ok (List.map target_load chunk @ ls) s'"
      unfolding s' completeSuccessfulQuery_def by (rule complete_loads) simp
    moreover have "same_core s s'" unfolding s' by (rule same_core_trans [of _ ?s0]) simp_all
    ultimately show ?thesis ..
  next
    case (Some err)
    have s': "s' = completeTransientNamespaceQuery now t err s"
      using st Some by (simp add: applyTargetResponse_def)
    have "loads_ok (List.map target_load chunk @ ls) s'"
      unfolding s' completeTransientNamespaceQuery_def by (rule complete_loads [OF l]) simp
    then show ?thesis by (simp add: s')
  qed
  then have "loads_ok (List.map target_load chunk @ ls) s'" and c: "same_core s s'" by blast+
  from Cons.IH [OF this(1), of tr'] show ?case using same_core_trans [OF c] by (simp add: st)
qed simp

lemma failure_applied:
  assumes "loads_ok (List.map target_load chunk @ ls) s"
  shows "loads_ok ls (applyNamespaceQueryFailure now chunk reason s)
    \<and> same_core s (applyNamespaceQueryFailure now chunk reason s)"
  using assms
proof (induction chunk arbitrary: s)
  case (Cons t chunk)
  let ?s0 = "fold (recordQueryError reason) (nt_batch t) s"
  let ?s1 = "completeQueryDiagnostics now (nt_diagnosticsKey t) False (Some reason) (nt_startedAt t) None
      (Some (int (length (nt_batch t)))) ?s0"
  have "loads_ok ((nt_diagnosticsKey t, int (length (nt_batch t))) # List.map target_load chunk @ ls) ?s0"
    by (rule loads_keep [of s]) (use Cons.prems in \<open>simp_all add: target_load_def [of t]\<close>)
  then have "loads_ok (List.map target_load chunk @ ls) ?s1" by (rule complete_loads) simp
  moreover have "same_core s ?s1" by (rule same_core_trans [of _ ?s0]) simp_all
  ultimately show ?case
    using Cons.IH [of ?s1] same_core_trans [of s ?s1] by (simp add: applyNamespaceQueryFailure_def)
qed (simp add: applyNamespaceQueryFailure_def)

lemma metadata_recorded:
  assumes "target_ok t" and "list_all interest_ok (pm_metadata s)"
  shows "list_all interest_ok (pm_metadata (recordNamespaceQueryMetadata t s))"
  unfolding recordNamespaceQueryMetadata_def
  using jm_all_set [OF assms(2), of "nt_requestKey t" "\<lparr>qn_clusterId = nt_clusterId t, qn_namespace = nt_namespace t,
      qn_specLists = nt_specLists t\<rparr>"] assms(1)
  by (simp add: interest_ok_def target_ok_def)

lemma finalize_steps:
  assumes "keys_ok (List.map nt_requestKey chunk @ ks) s" and "list_all target_ok chunk"
    and "list_all interest_ok (pm_metadata s)" and "loads_ok ls s" and "perm_requests_ok s"
  shows "keys_ok ks (fold (finalizeNamespaceQuery now tr) chunk s)
    \<and> list_all interest_ok (pm_metadata (fold (finalizeNamespaceQuery now tr) chunk s))
    \<and> loads_ok ls (fold (finalizeNamespaceQuery now tr) chunk s)
    \<and> perm_requests_ok (fold (finalizeNamespaceQuery now tr) chunk s)
    \<and> same_requests s (fold (finalizeNamespaceQuery now tr) chunk s)"
  using assms
proof (induction chunk arbitrary: s)
  case (Cons t chunk)
  let ?m = "recordNamespaceQueryMetadata t (settleKey (nt_requestKey t) s)"
  have k: "keys_ok (List.map nt_requestKey chunk @ ks) ?m"
    unfolding keys_metadata by (rule settle_keys) (use Cons.prems(1) in simp)
  have m: "list_all interest_ok (pm_metadata ?m)"
    by (rule metadata_recorded) (use Cons.prems(2,3) in simp_all)
  have l: "loads_ok ls ?m" and r: "perm_requests_ok ?m" using Cons.prems(4,5) by (simp_all add: settle_facts)
  have sr: "same_requests s ?m" by (rule requests_trans [of _ "settleKey (nt_requestKey t) s"]) simp_all
  let ?f = "finalizeNamespaceQuery now tr t s"
  have "keys_ok (List.map nt_requestKey chunk @ ks) ?f" "list_all interest_ok (pm_metadata ?f)"
    "loads_ok ls ?f" "perm_requests_ok ?f"
    using k m l r by (simp_all add: finalizeNamespaceQuery_def Let_def settle_facts)
  moreover have sf: "same_requests s ?f"
    using sr requests_trans [OF sr settle_requests(2)] by (simp add: finalizeNamespaceQuery_def Let_def)
  ultimately show ?case using Cons.IH [of ?f] Cons.prems(2) requests_trans [OF sf] by simp
qed (simp add: same_requests_def)

lemma chunk_settled:
  assumes "keys_ok (List.map nt_requestKey chunk) s" and "loads_ok (List.map target_load chunk) s"
    and "perm_requests_ok s" and "list_all interest_ok (pm_metadata s)" and "list_all target_ok chunk"
    and "\<And>r. r \<in> set (pm_requests s) \<Longrightarrow> togetherWith g r \<Longrightarrow> rq_generation r = pm_generation s"
  shows "perm_inv b (settleNamespaceChunk b now (pm_generation s) g chunk outcome s)"
proof -
  obtain s1 tr where st: "(case outcome of
        Answered response \<Rightarrow> applyNamespaceQueryResponse now chunk response s
      | Failed reason \<Rightarrow> (applyNamespaceQueryFailure now chunk reason s, [])) = (s1, tr)" by fastforce
  have l: "loads_ok (List.map target_load chunk @ []) s" using assms(2) by simp
  have "loads_ok [] s1 \<and> same_core s s1"
  proof (cases outcome)
    case (Answered response)
    then show ?thesis using response_applied [OF l, of now response "[]"] st by (simp add: applyNamespaceQueryResponse_def)
  next
    case (Failed reason)
    then show ?thesis using failure_applied [OF l, of now reason] st by auto
  qed
  then have l1: "loads_ok [] s1" and c: "same_core s s1" by blast+
  have k1: "keys_ok (List.map nt_requestKey chunk @ []) s1" using keys_keep [OF c assms(1)] by simp
  have m1: "list_all interest_ok (pm_metadata s1)" using c assms(4) by (simp add: same_core_def)
  have r1: "perm_requests_ok s1" by (rule requests_keep [OF core_requests [OF c] assms(3)])
  let ?s2 = "fold (finalizeNamespaceQuery now tr) chunk s1"
  note F = finalize_steps [OF k1 assms(5) m1 l1 r1, of now tr]
  have sr: "same_requests s ?s2" using requests_trans [OF core_requests [OF c]] F by blast
  have e: "settleNamespaceChunk b now (pm_generation s) g chunk outcome s =
      (if list_ex (togetherWith g) (pm_requests ?s2) then ?s2 else notifyPermissions b ?s2)"
    by (simp add: settleNamespaceChunk_def st)
  show ?thesis
  proof (cases "list_ex (togetherWith g) (pm_requests ?s2)")
    case True
    then obtain r where r: "r \<in> set (pm_requests ?s2)" "togetherWith g r" by (auto simp: list_ex_iff)
    then have "r \<in> set (live ?s2)" using assms(6) sr by (simp add: live_def same_requests_def)
    moreover have "is_chunk r" using r(2) by (auto simp: is_chunk_def togetherWith_def split: perm_query.splits)
    ultimately have "published_ok b ?s2" unfolding published_ok_def by blast
    with F True show ?thesis by (simp add: e perm_inv_def)
  next
    case False
    with F show ?thesis by (simp add: e perm_inv_def settle_facts)
  qed
qed

lemma rebuilt_current:
  assumes "list_all (\<lambda>(k, items). list_all (\<lambda>i. pi_clusterId i \<noteq> '''') items) (pm_pending s)"
  shows "rebuiltMap b (s\<lparr>pm_currentClusterId := c\<rparr>) = rebuiltMap b s"
proof -
  have "addPending b c i = addPending b (pm_currentClusterId s) i"
    if "i \<in> set (concat (List.map snd (pm_pending s)))" for i
  proof -
    have "pi_clusterId i \<noteq> ''''" using assms that by (auto simp: list_all_iff)
    then show ?thesis by (intro ext) (simp add: addPending_def pendingKey_def getPermissionKey_def or_current_def Let_def)
  qed
  then show ?thesis unfolding rebuiltMap_def by (auto intro: List.fold_cong)
qed

section \<open>Every step keeps the invariant\<close>

lemma issued_inv:
  assumes "keys_ok (query_keys q) s" and "loads_ok (query_loads q) s" and "perm_requests_ok s"
    and "list_all interest_ok (pm_metadata s)" and "published_ok b s"
    and "\<And>g ts. q \<noteq> ChunkQuery g ts" and "\<And>k batch t. q = ClusterQuery k batch t \<Longrightarrow> batch \<noteq> []"
  shows "perm_inv b (issueRequest q payload s)"
proof -
  have "keys_ok [] (issueRequest q payload s)" by (rule issue_keys) (use assms(1) in simp)
  moreover have "loads_ok [] (issueRequest q payload s)" by (rule issue_loads) (use assms(2) in simp)
  moreover have "perm_requests_ok (issueRequest q payload s)"
    by (rule issue_requests [OF assms(3)]) (use assms(6,7) in blast)+
  moreover have "published_ok b (issueRequest q payload s)" by (rule issue_published [OF assms(5)])
  ultimately show ?thesis using assms(4) by (simp add: perm_inv_def)
qed

lemma registered_parts:
  assumes "perm_inv b s" and "k \<notin> set (pm_inFlight s)" and "list_all (\<lambda>i. pi_clusterId i \<noteq> '''') items"
  shows "keys_ok [k] (notifyPermissions b (registerPending k items s))"
    and "loads_ok [] (notifyPermissions b (registerPending k items s))"
    and "perm_requests_ok (notifyPermissions b (registerPending k items s))"
    and "list_all interest_ok (pm_metadata (notifyPermissions b (registerPending k items s)))"
  using assms(1) register_keys [of "[]" s k items] assms(2,3) by (simp_all add: perm_inv_def settle_facts)

lemma query_cluster_inv:
  assumes "perm_inv b s"
  shows "perm_inv b (queryClusterPermissions b now clusterId s)"
proof -
  let ?k = "clusterQueryKey clusterId"
  let ?batch = "buildBatch b (pm_currentClusterId s) CLUSTER_PERMISSIONS None clusterId"
  show ?thesis
  proof (cases "clusterId = '''' \<or> ?k \<in> set (pm_inFlight s) \<or> ?batch = []")
    case True
    with assms show ?thesis by (simp add: queryClusterPermissions_def Let_def)
  next
    case False
    let ?items = "List.map (pendingOf clusterId None) ?batch"
    let ?s1 = "notifyPermissions b (registerPending ?k ?items s)"
    let ?s2 = "beginQueryDiagnostics now ?k clusterId None ''ssar'' (List.map toPermissionSpec ?batch)
        (int (length ?batch)) ?s1"
    have "list_all (\<lambda>i. pi_clusterId i \<noteq> '''') ?items" using False by (simp add: pendingOf_def list_all_iff)
    note P = registered_parts [OF assms _ this, of ?k]
    have free: "?k \<notin> set (pm_inFlight s)" using False by simp
    have c: "same_core ?s1 ?s2" by simp
    have "loads_ok [(?k, int (length ?batch))] ?s2" using begin_loads [OF P(2) [OF free]] False by simp
    moreover have "keys_ok [?k] ?s2" by (rule keys_keep [OF c P(1) [OF free]])
    moreover have "perm_requests_ok ?s2" by (rule requests_keep [OF core_requests [OF c] P(3) [OF free]])
    moreover have "list_all interest_ok (pm_metadata ?s2)" using P(4) [OF free] c by (simp add: same_core_def)
    moreover have "published_ok b ?s2" by (rule begin_published) simp
    ultimately have "perm_inv b (issueRequest (ClusterQuery ?k ?batch now) (List.map toQueryPayloadItem ?batch) ?s2)"
      by (intro issued_inv) (use False in \<open>simp_all add: query_keys_def query_loads_def\<close>)
    with False show ?thesis by (simp add: queryClusterPermissions_def Let_def)
  qed
qed

lemma query_kind_inv:
  assumes "perm_inv b s"
  shows "perm_inv b (queryKindPermissions b now kind ns clusterId grp version s)"
proof -
  let ?c = "or_current clusterId (pm_currentClusterId s)"
  let ?gv = "resolvePermissionGVK b kind grp version"
  let ?k = "kindQueryKey ?c ns ?gv kind"
  let ?f = "if or_null (case ns of None \<Rightarrow> '''' | Some ns \<Rightarrow> ns) \<noteq> None then ''namespace.custom'' else ''cluster.custom''"
  show ?thesis
  proof (cases "?c = '''' \<or> kind = '''' \<or> ?k \<in> set (pm_inFlight s) \<or> isRecentQuery now s ?k")
    case True
    with assms show ?thesis by (auto simp: queryKindPermissions_def Let_def)
  next
    case False
    let ?items = "List.map (kindPendingItem kind ns ?c ?gv ?f) [''delete'', ''patch'']"
    have "list_all (\<lambda>i. pi_clusterId i \<noteq> '''') ?items" using False by (simp add: kindPendingItem_def)
    note P = registered_parts [OF assms _ this, of ?k]
    have free: "?k \<notin> set (pm_inFlight s)" using False by simp
    have "perm_inv b (issueRequest (KindQuery ?k ?f)
        (List.map (kindPayloadItem b (pm_currentClusterId s) kind ns ?c ?gv) [''delete'', ''patch''])
        (notifyPermissions b (registerPending ?k ?items s)))"
      by (rule issued_inv) (use P [OF free] in \<open>simp_all add: query_keys_def query_loads_def\<close>)
    then show ?thesis
      unfolding queryKindPermissions_def Let_def using False by (simp only: if_False de_Morgan_disj simp_thms)
  qed
qed

lemma stale_live:
  assumes "perm_requests_ok s" and "r \<in> set (pm_requests s)" and "rq_generation r \<noteq> pm_generation s"
  shows "live (without (rq_id r) s) = live s"
proof -
  have "inj_on rq_id (set (pm_requests s))" using assms(1) by (simp add: perm_requests_ok_def distinct_map)
  then have "rq_id q \<noteq> rq_id r" if "q \<in> set (live s)" for q
    using that assms(2,3) by (auto simp: live_def dest: inj_onD)
  then show ?thesis by (simp add: live_without filter_id_conv)
qed

lemma stale_inv:
  assumes "perm_inv b s" and "r \<in> set (pm_requests s)" and "rq_generation r \<noteq> pm_generation s"
  shows "perm_inv b (without (rq_id r) s)"
proof -
  have l: "live (without (rq_id r) s) = live s" using assms by (intro stale_live) (simp_all add: perm_inv_def)
  have "keys_ok [] (without (rq_id r) s)" "loads_ok [] (without (rq_id r) s)"
    using assms(1) by (simp_all add: perm_inv_def keys_ok_def loads_ok_def live_keys_def live_loads_def l)
  moreover have "published_ok b (without (rq_id r) s)"
    by (rule published_frame [of b s]) (use assms(1) l in \<open>simp_all add: perm_inv_def without_def\<close>)
  ultimately show ?thesis using assms(1) by (simp add: perm_inv_def without_requests)
qed

lemma settle_unfold:
  assumes "find (\<lambda>r. rq_id r = i) (pm_requests s) = Some r"
  shows "settlePermissionQuery b now i outcome s =
    (case rq_query r of
       ChunkQuery g chunk \<Rightarrow> settleNamespaceChunk b now (rq_generation r) g chunk outcome (without i s)
     | ClusterQuery k batch t \<Rightarrow> settleClusterQuery b now (rq_generation r) k batch t outcome (without i s)
     | KindQuery k f \<Rightarrow> settleKindQuery b now (rq_generation r) k f outcome (without i s))"
  using assms by (simp add: settlePermissionQuery_def without_def Let_def split: perm_query.split)

lemma stale_settle:
  assumes "find (\<lambda>r. rq_id r = i) (pm_requests s) = Some r" and "rq_generation r \<noteq> pm_generation s"
  shows "settlePermissionQuery b now i outcome s = without i s"
  using assms
  by (simp add: settle_unfold settleNamespaceChunk_def settleClusterQuery_def settleKindQuery_def split: perm_query.splits)

lemma perm_settle_inv:
  assumes inv: "perm_inv b s"
  shows "perm_inv b (settlePermissionQuery b now i outcome s)"
proof (cases "find (\<lambda>r. rq_id r = i) (pm_requests s)")
  case None
  then show ?thesis using inv by (simp add: settlePermissionQuery_def)
next
  case (Some r)
  then have r: "r \<in> set (pm_requests s)" and i: "i = rq_id r" by (auto simp: find_Some_iff in_set_conv_nth)
  show ?thesis
  proof (cases "rq_generation r = pm_generation s")
    case False
    show ?thesis unfolding stale_settle [OF Some False] unfolding i by (rule stale_inv [OF inv r False])
  next
    case True
    let ?s = "without i s"
    have ok: "perm_requests_ok s" and m: "list_all interest_ok (pm_metadata ?s)"
      and rok: "perm_request_ok s r"
      using inv r by (simp_all add: perm_inv_def perm_requests_iff list_all_iff)
    have l: "r \<in> set (live s)" using r True by (simp add: live_def)
    have k: "keys_ok (query_keys (rq_query r)) ?s" and ld: "loads_ok (query_loads (rq_query r)) ?s"
      using without_keys [OF ok l, of "[]"] without_loads [OF ok l, of "[]"] inv by (simp_all add: perm_inv_def i)
    have rs: "perm_requests_ok ?s" by (rule without_requests [OF ok])
    show ?thesis
    proof (cases "rq_query r")
      case (ChunkQuery g chunk)
      have "rq_generation q = pm_generation ?s" if q: "q \<in> set (pm_requests ?s)" "togetherWith g q" for q
      proof -
        obtain ts where "rq_query q = ChunkQuery g ts"
          using q(2) by (auto simp: togetherWith_def split: perm_query.splits)
        moreover have "together_ok (pm_requests s)" "q \<in> set (pm_requests s)"
          using ok q(1) by (simp_all add: perm_requests_iff)
        ultimately show ?thesis using together_okD [OF _ _ r _ ChunkQuery] True by (simp only: without_fields)
      qed
      with k ld rs m rok ChunkQuery have "perm_inv b (settleNamespaceChunk b now (pm_generation ?s) g chunk outcome ?s)"
        by (intro chunk_settled) (simp_all add: query_keys_def query_loads_def perm_request_ok_def)
      then show ?thesis by (simp add: settle_unfold [OF Some] ChunkQuery True)
    next
      case (ClusterQuery key batch t)
      with k ld rs m have "perm_inv b (settleClusterQuery b now (pm_generation ?s) key batch t outcome ?s)"
        by (intro cluster_settled) (simp_all add: query_keys_def query_loads_def)
      then show ?thesis by (simp add: settle_unfold [OF Some] ClusterQuery True)
    next
      case (KindQuery key f)
      with k ld rs m have "perm_inv b (settleKindQuery b now (pm_generation ?s) key f outcome ?s)"
        by (intro kind_settled) (simp_all add: query_keys_def query_loads_def)
      then show ?thesis by (simp add: settle_unfold [OF Some] KindQuery True)
    qed
  qed
qed

text \<open>What only touches fields outside the invariant keeps it.\<close>

lemma frame_inv:
  assumes "perm_inv b s" and "pm_requests s' = pm_requests s" and "pm_generation s' = pm_generation s"
    and "pm_nextRequest s' = pm_nextRequest s" and "pm_inFlight s' = pm_inFlight s" and "pm_pending s' = pm_pending s"
    and "pm_metadata s' = pm_metadata s" and "pm_diagnostics s' = pm_diagnostics s" and "pm_map s' = pm_map s"
    and "pm_results s' = pm_results s"
  shows "perm_inv b s'"
proof -
  have sr: "same_requests s s'" using assms(2-4) by (simp add: same_requests_def)
  have l: "live s' = live s" by (rule requests_live [OF sr])
  have "keys_ok [] s'" using assms(1,5,6) by (simp add: perm_inv_def keys_ok_def live_keys_def l)
  moreover have "loads_ok [] s'" by (rule requests_loads [OF sr assms(8)]) (use assms(1) in \<open>simp add: perm_inv_def\<close>)
  moreover have "perm_requests_ok s'" by (rule requests_keep [OF sr]) (use assms(1) in \<open>simp add: perm_inv_def\<close>)
  moreover have "rebuiltMap b s' = rebuiltMap b s"
  proof -
    have "rebuiltMap b s' = rebuiltMap b (s\<lparr>pm_currentClusterId := pm_currentClusterId s'\<rparr>)"
      using assms(6,10) by (simp add: rebuiltMap_def)
    also have "\<dots> = rebuiltMap b s" by (rule rebuilt_current) (use assms(1) in \<open>simp add: perm_inv_def keys_ok_def\<close>)
    finally show ?thesis .
  qed
  ultimately show ?thesis using assms(1,7,9) by (simp add: perm_inv_def published_ok_def l)
qed

lemma reset_inv:
  assumes "perm_inv b s"
  shows "perm_inv b (resetPermissionStore b s)" and "live (resetPermissionStore b s) = []"
proof -
  let ?s = "s\<lparr>pm_generation := Suc (pm_generation s), pm_namespaceTimers := [], pm_notifyScheduled := False,
          pm_diagnosticsNotifyScheduled := False, pm_results := [], pm_pending := [], pm_inFlight := [],
          pm_timestamps := [], pm_metadata := [], pm_diagnostics := [], pm_diagnosticsDirty := True,
          pm_map := [], pm_refreshTimer := False\<rparr>"
  have e: "resetPermissionStore b s = notifyPermissions b ?s" by (simp add: resetPermissionStore_def stopRefreshTimer_def)
  have old: "list_all (perm_request_ok s) (pm_requests s)" "together_ok (pm_requests s)"
    "distinct (List.map rq_id (pm_requests s))"
    using assms by (simp_all add: perm_inv_def perm_requests_iff)
  then have l: "live ?s = []" by (auto simp: live_def filter_empty_conv list_all_iff perm_request_ok_def)
  then have "live (notifyPermissions b ?s) = []" using requests_live [OF settle_requests(4), of b ?s] by simp
  then show "live (resetPermissionStore b s) = []" by (simp only: e)
  have "perm_request_ok ?s r" if "r \<in> set (pm_requests s)" for r
    by (rule request_ok_cong [of s]) (use old(1) that in \<open>simp_all add: list_all_iff\<close>)
  then have "perm_requests_ok ?s" using old by (simp add: perm_requests_iff list_all_iff)
  moreover have "keys_ok [] ?s" "loads_ok [] ?s" by (simp_all add: keys_ok_def loads_ok_def live_keys_def l)
  ultimately show "perm_inv b (resetPermissionStore b s)" by (simp add: e perm_inv_def settle_facts)
qed

lemma timers_inv:
  "perm_inv b s \<Longrightarrow> perm_inv b (armNamespaceTimer due t s)" "perm_inv b s \<Longrightarrow> perm_inv b (startRefreshTimer s)"
  "perm_inv b s \<Longrightarrow> perm_inv b (s\<lparr>pm_namespaceTimers := ts\<rparr>)" "perm_inv b s \<Longrightarrow> perm_inv b (s\<lparr>pm_currentClusterId := c\<rparr>)"
  "perm_inv b s \<Longrightarrow> perm_inv b (s\<lparr>pm_subscribed := x\<rparr>)"
  by (rule frame_inv; simp add: armNamespaceTimer_def startRefreshTimer_def)+

lemma refresh_interest_inv: "perm_inv b s \<Longrightarrow> perm_inv b (refreshInterest b now t s)"
  unfolding refreshInterest_def by (rule query_namespaces_inv)

lemma fold_inv: "perm_inv b s \<Longrightarrow> (\<And>x s. perm_inv b s \<Longrightarrow> perm_inv b (f x s)) \<Longrightarrow> perm_inv b (fold f xs s)"
  by (induction xs arbitrary: s) auto

lemma refresh_inv: "perm_inv b s \<Longrightarrow> perm_inv b (refreshExpiredQueries b now s)"
  unfolding refreshExpiredQueries_def scheduleNamespaceRefreshes_def
  by (intro fold_inv) (auto intro: query_cluster_inv refresh_interest_inv timers_inv)

lemma timer_fired_inv: "perm_inv b s \<Longrightarrow> perm_inv b (namespaceTimerFired b now timer s)"
  by (auto simp: namespaceTimerFired_def split: option.split intro: refresh_interest_inv timers_inv)

lemma initialize_inv: "perm_inv b s \<Longrightarrow> perm_inv b (initializePermissionStore b now c s)"
  unfolding initializePermissionStore_def by (intro timers_inv query_cluster_inv)

lemma set_active_inv: "perm_inv b s \<Longrightarrow> perm_inv b (setActivePermissionCluster b now c op s)"
  by (auto simp: setActivePermissionCluster_def Let_def intro: reset_inv(1) initialize_inv timers_inv)

lemma lifecycle_inv: "perm_inv b s \<Longrightarrow> perm_inv b (onClusterLifecycle b now c state s)"
  by (auto simp: onClusterLifecycle_def intro!: fold_inv refresh_interest_inv query_cluster_inv)

lemma perm_step_inv: "perm_inv b s \<Longrightarrow> perm_inv b (permStep b s e)"
proof -
  assume inv: "perm_inv b s"
  obtain now e' where e: "e = (now, e')" by (cases e)
  show ?thesis
  proof (cases e')
    case PeSnapshot
    then show ?thesis unfolding e
      by (auto simp: getPermissionQueryDiagnosticsSnapshot_def Let_def intro: frame_inv [OF inv])
  qed (use inv in \<open>auto simp: e onKubeconfigChanging_def onKubeconfigChanged_def
      intro: query_namespaces_inv query_cluster_inv query_kind_inv perm_settle_inv set_active_inv refresh_inv timer_fired_inv
        reset_inv(1) lifecycle_inv frame_inv [OF inv]
      simp: flushPermissionListeners_def flushDiagnosticsListeners_def subscribeUserPermissions_def
        unsubscribeUserPermissions_def subscribeDiagnostics_def unsubscribeDiagnostics_def\<close>)
qed

lemma initial_inv: "perm_inv b initialPermissionStore"
  by (simp add: perm_inv_def keys_ok_def loads_ok_def perm_requests_ok_def published_ok_def live_keys_def
    live_loads_def live_def initialPermissionStore_def rebuiltMap_def)

interpretation perm: event_machine "permStep b" "perm_inv b" for b
  by unfold_locales (rule perm_step_inv)

lemma perm_run_inv: "perm_inv b (permRun b es)"
  unfolding permRun_def by (rule perm.run_inv [OF initial_inv])

end
