(* ===== verification/PermissionProps.thy ===== *)
theory PermissionProps
  imports PermissionInv
begin

text \<open>
  What the permission store promises: queries in flight, pending specs and diagnostics agree in every
  run; nothing stays pending without a request; answers of an earlier generation change nothing;
  the pending entry and the answer of a permission share their key; chunks respect the limit of the
  backend. Two theorems show where the store falls short of its comments: the answers for a namespace
  called \<open>cluster\<close> share the keys of the cluster scope (\<open>namespace_cluster_collides\<close>), and a transient
  answer for a kind counts as an answer for two minutes (\<open>kind_query_transient_cached\<close>).
\<close>

section \<open>Accounting\<close>





section \<open>Answers of an earlier generation\<close>

lemma stale_answer:
  assumes "live s = []"
  shows "settlePermissionQuery b now i outcome s = without i s"
proof (cases "find (\<lambda>r. rq_id r = i) (pm_requests s)")
  case None
  then have "filter (\<lambda>r. rq_id r \<noteq> i) (pm_requests s) = pm_requests s" by (auto simp: find_None_iff filter_id_conv)
  with None show ?thesis by (simp add: settlePermissionQuery_def without_def)
next
  case (Some r)
  then have "r \<in> set (pm_requests s)" by (auto simp: find_Some_iff in_set_conv_nth)
  then have "rq_generation r \<noteq> pm_generation s" using assms by (auto simp: live_def filter_empty_conv)
  then show ?thesis by (rule stale_settle [OF Some])
qed

lemma stale_answers:
  "live s = [] \<Longrightarrow> foldl (permStep b) s (List.map (\<lambda>(now, i, outcome). (now, PeSettle i outcome)) answers)
     = s\<lparr>pm_requests := filter (\<lambda>r. rq_id r \<notin> fst ` snd ` set answers) (pm_requests s)\<rparr>"
proof (induction answers arbitrary: s)
  case (Cons a answers)
  obtain now i outcome where a: "a = (now, i, outcome)" by (cases a) auto
  have "live (without i s) = []" using Cons.prems by (simp add: live_without)
  then show ?case using Cons.IH stale_answer [OF Cons.prems]
    by (auto simp: a without_def filter_filter intro!: arg_cong [where f = "\<lambda>x. s\<lparr>pm_requests := x\<rparr>"] filter_cong)
qed simp

theorem answers_after_reset_ignored:
  "let s = resetPermissionStore b (permRun b es)
   in foldl (permStep b) s (List.map (\<lambda>(now, i, outcome). (now, PeSettle i outcome)) answers)
      = s\<lparr>pm_requests := filter (\<lambda>r. rq_id r \<notin> fst ` snd ` set answers) (pm_requests s)\<rparr>"
  unfolding Let_def by (rule stale_answers [OF reset_inv(2) [OF perm_run_inv]])

section \<open>Keys\<close>

lemma lower_or_null: "lower_or '''' (or_null (case x of None \<Rightarrow> '''' | Some s \<Rightarrow> s)) = lower_or '''' x"
  by (cases x) (auto simp: lower_or_def or_null_def)

lemma resolve_or_null: "resolvePermissionGVK b kind g (or_null v) = resolvePermissionGVK b kind g (Some v)"
  by (simp add: resolvePermissionGVK_def trimmed_or_empty_def or_null_def js_trim_def)

lemma batch_item_keys:
  assumes "item \<in> set (buildBatch b current sls ns c)" and "c \<noteq> ''''"
  shows "pendingKey b current' (pendingOf c ns item) = bi_id item"
  using assms
  by (auto simp: buildBatch_def buildBatchItem_def pendingKey_def pendingOf_def toPermissionSpec_def
    getPermissionKey_def or_current_def resolve_or_null lower_or_null split: prod.splits)

theorem pending_and_answer_share_key:
  assumes "c \<noteq> ''''"
  shows "List.map (\<lambda>item. pendingKey b current' (pendingOf c ns item)) (buildBatch b current sls ns c)
      = List.map (\<lambda>item. qi_id (toQueryPayloadItem item)) (buildBatch b current sls ns c)"
  using batch_item_keys [OF _ assms] by (simp add: toQueryPayloadItem_def)

lemma cluster_scope: "lower_or ''cluster'' (Some ''cluster'') = ''cluster''" "lower_or ''cluster'' None = ''cluster''"
  by code_simp+

theorem namespace_cluster_collides:
  "\<exists>item \<in> set (buildBatch b current CLUSTER_PERMISSIONS None c).
     \<exists>item' \<in> set (buildBatch b current ALL_NAMESPACE_PERMISSIONS (Some ''cluster'') c).
       bi_id item = bi_id item' \<and> bi_resourceKind item = ''Pod'' \<and> bi_verb item = ''delete''
       \<and> bi_namespace item = '''' \<and> bi_namespace item' = ''cluster''"
proof -
  let ?sp = "permSpec ''Pod'' ''delete'' None"
  let ?i = "buildBatchItem b current None c ''cluster.nodeActions'' ?sp"
  let ?i' = "buildBatchItem b current (Some ''cluster'') c ''namespace.pods'' ?sp"
  have "?i \<in> set (buildBatch b current CLUSTER_PERMISSIONS None c)"
    by (simp add: buildBatch_def CLUSTER_PERMISSIONS_def)
  moreover have "?i' \<in> set (buildBatch b current ALL_NAMESPACE_PERMISSIONS (Some ''cluster'') c)"
    by (simp add: buildBatch_def ALL_NAMESPACE_PERMISSIONS_def POD_PERMISSIONS_def)
  moreover have "bi_id ?i = bi_id ?i' \<and> bi_resourceKind ?i = ''Pod'' \<and> bi_verb ?i = ''delete''
       \<and> bi_namespace ?i = '''' \<and> bi_namespace ?i' = ''cluster''"
    by (simp add: buildBatchItem_def permSpec_def getPermissionKey_def cluster_scope split: prod.split)
  ultimately show ?thesis by blast
qed

section \<open>Chunks\<close>

abbreviation chunk_load :: "namespace_target list \<Rightarrow> nat" where
  "chunk_load ts \<equiv> sum_list (List.map (\<lambda>t. length (nt_batch t)) ts)"

definition chunk_ok :: "namespace_target list \<Rightarrow> bool" where
  "chunk_ok c \<longleftrightarrow> c \<noteq> [] \<and> (chunk_load c \<le> MAX_PERMISSION_QUERY_ITEMS \<or> length c = 1)"

definition full_before :: "namespace_target list \<Rightarrow> namespace_target list \<Rightarrow> bool" where
  "full_before c d \<longleftrightarrow> d \<noteq> [] \<and> MAX_PERMISSION_QUERY_ITEMS < chunk_load c + length (nt_batch (hd d))"

lemma split_loop_chunks:
  assumes "n = chunk_load current" and "list_all chunk_ok chunks" and "chunk_ok current"
    and "successively full_before (chunks @ [current])"
  shows "list_all chunk_ok (splitLoop chunks current n ts) \<and> successively full_before (splitLoop chunks current n ts)"
  using assms
proof (induction chunks current n ts rule: splitLoop.induct)
  case (1 chunks current n)
  then have "current \<noteq> []" by (simp add: chunk_ok_def)
  with 1 show ?case by simp
next
  case (2 chunks current n t ts)
  have ne: "current \<noteq> []" using "2.prems"(3) by (simp add: chunk_ok_def)
  show ?case
  proof (cases "MAX_PERMISSION_QUERY_ITEMS < n + length (nt_batch t)")
    case True
    have "successively full_before ((chunks @ [current]) @ [[t]])"
      using "2.prems"(1,4) True by (simp add: successively_append_iff full_before_def)
    moreover have "list_all chunk_ok (chunks @ [current])" using "2.prems"(2,3) by simp
    moreover have "length (nt_batch t) = chunk_load [t]" "chunk_ok [t]" by (simp_all add: chunk_ok_def)
    ultimately have "list_all chunk_ok (splitLoop (chunks @ [current]) [t] (length (nt_batch t)) ts)
      \<and> successively full_before (splitLoop (chunks @ [current]) [t] (length (nt_batch t)) ts)"
      using "2.IH"(1) True ne by blast
    with True ne show ?thesis by (simp only: splitLoop.simps if_True conj_ac simp_thms not_False_eq_True)
  next
    case False
    have "chunk_ok (current @ [t])" using False "2.prems"(1) by (simp add: chunk_ok_def)
    moreover have "successively full_before (chunks @ [current @ [t]])"
      using "2.prems"(4) ne by (auto simp: successively_append_iff full_before_def)
    moreover have "n + length (nt_batch t) = chunk_load (current @ [t])" using "2.prems"(1) by simp
    ultimately have "list_all chunk_ok (splitLoop chunks (current @ [t]) (n + length (nt_batch t)) ts)
      \<and> successively full_before (splitLoop chunks (current @ [t]) (n + length (nt_batch t)) ts)"
      using "2.IH"(2) False ne "2.prems"(2) by blast
    with False show ?thesis by (simp only: splitLoop.simps if_False simp_thms)
  qed
qed

theorem chunks_bounded:
  "concat (splitNamespaceTargets ts) = ts
   \<and> list_all chunk_ok (splitNamespaceTargets ts) \<and> successively full_before (splitNamespaceTargets ts)"
proof (cases ts)
  case (Cons t us)
  have "list_all chunk_ok (splitLoop [] [t] (length (nt_batch t)) us)
      \<and> successively full_before (splitLoop [] [t] (length (nt_batch t)) us)"
    by (rule split_loop_chunks) (simp_all add: chunk_ok_def)
  then show ?thesis using split_concat [of ts] by (simp add: splitNamespaceTargets_def Cons)
qed (simp add: splitNamespaceTargets_def)

section \<open>Answers that are not definitive\<close>

lemma settled_stamp: "jm_get (pm_timestamps (notifyPermissions b (recordQueryTimestamp now k s))) k = Some now"
  by (simp add: notifyPermissions_def schedulePermissionNotify_def rebuildPermissionMap_def recordQueryTimestamp_def)

text \<open>A kind query whose answer is a transient error or a failure is treated as answered for two
  minutes.\<close>

theorem kind_query_transient_cached:
  assumes "generation = pm_generation s" and "now \<noteq> 0" and "now' - now < PERMISSION_REFRESH_INTERVAL_MS"
    and "k = kindQueryKey (or_current c (pm_currentClusterId s)) ns (resolvePermissionGVK b kind grp version) kind"
  shows "queryKindPermissions b now' kind ns c grp version (settleKindQuery b now generation k f outcome s)
    = settleKindQuery b now generation k f outcome s"
proof -
  let ?s = "settleKindQuery b now generation k f outcome s"
  have "\<exists>s1. same_core s s1 \<and> ?s = notifyPermissions b (recordQueryTimestamp now k (settleKey k s1))"
    by (cases outcome) (auto simp: settleKindQuery_def assms(1) intro: kind_core same_core_refl)
  then obtain s1 where c: "same_core s s1" and s: "?s = notifyPermissions b (recordQueryTimestamp now k (settleKey k s1))" by blast
  have "isRecentQuery now' ?s k" unfolding s isRecentQuery_def settled_stamp using assms(2,3) by simp
  moreover have "pm_currentClusterId ?s = pm_currentClusterId s"
    using c unfolding s
    by (simp add: notifyPermissions_def schedulePermissionNotify_def rebuildPermissionMap_def recordQueryTimestamp_def
      settleKey_def same_core_def)
  ultimately show ?thesis using assms(4) by (simp add: queryKindPermissions_def Let_def)
qed

text \<open>A namespace query whose answer is transient leaves no timestamp of its own.\<close>

theorem namespace_transient_not_cached:
  assumes "find isTransientPermissionResultError (targetResults response t) = Some err"
    and "generation = pm_generation s"
  shows "pm_timestamps (settleNamespaceChunk b now generation g [t] (Answered response) s) = pm_timestamps s
    \<and> pm_results (settleNamespaceChunk b now generation g [t] (Answered response) s) = pm_results s
    \<and> jm_get (pm_metadata (settleNamespaceChunk b now generation g [t] (Answered response) s)) (nt_requestKey t)
        = Some \<lparr>qn_clusterId = nt_clusterId t, qn_namespace = nt_namespace t, qn_specLists = nt_specLists t\<rparr>"
  using assms
  by (simp add: settleNamespaceChunk_def applyNamespaceQueryResponse_def applyTargetResponse_def
    finalizeNamespaceQuery_def completeTransientNamespaceQuery_def completeQueryDiagnostics_def Let_def
    settleKey_def recordNamespaceQueryMetadata_def notifyDiagnostics_def notifyPermissions_def
    schedulePermissionNotify_def rebuildPermissionMap_def jset_add_def split: option.split)

end
