(* ===== verification/Spec2Isabelle.thy ===== *)
theory Spec2Isabelle
  imports ClusterScope RefreshManagerInv RefreshRuntimeInv MetricsDemand StreamProtocolInv
    FetchRuns LineDiffInv DockRuns ObjectMapRuns PermissionProps
begin

text \<open>
  A verification development for the front end of Luxury Yacht, a desktop application for
  Kubernetes clusters. The front end (TypeScript, under \<open>frontend/src/\<close>) keeps its views current by
  polling snapshots from the Go backend and by listening to streams of changes; the refresh
  subsystem that does so holds most of the program's concurrency and is modelled first. The
  permission store, the dockable panels, the object map, the line diff and the filter selections
  follow. Paths below are relative to \<open>src/frontend/src/\<close>.

  \<^bold>\<open>The parts and how they interact.\<close>

    \<^item> The refresh manager (\<open>core/refresh/RefreshManager.ts\<close>) owns one polling timer per named
      refresher, runs the subscribed callbacks, and cools down after each run, longer after errors.
    \<^item> The orchestrator (\<open>core/refresh/orchestrator.ts\<close>) decides which scopes of which domains are
      enabled, leases them to views, starts and stops their streams, fetches their snapshots, and
      tells the backend which clusters need metrics. It reacts to events: authentication lost and
      recovered, clusters removed or ready, changed kubeconfig, denied permissions, drift.
    \<^item> A cluster runtime (\<open>core/refresh/refreshRuntime.ts\<close>) keeps, per scope, six small state
      machines: activation and leases, readiness, reconciliation, permission, the request in flight,
      and the stream.
    \<^item> A resource stream (\<open>core/refresh/streaming/\<close>) is a protocol machine per subscription: it
      coalesces changes, detects gaps and duplicates, resynchronises, and derives the health that
      the orchestrator consults before it polls.
    \<^item> A scope (\<open>core/refresh/clusterScope.ts\<close>) is a string that names the clusters and the rest of
      what is asked for; every part above parses and builds such strings.
    \<^item> The snapshot store (\<open>core/refresh/store.ts\<close>) publishes what was fetched, and the error notifier
      (\<open>core/refresh/refreshErrorNotifier.ts\<close>) shows each failure once; both are driven by the fetches.
    \<^item> The permission store (\<open>core/capabilities/\<close>) asks the backend, in batches per namespace, cluster
      or kind, what the user may do, and publishes the answers under one key per permission.
    \<^item> The dockable panels (\<open>ui/dockable/\<close>) are tabs in two docks and in floating groups, with one
      layout store per cluster.
    \<^item> The object map (\<open>modules/object-map/\<close>) turns a graph of objects into what is drawn: reachability
      from a seed, collapsed ReplicaSets, a layered layout, the filters and focus of the view. Its scope
      is built by \<open>clusterScope.ts\<close>, and its filters are filter selections
      (\<open>shared/components/dropdowns/multiSelectFilterSelection.ts\<close>).
    \<^item> The line diff (\<open>shared/components/diff/\<close>) compares two texts line by line.

  \<^bold>\<open>Theories: the refresh subsystem.\<close>

    \<^item> \<open>Prelude\<close>: what the components share: JavaScript maps as association lists in insertion order
      (\<open>jm_get\<close>, \<open>jm_set\<close>, \<open>jm_delete\<close>, the locale \<open>keyed_store\<close>), arrays and strings (\<open>js_trim\<close>,
      \<open>js_split\<close>, \<open>js_unique\<close>), and the locales \<open>event_machine\<close> (an invariant kept by every event holds
      after every run) and \<open>absorbing_machine\<close>.
    \<^item> \<open>ClusterScope\<close>: \<open>clusterScope.ts\<close>, and the locale \<open>scope_codec\<close> with its interpretation. Round
      trips, injectivity of object scopes, normal form of parsed lists.
    \<^item> \<open>RefresherRuntime\<close>: \<open>refresherRuntimeState.ts\<close>, the runtime state of one refresher in its three
      independent dimensions.
    \<^item> \<open>RefreshManager\<close>, \<open>RefreshManagerInv\<close>: \<open>RefreshManager.ts\<close> with \<open>viewRegistry.ts\<close>. The state
      \<open>manager\<close> holds the map of refreshers, a heap of instances (closures keep an instance after a
      re-registration), the armed timers, the running executions and the log of emitted events. Each
      method is a function on it; timers that fire and promises that settle are the steps of
      \<open>manager_step\<close>. The invariant \<open>manager_inv\<close> gives uniqueness of timers and ownership of runs.
    \<^item> \<open>ScopedStates\<close>, \<open>RefreshRuntime\<close>, \<open>RefreshRuntimeInv\<close>: \<open>refreshRuntime.ts\<close>. The six state
      machines as datatypes and transition functions; the runtime as a map from keys to scope states
      that never stores a default state. \<open>keeps\<close> says which methods leave which component alone.
    \<^item> \<open>MetricsDemand\<close>: \<open>metricsDemandState.ts\<close> and its driver in the orchestrator, with the
      request in flight and the retry timer as the environment's part of the state. The run
      \<open>demand_run\<close> carries a ghost: the demand the backend last acknowledged, set by its answers alone.
    \<^item> \<open>StreamProtocol\<close>, \<open>StreamProtocolInv\<close>: the protocol machine of \<open>resourceStreamProtocol.ts\<close>
      and its host in \<open>resourceStreamManager.ts\<close>, which runs the effects a transition returns.
    \<^item> \<open>StreamLifecycle\<close>, \<open>StreamHandlers\<close>: the streaming half of \<open>orchestrator.ts\<close> and
      \<open>scopeNormalization.ts\<close>: the state \<open>orch\<close> holds a heap of cluster runtimes (a start that is
      pending keeps the runtime it began with), the pending starts with the continuations attached
      to them, the scheduled microtasks, the snapshots being fetched, and the log of calls that leave
      the component. One function per method and event handler.
    \<^item> \<open>StreamLifecycleInv\<close>, \<open>StreamLifecycleRuns\<close>: the invariant \<open>orch_inv\<close>, the relation \<open>quiet\<close>
      (keeps the invariant, forgets no runtime, opens no stream) with one lemma per operation,
      collected in \<open>quiet_ops\<close>; all handlers as events, reachability (\<open>orch_reach\<close>), and the
      properties of runs. Only settling a start opens a stream and only removing a cluster forgets a
      runtime; they have lemmas of their own.
    \<^item> \<open>SnapshotStore\<close>, \<open>SnapshotStoreInv\<close>: \<open>store.ts\<close>, \<open>snapshotMerge.ts\<close> and
      \<open>refreshErrorNotifier.ts\<close>; the store with its two cached views refines a function from domains
      and scopes to states.
    \<^item> \<open>FetchLifecycle\<close>, \<open>FetchLifecycleInv\<close>, \<open>FetchRuns\<close>: the fetching half of \<open>orchestrator.ts\<close>
      and its composition with the streaming half, the store and the notifier (\<open>fetch_world\<close>). The
      steps of \<open>world_reach\<close> interleave all of them; requests are counted, answers that lost their
      request change nothing, signals are refetched, denials last.

  \<^bold>\<open>Theories: the other parts.\<close>

    \<^item> \<open>Permissions\<close>, \<open>PermissionStore\<close>: the specs, keys, batches and statuses of
      \<open>core/capabilities/\<close>, and the state and operations of \<open>permissionStore.ts\<close>: queries, answers,
      diagnostics, the periodic refresh with its staggered timers, the events of the bus. One event
      per entry point (\<open>permStep\<close>); answers arrive in any order.
    \<^item> \<open>PermissionInv\<close>, \<open>PermissionProps\<close>: the invariant \<open>perm_inv\<close> (an interpretation of
      \<open>event_machine\<close>), and what follows for queries, pending permissions, keys and chunks.
    \<^item> \<open>DockTabs\<close>, \<open>DockStore\<close>, \<open>DockProvider\<close>: \<open>tabGroupState.ts\<close>, \<open>panelLayoutStore.ts\<close> and the
      operations of \<open>DockablePanelProvider.tsx\<close>. \<open>DockTabsInv\<close>, \<open>DockRuns\<close>: tab groups stay well
      formed in every state the provider reaches (\<open>dock_reach\<close>); dropping and closing tabs.
    \<^item> \<open>ObjectMapGraph\<close>, \<open>ObjectMapKinds\<close>, \<open>ObjectMapCollapse\<close>: traversal, directional filter,
      selection, redundant edges; the kind filter that contracts hidden paths; collapsed ReplicaSets.
      \<open>ObjectMapColumns\<close>, \<open>ObjectMapLayout\<close>, \<open>ObjectMapLayoutInv\<close>: layering, ordering, positions and
      routes of \<open>objectMapLayout.ts\<close>, and their guarantees. \<open>ObjectMapModel\<close>, \<open>ObjectMapVisible\<close>,
      \<open>ObjectMapRuns\<close>: the view (\<open>useObjectMapModel.ts\<close>, \<open>objectMapVisibleState.ts\<close>,
      \<open>objectMapScope.ts\<close>), the states it reaches (\<open>map_reach\<close>) and what is drawn in them.
    \<^item> \<open>FilterSelection\<close>, \<open>KindNames\<close>: \<open>multiSelectFilterSelection.ts\<close> and \<open>utils/kindAliasMap.ts\<close>.
    \<^item> \<open>LineDiff\<close>, \<open>LineDiffInv\<close>: \<open>lineDiff.ts\<close> and the merged rows of \<open>diffUtils.ts\<close>, against edit
      scripts and the edit distance.

  \<^bold>\<open>Bounds and fuel.\<close> All model functions are total. Applying an event to the stream host runs
  effects that may apply further events; \<open>applyProtocolEvent\<close> carries three levels of fuel, and
  \<open>effects_terminate\<close> shows that more fuel changes nothing. The search for a free floating group id
  (\<open>firstFreeCandidate\<close>) has as many steps as there are ids in use, and \<open>nextFloatingGroupId_fresh\<close>
  shows that they are enough. The line diff stops at the budget of the code or when the distance passes
  the sum of the lengths. The searches of the object map end because every node is visited once, or,
  in the kind filter, because a queued simple path is replaced by longer simple paths: the multiset of
  the numbers of their open nodes decreases. Numbers that JavaScript only counts up or compares (identifiers, sequence
  numbers, times, versions) are natural numbers or integers; layout coordinates are rationals; no
  code modelled here relies on the range of doubles, and where \<open>NaN\<close>, the infinities or
  \<open>undefined\<close> can arise (\<open>js_number\<close>, the frontiers of the diff, barycenters) they are values.

  \<^bold>\<open>Parameters and assumptions.\<close> What the orchestrator reads from the rest of the application is
  the record \<open>stream_env\<close>, given anew with every event: the registrations of the domains, whether a
  cluster's backend serves, whether auto-refresh is on, whether the current view shows a scope's
  stream, the selected cluster; the record \<open>fetch_env\<close> adds the time and what the fetch decisions
  read. Start functions of streams are assumed not to throw before they return their promise, and the
  continuations of a promise are assumed to run in the order they were attached. In the streaming half
  fetches begin, settle and are cancelled as events (\<open>EvBeginRequest\<close>, \<open>EvSettleRequest\<close>,
  \<open>EvCancelRequest\<close>), and the calls of \<open>performFetch\<close> and \<open>fetchScopedDomain\<close> its handlers make are
  logged; in \<open>fetch_world\<close> those fetches are steps of their own after the handler (\<open>FePerform\<close>), which
  settle later (\<open>FeSettle\<close>). Refresh callbacks and requests may settle in any order, with any
  outcome. Scopes given to the orchestrator are normalised: trimmed domains without a colon, and not
  the bare star that cancels every scope of a domain. The table of built-in kinds, the descriptors of
  row merging and the metric domains are generated from contracts of the backend and are arguments, as
  are \<open>Date.now()\<close> and \<open>localeCompare\<close>. \<open>Array.sort\<close> is stable, so for a consistent comparator it is
  an insertion sort.

  \<^bold>\<open>Not modelled.\<close> The registration of domains and refreshers and the context accessors of the
  orchestrator; the HTTP client of snapshots (\<open>client.ts\<close>), whose outcomes are the environment; the
  normalisation of wire messages, visibility, telemetry and health aggregation of the stream manager;
  container log streams; the hooks over the permission store; drag payloads between native windows; the
  renderer of the object map; grid tables, resource queries, logs, YAML, settings and the cluster
  workspace. React components, DOM plumbing, telemetry, generated types and the Go backend are left out
  on purpose: they are presentation, input/output or another language.
\<close>

end
